(* ===== verification/Prelude.thy ===== *)
theory Prelude
  imports Main "HOL-Library.Word" "HOL-Library.Sublist"
begin

text \<open>
  Shared material of the development: the machine-integer types of the C sources, little-endian
  serialisation (the target, a Cortex-M3, is little endian), the byte sum used by both checksums of
  the firmware, and the bit lists that the serial line carries. The lemmas declared \<open>[simp]\<close>
  and the collections below are what the component proofs rest on.
\<close>

unbundle bit_operations_syntax

named_theorems hist_simps \<open>how an operation extends the access history\<close>
named_theorems line_simps \<open>how an access moves the levels of the serial line\<close>

type_synonym u8 = "8 word"
type_synonym u16 = "16 word"
type_synonym u32 = "32 word"

section \<open>Little-endian words\<close>

definition le16 :: "u16 \<Rightarrow> u8 list" where
  "le16 w = [ucast w, ucast (drop_bit 8 w)]"

definition le32 :: "u32 \<Rightarrow> u8 list" where
  "le32 w = [ucast w, ucast (drop_bit 8 w), ucast (drop_bit 16 w), ucast (drop_bit 24 w)]"

definition word32_of :: "u8 \<Rightarrow> u8 \<Rightarrow> u8 \<Rightarrow> u8 \<Rightarrow> u32" where
  "word32_of a b c d =
     ucast a OR push_bit 8 (ucast b) OR push_bit 16 (ucast c) OR push_bit 24 (ucast d)"

definition word16_of :: "u8 \<Rightarrow> u8 \<Rightarrow> u16" where
  "word16_of a b = ucast a OR push_bit 8 (ucast b)"

text \<open>Reading a 32-bit word of memory at an offset, as a cast pointer does.\<close>

definition rd32 :: "(int \<Rightarrow> u8) \<Rightarrow> int \<Rightarrow> u32" where
  "rd32 m i = word32_of (m i) (m (i + 1)) (m (i + 2)) (m (i + 3))"

definition rd16 :: "(int \<Rightarrow> u8) \<Rightarrow> int \<Rightarrow> u16" where
  "rd16 m i = word16_of (m i) (m (i + 1))"

lemma length_le32 [simp]: "length (le32 w) = 4"
  by (simp add: le32_def)

lemma length_le16 [simp]: "length (le16 w) = 2"
  by (simp add: le16_def)

lemma le32_nth [simp]:
  "le32 w ! 0 = ucast w" "le32 w ! Suc 0 = ucast (drop_bit 8 w)"
  "le32 w ! 2 = ucast (drop_bit 16 w)" "le32 w ! 3 = ucast (drop_bit 24 w)"
  by (simp_all add: le32_def numeral_2_eq_2 numeral_3_eq_3)

lemma byte_bit_beyond: "8 \<le> n \<Longrightarrow> \<not> bit (b :: u8) n"
  using bit_imp_le_length [of b n] by auto

lemma word32_of_le32 [simp]:
  "word32_of (ucast w) (ucast (drop_bit 8 w)) (ucast (drop_bit 16 w)) (ucast (drop_bit 24 w)) = w"
proof (rule bit_word_eqI)
  fix n :: nat
  assume "n < LENGTH(32)"
  then show "bit (word32_of (ucast w) (ucast (drop_bit 8 w)) (ucast (drop_bit 16 w))
      (ucast (drop_bit 24 w))) n = bit w n"
    by (cases "n < 8"; cases "n < 16"; cases "n < 24")
      (auto simp: word32_of_def bit_simps)
qed

lemma word16_of_le16 [simp]: "word16_of (ucast w) (ucast (drop_bit 8 w)) = w"
proof (rule bit_word_eqI)
  fix n :: nat
  assume "n < LENGTH(16)"
  then show "bit (word16_of (ucast w) (ucast (drop_bit 8 w))) n = bit w n"
    by (cases "n < 8") (auto simp: word16_of_def bit_simps)
qed

lemma le32_word32_of [simp]: "le32 (word32_of a b c d) = [a, b, c, d]"
proof -
  have "ucast (word32_of a b c d) = a" "ucast (drop_bit 8 (word32_of a b c d)) = b"
    "ucast (drop_bit 16 (word32_of a b c d)) = c" "ucast (drop_bit 24 (word32_of a b c d)) = d"
    by (auto simp: word32_of_def bit_simps byte_bit_beyond intro!: bit_word_eqI)
  then show ?thesis by (simp add: le32_def)
qed

lemma le32_inject [simp]: "le32 v = le32 w \<longleftrightarrow> v = w"
proof
  assume eq: "le32 v = le32 w"
  have "v = word32_of (le32 v ! 0) (le32 v ! 1) (le32 v ! 2) (le32 v ! 3)" by simp
  also have "\<dots> = word32_of (le32 w ! 0) (le32 w ! 1) (le32 w ! 2) (le32 w ! 3)" by (simp only: eq)
  also have "\<dots> = w" by simp
  finally show "v = w" .
qed simp

lemma unat_add_u32: "unat (x :: u32) + unat y < 2 ^ 32 \<Longrightarrow> unat (x + y) = unat x + unat y"
  using unat_add_lem [of x y] by simp

lemma unat_ucast_u32 [simp]: "unat (ucast (x :: u16) :: u32) = unat x"
proof -
  have "unat x < 2 ^ 16" using unsigned_less [where 'a = nat, of x] by simp
  then show ?thesis by (simp add: unsigned_ucast_eq take_bit_nat_eq_self)
qed

lemma unat_of_nat_u32: "n < 2 ^ 32 \<Longrightarrow> unat (of_nat n :: u32) = n"
  by (simp add: unsigned_of_nat take_bit_nat_eq_self)

lemma and_ones_u8: "(0xFF :: u8) AND x = x"
proof -
  have ones: "(0xFF :: u8) = - 1" by simp
  show ?thesis unfolding ones by simp
qed

section \<open>Byte sums\<close>

definition byte_sum :: "u8 list \<Rightarrow> u32" where
  "byte_sum xs = sum_list (map ucast xs)"

lemma byte_sum_simps [simp]:
  "byte_sum [] = 0"
  "byte_sum (x # xs) = ucast x + byte_sum xs"
  "byte_sum (xs @ ys) = byte_sum xs + byte_sum ys"
  by (simp_all add: byte_sum_def)

lemma unat_byte_sum:
  assumes "length xs * 255 < 2 ^ 32"
  shows "unat (byte_sum xs) = sum_list (map unat xs) \<and> unat (byte_sum xs) \<le> length xs * 255"
  using assms
proof (induction xs)
  case Nil
  then show ?case by simp
next
  case (Cons x xs)
  have x256: "unat x < 256" using unsigned_less [where 'a = nat, of x] by simp
  then have x: "unat (ucast x :: u32) = unat x" by (simp add: unsigned_ucast_eq take_bit_nat_eq_self)
  from x256 have x255: "unat x \<le> 255" by simp
  from Cons have IH: "unat (byte_sum xs) = sum_list (map unat xs)"
    "unat (byte_sum xs) \<le> length xs * 255" by simp_all
  have "unat (ucast x :: u32) + unat (byte_sum xs) < 2 ^ LENGTH(32)"
    using Cons.prems IH(2) x x255 by simp
  then have "unat (byte_sum (x # xs)) = unat x + unat (byte_sum xs)"
    unfolding byte_sum_simps unat_add_lem by (simp only: x)
  with IH x255 show ?case by simp
qed

section \<open>Bits of a byte, most significant first\<close>

definition bits_msb :: "u8 \<Rightarrow> bool list" where
  "bits_msb b = map (\<lambda>i. bit b (7 - i)) [0..<8]"

definition shift_in :: "bool \<Rightarrow> u8 \<Rightarrow> u8" where
  "shift_in x acc = push_bit 1 acc OR (if x then 1 else 0)"

definition byte_of_bits :: "bool list \<Rightarrow> u8" where
  "byte_of_bits bs = fold shift_in bs 0"

lemma length_bits_msb [simp]: "length (bits_msb b) = 8"
  by (simp add: bits_msb_def)

lemma bits_msb_unfold:
  "bits_msb b = [bit b 7, bit b 6, bit b 5, bit b 4, bit b 3, bit b 2, bit b 1, bit b 0]"
  by (simp add: bits_msb_def upt_rec)

lemma bit_shift_in: "n < 8 \<Longrightarrow> bit (shift_in x acc) n = (if n = 0 then x else bit acc (n - 1))"
  unfolding shift_in_def bit_or_iff bit_push_bit_iff by (cases n) (auto simp: bit_simps)

lemma bit_fold_shift_in:
  "n < 8 \<Longrightarrow> bit (fold shift_in bs acc) n
     = (if n < length bs then rev bs ! n else bit acc (n - length bs))"
proof (induction bs arbitrary: acc)
  case Nil
  then show ?case by simp
next
  case (Cons x bs)
  from Cons.prems have "n - length bs < 8" by simp
  then show ?case
    unfolding fold_Cons o_apply Cons.IH [OF Cons.prems]
    by (auto simp: bit_shift_in nth_append)
qed

lemma bit_byte_of_bits: "n < 8 \<Longrightarrow> bit (byte_of_bits bs) n = (n < length bs \<and> rev bs ! n)"
  by (simp add: byte_of_bits_def bit_fold_shift_in)

lemma byte_of_bits_msb [simp]: "byte_of_bits (bits_msb b) = b"
proof (rule bit_word_eqI)
  fix n :: nat
  assume "n < LENGTH(8)"
  then show "bit (byte_of_bits (bits_msb b)) n = bit b n"
    by (simp add: bit_byte_of_bits bits_msb_def rev_map rev_nth)
qed

lemma bits_msb_inject [simp]: "bits_msb a = bits_msb b \<longleftrightarrow> a = b"
  by (metis byte_of_bits_msb)

text \<open>Cutting a bit string into bytes.\<close>

fun bytes_of_bits :: "bool list \<Rightarrow> u8 list" where
  "bytes_of_bits (a # b # c # d # e # f # g # h # r) =
     byte_of_bits [a, b, c, d, e, f, g, h] # bytes_of_bits r"
| "bytes_of_bits _ = []"

lemma bytes_of_bits_msb [simp]: "bytes_of_bits (bits_msb b @ r) = b # bytes_of_bits r"
proof -
  have "bytes_of_bits (bits_msb b @ r) = byte_of_bits (bits_msb b) # bytes_of_bits r"
    by (simp add: bits_msb_unfold)
  then show ?thesis by simp
qed

lemma bytes_of_bits_concat [simp]: "bytes_of_bits (concat (map bits_msb bs)) = bs"
  by (induction bs) simp_all

section \<open>Lists\<close>

lemma fold_snoc_map: "fold (\<lambda>x acc. acc @ [f x]) xs ys = ys @ map f xs"
  by (induction xs arbitrary: ys) simp_all

lemma next_boundary:
  fixes x m :: nat
  assumes "0 < m"
  shows "(x + (m - x mod m)) mod m = 0"
proof -
  have "x = x div m * m + x mod m" "x mod m < m" using assms by simp_all
  then have "x + (m - x mod m) = x div m * m + m" by linarith
  also have "\<dots> = (x div m + 1) * m" by simp
  finally show ?thesis by simp
qed

lemma prefix_trans_snoc: "prefix xs ys \<Longrightarrow> prefix xs (ys @ zs)"
  by (auto simp: prefix_def)

end
