(* ===== verification/Mmio.thy ===== *)
theory Mmio
  imports Prelude
begin

text \<open>
  Memory-mapped input and output. The firmware reaches the hardware by volatile reads and writes of
  peripheral registers only, so the state of the hardware side is the history of those accesses,
  oldest first. What a read returns is not code: it is a parameter \<open>env\<close>, a function of the
  history so far and the register, which every operation that reads takes as an argument. Nothing is
  assumed about it here; a theorem that needs documented behaviour of the hardware states it as a
  hypothesis on \<open>env\<close>.

  The registers are named after the \<^verbatim>\<open>GPIO_TypeDef\<close>, \<^verbatim>\<open>AFIO_TypeDef\<close>, \<^verbatim>\<open>FLASH_TypeDef\<close>,
  \<^verbatim>\<open>OB_TypeDef\<close>, \<^verbatim>\<open>RCC_TypeDef\<close>, \<^verbatim>\<open>USART_TypeDef\<close> and \<^verbatim>\<open>ETH_TypeDef\<close> structures of
  \<^verbatim>\<open>stm32f10x.h\<close>; the \<open>_BB\<close> names are bit-band aliases, the \<open>_BYTE\<close> names
  byte accesses to a part of a register, and \<open>Half\<close> and \<open>Word\<close> are
  half-word and word accesses to the memory-mapped program flash.
\<close>

datatype port = GPIOA | GPIOB | GPIOC | GPIOD | GPIOE | GPIOF | GPIOG

datatype rcc_reg =
    RCC_CR | RCC_CFGR | RCC_CFGR2 | RCC_CIR | APB2RSTR | APB1RSTR | AHBENR | APB2ENR | APB1ENR
  | RCC_BDCR | RCC_CSR | AHBRSTR | CFGR_MCO_BYTE | CIR_BYTE2 | CIR_BYTE3 | BDCR_BYTE
  | CR_HSION_BB | CR_PLLON_BB | CR_PLL2ON_BB | CR_PLL3ON_BB | CR_CSSON_BB | CFGR_OTGFSPRE_BB
  | BDCR_RTCEN_BB | BDCR_BDRST_BB | CSR_LSION_BB | CFGR2_I2S2SRC_BB | CFGR2_I2S3SRC_BB

datatype usart = USART1 | USART2 | USART3 | UART4 | UART5
datatype usart_reg = USART_SR | USART_DR | USART_BRR | USART_CR1 | USART_CR2 | USART_CR3 | USART_GTPR

datatype eth_reg =
    MACCR | MACFFR | MACHTHR | MACHTLR | MACMIIAR | MACMIIDR | MACFCR | MACVLANTR | MACRWUFFR
  | MACPMTCSR | MACSR | MACIMR | MACAHR u32 | MACALR u32 | DMABMR | DMATPDR | DMARPDR | DMARDLAR
  | DMATDLAR | DMASR | DMAOMR | DMAIER | DMAMFBOCR | DMACHTDR | DMACHRDR | DMACHTBAR | DMACHRBAR
  | MMC u32

datatype core_reg =
    SCB_VTOR | SCB_AIRCR | SCB_SCR | NVIC_ISER nat | NVIC_ICER nat | NVIC_IP nat | SCB_SHP nat
  | SysTick_CTRL | SysTick_LOAD | SysTick_VAL

datatype reg =
    CRL port | CRH port | IDR port | ODR port | BSRR port | BRR port | LCKR port
  | AFIO_EVCR | AFIO_MAPR | AFIO_EXTICR nat | EVCR_EVOE_BB | MAPR_MII_RMII_SEL_BB
  | FLASH_ACR | FLASH_KEYR | FLASH_OPTKEYR | FLASH_SR | FLASH_CR | FLASH_AR | FLASH_OBR | FLASH_WRPR
  | OB_RDP | OB_USER | OB_WRP0 | OB_WRP1 | OB_WRP2 | OB_WRP3
  | Half u32 | Word u32
  | RCC rcc_reg | USART usart usart_reg | ETH eth_reg | CORE core_reg

datatype ev = Rd reg u32 | Wr reg u32

type_synonym hist = "ev list"
type_synonym env = "hist \<Rightarrow> reg \<Rightarrow> u32"

datatype FunctionalState = DISABLE | ENABLE
datatype FlagStatus = RESET | SET

definition wr :: "reg \<Rightarrow> u32 \<Rightarrow> hist \<Rightarrow> hist" where
  "wr r v h = h @ [Wr r v]"

definition rd :: "env \<Rightarrow> reg \<Rightarrow> hist \<Rightarrow> u32 \<times> hist" where
  "rd env r h = (env h r, h @ [Rd r (env h r)])"

text \<open>\<^verbatim>\<open>R |= m\<close> and \<^verbatim>\<open>R &= m\<close> on a register: one read, then one write.\<close>

definition or_reg :: "env \<Rightarrow> reg \<Rightarrow> u32 \<Rightarrow> hist \<Rightarrow> hist" where
  "or_reg env r m h = (let (v, h) = rd env r h in wr r (v OR m) h)"

definition and_reg :: "env \<Rightarrow> reg \<Rightarrow> u32 \<Rightarrow> hist \<Rightarrow> hist" where
  "and_reg env r m h = (let (v, h) = rd env r h in wr r (v AND m) h)"

lemma rd_simps [simp]: "fst (rd env r h) = env h r" "snd (rd env r h) = h @ [Rd r (env h r)]"
  by (simp_all add: rd_def)

lemma or_reg_hist [hist_simps]:
  "or_reg env r m h = h @ [Rd r (env h r), Wr r (env h r OR m)]"
  by (simp add: or_reg_def rd_def wr_def)

lemma and_reg_hist [hist_simps]:
  "and_reg env r m h = h @ [Rd r (env h r), Wr r (env h r AND m)]"
  by (simp add: and_reg_def rd_def wr_def)

lemma wr_hist [hist_simps]: "wr r v h = h @ [Wr r v]"
  by (simp add: wr_def)

section \<open>Output levels\<close>

text \<open>
  The level an output pin shows after a history, by the reference manual's meaning of the three
  output registers: a write to BSRR sets the pins of its low half and otherwise resets those of its
  high half, a write to BRR resets pins, a write to ODR stores all sixteen. The output register is 0
  after reset.
\<close>

fun step_level :: "port \<Rightarrow> nat \<Rightarrow> ev \<Rightarrow> bool \<Rightarrow> bool" where
  "step_level p i (Wr (BSRR q) v) l =
     (if q = p then (if bit v i then True else if bit v (i + 16) then False else l) else l)"
| "step_level p i (Wr (BRR q) v) l = (if q = p \<and> bit v i then False else l)"
| "step_level p i (Wr (ODR q) v) l = (if q = p then bit v i else l)"
| "step_level p i _ l = l"

definition out_level :: "port \<Rightarrow> nat \<Rightarrow> hist \<Rightarrow> bool" where
  "out_level p i h = fold (step_level p i) h False"

lemma out_level_append [simp]:
  "out_level p i (h @ es) = fold (step_level p i) es (out_level p i h)"
  by (simp add: out_level_def)

text \<open>The value last stored in a register, if the history stores one.\<close>

definition last_write :: "reg \<Rightarrow> hist \<Rightarrow> u32 option" where
  "last_write r h = fold (\<lambda>e acc. case e of Wr q v \<Rightarrow> if q = r then Some v else acc | Rd _ _ \<Rightarrow> acc) h None"

lemma last_write_Nil [simp]: "last_write r [] = None"
  by (simp add: last_write_def)

lemma last_write_snoc [simp]:
  "last_write r (h @ [Wr q v]) = (if q = r then Some v else last_write r h)"
  "last_write r (h @ [Rd q v]) = last_write r h"
  by (simp_all add: last_write_def)

lemma last_write_append_other:
  "\<forall>e \<in> set es. \<forall>v. e \<noteq> Wr r v \<Longrightarrow> last_write r (h @ es) = last_write r h"
  by (induction es rule: rev_induct)
    (auto simp: last_write_def simp flip: append_assoc split: ev.splits)

section \<open>Contract of a history transformer\<close>

text \<open>
  Every operation of a driver only adds accesses to the history: it cannot undo or reorder what it
  has done before. Clients use the contract through the locale; each driver operation interprets it.
\<close>

locale extends_history =
  fixes run :: "hist \<Rightarrow> hist"
  assumes run_prefix: "prefix h (run h)"
begin

definition added :: "hist \<Rightarrow> hist" where
  "added h = drop (length h) (run h)"

lemma run_eq: "run h = h @ added h"
  using run_prefix [of h] by (auto simp: added_def prefix_def)

lemma past_kept: "i < length h \<Longrightarrow> run h ! i = h ! i"
  by (simp add: run_eq nth_append)

lemma length_mono: "length h \<le> length (run h)"
  by (simp add: run_eq)

lemma run_level: "out_level p i (run h) = fold (step_level p i) (added h) (out_level p i h)"
  by (simp add: run_eq)

end

interpretation wr_ext: extends_history "wr r v" for r v
  by unfold_locales (simp add: wr_def)

interpretation rd_ext: extends_history "\<lambda>h. snd (rd env r h)" for env r
  by unfold_locales simp

section \<open>Which registers an operation touches\<close>

fun reg_of :: "ev \<Rightarrow> reg" where
  "reg_of (Rd r v) = r"
| "reg_of (Wr r v) = r"

text \<open>\<open>touches R h h'\<close>: between \<open>h\<close> and \<open>h'\<close> only registers in \<open>R\<close> have been accessed.\<close>

definition touches :: "(reg \<Rightarrow> bool) \<Rightarrow> hist \<Rightarrow> hist \<Rightarrow> bool" where
  "touches R h h' \<longleftrightarrow> (\<exists>es. h' = h @ es \<and> (\<forall>e \<in> set es. R (reg_of e)))"

named_theorems touch \<open>operations that keep to their registers\<close>

lemma touches_refl [touch]: "touches R h h"
  by (auto simp: touches_def)

lemma touches_trans: "touches R h h1 \<Longrightarrow> touches R h1 h2 \<Longrightarrow> touches R h h2"
  by (auto simp: touches_def)

lemma touches_snoc: "touches R h h1 \<Longrightarrow> R (reg_of e) \<Longrightarrow> touches R h (h1 @ [e])"
  by (auto simp: touches_def)

lemma touches_wr [touch]: "R r \<Longrightarrow> touches R h h1 \<Longrightarrow> touches R h (wr r v h1)"
  by (simp add: wr_def touches_snoc)

lemma touches_rd [touch]: "R r \<Longrightarrow> touches R h h1 \<Longrightarrow> touches R h (snd (rd env r h1))"
  by (simp add: touches_snoc)

lemma touches_or [touch]: "R r \<Longrightarrow> touches R h h1 \<Longrightarrow> touches R h (or_reg env r m h1)"
  by (auto simp: or_reg_def case_prod_beta simp del: rd_simps intro!: touch)

lemma touches_and [touch]: "R r \<Longrightarrow> touches R h h1 \<Longrightarrow> touches R h (and_reg env r m h1)"
  by (auto simp: and_reg_def case_prod_beta simp del: rd_simps intro!: touch)

lemma touches_fold:
  "(\<And>i g. touches R h g \<Longrightarrow> touches R h (f i g)) \<Longrightarrow> touches R h h1 \<Longrightarrow> touches R h (fold f is h1)"
  by (induction "is" arbitrary: h1) auto

lemma touches_fold_pair:
  "(\<And>i p. touches R h (snd p) \<Longrightarrow> touches R h (snd (f i p))) \<Longrightarrow> touches R h (snd p) \<Longrightarrow>
   touches R h (snd (fold f is p))"
  by (induction "is" arbitrary: p) auto

end
