(* ===== verification/NetText.thy ===== *)
theory NetText
  imports Prelude
begin

text \<open>
  Network settings as text, \<^verbatim>\<open>strToIp\<close>, \<^verbatim>\<open>strToMac\<close> and \<^verbatim>\<open>strToPort\<close> of \<^verbatim>\<open>flash.c\<close> and
  \<^verbatim>\<open>replaceEnter\<close> of \<^verbatim>\<open>stm32f107.c\<close>. A C string is a list of bytes; the functions of \<^verbatim>\<open>string.h\<close> and
  \<^verbatim>\<open>stdlib.h\<close> they call are modelled first. The local character arrays are lists of their declared size.
\<close>

abbreviation (input) FLASH_OK :: int where "FLASH_OK \<equiv> 0"
abbreviation (input) FLASH_CHK_ERR :: int where "FLASH_CHK_ERR \<equiv> 2"
abbreviation (input) IP_STR_MAX_LEN :: nat where "IP_STR_MAX_LEN \<equiv> 16"
abbreviation (input) MAC_STR_MAX_LEN :: nat where "MAC_STR_MAX_LEN \<equiv> 24"

section \<open>The C library\<close>

definition cstr :: "u8 list \<Rightarrow> u8 list" where
  "cstr s = takeWhile (\<lambda>c. c \<noteq> 0) s"

definition strncpy :: "u8 list \<Rightarrow> u8 list \<Rightarrow> nat \<Rightarrow> u8 list" where
  "strncpy dst src n =
     (let s = cstr (take n src) in s @ replicate (n - length s) 0 @ drop n dst)"

definition is_space :: "u8 \<Rightarrow> bool" where
  "is_space c \<longleftrightarrow> c = 0x20 \<or> 0x09 \<le> c \<and> c \<le> 0x0D"

definition is_digit :: "u8 \<Rightarrow> bool" where
  "is_digit c \<longleftrightarrow> 0x30 \<le> c \<and> c \<le> 0x39"

fun digits_value :: "int \<Rightarrow> u8 list \<Rightarrow> int" where
  "digits_value acc [] = acc"
| "digits_value acc (c # cs) = (if is_digit c then digits_value (10 * acc + (uint c - 0x30)) cs else acc)"

definition atoi :: "u8 list \<Rightarrow> int" where
  "atoi s = (case dropWhile is_space s of
       [] \<Rightarrow> 0
     | c # cs \<Rightarrow> (if c = 0x2D then - digits_value 0 cs
                 else if c = 0x2B then digits_value 0 cs else digits_value 0 (c # cs)))"

section \<open>Splitting\<close>

text \<open>
  The cutting loop shared by the two address parsers: each separator has been replaced by a zero, the
  cursor jumps past the zero of the segment it has read and stays on the last byte at the end.
\<close>

primrec segments :: "u8 list \<Rightarrow> nat \<Rightarrow> nat \<Rightarrow> u8 list list" where
  "segments buf p 0 = []"
| "segments buf p (Suc n) =
     (let s = cstr (drop p buf);
          q = p + length s + 1
      in s # segments buf (if q \<ge> length buf then length buf - 1 else q) n)"

definition split_buffer :: "u8 \<Rightarrow> nat \<Rightarrow> u8 list \<Rightarrow> nat \<Rightarrow> u8 list" where
  "split_buffer sep maxlen str len =
     (let buf = strncpy (replicate maxlen 0) str len;
          buf = map (\<lambda>c. if c = sep then 0 else c) buf
      in buf[maxlen - 1 := 0])"

section \<open>The parsers\<close>

type_synonym MY_IP_ADDR = "u8 list"
type_synonym MY_MAC_ADDR = "u8 list"

definition ip_segment :: "u8 list \<Rightarrow> u8 list" where
  "ip_segment s = (let s = (if length s \<le> 0 then [0x30] else s)
     in if length s > 3 then [0x32, 0x35, 0x35] else s)"

definition strToIp :: "u8 list \<Rightarrow> nat \<Rightarrow> MY_IP_ADDR \<Rightarrow> int \<times> MY_IP_ADDR" where
  "strToIp ip len ipAddr =
     (if len > IP_STR_MAX_LEN then (FLASH_CHK_ERR, ipAddr)
      else let ipStr = split_buffer 0x2E IP_STR_MAX_LEN ip len;
               ipSub = map ip_segment (segments ipStr 0 4)
           in (FLASH_OK, map (\<lambda>s. word_of_int (atoi s)) ipSub))"

definition hex_nibble :: "u8 \<Rightarrow> u8" where
  "hex_nibble h =
     (let v = 0x0F;
          v = (if h \<le> 0x66 \<and> h \<ge> 0x61 then h - 0x61 + 0x0A else v);
          v = (if h \<le> 0x39 \<and> h \<ge> 0x30 then h - 0x30 + 0x0 else v);
          v = (if h \<le> 0x46 \<and> h \<ge> 0x41 then h - 0x41 + 0x0A else v)
      in v)"

definition toHex :: "u8 \<Rightarrow> u8 \<Rightarrow> u8" where
  "toHex h l = push_bit 4 (hex_nibble h) OR hex_nibble l"

definition mac_segment :: "u8 list \<Rightarrow> u8 \<times> u8" where
  "mac_segment s =
     (let s = (if length s \<le> 0 then [0x30] else s);
          s = (if length s = 1 then [0x30, s ! 0] else s);
          s = (if length s > 2 then [0x66, 0x66] @ drop 2 s else s)
      in (s ! 0, s ! 1))"

definition strToMac :: "u8 list \<Rightarrow> nat \<Rightarrow> MY_MAC_ADDR \<Rightarrow> int \<times> MY_MAC_ADDR" where
  "strToMac mac len macAddr =
     (if len > MAC_STR_MAX_LEN then (FLASH_CHK_ERR, macAddr)
      else let macStr = split_buffer 0x3A MAC_STR_MAX_LEN mac len;
               macSub = map mac_segment (segments macStr 0 6)
           in (FLASH_OK, map (\<lambda>(h, l). toHex h l) macSub))"

definition strToPort :: "u8 list \<Rightarrow> nat \<Rightarrow> u16 \<Rightarrow> int \<times> u16" where
  "strToPort port len portInfo =
     (if len > 5 then (FLASH_CHK_ERR, portInfo)
      else let val = atoi (cstr port);
               val = (if val > 65535 then 65535 else val)
           in (FLASH_OK, word_of_int val))"

text \<open>The loop of \<^verbatim>\<open>replaceEnter\<close>: up to the terminator, carriage returns and line feeds become zeros.\<close>

fun replaceEnter :: "u8 list \<Rightarrow> u8 list" where
  "replaceEnter [] = []"
| "replaceEnter (c # cs) =
     (if c = 0 then c # cs
      else (if c = 0x0D \<or> c = 0x0A then 0 else c) # replaceEnter cs)"

section \<open>Text of a setting\<close>

text \<open>The texts the parsers are meant for: dotted decimal, colon-separated hexadecimal, a decimal port.\<close>

fun dec :: "nat \<Rightarrow> u8 list" where
  "dec n = (if n < 10 then [0x30 + of_nat n] else dec (n div 10) @ [0x30 + of_nat (n mod 10)])"

definition hex_digit :: "u8 \<Rightarrow> u8" where
  "hex_digit v = (if v < 10 then 0x30 + v else 0x61 + (v - 10))"

definition hex2 :: "u8 \<Rightarrow> u8 list" where
  "hex2 b = [hex_digit (drop_bit 4 b), hex_digit (b AND 0x0F)]"

fun joined :: "u8 \<Rightarrow> u8 list list \<Rightarrow> u8 list" where
  "joined sep [] = []"
| "joined sep [s] = s"
| "joined sep (s # ss) = s @ [sep] @ joined sep ss"

declare dec.simps [simp del]

lemma digit_bytes:
  assumes "d < 10"
  shows "is_digit (0x30 + of_nat d)" "uint (0x30 + of_nat d :: u8) = 48 + int d"
proof -
  have u: "unat (0x30 + of_nat d :: u8) = 48 + d"
    using assms by (subst unat_word_ariths) (simp add: unsigned_of_nat take_bit_nat_eq_self)
  then show "uint (0x30 + of_nat d :: u8) = 48 + int d" by (metis of_nat_add of_nat_numeral uint_nat)
  from u assms show "is_digit (0x30 + of_nat d)" by (simp add: is_digit_def word_le_nat_alt)
qed

lemma digits_value_append:
  "\<forall>c \<in> set xs. is_digit c \<Longrightarrow> digits_value acc (xs @ ys) = digits_value (digits_value acc xs) ys"
  by (induction xs arbitrary: acc) simp_all

lemma dec_digits: "\<forall>c \<in> set (dec n). is_digit c"
  by (induction n rule: dec.induct) (subst dec.simps, auto simp: digit_bytes)

lemma dec_not_Nil [simp]: "dec n \<noteq> []"
  by (subst dec.simps) simp

lemma digits_value_dec: "digits_value 0 (dec n) = int n"
proof (induction n rule: dec.induct)
  case (1 n)
  show ?case
  proof (cases "n < 10")
    case True
    then show ?thesis by (subst dec.simps) (simp add: digit_bytes)
  next
    case False
    have "digits_value 0 (dec (n div 10) @ [0x30 + of_nat (n mod 10)]) = 10 * int (n div 10) + int (n mod 10)"
      using "1.IH" [OF False] by (simp add: digits_value_append dec_digits digit_bytes)
    also have "\<dots> = int n" using div_mult_mod_eq [of n 10] by linarith
    finally show ?thesis using False by (subst dec.simps) simp
  qed
qed

lemma digit_facts: "is_digit c \<Longrightarrow> \<not> is_space c \<and> c \<noteq> 0x2D \<and> c \<noteq> 0x2B \<and> c \<noteq> 0x2E \<and> c \<noteq> 0"
  by (auto simp: is_digit_def is_space_def word_le_nat_alt)

lemma atoi_dec: "atoi (dec n) = int n"
proof -
  obtain c cs where d: "dec n = c # cs" using dec_not_Nil [of n] by (cases "dec n") auto
  then have "is_digit c" using dec_digits [of n] by simp
  with digit_facts d digits_value_dec [of n] show ?thesis by (simp add: atoi_def)
qed

lemma length_dec_le: "n < 10 ^ k \<Longrightarrow> 0 < k \<Longrightarrow> length (dec n) \<le> k"
proof (induction k arbitrary: n)
  case (Suc k)
  show ?case
  proof (cases "n < 10")
    case True
    then show ?thesis by (subst dec.simps) simp
  next
    case False
    then have "0 < k" using Suc.prems(1) by (cases k) auto
    moreover have "n div 10 < 10 ^ k" using Suc.prems(1) by (simp add: less_mult_imp_div_less)
    ultimately show ?thesis using Suc.IH [of "n div 10"] False by (subst dec.simps) simp
  qed
qed simp

section \<open>The cutting loop\<close>

lemma cstr_append: "0 \<notin> set s \<Longrightarrow> cstr (s @ 0 # t) = s"
  unfolding cstr_def by (subst takeWhile_append2) auto

lemma segments_joined:
  "ss \<noteq> [] \<Longrightarrow> \<forall>s \<in> set ss. 0 \<notin> set s \<Longrightarrow>
   segments (pre @ joined 0 ss @ 0 # post) (length pre) (length ss) = ss"
proof (induction "0 :: u8" ss arbitrary: pre rule: joined.induct)
  case (2 s)
  then show ?case by (simp add: cstr_append)
next
  case (3 s t ss)
  let ?buf = "pre @ joined 0 (s # t # ss) @ 0 # post"
  have c: "cstr (drop (length pre) ?buf) = s" using 3(3) by (simp add: cstr_append)
  have len: "length (s # t # ss) = Suc (length (t # ss))" by simp
  have "\<not> length ?buf \<le> length pre + length s + 1" by simp
  then have "segments ?buf (length pre) (length (s # t # ss))
      = s # segments ?buf (length pre + length s + 1) (length (t # ss))"
    unfolding len segments.simps Let_def c by (simp only: if_False)
  also have "segments ?buf (length pre + length s + 1) (length (t # ss))
      = segments ((pre @ s @ [0]) @ joined 0 (t # ss) @ 0 # post) (length (pre @ s @ [0])) (length (t # ss))"
    by simp
  also have "\<dots> = t # ss" using 3 by (intro "3"(1)) simp_all
  finally show ?case .
qed simp

lemma map_joined:
  "\<forall>s \<in> set ss. sep \<notin> set s \<Longrightarrow> map (\<lambda>c. if c = sep then 0 else c) (joined sep ss) = joined 0 ss"
  by (induction sep ss rule: joined.induct) (auto intro: map_idI)

lemma joined_no_zero: "sep \<noteq> 0 \<Longrightarrow> \<forall>s \<in> set ss. 0 \<notin> set s \<Longrightarrow> 0 \<notin> set (joined sep ss)"
  by (induction sep ss rule: joined.induct) auto

lemma split_buffer_joined:
  assumes "length (joined sep ss) < maxlen" "sep \<noteq> 0" "\<forall>s \<in> set ss. sep \<notin> set s \<and> 0 \<notin> set s"
  shows "split_buffer sep maxlen (joined sep ss) (length (joined sep ss))
    = joined 0 ss @ 0 # replicate (maxlen - length (joined sep ss) - 1) 0"
proof -
  let ?j = "joined sep ss" and ?z = "replicate (maxlen - length (joined sep ss)) (0 :: u8)"
  have "cstr ?j = ?j" using joined_no_zero [of sep ss] assms by (auto simp: cstr_def takeWhile_eq_all_conv)
  then have b: "strncpy (replicate maxlen 0) ?j (length ?j) = ?j @ ?z"
    by (simp add: strncpy_def Let_def)
  have j: "map (\<lambda>c. if c = sep then 0 else c) (?j @ ?z) = joined 0 ss @ ?z"
    using assms(3) by (simp add: map_joined)
  have len: "length (joined 0 ss) = length ?j"
    using arg_cong [OF map_joined [of ss sep], of length] assms(3) by simp
  have z: "?z = 0 # replicate (maxlen - length ?j - 1) 0"
    using assms(1) by (cases "maxlen - length ?j") simp_all
  have "(joined 0 ss @ ?z)[maxlen - 1 := 0] = joined 0 ss @ ?z[maxlen - 1 - length ?j := 0]"
    using assms(1) len by (subst list_update_append) auto
  also have "?z[maxlen - 1 - length ?j := 0] = ?z"
    using assms(1) by (intro nth_equalityI) (auto simp: nth_list_update)
  finally have upd: "(joined 0 ss @ ?z)[maxlen - 1 := 0] = joined 0 ss @ ?z" .
  show ?thesis unfolding split_buffer_def b Let_def j upd by (simp only: z)
qed

lemma segments_split_buffer:
  assumes "ss \<noteq> []" "length (joined sep ss) < maxlen" "sep \<noteq> 0"
    "\<forall>s \<in> set ss. sep \<notin> set s \<and> 0 \<notin> set s" "n = length ss"
  shows "segments (split_buffer sep maxlen (joined sep ss) (length (joined sep ss))) 0 n = ss"
proof -
  have "\<forall>s \<in> set ss. 0 \<notin> set s" using assms(4) by blast
  from segments_joined [OF assms(1) this, of "[]"] show ?thesis
    unfolding split_buffer_joined [OF assms(2,3,4)] assms(5) by (simp only: append_Nil list.size)
qed

section \<open>Round trips\<close>

lemma dec_segment: "length (dec n) \<le> 3 \<Longrightarrow> ip_segment (dec n) = dec n"
  by (simp add: ip_segment_def Let_def)

lemma length_joined_4: "length (joined sep [a, b, c, d]) = length a + length b + length c + length d + 3"
  by simp

text \<open>
  C33: \<^verbatim>\<open>strToIp\<close> reads every dotted-decimal address back, and does so from its first \<open>len\<close> bytes only.
\<close>

theorem strToIp_dotted:
  assumes "s = joined 0x2E (map (dec \<circ> unat) [a, b, c, d])"
  shows "strToIp s (length s) old = (FLASH_OK, [a, b, c, d])"
proof -
  let ?ss = "map (dec \<circ> unat) [a, b, c, d]"
  have l: "length (dec (unat x)) \<le> 3" for x :: u8
    using unsigned_less [where 'a = nat, of x] by (intro length_dec_le) simp_all
  have digits: "\<forall>s \<in> set ?ss. 0x2E \<notin> set s \<and> 0 \<notin> set s"
    using dec_digits digit_facts by fastforce
  have len: "length s < 16"
    unfolding assms using l [of a] l [of b] l [of c] l [of d] by simp
  have "segments (split_buffer 0x2E 16 s (length s)) 0 4 = ?ss"
    unfolding assms by (rule segments_split_buffer [OF _ len [unfolded assms] _ digits]) simp_all
  then show ?thesis
    using len l by (simp add: strToIp_def Let_def dec_segment atoi_dec)
qed

theorem strToIp_dotted_witness:
  "strToIp [0x31,0x39,0x32,0x2E,0x31,0x36,0x38,0x2E,0x31,0x2E,0x37,0x38] 12 [] = (FLASH_OK, [192, 168, 1, 78])"
proof -
  have d: "dec 192 = [0x31,0x39,0x32]" "dec 168 = [0x31,0x36,0x38]" "dec (Suc 0) = [0x31]" "dec 78 = [0x37,0x38]"
    by (simp_all add: dec.simps)
  have j: "joined 0x2E (map (dec \<circ> unat) [192, 168, 1, 78 :: u8])
      = [0x31,0x39,0x32,0x2E,0x31,0x36,0x38,0x2E,0x31,0x2E,0x37,0x38]" by (simp add: d)
  have len: "length [0x31,0x39,0x32,0x2E,0x31,0x36,0x38,0x2E,0x31,0x2E,0x37,0x38 :: u8] = 12" by simp
  show ?thesis using strToIp_dotted [OF refl, of 192 168 1 78 "[]"] unfolding j len .
qed

lemma nibble_digit:
  assumes "v < 16"
  shows "hex_nibble (hex_digit v) = v" "hex_digit v \<noteq> 0" "hex_digit v \<noteq> 0x3A"
proof -
  have v: "unat v < 16" using assms by (simp add: word_less_nat_alt)
  then have d: "unat (0x30 + v) = 48 + unat v" by (simp add: unat_word_ariths)
  have l: "unat (0x61 + (v - 10)) = 97 + (unat v - 10)" if "\<not> v < 10"
  proof -
    have "unat (v - 10) = unat v - 10" using that by (simp add: unat_sub word_le_nat_alt word_less_nat_alt)
    then show ?thesis using v that by (simp add: unat_word_ariths word_less_nat_alt)
  qed
  show "hex_nibble (hex_digit v) = v"
    using v d l by (auto simp: hex_nibble_def hex_digit_def Let_def word_le_nat_alt word_less_nat_alt)
  have "unat (hex_digit v) \<noteq> 0 \<and> unat (hex_digit v) \<noteq> 58"
    using v d l by (auto simp: hex_digit_def word_less_nat_alt)
  then show "hex_digit v \<noteq> 0" "hex_digit v \<noteq> 0x3A" by auto
qed

lemma low_nibble_mask: "n < 8 \<Longrightarrow> bit (0x0F :: u8) n \<longleftrightarrow> n < 4"
  by (auto simp: numeral_eq_Suc less_Suc_eq)

lemma nibbles:
  "drop_bit 4 (b :: u8) < 16" "b AND 0x0F < 16" "push_bit 4 (drop_bit 4 b) OR (b AND 0x0F) = b"
proof -
  show "drop_bit 4 b < 16"
    using unsigned_less [where 'a = nat, of b]
    by (simp add: word_less_nat_alt unat_drop_bit_eq drop_bit_eq_div unat_div less_mult_imp_div_less)
  have "b AND 0x0F \<le> 0x0F" by (rule word_and_le1)
  also have "(0x0F :: u8) < 16" by simp
  finally show "b AND 0x0F < 16" .
  show "push_bit 4 (drop_bit 4 b) OR (b AND 0x0F) = b"
  proof (rule bit_word_eqI)
    fix n assume "n < LENGTH(8)"
    then have "bit (0x0F :: u8) n \<longleftrightarrow> n < 4" by (intro low_nibble_mask) simp
    then show "bit (push_bit 4 (drop_bit 4 b) OR (b AND 0x0F)) n = bit b n"
      unfolding bit_or_iff bit_and_iff bit_push_bit_iff bit_drop_bit_eq
      using \<open>n < LENGTH(8)\<close> by (cases "n < 4") auto
  qed
qed

lemma toHex_hex2: "mac_segment (hex2 b) = (hex_digit (drop_bit 4 b), hex_digit (b AND 0x0F))"
  "toHex (hex_digit (drop_bit 4 b)) (hex_digit (b AND 0x0F)) = b"
  using nibbles [of b] by (simp_all add: mac_segment_def hex2_def toHex_def nibble_digit)

text \<open>
  \<^verbatim>\<open>strToMac\<close> reads every colon-separated hexadecimal address back.
\<close>

theorem strToMac_colons:
  assumes "s = joined 0x3A (map hex2 [a, b, c, d, e, f])"
  shows "strToMac s (length s) old = (FLASH_OK, [a, b, c, d, e, f])"
proof -
  let ?ss = "map hex2 [a, b, c, d, e, f]"
  have hex: "\<forall>s \<in> set ?ss. 0x3A \<notin> set s \<and> 0 \<notin> set s"
    using nibbles nibble_digit by (fastforce simp: hex2_def)
  have len: "length s = 17" unfolding assms by (simp add: hex2_def)
  have "length (joined 0x3A ?ss) < 24" using len unfolding assms by simp
  then have "segments (split_buffer 0x3A 24 s (length s)) 0 6 = ?ss"
    unfolding assms by (rule segments_split_buffer [OF _ _ _ hex, rotated]) simp_all
  then show ?thesis
    using len by (simp add: strToMac_def Let_def toHex_hex2)
qed

theorem strToMac_colons_witness:
  "strToMac [0x30,0x32,0x3A,0x30,0x61,0x3A,0x30,0x66,0x3A,0x30,0x65,0x3A,0x30,0x65,0x3A,0x66,0x36] 17 []
     = (FLASH_OK, [0x02, 0x0A, 0x0F, 0x0E, 0x0E, 0xF6])"
proof -
  have j: "joined 0x3A (map hex2 [0x02, 0x0A, 0x0F, 0x0E, 0x0E, 0xF6])
      = [0x30,0x32,0x3A,0x30,0x61,0x3A,0x30,0x66,0x3A,0x30,0x65,0x3A,0x30,0x65,0x3A,0x66,0x36]"
    by (simp add: hex2_def hex_digit_def drop_bit_eq_div)
  have len: "length [0x30,0x32,0x3A,0x30,0x61,0x3A,0x30,0x66,0x3A,0x30,0x65,0x3A,0x30,0x65,0x3A,0x66,0x36 :: u8] = 17"
    by simp
  show ?thesis
    using strToMac_colons [OF refl, of "0x02" "0x0A" "0x0F" "0x0E" "0x0E" "0xF6" "[]"] unfolding j len .
qed

text \<open>
  \<^verbatim>\<open>strToPort\<close> reads the decimal text of every number of at most five digits, saturated at 65535,
  and refuses a longer length.
\<close>

theorem strToPort_decimal:
  assumes "n < 100000"
  shows "strToPort (dec n @ 0 # junk) (length (dec n)) old = (FLASH_OK, of_nat (min n 65535)) \<and>
    (len > 5 \<longrightarrow> strToPort s len old = (FLASH_CHK_ERR, old))"
proof -
  have l: "length (dec n) \<le> 5" using assms by (intro length_dec_le) simp_all
  have "0 \<notin> set (dec n)" using dec_digits digit_facts by blast
  then have a: "atoi (cstr (dec n @ 0 # junk)) = int n" by (simp add: cstr_append atoi_dec)
  have v: "word_of_int (if int n > 65535 then 65535 else int n) = (of_nat (min n 65535) :: u16)"
    by (simp add: min_def)
  have "strToPort (dec n @ 0 # junk) (length (dec n)) old = (FLASH_OK, of_nat (min n 65535))"
    using l unfolding strToPort_def Let_def a v by simp
  then show ?thesis by (simp add: strToPort_def)
qed

theorem strToPort_decimal_witness:
  "strToPort [0x38, 0x38, 0x38, 0] 3 0 = (FLASH_OK, 888) \<and> strToPort [0x39,0x39,0x39,0x39,0x39,0] 5 0 = (FLASH_OK, 65535)"
proof -
  have d: "dec 888 = [0x38, 0x38, 0x38]" "dec 99999 = [0x39,0x39,0x39,0x39,0x39]"
    by (simp_all add: dec.simps)
  have len: "length [0x38, 0x38, 0x38 :: u8] = 3" "length [0x39,0x39,0x39,0x39,0x39 :: u8] = 5" by simp_all
  show ?thesis
    using strToPort_decimal [of 888 "[]" 0 6 "[]"] strToPort_decimal [of 99999 "[]" 0 6 "[]"]
    unfolding d len by simp
qed

text \<open>\<^verbatim>\<open>replaceEnter\<close> changes nothing but the line ends before the terminator, which it ends at.\<close>

lemma replaceEnter_length [simp]: "length (replaceEnter s) = length s"
  by (induction s rule: replaceEnter.induct) simp_all

lemma replaceEnter_spec:
  "0 \<notin> set s \<Longrightarrow> replaceEnter (s @ 0 # t) = map (\<lambda>c. if c = 0x0D \<or> c = 0x0A then 0 else c) s @ 0 # t"
  by (induction s) auto

end
