(* ===== verification/SoftSpi.thy ===== *)
theory SoftSpi
  imports Gpio
begin

text \<open>
  The bit-banged SPI master of \<^verbatim>\<open>stm32f107.c\<close> on port D (PD2 clock, PD3 select, PD4 data out, PD5
  data in), a decoder that reads the line levels back from the access history, and the byte bus that
  the serial-flash driver sees. The decoder samples the data-out level at rising clock edges while the
  select line is low, most significant bit first, and cuts the samples into one frame per low period of
  the select line. A slave is any function from the finished frames and the bytes of the open frame
  to the byte it shifts out next; \<open>slave_env\<close> turns it into what the data-in pin reads.
\<close>

section \<open>The line macros and the transfer of one byte\<close>

definition MOSI_H :: "hist \<Rightarrow> hist" where "MOSI_H = GPIO_SetBits GPIOD (GPIO_Pin 4)"
definition MOSI_L :: "hist \<Rightarrow> hist" where "MOSI_L = GPIO_ResetBits GPIOD (GPIO_Pin 4)"
definition SCK_H :: "hist \<Rightarrow> hist" where "SCK_H = GPIO_SetBits GPIOD (GPIO_Pin 2)"
definition SCK_L :: "hist \<Rightarrow> hist" where "SCK_L = GPIO_ResetBits GPIOD (GPIO_Pin 2)"
definition NSS_H :: "hist \<Rightarrow> hist" where "NSS_H = GPIO_SetBits GPIOD (GPIO_Pin 3)"
definition NSS_L :: "hist \<Rightarrow> hist" where "NSS_L = GPIO_ResetBits GPIOD (GPIO_Pin 3)"

definition SPI_softInit :: "hist \<Rightarrow> hist" where
  "SPI_softInit h = MOSI_L (SCK_H (NSS_H h))"

definition write_bit :: "u8 \<times> hist \<Rightarrow> u8 \<times> hist" where
  "write_bit = (\<lambda>(write_dat, h).
     (let h = (if write_dat AND 0x80 \<noteq> 0 then GPIO_SetBits GPIOD (GPIO_Pin 4) h
               else GPIO_ResetBits GPIOD (GPIO_Pin 4) h);
          h = SCK_L h;
          write_dat = push_bit 1 write_dat;
          h = SCK_H h
      in (write_dat, h)))"

definition SPI_WriteByte :: "u8 \<Rightarrow> hist \<Rightarrow> hist" where
  "SPI_WriteByte write_dat h = snd (fold (\<lambda>_. write_bit) [0..<8] (write_dat, h))"

definition read_bit :: "env \<Rightarrow> u8 \<times> hist \<Rightarrow> u8 \<times> hist" where
  "read_bit env = (\<lambda>(read_dat, h).
     (let h = SCK_L h;
          read_dat = push_bit 1 read_dat;
          (b, h) = GPIO_ReadInputDataBit env GPIOD (GPIO_Pin 5) h;
          read_dat = (if b \<noteq> 0 then read_dat OR 1 else read_dat);
          h = SCK_H h
      in (read_dat, h)))"

definition SPI_ReadByte :: "env \<Rightarrow> hist \<Rightarrow> u8 \<times> hist" where
  "SPI_ReadByte env h = fold (\<lambda>_. read_bit env) [0..<8] (0, h)"

section \<open>Decoding the line\<close>

record line =
  nss :: bool
  sck :: bool
  mosi :: bool
  cur :: "bool list"
  past :: "bool list list"

definition line_step :: "ev \<Rightarrow> line \<Rightarrow> line" where
  "line_step e l =
     (let n = step_level GPIOD 3 e (nss l); s = step_level GPIOD 2 e (sck l);
          m = step_level GPIOD 4 e (mosi l)
      in \<lparr>nss = n, sck = s, mosi = m,
          cur = (if nss l \<and> \<not> n then [] else if \<not> n \<and> \<not> sck l \<and> s then cur l @ [m] else cur l),
          past = (if \<not> nss l \<and> n then past l @ [cur l] else past l)\<rparr>)"

definition line_of :: "hist \<Rightarrow> line" where
  "line_of h = fold line_step h \<lparr>nss = False, sck = False, mosi = False, cur = [], past = []\<rparr>"

lemma line_of_snoc: "line_of (h @ [e]) = line_step e (line_of h)"
  by (simp add: line_of_def)

lemma line_levels:
  "nss (line_of h) = out_level GPIOD 3 h" "sck (line_of h) = out_level GPIOD 2 h"
  "mosi (line_of h) = out_level GPIOD 4 h"
  by (induction h rule: rev_induct)
    (simp_all add: line_of_def out_level_def line_step_def Let_def)

lemma line_Rd [line_simps]: "line_of (h @ [Rd r v]) = line_of h"
  by (simp add: line_of_snoc line_step_def Let_def)

lemma bit_ucast_Pin [simp]: "i < 16 \<Longrightarrow> bit (ucast (GPIO_Pin i) :: u32) j \<longleftrightarrow> j = i"
  by (auto simp: bit_simps)

lemma line_NSS_L [line_simps]:
  "nss (line_of h) \<Longrightarrow> line_of (NSS_L h) = (line_of h)\<lparr>nss := False, cur := []\<rparr>"
  by (simp add: NSS_L_def GPIO_ResetBits_hist line_of_snoc line_step_def Let_def)

lemma line_NSS_H [line_simps]:
  "\<not> nss (line_of h) \<Longrightarrow>
     line_of (NSS_H h) = (line_of h)\<lparr>nss := True, past := past (line_of h) @ [cur (line_of h)]\<rparr>"
  by (simp add: NSS_H_def GPIO_SetBits_hist line_of_snoc line_step_def Let_def)

lemma line_SCK_L [line_simps]: "line_of (SCK_L h) = (line_of h)\<lparr>sck := False\<rparr>"
  by (simp add: SCK_L_def GPIO_ResetBits_hist line_of_snoc line_step_def Let_def)

lemma line_SCK_H [line_simps]:
  "\<not> nss (line_of h) \<Longrightarrow> \<not> sck (line_of h) \<Longrightarrow>
     line_of (SCK_H h) = (line_of h)\<lparr>sck := True, cur := cur (line_of h) @ [mosi (line_of h)]\<rparr>"
  by (simp add: SCK_H_def GPIO_SetBits_hist line_of_snoc line_step_def Let_def)

lemma line_MOSI [line_simps]:
  "line_of (GPIO_SetBits GPIOD (GPIO_Pin 4) h) = (line_of h)\<lparr>mosi := True\<rparr>"
  "line_of (GPIO_ResetBits GPIOD (GPIO_Pin 4) h) = (line_of h)\<lparr>mosi := False\<rparr>"
  by (simp_all add: GPIO_SetBits_hist GPIO_ResetBits_hist line_of_snoc line_step_def Let_def)

section \<open>One byte out\<close>

lemma msb_test: "(w :: u8) AND 0x80 \<noteq> 0 \<longleftrightarrow> bit w 7"
  using and_exp_eq_0_iff_not_bit [of w 7] by simp

lemma line_write_bit:
  assumes "\<not> nss (line_of h)"
  shows "line_of (snd (write_bit (w, h)))
      = (line_of h)\<lparr>sck := True, mosi := bit w 7, cur := cur (line_of h) @ [bit w 7]\<rparr>"
    and "fst (write_bit (w, h)) = push_bit 1 w"
  using assms by (simp_all add: write_bit_def msb_test line_simps Let_def)

lemma line_write_bits:
  assumes "\<not> nss (line_of h)" "k \<le> 8"
  shows "fst (fold (\<lambda>_. write_bit) [0..<k] (w, h)) = push_bit k w \<and>
    line_of (snd (fold (\<lambda>_. write_bit) [0..<k] (w, h)))
      = (line_of h)\<lparr>sck := (if k = 0 then sck (line_of h) else True),
          mosi := (if k = 0 then mosi (line_of h) else bit w (8 - k)),
          cur := cur (line_of h) @ map (\<lambda>i. bit w (7 - i)) [0..<k]\<rparr>"
  using assms(2)
proof (induction k)
  case 0
  then show ?case by simp
next
  case (Suc k)
  let ?r = "fold (\<lambda>_. write_bit) [0..<k] (w, h)"
  obtain w' h' where r: "?r = (w', h')" by fastforce
  with Suc have w': "w' = push_bit k w" and l: "\<not> nss (line_of h')"
    and c: "cur (line_of h') = cur (line_of h) @ map (\<lambda>i. bit w (7 - i)) [0..<k]"
    and le: "line_of h' = (line_of h)\<lparr>sck := (if k = 0 then sck (line_of h) else True),
          mosi := (if k = 0 then mosi (line_of h) else bit w (8 - k)),
          cur := cur (line_of h) @ map (\<lambda>i. bit w (7 - i)) [0..<k]\<rparr>"
    using assms(1) by simp_all
  have b: "bit w' 7 = bit w (7 - k)" using Suc.prems by (simp add: w' bit_push_bit_iff)
  have "push_bit 1 w' = push_bit (Suc k) w" by (simp add: w' ac_simps)
  then show ?case
    using line_write_bit [OF l, of w'] by (simp add: r b le del: push_bit_Suc)
qed

lemma line_WriteByte [line_simps]:
  assumes "\<not> nss (line_of h)"
  shows "line_of (SPI_WriteByte w h)
    = (line_of h)\<lparr>sck := True, mosi := bit w 0, cur := cur (line_of h) @ bits_msb w\<rparr>"
  using line_write_bits [OF assms, of 8 w] by (simp add: SPI_WriteByte_def bits_msb_def)

section \<open>Bytes on the line\<close>

lemma bytes_of_bits_short [simp]: "length ys < 8 \<Longrightarrow> bytes_of_bits ys = []"
  by (cases ys rule: bytes_of_bits.cases) auto

lemma bytes_of_bits_append:
  "8 dvd length xs \<Longrightarrow> bytes_of_bits (xs @ ys) = bytes_of_bits xs @ bytes_of_bits ys"
proof (induction xs rule: bytes_of_bits.induct)
  case (1 a b c d e f g h r)
  have "length (a # b # c # d # e # f # g # h # r) = 8 + length r" by simp
  with 1(2) have "8 dvd length r" by (metis dvd_add_right_iff dvd_refl)
  then show ?case using 1(1) by simp
qed (auto dest: dvd_imp_le)

lemma bytes_of_bits_replicate: "bytes_of_bits (replicate 8 b) = [if b then 0xFF else 0]"
  by (cases b) (simp_all add: numeral_eq_Suc byte_of_bits_def shift_in_def)

definition open_bytes :: "hist \<Rightarrow> u8 list" where
  "open_bytes h = bytes_of_bits (cur (line_of h))"

definition frames :: "hist \<Rightarrow> u8 list list" where
  "frames h = map bytes_of_bits (past (line_of h))"

definition spi_ready :: "hist \<Rightarrow> bool" where
  "spi_ready h \<longleftrightarrow> nss (line_of h)"

definition spi_current :: "hist \<Rightarrow> u8 list option" where
  "spi_current h =
     (if \<not> nss (line_of h) \<and> 8 dvd length (cur (line_of h)) then Some (open_bytes h) else None)"

definition idle_byte :: "hist \<Rightarrow> u8" where
  "idle_byte h = (if mosi (line_of h) then 0xFF else 0)"

type_synonym slave = "u8 list list \<Rightarrow> u8 list \<Rightarrow> u8"

text \<open>
  A slave shifts its answer out most significant bit first; the bit it shows before the next rising
  edge is the one at the position of the open byte. Every other register, and the other pins of port
  D, read as \<open>base\<close> says.
\<close>

definition slave_env :: "slave \<Rightarrow> env \<Rightarrow> env" where
  "slave_env answer base h r =
     (if r = IDR GPIOD then
        (if bit (answer (frames h) (open_bytes h)) (7 - length (cur (line_of h)) mod 8)
         then Bit_Operations.set_bit 5 (base h r) else unset_bit 5 (base h r))
      else base h r)"

lemma bit_slave_env:
  "bit (slave_env answer base h (IDR GPIOD)) 5
     = bit (answer (frames h) (open_bytes h)) (7 - length (cur (line_of h)) mod 8)"
  by (simp add: slave_env_def bit_simps)

lemma line_read_bit:
  assumes "\<not> nss (line_of h)"
  shows "line_of (snd (read_bit env (r, h)))
      = (line_of h)\<lparr>sck := True, cur := cur (line_of h) @ [mosi (line_of h)]\<rparr>"
    and "fst (read_bit env (r, h)) = shift_in (bit (env (SCK_L h) (IDR GPIOD)) 5) r"
  using assms
  by (simp_all add: read_bit_def ReadInputDataBit_eq line_simps Let_def shift_in_def)

lemma frames_line_cong: "past (line_of h) = past (line_of h') \<Longrightarrow> frames h = frames h'"
  by (simp add: frames_def)

lemma line_read_bits:
  assumes "\<not> nss (line_of h)" "8 dvd length (cur (line_of h))" "k \<le> 8"
  shows "fst (fold (\<lambda>_. read_bit (slave_env answer base)) [0..<k] (0, h))
      = fold shift_in (map (\<lambda>i. bit (answer (frames h) (open_bytes h)) (7 - i)) [0..<k]) 0 \<and>
    line_of (snd (fold (\<lambda>_. read_bit (slave_env answer base)) [0..<k] (0, h)))
      = (line_of h)\<lparr>sck := (if k = 0 then sck (line_of h) else True),
          cur := cur (line_of h) @ replicate k (mosi (line_of h))\<rparr>"
  using assms(3)
proof (induction k)
  case 0
  then show ?case by simp
next
  case (Suc k)
  obtain r' h' where r: "fold (\<lambda>_. read_bit (slave_env answer base)) [0..<k] (0, h) = (r', h')"
    by fastforce
  with Suc have
    r': "r' = fold shift_in (map (\<lambda>i. bit (answer (frames h) (open_bytes h)) (7 - i)) [0..<k]) 0" and
    le: "line_of h' = (line_of h)\<lparr>sck := (if k = 0 then sck (line_of h) else True),
          cur := cur (line_of h) @ replicate k (mosi (line_of h))\<rparr>"
    by simp_all
  have l: "\<not> nss (line_of h')" using assms(1) le by simp
  have "frames (SCK_L h') = frames h" "open_bytes (SCK_L h') = open_bytes h"
    using Suc.prems assms(2)
    by (simp_all add: frames_def open_bytes_def line_simps le bytes_of_bits_append)
  moreover have "length (cur (line_of (SCK_L h'))) mod 8 = k"
    using Suc.prems assms(2) by (simp add: line_simps le mod_add_eq [symmetric] dvd_imp_mod_0)
  ultimately have b: "bit (slave_env answer base (SCK_L h') (IDR GPIOD)) 5
      = bit (answer (frames h) (open_bytes h)) (7 - k)"
    by (simp add: bit_slave_env)
  show ?case
    using line_read_bit [OF l, of "slave_env answer base" r'] b
    by (simp add: r r' le replicate_append_same)
qed

lemma SPI_ReadByte_slave:
  assumes "\<not> nss (line_of h)" "8 dvd length (cur (line_of h))"
  shows "fst (SPI_ReadByte (slave_env answer base) h) = answer (frames h) (open_bytes h)"
    and "line_of (snd (SPI_ReadByte (slave_env answer base) h))
      = (line_of h)\<lparr>sck := True, cur := cur (line_of h) @ replicate 8 (mosi (line_of h))\<rparr>"
proof -
  note l = line_read_bits [OF assms, of 8 answer base]
  show "fst (SPI_ReadByte (slave_env answer base) h) = answer (frames h) (open_bytes h)"
    using l byte_of_bits_msb [of "answer (frames h) (open_bytes h)"]
    by (simp add: SPI_ReadByte_def byte_of_bits_def bits_msb_def)
  show "line_of (snd (SPI_ReadByte (slave_env answer base) h))
      = (line_of h)\<lparr>sck := True, cur := cur (line_of h) @ replicate 8 (mosi (line_of h))\<rparr>"
    using l by (simp add: SPI_ReadByte_def)
qed

section \<open>The byte bus\<close>

text \<open>
  What the serial-flash driver relies on. \<open>current\<close> is the byte string of the open frame, \<open>idle\<close> the
  byte that goes out while a byte is clocked in (the data-out line keeps its last level).
\<close>

fun recv_n :: "nat \<Rightarrow> ('h \<Rightarrow> u8 \<times> 'h) \<Rightarrow> 'h \<Rightarrow> u8 list \<times> 'h" where
  "recv_n 0 recv h = ([], h)"
| "recv_n (Suc n) recv h =
     (let (b, h) = recv h; (bs, h) = recv_n n recv h in (b # bs, h))"

definition idle_after :: "u8 \<Rightarrow> u8" where
  "idle_after b = (if bit b 0 then 0xFF else 0)"

locale byte_bus =
  fixes select :: "'h \<Rightarrow> 'h" and deselect :: "'h \<Rightarrow> 'h"
    and send :: "u8 \<Rightarrow> 'h \<Rightarrow> 'h" and recv :: "'h \<Rightarrow> u8 \<times> 'h"
    and ready :: "'h \<Rightarrow> bool" and current :: "'h \<Rightarrow> u8 list option"
    and finished :: "'h \<Rightarrow> u8 list list" and idle :: "'h \<Rightarrow> u8"
    and answer :: "u8 list list \<Rightarrow> u8 list \<Rightarrow> u8"
  assumes select: "ready h \<Longrightarrow> current (select h) = Some [] \<and> finished (select h) = finished h"
    and send: "current h = Some bs \<Longrightarrow> current (send b h) = Some (bs @ [b]) \<and>
      finished (send b h) = finished h \<and> idle (send b h) = idle_after b"
    and recv: "current h = Some bs \<Longrightarrow> fst (recv h) = answer (finished h) bs \<and>
      current (snd (recv h)) = Some (bs @ [idle h]) \<and>
      finished (snd (recv h)) = finished h \<and> idle (snd (recv h)) = idle h"
    and deselect: "current h = Some bs \<Longrightarrow>
      ready (deselect h) \<and> finished (deselect h) = finished h @ [bs]"
begin

lemma send_all:
  "current h = Some bs \<Longrightarrow> current (fold send xs h) = Some (bs @ xs) \<and>
     finished (fold send xs h) = finished h \<and>
     idle (fold send xs h) = (if xs = [] then idle h else idle_after (last xs))"
proof (induction xs arbitrary: h bs)
  case Nil
  then show ?case by simp
next
  case (Cons x xs)
  from send [OF Cons.prems, of x] have "current (send x h) = Some (bs @ [x])" by simp
  from Cons.IH [OF this] send [OF Cons.prems, of x] show ?case by simp
qed

lemma recv_all:
  "current h = Some bs \<Longrightarrow>
     fst (recv_n n recv h) = map (\<lambda>k. answer (finished h) (bs @ replicate k (idle h))) [0..<n] \<and>
     current (snd (recv_n n recv h)) = Some (bs @ replicate n (idle h)) \<and>
     finished (snd (recv_n n recv h)) = finished h"
proof (induction n arbitrary: h bs)
  case 0
  then show ?case by simp
next
  case (Suc n)
  obtain b h' where r: "recv h = (b, h')" by fastforce
  with recv [OF Suc.prems] have b: "b = answer (finished h) bs"
    and h': "current h' = Some (bs @ [idle h])" "finished h' = finished h" "idle h' = idle h"
    by simp_all
  have shift: "map (\<lambda>k. answer (finished h) (bs @ replicate k (idle h))) [0..<Suc n]
     = answer (finished h) bs #
       map (\<lambda>k. answer (finished h) ((bs @ [idle h]) @ replicate k (idle h))) [0..<n]"
    by (simp add: upt_conv_Cons map_Suc_upt [symmetric] del: upt_Suc map_Suc_upt)
  show ?case
    using Suc.IH [OF h'(1)] unfolding shift by (simp add: r b h' case_prod_beta)
qed

lemma command:
  assumes "ready h"
  shows "ready (deselect (fold send xs (select h)))"
    and "finished (deselect (fold send xs (select h))) = finished h @ [xs]"
  using select [OF assms] send_all [of "select h" "[]" xs] deselect by auto

lemma query:
  assumes "ready h" "xs \<noteq> []"
  shows "fst (recv_n n recv (fold send xs (select h)))
      = map (\<lambda>k. answer (finished h) (xs @ replicate k (idle_after (last xs)))) [0..<n]"
    and "ready (deselect (snd (recv_n n recv (fold send xs (select h)))))"
    and "finished (deselect (snd (recv_n n recv (fold send xs (select h)))))
      = finished h @ [xs @ replicate n (idle_after (last xs))]"
proof -
  from select [OF assms(1)] have sel: "current (select h) = Some []" "finished (select h) = finished h"
    by simp_all
  note s = send_all [OF sel(1), of xs]
  then have c: "current (fold send xs (select h)) = Some xs" by simp
  note r = recv_all [OF c, of n]
  show "fst (recv_n n recv (fold send xs (select h)))
      = map (\<lambda>k. answer (finished h) (xs @ replicate k (idle_after (last xs)))) [0..<n]"
    using r s sel assms(2) by simp
  show "ready (deselect (snd (recv_n n recv (fold send xs (select h)))))"
    "finished (deselect (snd (recv_n n recv (fold send xs (select h)))))
      = finished h @ [xs @ replicate n (idle_after (last xs))]"
    using r s sel assms(2) deselect by auto
qed

end

lemma spi_currentD:
  "spi_current h = Some bs \<Longrightarrow> \<not> nss (line_of h) \<and> 8 dvd length (cur (line_of h)) \<and> bs = open_bytes h"
  by (auto simp: spi_current_def split: if_splits)

interpretation spi: byte_bus NSS_L NSS_H SPI_WriteByte "SPI_ReadByte (slave_env answer base)"
  spi_ready spi_current frames idle_byte answer for answer base
proof (unfold_locales, goal_cases)
  case (1 h)
  then show ?case
    by (simp add: spi_ready_def spi_current_def open_bytes_def frames_def line_simps)
next
  case (2 h bs b)
  from spi_currentD [OF 2] show ?case
    by (simp add: spi_current_def open_bytes_def frames_def idle_byte_def idle_after_def line_simps
        bytes_of_bits_append bytes_of_bits_msb [of b "[]", simplified])
next
  case (3 h bs)
  from spi_currentD [OF 3] show ?case
    by (simp add: SPI_ReadByte_slave spi_current_def open_bytes_def frames_def idle_byte_def
        bytes_of_bits_append bytes_of_bits_replicate)
next
  case (4 h bs)
  from spi_currentD [OF 4] show ?case
    by (simp add: spi_ready_def open_bytes_def frames_def line_simps)
qed

lemma SPI_softInit_ready: "spi_ready (SPI_softInit h)"
proof -
  have "out_level GPIOD 3 (SPI_softInit h)"
    by (simp add: SPI_softInit_def MOSI_L_def SCK_H_def NSS_H_def line_simps)
  then show ?thesis by (simp add: spi_ready_def line_levels)
qed

text \<open>
  C7: what \<^verbatim>\<open>SPI_WriteByte\<close> puts on the wires. With the slave selected, the eight samples of the
  data-out line at the rising clock edges of the call are the bits of the byte, most significant
  first, whatever the clock and data levels were before; the select line does not move and no
  finished frame changes.
\<close>

theorem SPI_WriteByte_wire:
  assumes "\<not> nss (line_of h)"
  shows "\<exists>es. SPI_WriteByte b h = h @ es \<and>
    cur (line_of (SPI_WriteByte b h)) = cur (line_of h) @ bits_msb b \<and>
    past (line_of (SPI_WriteByte b h)) = past (line_of h) \<and> \<not> nss (line_of (SPI_WriteByte b h))"
proof -
  have "prefix h (snd (fold (\<lambda>_. write_bit) [0..<n] (w, h)))" for n w
    by (induction n)
      (auto simp: write_bit_def prefix_def SCK_L_def SCK_H_def hist_simps split: prod.splits)
  then have "prefix h (SPI_WriteByte b h)" by (simp add: SPI_WriteByte_def)
  then show ?thesis using assms by (auto simp: prefix_def line_WriteByte)
qed

theorem SPI_WriteByte_wire_witness:
  "\<exists>es. SPI_WriteByte 0xA5 (NSS_L (SPI_softInit [])) = NSS_L (SPI_softInit []) @ es \<and>
    bytes_of_bits (cur (line_of (SPI_WriteByte 0xA5 (NSS_L (SPI_softInit []))))) = [0xA5]"
proof -
  have l: "line_of (NSS_L (SPI_softInit [])) = (line_of (SPI_softInit []))\<lparr>nss := False, cur := []\<rparr>"
    using SPI_softInit_ready [of "[]"] by (simp add: line_NSS_L spi_ready_def)
  then have "\<not> nss (line_of (NSS_L (SPI_softInit [])))" by simp
  from SPI_WriteByte_wire [OF this, of "0xA5"] show ?thesis
    by (auto simp: l bytes_of_bits_msb [of "0xA5" "[]", simplified])
qed

text \<open>Reading a byte: what the slave answers in the state the bus is in.\<close>

lemma SPI_ReadByte_returns_answer:
  assumes "spi_current h = Some bs"
  shows "fst (SPI_ReadByte (slave_env answer base) h) = answer (frames h) bs"
    and "spi_current (snd (SPI_ReadByte (slave_env answer base) h)) = Some (bs @ [idle_byte h])"
  using spi.recv [OF assms] by simp_all

end
