(* ===== verification/SpiFlash.thy ===== *)
theory SpiFlash
  imports SoftSpi
begin

text \<open>
  The driver of the serial configuration flash, \<^verbatim>\<open>drvflash.c\<close>. A function that fills a buffer
  returns the bytes; a buffer that is read is a function from offsets to bytes, so that advancing the
  pointer is shifting the function. \<^verbatim>\<open>Flash_WaitBusy\<close> polls the status register with no bound, so
  it and everything that calls it return an option: \<open>None\<close> is "does not return". The two writing
  loops are modelled the same way and shown to end whenever the polls do.
\<close>

abbreviation (input) FLASH_WRITE_ENABLE_CMD :: u8 where "FLASH_WRITE_ENABLE_CMD \<equiv> 0x06"
abbreviation (input) FLASH_WRITE_DISABLE_CMD :: u8 where "FLASH_WRITE_DISABLE_CMD \<equiv> 0x04"
abbreviation (input) FLASH_READ_SR_CMD :: u8 where "FLASH_READ_SR_CMD \<equiv> 0x05"
abbreviation (input) FLASH_WRITE_SR_CMD :: u8 where "FLASH_WRITE_SR_CMD \<equiv> 0x01"
abbreviation (input) FLASH_READ_DATA :: u8 where "FLASH_READ_DATA \<equiv> 0x03"
abbreviation (input) FLASH_WRITE_PAGE :: u8 where "FLASH_WRITE_PAGE \<equiv> 0x02"
abbreviation (input) FLASH_ERASE_SECTOR :: u8 where "FLASH_ERASE_SECTOR \<equiv> 0x20"
abbreviation (input) FLASH_ERASE_BLOCK :: u8 where "FLASH_ERASE_BLOCK \<equiv> 0xD8"
abbreviation (input) FLASH_ERASE_CHIP :: u8 where "FLASH_ERASE_CHIP \<equiv> 0xC7"
abbreviation (input) FLASH_READ_ID :: u8 where "FLASH_READ_ID \<equiv> 0x9f"

type_synonym buf = "nat \<Rightarrow> u8"

definition Flash_ReadID :: "env \<Rightarrow> hist \<Rightarrow> u32 \<times> hist" where
  "Flash_ReadID env h =
     (let h = NSS_L h;
          h = SPI_WriteByte FLASH_READ_ID h;
          (b, h) = SPI_ReadByte env h;
          temp = 0 OR push_bit 16 (ucast b);
          (b, h) = SPI_ReadByte env h;
          temp = temp OR push_bit 8 (ucast b);
          (b, h) = SPI_ReadByte env h;
          temp = temp OR ucast b;
          h = NSS_H h
      in (temp, h))"

definition Flash_WriteEnable :: "hist \<Rightarrow> hist" where
  "Flash_WriteEnable h = NSS_H (SPI_WriteByte FLASH_WRITE_ENABLE_CMD (NSS_L h))"

definition Flash_WriteDisable :: "hist \<Rightarrow> hist" where
  "Flash_WriteDisable h = NSS_H (SPI_WriteByte FLASH_WRITE_DISABLE_CMD (NSS_L h))"

definition Flash_ReadSR :: "env \<Rightarrow> hist \<Rightarrow> u8 \<times> hist" where
  "Flash_ReadSR env h =
     (let h = NSS_L h;
          h = SPI_WriteByte FLASH_READ_SR_CMD h;
          (temp, h) = SPI_ReadByte env h;
          h = NSS_H h
      in (temp, h))"

definition Flash_WriteSR :: "u8 \<Rightarrow> hist \<Rightarrow> hist" where
  "Flash_WriteSR dat h = NSS_H (SPI_WriteByte dat (SPI_WriteByte FLASH_WRITE_SR_CMD (NSS_L h)))"

definition Flash_ReadSomeByte :: "env \<Rightarrow> u32 \<Rightarrow> u16 \<Rightarrow> hist \<Rightarrow> u8 list \<times> hist" where
  "Flash_ReadSomeByte env ReadAddr NumByteToWrite h =
     (let h = NSS_L h;
          h = SPI_WriteByte FLASH_READ_DATA h;
          h = SPI_WriteByte (ucast (drop_bit 16 ReadAddr)) h;
          h = SPI_WriteByte (ucast (drop_bit 8 ReadAddr)) h;
          h = SPI_WriteByte (ucast ReadAddr) h;
          (bs, h) = recv_n (unat NumByteToWrite) (SPI_ReadByte env) h;
          h = NSS_H h
      in (bs, h))"

partial_function (option) Flash_WaitBusy :: "env \<Rightarrow> hist \<Rightarrow> hist option" where
  "Flash_WaitBusy env h =
     (let (sr, h1) = Flash_ReadSR env h
      in if sr AND 1 = 1 then Flash_WaitBusy env h1 else Some h1)"

definition Flash_WritePage :: "env \<Rightarrow> buf \<Rightarrow> u32 \<Rightarrow> u16 \<Rightarrow> hist \<Rightarrow> hist option" where
  "Flash_WritePage env pBuffer WriteAddr NumByteToWrite h =
     (let h = Flash_WriteEnable h;
          h = NSS_L h;
          h = SPI_WriteByte FLASH_WRITE_PAGE h;
          h = SPI_WriteByte (ucast (drop_bit 16 WriteAddr)) h;
          h = SPI_WriteByte (ucast (drop_bit 8 WriteAddr)) h;
          h = SPI_WriteByte (ucast WriteAddr) h;
          h = fold (\<lambda>i. SPI_WriteByte (pBuffer i)) [0..<unat NumByteToWrite] h;
          h = NSS_H h
      in Flash_WaitBusy env h)"

partial_function (option) write_pages ::
  "env \<Rightarrow> buf \<Rightarrow> u32 \<Rightarrow> u16 \<Rightarrow> u16 \<Rightarrow> hist \<Rightarrow> (u32 \<times> hist) option" where
  "write_pages env pBuffer WriteAddr NumByteToWrite pageremain h =
     Option.bind (Flash_WritePage env pBuffer WriteAddr pageremain h) (\<lambda>h.
       if NumByteToWrite = pageremain then Some (1, h)
       else write_pages env (\<lambda>i. pBuffer (i + unat pageremain)) (WriteAddr + ucast pageremain)
              (NumByteToWrite - pageremain)
              (if NumByteToWrite - pageremain > 256 then 256 else NumByteToWrite - pageremain) h)"

definition Flash_WriteNoCheck :: "env \<Rightarrow> buf \<Rightarrow> u32 \<Rightarrow> u16 \<Rightarrow> hist \<Rightarrow> (u32 \<times> hist) option" where
  "Flash_WriteNoCheck env pBuffer WriteAddr NumByteToWrite h =
     (let pageremain = ucast (256 - WriteAddr mod 256);
          pageremain = (if NumByteToWrite \<le> pageremain then NumByteToWrite else pageremain)
      in write_pages env pBuffer WriteAddr NumByteToWrite pageremain h)"

partial_function (option) write_sectors ::
  "env \<Rightarrow> buf \<Rightarrow> u32 \<Rightarrow> u16 \<Rightarrow> u16 \<Rightarrow> hist \<Rightarrow> (u32 \<times> hist) option" where
  "write_sectors env pBuffer WriteAddr NumByteToWrite secremain h =
     Option.bind (Flash_WriteNoCheck env pBuffer WriteAddr secremain h) (\<lambda>(_, h).
       if NumByteToWrite = secremain then Some (1, h)
       else write_sectors env (\<lambda>i. pBuffer (i + unat secremain)) (WriteAddr + ucast secremain)
              (NumByteToWrite - secremain)
              (if NumByteToWrite - secremain > 4096 then 4096 else NumByteToWrite - secremain) h)"

definition Flash_Write :: "env \<Rightarrow> buf \<Rightarrow> u32 \<Rightarrow> u16 \<Rightarrow> hist \<Rightarrow> (u32 \<times> hist) option" where
  "Flash_Write env pBuffer WriteAddr NumByteToWrite h =
     (let secoff = ucast (WriteAddr mod 4096);
          secremain = 4096 - secoff;
          secremain = (if NumByteToWrite \<le> secremain then NumByteToWrite else secremain)
      in write_sectors env pBuffer WriteAddr NumByteToWrite secremain h)"

definition erase_at :: "env \<Rightarrow> u8 \<Rightarrow> u32 \<Rightarrow> hist \<Rightarrow> hist option" where
  "erase_at env cmd addr h =
     (let h = Flash_WriteEnable h in
      Option.bind (Flash_WaitBusy env h) (\<lambda>h.
        let h = NSS_L h;
            h = SPI_WriteByte cmd h;
            h = SPI_WriteByte (ucast (drop_bit 16 addr)) h;
            h = SPI_WriteByte (ucast (drop_bit 8 addr)) h;
            h = SPI_WriteByte (ucast addr) h;
            h = NSS_H h
        in Flash_WaitBusy env h))"

definition Flash_EraseSector :: "env \<Rightarrow> u32 \<Rightarrow> hist \<Rightarrow> hist option" where
  "Flash_EraseSector env Dst_Addr h = erase_at env FLASH_ERASE_SECTOR (Dst_Addr * 4096) h"

definition Flash_EraseBlock :: "env \<Rightarrow> u32 \<Rightarrow> hist \<Rightarrow> hist option" where
  "Flash_EraseBlock env Dst_Addr h = erase_at env FLASH_ERASE_BLOCK (Dst_Addr * 65535) h"

definition Flash_EraseChip :: "env \<Rightarrow> hist \<Rightarrow> hist option" where
  "Flash_EraseChip env h =
     Option.bind (Flash_WaitBusy env (Flash_WriteEnable h)) (\<lambda>h.
       Some (NSS_H (SPI_WriteByte FLASH_ERASE_CHIP (NSS_L h))))"

section \<open>Frames of the single commands\<close>

definition addr24 :: "u32 \<Rightarrow> u8 list" where
  "addr24 a = [ucast (drop_bit 16 a), ucast (drop_bit 8 a), ucast a]"

abbreviation (input) poll :: "u8 list" where "poll \<equiv> [0x05, 0xFF]"

lemma idle_after_simps [simp]: "idle_after 0x05 = 0xFF" "idle_after 0x9f = 0xFF" "idle_after 0x03 = 0xFF"
  by (simp_all add: idle_after_def)

lemma bit0_test: "(w :: u8) AND 1 = 1 \<longleftrightarrow> bit w 0"
  unfolding and_one_eq bit_0 odd_iff_mod_2_eq_one by (rule refl)

lemma recv_one: "recv_n (Suc 0) recv h = ([fst (recv h)], snd (recv h))"
  by (simp add: case_prod_beta)

lemma ReadSR_frame:
  assumes "spi_ready h"
  shows "fst (Flash_ReadSR (slave_env answer base) h) = answer (frames h) [0x05]"
    and "spi_ready (snd (Flash_ReadSR (slave_env answer base) h))"
    and "frames (snd (Flash_ReadSR (slave_env answer base) h)) = frames h @ [poll]"
  using spi.query [OF assms, of "[0x05]" 1 answer base]
  by (simp_all add: Flash_ReadSR_def case_prod_beta Let_def recv_one)

lemma WriteEnable_frame:
  assumes "spi_ready h"
  shows "spi_ready (Flash_WriteEnable h)" "frames (Flash_WriteEnable h) = frames h @ [[0x06]]"
  using spi.command [OF assms, of "[0x06]"] by (simp_all add: Flash_WriteEnable_def)

lemma ReadSomeByte_frame:
  assumes "spi_ready h"
  shows "fst (Flash_ReadSomeByte (slave_env answer base) a n h)
      = map (\<lambda>k. answer (frames h) ((0x03 # addr24 a) @ replicate k (idle_after (ucast a)))) [0..<unat n]"
    and "spi_ready (snd (Flash_ReadSomeByte (slave_env answer base) a n h))"
    and "frames (snd (Flash_ReadSomeByte (slave_env answer base) a n h))
      = frames h @ [(0x03 # addr24 a) @ replicate (unat n) (idle_after (ucast a))]"
  using spi.query [OF assms, of "0x03 # addr24 a" "unat n" answer base]
  by (simp_all add: Flash_ReadSomeByte_def case_prod_beta Let_def addr24_def)

lemma ReadID_frame:
  assumes "spi_ready h"
  shows "fst (Flash_ReadID (slave_env answer base) h)
      = push_bit 16 (ucast (answer (frames h) [0x9f])) OR
        push_bit 8 (ucast (answer (frames h) [0x9f, 0xFF])) OR ucast (answer (frames h) [0x9f, 0xFF, 0xFF])"
    and "spi_ready (snd (Flash_ReadID (slave_env answer base) h))"
    and "frames (snd (Flash_ReadID (slave_env answer base) h)) = frames h @ [[0x9f, 0xFF, 0xFF, 0xFF]]"
  using spi.query [OF assms, of "[0x9f]" 3 answer base]
  by (simp_all add: Flash_ReadID_def case_prod_beta Let_def numeral_3_eq_3 upt_rec ac_simps)

section \<open>Waiting for the device\<close>

text \<open>The device is ready after \<open>n\<close> further status reads and not before.\<close>

definition ready_after :: "slave \<Rightarrow> u8 list list \<Rightarrow> nat \<Rightarrow> bool" where
  "ready_after answer fs n \<longleftrightarrow>
     (\<forall>i < n. bit (answer (fs @ replicate i poll) [0x05]) 0) \<and>
     \<not> bit (answer (fs @ replicate n poll) [0x05]) 0"

lemma ready_after_ex:
  "\<exists>n. \<not> bit (answer (fs @ replicate n poll) [0x05]) 0 \<Longrightarrow> \<exists>n. ready_after answer fs n"
  unfolding ready_after_def using exists_least_iff [of "\<lambda>n. \<not> bit (answer (fs @ replicate n poll) [0x05]) 0"]
  by blast

lemma ready_after_Suc: "ready_after answer fs (Suc n) \<Longrightarrow>
    bit (answer fs [0x05]) 0 \<and> ready_after answer (fs @ [poll]) n"
  by (auto simp: ready_after_def less_Suc_eq_0_disj)

lemma WaitBusy_unfold:
  "Flash_WaitBusy (slave_env answer base) h =
     (let h1 = snd (Flash_ReadSR (slave_env answer base) h) in
      if bit (fst (Flash_ReadSR (slave_env answer base) h)) 0
      then Flash_WaitBusy (slave_env answer base) h1 else Some h1)"
  by (subst Flash_WaitBusy.simps) (simp add: case_prod_beta bit0_test Let_def)

lemma WaitBusy_returns:
  assumes "spi_ready h" "ready_after answer (frames h) n"
  shows "\<exists>h'. Flash_WaitBusy (slave_env answer base) h = Some h' \<and> spi_ready h' \<and>
    frames h' = frames h @ replicate (Suc n) poll"
  using assms
proof (induction n arbitrary: h)
  case 0
  then show ?case
    using ReadSR_frame [OF 0(1), of answer base]
    by (subst WaitBusy_unfold) (simp add: ready_after_def)
next
  case (Suc n)
  note sr = ReadSR_frame [OF Suc.prems(1), of answer base]
  let ?h1 = "snd (Flash_ReadSR (slave_env answer base) h)"
  from ready_after_Suc [OF Suc.prems(2)] have b: "bit (answer (frames h) [0x05]) 0"
    and r: "ready_after answer (frames ?h1) n" using sr(3) by simp_all
  from Suc.IH [OF sr(2) r] obtain h' where
    "Flash_WaitBusy (slave_env answer base) ?h1 = Some h'" "spi_ready h'"
    "frames h' = frames ?h1 @ replicate (Suc n) poll" by blast
  then show ?case
    using b sr by (subst WaitBusy_unfold) (simp add: replicate_append_same)
qed

text \<open>A device that never reports ready hangs the poll.\<close>

lemma WaitBusy_diverges:
  assumes ready: "spi_ready h" and busy: "\<forall>i. bit (answer (frames h @ replicate i poll) [0x05]) 0"
  shows "Flash_WaitBusy (slave_env answer base) h = None"
proof (rule ccontr)
  assume "Flash_WaitBusy (slave_env answer base) h \<noteq> None"
  then obtain r where ret: "Flash_WaitBusy (slave_env answer base) h = Some r" by blast
  define P where "P = (\<lambda>env h' (r :: hist). env = slave_env answer base \<longrightarrow> spi_ready h' \<longrightarrow>
    \<not> (\<exists>k. frames h' = frames h @ replicate k poll))"
  have "P (slave_env answer base) h r"
  proof (rule Flash_WaitBusy.raw_induct [where P = P, OF _ ret])
    fix f env h' r
    assume IH: "\<And>env h r. f env h = Some r \<Longrightarrow> P env h r"
      and eq: "(let (sr, h1) = Flash_ReadSR env h' in if sr AND 1 = 1 then f env h1 else Some h1) = Some r"
    show "P env h' r"
      unfolding P_def
    proof (intro impI notI, elim exE)
      fix k
      assume env: "env = slave_env answer base" and r': "spi_ready h'"
        and fr: "frames h' = frames h @ replicate k poll"
      let ?h1 = "snd (Flash_ReadSR env h')"
      note sr = ReadSR_frame [OF r', of answer base, folded env]
      have "bit (fst (Flash_ReadSR env h')) 0" using busy sr(1) fr by simp
      with eq have "f env ?h1 = Some r" by (simp add: case_prod_beta Let_def bit0_test)
      from IH [OF this] sr(2) env have "\<not> (\<exists>k. frames ?h1 = frames h @ replicate k poll)"
        by (simp add: P_def)
      moreover have "frames ?h1 = frames h @ replicate (Suc k) poll"
        using sr(3) fr by (simp add: replicate_append_same)
      ultimately show False by blast
    qed
  qed
  then have "frames h \<noteq> frames h @ replicate 0 poll" unfolding P_def using ready by blast
  then show False by simp
qed

section \<open>Page programming\<close>

definition page_frames :: "u32 \<Rightarrow> u8 list \<Rightarrow> u8 list list" where
  "page_frames a d = [[0x06], (0x02 # addr24 a) @ d]"

definition settles :: "slave \<Rightarrow> bool" where
  "settles answer \<longleftrightarrow> (\<forall>fs. \<exists>n. \<not> bit (answer (fs @ replicate n poll) [0x05]) 0)"

lemma WaitBusy_settles:
  assumes "settles answer" "spi_ready h"
  obtains h' n where "Flash_WaitBusy (slave_env answer base) h = Some h'" "spi_ready h'"
    "frames h' = frames h @ replicate (Suc n) poll" "ready_after answer (frames h) n"
proof -
  obtain n where n: "ready_after answer (frames h) n"
    using assms(1) ready_after_ex unfolding settles_def by blast
  from WaitBusy_returns [OF assms(2) n, of base] show thesis
    using that n by blast
qed

lemma WritePage_frames:
  assumes "settles answer" "spi_ready h"
  obtains h' n where "Flash_WritePage (slave_env answer base) buf a num h = Some h'" "spi_ready h'"
    "frames h' = frames h @ page_frames a (map buf [0..<unat num]) @ replicate (Suc n) poll"
    "ready_after answer (frames h @ page_frames a (map buf [0..<unat num])) n"
proof -
  let ?xs = "(0x02 # addr24 a) @ map buf [0..<unat num]"
  let ?h1 = "Flash_WriteEnable h"
  let ?h2 = "NSS_H (fold SPI_WriteByte ?xs (NSS_L ?h1))"
  note we = WriteEnable_frame [OF assms(2)]
  note pp = spi.command [OF we(1), of ?xs]
  have fr: "frames ?h2 = frames h @ page_frames a (map buf [0..<unat num])"
    using pp(2) we(2) by (simp add: page_frames_def)
  obtain h' n where w: "Flash_WaitBusy (slave_env answer base) ?h2 = Some h'" "spi_ready h'"
    "frames h' = frames ?h2 @ replicate (Suc n) poll" "ready_after answer (frames ?h2) n"
    by (rule WaitBusy_settles [OF assms(1) pp(1)])
  have "Flash_WritePage (slave_env answer base) buf a num h = Flash_WaitBusy (slave_env answer base) ?h2"
    by (simp add: Flash_WritePage_def Let_def addr24_def fold_map o_def)
  with that [of h' n] w show thesis unfolding fr by (metis append_assoc)
qed

text \<open>
  The traffic of programming a list of pages: for each page the two frames of the page, then status
  reads until the device is ready.
\<close>

inductive page_run :: "slave \<Rightarrow> u8 list list \<Rightarrow> (u32 \<times> u8 list) list \<Rightarrow> u8 list list \<Rightarrow> bool"
  for answer where
  page_run_done: "page_run answer fs [] fs"
| page_run_page: "ready_after answer (fs @ page_frames a d) n \<Longrightarrow>
    page_run answer (fs @ page_frames a d @ replicate (Suc n) poll) ps fs' \<Longrightarrow>
    page_run answer fs ((a, d) # ps) fs'"

inductive_cases page_run_ConsE: "page_run answer fs ((a, d) # ps) fs'"
inductive_simps page_run_Nil [simp]: "page_run answer fs [] fs'"

lemma page_run_append:
  "page_run answer fs ps fs1 \<Longrightarrow> page_run answer fs1 qs fs2 \<Longrightarrow> page_run answer fs (ps @ qs) fs2"
  by (induction rule: page_run.induct) (auto intro: page_run_page)

text \<open>
  The reference: data cut at the 256-byte page boundaries of the device.
\<close>

function page_cuts :: "nat \<Rightarrow> 'a list \<Rightarrow> (nat \<times> 'a list) list" where
  "page_cuts a d =
     (if d = [] then []
      else let k = 256 - a mod 256 in (a, take k d) # page_cuts (a + k) (drop k d))"
  by pat_completeness auto
termination
proof (relation "measure (\<lambda>(a, d). length d)", goal_cases)
  case (2 a d x)
  have "a mod 256 < 256" by simp
  with 2 show ?case by (cases d) auto
qed simp

declare page_cuts.simps [simp del]

lemma page_cuts_Nil [simp]: "page_cuts a [] = []"
  by (subst page_cuts.simps) simp

lemma page_cuts_pages:
  "(b, e) \<in> set (page_cuts a d) \<Longrightarrow> e \<noteq> [] \<and> b mod 256 + length e \<le> 256 \<and> a \<le> b \<and> b + length e \<le> a + length d"
proof (induction a d rule: page_cuts.induct)
  case (1 a d)
  let ?k = "256 - a mod 256"
  show ?case
  proof (cases "d = []")
    case True
    with 1(2) show ?thesis by (simp add: page_cuts.simps)
  next
    case False
    from 1(2) False consider "b = a \<and> e = take ?k d"
      | "(b, e) \<in> set (page_cuts (a + ?k) (drop ?k d))"
      by (subst (asm) page_cuts.simps) (auto simp: Let_def)
    then show ?thesis
    proof cases
      case 1
      have "a mod 256 < 256" by simp
      with 1 False show ?thesis by (auto simp: min_def)
    next
      case 2
      have "\<not> length d \<le> ?k"
      proof
        assume "length d \<le> ?k"
        with 2 show False by (simp add: page_cuts.simps)
      qed
      with "1.IH" [OF False refl 2] show ?thesis by auto
    qed
  qed
qed

lemma page_cuts_concat: "concat (map snd (page_cuts a d)) = d"
proof (induction a d rule: page_cuts.induct)
  case (1 a d)
  then show ?case by (subst page_cuts.simps) (auto simp: Let_def)
qed

text \<open>
  The programming loop emits the pages of the reference, each followed by status polls. Its
  invariant: the piece to write next ends at a page boundary or with the data.
\<close>

definition no_polls :: "u8 list list \<Rightarrow> u8 list list" where
  "no_polls fs = filter (\<lambda>f. f \<noteq> poll) fs"

lemma no_polls_simps [simp]:
  "no_polls (fs @ gs) = no_polls fs @ no_polls gs"
  "no_polls (replicate n poll) = []"
  "no_polls (page_frames a d) = page_frames a d"
  by (auto simp: no_polls_def page_frames_def addr24_def filter_empty_conv)

lemma page_run_no_polls:
  "page_run answer fs ps fs' \<Longrightarrow>
     no_polls fs' = no_polls fs @ concat (map (\<lambda>(a, d). page_frames a d) ps)"
  by (induction rule: page_run.induct) (simp_all del: replicate.simps)

definition pages_of :: "u32 \<Rightarrow> u8 list \<Rightarrow> (u32 \<times> u8 list) list" where
  "pages_of a d = map (\<lambda>(b, e). (of_nat b, e)) (page_cuts (unat a) d)"

definition data_of :: "buf \<Rightarrow> nat \<Rightarrow> u8 list" where
  "data_of b n = map b [0..<n]"

lemma data_of_split:
  "m \<le> n \<Longrightarrow> take m (data_of b n) = data_of b m \<and> drop m (data_of b n) = data_of (\<lambda>i. b (i + m)) (n - m)"
  by (auto simp: data_of_def take_map drop_map ac_simps intro!: nth_equalityI)

lemma length_data_of [simp]: "length (data_of b n) = n"
  by (simp add: data_of_def)

lemma page_cuts_step:
  assumes "d \<noteq> []"
  shows "page_cuts a d = (a, take (256 - a mod 256) d) #
    page_cuts (a + (256 - a mod 256)) (drop (256 - a mod 256) d)"
  using assms by (subst page_cuts.simps) (simp add: Let_def)

lemma page_cuts_last: "d \<noteq> [] \<Longrightarrow> length d \<le> 256 - a mod 256 \<Longrightarrow> page_cuts a d = [(a, d)]"
  by (subst page_cuts_step) simp_all

lemma write_pages_frames:
  assumes "settles answer" "spi_ready h" "0 < unat num" "unat a + unat num \<le> 2 ^ 32"
    "unat pr = min (unat num) (256 - unat a mod 256)"
  shows "\<exists>h'. write_pages (slave_env answer base) buf a num pr h = Some (1, h') \<and> spi_ready h' \<and>
    page_run answer (frames h) (pages_of a (data_of buf (unat num))) (frames h')"
  using assms(2-)
proof (induction "unat num" arbitrary: buf a num pr h rule: less_induct)
  case less
  define k where "k = 256 - unat a mod 256"
  let ?env = "slave_env answer base"
  have k: "0 < k" "k \<le> 256" "(unat a + k) mod 256 = 0" unfolding k_def using next_boundary [of 256 "unat a"] by simp_all
  note prem = less.prems [folded k_def]
  have d: "data_of buf (unat num) \<noteq> []" using less.prems(2) by (simp add: data_of_def)
  obtain h1 n where w: "Flash_WritePage ?env buf a pr h = Some h1" "spi_ready h1"
    "frames h1 = frames h @ page_frames a (data_of buf (unat pr)) @ replicate (Suc n) poll"
    "ready_after answer (frames h @ page_frames a (data_of buf (unat pr))) n"
    unfolding data_of_def by (rule WritePage_frames [OF assms(1) less.prems(1)])
  show ?case
  proof (cases "unat num \<le> k")
    case True
    then have pr: "pr = num" using prem(4) by (simp add: word_unat_eq_iff)
    have "page_cuts (unat a) (data_of buf (unat num)) = [(unat a, data_of buf (unat num))]"
      using True d by (intro page_cuts_last) (simp_all add: k_def)
    then have "page_run answer (frames h) (pages_of a (data_of buf (unat num))) (frames h1)"
      using page_run_page [OF w(4) page_run_done] w(3) by (simp add: pages_of_def pr)
    then show ?thesis
      using w by (subst write_pages.simps) (simp add: pr)
  next
    case False
    then have pr: "unat pr = k" using prem(4) by simp
    let ?num = "num - pr" and ?a = "a + ucast pr" and ?buf = "\<lambda>i. buf (i + unat pr)"
    have ne: "num \<noteq> pr" using False pr by auto
    have num: "unat ?num = unat num - k"
      using False pr by (simp add: unat_sub word_le_nat_alt)
    have a: "unat ?a = unat a + k"
      using False prem(3) pr by (subst unat_add_u32) simp_all
    let ?pr = "if ?num > 256 then 256 else ?num"
    have pr': "unat ?pr = min (unat ?num) (256 - unat ?a mod 256)"
      unfolding a k(3) by (auto simp: word_less_nat_alt)
    have "unat ?num < unat num" "0 < unat ?num" "unat ?a + unat ?num \<le> 2 ^ 32"
      unfolding num a using False k(1) prem(3) by simp_all
    from less.hyps [OF this(1) w(2) this(2,3) pr', of ?buf] obtain h2 where
      r: "write_pages ?env ?buf ?a ?num ?pr h1 = Some (1, h2)" "spi_ready h2"
      "page_run answer (frames h1) (pages_of ?a (data_of ?buf (unat ?num))) (frames h2)"
      by blast
    have "take k (data_of buf (unat num)) = data_of buf k"
      "drop k (data_of buf (unat num)) = data_of ?buf (unat ?num)"
      using False by (simp_all add: data_of_split num pr)
    then have "pages_of a (data_of buf (unat num))
        = (a, data_of buf k) # pages_of ?a (data_of ?buf (unat ?num))"
      unfolding pages_of_def page_cuts_step [OF d] k_def [symmetric] a by simp
    with r(3) w(3,4) have "page_run answer (frames h) (pages_of a (data_of buf (unat num))) (frames h2)"
      using page_run_page [of answer "frames h" a "data_of buf k" n] by (simp add: pr)
    then show ?thesis
      using w r ne by (subst write_pages.simps) (simp add: pr)
  qed
qed

lemma unat_page_remain:
  "unat (ucast (256 - a mod 256 :: u32) :: u16) = 256 - unat a mod 256"
proof -
  have m: "unat (a mod 256) = unat a mod 256" by (simp add: unat_mod)
  have "unat (256 - a mod 256 :: u32) = 256 - unat a mod 256"
    using mod_less_divisor [of 256 "unat a"] by (subst unat_sub) (simp_all add: word_le_nat_alt m)
  moreover have "256 - unat a mod 256 < 2 ^ 16" by (rule le_less_trans [of _ 256]) simp_all
  ultimately show ?thesis by (simp add: unsigned_ucast_eq take_bit_nat_eq_self)
qed

lemma WriteNoCheck_run:
  assumes "settles answer" "spi_ready h" "0 < unat num" "unat a + unat num \<le> 2 ^ 32"
  shows "\<exists>h'. Flash_WriteNoCheck (slave_env answer base) buf a num h = Some (1, h') \<and> spi_ready h' \<and>
    page_run answer (frames h) (pages_of a (data_of buf (unat num))) (frames h')"
proof -
  have "unat (if num \<le> ucast (256 - a mod 256) then num else ucast (256 - a mod 256))
      = min (unat num) (256 - unat a mod 256)"
    by (simp add: word_le_nat_alt unat_page_remain min_def)
  from write_pages_frames [OF assms this, of base buf] show ?thesis
    by (simp add: Flash_WriteNoCheck_def Let_def)
qed

text \<open>
  C6: \<^verbatim>\<open>Flash_WriteNoCheck\<close> returns 1 on every device that eventually reports ready, and what it has
  put on the bus is exactly a write-enable and a page-program frame for each piece of the data cut at
  the 256-byte boundaries, with status polls between them. Each piece is nonempty and stays inside one
  page, and together they are the data.
\<close>

theorem Flash_WriteNoCheck_pages:
  assumes "settles answer" "spi_ready h" "0 < unat num" "unat a + unat num \<le> 2 ^ 32"
  shows "\<exists>h'. Flash_WriteNoCheck (slave_env answer base) buf a num h = Some (1, h') \<and>
    no_polls (frames h') = no_polls (frames h) @
      concat (map (\<lambda>(b, e). page_frames (of_nat b) e) (page_cuts (unat a) (data_of buf (unat num)))) \<and>
    (\<forall>(b, e) \<in> set (page_cuts (unat a) (data_of buf (unat num))).
       e \<noteq> [] \<and> b mod 256 + length e \<le> 256) \<and>
    concat (map snd (page_cuts (unat a) (data_of buf (unat num)))) = data_of buf (unat num)"
proof -
  have split: "concat (map (\<lambda>(a, d). page_frames a d) (pages_of a d))
      = concat (map (\<lambda>(b, e). page_frames (of_nat b) e) (page_cuts (unat a) d))" for d
    by (simp add: pages_of_def o_def split_def)
  show ?thesis
    using WriteNoCheck_run [OF assms, of base buf] page_run_no_polls page_cuts_pages
    by (fastforce simp: split page_cuts_concat)
qed

section \<open>Programming by sectors\<close>

lemma page_cuts_append:
  "(a + length xs) mod 256 = 0 \<Longrightarrow> page_cuts a (xs @ ys) = page_cuts a xs @ page_cuts (a + length xs) ys"
proof (induction a xs rule: page_cuts.induct)
  case (1 a xs)
  define k where "k = 256 - a mod 256"
  show ?case
  proof (cases "xs = []")
    case True
    then show ?thesis by simp
  next
    case False
    have "k \<le> length xs"
    proof (rule ccontr)
      assume "\<not> k \<le> length xs"
      then have "a mod 256 + length xs < 256" unfolding k_def by simp
      then have "(a + length xs) mod 256 = a mod 256 + length xs"
        by (metis mod_add_left_eq mod_less)
      with 1(2) False show False by simp
    qed
    moreover from this have "(a + k + length (drop k xs)) mod 256 = 0" using 1(2) by simp
    ultimately show ?thesis
      using "1.IH" [OF False k_def] False
      by (simp add: page_cuts_step [of "xs @ ys"] page_cuts_step [of xs] k_def [symmetric])
  qed
qed

lemma sector_is_page_boundary: "x mod 4096 = 0 \<Longrightarrow> x mod 256 = (0 :: nat)"
  using dvd_trans [of 256 4096 x] by (simp add: mod_eq_0_iff_dvd)

lemma pages_of_append:
  assumes "m < n" "(unat a + m) mod 256 = 0" "unat a + n \<le> 2 ^ 32" "unat a' = unat a + m"
  shows "pages_of a (data_of buf n)
    = pages_of a (data_of buf m) @ pages_of a' (data_of (\<lambda>i. buf (i + m)) (n - m))"
proof -
  have "data_of buf n = data_of buf m @ data_of (\<lambda>i. buf (i + m)) (n - m)"
    using data_of_split [of m n buf] assms(1) by (metis append_take_drop_id less_imp_le_nat)
  then show ?thesis
    using page_cuts_append [of "unat a" "data_of buf m"] assms by (simp add: pages_of_def)
qed

lemma write_sectors_run:
  assumes "settles answer" "spi_ready h" "0 < unat num" "unat a + unat num \<le> 2 ^ 32"
    "unat sr = min (unat num) (4096 - unat a mod 4096)"
  shows "\<exists>h'. write_sectors (slave_env answer base) buf a num sr h = Some (1, h') \<and> spi_ready h' \<and>
    page_run answer (frames h) (pages_of a (data_of buf (unat num))) (frames h')"
  using assms(2-)
proof (induction "unat num" arbitrary: buf a num sr h rule: less_induct)
  case less
  define k where "k = 4096 - unat a mod 4096"
  let ?env = "slave_env answer base"
  have k: "0 < k" "k \<le> 4096" "(unat a + k) mod 4096 = 0"
    unfolding k_def using next_boundary [of 4096 "unat a"] by simp_all
  note prem = less.prems [folded k_def]
  have sr: "0 < unat sr" "unat a + unat sr \<le> 2 ^ 32" using prem k(1) by simp_all
  obtain h1 where w: "Flash_WriteNoCheck ?env buf a sr h = Some (1, h1)" "spi_ready h1"
    "page_run answer (frames h) (pages_of a (data_of buf (unat sr))) (frames h1)"
    using WriteNoCheck_run [OF assms(1) prem(1) sr] by blast
  show ?case
  proof (cases "unat num \<le> k")
    case True
    then have "sr = num" using prem(4) by (simp add: word_unat_eq_iff)
    with w show ?thesis by (subst write_sectors.simps) simp
  next
    case False
    then have s: "unat sr = k" using prem(4) by simp
    let ?num = "num - sr" and ?a = "a + ucast sr" and ?buf = "\<lambda>i. buf (i + unat sr)"
    let ?sr = "if ?num > 4096 then 4096 else ?num"
    have ne: "num \<noteq> sr" using False s by auto
    have num: "unat ?num = unat num - k" using False s by (simp add: unat_sub word_le_nat_alt)
    have a: "unat ?a = unat a + k" using False prem(3) s by (subst unat_add_u32) simp_all
    have sr': "unat ?sr = min (unat ?num) (4096 - unat ?a mod 4096)"
      unfolding a k(3) by (auto simp: word_less_nat_alt)
    have "unat ?num < unat num" "0 < unat ?num" "unat ?a + unat ?num \<le> 2 ^ 32"
      unfolding num a using False k(1) prem(3) by simp_all
    from less.hyps [OF this(1) w(2) this(2,3) sr', of ?buf] obtain h2 where
      r: "write_sectors ?env ?buf ?a ?num ?sr h1 = Some (1, h2)" "spi_ready h2"
      "page_run answer (frames h1) (pages_of ?a (data_of ?buf (unat ?num))) (frames h2)"
      by blast
    have "pages_of a (data_of buf (unat num))
        = pages_of a (data_of buf k) @ pages_of ?a (data_of ?buf (unat ?num))"
      unfolding num s using False prem(3) sector_is_page_boundary [OF k(3)]
      by (intro pages_of_append) (simp_all add: a)
    with page_run_append [OF w(3) r(3)] s
    have "page_run answer (frames h) (pages_of a (data_of buf (unat num))) (frames h2)" by simp
    then show ?thesis
      using w r ne by (subst write_sectors.simps) simp
  qed
qed

lemma unat_sector_remain:
  "unat (4096 - ucast (a mod 4096 :: u32) :: u16) = 4096 - unat a mod 4096"
proof -
  have "unat a mod 4096 < 2 ^ 16" by (rule less_trans [of _ 4096]) simp_all
  then have m: "unat (ucast (a mod 4096) :: u16) = unat a mod 4096"
    by (simp add: unsigned_ucast_eq take_bit_nat_eq_self unat_mod)
  show ?thesis
    using mod_less_divisor [of 4096 "unat a"]
    by (subst unat_sub) (simp_all add: word_le_nat_alt m)
qed

lemma Flash_Write_run:
  assumes "settles answer" "spi_ready h" "0 < unat num" "unat a + unat num \<le> 2 ^ 32"
  shows "\<exists>h'. Flash_Write (slave_env answer base) buf a num h = Some (1, h') \<and> spi_ready h' \<and>
    page_run answer (frames h) (pages_of a (data_of buf (unat num))) (frames h')"
proof -
  have "unat (if num \<le> 4096 - ucast (a mod 4096) then num else 4096 - ucast (a mod 4096))
      = min (unat num) (4096 - unat a mod 4096)"
    by (simp add: word_le_nat_alt unat_sector_remain min_def)
  from write_sectors_run [OF assms this, of base buf] show ?thesis
    by (simp add: Flash_Write_def Let_def)
qed

text \<open>
  Cutting by 4096-byte sectors first makes no difference: \<^verbatim>\<open>Flash_Write\<close> and
  \<^verbatim>\<open>Flash_WriteNoCheck\<close> return the same value and put the same commands on the bus. (So
  \<^verbatim>\<open>Flash_Write\<close> erases nothing either.)
\<close>

theorem Flash_Write_equiv_NoCheck:
  assumes "settles answer" "spi_ready h" "0 < unat num" "unat a + unat num \<le> 2 ^ 32"
  shows "\<exists>h1 h2. Flash_Write (slave_env answer base) buf a num h = Some (1, h1) \<and>
    Flash_WriteNoCheck (slave_env answer base) buf a num h = Some (1, h2) \<and>
    no_polls (frames h1) = no_polls (frames h2)"
  using Flash_Write_run [OF assms, of base buf] WriteNoCheck_run [OF assms, of base buf]
    page_run_no_polls by metis

section \<open>The stored data\<close>

text \<open>
  The documented behaviour of a serial NOR flash that the driver needs, for a slave with contents
  \<open>mem\<close> (a function of the frames it has seen): a read answers the byte at the address, counting up;
  a page program inside one page, sent while the device is not busy, clears the bits that are 0 in
  the data; a read or a status read changes nothing, and a device that is ready stays ready under
  status reads.
  Nothing is said of a page program that crosses a page, or that is sent to a busy device.
\<close>

definition programmed :: "(nat \<Rightarrow> u8) \<Rightarrow> nat \<Rightarrow> u8 list \<Rightarrow> nat \<Rightarrow> u8" where
  "programmed m a d x = (if a \<le> x \<and> x < a + length d then m x AND d ! (x - a) else m x)"

definition is_ready :: "slave \<Rightarrow> u8 list list \<Rightarrow> bool" where
  "is_ready answer fs \<longleftrightarrow> \<not> bit (answer fs [0x05]) 0"

definition nor_device :: "slave \<Rightarrow> (u8 list list \<Rightarrow> nat \<Rightarrow> u8) \<Rightarrow> bool" where
  "nor_device answer mem \<longleftrightarrow>
     (\<forall>fs a js. unat a + length js < 2 ^ 24 \<longrightarrow>
        answer fs ((0x03 # addr24 a) @ js) = mem fs (unat a + length js)) \<and>
     (\<forall>fs a d. unat a < 2 ^ 24 \<longrightarrow> is_ready answer fs \<longrightarrow> d \<noteq> [] \<longrightarrow> unat a mod 256 + length d \<le> 256 \<longrightarrow>
        mem (fs @ page_frames a d) = programmed (mem fs) (unat a) d) \<and>
     (\<forall>fs. mem (fs @ [poll]) = mem fs) \<and>
     (\<forall>fs a js. mem (fs @ [(0x03 # addr24 a) @ js]) = mem fs) \<and>
     (\<forall>fs. is_ready answer fs \<longrightarrow> is_ready answer (fs @ [poll]))"

lemma nor_polls:
  assumes "nor_device answer mem"
  shows "mem (fs @ replicate n poll) = mem fs"
proof (induction n)
  case (Suc n)
  have "mem (fs @ replicate (Suc n) poll) = mem ((fs @ replicate n poll) @ [poll])"
    by (simp add: replicate_append_same)
  also have "\<dots> = mem (fs @ replicate n poll)" using assms unfolding nor_device_def by blast
  finally show ?case using Suc by simp
qed simp

lemma ready_after_is_ready:
  assumes "nor_device answer mem" "ready_after answer fs n"
  shows "is_ready answer (fs @ replicate (Suc n) poll)"
proof -
  have "is_ready answer (fs @ replicate n poll)"
    using assms(2) by (simp add: ready_after_def is_ready_def)
  then have "is_ready answer ((fs @ replicate n poll) @ [poll])"
    using assms(1) unfolding nor_device_def by blast
  then show ?thesis by (simp add: replicate_append_same)
qed

lemma page_run_memory:
  assumes "nor_device answer mem"
  shows "page_run answer fs ps fs' \<Longrightarrow> is_ready answer fs \<Longrightarrow>
    \<forall>(a, d) \<in> set ps. unat a < 2 ^ 24 \<and> d \<noteq> [] \<and> unat a mod 256 + length d \<le> 256 \<Longrightarrow>
    mem fs' = fold (\<lambda>(a, d) m. programmed m (unat a) d) ps (mem fs) \<and> is_ready answer fs'"
proof (induction rule: page_run.induct)
  case (page_run_done fs)
  then show ?case by simp
next
  case (page_run_page fs a d n ps fs')
  let ?fs1 = "fs @ page_frames a d @ replicate (Suc n) poll"
  have r: "is_ready answer ?fs1"
    using ready_after_is_ready [OF assms page_run_page.hyps(1)] by simp
  have "mem ?fs1 = mem (fs @ page_frames a d)"
    using nor_polls [OF assms, of "fs @ page_frames a d" "Suc n"] by (simp del: replicate.simps)
  also have "\<dots> = programmed (mem fs) (unat a) d"
    using assms page_run_page.prems unfolding nor_device_def by auto
  finally show ?case using page_run_page.IH [OF r] page_run_page.prems(2) by simp
qed

lemma programmed_append:
  "programmed (programmed m a xs) (a + length xs) ys = programmed m a (xs @ ys)"
  by (auto simp: programmed_def nth_append fun_eq_iff)

lemma programmed_cuts:
  "a + length d \<le> 2 ^ 32 \<Longrightarrow>
   fold (\<lambda>(a :: u32, d) m. programmed m (unat a) d) (map (\<lambda>(b, e). (of_nat b, e)) (page_cuts a d)) m
     = programmed m a d"
proof (induction a d arbitrary: m rule: page_cuts.induct)
  case (1 a d)
  define k where "k = 256 - a mod 256"
  show ?case
  proof (cases "d = []")
    case True
    then show ?thesis by (auto simp: programmed_def fun_eq_iff)
  next
    case False
    then have "a < 2 ^ 32" using "1.prems" by (cases d) auto
    then have a: "unat (of_nat a :: u32) = a" by (simp add: unat_of_nat_u32)
    show ?thesis
    proof (cases "length d \<le> k")
      case True
      with False show ?thesis by (simp add: page_cuts_last k_def a)
    next
      case large: False
      then have "a + k + length (drop k d) \<le> 2 ^ 32" using "1.prems" by simp
      from "1.IH" [OF False k_def this] large False
      show ?thesis
        using programmed_append [of m a "take k d" "drop k d"]
        by (simp add: page_cuts_step [OF False] k_def [symmetric] a)
    qed
  qed
qed

lemma pages_of_in_page:
  assumes "unat a + length d \<le> 2 ^ 24"
  shows "\<forall>(b, e) \<in> set (pages_of a d). unat b < 2 ^ 24 \<and> e \<noteq> [] \<and> unat b mod 256 + length e \<le> 256"
proof -
  have "unat (of_nat b :: u32) < 2 ^ 24 \<and> e \<noteq> [] \<and> unat (of_nat b :: u32) mod 256 + length e \<le> 256"
    if "(b, e) \<in> set (page_cuts (unat a) d)" for b e
  proof -
    from page_cuts_pages [OF that] have c: "e \<noteq> []" "b mod 256 + length e \<le> 256"
      "b + length e \<le> unat a + length d" by simp_all
    then have b: "b < 2 ^ 24" using assms by (cases e) auto
    then have "unat (of_nat b :: u32) = b" by (simp add: unat_of_nat_u32)
    with b c show ?thesis by simp
  qed
  then show ?thesis by (auto simp: pages_of_def)
qed

lemma pages_of_memory:
  assumes "nor_device answer mem" "page_run answer fs (pages_of a d) fs'" "is_ready answer fs"
    "unat a + length d \<le> 2 ^ 24"
  shows "mem fs' = programmed (mem fs) (unat a) d"
  using page_run_memory [OF assms(1,2,3) pages_of_in_page [OF assms(4)]]
    programmed_cuts [of "unat a" d "mem fs"] assms(4)
  by (simp add: pages_of_def)

lemma ReadSomeByte_memory:
  assumes "nor_device answer mem" "spi_ready h" "unat a + unat num \<le> 2 ^ 24"
  shows "fst (Flash_ReadSomeByte (slave_env answer base) a num h)
    = map (\<lambda>k. mem (frames h) (unat a + k)) [0..<unat num]"
proof -
  have "answer (frames h) ((0x03 # addr24 a) @ replicate k (idle_after (ucast a)))
      = mem (frames h) (unat a + k)" if "k < unat num" for k
    using assms that unfolding nor_device_def
    by (metis (no_types, lifting) add_less_cancel_left length_replicate order_less_le_trans)
  then show ?thesis using ReadSomeByte_frame(1) [OF assms(2), of answer base a num] by simp
qed

text \<open>
  C5: what \<^verbatim>\<open>Flash_Write\<close> stores in blank flash, \<^verbatim>\<open>Flash_ReadSomeByte\<close> reads back, and every byte
  outside the written range keeps its value, for any address alignment and any length.
\<close>

theorem Flash_write_read_back:
  assumes "nor_device answer mem" "settles answer" "is_ready answer (frames h)" "spi_ready h"
    and "0 < unat num" "unat a + unat num \<le> 2 ^ 24"
    and blank: "\<forall>x \<in> {unat a..<unat a + unat num}. mem (frames h) x = 0xFF"
  shows "\<exists>h'. Flash_Write (slave_env answer base) buf a num h = Some (1, h') \<and>
    fst (Flash_ReadSomeByte (slave_env answer base) a num h') = data_of buf (unat num) \<and>
    (\<forall>x. x < unat a \<or> unat a + unat num \<le> x \<longrightarrow> mem (frames h') x = mem (frames h) x)"
proof -
  have "unat a + unat num \<le> 2 ^ 32" using assms(6) by simp
  then obtain h' where w: "Flash_Write (slave_env answer base) buf a num h = Some (1, h')"
    "spi_ready h'" "page_run answer (frames h) (pages_of a (data_of buf (unat num))) (frames h')"
    using Flash_Write_run [OF assms(2,4,5), of a base buf] by blast
  have m: "mem (frames h') = programmed (mem (frames h)) (unat a) (data_of buf (unat num))"
    using pages_of_memory [OF assms(1) w(3) assms(3)] assms(6) by simp
  have "map (\<lambda>k. mem (frames h') (unat a + k)) [0..<unat num] = data_of buf (unat num)"
    unfolding m data_of_def using blank by (auto simp: programmed_def and_ones_u8)
  then have "fst (Flash_ReadSomeByte (slave_env answer base) a num h') = data_of buf (unat num)"
    using ReadSomeByte_memory [OF assms(1) w(2) assms(6)] by simp
  with w m show ?thesis by (auto simp: programmed_def)
qed

section \<open>A concrete device\<close>

text \<open>
  A NOR flash that is always ready: a write-enable latch and the memory, both folded over the frames.
\<close>

definition nor_addr :: "u8 \<Rightarrow> u8 \<Rightarrow> u8 \<Rightarrow> nat" where
  "nor_addr x y z = unat x * 65536 + unat y * 256 + unat z"

fun nor_step :: "u8 list \<Rightarrow> bool \<times> (nat \<Rightarrow> u8) \<Rightarrow> bool \<times> (nat \<Rightarrow> u8)" where
  "nor_step (c # x # y # z # d) (wel, m) =
     (if c = 0x02 \<and> wel then (False, programmed m (nor_addr x y z) d) else (wel, m))"
| "nor_step [c] (wel, m) =
     (if c = 0x06 then (True, m) else if c = 0x04 then (False, m)
      else if c = 0xC7 \<and> wel then (False, \<lambda>_. 0xFF) else (wel, m))"
| "nor_step _ s = s"

definition nor_mem :: "u8 list list \<Rightarrow> nat \<Rightarrow> u8" where
  "nor_mem fs = snd (fold nor_step fs (False, \<lambda>_. 0xFF))"

fun nor_answer :: slave where
  "nor_answer fs (c # x # y # z # js) = (if c = 0x03 then nor_mem fs ((nor_addr x y z + length js) mod 2 ^ 24) else 0)"
| "nor_answer fs _ = 0"

lemma three_bytes:
  fixes n :: nat
  assumes "n < 16777216"
  shows "n div 65536 mod 256 * 65536 + n div 256 mod 256 * 256 + n mod 256 = n"
proof -
  define m where "m = n div 256"
  define q where "q = m div 256"
  have q: "n div 65536 = q" unfolding q_def m_def div_mult2_eq [symmetric] by simp
  have "m < 65536" unfolding m_def using assms by (intro less_mult_imp_div_less) simp
  then have "q < 256" unfolding q_def by (intro less_mult_imp_div_less) simp
  then have "q mod 256 = q" by simp
  moreover have "m = q * 256 + m mod 256" unfolding q_def by (rule div_mult_mod_eq [symmetric])
  moreover have "n = m * 256 + n mod 256" unfolding m_def by (rule div_mult_mod_eq [symmetric])
  ultimately show ?thesis unfolding q m_def [symmetric] by linarith
qed

lemma unat_drop_u32:
  "unat (drop_bit 16 (a :: u32)) = unat a div 65536" "unat (drop_bit 8 (a :: u32)) = unat a div 256"
  by (simp_all add: drop_bit_eq_div unat_div)

lemma unat_low_byte: "unat (ucast (a :: u32) :: u8) = unat a mod 256"
  by (simp add: unsigned_ucast_eq take_bit_eq_mod)

lemma nor_addr24:
  assumes "unat (a :: u32) < 2 ^ 24"
  shows "nor_addr (ucast (drop_bit 16 a)) (ucast (drop_bit 8 a)) (ucast a) = unat a"
proof -
  have "unat a < 16777216" using assms by simp
  from three_bytes [OF this] show ?thesis
    unfolding nor_addr_def unat_low_byte unat_drop_u32 .
qed

lemma nor_ready [simp]: "is_ready nor_answer fs" and nor_settles: "settles nor_answer"
  by (simp_all add: is_ready_def settles_def)

lemma nor_is_nor: "nor_device nor_answer nor_mem"
  unfolding nor_device_def
proof (intro conjI allI impI, goal_cases)
  case (1 fs a js)
  then have "unat a < 2 ^ 24" "(unat a + length js) mod 2 ^ 24 = unat a + length js" by simp_all
  then show ?case using nor_addr24 [of a] by (simp add: addr24_def)
next
  case (2 fs a d)
  obtain w m where "fold nor_step fs (False, \<lambda>_. 0xFF) = (w, m)" by fastforce
  with 2 nor_addr24 [of a] show ?case by (simp add: nor_mem_def page_frames_def addr24_def)
next
  case (3 fs)
  obtain w m where "fold nor_step fs (False, \<lambda>_. 0xFF) = (w, m)" by fastforce
  then show ?case by (simp add: nor_mem_def)
next
  case (4 fs a js)
  obtain w m where "fold nor_step fs (False, \<lambda>_. 0xFF) = (w, m)" by fastforce
  then show ?case by (simp add: nor_mem_def addr24_def)
qed simp

theorem Flash_write_read_back_witness:
  "\<exists>h'. Flash_Write (slave_env nor_answer (\<lambda>_ _. 0)) (\<lambda>i. of_nat i) 0xFFE 300 (SPI_softInit []) = Some (1, h') \<and>
    fst (Flash_ReadSomeByte (slave_env nor_answer (\<lambda>_ _. 0)) 0xFFE 300 h') = map of_nat [0..<300]"
proof -
  have f: "frames (SPI_softInit []) = [[]]"
    by (simp add: frames_def SPI_softInit_def MOSI_L_def SCK_H_def NSS_H_def hist_simps
        line_of_def line_step_def)
  have blank: "\<forall>x\<in>{unat (0xFFE :: u32)..<unat (0xFFE :: u32) + unat (300 :: u16)}.
      nor_mem (frames (SPI_softInit [])) x = 0xFF"
    by (simp add: f nor_mem_def)
  show ?thesis
    using Flash_write_read_back [OF nor_is_nor nor_settles nor_ready SPI_softInit_ready _ _ blank,
        where base = "\<lambda>_ _. 0" and buf = of_nat]
    by (auto simp: data_of_def)
qed

theorem Flash_WriteNoCheck_pages_witness:
  "\<exists>h'. Flash_WriteNoCheck (slave_env nor_answer (\<lambda>_ _. 0)) (\<lambda>i. of_nat i) 0xFE 3 (SPI_softInit []) = Some (1, h') \<and>
    no_polls (frames h') = no_polls (frames (SPI_softInit []))
      @ [[0x06], [0x02, 0, 0, 0xFE, 0, 1], [0x06], [0x02, 0, 1, 0, 2]]"
proof -
  have wrap: "(256 :: u8) = 0" by simp
  have c: "page_cuts 0xFE [0, 1, 2 :: u8] = [(0xFE, [0, 1]), (0x100, [2])]"
    by (simp add: page_cuts_step page_cuts_last)
  have d: "data_of (\<lambda>i. of_nat i) 3 = [0, 1, 2 :: u8]"
    by (simp add: data_of_def upt_rec)
  show ?thesis
    using Flash_WriteNoCheck_pages [OF nor_settles SPI_softInit_ready,
        where num = 3 and a = "0xFE" and base = "\<lambda>_ _. 0" and buf = of_nat]
    by (simp add: c d page_frames_def addr24_def wrap)
qed

theorem Flash_Write_equiv_NoCheck_witness:
  "\<exists>h1 h2. Flash_Write (slave_env nor_answer (\<lambda>_ _. 0)) (\<lambda>i. of_nat i) 0xFFE 4 (SPI_softInit []) = Some (1, h1) \<and>
    Flash_WriteNoCheck (slave_env nor_answer (\<lambda>_ _. 0)) (\<lambda>i. of_nat i) 0xFFE 4 (SPI_softInit []) = Some (1, h2) \<and>
    no_polls (frames h1) = no_polls (frames h2)"
  using Flash_Write_equiv_NoCheck [OF nor_settles SPI_softInit_ready,
      where num = 4 and a = "0xFFE" and base = "\<lambda>_ _. 0" and buf = of_nat]
  by simp

section \<open>Erasing\<close>

text \<open>
  An erase waits until the write enable has been taken, sends the command with its address, and waits
  again; the sector, block and chip commands differ in the opcode and the address only.
\<close>

lemma erase_frames:
  assumes "settles answer" "spi_ready h"
  shows "\<exists>h'. erase_at (slave_env answer base) cmd addr h = Some h' \<and> spi_ready h' \<and>
    no_polls (frames h') = no_polls (frames h) @ [[0x06], cmd # addr24 addr]"
proof -
  note we = WriteEnable_frame [OF assms(2)]
  obtain h1 n where w: "Flash_WaitBusy (slave_env answer base) (Flash_WriteEnable h) = Some h1"
    "spi_ready h1" "frames h1 = frames (Flash_WriteEnable h) @ replicate (Suc n) poll"
    by (rule WaitBusy_settles [OF assms(1) we(1)])
  note c = spi.command [OF w(2), of "cmd # addr24 addr"]
  obtain h2 n2 where w2: "Flash_WaitBusy (slave_env answer base)
      (NSS_H (fold SPI_WriteByte (cmd # addr24 addr) (NSS_L h1))) = Some h2" "spi_ready h2"
    "frames h2 = frames (NSS_H (fold SPI_WriteByte (cmd # addr24 addr) (NSS_L h1))) @ replicate (Suc n2) poll"
    by (rule WaitBusy_settles [OF assms(1) c(1)])
  show ?thesis
    using w w2 c we by (simp add: erase_at_def Let_def addr24_def no_polls_def del: replicate.simps)
qed

lemma EraseSector_frames:
  assumes "settles answer" "spi_ready h"
  shows "\<exists>h'. Flash_EraseSector (slave_env answer base) n h = Some h' \<and> spi_ready h' \<and>
    no_polls (frames h') = no_polls (frames h) @ [[0x06], 0x20 # addr24 (n * 4096)]"
  using erase_frames [OF assms] by (simp add: Flash_EraseSector_def)

text \<open>
  \<^verbatim>\<open>Flash_EraseBlock(n)\<close> does not erase block \<open>n\<close>. The address it sends is \<open>n * 65535\<close>, which for
  every block number from 1 up to the end of a 16 MB device lies in block \<open>n - 1\<close>.
\<close>

theorem Flash_EraseBlock_previous:
  assumes "settles answer" "spi_ready h" "0 < unat n" "unat n < 256"
  shows "\<exists>h'. Flash_EraseBlock (slave_env answer base) n h = Some h' \<and>
    no_polls (frames h') = no_polls (frames h) @ [[0x06], 0xD8 # addr24 (n * 65535)] \<and>
    unat (n * 65535) div 65536 = unat n - 1"
proof -
  have "unat n * 65535 < 2 ^ 32" using assms(4) by simp
  then have "unat (n * 65535) = unat n * 65535" by (simp add: unat_word_ariths)
  moreover have "unat n * 65535 = (unat n - 1) * 65536 + (65536 - unat n)"
    using assms(3,4) by (cases "unat n") auto
  ultimately have "unat (n * 65535) div 65536 = unat n - 1" using assms(3) by simp
  then show ?thesis
    using erase_frames [OF assms(1,2), of base "0xD8" "n * 65535"] unfolding Flash_EraseBlock_def by blast
qed

theorem Flash_EraseBlock_previous_witness:
  "\<exists>h'. Flash_EraseBlock (slave_env nor_answer (\<lambda>_ _. 0)) 1 (SPI_softInit []) = Some h' \<and>
    no_polls (frames h') = no_polls (frames (SPI_softInit [])) @ [[0x06], [0xD8, 0, 0xFF, 0xFF]]"
proof -
  have wrap: "(65535 :: u8) = 0xFF" by simp
  show ?thesis
    using Flash_EraseBlock_previous [OF nor_settles SPI_softInit_ready,
        where n = 1 and base = "\<lambda>_ _. 0"]
    by (simp add: addr24_def wrap)
qed

end
