(* ===== verification/FlashCtl.thy ===== *)
theory FlashCtl
  imports Mmio
begin

text \<open>
  The driver of the on-chip flash controller, \<^verbatim>\<open>stm32f10x_flash.c\<close>, for the connectivity line (the
  only bank-2 part of the file is compiled for another device). Every function is a state transformer
  on the access history. \<^verbatim>\<open>delay\<close> counts a local variable down and touches no register, so it is the
  identity. A store through a cast half-word pointer is a write of \<open>Half address\<close>.
\<close>

datatype FLASH_Status = FLASH_BUSY | FLASH_ERROR_PG | FLASH_ERROR_WRP | FLASH_COMPLETE | FLASH_TIMEOUT

abbreviation (input) ACR_LATENCY_Mask :: u32 where "ACR_LATENCY_Mask \<equiv> 0x00000038"
abbreviation (input) ACR_HLFCYA_Mask :: u32 where "ACR_HLFCYA_Mask \<equiv> 0xFFFFFFF7"
abbreviation (input) ACR_PRFTBE_Mask :: u32 where "ACR_PRFTBE_Mask \<equiv> 0xFFFFFFEF"
abbreviation (input) ACR_PRFTBS_Mask :: u32 where "ACR_PRFTBS_Mask \<equiv> 0x00000020"
abbreviation (input) CR_PG_Set :: u32 where "CR_PG_Set \<equiv> 0x00000001"
abbreviation (input) CR_PG_Reset :: u32 where "CR_PG_Reset \<equiv> 0x00001FFE"
abbreviation (input) CR_PER_Set :: u32 where "CR_PER_Set \<equiv> 0x00000002"
abbreviation (input) CR_PER_Reset :: u32 where "CR_PER_Reset \<equiv> 0x00001FFD"
abbreviation (input) CR_MER_Set :: u32 where "CR_MER_Set \<equiv> 0x00000004"
abbreviation (input) CR_MER_Reset :: u32 where "CR_MER_Reset \<equiv> 0x00001FFB"
abbreviation (input) CR_OPTPG_Set :: u32 where "CR_OPTPG_Set \<equiv> 0x00000010"
abbreviation (input) CR_OPTPG_Reset :: u32 where "CR_OPTPG_Reset \<equiv> 0x00001FEF"
abbreviation (input) CR_OPTER_Set :: u32 where "CR_OPTER_Set \<equiv> 0x00000020"
abbreviation (input) CR_OPTER_Reset :: u32 where "CR_OPTER_Reset \<equiv> 0x00001FDF"
abbreviation (input) CR_STRT_Set :: u32 where "CR_STRT_Set \<equiv> 0x00000040"
abbreviation (input) CR_LOCK_Set :: u32 where "CR_LOCK_Set \<equiv> 0x00000080"
abbreviation (input) RDPRT_Mask :: u32 where "RDPRT_Mask \<equiv> 0x00000002"
abbreviation (input) RDP_Key :: u16 where "RDP_Key \<equiv> 0x00A5"
abbreviation (input) FLASH_KEY1 :: u32 where "FLASH_KEY1 \<equiv> 0x45670123"
abbreviation (input) FLASH_KEY2 :: u32 where "FLASH_KEY2 \<equiv> 0xCDEF89AB"
abbreviation (input) EraseTimeout :: u32 where "EraseTimeout \<equiv> 0x00000FFF"
abbreviation (input) ProgramTimeout :: u32 where "ProgramTimeout \<equiv> 0x0000000F"
abbreviation (input) FLASH_FLAG_BSY :: u32 where "FLASH_FLAG_BSY \<equiv> 0x00000001"
abbreviation (input) FLASH_FLAG_EOP :: u32 where "FLASH_FLAG_EOP \<equiv> 0x00000020"
abbreviation (input) FLASH_FLAG_PGERR :: u32 where "FLASH_FLAG_PGERR \<equiv> 0x00000004"
abbreviation (input) FLASH_FLAG_WRPRTERR :: u32 where "FLASH_FLAG_WRPRTERR \<equiv> 0x00000010"
abbreviation (input) FLASH_FLAG_OPTERR :: u32 where "FLASH_FLAG_OPTERR \<equiv> 0x00000001"

section \<open>Access control\<close>

definition FLASH_SetLatency :: "env \<Rightarrow> u32 \<Rightarrow> hist \<Rightarrow> hist" where
  "FLASH_SetLatency env FLASH_Latency h =
     (let (tmpreg, h) = rd env FLASH_ACR h;
          tmpreg = tmpreg AND ACR_LATENCY_Mask;
          tmpreg = tmpreg OR FLASH_Latency
      in wr FLASH_ACR tmpreg h)"

definition FLASH_HalfCycleAccessCmd :: "env \<Rightarrow> u32 \<Rightarrow> hist \<Rightarrow> hist" where
  "FLASH_HalfCycleAccessCmd env FLASH_HalfCycleAccess h =
     or_reg env FLASH_ACR FLASH_HalfCycleAccess (and_reg env FLASH_ACR ACR_HLFCYA_Mask h)"

definition FLASH_PrefetchBufferCmd :: "env \<Rightarrow> u32 \<Rightarrow> hist \<Rightarrow> hist" where
  "FLASH_PrefetchBufferCmd env FLASH_PrefetchBuffer h =
     or_reg env FLASH_ACR FLASH_PrefetchBuffer (and_reg env FLASH_ACR ACR_PRFTBE_Mask h)"

definition FLASH_Unlock :: "hist \<Rightarrow> hist" where
  "FLASH_Unlock h = wr FLASH_KEYR FLASH_KEY2 (wr FLASH_KEYR FLASH_KEY1 h)"

definition FLASH_Lock :: "env \<Rightarrow> hist \<Rightarrow> hist" where
  "FLASH_Lock env h = or_reg env FLASH_CR CR_LOCK_Set h"

section \<open>Status\<close>

definition FLASH_GetStatus :: "env \<Rightarrow> hist \<Rightarrow> FLASH_Status \<times> hist" where
  "FLASH_GetStatus env h =
     (let (sr, h) = rd env FLASH_SR h in
      if sr AND FLASH_FLAG_BSY = FLASH_FLAG_BSY then (FLASH_BUSY, h)
      else let (sr, h) = rd env FLASH_SR h in
      if sr AND FLASH_FLAG_PGERR \<noteq> 0 then (FLASH_ERROR_PG, h)
      else let (sr, h) = rd env FLASH_SR h in
      if sr AND FLASH_FLAG_WRPRTERR \<noteq> 0 then (FLASH_ERROR_WRP, h)
      else (FLASH_COMPLETE, h))"

function wait_loop :: "env \<Rightarrow> u32 \<Rightarrow> FLASH_Status \<Rightarrow> hist \<Rightarrow> u32 \<times> FLASH_Status \<times> hist" where
  "wait_loop env Timeout status h =
     (if status = FLASH_BUSY \<and> Timeout \<noteq> 0 then
        let (status, h) = FLASH_GetStatus env h in wait_loop env (Timeout - 1) status h
      else (Timeout, status, h))"
  by pat_completeness auto
termination by (relation "measure (\<lambda>(_, t, _, _). unat t)") (simp_all add: unat_minus_one unat_gt_0)

declare wait_loop.simps [simp del]

definition FLASH_WaitForLastOperation :: "env \<Rightarrow> u32 \<Rightarrow> hist \<Rightarrow> FLASH_Status \<times> hist" where
  "FLASH_WaitForLastOperation env Timeout h =
     (let (status, h) = FLASH_GetStatus env h;
          (Timeout, status, h) = wait_loop env Timeout status h
      in (if Timeout = 0 then FLASH_TIMEOUT else status, h))"

definition FLASH_GetFlagStatus :: "env \<Rightarrow> u16 \<Rightarrow> hist \<Rightarrow> FlagStatus \<times> hist" where
  "FLASH_GetFlagStatus env FLASH_FLAG h =
     (if ucast FLASH_FLAG = FLASH_FLAG_OPTERR then
        let (v, h) = rd env FLASH_OBR h in (if v AND FLASH_FLAG_OPTERR \<noteq> 0 then SET else RESET, h)
      else
        let (v, h) = rd env FLASH_SR h in (if v AND ucast FLASH_FLAG \<noteq> 0 then SET else RESET, h))"

definition FLASH_ClearFlag :: "u16 \<Rightarrow> hist \<Rightarrow> hist" where
  "FLASH_ClearFlag FLASH_FLAG h = wr FLASH_SR (ucast FLASH_FLAG) h"

definition FLASH_ITConfig :: "env \<Rightarrow> u16 \<Rightarrow> FunctionalState \<Rightarrow> hist \<Rightarrow> hist" where
  "FLASH_ITConfig env FLASH_IT NewState h =
     (if NewState \<noteq> DISABLE then or_reg env FLASH_CR (ucast FLASH_IT) h
      else and_reg env FLASH_CR (NOT (ucast FLASH_IT)) h)"

definition FLASH_GetUserOptionByte :: "env \<Rightarrow> hist \<Rightarrow> u32 \<times> hist" where
  "FLASH_GetUserOptionByte env h = (let (v, h) = rd env FLASH_OBR h in (drop_bit 2 v, h))"

definition FLASH_GetWriteProtectionOptionByte :: "env \<Rightarrow> hist \<Rightarrow> u32 \<times> hist" where
  "FLASH_GetWriteProtectionOptionByte env h = rd env FLASH_WRPR h"

definition FLASH_GetReadOutProtectionStatus :: "env \<Rightarrow> hist \<Rightarrow> FlagStatus \<times> hist" where
  "FLASH_GetReadOutProtectionStatus env h =
     (let (v, h) = rd env FLASH_OBR h in (if v AND RDPRT_Mask \<noteq> 0 then SET else RESET, h))"

definition FLASH_GetPrefetchBufferStatus :: "env \<Rightarrow> hist \<Rightarrow> FlagStatus \<times> hist" where
  "FLASH_GetPrefetchBufferStatus env h =
     (let (v, h) = rd env FLASH_ACR h in (if v AND ACR_PRFTBS_Mask \<noteq> 0 then SET else RESET, h))"

section \<open>Erasing and programming\<close>

definition FLASH_ErasePage :: "env \<Rightarrow> u32 \<Rightarrow> hist \<Rightarrow> FLASH_Status \<times> hist" where
  "FLASH_ErasePage env Page_Address h =
     (let (status, h) = FLASH_WaitForLastOperation env EraseTimeout h in
      if status = FLASH_COMPLETE then
        let h = or_reg env FLASH_CR CR_PER_Set h;
            h = wr FLASH_AR Page_Address h;
            h = or_reg env FLASH_CR CR_STRT_Set h;
            (status, h) = FLASH_WaitForLastOperation env EraseTimeout h
        in (status, if status \<noteq> FLASH_TIMEOUT then and_reg env FLASH_CR CR_PER_Reset h else h)
      else (status, h))"

definition FLASH_EraseAllPages :: "env \<Rightarrow> hist \<Rightarrow> FLASH_Status \<times> hist" where
  "FLASH_EraseAllPages env h =
     (let (status, h) = FLASH_WaitForLastOperation env EraseTimeout h in
      if status = FLASH_COMPLETE then
        let h = or_reg env FLASH_CR CR_MER_Set h;
            h = or_reg env FLASH_CR CR_STRT_Set h;
            (status, h) = FLASH_WaitForLastOperation env EraseTimeout h
        in (status, if status \<noteq> FLASH_TIMEOUT then and_reg env FLASH_CR CR_MER_Reset h else h)
      else (status, h))"

definition unlock_option_bytes :: "hist \<Rightarrow> hist" where
  "unlock_option_bytes h = wr FLASH_OPTKEYR FLASH_KEY2 (wr FLASH_OPTKEYR FLASH_KEY1 h)"

definition FLASH_EraseOptionBytes :: "env \<Rightarrow> hist \<Rightarrow> FLASH_Status \<times> hist" where
  "FLASH_EraseOptionBytes env h =
     (let (status, h) = FLASH_WaitForLastOperation env EraseTimeout h in
      if status = FLASH_COMPLETE then
        let h = unlock_option_bytes h;
            h = or_reg env FLASH_CR CR_OPTER_Set h;
            h = or_reg env FLASH_CR CR_STRT_Set h;
            (status, h) = FLASH_WaitForLastOperation env EraseTimeout h
        in if status = FLASH_COMPLETE then
             let h = and_reg env FLASH_CR CR_OPTER_Reset h;
                 h = or_reg env FLASH_CR CR_OPTPG_Set h;
                 h = wr OB_RDP (ucast RDP_Key) h;
                 (status, h) = FLASH_WaitForLastOperation env ProgramTimeout h
             in (status, if status \<noteq> FLASH_TIMEOUT then and_reg env FLASH_CR CR_OPTPG_Reset h else h)
           else (status, if status \<noteq> FLASH_TIMEOUT then and_reg env FLASH_CR CR_OPTPG_Reset h else h)
      else (status, h))"

definition FLASH_ProgramWord :: "env \<Rightarrow> u32 \<Rightarrow> u32 \<Rightarrow> hist \<Rightarrow> FLASH_Status \<times> hist" where
  "FLASH_ProgramWord env Address Data h =
     (let (status, h) = FLASH_WaitForLastOperation env ProgramTimeout h in
      if status = FLASH_COMPLETE then
        let h = or_reg env FLASH_CR CR_PG_Set h;
            h = wr (Half Address) (ucast (ucast Data :: u16)) h;
            (status, h) = FLASH_WaitForLastOperation env ProgramTimeout h
        in if status = FLASH_COMPLETE then
             let tmp = Address + 2;
                 h = wr (Half tmp) (ucast (ucast (drop_bit 16 Data) :: u16)) h;
                 (status, h) = FLASH_WaitForLastOperation env ProgramTimeout h
             in (status, if status \<noteq> FLASH_TIMEOUT then and_reg env FLASH_CR CR_PG_Reset h else h)
           else (status, if status \<noteq> FLASH_TIMEOUT then and_reg env FLASH_CR CR_PG_Reset h else h)
      else (status, h))"

definition FLASH_ProgramHalfWord :: "env \<Rightarrow> u32 \<Rightarrow> u16 \<Rightarrow> hist \<Rightarrow> FLASH_Status \<times> hist" where
  "FLASH_ProgramHalfWord env Address Data h =
     (let (status, h) = FLASH_WaitForLastOperation env ProgramTimeout h in
      if status = FLASH_COMPLETE then
        let h = or_reg env FLASH_CR CR_PG_Set h;
            h = wr (Half Address) (ucast Data) h;
            (status, h) = FLASH_WaitForLastOperation env ProgramTimeout h
        in (status, if status \<noteq> FLASH_TIMEOUT then and_reg env FLASH_CR CR_PG_Reset h else h)
      else (status, h))"

definition FLASH_ProgramOptionByteData :: "env \<Rightarrow> u32 \<Rightarrow> u8 \<Rightarrow> hist \<Rightarrow> FLASH_Status \<times> hist" where
  "FLASH_ProgramOptionByteData env Address Data h =
     (let (status, h) = FLASH_WaitForLastOperation env ProgramTimeout h in
      if status = FLASH_COMPLETE then
        let h = unlock_option_bytes h;
            h = or_reg env FLASH_CR CR_OPTPG_Set h;
            h = wr (Half Address) (ucast Data) h;
            (status, h) = FLASH_WaitForLastOperation env ProgramTimeout h
        in (status, if status \<noteq> FLASH_TIMEOUT then and_reg env FLASH_CR CR_OPTPG_Reset h else h)
      else (status, h))"

text \<open>One write-protection byte of \<^verbatim>\<open>FLASH_EnableWriteProtection\<close>: programmed unless it is 0xFF.\<close>

definition program_wrp :: "env \<Rightarrow> reg \<Rightarrow> u16 \<Rightarrow> FLASH_Status \<times> hist \<Rightarrow> FLASH_Status \<times> hist" where
  "program_wrp env r WRP_Data = (\<lambda>(status, h).
     if status = FLASH_COMPLETE \<and> WRP_Data \<noteq> 0xFF then
       FLASH_WaitForLastOperation env ProgramTimeout (wr r (ucast WRP_Data) h)
     else (status, h))"

definition FLASH_EnableWriteProtection :: "env \<Rightarrow> u32 \<Rightarrow> hist \<Rightarrow> FLASH_Status \<times> hist" where
  "FLASH_EnableWriteProtection env FLASH_Pages h =
     (let FLASH_Pages = NOT FLASH_Pages;
          WRP0_Data = ucast (FLASH_Pages AND 0x000000FF);
          WRP1_Data = ucast (drop_bit 8 (FLASH_Pages AND 0x0000FF00));
          WRP2_Data = ucast (drop_bit 16 (FLASH_Pages AND 0x00FF0000));
          WRP3_Data = ucast (drop_bit 24 (FLASH_Pages AND 0xFF000000));
          (status, h) = FLASH_WaitForLastOperation env ProgramTimeout h
      in if status = FLASH_COMPLETE then
           let h = unlock_option_bytes h;
               h = or_reg env FLASH_CR CR_OPTPG_Set h;
               (status, h) = program_wrp env OB_WRP0 WRP0_Data (status, h);
               (status, h) = program_wrp env OB_WRP1 WRP1_Data (status, h);
               (status, h) = program_wrp env OB_WRP2 WRP2_Data (status, h);
               (status, h) = program_wrp env OB_WRP3 WRP3_Data (status, h)
           in (status, if status \<noteq> FLASH_TIMEOUT then and_reg env FLASH_CR CR_OPTPG_Reset h else h)
         else (status, h))"

definition FLASH_ReadOutProtection :: "env \<Rightarrow> FunctionalState \<Rightarrow> hist \<Rightarrow> FLASH_Status \<times> hist" where
  "FLASH_ReadOutProtection env NewState h =
     (let (status, h) = FLASH_WaitForLastOperation env EraseTimeout h in
      if status = FLASH_COMPLETE then
        let h = unlock_option_bytes h;
            h = or_reg env FLASH_CR CR_OPTER_Set h;
            h = or_reg env FLASH_CR CR_STRT_Set h;
            (status, h) = FLASH_WaitForLastOperation env EraseTimeout h
        in if status = FLASH_COMPLETE then
             let h = and_reg env FLASH_CR CR_OPTER_Reset h;
                 h = or_reg env FLASH_CR CR_OPTPG_Set h;
                 h = (if NewState \<noteq> DISABLE then wr OB_RDP 0x00 h else wr OB_RDP (ucast RDP_Key) h);
                 (status, h) = FLASH_WaitForLastOperation env EraseTimeout h
             in (status, if status \<noteq> FLASH_TIMEOUT then and_reg env FLASH_CR CR_OPTPG_Reset h else h)
           else (status, if status \<noteq> FLASH_TIMEOUT then and_reg env FLASH_CR CR_OPTER_Reset h else h)
      else (status, h))"

definition FLASH_UserOptionByteConfig ::
  "env \<Rightarrow> u16 \<Rightarrow> u16 \<Rightarrow> u16 \<Rightarrow> hist \<Rightarrow> FLASH_Status \<times> hist" where
  "FLASH_UserOptionByteConfig env OB_IWDG OB_STOP OB_STDBY h =
     (let h = unlock_option_bytes h;
          (status, h) = FLASH_WaitForLastOperation env ProgramTimeout h
      in if status = FLASH_COMPLETE then
           let h = or_reg env FLASH_CR CR_OPTPG_Set h;
               h = wr OB_USER (ucast (OB_IWDG OR (OB_STOP OR (OB_STDBY OR 0xF8)))) h;
               (status, h) = FLASH_WaitForLastOperation env ProgramTimeout h
           in (status, if status \<noteq> FLASH_TIMEOUT then and_reg env FLASH_CR CR_OPTPG_Reset h else h)
         else (status, h))"

section \<open>The stores of an operation\<close>

definition stores :: "hist \<Rightarrow> (reg \<times> u32) list" where
  "stores h = concat (map (\<lambda>e. case e of Wr r v \<Rightarrow> [(r, v)] | Rd _ _ \<Rightarrow> []) h)"

lemma stores_simps [simp]:
  "stores [] = []" "stores (h @ g) = stores h @ stores g"
  "stores (Wr r v # h) = (r, v) # stores h" "stores (Rd r v # h) = stores h"
  by (simp_all add: stores_def)

lemma stores_regs [simp]:
  "stores (wr r v h) = stores h @ [(r, v)]"
  "stores (or_reg env r m h) = stores h @ [(r, env h r OR m)]"
  "stores (and_reg env r m h) = stores h @ [(r, env h r AND m)]"
  by (simp_all add: hist_simps)

definition sr_reads :: "ev list \<Rightarrow> bool" where
  "sr_reads es \<longleftrightarrow> (\<forall>e \<in> set es. \<exists>v. e = Rd FLASH_SR v)"

lemma sr_reads_simps [simp]:
  "sr_reads []" "sr_reads (es @ fs) \<longleftrightarrow> sr_reads es \<and> sr_reads fs"
  "sr_reads (Rd FLASH_SR v # es) \<longleftrightarrow> sr_reads es"
  by (auto simp: sr_reads_def)

lemma sr_reads_stores: "sr_reads es \<Longrightarrow> stores es = []"
  by (induction es) (auto simp: sr_reads_def)

lemma sr_reads_last_write: "sr_reads es \<Longrightarrow> r \<noteq> FLASH_SR \<Longrightarrow> last_write r (h @ es) = last_write r h"
  by (rule last_write_append_other) (auto simp: sr_reads_def)

text \<open>The last poll of a history saw no busy bit and no error bit.\<close>

definition clean_poll :: "ev list \<Rightarrow> bool" where
  "clean_poll es \<longleftrightarrow> (\<exists>pre x y z. es = pre @ [Rd FLASH_SR x, Rd FLASH_SR y, Rd FLASH_SR z] \<and>
     \<not> bit x 0 \<and> \<not> bit y 2 \<and> \<not> bit z 4)"

lemma clean_poll_append: "clean_poll fs \<Longrightarrow> clean_poll (es @ fs)"
  unfolding clean_poll_def by (metis append_assoc)

lemma sr_tests:
  "(v :: u32) AND 1 = 1 \<longleftrightarrow> bit v 0" "(v :: u32) AND 4 \<noteq> 0 \<longleftrightarrow> bit v 2" "(v :: u32) AND 0x10 \<noteq> 0 \<longleftrightarrow> bit v 4"
  using and_exp_eq_0_iff_not_bit [of v 2] and_exp_eq_0_iff_not_bit [of v 4]
  unfolding and_one_eq bit_0 odd_iff_mod_2_eq_one by simp_all

lemma GetStatus_reads:
  "\<exists>es. snd (FLASH_GetStatus env h) = h @ es \<and> sr_reads es \<and> length es \<le> 3 \<and>
     fst (FLASH_GetStatus env h) \<noteq> FLASH_TIMEOUT \<and>
     (fst (FLASH_GetStatus env h) = FLASH_COMPLETE \<longrightarrow> clean_poll es)"
  unfolding FLASH_GetStatus_def rd_def Let_def split_def sr_tests
  by (auto simp: clean_poll_def)

lemma wait_loop_reads:
  "\<exists>es. snd (snd (wait_loop env t s h)) = h @ es \<and> sr_reads es \<and> length es \<le> 3 * unat t \<and>
     (fst (wait_loop env t s h) \<noteq> 0 \<longrightarrow> fst (snd (wait_loop env t s h)) \<noteq> FLASH_BUSY) \<and>
     (fst (snd (wait_loop env t s h)) = FLASH_COMPLETE \<longrightarrow> s = FLASH_COMPLETE \<and> es = [] \<or> clean_poll es)"
proof (induction env t s h rule: wait_loop.induct)
  case (1 env t s h)
  show ?case
  proof (cases "s = FLASH_BUSY \<and> t \<noteq> 0")
    case False
    then have "wait_loop env t s h = (t, s, h)" by (subst wait_loop.simps) auto
    with False show ?thesis by auto
  next
    case True
    obtain s1 es where g: "FLASH_GetStatus env h = (s1, h @ es)" "sr_reads es" "length es \<le> 3"
      "s1 = FLASH_COMPLETE \<longrightarrow> clean_poll es"
      using GetStatus_reads [of env h] by (metis prod.collapse)
    have t: "unat t = Suc (unat (t - 1))" using True by (simp add: unat_minus_one unat_gt_0)
    have w: "wait_loop env t s h = wait_loop env (t - 1) s1 (h @ es)"
      using True g(1) by (subst wait_loop.simps) simp
    from "1.IH" [OF True g(1) [symmetric] refl] obtain fs where
      r: "snd (snd (wait_loop env (t - 1) s1 (h @ es))) = (h @ es) @ fs" "sr_reads fs"
      "length fs \<le> 3 * unat (t - 1)"
      "fst (wait_loop env (t - 1) s1 (h @ es)) \<noteq> 0 \<longrightarrow> fst (snd (wait_loop env (t - 1) s1 (h @ es))) \<noteq> FLASH_BUSY"
      "fst (snd (wait_loop env (t - 1) s1 (h @ es))) = FLASH_COMPLETE \<longrightarrow>
         s1 = FLASH_COMPLETE \<and> fs = [] \<or> clean_poll fs"
      by blast
    with g w t show ?thesis by (intro exI [of _ "es @ fs"]) (auto intro: clean_poll_append)
  qed
qed

lemma Wait_reads:
  "\<exists>es. snd (FLASH_WaitForLastOperation env t h) = h @ es \<and> sr_reads es \<and>
     length es \<le> 3 * (unat t + 1) \<and> fst (FLASH_WaitForLastOperation env t h) \<noteq> FLASH_BUSY \<and>
     (fst (FLASH_WaitForLastOperation env t h) = FLASH_COMPLETE \<longrightarrow> clean_poll es)"
proof -
  obtain s es where g: "FLASH_GetStatus env h = (s, h @ es)" "sr_reads es" "length es \<le> 3"
    "s = FLASH_COMPLETE \<longrightarrow> clean_poll es"
    using GetStatus_reads [of env h] by (metis prod.collapse)
  obtain fs where r: "snd (snd (wait_loop env t s (h @ es))) = (h @ es) @ fs" "sr_reads fs"
      "length fs \<le> 3 * unat t"
      "fst (wait_loop env t s (h @ es)) \<noteq> 0 \<longrightarrow> fst (snd (wait_loop env t s (h @ es))) \<noteq> FLASH_BUSY"
      "fst (snd (wait_loop env t s (h @ es))) = FLASH_COMPLETE \<longrightarrow>
         s = FLASH_COMPLETE \<and> fs = [] \<or> clean_poll fs"
    using wait_loop_reads [of env t s "h @ es"] by blast
  with g show ?thesis
    by (intro exI [of _ "es @ fs"])
      (auto simp: FLASH_WaitForLastOperation_def case_prod_beta Let_def intro: clean_poll_append)
qed

lemma Wait_cases:
  obtains s es where "FLASH_WaitForLastOperation env t h = (s, h @ es)" "sr_reads es"
    "length es \<le> 3 * (unat t + 1)" "s \<noteq> FLASH_BUSY"
  using Wait_reads [of env t h] by (metis prod.collapse)

lemma stores_Wait [simp]: "stores (snd (FLASH_WaitForLastOperation env t h)) = stores h"
  using Wait_reads [of env t h] sr_reads_stores by fastforce

lemma last_write_Wait [simp]:
  "r \<noteq> FLASH_SR \<Longrightarrow> last_write r (snd (FLASH_WaitForLastOperation env t h)) = last_write r h"
  using Wait_reads [of env t h] sr_reads_last_write by fastforce

text \<open>
  \<^verbatim>\<open>FLASH_WaitForLastOperation\<close> always returns, after at most three status reads per unit of its
  time-out and the first poll; it never returns \<^verbatim>\<open>FLASH_BUSY\<close>, stores nothing, and a
  \<^verbatim>\<open>FLASH_COMPLETE\<close> is backed by a last poll that saw neither the busy bit nor an error bit.
\<close>

theorem FLASH_Wait_complete:
  "\<exists>es. snd (FLASH_WaitForLastOperation env t h) = h @ es \<and> sr_reads es \<and>
     length es \<le> 3 * (unat t + 1) \<and> fst (FLASH_WaitForLastOperation env t h) \<noteq> FLASH_BUSY \<and>
     (fst (FLASH_WaitForLastOperation env t h) = FLASH_COMPLETE \<longrightarrow> clean_poll es)"
  by (rule Wait_reads)

section \<open>What the operations store\<close>

definition half_stores :: "hist \<Rightarrow> (u32 \<times> u32) list" where
  "half_stores h = concat (map (\<lambda>e. case e of Wr (Half a) v \<Rightarrow> [(a, v)] | _ \<Rightarrow> []) h)"

lemma half_stores_simps [simp]:
  "half_stores [] = []" "half_stores (h @ g) = half_stores h @ half_stores g"
  "half_stores (Rd r v # h) = half_stores h"
  "half_stores (Wr (Half a) v # h) = (a, v) # half_stores h"
  "half_stores (Wr FLASH_CR v # h) = half_stores h" "half_stores (Wr FLASH_KEYR v # h) = half_stores h"
  "half_stores (Wr FLASH_AR v # h) = half_stores h" "half_stores (Wr FLASH_SR v # h) = half_stores h"
  by (simp_all add: half_stores_def)

lemma half_stores_reads: "sr_reads es \<Longrightarrow> half_stores es = []"
  by (induction es) (auto simp: sr_reads_def)

lemma half_stores_Wait [simp]:
  "half_stores (snd (FLASH_WaitForLastOperation env t h)) = half_stores h"
  using Wait_reads [of env t h] half_stores_reads by fastforce

lemma last_write_regs [simp]:
  "last_write q (wr r v h) = (if r = q then Some v else last_write q h)"
  "last_write q (or_reg env r m h) = (if r = q then Some (env h r OR m) else last_write q h)"
  "last_write q (and_reg env r m h) = (if r = q then Some (env h r AND m) else last_write q h)"
  by (simp_all add: hist_simps last_write_def)

lemma half_stores_regs [simp]:
  "half_stores (wr (Half a) v h) = half_stores h @ [(a, v)]"
  "half_stores (or_reg env FLASH_CR m h) = half_stores h"
  "half_stores (and_reg env FLASH_CR m h) = half_stores h"
  by (simp_all add: hist_simps)

lemma PG_Reset_bit [simp]: "\<not> bit (v AND CR_PG_Reset) 0"
  by (simp add: bit_simps)

text \<open>
  C25: programming a word. On success exactly two half-words have been stored, low half first, at the
  address and two above it; on failure none, or the low one only. The interrupted store is never
  retried. The programming bit is set before the first store, and unless the controller timed out the
  last value stored in \<^verbatim>\<open>CR\<close> has it cleared.
\<close>

theorem FLASH_ProgramWord_stores:
  "\<exists>stored. half_stores (snd (FLASH_ProgramWord env a d h)) = half_stores h @ stored \<and>
     prefix stored [(a, ucast (ucast d :: u16)), (a + 2, drop_bit 16 d)] \<and>
     (fst (FLASH_ProgramWord env a d h) = FLASH_COMPLETE \<longrightarrow> length stored = 2) \<and>
     (stored \<noteq> [] \<longrightarrow> fst (FLASH_ProgramWord env a d h) \<noteq> FLASH_TIMEOUT \<longrightarrow>
        (\<exists>v. last_write FLASH_CR (snd (FLASH_ProgramWord env a d h)) = Some v \<and> \<not> bit v 0))"
proof -
  have hi: "ucast (ucast (drop_bit 16 d) :: u16) = drop_bit 16 d"
    by (rule bit_word_eqI) (auto simp: bit_simps dest: bit_imp_le_length)
  show ?thesis
    by (auto simp: FLASH_ProgramWord_def case_prod_beta Let_def hi)
qed

lemma ErasePage_stores:
  "stores (snd (FLASH_ErasePage env a h)) = stores h \<or>
   (\<exists>v w. stores (snd (FLASH_ErasePage env a h)) = stores h @ [(FLASH_CR, v), (FLASH_AR, a), (FLASH_CR, w)] \<or>
     (\<exists>u. stores (snd (FLASH_ErasePage env a h))
         = stores h @ [(FLASH_CR, v), (FLASH_AR, a), (FLASH_CR, w), (FLASH_CR, u)]) \<and> bit v 1 \<and> bit w 6)"
  by (auto simp: FLASH_ErasePage_def case_prod_beta Let_def bit_simps)

text \<open>
  A status query for \<^verbatim>\<open>FLASH_FLAG_BSY\<close> does not look at the busy bit. \<^verbatim>\<open>FLASH_FLAG_BSY\<close> and
  \<^verbatim>\<open>FLASH_FLAG_OPTERR\<close> are the same number, so \<^verbatim>\<open>FLASH_GetFlagStatus\<close> answers from the option-byte
  register: the result is the same whatever the status register would have read.
\<close>

theorem FLASH_GetFlagStatus_BSY:
  "fst (FLASH_GetFlagStatus (\<lambda>g r. if r = FLASH_SR then busy g else env g r) (ucast FLASH_FLAG_BSY) h)
     = (if bit (env h FLASH_OBR) 0 then SET else RESET) \<and>
   snd (FLASH_GetFlagStatus (\<lambda>g r. if r = FLASH_SR then busy g else env g r) (ucast FLASH_FLAG_BSY) h)
     = h @ [Rd FLASH_OBR (env h FLASH_OBR)]"
  by (simp add: FLASH_GetFlagStatus_def rd_def one_and_eq and_one_eq bit_0 odd_iff_mod_2_eq_one)

lemma GetFlagStatus_SR:
  assumes "flag = 0x20 \<or> flag = 4 \<or> flag = 0x10"
  shows "FLASH_GetFlagStatus env flag h
    = (if env h FLASH_SR AND ucast flag \<noteq> 0 then SET else RESET, h @ [Rd FLASH_SR (env h FLASH_SR)])"
  using assms by (auto simp: FLASH_GetFlagStatus_def rd_def)

lemma GetFlagStatus_BSY:
  "FLASH_GetFlagStatus env 1 h
    = (if bit (env h FLASH_OBR) 0 then SET else RESET, h @ [Rd FLASH_OBR (env h FLASH_OBR)])"
  by (simp add: FLASH_GetFlagStatus_def rd_def one_and_eq and_one_eq bit_0 odd_iff_mod_2_eq_one)

section \<open>Witnesses\<close>

theorem FLASH_Wait_complete_witness:
  "\<exists>es. snd (FLASH_WaitForLastOperation (\<lambda>_ _. 0) 5 []) = es \<and> sr_reads es \<and> length es \<le> 18 \<and> clean_poll es"
proof -
  have "fst (FLASH_WaitForLastOperation (\<lambda>_ _. 0) 5 []) = FLASH_COMPLETE"
    by (simp add: FLASH_WaitForLastOperation_def FLASH_GetStatus_def wait_loop.simps rd_def)
  then show ?thesis using FLASH_Wait_complete [of "\<lambda>_ _. 0" 5 "[]"] by auto
qed

theorem FLASH_ProgramWord_stores_witness:
  "half_stores (snd (FLASH_ProgramWord (\<lambda>_ _. 0) 0x0803F000 0x12345678 []))
     = [(0x0803F000, 0x5678), (0x0803F002, 0x1234)] \<and>
   (\<exists>v. last_write FLASH_CR (snd (FLASH_ProgramWord (\<lambda>_ _. 0) 0x0803F000 0x12345678 [])) = Some v \<and> \<not> bit v 0)"
proof -
  have w: "fst (FLASH_WaitForLastOperation (\<lambda>_ _. 0) t h) = FLASH_COMPLETE" if "t \<noteq> 0" for t h
    using that by (simp add: FLASH_WaitForLastOperation_def FLASH_GetStatus_def wait_loop.simps rd_def Let_def)
  have "fst (FLASH_ProgramWord (\<lambda>_ _. 0) 0x0803F000 0x12345678 []) = FLASH_COMPLETE"
    by (simp add: FLASH_ProgramWord_def case_prod_beta Let_def w)
  with FLASH_ProgramWord_stores [of "\<lambda>_ _. 0" "0x0803F000" "0x12345678" "[]"] obtain stored where
    s: "half_stores (snd (FLASH_ProgramWord (\<lambda>_ _. 0) 0x0803F000 0x12345678 [])) = stored"
    "prefix stored [(0x0803F000, 0x5678), (0x0803F002, 0x1234)]" "length stored = 2"
    "stored \<noteq> [] \<longrightarrow> (\<exists>v. last_write FLASH_CR (snd (FLASH_ProgramWord (\<lambda>_ _. 0) 0x0803F000 0x12345678 [])) = Some v \<and> \<not> bit v 0)"
    by auto
  then have "stored = [(0x0803F000, 0x5678), (0x0803F002, 0x1234)]"
    by (auto simp: prefix_def length_Suc_conv numeral_2_eq_2)
  with s show ?thesis by simp
qed

end
