(* ===== verification/FlashDev.thy ===== *)
theory FlashDev
  imports FlashCtl
begin

text \<open>
  What the flash controller does, as its programming manual describes it, and what the driver achieves
  on it. \<open>fdev_of m h\<close> is the state of the controller and of the array after the accesses \<open>h\<close>, starting
  locked with contents \<open>m\<close>; \<open>fpec_env\<close> says which reads of the environment agree with it. Neither is
  code of the program: theorems use \<open>fpec_env\<close> as a hypothesis, and \<open>quick_env\<close> satisfies it.

  A store in \<^verbatim>\<open>CR\<close> has no effect while the controller is locked. A start bit with the page-erase bit
  erases the 2 KB page of \<^verbatim>\<open>AR\<close>; a half-word store with the programming bit writes two blank cells (or
  writes zero). An operation is pending until a status read finds the controller not busy, which sets
  the end-of-operation flag.
\<close>

record fdev =
  key1 :: bool
  creg :: u32
  areg :: u32
  pending :: bool
  eop :: bool
  cells :: "u32 \<Rightarrow> u8"

definition page_of :: "u32 \<Rightarrow> u32" where
  "page_of a = drop_bit 11 a"

fun fdev_step :: "ev \<Rightarrow> fdev \<Rightarrow> fdev" where
  "fdev_step (Wr FLASH_KEYR v) d =
     (if v = FLASH_KEY1 then d\<lparr>key1 := True\<rparr>
      else if v = FLASH_KEY2 \<and> key1 d then d\<lparr>key1 := False, creg := unset_bit 7 (creg d)\<rparr>
      else d\<lparr>key1 := False\<rparr>)"
| "fdev_step (Wr FLASH_CR v) d =
     (if bit (creg d) 7 then d
      else if bit v 6 \<and> bit v 2 then d\<lparr>creg := v, pending := True, cells := (\<lambda>_. 0xFF)\<rparr>
      else if bit v 6 \<and> bit v 1 then
        d\<lparr>creg := v, pending := True,
          cells := (\<lambda>x. if page_of x = page_of (areg d) then 0xFF else cells d x)\<rparr>
      else if bit v 6 then d\<lparr>creg := v, pending := True\<rparr>
      else d\<lparr>creg := v\<rparr>)"
| "fdev_step (Wr FLASH_AR v) d = d\<lparr>areg := v\<rparr>"
| "fdev_step (Wr FLASH_SR v) d = (if bit v 5 then d\<lparr>eop := False\<rparr> else d)"
| "fdev_step (Wr (Half a) v) d =
     (if \<not> bit (creg d) 7 \<and> bit (creg d) 0 \<and> (cells d a = 0xFF \<and> cells d (a + 1) = 0xFF \<or> v = 0)
      then d\<lparr>pending := True, cells := (cells d)(a := ucast v, a + 1 := ucast (drop_bit 8 v))\<rparr>
      else d)"
| "fdev_step (Rd FLASH_SR v) d =
     (if pending d \<and> \<not> bit v 0 then d\<lparr>pending := False, eop := True\<rparr> else d)"
| "fdev_step _ d = d"

definition fdev_of :: "(u32 \<Rightarrow> u8) \<Rightarrow> hist \<Rightarrow> fdev" where
  "fdev_of m h = fold fdev_step h
     \<lparr>key1 = False, creg = 0x80, areg = 0, pending = False, eop = False, cells = m\<rparr>"

text \<open>The history after \<open>n\<close> status reads.\<close>

fun sr_polls :: "env \<Rightarrow> nat \<Rightarrow> hist \<Rightarrow> hist" where
  "sr_polls env 0 h = h"
| "sr_polls env (Suc n) h = sr_polls env n (h @ [Rd FLASH_SR (env h FLASH_SR)])"

definition fpec_env :: "(u32 \<Rightarrow> u8) \<Rightarrow> env \<Rightarrow> bool" where
  "fpec_env m env \<longleftrightarrow>
     (\<forall>h i. i < 6 \<or> i = 7 \<longrightarrow> bit (env h FLASH_CR) i = bit (creg (fdev_of m h)) i) \<and>
     (\<forall>h. bit (env h FLASH_CR) 6 \<longrightarrow> pending (fdev_of m h)) \<and>
     (\<forall>h. \<not> pending (fdev_of m h) \<longrightarrow> bit (env h FLASH_SR) 5 = eop (fdev_of m h)) \<and>
     (\<forall>h a. env h (Word a) = word32_of (cells (fdev_of m h) a) (cells (fdev_of m h) (a + 1))
        (cells (fdev_of m h) (a + 2)) (cells (fdev_of m h) (a + 3))) \<and>
     (\<forall>h. \<exists>n < 15. \<not> bit (env (sr_polls env n h) FLASH_SR) 0) \<and>
     (\<forall>h. \<not> bit (env h FLASH_SR) 2 \<and> \<not> bit (env h FLASH_SR) 4 \<and> \<not> bit (env h FLASH_OBR) 0)"

definition quick_env :: "(u32 \<Rightarrow> u8) \<Rightarrow> env" where
  "quick_env m h r =
     (case r of FLASH_CR \<Rightarrow> unset_bit 6 (creg (fdev_of m h))
      | FLASH_SR \<Rightarrow> (if eop (fdev_of m h) then 0x20 else 0)
      | Word a \<Rightarrow> word32_of (cells (fdev_of m h) a) (cells (fdev_of m h) (a + 1))
          (cells (fdev_of m h) (a + 2)) (cells (fdev_of m h) (a + 3))
      | _ \<Rightarrow> 0)"

lemma quick_env_fpec: "fpec_env m (quick_env m)"
  unfolding fpec_env_def
  by (intro conjI allI impI exI [of _ 0])
    (auto simp: quick_env_def bit_unset_bit_iff split: if_splits)

section \<open>The controller under single accesses\<close>

lemma fdev_of_append: "fdev_of m (h @ es) = fold fdev_step es (fdev_of m h)"
  by (simp add: fdev_of_def)

definition settle :: "fdev \<Rightarrow> fdev" where
  "settle d = d\<lparr>pending := False, eop := eop d \<or> pending d\<rparr>"

lemma settle_simps [simp]:
  "key1 (settle d) = key1 d" "creg (settle d) = creg d" "areg (settle d) = areg d"
  "\<not> pending (settle d)" "cells (settle d) = cells d" "eop (settle d) = (eop d \<or> pending d)"
  by (simp_all add: settle_def)

lemma settle_not_pending: "\<not> pending d \<Longrightarrow> settle d = d"
  by (simp add: settle_def)

lemma fdev_sr_read: "fdev_step (Rd FLASH_SR v) d = (if bit v 0 then d else settle d)"
  by (simp add: settle_def)

lemma fold_sr_reads:
  "sr_reads es \<Longrightarrow> fold fdev_step es d = d \<or> fold fdev_step es d = settle d"
proof (induction es arbitrary: d)
  case (Cons e es)
  then obtain v where e: "e = Rd FLASH_SR v" "sr_reads es" by (auto simp: sr_reads_def)
  have "settle (settle d) = settle d" by (simp add: settle_not_pending)
  with Cons.IH [OF e(2), of d] Cons.IH [OF e(2), of "settle d"] show ?case
    by (simp add: e(1) fdev_sr_read del: fdev_step.simps)
qed simp

lemma fold_clean_poll:
  assumes "sr_reads es" "clean_poll es"
  shows "fold fdev_step es d = settle d"
proof -
  obtain pre x y z where es: "es = pre @ [Rd FLASH_SR x, Rd FLASH_SR y, Rd FLASH_SR z]" "\<not> bit x 0"
    using assms(2) unfolding clean_poll_def by blast
  then have "sr_reads pre" using assms(1) by simp
  then have "fold fdev_step pre d = d \<or> fold fdev_step pre d = settle d" by (rule fold_sr_reads)
  moreover have "settle (settle d) = settle d" by (simp add: settle_not_pending)
  ultimately show ?thesis using es(2) by (auto simp: es(1) fdev_sr_read simp del: fdev_step.simps)
qed

lemma fpecD:
  assumes "fpec_env m env"
  shows "i < 6 \<or> i = 7 \<Longrightarrow> bit (env h FLASH_CR) i = bit (creg (fdev_of m h)) i"
    and "\<not> pending (fdev_of m h) \<Longrightarrow> \<not> bit (env h FLASH_CR) 6"
    and "\<not> pending (fdev_of m h) \<Longrightarrow> bit (env h FLASH_SR) 5 = eop (fdev_of m h)"
    and "env h (Word a) = word32_of (cells (fdev_of m h) a) (cells (fdev_of m h) (a + 1))
        (cells (fdev_of m h) (a + 2)) (cells (fdev_of m h) (a + 3))"
    and "\<exists>n < 15. \<not> bit (env (sr_polls env n h) FLASH_SR) 0"
    and "\<not> bit (env h FLASH_SR) 2" "\<not> bit (env h FLASH_SR) 4" "\<not> bit (env h FLASH_OBR) 0"
  using assms unfolding fpec_env_def by blast+

section \<open>Waiting succeeds\<close>

lemma GetStatus_busy:
  "bit (env h FLASH_SR) 0 \<Longrightarrow> FLASH_GetStatus env h = (FLASH_BUSY, h @ [Rd FLASH_SR (env h FLASH_SR)])"
  by (simp add: FLASH_GetStatus_def rd_def sr_tests)

lemma GetStatus_clean:
  assumes "fpec_env m env" "\<not> bit (env h FLASH_SR) 0"
  shows "fst (FLASH_GetStatus env h) = FLASH_COMPLETE"
proof -
  have b: "env g FLASH_SR AND 4 = 0" "env g FLASH_SR AND 16 = 0" for g
    using sr_tests(2,3) [of "env g FLASH_SR"] fpecD(6,7) [OF assms(1), of g] by blast+
  show ?thesis
    using assms(2) by (simp add: FLASH_GetStatus_def rd_def sr_tests(1) b)
qed

lemma wait_loop_succeeds:
  assumes "fpec_env m env"
  shows "\<not> bit (env (sr_polls env n h) FLASH_SR) 0 \<Longrightarrow> n < unat t \<Longrightarrow> FLASH_GetStatus env h = (s, g) \<Longrightarrow>
    fst (wait_loop env t s g) \<noteq> 0 \<and> fst (snd (wait_loop env t s g)) = FLASH_COMPLETE"
proof (induction n arbitrary: h t s g)
  case 0
  then have "s = FLASH_COMPLETE" "t \<noteq> 0" using GetStatus_clean [OF assms, of h] by auto
  then show ?case by (subst (1 2) wait_loop.simps) simp
next
  case (Suc n)
  show ?case
  proof (cases "bit (env h FLASH_SR) 0")
    case False
    then have "s = FLASH_COMPLETE" "t \<noteq> 0" using GetStatus_clean [OF assms, of h] Suc.prems by auto
    then show ?thesis by (subst (1 2) wait_loop.simps) simp
  next
    case True
    then have s: "s = FLASH_BUSY" "g = h @ [Rd FLASH_SR (env h FLASH_SR)]"
      using GetStatus_busy [where env = env and h = h] True Suc.prems(3) by simp_all
    obtain s' g' where g': "FLASH_GetStatus env g = (s', g')" by fastforce
    have t1: "t \<noteq> 0" using Suc.prems(2) by auto
    then have t2: "n < unat (t - 1)" using Suc.prems(2) by (simp add: unat_minus_one)
    have "\<not> bit (env (sr_polls env n g) FLASH_SR) 0" using Suc.prems(1) s(2) by simp
    from Suc.IH [OF this t2 g'] show ?thesis
      using s(1) t1 g' by (subst (1 2) wait_loop.simps) simp
  qed
qed

lemma Wait_succeeds:
  assumes "fpec_env m env" "15 \<le> unat t"
  obtains es where "FLASH_WaitForLastOperation env t h = (FLASH_COMPLETE, h @ es)"
    "fdev_of m (h @ es) = settle (fdev_of m h)"
proof -
  obtain n where n: "n < 15" "\<not> bit (env (sr_polls env n h) FLASH_SR) 0"
    using fpecD(5) [OF assms(1)] by blast
  obtain s g where g: "FLASH_GetStatus env h = (s, g)" by fastforce
  from n(1) assms(2) have "n < unat t" by simp
  from wait_loop_succeeds [OF assms(1) n(2) this g]
  have c: "fst (FLASH_WaitForLastOperation env t h) = FLASH_COMPLETE"
    by (simp add: FLASH_WaitForLastOperation_def g case_prod_beta Let_def)
  from Wait_reads [of env t h] c obtain es where
    es: "snd (FLASH_WaitForLastOperation env t h) = h @ es" "sr_reads es" "clean_poll es" by blast
  show thesis
    using that [of es] c es(1) fold_clean_poll [OF es(2,3)] by (simp add: fdev_of_append prod_eq_iff)
qed

section \<open>Function bits of the control register\<close>

definition func :: "fdev \<Rightarrow> nat set \<Rightarrow> bool" where
  "func d S \<longleftrightarrow> \<not> pending d \<and> \<not> bit (creg d) 7 \<and> (\<forall>i < 6. bit (creg d) i \<longleftrightarrow> i \<in> S)"

lemma below_6: "(i :: nat) < 6 \<longleftrightarrow> i = 0 \<or> i = 1 \<or> i = 2 \<or> i = 3 \<or> i = 4 \<or> i = 5"
  by auto

lemma set_masks:
  "i < 8 \<Longrightarrow> bit (1 :: u32) i \<longleftrightarrow> i = 0" "i < 8 \<Longrightarrow> bit (2 :: u32) i \<longleftrightarrow> i = 1"
  "i < 8 \<Longrightarrow> bit (0x40 :: u32) i \<longleftrightarrow> i = 6" "i < 8 \<Longrightarrow> bit (0x1FFE :: u32) i \<longleftrightarrow> i \<noteq> 0"
  "i < 8 \<Longrightarrow> bit (0x1FFD :: u32) i \<longleftrightarrow> i \<noteq> 1"
  by (auto simp: numeral_eq_Suc less_Suc_eq)

lemma fdev_store_CR:
  "\<not> bit (creg d) 7 \<Longrightarrow> \<not> bit v 6 \<Longrightarrow> fdev_step (Wr FLASH_CR v) d = d\<lparr>creg := v\<rparr>"
  by simp

lemma func_or:
  assumes "fpec_env m env" "func (fdev_of m h) S" "i < 6" "\<And>j. j < 8 \<Longrightarrow> bit v j \<longleftrightarrow> j = i"
  shows "\<exists>c. fdev_of m (or_reg env FLASH_CR v h) = (fdev_of m h)\<lparr>creg := c\<rparr> \<and>
    func (fdev_of m (or_reg env FLASH_CR v h)) (insert i S)"
proof -
  let ?w = "env h FLASH_CR OR v"
  have b: "\<not> bit ?w 6" "\<not> bit ?w 7" "\<forall>j < 6. bit ?w j \<longleftrightarrow> j \<in> insert i S"
    using assms fpecD(1,2) [OF assms(1), where h = h] by (auto simp: func_def bit_or_iff)
  have "fdev_of m (or_reg env FLASH_CR v h) = (fdev_of m h)\<lparr>creg := ?w\<rparr>"
    using assms(2) b(1) by (simp add: hist_simps fdev_of_append func_def)
  with b assms(2) show ?thesis by (auto simp: func_def)
qed

lemma func_and:
  assumes "fpec_env m env" "func (fdev_of m h) S" "i < 6" "\<And>j. j < 8 \<Longrightarrow> bit v j \<longleftrightarrow> j \<noteq> i"
  shows "\<exists>c. fdev_of m (and_reg env FLASH_CR v h) = (fdev_of m h)\<lparr>creg := c\<rparr> \<and>
    func (fdev_of m (and_reg env FLASH_CR v h)) (S - {i})"
proof -
  let ?w = "env h FLASH_CR AND v"
  have b: "\<not> bit ?w 6" "\<not> bit ?w 7" "\<forall>j < 6. bit ?w j \<longleftrightarrow> j \<in> S - {i}"
    using assms fpecD(1,2) [OF assms(1), where h = h] by (auto simp: func_def bit_and_iff)
  have "fdev_of m (and_reg env FLASH_CR v h) = (fdev_of m h)\<lparr>creg := ?w\<rparr>"
    using assms(2) b(1) by (simp add: hist_simps fdev_of_append func_def)
  with b assms(2) show ?thesis by (auto simp: func_def)
qed

definition erased :: "u32 \<Rightarrow> (u32 \<Rightarrow> u8) \<Rightarrow> u32 \<Rightarrow> u8" where
  "erased a c = (\<lambda>x. if page_of x = page_of a then 0xFF else c x)"

text \<open>Starting a page erase.\<close>

lemma start_erase:
  assumes "fpec_env m env" "func (fdev_of m h) {1}" "areg (fdev_of m h) = a"
  shows "\<exists>c. fdev_of m (or_reg env FLASH_CR CR_STRT_Set h)
      = (fdev_of m h)\<lparr>creg := c, pending := True, cells := erased a (cells (fdev_of m h))\<rparr> \<and>
    \<not> bit c 7 \<and> (\<forall>i < 6. bit c i \<longleftrightarrow> i = 1)"
proof -
  let ?w = "env h FLASH_CR OR 0x40"
  have w: "bit ?w j \<longleftrightarrow> bit (env h FLASH_CR) j \<or> j = 6" if "j < 8" for j
    using set_masks(3) [OF that] by (simp add: bit_or_iff)
  have b: "bit ?w 6" "\<not> bit ?w 7" "\<forall>j < 6. bit ?w j \<longleftrightarrow> j = 1"
    using assms(2) fpecD(1) [OF assms(1), where h = h] by (auto simp: func_def w)
  then have "bit ?w 1" "\<not> bit ?w 2" by simp_all
  with b assms(2,3) show ?thesis
    by (auto simp: hist_simps fdev_of_append func_def erased_def)
qed

lemma func_settle:
  "\<not> bit (creg d) 7 \<Longrightarrow> \<forall>i < 6. bit (creg d) i \<longleftrightarrow> i \<in> S \<Longrightarrow> func (settle d) S"
  by (simp add: func_def)

section \<open>Erasing a page, programming a word\<close>

lemma ErasePage_device:
  assumes "fpec_env m env" "func (fdev_of m h) {}"
  shows "\<exists>h'. FLASH_ErasePage env a h = (FLASH_COMPLETE, h') \<and> func (fdev_of m h') {} \<and>
    eop (fdev_of m h') \<and> cells (fdev_of m h') = erased a (cells (fdev_of m h))"
proof -
  have t: "15 \<le> unat EraseTimeout" by simp
  obtain es where w1: "FLASH_WaitForLastOperation env EraseTimeout h = (FLASH_COMPLETE, h @ es)"
    "fdev_of m (h @ es) = settle (fdev_of m h)"
    by (rule Wait_succeeds [OF assms(1) t])
  let ?h1 = "h @ es"
  have d1: "fdev_of m ?h1 = fdev_of m h" "func (fdev_of m ?h1) {}"
    using w1(2) assms(2) by (simp_all add: settle_not_pending func_def)
  let ?h2 = "or_reg env FLASH_CR CR_PER_Set ?h1"
  obtain c where d2: "fdev_of m ?h2 = (fdev_of m h)\<lparr>creg := c\<rparr>" "func (fdev_of m ?h2) {1}"
    using func_or [OF assms(1) d1(2), of 1 2] set_masks(2) d1(1) by auto
  let ?h3 = "wr FLASH_AR a ?h2"
  have d3: "fdev_of m ?h3 = (fdev_of m ?h2)\<lparr>areg := a\<rparr>" by (simp add: hist_simps fdev_of_append)
  have f3: "func (fdev_of m ?h3) {1}" "areg (fdev_of m ?h3) = a"
    using d2(2) by (simp_all add: d3 func_def)
  let ?h4 = "or_reg env FLASH_CR CR_STRT_Set ?h3"
  obtain c4 where d4: "fdev_of m ?h4
      = (fdev_of m ?h3)\<lparr>creg := c4, pending := True, cells := erased a (cells (fdev_of m ?h3))\<rparr>"
    "\<not> bit c4 7" "\<forall>i < 6. bit c4 i \<longleftrightarrow> i = 1"
    using start_erase [OF assms(1) f3] by blast
  obtain fs where w2: "FLASH_WaitForLastOperation env EraseTimeout ?h4 = (FLASH_COMPLETE, ?h4 @ fs)"
    "fdev_of m (?h4 @ fs) = settle (fdev_of m ?h4)"
    by (rule Wait_succeeds [OF assms(1) t])
  have f5: "func (fdev_of m (?h4 @ fs)) {1}" unfolding w2(2) using d4 by (simp add: func_def)
  from func_and [OF assms(1) f5, of 1 "0x1FFD"] set_masks(5) obtain c6 where
    d6: "fdev_of m (and_reg env FLASH_CR CR_PER_Reset (?h4 @ fs)) = (fdev_of m (?h4 @ fs))\<lparr>creg := c6\<rparr>"
    "func (fdev_of m (and_reg env FLASH_CR CR_PER_Reset (?h4 @ fs))) {}" by auto
  have "FLASH_ErasePage env a h = (FLASH_COMPLETE, and_reg env FLASH_CR CR_PER_Reset (?h4 @ fs))"
    by (simp add: FLASH_ErasePage_def w1 w2)
  moreover have "cells (fdev_of m (and_reg env FLASH_CR CR_PER_Reset (?h4 @ fs))) = erased a (cells (fdev_of m h))"
    "eop (fdev_of m (and_reg env FLASH_CR CR_PER_Reset (?h4 @ fs)))"
    unfolding d6(1) w2(2) d4(1) d3 d2(1) by simp_all
  ultimately show ?thesis using d6(2) by blast
qed

lemma store_half:
  assumes "func (fdev_of m h) {0}" "cells (fdev_of m h) a = 0xFF" "cells (fdev_of m h) (a + 1) = 0xFF"
  shows "fdev_of m (wr (Half a) v h) = (fdev_of m h)\<lparr>pending := True,
    cells := (cells (fdev_of m h))(a := ucast v, a + 1 := ucast (drop_bit 8 v))\<rparr>"
  using assms by (simp add: hist_simps fdev_of_append func_def)

definition put32 :: "u32 \<Rightarrow> u32 \<Rightarrow> (u32 \<Rightarrow> u8) \<Rightarrow> u32 \<Rightarrow> u8" where
  "put32 a v c = c(a := ucast v, a + 1 := ucast (drop_bit 8 v), a + 2 := ucast (drop_bit 16 v),
     a + 3 := ucast (drop_bit 24 v))"

lemma ProgramWord_device:
  assumes "fpec_env m env" "func (fdev_of m h) {}"
    "\<forall>i \<in> {0, 1, 2, 3}. cells (fdev_of m h) (a + i) = 0xFF"
  shows "\<exists>h'. FLASH_ProgramWord env a v h = (FLASH_COMPLETE, h') \<and> func (fdev_of m h') {} \<and>
    eop (fdev_of m h') \<and> cells (fdev_of m h') = put32 a v (cells (fdev_of m h))"
proof -
  have t: "15 \<le> unat ProgramTimeout" by simp
  obtain es where w1: "FLASH_WaitForLastOperation env ProgramTimeout h = (FLASH_COMPLETE, h @ es)"
    "fdev_of m (h @ es) = settle (fdev_of m h)"
    by (rule Wait_succeeds [OF assms(1) t])
  let ?h1 = "h @ es" and ?c = "cells (fdev_of m h)"
  have d1: "fdev_of m ?h1 = fdev_of m h" "func (fdev_of m ?h1) {}"
    using w1(2) assms(2) by (simp_all add: settle_not_pending func_def)
  let ?h2 = "or_reg env FLASH_CR CR_PG_Set ?h1"
  obtain c where d2: "fdev_of m ?h2 = (fdev_of m h)\<lparr>creg := c\<rparr>" "func (fdev_of m ?h2) {0}"
    using func_or [OF assms(1) d1(2), of 0 1] set_masks(1) d1(1) by auto
  let ?lo = "ucast (ucast v :: u16) :: u32" and ?hi = "ucast (ucast (drop_bit 16 v) :: u16) :: u32"
  let ?h3 = "wr (Half a) ?lo ?h2"
  have d3: "fdev_of m ?h3 = (fdev_of m ?h2)\<lparr>pending := True,
      cells := ?c(a := ucast ?lo, a + 1 := ucast (drop_bit 8 ?lo))\<rparr>"
    using store_half [OF d2(2)] assms(3) by (simp add: d2(1))
  obtain fs where w2: "FLASH_WaitForLastOperation env ProgramTimeout ?h3 = (FLASH_COMPLETE, ?h3 @ fs)"
    "fdev_of m (?h3 @ fs) = settle (fdev_of m ?h3)"
    by (rule Wait_succeeds [OF assms(1) t])
  have f4: "func (fdev_of m (?h3 @ fs)) {0}" unfolding w2(2) using d2 d3 by (simp add: func_def)
  have ne: "a + 2 \<noteq> a" "a + 2 \<noteq> a + 1" "a + 3 \<noteq> a" "a + 3 \<noteq> a + 1" by simp_all
  have c4: "cells (fdev_of m (?h3 @ fs)) = ?c(a := ucast ?lo, a + 1 := ucast (drop_bit 8 ?lo))"
    unfolding w2(2) d3 by simp
  then have "cells (fdev_of m (?h3 @ fs)) (a + 2) = 0xFF" "cells (fdev_of m (?h3 @ fs)) (a + 2 + 1) = 0xFF"
    using assms(3) ne by (simp_all add: add.assoc)
  from store_half [OF f4 this, of ?hi] have
    d5: "fdev_of m (wr (Half (a + 2)) ?hi (?h3 @ fs)) = (fdev_of m (?h3 @ fs))\<lparr>pending := True,
      cells := (?c(a := ucast ?lo, a + 1 := ucast (drop_bit 8 ?lo)))
        (a + 2 := ucast ?hi, a + 2 + 1 := ucast (drop_bit 8 ?hi))\<rparr>"
    by (simp only: c4)
  let ?h5 = "wr (Half (a + 2)) ?hi (?h3 @ fs)"
  obtain gs where w3: "FLASH_WaitForLastOperation env ProgramTimeout ?h5 = (FLASH_COMPLETE, ?h5 @ gs)"
    "fdev_of m (?h5 @ gs) = settle (fdev_of m ?h5)"
    by (rule Wait_succeeds [OF assms(1) t])
  have f6: "func (fdev_of m (?h5 @ gs)) {0}" unfolding w3(2) using f4 d5 by (simp add: func_def)
  from func_and [OF assms(1) f6, of 0 "0x1FFE"] set_masks(4) obtain c6 where
    d6: "fdev_of m (and_reg env FLASH_CR CR_PG_Reset (?h5 @ gs)) = (fdev_of m (?h5 @ gs))\<lparr>creg := c6\<rparr>"
    "func (fdev_of m (and_reg env FLASH_CR CR_PG_Reset (?h5 @ gs))) {}" by auto
  have bytes: "ucast ?lo = (ucast v :: u8)" "ucast (drop_bit 8 ?lo) = (ucast (drop_bit 8 v) :: u8)"
    "ucast ?hi = (ucast (drop_bit 16 v) :: u8)" "ucast (drop_bit 8 ?hi) = (ucast (drop_bit 24 v) :: u8)"
    by (auto simp: bit_simps intro!: bit_word_eqI)
  have "FLASH_ProgramWord env a v h = (FLASH_COMPLETE, and_reg env FLASH_CR CR_PG_Reset (?h5 @ gs))"
    by (simp add: FLASH_ProgramWord_def w1 w2 w3)
  moreover have "cells (fdev_of m (and_reg env FLASH_CR CR_PG_Reset (?h5 @ gs))) = put32 a v ?c"
    "eop (fdev_of m (and_reg env FLASH_CR CR_PG_Reset (?h5 @ gs)))"
    unfolding d6(1) w3(2) d5 bytes by (simp_all add: put32_def add.assoc)
  ultimately show ?thesis using d6(2) by blast
qed

end
