(* ===== verification/FlashInfo.thy ===== *)
theory FlashInfo
  imports FlashDev
begin

text \<open>
  The records the firmware keeps in the last two pages of the on-chip flash, \<^verbatim>\<open>flash.c\<close>: the network
  settings and a byte count. \<^verbatim>\<open>printf\<close> is library code and only reports errors on the serial port;
  its text is left out, the register it prints is read. A byte buffer is a list, a pointer to a
  structure the structure.
\<close>

abbreviation (input) FLASH_OK :: int where "FLASH_OK \<equiv> 0"
abbreviation (input) FLASH_OP_ERR :: int where "FLASH_OP_ERR \<equiv> 1"
abbreviation (input) FLASH_CHK_ERR :: int where "FLASH_CHK_ERR \<equiv> 2"
abbreviation (input) IP_INFO_FLASH_ADDR :: u32 where "IP_INFO_FLASH_ADDR \<equiv> 0x0803F800"
abbreviation (input) READ_CNT_FLASH_ADDR :: u32 where "READ_CNT_FLASH_ADDR \<equiv> 0x0803F000"
abbreviation (input) TIME_OUT_CNT :: u32 where "TIME_OUT_CNT \<equiv> 0x50000"
abbreviation (input) IP_INFO_HEAD :: u32 where "IP_INFO_HEAD \<equiv> 0x1234AABB"
abbreviation (input) IP_INFO_TAIL :: u32 where "IP_INFO_TAIL \<equiv> 0xEEFF1234"
abbreviation (input) DATA_VALID_VAL :: u32 where "DATA_VALID_VAL \<equiv> 0xAAAA5555"

section \<open>Pages\<close>

text \<open>
  The two waiting loops of \<^verbatim>\<open>fmcEraseBlk1Pages\<close> and \<^verbatim>\<open>fmcProgramBlk1Pages\<close>: query a flag until it no
  longer has the value \<open>again\<close>; false when the count runs over.
\<close>

function flag_wait :: "env \<Rightarrow> u16 \<Rightarrow> FlagStatus \<Rightarrow> u32 \<Rightarrow> hist \<Rightarrow> bool \<times> hist" where
  "flag_wait env flag again timeout h =
     (let (sta, h) = FLASH_GetFlagStatus env flag h in
      if timeout > TIME_OUT_CNT then (False, h)
      else if sta = again then flag_wait env flag again (timeout + 1) h
      else (True, h))"
  by pat_completeness auto
termination
proof (relation "measure (\<lambda>(_, _, _, t, _). 2 ^ 32 - unat t)", goal_cases)
  case (2 env flag again timeout h x sta h')
  then have "unat timeout \<le> 0x50000" by (simp add: word_less_nat_alt not_less)
  then have "unat (timeout + 1) = unat timeout + 1" by (subst unat_add_u32) simp_all
  with \<open>unat timeout \<le> 0x50000\<close> show ?case by simp
qed simp

declare flag_wait.simps [simp del]

definition clear_flags :: "hist \<Rightarrow> hist" where
  "clear_flags h = FLASH_ClearFlag 0x04 (FLASH_ClearFlag 0x10 (FLASH_ClearFlag 0x20 h))"

definition fmcEraseBlk1Pages :: "env \<Rightarrow> u32 \<Rightarrow> hist \<Rightarrow> int \<times> hist" where
  "fmcEraseBlk1Pages env pageAddr h =
     (let h = FLASH_Unlock h;
          h = clear_flags h;
          (_, h) = FLASH_ErasePage env pageAddr h;
          (ok, h) = flag_wait env 0x01 SET 0 h
      in if \<not> ok then (FLASH_OP_ERR, FLASH_Lock env h)
         else let (ok, h) = flag_wait env 0x20 RESET 0 h in
         if \<not> ok then let (_, h) = rd env (Word 0x4002204c) h in (FLASH_OP_ERR, FLASH_Lock env h)
         else let h = clear_flags h in (FLASH_OK, FLASH_Lock env h))"

fun words_of :: "u8 list \<Rightarrow> u32 list" where
  "words_of (a # b # c # d # r) = word32_of a b c d # words_of r"
| "words_of _ = []"

primrec program_words :: "env \<Rightarrow> u32 \<Rightarrow> u32 list \<Rightarrow> hist \<Rightarrow> int \<times> hist" where
  "program_words env addr [] h = (FLASH_OK, FLASH_Lock env h)"
| "program_words env addr (w # ws) h =
     (let (_, h) = FLASH_ProgramWord env addr w h;
          (ok, h) = flag_wait env 0x01 SET 0 h
      in if \<not> ok then (FLASH_OP_ERR, FLASH_Lock env h)
         else let (ok, h) = flag_wait env 0x20 RESET 0 h in
         if \<not> ok then (FLASH_OP_ERR, FLASH_Lock env h)
         else program_words env (addr + 4) ws (clear_flags h))"

definition fmcProgramBlk1Pages :: "env \<Rightarrow> u32 \<Rightarrow> u8 list \<Rightarrow> u32 \<Rightarrow> hist \<Rightarrow> int \<times> hist" where
  "fmcProgramBlk1Pages env pageAddr data len h =
     program_words env pageAddr (words_of (take (unat len) data)) (FLASH_Unlock h)"

section \<open>Records\<close>

definition checkSumFun :: "u8 list \<Rightarrow> nat \<Rightarrow> u32" where
  "checkSumFun buf n = fold (\<lambda>i sum. sum + ucast (buf ! i)) [0..<n] 0"

record IP_INFO_TYPE =
  head :: u32
  ip :: "u8 list"
  ipValid :: u32
  netmask :: "u8 list"
  maskValid :: u32
  gw :: "u8 list"
  gwValid :: u32
  mac :: "u8 list"
  macValid :: u32
  port :: "u8 list"
  portValid :: u32
  tail :: u32
  checkSum :: u32

text \<open>The layout of the structure: 112 bytes, no padding.\<close>

definition info_bytes :: "IP_INFO_TYPE \<Rightarrow> u8 list" where
  "info_bytes i = le32 (head i) @ ip i @ le32 (ipValid i) @ netmask i @ le32 (maskValid i) @ gw i @
     le32 (gwValid i) @ mac i @ le32 (macValid i) @ port i @ le32 (portValid i) @ le32 (tail i) @
     le32 (checkSum i)"

definition word_at :: "u8 list \<Rightarrow> nat \<Rightarrow> u32" where
  "word_at bs k = word32_of (bs ! k) (bs ! (k + 1)) (bs ! (k + 2)) (bs ! (k + 3))"

definition info_of :: "u8 list \<Rightarrow> IP_INFO_TYPE" where
  "info_of bs = \<lparr>head = word_at bs 0, ip = take 16 (drop 4 bs), ipValid = word_at bs 20,
     netmask = take 16 (drop 24 bs), maskValid = word_at bs 40, gw = take 16 (drop 44 bs),
     gwValid = word_at bs 60, mac = take 24 (drop 64 bs), macValid = word_at bs 88,
     port = take 8 (drop 92 bs), portValid = word_at bs 100, tail = word_at bs 104,
     checkSum = word_at bs 108\<rparr>"

definition wf_info :: "IP_INFO_TYPE \<Rightarrow> bool" where
  "wf_info i \<longleftrightarrow> length (ip i) = 16 \<and> length (netmask i) = 16 \<and> length (gw i) = 16 \<and>
     length (mac i) = 24 \<and> length (port i) = 8"

definition writeCntInfo :: "env \<Rightarrow> u32 \<Rightarrow> hist \<Rightarrow> int \<times> hist" where
  "writeCntInfo env count h =
     (let (r, h) = fmcEraseBlk1Pages env READ_CNT_FLASH_ADDR h in
      if r \<noteq> FLASH_OK then (FLASH_OP_ERR, h)
      else let (r, h) = fmcProgramBlk1Pages env READ_CNT_FLASH_ADDR (le32 count) 4 h in
      if r \<noteq> FLASH_OK then (FLASH_OP_ERR, h) else (FLASH_OK, h))"

definition readCntInfo :: "env \<Rightarrow> hist \<Rightarrow> int \<times> hist" where
  "readCntInfo env h = (let (v, h) = rd env (Word READ_CNT_FLASH_ADDR) h in (sint v, h))"

definition writeIpInfo :: "env \<Rightarrow> IP_INFO_TYPE \<Rightarrow> hist \<Rightarrow> int \<times> IP_INFO_TYPE \<times> hist" where
  "writeIpInfo env ipInfo h =
     (let ipInfo = ipInfo\<lparr>head := IP_INFO_HEAD\<rparr>;
          ipInfo = ipInfo\<lparr>tail := IP_INFO_TAIL\<rparr>;
          ipInfo = ipInfo\<lparr>checkSum := checkSumFun (info_bytes ipInfo) (112 - 4)\<rparr>;
          (r, h) = fmcEraseBlk1Pages env IP_INFO_FLASH_ADDR h
      in if r \<noteq> FLASH_OK then (FLASH_OP_ERR, ipInfo, h)
         else let uint32Num = 112 div 4;
                  (r, h) = fmcProgramBlk1Pages env IP_INFO_FLASH_ADDR (info_bytes ipInfo) (uint32Num * 4) h
         in if r \<noteq> FLASH_OK then (FLASH_OP_ERR, ipInfo, h) else (FLASH_OK, ipInfo, h))"

primrec read_words :: "env \<Rightarrow> u32 \<Rightarrow> nat \<Rightarrow> hist \<Rightarrow> u32 list \<times> hist" where
  "read_words env a 0 h = ([], h)"
| "read_words env a (Suc n) h =
     (let (w, h) = rd env (Word a) h; (ws, h) = read_words env (a + 4) n h in (w # ws, h))"

definition readIpInfo :: "env \<Rightarrow> IP_INFO_TYPE \<Rightarrow> hist \<Rightarrow> int \<times> IP_INFO_TYPE \<times> hist" where
  "readIpInfo env ipInfo h =
     (let (p32, h) = read_words env IP_INFO_FLASH_ADDR (112 div 4) h;
          bytes = concat (map le32 p32);
          info = info_of bytes;
          sum = checkSumFun bytes (112 - 4)
      in if checkSum info \<noteq> sum then (FLASH_CHK_ERR, ipInfo, h)
         else if IP_INFO_HEAD \<noteq> head info \<or> IP_INFO_TAIL \<noteq> tail info then (FLASH_CHK_ERR, ipInfo, h)
         else (FLASH_OK, info, h))"

section \<open>Layout and checksum\<close>

lemma checkSumFun_sum: "n \<le> length buf \<Longrightarrow> checkSumFun buf n = byte_sum (take n buf)"
proof (induction n)
  case (Suc n)
  then show ?case by (simp add: checkSumFun_def take_Suc_conv_app_nth)
qed (simp add: checkSumFun_def)

lemma length_info_bytes [simp]: "wf_info i \<Longrightarrow> length (info_bytes i) = 112"
  by (simp add: info_bytes_def wf_info_def)

lemma concat_words_of: "4 dvd length d \<Longrightarrow> concat (map le32 (words_of d)) = d"
proof (induction d rule: words_of.induct)
  case (1 a b c d r)
  from 1(2) have "4 dvd length r" by simp presburger
  with 1(1) show ?case by simp
qed (auto dest: dvd_imp_le)

lemma length_words_of: "length (words_of d) = length d div 4"
  by (induction d rule: words_of.induct) simp_all

lemma word_at_append:
  "length xs \<le> k \<Longrightarrow> word_at (xs @ ys) k = word_at ys (k - length xs)"
  "word_at (le32 w @ ys) 0 = w" "word_at (le32 w) 0 = w"
  by (simp_all add: word_at_def nth_append le32_def Suc_diff_le)

lemma info_of_bytes [simp]:
  assumes "wf_info i"
  shows "info_of (info_bytes i) = i"
  using assms unfolding wf_info_def
  by (cases i) (simp add: info_of_def info_bytes_def word_at_append)

section \<open>Pages on the device\<close>

definition flash_idle :: "fdev \<Rightarrow> bool" where
  "flash_idle d \<longleftrightarrow> \<not> pending d \<and> (\<forall>i < 6. \<not> bit (creg d) i)"

definition put_bytes :: "u32 \<Rightarrow> u8 list \<Rightarrow> (u32 \<Rightarrow> u8) \<Rightarrow> u32 \<Rightarrow> u8" where
  "put_bytes a bs c = (\<lambda>x. if unat (x - a) < length bs then bs ! unat (x - a) else c x)"

lemma Unlock_device:
  "flash_idle (fdev_of m h) \<Longrightarrow> func (fdev_of m (FLASH_Unlock h)) {} \<and>
     cells (fdev_of m (FLASH_Unlock h)) = cells (fdev_of m h)"
  by (auto simp: FLASH_Unlock_def wr_hist fdev_of_append flash_idle_def func_def bit_unset_bit_iff)

lemma clear_flags_device: "fdev_of m (clear_flags h) = (fdev_of m h)\<lparr>eop := False\<rparr>"
proof -
  have "bit (0x20 :: u32) 5" "\<not> bit (0x10 :: u32) 5" "\<not> bit (4 :: u32) 5" by simp_all
  then show ?thesis by (simp add: clear_flags_def FLASH_ClearFlag_def wr_hist fdev_of_append)
qed

lemma Lock_device:
  assumes "fpec_env m env" "func (fdev_of m h) {}"
  shows "flash_idle (fdev_of m (FLASH_Lock env h)) \<and> cells (fdev_of m (FLASH_Lock env h)) = cells (fdev_of m h)"
proof -
  let ?w = "env h FLASH_CR OR 0x80"
  have m: "bit (0x80 :: u32) i \<longleftrightarrow> i = 7" if "i < 8" for i
    using that by (auto simp: numeral_eq_Suc less_Suc_eq)
  have "\<not> bit ?w 6" "\<forall>i < 6. \<not> bit ?w i"
    using assms(2) fpecD(1,2) [OF assms(1), where h = h] m by (auto simp: func_def bit_or_iff)
  with assms(2) show ?thesis
    by (simp add: FLASH_Lock_def hist_simps fdev_of_append func_def flash_idle_def)
qed

lemma flag_wait_BSY:
  assumes "fpec_env m env"
  obtains e where "flag_wait env 0x01 SET 0 h = (True, h @ [e])" "fdev_of m (h @ [e]) = fdev_of m h"
proof -
  let ?e = "Rd FLASH_OBR (env h FLASH_OBR)"
  have "FLASH_GetFlagStatus env 1 h = (RESET, h @ [?e])"
    using fpecD(8) [OF assms, of h] by (simp add: GetFlagStatus_BSY)
  then have "flag_wait env 0x01 SET 0 h = (True, h @ [?e])" by (subst flag_wait.simps) simp
  then show thesis by (rule that) (simp add: fdev_of_append)
qed

lemma flag_wait_EOP:
  assumes "fpec_env m env" "func (fdev_of m h) S" "eop (fdev_of m h)"
  obtains e where "flag_wait env 0x20 RESET 0 h = (True, h @ [e])" "fdev_of m (h @ [e]) = fdev_of m h"
proof -
  let ?e = "Rd FLASH_SR (env h FLASH_SR)"
  have "\<not> pending (fdev_of m h)" using assms(2) by (simp add: func_def)
  then have "bit (env h FLASH_SR) 5" using fpecD(3) [OF assms(1), where h = h] assms(3) by simp
  then have "env h FLASH_SR AND 0x20 \<noteq> 0" using and_exp_eq_0_iff_not_bit [of "env h FLASH_SR" 5] by simp
  then have "FLASH_GetFlagStatus env 0x20 h = (SET, h @ [?e])" by (simp add: GetFlagStatus_SR)
  then have "flag_wait env 0x20 RESET 0 h = (True, h @ [?e])" by (subst flag_wait.simps) simp
  then show thesis by (rule that) (simp add: fdev_of_append \<open>\<not> pending (fdev_of m h)\<close>)
qed

lemma fmcErase_device:
  assumes "fpec_env m env" "flash_idle (fdev_of m h)"
  shows "fst (fmcEraseBlk1Pages env a h) = 0 \<and> flash_idle (fdev_of m (snd (fmcEraseBlk1Pages env a h))) \<and>
    cells (fdev_of m (snd (fmcEraseBlk1Pages env a h))) = erased a (cells (fdev_of m h))"
proof -
  let ?h1 = "clear_flags (FLASH_Unlock h)"
  have f1: "func (fdev_of m ?h1) {}" "cells (fdev_of m ?h1) = cells (fdev_of m h)"
    using Unlock_device [OF assms(2)] by (simp_all add: clear_flags_device func_def)
  obtain h2 where h2: "FLASH_ErasePage env a ?h1 = (FLASH_COMPLETE, h2)" "func (fdev_of m h2) {}"
    "eop (fdev_of m h2)" "cells (fdev_of m h2) = erased a (cells (fdev_of m h))"
    using ErasePage_device [OF assms(1) f1(1), of a] f1(2) by auto
  obtain e where e: "flag_wait env 0x01 SET 0 h2 = (True, h2 @ [e])" "fdev_of m (h2 @ [e]) = fdev_of m h2"
    by (rule flag_wait_BSY [OF assms(1)])
  obtain e' where e': "flag_wait env 0x20 RESET 0 (h2 @ [e]) = (True, (h2 @ [e]) @ [e'])"
    "fdev_of m ((h2 @ [e]) @ [e']) = fdev_of m (h2 @ [e])"
    by (rule flag_wait_EOP [OF assms(1), of "h2 @ [e]" "{}"]) (simp_all add: e(2) h2)
  let ?h3 = "clear_flags ((h2 @ [e]) @ [e'])"
  have f3: "func (fdev_of m ?h3) {}" "cells (fdev_of m ?h3) = erased a (cells (fdev_of m h))"
    using h2 by (simp_all only: clear_flags_device e'(2) e(2)) (simp_all add: func_def)
  show ?thesis
    using Lock_device [OF assms(1) f3(1)] f3(2) e(1) e'(1) h2(1)
    by (simp add: fmcEraseBlk1Pages_def)
qed

lemma unat_diff_of_nat:
  fixes y :: u32
  assumes "n \<le> 2 ^ 32"
  shows "unat (y - of_nat n) = (if n \<le> unat y then unat y - n else unat y + 2 ^ 32 - n)"
proof (cases "n = 2 ^ 32")
  case True
  then have z: "(of_nat n :: u32) = 0" by simp
  have y: "y - of_nat n = y" unfolding z by (rule diff_zero)
  show ?thesis unfolding y using True unsigned_less [where 'a = nat, of y] by simp
next
  case False
  then have n: "unat (of_nat n :: u32) = n" using assms by (simp add: unat_of_nat_u32)
  show ?thesis unfolding unat_sub_if' n by simp
qed

lemma put_bytes_append:
  assumes "length xs + length ys \<le> 2 ^ 32"
  shows "put_bytes (a + of_nat (length xs)) ys (put_bytes a xs c) = put_bytes a (xs @ ys) c"
proof
  fix x
  have d: "x - (a + of_nat (length xs)) = (x - a) - of_nat (length xs)" by simp
  have u: "unat (x - (a + of_nat (length xs)))
      = (if length xs \<le> unat (x - a) then unat (x - a) - length xs
         else unat (x - a) + 2 ^ 32 - length xs)"
    unfolding d using assms by (intro unat_diff_of_nat) simp
  show "put_bytes (a + of_nat (length xs)) ys (put_bytes a xs c) x = put_bytes a (xs @ ys) c x"
    using assms by (auto simp: put_bytes_def u nth_append)
qed

lemma put32_bytes: "put32 a v c = put_bytes a (le32 v) c"
proof
  fix x
  define y where "y = x - a"
  then have x: "x = a + y" by simp
  have u: "unat y = 0 \<longleftrightarrow> y = 0" "unat y = 1 \<longleftrightarrow> y = 1" "unat y = 2 \<longleftrightarrow> y = 2" "unat y = 3 \<longleftrightarrow> y = 3"
    by (simp_all add: word_unat_eq_iff)
  have "unat y = 0 \<or> unat y = 1 \<or> unat y = 2 \<or> unat y = 3 \<or> 4 \<le> unat y" by linarith
  then consider "y = 0" | "y = 1" | "y = 2" | "y = 3" | "4 \<le> unat y" unfolding u by blast
  then show "put32 a v c x = put_bytes a (le32 v) c x"
  proof cases
    case 5
    then have "y \<noteq> 0" "y \<noteq> 1" "y \<noteq> 2" "y \<noteq> 3" by auto
    with 5 show ?thesis by (simp add: x put32_def put_bytes_def)
  qed (simp_all add: x put32_def put_bytes_def)
qed

lemma program_words_device:
  assumes "fpec_env m env"
  shows "func (fdev_of m h) {} \<Longrightarrow> 4 * length ws \<le> 2 ^ 32 \<Longrightarrow>
    \<forall>i < 4 * length ws. cells (fdev_of m h) (a + of_nat i) = 0xFF \<Longrightarrow>
    fst (program_words env a ws h) = 0 \<and> flash_idle (fdev_of m (snd (program_words env a ws h))) \<and>
    cells (fdev_of m (snd (program_words env a ws h)))
      = put_bytes a (concat (map le32 ws)) (cells (fdev_of m h))"
proof (induction ws arbitrary: a h)
  case Nil
  with Lock_device [OF assms Nil(1)] show ?case by (simp add: put_bytes_def)
next
  case (Cons w ws)
  let ?c = "cells (fdev_of m h)"
  have "?c (a + of_nat i) = 0xFF" if "i < 4" for i using Cons.prems(3) that by simp
  from this [of 0] this [of 1] this [of 2] this [of 3]
  have blank: "\<forall>i \<in> {0, 1, 2, 3}. ?c (a + i) = 0xFF" by simp
  obtain h2 where h2: "FLASH_ProgramWord env a w h = (FLASH_COMPLETE, h2)" "func (fdev_of m h2) {}"
    "eop (fdev_of m h2)" "cells (fdev_of m h2) = put_bytes a (le32 w) ?c"
    using ProgramWord_device [OF assms Cons.prems(1) blank, of w] by (auto simp: put32_bytes)
  obtain e where e: "flag_wait env 0x01 SET 0 h2 = (True, h2 @ [e])" "fdev_of m (h2 @ [e]) = fdev_of m h2"
    by (rule flag_wait_BSY [OF assms])
  obtain e' where e': "flag_wait env 0x20 RESET 0 (h2 @ [e]) = (True, (h2 @ [e]) @ [e'])"
    "fdev_of m ((h2 @ [e]) @ [e']) = fdev_of m (h2 @ [e])"
    by (rule flag_wait_EOP [OF assms, of "h2 @ [e]" "{}"]) (simp_all add: e(2) h2)
  let ?h3 = "clear_flags ((h2 @ [e]) @ [e'])"
  have f3: "func (fdev_of m ?h3) {}" "cells (fdev_of m ?h3) = put_bytes a (le32 w) ?c"
    using h2 by (simp_all only: clear_flags_device e'(2) e(2)) (simp_all add: func_def)
  have rest: "\<forall>i < 4 * length ws. cells (fdev_of m ?h3) (a + 4 + of_nat i) = 0xFF"
  proof (intro allI impI)
    fix i assume i: "i < 4 * length ws"
    have a: "a + 4 + of_nat i = a + of_nat (4 + i)" by (simp add: add.assoc)
    have "unat (of_nat (4 + i) :: u32) = 4 + i"
      using i Cons.prems(2) by (intro unat_of_nat_u32) simp
    then have "put_bytes a (le32 w) ?c (a + of_nat (4 + i)) = ?c (a + of_nat (4 + i))"
      unfolding put_bytes_def by simp
    also have "\<dots> = 0xFF" using Cons.prems(3) i by (simp del: of_nat_add)
    finally show "cells (fdev_of m ?h3) (a + 4 + of_nat i) = 0xFF" unfolding f3(2) a .
  qed
  have "program_words env a (w # ws) h = program_words env (a + 4) ws ?h3"
    using h2(1) e(1) e'(1) by simp
  moreover have "put_bytes (a + 4) (concat (map le32 ws)) (put_bytes a (le32 w) ?c)
      = put_bytes a (concat (map le32 (w # ws))) ?c"
  proof -
    have "length (concat (map le32 ws)) = 4 * length ws" by (induction ws) simp_all
    then show ?thesis
      using put_bytes_append [of "le32 w" "concat (map le32 ws)" a ?c] Cons.prems(2) by simp
  qed
  ultimately show ?case using Cons.IH [OF f3(1) _ rest] Cons.prems(2) f3(2) by simp
qed

section \<open>A page store\<close>

text \<open>
  What the record functions rely on: erasing blanks a page and programming blank cells stores the
  bytes, and both succeed and leave the device ready for the next call.
\<close>

locale record_store =
  fixes erase :: "u32 \<Rightarrow> 's \<Rightarrow> int \<times> 's" and program :: "u32 \<Rightarrow> u8 list \<Rightarrow> 's \<Rightarrow> int \<times> 's"
    and ready :: "'s \<Rightarrow> bool" and cell :: "'s \<Rightarrow> u32 \<Rightarrow> u8"
  assumes erase: "ready s \<Longrightarrow> fst (erase a s) = 0 \<and> ready (snd (erase a s)) \<and>
      cell (snd (erase a s)) = erased a (cell s)"
    and program: "ready s \<Longrightarrow> 4 dvd length d \<Longrightarrow> length d \<le> 2048 \<Longrightarrow>
      \<forall>i < length d. cell s (a + of_nat i) = 0xFF \<Longrightarrow>
      fst (program a d s) = 0 \<and> ready (snd (program a d s)) \<and>
      cell (snd (program a d s)) = put_bytes a d (cell s)"
begin

lemma save:
  assumes "ready s" "4 dvd length d" "length d \<le> 2048" "unat a mod 2048 = 0"
  shows "fst (erase a s) = 0" "fst (program a d (snd (erase a s))) = 0"
    and "ready (snd (program a d (snd (erase a s))))"
    and "\<forall>i < length d. cell (snd (program a d (snd (erase a s)))) (a + of_nat i) = d ! i"
    and "\<forall>x. page_of x \<noteq> page_of a \<longrightarrow> cell (snd (program a d (snd (erase a s)))) x = cell s x"
proof -
  have top: "unat a + 2048 \<le> 2 ^ 32"
  proof -
    obtain k where k: "unat a = 2048 * k" using assms(4) by (auto simp: mod_eq_0_iff_dvd)
    have "unat a < 2 ^ 32" using unsigned_less [where 'a = nat, of a] by simp
    then have "k < 2097152" unfolding k by simp
    then show ?thesis unfolding k by simp
  qed
  have u: "unat (a + of_nat i) = unat a + i" if "i < 2048" for i
  proof -
    have "unat (of_nat i :: u32) = i" using that by (intro unat_of_nat_u32) simp
    then show ?thesis using that top by (subst unat_add_u32) simp_all
  qed
  have page: "page_of (a + of_nat i) = page_of a" if "i < 2048" for i
  proof -
    have "unat (page_of x) = unat x div 2048" for x
      by (simp add: page_of_def drop_bit_eq_div unat_div)
    then have "unat (page_of (a + of_nat i)) = unat (page_of a)"
      using u [OF that] that assms(4) by auto
    then show ?thesis by (simp add: word_unat_eq_iff)
  qed
  note e = erase [OF assms(1), of a]
  have "\<forall>i < length d. cell (snd (erase a s)) (a + of_nat i) = 0xFF"
    using e page assms(3) by (simp add: erased_def)
  note p = program [OF conjunct1 [OF conjunct2 [OF e]] assms(2,3) this]
  have off: "unat (of_nat i :: u32) = i" if "i < length d" for i
    using that assms(3) by (intro unat_of_nat_u32) simp
  show "fst (erase a s) = 0" "fst (program a d (snd (erase a s))) = 0"
    "ready (snd (program a d (snd (erase a s))))"
    using e p by simp_all
  show "\<forall>i < length d. cell (snd (program a d (snd (erase a s)))) (a + of_nat i) = d ! i"
    using p off by (simp add: put_bytes_def)
  show "\<forall>x. page_of x \<noteq> page_of a \<longrightarrow> cell (snd (program a d (snd (erase a s)))) x = cell s x"
  proof (intro allI impI)
    fix x assume x: "page_of x \<noteq> page_of a"
    have "\<not> unat (x - a) < length d"
    proof
      assume "unat (x - a) < length d"
      with page [of "unat (x - a)"] assms(3) have "page_of (a + of_nat (unat (x - a))) = page_of a" by simp
      with x show False by simp
    qed
    with p e x show "cell (snd (program a d (snd (erase a s)))) x = cell s x"
      by (simp add: put_bytes_def erased_def)
  qed
qed

end

interpretation fmc: record_store "fmcEraseBlk1Pages env"
  "\<lambda>a d. fmcProgramBlk1Pages env a d (of_nat (length d))"
  "\<lambda>h. fpec_env m env \<and> flash_idle (fdev_of m h)" "\<lambda>h. cells (fdev_of m h)" for m env
proof (unfold_locales, goal_cases)
  case (1 h a)
  then show ?case using fmcErase_device [of m env h a] by simp
next
  case (2 h d a)
  have len: "unat (of_nat (length d) :: u32) = length d" using 2(3) by (intro unat_of_nat_u32) simp
  from 2(1) have u: "func (fdev_of m (FLASH_Unlock h)) {}"
    "cells (fdev_of m (FLASH_Unlock h)) = cells (fdev_of m h)"
    using Unlock_device by simp_all
  have l: "4 * length (words_of d) = length d" using 2(2) by (simp add: length_words_of)
  have "\<forall>i < 4 * length (words_of d). cells (fdev_of m (FLASH_Unlock h)) (a + of_nat i) = 0xFF"
    using 2(4) l u(2) by simp
  from program_words_device [OF _ u(1) _ this, of env] 2 l u(2)
  show ?case by (simp add: fmcProgramBlk1Pages_def len concat_words_of)
qed

section \<open>Reading back\<close>

lemma read_words_device:
  assumes "fpec_env m env"
  shows "fst (read_words env a n h)
      = map (\<lambda>i. word32_of (cells (fdev_of m h) (a + of_nat (4 * i))) (cells (fdev_of m h) (a + of_nat (4 * i + 1)))
          (cells (fdev_of m h) (a + of_nat (4 * i + 2))) (cells (fdev_of m h) (a + of_nat (4 * i + 3)))) [0..<n] \<and>
    fdev_of m (snd (read_words env a n h)) = fdev_of m h"
proof (induction n arbitrary: a h)
  case (Suc n)
  let ?h1 = "h @ [Rd (Word a) (env h (Word a))]"
  have d: "fdev_of m (h @ [Rd (Word a) v]) = fdev_of m h" for v by (simp add: fdev_of_append)
  show ?case
    using Suc [of "a + 4" ?h1] fpecD(4) [OF assms, of h a]
    by (simp add: rd_def d case_prod_beta upt_conv_Cons map_Suc_upt [symmetric] add.assoc
        del: upt_Suc map_Suc_upt)
qed simp

lemma concat_le32_words:
  "length d = 4 * n \<Longrightarrow>
   concat (map (\<lambda>i. le32 (word32_of (d ! (4 * i)) (d ! (4 * i + 1)) (d ! (4 * i + 2)) (d ! (4 * i + 3)))) [0..<n]) = d"
proof (induction n arbitrary: d)
  case (Suc n)
  then obtain x y z w r where d: "d = x # y # z # w # r" "length r = 4 * n"
    by (auto simp: numeral_eq_Suc length_Suc_conv)
  show ?case
    using Suc.IH [OF d(2)]
    by (simp add: d(1) upt_conv_Cons map_Suc_upt [symmetric] o_def numeral_3_eq_3 del: upt_Suc map_Suc_upt)
qed simp

lemma read_stored:
  assumes "fpec_env m env" "length d = 4 * n" "\<forall>i < length d. cells (fdev_of m h) (a + of_nat i) = d ! i"
  shows "concat (map le32 (fst (read_words env a n h))) = d"
proof -
  have c: "cells (fdev_of m h) (a + of_nat (4 * i + k)) = d ! (4 * i + k)" if "i < n" "k < 4" for i k
    using assms(3) [rule_format, of "4 * i + k"] assms(2) that by (simp del: of_nat_add of_nat_mult)
  have "map (\<lambda>i. le32 (word32_of (cells (fdev_of m h) (a + of_nat (4 * i))) (cells (fdev_of m h) (a + of_nat (4 * i + 1)))
          (cells (fdev_of m h) (a + of_nat (4 * i + 2))) (cells (fdev_of m h) (a + of_nat (4 * i + 3))))) [0..<n]
      = map (\<lambda>i. le32 (word32_of (d ! (4 * i)) (d ! (4 * i + 1)) (d ! (4 * i + 2)) (d ! (4 * i + 3)))) [0..<n]"
    by (rule map_cong [OF refl]) (use c [of _ 0] c [of _ 1] c [of _ 2] c [of _ 3] in simp)
  then have "map le32 (fst (read_words env a n h))
      = map (\<lambda>i. le32 (word32_of (d ! (4 * i)) (d ! (4 * i + 1)) (d ! (4 * i + 2)) (d ! (4 * i + 3)))) [0..<n]"
    using read_words_device [OF assms(1), of a n h] by (simp only: map_map o_def)
  then show ?thesis using concat_le32_words [OF assms(2)] by (simp only:)
qed

definition sealed :: "IP_INFO_TYPE \<Rightarrow> IP_INFO_TYPE" where
  "sealed i = (let j = i\<lparr>head := IP_INFO_HEAD, tail := IP_INFO_TAIL\<rparr>
     in j\<lparr>checkSum := byte_sum (take 108 (info_bytes j))\<rparr>)"

lemma wf_sealed [simp]: "wf_info i \<Longrightarrow> wf_info (sealed i)"
  by (simp add: sealed_def wf_info_def Let_def)

lemma take_108: "wf_info i \<Longrightarrow> take 108 (info_bytes (i\<lparr>checkSum := c\<rparr>)) = take 108 (info_bytes i)"
  by (simp add: info_bytes_def wf_info_def)

lemma info_of_accepts:
  "info_of bs = i \<Longrightarrow> bs = info_bytes i \<Longrightarrow> wf_info i \<Longrightarrow>
   checkSumFun bs 108 = byte_sum (take 108 (info_bytes i))"
  by (simp add: checkSumFun_sum)

lemma sealed_sum: "wf_info i \<Longrightarrow> byte_sum (take 108 (info_bytes (sealed i))) = checkSum (sealed i)"
  by (simp add: sealed_def Let_def take_108 wf_info_def)

lemma sealed_fields [simp]: "head (sealed i) = IP_INFO_HEAD" "tail (sealed i) = IP_INFO_TAIL"
  by (simp_all add: sealed_def Let_def)

lemma writeIpInfo_sealed:
  assumes "wf_info i"
  shows "writeIpInfo env i h =
     (let (r, h) = fmcEraseBlk1Pages env IP_INFO_FLASH_ADDR h in
      if r \<noteq> 0 then (1, sealed i, h)
      else let (r, h) = fmcProgramBlk1Pages env IP_INFO_FLASH_ADDR (info_bytes (sealed i)) 112 h
      in if r \<noteq> 0 then (1, sealed i, h) else (0, sealed i, h))"
proof -
  have "checkSumFun (info_bytes (i\<lparr>head := IP_INFO_HEAD, tail := IP_INFO_TAIL\<rparr>)) 108
      = byte_sum (take 108 (info_bytes (i\<lparr>head := IP_INFO_HEAD, tail := IP_INFO_TAIL\<rparr>)))"
    using assms by (intro checkSumFun_sum) (simp add: wf_info_def)
  then have s: "sealed i = i\<lparr>head := IP_INFO_HEAD, tail := IP_INFO_TAIL,
      checkSum := checkSumFun (info_bytes (i\<lparr>head := IP_INFO_HEAD, tail := IP_INFO_TAIL\<rparr>)) 108\<rparr>"
    by (simp add: sealed_def Let_def)
  show ?thesis unfolding s by (simp add: writeIpInfo_def Let_def case_prod_beta cong: if_cong)
qed

text \<open>The settings page holds a sealed record; what reading and writing it does.\<close>

definition holds_info :: "(u32 \<Rightarrow> u8) \<Rightarrow> IP_INFO_TYPE \<Rightarrow> bool" where
  "holds_info c i \<longleftrightarrow> (\<forall>n < 112. c (IP_INFO_FLASH_ADDR + of_nat n) = info_bytes (sealed i) ! n)"

lemma readIpInfo_stored:
  assumes "fpec_env m env" "wf_info i" "holds_info (cells (fdev_of m h)) i"
  shows "fst (readIpInfo env j h) = FLASH_OK \<and> fst (snd (readIpInfo env j h)) = sealed i"
proof -
  have "concat (map le32 (fst (read_words env IP_INFO_FLASH_ADDR 28 h))) = info_bytes (sealed i)"
    by (rule read_stored [OF assms(1)]) (use assms(2,3) in \<open>simp_all add: holds_info_def\<close>)
  then show ?thesis
    using assms(2) by (simp add: readIpInfo_def case_prod_beta checkSumFun_sum sealed_sum)
qed

lemma IpInfo_saved:
  assumes "fpec_env m env" "flash_idle (fdev_of m h)" "wf_info i"
  shows "\<exists>h'. writeIpInfo env i h = (FLASH_OK, sealed i, h') \<and> flash_idle (fdev_of m h') \<and>
    holds_info (cells (fdev_of m h')) i \<and>
    (\<forall>x. page_of x \<noteq> page_of IP_INFO_FLASH_ADDR \<longrightarrow> cells (fdev_of m h') x = cells (fdev_of m h) x)"
proof -
  let ?a = "IP_INFO_FLASH_ADDR" and ?d = "info_bytes (sealed i)"
  have len: "length ?d = 112" using assms(3) by simp
  have a: "unat ?a mod 2048 = 0" by simp
  have "4 dvd length ?d" "length ?d \<le> 2048" unfolding len by simp_all
  note s = fmc.save [of m env h ?d ?a, OF conjI [OF assms(1,2)] this a, unfolded len]
  let ?h2 = "snd (fmcProgramBlk1Pages env ?a ?d 112 (snd (fmcEraseBlk1Pages env ?a h)))"
  have "writeIpInfo env i h = (0, sealed i, ?h2)"
    using s(1,2) by (simp add: writeIpInfo_sealed [OF assms(3)] case_prod_beta)
  moreover have "holds_info (cells (fdev_of m ?h2)) i" using s(4) by (simp add: holds_info_def)
  moreover have "flash_idle (fdev_of m ?h2)" using s(3) by simp
  moreover have "\<forall>x. page_of x \<noteq> page_of ?a \<longrightarrow> cells (fdev_of m ?h2) x = cells (fdev_of m h) x"
    using s(5) by simp
  ultimately show ?thesis by blast
qed

text \<open>
  C8: stored settings are read back. On a controller that behaves as its manual says and is idle,
  \<^verbatim>\<open>writeIpInfo\<close> returns \<^verbatim>\<open>FLASH_OK\<close>, \<^verbatim>\<open>readIpInfo\<close> then returns \<^verbatim>\<open>FLASH_OK\<close> with every field as
  written (head, tail and checksum filled in), and no byte outside the page has changed.
\<close>

theorem IpInfo_roundtrip:
  assumes "fpec_env m env" "flash_idle (fdev_of m h)" "wf_info i"
  shows "\<exists>h'. writeIpInfo env i h = (FLASH_OK, sealed i, h') \<and>
    fst (readIpInfo env j h') = FLASH_OK \<and> fst (snd (readIpInfo env j h')) = sealed i \<and>
    (\<forall>x. page_of x \<noteq> page_of IP_INFO_FLASH_ADDR \<longrightarrow> cells (fdev_of m h') x = cells (fdev_of m h) x)"
  using IpInfo_saved [OF assms] readIpInfo_stored [OF assms(1,3)] by blast

theorem IpInfo_roundtrip_witness:
  "\<exists>h'. writeIpInfo (quick_env (\<lambda>_. 0)) \<lparr>head = 0, ip = replicate 16 0x31, ipValid = DATA_VALID_VAL,
       netmask = replicate 16 0, maskValid = 0, gw = replicate 16 0, gwValid = 0, mac = replicate 24 0,
       macValid = 0, port = replicate 8 0, portValid = 0, tail = 0, checkSum = 0\<rparr> [] = (FLASH_OK,
       sealed \<lparr>head = 0, ip = replicate 16 0x31, ipValid = DATA_VALID_VAL,
       netmask = replicate 16 0, maskValid = 0, gw = replicate 16 0, gwValid = 0, mac = replicate 24 0,
       macValid = 0, port = replicate 8 0, portValid = 0, tail = 0, checkSum = 0\<rparr>, h')"
proof -
  have "\<forall>i < 6. \<not> bit (0x80 :: u32) i" by (auto simp: below_6)
  then have idle: "flash_idle (fdev_of (\<lambda>_. 0) [])" by (simp add: fdev_of_def flash_idle_def)
  show ?thesis
    using IpInfo_roundtrip [OF quick_env_fpec idle, where i = "\<lparr>head = 0, ip = replicate 16 0x31,
       ipValid = DATA_VALID_VAL, netmask = replicate 16 0, maskValid = 0, gw = replicate 16 0,
       gwValid = 0, mac = replicate 24 0, macValid = 0, port = replicate 8 0, portValid = 0, tail = 0,
       checkSum = 0\<rparr>"]
    by (fastforce simp: wf_info_def)
qed

lemma byte_sum_update:
  "k < length bs \<Longrightarrow> byte_sum (bs[k := b]) = byte_sum bs + ucast b - ucast (bs ! k)"
  by (induction bs arbitrary: k) (auto split: nat.splits)

lemma ucast_u8_inject [simp]: "(ucast (a :: u8) :: u32) = ucast b \<longleftrightarrow> a = b"
proof
  assume eq: "(ucast a :: u32) = ucast b"
  have "unat a = unat (ucast a :: u32)" "unat b = unat (ucast b :: u32)"
    using unsigned_less [where 'a = nat, of a] unsigned_less [where 'a = nat, of b]
    by (simp_all add: unsigned_ucast_eq take_bit_nat_eq_self)
  with eq show "a = b" by (simp add: word_unat_eq_iff)
qed simp

lemma word_at_last: "length bs = k + 4 \<Longrightarrow> le32 (word_at bs k) = drop k bs"
  by (intro nth_equalityI) (auto simp: word_at_def less_Suc_eq numeral_eq_Suc)

text \<open>
  C24: damage is noticed. If the 112 bytes in flash differ from a stored record in exactly one byte,
  \<^verbatim>\<open>readIpInfo\<close> returns \<^verbatim>\<open>FLASH_CHK_ERR\<close> and leaves the caller's structure alone.
\<close>

theorem readIpInfo_rejects_damage:
  assumes "fpec_env m env" "wf_info i" "k < 112" "b \<noteq> info_bytes (sealed i) ! k"
    and stored: "\<forall>n < 112. cells (fdev_of m h) (IP_INFO_FLASH_ADDR + of_nat n) = (info_bytes (sealed i))[k := b] ! n"
  shows "fst (readIpInfo env j h) = FLASH_CHK_ERR \<and> fst (snd (readIpInfo env j h)) = j"
proof -
  let ?d = "info_bytes (sealed i)" and ?e = "(info_bytes (sealed i))[k := b]"
  have len: "length ?d = 112" using assms(2) by simp
  have r: "concat (map le32 (fst (read_words env IP_INFO_FLASH_ADDR 28 h))) = ?e"
    by (rule read_stored [OF assms(1)]) (use stored in \<open>simp_all add: len\<close>)
  have split: "info_bytes (sealed i) = take 108 ?d @ le32 (checkSum (sealed i))"
    using assms(2) by (simp add: info_bytes_def wf_info_def sealed_def Let_def)
  have bad: "checkSum (info_of ?e) \<noteq> byte_sum (take 108 ?e)"
  proof (cases "k < 108")
    case True
    then have "?e = (take 108 ?d)[k := b] @ le32 (checkSum (sealed i))"
      using len by (subst split) (simp add: list_update_append)
    then have "checkSum (info_of ?e) = checkSum (sealed i)"
      by (simp add: info_of_def word_at_append len)
    moreover have "byte_sum (take 108 ?e) = byte_sum (take 108 ?d) + ucast b - ucast (?d ! k)"
      using True len byte_sum_update [of k "take 108 ?d" b] by (simp add: take_update_swap)
    ultimately show ?thesis using assms(4) sealed_sum [OF assms(2)] by simp
  next
    case False
    then have same: "take 108 ?e = take 108 ?d" by simp
    have last: "le32 (word_at ?e 108) = drop 108 ?e" by (rule word_at_last) (simp add: len)
    have "?e \<noteq> ?d" using assms(3,4) len by (metis nth_list_update_eq)
    show ?thesis
    proof
      assume "checkSum (info_of ?e) = byte_sum (take 108 ?e)"
      then have "word_at ?e 108 = checkSum (sealed i)"
        using same sealed_sum [OF assms(2)] by (simp add: info_of_def)
      with last have "?e = take 108 ?d @ le32 (checkSum (sealed i))"
        using same append_take_drop_id [of 108 ?e] by simp
      with split \<open>?e \<noteq> ?d\<close> show False by simp
    qed
  qed
  with r show ?thesis
    by (simp add: readIpInfo_def case_prod_beta checkSumFun_sum len)
qed

definition zero_info :: IP_INFO_TYPE where
  "zero_info = \<lparr>head = 0, ip = replicate 16 0, ipValid = 0, netmask = replicate 16 0, maskValid = 0,
     gw = replicate 16 0, gwValid = 0, mac = replicate 24 0, macValid = 0, port = replicate 8 0,
     portValid = 0, tail = 0, checkSum = 0\<rparr>"

lemma wf_zero_info: "wf_info zero_info"
  by (simp add: zero_info_def wf_info_def)

theorem readIpInfo_rejects_damage_witness:
  "fst (readIpInfo (quick_env (\<lambda>x. ((info_bytes (sealed zero_info))[5 := 1]) !
     unat (x - IP_INFO_FLASH_ADDR))) zero_info []) = FLASH_CHK_ERR"
proof -
  let ?e = "(info_bytes (sealed zero_info))[5 := 1]"
  have "info_bytes (sealed zero_info) ! 5 = 0"
    by (simp add: info_bytes_def zero_info_def sealed_def nth_append)
  then have b: "1 \<noteq> info_bytes (sealed zero_info) ! 5" by simp
  have "\<forall>n < 112. cells (fdev_of (\<lambda>x. ?e ! unat (x - IP_INFO_FLASH_ADDR)) []) (IP_INFO_FLASH_ADDR + of_nat n) = ?e ! n"
    by (simp add: fdev_of_def unat_of_nat_u32)
  from readIpInfo_rejects_damage [OF quick_env_fpec wf_zero_info _ b this]
  show ?thesis by simp
qed

text \<open>
  The byte count of the serial flash survives: what \<^verbatim>\<open>writeCntInfo\<close> stores, \<^verbatim>\<open>readCntInfo\<close>
  returns (as a signed number), and the settings page is untouched.
\<close>

theorem CntInfo_roundtrip:
  assumes "fpec_env m env" "flash_idle (fdev_of m h)"
  shows "\<exists>h'. writeCntInfo env count h = (FLASH_OK, h') \<and> fst (readCntInfo env h') = sint count \<and>
    (\<forall>x. page_of x = page_of IP_INFO_FLASH_ADDR \<longrightarrow> cells (fdev_of m h') x = cells (fdev_of m h) x)"
proof -
  let ?a = "READ_CNT_FLASH_ADDR"
  have a: "unat ?a mod 2048 = 0" by simp
  have "4 dvd length (le32 count)" "length (le32 count) \<le> 2048" by simp_all
  note s = fmc.save [of m env h "le32 count" ?a, OF conjI [OF assms] this a, unfolded length_le32]
  let ?h2 = "snd (fmcProgramBlk1Pages env ?a (le32 count) 4 (snd (fmcEraseBlk1Pages env ?a h)))"
  have w: "writeCntInfo env count h = (0, ?h2)"
    using s(1,2) by (simp add: writeCntInfo_def case_prod_beta)
  have c: "cells (fdev_of m ?h2) (?a + of_nat k) = le32 count ! k" if "k < 4" for k
    using s(4) that by simp
  have "env ?h2 (Word ?a) = word32_of (le32 count ! 0) (le32 count ! 1) (le32 count ! 2) (le32 count ! 3)"
    using fpecD(4) [OF assms(1), of ?h2 ?a] c [of 0] c [of 1] c [of 2] c [of 3] by simp
  then have r: "fst (readCntInfo env ?h2) = sint count" by (simp add: readCntInfo_def rd_def)
  have "page_of IP_INFO_FLASH_ADDR \<noteq> page_of ?a" by (simp add: page_of_def)
  then have "\<forall>x. page_of x = page_of IP_INFO_FLASH_ADDR \<longrightarrow> cells (fdev_of m ?h2) x = cells (fdev_of m h) x"
    using s(5) by simp
  with w r show ?thesis by blast
qed

theorem CntInfo_roundtrip_witness:
  "\<exists>h'. writeCntInfo (quick_env (\<lambda>_. 0)) 0x21728C [] = (FLASH_OK, h') \<and>
    fst (readCntInfo (quick_env (\<lambda>_. 0)) h') = 0x21728C"
proof -
  have "\<forall>i < 6. \<not> bit (0x80 :: u32) i" by (auto simp: below_6)
  then have idle: "flash_idle (fdev_of (\<lambda>_. 0) [])" by (simp add: fdev_of_def flash_idle_def)
  have "sint (0x21728C :: u32) = 0x21728C" by simp
  then show ?thesis using CntInfo_roundtrip [OF quick_env_fpec idle, of "0x21728C"] by auto
qed

section \<open>The controller is left locked\<close>

definition locked_cr :: "hist \<Rightarrow> bool" where
  "locked_cr h \<longleftrightarrow> (\<exists>v. last_write FLASH_CR h = Some v \<and> bit v 7)"

lemma Lock_locks: "locked_cr (FLASH_Lock env h)"
proof -
  have "bit (0x80 :: u32) 7" by simp
  then show ?thesis by (simp add: locked_cr_def FLASH_Lock_def bit_or_iff)
qed

lemma program_words_locks: "locked_cr (snd (program_words env a ws h))"
  by (induction ws arbitrary: a h) (simp_all add: Lock_locks case_prod_beta Let_def)

text \<open>
  Whatever the hardware answers, and whether they succeed or give up, \<^verbatim>\<open>fmcEraseBlk1Pages\<close> and
  \<^verbatim>\<open>fmcProgramBlk1Pages\<close> return with the last store in \<^verbatim>\<open>CR\<close> setting its lock bit, and their result
  is \<^verbatim>\<open>FLASH_OK\<close> or \<^verbatim>\<open>FLASH_OP_ERR\<close>.
\<close>

theorem fmc_leave_locked:
  "locked_cr (snd (fmcEraseBlk1Pages env a h)) \<and> locked_cr (snd (fmcProgramBlk1Pages env a d n h)) \<and>
   fst (fmcEraseBlk1Pages env a h) \<in> {FLASH_OK, FLASH_OP_ERR} \<and>
   fst (fmcProgramBlk1Pages env a d n h) \<in> {FLASH_OK, FLASH_OP_ERR}"
proof -
  have "fst (program_words env a ws h) \<in> {0, 1}" for a ws h
    by (induction ws arbitrary: a h) (simp_all add: case_prod_beta Let_def)
  then show ?thesis
    by (simp add: fmcEraseBlk1Pages_def fmcProgramBlk1Pages_def program_words_locks Lock_locks
        case_prod_beta Let_def)
qed

end
