(* ===== verification/BoardBus.thy ===== *)
theory BoardBus
  imports Gpio
begin

text \<open>
  The parallel bus to the FPGA board, from \<^verbatim>\<open>tcpserver.c\<close> and the macros of \<^verbatim>\<open>stm32f107.h\<close>: data on
  PE0-7, address on PE8-15, chip select PD0 (low active), read/write PD1. \<open>bus_writes\<close> decodes the
  write cycles from the access history: the address and the data on the lines when the select falls
  with the write level on PD1. \<open>board_env\<close> is a board that drives the data lines with a register file.
\<close>

section \<open>The code\<close>

definition XVC_CS_H :: "hist \<Rightarrow> hist" where "XVC_CS_H = GPIO_SetBits GPIOD (GPIO_Pin 0)"
definition XVC_CS_L :: "hist \<Rightarrow> hist" where "XVC_CS_L = GPIO_ResetBits GPIOD (GPIO_Pin 0)"
definition XVC_R :: "hist \<Rightarrow> hist" where "XVC_R = GPIO_SetBits GPIOD (GPIO_Pin 1)"
definition XVC_W :: "hist \<Rightarrow> hist" where "XVC_W = GPIO_ResetBits GPIOD (GPIO_Pin 1)"

definition XVC_ADDR_GPIO :: "nat \<Rightarrow> u16" where "XVC_ADDR_GPIO i = GPIO_Pin (8 + i)"
definition XVC_DATA_GPIO :: "nat \<Rightarrow> u16" where "XVC_DATA_GPIO i = GPIO_Pin i"

definition setAddressLine :: "u8 \<Rightarrow> hist \<Rightarrow> hist" where
  "setAddressLine addr h = fold (\<lambda>i h.
     if drop_bit i addr AND 0x01 \<noteq> 0 then GPIO_SetBits GPIOE (XVC_ADDR_GPIO i) h
     else GPIO_ResetBits GPIOE (XVC_ADDR_GPIO i) h) [0..<8] h"

definition setDataLine :: "u8 \<Rightarrow> hist \<Rightarrow> hist" where
  "setDataLine data h = fold (\<lambda>i h.
     if drop_bit i data AND 0x01 \<noteq> 0 then GPIO_SetBits GPIOE (XVC_DATA_GPIO i) h
     else GPIO_ResetBits GPIOE (XVC_DATA_GPIO i) h) [0..<8] h"

definition data_bit :: "env \<Rightarrow> nat \<Rightarrow> u8 \<times> hist \<Rightarrow> u8 \<times> hist" where
  "data_bit env i = (\<lambda>(read_dat, h).
     (let (b, h) = GPIO_ReadInputDataBit env GPIOE (XVC_DATA_GPIO i) h
      in (read_dat OR push_bit i b, h)))"

definition getDataLine :: "env \<Rightarrow> hist \<Rightarrow> u8 \<times> hist" where
  "getDataLine env h = fold (data_bit env) [0..<8] (0, h)"

definition flashChoice :: "u32 \<Rightarrow> hist \<Rightarrow> hist" where
  "flashChoice select h =
     (let h = setAddressLine 0x60 h
      in if select = 0x01 then setDataLine 0x01 h
         else if select = 0x02 then setDataLine 0x02 h
         else if select = 0x03 then setDataLine 0x03 h
         else h)"

definition check_sum :: "u8 list \<Rightarrow> int \<Rightarrow> u32" where
  "check_sum pbuf len = fold (\<lambda>i checksum. checksum + ucast (pbuf ! i)) [0..<nat len] 0"

definition BCD2DEC :: "u8 \<Rightarrow> u8" where
  "BCD2DEC bcd = bcd - drop_bit 4 bcd * 6"

text \<open>The body the loops of \<^verbatim>\<open>fpgaStateGet\<close> share: one read cycle at an address.\<close>

definition read_cycle :: "env \<Rightarrow> nat \<Rightarrow> hist \<Rightarrow> u8 \<times> hist" where
  "read_cycle env i h =
     (let h = setAddressLine (of_nat i) h;
          h = XVC_R h;
          h = XVC_CS_L h;
          (dat, h) = getDataLine env h;
          h = XVC_CS_H h
      in (dat, h))"

primrec read_cycles :: "env \<Rightarrow> nat list \<Rightarrow> hist \<Rightarrow> u8 list \<times> hist" where
  "read_cycles env [] h = ([], h)"
| "read_cycles env (i # is) h =
     (let (dat, h) = read_cycle env i h; (bs, h) = read_cycles env is h in (dat # bs, h))"

definition fpgaStateGet :: "env \<Rightarrow> hist \<Rightarrow> u8 list \<times> hist" where
  "fpgaStateGet env h =
     (let (time, h) = read_cycles env [0x4..<0x0a] h;
          (state, h) = read_cycles env [0x10..<0x13] h;
          (power, h) = read_cycles env [0x14..<0x18] h;
          (temperature, h) = read_cycles env [0x20..<0x30] h;
          (voltage, h) = read_cycles env [0x30..<0x40] h;
          (clock, h) = read_cycles env [0x50..<0x52] h;
          (ext, h) = read_cycles env [0x54] h
      in (map BCD2DEC time @ state @ power @ temperature @ voltage @ clock @ ext, h))"

section \<open>Levels of the lines\<close>

definition lines_byte :: "nat \<Rightarrow> hist \<Rightarrow> u8" where
  "lines_byte off h = horner_sum of_bool 2 (map (\<lambda>i. out_level GPIOE (off + i) h) [0..<8])"

definition bus_addr :: "hist \<Rightarrow> u8" where "bus_addr = lines_byte 8"
definition bus_data :: "hist \<Rightarrow> u8" where "bus_data = lines_byte 0"

lemma bit_lines_byte: "bit (lines_byte off h) i \<longleftrightarrow> i < 8 \<and> out_level GPIOE (off + i) h"
  by (auto simp: lines_byte_def bit_horner_sum_bit_word_iff)

lemma bit_test: "drop_bit i (a :: u8) AND 1 \<noteq> 0 \<longleftrightarrow> bit a i"
  by (simp add: and_one_eq bit_iff_odd_drop_bit odd_iff_mod_2_eq_one)

lemma line_loop_levels:
  assumes "n \<le> 8" "off \<le> 8" "j < 16"
  shows "out_level q j (fold (\<lambda>i h. if drop_bit i a AND 1 \<noteq> 0 then GPIO_SetBits GPIOE (GPIO_Pin (off + i)) h
       else GPIO_ResetBits GPIOE (GPIO_Pin (off + i)) h) [0..<n] h)
     = (if q = GPIOE \<and> off \<le> j \<and> j < off + n then bit (a :: u8) (j - off) else out_level q j h)"
  using assms(1)
proof (induction n)
  case (Suc n)
  then show ?case using assms(2,3) by (auto simp: level_SetBits level_ResetBits bit_test less_Suc_eq)
qed auto

lemma setAddressLine_level [line_simps]:
  "j < 16 \<Longrightarrow> out_level q j (setAddressLine a h)
     = (if q = GPIOE \<and> 8 \<le> j then bit a (j - 8) else out_level q j h)"
  unfolding setAddressLine_def XVC_ADDR_GPIO_def by (subst line_loop_levels) auto

lemma setDataLine_level [line_simps]:
  "j < 16 \<Longrightarrow> out_level q j (setDataLine a h)
     = (if q = GPIOE \<and> j < 8 then bit a j else out_level q j h)"
  unfolding setDataLine_def XVC_DATA_GPIO_def
  using line_loop_levels [of 8 0 j q a h, unfolded add_0] by simp

lemma XVC_level [line_simps]:
  "j < 16 \<Longrightarrow> out_level q j (XVC_CS_H h) = (q = GPIOD \<and> j = 0 \<or> out_level q j h)"
  "j < 16 \<Longrightarrow> out_level q j (XVC_CS_L h) = (\<not> (q = GPIOD \<and> j = 0) \<and> out_level q j h)"
  "j < 16 \<Longrightarrow> out_level q j (XVC_R h) = (q = GPIOD \<and> j = 1 \<or> out_level q j h)"
  "j < 16 \<Longrightarrow> out_level q j (XVC_W h) = (\<not> (q = GPIOD \<and> j = 1) \<and> out_level q j h)"
  by (auto simp: XVC_CS_H_def XVC_CS_L_def XVC_R_def XVC_W_def level_SetBits level_ResetBits)

lemma byte_eqI: "(\<And>i. i < 8 \<Longrightarrow> bit a i = bit (b :: u8) i) \<Longrightarrow> a = b"
  by (rule bit_word_eqI) simp

lemma bus_setAddress [simp]: "bus_addr (setAddressLine a h) = a" "bus_data (setAddressLine a h) = bus_data h"
  by (rule byte_eqI, simp add: bus_addr_def bus_data_def bit_lines_byte line_simps)+

lemma bus_setData [simp]: "bus_data (setDataLine a h) = a" "bus_addr (setDataLine a h) = bus_addr h"
  by (rule byte_eqI, simp add: bus_addr_def bus_data_def bit_lines_byte line_simps)+

lemma bus_XVC [simp]:
  "bus_addr (XVC_CS_H h) = bus_addr h" "bus_addr (XVC_CS_L h) = bus_addr h"
  "bus_addr (XVC_R h) = bus_addr h" "bus_addr (XVC_W h) = bus_addr h"
  "bus_data (XVC_CS_H h) = bus_data h" "bus_data (XVC_CS_L h) = bus_data h"
  "bus_data (XVC_R h) = bus_data h" "bus_data (XVC_W h) = bus_data h"
  by (rule byte_eqI, simp add: bus_addr_def bus_data_def bit_lines_byte line_simps)+

section \<open>Reading the board\<close>

text \<open>
  A board with a register file: while it is selected for reading it drives the data lines with the
  register of the address on the lines. Every other input reads as \<open>base\<close> says.
\<close>

definition board_env :: "(u8 \<Rightarrow> u8) \<Rightarrow> env \<Rightarrow> env" where
  "board_env regs base h r =
     (if r = IDR GPIOE \<and> \<not> out_level GPIOD 0 h \<and> out_level GPIOD 1 h then ucast (regs (bus_addr h))
      else base h r)"

lemma data_bits:
  assumes "\<not> out_level GPIOD 0 h" "out_level GPIOD 1 h" "n \<le> 8"
  shows "\<exists>es. fold (data_bit (board_env regs base)) [0..<n] (0, h)
      = (take_bit n (regs (bus_addr h)), h @ es) \<and> (\<forall>e \<in> set es. \<exists>v. e = Rd (IDR GPIOE) v)"
  using assms(3)
proof (induction n)
  case (Suc n)
  then obtain es where es: "fold (data_bit (board_env regs base)) [0..<n] (0, h)
      = (take_bit n (regs (bus_addr h)), h @ es)" "\<forall>e \<in> set es. \<exists>v. e = Rd (IDR GPIOE) v" by auto
  have lev: "out_level q j (h @ es) = out_level q j h" for q j
    using es(2) by (induction es rule: rev_induct) auto
  let ?v = "board_env regs base (h @ es) (IDR GPIOE)"
  have v: "?v = ucast (regs (bus_addr h))"
    using assms(1,2) by (simp add: board_env_def lev bus_addr_def lines_byte_def del: out_level_append)
  have "take_bit n w OR push_bit n (of_bool (bit w n)) = take_bit (Suc n) w" if "n < 8" for w :: u8
    by (rule bit_word_eqI) (auto simp: bit_simps less_Suc_eq split: if_splits)
  moreover have "data_bit (board_env regs base) n (take_bit n (regs (bus_addr h)), h @ es)
      = (take_bit n (regs (bus_addr h)) OR push_bit n (of_bool (bit (regs (bus_addr h)) n)), h @ es @ [Rd (IDR GPIOE) ?v])"
    using Suc.prems by (simp add: data_bit_def XVC_DATA_GPIO_def ReadInputDataBit_eq v bit_ucast_iff)
  ultimately show ?case using Suc.prems es by (intro exI [of _ "es @ [Rd (IDR GPIOE) ?v]"]) auto
qed auto

lemma read_cycle_board:
  "fst (read_cycle (board_env regs base) i h) = regs (of_nat i) \<and>
   out_level GPIOD 0 (snd (read_cycle (board_env regs base) i h))"
proof -
  let ?h = "XVC_CS_L (XVC_R (setAddressLine (of_nat i) h))"
  have "\<not> out_level GPIOD 0 ?h" "out_level GPIOD 1 ?h" by (simp_all add: line_simps)
  from data_bits [OF this, of 8 regs base]
  show ?thesis
    by (auto simp: read_cycle_def getDataLine_def Let_def line_simps take_bit_word_eq_self)
qed

lemma read_cycles_board:
  "fst (read_cycles (board_env regs base) is h) = map (\<lambda>i. regs (of_nat i)) is \<and>
   (is \<noteq> [] \<longrightarrow> out_level GPIOD 0 (snd (read_cycles (board_env regs base) is h)))"
proof (induction "is" arbitrary: h)
  case (Cons i js)
  then show ?case by (cases "js = []") (auto simp: case_prod_beta Let_def read_cycle_board)
qed simp

lemma fpgaState_registers:
  "fst (fpgaStateGet (board_env regs base) h) =
     map (\<lambda>i. BCD2DEC (regs (of_nat i))) [0x04..<0x0a] @
     map (\<lambda>i. regs (of_nat i)) ([0x10..<0x13] @ [0x14..<0x18] @ [0x20..<0x40] @ [0x50, 0x51, 0x54])"
  "out_level GPIOD 0 (snd (fpgaStateGet (board_env regs base) h))"
proof -
  have "[0x20..<0x40] = [0x20..<0x30] @ [0x30..<(0x40 :: nat)]" "[0x50, 0x51] = [0x50..<(0x52 :: nat)]"
    by (simp_all add: upt_rec)
  then have cat: "[0x10..<0x13] @ [0x14..<0x18] @ [0x20..<0x40] @ [0x50, 0x51, 0x54]
      = [0x10..<0x13] @ [0x14..<0x18] @ [0x20..<0x30] @ [0x30..<0x40] @ [0x50..<0x52] @ [0x54 :: nat]"
    by simp
  show "fst (fpgaStateGet (board_env regs base) h) =
     map (\<lambda>i. BCD2DEC (regs (of_nat i))) [0x04..<0x0a] @
     map (\<lambda>i. regs (of_nat i)) ([0x10..<0x13] @ [0x14..<0x18] @ [0x20..<0x40] @ [0x50, 0x51, 0x54])"
    unfolding cat by (simp add: fpgaStateGet_def case_prod_beta read_cycles_board del: read_cycles.simps)
  show "out_level GPIOD 0 (snd (fpgaStateGet (board_env regs base) h))"
    by (simp add: fpgaStateGet_def case_prod_beta read_cycles_board del: read_cycles.simps)
qed

text \<open>
  \<^verbatim>\<open>BCD2DEC\<close> turns a packed decimal of two valid digits into the number.
\<close>

theorem BCD2DEC_digits:
  assumes "t < 10" "u < 10"
  shows "unat (BCD2DEC (of_nat (16 * t + u))) = 10 * t + u"
proof -
  let ?b = "of_nat (16 * t + u) :: u8"
  have b: "unat ?b = 16 * t + u"
    using assms by (simp add: unsigned_of_nat take_bit_nat_eq_self del: of_nat_add of_nat_mult)
  have d: "drop_bit 4 ?b = of_nat t"
  proof -
    have "unat (drop_bit 4 ?b) = unat ?b div 16" by (simp only: drop_bit_eq_div unat_div) simp
    also have "\<dots> = t" unfolding b using assms by simp
    also have "t = unat (of_nat t :: u8)"
      using assms by (simp add: unsigned_of_nat take_bit_nat_eq_self)
    finally show ?thesis by (simp only: word_unat_eq_iff)
  qed
  have "BCD2DEC ?b = of_nat (10 * t + u)" unfolding BCD2DEC_def d by (simp add: algebra_simps)
  then show ?thesis
    using assms by (simp add: unsigned_of_nat take_bit_nat_eq_self del: of_nat_add of_nat_mult)
qed

theorem BCD2DEC_digits_witness: "unat (BCD2DEC 0x59) = 59"
  using BCD2DEC_digits [of 5 9] by simp

section \<open>Write cycles\<close>

text \<open>
  The board takes the data when the select falls during a write: one entry for each falling edge of
  PD0 with PD1 low.
\<close>

definition write_edge :: "hist \<Rightarrow> ev \<Rightarrow> bool" where
  "write_edge h e \<longleftrightarrow> out_level GPIOD 0 h \<and> \<not> out_level GPIOD 0 (h @ [e]) \<and> \<not> out_level GPIOD 1 (h @ [e])"

definition bus_writes :: "hist \<Rightarrow> (u8 \<times> u8) list" where
  "bus_writes h = concat (map (\<lambda>k. if write_edge (take k h) (h ! k)
     then [(bus_addr (take k h), bus_data (take k h))] else []) [0..<length h])"

lemma bus_writes_snoc:
  "bus_writes (h @ [e]) = bus_writes h @ (if write_edge h e then [(bus_addr h, bus_data h)] else [])"
proof -
  have "concat (map (\<lambda>k. if write_edge (take k (h @ [e])) ((h @ [e]) ! k)
      then [(bus_addr (take k (h @ [e])), bus_data (take k (h @ [e])))] else []) [0..<length h]) = bus_writes h"
    unfolding bus_writes_def by (intro arg_cong [where f = concat] map_cong) (auto simp: nth_append)
  then show ?thesis by (simp add: bus_writes_def)
qed

lemma bus_writes_GPIO:
  "bus_writes (GPIO_SetBits p pin h) = bus_writes h @
     (if write_edge h (Wr (BSRR p) (ucast pin)) then [(bus_addr h, bus_data h)] else [])"
  "bus_writes (GPIO_ResetBits p pin h) = bus_writes h @
     (if write_edge h (Wr (BRR p) (ucast pin)) then [(bus_addr h, bus_data h)] else [])"
  by (simp_all add: GPIO_SetBits_hist GPIO_ResetBits_hist bus_writes_snoc)

lemma no_write_edge:
  "p \<noteq> GPIOD \<Longrightarrow> \<not> write_edge h (Wr (BSRR p) v)" "p \<noteq> GPIOD \<Longrightarrow> \<not> write_edge h (Wr (BRR p) v)"
  by (simp_all add: write_edge_def)

lemma bus_writes_lines [simp]:
  "bus_writes (setAddressLine a h) = bus_writes h" "bus_writes (setDataLine a h) = bus_writes h"
proof -
  have "bus_writes (fold (\<lambda>i h. if P i then GPIO_SetBits GPIOE (f i) h else GPIO_ResetBits GPIOE (f i) h) is h)
      = bus_writes h" for P f "is" h
    by (induction "is" arbitrary: h) (auto simp: bus_writes_GPIO no_write_edge)
  then show "bus_writes (setAddressLine a h) = bus_writes h" "bus_writes (setDataLine a h) = bus_writes h"
    by (simp_all add: setAddressLine_def setDataLine_def)
qed

lemma bus_writes_XVC [simp]:
  "bus_writes (XVC_R h) = bus_writes h" "bus_writes (XVC_W h) = bus_writes h"
  "bus_writes (XVC_CS_H h) = bus_writes h"
  "bus_writes (XVC_CS_L h) = bus_writes h @
     (if out_level GPIOD 0 h \<and> \<not> out_level GPIOD 1 h then [(bus_addr h, bus_data h)] else [])"
  by (auto simp: XVC_R_def XVC_W_def XVC_CS_H_def XVC_CS_L_def bus_writes_GPIO write_edge_def bit_ucast_iff)

lemma flashChoice_bus [simp]:
  "bus_writes (flashChoice sel h) = bus_writes h"
  "bus_addr (flashChoice sel h) = 0x60"
  "bus_data (flashChoice sel h) = (if sel \<in> {1, 2, 3} then ucast sel else bus_data h)"
  by (auto simp: flashChoice_def Let_def)

lemma flashChoice_level:
  "j < 16 \<Longrightarrow> out_level GPIOD j (flashChoice sel h) = out_level GPIOD j h"
  by (simp add: flashChoice_def Let_def line_simps)

definition select_flash :: "u32 \<Rightarrow> hist \<Rightarrow> hist" where
  "select_flash sel h = XVC_CS_H (XVC_CS_L (XVC_W (flashChoice sel h)))"

text \<open>
  selecting one of the three flashes makes one write cycle on the bus, the select value in
  register 0x60; for a value that is no flash number the old data lines are written there instead.
\<close>

theorem select_flash_writes:
  assumes "out_level GPIOD 0 h"
  shows "bus_writes (select_flash sel h) = bus_writes h @
      [(0x60, if sel \<in> {1, 2, 3} then ucast sel else bus_data h)] \<and>
    out_level GPIOD 0 (select_flash sel h)"
  using assms by (simp add: select_flash_def line_simps flashChoice_level)

theorem select_flash_writes_witness:
  "bus_writes (select_flash 2 (XVC_CS_H [])) = bus_writes (XVC_CS_H []) @ [(0x60, 2)]"
proof -
  have "out_level GPIOD 0 (XVC_CS_H [])" by (simp add: line_simps)
  from select_flash_writes [OF this, of 2] show ?thesis by simp
qed

text \<open>The checksum of the frames is the byte sum of the first \<open>len\<close> bytes.\<close>

lemma check_sum_bytes: "n \<le> length bs \<Longrightarrow> check_sum bs (int n) = byte_sum (take n bs)"
proof (induction n)
  case (Suc n)
  have "nat (1 + int n) = Suc n" by simp
  with Suc show ?case by (simp add: check_sum_def take_Suc_conv_app_nth)
qed (simp add: check_sum_def)

end
