(* ===== verification/Xvc.thy ===== *)
theory Xvc
  imports SpiFlash FlashInfo BoardBus
begin

text \<open>
  The command interpreter of the TCP service, \<^verbatim>\<open>XVC_Interface\<close> and its helpers in \<^verbatim>\<open>tcpserver.c\<close>. The
  globals it keeps between commands are the record \<open>app\<close>; the received bytes are a memory, a function
  from offsets (which may be negative) to bytes. \<^verbatim>\<open>tcp_write\<close> copies its data into the stack and its
  result is ignored, so what a command sends is recorded in \<open>sent\<close>, oldest first, with the connection.

  A command may not return (the serial flash never gets ready): \<open>None\<close>. A parameter frame longer than
  the structure it is copied to runs over other globals: \<open>Inl\<close> a fault.
\<close>

abbreviation (input) TCPHEADFRAME :: u32 where "TCPHEADFRAME \<equiv> 0xaaaa5555"
abbreviation (input) TCPTAILFRAME :: u32 where "TCPTAILFRAME \<equiv> 0x5555aaaa"
abbreviation (input) ICD_DAT_MAX_SIZE :: u32 where "ICD_DAT_MAX_SIZE \<equiv> 896"
abbreviation (input) ICD_CMD_EARSE :: u32 where "ICD_CMD_EARSE \<equiv> 1"
abbreviation (input) ICD_CMD_WRITE :: u32 where "ICD_CMD_WRITE \<equiv> 2"
abbreviation (input) ICD_CMD_READ :: u32 where "ICD_CMD_READ \<equiv> 3"
abbreviation (input) ICD_CMD_PARA_GET :: u32 where "ICD_CMD_PARA_GET \<equiv> 4"
abbreviation (input) ICD_CMD_PARA_SET :: u32 where "ICD_CMD_PARA_SET \<equiv> 5"
abbreviation (input) ICD_CMD_STATE_GET :: u32 where "ICD_CMD_STATE_GET \<equiv> 6"

datatype fault = OVERRUN

type_synonym pcb = nat
type_synonym memory = "int \<Rightarrow> u8"

record NET_CONFIG_TYPE =
  cfg_ip :: "u8 list"
  cfg_mask :: "u8 list"
  cfg_gw :: "u8 list"
  cfg_mac :: "u8 list"
  serverPort :: u16

record app =
  earseFlag :: bool
  earsePcb :: "pcb option"
  setAddrFlag :: bool
  flashWriteAddr :: u32
  readTotal :: u32
  flashReadAddr :: u32
  ackCnt :: u32
  sendbuf :: "u8 list"
  ipSetCmd :: "u8 list"
  ipInfoFlash :: IP_INFO_TYPE
  netCfgInfo :: NET_CONFIG_TYPE
  netif_ip :: u32
  netif_hwaddr :: "u8 list"
  pcb_flags :: "pcb \<Rightarrow> u8"
  sent :: "(pcb \<times> u8 list) list"

definition tcp_write :: "pcb \<Rightarrow> u8 list \<Rightarrow> app \<Rightarrow> app" where
  "tcp_write tpcb bs a = a\<lparr>sent := sent a @ [(tpcb, bs)]\<rparr>"

text \<open>The values the globals start with.\<close>

definition defaultNetCfgInfo :: NET_CONFIG_TYPE where
  "defaultNetCfgInfo = \<lparr>cfg_ip = [192, 168, 1, 78], cfg_mask = [255, 255, 255, 0], cfg_gw = [192, 168, 1, 1],
     cfg_mac = [0x02, 0x0A, 0x0F, 0x0E, 0x0E, 0x06], serverPort = 888\<rparr>"

definition app_init :: app where
  "app_init = \<lparr>earseFlag = False, earsePcb = None, setAddrFlag = False, flashWriteAddr = 0, readTotal = 0,
     flashReadAddr = 0, ackCnt = 0, sendbuf = replicate 1024 0, ipSetCmd = replicate 32 0,
     ipInfoFlash = zero_info, netCfgInfo = defaultNetCfgInfo, netif_ip = 0, netif_hwaddr = replicate 6 0,
     pcb_flags = (\<lambda>_. 0), sent = []\<rparr>"

section \<open>Response structures\<close>

text \<open>The members of a response structure up to the checksum, then the sum over them.\<close>

definition seal :: "u8 list \<Rightarrow> u8 list" where
  "seal body = body @ le32 (check_sum body (int (length body)))"

definition common_rsp :: "u32 \<Rightarrow> u32 \<Rightarrow> u8 list" where
  "common_rsp cmd opRet = seal (le32 TCPHEADFRAME @ le32 cmd @ le32 4 @ le32 opRet @ le32 TCPTAILFRAME)"

definition para_rsp :: "u8 list \<Rightarrow> u16 \<Rightarrow> u8 list \<Rightarrow> u8 list" where
  "para_rsp ipb portw macb =
     seal (le32 TCPHEADFRAME @ le32 ICD_CMD_PARA_GET @ le32 12 @ ipb @ le16 portw @ macb @ le32 TCPTAILFRAME)"

definition state_rsp :: "u8 list \<Rightarrow> u8 list" where
  "state_rsp dat = seal (le32 TCPHEADFRAME @ le32 ICD_CMD_STATE_GET @ le32 48 @ dat @ le32 TCPTAILFRAME)"

text \<open>A store of bytes into \<^verbatim>\<open>sendbuf\<close>.\<close>

definition put :: "nat \<Rightarrow> u8 list \<Rightarrow> u8 list \<Rightarrow> u8 list" where
  "put off bs buf = take off buf @ bs @ drop (off + length bs) buf"

section \<open>Settings\<close>

definition ipaddrGet :: "u32 \<Rightarrow> u8 list" where
  "ipaddrGet addr = le32 addr"

definition macaddrGet :: "u8 list \<Rightarrow> u8 list" where
  "macaddrGet hw = take 6 hw"

definition ipaddrSet :: "env \<Rightarrow> u8 list \<Rightarrow> app \<Rightarrow> hist \<Rightarrow> bool \<times> app \<times> hist" where
  "ipaddrSet env cmd a h =
     (let i = ipInfoFlash a;
          i = i\<lparr>ip := take 4 cmd @ drop 4 (ip i)\<rparr>;
          i = i\<lparr>ipValid := DATA_VALID_VAL\<rparr>;
          (sta, i, h) = writeIpInfo env i h
      in (\<not> FLASH_OK \<noteq> sta, a\<lparr>ipInfoFlash := i\<rparr>, h))"

definition macaddrSet :: "env \<Rightarrow> u8 list \<Rightarrow> app \<Rightarrow> hist \<Rightarrow> bool \<times> app \<times> hist" where
  "macaddrSet env cmd a h =
     (let i = ipInfoFlash a;
          i = i\<lparr>mac := take 6 cmd @ drop 6 (mac i)\<rparr>;
          i = i\<lparr>macValid := DATA_VALID_VAL\<rparr>;
          (sta, i, h) = writeIpInfo env i h
      in (\<not> FLASH_OK \<noteq> sta, a\<lparr>ipInfoFlash := i\<rparr>, h))"

definition portSet :: "env \<Rightarrow> u16 \<Rightarrow> app \<Rightarrow> hist \<Rightarrow> bool \<times> app \<times> hist" where
  "portSet env p a h =
     (let i = ipInfoFlash a;
          i = i\<lparr>port := le16 p @ drop 2 (port i)\<rparr>;
          i = i\<lparr>portValid := DATA_VALID_VAL\<rparr>;
          (sta, i, h) = writeIpInfo env i h
      in (\<not> FLASH_OK \<noteq> sta, a\<lparr>ipInfoFlash := i\<rparr>, h))"

section \<open>Commands\<close>

definition cmd_erase :: "env \<Rightarrow> pcb \<Rightarrow> memory \<Rightarrow> app \<Rightarrow> hist \<Rightarrow> (app \<times> hist) option" where
  "cmd_erase env tpcb recv a h =
     (let a = a\<lparr>earseFlag := True\<rparr>;
          h = flashChoice (rd32 recv 12) h;
          h = XVC_W h;
          h = XVC_CS_L h
      in Option.bind (Flash_EraseChip env h) (\<lambda>h.
           let a = a\<lparr>earsePcb := Some tpcb\<rparr>; h = XVC_CS_H h in Some (a, h)))"

definition cmd_write :: "env \<Rightarrow> pcb \<Rightarrow> memory \<Rightarrow> app \<Rightarrow> hist \<Rightarrow> (app \<times> hist) option" where
  "cmd_write env tpcb recv a h =
     (let (a, h) = (if \<not> setAddrFlag a then
             let h = flashChoice (rd32 recv 12) h;
                 h = XVC_W h;
                 h = XVC_CS_L h;
                 a = a\<lparr>setAddrFlag := True\<rparr>;
                 h = XVC_CS_H h
             in (a, h)
           else (a, h));
          size = rd32 recv 8
      in Option.bind
           (if size - 8 \<noteq> 0 then
              Option.bind (Flash_WriteNoCheck env (\<lambda>i. recv (20 + int i)) (flashWriteAddr a) (ucast (size - 8)) h)
                (\<lambda>(result, h). Some (result, a\<lparr>flashWriteAddr := flashWriteAddr a + (size - 8)\<rparr>, h))
            else
              let (_, h) = writeCntInfo env (flashWriteAddr a) h
              in Some (1, a\<lparr>flashWriteAddr := 0, setAddrFlag := False\<rparr>, h))
           (\<lambda>(result, a, h). Some (tcp_write tpcb (common_rsp ICD_CMD_WRITE result) a, h)))"

definition start_read :: "env \<Rightarrow> memory \<Rightarrow> app \<Rightarrow> hist \<Rightarrow> app \<times> hist" where
  "start_read env recv a h =
     (if \<not> setAddrFlag a then
        let h = flashChoice (rd32 recv 12) h;
            h = XVC_W h;
            h = XVC_CS_L h;
            a = a\<lparr>setAddrFlag := True\<rparr>;
            (n, h) = readCntInfo env h;
            a = a\<lparr>readTotal := word_of_int n\<rparr>;
            h = XVC_CS_H h
        in (a\<lparr>ackCnt := (if readTotal a mod ICD_DAT_MAX_SIZE \<noteq> 0 then readTotal a div ICD_DAT_MAX_SIZE + 2
                         else readTotal a div ICD_DAT_MAX_SIZE + 1)\<rparr>, h)
      else (a, h))"

definition read_block :: "env \<Rightarrow> memory \<Rightarrow> app \<Rightarrow> hist \<Rightarrow> app \<times> hist" where
  "read_block env recv a h =
     (if readTotal a > ICD_DAT_MAX_SIZE then
        let (bs, h) = Flash_ReadSomeByte env (flashReadAddr a) (ucast ICD_DAT_MAX_SIZE) h;
            a = a\<lparr>sendbuf := put 12 bs (sendbuf a)\<rparr>;
            a = a\<lparr>sendbuf := put 8 (le32 ICD_DAT_MAX_SIZE) (sendbuf a)\<rparr>;
            a = a\<lparr>flashReadAddr := flashReadAddr a + ICD_DAT_MAX_SIZE\<rparr>;
            a = a\<lparr>readTotal := readTotal a - ICD_DAT_MAX_SIZE\<rparr>
        in (a, h)
      else if ackCnt a \<ge> rd32 recv 16 \<and> readTotal a < ICD_DAT_MAX_SIZE then
        let (bs, h) = Flash_ReadSomeByte env (flashReadAddr a) (ucast (readTotal a)) h;
            a = a\<lparr>sendbuf := put 12 bs (sendbuf a)\<rparr>;
            a = a\<lparr>sendbuf := put 8 (le32 (readTotal a)) (sendbuf a)\<rparr>;
            a = (if readTotal a = 0 then a\<lparr>setAddrFlag := False, flashReadAddr := 0, ackCnt := 0\<rparr> else a);
            a = a\<lparr>readTotal := 0\<rparr>
        in (a, h)
      else (a, h))"

definition cmd_read :: "env \<Rightarrow> pcb \<Rightarrow> memory \<Rightarrow> app \<Rightarrow> hist \<Rightarrow> app \<times> hist" where
  "cmd_read env tpcb recv a h =
     (let (a, h) = start_read env recv a h;
          a = a\<lparr>sendbuf := put 0 (le32 TCPHEADFRAME @ le32 ICD_CMD_READ) (sendbuf a)\<rparr>;
          (a, h) = read_block env recv a h;
          size = unat (word_at (sendbuf a) 8);
          a = a\<lparr>sendbuf := put (12 + size) (le32 TCPTAILFRAME) (sendbuf a)\<rparr>;
          packSize = size + 20;
          a = a\<lparr>sendbuf := put (16 + size) (le32 (check_sum (sendbuf a) (int packSize - 4))) (sendbuf a)\<rparr>
      in (tcp_write tpcb (take packSize (sendbuf a)) a, h))"

definition cmd_para_get :: "pcb \<Rightarrow> app \<Rightarrow> app" where
  "cmd_para_get tpcb a =
     tcp_write tpcb (para_rsp (ipaddrGet (netif_ip a)) (serverPort (netCfgInfo a)) (macaddrGet (netif_hwaddr a))) a"

text \<open>\<^verbatim>\<open>if(result) result = ...\<close>\<close>

definition if_result :: "bool \<times> app \<times> hist \<Rightarrow> (app \<Rightarrow> hist \<Rightarrow> bool \<times> app \<times> hist) \<Rightarrow> bool \<times> app \<times> hist" where
  "if_result r f = (let (result, a, h) = r in if result then f a h else (result, a, h))"

definition cmd_para_set :: "env \<Rightarrow> pcb \<Rightarrow> memory \<Rightarrow> nat \<Rightarrow> app \<Rightarrow> hist \<Rightarrow> fault + app \<times> hist" where
  "cmd_para_set env tpcb recv len a h =
     (if len > 32 then Inl OVERRUN
      else let a = a\<lparr>ipSetCmd := map (\<lambda>i. recv (int i)) [0..<len] @ drop len (ipSetCmd a)\<rparr>;
               cmd = ipSetCmd a;
               r = ipaddrSet env (take 4 (drop 12 cmd)) a h;
               r = if_result r (macaddrSet env (take 6 (drop 18 cmd)));
               (result, a, h) = if_result r (portSet env (word16_of (cmd ! 16) (cmd ! 17)))
           in Inr (tcp_write tpcb (common_rsp ICD_CMD_PARA_SET (of_bool result)) a, h))"

definition cmd_state_get :: "env \<Rightarrow> pcb \<Rightarrow> app \<Rightarrow> hist \<Rightarrow> app \<times> hist" where
  "cmd_state_get env tpcb a h =
     (let (dat, h) = fpgaStateGet env h in (tcp_write tpcb (state_rsp dat) a, h))"

definition mem_sum :: "memory \<Rightarrow> int \<Rightarrow> u32" where
  "mem_sum recv len = check_sum (map (\<lambda>i. recv (int i)) [0..<nat len]) len"

definition XVC_Interface ::
  "env \<Rightarrow> pcb \<Rightarrow> memory \<Rightarrow> u16 \<Rightarrow> app \<Rightarrow> hist \<Rightarrow> (fault + app \<times> hist) option" where
  "XVC_Interface env tpcb recv n a h =
     (let len = uint n;
          check = rd32 recv (len - 4);
          a = a\<lparr>pcb_flags := (pcb_flags a)(tpcb := pcb_flags a tpcb OR (0x40 OR 0x02))\<rparr>;
          cmd = rd32 recv 4
      in if rd32 recv 0 = TCPHEADFRAME \<and> mem_sum recv (len - 4) = check then
           if cmd = ICD_CMD_EARSE then map_option Inr (cmd_erase env tpcb recv a h)
           else if cmd = ICD_CMD_WRITE then map_option Inr (cmd_write env tpcb recv a h)
           else if cmd = ICD_CMD_READ then Some (Inr (cmd_read env tpcb recv a h))
           else if cmd = ICD_CMD_PARA_GET then Some (Inr (cmd_para_get tpcb a, h))
           else if cmd = ICD_CMD_PARA_SET then Some (cmd_para_set env tpcb recv (nat len) a h)
           else if cmd = ICD_CMD_STATE_GET then Some (Inr (cmd_state_get env tpcb a h))
           else Some (Inr (a, h))
         else Some (Inr (a, h)))"

section \<open>The send buffer\<close>

lemma length_put [simp]: "off + length bs \<le> length buf \<Longrightarrow> length (put off bs buf) = length buf"
  by (simp add: put_def)

lemma nth_put:
  "off + length bs \<le> length buf \<Longrightarrow> i < length buf \<Longrightarrow>
   put off bs buf ! i = (if off \<le> i \<and> i < off + length bs then bs ! (i - off) else buf ! i)"
  by (auto simp: put_def nth_append min_def)

lemma take_put [simp]: "n \<le> off \<Longrightarrow> off \<le> length buf \<Longrightarrow> take n (put off bs buf) = take n buf"
  by (simp add: put_def min_def)

lemma word_at_put_same:
  "off + 4 \<le> length buf \<Longrightarrow> word_at (put off (le32 w) buf) off = w"
  by (simp add: word_at_def nth_put)

lemma word_at_put_other:
  "off + length bs \<le> length buf \<Longrightarrow> k + 4 \<le> length buf \<Longrightarrow> k + 4 \<le> off \<or> off + length bs \<le> k \<Longrightarrow>
   word_at (put off bs buf) k = word_at buf k"
  by (auto simp: word_at_def nth_put)

lemma word_at_take: "k + 4 \<le> n \<Longrightarrow> word_at (take n buf) k = word_at buf k"
  by (simp add: word_at_def)

section \<open>Well-formed responses\<close>

text \<open>
  A response as the client checks it: header, command, length of the data, trailer and checksum.
\<close>

definition valid_rsp :: "u32 \<Rightarrow> u8 list \<Rightarrow> bool" where
  "valid_rsp cmd bs \<longleftrightarrow> 20 \<le> length bs \<and> word_at bs 0 = TCPHEADFRAME \<and> word_at bs 4 = cmd \<and>
     word_at bs 8 = of_nat (length bs - 20) \<and> word_at bs (length bs - 8) = TCPTAILFRAME \<and>
     word_at bs (length bs - 4) = byte_sum (take (length bs - 4) bs)"

lemma check_sum_all: "check_sum bs (int (length bs)) = byte_sum bs"
  using check_sum_bytes [of "length bs" bs] by simp

lemma seal_valid:
  assumes "n = of_nat (length dat)"
  shows "valid_rsp cmd (seal (le32 TCPHEADFRAME @ le32 cmd @ le32 n @ dat @ le32 TCPTAILFRAME))"
proof -
  let ?pre = "le32 TCPHEADFRAME @ le32 cmd @ le32 n @ dat"
  let ?body = "le32 TCPHEADFRAME @ le32 cmd @ le32 n @ dat @ le32 TCPTAILFRAME"
  have s: "seal ?body = ?body @ le32 (byte_sum ?body)" by (simp only: seal_def check_sum_all)
  have len: "length ?body = 16 + length dat" by simp
  have tail: "word_at (?body @ le32 c) (12 + length dat) = TCPTAILFRAME" for c
  proof -
    have "word_at (?pre @ le32 TCPTAILFRAME @ le32 c) (length ?pre) = TCPTAILFRAME"
      by (subst word_at_append(1)) (simp_all only: order_refl diff_self_eq_0 word_at_append(2))
    moreover have "length ?pre = 12 + length dat" by simp
    ultimately show ?thesis by (simp only: append_assoc)
  qed
  have sum: "word_at (?body @ le32 c) (16 + length dat) = c" for c
  proof -
    have "word_at (?body @ le32 c) (length ?body) = c"
      by (subst word_at_append(1)) (simp_all only: order_refl diff_self_eq_0 word_at_append(3))
    then show ?thesis by (simp only: len)
  qed
  have "word_at (?body @ le32 c) 0 = TCPHEADFRAME" "word_at (?body @ le32 c) 4 = cmd"
    "word_at (?body @ le32 c) 8 = n" for c
    by (simp_all add: word_at_append)
  moreover have "length (?body @ le32 c) - 8 = 12 + length dat" "length (?body @ le32 c) - 4 = 16 + length dat"
    "length (?body @ le32 c) - 20 = length dat" "20 \<le> length (?body @ le32 c)"
    "take (16 + length dat) (?body @ le32 c) = ?body" for c
    by simp_all
  ultimately show ?thesis unfolding valid_rsp_def s using tail sum assms by (simp only: simp_thms)
qed

lemma common_rsp_valid: "valid_rsp cmd (common_rsp cmd r)"
  unfolding common_rsp_def using seal_valid [of 4 "le32 r" cmd] by simp

lemma para_rsp_valid:
  assumes "length i = 4" "length m = 6"
  shows "valid_rsp ICD_CMD_PARA_GET (para_rsp i p m)"
  unfolding para_rsp_def using seal_valid [of 12 "i @ le16 p @ m" ICD_CMD_PARA_GET] assms by simp

lemma length_read_cycles [simp]: "length (fst (read_cycles env is h)) = length is"
  by (induction "is" arbitrary: h) (simp_all add: case_prod_beta Let_def)

lemma length_fpgaStateGet: "length (fst (fpgaStateGet env h)) = 48"
  by (simp add: fpgaStateGet_def case_prod_beta Let_def del: read_cycles.simps)

lemma state_rsp_valid: "length d = 48 \<Longrightarrow> valid_rsp ICD_CMD_STATE_GET (state_rsp d)"
  unfolding state_rsp_def using seal_valid [of 48 d ICD_CMD_STATE_GET] by simp

section \<open>Invariant of the application state\<close>

definition wf_app :: "app \<Rightarrow> bool" where
  "wf_app a \<longleftrightarrow> length (sendbuf a) = 1024 \<and> unat (word_at (sendbuf a) 8) \<le> 896 \<and>
     length (ipSetCmd a) = 32 \<and> wf_info (ipInfoFlash a) \<and> 6 \<le> length (netif_hwaddr a)"

lemma length_ReadSomeByte [simp]: "length (fst (Flash_ReadSomeByte env a n h)) = unat n"
proof -
  have "length (fst (recv_n k r h)) = k" for k and r :: "hist \<Rightarrow> u8 \<times> hist" and h
    by (induction k arbitrary: h) (simp_all add: case_prod_beta Let_def)
  then show ?thesis by (simp add: Flash_ReadSomeByte_def case_prod_beta Let_def)
qed

lemma sent_tcp_write [simp]:
  "sent (tcp_write t bs a) = sent a @ [(t, bs)]" "wf_app (tcp_write t bs a) = wf_app a"
  by (simp_all add: tcp_write_def wf_app_def)

lemma start_read_fields [simp]:
  "sendbuf (fst (start_read env recv a h)) = sendbuf a" "sent (fst (start_read env recv a h)) = sent a"
  "flashReadAddr (fst (start_read env recv a h)) = flashReadAddr a"
  "setAddrFlag (fst (start_read env recv a h))"
  "wf_app (fst (start_read env recv a h)) = wf_app a"
  by (simp_all add: start_read_def Let_def case_prod_beta wf_app_def)

text \<open>The bytes of a read response, when the data in the buffer are \<open>dat\<close>.\<close>

definition read_rsp :: "u8 list \<Rightarrow> u8 list" where
  "read_rsp dat = seal (le32 TCPHEADFRAME @ le32 ICD_CMD_READ @ le32 (of_nat (length dat)) @ dat @ le32 TCPTAILFRAME)"

lemma read_rsp_valid: "valid_rsp ICD_CMD_READ (read_rsp dat)"
  unfolding read_rsp_def by (rule seal_valid [OF refl])

lemma put_append:
  "length pre = off \<Longrightarrow> length bs = length old \<Longrightarrow> put off bs (pre @ old @ post) = pre @ bs @ post"
  by (simp add: put_def)

text \<open>The data part of the send buffer, as long as its size field says.\<close>

definition buf_dat :: "u8 list \<Rightarrow> u8 list" where
  "buf_dat buf = take (unat (word_at buf 8)) (drop 12 buf)"

lemma word_at_split: "k + 4 \<le> length bs \<Longrightarrow> bs = take k bs @ le32 (word_at bs k) @ drop (k + 4) bs"
proof -
  assume k: "k + 4 \<le> length bs"
  have "le32 (word_at bs k) = take 4 (drop k bs)"
    using k by (intro nth_equalityI) (auto simp: word_at_def less_Suc_eq numeral_eq_Suc)
  moreover have "drop (k + 4) bs = drop 4 (drop k bs)" by (simp add: add.commute)
  ultimately show ?thesis by (metis append_take_drop_id)
qed

text \<open>Everything after the block has been fetched: what \<^verbatim>\<open>ICD_CMD_READ\<close> sends.\<close>

lemma read_tail:
  assumes "length buf = 1024" "unat (word_at buf 8) \<le> 896"
    "take 8 buf = le32 TCPHEADFRAME @ le32 ICD_CMD_READ"
  defines "n \<equiv> unat (word_at buf 8)"
  defines "b1 \<equiv> put (12 + n) (le32 TCPTAILFRAME) buf"
  defines "b2 \<equiv> put (16 + n) (le32 (check_sum b1 (int (n + 20) - 4))) b1"
  shows "take (n + 20) b2 = read_rsp (buf_dat buf)" "length b2 = 1024" "word_at b2 8 = word_at buf 8"
proof -
  have n: "n \<le> 896" using assms(2) by (simp add: n_def)
  have len: "length (buf_dat buf) = n" using assms(1) n by (simp add: buf_dat_def n_def min_def)
  have w: "word_at buf 8 = of_nat (length (buf_dat buf))" unfolding len n_def by simp
  let ?pre = "le32 TCPHEADFRAME @ le32 ICD_CMD_READ @ le32 (word_at buf 8) @ buf_dat buf"
  have "buf = take 8 buf @ le32 (word_at buf 8) @ drop 12 buf"
    using word_at_split [of 8 buf] assms(1) by simp
  also have "drop 12 buf = buf_dat buf @ drop n (drop 12 buf)"
    unfolding buf_dat_def n_def by (simp only: append_take_drop_id)
  also have "drop n (drop 12 buf) = take 4 (drop (12 + n) buf) @ take 4 (drop (16 + n) buf) @ drop (20 + n) buf"
  proof -
    have d: "drop (16 + n) buf = drop 4 (drop (12 + n) buf)" "drop (20 + n) buf = drop 4 (drop (16 + n) buf)"
      by (simp_all add: add.commute)
    show ?thesis using d by (metis add.commute append_take_drop_id drop_drop)
  qed
  finally have b: "buf = ?pre @ take 4 (drop (12 + n) buf) @ take 4 (drop (16 + n) buf) @ drop (20 + n) buf"
    using assms(3) by simp
  have l: "length ?pre = 12 + n" using len by simp
  have four: "length (take 4 (drop (12 + n) buf)) = 4" "length (take 4 (drop (16 + n) buf)) = 4"
    using assms(1) n by simp_all
  have b1: "b1 = ?pre @ le32 TCPTAILFRAME @ take 4 (drop (16 + n) buf) @ drop (20 + n) buf"
    unfolding b1_def by (subst b) (rule put_append [OF l], simp only: four length_le32)
  let ?body = "?pre @ le32 TCPTAILFRAME"
  have lb: "length ?body = 16 + n" using l by simp
  have sum: "check_sum b1 (int (n + 20) - 4) = check_sum ?body (int (length ?body))"
  proof -
    have "int (n + 20) - 4 = int (16 + n)" by simp
    moreover have "check_sum b1 (int (16 + n)) = byte_sum (take (16 + n) b1)"
      using assms(1) n by (intro check_sum_bytes) (simp add: b1_def)
    moreover have "take (16 + n) b1 = ?body" unfolding b1 using lb by simp
    ultimately show ?thesis by (simp only: check_sum_all)
  qed
  have four': "length (le32 (check_sum b1 (int (n + 20) - 4))) = length (take 4 (drop (16 + n) buf))"
    using four by simp
  have b2: "b2 = ?body @ le32 (check_sum b1 (int (n + 20) - 4)) @ drop (20 + n) buf"
    unfolding b2_def by (subst (2) b1) (use put_append [OF lb four'] in \<open>simp only: append_assoc\<close>)
  show "take (n + 20) b2 = read_rsp (buf_dat buf)"
    unfolding b2 sum read_rsp_def seal_def w [symmetric] using lb by simp
  show "length b2 = 1024" using assms(1) n by (simp add: b2_def b1_def)
  have "word_at b1 8 = word_at buf 8" unfolding b1_def using assms(1) n by (intro word_at_put_other) simp_all
  moreover have "word_at b2 8 = word_at b1 8"
    unfolding b2_def using assms(1) n by (intro word_at_put_other) (simp_all add: b1_def)
  ultimately show "word_at b2 8 = word_at buf 8" by simp
qed

lemma store_block:
  assumes "length buf = 1024" "length bs = k" "k \<le> 896" "w = of_nat k"
  shows "length (put 8 (le32 w) (put 12 bs buf)) = 1024" "word_at (put 8 (le32 w) (put 12 bs buf)) 8 = w"
    "buf_dat (put 8 (le32 w) (put 12 bs buf)) = bs" "take 8 (put 8 (le32 w) (put 12 bs buf)) = take 8 buf"
proof -
  have u: "unat w = k" using assms(3,4) by (simp add: unat_of_nat_u32)
  show "length (put 8 (le32 w) (put 12 bs buf)) = 1024" using assms by simp
  show w: "word_at (put 8 (le32 w) (put 12 bs buf)) 8 = w" using assms by (intro word_at_put_same) simp
  show "take 8 (put 8 (le32 w) (put 12 bs buf)) = take 8 buf" using assms by simp
  have "drop 12 (put 8 (le32 w) (put 12 bs buf)) = bs @ drop (12 + k) buf"
    using assms by (simp add: put_def)
  then show "buf_dat (put 8 (le32 w) (put 12 bs buf)) = bs"
    unfolding buf_dat_def w u using assms(2) by simp
qed

lemma unat_less_896: "unat (w :: u32) < 896 \<Longrightarrow> unat (ucast w :: u16) = unat w"
  by (simp add: unsigned_ucast_eq take_bit_nat_eq_self)

text \<open>Which block a read command fetches.\<close>

lemma read_block_full:
  assumes "length (sendbuf a) = 1024" "readTotal a > 896"
  shows "\<exists>buf. read_block env recv a h = (a\<lparr>sendbuf := buf, flashReadAddr := flashReadAddr a + 896,
        readTotal := readTotal a - 896\<rparr>, snd (Flash_ReadSomeByte env (flashReadAddr a) 896 h)) \<and>
      length buf = 1024 \<and> word_at buf 8 = 896 \<and> take 8 buf = take 8 (sendbuf a) \<and>
      buf_dat buf = fst (Flash_ReadSomeByte env (flashReadAddr a) 896 h)"
  using assms(2) store_block [OF assms(1), of "fst (Flash_ReadSomeByte env (flashReadAddr a) 896 h)" 896 896]
  by (intro exI [of _ "put 8 (le32 896) (put 12 (fst (Flash_ReadSomeByte env (flashReadAddr a) 896 h)) (sendbuf a))"])
    (simp add: read_block_def case_prod_beta Let_def)

lemma read_block_last:
  assumes "length (sendbuf a) = 1024" "readTotal a < 896" "rd32 recv 16 \<le> ackCnt a"
  shows "\<exists>buf. read_block env recv a h = ((if readTotal a = 0
          then a\<lparr>sendbuf := buf, setAddrFlag := False, flashReadAddr := 0, ackCnt := 0, readTotal := 0\<rparr>
          else a\<lparr>sendbuf := buf, readTotal := 0\<rparr>),
        snd (Flash_ReadSomeByte env (flashReadAddr a) (ucast (readTotal a)) h)) \<and>
      length buf = 1024 \<and> word_at buf 8 = readTotal a \<and> take 8 buf = take 8 (sendbuf a) \<and>
      buf_dat buf = fst (Flash_ReadSomeByte env (flashReadAddr a) (ucast (readTotal a)) h)"
proof -
  have u: "unat (readTotal a) < 896" using assms(2) by (simp add: word_less_nat_alt)
  have le: "unat (ucast (readTotal a) :: u16) = unat (readTotal a)" by (rule unat_less_896 [OF u])
  have "\<not> readTotal a > 896" using assms(2) by simp
  note b = store_block [OF assms(1), of "fst (Flash_ReadSomeByte env (flashReadAddr a) (ucast (readTotal a)) h)"
        "unat (readTotal a)" "readTotal a"]
  let ?buf = "put 8 (le32 (readTotal a)) (put 12 (fst (Flash_ReadSomeByte env (flashReadAddr a) (ucast (readTotal a)) h)) (sendbuf a))"
  have "read_block env recv a h = ((if readTotal a = 0
          then a\<lparr>sendbuf := ?buf, setAddrFlag := False, flashReadAddr := 0, ackCnt := 0, readTotal := 0\<rparr>
          else a\<lparr>sendbuf := ?buf, readTotal := 0\<rparr>),
        snd (Flash_ReadSomeByte env (flashReadAddr a) (ucast (readTotal a)) h))"
    using assms(2,3) \<open>\<not> readTotal a > 896\<close>
    by (cases "readTotal a = 0") (simp_all add: read_block_def case_prod_beta Let_def)
  with b le u show ?thesis by (intro exI [of _ ?buf]) simp
qed

lemma read_block_none:
  "readTotal a = 896 \<or> readTotal a < 896 \<and> \<not> rd32 recv 16 \<le> ackCnt a \<Longrightarrow> read_block env recv a h = (a, h)"
  by (auto simp: read_block_def)

lemma read_block_cases:
  obtains "readTotal a > 896" | "readTotal a < 896" "rd32 recv 16 \<le> ackCnt a"
  | "readTotal a = 896 \<or> readTotal a < 896 \<and> \<not> rd32 recv 16 \<le> ackCnt a"
  by (metis linorder_neqE)

definition read_header :: "app \<Rightarrow> app" where
  "read_header a = a\<lparr>sendbuf := put 0 (le32 TCPHEADFRAME @ le32 ICD_CMD_READ) (sendbuf a)\<rparr>"

definition read_fetch :: "env \<Rightarrow> memory \<Rightarrow> app \<Rightarrow> hist \<Rightarrow> app \<times> hist" where
  "read_fetch env recv a h =
     (let (a, h) = start_read env recv a h in read_block env recv (read_header a) h)"

lemma read_header_wf:
  assumes "wf_app a"
  shows "length (sendbuf (read_header a)) = 1024" "wf_app (read_header a)"
    "take 8 (sendbuf (read_header a)) = le32 TCPHEADFRAME @ le32 ICD_CMD_READ"
    "sent (read_header a) = sent a"
  using assms by (simp_all add: wf_app_def read_header_def word_at_put_other)
    (simp add: put_def)

lemma read_block_wf:
  assumes "wf_app a"
  shows "wf_app (fst (read_block env recv a h))" "sent (fst (read_block env recv a h)) = sent a"
    "take 8 (sendbuf (fst (read_block env recv a h))) = take 8 (sendbuf a)"
proof -
  have l: "length (sendbuf a) = 1024" using assms by (simp add: wf_app_def)
  have "wf_app (fst (read_block env recv a h)) \<and> sent (fst (read_block env recv a h)) = sent a \<and>
    take 8 (sendbuf (fst (read_block env recv a h))) = take 8 (sendbuf a)"
  proof (cases rule: read_block_cases [where a = a and recv = recv])
    case 1
    with read_block_full [OF l 1, of env recv h] assms show ?thesis by (auto simp: wf_app_def)
  next
    case 2
    with read_block_last [OF l 2, of env h] assms show ?thesis by (auto simp: wf_app_def word_less_nat_alt)
  next
    case 3
    with assms show ?thesis by (simp add: read_block_none)
  qed
  then show "wf_app (fst (read_block env recv a h))" "sent (fst (read_block env recv a h)) = sent a"
    "take 8 (sendbuf (fst (read_block env recv a h))) = take 8 (sendbuf a)" by simp_all
qed

lemma read_fetch_wf:
  assumes "wf_app a"
  shows "wf_app (fst (read_fetch env recv a h))" "sent (fst (read_fetch env recv a h)) = sent a"
    "take 8 (sendbuf (fst (read_fetch env recv a h))) = le32 TCPHEADFRAME @ le32 ICD_CMD_READ"
  using assms by (simp_all add: read_fetch_def case_prod_beta read_block_wf read_header_wf)

lemma cmd_read_eq:
  assumes "wf_app a"
  shows "\<exists>buf. cmd_read env t recv a h
      = (tcp_write t (read_rsp (buf_dat (sendbuf (fst (read_fetch env recv a h)))))
          (fst (read_fetch env recv a h)\<lparr>sendbuf := buf\<rparr>), snd (read_fetch env recv a h)) \<and>
    wf_app (fst (read_fetch env recv a h)\<lparr>sendbuf := buf\<rparr>) \<and>
    word_at buf 8 = word_at (sendbuf (fst (read_fetch env recv a h))) 8"
proof -
  let ?a3 = "fst (read_fetch env recv a h)"
  note a3 = read_fetch_wf [OF assms, of env recv h]
  let ?n = "unat (word_at (sendbuf ?a3) 8)"
  let ?b1 = "put (12 + ?n) (le32 TCPTAILFRAME) (sendbuf ?a3)"
  let ?b2 = "put (16 + ?n) (le32 (check_sum ?b1 (int (?n + 20) - 4))) ?b1"
  have "length (sendbuf ?a3) = 1024" "?n \<le> 896" using a3(1) by (simp_all add: wf_app_def)
  note t = read_tail [OF this a3(3)]
  have "cmd_read env t recv a h = (tcp_write t (take (?n + 20) ?b2) (?a3\<lparr>sendbuf := ?b2\<rparr>), snd (read_fetch env recv a h))"
    by (simp add: cmd_read_def case_prod_beta Let_def read_fetch_def read_header_def)
  moreover have "wf_app (?a3\<lparr>sendbuf := ?b2\<rparr>)"
    using a3(1) t(2,3) unfolding wf_app_def by simp
  ultimately show ?thesis using t by (intro exI [of _ ?b2]) simp
qed

section \<open>The other commands\<close>

text \<open>A step that keeps the invariant and what has been sent.\<close>

definition quiet :: "app \<Rightarrow> app \<Rightarrow> bool" where
  "quiet a a' \<longleftrightarrow> (wf_app a \<longrightarrow> wf_app a') \<and> sent a' = sent a"

lemma quiet_trans: "quiet a b \<Longrightarrow> quiet b c \<Longrightarrow> quiet a c"
  by (auto simp: quiet_def)

lemma wf_writeIpInfo: "wf_info i \<Longrightarrow> wf_info (fst (snd (writeIpInfo env i h)))"
  by (simp add: writeIpInfo_sealed case_prod_beta Let_def)

lemma store_quiet:
  "(wf_info (ipInfoFlash a) \<Longrightarrow> wf_info i) \<Longrightarrow> quiet a (a\<lparr>ipInfoFlash := fst (snd (writeIpInfo env i h))\<rparr>)"
  using wf_writeIpInfo [of i env h] by (simp add: quiet_def wf_app_def)

lemma set_quiet:
  "length c = 4 \<Longrightarrow> quiet a (fst (snd (ipaddrSet env c a h)))"
  "length c = 6 \<Longrightarrow> quiet a (fst (snd (macaddrSet env c a h)))"
  "quiet a (fst (snd (portSet env p a h)))"
  unfolding ipaddrSet_def macaddrSet_def portSet_def Let_def case_prod_beta fst_conv snd_conv
  by (rule store_quiet, simp add: wf_info_def)+

lemma if_result_quiet:
  "quiet a (fst (snd r)) \<Longrightarrow> (\<And>b g. quiet b (fst (snd (f b g)))) \<Longrightarrow> quiet a (fst (snd (if_result r f)))"
  by (auto simp: if_result_def case_prod_beta intro: quiet_trans)

lemma cmd_para_set_rsp:
  assumes "wf_app a" "cmd_para_set env t recv n a h = Inr (a', h')"
  shows "wf_app a' \<and> (\<exists>r. sent a' = sent a @ [(t, common_rsp ICD_CMD_PARA_SET r)])"
proof -
  have n: "n \<le> 32" using assms(2) by (auto simp: cmd_para_set_def split: if_splits)
  define a1 where "a1 = a\<lparr>ipSetCmd := map (\<lambda>i. recv (int i)) [0..<n] @ drop n (ipSetCmd a)\<rparr>"
  define c where "c = ipSetCmd a1"
  have q1: "quiet a a1" using n by (auto simp: quiet_def wf_app_def a1_def)
  have len: "length c = 32" using n assms(1) by (simp add: wf_app_def a1_def c_def)
  define z where "z = if_result (if_result (ipaddrSet env (take 4 (drop 12 c)) a1 h) (macaddrSet env (take 6 (drop 18 c))))
    (portSet env (word16_of (c ! 16) (c ! 17)))"
  have "quiet a1 (fst (snd z))"
    unfolding z_def using len by (intro if_result_quiet set_quiet) simp_all
  then have q: "quiet a (fst (snd z))" using q1 quiet_trans by blast
  have "(a', h') = (tcp_write t (common_rsp ICD_CMD_PARA_SET (of_bool (fst z))) (fst (snd z)), snd (snd z))"
    using assms(2) n by (simp add: cmd_para_set_def Let_def case_prod_beta z_def c_def a1_def)
  with q assms(1) show ?thesis by (auto simp: quiet_def)
qed

lemma cmd_erase_quiet: "cmd_erase env t recv a h = Some (a', h') \<Longrightarrow> quiet a a'"
  by (auto simp: cmd_erase_def Let_def quiet_def wf_app_def bind_eq_Some_conv)

lemma cmd_write_rsp:
  assumes "wf_app a" "cmd_write env t recv a h = Some (a', h')"
  shows "wf_app a' \<and> (\<exists>r. sent a' = sent a @ [(t, common_rsp ICD_CMD_WRITE r)])"
  using assms
  by (auto simp: cmd_write_def Let_def wf_app_def tcp_write_def bind_eq_Some_conv
      split: if_splits prod.splits)

text \<open>A call that returns.\<close>

lemma XVC_Interface_sends:
  assumes "wf_app a" "XVC_Interface env t recv n a h = Some (Inr (a', h'))"
  shows "wf_app a' \<and> (\<exists>out. sent a' = sent a @ out \<and> length out \<le> 1 \<and>
    (\<forall>(p, bs) \<in> set out. p = t \<and> valid_rsp (rd32 recv 4) bs))"
proof -
  let ?a = "a\<lparr>pcb_flags := (pcb_flags a)(t := pcb_flags a t OR (0x40 OR 0x02))\<rparr>"
  have wf: "wf_app ?a" "sent ?a = sent a" using assms(1) by (simp_all add: wf_app_def)
  have idle: ?thesis if "quiet ?a a'" using that wf by (auto simp: quiet_def)
  have one: ?thesis if "wf_app a'" "sent a' = sent a @ [(t, bs)]" "valid_rsp (rd32 recv 4) bs" for bs
    using that by auto
  consider "(a', h') = (?a, h)"
    | "rd32 recv 4 = 1" "cmd_erase env t recv ?a h = Some (a', h')"
    | "rd32 recv 4 = 2" "cmd_write env t recv ?a h = Some (a', h')"
    | "rd32 recv 4 = 3" "cmd_read env t recv ?a h = (a', h')"
    | "rd32 recv 4 = 4" "(cmd_para_get t ?a, h) = (a', h')"
    | "rd32 recv 4 = 5" "cmd_para_set env t recv (nat (uint n)) ?a h = Inr (a', h')"
    | "rd32 recv 4 = 6" "cmd_state_get env t ?a h = (a', h')"
    using assms(2) unfolding XVC_Interface_def Let_def
    by (auto split: if_splits)
  then show ?thesis
  proof cases
    case 1
    then show ?thesis using idle by (simp add: quiet_def)
  next
    case 2
    then show ?thesis using idle cmd_erase_quiet by blast
  next
    case 3
    then show ?thesis using one cmd_write_rsp [OF wf(1)] common_rsp_valid wf(2) by metis
  next
    case 4
    then show ?thesis using one cmd_read_eq [OF wf(1), of env t recv h] read_fetch_wf [OF wf(1), of env recv h]
        read_rsp_valid wf(2) by auto
  next
    case 5
    then have "valid_rsp (rd32 recv 4) (para_rsp (ipaddrGet (netif_ip ?a)) (serverPort (netCfgInfo ?a)) (macaddrGet (netif_hwaddr ?a)))"
      using wf(1) by (simp add: para_rsp_valid ipaddrGet_def macaddrGet_def wf_app_def)
    with 5 show ?thesis using one wf by (auto simp: cmd_para_get_def)
  next
    case 6
    then show ?thesis using one cmd_para_set_rsp [OF wf(1)] common_rsp_valid wf(2) by metis
  next
    case 7
    then have "valid_rsp (rd32 recv 4) (state_rsp (fst (fpgaStateGet env h)))"
      by (simp add: state_rsp_valid length_fpgaStateGet)
    with 7 show ?thesis using one wf by (auto simp: cmd_state_get_def case_prod_beta)
  qed
qed

section \<open>The serial line during bus traffic\<close>

text \<open>Accesses that leave PD2-PD4 alone do not show on the serial line.\<close>

lemma line_of_other:
  assumes "\<And>i l. i \<in> {2, 3, 4} \<Longrightarrow> step_level GPIOD i e l = l"
  shows "line_of (h @ [e]) = line_of h"
  using assms by (simp add: line_of_snoc line_step_def Let_def)

lemma line_of_bus_pin [line_simps]:
  "line_of (GPIO_SetBits GPIOE pin h) = line_of h" "line_of (GPIO_ResetBits GPIOE pin h) = line_of h"
  "i < 2 \<Longrightarrow> line_of (GPIO_SetBits GPIOD (GPIO_Pin i) h) = line_of h"
  "i < 2 \<Longrightarrow> line_of (GPIO_ResetBits GPIOD (GPIO_Pin i) h) = line_of h"
  unfolding GPIO_SetBits_hist GPIO_ResetBits_hist
  by (rule line_of_other, auto simp: bit_ucast_iff)+

lemma line_of_bus [line_simps]:
  "line_of (setAddressLine b h) = line_of h" "line_of (setDataLine b h) = line_of h"
  "line_of (XVC_CS_H h) = line_of h" "line_of (XVC_CS_L h) = line_of h"
  "line_of (XVC_R h) = line_of h" "line_of (XVC_W h) = line_of h"
  "line_of (flashChoice sel h) = line_of h"
proof -
  have f: "line_of (fold (\<lambda>i h. if P i then GPIO_SetBits GPIOE (f i) h else GPIO_ResetBits GPIOE (f i) h) is h) = line_of h"
    for P f "is" h
    by (induction "is" arbitrary: h) (simp_all add: line_simps)
  show s: "line_of (setAddressLine b h) = line_of h" "line_of (setDataLine b h) = line_of h" for b h
    by (simp_all add: setAddressLine_def setDataLine_def f)
  show "line_of (flashChoice sel h) = line_of h"
    by (simp add: flashChoice_def Let_def s)
qed (simp_all add: XVC_CS_H_def XVC_CS_L_def XVC_R_def XVC_W_def line_simps)

lemma frames_line: "line_of g = line_of h \<Longrightarrow> frames g = frames h \<and> spi_ready g = spi_ready h"
  by (simp add: frames_def spi_ready_def)

section \<open>Frames from the client\<close>

definition mem_of :: "u8 list \<Rightarrow> memory" where
  "mem_of bs i = (if 0 \<le> i \<and> i < int (length bs) then bs ! nat i else 0)"

definition accepted :: "memory \<Rightarrow> u16 \<Rightarrow> bool" where
  "accepted recv n \<longleftrightarrow> rd32 recv 0 = TCPHEADFRAME \<and> mem_sum recv (uint n - 4) = rd32 recv (uint n - 4)"

lemma rd32_mem_of: "k + 4 \<le> length bs \<Longrightarrow> rd32 (mem_of bs) (int k) = word_at bs k"
proof -
  assume k: "k + 4 \<le> length bs"
  have n: "nat (int k) = k" "nat (int k + 1) = k + 1" "nat (int k + 2) = k + 2" "nat (int k + 3) = k + 3"
    by linarith+
  show ?thesis using k by (simp only: rd32_def mem_of_def word_at_def n) simp
qed

lemma mem_sum_mem_of: "n \<le> length bs \<Longrightarrow> mem_sum (mem_of bs) (int n) = byte_sum (take n bs)"
proof -
  assume n: "n \<le> length bs"
  have "map (\<lambda>i. mem_of bs (int i)) [0..<n] = take n bs"
    using n by (intro nth_equalityI) (auto simp: mem_of_def)
  then show ?thesis using check_sum_bytes [of n "take n bs"] n by (simp add: mem_sum_def)
qed

lemma valid_accepted:
  assumes "valid_rsp cmd bs" "length bs < 65536"
  shows "accepted (mem_of bs) (of_nat (length bs))" "rd32 (mem_of bs) 4 = cmd"
proof -
  have u: "uint (of_nat (length bs) :: u16) = int (length bs)"
    using assms(2) by (simp add: unsigned_of_nat take_bit_nat_eq_self flip: uint_nat)
  have l: "20 \<le> length bs" using assms(1) by (simp add: valid_rsp_def)
  then have m: "int (length bs) - 4 = int (length bs - 4)" by simp
  show "rd32 (mem_of bs) 4 = cmd" using rd32_mem_of [of 4 bs] l assms(1) by (simp add: valid_rsp_def)
  show "accepted (mem_of bs) (of_nat (length bs))"
    using rd32_mem_of [of 0 bs] rd32_mem_of [of "length bs - 4" bs] mem_sum_mem_of [of "length bs - 4" bs] l assms(1)
    unfolding accepted_def u m by (simp add: valid_rsp_def)
qed

text \<open>
  A frame with a wrong header or a wrong checksum is ignored: nothing is sent, no register is
  touched, no state changes but the two flags of the connection.
\<close>

theorem XVC_ignores_bad_frames:
  assumes "\<not> accepted recv n"
  shows "XVC_Interface env t recv n a h
    = Some (Inr (a\<lparr>pcb_flags := (pcb_flags a)(t := pcb_flags a t OR (0x40 OR 0x02))\<rparr>, h))"
  using assms unfolding XVC_Interface_def accepted_def Let_def by (simp only: simp_thms if_False)

theorem XVC_ignores_bad_frames_witness:
  "XVC_Interface (\<lambda>_ _. 0) 0 (mem_of (le32 TCPHEADFRAME @ le32 1 @ le32 0 @ le32 TCPTAILFRAME @ le32 0)) 20 app_init []
    = Some (Inr (app_init\<lparr>pcb_flags := (pcb_flags app_init)(0 := 0x42)\<rparr>, []))"
proof -
  let ?bs = "le32 TCPHEADFRAME @ le32 1 @ le32 0 @ le32 TCPTAILFRAME @ le32 0"
  have u: "uint (20 :: u16) - 4 = int 16" by simp
  have "mem_sum (mem_of ?bs) (int 16) = byte_sum (take 16 ?bs)" by (rule mem_sum_mem_of) simp
  also have "\<dots> = byte_sum (le32 TCPHEADFRAME) + byte_sum (le32 1) + byte_sum (le32 TCPTAILFRAME) + byte_sum (le32 0)"
    by simp
  also have "\<dots> \<noteq> 0" by (simp add: le32_def drop_bit_eq_div)
  finally have s: "mem_sum (mem_of ?bs) (int 16) \<noteq> 0" .
  have "rd32 (mem_of ?bs) (int 16) = 0" using rd32_mem_of [of 16 ?bs] by (simp add: word_at_append)
  with s have "\<not> accepted (mem_of ?bs) 20" unfolding accepted_def u by simp
  from XVC_ignores_bad_frames [OF this, of "\<lambda>_ _. 0" 0 app_init "[]"] show ?thesis
    by (simp add: app_init_def)
qed

definition client_frame :: "u32 \<Rightarrow> u8 list \<Rightarrow> u8 list" where
  "client_frame cmd dat =
     seal (le32 TCPHEADFRAME @ le32 cmd @ le32 (of_nat (length dat)) @ dat @ le32 TCPTAILFRAME)"

lemma length_client_frame [simp]: "length (client_frame cmd dat) = 20 + length dat"
  by (simp add: client_frame_def seal_def)

lemma client_frame_accepted:
  assumes "length dat < 60000"
  shows "accepted (mem_of (client_frame cmd dat)) (of_nat (20 + length dat))"
    "rd32 (mem_of (client_frame cmd dat)) 4 = cmd"
  using valid_accepted [of cmd "client_frame cmd dat"] seal_valid [OF refl, of cmd dat] assms
  by (simp_all add: client_frame_def seal_def)

lemma wf_app_init: "wf_app app_init"
  by (simp add: wf_app_def app_init_def wf_zero_info word_at_def word32_of_def)

definition with_flags :: "pcb \<Rightarrow> app \<Rightarrow> app" where
  "with_flags t a = a\<lparr>pcb_flags := (pcb_flags a)(t := pcb_flags a t OR (0x40 OR 0x02))\<rparr>"

lemma with_flags_simps [simp]:
  "wf_app (with_flags t a) = wf_app a" "sent (with_flags t a) = sent a" "setAddrFlag (with_flags t a) = setAddrFlag a"
  "readTotal (with_flags t a) = readTotal a" "flashReadAddr (with_flags t a) = flashReadAddr a"
  "ackCnt (with_flags t a) = ackCnt a" "sendbuf (with_flags t a) = sendbuf a"
  "flashWriteAddr (with_flags t a) = flashWriteAddr a" "ipInfoFlash (with_flags t a) = ipInfoFlash a"
  "ipSetCmd (with_flags t a) = ipSetCmd a" "netCfgInfo (with_flags t a) = netCfgInfo a"
  by (simp_all add: with_flags_def wf_app_def)

lemma XVC_dispatch:
  assumes "accepted recv n"
  shows "rd32 recv 4 = ICD_CMD_EARSE \<Longrightarrow>
      XVC_Interface env t recv n a h = map_option Inr (cmd_erase env t recv (with_flags t a) h)"
    and "rd32 recv 4 = ICD_CMD_WRITE \<Longrightarrow>
      XVC_Interface env t recv n a h = map_option Inr (cmd_write env t recv (with_flags t a) h)"
    and "rd32 recv 4 = ICD_CMD_READ \<Longrightarrow>
      XVC_Interface env t recv n a h = Some (Inr (cmd_read env t recv (with_flags t a) h))"
    and "rd32 recv 4 = ICD_CMD_PARA_GET \<Longrightarrow>
      XVC_Interface env t recv n a h = Some (Inr (cmd_para_get t (with_flags t a), h))"
    and "rd32 recv 4 = ICD_CMD_PARA_SET \<Longrightarrow>
      XVC_Interface env t recv n a h = Some (cmd_para_set env t recv (nat (uint n)) (with_flags t a) h)"
    and "rd32 recv 4 = ICD_CMD_STATE_GET \<Longrightarrow>
      XVC_Interface env t recv n a h = Some (Inr (cmd_state_get env t (with_flags t a) h))"
  using assms by (simp_all add: XVC_Interface_def accepted_def with_flags_def Let_def)

lemma XVC_not_accepted: "\<not> accepted recv n \<Longrightarrow> XVC_Interface env t recv n a h = Some (Inr (with_flags t a, h))"
  by (auto simp: XVC_Interface_def accepted_def with_flags_def Let_def)

text \<open>
  C2: every response the service sends is well formed. Whatever the received bytes and the hardware, from a
  state that satisfies the invariant (as the initial one does): a call of \<^verbatim>\<open>XVC_Interface\<close> writes past
  \<^verbatim>\<open>ipSetCmd\<close> exactly when the frame is an accepted parameter-set command of more than 32 bytes; it does not
  return only for an accepted erase or write command, which poll the flash; and otherwise it keeps the
  invariant and sends at most one frame, to the connection it was called for, with the right header, the
  command it answers, its data length, its trailer and a correct checksum.
\<close>

theorem XVC_responses_valid:
  assumes "wf_app a"
  shows "case XVC_Interface env t recv n a h of
      None \<Rightarrow> accepted recv n \<and> rd32 recv 4 \<in> {ICD_CMD_EARSE, ICD_CMD_WRITE}
    | Some (Inl f) \<Rightarrow> f = OVERRUN \<and> accepted recv n \<and> rd32 recv 4 = ICD_CMD_PARA_SET \<and> 32 < unat n
    | Some (Inr (a', h')) \<Rightarrow> \<not> (accepted recv n \<and> rd32 recv 4 = ICD_CMD_PARA_SET \<and> 32 < unat n) \<and> wf_app a' \<and>
        (\<exists>out. sent a' = sent a @ out \<and> length out \<le> 1 \<and> (\<forall>(p, bs) \<in> set out. p = t \<and> valid_rsp (rd32 recv 4) bs))"
proof (cases "accepted recv n")
  case False
  then show ?thesis using XVC_Interface_sends [OF assms XVC_not_accepted [OF False]]
    by (simp add: XVC_not_accepted)
next
  case True
  note D = XVC_dispatch [OF True, of env t a h]
  have n: "nat (uint n) = unat n" by simp
  show ?thesis
  proof (cases "XVC_Interface env t recv n a h")
    case None
    then show ?thesis using True by (auto simp: XVC_Interface_def accepted_def Let_def split: if_splits)
  next
    case (Some r)
    have over: "rd32 recv 4 = ICD_CMD_PARA_SET \<and> 32 < unat n \<longleftrightarrow> r = Inl OVERRUN" and f: "\<And>f. r = Inl f \<Longrightarrow> f = OVERRUN"
      using Some True unfolding XVC_Interface_def accepted_def Let_def n
      by (auto simp: cmd_para_set_def Let_def case_prod_beta split: if_splits)
    show ?thesis
    proof (cases r)
      case (Inl e)
      then show ?thesis using Some over f [OF Inl] True by simp
    next
      case (Inr x)
      obtain a' h' where x: "x = (a', h')" by (cases x)
      have "XVC_Interface env t recv n a h = Some (Inr (a', h'))" using Some Inr x by simp
      from XVC_Interface_sends [OF assms this] show ?thesis using Some Inr x over by simp
    qed
  qed
qed

theorem XVC_responses_valid_witness:
  "\<exists>a' h'. XVC_Interface (\<lambda>_ _. 0) 7 (mem_of (client_frame ICD_CMD_PARA_GET [])) 20 app_init [] = Some (Inr (a', h')) \<and>
    (\<exists>bs. sent a' = [(7, bs)] \<and> valid_rsp ICD_CMD_PARA_GET bs)"
proof -
  note f = client_frame_accepted [of "[]" ICD_CMD_PARA_GET]
  have x: "XVC_Interface (\<lambda>_ _. 0) 7 (mem_of (client_frame ICD_CMD_PARA_GET [])) 20 app_init []
      = Some (Inr (cmd_para_get 7 (with_flags 7 app_init), []))"
    using f by (intro XVC_dispatch(4)) simp_all
  have "sent (cmd_para_get 7 (with_flags 7 app_init)) \<noteq> []" by (simp add: cmd_para_get_def)
  moreover have "sent app_init = []" by (simp add: app_init_def)
  ultimately show ?thesis
    using x f XVC_responses_valid [OF wf_app_init, where env = "\<lambda>_ _. 0" and t = 7
        and recv = "mem_of (client_frame ICD_CMD_PARA_GET [])" and n = 20 and h = "[]"]
    by (fastforce simp: le_Suc_eq length_Suc_conv)
qed

section \<open>The state query and the board\<close>

text \<open>
  On a board with registers \<open>regs\<close> the state query answers one frame with the 48 bytes that
  \<^verbatim>\<open>fpgaStateGet\<close> collects, whatever the registers hold.
\<close>

theorem XVC_state_query:
  assumes "accepted recv n" "rd32 recv 4 = ICD_CMD_STATE_GET"
  shows "\<exists>a' h'. XVC_Interface (board_env regs base) t recv n a h = Some (Inr (a', h')) \<and>
    sent a' = sent a @ [(t, state_rsp (
      map (\<lambda>i. BCD2DEC (regs (of_nat i))) [0x04..<0x0a] @
      map (\<lambda>i. regs (of_nat i)) ([0x10..<0x13] @ [0x14..<0x18] @ [0x20..<0x40] @ [0x50, 0x51, 0x54])))] \<and>
    out_level GPIOD 0 h'"
  using XVC_dispatch(6) [OF assms, of "board_env regs base" t a h] fpgaState_registers [of regs base h]
  by (auto simp: cmd_state_get_def case_prod_beta)

theorem XVC_state_query_witness:
  "\<exists>a' h'. XVC_Interface (board_env (\<lambda>x. x) (\<lambda>_ _. 0)) 1 (mem_of (client_frame ICD_CMD_STATE_GET [])) 20 app_init []
     = Some (Inr (a', h')) \<and> length (sent a') = 1"
proof -
  have "accepted (mem_of (client_frame ICD_CMD_STATE_GET [])) 20"
    using client_frame_accepted(1) [of "[]" ICD_CMD_STATE_GET] by simp
  from XVC_state_query [OF this, where regs = "\<lambda>x. x" and base = "\<lambda>_ _. 0" and t = 1 and a = app_init and h = "[]"]
  show ?thesis
    using client_frame_accepted(2) [of "[]" ICD_CMD_STATE_GET] by (fastforce simp: app_init_def)
qed

end
