(* ===== verification/XvcTransfer.thy ===== *)
theory XvcTransfer
  imports Xvc
begin

text \<open>
  Whole transfers over the TCP service: a sequence of write frames stores a file in the serial flash
  and its length on the chip, a sequence of read frames returns it. Both rest on a separation: the
  serial-flash and bus operations touch the GPIO ports only, the on-chip flash operations touch the
  flash controller and the array only, so neither disturbs the state the other has built up.
\<close>

section \<open>Separation of the two flashes\<close>

fun is_gpio :: "reg \<Rightarrow> bool" where
  "is_gpio (IDR p) = True"
| "is_gpio (BSRR p) = True"
| "is_gpio (BRR p) = True"
| "is_gpio _ = False"

fun is_fpec :: "reg \<Rightarrow> bool" where
  "is_fpec FLASH_KEYR = True"
| "is_fpec FLASH_SR = True"
| "is_fpec FLASH_CR = True"
| "is_fpec FLASH_AR = True"
| "is_fpec FLASH_OBR = True"
| "is_fpec (Half a) = True"
| "is_fpec (Word a) = True"
| "is_fpec _ = False"

lemma fdev_gpio: "touches is_gpio h h' \<Longrightarrow> fdev_of m h' = fdev_of m h"
proof -
  have "is_gpio (reg_of e) \<Longrightarrow> fdev_step e d = d" for e d
    by (cases e; cases "reg_of e") auto
  then have "\<forall>e \<in> set es. is_gpio (reg_of e) \<Longrightarrow> fold fdev_step es d = d" for es d
    by (induction es arbitrary: d) auto
  then show "touches is_gpio h h' \<Longrightarrow> fdev_of m h' = fdev_of m h"
    by (auto simp: touches_def fdev_of_append)
qed

lemma line_fpec: "touches is_fpec h h' \<Longrightarrow> line_of h' = line_of h"
proof -
  have "is_fpec (reg_of e) \<Longrightarrow> step_level p i e l = l" for e p i l
    by (cases e; cases "reg_of e") auto
  then have "is_fpec (reg_of e) \<Longrightarrow> line_of (h @ [e]) = line_of h" for e h
    by (intro line_of_other) auto
  then have "\<forall>e \<in> set es. is_fpec (reg_of e) \<Longrightarrow> line_of (h @ es) = line_of h" for es
    by (induction es rule: rev_induct) (auto simp flip: append_assoc)
  then show "touches is_fpec h h' \<Longrightarrow> line_of h' = line_of h" by (auto simp: touches_def)
qed

abbreviation (input) tg :: "hist \<Rightarrow> hist \<Rightarrow> bool" where "tg \<equiv> touches is_gpio"
abbreviation (input) tf :: "hist \<Rightarrow> hist \<Rightarrow> bool" where "tf \<equiv> touches is_fpec"

lemma tg_pins [touch]:
  "tg h g \<Longrightarrow> tg h (GPIO_SetBits p pin g)" "tg h g \<Longrightarrow> tg h (GPIO_ResetBits p pin g)"
  by (simp_all add: GPIO_SetBits_def GPIO_ResetBits_def touch)

lemma tg_lines [touch]:
  "tg h g \<Longrightarrow> tg h (NSS_L g)" "tg h g \<Longrightarrow> tg h (NSS_H g)" "tg h g \<Longrightarrow> tg h (SCK_L g)" "tg h g \<Longrightarrow> tg h (SCK_H g)"
  "tg h g \<Longrightarrow> tg h (XVC_CS_H g)" "tg h g \<Longrightarrow> tg h (XVC_CS_L g)" "tg h g \<Longrightarrow> tg h (XVC_R g)" "tg h g \<Longrightarrow> tg h (XVC_W g)"
  by (simp_all add: NSS_L_def NSS_H_def SCK_L_def SCK_H_def XVC_CS_H_def XVC_CS_L_def XVC_R_def XVC_W_def touch)

lemma tg_input [touch]: "tg h g \<Longrightarrow> tg h (snd (GPIO_ReadInputDataBit env p pin g))"
  by (auto simp: GPIO_ReadInputDataBit_def case_prod_beta Let_def simp del: rd_simps intro!: touch)

lemma tg_write_byte [touch]: "tg h g \<Longrightarrow> tg h (SPI_WriteByte b g)"
  unfolding SPI_WriteByte_def
  by (rule touches_fold_pair) (auto simp: write_bit_def case_prod_beta Let_def intro!: touch)

lemma tg_read_byte [touch]: "tg h g \<Longrightarrow> tg h (snd (SPI_ReadByte env g))"
  unfolding SPI_ReadByte_def
  by (rule touches_fold_pair) (auto simp: read_bit_def case_prod_beta Let_def intro!: touch)

lemma tg_recv_n [touch]: "tg h g \<Longrightarrow> tg h (snd (recv_n n (SPI_ReadByte env) g))"
  by (induction n arbitrary: g) (auto simp: case_prod_beta Let_def intro: touch)

lemma tg_bus [touch]:
  "tg h g \<Longrightarrow> tg h (setAddressLine a g)" "tg h g \<Longrightarrow> tg h (setDataLine a g)"
  by (auto simp: setAddressLine_def setDataLine_def intro!: touches_fold touch)

lemma tg_flashChoice [touch]: "tg h g \<Longrightarrow> tg h (flashChoice sel g)"
  by (auto simp: flashChoice_def Let_def intro!: touch)

lemma tg_flash_reads [touch]:
  "tg h g \<Longrightarrow> tg h (snd (Flash_ReadSR env g))" "tg h g \<Longrightarrow> tg h (snd (Flash_ReadSomeByte env a n g))"
  "tg h g \<Longrightarrow> tg h (Flash_WriteEnable g)"
  by (auto simp: Flash_ReadSR_def Flash_ReadSomeByte_def Flash_WriteEnable_def case_prod_beta Let_def
      intro!: touch)

lemma tg_WaitBusy: "Flash_WaitBusy env g = Some g' \<Longrightarrow> tg g g'"
proof (rule Flash_WaitBusy.raw_induct [where P = "\<lambda>env g g'. tg g g'"], goal_cases)
  case (1 f env g g')
  let ?g1 = "snd (Flash_ReadSR env g)"
  have t: "tg g ?g1" by (intro touch)
  show ?case
  proof (cases "fst (Flash_ReadSR env g) AND 1 = 1")
    case True
    then have "tg ?g1 g'" using 1 by (simp add: case_prod_beta Let_def)
    with t show ?thesis by (rule touches_trans)
  next
    case False
    with 1(3) t show ?thesis by (simp add: case_prod_beta Let_def)
  qed
qed

lemma tg_WritePage: "Flash_WritePage env buf a n g = Some g' \<Longrightarrow> tg g g'"
proof -
  assume w: "Flash_WritePage env buf a n g = Some g'"
  let ?g1 = "NSS_H (fold (\<lambda>i. SPI_WriteByte (buf i)) [0..<unat n] (SPI_WriteByte (ucast a)
    (SPI_WriteByte (ucast (drop_bit 8 a)) (SPI_WriteByte (ucast (drop_bit 16 a))
    (SPI_WriteByte 0x02 (NSS_L (Flash_WriteEnable g)))))))"
  have "tg g ?g1" by (intro touch touches_fold) simp_all
  moreover have "tg ?g1 g'" using w by (intro tg_WaitBusy [of env]) (simp add: Flash_WritePage_def)
  ultimately show ?thesis by (rule touches_trans)
qed

lemma tg_write_pages: "write_pages env buf a n k g = Some (r, g') \<Longrightarrow> tg g g'"
proof -
  have "write_pages env buf a n k g = Some rg \<Longrightarrow> tg g (snd rg)" for rg
  proof (rule write_pages.raw_induct [where P = "\<lambda>env buf a n k g rg. tg g (snd rg)"], goal_cases)
    case (1 f env buf a n k g rg)
    then obtain g1 where w: "Flash_WritePage env buf a k g = Some g1" by (auto simp: bind_eq_Some_conv)
    have t: "tg g g1" by (rule tg_WritePage [OF w])
    show ?case
    proof (cases "n = k")
      case True
      with 1(3) w t show ?thesis by auto
    next
      case False
      then have "tg g1 (snd rg)" using 1 w by simp
      with t show ?thesis by (rule touches_trans)
    qed
  qed
  then show "write_pages env buf a n k g = Some (r, g') \<Longrightarrow> tg g g'" by fastforce
qed

lemma tg_WriteNoCheck: "Flash_WriteNoCheck env buf a n g = Some (r, g') \<Longrightarrow> tg g g'"
  by (auto simp: Flash_WriteNoCheck_def Let_def dest: tg_write_pages)

lemma tg_EraseChip: "Flash_EraseChip env g = Some g' \<Longrightarrow> tg g g'"
  by (auto simp: Flash_EraseChip_def bind_eq_Some_conv intro!: touch intro: touches_trans [OF _ tg_WaitBusy])

text \<open>The on-chip flash operations.\<close>

lemma tf_status [touch]: "tf h g \<Longrightarrow> tf h (snd (FLASH_GetStatus env g))"
  by (auto simp: FLASH_GetStatus_def case_prod_beta Let_def simp del: rd_simps intro!: touch)

lemma tf_wait [touch]: "tf h g \<Longrightarrow> tf h (snd (FLASH_WaitForLastOperation env t g))"
proof -
  assume t: "tf h g"
  obtain es where "snd (FLASH_WaitForLastOperation env t g) = g @ es" "sr_reads es"
    using Wait_reads [of env t g] by blast
  with t show ?thesis by (fastforce simp: touches_def sr_reads_def)
qed

lemma tf_ops [touch]:
  "tf h g \<Longrightarrow> tf h (snd (FLASH_ErasePage env a g))" "tf h g \<Longrightarrow> tf h (snd (FLASH_ProgramWord env a v g))"
  "tf h g \<Longrightarrow> tf h (FLASH_Unlock g)" "tf h g \<Longrightarrow> tf h (FLASH_Lock env g)" "tf h g \<Longrightarrow> tf h (clear_flags g)"
  by (auto simp: FLASH_ErasePage_def FLASH_ProgramWord_def FLASH_Unlock_def FLASH_Lock_def clear_flags_def
      FLASH_ClearFlag_def case_prod_beta Let_def intro!: touch)

lemma tf_flag [touch]: "tf h g \<Longrightarrow> tf h (snd (FLASH_GetFlagStatus env flag g))"
  by (auto simp: FLASH_GetFlagStatus_def case_prod_beta Let_def simp del: rd_simps intro!: touch)

lemma tf_flag_wait [touch]: "tf h g \<Longrightarrow> tf h (snd (flag_wait env flag again t g))"
proof (induction env flag again t g rule: flag_wait.induct)
  case (1 env flag again t g)
  obtain s g1 where s: "FLASH_GetFlagStatus env flag g = (s, g1)" by fastforce
  then have "tf h g1" using tf_flag [OF 1(2), of env flag] by simp
  with 1(1) [OF s [symmetric]] s show ?case by (subst flag_wait.simps) auto
qed

lemma tf_program_words [touch]: "tf h g \<Longrightarrow> tf h (snd (program_words env a ws g))"
proof (induction ws arbitrary: a g)
  case (Cons w ws)
  then show ?case by (auto simp: case_prod_beta Let_def intro!: touch Cons.IH)
qed (simp add: touch)

lemma tf_fmc [touch]:
  "tf h g \<Longrightarrow> tf h (snd (fmcEraseBlk1Pages env a g))" "tf h g \<Longrightarrow> tf h (snd (fmcProgramBlk1Pages env a d n g))"
  by (auto simp: fmcEraseBlk1Pages_def fmcProgramBlk1Pages_def case_prod_beta Let_def simp del: rd_simps
      intro!: touch)

lemma tf_writeCntInfo [touch]: "tf h g \<Longrightarrow> tf h (snd (writeCntInfo env c g))"
  by (auto simp: writeCntInfo_def case_prod_beta Let_def intro!: touch)

lemma tf_readCntInfo [touch]: "tf h g \<Longrightarrow> tf h (snd (readCntInfo env g))"
  by (auto simp: readCntInfo_def case_prod_beta Let_def simp del: rd_simps intro!: touch)

lemma tf_writeIpInfo [touch]: "tf h g \<Longrightarrow> tf h (snd (snd (writeIpInfo env i g)))"
  by (auto simp: writeIpInfo_def case_prod_beta Let_def intro!: touch)

section \<open>Frames of a transfer\<close>

text \<open>
  The client's frames: the data part starts with the selector and the packet counter; a write frame
  with no bytes after them ends the upload.
\<close>

definition write_frame :: "u32 \<Rightarrow> u8 list \<Rightarrow> memory \<times> u16" where
  "write_frame sel d = (mem_of (client_frame ICD_CMD_WRITE (le32 sel @ le32 0 @ d)), of_nat (28 + length d))"

definition read_frame :: "u32 \<Rightarrow> u32 \<Rightarrow> memory \<times> u16" where
  "read_frame sel ack = (mem_of (client_frame ICD_CMD_READ (le32 sel @ le32 ack)), 28)"

text \<open>Frames that arrive one after the other.\<close>

primrec xvc_run :: "env \<Rightarrow> pcb \<Rightarrow> (memory \<times> u16) list \<Rightarrow> app \<Rightarrow> hist \<Rightarrow> (fault + app \<times> hist) option" where
  "xvc_run env t [] a h = Some (Inr (a, h))"
| "xvc_run env t (f # fs) a h = Option.bind (XVC_Interface env t (fst f) (snd f) a h)
     (\<lambda>r. case r of Inl e \<Rightarrow> Some (Inl e) | Inr (a, h) \<Rightarrow> xvc_run env t fs a h)"

lemma xvc_run_append:
  "xvc_run env t fs a h = Some (Inr (a', h')) \<Longrightarrow> xvc_run env t (fs @ gs) a h = xvc_run env t gs a' h'"
proof (induction fs arbitrary: a h)
  case (Cons f fs)
  then show ?case
    by (cases "XVC_Interface env t (fst f) (snd f) a h") (auto split: sum.splits)
qed simp

lemma client_words:
  fixes rest :: "u8 list" and cmd x y :: u32
  assumes "length rest < 59000"
  defines "recv \<equiv> mem_of (client_frame cmd (le32 x @ le32 y @ rest))"
  shows "accepted recv (of_nat (28 + length rest))" "rd32 recv 4 = cmd"
    "rd32 recv 8 = of_nat (8 + length rest)" "rd32 recv 12 = x" "rd32 recv 16 = y"
    "data_of (\<lambda>i. recv (20 + int i)) (length rest) = rest"
proof -
  let ?dat = "le32 x @ le32 y @ rest"
  let ?bs = "client_frame cmd ?dat"
  have l: "length ?dat = 8 + length rest" by simp
  have d: "length ?dat < 60000" using assms(1) by simp
  note acc = client_frame_accepted [OF d, of cmd]
  have tot: "20 + length ?dat = 28 + length rest" by simp
  show "accepted recv (of_nat (28 + length rest))" unfolding recv_def using acc(1) unfolding tot .
  show "rd32 recv 4 = cmd" unfolding recv_def using acc(2) .
  have w: "rd32 recv (int k) = word_at ?bs k" if "k + 4 \<le> 28" for k
    unfolding recv_def using that by (intro rd32_mem_of) simp
  obtain c where bs: "?bs = le32 TCPHEADFRAME @ le32 cmd @ le32 (of_nat (8 + length rest)) @ le32 x @ le32 y @ rest @
      le32 TCPTAILFRAME @ le32 c"
    unfolding client_frame_def seal_def l by (simp only: append_assoc)
  show "rd32 recv 8 = of_nat (8 + length rest)" "rd32 recv 12 = x" "rd32 recv 16 = y"
    using w [of 8] w [of 12] w [of 16] unfolding bs by (simp_all add: word_at_append del: of_nat_add)
  show "data_of (\<lambda>i. recv (20 + int i)) (length rest) = rest"
  proof (rule nth_equalityI)
    fix i assume "i < length (data_of (\<lambda>i. recv (20 + int i)) (length rest))"
    then have i: "i < length rest" by simp
    have n: "nat (20 + int i) = 20 + i" by simp
    have "recv (20 + int i) = ?bs ! (20 + i)" using i by (simp add: recv_def mem_of_def n)
    also have "\<dots> = rest ! i" unfolding bs using i by (simp add: nth_append)
    finally show "data_of (\<lambda>i. recv (20 + int i)) (length rest) ! i = rest ! i" using i by (simp add: data_of_def)
  qed simp
qed

section \<open>Uploading\<close>

text \<open>The two flashes as the service finds them: selected bus free, serial flash ready, controller idle.\<close>

definition flashes_idle :: "slave \<Rightarrow> (u32 \<Rightarrow> u8) \<Rightarrow> hist \<Rightarrow> bool" where
  "flashes_idle answer m h \<longleftrightarrow> spi_ready h \<and> is_ready answer (frames h) \<and> flash_idle (fdev_of m h)"

lemma tg_select [touch]: "tg h g \<Longrightarrow> tg h (XVC_CS_L (XVC_W (flashChoice sel g)))"
  by (intro touch)

lemma flashes_idle_other:
  assumes "flashes_idle answer m h" "tg h g" "line_of g = line_of h"
  shows "flashes_idle answer m g" "frames g = frames h" "fdev_of m g = fdev_of m h"
  using assms fdev_gpio [OF assms(2)] frames_line [OF assms(3)] by (simp_all add: flashes_idle_def)

definition uploaded :: "pcb \<Rightarrow> u32 \<Rightarrow> app \<Rightarrow> app" where
  "uploaded t n a = tcp_write t (common_rsp ICD_CMD_WRITE 1)
     ((with_flags t a)\<lparr>setAddrFlag := True, flashWriteAddr := flashWriteAddr a + n\<rparr>)"

lemma uploaded_open:
  "setAddrFlag a \<Longrightarrow> uploaded t n a = tcp_write t (common_rsp ICD_CMD_WRITE 1)
     ((with_flags t a)\<lparr>flashWriteAddr := flashWriteAddr a + n\<rparr>)"
proof -
  assume s: "setAddrFlag a"
  have "b\<lparr>setAddrFlag := True\<rparr> = b" if "setAddrFlag b" for b :: app using that by (cases b) simp
  from this [of "with_flags t a"] s have "(with_flags t a)\<lparr>setAddrFlag := True\<rparr> = with_flags t a" by simp
  then show ?thesis by (simp only: uploaded_def)
qed

lemma write_chunk:
  assumes nor: "nor_device answer mem" "settles answer" and idle: "flashes_idle answer m h"
    and d: "0 < length d" "length d < 50000" and room: "unat (flashWriteAddr a) + length d \<le> 2 ^ 24"
  shows "\<exists>h'. XVC_Interface (slave_env answer base) t (fst (write_frame sel d)) (snd (write_frame sel d)) a h
      = Some (Inr (uploaded t (of_nat (length d)) a, h')) \<and>
    flashes_idle answer m h' \<and> fdev_of m h' = fdev_of m h \<and>
    mem (frames h') = programmed (mem (frames h)) (unat (flashWriteAddr a)) d"
proof -
  let ?recv = "fst (write_frame sel d)"
  have len: "length d < 59000" using d(2) by simp
  have c: "accepted ?recv (snd (write_frame sel d))" "rd32 ?recv 4 = ICD_CMD_WRITE"
    "rd32 ?recv 8 = of_nat (8 + length d)" "data_of (\<lambda>i. ?recv (20 + int i)) (length d) = d"
    unfolding write_frame_def fst_conv snd_conv using client_words [OF len] by blast+
  have size: "rd32 ?recv 8 - 8 = of_nat (length d)" using c(3) by simp
  have u: "unat (of_nat (length d) :: u32) = length d" using d(2) by (intro unat_of_nat_u32) simp
  then have nz: "(of_nat (length d) :: u32) \<noteq> 0" using d(1) by (auto simp: word_unat_eq_iff)
  have nz8: "rd32 ?recv 8 \<noteq> 8" using size nz by auto
  have u16: "unat (ucast (of_nat (length d) :: u32) :: u16) = length d"
    using d(2) u by (simp add: unsigned_ucast_eq take_bit_nat_eq_self)
  define g where "g = (if setAddrFlag a then h else XVC_CS_H (XVC_CS_L (XVC_W (flashChoice (rd32 ?recv 12) h))))"
  have "tg h g" "line_of g = line_of h" by (auto simp: g_def line_simps intro!: touch)
  note g = flashes_idle_other [OF idle this]
  have sp: "spi_ready g" and rd: "is_ready answer (frames g)" using g(1) by (simp_all add: flashes_idle_def)
  have "0 < unat (ucast (of_nat (length d) :: u32) :: u16)"
    "unat (flashWriteAddr a) + unat (ucast (of_nat (length d) :: u32) :: u16) \<le> 2 ^ 32"
    using u16 d(1) room by simp_all
  from WriteNoCheck_run [OF nor(2) sp this, of base "\<lambda>i. ?recv (20 + int i)"]
  obtain h' where w: "Flash_WriteNoCheck (slave_env answer base) (\<lambda>i. ?recv (20 + int i)) (flashWriteAddr a)
        (ucast (of_nat (length d) :: u32)) g = Some (1, h')" "spi_ready h'"
    "page_run answer (frames g) (pages_of (flashWriteAddr a) d) (frames h')"
    unfolding u16 c(4) by blast
  have m: "mem (frames h') = programmed (mem (frames h)) (unat (flashWriteAddr a)) d"
    using pages_of_memory [OF nor(1) w(3) rd room] g(2) by simp
  have r: "is_ready answer (frames h')"
    using page_run_memory [OF nor(1) w(3) rd pages_of_in_page [OF room]] by simp
  have f: "fdev_of m h' = fdev_of m h" using fdev_gpio [OF tg_WriteNoCheck [OF w(1)]] g(3) by simp
  have "cmd_write (slave_env answer base) t ?recv (with_flags t a) h = Some (uploaded t (of_nat (length d)) a, h')"
    using w(1) size nz8
    by (cases "setAddrFlag a") (simp_all add: uploaded_open, simp_all add: cmd_write_def g_def uploaded_def Let_def)
  then have "XVC_Interface (slave_env answer base) t ?recv (snd (write_frame sel d)) a h
      = Some (Inr (uploaded t (of_nat (length d)) a, h'))"
    using XVC_dispatch(2) [OF c(1,2)] by simp
  moreover have "flashes_idle answer m h'"
    using w(2) r f idle by (simp add: flashes_idle_def)
  ultimately show ?thesis using f m by blast
qed

lemma uploaded_fields [simp]:
  "wf_app (uploaded t n a) = wf_app a" "flashReadAddr (uploaded t n a) = flashReadAddr a"
  "flashWriteAddr (uploaded t n a) = flashWriteAddr a + n"
  "sent (uploaded t n a) = sent a @ [(t, common_rsp ICD_CMD_WRITE 1)]"
  by (simp_all add: uploaded_def tcp_write_def wf_app_def with_flags_def)

lemma upload_chunks:
  assumes nor: "nor_device answer mem" "settles answer"
  shows "flashes_idle answer m h \<Longrightarrow> \<forall>d \<in> set ds. d \<noteq> [] \<and> length d < 50000 \<Longrightarrow>
    unat (flashWriteAddr a) + length (concat ds) \<le> 2 ^ 24 \<Longrightarrow>
    \<exists>a' h'. xvc_run (slave_env answer base) t (map (write_frame sel) ds) a h = Some (Inr (a', h')) \<and>
      flashes_idle answer m h' \<and>
      mem (frames h') = programmed (mem (frames h)) (unat (flashWriteAddr a)) (concat ds) \<and>
      unat (flashWriteAddr a') = unat (flashWriteAddr a) + length (concat ds) \<and> wf_app a' = wf_app a \<and>
      flashReadAddr a' = flashReadAddr a \<and>
      sent a' = sent a @ replicate (length ds) (t, common_rsp ICD_CMD_WRITE 1)"
proof (induction ds arbitrary: a h)
  case Nil
  then show ?case by (auto simp: programmed_def fun_eq_iff)
next
  case (Cons d ds)
  have d: "0 < length d" "length d < 50000" "unat (flashWriteAddr a) + length d \<le> 2 ^ 24"
    using Cons.prems(2,3) by auto
  from write_chunk [OF nor Cons.prems(1) d, of base t sel] obtain h1 where
    x: "XVC_Interface (slave_env answer base) t (fst (write_frame sel d)) (snd (write_frame sel d)) a h
      = Some (Inr (uploaded t (of_nat (length d)) a, h1))" "flashes_idle answer m h1"
    "mem (frames h1) = programmed (mem (frames h)) (unat (flashWriteAddr a)) d" by blast
  let ?a1 = "uploaded t (of_nat (length d)) a"
  have u: "unat (flashWriteAddr ?a1) = unat (flashWriteAddr a) + length d"
    using d(2,3) by (simp add: unat_add_u32 unat_of_nat_u32)
  from Cons.IH [OF x(2), of ?a1] Cons.prems(2,3) u obtain a' h' where
    r: "xvc_run (slave_env answer base) t (map (write_frame sel) ds) ?a1 h1 = Some (Inr (a', h'))"
    "flashes_idle answer m h'"
    "mem (frames h') = programmed (mem (frames h1)) (unat (flashWriteAddr a) + length d) (concat ds)"
    "unat (flashWriteAddr a') = unat (flashWriteAddr a) + length d + length (concat ds)"
    "wf_app a' = wf_app a" "flashReadAddr a' = flashReadAddr a"
    "sent a' = sent ?a1 @ replicate (length ds) (t, common_rsp ICD_CMD_WRITE 1)"
    by auto
  have "mem (frames h') = programmed (mem (frames h)) (unat (flashWriteAddr a)) (d @ concat ds)"
    unfolding r(3) x(3) by (rule programmed_append)
  then show ?case using x(1) r by (intro exI [of _ a'] exI [of _ h']) simp
qed

definition finished :: "pcb \<Rightarrow> app \<Rightarrow> app" where
  "finished t a = tcp_write t (common_rsp ICD_CMD_WRITE 1)
     ((with_flags t a)\<lparr>flashWriteAddr := 0, setAddrFlag := False\<rparr>)"

lemma finished_fields [simp]:
  "wf_app (finished t a) = wf_app a" "flashReadAddr (finished t a) = flashReadAddr a"
  "flashWriteAddr (finished t a) = 0" "\<not> setAddrFlag (finished t a)"
  "sent (finished t a) = sent a @ [(t, common_rsp ICD_CMD_WRITE 1)]"
  by (simp_all add: finished_def tcp_write_def wf_app_def with_flags_def)

lemma writeCntInfo_stores:
  fixes c :: u32
  assumes "fpec_env m env" "flash_idle (fdev_of m h)"
  defines "h' \<equiv> snd (writeCntInfo env c h)"
  shows "flash_idle (fdev_of m h')" "tg h' g \<Longrightarrow> env g (Word READ_CNT_FLASH_ADDR) = c"
proof -
  let ?a = "READ_CNT_FLASH_ADDR"
  have a: "unat ?a mod 2048 = 0" by simp
  have "4 dvd length (le32 c)" "length (le32 c) \<le> 2048" by simp_all
  note s = fmc.save [of m env h "le32 c" ?a, OF conjI [OF assms(1,2)] this a, unfolded length_le32]
  let ?h2 = "snd (fmcProgramBlk1Pages env ?a (le32 c) 4 (snd (fmcEraseBlk1Pages env ?a h)))"
  have h': "h' = ?h2" using s(1,2) by (simp add: h'_def writeCntInfo_def case_prod_beta)
  show "flash_idle (fdev_of m h')" using s(3) unfolding h' by simp
  have k: "cells (fdev_of m ?h2) (?a + of_nat k) = le32 c ! k" if "k < 4" for k
    using s(4) that by simp
  have "env g (Word ?a) = word32_of (le32 c ! 0) (le32 c ! 1) (le32 c ! 2) (le32 c ! 3)"
    if "fdev_of m g = fdev_of m ?h2" for g
    using fpecD(4) [OF assms(1), of g ?a] k [of 0] k [of 1] k [of 2] k [of 3] that by simp
  then show "tg h' g \<Longrightarrow> env g (Word ?a) = c" using fdev_gpio [of h' g m] h' by simp
qed

lemma write_end:
  assumes "fpec_env m (slave_env answer base)" "flashes_idle answer m h"
  shows "\<exists>h'. XVC_Interface (slave_env answer base) t (fst (write_frame sel [])) (snd (write_frame sel [])) a h
      = Some (Inr (finished t a, h')) \<and> flashes_idle answer m h' \<and> frames h' = frames h \<and>
    (\<forall>g. tg h' g \<longrightarrow> slave_env answer base g (Word READ_CNT_FLASH_ADDR) = flashWriteAddr a)"
proof -
  let ?recv = "fst (write_frame sel [])"
  have c: "accepted ?recv (snd (write_frame sel []))" "rd32 ?recv 4 = ICD_CMD_WRITE" "rd32 ?recv 8 = 8"
    unfolding write_frame_def fst_conv snd_conv using client_words [of "[]" ICD_CMD_WRITE sel 0] by simp_all
  define g where "g = (if setAddrFlag a then h else XVC_CS_H (XVC_CS_L (XVC_W (flashChoice (rd32 ?recv 12) h))))"
  have "tg h g" "line_of g = line_of h" by (auto simp: g_def line_simps intro!: touch)
  note g = flashes_idle_other [OF assms(2) this]
  let ?h = "snd (writeCntInfo (slave_env answer base) (flashWriteAddr a) g)"
  have idle: "flash_idle (fdev_of m g)" using g(1) by (simp add: flashes_idle_def)
  note s = writeCntInfo_stores [OF assms(1) idle, of "flashWriteAddr a"]
  have "line_of ?h = line_of g" by (rule line_fpec) (intro touch)
  note l = frames_line [OF this]
  have "cmd_write (slave_env answer base) t ?recv (with_flags t a) h = Some (finished t a, ?h)"
    using c(3) by (cases "setAddrFlag a")
      (simp_all add: cmd_write_def g_def finished_def Let_def case_prod_beta)
  then have "XVC_Interface (slave_env answer base) t ?recv (snd (write_frame sel [])) a h
      = Some (Inr (finished t a, ?h))"
    using XVC_dispatch(2) [OF c(1,2)] by simp
  moreover have "flashes_idle answer m ?h" using l g(1) s(1) by (simp add: flashes_idle_def)
  ultimately show ?thesis using l g(2) s(2) by (intro exI [of _ ?h] conjI allI impI) simp_all
qed

section \<open>Downloading\<close>

text \<open>
  A download of \<open>n\<close> bytes in progress: \<open>r\<close> bytes are left, the next is at \<open>p\<close>. Before the first frame the
  count is still on the chip.
\<close>

definition downloading :: "env \<Rightarrow> nat \<Rightarrow> nat \<Rightarrow> nat \<Rightarrow> app \<Rightarrow> hist \<Rightarrow> bool" where
  "downloading env n r p a h \<longleftrightarrow> wf_app a \<and> flashReadAddr a = of_nat p \<and>
     (if setAddrFlag a then readTotal a = of_nat r \<and> ackCnt a = of_nat (n div 896 + 2)
      else p = 0 \<and> r = n \<and> (\<forall>g. tg h g \<longrightarrow> env g (Word READ_CNT_FLASH_ADDR) = of_nat n))"

lemma start_read_count:
  fixes recv :: memory
  assumes d: "downloading env n r p a h" and n: "n \<le> 2 ^ 24" "n mod 896 \<noteq> 0"
  defines "a1 \<equiv> fst (start_read env recv a h)" and "h1 \<equiv> snd (start_read env recv a h)"
  shows "wf_app a1" "setAddrFlag a1" "flashReadAddr a1 = of_nat p" "readTotal a1 = of_nat r"
    "ackCnt a1 = of_nat (n div 896 + 2)" "sent a1 = sent a" "line_of h1 = line_of h"
proof -
  show "wf_app a1" "setAddrFlag a1" "flashReadAddr a1 = of_nat p" "sent a1 = sent a"
    using d by (simp_all add: a1_def downloading_def)
  let ?g = "XVC_CS_L (XVC_W (flashChoice (rd32 recv 12) h))"
  have "line_of (snd (readCntInfo env ?g)) = line_of ?g" by (rule line_fpec) (intro touch)
  then show "line_of h1 = line_of h"
    by (simp add: h1_def start_read_def Let_def case_prod_beta line_simps)
  have u: "unat (of_nat n :: u32) = n" using n(1) by (intro unat_of_nat_u32) simp
  have q: "(of_nat n :: u32) mod 896 \<noteq> 0" "(of_nat n :: u32) div 896 = of_nat (n div 896)"
    using n(2) u unat_of_nat_u32 [of "n div 896"] n(1)
    by (simp_all add: word_unat_eq_iff unat_mod unat_div div_le_dividend [THEN order.trans])
  have c: "env ?g (Word READ_CNT_FLASH_ADDR) = of_nat n" if "\<not> setAddrFlag a"
    using d that by (auto simp: downloading_def intro!: touch)
  show "readTotal a1 = of_nat r" "ackCnt a1 = of_nat (n div 896 + 2)"
    using d q c by (cases "setAddrFlag a"; simp add: a1_def start_read_def downloading_def readCntInfo_def rd_def Let_def)+
qed

lemma read_block_step:
  assumes nor: "nor_device answer mem" and sp: "spi_ready h" and len: "length (sendbuf a) = 1024"
    and r: "readTotal a = of_nat r" "r \<noteq> 896" "p + r \<le> 2 ^ 24" and p: "flashReadAddr a = of_nat p"
    and ack: "rd32 recv 16 \<le> ackCnt a"
  shows "\<exists>buf h'. read_block (slave_env answer base) recv a h
      = ((if 896 < r then a\<lparr>sendbuf := buf, flashReadAddr := of_nat (p + 896), readTotal := of_nat (r - 896)\<rparr>
          else if r = 0 then a\<lparr>sendbuf := buf, setAddrFlag := False, flashReadAddr := 0, ackCnt := 0, readTotal := 0\<rparr>
          else a\<lparr>sendbuf := buf, readTotal := 0\<rparr>), h') \<and>
    spi_ready h' \<and> mem (frames h') = mem (frames h) \<and>
    buf_dat buf = map (\<lambda>i. mem (frames h) (p + i)) [0..<min 896 r]"
proof -
  have ur: "unat (of_nat r :: u32) = r" and up: "unat (of_nat p :: u32) = p"
    using r(3) by (simp_all add: unat_of_nat_u32)
  have m: "mem (fs @ [(0x03 # addr24 x) @ js]) = mem fs" for fs x js
    using nor unfolding nor_device_def by blast
  note fr = ReadSomeByte_frame [OF sp, of answer base "of_nat p"]
  note rm = ReadSomeByte_memory [OF nor sp, of "of_nat p", unfolded up]
  consider "896 < r" | "r = 0" | "0 < r" "r < 896" using r(2) by linarith
  then show ?thesis
  proof cases
    case 1
    have gt: "readTotal a > 896" using 1 ur by (simp add: word_less_nat_alt r(1))
    have minus: "readTotal a - 896 = of_nat (r - 896)" using 1 r(1) by (simp add: of_nat_diff)
    have u: "unat (896 :: u16) = 896" by simp
    have "p + unat (896 :: u16) \<le> 2 ^ 24" using 1 r(3) u by simp
    from read_block_full [OF len gt, of "slave_env answer base" recv h] rm [OF this] fr [where n = 896] m 1
    show ?thesis unfolding p minus by (auto simp: min_def)
  next
    case 2
    have lt: "readTotal a < 896" using 2 by (simp add: r(1))
    have "p + unat (0 :: u16) \<le> 2 ^ 24" using r(3) by simp
    from read_block_last [OF len lt ack, of "slave_env answer base" h] rm [OF this] fr [where n = 0] m [of _ _ "[]"] 2
    show ?thesis unfolding p r(1) by auto
  next
    case 3
    have lt: "readTotal a < 896" using 3 ur by (simp add: word_less_nat_alt r(1))
    have nz: "readTotal a \<noteq> 0" using 3 ur r(1) by (auto simp: word_unat_eq_iff)
    have u: "unat (ucast (of_nat r :: u32) :: u16) = r" using 3 ur unat_less_896 [of "of_nat r"] by simp
    have "p + unat (ucast (of_nat r :: u32) :: u16) \<le> 2 ^ 24" using r(3) u by simp
    from read_block_last [OF len lt ack, of "slave_env answer base" h] rm [OF this]
      fr [where n = "ucast (of_nat r :: u32)"] m 3 nz
    show ?thesis unfolding p r(1) u by (auto simp: min_def)
  qed
qed

lemma read_step:
  assumes nor: "nor_device answer mem" and sp: "spi_ready h"
    and d: "downloading (slave_env answer base) n r p a h" and n: "n \<le> 2 ^ 24" "n mod 896 \<noteq> 0"
    and r: "r \<noteq> 896" "p + r \<le> 2 ^ 24"
    and frame: "accepted recv k" "rd32 recv 4 = ICD_CMD_READ" "rd32 recv 16 \<le> of_nat (n div 896 + 2)"
  shows "\<exists>a' h'. XVC_Interface (slave_env answer base) t recv k a h = Some (Inr (a', h')) \<and>
    spi_ready h' \<and> mem (frames h') = mem (frames h) \<and>
    sent a' = sent a @ [(t, read_rsp (map (\<lambda>i. mem (frames h) (p + i)) [0..<min 896 r]))] \<and>
    (896 < r \<longrightarrow> downloading (slave_env answer base) n (r - 896) (p + 896) a' h') \<and>
    (0 < r \<and> r < 896 \<longrightarrow> downloading (slave_env answer base) n 0 p a' h') \<and>
    (r = 0 \<longrightarrow> \<not> setAddrFlag a' \<and> flashReadAddr a' = 0)"
proof -
  let ?E = "slave_env answer base" and ?a = "with_flags t a"
  have dl: "downloading ?E n r p ?a h" using d by (simp add: downloading_def)
  obtain a1 h1 where s: "start_read ?E recv ?a h = (a1, h1)" by fastforce
  note st = start_read_count [OF dl n, of recv, unfolded s fst_conv snd_conv]
  have wf: "wf_app ?a" using dl by (simp add: downloading_def)
  note hd = read_header_wf [OF st(1)]
  note l = frames_line [OF st(7)]
  have A: "readTotal (read_header a1) = of_nat r" "flashReadAddr (read_header a1) = of_nat p"
    "rd32 recv 16 \<le> ackCnt (read_header a1)" "spi_ready h1"
    using st(3-5) frame(3) sp l by (simp_all add: read_header_def)
  from read_block_step [OF nor A(4) hd(1) A(1) r A(2,3), of base] obtain buf h' where
    b: "read_fetch ?E recv ?a h = ((if 896 < r
        then (read_header a1)\<lparr>sendbuf := buf, flashReadAddr := of_nat (p + 896), readTotal := of_nat (r - 896)\<rparr>
          else if r = 0 then (read_header a1)\<lparr>sendbuf := buf, setAddrFlag := False, flashReadAddr := 0, ackCnt := 0, readTotal := 0\<rparr>
          else (read_header a1)\<lparr>sendbuf := buf, readTotal := 0\<rparr>), h')" "spi_ready h'"
    "mem (frames h') = mem (frames h)" "buf_dat buf = map (\<lambda>i. mem (frames h) (p + i)) [0..<min 896 r]"
    using l by (auto simp: read_fetch_def s)
  have sb: "sendbuf (fst (read_fetch ?E recv ?a h)) = buf" unfolding b(1) by simp
  have ss: "sent (fst (read_fetch ?E recv ?a h)) = sent a" using read_fetch_wf(2) [OF wf] by simp
  from cmd_read_eq [OF wf, of ?E t recv h] obtain buf' where
    c: "cmd_read ?E t recv ?a h = (tcp_write t (read_rsp (buf_dat buf)) (fst (read_fetch ?E recv ?a h)\<lparr>sendbuf := buf'\<rparr>), h')"
    "wf_app (fst (read_fetch ?E recv ?a h)\<lparr>sendbuf := buf'\<rparr>)" unfolding sb using b(1) by auto
  define a' where "a' = tcp_write t (read_rsp (buf_dat buf)) (fst (read_fetch ?E recv ?a h)\<lparr>sendbuf := buf'\<rparr>)"
  have f: "setAddrFlag a' = (r \<noteq> 0)"
    "flashReadAddr a' = (if 896 < r then of_nat (p + 896) else if r = 0 then 0 else of_nat p)"
    "r \<noteq> 0 \<Longrightarrow> readTotal a' = (if 896 < r then of_nat (r - 896) else 0)"
    "r \<noteq> 0 \<Longrightarrow> ackCnt a' = of_nat (n div 896 + 2)" "wf_app a'"
    using st(2-5) c(2) unfolding a'_def b(1) by (simp_all add: tcp_write_def read_header_def wf_app_def del: of_nat_add)
  have sent': "sent a' = sent a @ [(t, read_rsp (map (\<lambda>i. mem (frames h) (p + i)) [0..<min 896 r]))]"
    using ss by (simp add: a'_def tcp_write_def b(4))
  have x: "XVC_Interface ?E t recv k a h = Some (Inr (a', h'))"
    using XVC_dispatch(3) [OF frame(1,2)] c(1) by (simp add: a'_def)
  show ?thesis
    using x b(2,3) sent' f by (intro exI [of _ a'] exI [of _ h']) (simp add: downloading_def del: of_nat_add of_nat_diff)
qed

lemma read_frame_ok:
  "accepted (fst (read_frame sel x)) (snd (read_frame sel x))" "rd32 (fst (read_frame sel x)) 4 = ICD_CMD_READ"
  "rd32 (fst (read_frame sel x)) 16 = x"
  unfolding read_frame_def fst_conv snd_conv using client_words [of "[]" ICD_CMD_READ sel x] by simp_all

lemma map_upt_split: "k \<le> n \<Longrightarrow> map f [0..<n] = map f [0..<k] @ map (\<lambda>i. f (k + i)) [0..<n - k]"
  by (auto simp: nth_append intro!: nth_equalityI)

lemma download_blocks:
  assumes nor: "nor_device answer mem" and n: "n \<le> 2 ^ 24" "n mod 896 \<noteq> 0"
  shows "downloading (slave_env answer base) n r p a h \<Longrightarrow> spi_ready h \<Longrightarrow> p + r \<le> 2 ^ 24 \<Longrightarrow>
    r mod 896 \<noteq> 0 \<Longrightarrow> length acks = r div 896 + 2 \<Longrightarrow> \<forall>x \<in> set acks. x \<le> of_nat (n div 896 + 2) \<Longrightarrow>
    \<exists>a' h' rs. xvc_run (slave_env answer base) t (map (read_frame sel) acks) a h = Some (Inr (a', h')) \<and>
      \<not> setAddrFlag a' \<and> flashReadAddr a' = 0 \<and> mem (frames h') = mem (frames h) \<and>
      sent a' = sent a @ map (\<lambda>d. (t, read_rsp d)) rs \<and> concat rs = map (\<lambda>i. mem (frames h) (p + i)) [0..<r] \<and>
      (\<forall>d \<in> set rs. length d \<le> 896) \<and> last rs = []"
proof (induction r arbitrary: p a h acks rule: less_induct)
  case (less r)
  note step = read_step [OF nor _ _ n _ _ read_frame_ok(1,2) [of sel], unfolded read_frame_ok(3), where t = t]
  obtain x xs where acks: "acks = x # xs" using less.prems(5) by (cases acks) auto
  have x: "x \<le> of_nat (n div 896 + 2)" using less.prems(6) acks by simp
  have "r \<noteq> 896" using less.prems(4) by auto
  from step [OF less.prems(2,1) this less.prems(3) x] obtain a1 h1 where
    s: "XVC_Interface (slave_env answer base) t (fst (read_frame sel x)) (snd (read_frame sel x)) a h = Some (Inr (a1, h1))"
      "spi_ready h1" "mem (frames h1) = mem (frames h)"
      "sent a1 = sent a @ [(t, read_rsp (map (\<lambda>i. mem (frames h) (p + i)) [0..<min 896 r]))]"
      "896 < r \<Longrightarrow> downloading (slave_env answer base) n (r - 896) (p + 896) a1 h1"
      "0 < r \<and> r < 896 \<Longrightarrow> downloading (slave_env answer base) n 0 p a1 h1" by blast
  show ?case
  proof (cases "896 < r")
    case True
    have len: "length xs = (r - 896) div 896 + 2" using less.prems(5) acks True by (simp add: le_div_geq)
    have "(r - 896) mod 896 \<noteq> 0" using less.prems(4) True by (simp add: le_mod_geq)
    from less.IH [OF _ s(5) [OF True] s(2) _ this len] True less.prems(3,6) acks obtain a' h' rs where
      i: "xvc_run (slave_env answer base) t (map (read_frame sel) xs) a1 h1 = Some (Inr (a', h'))"
        "\<not> setAddrFlag a'" "flashReadAddr a' = 0" "mem (frames h') = mem (frames h1)"
        "sent a' = sent a1 @ map (\<lambda>d. (t, read_rsp d)) rs"
        "concat rs = map (\<lambda>i. mem (frames h1) (p + 896 + i)) [0..<r - 896]"
        "\<forall>d \<in> set rs. length d \<le> 896" "last rs = []" by auto
    let ?d = "map (\<lambda>i. mem (frames h) (p + i)) [0..<896]"
    have "rs \<noteq> []" using i(6) True by auto
    moreover have "?d @ concat rs = map (\<lambda>i. mem (frames h) (p + i)) [0..<r]"
      using map_upt_split [of 896 r "\<lambda>i. mem (frames h) (p + i)"] True i(6) s(3) by (simp add: add.assoc)
    ultimately show ?thesis using s(1,3,4) i True acks
      by (intro exI [of _ a'] exI [of _ h'] exI [of _ "?d # rs"]) (simp add: min_def)
  next
    case False
    then have r: "0 < r" "r < 896" using less.prems(4) \<open>r \<noteq> 896\<close> by (auto intro: gr0I)
    then obtain y where xs: "xs = [y]" using less.prems(5) acks by (auto simp: length_Suc_conv numeral_2_eq_2)
    have y: "y \<le> of_nat (n div 896 + 2)" using less.prems(6) acks xs by simp
    have "p + 0 \<le> 2 ^ 24" using less.prems(3) by simp
    from step [OF s(2) s(6) [OF conjI [OF r]] _ this y] obtain a2 h2 where
      e: "XVC_Interface (slave_env answer base) t (fst (read_frame sel y)) (snd (read_frame sel y)) a1 h1 = Some (Inr (a2, h2))"
      "mem (frames h2) = mem (frames h1)" "sent a2 = sent a1 @ [(t, read_rsp [])]"
      "\<not> setAddrFlag a2" "flashReadAddr a2 = 0" by auto
    let ?d = "map (\<lambda>i. mem (frames h) (p + i)) [0..<r]"
    show ?thesis using s(1,3,4) e r acks xs
      by (intro exI [of _ a2] exI [of _ h2] exI [of _ "[?d, []]"]) (simp add: min_def)
  qed
qed

section \<open>The file comes back\<close>

text \<open>
  C1: a file sent in write frames and closed with an empty one is stored; a later sequence of read
  frames returns exactly its bytes, in blocks of at most 896, and an empty block at the end; then the
  service is ready for the next transfer. Each frame is answered by one frame. The serial flash is any
  NOR device that gets ready, blank over the file; the length is kept in the on-chip flash. The file has at
  most \<open>2 ^ 24\<close> bytes, a length that is not a multiple of 896 (\<open>XVC_read_stalls\<close>), and comes in non-empty
  pieces of less than 50000 bytes; the service starts at write and read position 0; there is one read frame
  for each whole block of 896 bytes and two more, and none acknowledges a block beyond these.
\<close>

theorem XVC_file_roundtrip:
  assumes "nor_device answer mem" "settles answer" "fpec_env m (slave_env answer base)"
    and "flashes_idle answer m h" "wf_app a" "flashWriteAddr a = 0" "flashReadAddr a = 0"
    and ds: "\<forall>d \<in> set ds. d \<noteq> [] \<and> length d < 50000"
    and n: "length (concat ds) \<le> 2 ^ 24" "length (concat ds) mod 896 \<noteq> 0"
    and blank: "\<forall>x < length (concat ds). mem (frames h) x = 0xFF"
    and acks: "length acks = length (concat ds) div 896 + 2"
      "\<forall>x \<in> set acks. x \<le> of_nat (length (concat ds) div 896 + 2)"
  shows "\<exists>a' h' rs. xvc_run (slave_env answer base) t
      (map (write_frame sel) (ds @ [[]]) @ map (read_frame sel') acks) a h = Some (Inr (a', h')) \<and>
    sent a' = sent a @ replicate (length ds + 1) (t, common_rsp ICD_CMD_WRITE 1) @ map (\<lambda>d. (t, read_rsp d)) rs \<and>
    concat rs = concat ds \<and> (\<forall>d \<in> set rs. length d \<le> 896) \<and> last rs = [] \<and>
    \<not> setAddrFlag a' \<and> flashReadAddr a' = 0"
proof -
  let ?E = "slave_env answer base" and ?n = "length (concat ds)"
  have "unat (flashWriteAddr a) + ?n \<le> 2 ^ 24" using assms(6) n(1) by simp
  from upload_chunks [OF assms(1,2,4) ds this, of base t sel] obtain a1 h1 where
    u: "xvc_run ?E t (map (write_frame sel) ds) a h = Some (Inr (a1, h1))" "flashes_idle answer m h1"
      "mem (frames h1) = programmed (mem (frames h)) 0 (concat ds)" "unat (flashWriteAddr a1) = ?n"
      "wf_app a1" "flashReadAddr a1 = 0"
      "sent a1 = sent a @ replicate (length ds) (t, common_rsp ICD_CMD_WRITE 1)"
    using assms(5-7) by (auto simp del: length_concat)
  from write_end [OF assms(3) u(2), of t sel a1] obtain h2 where
    e: "XVC_Interface ?E t (fst (write_frame sel [])) (snd (write_frame sel [])) a1 h1 = Some (Inr (finished t a1, h2))"
      "flashes_idle answer m h2" "frames h2 = frames h1"
      "\<forall>g. tg h2 g \<longrightarrow> ?E g (Word READ_CNT_FLASH_ADDR) = flashWriteAddr a1" by blast
  have "unat (of_nat ?n :: u32) = ?n" using n(1) by (intro unat_of_nat_u32) simp
  then have "flashWriteAddr a1 = of_nat ?n" using u(4) by (simp only: word_unat_eq_iff)
  then have d: "downloading ?E ?n ?n 0 (finished t a1) h2"
    using e(4) u(5,6) by (simp add: downloading_def del: length_concat)
  have sp: "spi_ready h2" using e(2) by (simp add: flashes_idle_def)
  from download_blocks [OF assms(1) n d sp _ n(2) acks, of t sel'] n(1) obtain a' h' rs where
    r: "xvc_run ?E t (map (read_frame sel') acks) (finished t a1) h2 = Some (Inr (a', h'))"
      "\<not> setAddrFlag a'" "flashReadAddr a' = 0"
      "sent a' = sent (finished t a1) @ map (\<lambda>d. (t, read_rsp d)) rs"
      "concat rs = map (\<lambda>i. mem (frames h2) i) [0..<?n]" "\<forall>d \<in> set rs. length d \<le> 896" "last rs = []"
    by (auto simp del: length_concat)
  have "concat rs = concat ds"
    unfolding r(5) e(3) u(3) using blank
    by (intro nth_equalityI) (simp_all add: programmed_def and_ones_u8 del: length_concat)
  moreover have "xvc_run ?E t (map (write_frame sel) (ds @ [[]])) a h = Some (Inr (finished t a1, h2))"
    using xvc_run_append [OF u(1), of "[write_frame sel []]"] e(1) by simp
  ultimately show ?thesis
    using r(1-4,6,7) u(7) xvc_run_append [of _ _ "map (write_frame sel) (ds @ [[]])" a h "finished t a1" h2]
    by (intro exI [of _ a'] exI [of _ h'] exI [of _ rs]) (simp add: replicate_append_same del: map_append)
qed

theorem XVC_file_roundtrip_witness:
  "\<exists>a' h' rs. xvc_run (slave_env nor_answer (quick_env (\<lambda>_. 0))) 1
      (map (write_frame 1) ([[0x13, 0x5A], [0x77]] @ [[]]) @ map (read_frame 1) [1, 2]) app_init (NSS_H []) = Some (Inr (a', h')) \<and>
    sent a' = replicate 3 (1, common_rsp ICD_CMD_WRITE 1) @ map (\<lambda>d. (1, read_rsp d)) rs \<and>
    concat rs = [0x13, 0x5A, 0x77]"
proof -
  let ?m = "\<lambda>_. 0 :: u8"
  have s: "slave_env nor_answer (quick_env ?m) h r = quick_env ?m h r" if "r \<noteq> IDR GPIOD" for h r
    using that by (simp add: slave_env_def)
  have "sr_polls (slave_env nor_answer (quick_env ?m)) n h = sr_polls (quick_env ?m) n h" for n h
    by (induction n arbitrary: h) (simp_all add: s)
  then have f: "fpec_env ?m (slave_env nor_answer (quick_env ?m))"
    using quick_env_fpec [of ?m] by (simp add: fpec_env_def s)
  have "tg [] (NSS_H [])" by (intro touch)
  then have fd: "fdev_of ?m (NSS_H []) = fdev_of ?m []" by (rule fdev_gpio)
  have "\<forall>i < 6. \<not> bit (0x80 :: u32) i" by (auto simp: below_6)
  then have "flash_idle (fdev_of ?m (NSS_H []))" unfolding fd by (simp add: fdev_of_def flash_idle_def)
  moreover have "line_of [] = \<lparr>nss = False, sck = False, mosi = False, cur = [], past = []\<rparr>"
    by (simp add: line_of_def)
  then have "spi_ready (NSS_H [])" "frames (NSS_H []) = [[]]"
    by (simp_all add: spi_ready_def frames_def line_NSS_H)
  ultimately have i: "flashes_idle nor_answer ?m (NSS_H [])" "\<forall>x < 3. nor_mem (frames (NSS_H [])) x = 0xFF"
    by (simp_all add: flashes_idle_def nor_mem_def)
  have z: "flashWriteAddr app_init = 0" "flashReadAddr app_init = 0" "sent app_init = []" by (simp_all add: app_init_def)
  have l: "concat [[0x13, 0x5A], [0x77]] = [0x13, 0x5A, 0x77 :: u8]" "length [0x13, 0x5A, 0x77 :: u8] = 3"
    "length [[0x13, 0x5A], [0x77 :: u8]] + 1 = 3" by simp_all
  note t = XVC_file_roundtrip [OF nor_is_nor nor_settles f i(1) wf_app_init z(1,2),
      of "[[0x13, 0x5A], [0x77]]" "[1, 2]" 1 1 1, unfolded l z(3) append_Nil]
  have "\<forall>d \<in> set [[0x13, 0x5A], [0x77 :: u8]]. d \<noteq> [] \<and> length d < 50000" "3 \<le> (2 ^ 24 :: nat)"
    "3 mod 896 \<noteq> (0 :: nat)" "length [1 :: u32, 2] = 3 div 896 + 2" "\<forall>x \<in> set [1 :: u32, 2]. x \<le> of_nat (3 div 896 + 2)"
    by simp_all
  from t [OF this(1-3) i(2) this(4,5)] show ?thesis by blast
qed

lemma buf_dat_header:
  "length (sendbuf a) = 1024 \<Longrightarrow> buf_dat (sendbuf (read_header a)) = buf_dat (sendbuf a)"
  by (simp add: buf_dat_def read_header_def word_at_put_other) (simp add: put_def)

text \<open>
  C34: when exactly 896 bytes are left of a download, read frames no longer make progress: each is
  answered with the data that happen to be in the send buffer, the flash is not read, and the position
  and the number of bytes left stay as they are. (So a file whose length is a multiple of 896 cannot be
  read to its end.)
\<close>

theorem XVC_read_stalls:
  assumes "accepted recv k" "rd32 recv 4 = ICD_CMD_READ" "wf_app a" "setAddrFlag a" "readTotal a = 896"
  shows "\<exists>a'. XVC_Interface env t recv k a h = Some (Inr (a', h)) \<and> wf_app a' \<and> setAddrFlag a' \<and>
    readTotal a' = 896 \<and> flashReadAddr a' = flashReadAddr a \<and>
    sent a' = sent a @ [(t, read_rsp (buf_dat (sendbuf a)))]"
proof -
  let ?a = "with_flags t a"
  have wf: "wf_app ?a" using assms(3) by simp
  have "start_read env recv ?a h = (?a, h)" using assms(4) by (simp add: start_read_def)
  moreover have "readTotal (read_header ?a) = 896" using assms(5) by (simp add: read_header_def)
  ultimately have f: "read_fetch env recv ?a h = (read_header ?a, h)"
    by (simp add: read_fetch_def read_block_none)
  have b: "buf_dat (sendbuf (read_header ?a)) = buf_dat (sendbuf a)"
    using buf_dat_header [of ?a] wf by (simp add: wf_app_def)
  from cmd_read_eq [OF wf, of env t recv h] obtain buf where
    c: "cmd_read env t recv ?a h = (tcp_write t (read_rsp (buf_dat (sendbuf a))) ((read_header ?a)\<lparr>sendbuf := buf\<rparr>), h)"
    "wf_app ((read_header ?a)\<lparr>sendbuf := buf\<rparr>)" unfolding f fst_conv snd_conv b by blast
  show ?thesis
    using XVC_dispatch(3) [OF assms(1,2)] c assms(4,5)
    by (intro exI [of _ "tcp_write t (read_rsp (buf_dat (sendbuf a))) ((read_header ?a)\<lparr>sendbuf := buf\<rparr>)"])
      (simp add: tcp_write_def read_header_def wf_app_def)
qed

theorem XVC_read_stalls_witness:
  "\<exists>a'. XVC_Interface (\<lambda>_ _. 0) 1 (fst (read_frame 1 9)) (snd (read_frame 1 9))
      (app_init\<lparr>setAddrFlag := True, readTotal := 896\<rparr>) [] = Some (Inr (a', [])) \<and> readTotal a' = 896"
proof -
  have "wf_app (app_init\<lparr>setAddrFlag := True, readTotal := 896\<rparr>)" using wf_app_init by (simp add: wf_app_def)
  from XVC_read_stalls [OF read_frame_ok(1) [of 1 9] read_frame_ok(2) this, of "\<lambda>_ _. 0" 1 "[]"] show ?thesis by auto
qed

end
