(* ===== verification/Memp.thy ===== *)
theory Memp
  imports Prelude "HOL-Library.Multiset"
begin

text \<open>
  The fixed-size pools of lwIP, \<^verbatim>\<open>memp.c\<close>, with the pools that \<^verbatim>\<open>lwipopts.h\<close> and \<^verbatim>\<open>memp_std.h\<close>
  configure. A pool is the list of its free elements, linked through their first word; elements are
  numbered in the order they lie in memory, over all pools. \<^verbatim>\<open>SYS_ARCH_PROTECT\<close> is empty in this build
  (\<^verbatim>\<open>SYS_LIGHTWEIGHT_PROT\<close> is 0), so allocation is a read and a write of the list head that an interrupt
  can separate; the last section shows what then goes wrong.
\<close>

datatype memp_t = MEMP_RAW_PCB | MEMP_UDP_PCB | MEMP_TCP_PCB | MEMP_TCP_PCB_LISTEN | MEMP_TCP_SEG
  | MEMP_REASSDATA | MEMP_ARP_QUEUE | MEMP_PBUF | MEMP_PBUF_POOL

definition memp_types :: "memp_t list" where
  "memp_types = [MEMP_RAW_PCB, MEMP_UDP_PCB, MEMP_TCP_PCB, MEMP_TCP_PCB_LISTEN, MEMP_TCP_SEG,
     MEMP_REASSDATA, MEMP_ARP_QUEUE, MEMP_PBUF, MEMP_PBUF_POOL]"

fun memp_num :: "memp_t \<Rightarrow> nat" where
  "memp_num MEMP_RAW_PCB = 4"
| "memp_num MEMP_UDP_PCB = 6"
| "memp_num MEMP_TCP_PCB = 10"
| "memp_num MEMP_TCP_PCB_LISTEN = 6"
| "memp_num MEMP_TCP_SEG = 12"
| "memp_num MEMP_REASSDATA = 5"
| "memp_num MEMP_ARP_QUEUE = 30"
| "memp_num MEMP_PBUF = 10"
| "memp_num MEMP_PBUF_POOL = 10"

type_synonym memp_tab = "memp_t \<Rightarrow> nat list"

text \<open>\<^verbatim>\<open>memp\<close> runs through the memory, each element is pushed on its pool's list.\<close>

primrec init_pools :: "memp_t list \<Rightarrow> nat \<Rightarrow> memp_tab \<Rightarrow> memp_tab" where
  "init_pools [] memp tab = tab"
| "init_pools (i # is) memp tab =
     (let tab = tab(i := []);
          tab = fold (\<lambda>memp tab. tab(i := memp # tab i)) [memp..<memp + memp_num i] tab
      in init_pools is (memp + memp_num i) tab)"

definition memp_init :: memp_tab where
  "memp_init = init_pools memp_types 0 (\<lambda>_. [])"

definition memp_malloc :: "memp_t \<Rightarrow> memp_tab \<Rightarrow> nat option \<times> memp_tab" where
  "memp_malloc type tab =
     (case tab type of
        [] \<Rightarrow> (None, tab)
      | memp # rest \<Rightarrow> (Some memp, tab(type := rest)))"

definition memp_free :: "memp_t \<Rightarrow> nat option \<Rightarrow> memp_tab \<Rightarrow> memp_tab" where
  "memp_free type mem tab =
     (case mem of None \<Rightarrow> tab | Some memp \<Rightarrow> tab(type := memp # tab type))"

section \<open>The pools at start\<close>

lemma push_all: "fold (\<lambda>m tab. tab(i := m # tab i)) ms tab = tab(i := rev ms @ tab i)"
  by (induction ms arbitrary: tab) auto

lemma memp_init_pools: "memp_init t = (case t of
     MEMP_RAW_PCB \<Rightarrow> rev [0..<4] | MEMP_UDP_PCB \<Rightarrow> rev [4..<10] | MEMP_TCP_PCB \<Rightarrow> rev [10..<20]
   | MEMP_TCP_PCB_LISTEN \<Rightarrow> rev [20..<26] | MEMP_TCP_SEG \<Rightarrow> rev [26..<38] | MEMP_REASSDATA \<Rightarrow> rev [38..<43]
   | MEMP_ARP_QUEUE \<Rightarrow> rev [43..<73] | MEMP_PBUF \<Rightarrow> rev [73..<83] | MEMP_PBUF_POOL \<Rightarrow> rev [83..<93])"
  unfolding memp_init_def memp_types_def init_pools.simps push_all Let_def
  by (cases t) (simp_all del: upt.simps)

section \<open>Allocation and release\<close>

text \<open>
  The state of the pools and, for the argument, the elements handed out and not given back.
\<close>

datatype memp_op = Malloc memp_t | Free memp_t nat

type_synonym pools = "memp_tab \<times> (memp_t \<Rightarrow> nat list)"

inductive memp_step :: "pools \<Rightarrow> memp_op \<Rightarrow> pools \<Rightarrow> bool" where
  malloc_some: "memp_malloc t tab = (Some e, tab') \<Longrightarrow> memp_step (tab, out) (Malloc t) (tab', out(t := e # out t))"
| malloc_none: "memp_malloc t tab = (None, tab') \<Longrightarrow> memp_step (tab, out) (Malloc t) (tab', out)"
| free_out: "e \<in> set (out t) \<Longrightarrow>
    memp_step (tab, out) (Free t e) (memp_free t (Some e) tab, out(t := remove1 e (out t)))"

inductive memp_reach :: "pools \<Rightarrow> bool" where
  memp_start: "memp_reach (memp_init, \<lambda>_. [])"
| memp_next: "memp_reach s \<Longrightarrow> memp_step s op s' \<Longrightarrow> memp_reach s'"

inductive_cases memp_stepE: "memp_step (tab, out) op s'"

definition pools_ok :: "pools \<Rightarrow> bool" where
  "pools_ok s \<longleftrightarrow> (\<forall>t. mset (fst s t) + mset (snd s t) = mset (memp_init t))"

lemma memp_step_ok: "memp_step s op s' \<Longrightarrow> pools_ok s \<Longrightarrow> pools_ok s'"
proof (induction rule: memp_step.induct)
  case (malloc_some t tab e tab' out)
  then obtain rest where "tab t = e # rest" "tab' = tab(t := rest)"
    by (auto simp: memp_malloc_def split: list.splits)
  with malloc_some(2) show ?case by (auto simp: pools_ok_def dest: spec [of _ t])
next
  case (malloc_none t tab tab' out)
  then show ?case by (auto simp: memp_malloc_def split: list.splits)
next
  case (free_out e out t tab)
  then have "mset (out t) = add_mset e (mset (remove1 e (out t)))" by simp
  with free_out(2) show ?case
    by (auto simp: pools_ok_def memp_free_def simp del: mset_remove1 dest: spec [of _ t])
qed

lemma memp_reach_ok: "memp_reach s \<Longrightarrow> pools_ok s"
  by (induction rule: memp_reach.induct) (auto simp: memp_step_ok, simp add: pools_ok_def)

lemma mset_distinct: "mset xs + mset ys = mset zs \<Longrightarrow> distinct zs \<Longrightarrow> distinct xs \<and> distinct ys \<and> set xs \<inter> set ys = {}"
  by (metis distinct_append mset_append mset_eq_imp_distinct_iff)

lemma memp_init_distinct: "distinct (memp_init t)"
  by (cases t) (simp_all add: memp_init_pools del: upt.simps)

lemma memp_init_disjoint: "s \<noteq> t \<Longrightarrow> set (memp_init s) \<inter> set (memp_init t) = {}"
  by (cases s; cases t) (simp_all add: memp_init_pools del: upt.simps)

text \<open>
  C38: in every state the pools can reach by allocations and by releases of allocated elements, no
  element is lost or duplicated: the free ones and the ones in use are together exactly those the pool
  was created with, an element is never in use twice, and never in use in two pools.
\<close>

theorem memp_conserves:
  assumes "memp_reach (tab, out)"
  shows "length (tab t) + length (out t) = memp_num t \<and> distinct (out t) \<and> set (tab t) \<inter> set (out t) = {} \<and>
    (t \<noteq> t' \<longrightarrow> set (out t) \<inter> set (out t') = {})"
proof -
  have ok: "mset (tab u) + mset (out u) = mset (memp_init u)" for u
    using memp_reach_ok [OF assms] by (simp add: pools_ok_def)
  have n: "length (memp_init t) = memp_num t"
    by (cases t) (simp_all add: memp_init_pools del: upt.simps)
  have "size (mset (tab t) + mset (out t)) = size (mset (memp_init t))" by (simp only: ok)
  then have len: "length (tab t) + length (out t) = memp_num t" using n by simp
  have sub: "set (out u) \<subseteq> set (memp_init u)" for u
    using ok [of u] by (metis mset_subset_eq_add_right set_mset_mono set_mset_mset)
  note d = mset_distinct [OF ok memp_init_distinct, of t]
  show ?thesis
    using len d sub [of t] sub [of t'] memp_init_disjoint [of t t'] by blast
qed

theorem memp_conserves_witness:
  "length (snd (memp_malloc MEMP_PBUF memp_init) MEMP_PBUF) + 1 = 10 \<and>
   82 \<notin> set (snd (memp_malloc MEMP_PBUF memp_init) MEMP_PBUF)"
proof -
  have h: "memp_init MEMP_PBUF = 82 # rev [73..<82]" by (simp add: memp_init_pools upt_conv_Cons)
  obtain tab where m: "memp_malloc MEMP_PBUF memp_init = (Some 82, tab)" by (simp add: memp_malloc_def h)
  from memp_next [OF memp_start malloc_some [OF this]]
  have r: "memp_reach (tab, (\<lambda>_. [])(MEMP_PBUF := [82]))" by simp
  show ?thesis using memp_conserves [OF r, of MEMP_PBUF MEMP_PBUF] m by simp
qed

section \<open>An allocation interrupted by another\<close>

text \<open>\<^verbatim>\<open>memp_malloc\<close> as its two accesses to \<^verbatim>\<open>memp_tab\<close>.\<close>

definition malloc_read :: "memp_t \<Rightarrow> memp_tab \<Rightarrow> (nat \<times> nat list) option" where
  "malloc_read type tab = (case tab type of [] \<Rightarrow> None | memp # rest \<Rightarrow> Some (memp, rest))"

definition malloc_write :: "memp_t \<Rightarrow> (nat \<times> nat list) option \<Rightarrow> memp_tab \<Rightarrow> nat option \<times> memp_tab" where
  "malloc_write type r tab =
     (case r of None \<Rightarrow> (None, tab) | Some (memp, rest) \<Rightarrow> (Some memp, tab(type := rest)))"

lemma memp_malloc_steps: "memp_malloc type tab = malloc_write type (malloc_read type tab) tab"
  by (simp add: memp_malloc_def malloc_read_def malloc_write_def split: list.splits)

text \<open>
  The pools are not safe against interrupts. The main loop and the Ethernet interrupt both
  allocate; if the interrupt's allocation falls between the read and the write of the main loop's, both
  get the same element.
\<close>

theorem memp_malloc_race:
  assumes "tab t = e # rest"
  shows "let r = malloc_read t tab; (isr, tab) = memp_malloc t tab; (main, tab) = malloc_write t r tab
    in isr = Some e \<and> main = Some e \<and> tab t = rest"
  using assms by (simp add: malloc_read_def malloc_write_def memp_malloc_def)

theorem memp_malloc_race_witness:
  "let r = malloc_read MEMP_PBUF_POOL memp_init; (isr, tab) = memp_malloc MEMP_PBUF_POOL memp_init;
     (main, tab) = malloc_write MEMP_PBUF_POOL r tab in isr = Some 92 \<and> main = Some 92"
proof -
  have "memp_init MEMP_PBUF_POOL = 92 # rev [83..<92]" by (simp add: memp_init_pools upt_conv_Cons)
  from memp_malloc_race [of memp_init MEMP_PBUF_POOL, OF this] show ?thesis by (simp add: case_prod_beta Let_def)
qed

end
