(* ===== verification/Mem.thy ===== *)
theory Mem
  imports Prelude
begin

text \<open>
  The heap of lwIP, \<^verbatim>\<open>mem.c\<close>. The heap is an array \<^verbatim>\<open>ram\<close> of 20480 bytes cut into blocks; each block
  starts with a header (the offset of the next and of the previous block and whether it is used). The
  model keeps the header stored at every offset; offsets and sizes are natural numbers, the 16-bit
  \<^verbatim>\<open>mem_size_t\<close> is written out where a value is stored in one. The semaphore is a no-op (\<^verbatim>\<open>NO_SYS\<close>).

  The results: every sequence of operations keeps a well-formed layout in which no two neighbours are
  free; an allocated block is aligned, large enough and apart from all others; an allocation fails only
  if no free block is large enough; when everything is given back the heap is one block again; and a
  request for more than 65532 bytes is rounded to zero and served with a 12-byte block.
\<close>

abbreviation (input) MEM_SIZE_ALIGNED :: nat where "MEM_SIZE_ALIGNED \<equiv> 20480"
abbreviation (input) SIZEOF_STRUCT_MEM :: nat where "SIZEOF_STRUCT_MEM \<equiv> 8"
abbreviation (input) MIN_SIZE_ALIGNED :: nat where "MIN_SIZE_ALIGNED \<equiv> 12"

record smem =
  nxt :: nat
  prv :: nat
  used :: bool

record mheap =
  ram :: "nat \<Rightarrow> smem"
  lfree :: nat

definition LWIP_MEM_ALIGN_SIZE :: "nat \<Rightarrow> nat" where
  "LWIP_MEM_ALIGN_SIZE n = (n + 3) div 4 * 4"

text \<open>Stores into a header.\<close>

definition set_nxt :: "nat \<Rightarrow> nat \<Rightarrow> (nat \<Rightarrow> smem) \<Rightarrow> nat \<Rightarrow> smem" where
  "set_nxt p v r = r(p := (r p)\<lparr>nxt := v\<rparr>)"

definition set_prv :: "nat \<Rightarrow> nat \<Rightarrow> (nat \<Rightarrow> smem) \<Rightarrow> nat \<Rightarrow> smem" where
  "set_prv p v r = r(p := (r p)\<lparr>prv := v\<rparr>)"

definition set_used :: "nat \<Rightarrow> bool \<Rightarrow> (nat \<Rightarrow> smem) \<Rightarrow> nat \<Rightarrow> smem" where
  "set_used p v r = r(p := (r p)\<lparr>used := v\<rparr>)"

definition mem_init :: "mheap \<Rightarrow> mheap" where
  "mem_init h =
     (let r = ram h;
          r = set_nxt 0 MEM_SIZE_ALIGNED r;
          r = set_prv 0 0 r;
          r = set_used 0 False r;
          r = set_used MEM_SIZE_ALIGNED True r;
          r = set_nxt MEM_SIZE_ALIGNED MEM_SIZE_ALIGNED r;
          r = set_prv MEM_SIZE_ALIGNED MEM_SIZE_ALIGNED r
      in h\<lparr>ram := r, lfree := 0\<rparr>)"

definition plug_forward :: "nat \<Rightarrow> mheap \<Rightarrow> mheap" where
  "plug_forward mem h =
     (let nmem = nxt (ram h mem) in
      if mem \<noteq> nmem \<and> \<not> used (ram h nmem) \<and> nmem \<noteq> MEM_SIZE_ALIGNED then
        let h = (if lfree h = nmem then h\<lparr>lfree := mem\<rparr> else h);
            h = h\<lparr>ram := set_nxt mem (nxt (ram h nmem)) (ram h)\<rparr>
        in h\<lparr>ram := set_prv (nxt (ram h nmem)) mem (ram h)\<rparr>
      else h)"

definition plug_backward :: "nat \<Rightarrow> mheap \<Rightarrow> mheap" where
  "plug_backward mem h =
     (let pmem = prv (ram h mem) in
      if pmem \<noteq> mem \<and> \<not> used (ram h pmem) then
        let h = (if lfree h = mem then h\<lparr>lfree := pmem\<rparr> else h);
            h = h\<lparr>ram := set_nxt pmem (nxt (ram h mem)) (ram h)\<rparr>
        in h\<lparr>ram := set_prv (nxt (ram h mem)) pmem (ram h)\<rparr>
      else h)"

definition plug_holes :: "nat \<Rightarrow> mheap \<Rightarrow> mheap" where
  "plug_holes mem h = plug_backward mem (plug_forward mem h)"

text \<open>Pointers are offsets into \<^verbatim>\<open>ram\<close>; one at or behind the end is outside the heap.\<close>

definition mem_free :: "nat option \<Rightarrow> mheap \<Rightarrow> mheap" where
  "mem_free rmem h =
     (case rmem of None \<Rightarrow> h
      | Some p \<Rightarrow>
        if p \<ge> MEM_SIZE_ALIGNED then h
        else let mem = p - SIZEOF_STRUCT_MEM;
                 h = h\<lparr>ram := set_used mem False (ram h)\<rparr>;
                 h = (if mem < lfree h then h\<lparr>lfree := mem\<rparr> else h)
             in plug_holes mem h)"

definition mem_realloc :: "nat \<Rightarrow> u16 \<Rightarrow> mheap \<Rightarrow> nat option \<times> mheap" where
  "mem_realloc rmem newsize h =
     (let newsize = unat (of_nat (LWIP_MEM_ALIGN_SIZE (unat newsize)) :: u16);
          newsize = (if newsize < MIN_SIZE_ALIGNED then MIN_SIZE_ALIGNED else newsize)
      in if newsize > MEM_SIZE_ALIGNED then (None, h)
         else if rmem \<ge> MEM_SIZE_ALIGNED then (Some rmem, h)
         else let ptr = rmem - SIZEOF_STRUCT_MEM;
                  size = nxt (ram h ptr) - ptr - SIZEOF_STRUCT_MEM
              in if newsize > size then (None, h)
                 else if newsize = size then (Some rmem, h)
                 else let mem2 = nxt (ram h ptr) in
                   if \<not> used (ram h mem2) then
                     let nx = nxt (ram h mem2);
                         ptr2 = ptr + SIZEOF_STRUCT_MEM + newsize;
                         h = (if lfree h = mem2 then h\<lparr>lfree := ptr2\<rparr> else h);
                         r = set_used ptr2 False (ram h);
                         r = set_nxt ptr2 nx r;
                         r = set_prv ptr2 ptr r;
                         r = set_nxt ptr ptr2 r;
                         r = (if nxt (r ptr2) \<noteq> MEM_SIZE_ALIGNED then set_prv (nxt (r ptr2)) ptr2 r else r)
                     in (Some rmem, h\<lparr>ram := r\<rparr>)
                   else if newsize + SIZEOF_STRUCT_MEM + MIN_SIZE_ALIGNED \<le> size then
                     let ptr2 = ptr + SIZEOF_STRUCT_MEM + newsize;
                         h = (if ptr2 < lfree h then h\<lparr>lfree := ptr2\<rparr> else h);
                         r = set_used ptr2 False (ram h);
                         r = set_nxt ptr2 (nxt (r ptr)) r;
                         r = set_prv ptr2 ptr r;
                         r = set_nxt ptr ptr2 r;
                         r = (if nxt (r ptr2) \<noteq> MEM_SIZE_ALIGNED then set_prv (nxt (r ptr2)) ptr2 r else r)
                     in (Some rmem, h\<lparr>ram := r\<rparr>)
                   else (Some rmem, h))"

text \<open>
  The search for a free block and the search for the new lowest one follow the \<^verbatim>\<open>next\<close> links; on a damaged
  heap they need not end (\<open>None\<close>).
\<close>

partial_function (option) lowest_free :: "nat \<Rightarrow> (nat \<Rightarrow> smem) \<Rightarrow> nat option" where
  "lowest_free f r =
     (if used (r f) \<and> f \<noteq> MEM_SIZE_ALIGNED then lowest_free (nxt (r f)) r else Some f)"

definition take_block :: "nat \<Rightarrow> nat \<Rightarrow> (nat \<Rightarrow> smem) \<Rightarrow> nat \<Rightarrow> smem" where
  "take_block ptr sz r =
     (if nxt (r ptr) - (ptr + SIZEOF_STRUCT_MEM) \<ge> sz + SIZEOF_STRUCT_MEM + MIN_SIZE_ALIGNED then
        let ptr2 = ptr + SIZEOF_STRUCT_MEM + sz;
            r = set_used ptr2 False r;
            r = set_nxt ptr2 (nxt (r ptr)) r;
            r = set_prv ptr2 ptr r;
            r = set_nxt ptr ptr2 r;
            r = set_used ptr True r
        in if nxt (r ptr2) \<noteq> MEM_SIZE_ALIGNED then set_prv (nxt (r ptr2)) ptr2 r else r
      else set_used ptr True r)"

partial_function (option) malloc_scan :: "nat \<Rightarrow> nat \<Rightarrow> mheap \<Rightarrow> (nat option \<times> mheap) option" where
  "malloc_scan ptr sz h =
     (if ptr < MEM_SIZE_ALIGNED - sz then
        if \<not> used (ram h ptr) \<and> nxt (ram h ptr) - (ptr + SIZEOF_STRUCT_MEM) \<ge> sz then
          let h = h\<lparr>ram := take_block ptr sz (ram h)\<rparr>
          in if ptr = lfree h then
               Option.bind (lowest_free (lfree h) (ram h))
                 (\<lambda>f. Some (Some (ptr + SIZEOF_STRUCT_MEM), h\<lparr>lfree := f\<rparr>))
             else Some (Some (ptr + SIZEOF_STRUCT_MEM), h)
        else malloc_scan (nxt (ram h ptr)) sz h
      else Some (None, h))"

definition mem_malloc :: "u16 \<Rightarrow> mheap \<Rightarrow> (nat option \<times> mheap) option" where
  "mem_malloc sz h =
     (if sz = 0 then Some (None, h)
      else let sz = unat (of_nat (LWIP_MEM_ALIGN_SIZE (unat sz)) :: u16);
               sz = (if sz < MIN_SIZE_ALIGNED then MIN_SIZE_ALIGNED else sz)
           in if sz > MEM_SIZE_ALIGNED then Some (None, h)
              else malloc_scan (lfree h) sz h)"

section \<open>The layout of the heap\<close>

text \<open>
  The blocks from offset \<open>a\<close> on, the first with \<open>p\<close> as its predecessor, up to offset \<open>z\<close>; \<open>q\<close> is the last.
\<close>

fun path :: "(nat \<Rightarrow> smem) \<Rightarrow> nat \<Rightarrow> nat \<Rightarrow> nat list \<Rightarrow> nat \<Rightarrow> nat \<Rightarrow> bool" where
  "path r p a [] q z \<longleftrightarrow> a = z \<and> p = q"
| "path r p a (b # bs) q z \<longleftrightarrow> a = b \<and> prv (r b) = p \<and> b + 20 \<le> nxt (r b) \<and> 4 dvd nxt (r b) \<and>
     path r b (nxt (r b)) bs q z"

lemma path_append:
  "path r p a (xs @ ys) q z \<longleftrightarrow> (\<exists>m w. path r p a xs m w \<and> path r m w ys q z)"
  by (induction xs arbitrary: p a) auto

lemma path_bounds: "path r p a bs q z \<Longrightarrow> a \<le> z \<and> (\<forall>b \<in> set bs. a \<le> b \<and> b + 20 \<le> z)"
  by (induction bs arbitrary: p a) fastforce+

lemma path_end_bounds: "path r p a bs q z \<Longrightarrow> bs \<noteq> [] \<Longrightarrow> a + 20 \<le> z"
  using path_bounds by (cases bs) fastforce+

lemma path_aligned: "path r p a bs q z \<Longrightarrow> 4 dvd a \<Longrightarrow> 4 dvd z \<and> (\<forall>b \<in> set bs. 4 dvd b)"
  by (induction bs arbitrary: p a) auto

lemma path_cong:
  "(\<And>b. b \<in> set bs \<Longrightarrow> nxt (r' b) = nxt (r b) \<and> prv (r' b) = prv (r b)) \<Longrightarrow> path r' p a bs q z = path r p a bs q z"
  by (induction bs arbitrary: p a) auto

lemma path_distinct: "path r p a bs q z \<Longrightarrow> distinct bs"
proof (induction bs arbitrary: p a)
  case (Cons b bs)
  then have "path r b (nxt (r b)) bs q z" "b + 20 \<le> nxt (r b)" by auto
  with Cons.IH path_bounds [of r b "nxt (r b)" bs q z] show ?case by fastforce
qed simp

lemma path_split:
  assumes "path r p a (xs @ m # ys) q z"
  shows "\<forall>b \<in> set xs. b + 20 \<le> m" "\<forall>b \<in> set ys. nxt (r m) \<le> b \<and> b + 20 \<le> z" "m + 20 \<le> nxt (r m)" "nxt (r m) \<le> z"
proof -
  obtain k w where x: "path r p a xs k w" and m: "path r k w (m # ys) q z" using assms by (auto simp: path_append)
  then show "\<forall>b \<in> set xs. b + 20 \<le> m" using path_bounds [OF x] by auto
  have y: "path r m (nxt (r m)) ys q z" "m + 20 \<le> nxt (r m)" using m by auto
  from path_bounds [OF y(1)] y(2)
  show "\<forall>b \<in> set ys. nxt (r m) \<le> b \<and> b + 20 \<le> z" "m + 20 \<le> nxt (r m)" "nxt (r m) \<le> z" by auto
qed

definition layout :: "(nat \<Rightarrow> smem) \<Rightarrow> nat list \<Rightarrow> bool" where
  "layout r bs \<longleftrightarrow> (\<exists>q. path r 0 0 bs q MEM_SIZE_ALIGNED)"

definition first_free :: "(nat \<Rightarrow> smem) \<Rightarrow> nat list \<Rightarrow> nat" where
  "first_free r bs = hd (filter (\<lambda>b. \<not> used (r b)) bs @ [MEM_SIZE_ALIGNED])"

definition heap_ok :: "mheap \<Rightarrow> nat list \<Rightarrow> bool" where
  "heap_ok h bs \<longleftrightarrow> layout (ram h) bs \<and> successively (\<lambda>a b. used (ram h a) \<or> used (ram h b)) bs \<and>
     lfree h = first_free (ram h) bs \<and> used (ram h MEM_SIZE_ALIGNED)"

lemma set_simps [simp]:
  "nxt (set_nxt p v r b) = (if b = p then v else nxt (r b))" "prv (set_nxt p v r b) = prv (r b)"
  "used (set_nxt p v r b) = used (r b)"
  "prv (set_prv p v r b) = (if b = p then v else prv (r b))" "nxt (set_prv p v r b) = nxt (r b)"
  "used (set_prv p v r b) = used (r b)"
  "used (set_used p u r b) = (if b = p then u else used (r b))" "nxt (set_used p u r b) = nxt (r b)"
  "prv (set_used p u r b) = prv (r b)"
  by (auto simp: set_nxt_def set_prv_def set_used_def)

lemma path_relink:
  assumes "path r p a ys q z" "\<And>b. b \<in> set ys \<Longrightarrow> nxt (r' b) = nxt (r b)"
    and "\<And>b. b \<in> set ys \<Longrightarrow> b \<noteq> a \<Longrightarrow> prv (r' b) = prv (r b)" "ys \<noteq> [] \<Longrightarrow> prv (r' a) = p'"
  shows "\<exists>q'. path r' p' a ys q' z"
proof (cases ys)
  case Nil
  then show ?thesis using assms(1) by auto
next
  case (Cons y ys')
  then have y: "y = a" "a + 20 \<le> nxt (r a)" "4 dvd nxt (r a)" "path r a (nxt (r a)) ys' q z" using assms(1) by auto
  have "nxt (r' b) = nxt (r b) \<and> prv (r' b) = prv (r b)" if "b \<in> set ys'" for b
    using assms(2,3) [of b] that Cons path_bounds [OF y(4)] y(2) by fastforce
  then have "path r' a (nxt (r a)) ys' q z" using y(4) path_cong [of ys' r' r] by blast
  moreover have "nxt (r' a) = nxt (r a)" "prv (r' a) = p'" using assms(2) [of a] assms(4) Cons y(1) by simp_all
  ultimately show ?thesis unfolding Cons y(1) using y(2,3) by (intro exI [of _ q]) simp
qed

text \<open>Cutting a block in two and joining a block with the next one.\<close>

lemma layout_split:
  assumes l: "layout r (xs @ m # ys)" and k: "m + 20 \<le> k" "k + 20 \<le> nxt (r m)" "4 dvd k"
    and r': "nxt (r' m) = k" "prv (r' m) = prv (r m)" "nxt (r' k) = nxt (r m)" "prv (r' k) = m"
    and hd: "ys \<noteq> [] \<Longrightarrow> prv (r' (nxt (r m))) = k"
    and same: "\<And>b. b \<in> set (xs @ ys) \<Longrightarrow> nxt (r' b) = nxt (r b)"
      "\<And>b. b \<in> set (xs @ ys) \<Longrightarrow> b \<noteq> nxt (r m) \<Longrightarrow> prv (r' b) = prv (r b)"
  shows "layout r' (xs @ m # k # ys)"
proof -
  obtain q w where x: "path r 0 0 xs w m" and y: "prv (r m) = w" "m + 20 \<le> nxt (r m)" "4 dvd nxt (r m)"
    "path r m (nxt (r m)) ys q MEM_SIZE_ALIGNED"
    using l by (auto simp: layout_def path_append)
  have "b \<noteq> nxt (r m)" if "b \<in> set xs" for b using path_bounds [OF x] that y(2) by fastforce
  then have x': "path r' 0 0 xs w m" using x path_cong [of xs r' r] same by auto
  obtain q' where "path r' k (nxt (r m)) ys q' MEM_SIZE_ALIGNED"
    using path_relink [OF y(4), of r' k] same hd by auto
  then show ?thesis unfolding layout_def path_append using x' r' k y by auto
qed

lemma layout_merge:
  assumes l: "layout r (xs @ m # y # ys)"
    and r': "nxt (r' m) = nxt (r y)" "prv (r' m) = prv (r m)"
    and hd: "ys \<noteq> [] \<Longrightarrow> prv (r' (nxt (r y))) = m"
    and same: "\<And>b. b \<in> set (xs @ ys) \<Longrightarrow> nxt (r' b) = nxt (r b)"
      "\<And>b. b \<in> set (xs @ ys) \<Longrightarrow> b \<noteq> nxt (r y) \<Longrightarrow> prv (r' b) = prv (r b)"
  shows "layout r' (xs @ m # ys)"
proof -
  obtain q w where x: "path r 0 0 xs w m" and y: "prv (r m) = w" "m + 20 \<le> nxt (r m)" "y = nxt (r m)"
    "y + 20 \<le> nxt (r y)" "4 dvd nxt (r y)" "path r y (nxt (r y)) ys q MEM_SIZE_ALIGNED"
    using l unfolding layout_def path_append path.simps by metis
  have "b \<noteq> nxt (r y)" if "b \<in> set xs" for b using path_bounds [OF x] that y(2-4) by fastforce
  then have x': "path r' 0 0 xs w m" using x path_cong [of xs r' r] same by auto
  obtain q' where "path r' m (nxt (r y)) ys q' MEM_SIZE_ALIGNED"
    using path_relink [OF y(6), of r' m] same hd by auto
  then show ?thesis unfolding layout_def path_append using x' r' y by auto
qed

lemma layout_same: "(\<And>b. b \<in> set bs \<Longrightarrow> nxt (r' b) = nxt (r b) \<and> prv (r' b) = prv (r b)) \<Longrightarrow> layout r' bs = layout r bs"
  unfolding layout_def using path_cong [of bs r' r] by auto

lemma layout_facts:
  assumes "layout r (xs @ m # ys)"
  shows "\<forall>b \<in> set xs. b + 20 \<le> m" "\<forall>b \<in> set ys. nxt (r m) \<le> b \<and> b + 20 \<le> MEM_SIZE_ALIGNED"
    "m + 20 \<le> nxt (r m)" "nxt (r m) \<le> MEM_SIZE_ALIGNED" "4 dvd m" "4 dvd nxt (r m)"
    "ys = [] \<longleftrightarrow> nxt (r m) = MEM_SIZE_ALIGNED" "ys \<noteq> [] \<Longrightarrow> hd ys = nxt (r m) \<and> prv (r (hd ys)) = m"
    "xs = [] \<longleftrightarrow> prv (r m) = m" "xs \<noteq> [] \<Longrightarrow> last xs = prv (r m)" "xs = [] \<longleftrightarrow> m = 0"
proof -
  obtain q where p: "path r 0 0 (xs @ m # ys) q MEM_SIZE_ALIGNED" using assms by (auto simp: layout_def)
  note s = path_split [OF p]
  show "\<forall>b \<in> set xs. b + 20 \<le> m" "\<forall>b \<in> set ys. nxt (r m) \<le> b \<and> b + 20 \<le> MEM_SIZE_ALIGNED"
    "m + 20 \<le> nxt (r m)" "nxt (r m) \<le> MEM_SIZE_ALIGNED" using s by auto
  show "4 dvd m" using path_aligned [OF p] by simp
  obtain w where x: "path r 0 0 xs w m" and y: "prv (r m) = w" "4 dvd nxt (r m)"
    "path r m (nxt (r m)) ys q MEM_SIZE_ALIGNED"
    using p by (auto simp: path_append)
  show "4 dvd nxt (r m)" by fact
  show "ys = [] \<longleftrightarrow> nxt (r m) = MEM_SIZE_ALIGNED" using y(3) s(2) by (cases ys) auto
  show "ys \<noteq> [] \<Longrightarrow> hd ys = nxt (r m) \<and> prv (r (hd ys)) = m" using y(3) by (cases ys) auto
  have l: "xs \<noteq> [] \<Longrightarrow> w = last xs"
    using x by (induction xs rule: rev_induct) (auto simp: path_append)
  show "xs \<noteq> [] \<Longrightarrow> last xs = prv (r m)" using l y(1) by simp
  show "xs = [] \<longleftrightarrow> prv (r m) = m"
  proof (cases "xs = []")
    case True
    then show ?thesis using x y(1) by auto
  next
    case False
    then have "last xs + 20 \<le> m" using s(1) by auto
    then show ?thesis using False l y(1) by auto
  qed
  show "xs = [] \<longleftrightarrow> m = 0"
  proof (cases "xs = []")
    case False
    then have "last xs + 20 \<le> m" using s(1) by auto
    then show ?thesis using False by auto
  qed (use x in auto)
qed

lemma layout_distinct: "layout r bs \<Longrightarrow> distinct bs"
  unfolding layout_def using path_distinct by blast

section \<open>The abstract heap\<close>

text \<open>The regions handed out: where they start and how long they are.\<close>

definition regions :: "(nat \<Rightarrow> smem) \<Rightarrow> nat list \<Rightarrow> (nat \<times> nat) set" where
  "regions r bs = {(b + 8, nxt (r b) - (b + 8)) |b. b \<in> set bs \<and> used (r b)}"

lemma regions_simps [simp]:
  "regions r [] = {}"
  "regions r (b # bs) = (if used (r b) then insert (b + 8, nxt (r b) - (b + 8)) (regions r bs) else regions r bs)"
  "regions r (xs @ ys) = regions r xs \<union> regions r ys"
  by (auto simp: regions_def)

lemma regions_cong:
  "(\<And>b. b \<in> set bs \<Longrightarrow> nxt (r' b) = nxt (r b) \<and> used (r' b) = used (r b)) \<Longrightarrow> regions r' bs = regions r bs"
  unfolding regions_def by (rule Collect_cong) (metis (no_types, lifting))

lemma first_free_simps [simp]:
  "first_free r [] = MEM_SIZE_ALIGNED"
  "first_free r (b # bs) = (if used (r b) then first_free r bs else b)"
  by (simp_all add: first_free_def)

lemma first_free_append:
  "first_free r (xs @ ys) = (if \<forall>b \<in> set xs. used (r b) then first_free r ys else first_free r xs)"
  by (induction xs) auto

lemma first_free_cong: "(\<And>b. b \<in> set bs \<Longrightarrow> used (r' b) = used (r b)) \<Longrightarrow> first_free r' bs = first_free r bs"
  by (induction bs) auto

lemma first_free_in: "\<not> (\<forall>b \<in> set bs. used (r b)) \<Longrightarrow> first_free r bs \<in> set bs \<and> \<not> used (r (first_free r bs))"
  by (induction bs) auto

lemma first_free_all: "\<forall>b \<in> set bs. used (r b) \<Longrightarrow> first_free r bs = MEM_SIZE_ALIGNED"
  by (induction bs) auto

text \<open>Blocks may touch a free neighbour while a block is being given back.\<close>

definition heap_pre :: "mheap \<Rightarrow> nat list \<Rightarrow> bool" where
  "heap_pre h bs \<longleftrightarrow> layout (ram h) bs \<and> lfree h = first_free (ram h) bs \<and> used (ram h MEM_SIZE_ALIGNED)"

definition no_free_pair :: "(nat \<Rightarrow> smem) \<Rightarrow> nat list \<Rightarrow> bool" where
  "no_free_pair r bs \<longleftrightarrow> successively (\<lambda>a b. used (r a) \<or> used (r b)) bs"

lemma heap_ok_pre: "heap_ok h bs \<longleftrightarrow> heap_pre h bs \<and> no_free_pair (ram h) bs"
  by (auto simp: heap_ok_def heap_pre_def no_free_pair_def)

lemma no_free_pair_simps [simp]:
  "no_free_pair r []" "no_free_pair r [b]"
  "no_free_pair r (a # b # bs) \<longleftrightarrow> (used (r a) \<or> used (r b)) \<and> no_free_pair r (b # bs)"
  by (simp_all add: no_free_pair_def)

lemma no_free_pair_append:
  "no_free_pair r (xs @ m # ys) \<longleftrightarrow> no_free_pair r (xs @ [m]) \<and> no_free_pair r (m # ys)"
  by (auto simp: no_free_pair_def successively_append_iff successively_Cons)

lemma no_free_pair_snoc:
  "no_free_pair r (xs @ [m]) \<longleftrightarrow> no_free_pair r xs \<and> (xs = [] \<or> used (r (last xs)) \<or> used (r m))"
  by (auto simp: no_free_pair_def successively_append_iff)

lemma no_free_pair_Cons:
  "no_free_pair r (m # ys) \<longleftrightarrow> (ys = [] \<or> used (r m) \<or> used (r (hd ys))) \<and> no_free_pair r ys"
  by (auto simp: no_free_pair_def successively_Cons)

lemma no_free_pair_cong: "(\<And>b. b \<in> set bs \<Longrightarrow> used (r' b) = used (r b)) \<Longrightarrow> no_free_pair r' bs = no_free_pair r bs"
  unfolding no_free_pair_def by (rule successively_cong) auto

lemma merge_step:
  assumes pre: "heap_pre h (xs @ m # y # ys)" and free: "\<not> used (ram h m)" "\<not> used (ram h y)"
  defines "r' \<equiv> set_prv (nxt (ram h y)) m (set_nxt m (nxt (ram h y)) (ram h))"
  shows "heap_pre (h\<lparr>ram := r'\<rparr>) (xs @ m # ys)" "regions r' (xs @ m # ys) = regions (ram h) (xs @ m # y # ys)"
    "\<And>b. used (r' b) = used (ram h b)" "nxt (r' m) = nxt (ram h y)"
proof -
  let ?r = "ram h"
  have l: "layout ?r (xs @ m # y # ys)" using pre by (simp add: heap_pre_def)
  then have l2: "layout ?r ((xs @ [m]) @ y # ys)" by simp
  note m = layout_facts [OF l] and y = layout_facts [OF l2]
  have my: "m \<noteq> y" "\<forall>b \<in> set xs. b \<noteq> m \<and> b < nxt (?r y)" "\<forall>b \<in> set ys. b \<noteq> m" "m \<noteq> nxt (?r y)"
    using m(1-3) y(1-4) by fastforce+
  show u: "\<And>b. used (r' b) = used (ram h b)" by (simp add: r'_def)
  show n: "nxt (r' m) = nxt (ram h y)" by (simp add: r'_def)
  have "layout r' (xs @ m # ys)"
    using my by (intro layout_merge [OF l]) (auto simp: r'_def)
  moreover have "first_free r' (xs @ m # ys) = first_free ?r (xs @ m # y # ys)"
    using free u by (simp add: first_free_append first_free_cong [of xs r' ?r])
  ultimately show "heap_pre (h\<lparr>ram := r'\<rparr>) (xs @ m # ys)"
    using pre u by (simp add: heap_pre_def)
  have "regions r' xs = regions ?r xs" "regions r' ys = regions ?r ys"
    using my by (auto intro!: regions_cong simp: r'_def)
  then show "regions r' (xs @ m # ys) = regions ?r (xs @ m # y # ys)" using free u by simp
qed

lemma plug_forward_step:
  assumes pre: "heap_pre h (xs @ m # ys)" and free: "\<not> used (ram h m)" and pairs: "no_free_pair (ram h) ys"
  shows "\<exists>ys'. heap_pre (plug_forward m h) (xs @ m # ys') \<and> no_free_pair (ram (plug_forward m h)) (m # ys') \<and>
    regions (ram (plug_forward m h)) (xs @ m # ys') = regions (ram h) (xs @ m # ys) \<and>
    (\<forall>b. used (ram (plug_forward m h) b) = used (ram h b))"
proof -
  have l: "layout (ram h) (xs @ m # ys)" using pre by (simp add: heap_pre_def)
  note f = layout_facts [OF l]
  show ?thesis
  proof (cases "ys = [] \<or> used (ram h (hd ys))")
    case True
    then have "plug_forward m h = h" using f(7,8) by (auto simp: plug_forward_def Let_def)
    moreover have "no_free_pair (ram h) (m # ys)" using True pairs by (auto simp: no_free_pair_Cons)
    ultimately show ?thesis using pre by (intro exI [of _ ys]) simp
  next
    case False
    then obtain y ys' where ys: "ys = y # ys'" and y: "\<not> used (ram h y)" by (cases ys) auto
    have n: "nxt (ram h m) = y" using f(8) ys by simp
    have "lfree h = first_free (ram h) (xs @ [m])"
      using pre free by (simp add: heap_pre_def first_free_append)
    then have "lfree h \<in> set (xs @ [m])" using first_free_in [of "xs @ [m]" "ram h"] free by auto
    then have "lfree h \<noteq> y" using f(1,3) n by fastforce
    moreover have "y \<noteq> MEM_SIZE_ALIGNED" "m \<noteq> y" using f(3,7) n ys by auto
    ultimately have pf: "plug_forward m h = h\<lparr>ram := set_prv (nxt (ram h y)) m (set_nxt m (nxt (ram h y)) (ram h))\<rparr>"
      using n y by (simp add: plug_forward_def Let_def)
    note s = merge_step [OF pre [unfolded ys] free y]
    have "no_free_pair (ram h) ys'" "ys' = [] \<or> used (ram h (hd ys'))"
      using pairs y unfolding ys by (auto simp: no_free_pair_Cons)
    moreover have "no_free_pair (ram (plug_forward m h)) (m # ys') = no_free_pair (ram h) (m # ys')"
      unfolding pf by (intro no_free_pair_cong) simp
    ultimately have "no_free_pair (ram (plug_forward m h)) (m # ys')" by (auto simp: no_free_pair_Cons)
    then show ?thesis using s unfolding ys pf by (intro exI [of _ ys']) simp
  qed
qed

lemma plug_backward_step:
  assumes pre: "heap_pre h (xs @ m # ys)" and free: "\<not> used (ram h m)"
    and pairs: "no_free_pair (ram h) xs" "no_free_pair (ram h) (m # ys)"
  shows "\<exists>bs. heap_ok (plug_backward m h) bs \<and> regions (ram (plug_backward m h)) bs = regions (ram h) (xs @ m # ys)"
proof -
  have l: "layout (ram h) (xs @ m # ys)" using pre by (simp add: heap_pre_def)
  note f = layout_facts [OF l]
  show ?thesis
  proof (cases "xs = [] \<or> used (ram h (last xs))")
    case True
    then have "plug_backward m h = h" using f(9,10) by (auto simp: plug_backward_def Let_def)
    moreover have "no_free_pair (ram h) (xs @ m # ys)"
      using True pairs by (subst no_free_pair_append) (auto simp: no_free_pair_snoc)
    ultimately show ?thesis using pre by (auto simp: heap_ok_pre)
  next
    case False
    then obtain zs x where xs: "xs = zs @ [x]" and x: "\<not> used (ram h x)" by (cases xs rule: rev_cases) auto
    have p: "prv (ram h m) = x" using f(10) xs by simp
    have pre': "heap_pre h (zs @ x # m # ys)" using pre xs by simp
    have "lfree h = first_free (ram h) (zs @ [x])"
      using pre' x by (simp add: heap_pre_def first_free_append)
    then have "lfree h \<in> set (zs @ [x])" using first_free_in [of "zs @ [x]" "ram h"] x by auto
    then have "lfree h \<noteq> m" "x \<noteq> m" using f(1) xs by fastforce+
    then have pb: "plug_backward m h = h\<lparr>ram := set_prv (nxt (ram h m)) x (set_nxt x (nxt (ram h m)) (ram h))\<rparr>"
      using p x by (simp add: plug_backward_def Let_def)
    note s = merge_step [OF pre' x free]
    have "no_free_pair (ram h) zs" "zs = [] \<or> used (ram h (last zs))" "ys = [] \<or> used (ram h (hd ys))"
      "no_free_pair (ram h) ys"
      using pairs free x unfolding xs by (auto simp: no_free_pair_snoc no_free_pair_Cons)
    then have "no_free_pair (ram h) (zs @ x # ys)"
      by (subst no_free_pair_append) (auto simp: no_free_pair_snoc no_free_pair_Cons)
    moreover have "no_free_pair (ram (plug_backward m h)) (zs @ x # ys) = no_free_pair (ram h) (zs @ x # ys)"
      unfolding pb by (intro no_free_pair_cong) simp
    ultimately have "no_free_pair (ram (plug_backward m h)) (zs @ x # ys)" by simp
    then show ?thesis using s unfolding heap_ok_pre pb xs by (intro exI [of _ "zs @ x # ys"]) simp
  qed
qed

section \<open>Giving a block back\<close>

lemma regions_free:
  assumes "distinct (xs @ m # ys)" "used (r m)"
  shows "regions (set_used m False r) (xs @ m # ys) = regions r (xs @ m # ys) - {(m + 8, nxt (r m) - (m + 8))}"
  using assms by (auto simp: regions_def)

lemma mem_free_spec:
  assumes ok: "heap_ok h bs" and p: "(p, n) \<in> regions (ram h) bs"
  shows "\<exists>bs'. heap_ok (mem_free (Some p) h) bs' \<and>
    regions (ram (mem_free (Some p) h)) bs' = regions (ram h) bs - {(p, n)}"
proof -
  let ?r = "ram h"
  obtain m where m: "p = m + 8" "n = nxt (?r m) - (m + 8)" "m \<in> set bs" "used (?r m)"
    using p by (auto simp: regions_def)
  then obtain xs ys where bs: "bs = xs @ m # ys" by (meson split_list)
  have l: "layout ?r (xs @ m # ys)" using ok bs by (simp add: heap_ok_def)
  note f = layout_facts [OF l] and d = layout_distinct [OF l]
  define h1 where "h1 = (let h = h\<lparr>ram := set_used m False (ram h)\<rparr> in if m < lfree h then h\<lparr>lfree := m\<rparr> else h)"
  have r1: "ram h1 = set_used m False ?r" by (simp add: h1_def Let_def)
  have free: "mem_free (Some p) h = plug_backward m (plug_forward m h1)"
    using f(3,4) m(1) by (simp add: mem_free_def h1_def plug_holes_def Let_def)
  have lf: "lfree h = first_free ?r (xs @ m # ys)" using ok bs by (simp add: heap_ok_def)
  have same: "first_free (ram h1) xs = first_free ?r xs"
    using d by (intro first_free_cong) (auto simp: r1)
  have "lfree h1 = first_free (ram h1) (xs @ m # ys)"
  proof (cases "\<forall>b \<in> set xs. used (?r b)")
    case True
    have "lfree h = first_free ?r ys" using True lf m(4) by (simp add: first_free_append)
    also have "m < \<dots>"
      using first_free_in [of ys ?r] first_free_all [of ys ?r] f(2-4) by fastforce
    finally show ?thesis using True d by (auto simp: h1_def Let_def first_free_append)
  next
    case False
    then have "lfree h = first_free ?r xs" using lf unfolding first_free_append by argo
    moreover from this have "lfree h < m" using first_free_in [OF False] f(1) by fastforce
    ultimately show ?thesis using False same d by (auto simp: h1_def Let_def first_free_append)
  qed
  moreover have "layout (ram h1) (xs @ m # ys)" using l layout_same [of "xs @ m # ys" "ram h1" ?r] by (simp add: r1)
  moreover have "m \<noteq> MEM_SIZE_ALIGNED" using f(3,4) by simp
  ultimately have pre: "heap_pre h1 (xs @ m # ys)" using ok by (simp add: heap_pre_def heap_ok_def r1)
  have np: "no_free_pair ?r (xs @ m # ys)" using ok bs by (simp add: heap_ok_pre)
  have "no_free_pair ?r xs" "no_free_pair ?r ys"
    using np by (subst (asm) no_free_pair_append, simp add: no_free_pair_snoc no_free_pair_Cons)+
  moreover have "no_free_pair (ram h1) xs = no_free_pair ?r xs" "no_free_pair (ram h1) ys = no_free_pair ?r ys"
    using d by (auto intro!: no_free_pair_cong simp: r1 split: if_splits)
  ultimately have pairs: "no_free_pair (ram h1) xs" "no_free_pair (ram h1) ys" by simp_all
  have fr: "\<not> used (ram h1 m)" by (simp add: r1)
  from plug_forward_step [OF pre fr pairs(2)] obtain ys' where
    1: "heap_pre (plug_forward m h1) (xs @ m # ys')" "no_free_pair (ram (plug_forward m h1)) (m # ys')"
      "regions (ram (plug_forward m h1)) (xs @ m # ys') = regions (ram h1) (xs @ m # ys)"
      "\<And>b. used (ram (plug_forward m h1) b) = used (ram h1 b)" by blast
  have "no_free_pair (ram (plug_forward m h1)) xs = no_free_pair (ram h1) xs"
    using 1(4) by (intro no_free_pair_cong) simp
  with plug_backward_step [OF 1(1) _ _ 1(2)] fr 1(3,4) pairs(1) obtain bs' where
    "heap_ok (mem_free (Some p) h) bs'" "regions (ram (mem_free (Some p) h)) bs' = regions (ram h1) (xs @ m # ys)"
    unfolding free by auto
  then show ?thesis using regions_free [of xs m ys ?r, OF d m(4)] m(1,2) unfolding bs r1 by (intro exI [of _ bs']) (simp only:)
qed

section \<open>Taking a block\<close>

lemma lowest_free_spec:
  "path r p a bs q MEM_SIZE_ALIGNED \<Longrightarrow> lowest_free a r = Some (first_free r bs)"
proof (induction bs arbitrary: p a)
  case Nil
  then show ?case by (subst lowest_free.simps) simp
next
  case (Cons b bs)
  then have b: "a = b" "b + 20 \<le> nxt (r b)" "path r b (nxt (r b)) bs q MEM_SIZE_ALIGNED" by auto
  then have "b \<noteq> MEM_SIZE_ALIGNED" using path_bounds [OF b(3)] by simp
  with Cons.IH [OF b(3)] b(1) show ?case by (subst lowest_free.simps) simp
qed

lemma take_block_spec:
  assumes ok: "heap_ok h (xs @ m # ys)" and free: "\<not> used (ram h m)"
    and sz: "12 \<le> sz" "4 dvd sz" "m + 8 + sz \<le> nxt (ram h m)"
  defines "r' \<equiv> take_block m sz (ram h)"
  shows "\<exists>zs k. layout r' (xs @ m # zs) \<and> used (r' m) \<and> used (r' MEM_SIZE_ALIGNED) \<and>
    no_free_pair r' (xs @ m # zs) \<and> (\<forall>b \<in> set xs. used (r' b) = used (ram h b)) \<and> sz \<le> k \<and>
    regions r' (xs @ m # zs) = insert (m + 8, k) (regions (ram h) (xs @ m # ys))"
proof -
  let ?r = "ram h" and ?k = "m + 8 + sz"
  have l: "layout ?r (xs @ m # ys)" using ok by (simp add: heap_ok_def)
  note f = layout_facts [OF l] and d = layout_distinct [OF l]
  have np: "no_free_pair ?r (xs @ m # ys)" using ok by (simp add: heap_ok_pre)
  then have np': "no_free_pair ?r xs" "no_free_pair ?r ys" "ys = [] \<or> used (?r (hd ys))"
    using free by (subst (asm) no_free_pair_append, simp add: no_free_pair_snoc no_free_pair_Cons)+
  have end_used: "used (?r MEM_SIZE_ALIGNED)" using ok by (simp add: heap_ok_def)
  show ?thesis
  proof (cases "nxt (?r m) - (m + 8) \<ge> sz + 8 + 12")
    case False
    then have r': "r' = set_used m True ?r" by (simp add: r'_def take_block_def)
    have "layout r' (xs @ m # ys)" using l layout_same [of "xs @ m # ys" r' ?r] by (simp add: r')
    moreover have "no_free_pair r' xs = no_free_pair ?r xs" "no_free_pair r' ys = no_free_pair ?r ys"
      "regions r' xs = regions ?r xs" "regions r' ys = regions ?r ys" "\<forall>b \<in> set xs. used (r' b) = used (?r b)"
      using d by (auto intro!: no_free_pair_cong regions_cong simp: r' split: if_splits)
    moreover have "no_free_pair r' (xs @ m # ys)"
      using np' calculation by (subst no_free_pair_append) (simp add: no_free_pair_snoc no_free_pair_Cons r')
    ultimately show ?thesis
      using free sz(3) end_used f(3,4) by (intro exI [of _ ys] exI [of _ "nxt (?r m) - (m + 8)"]) (auto simp: r')
  next
    case True
    then have k: "?k + 20 \<le> nxt (?r m)" using sz(3) by simp
    define r1 where "r1 = set_used m True (set_nxt m ?k (set_prv ?k m (set_nxt ?k (nxt (?r m)) (set_used ?k False ?r))))"
    have r': "r' = (if nxt (?r m) \<noteq> MEM_SIZE_ALIGNED then set_prv (nxt (?r m)) ?k r1 else r1)"
      using True by (simp add: r'_def take_block_def Let_def r1_def)
    have ne: "?k \<noteq> m" "m \<noteq> nxt (?r m)" "?k \<noteq> nxt (?r m)" "\<forall>b \<in> set xs. b < m" "\<forall>b \<in> set ys. ?k < b \<and> b \<noteq> m"
      using k f(1-3) sz(1) by fastforce+
    have e: "?k \<noteq> MEM_SIZE_ALIGNED" "m \<noteq> MEM_SIZE_ALIGNED" using k f(3,4) by simp_all
    have a: "nxt (r' m) = ?k" "prv (r' m) = prv (?r m)" "nxt (r' ?k) = nxt (?r m)" "prv (r' ?k) = m"
      "used (r' m)" "\<not> used (r' ?k)" "used (r' MEM_SIZE_ALIGNED)"
      using ne e end_used by (auto simp: r' r1_def)
    have b: "nxt (r' b) = nxt (?r b)" "used (r' b) = used (?r b)" "b \<noteq> nxt (?r m) \<Longrightarrow> prv (r' b) = prv (?r b)"
      if "b \<in> set (xs @ ys)" for b
      using that ne by (auto simp: r' r1_def)
    have "layout r' (xs @ m # ?k # ys)"
      using k sz f(5,7) a b by (intro layout_split [OF l]) (auto simp: r')
    moreover have "no_free_pair r' xs = no_free_pair ?r xs" "no_free_pair r' ys = no_free_pair ?r ys"
      "regions r' xs = regions ?r xs" "regions r' ys = regions ?r ys" "\<forall>b \<in> set xs. used (r' b) = used (?r b)"
      using b by (auto intro!: no_free_pair_cong regions_cong)
    moreover have "ys = [] \<or> used (r' (hd ys))" using np'(3) b(2) [of "hd ys"] by (cases ys) auto
    then have "no_free_pair r' (xs @ m # ?k # ys)"
      using np' calculation a by (subst no_free_pair_append) (simp add: no_free_pair_snoc no_free_pair_Cons)
    ultimately show ?thesis
      using free a by (intro exI [of _ "?k # ys"] exI [of _ sz]) auto
  qed
qed

definition fits :: "nat \<Rightarrow> (nat \<Rightarrow> smem) \<Rightarrow> nat \<Rightarrow> bool" where
  "fits sz r b \<longleftrightarrow> \<not> used (r b) \<and> b + 8 + sz \<le> nxt (r b)"

lemma malloc_found:
  assumes ok: "heap_ok h (xs @ m # ys)" and fit: "fits sz (ram h) m"
    and sz: "12 \<le> sz" "4 dvd sz" "sz \<le> MEM_SIZE_ALIGNED"
  shows "\<exists>h' bs k. malloc_scan m sz h = Some (Some (m + 8), h') \<and> heap_ok h' bs \<and> sz \<le> k \<and>
    regions (ram h') bs = insert (m + 8, k) (regions (ram h) (xs @ m # ys))"
proof -
  let ?r = "ram h"
  have free: "\<not> used (?r m)" and room: "m + 8 + sz \<le> nxt (?r m)" using fit by (simp_all add: fits_def)
  from take_block_spec [OF ok free sz(1,2) room] obtain zs k where
    t: "layout (take_block m sz ?r) (xs @ m # zs)" "used (take_block m sz ?r m)"
      "used (take_block m sz ?r MEM_SIZE_ALIGNED)" "no_free_pair (take_block m sz ?r) (xs @ m # zs)"
      "\<forall>b \<in> set xs. used (take_block m sz ?r b) = used (?r b)" "sz \<le> k"
      "regions (take_block m sz ?r) (xs @ m # zs) = insert (m + 8, k) (regions ?r (xs @ m # ys))" by blast
  let ?r' = "take_block m sz ?r"
  have l: "layout ?r (xs @ m # ys)" and lf: "lfree h = first_free ?r (xs @ m # ys)" using ok by (simp_all add: heap_ok_def)
  note f = layout_facts [OF l]
  have lt: "m < MEM_SIZE_ALIGNED - sz" using room f(4) sz(3) by simp
  have ff: "first_free ?r' xs = first_free ?r xs" using t(5) by (intro first_free_cong) simp
  have sc: "malloc_scan m sz h = (if m = lfree h
      then Option.bind (lowest_free (lfree h) ?r') (\<lambda>f. Some (Some (m + 8), h\<lparr>ram := ?r', lfree := f\<rparr>))
      else Some (Some (m + 8), h\<lparr>ram := ?r'\<rparr>))"
    using lt free room add_le_imp_le_diff [of sz "m + 8" "nxt (?r m)"]
    by (subst malloc_scan.simps) (simp add: Let_def add.commute)
  show ?thesis
  proof (cases "m = lfree h")
    case True
    have all: "\<forall>b \<in> set xs. used (?r b)"
    proof (rule ccontr)
      assume n: "\<not> ?thesis"
      then have "lfree h = first_free ?r xs" using lf unfolding first_free_append by argo
      then have "m \<in> set xs" using first_free_in [OF n] True by simp
      then show False using layout_distinct [OF l] by simp
    qed
    obtain w q where "path ?r' w m (m # zs) q MEM_SIZE_ALIGNED"
      using t(1) unfolding layout_def path_append by (metis path.simps(2))
    note lw = lowest_free_spec [OF this]
    have "first_free ?r' (xs @ m # zs) = first_free ?r' (m # zs)" using all t(5) by (simp add: first_free_append)
    then have "heap_ok (h\<lparr>ram := ?r', lfree := first_free ?r' (m # zs)\<rparr>) (xs @ m # zs)"
      using t by (simp add: heap_ok_pre heap_pre_def)
    moreover have "malloc_scan m sz h = Some (Some (m + 8), h\<lparr>ram := ?r', lfree := first_free ?r' (m # zs)\<rparr>)"
      using True sc lw by simp
    ultimately show ?thesis using t(6,7)
      by (intro exI [of _ "h\<lparr>ram := ?r', lfree := first_free ?r' (m # zs)\<rparr>"] exI [of _ "xs @ m # zs"] exI [of _ k] conjI)
        (simp_all del: regions_simps first_free_simps)
  next
    case False
    have "\<not> (\<forall>b \<in> set xs. used (?r b))"
    proof
      assume all: "\<forall>b \<in> set xs. used (?r b)"
      have "lfree h = m" using lf free unfolding first_free_append if_P [OF all] by simp
      with False show False by simp
    qed
    then have "first_free ?r' (xs @ m # zs) = lfree h"
      using lf t(5) ff unfolding first_free_append by auto
    then have "heap_ok (h\<lparr>ram := ?r'\<rparr>) (xs @ m # zs)"
      using t by (simp add: heap_ok_pre heap_pre_def)
    then show ?thesis using False sc t(6,7)
      by (intro exI [of _ "h\<lparr>ram := ?r'\<rparr>"] exI [of _ "xs @ m # zs"] exI [of _ k] conjI) (simp_all del: regions_simps)
  qed
qed

lemma malloc_scan_end: "malloc_scan MEM_SIZE_ALIGNED sz h = Some (None, h)"
proof -
  have "\<not> MEM_SIZE_ALIGNED < MEM_SIZE_ALIGNED - sz" by arith
  then show ?thesis by (subst malloc_scan.simps) (simp only: if_False)
qed

lemma malloc_scan_spec:
  assumes sz: "12 \<le> sz" "4 dvd sz" "sz \<le> MEM_SIZE_ALIGNED"
  shows "heap_ok h (xs @ ys) \<Longrightarrow> path (ram h) p a ys q MEM_SIZE_ALIGNED \<Longrightarrow>
    (if \<exists>b \<in> set ys. fits sz (ram h) b
     then \<exists>b h' bs k. malloc_scan a sz h = Some (Some (b + 8), h') \<and> fits sz (ram h) b \<and> b \<in> set ys \<and> heap_ok h' bs \<and>
       sz \<le> k \<and> regions (ram h') bs = insert (b + 8, k) (regions (ram h) (xs @ ys))
     else malloc_scan a sz h = Some (None, h))"
proof (induction ys arbitrary: xs p a)
  case Nil
  then show ?case by (simp add: malloc_scan_end)
next
  case (Cons m ys)
  have m: "a = m" "m + 20 \<le> nxt (ram h m)" "path (ram h) m (nxt (ram h m)) ys q MEM_SIZE_ALIGNED"
    using Cons.prems(2) by auto
  show ?case
  proof (cases "fits sz (ram h) m")
    case True
    then show ?thesis using malloc_found [OF Cons.prems(1) True sz] m(1) by fastforce
  next
    case False
    have "heap_ok h ((xs @ [m]) @ ys)" using Cons.prems(1) by simp
    note ih = Cons.IH [OF this m(3), unfolded append_assoc append_Cons append_Nil]
    have nf: "\<not> (\<not> used (ram h m) \<and> sz \<le> nxt (ram h m) - (m + 8))" using False m(2) by (auto simp: fits_def)
    show ?thesis
    proof (cases "m < MEM_SIZE_ALIGNED - sz")
      case True
      then have "malloc_scan a sz h = malloc_scan (nxt (ram h m)) sz h"
        using nf m(1) by (subst malloc_scan.simps) (auto simp: Let_def)
      moreover have "(\<exists>b \<in> set (m # ys). fits sz (ram h) b) = (\<exists>b \<in> set ys. fits sz (ram h) b)" using False by simp
      ultimately show ?thesis using ih by (metis (no_types, lifting) list.set_intros(2))
    next
      case beyond: False
      have "\<not> fits sz (ram h) b" if b: "b \<in> set (m # ys)" for b
      proof -
        have l: "layout (ram h) (xs @ m # ys)" using Cons.prems(1) by (simp add: heap_ok_def)
        obtain us vs where s: "m # ys = us @ b # vs" using split_list [OF b] by blast
        then have "layout (ram h) ((xs @ us) @ b # vs)" using l by simp
        note f = layout_facts [OF this]
        have "m \<le> b" using path_bounds [OF Cons.prems(2)] b m(1) by auto
        then show ?thesis using f(4) beyond by (auto simp: fits_def)
      qed
      then have "\<not> (\<exists>b \<in> set (m # ys). fits sz (ram h) b)" by blast
      moreover have "malloc_scan a sz h = Some (None, h)" using beyond m(1) by (subst malloc_scan.simps) simp
      ultimately show ?thesis by simp
    qed
  qed
qed

text \<open>The size a request is served with.\<close>

definition served :: "u16 \<Rightarrow> nat" where
  "served n = max 12 (unat (of_nat (LWIP_MEM_ALIGN_SIZE (unat n)) :: u16))"

lemma served_bounds: "12 \<le> served n" "4 dvd served n"
proof -
  have "4 dvd (LWIP_MEM_ALIGN_SIZE k)" for k by (simp add: LWIP_MEM_ALIGN_SIZE_def)
  then have "4 dvd LWIP_MEM_ALIGN_SIZE k mod 65536" for k by (simp add: dvd_mod)
  then have "4 dvd unat (of_nat (LWIP_MEM_ALIGN_SIZE k) :: u16)" for k
    by (simp add: unsigned_of_nat take_bit_eq_mod)
  then show "4 dvd served n" by (simp add: served_def max_def)
qed (simp add: served_def)

lemma served_enough: "unat n \<le> 65532 \<Longrightarrow> unat n \<le> served n"
proof -
  assume n: "unat n \<le> 65532"
  have a: "unat n \<le> LWIP_MEM_ALIGN_SIZE (unat n)" "LWIP_MEM_ALIGN_SIZE (unat n) \<le> 65532"
    using n by (simp_all add: LWIP_MEM_ALIGN_SIZE_def)
  then have "unat (of_nat (LWIP_MEM_ALIGN_SIZE (unat n)) :: u16) = LWIP_MEM_ALIGN_SIZE (unat n)"
    by (simp add: unsigned_of_nat take_bit_nat_eq_self)
  then show ?thesis using a by (simp add: served_def)
qed

lemma mem_malloc_scan:
  "n \<noteq> 0 \<Longrightarrow> mem_malloc n h = (if served n > MEM_SIZE_ALIGNED then Some (None, h) else malloc_scan (lfree h) (served n) h)"
  by (simp add: mem_malloc_def served_def Let_def max_def)

lemma mem_malloc_spec:
  assumes ok: "heap_ok h bs" and n: "n \<noteq> 0" "served n \<le> MEM_SIZE_ALIGNED"
  shows "if \<exists>b \<in> set bs. fits (served n) (ram h) b
    then \<exists>b h' bs' k. mem_malloc n h = Some (Some (b + 8), h') \<and> fits (served n) (ram h) b \<and> b \<in> set bs \<and>
      heap_ok h' bs' \<and> served n \<le> k \<and> regions (ram h') bs' = insert (b + 8, k) (regions (ram h) bs)
    else mem_malloc n h = Some (None, h)"
proof -
  have m: "mem_malloc n h = malloc_scan (lfree h) (served n) h" using mem_malloc_scan [OF n(1), of h] n(2) by simp
  have l: "layout (ram h) bs" and lf: "lfree h = first_free (ram h) bs" using ok by (simp_all add: heap_ok_def)
  show ?thesis
  proof (cases "\<forall>b \<in> set bs. used (ram h b)")
    case True
    then have "lfree h = MEM_SIZE_ALIGNED" using lf by (simp add: first_free_all)
    then have "mem_malloc n h = Some (None, h)" unfolding m by (simp add: malloc_scan_end)
    then show ?thesis using True by (auto simp: fits_def)
  next
    case False
    obtain xs b ys where s: "bs = xs @ b # ys" "\<not> used (ram h b)" "\<forall>c \<in> set xs. used (ram h c)"
      using False split_list_first_prop [of bs "\<lambda>b. \<not> used (ram h b)"] by auto
    have a: "lfree h = b" using lf s by (simp add: first_free_append)
    obtain w q where p: "path (ram h) w b (b # ys) q MEM_SIZE_ALIGNED"
      using l unfolding s(1) layout_def path_append by (metis path.simps(2))
    have "(\<exists>c \<in> set bs. fits (served n) (ram h) c) = (\<exists>c \<in> set (b # ys). fits (served n) (ram h) c)"
      using s by (auto simp: fits_def)
    then show ?thesis
      using malloc_scan_spec [OF served_bounds n(2) ok [unfolded s(1)] p] unfolding m a s(1)
      by (auto split: if_splits)
  qed
qed

section \<open>Shrinking a block\<close>

text \<open>A free block \<open>k\<close> behind the used block \<open>m\<close>, in a heap that differs from the old one only there.\<close>

lemma tail_block:
  assumes l: "layout r' (xs @ m # k # ys)" and np: "no_free_pair r xs" "no_free_pair r ys" "ys = [] \<or> used (r (hd ys))"
    and u: "used (r' m)" "\<not> used (r' k)" "used (r' MEM_SIZE_ALIGNED)"
    and same: "\<And>b. b \<in> set (xs @ ys) \<Longrightarrow> used (r' b) = used (r b) \<and> nxt (r' b) = nxt (r b)"
    and n: "nxt (r' m) = k"
  shows "heap_ok (h\<lparr>ram := r', lfree := if \<forall>b \<in> set xs. used (r b) then k else first_free r xs\<rparr>) (xs @ m # k # ys)"
    "regions r' (xs @ m # k # ys) = insert (m + 8, k - (m + 8)) (regions r (xs @ ys))"
proof -
  have "no_free_pair r' xs" "no_free_pair r' ys" "first_free r' xs = first_free r xs"
    using np same no_free_pair_cong [of xs r' r] no_free_pair_cong [of ys r' r] first_free_cong [of xs r' r] by auto
  moreover have "ys = [] \<or> used (r' (hd ys))" using np(3) same [of "hd ys"] by (cases ys) auto
  ultimately have "no_free_pair r' (xs @ m # k # ys)"
    using u by (subst no_free_pair_append) (simp add: no_free_pair_snoc no_free_pair_Cons)
  moreover have "first_free r' (xs @ m # k # ys) = (if \<forall>b \<in> set xs. used (r b) then k else first_free r xs)"
    using u same \<open>first_free r' xs = first_free r xs\<close> by (auto simp: first_free_append)
  ultimately show "heap_ok (h\<lparr>ram := r', lfree := if \<forall>b \<in> set xs. used (r b) then k else first_free r xs\<rparr>) (xs @ m # k # ys)"
    using l u by (simp add: heap_ok_pre heap_pre_def)
  have "regions r' xs = regions r xs" "regions r' ys = regions r ys" using same by (auto intro!: regions_cong)
  then show "regions r' (xs @ m # k # ys) = insert (m + 8, k - (m + 8)) (regions r (xs @ ys))" using u n by simp
qed

lemma mem_realloc_spec:
  assumes ok: "heap_ok h bs" and p: "(p, n) \<in> regions (ram h) bs"
  shows "if served s > n then mem_realloc p s h = (None, h)
    else \<exists>h' bs' k. mem_realloc p s h = (Some p, h') \<and> heap_ok h' bs' \<and> served s \<le> k \<and> k \<le> n \<and>
      regions (ram h') bs' = insert (p, k) (regions (ram h) bs - {(p, n)})"
proof -
  let ?r = "ram h"
  obtain m where m: "p = m + 8" "n = nxt (?r m) - (m + 8)" "m \<in> set bs" "used (?r m)"
    using p by (auto simp: regions_def)
  then obtain xs ys where bs: "bs = xs @ m # ys" by (meson split_list)
  have l: "layout ?r (xs @ m # ys)" using ok bs by (simp add: heap_ok_def)
  note f = layout_facts [OF l] and d = layout_distinct [OF l]
  have np: "no_free_pair ?r (xs @ m # ys)" and eu: "used (?r MEM_SIZE_ALIGNED)" and lf: "lfree h = first_free ?r (xs @ m # ys)"
    using ok bs by (simp_all add: heap_ok_pre heap_pre_def)
  then have np': "no_free_pair ?r xs" "no_free_pair ?r ys"
    by (subst (asm) no_free_pair_append, simp add: no_free_pair_snoc no_free_pair_Cons)+
  have rest: "regions ?r bs - {(p, n)} = regions ?r (xs @ ys)"
    using d m unfolding bs by (auto simp: regions_def)
  have self: "regions ?r bs = insert (p, n) (regions ?r bs - {(p, n)})" using p by blast
  define sz where "sz = served s"
  note b = served_bounds [of s, folded sz_def]
  have sz: "(let k = unat (of_nat (LWIP_MEM_ALIGN_SIZE (unat s)) :: u16) in if k < 12 then 12 else k) = sz"
    by (simp add: sz_def served_def max_def)
  have big: "sz > MEM_SIZE_ALIGNED \<Longrightarrow> sz > n" using m(2) f(4) by simp
  have in_heap: "\<not> p \<ge> MEM_SIZE_ALIGNED" using m(1) f(3,4) by simp
  have n2: "nxt (?r m) - m - 8 = n" using m(2) by simp
  let ?k = "m + 8 + sz"
  show ?thesis
  proof (cases "sz > n \<or> sz = n")
    case True
    then have "mem_realloc p s h = (if sz > n then None else Some p, h)"
      unfolding mem_realloc_def Let_def using sz [unfolded Let_def] big in_heap m(1) n2 by auto
    then show ?thesis using True ok self unfolding sz_def [symmetric] by auto
  next
    case False
    then have lt: "sz < n" by simp
    then have kk: "m + 20 \<le> ?k" "?k < nxt (?r m)" "4 dvd ?k" using b m(2) f(5) by auto
    have go: "mem_realloc p s h = (let ptr = m; newsize = sz; mem2 = nxt (ram h ptr) in
                   if \<not> used (ram h mem2) then
                     let nx = nxt (ram h mem2);
                         ptr2 = ptr + SIZEOF_STRUCT_MEM + newsize;
                         h = (if lfree h = mem2 then h\<lparr>lfree := ptr2\<rparr> else h);
                         r = set_used ptr2 False (ram h);
                         r = set_nxt ptr2 nx r;
                         r = set_prv ptr2 ptr r;
                         r = set_nxt ptr ptr2 r;
                         r = (if nxt (r ptr2) \<noteq> MEM_SIZE_ALIGNED then set_prv (nxt (r ptr2)) ptr2 r else r)
                     in (Some p, h\<lparr>ram := r\<rparr>)
                   else if newsize + SIZEOF_STRUCT_MEM + MIN_SIZE_ALIGNED \<le> n then
                     let ptr2 = ptr + SIZEOF_STRUCT_MEM + newsize;
                         h = (if ptr2 < lfree h then h\<lparr>lfree := ptr2\<rparr> else h);
                         r = set_used ptr2 False (ram h);
                         r = set_nxt ptr2 (nxt (r ptr)) r;
                         r = set_prv ptr2 ptr r;
                         r = set_nxt ptr ptr2 r;
                         r = (if nxt (r ptr2) \<noteq> MEM_SIZE_ALIGNED then set_prv (nxt (r ptr2)) ptr2 r else r)
                     in (Some p, h\<lparr>ram := r\<rparr>)
                   else (Some p, h))"
      unfolding mem_realloc_def using sz [unfolded Let_def] lt f(4) in_heap m(1,2) n2 by (simp add: Let_def)
    have cases: "mem_realloc p s h = (Some p, h') \<Longrightarrow> ?thesis"
      if "heap_ok h' bs'" "sz \<le> k" "k \<le> n" "regions (ram h') bs' = insert (p, k) (regions ?r (xs @ ys))" for h' bs' k
      using that lt rest unfolding sz_def by auto
    show ?thesis
    proof (cases "used (?r (nxt (?r m)))")
      case False
      then have "ys \<noteq> []" using f(7) eu by auto
      then obtain y zs where ys: "ys = y # zs" and y: "nxt (?r m) = y" using f(8) by (cases ys) auto
      have l2: "layout ?r ((xs @ [m]) @ y # zs)" using l ys by simp
      note g = layout_facts [OF l2]
      have ky: "?k < y" "?k + 20 \<le> nxt (?r y)" using kk(2) y g(3) by simp_all
      have ne: "m < ?k" "m < y" "y < nxt (?r y)" "\<forall>b \<in> set xs. b < m" "\<forall>b \<in> set zs. nxt (?r y) \<le> b"
        using g(1-3) f(1,3) y b(1) by fastforce+
      define r1 where "r1 = set_prv (nxt (?r y)) m (set_nxt m (nxt (?r y)) ?r)"
      have l1: "layout r1 (xs @ m # zs)"
        using ne by (intro layout_merge [OF l [unfolded ys]]) (auto simp: r1_def)
      define r2 where "r2 = set_nxt m ?k (set_prv ?k m (set_nxt ?k (nxt (?r y)) (set_used ?k False ?r)))"
      define r' where "r' = (if nxt (?r y) \<noteq> MEM_SIZE_ALIGNED then set_prv (nxt (?r y)) ?k r2 else r2)"
      have a: "nxt (r' m) = ?k" "prv (r' m) = prv (?r m)" "nxt (r' ?k) = nxt (?r y)" "prv (r' ?k) = m"
        "used (r' m)" "\<not> used (r' ?k)" "used (r' MEM_SIZE_ALIGNED)"
        using ne ky eu m(4) f(3,4) g(4) by (auto simp: r'_def r2_def)
      have c: "nxt (r' b) = nxt (?r b)" "used (r' b) = used (?r b)" "b \<noteq> nxt (?r y) \<Longrightarrow> prv (r' b) = prv (?r b)"
        if "b \<in> set (xs @ zs)" for b
        using that ne ky(1) by (auto simp: r'_def r2_def)
      have hd: "zs \<noteq> [] \<Longrightarrow> prv (r' (nxt (?r y))) = ?k" using g(7) by (simp add: r'_def)
      have "layout r' (xs @ m # ?k # zs)"
        using kk ky a c ne hd by (intro layout_split [OF l1]) (auto simp: r1_def)
      moreover have z: "no_free_pair ?r zs" "zs = [] \<or> used (?r (hd zs))" "regions ?r (xs @ ys) = regions ?r (xs @ zs)"
        using np'(2) False y unfolding ys by (auto simp: no_free_pair_Cons)
      ultimately have t: "heap_ok (h\<lparr>ram := r', lfree := if \<forall>b \<in> set xs. used (?r b) then ?k else first_free ?r xs\<rparr>) (xs @ m # ?k # zs)"
        "regions r' (xs @ m # ?k # zs) = insert (m + 8, ?k - (m + 8)) (regions ?r (xs @ zs))"
        using tail_block(1) [of r' xs m ?k zs ?r h] tail_block(2) [of r' xs m ?k zs ?r] np'(1) a c by auto
      have "lfree h = (if \<forall>b \<in> set xs. used (?r b) then y else first_free ?r xs)"
        using lf False m(4) y unfolding ys first_free_append by simp
      moreover have "\<not> (\<forall>b \<in> set xs. used (?r b)) \<Longrightarrow> first_free ?r xs \<noteq> y"
        using first_free_in [of xs ?r] ne by fastforce
      ultimately have "mem_realloc p s h = (Some p, h\<lparr>ram := r', lfree := if \<forall>b \<in> set xs. used (?r b) then ?k else first_free ?r xs\<rparr>)"
        unfolding go Let_def using False y ne by (auto simp: r'_def r2_def)
      then show ?thesis using t z(3) lt m(1) by (intro cases [of _ "xs @ m # ?k # zs" sz]) auto
    next
      case True
      show ?thesis
      proof (cases "sz + 20 \<le> n")
        case False
        then have "mem_realloc p s h = (Some p, h)" unfolding go Let_def using \<open>used (?r (nxt (?r m)))\<close> by simp
        then show ?thesis using lt ok self rest by (intro cases [of _ bs n]) auto
      next
        case room: True
        then have k: "?k + 20 \<le> nxt (?r m)" using m(2) by simp
        have ne: "m < ?k" "?k < nxt (?r m)" "\<forall>b \<in> set xs. b < m" "\<forall>b \<in> set ys. nxt (?r m) \<le> b"
          using f(1,2) k by fastforce+
        define r2 where "r2 = set_nxt m ?k (set_prv ?k m (set_nxt ?k (nxt (?r m)) (set_used ?k False ?r)))"
        define r' where "r' = (if nxt (?r m) \<noteq> MEM_SIZE_ALIGNED then set_prv (nxt (?r m)) ?k r2 else r2)"
        have a: "nxt (r' m) = ?k" "prv (r' m) = prv (?r m)" "nxt (r' ?k) = nxt (?r m)" "prv (r' ?k) = m"
          "used (r' m)" "\<not> used (r' ?k)" "used (r' MEM_SIZE_ALIGNED)"
          using ne eu m(4) f(3,4) by (auto simp: r'_def r2_def)
        have c: "nxt (r' b) = nxt (?r b)" "used (r' b) = used (?r b)" "b \<noteq> nxt (?r m) \<Longrightarrow> prv (r' b) = prv (?r b)"
          if "b \<in> set (xs @ ys)" for b
          using that ne by (auto simp: r'_def r2_def)
        have hd: "ys \<noteq> [] \<Longrightarrow> prv (r' (nxt (?r m))) = ?k" using f(7) by (simp add: r'_def)
        have "layout r' (xs @ m # ?k # ys)"
          using kk k a c hd by (intro layout_split [OF l]) auto
        moreover have "ys = [] \<or> used (?r (hd ys))" using True f(8) by (cases "ys = []") simp_all
        ultimately have t: "heap_ok (h\<lparr>ram := r', lfree := if \<forall>b \<in> set xs. used (?r b) then ?k else first_free ?r xs\<rparr>) (xs @ m # ?k # ys)"
          "regions r' (xs @ m # ?k # ys) = insert (m + 8, ?k - (m + 8)) (regions ?r (xs @ ys))"
          using tail_block(1) [of r' xs m ?k ys ?r h] tail_block(2) [of r' xs m ?k ys ?r] np' a c by auto
        have "lfree h = (if \<forall>b \<in> set xs. used (?r b) then first_free ?r ys else first_free ?r xs)"
          using lf m(4) unfolding first_free_append by simp
        moreover have "?k < first_free ?r ys"
          using first_free_in [of ys ?r] first_free_all [of ys ?r] ne f(4) by fastforce
        moreover have "\<not> (\<forall>b \<in> set xs. used (?r b)) \<Longrightarrow> first_free ?r xs < ?k"
          using first_free_in [of xs ?r] ne by fastforce
        ultimately have lf2: "(if ?k < lfree h then ?k else lfree h) = (if \<forall>b \<in> set xs. used (?r b) then ?k else first_free ?r xs)"
          by (cases "\<forall>b \<in> set xs. used (?r b)") simp_all
        have "mem_realloc p s h = (Some p, h\<lparr>ram := r', lfree := if \<forall>b \<in> set xs. used (?r b) then ?k else first_free ?r xs\<rparr>)"
          unfolding go Let_def lf2 [symmetric] using True room ne by (auto simp: r'_def r2_def)
        then show ?thesis using t lt m(1) by (intro cases [of _ "xs @ m # ?k # ys" sz]) auto
      qed
    qed
  qed
qed

section \<open>Runs\<close>

lemma mem_init_ok: "heap_ok (mem_init h) [0]" "regions (ram (mem_init h)) [0] = {}"
  by (simp_all add: heap_ok_pre heap_pre_def layout_def mem_init_def Let_def)

text \<open>
  The state of a run is the heap and the regions its clients hold; a client frees and shrinks only what
  it holds.
\<close>

inductive mem_step :: "mheap \<times> (nat \<times> nat) set \<Rightarrow> mheap \<times> (nat \<times> nat) set \<Rightarrow> bool" where
  fails: "mem_malloc n h = Some (None, h') \<Longrightarrow> mem_step (h, A) (h', A)"
| takes: "mem_malloc n h = Some (Some p, h') \<Longrightarrow> k = nxt (ram h' (p - 8)) - p \<Longrightarrow> mem_step (h, A) (h', insert (p, k) A)"
| frees: "(p, k) \<in> A \<Longrightarrow> mem_step (h, A) (mem_free (Some p) h, A - {(p, k)})"
| shrinks: "(p, k) \<in> A \<Longrightarrow> mem_realloc p n h = (Some q, h') \<Longrightarrow> k' = nxt (ram h' (p - 8)) - p \<Longrightarrow>
    mem_step (h, A) (h', insert (q, k') (A - {(p, k)}))"

inductive mem_reach :: "mheap \<times> (nat \<times> nat) set \<Rightarrow> bool" where
  start: "mem_reach (mem_init h, {})"
| step: "mem_reach s \<Longrightarrow> mem_step s s' \<Longrightarrow> mem_reach s'"

definition mem_inv :: "mheap \<times> (nat \<times> nat) set \<Rightarrow> bool" where
  "mem_inv s \<longleftrightarrow> (\<exists>bs. heap_ok (fst s) bs \<and> regions (ram (fst s)) bs = snd s)"

lemma region_length: "(p, k) \<in> regions r bs \<Longrightarrow> k = nxt (r (p - 8)) - p"
  by (auto simp: regions_def)

lemma mem_malloc_cases:
  assumes "heap_ok h bs" "mem_malloc n h = Some (o', h')"
  shows "(o' = None \<and> h' = h) \<or> (\<exists>p bs' k. o' = Some p \<and> n \<noteq> 0 \<and> served n \<le> k \<and> heap_ok h' bs' \<and>
    k = nxt (ram h' (p - 8)) - p \<and> regions (ram h') bs' = insert (p, k) (regions (ram h) bs) \<and>
    (p, k) \<notin> regions (ram h) bs)"
proof (cases "n = 0 \<or> served n > MEM_SIZE_ALIGNED")
  case True
  then have "mem_malloc n h = Some (None, h)"
    using mem_malloc_scan [of n h] by (cases "n = 0") (simp_all add: mem_malloc_def)
  then show ?thesis using assms(2) by simp
next
  case False
  then have n: "n \<noteq> 0" "served n \<le> MEM_SIZE_ALIGNED" by simp_all
  show ?thesis
  proof (cases "\<exists>b \<in> set bs. fits (served n) (ram h) b")
    case True
    then obtain b h'' bs' k where "mem_malloc n h = Some (Some (b + 8), h'')" "heap_ok h'' bs'" "served n \<le> k"
      "regions (ram h'') bs' = insert (b + 8, k) (regions (ram h) bs)" "fits (served n) (ram h) b"
      using mem_malloc_spec [OF assms(1) n] by auto
    moreover from this(5) have "(b + 8, k) \<notin> regions (ram h) bs" by (auto simp: regions_def fits_def)
    ultimately show ?thesis using assms(2) n(1) region_length [of "b + 8" k "ram h''" bs'] by auto
  next
    case False
    then have "mem_malloc n h = Some (None, h)" using mem_malloc_spec [OF assms(1) n] by simp
    then show ?thesis using assms(2) by simp
  qed
qed

lemma mem_step_inv: "mem_step s s' \<Longrightarrow> mem_inv s \<Longrightarrow> mem_inv s'"
proof (induction rule: mem_step.induct)
  case (fails n h h' A)
  then show ?case using mem_malloc_cases by (fastforce simp: mem_inv_def)
next
  case (takes n h p h' k A)
  then obtain bs where "heap_ok h bs" "regions (ram h) bs = A" by (auto simp: mem_inv_def)
  with mem_malloc_cases [OF this(1) takes(1)] takes(2) show ?case by (auto simp: mem_inv_def)
next
  case (frees p k A h)
  then show ?case using mem_free_spec [of h _ p k] by (fastforce simp: mem_inv_def)
next
  case (shrinks p k A n h q h' k')
  then obtain bs where bs: "heap_ok h bs" "regions (ram h) bs = A" by (auto simp: mem_inv_def)
  with shrinks(1) have p: "(p, k) \<in> regions (ram h) bs" by simp
  have "\<not> served n > k" using mem_realloc_spec [OF bs(1) p, of n] shrinks(2) by auto
  then obtain h'' bs' j where m: "mem_realloc p n h = (Some p, h'')" "heap_ok h'' bs'"
    "regions (ram h'') bs' = insert (p, j) (A - {(p, k)})"
    using mem_realloc_spec [OF bs(1) p, of n] bs(2) by auto
  then have "j = k'" "q = p" "h'' = h'" using shrinks(2,3) region_length [of p j "ram h''" bs'] by auto
  then show ?case using m by (auto simp: mem_inv_def)
qed

lemma mem_reach_inv: "mem_reach s \<Longrightarrow> mem_inv s"
proof (induction rule: mem_reach.induct)
  case (start h)
  show ?case unfolding mem_inv_def fst_conv snd_conv using mem_init_ok [of h] by blast
qed (rule mem_step_inv)

text \<open>The bytes of a region and of its header.\<close>

definition extent :: "nat \<times> nat \<Rightarrow> nat set" where
  "extent a = {fst a - 8 ..< fst a + snd a}"

lemma regions_placed:
  assumes "layout r bs" "(p, k) \<in> regions r bs"
  shows "8 \<le> p" "4 dvd p" "12 \<le> k" "4 dvd k" "p + k \<le> MEM_SIZE_ALIGNED" "p - 8 \<in> set bs" "nxt (r (p - 8)) = p + k"
    "used (r (p - 8))"
proof -
  obtain m where m: "p = m + 8" "k = nxt (r m) - (m + 8)" "m \<in> set bs" "used (r m)" using assms(2) by (auto simp: regions_def)
  obtain xs ys where "bs = xs @ m # ys" using m(3) by (meson split_list)
  with assms(1) have "layout r (xs @ m # ys)" by simp
  note f = layout_facts [OF this]
  show "8 \<le> p" "4 dvd p" "12 \<le> k" "4 dvd k" "p + k \<le> MEM_SIZE_ALIGNED" "p - 8 \<in> set bs" "nxt (r (p - 8)) = p + k"
    "used (r (p - 8))"
    using m f(3-6) by (auto simp: dvd_diff_nat)
qed

lemma blocks_apart:
  assumes l: "layout r bs" and a: "a \<in> set bs" and b: "b \<in> set bs" and ne: "a \<noteq> b"
  shows "nxt (r a) \<le> b \<or> nxt (r b) \<le> a"
proof -
  obtain xs ys where s: "bs = xs @ a # ys" using a by (meson split_list)
  then have f: "layout r (xs @ a # ys)" using l by simp
  show ?thesis
  proof (cases "b \<in> set ys")
    case True
    then show ?thesis using layout_facts(2) [OF f] by simp
  next
    case False
    then have "b \<in> set xs" using b ne s by simp
    then obtain us vs where "xs = us @ b # vs" by (meson split_list)
    with f have "layout r (us @ b # (vs @ a # ys))" by simp
    from layout_facts(2) [OF this] show ?thesis by simp
  qed
qed

lemma regions_disjoint:
  assumes "layout r bs" "x \<in> regions r bs" "y \<in> regions r bs" "x \<noteq> y"
  shows "extent x \<inter> extent y = {}"
proof -
  obtain p k where x: "x = (p, k)" by (cases x)
  obtain q j where y: "y = (q, j)" by (cases y)
  have px: "(p, k) \<in> regions r bs" and py: "(q, j) \<in> regions r bs" using assms x y by simp_all
  note rx = regions_placed [OF assms(1) px] and ry = regions_placed [OF assms(1) py]
  have ne: "p - 8 \<noteq> q - 8"
    using assms(4) rx(1) ry(1) region_length [OF px] region_length [OF py] x y by (metis le_add_diff_inverse2)
  from blocks_apart [OF assms(1) rx(6) ry(6) ne] show ?thesis
    using rx(7) ry(7) x y by (auto simp: extent_def)
qed

lemma path_covers: "path r p a bs q z \<Longrightarrow> a \<le> c \<Longrightarrow> c < z \<Longrightarrow> \<exists>m \<in> set bs. m \<le> c \<and> c < nxt (r m)"
proof (induction bs arbitrary: p a)
  case (Cons b bs)
  then show ?case by (cases "c < nxt (r b)") auto
qed simp

text \<open>A gap between the regions handed out is inside one free block, since free neighbours are joined.\<close>

lemma gap_fits:
  assumes ok: "heap_ok h bs" and gap: "b + 8 + sz \<le> MEM_SIZE_ALIGNED"
    and free: "\<And>x. x \<in> regions (ram h) bs \<Longrightarrow> extent x \<inter> {b ..< b + 8 + sz} = {}"
  shows "\<exists>m \<in> set bs. fits sz (ram h) m"
proof -
  let ?r = "ram h"
  have l: "layout ?r bs" using ok by (simp add: heap_ok_def)
  have not_used: "\<not> used (?r c)" if c: "c \<in> set bs" "c \<le> e" "e < nxt (?r c)" "b \<le> e" "e < b + 8 + sz" for c e
  proof
    assume "used (?r c)"
    then have "(c + 8, nxt (?r c) - (c + 8)) \<in> regions ?r bs" using c(1) by (auto simp: regions_def)
    from free [OF this] show False using c(2-5) by (auto simp: extent_def)
  qed
  obtain m where m: "m \<in> set bs" "m \<le> b" "b < nxt (?r m)"
    using l path_covers [of ?r 0 0 bs _ MEM_SIZE_ALIGNED b] gap by (auto simp: layout_def)
  obtain xs ys where s: "bs = xs @ m # ys" using m(1) by (meson split_list)
  note f = layout_facts [OF l [unfolded s]]
  have m_free: "\<not> used (?r m)" using not_used [of m b] m by simp
  have "b + 8 + sz \<le> nxt (?r m)"
  proof (rule ccontr)
    assume less: "\<not> ?thesis"
    then have ne: "ys \<noteq> []" using f(7) gap by auto
    then obtain y zs where y: "ys = y # zs" "y = nxt (?r m)" using f(8) by (cases ys) auto
    have "layout ?r ((xs @ [m]) @ y # zs)" using l s y(1) by simp
    then have "y < nxt (?r y)" using layout_facts(3) by fastforce
    then have "\<not> used (?r y)" using not_used [of y y] less m(3) y s by auto
    moreover have "no_free_pair ?r (xs @ m # ys)" using ok s by (simp add: heap_ok_pre)
    ultimately show False
      using m_free y(1) by (subst (asm) no_free_pair_append) (simp add: no_free_pair_Cons)
  qed
  then show ?thesis using m m_free by (intro bexI [of _ m]) (simp_all add: fits_def)
qed

text \<open>C36: the heap is safe in every run. The regions its clients hold lie inside the heap, are aligned to
  four bytes, hold at least twelve, and overlap neither each other nor each other's headers; and the next
  allocation returns.\<close>

theorem mem_regions_safe:
  assumes "mem_reach (h, A)"
  shows "(\<forall>x \<in> A. 8 \<le> fst x \<and> 4 dvd fst x \<and> 12 \<le> snd x \<and> fst x + snd x \<le> MEM_SIZE_ALIGNED) \<and>
    pairwise (\<lambda>x y. extent x \<inter> extent y = {}) A \<and> mem_malloc n h \<noteq> None"
proof -
  obtain bs where ok: "heap_ok h bs" and A: "regions (ram h) bs = A"
    using mem_reach_inv [OF assms] by (auto simp: mem_inv_def)
  then have l: "layout (ram h) bs" by (simp add: heap_ok_def)
  have "mem_malloc n h \<noteq> None"
  proof (cases "n = 0 \<or> served n > MEM_SIZE_ALIGNED")
    case True
    then show ?thesis using mem_malloc_scan [of n h] by (cases "n = 0") (simp_all add: mem_malloc_def)
  next
    case False
    then show ?thesis using mem_malloc_spec [OF ok, of n] by (auto split: if_splits)
  qed
  moreover have "\<forall>x \<in> A. 8 \<le> fst x \<and> 4 dvd fst x \<and> 12 \<le> snd x \<and> fst x + snd x \<le> MEM_SIZE_ALIGNED"
    using regions_placed [OF l] A by auto
  moreover have "pairwise (\<lambda>x y. extent x \<inter> extent y = {}) A"
    unfolding pairwise_def A [symmetric] using regions_disjoint [OF l] by blast
  ultimately show ?thesis by blast
qed

lemma first_malloc:
  assumes "n \<noteq> 0" "served n \<le> 20452"
  shows "mem_malloc n (mem_init h) =
    Some (Some 8, h\<lparr>ram := take_block 0 (served n) (ram (mem_init h)), lfree := 8 + served n\<rparr>)"
proof -
  have "lowest_free 0 (take_block 0 (served n) (ram (mem_init h))) = Some (8 + served n)"
    using assms(2) by (subst lowest_free.simps, subst lowest_free.simps) (simp add: take_block_def mem_init_def Let_def)
  moreover have "served n \<le> 20472" "served n < 20480" using assms(2) by simp_all
  ultimately show ?thesis
    using assms(1) by (subst mem_malloc_scan, simp, subst malloc_scan.simps) (simp add: mem_init_def Let_def)
qed

lemma first_region:
  assumes "n \<noteq> 0" "served n \<le> 20452"
  shows "\<exists>h'. mem_reach (h', {(8, served n)}) \<and> mem_malloc n (mem_init h) = Some (Some 8, h') \<and> lfree h' = 8 + served n"
proof -
  let ?h = "h\<lparr>ram := take_block 0 (served n) (ram (mem_init h)), lfree := 8 + served n\<rparr>"
  have "served n = nxt (ram ?h (8 - 8)) - 8" using assms(2) by (simp add: take_block_def mem_init_def Let_def)
  from mem_step.takes [OF first_malloc [OF assms, of h] this, of "{}"]
  have "mem_reach (?h, {(8, served n)})" using mem_reach.step [OF mem_reach.start] by simp
  then show ?thesis using first_malloc [OF assms, of h] by auto
qed

lemma mem_regions_safe_witness:
  "\<exists>h. mem_reach (h, {(8, 100)}) \<and> pairwise (\<lambda>x y. extent x \<inter> extent y = {}) {(8, 100)} \<and> mem_malloc 50 h \<noteq> None"
proof -
  have s: "served 100 = 100" by (simp add: served_def LWIP_MEM_ALIGN_SIZE_def)
  obtain h where "mem_reach (h, {(8, 100)})" using first_region [of 100 undefined] s by auto
  from this mem_regions_safe [OF this, of 50] show ?thesis by blast
qed

text \<open>C35: an allocation is served whenever it can be. A request of 1 to 65532 bytes that comes back with a
  null pointer leaves the heap as it is, and there was no gap between the regions held that could take
  the rounded size and a header; one that comes back with a pointer hands out a new region that holds the
  bytes asked for.\<close>

theorem mem_malloc_served:
  assumes r: "mem_reach (h, A)" and n: "0 < unat n" "unat n \<le> 65532" and m: "mem_malloc n h = Some (o', h')"
  shows "case o' of
      None \<Rightarrow> h' = h \<and> (\<forall>b. b + 8 + served n \<le> MEM_SIZE_ALIGNED \<longrightarrow> (\<exists>x \<in> A. extent x \<inter> {b ..< b + 8 + served n} \<noteq> {}))
    | Some p \<Rightarrow> \<exists>k. unat n \<le> k \<and> (p, k) \<notin> A \<and> mem_reach (h', insert (p, k) A)"
proof -
  obtain bs where ok: "heap_ok h bs" and A: "regions (ram h) bs = A"
    using mem_reach_inv [OF r] by (auto simp: mem_inv_def)
  have n0: "n \<noteq> 0" using n(1) by auto
  show ?thesis
  proof (cases o')
    case None
    then have h: "h' = h" using mem_malloc_cases [OF ok m] by simp
    have "\<exists>x \<in> A. extent x \<inter> {b ..< b + 8 + served n} \<noteq> {}" if b: "b + 8 + served n \<le> MEM_SIZE_ALIGNED" for b
    proof (rule ccontr)
      assume "\<not> ?thesis"
      then have "\<exists>m \<in> set bs. fits (served n) (ram h) m" using gap_fits [OF ok b] A by blast
      then show False using mem_malloc_spec [OF ok n0] b m None by auto
    qed
    then show ?thesis using None h by simp
  next
    case (Some p)
    define k where "k = nxt (ram h' (p - 8)) - p"
    obtain bs' where bs': "served n \<le> k" "(p, k) \<notin> A"
      using mem_malloc_cases [OF ok m] Some A k_def by auto
    have "mem_reach (h', insert (p, k) A)"
      using mem_reach.step [OF r mem_step.takes [OF m [unfolded Some] k_def]] .
    then show ?thesis using Some bs' served_enough [OF n(2)] by (auto intro!: exI [of _ k])
  qed
qed

lemma mem_malloc_served_witness:
  "\<exists>h h' o'. mem_reach (h, {(8, 100)}) \<and> mem_malloc 20380 h = Some (o', h') \<and>
    (case o' of
      None \<Rightarrow> h' = h \<and> (\<forall>b. b + 8 + served 20380 \<le> MEM_SIZE_ALIGNED \<longrightarrow> (\<exists>x \<in> {(8, 100)}. extent x \<inter> {b ..< b + 8 + served 20380} \<noteq> {}))
    | Some p \<Rightarrow> \<exists>k. unat (20380 :: u16) \<le> k \<and> (p, k) \<notin> {(8, 100)} \<and> mem_reach (h', insert (p, k) {(8, 100)}))"
proof -
  have s: "served 100 = 100" by (simp add: served_def LWIP_MEM_ALIGN_SIZE_def)
  obtain h where h: "mem_reach (h, {(8, 100)})" using first_region [of 100 undefined] s by auto
  obtain o' h' where m: "mem_malloc 20380 h = Some (o', h')" using mem_regions_safe [OF h, of 20380] by auto
  show ?thesis
    using h m mem_malloc_served [OF h _ _ m] by (intro exI [of _ h] exI [of _ h'] exI [of _ o'] conjI) simp_all
qed

text \<open>The allocator neither leaks nor fragments for good. When every region has been given back, in
  whatever order, the heap is a single free block again and a request for any size up to 20452 bytes is
  served from its start.\<close>

theorem mem_all_freed:
  assumes "mem_reach (h, {})"
  shows "nxt (ram h 0) = MEM_SIZE_ALIGNED \<and> \<not> used (ram h 0) \<and> lfree h = 0"
proof -
  obtain bs where ok: "heap_ok h bs" and none: "regions (ram h) bs = {}"
    using mem_reach_inv [OF assms] by (auto simp: mem_inv_def)
  then have free: "\<forall>b \<in> set bs. \<not> used (ram h b)" by (auto simp: regions_def)
  have l: "layout (ram h) bs" using ok by (simp add: heap_ok_def)
  obtain b bs' where bs: "bs = b # bs'" using l by (cases bs) (auto simp: layout_def)
  have "no_free_pair (ram h) (b # bs')" using ok bs by (simp add: heap_ok_pre)
  then have nil: "bs' = []" using free bs by (cases bs') auto
  then have "layout (ram h) ([] @ b # [])" using l bs by simp
  from layout_facts(7,11) [OF this] show ?thesis using ok free bs nil by (simp add: heap_ok_def first_free_def)
qed

lemma mem_all_freed_witness:
  "\<exists>h. mem_reach (mem_free (Some 8) h, {}) \<and> nxt (ram (mem_free (Some 8) h) 0) = MEM_SIZE_ALIGNED"
proof -
  obtain h where "mem_reach (h, {(8, served 100)})"
    using first_region [of 100 undefined] by (auto simp: served_def LWIP_MEM_ALIGN_SIZE_def)
  from mem_reach.step [OF this mem_step.frees [of 8 "served 100"]]
  have r: "mem_reach (mem_free (Some 8) h, {})" by simp
  from r mem_all_freed [OF r] show ?thesis by blast
qed

text \<open>The rounded size of a request is kept in 16 bits. Requests for 65533 to 65535 bytes are rounded
  to zero, pass the test against the heap's size and are served with a block of 12 bytes.\<close>

theorem mem_malloc_wraps:
  assumes "65533 \<le> unat n"
  shows "\<exists>h'. mem_malloc n (mem_init h) = Some (Some 8, h') \<and> mem_reach (h', {(8, 12)})"
proof -
  have u: "unat n \<le> 65535" using unsigned_less [of n, where ?'a = nat] by simp
  have "LWIP_MEM_ALIGN_SIZE (unat n) = 65536"
    using assms u by (auto simp: LWIP_MEM_ALIGN_SIZE_def)
  then have s: "served n = 12" by (simp add: served_def unsigned_of_nat take_bit_eq_mod)
  have "n \<noteq> 0" using assms by auto
  then show ?thesis using first_region [of n h] s by auto
qed

lemma mem_malloc_wraps_witness: "\<exists>h'. mem_malloc 65534 (mem_init undefined) = Some (Some 8, h') \<and> mem_reach (h', {(8, 12)})"
  by (rule mem_malloc_wraps) simp

section \<open>What the heap promises\<close>

text \<open>
  The abstract allocator knows only the regions handed out: it may refuse, hand out a region inside the
  arena and apart from the others, take one back, and shorten one in place.
\<close>

inductive alloc_step :: "(nat \<times> nat) set \<Rightarrow> (nat \<times> nat) set \<Rightarrow> bool" where
  refuse: "alloc_step A A"
| hand_out: "8 \<le> p \<Longrightarrow> p + k \<le> MEM_SIZE_ALIGNED \<Longrightarrow> \<forall>x \<in> A. extent x \<inter> extent (p, k) = {} \<Longrightarrow> alloc_step A (insert (p, k) A)"
| take_back: "(p, k) \<in> A \<Longrightarrow> alloc_step A (A - {(p, k)})"
| shorten: "(p, k) \<in> A \<Longrightarrow> j \<le> k \<Longrightarrow> alloc_step A (insert (p, j) (A - {(p, k)}))"

text \<open>C37: the heap implements the abstract allocator. Every step of a run, seen through the regions handed
  out, is a step of the allocator.\<close>

theorem mem_refines_alloc:
  assumes "mem_reach (h, A)" "mem_step (h, A) (h', A')"
  shows "alloc_step A A'"
proof -
  obtain bs where ok: "heap_ok h bs" and A: "regions (ram h) bs = A"
    using mem_reach_inv [OF assms(1)] by (auto simp: mem_inv_def)
  from assms(2) show ?thesis
  proof cases
    case (takes n p k)
    obtain bs' where b: "heap_ok h' bs'" "regions (ram h') bs' = insert (p, k) A" "(p, k) \<notin> A"
      using mem_malloc_cases [OF ok takes(2)] takes(3) A by auto
    then have l: "layout (ram h') bs'" by (simp add: heap_ok_def)
    have "8 \<le> p" "p + k \<le> MEM_SIZE_ALIGNED" using regions_placed [OF l, of p k] b(2) by simp_all
    moreover have "\<forall>x \<in> A. extent x \<inter> extent (p, k) = {}" using regions_disjoint [OF l, of _ "(p, k)"] b(2,3) by auto
    ultimately show ?thesis unfolding takes(1) by (rule alloc_step.hand_out)
  next
    case (shrinks p k n q k')
    have p: "(p, k) \<in> regions (ram h) bs" using shrinks(2) A by simp
    have "\<not> served n > k" using mem_realloc_spec [OF ok p, of n] shrinks(3) by auto
    then obtain h'' bs' j where "mem_realloc p n h = (Some p, h'')" "j \<le> k"
      "regions (ram h'') bs' = insert (p, j) (A - {(p, k)})"
      using mem_realloc_spec [OF ok p, of n] A by auto
    then have "k' \<le> k" "q = p" using shrinks(3,4) region_length [of p j "ram h''" bs'] by auto
    then show ?thesis using shrinks(1,2) by (simp add: alloc_step.shorten)
  qed (auto intro: alloc_step.intros)
qed

lemma mem_refines_alloc_witness:
  "\<exists>h h'. mem_reach (h, {(8, 100)}) \<and> mem_step (h, {(8, 100)}) (h', {}) \<and> alloc_step {(8, 100)} {}"
proof -
  have s: "served 100 = 100" by (simp add: served_def LWIP_MEM_ALIGN_SIZE_def)
  obtain h where h: "mem_reach (h, {(8, 100)})" using first_region [of 100 undefined] s by auto
  have st: "mem_step (h, {(8, 100)}) (mem_free (Some 8) h, {})" using mem_step.frees [of 8 100 "{(8, 100)}" h] by simp
  from h st mem_refines_alloc [OF h st] show ?thesis by blast
qed

end
