(* ===== verification/Pbuf.thy ===== *)
theory Pbuf
  imports Prelude Memp Mem
begin

text \<open>
  The packet buffers of lwIP, \<^verbatim>\<open>pbuf.c\<close>: chains of buffers that share their memory between the pools
  and the heap. A buffer is a record found by its address; an address that holds no buffer (a null
  pointer, or one that has been given back) makes the operation that follows it undefined, which is the
  value \<open>None\<close>, as is a walk along a cyclic chain. The bytes are kept apart from the records: the region
  behind each record, and numbered regions for memory that belongs to others. \<^verbatim>\<open>LWIP_ASSERT\<close> does nothing in
  this build (its platform hook tests the message, which is never null); \<^verbatim>\<open>LWIP_ERROR\<close> runs its handler.

  The results describe a chain by the list of its buffers: what giving it back does for every pattern of
  reference counts, what joining, shortening and copying do to the bytes it carries, and that a failed
  allocation gives back what it took.
\<close>

datatype addr = Memp nat | Heap nat

datatype region = Own addr | Ext nat

type_synonym ptr = "region \<times> int"

datatype pbuf_layer = PBUF_TRANSPORT | PBUF_IP | PBUF_LINK | PBUF_RAW

datatype pbuf_type = PBUF_RAM | PBUF_ROM | PBUF_REF | PBUF_POOL

datatype err_t = ERR_OK | ERR_MEM | ERR_BUF | ERR_TIMEOUT | ERR_RTE | ERR_ABRT | ERR_RST | ERR_CLSD | ERR_CONN
  | ERR_VAL | ERR_ARG | ERR_USE | ERR_IF | ERR_ISCONN | ERR_INPROGRESS

record pbuf =
  p_next :: "addr option"
  payload :: ptr
  tot_len :: u16
  plen :: u16
  ptype :: pbuf_type
  pflags :: u8
  pref :: u16

record pmem =
  pbs :: "addr \<Rightarrow> pbuf option"
  dat :: "region \<Rightarrow> int \<Rightarrow> u8"
  pools :: memp_tab
  heap :: mheap

abbreviation (input) SIZEOF_STRUCT_PBUF :: nat where "SIZEOF_STRUCT_PBUF \<equiv> 16"
abbreviation (input) PBUF_POOL_BUFSIZE_ALIGNED :: nat where "PBUF_POOL_BUFSIZE_ALIGNED \<equiv> 1500"

definition null_ptr :: ptr where "null_ptr = (Ext 0, 0)"

definition put :: "addr \<Rightarrow> pbuf \<Rightarrow> pmem \<Rightarrow> pmem" where
  "put p b s = s\<lparr>pbs := (pbs s)(p \<mapsto> b)\<rparr>"

definition read_at :: "ptr \<Rightarrow> nat \<Rightarrow> (region \<Rightarrow> int \<Rightarrow> u8) \<Rightarrow> u8 list" where
  "read_at a n d = map (\<lambda>i. d (fst a) (snd a + int i)) [0..<n]"

definition write_at :: "ptr \<Rightarrow> u8 list \<Rightarrow> (region \<Rightarrow> int \<Rightarrow> u8) \<Rightarrow> region \<Rightarrow> int \<Rightarrow> u8" where
  "write_at a bs d = d(fst a := (\<lambda>i. if snd a \<le> i \<and> i < snd a + int (length bs) then bs ! nat (i - snd a) else d (fst a) i))"

definition padd :: "ptr \<Rightarrow> u16 \<Rightarrow> ptr" where
  "padd a n = (fst a, snd a + uint n)"

definition MEMCPY :: "ptr \<Rightarrow> ptr \<Rightarrow> u16 \<Rightarrow> pmem \<Rightarrow> pmem" where
  "MEMCPY dst src n s = s\<lparr>dat := write_at dst (read_at src (unat n) (dat s)) (dat s)\<rparr>"

section \<open>Giving buffers back\<close>

definition release :: "addr \<Rightarrow> pbuf_type \<Rightarrow> pmem \<Rightarrow> pmem option" where
  "release p type s =
     (let s' = s\<lparr>pbs := (pbs s)(p := None)\<rparr> in
      case p of
        Memp n \<Rightarrow> if type = PBUF_POOL then Some (s'\<lparr>pools := memp_free MEMP_PBUF_POOL (Some n) (pools s)\<rparr>)
                  else if type = PBUF_ROM \<or> type = PBUF_REF then Some (s'\<lparr>pools := memp_free MEMP_PBUF (Some n) (pools s)\<rparr>)
                  else None
      | Heap n \<Rightarrow> if type = PBUF_RAM then Some (s'\<lparr>heap := mem_free (Some n) (heap s)\<rparr>) else None)"

partial_function (option) free_loop :: "addr option \<Rightarrow> u8 \<Rightarrow> pmem \<Rightarrow> (u8 \<times> pmem) option" where
  "free_loop po cnt s =
     (case po of None \<Rightarrow> Some (cnt, s)
      | Some p \<Rightarrow>
        Option.bind (pbs s p) (\<lambda>b.
        let ref = pref b - 1;
            s = put p (b\<lparr>pref := ref\<rparr>) s
        in if ref = 0 then
             Option.bind (release p (ptype b) s) (\<lambda>s.
             free_loop (p_next b) (cnt + 1) s)
           else Some (cnt, s)))"

definition pbuf_free :: "addr option \<Rightarrow> pmem \<Rightarrow> (u8 \<times> pmem) option" where
  "pbuf_free po s = (case po of None \<Rightarrow> Some (0, s) | Some p \<Rightarrow> free_loop (Some p) 0 s)"

section \<open>Taking buffers\<close>

definition layer_offset :: "pbuf_layer \<Rightarrow> nat" where
  "layer_offset layer = (case layer of PBUF_TRANSPORT \<Rightarrow> 20 + 20 + 14 | PBUF_IP \<Rightarrow> 20 + 14 | PBUF_LINK \<Rightarrow> 14 | PBUF_RAW \<Rightarrow> 0)"

text \<open>The rest of a chain from the pool; \<open>r\<close> is its last buffer so far.\<close>

function (sequential) pool_tail :: "addr \<Rightarrow> addr \<Rightarrow> int \<Rightarrow> pmem \<Rightarrow> (addr option \<times> pmem) option" where
  "pool_tail p r rem_len s =
     (if rem_len > 0 then
        (case memp_malloc MEMP_PBUF_POOL (pools s) of
           (None, tab) \<Rightarrow> Option.bind (pbuf_free (Some p) s) (\<lambda>(_, s). Some (None, s))
         | (Some n, tab) \<Rightarrow>
             let q = Memp n;
                 len = min (of_int rem_len) (of_nat PBUF_POOL_BUFSIZE_ALIGNED);
                 s = put q \<lparr>p_next = None, payload = (Own q, 0), tot_len = of_int rem_len, plen = len,
                            ptype = PBUF_POOL, pflags = 0, pref = 1\<rparr> (s\<lparr>pools := tab\<rparr>)
             in case pbs s r of None \<Rightarrow> None
                | Some b \<Rightarrow> pool_tail p q (rem_len - uint len) (put r (b\<lparr>p_next := Some q\<rparr>) s))
      else Some (Some p, s))"
  by pat_completeness auto

termination
  by (relation "measure (\<lambda>(p, r, n, s). length (pools s MEMP_PBUF_POOL))")
    (auto simp: memp_malloc_def put_def split: list.splits)

declare pool_tail.simps [simp del]

definition pbuf_alloc :: "pbuf_layer \<Rightarrow> u16 \<Rightarrow> pbuf_type \<Rightarrow> pmem \<Rightarrow> (addr option \<times> pmem) option" where
  "pbuf_alloc layer size_req type s =
     (let offset = LWIP_MEM_ALIGN_SIZE (layer_offset layer);
          new = \<lparr>p_next = None, payload = null_ptr, tot_len = size_req, plen = size_req, ptype = type, pflags = 0, pref = 1\<rparr>
      in case type of
        PBUF_POOL \<Rightarrow>
          (case memp_malloc MEMP_PBUF_POOL (pools s) of
             (None, tab) \<Rightarrow> Some (None, s)
           | (Some n, tab) \<Rightarrow>
               let p = Memp n;
                   len = min size_req (of_nat (PBUF_POOL_BUFSIZE_ALIGNED - offset));
                   s = put p (new\<lparr>payload := (Own p, int offset), plen := len\<rparr>) (s\<lparr>pools := tab\<rparr>)
               in pool_tail p p (uint size_req - uint len) s)
      | PBUF_RAM \<Rightarrow>
          Option.bind (mem_malloc (of_nat (LWIP_MEM_ALIGN_SIZE (SIZEOF_STRUCT_PBUF + layer_offset layer)
                                           + LWIP_MEM_ALIGN_SIZE (unat size_req))) (heap s)) (\<lambda>r.
          case r of
            (None, h) \<Rightarrow> Some (None, s\<lparr>heap := h\<rparr>)
          | (Some n, h) \<Rightarrow>
              let p = Heap n
              in Some (Some p, put p (new\<lparr>payload := (Own p, int offset)\<rparr>) (s\<lparr>heap := h\<rparr>)))
      | _ \<Rightarrow>
          (case memp_malloc MEMP_PBUF (pools s) of
             (None, tab) \<Rightarrow> Some (None, s)
           | (Some n, tab) \<Rightarrow> Some (Some (Memp n), put (Memp n) new (s\<lparr>pools := tab\<rparr>))))"

section \<open>Chains\<close>

text \<open>Stepping over the buffers that stay; the result is the buffer to cut and the bytes it keeps.\<close>

partial_function (option) realloc_skip :: "addr \<Rightarrow> u16 \<Rightarrow> int \<Rightarrow> pmem \<Rightarrow> (addr \<times> u16 \<times> pmem) option" where
  "realloc_skip q rem_len grow s =
     Option.bind (pbs s q) (\<lambda>b.
     if rem_len > plen b then
       let s = put q (b\<lparr>tot_len := tot_len b + of_int grow\<rparr>) s
       in Option.bind (p_next b) (\<lambda>q'. realloc_skip q' (rem_len - plen b) grow s)
     else Some (q, rem_len, s))"

text \<open>Only a buffer of the heap whose data follow it can be shortened in the heap.\<close>

definition shrink_ram :: "addr \<Rightarrow> pbuf \<Rightarrow> u16 \<Rightarrow> pmem \<Rightarrow> pmem option" where
  "shrink_ram q b rem_len s =
     (case q of
        Heap n \<Rightarrow>
          if fst (payload b) = Own q then
            (case mem_realloc n (of_int (int SIZEOF_STRUCT_PBUF + snd (payload b) + uint rem_len)) (heap s) of
               (None, h) \<Rightarrow> None
             | (Some _, h) \<Rightarrow> Some (s\<lparr>heap := h\<rparr>))
          else None
      | Memp _ \<Rightarrow> None)"

definition pbuf_realloc :: "addr \<Rightarrow> u16 \<Rightarrow> pmem \<Rightarrow> pmem option" where
  "pbuf_realloc p new_len s =
     Option.bind (pbs s p) (\<lambda>b.
     if new_len \<ge> tot_len b then Some s
     else Option.bind (realloc_skip p new_len (uint new_len - uint (tot_len b)) s) (\<lambda>(q, rem_len, s).
          Option.bind (pbs s q) (\<lambda>b.
          Option.bind (if ptype b = PBUF_RAM \<and> rem_len \<noteq> plen b then shrink_ram q b rem_len s else Some s) (\<lambda>s.
          let s = put q (b\<lparr>plen := rem_len, tot_len := rem_len\<rparr>) s
          in Option.bind (if p_next b \<noteq> None then pbuf_free (p_next b) s else Some (0, s)) (\<lambda>(_, s).
             Option.bind (pbs s q) (\<lambda>b. Some (put q (b\<lparr>p_next := None\<rparr>) s)))))))"

text \<open>A positive increment reveals bytes in front of the payload, a negative one hides them.\<close>

definition pbuf_header :: "addr option \<Rightarrow> u16 \<Rightarrow> pmem \<Rightarrow> (u8 \<times> pmem) option" where
  "pbuf_header po header_size_increment s =
     (case po of
        None \<Rightarrow> Some (0, s)
      | Some p \<Rightarrow>
        if header_size_increment = 0 then Some (0, s)
        else Option.bind (pbs s p) (\<lambda>b.
          let increment = sint header_size_increment;
              increment_magnitude = of_int \<bar>increment\<bar> :: u16;
              (r, off) = payload b;
              b' = b\<lparr>payload := (r, off - increment), plen := plen b + header_size_increment,
                     tot_len := tot_len b + header_size_increment\<rparr>
          in if increment < 0 \<and> \<not> increment_magnitude \<le> plen b then Some (1, s)
             else if ptype b = PBUF_RAM \<or> ptype b = PBUF_POOL then
               if r \<noteq> Own p then None
               else if off - increment < 0 then Some (1, s)
               else Some (0, put p b' s)
             else if increment < 0 then Some (0, put p b' s)
             else Some (1, s)))"

partial_function (option) clen_loop :: "addr option \<Rightarrow> u8 \<Rightarrow> pmem \<Rightarrow> u8 option" where
  "clen_loop po len s =
     (case po of None \<Rightarrow> Some len
      | Some p \<Rightarrow> Option.bind (pbs s p) (\<lambda>b. clen_loop (p_next b) (len + 1) s))"

definition pbuf_clen :: "addr option \<Rightarrow> pmem \<Rightarrow> u8 option" where
  "pbuf_clen po s = clen_loop po 0 s"

definition pbuf_ref :: "addr option \<Rightarrow> pmem \<Rightarrow> pmem option" where
  "pbuf_ref po s =
     (case po of None \<Rightarrow> Some s
      | Some p \<Rightarrow> Option.bind (pbs s p) (\<lambda>b. Some (put p (b\<lparr>pref := pref b + 1\<rparr>) s)))"

partial_function (option) cat_loop :: "addr \<Rightarrow> addr \<Rightarrow> pmem \<Rightarrow> (addr \<times> pmem) option" where
  "cat_loop p t s =
     Option.bind (pbs s p) (\<lambda>b.
     case p_next b of
       None \<Rightarrow> Some (p, s)
     | Some n \<Rightarrow> Option.bind (pbs s t) (\<lambda>tb. cat_loop n t (put p (b\<lparr>tot_len := tot_len b + tot_len tb\<rparr>) s)))"

definition pbuf_cat :: "addr option \<Rightarrow> addr option \<Rightarrow> pmem \<Rightarrow> pmem option" where
  "pbuf_cat ho to' s =
     (case (ho, to') of
        (Some h, Some t) \<Rightarrow>
          Option.bind (cat_loop h t s) (\<lambda>(p, s).
          Option.bind (pbs s t) (\<lambda>tb.
          Option.bind (pbs s p) (\<lambda>b.
          Some (put p (b\<lparr>tot_len := tot_len b + tot_len tb, p_next := Some t\<rparr>) s))))
      | _ \<Rightarrow> Some s)"

definition pbuf_chain :: "addr option \<Rightarrow> addr option \<Rightarrow> pmem \<Rightarrow> pmem option" where
  "pbuf_chain h t s = Option.bind (pbuf_cat h t s) (\<lambda>s. pbuf_ref t s)"

definition pbuf_dechain :: "addr \<Rightarrow> pmem \<Rightarrow> (addr option \<times> pmem) option" where
  "pbuf_dechain p s =
     Option.bind (pbs s p) (\<lambda>b.
     case p_next b of
       None \<Rightarrow> Some (None, s)
     | Some q \<Rightarrow>
         Option.bind (pbs s q) (\<lambda>qb.
         let s = put q (qb\<lparr>tot_len := tot_len b - plen b\<rparr>) s
         in Option.bind (pbs s p) (\<lambda>b.
         let s = put p (b\<lparr>p_next := None, tot_len := plen b\<rparr>) s
         in Option.bind (pbuf_free (Some q) s) (\<lambda>(tail_gone, s).
            Some (if tail_gone > 0 then None else Some q, s)))))"

section \<open>Copying\<close>

definition is_queue :: "addr option \<Rightarrow> pmem \<Rightarrow> bool option" where
  "is_queue po s =
     (case po of None \<Rightarrow> Some False
      | Some p \<Rightarrow> map_option (\<lambda>b. plen b = tot_len b \<and> p_next b \<noteq> None) (pbs s p))"

partial_function (option) copy_loop :: "addr option \<Rightarrow> addr option \<Rightarrow> u16 \<Rightarrow> u16 \<Rightarrow> pmem \<Rightarrow> (err_t \<times> pmem) option" where
  "copy_loop p_to p_from offset_to offset_from s =
     Option.bind p_to (\<lambda>to'. Option.bind p_from (\<lambda>fr.
     Option.bind (pbs s to') (\<lambda>tb. Option.bind (pbs s fr) (\<lambda>fb.
     let len = (if uint (plen tb) - uint offset_to \<ge> uint (plen fb) - uint offset_from
                then plen fb - offset_from else plen tb - offset_to);
         s = MEMCPY (padd (payload tb) offset_to) (padd (payload fb) offset_from) len s;
         offset_to = offset_to + len;
         offset_from = offset_from + len;
         p_to = (if offset_to = plen tb then p_next tb else Some to');
         offset_to = (if offset_to = plen tb then 0 else offset_to);
         p_from = (if offset_from \<ge> plen fb then p_next fb else Some fr);
         offset_from = (if offset_from \<ge> plen fb then 0 else offset_from)
     in Option.bind (is_queue p_from s) (\<lambda>qf.
        if qf then Some (ERR_VAL, s)
        else Option.bind (is_queue p_to s) (\<lambda>qt.
        if qt then Some (ERR_VAL, s)
        else if p_from = None then Some (ERR_OK, s)
        else copy_loop p_to p_from offset_to offset_from s))))))"

definition pbuf_copy :: "addr option \<Rightarrow> addr option \<Rightarrow> pmem \<Rightarrow> (err_t \<times> pmem) option" where
  "pbuf_copy p_to p_from s =
     (case (p_to, p_from) of
        (Some to', Some fr) \<Rightarrow>
          Option.bind (pbs s to') (\<lambda>tb. Option.bind (pbs s fr) (\<lambda>fb.
          if tot_len tb \<ge> tot_len fb then copy_loop p_to p_from 0 0 s else Some (ERR_ARG, s)))
      | _ \<Rightarrow> Some (ERR_ARG, s))"

partial_function (option) copy_partial_loop :: "addr option \<Rightarrow> ptr \<Rightarrow> u16 \<Rightarrow> u16 \<Rightarrow> u16 \<Rightarrow> u16 \<Rightarrow> pmem \<Rightarrow> (u16 \<times> pmem) option" where
  "copy_partial_loop po dataptr len offset left copied_total s =
     (if len = 0 then Some (copied_total, s)
      else case po of
        None \<Rightarrow> Some (copied_total, s)
      | Some p \<Rightarrow>
          Option.bind (pbs s p) (\<lambda>b.
          if offset \<noteq> 0 \<and> offset \<ge> plen b then
            copy_partial_loop (p_next b) dataptr len (offset - plen b) left copied_total s
          else
            let buf_copy_len = plen b - offset;
                buf_copy_len = (if buf_copy_len > len then len else buf_copy_len);
                s = MEMCPY (padd dataptr left) (padd (payload b) offset) buf_copy_len s
            in copy_partial_loop (p_next b) dataptr (len - buf_copy_len) 0 (left + buf_copy_len)
                 (copied_total + buf_copy_len) s))"

definition pbuf_copy_partial :: "addr option \<Rightarrow> ptr option \<Rightarrow> u16 \<Rightarrow> u16 \<Rightarrow> pmem \<Rightarrow> (u16 \<times> pmem) option" where
  "pbuf_copy_partial buf dataptr len offset s =
     (case (buf, dataptr) of
        (Some p, Some d) \<Rightarrow> copy_partial_loop buf d len offset 0 0 s
      | _ \<Rightarrow> Some (0, s))"

text \<open>For a null argument the handler of the first check returns 0, which is \<^verbatim>\<open>ERR_OK\<close>.\<close>

partial_function (option) take_loop :: "addr option \<Rightarrow> ptr \<Rightarrow> u16 \<Rightarrow> u16 \<Rightarrow> pmem \<Rightarrow> pmem option" where
  "take_loop po dataptr total_copy_len copied_total s =
     (if total_copy_len = 0 then Some s
      else Option.bind po (\<lambda>p. Option.bind (pbs s p) (\<lambda>b.
        let buf_copy_len = (if total_copy_len > plen b then plen b else total_copy_len);
            s = MEMCPY (payload b) (padd dataptr copied_total) buf_copy_len s
        in take_loop (p_next b) dataptr (total_copy_len - buf_copy_len) (copied_total + buf_copy_len) s)))"

definition pbuf_take :: "addr option \<Rightarrow> ptr option \<Rightarrow> u16 \<Rightarrow> pmem \<Rightarrow> (err_t \<times> pmem) option" where
  "pbuf_take buf dataptr len s =
     (case (buf, dataptr) of
        (Some p, Some d) \<Rightarrow>
          Option.bind (pbs s p) (\<lambda>b.
          if tot_len b < len then Some (ERR_ARG, s)
          else map_option (Pair ERR_OK) (take_loop buf d len 0 s))
      | _ \<Rightarrow> Some (ERR_OK, s))"

definition pbuf_coalesce :: "addr \<Rightarrow> pbuf_layer \<Rightarrow> pmem \<Rightarrow> (addr option \<times> pmem) option" where
  "pbuf_coalesce p layer s =
     Option.bind (pbs s p) (\<lambda>b.
     if p_next b = None then Some (Some p, s)
     else Option.bind (pbuf_alloc layer (tot_len b) PBUF_RAM s) (\<lambda>(q, s).
          if q = None then Some (Some p, s)
          else Option.bind (pbuf_copy q (Some p) s) (\<lambda>(err, s).
               Option.bind (pbuf_free (Some p) s) (\<lambda>(_, s). Some (q, s)))))"

section \<open>Chains as lists\<close>

fun linked :: "(addr \<Rightarrow> pbuf option) \<Rightarrow> addr option \<Rightarrow> addr list \<Rightarrow> addr option \<Rightarrow> bool" where
  "linked m p [] q \<longleftrightarrow> p = q"
| "linked m p (a # as) q \<longleftrightarrow> p = Some a \<and> (\<exists>b. m a = Some b \<and> linked m (p_next b) as q)"

lemma linked_None [simp]: "linked m None as None \<longleftrightarrow> as = []"
  by (cases as) auto

lemma linked_append: "linked m p (xs @ ys) q \<longleftrightarrow> (\<exists>r. linked m p xs r \<and> linked m r ys q)"
  by (induction xs arbitrary: p) auto

lemma linked_cong:
  "(\<And>a. a \<in> set as \<Longrightarrow> map_option p_next (m' a) = map_option p_next (m a)) \<Longrightarrow> linked m' p as q = linked m p as q"
proof (induction as arbitrary: p)
  case (Cons a as)
  have "map_option p_next (m' a) = map_option p_next (m a)" using Cons.prems by simp
  then show ?case using Cons by (cases "m a"; cases "m' a") auto
qed simp

lemma linked_upd [simp]: "a \<notin> set as \<Longrightarrow> linked (m(a := v)) p as q = linked m p as q"
  by (rule linked_cong) auto

lemma linked_some: "linked m p as q \<Longrightarrow> a \<in> set as \<Longrightarrow> \<exists>b. m a = Some b"
  by (induction as arbitrary: p) auto

lemma linked_unique: "linked m p as None \<Longrightarrow> linked m p bs None \<Longrightarrow> as = bs"
proof (induction as arbitrary: p bs)
  case (Cons a as)
  then show ?case by (cases bs) auto
qed simp

lemma linked_distinct: "linked m p as None \<Longrightarrow> distinct as"
proof (induction as arbitrary: p)
  case (Cons a as)
  then obtain b where b: "m a = Some b" "linked m (p_next b) as None" by auto
  have "a \<notin> set as"
  proof
    assume "a \<in> set as"
    then obtain xs ys where s: "as = xs @ a # ys" by (meson split_list)
    then have "linked m (p_next b) ys None" using b by (auto simp: linked_append)
    then have "ys = as" using b(2) linked_unique by blast
    then show False using s by simp
  qed
  then show ?case using Cons b by auto
qed simp

text \<open>The pool elements and heap offsets among the buffers, in their order.\<close>

primrec addr_no :: "addr \<Rightarrow> nat" where
  "addr_no (Memp n) = n"
| "addr_no (Heap n) = n"

definition elems :: "pbuf_type set \<Rightarrow> (addr \<Rightarrow> pbuf option) \<Rightarrow> addr list \<Rightarrow> nat list" where
  "elems ts m as = map addr_no (filter (\<lambda>a. \<exists>b. m a = Some b \<and> ptype b \<in> ts) as)"

definition placed :: "(addr \<Rightarrow> pbuf option) \<Rightarrow> addr \<Rightarrow> bool" where
  "placed m a \<longleftrightarrow> (\<exists>b. m a = Some b \<and> (case a of Memp _ \<Rightarrow> ptype b \<noteq> PBUF_RAM | Heap _ \<Rightarrow> ptype b = PBUF_RAM))"

definition freed :: "addr list \<Rightarrow> pmem \<Rightarrow> pmem" where
  "freed xs s = s\<lparr>pbs := (\<lambda>a. if a \<in> set xs then None else pbs s a),
     pools := (pools s)(MEMP_PBUF_POOL := rev (elems {PBUF_POOL} (pbs s) xs) @ pools s MEMP_PBUF_POOL,
                        MEMP_PBUF := rev (elems {PBUF_ROM, PBUF_REF} (pbs s) xs) @ pools s MEMP_PBUF),
     heap := fold (\<lambda>n. mem_free (Some n)) (elems {PBUF_RAM} (pbs s) xs) (heap s)\<rparr>"

lemma elems_Cons: "elems ts m (a # as) = (if \<exists>b. m a = Some b \<and> ptype b \<in> ts then addr_no a # elems ts m as else elems ts m as)"
  by (simp add: elems_def)

lemma elems_cong: "(\<And>a. a \<in> set as \<Longrightarrow> m' a = m a) \<Longrightarrow> elems ts m' as = elems ts m as"
  unfolding elems_def by (intro arg_cong [of _ _ "map addr_no"] filter_cong) auto

lemma release_freed:
  assumes b: "pbs s a = Some b" and pl: "placed (pbs s) a" and xs: "a \<notin> set xs"
  shows "\<exists>s'. release a (ptype b) (put a b' s) = Some s' \<and> freed xs s' = freed (a # xs) s \<and>
    (\<forall>c. c \<noteq> a \<longrightarrow> pbs s' c = pbs s c)"
proof -
  have e: "c \<notin> set xs \<Longrightarrow> elems ts ((pbs s)(c := v)) xs = elems ts (pbs s) xs" for ts v c
    by (intro elems_cong) auto
  show ?thesis
    using b pl xs by (cases a; cases "ptype b")
      (auto simp: release_def placed_def put_def freed_def memp_free_def elems_Cons e fun_upd_twist intro!: pmem.equality)
qed

lemma free_loop_chain:
  "linked (pbs s) po (xs @ ys) None \<Longrightarrow> \<forall>a \<in> set xs. placed (pbs s) a \<and> pref (the (pbs s a)) = 1 \<Longrightarrow>
   ys = [] \<or> pref (the (pbs s (hd ys))) \<noteq> 1 \<Longrightarrow>
   free_loop po n s = Some (n + of_nat (length xs), let s' = freed xs s in
     case ys of [] \<Rightarrow> s' | y # _ \<Rightarrow> put y ((the (pbs s y))\<lparr>pref := pref (the (pbs s y)) - 1\<rparr>) s')"
proof (induction xs arbitrary: po n s)
  case Nil
  have "freed [] s = s" by (simp add: freed_def elems_def fun_upd_idem)
  then show ?case using Nil by (cases ys) (auto simp: free_loop.simps Let_def)
next
  case (Cons a xs)
  obtain b where b: "po = Some a" "pbs s a = Some b" "linked (pbs s) (p_next b) (xs @ ys) None" using Cons.prems(1) by auto
  have d: "a \<notin> set (xs @ ys)" using linked_distinct [OF Cons.prems(1)] by simp
  have p: "placed (pbs s) a" "pref b = 1" using Cons.prems(2) b(2) by auto
  obtain s' where s': "release a (ptype b) (put a (b\<lparr>pref := 0\<rparr>) s) = Some s'" "freed xs s' = freed (a # xs) s"
    "\<forall>c. c \<noteq> a \<longrightarrow> pbs s' c = pbs s c"
    using release_freed [OF b(2) p(1), of xs "b\<lparr>pref := 0\<rparr>"] d by auto
  have same: "pbs s' c = pbs s c" if "c \<in> set (xs @ ys)" for c using s'(3) that d by auto
  have "linked (pbs s') (p_next b) (xs @ ys) None"
    using b(3) linked_cong [of "xs @ ys" "pbs s'" "pbs s"] same by simp
  moreover have "\<forall>a \<in> set xs. placed (pbs s') a \<and> pref (the (pbs s' a)) = 1"
    using Cons.prems(2) same by (simp add: placed_def)
  moreover have "ys = [] \<or> pref (the (pbs s' (hd ys))) \<noteq> 1" using Cons.prems(3) same by (cases ys) auto
  ultimately have "free_loop (p_next b) (n + 1) s' = Some (n + 1 + of_nat (length xs), let s'' = freed xs s' in
     case ys of [] \<Rightarrow> s'' | y # _ \<Rightarrow> put y ((the (pbs s' y))\<lparr>pref := pref (the (pbs s' y)) - 1\<rparr>) s'')"
    by (rule Cons.IH)
  moreover have "free_loop po n s = free_loop (p_next b) (n + 1) s'"
    using b p s'(1) by (subst free_loop.simps) (simp add: Let_def)
  ultimately show ?case using s'(2) same by (cases ys) (simp_all add: algebra_simps)
qed

lemma pbuf_free_loop_all:
  "linked (pbs s) po xs None \<Longrightarrow> \<forall>a \<in> set xs. placed (pbs s) a \<and> pref (the (pbs s a)) = 1 \<Longrightarrow> po \<noteq> None \<Longrightarrow>
   pbuf_free po s = Some (of_nat (length xs), freed xs s)"
  using free_loop_chain [of s po xs "[]" 0] by (cases po) (simp_all add: pbuf_free_def)

text \<open>C39: \<^verbatim>\<open>pbuf_free\<close> on a chain whose first buffers have one reference each and whose next one, if there is
  one, has more: exactly the first are given back, each to the pool or heap it came from, in their order;
  the next one loses a reference, all others and all bytes stay, and the number given back is returned.\<close>

theorem pbuf_free_prefix:
  assumes "linked (pbs s) po (xs @ ys) None"
    and "\<forall>a \<in> set xs. placed (pbs s) a \<and> pref (the (pbs s a)) = 1"
    and "ys = [] \<or> pref (the (pbs s (hd ys))) \<noteq> 1"
  shows "pbuf_free po s = Some (of_nat (length xs), let s' = freed xs s in
     case ys of [] \<Rightarrow> s' | y # _ \<Rightarrow> put y ((the (pbs s y))\<lparr>pref := pref (the (pbs s y)) - 1\<rparr>) s')"
proof (cases po)
  case None
  then show ?thesis using assms(1) free_loop_chain [OF assms, of 0]
    by (subst (asm) free_loop.simps) (simp add: pbuf_free_def)
next
  case (Some p)
  then show ?thesis using free_loop_chain [OF assms, of 0] by (simp add: pbuf_free_def)
qed

definition buf :: "nat \<Rightarrow> addr option \<Rightarrow> u16 \<Rightarrow> u16 \<Rightarrow> u16 \<Rightarrow> pbuf" where
  "buf n nx tot len ref = \<lparr>p_next = nx, payload = (Own (Memp n), 0), tot_len = tot, plen = len, ptype = PBUF_POOL,
     pflags = 0, pref = ref\<rparr>"

definition three :: "u16 \<Rightarrow> u16 \<Rightarrow> u16 \<Rightarrow> pmem" where
  "three i j k = \<lparr>pbs = [Memp 83 \<mapsto> buf 83 (Some (Memp 84)) 6 3 i, Memp 84 \<mapsto> buf 84 (Some (Memp 85)) 3 2 j,
     Memp 85 \<mapsto> buf 85 None 1 1 k], dat = (\<lambda>_ i. of_int i),
     pools = memp_init(MEMP_PBUF_POOL := []), heap = mem_init undefined\<rparr>"

lemma pbuf_free_prefix_witness:
  "pbuf_free (Some (Memp 83)) (three 1 1 2) = Some (2, put (Memp 85) (buf 85 None 1 1 1) (freed [Memp 83, Memp 84] (three 1 1 2)))"
  using pbuf_free_prefix [of "three 1 1 2" "Some (Memp 83)" "[Memp 83, Memp 84]" "[Memp 85]"]
  by (simp add: three_def buf_def placed_def)

section \<open>Packets\<close>

text \<open>
  A packet is a chain whose every \<^verbatim>\<open>tot_len\<close> is the sum of the lengths from there on; it carries the bytes
  of its buffers in order.
\<close>

definition blen :: "(addr \<Rightarrow> pbuf option) \<Rightarrow> addr \<Rightarrow> nat" where
  "blen m a = (case m a of None \<Rightarrow> 0 | Some b \<Rightarrow> unat (plen b))"

definition lens :: "(addr \<Rightarrow> pbuf option) \<Rightarrow> addr list \<Rightarrow> nat" where
  "lens m as = sum_list (map (blen m) as)"

fun tots :: "(addr \<Rightarrow> pbuf option) \<Rightarrow> addr list \<Rightarrow> bool" where
  "tots m [] \<longleftrightarrow> True"
| "tots m (a # as) \<longleftrightarrow> map_option (\<lambda>b. unat (tot_len b)) (m a) = Some (lens m (a # as)) \<and> tots m as"

definition packet :: "pmem \<Rightarrow> addr option \<Rightarrow> addr list \<Rightarrow> bool" where
  "packet s p as \<longleftrightarrow> linked (pbs s) p as None \<and> tots (pbs s) as"

definition bytes_of :: "pmem \<Rightarrow> addr \<Rightarrow> u8 list" where
  "bytes_of s a = (case pbs s a of None \<Rightarrow> [] | Some b \<Rightarrow> read_at (payload b) (unat (plen b)) (dat s))"

definition contents :: "pmem \<Rightarrow> addr list \<Rightarrow> u8 list" where
  "contents s as = concat (map (bytes_of s) as)"

lemma lens_simps [simp]:
  "lens m [] = 0" "lens m (a # as) = blen m a + lens m as" "lens m (as @ bs) = lens m as + lens m bs"
  by (simp_all add: lens_def)

lemma contents_simps [simp]:
  "contents s [] = []" "contents s (a # as) = bytes_of s a @ contents s as"
  "contents s (as @ bs) = contents s as @ contents s bs"
  by (simp_all add: contents_def)

lemma length_read_at [simp]: "length (read_at a n d) = n"
  by (simp add: read_at_def)

lemma length_bytes_of [simp]: "length (bytes_of s a) = blen (pbs s) a"
  by (simp add: bytes_of_def blen_def split: option.splits)

lemma length_contents [simp]: "length (contents s as) = lens (pbs s) as"
  by (induction as) simp_all

lemma lens_cong: "(\<And>a. a \<in> set as \<Longrightarrow> blen m' a = blen m a) \<Longrightarrow> lens m' as = lens m as"
  unfolding lens_def by (metis (no_types, lifting) map_eq_conv)

lemma contents_cong: "(\<And>a. a \<in> set as \<Longrightarrow> bytes_of s' a = bytes_of s a) \<Longrightarrow> contents s' as = contents s as"
  unfolding contents_def by (metis (no_types, lifting) map_eq_conv)

lemma tots_cong: "(\<And>a. a \<in> set as \<Longrightarrow> m' a = m a) \<Longrightarrow> tots m' as = tots m as"
proof (induction as)
  case (Cons a as)
  then have "lens m' (a # as) = lens m (a # as)" by (intro lens_cong) (simp add: blen_def)
  then show ?case using Cons by simp
qed simp

text \<open>Walking to the end of the head chain adds the tail's length to every buffer passed.\<close>

definition grown :: "addr list \<Rightarrow> u16 \<Rightarrow> pmem \<Rightarrow> pmem" where
  "grown as n s = s\<lparr>pbs := (\<lambda>a. if a \<in> set as then map_option (\<lambda>b. b\<lparr>tot_len := tot_len b + n\<rparr>) (pbs s a) else pbs s a)\<rparr>"

lemma cat_loop_chain:
  "linked (pbs s) (Some h) as None \<Longrightarrow> pbs s t = Some tb \<Longrightarrow> t \<notin> set as \<Longrightarrow>
   cat_loop h t s = Some (last as, grown (butlast as) (tot_len tb) s)"
proof (induction as arbitrary: h s)
  case (Cons a as)
  obtain b where b: "pbs s a = Some b" "linked (pbs s) (p_next b) as None" "h = a" using Cons.prems(1) by auto
  have d: "a \<notin> set as" using linked_distinct [OF Cons.prems(1)] by simp
  show ?case
  proof (cases as)
    case Nil
    then show ?thesis using b by (subst cat_loop.simps) (simp add: grown_def)
  next
    case (Cons n ns)
    let ?s = "put a (b\<lparr>tot_len := tot_len b + tot_len tb\<rparr>) s"
    have "linked (pbs ?s) (Some n) as None" "pbs ?s t = Some tb"
      using b Cons d Cons.prems(2,3) by (auto simp: put_def)
    then have "cat_loop n t ?s = Some (last as, grown (butlast as) (tot_len tb) ?s)"
      using Cons.IH [of ?s n] Cons.prems(3) by simp
    moreover have "grown (butlast as) (tot_len tb) ?s = grown (butlast (a # as)) (tot_len tb) s"
      using b(1) d Cons in_set_butlastD [of a as] by (auto simp: grown_def put_def intro!: pmem.equality ext)
    ultimately show ?thesis using b Cons Cons.prems(2) by (subst cat_loop.simps) simp
  qed
qed simp

lemma packet_first: "packet s (Some p) as \<Longrightarrow> \<exists>b bs. pbs s p = Some b \<and> as = p # bs \<and> unat (tot_len b) = lens (pbs s) as \<and> packet s (p_next b) bs"
  by (cases as) (auto simp: packet_def)

text \<open>\<^verbatim>\<open>pbuf_cat\<close> joins two packets that share no buffer and have less than 65536 bytes together: the head is
  then a packet that carries the bytes of both, the tail is the packet it was, and neither the bytes nor
  the free memory nor any buffer outside the head changes.\<close>

theorem pbuf_cat_joins:
  assumes h: "packet s (Some h) hs" and t: "packet s (Some t) ts" and apart: "set hs \<inter> set ts = {}"
    and fits: "lens (pbs s) (hs @ ts) < 65536"
  shows "\<exists>s'. pbuf_cat (Some h) (Some t) s = Some s' \<and> packet s' (Some h) (hs @ ts) \<and> packet s' (Some t) ts \<and>
    contents s' (hs @ ts) = contents s hs @ contents s ts \<and>
    dat s' = dat s \<and> pools s' = pools s \<and> heap s' = heap s \<and> (\<forall>a. a \<notin> set hs \<longrightarrow> pbs s' a = pbs s a)"
proof -
  let ?m = "pbs s"
  obtain tb ts' where tb: "?m t = Some tb" "ts = t # ts'" using packet_first [OF t] by blast
  define n where "n = tot_len tb"
  have n: "unat n = lens ?m ts" using t tb by (simp add: packet_def n_def)
  have lh: "linked ?m (Some h) hs None" and tot: "tots ?m hs" using h by (simp_all add: packet_def)
  note d = linked_distinct [OF lh]
  have ne: "hs \<noteq> []" using lh by auto
  then obtain us l where hs: "hs = us @ [l]" by (meson rev_exhaust)
  have l: "l \<notin> set us" "last hs = l" "butlast hs = us" using hs d by auto
  obtain lb where lb: "?m l = Some lb" "p_next lb = None" using lh by (auto simp: hs linked_append)
  have t_out: "t \<notin> set hs" using apart tb by auto
  define s' where "s' = put l (lb\<lparr>tot_len := tot_len lb + n, p_next := Some t\<rparr>) (grown us n s)"
  have cat: "pbuf_cat (Some h) (Some t) s = Some s'"
    using cat_loop_chain [OF lh tb(1) t_out] l tb(1) lb t_out hs
    by (simp add: pbuf_cat_def n_def s'_def) (auto simp: grown_def)
  have out: "pbs s' a = ?m a" if "a \<notin> set hs" for a using that hs by (auto simp: s'_def put_def grown_def)
  have same: "blen (pbs s') a = blen ?m a" "bytes_of s' a = bytes_of s a" "map_option tot_len (pbs s' a) = map_option (\<lambda>b. tot_len b + n) (?m a)"
    if "a \<in> set hs" for a
    using that hs lb l by (auto simp: s'_def put_def grown_def blen_def bytes_of_def option.map_comp comp_def split: option.splits)
  have tail: "pbs s' a = ?m a" if "a \<in> set ts" for a using out that apart by blast
  have "linked (pbs s') (Some h) us (Some l)"
    using lh l unfolding hs linked_append
    by (subst linked_cong [of us "pbs s'" ?m]) (auto simp: s'_def put_def grown_def option.map_comp comp_def)
  moreover have lt: "linked (pbs s') (Some t) ts None"
    using t tail linked_cong [of ts "pbs s'" ?m] by (simp add: packet_def)
  moreover have "pbs s' l = Some (lb\<lparr>tot_len := tot_len lb + n, p_next := Some t\<rparr>)" by (simp add: s'_def put_def)
  ultimately have "linked (pbs s') (Some h) (hs @ ts) None" by (simp add: hs linked_append)
  moreover have tt: "tots (pbs s') ts" using t tail tots_cong [of ts "pbs s'" ?m] by (simp add: packet_def)
  moreover have "tots (pbs s') (hs @ ts)"
  proof -
    have lts: "lens (pbs s') ts = lens ?m ts" using tail by (intro lens_cong) (simp add: blen_def)
    have "tots (pbs s') (vs @ ts)" if "\<exists>ws. hs = ws @ vs" for vs
      using that
    proof (induction vs)
      case (Cons v vs)
      then obtain ws where ws: "hs = ws @ v # vs" by blast
      then have v: "v \<in> set hs" "set vs \<subseteq> set hs" by auto
      have "tots ?m (v # vs)" using tot unfolding ws by (induction ws) auto
      then obtain b where b: "?m v = Some b" "unat (tot_len b) = lens ?m (v # vs)" by auto
      have "lens (pbs s') (v # vs) = lens ?m (v # vs)" using v same(1) by (intro lens_cong) auto
      moreover have "lens ?m (v # vs) + lens ?m ts < 65536" using fits ws by simp
      then have "unat (tot_len b + n) = lens ?m (v # vs) + lens ?m ts"
        using b(2) n by (simp add: unat_word_ariths(1))
      ultimately show ?case using same(3) [OF v(1)] b(1) Cons ws lts by (cases "pbs s' v") auto
    qed (use tt in simp)
    then show ?thesis by (metis append_Nil)
  qed
  ultimately have "packet s' (Some h) (hs @ ts)" "packet s' (Some t) ts" using lt by (simp_all add: packet_def)
  moreover have rest: "dat s' = dat s \<and> pools s' = pools s \<and> heap s' = heap s" by (simp add: s'_def put_def grown_def)
  moreover have "bytes_of s' a = bytes_of s a" if "a \<in> set ts" for a using tail [OF that] rest by (simp add: bytes_of_def split: option.splits)
  then have "contents s' hs = contents s hs" "contents s' ts = contents s ts"
    using same(2) by (auto intro!: contents_cong)
  ultimately show ?thesis using cat out by auto
qed

lemma pbuf_cat_joins_witness:
  "\<exists>s'. pbuf_cat (Some (Memp 83)) (Some (Memp 85))
       ((three 1 1 1)\<lparr>pbs := [Memp 83 \<mapsto> buf 83 (Some (Memp 84)) 5 3 1, Memp 84 \<mapsto> buf 84 None 2 2 1, Memp 85 \<mapsto> buf 85 None 1 1 1]\<rparr>) = Some s' \<and>
     contents s' [Memp 83, Memp 84, Memp 85] = [0, 1, 2, 0, 1, 0]"
proof -
  define s where "s = (three 1 1 1)\<lparr>pbs := [Memp 83 \<mapsto> buf 83 (Some (Memp 84)) 5 3 1, Memp 84 \<mapsto> buf 84 None 2 2 1, Memp 85 \<mapsto> buf 85 None 1 1 1]\<rparr>"
  have "contents s [Memp 83, Memp 84] = [0, 1, 2, 0, 1]" "contents s [Memp 85] = [0]"
    by (simp_all add: s_def bytes_of_def buf_def read_at_def three_def upt_rec)
  then show ?thesis
    using pbuf_cat_joins [of s "Memp 83" "[Memp 83, Memp 84]" "Memp 85" "[Memp 85]"] unfolding s_def
    by (auto simp: packet_def buf_def blen_def)
qed

section \<open>Bytes in and out of a packet\<close>

lemma write_at_Nil [simp]: "write_at a [] d = d"
  by (intro ext) (auto simp: write_at_def)

lemma write_at_append: "write_at a (xs @ ys) d = write_at (fst a, snd a + int (length xs)) ys (write_at a xs d)"
  by (intro ext) (auto simp: write_at_def nth_append nat_diff_distrib' intro!: arg_cong [of _ _ "(!) ys"])

lemma write_at_other [simp]: "r \<noteq> fst a \<Longrightarrow> write_at a bs d r = d r"
  by (simp add: write_at_def)

lemma read_write_at_other [simp]: "fst b \<noteq> fst a \<Longrightarrow> read_at b n (write_at a bs d) = read_at b n d"
  by (simp add: read_at_def)

lemma read_write_at: "read_at a (length bs) (write_at a bs d) = bs"
  by (rule nth_equalityI) (simp_all add: read_at_def write_at_def)

lemma read_at_take_drop: "k + n \<le> m \<Longrightarrow> read_at (fst a, snd a + int k) n d = take n (drop k (read_at a m d))"
  by (rule nth_equalityI) (simp_all add: read_at_def algebra_simps)

lemma padd_padd:
  assumes "unat i + unat j < 65536"
  shows "padd a (i + j) = (fst (padd a i), snd (padd a i) + int (unat j))"
proof -
  have "unat (i + j) = unat i + unat j" using assms by (simp add: unat_word_ariths(1))
  then have "int (unat (i + j)) = int (unat i) + int (unat j)" by simp
  then show ?thesis by (simp add: padd_def)
qed

lemma padd_0 [simp]: "padd a 0 = a"
  by (simp add: padd_def)

definition apart_from :: "region \<Rightarrow> pmem \<Rightarrow> addr list \<Rightarrow> bool" where
  "apart_from r s as \<longleftrightarrow> (\<forall>a \<in> set as. \<forall>b. pbs s a = Some b \<longrightarrow> fst (payload b) \<noteq> r)"

lemma contents_apart: "apart_from (fst a) s as \<Longrightarrow> contents (s\<lparr>dat := write_at a bs (dat s)\<rparr>) as = contents s as"
  by (intro contents_cong) (auto simp: bytes_of_def apart_from_def split: option.splits)

lemma copy_partial_loop_chain:
  "linked (pbs s) po as None \<Longrightarrow> apart_from (fst d) s as \<Longrightarrow> unat left + unat len < 65536 \<Longrightarrow>
   bs = take (unat len) (drop (unat offset) (contents s as)) \<Longrightarrow>
   copy_partial_loop po d len offset left left s =
     Some (left + of_nat (length bs), s\<lparr>dat := write_at (padd d left) bs (dat s)\<rparr>)"
proof (induction as arbitrary: po len offset left s bs)
  case Nil
  then show ?case by (subst copy_partial_loop.simps) simp
next
  case (Cons a as)
  show ?case
  proof (cases "len = 0")
    case True
    then show ?thesis using Cons.prems(4) by (subst copy_partial_loop.simps) simp
  next
    case False
    obtain b where b: "po = Some a" "pbs s a = Some b" "linked (pbs s) (p_next b) as None" using Cons.prems(1) by auto
    have apart: "apart_from (fst d) s as" "fst (payload b) \<noteq> fst d" using Cons.prems(2) b(2) by (auto simp: apart_from_def)
    have bl: "blen (pbs s) a = unat (plen b)" "bytes_of s a = read_at (payload b) (unat (plen b)) (dat s)"
      using b(2) by (simp_all add: blen_def bytes_of_def)
    show ?thesis
    proof (cases "offset \<noteq> 0 \<and> offset \<ge> plen b")
      case True
      then have "unat (offset - plen b) = unat offset - unat (plen b)" "unat (plen b) \<le> unat offset"
        by (simp_all add: unat_sub word_le_nat_alt)
      then have "bs = take (unat len) (drop (unat (offset - plen b)) (contents s as))"
        using Cons.prems(4) bl by simp
      from Cons.IH [OF b(3) apart(1) Cons.prems(3) this] show ?thesis
        using b True \<open>len \<noteq> 0\<close> by (subst copy_partial_loop.simps) simp
    next
      case False
      then have o: "unat offset \<le> unat (plen b)" by (auto simp: word_le_nat_alt)
      define n where "n = (if plen b - offset > len then len else plen b - offset)"
      have n: "unat n = min (unat (plen b) - unat offset) (unat len)"
        using o by (simp add: n_def unat_sub word_less_nat_alt word_le_nat_alt min_def)
      have nl: "n \<le> len" "unat n \<le> unat len" using n by (simp_all add: word_le_nat_alt)
      define xs where "xs = read_at (padd (payload b) offset) (unat n) (dat s)"
      have xs: "xs = take (unat n) (drop (unat offset) (bytes_of s a))" "length xs = unat n"
        using read_at_take_drop [of "unat offset" "unat n" "unat (plen b)" "payload b" "dat s"] o n
        by (simp_all add: xs_def padd_def bl)
      let ?s = "s\<lparr>dat := write_at (padd d left) xs (dat s)\<rparr>"
      define ys where "ys = take (unat (len - n)) (drop (unat (0 :: u16)) (contents ?s as))"
      have cs: "contents ?s as = contents s as" using contents_apart [of "padd d left" s as] apart(1) by (simp add: padd_def)
      have "bs = xs @ ys"
        using o n nl Cons.prems(4) unfolding ys_def cs unfolding xs(1) by (auto simp: unat_sub bl min_def)
      moreover have "unat (left + n) = unat left + unat n" using Cons.prems(3) nl by (simp add: unat_word_ariths(1))
      then have "unat (left + n) + unat (len - n) < 65536" using Cons.prems(3) nl by (simp add: unat_sub)
      from Cons.IH [of ?s "p_next b" "left + n" "len - n" ys 0, OF _ _ this ys_def] b(3) apart(1)
      have "copy_partial_loop (p_next b) d (len - n) 0 (left + n) (left + n) ?s =
        Some (left + n + of_nat (length ys), ?s\<lparr>dat := write_at (padd d (left + n)) ys (dat ?s)\<rparr>)"
        by (simp add: apart_from_def)
      moreover have "copy_partial_loop po d len offset left left s = copy_partial_loop (p_next b) d (len - n) 0 (left + n) (left + n) ?s"
        using b False \<open>len \<noteq> 0\<close> by (subst copy_partial_loop.simps) (auto simp: Let_def n_def MEMCPY_def xs_def)
      moreover have "padd d (left + n) = (fst (padd d left), snd (padd d left) + int (length xs))"
        using padd_padd [of left n d] Cons.prems(3) nl xs(2) by simp
      ultimately show ?thesis using xs(2) by (simp add: write_at_append)
    qed
  qed
qed

text \<open>C35: \<^verbatim>\<open>pbuf_copy_partial\<close> copies the bytes of a packet from \<open>offset\<close> on, at most \<open>len\<close> of them and never
  beyond its end, wherever the buffers of the chain begin and end; it returns how many, and changes
  nothing but those bytes of the destination.\<close>

theorem pbuf_copy_partial_bytes:
  assumes "packet s (Some p) as" "apart_from (fst d) s as"
    and "bs = take (unat len) (drop (unat offset) (contents s as))"
  shows "pbuf_copy_partial (Some p) (Some d) len offset s = Some (of_nat (length bs), s\<lparr>dat := write_at d bs (dat s)\<rparr>)"
proof -
  have "unat len < 65536" using unsigned_less [of len, where ?'a = nat] by simp
  then show ?thesis
    using copy_partial_loop_chain [of s "Some p" as d 0 len bs offset] assms by (simp add: pbuf_copy_partial_def packet_def)
qed

lemma pbuf_copy_partial_bytes_witness:
  "pbuf_copy_partial (Some (Memp 83)) (Some (Ext 1, 0)) 3 1 (three 1 1 1) =
     Some (3, (three 1 1 1)\<lparr>dat := write_at (Ext 1, 0) [1, 2, 0] (dat (three 1 1 1))\<rparr>)"
proof -
  have "contents (three 1 1 1) [Memp 83, Memp 84, Memp 85] = [0, 1, 2, 0, 1, 0]"
    by (simp add: bytes_of_def buf_def read_at_def three_def upt_rec)
  then show ?thesis
    using pbuf_copy_partial_bytes [of "three 1 1 1" "Memp 83" "[Memp 83, Memp 84, Memp 85]" "(Ext 1, 0)" "[1, 2, 0]" 3 1]
    by (simp add: packet_def apart_from_def three_def buf_def blen_def)
qed

lemma read_write_front: "length xs \<le> n \<Longrightarrow> read_at a n (write_at a xs d) = xs @ drop (length xs) (read_at a n d)"
  by (rule nth_equalityI) (auto simp: read_at_def write_at_def nth_append)

lemma read_at_cong: "d' (fst a) = d (fst a) \<Longrightarrow> read_at a n d' = read_at a n d"
  by (simp add: read_at_def)

definition regions_apart :: "pmem \<Rightarrow> addr list \<Rightarrow> bool" where
  "regions_apart s as \<longleftrightarrow> distinct (map (\<lambda>a. fst (payload (the (pbs s a)))) as)"

lemma contents_write_other:
  "pbs s a = Some b \<Longrightarrow> linked (pbs s) po as q \<Longrightarrow> regions_apart s (a # as) \<Longrightarrow>
   contents (s\<lparr>dat := write_at (payload b) xs (dat s)\<rparr>) as = contents s as"
  by (rule contents_apart) (force simp: apart_from_def regions_apart_def)

text \<open>Filling a chain replaces the front of its bytes and leaves the rest and every other region.\<close>

lemma take_loop_chain:
  "linked (pbs s) po as None \<Longrightarrow> apart_from (fst d) s as \<Longrightarrow> regions_apart s as \<Longrightarrow> unat n \<le> lens (pbs s) as \<Longrightarrow>
   unat k + unat n < 65536 \<Longrightarrow>
   \<exists>m. take_loop po d n k s = Some (s\<lparr>dat := m\<rparr>) \<and>
     contents (s\<lparr>dat := m\<rparr>) as = read_at (padd d k) (unat n) (dat s) @ drop (unat n) (contents s as) \<and>
     (\<forall>r. apart_from r s as \<longrightarrow> m r = dat s r)"
proof (induction as arbitrary: po n k s)
  case Nil
  then show ?case by (intro exI [of _ "dat s"]) (subst take_loop.simps, simp add: unat_eq_0 read_at_def)
next
  case (Cons a as)
  show ?case
  proof (cases "n = 0")
    case True
    then show ?thesis by (intro exI [of _ "dat s"]) (subst take_loop.simps, simp add: read_at_def)
  next
    case False
    obtain b where b: "po = Some a" "pbs s a = Some b" "linked (pbs s) (p_next b) as None" using Cons.prems(1) by auto
    define c where "c = (if n > plen b then plen b else n)"
    have c: "unat c = min (unat n) (unat (plen b))" "unat c \<le> unat n" "c \<le> n" "unat (n - c) = unat n - unat c"
      by (auto simp: c_def word_less_nat_alt word_le_nat_alt unat_sub)
    define xs where "xs = read_at (padd d k) (unat c) (dat s)"
    define t where "t = s\<lparr>dat := write_at (payload b) xs (dat s)\<rparr>"
    have lxs: "length xs = unat c" by (simp add: xs_def)
    have db: "fst d \<noteq> fst (payload b)" "apart_from (fst d) s as" using Cons.prems(2) b(2) by (auto simp: apart_from_def)
    have kc: "unat (k + c) = unat k + unat c" using Cons.prems(5) c(2) by (simp add: unat_word_ariths(1))
    have ct: "contents t as = contents s as" unfolding t_def using contents_write_other b(2,3) Cons.prems(3) .
    have pd: "padd d (k + c) = (fst (padd d k), snd (padd d k) + int (unat c))"
      using padd_padd [of k c d] Cons.prems(5) c(2) by simp
    have rd: "read_at (padd d (k + c)) (unat (n - c)) (dat t) = drop (unat c) (read_at (padd d k) (unat n) (dat s))"
    proof -
      have "read_at (padd d (k + c)) (unat (n - c)) (dat t) = read_at (padd d (k + c)) (unat (n - c)) (dat s)"
        using db(1) by (simp add: t_def padd_def)
      also have "\<dots> = take (unat (n - c)) (drop (unat c) (read_at (padd d k) (unat n) (dat s)))"
        unfolding pd using c by (intro read_at_take_drop) simp
      finally show ?thesis using c(4) by simp
    qed
    have nl: "unat (n - c) \<le> lens (pbs t) as"
      using Cons.prems(4) c b(2) by (auto simp: t_def blen_def min_def split: if_splits)
    obtain m where m: "take_loop (p_next b) d (n - c) (k + c) t = Some (t\<lparr>dat := m\<rparr>)"
      "contents (t\<lparr>dat := m\<rparr>) as = drop (unat c) (read_at (padd d k) (unat n) (dat s)) @ drop (unat (n - c)) (contents s as)"
      "\<forall>r. apart_from r t as \<longrightarrow> m r = dat t r"
      using Cons.IH [of t "p_next b" "n - c" "k + c"] b(3) db(2) Cons.prems(3,5) nl kc c rd ct
      by (auto simp: t_def apart_from_def regions_apart_def)
    have out: "apart_from (fst (payload b)) t as"
      using Cons.prems(3) b(2) by (force simp: t_def apart_from_def regions_apart_def)
    define D where "D = read_at (padd d k) (unat n) (dat s)"
    have xsD: "xs = take (unat c) D"
      using read_at_take_drop [of 0 "unat c" "unat n" "padd d k" "dat s"] c(2) by (simp add: xs_def D_def)
    have "bytes_of (s\<lparr>dat := m\<rparr>) a = read_at (payload b) (unat (plen b)) (write_at (payload b) xs (dat s))"
      using b(2) out m(3) read_at_cong [of m "payload b" "dat t"] by (simp add: bytes_of_def t_def)
    also have "\<dots> = xs @ drop (unat c) (bytes_of s a)"
      using read_write_front [of xs "unat (plen b)"] lxs c(1) b(2) by (simp add: bytes_of_def)
    finally have "contents (s\<lparr>dat := m\<rparr>) (a # as) = take (unat c) D @ drop (unat c) (bytes_of s a) @ drop (unat c) D @ drop (unat (n - c)) (contents s as)"
      using m(2) by (simp add: t_def xsD D_def)
    also have "\<dots> = D @ drop (unat n) (contents s (a # as))"
    proof (cases "unat n \<le> unat (plen b)")
      case True
      then show ?thesis using c b(2) by (simp add: D_def blen_def)
    next
      case False
      then show ?thesis using c b(2) by (simp add: blen_def)
    qed
    finally have "contents (s\<lparr>dat := m\<rparr>) (a # as) = D @ drop (unat n) (contents s (a # as))" .
    moreover have "take_loop po d n k s = Some (s\<lparr>dat := m\<rparr>)"
      using m(1) b False by (subst take_loop.simps) (simp add: Let_def c_def t_def xs_def MEMCPY_def)
    moreover have "m r = dat s r" if r: "apart_from r s (a # as)" for r
    proof -
      have "fst (payload b) \<noteq> r" "apart_from r t as" using r b(2) by (auto simp: t_def apart_from_def)
      then show ?thesis using m(3) by (auto simp: t_def)
    qed
    ultimately show ?thesis unfolding D_def by blast
  qed
qed

text \<open>C40: what \<^verbatim>\<open>pbuf_take\<close> puts into a packet \<^verbatim>\<open>pbuf_copy_partial\<close> gets out of it. For a packet whose buffers
  have data regions of their own and \<open>len\<close> bytes at most as long as the packet, the call succeeds, the
  packet carries the bytes followed by what was behind them, and copying \<open>len\<close> bytes out again to a region
  apart from the packet stores those bytes there.\<close>

theorem pbuf_take_copy:
  assumes p: "packet s (Some p) as" and own: "regions_apart s as"
    and src: "apart_from (fst d) s as" and dst: "apart_from (fst e) s as" and len: "unat len \<le> lens (pbs s) as"
  shows "\<exists>m. pbuf_take (Some p) (Some d) len s = Some (ERR_OK, s\<lparr>dat := m\<rparr>) \<and>
    packet (s\<lparr>dat := m\<rparr>) (Some p) as \<and>
    contents (s\<lparr>dat := m\<rparr>) as = read_at d (unat len) (dat s) @ drop (unat len) (contents s as) \<and>
    pbuf_copy_partial (Some p) (Some e) len 0 (s\<lparr>dat := m\<rparr>) =
      Some (len, s\<lparr>dat := write_at e (read_at d (unat len) (dat s)) m\<rparr>)"
proof -
  obtain b where b: "pbs s p = Some b" "unat (tot_len b) = lens (pbs s) as" using packet_first [OF p] by auto
  have l: "linked (pbs s) (Some p) as None" using p by (simp add: packet_def)
  have "unat len < 65536" using unsigned_less [of len, where ?'a = nat] by simp
  then obtain m where m: "take_loop (Some p) d len 0 s = Some (s\<lparr>dat := m\<rparr>)"
    "contents (s\<lparr>dat := m\<rparr>) as = read_at d (unat len) (dat s) @ drop (unat len) (contents s as)"
    using take_loop_chain [OF l src own len, of 0] by auto
  have "\<not> tot_len b < len" using b(2) len by (simp add: word_less_nat_alt)
  then have "pbuf_take (Some p) (Some d) len s = Some (ERR_OK, s\<lparr>dat := m\<rparr>)" using b(1) m(1) by (simp add: pbuf_take_def)
  moreover have pk: "packet (s\<lparr>dat := m\<rparr>) (Some p) as" using p by (simp add: packet_def)
  moreover have "apart_from (fst e) (s\<lparr>dat := m\<rparr>) as" using dst by (simp add: apart_from_def)
  then have "pbuf_copy_partial (Some p) (Some e) len 0 (s\<lparr>dat := m\<rparr>) =
      Some (len, s\<lparr>dat := write_at e (read_at d (unat len) (dat s)) m\<rparr>)"
    using copy_partial_loop_chain [of "s\<lparr>dat := m\<rparr>" "Some p" as e 0 len "read_at d (unat len) (dat s)" 0] pk m(2)
      \<open>unat len < 65536\<close> by (simp add: packet_def pbuf_copy_partial_def)
  ultimately show ?thesis using m(2) by blast
qed

lemma pbuf_take_copy_witness:
  "\<exists>m. pbuf_take (Some (Memp 83)) (Some (Ext 1, 7)) 4 (three 1 1 1) = Some (ERR_OK, (three 1 1 1)\<lparr>dat := m\<rparr>) \<and>
     contents ((three 1 1 1)\<lparr>dat := m\<rparr>) [Memp 83, Memp 84, Memp 85] = [7, 8, 9, 10, 1, 0]"
proof -
  have "contents (three 1 1 1) [Memp 83, Memp 84, Memp 85] = [0, 1, 2, 0, 1, 0]"
    "read_at (Ext 1, 7) 4 (dat (three 1 1 1)) = [7, 8, 9, 10]"
    by (simp_all add: bytes_of_def buf_def read_at_def three_def upt_rec)
  then show ?thesis
    using pbuf_take_copy [of "three 1 1 1" "Memp 83" "[Memp 83, Memp 84, Memp 85]" "(Ext 1, 7)" "(Ext 2, 0)" 4]
    by (auto simp: packet_def apart_from_def regions_apart_def three_def buf_def blen_def)
qed

section \<open>Shortening a packet\<close>

lemma realloc_skip_chain:
  "linked (pbs s) (Some q) as None \<Longrightarrow> unat rem_len \<le> lens (pbs s) as \<Longrightarrow>
   \<exists>xs y ys k. as = xs @ y # ys \<and> realloc_skip q rem_len g s = Some (y, k, grown xs (of_int g) s) \<and>
     unat rem_len = lens (pbs s) xs + unat k \<and> unat k \<le> blen (pbs s) y"
proof (induction as arbitrary: q rem_len s)
  case (Cons a as)
  obtain b where b: "pbs s a = Some b" "linked (pbs s) (p_next b) as None" "q = a" using Cons.prems(1) by auto
  have d: "a \<notin> set as" using linked_distinct [OF Cons.prems(1)] by simp
  have bl: "blen (pbs s) a = unat (plen b)" using b(1) by (simp add: blen_def)
  show ?case
  proof (cases "rem_len > plen b")
    case False
    then have "realloc_skip q rem_len g s = Some (a, rem_len, grown [] (of_int g) s)"
      using b by (subst realloc_skip.simps) (simp add: grown_def)
    then show ?thesis using False bl by (intro exI [of _ "[]"] exI [of _ a] exI [of _ as] exI [of _ rem_len]) (simp add: not_less word_le_nat_alt)
  next
    case True
    then have u: "unat (rem_len - plen b) = unat rem_len - unat (plen b)" "unat (plen b) < unat rem_len"
      by (simp_all add: unat_sub word_less_nat_alt word_le_nat_alt)
    let ?s = "put a (b\<lparr>tot_len := tot_len b + of_int g\<rparr>) s"
    obtain n where n: "p_next b = Some n" using Cons.prems(2) u(2) bl b(2) by (cases "p_next b") auto
    have l: "linked (pbs ?s) (Some n) as None" using b(2) d n by (simp add: put_def)
    have ls: "lens (pbs ?s) zs = lens (pbs s) zs" for zs by (intro lens_cong) (simp add: put_def blen_def b(1))
    then have "unat (rem_len - plen b) \<le> lens (pbs ?s) as" using Cons.prems(2) u bl by simp
    from Cons.IH [OF l this] obtain xs y ys k where x: "as = xs @ y # ys"
      "realloc_skip n (rem_len - plen b) g ?s = Some (y, k, grown xs (of_int g) ?s)"
      "unat (rem_len - plen b) = lens (pbs s) xs + unat k" "unat k \<le> blen (pbs ?s) y" unfolding ls by blast
    have "realloc_skip q rem_len g s = Some (y, k, grown (a # xs) (of_int g) s)"
    proof -
      have "grown xs (of_int g) ?s = grown (a # xs) (of_int g) s"
        using b(1) d x(1) by (auto simp: grown_def put_def intro!: pmem.equality ext)
      then show ?thesis using x(2) b n True by (subst realloc_skip.simps) simp
    qed
    moreover have "y \<noteq> a" using d x(1) by auto
    then have "blen (pbs ?s) y = blen (pbs s) y" by (simp add: put_def blen_def)
    ultimately show ?thesis
      using x u bl by (intro exI [of _ "a # xs"] exI [of _ y] exI [of _ ys] exI [of _ k]) simp
  qed
qed simp

lemma read_at_take: "k \<le> n \<Longrightarrow> read_at a k d = take k (read_at a n d)"
  by (simp add: read_at_def take_map)

lemma tots_suffix: "tots m (xs @ v # ys) \<Longrightarrow> \<exists>b. m v = Some b \<and> unat (tot_len b) = lens m (v # ys)"
  by (induction xs) auto

text \<open>Each kept buffer's total drops by the number of bytes cut off.\<close>

lemma grown_total:
  fixes t T n :: u16
  assumes t: "unat t = l" "unat T = l0" and le: "unat n \<le> l0" "l0 - unat n \<le> l"
  shows "unat (t + of_int (uint n - uint T)) = l - (l0 - unat n)"
proof -
  have e: "t + of_int (uint n - uint T) = t - (T - n)" by simp
  have "unat (T - n) = l0 - unat n" using t le by (simp add: unat_sub word_le_nat_alt)
  then show ?thesis unfolding e using t le by (simp add: unat_sub word_le_nat_alt)
qed

lemma cut_tots:
  fixes n T :: u16
  assumes tots: "tots m (xs @ y # ys)" and lk: "linked m (Some p) (xs @ y # ys) None"
    and T: "unat T = lens m (xs @ y # ys)" and n: "unat n = lens m xs + unat k" and k: "unat k \<le> blen m y"
    and m': "\<And>a. a \<in> set xs \<Longrightarrow> m' a = map_option (\<lambda>b. b\<lparr>tot_len := tot_len b + of_int (uint n - uint T)\<rparr>) (m a)"
    and y: "m' y = Some (b\<lparr>plen := k, tot_len := k, p_next := None\<rparr>)"
  shows "tots m' (xs @ [y])"
proof -
  have "tots m' (vs @ [y]) \<and> lens m' (vs @ [y]) = lens m vs + unat k" if "xs = ws @ vs" for ws vs
    using that
  proof (induction vs arbitrary: ws)
    case Nil
    then show ?case using y by (simp add: blen_def)
  next
    case (Cons v vs)
    then have v: "v \<in> set xs" by simp
    have ih: "tots m' (vs @ [y])" "lens m' (vs @ [y]) = lens m vs + unat k" using Cons.IH [of "ws @ [v]"] Cons.prems by auto
    obtain c where c: "m v = Some c" "unat (tot_len c) = lens m (v # vs @ y # ys)"
      using tots_suffix [of m ws v "vs @ y # ys"] tots Cons.prems by auto
    have bv: "blen m' v = blen m v" using m' [OF v] c(1) by (simp add: blen_def)
    have "unat (tot_len c + of_int (uint n - uint T)) = lens m (v # vs @ y # ys) - (lens m (xs @ y # ys) - unat n)"
      using c(2) T n k Cons.prems by (intro grown_total) simp_all
    also have "\<dots> = lens m (v # vs) + unat k" using n k Cons.prems by simp
    finally show ?case using ih bv m' [OF v] c(1) by (simp add: add_ac)
  qed
  then show ?thesis by (metis append_Nil)
qed

text \<open>\<^verbatim>\<open>pbuf_realloc\<close> shortens a packet of pool buffers, or of buffers that refer to memory of others, in
  place: what is left is a packet of the first buffers that carries the first \<open>new_len\<close> bytes, and the
  buffers behind them, which nobody else refers to, are given back.\<close>

theorem pbuf_realloc_shortens:
  assumes p: "packet s (Some p) as" and len: "unat new_len \<le> lens (pbs s) as"
    and no_ram: "\<forall>a \<in> set as. placed (pbs s) a \<and> ptype (the (pbs s a)) \<noteq> PBUF_RAM \<and> pref (the (pbs s a)) = 1"
  shows "\<exists>s' k. pbuf_realloc p new_len s = Some s' \<and> packet s' (Some p) (take k as) \<and>
    contents s' (take k as) = take (unat new_len) (contents s as) \<and> dat s' = dat s \<and>
    pools s' = pools (freed (drop k as) s) \<and> (\<forall>a \<in> set (drop k as). pbs s' a = None)"
proof -
  obtain pb where pb: "pbs s p = Some pb" "unat (tot_len pb) = lens (pbs s) as" using packet_first [OF p] by auto
  show ?thesis
  proof (cases "new_len \<ge> tot_len pb")
    case True
    have "pools (freed [] s) = pools s" by (simp add: freed_def elems_def)
    then show ?thesis using True p pb len
      by (intro exI [of _ s] exI [of _ "length as"]) (simp add: pbuf_realloc_def word_le_nat_alt)
  next
    case False
    let ?g = "uint new_len - uint (tot_len pb)"
    have lk: "linked (pbs s) (Some p) as None" and tots: "tots (pbs s) as" using p by (simp_all add: packet_def)
    obtain xs y ys k where x: "as = xs @ y # ys" "realloc_skip p new_len ?g s = Some (y, k, grown xs (of_int ?g) s)"
      "unat new_len = lens (pbs s) xs + unat k" "unat k \<le> blen (pbs s) y"
      using realloc_skip_chain [OF lk len] by blast
    have d: "distinct (xs @ y # ys)" using linked_distinct [OF lk] x(1) by simp
    obtain b where b: "pbs s y = Some b" "linked (pbs s) (p_next b) ys None" using lk x(1) by (auto simp: linked_append)
    define g where "g = grown xs (of_int ?g) s"
    have x2: "realloc_skip p new_len ?g s = Some (y, k, g)" and gb: "pbs g y = Some b"
      using x(2) d b(1) by (simp_all add: g_def grown_def)
    define s1 where "s1 = put y (b\<lparr>plen := k, tot_len := k\<rparr>) g"
    have s1: "pbs s1 a = pbs s a" if "a \<in> set ys" for a using that d by (auto simp: s1_def g_def put_def grown_def)
    define s' where "s' = put y (b\<lparr>plen := k, tot_len := k, p_next := None\<rparr>) (freed ys s1)"
    have free: "(if p_next b \<noteq> None then pbuf_free (p_next b) s1 else Some (0, s1)) = Some (of_nat (length ys), freed ys s1)"
    proof (cases "ys = []")
      case True
      then show ?thesis using b(2) by (simp add: freed_def elems_def fun_upd_idem)
    next
      case False
      have "linked (pbs s1) (p_next b) (ys @ []) None" using b(2) linked_cong [of ys "pbs s1" "pbs s"] s1 by simp
      moreover have "\<forall>a \<in> set ys. placed (pbs s1) a \<and> pref (the (pbs s1 a)) = 1"
        using no_ram s1 x(1) by (simp add: placed_def)
      ultimately show ?thesis using pbuf_free_loop_all False b(2) by (cases "p_next b") auto
    qed
    have yb: "pbs (freed ys s1) y = Some (b\<lparr>plen := k, tot_len := k\<rparr>)" using d by (simp add: freed_def s1_def put_def)
    have go: "pbuf_realloc p new_len s = Some s'"
      unfolding pbuf_realloc_def pb(1) x2 using gb False no_ram x(1) b(1) free yb
      by (cases "p_next b") (simp_all add: x2 Let_def s'_def flip: s1_def)
    have kept: "pbs s' a = map_option (\<lambda>b. b\<lparr>tot_len := tot_len b + of_int ?g\<rparr>) (pbs s a)" if "a \<in> set xs" for a
      using that d by (auto simp: s'_def put_def freed_def s1_def g_def grown_def)
    have cut: "pbs s' y = Some (b\<lparr>plen := k, tot_len := k, p_next := None\<rparr>)" by (simp add: s'_def put_def)
    have dat: "dat s' = dat s" by (simp add: s'_def put_def freed_def s1_def g_def grown_def)
    have "linked (pbs s) (Some p) xs (Some y)" using lk x(1) by (auto simp: linked_append)
    moreover have "map_option p_next (pbs s' a) = map_option p_next (pbs s a)" if "a \<in> set xs" for a
      using kept [OF that] by (simp add: option.map_comp comp_def)
    ultimately have "linked (pbs s') (Some p) (xs @ [y]) None"
      using cut linked_cong [of xs "pbs s'" "pbs s"] by (auto simp: linked_append)
    moreover have "tots (pbs s') (xs @ [y])"
      using cut_tots [OF _ _ _ x(3,4) kept cut] tots lk pb(2) x(1) by simp
    moreover have "bytes_of s' a = bytes_of s a" if "a \<in> set xs" for a
      using kept [OF that] dat by (simp add: bytes_of_def split: option.splits)
    then have "contents s' xs = contents s xs" by (rule contents_cong)
    moreover have "bytes_of s' y = take (unat k) (bytes_of s y)"
      using cut b(1) dat x(4) read_at_take [of "unat k" "unat (plen b)" "payload b" "dat s"] by (simp add: bytes_of_def blen_def)
    moreover have "pools s' = pools (freed ys s)"
    proof -
      have "elems ts (pbs s1) ys = elems ts (pbs s) ys" for ts using s1 by (rule elems_cong)
      then show ?thesis by (simp add: s'_def put_def freed_def) (simp add: s1_def put_def g_def grown_def)
    qed
    moreover have "\<forall>a \<in> set ys. pbs s' a = None" using d by (auto simp: s'_def put_def freed_def)
    ultimately show ?thesis using go dat x(1,3,4)
      by (intro exI [of _ s'] exI [of _ "Suc (length xs)"]) (simp add: packet_def)
  qed
qed

lemma pbuf_realloc_shortens_witness:
  "\<exists>s' k. pbuf_realloc (Memp 83) 4 (three 1 1 1) = Some s' \<and> contents s' (take k [Memp 83, Memp 84, Memp 85]) = [0, 1, 2, 0]"
proof -
  have "contents (three 1 1 1) [Memp 83, Memp 84, Memp 85] = [0, 1, 2, 0, 1, 0]"
    by (simp add: bytes_of_def buf_def read_at_def three_def upt_rec)
  moreover have "packet (three 1 1 1) (Some (Memp 83)) [Memp 83, Memp 84, Memp 85]"
    by (simp add: packet_def three_def buf_def blen_def)
  moreover have "lens (pbs (three 1 1 1)) [Memp 83, Memp 84, Memp 85] = 6"
    "\<forall>a \<in> set [Memp 83, Memp 84, Memp 85]. placed (pbs (three 1 1 1)) a \<and>
       ptype (the (pbs (three 1 1 1) a)) \<noteq> PBUF_RAM \<and> pref (the (pbs (three 1 1 1) a)) = 1"
    by (simp_all add: three_def buf_def blen_def placed_def)
  ultimately show ?thesis
    using pbuf_realloc_shortens [of "three 1 1 1" "Memp 83" "[Memp 83, Memp 84, Memp 85]" 4] by auto
qed

section \<open>Taking a packet from the pool\<close>

fun totr :: "(addr \<Rightarrow> pbuf option) \<Rightarrow> nat \<Rightarrow> addr list \<Rightarrow> bool" where
  "totr m n [] \<longleftrightarrow> True"
| "totr m n (a # as) \<longleftrightarrow> map_option (\<lambda>b. unat (tot_len b)) (m a) = Some (lens m (a # as) + n) \<and> totr m n as"

lemma totr_0: "totr m 0 as = tots m as"
  by (induction as) simp_all

text \<open>A chain under construction: \<open>n\<close> bytes are still to come.\<close>

definition pool_buf :: "(addr \<Rightarrow> pbuf option) \<Rightarrow> nat \<Rightarrow> bool" where
  "pool_buf m n \<longleftrightarrow> (\<exists>b off. m (Memp n) = Some b \<and> ptype b = PBUF_POOL \<and> pref b = 1 \<and>
     payload b = (Own (Memp n), off) \<and> 0 \<le> off \<and> off + uint (plen b) \<le> int PBUF_POOL_BUFSIZE_ALIGNED)"

definition building :: "pmem \<Rightarrow> addr \<Rightarrow> nat list \<Rightarrow> nat \<Rightarrow> bool" where
  "building s p ns n \<longleftrightarrow> linked (pbs s) (Some p) (map Memp ns) None \<and> totr (pbs s) n (map Memp ns) \<and>
     (\<forall>k \<in> set ns. pool_buf (pbs s) k)"

lemma pool_buf_freeable: "pool_buf m n \<Longrightarrow> placed m (Memp n) \<and> pref (the (m (Memp n))) = 1"
  by (auto simp: pool_buf_def placed_def)

lemma elems_pool:
  "\<forall>k \<in> set ns. pool_buf m k \<Longrightarrow> elems {PBUF_POOL} m (map Memp ns) = ns \<and>
    elems {PBUF_ROM, PBUF_REF} m (map Memp ns) = [] \<and> elems {PBUF_RAM} m (map Memp ns) = []"
  by (induction ns) (auto simp: elems_def pool_buf_def)

lemma freed_pool:
  assumes "\<forall>k \<in> set ns. pool_buf (pbs s) k"
  shows "freed (map Memp ns) s = s\<lparr>pbs := (\<lambda>a. if a \<in> Memp ` set ns then None else pbs s a),
    pools := (pools s)(MEMP_PBUF_POOL := rev ns @ pools s MEMP_PBUF_POOL)\<rparr>"
  using elems_pool [OF assms] by (simp add: freed_def fun_upd_idem_iff)

lemma totr_snoc:
  assumes "totr m n as" "\<And>a. a \<in> set as \<Longrightarrow> blen m' a = blen m a \<and> map_option tot_len (m' a) = map_option tot_len (m a)"
    and "blen m' q = l" "map_option (\<lambda>b. unat (tot_len b)) (m' q) = Some n" "l \<le> n"
  shows "totr m' (n - l) (as @ [q])"
  using assms(1,2)
proof (induction as)
  case Nil
  then show ?case using assms(3-5) by simp
next
  case (Cons a as)
  then have ih: "totr m' (n - l) (as @ [q])" by simp
  obtain b where b: "m a = Some b" "unat (tot_len b) = blen m a + lens m as + n" using Cons.prems(1) by auto
  obtain b' where b': "m' a = Some b'" "tot_len b' = tot_len b" using Cons.prems(2) [of a] b(1) by auto
  have "lens m' as = lens m as" "blen m' a = blen m a" using Cons.prems(2) by (auto intro!: lens_cong)
  then show ?case using ih b b' assms(3,5) by simp
qed

lemma building_snoc:
  assumes bu: "building s p (us @ [r]) n" and b: "pbs s (Memp r) = Some b" and q: "q \<notin> set (us @ [r])"
    and n: "n < 65536" "unat l \<le> n" "unat l \<le> PBUF_POOL_BUFSIZE_ALIGNED"
    and s': "s' = put (Memp r) (b\<lparr>p_next := Some (Memp q)\<rparr>) (put (Memp q) \<lparr>p_next = None, payload = (Own (Memp q), 0),
      tot_len = of_nat n, plen = l, ptype = PBUF_POOL, pflags = 0, pref = 1\<rparr> (s\<lparr>pools := tab\<rparr>))"
  shows "building s' p (us @ [r, q]) (n - unat l)"
proof -
  have d: "distinct (map Memp (us @ [r]))" using bu linked_distinct by (auto simp: building_def simp del: map_append)
  have dr: "r \<notin> set us" using d by (auto simp: image_iff)
  have m': "pbs s' (Memp r) = Some (b\<lparr>p_next := Some (Memp q)\<rparr>)" "pbs s' (Memp q) = Some \<lparr>p_next = None, payload = (Own (Memp q), 0),
      tot_len = of_nat n, plen = l, ptype = PBUF_POOL, pflags = 0, pref = 1\<rparr>"
    "\<And>k. k \<in> set us \<Longrightarrow> pbs s' (Memp k) = pbs s (Memp k)"
    using q dr by (auto simp: s' put_def)
  have "linked (pbs s) (Some p) (map Memp us) (Some (Memp r))" using bu by (auto simp: building_def linked_append)
  then have "linked (pbs s') (Some p) (map Memp us) (Some (Memp r))"
    using m'(3) by (subst linked_cong [of _ "pbs s'" "pbs s"]) auto
  then have "linked (pbs s') (Some p) (map Memp (us @ [r, q])) None" using m' by (simp add: linked_append)
  moreover have un: "unat (of_nat n :: u16) = n" using n(1) by (simp add: unsigned_of_nat take_bit_nat_eq_self)
  then have "totr (pbs s') (n - unat l) (map Memp (us @ [r]) @ [Memp q])"
    using bu m' b n(2) by (intro totr_snoc [of "pbs s"]) (auto simp: building_def blen_def)
  moreover have "pool_buf (pbs s') k" if k: "k \<in> set (us @ [r, q])" for k
  proof -
    consider "k = q" | "k = r" | "k \<in> set us" using k by auto
    then show ?thesis
    proof cases
      case 1
      have "uint l = int (unat l)" by simp
      then have "uint l \<le> 1500" using n(3) by linarith
      then show ?thesis using 1 m'(2) by (simp add: pool_buf_def)
    next
      case 2
      then have "pool_buf (pbs s) r" using bu by (simp add: building_def)
      then show ?thesis using 2 m'(1) b by (simp add: pool_buf_def)
    next
      case 3
      then have "pool_buf (pbs s) k" using bu by (simp add: building_def)
      then show ?thesis using 3 m'(3) by (simp add: pool_buf_def)
    qed
  qed
  ultimately show ?thesis by (simp add: building_def)
qed

text \<open>What \<open>pool_tail\<close> does with a chain \<open>ns\<close> and the free elements \<open>ks\<close>.\<close>

definition tail_result :: "pmem \<Rightarrow> addr \<Rightarrow> nat list \<Rightarrow> nat list \<Rightarrow> addr option \<Rightarrow> pmem \<Rightarrow> bool" where
  "tail_result s p ns ks res s' \<longleftrightarrow> dat s' = dat s \<and> heap s' = heap s \<and>
     (case res of
        None \<Rightarrow> pools s' = (pools s)(MEMP_PBUF_POOL := rev (ns @ ks)) \<and>
          pbs s' = (\<lambda>a. if a \<in> Memp ` set (ns @ ks) then None else pbs s a)
      | Some p' \<Rightarrow> p' = p \<and> map_option tot_len (pbs s' p) = map_option tot_len (pbs s p) \<and> (\<exists>j \<le> length ks. building s' p (ns @ take j ks) 0 \<and>
          pools s' = (pools s)(MEMP_PBUF_POOL := drop j ks) \<and>
          (\<forall>a. a \<notin> Memp ` set (ns @ take j ks) \<longrightarrow> pbs s' a = pbs s a)))"

lemma tail_done:
  assumes "building s p ns 0" "pools s MEMP_PBUF_POOL = ks"
  shows "tail_result s p ns ks (Some p) s"
proof -
  have "pools s = (pools s)(MEMP_PBUF_POOL := drop 0 ks)" using assms(2) by (simp add: fun_upd_idem)
  then show ?thesis using assms(1) by (auto simp: tail_result_def intro!: exI [of _ 0])
qed

lemma pool_tail_spec:
  "building s p (us @ [r]) (nat n) \<Longrightarrow> 0 \<le> n \<Longrightarrow> n < 65536 \<Longrightarrow> pools s MEMP_PBUF_POOL = ks \<Longrightarrow> distinct (us @ r # ks) \<Longrightarrow>
   \<exists>res s'. pool_tail p (Memp r) n s = Some (res, s') \<and> tail_result s p (us @ [r]) ks res s'"
proof (induction ks arbitrary: s us r n)
  case Nil
  show ?case
  proof (cases "n = 0")
    case True
    then show ?thesis using Nil tail_done [of s p "us @ [r]"] by (intro exI [of _ "Some p"] exI [of _ s]) (simp add: pool_tail.simps)
  next
    case False
    have all: "\<forall>k \<in> set (us @ [r]). pool_buf (pbs s) k" and lk: "linked (pbs s) (Some p) (map Memp (us @ [r])) None"
      using Nil.prems(1) by (simp_all add: building_def)
    have "pbuf_free (Some p) s = Some (of_nat (length (map Memp (us @ [r]))), freed (map Memp (us @ [r])) s)"
      using all by (intro pbuf_free_loop_all [OF lk]) (auto dest: pool_buf_freeable)
    then have "pool_tail p (Memp r) n s = Some (None, freed (map Memp (us @ [r])) s)"
      using False Nil.prems(2,4) by (simp add: memp_malloc_def pool_tail.simps del: map_append)
    moreover have "tail_result s p (us @ [r]) [] None (freed (map Memp (us @ [r])) s)"
      unfolding freed_pool [OF all] using Nil.prems(4) by (auto simp: tail_result_def)
    ultimately show ?thesis by blast
  qed
next
  case (Cons q ks)
  show ?case
  proof (cases "n = 0")
    case True
    then show ?thesis using Cons.prems tail_done [of s p "us @ [r]"] by (intro exI [of _ "Some p"] exI [of _ s]) (simp add: pool_tail.simps)
  next
    case False
    obtain b where b: "pbs s (Memp r) = Some b" using Cons.prems(1) by (auto simp: building_def pool_buf_def)
    define l :: u16 where "l = min (of_int n) (of_nat 1500)"
    define tab where "tab = (pools s)(MEMP_PBUF_POOL := ks)"
    define s1 where "s1 = put (Memp r) (b\<lparr>p_next := Some (Memp q)\<rparr>) (put (Memp q) \<lparr>p_next = None, payload = (Own (Memp q), 0),
      tot_len = of_int n, plen = l, ptype = PBUF_POOL, pflags = 0, pref = 1\<rparr> (s\<lparr>pools := tab\<rparr>))"
    have on: "(of_int n :: u16) = of_nat (nat n)" using Cons.prems(2) by simp
    have "unat (of_int n :: u16) = nat n" unfolding on using Cons.prems(3) by (simp add: unsigned_of_nat take_bit_nat_eq_self)
    then have l: "unat l = min (nat n) 1500" by (simp add: l_def min_def word_le_nat_alt)
    have bu: "building s1 p ((us @ [r]) @ [q]) (nat n - unat l)"
      using building_snoc [OF Cons.prems(1) b _ _ _ _ s1_def [unfolded on]] Cons.prems(3,5) l by simp
    have ul: "uint l = int (unat l)" by simp
    have nn: "nat n - unat l = nat (n - uint l)" "0 \<le> n - uint l" "n - uint l < 65536"
      using l Cons.prems(2,3) unfolding ul by (auto simp: min_def)
    obtain res s' where rs: "pool_tail p (Memp q) (n - uint l) s1 = Some (res, s')" "tail_result s1 p ((us @ [r]) @ [q]) ks res s'"
      using Cons.IH [of s1 "us @ [r]" q "n - uint l"] bu nn Cons.prems(5) by (auto simp: s1_def tab_def put_def)
    have "pool_tail p (Memp r) n s = pool_tail p (Memp q) (n - uint l) s1"
      using False Cons.prems(2,4,5) b by (subst pool_tail.simps) (simp add: memp_malloc_def Let_def l_def s1_def tab_def put_def fun_upd_twist)
    moreover have "tail_result s p (us @ [r]) (q # ks) res s'"
    proof (cases res)
      case None
      then show ?thesis using rs(2) by (auto simp: tail_result_def s1_def put_def tab_def)
    next
      case (Some p')
      obtain j where "j \<le> length ks" "building s' p (us @ r # q # take j ks) 0" "pools s' = (pools s)(MEMP_PBUF_POOL := drop j ks)"
        "\<forall>a. a \<notin> Memp ` set (us @ r # q # take j ks) \<longrightarrow> pbs s' a = pbs s1 a" "p' = p" "dat s' = dat s" "heap s' = heap s"
        "map_option tot_len (pbs s' p) = map_option tot_len (pbs s1 p)"
        using rs(2) Some by (auto simp: tail_result_def s1_def tab_def put_def)
      moreover have "map_option tot_len (pbs s1 p) = map_option tot_len (pbs s p)"
      proof -
        have "p \<in> Memp ` set (us @ [r])" using Cons.prems(1) by (cases us) (auto simp: building_def)
        then have "p \<noteq> Memp q" using Cons.prems(5) by auto
        then show ?thesis using b by (simp add: s1_def put_def)
      qed
      ultimately show ?thesis using Some
        by (auto simp: tail_result_def s1_def put_def intro!: exI [of _ "Suc j"])
    qed
    ultimately show ?thesis using rs(1) by (intro exI [of _ res] exI [of _ s']) simp
  qed
qed

text \<open>Only a pool that is too small for the bytes makes the allocation fail.\<close>

lemma pool_tail_short:
  "pool_tail p r n s = Some (None, s') \<Longrightarrow> n < 65536 \<Longrightarrow> 1500 * int (length (pools s MEMP_PBUF_POOL)) < n"
proof (induction p r n s arbitrary: s' rule: pool_tail.induct)
  case (1 p r n s)
  have pos: "0 < n" using 1(2) by (subst (asm) pool_tail.simps) (auto split: if_splits)
  show ?case
  proof (cases "pools s MEMP_PBUF_POOL")
    case Nil
    then show ?thesis using pos by simp
  next
    case (Cons q ks)
    define l :: u16 where "l = min (of_int n) (of_nat 1500)"
    have on: "(of_int n :: u16) = of_nat (nat n)" using pos by simp
    have "unat (of_int n :: u16) = nat n" unfolding on using 1(3) by (simp add: unsigned_of_nat take_bit_nat_eq_self)
    then have "unat l = min (nat n) 1500" by (simp add: l_def min_def word_le_nat_alt)
    then have l: "uint l = min n 1500" using pos unfolding uint_nat by (auto simp: min_def)
    let ?new = "\<lparr>p_next = None, payload = (Own (Memp q), 0), tot_len = of_int n, plen = l,
      ptype = PBUF_POOL, pflags = 0, pref = 1\<rparr>"
    let ?s1 = "put (Memp q) ?new (s\<lparr>pools := (pools s)(MEMP_PBUF_POOL := ks)\<rparr>)"
    obtain b where b: "pbs ?s1 r = Some b"
        "pool_tail p (Memp q) (n - uint l) (put r (b\<lparr>p_next := Some (Memp q)\<rparr>) ?s1) = Some (None, s')"
      using 1(2) pos Cons
      by (subst (asm) pool_tail.simps) (auto simp: memp_malloc_def Let_def l_def split: option.splits)
    have "1500 * int (length (pools (put r (b\<lparr>p_next := Some (Memp q)\<rparr>) ?s1) MEMP_PBUF_POOL)) < n - uint l"
      by (rule 1(1) [OF _ _ _ _ _ _ b(1) b(2)]) (use pos Cons 1(3) l in \<open>simp_all add: memp_malloc_def l_def\<close>)
    then have "1500 * int (length ks) < n - min n 1500" by (simp add: put_def l)
    then show ?thesis using Cons by (simp add: min_def split: if_splits)
  qed
qed

lemma pbuf_alloc_pool_cases:
  assumes d: "distinct (pools s MEMP_PBUF_POOL)"
  defines "ks \<equiv> pools s MEMP_PBUF_POOL"
  shows "\<exists>res s'. pbuf_alloc layer n PBUF_POOL s = Some (res, s') \<and> dat s' = dat s \<and> heap s' = heap s \<and>
    (case res of
       None \<Rightarrow> mset (pools s' MEMP_PBUF_POOL) = mset ks \<and>
         (ks = [] \<or> length ks * PBUF_POOL_BUFSIZE_ALIGNED < LWIP_MEM_ALIGN_SIZE (layer_offset layer) + unat n) \<and>
         pbs s' = (\<lambda>a. if a \<in> Memp ` set ks then None else pbs s a)
     | Some p \<Rightarrow> \<exists>j \<le> length ks. let as = map Memp (take j ks) in
         packet s' (Some p) as \<and> lens (pbs s') as = unat n \<and> (\<forall>k \<in> set (take j ks). pool_buf (pbs s') k) \<and>
         pools s' = (pools s)(MEMP_PBUF_POOL := drop j ks) \<and> (\<forall>a. a \<notin> set as \<longrightarrow> pbs s' a = pbs s a))"
proof (cases ks)
  case Nil
  then show ?thesis by (intro exI [of _ None] exI [of _ s]) (simp add: pbuf_alloc_def memp_malloc_def ks_def)
next
  case (Cons r rs)
  define off where "off = LWIP_MEM_ALIGN_SIZE (layer_offset layer)"
  have off: "off \<le> 56" by (cases layer) (simp_all add: off_def layer_offset_def LWIP_MEM_ALIGN_SIZE_def)
  define l :: u16 where "l = min n (of_nat (1500 - off))"
  have uo: "unat (of_nat (1500 - off) :: u16) = 1500 - off" using off by (simp add: unsigned_of_nat take_bit_nat_eq_self del: of_nat_diff)
  then have l: "unat l = min (unat n) (1500 - off)" by (simp add: l_def min_def word_le_nat_alt)
  define s1 where "s1 = put (Memp r) \<lparr>p_next = None, payload = (Own (Memp r), int off), tot_len = n, plen = l,
    ptype = PBUF_POOL, pflags = 0, pref = 1\<rparr> (s\<lparr>pools := (pools s)(MEMP_PBUF_POOL := rs)\<rparr>)"
  have go: "pbuf_alloc layer n PBUF_POOL s = pool_tail (Memp r) (Memp r) (uint n - uint l) s1"
    using Cons by (simp add: pbuf_alloc_def memp_malloc_def ks_def Let_def s1_def l_def off_def)
  have u: "uint n = int (unat n)" "uint l = int (unat l)" "unat n < 65536" using unsigned_less [of n, where ?'a = nat] by simp_all
  have "off + unat l \<le> 1500" "unat l \<le> unat n" using l off by simp_all
  then have "int off + uint l \<le> 1500" "unat n - unat l = nat (uint n - uint l)" unfolding u(1,2) by linarith+
  then have "building s1 (Memp r) ([] @ [r]) (nat (uint n - uint l))"
    using \<open>unat l \<le> unat n\<close> by (auto simp: building_def pool_buf_def s1_def put_def blen_def nat_diff_distrib' min_def)
  moreover have "0 \<le> uint n - uint l" "uint n - uint l < 65536" using l unfolding u(1,2) using u(3) by linarith+
  ultimately obtain res s' where rs: "pool_tail (Memp r) (Memp r) (uint n - uint l) s1 = Some (res, s')"
    "tail_result s1 (Memp r) ([] @ [r]) rs res s'"
    using pool_tail_spec [of s1 "Memp r" "[]" r "uint n - uint l" rs] Cons d by (auto simp: s1_def put_def ks_def)
  show ?thesis
  proof (cases res)
    case None
    have "length ks * 1500 < off + unat n"
    proof -
      have "1500 * int (length rs) < uint n - uint l"
        using pool_tail_short [of "Memp r" "Memp r" "uint n - uint l" s1 s'] None rs(1) \<open>uint n - uint l < 65536\<close>
        by (simp add: s1_def put_def)
      then have "1500 * int (length rs) < int (unat n) - int (unat l)" unfolding u(1,2) .
      moreover have "length ks = Suc (length rs)" using Cons by simp
      ultimately show ?thesis using l off by linarith
    qed
    then show ?thesis using None rs Cons
      by (intro exI [of _ None] exI [of _ s']) (auto simp: go tail_result_def s1_def put_def off_def)
  next
    case (Some p)
    then obtain j where j: "j \<le> length rs" "building s' (Memp r) (r # take j rs) 0" "pools s' = (pools s)(MEMP_PBUF_POOL := drop j rs)"
      "\<forall>a. a \<notin> Memp ` set (r # take j rs) \<longrightarrow> pbs s' a = pbs s a" "p = Memp r" "dat s' = dat s" "heap s' = heap s"
      "map_option tot_len (pbs s' (Memp r)) = Some n"
      using rs(2) by (auto simp: tail_result_def s1_def put_def)
    have "lens (pbs s') (map Memp (r # take j rs)) = unat n" using j(2,8) by (auto simp: building_def)
    then show ?thesis using Some j rs(1) Cons
      by (intro exI [of _ res] exI [of _ s']) (auto simp: go building_def packet_def totr_0 Let_def intro!: exI [of _ "Suc j"])
  qed
qed

text \<open>\<^verbatim>\<open>pbuf_alloc\<close> from the pool gives a packet of exactly the bytes asked for, made of the first free
  elements, each buffer with one reference and its data inside its element, or, only when the elements do not
  suffice, a null pointer with every element back in the pool and no buffer left behind. No byte is touched.\<close>

theorem pbuf_alloc_pool:
  assumes d: "distinct (pools s MEMP_PBUF_POOL)"
  defines "ks \<equiv> pools s MEMP_PBUF_POOL"
  shows "\<exists>res s'. pbuf_alloc layer n PBUF_POOL s = Some (res, s') \<and> dat s' = dat s \<and> heap s' = heap s \<and>
    (case res of
       None \<Rightarrow> mset (pools s' MEMP_PBUF_POOL) = mset ks \<and>
         (ks = [] \<or> length ks * PBUF_POOL_BUFSIZE_ALIGNED < LWIP_MEM_ALIGN_SIZE (layer_offset layer) + unat n) \<and>
         pbs s' = (\<lambda>a. if a \<in> Memp ` set ks then None else pbs s a)
     | Some p \<Rightarrow> \<exists>j \<le> length ks. let as = map Memp (take j ks) in
         packet s' (Some p) as \<and> lens (pbs s') as = unat n \<and> (\<forall>k \<in> set (take j ks). pool_buf (pbs s') k) \<and>
         pools s' = (pools s)(MEMP_PBUF_POOL := drop j ks) \<and> (\<forall>a. a \<notin> set as \<longrightarrow> pbs s' a = pbs s a))"
  unfolding ks_def by (rule pbuf_alloc_pool_cases [OF d])

lemma pbuf_alloc_pool_witness:
  "\<exists>res s'. pbuf_alloc PBUF_RAW 2000 PBUF_POOL ((three 1 1 1)\<lparr>pools := memp_init\<rparr>) = Some (res, s') \<and>
     dat s' = dat (three 1 1 1)"
  using pbuf_alloc_pool [of "(three 1 1 1)\<lparr>pools := memp_init\<rparr>" PBUF_RAW 2000]
  by (auto simp: memp_init_pools three_def)

text \<open>Hiding a header.\<close>

lemma unat_small: "n < 65536 \<Longrightarrow> unat (of_nat n :: u16) = n"
  by (simp add: unsigned_of_nat take_bit_nat_eq_self)

lemma header_trims:
  assumes "pbs m p = Some b" "ptype b = PBUF_RAM \<or> ptype b = PBUF_POOL" "payload b = (Own p, off)" "0 \<le> off"
    "0 < k" "k < 32768" "k \<le> unat (plen b)"
  shows "pbuf_header (Some p) (of_int (- int k)) m =
    Some (0, Pbuf.put p (b\<lparr>payload := (Own p, off + int k), plen := plen b - of_nat k, tot_len := tot_len b - of_nat k\<rparr>) m)"
proof -
  have s: "sint (- of_nat k :: u16) = - int k"
    using signed_of_int [where ?'b = 16 and ?'a = int, of "- int k"] assms(5,6) by (simp add: signed_take_bit_int_eq_self)
  then have "(- of_nat k :: u16) \<noteq> 0" using assms(5) by auto
  moreover have "unat (of_nat k :: u16) = k" using assms(6) by (simp add: unsigned_of_nat take_bit_nat_eq_self)
  then have "(of_nat k :: u16) \<le> plen b" using assms(7) by (simp add: word_le_nat_alt)
  ultimately show ?thesis using assms s by (auto simp: pbuf_header_def Let_def)
qed

text \<open>Hiding a header and revealing it again restores the buffer.\<close>

lemma pbuf_header_there_back:
  assumes b: "pbs s p = Some b" "fst (payload b) = Own p" "ptype b = PBUF_RAM \<or> ptype b = PBUF_POOL"
    and n: "0 < sint n" "n \<le> plen b" and off: "0 \<le> snd (payload b)"
  shows "\<exists>s'. pbuf_header (Some p) (- n) s = Some (0, s') \<and> pbuf_header (Some p) n s' = Some (0, s)"
proof -
  have sn: "sint (- n) = - sint n"
    using n(1) sint_lt [of n] by (simp add: signed_take_bit_int_eq_self sint_word_ariths(4))
  obtain r off' where pl: "payload b = (r, off')" by (cases "payload b")
  define b1 where "b1 = b\<lparr>payload := (Own p, off' + sint n), plen := plen b - n, tot_len := tot_len b - n\<rparr>"
  have "pbuf_header (Some p) (- n) s = Some (0, put p b1 s)"
    using b n off pl sn by (auto simp: pbuf_header_def Let_def b1_def)
  moreover have "pbuf_header (Some p) n (put p b1 s) = Some (0, put p b (put p b1 s))"
    using b n off pl by (cases b) (auto simp: pbuf_header_def Let_def b1_def put_def)
  moreover have "put p b (put p b1 s) = s" using b(1) by (simp add: put_def fun_upd_idem)
  ultimately show ?thesis by (intro exI [of _ "put p b1 s"]) simp
qed

end
