(* ===== verification/Tcp.thy ===== *)
theory Tcp
  imports Prelude Memp Pbuf
begin

text \<open>
  The part of lwIP's \<^verbatim>\<open>tcp.c\<close> that the server calls: protocol control blocks and the lists they are on,
  binding and listening, the callbacks, and the receive window. A control block is numbered by its pool
  element. What a call asks of \<^verbatim>\<open>tcp_output\<close> is returned as a flag. The other functions are in \<open>TcpOut\<close>, \<open>TcpTimers\<close>
  and \<open>TcpIn\<close>, on the state of the whole stack.

  The results: a bound port is in use by no other block, a port picked by the stack is free and is found
  whenever one is, and the window announced never moves back nor promises more than there is room for.
\<close>

datatype tcp_state = CLOSED | LISTEN | SYN_SENT | SYN_RCVD | ESTABLISHED | FIN_WAIT_1 | FIN_WAIT_2 | CLOSE_WAIT
  | CLOSING | LAST_ACK | TIME_WAIT

text \<open>The functions a callback field may point to.\<close>

datatype callback = TCP_ACCEPT_NULL | TCP_RECV_NULL | TCP_SERVER_ACCEPT | TCP_SERVER_RECEIVE | TCP_SERVER_SENT
  | TCP_SERVER_ERROR | TCP_SERVER_POLL

text \<open>
  A segment on a queue: its pool element, its packet, and where its data (\<open>None\<close> while not set) and header are. The queues of a control
  block are lists of segments, since a segment is on one queue only.
\<close>

record tcp_seg =
  seg_no :: nat
  seg_p :: "addr option"
  dataptr :: "ptr option"
  seg_len :: u16
  seg_flags :: u8
  seg_hdr :: ptr

text \<open>
  The members \<^verbatim>\<open>rtime\<close>, \<^verbatim>\<open>sa\<close>, \<^verbatim>\<open>sv\<close> (here \<open>rtt_sa\<close>, \<open>rtt_sv\<close>) and \<^verbatim>\<open>rto\<close> are signed half-words; their values are read with \<open>sint\<close>.
\<close>

record tcp_pcb =
  local_ip :: u32
  remote_ip :: u32
  so_options :: u16
  tos :: u8
  ttl :: u8
  tstate :: tcp_state
  prio :: u8
  callback_arg :: "nat option"
  local_port :: u16
  cb_accept :: "callback option"
  cb_recv :: "callback option"
  cb_sent :: "callback option"
  cb_err :: "callback option"
  cb_poll :: "callback option"
  pollinterval :: u8
  tflags :: u8
  rcv_nxt :: u32
  rcv_wnd :: u16
  rcv_ann_wnd :: u16
  rcv_ann_right_edge :: u32
  mss :: u16
  snd_buf :: u16
  remote_port :: u16
  tmr :: u32
  polltmr :: u8
  rtime :: u16
  rttest :: u32
  rtseq :: u32
  rtt_sa :: u16
  rtt_sv :: u16
  rto :: u16
  nrtx :: u8
  lastack :: u32
  dupacks :: u8
  cwnd :: u16
  ssthresh :: u16
  snd_nxt :: u32
  snd_wnd :: u16
  snd_wl1 :: u32
  snd_wl2 :: u32
  snd_lbb :: u32
  acked :: u16
  snd_queuelen :: u16
  unsent :: "tcp_seg list"
  unacked :: "tcp_seg list"
  refused_data :: "addr option"
  cb_connected :: "callback option"
  keep_idle :: u32
  keep_intvl :: u32
  keep_cnt :: u32
  persist_cnt :: u32
  persist_backoff :: u8
  keep_cnt_sent :: u8

record tcps =
  pcbs :: "nat \<Rightarrow> tcp_pcb"
  bound_pcbs :: "nat list"
  listen_pcbs :: "nat list"
  active_pcbs :: "nat list"
  tw_pcbs :: "nat list"
  new_port :: u16
  tcp_ticks :: u32
  tcp_timer :: u8
  iss :: u32
  tcp_input_pcb :: "nat option"

abbreviation (input) TCP_WND :: u16 where "TCP_WND \<equiv> 2920"
abbreviation (input) TCP_WND_UPDATE_THRESHOLD :: int where "TCP_WND_UPDATE_THRESHOLD \<equiv> 730"
abbreviation (input) TF_ACK_NOW :: u8 where "TF_ACK_NOW \<equiv> 0x02"
abbreviation (input) SOF_ACCEPTCONN :: u16 where "SOF_ACCEPTCONN \<equiv> 0x0002"
abbreviation (input) TCP_LOCAL_PORT_RANGE_START :: u16 where "TCP_LOCAL_PORT_RANGE_START \<equiv> 4096"
abbreviation (input) TCP_LOCAL_PORT_RANGE_END :: u16 where "TCP_LOCAL_PORT_RANGE_END \<equiv> 0x7fff"

definition upd_pcb :: "nat \<Rightarrow> (tcp_pcb \<Rightarrow> tcp_pcb) \<Rightarrow> tcps \<Rightarrow> tcps" where
  "upd_pcb p f t = t\<lparr>pcbs := (pcbs t)(p := f (pcbs t p))\<rparr>"

definition TCP_REG :: "nat \<Rightarrow> nat list \<Rightarrow> nat list" where
  "TCP_REG npcb list = npcb # list"

fun TCP_RMV :: "nat \<Rightarrow> nat list \<Rightarrow> nat list" where
  "TCP_RMV npcb [] = []"
| "TCP_RMV npcb (p # ps) = (if p = npcb then ps else p # TCP_RMV npcb ps)"

section \<open>Callbacks\<close>

definition tcp_setprio :: "nat \<Rightarrow> u8 \<Rightarrow> tcps \<Rightarrow> tcps" where
  "tcp_setprio p pr = upd_pcb p (\<lambda>b. b\<lparr>prio := pr\<rparr>)"

definition tcp_arg :: "nat \<Rightarrow> nat option \<Rightarrow> tcps \<Rightarrow> tcps" where
  "tcp_arg p a = upd_pcb p (\<lambda>b. b\<lparr>callback_arg := a\<rparr>)"

definition tcp_recv :: "nat \<Rightarrow> callback option \<Rightarrow> tcps \<Rightarrow> tcps" where
  "tcp_recv p c = upd_pcb p (\<lambda>b. b\<lparr>cb_recv := c\<rparr>)"

definition tcp_sent :: "nat \<Rightarrow> callback option \<Rightarrow> tcps \<Rightarrow> tcps" where
  "tcp_sent p c = upd_pcb p (\<lambda>b. b\<lparr>cb_sent := c\<rparr>)"

definition tcp_err :: "nat \<Rightarrow> callback option \<Rightarrow> tcps \<Rightarrow> tcps" where
  "tcp_err p c = upd_pcb p (\<lambda>b. b\<lparr>cb_err := c\<rparr>)"

definition tcp_accept :: "nat \<Rightarrow> callback option \<Rightarrow> tcps \<Rightarrow> tcps" where
  "tcp_accept p c = upd_pcb p (\<lambda>b. b\<lparr>cb_accept := c\<rparr>)"

definition tcp_poll :: "nat \<Rightarrow> callback option \<Rightarrow> u8 \<Rightarrow> tcps \<Rightarrow> tcps" where
  "tcp_poll p c n = upd_pcb p (\<lambda>b. b\<lparr>cb_poll := c, pollinterval := n\<rparr>)"

section \<open>The receive window\<close>

definition TCP_SEQ_GEQ :: "u32 \<Rightarrow> u32 \<Rightarrow> bool" where
  "TCP_SEQ_GEQ a b \<longleftrightarrow> 0 \<le> sint (a - b)"

definition TCP_SEQ_GT :: "u32 \<Rightarrow> u32 \<Rightarrow> bool" where
  "TCP_SEQ_GT a b \<longleftrightarrow> 0 < sint (a - b)"

definition tcp_update_rcv_ann_wnd :: "tcp_pcb \<Rightarrow> u32 \<times> tcp_pcb" where
  "tcp_update_rcv_ann_wnd b =
     (let new_right_edge = rcv_nxt b + ucast (rcv_wnd b) in
      if TCP_SEQ_GEQ new_right_edge (rcv_ann_right_edge b + ucast (mss b)) then
        (new_right_edge - rcv_ann_right_edge b, b\<lparr>rcv_ann_wnd := rcv_wnd b\<rparr>)
      else if TCP_SEQ_GT (rcv_nxt b) (rcv_ann_right_edge b) then (0, b\<lparr>rcv_ann_wnd := 0\<rparr>)
      else (0, b\<lparr>rcv_ann_wnd := ucast (rcv_ann_right_edge b - rcv_nxt b)\<rparr>))"

text \<open>The flag tells that an acknowledgement is sent at once.\<close>

definition tcp_recved :: "nat \<Rightarrow> u16 \<Rightarrow> tcps \<Rightarrow> bool \<times> tcps" where
  "tcp_recved p len t =
     (let b = pcbs t p;
          b = b\<lparr>rcv_wnd := rcv_wnd b + len\<rparr>;
          b = (if rcv_wnd b > TCP_WND then b\<lparr>rcv_wnd := TCP_WND\<rparr> else b);
          (wnd_inflation, b) = tcp_update_rcv_ann_wnd b
      in if sint wnd_inflation \<ge> TCP_WND_UPDATE_THRESHOLD
         then (True, upd_pcb p (\<lambda>_. b\<lparr>tflags := tflags b OR TF_ACK_NOW\<rparr>) t)
         else (False, upd_pcb p (\<lambda>_. b) t))"

section \<open>Ports\<close>

text \<open>\<^verbatim>\<open>tcp_new_port\<close> runs until it finds a port that no active, waiting or listening block uses.\<close>

definition port_used :: "tcps \<Rightarrow> u16 \<Rightarrow> bool" where
  "port_used t port \<longleftrightarrow> (\<exists>p \<in> set (active_pcbs t). local_port (pcbs t p) = port) \<or>
     (\<exists>p \<in> set (tw_pcbs t). local_port (pcbs t p) = port) \<or>
     (\<exists>p \<in> set (listen_pcbs t). local_port (pcbs t p) = port)"

definition next_port :: "u16 \<Rightarrow> u16" where
  "next_port port = (let port = port + 1 in if port > TCP_LOCAL_PORT_RANGE_END then TCP_LOCAL_PORT_RANGE_START else port)"

partial_function (option) tcp_new_port :: "tcps \<Rightarrow> (u16 \<times> tcps) option" where
  "tcp_new_port t =
     (let port = next_port (new_port t);
          t = t\<lparr>new_port := port\<rparr>
      in if port_used t port then tcp_new_port t else Some (port, t))"

definition in_use :: "tcps \<Rightarrow> nat list \<Rightarrow> u32 \<Rightarrow> u16 \<Rightarrow> bool" where
  "in_use t ps ipaddr port \<longleftrightarrow> (\<exists>c \<in> set ps. local_port (pcbs t c) = port \<and>
     (local_ip (pcbs t c) = 0 \<or> ipaddr = 0 \<or> local_ip (pcbs t c) = ipaddr))"

definition tcp_bind :: "nat \<Rightarrow> u32 \<Rightarrow> u16 \<Rightarrow> tcps \<Rightarrow> (err_t \<times> tcps) option" where
  "tcp_bind p ipaddr port t =
     (if tstate (pcbs t p) \<noteq> CLOSED then Some (ERR_ISCONN, t)
      else Option.bind (if port = 0 then tcp_new_port t else Some (port, t)) (\<lambda>(port, t).
        if in_use t (listen_pcbs t) ipaddr port then Some (ERR_USE, t)
        else if in_use t (active_pcbs t) ipaddr port then Some (ERR_USE, t)
        else if in_use t (bound_pcbs t) ipaddr port then Some (ERR_USE, t)
        else if \<exists>c \<in> set (tw_pcbs t). local_port (pcbs t c) = port \<and> local_ip (pcbs t c) = ipaddr then Some (ERR_USE, t)
        else let t = (if ipaddr \<noteq> 0 then upd_pcb p (\<lambda>b. b\<lparr>local_ip := ipaddr\<rparr>) t else t);
                 t = upd_pcb p (\<lambda>b. b\<lparr>local_port := port\<rparr>) t
             in Some (ERR_OK, t\<lparr>bound_pcbs := TCP_REG p (bound_pcbs t)\<rparr>)))"

text \<open>The members of a listening block that are not set keep the value the memory held.\<close>

definition tcp_listen_with_backlog :: "nat \<Rightarrow> tcps \<Rightarrow> memp_tab \<Rightarrow> nat option \<times> tcps \<times> memp_tab" where
  "tcp_listen_with_backlog p t tab =
     (if tstate (pcbs t p) \<noteq> CLOSED then (None, t, tab)
      else case memp_malloc MEMP_TCP_PCB_LISTEN tab of
        (None, tab) \<Rightarrow> (None, t, tab)
      | (Some l, tab) \<Rightarrow>
          let b = pcbs t p;
              t = upd_pcb l (\<lambda>lb. lb\<lparr>callback_arg := callback_arg b, local_port := local_port b, tstate := LISTEN,
                    so_options := so_options b OR SOF_ACCEPTCONN, ttl := ttl b, tos := tos b, local_ip := local_ip b\<rparr>) t;
              t = t\<lparr>bound_pcbs := TCP_RMV p (bound_pcbs t)\<rparr>;
              tab = memp_free MEMP_TCP_PCB (Some p) tab;
              t = upd_pcb l (\<lambda>lb. lb\<lparr>cb_accept := Some TCP_ACCEPT_NULL\<rparr>) t
          in (Some l, t\<lparr>listen_pcbs := TCP_REG l (listen_pcbs t)\<rparr>, tab))"

section \<open>Announcing the window\<close>

lemma sint_of_int_u32: "- (2 ^ 31) \<le> k \<Longrightarrow> k < 2 ^ 31 \<Longrightarrow> sint (of_int k :: u32) = k"
  by (simp add: signed_of_int signed_take_bit_int_eq_self)

lemma uint_of_int_u32: "0 \<le> k \<Longrightarrow> k < 2 ^ 32 \<Longrightarrow> uint (of_int k :: u32) = k"
  by (simp add: unsigned_of_int take_bit_int_eq_self)

lemma u16_bounds: "0 \<le> uint (w :: u16) \<and> uint w < 65536"
  using unsigned_less [of w, where ?'a = int] by simp

lemma edge_distance:
  fixes d :: u32 and w m :: u16
  assumes "- (2 ^ 31) + 131072 \<le> sint d" "sint d \<le> 65535"
  shows "sint (ucast w - d - ucast m) = uint w - sint d - uint m"
proof -
  have "ucast w - d - ucast m = (of_int (uint w - sint d - uint m) :: u32)" by simp
  also have "sint \<dots> = uint w - sint d - uint m"
  proof (rule sint_of_int_u32)
    show "- (2 ^ 31) \<le> uint w - sint d - uint m" "uint w - sint d - uint m < 2 ^ 31"
      using assms u16_bounds [of w] u16_bounds [of m] by (simp, linarith)+
  qed
  finally show ?thesis .
qed

text \<open>Giving room back in the receive window. Where the window announced before does not exceed the room
  there was, \<^verbatim>\<open>tcp_recved\<close> adds the room, up to the size of the window, and announces a window that reaches
  at least as far as the last one announced and no further than there is room for.\<close>

theorem tcp_recved_window:
  fixes len :: u16
  assumes room: "uint (rcv_wnd (pcbs t p)) + uint len < 65536" "rcv_wnd (pcbs t p) \<le> TCP_WND"
    and edge: "- (2 ^ 31) + 131072 \<le> sint (rcv_ann_right_edge (pcbs t p) - rcv_nxt (pcbs t p))"
      "sint (rcv_ann_right_edge (pcbs t p) - rcv_nxt (pcbs t p)) \<le> uint (rcv_wnd (pcbs t p))"
  defines "b \<equiv> pcbs (snd (tcp_recved p len t)) p"
  shows "rcv_wnd (pcbs t p) \<le> rcv_wnd b \<and> rcv_wnd b \<le> TCP_WND \<and> rcv_ann_wnd b \<le> rcv_wnd b \<and>
    sint (rcv_ann_right_edge (pcbs t p) - rcv_nxt (pcbs t p)) \<le> uint (rcv_ann_wnd b)"
proof -
  let ?b = "pcbs t p"
  define w where "w = (if rcv_wnd ?b + len > TCP_WND then TCP_WND else rcv_wnd ?b + len)"
  define d where "d = rcv_ann_right_edge ?b - rcv_nxt ?b"
  have ul: "uint (rcv_wnd ?b + len) = uint (rcv_wnd ?b) + uint len"
    using room(1) by (simp add: uint_word_ariths(1))
  have w: "rcv_wnd ?b \<le> w" "w \<le> TCP_WND" using room(2) u16_bounds [of len] ul by (auto simp: w_def word_le_def word_less_def)
  then have wi: "uint (rcv_wnd ?b) \<le> uint w" by (simp add: word_le_def)
  have d: "- (2 ^ 31) + 131072 \<le> sint d" "sint d \<le> uint (rcv_wnd ?b)" using edge by (simp_all add: d_def)
  then have d2: "sint d \<le> 65535" using u16_bounds [of "rcv_wnd ?b"] by simp
  have g: "sint (rcv_nxt ?b + ucast w - (rcv_ann_right_edge ?b + ucast (mss ?b))) = uint w - sint d - uint (mss ?b)"
    using edge_distance [OF d(1) d2, of w "mss ?b"] by (simp add: d_def algebra_simps)
  have n: "sint (rcv_nxt ?b - rcv_ann_right_edge ?b) = - sint d"
  proof -
    have "rcv_nxt ?b - rcv_ann_right_edge ?b = of_int (- sint d)" by (simp add: d_def)
    then show ?thesis using d(1) d2 sint_of_int_u32 [of "- sint d"] by simp
  qed
  define u where "u = tcp_update_rcv_ann_wnd (?b\<lparr>rcv_wnd := w\<rparr>)"
  have b: "rcv_wnd b = rcv_wnd (snd u)" "rcv_ann_wnd b = rcv_ann_wnd (snd u)"
    by (simp_all add: b_def tcp_recved_def Let_def case_prod_beta upd_pcb_def u_def w_def)
  have "rcv_wnd (snd u) = w \<and> rcv_ann_wnd (snd u) \<le> w \<and> sint d \<le> uint (rcv_ann_wnd (snd u))"
  proof (cases "0 \<le> uint w - sint d - uint (mss ?b)")
    case True
    moreover from this have "sint d \<le> uint w" using u16_bounds [of "mss ?b"] by linarith
    ultimately show ?thesis using g by (simp add: u_def tcp_update_rcv_ann_wnd_def TCP_SEQ_GEQ_def Let_def)
  next
    case False
    show ?thesis
    proof (cases "0 < - sint d")
      case True
      then show ?thesis using g n False by (simp add: u_def tcp_update_rcv_ann_wnd_def TCP_SEQ_GEQ_def TCP_SEQ_GT_def Let_def)
    next
      case nonneg: False
      have "uint d = sint d" using uint_of_int_u32 [of "sint d"] nonneg d2 by simp
      then have "uint (ucast (rcv_ann_right_edge ?b - rcv_nxt ?b) :: u16) = sint d"
        using nonneg d2 by (simp add: unsigned_ucast_eq take_bit_int_eq_self flip: d_def)
      then show ?thesis using g n False nonneg d wi
        by (simp add: u_def tcp_update_rcv_ann_wnd_def TCP_SEQ_GEQ_def TCP_SEQ_GT_def Let_def word_le_def)
    qed
  qed
  then show ?thesis using b w by (simp add: d_def)
qed

definition one_connection :: tcps where
  "one_connection = \<lparr>pcbs = (\<lambda>_. undefined\<lparr>rcv_nxt := 5000, rcv_wnd := 1500, rcv_ann_wnd := 1500,
     rcv_ann_right_edge := 6500, mss := 536, local_port := 888\<rparr>),
     bound_pcbs = [], listen_pcbs = [], active_pcbs = [10], tw_pcbs = [], new_port = 4096, tcp_ticks = 0, tcp_timer = 0, iss = 6510, tcp_input_pcb = None\<rparr>"

lemma tcp_recved_window_witness:
  "1500 \<le> rcv_wnd (pcbs (snd (tcp_recved 10 1000 one_connection)) 10) \<and>
   1500 \<le> uint (rcv_ann_wnd (pcbs (snd (tcp_recved 10 1000 one_connection)) 10))"
  using tcp_recved_window [of one_connection 10 1000] by (simp add: one_connection_def)

section \<open>Finding a port\<close>

lemma next_port_range: "4096 \<le> n \<Longrightarrow> n \<le> 0x7fff \<Longrightarrow>
    unat (next_port n) = (if unat n = 32767 then 4096 else unat n + 1)"
proof -
  assume n: "4096 \<le> n" "n \<le> 0x7fff"
  then have "unat n \<le> 32767" by (simp add: word_le_nat_alt)
  moreover from this have "unat (n + 1) = unat n + 1" by (simp add: unat_word_ariths(1))
  ultimately show ?thesis by (auto simp: next_port_def Let_def word_less_nat_alt)
qed

definition port_dist :: "nat \<Rightarrow> nat \<Rightarrow> nat" where
  "port_dist q n = (if n < q then q - n else q + 28672 - n)"

lemma tcp_new_port_finds:
  "\<not> port_used t q \<Longrightarrow> 4096 \<le> q \<Longrightarrow> q \<le> 0x7fff \<Longrightarrow> 4096 \<le> new_port t \<Longrightarrow> new_port t \<le> 0x7fff \<Longrightarrow>
   \<exists>p. tcp_new_port t = Some (p, t\<lparr>new_port := p\<rparr>) \<and> \<not> port_used t p \<and> 4096 \<le> p \<and> p \<le> 0x7fff"
proof (induction "port_dist (unat q) (unat (new_port t))" arbitrary: t rule: less_induct)
  case less
  let ?p = "next_port (new_port t)" let ?t = "t\<lparr>new_port := next_port (new_port t)\<rparr>"
  have up: "unat ?p = (if unat (new_port t) = 32767 then 4096 else unat (new_port t) + 1)"
    using next_port_range less.prems by blast
  then have r: "4096 \<le> ?p" "?p \<le> 0x7fff" using less.prems(4,5) by (simp_all add: word_le_nat_alt)
  have same: "port_used ?t x = port_used t x" for x by (simp add: port_used_def)
  show ?case
  proof (cases "port_used t ?p")
    case False
    then show ?thesis using r same by (intro exI [of _ ?p]) (subst tcp_new_port.simps, simp add: Let_def)
  next
    case True
    then have "?p \<noteq> q" using less.prems(1) by auto
    then have "unat ?p \<noteq> unat q" using unsigned_word_eqI by blast
    then have "port_dist (unat q) (unat ?p) < port_dist (unat q) (unat (new_port t))"
      using up less.prems(2-5) by (auto simp: port_dist_def word_le_nat_alt)
    then obtain p where "tcp_new_port ?t = Some (p, ?t\<lparr>new_port := p\<rparr>)" "\<not> port_used ?t p" "4096 \<le> p" "p \<le> 0x7fff"
      using less.hyps [of ?t] less.prems(1-3) r same by auto
    moreover have "tcp_new_port t = tcp_new_port ?t" using True same by (subst tcp_new_port.simps) (simp add: Let_def)
    ultimately show ?thesis using same by auto
  qed
qed

text \<open>With fewer blocks on the lists than ports in the range, \<^verbatim>\<open>tcp_new_port\<close> returns, with a port of the
  range that no block on them uses.\<close>

theorem tcp_new_port_returns:
  assumes few: "length (active_pcbs t) + length (tw_pcbs t) + length (listen_pcbs t) < 28672"
    and start: "TCP_LOCAL_PORT_RANGE_START \<le> new_port t" "new_port t \<le> TCP_LOCAL_PORT_RANGE_END"
  shows "\<exists>p. tcp_new_port t = Some (p, t\<lparr>new_port := p\<rparr>) \<and> \<not> port_used t p \<and>
    TCP_LOCAL_PORT_RANGE_START \<le> p \<and> p \<le> TCP_LOCAL_PORT_RANGE_END"
proof -
  let ?l = "active_pcbs t @ tw_pcbs t @ listen_pcbs t"
  let ?U = "(\<lambda>p. unat (local_port (pcbs t p))) ` set ?l"
  have "card ?U \<le> length ?l" using card_image_le [of "set ?l"] card_length [of ?l] le_trans by blast
  then have "\<not> {4096..32767} \<subseteq> ?U" using few card_mono [of ?U "{4096..32767}"] by auto
  then obtain k where "k \<in> {4096..32767}" and out: "k \<notin> ?U" by blast
  then have k: "4096 \<le> k" "k \<le> 32767" by simp_all
  define q :: u16 where "q = of_nat k"
  have q: "unat q = k" using k by (simp add: q_def unsigned_of_nat take_bit_nat_eq_self)
  have "\<not> port_used t q" using out unfolding port_used_def q [symmetric] by auto
  moreover have "4096 \<le> q" "q \<le> 0x7fff" using k q by (simp_all add: word_le_nat_alt)
  ultimately show ?thesis using tcp_new_port_finds start by blast
qed

lemma tcp_new_port_returns_witness: "\<exists>p. tcp_new_port one_connection = Some (p, one_connection\<lparr>new_port := p\<rparr>) \<and> p \<le> 0x7fff"
  using tcp_new_port_returns [of one_connection] by (auto simp: one_connection_def)

section \<open>Binding\<close>

lemma TCP_RMV_remove1: "TCP_RMV p ps = remove1 p ps"
  by (induction ps) auto

text \<open>A block that is bound shares its port with no block of the lists on the same address.\<close>

lemma tcp_bind_exclusive:
  assumes "tcp_bind p ipaddr port t = Some (ERR_OK, t')" "port \<noteq> 0"
    "p \<notin> set (listen_pcbs t @ active_pcbs t @ bound_pcbs t)"
  shows "local_port (pcbs t' p) = port \<and> bound_pcbs t' = p # bound_pcbs t \<and>
    (\<forall>c \<in> set (listen_pcbs t' @ active_pcbs t' @ bound_pcbs t). local_port (pcbs t' c) = port \<longrightarrow>
       local_ip (pcbs t' c) \<noteq> 0 \<and> ipaddr \<noteq> 0 \<and> local_ip (pcbs t' c) \<noteq> ipaddr)"
  using assms by (auto simp: tcp_bind_def in_use_def upd_pcb_def TCP_REG_def Let_def split: if_splits)

text \<open>Listening replaces the block by a smaller one and keeps every pool's elements accounted for.\<close>

lemma tcp_listen_swaps:
  assumes "tcp_listen_with_backlog p t tab = (Some l, t', tab')" "l \<noteq> p"
  shows "tab' MEMP_TCP_PCB = p # tab MEMP_TCP_PCB \<and> tab MEMP_TCP_PCB_LISTEN = l # tab' MEMP_TCP_PCB_LISTEN \<and>
    listen_pcbs t' = l # listen_pcbs t \<and> bound_pcbs t' = remove1 p (bound_pcbs t) \<and>
    tstate (pcbs t' l) = LISTEN \<and> local_port (pcbs t' l) = local_port (pcbs t p) \<and> cb_accept (pcbs t' l) = Some TCP_ACCEPT_NULL"
  using assms by (auto simp: tcp_listen_with_backlog_def memp_malloc_def memp_free_def upd_pcb_def TCP_REG_def TCP_RMV_remove1
      Let_def split: if_splits list.splits)

end
