(* ===== verification/TcpServer.thy ===== *)
theory TcpServer
  imports Xvc Tcp Pbuf
begin

text \<open>
  The TCP connection callbacks of \<^verbatim>\<open>tcpserver.c\<close>: accepting a connection, receiving, polling, errors and
  closing, and \<^verbatim>\<open>tcp_server_deal\<close>, which collects the received buffers and hands them to the command
  interpreter. The state has the packet memory, the connection structures on the heap, the control blocks,
  the receive buffer and what the interpreter keeps. The flags of a control block live in \<open>Tcp\<close>; the
  interpreter gets and returns them. What the callbacks ask of \<^verbatim>\<open>tcp_output\<close>, \<^verbatim>\<open>tcp_close\<close> and \<^verbatim>\<open>tcp_abort\<close> is
  recorded in order; the free send buffer of a connection is set by the stack.

  The results: a packet is handed over whole and given back, one longer than the receive buffer overruns
  it, and when the send buffer is short the interpreter runs again on what the buffer held before.
\<close>

datatype tcp_server_states = ES_NONE | ES_ACCEPTED | ES_RECEIVED | ES_CLOSING

record tcp_server_struct =
  es_state :: tcp_server_states
  es_pcb :: nat
  es_p :: "addr option"

datatype tcp_call = Output nat | Close nat | Abort nat

record srv =
  pm :: pmem
  es_at :: "nat \<Rightarrow> tcp_server_struct option"
  tcp :: tcps
  tcp_server_pcb :: "nat option"
  tcp_recvbuf :: memory
  application :: app
  hw :: hist
  asked :: "tcp_call list"

abbreviation (input) TCP_RECV_BUF_MAX_SIZE :: nat where "TCP_RECV_BUF_MAX_SIZE \<equiv> 2048"
abbreviation (input) TCP_PRIO_MIN :: u8 where "TCP_PRIO_MIN \<equiv> 1"
abbreviation (input) SOF_KEEPALIVE :: u16 where "SOF_KEEPALIVE \<equiv> 0x0008"

type_synonym 'a outcome = "(fault + 'a) option"

section \<open>Listening\<close>

text \<open>
  \<^verbatim>\<open>tcp_new\<close> is given by its result; a null pointer from it or from \<^verbatim>\<open>tcp_listen\<close> is written through
  (\<open>None\<close>).
\<close>

definition Tcp_Server_Init :: "nat option \<Rightarrow> u16 \<Rightarrow> srv \<Rightarrow> srv option" where
  "Tcp_Server_Init new_pcb TCP_Port s =
     (let s = s\<lparr>tcp_server_pcb := new_pcb\<rparr> in
      case new_pcb of
        None \<Rightarrow> None
      | Some p \<Rightarrow>
          let s = s\<lparr>tcp := upd_pcb p (\<lambda>b. b\<lparr>so_options := so_options b OR SOF_KEEPALIVE\<rparr>) (tcp s)\<rparr>
          in Option.bind (tcp_bind p 0 TCP_Port (tcp s)) (\<lambda>(err, t).
             if err = ERR_OK then
               let (l, t, tab) = tcp_listen_with_backlog p t (pools (pm s));
                   s = s\<lparr>tcp_server_pcb := l, tcp := t, pm := (pm s)\<lparr>pools := tab\<rparr>\<rparr>
               in case l of None \<Rightarrow> None
                  | Some l \<Rightarrow> Some (s\<lparr>tcp := tcp_accept l (Some TCP_SERVER_ACCEPT) (tcp s)\<rparr>)
             else Some (s\<lparr>tcp := t, pm := (pm s)\<lparr>pools := memp_free MEMP_TCP_PCB (Some p) (pools (pm s))\<rparr>\<rparr>)))"

section \<open>Closing\<close>

definition tcp_server_connection_close :: "nat \<Rightarrow> nat option \<Rightarrow> srv \<Rightarrow> srv" where
  "tcp_server_connection_close tpcb es s =
     (let t = tcp_arg tpcb None (tcp s);
          t = tcp_sent tpcb None t;
          t = tcp_recv tpcb None t;
          t = tcp_err tpcb None t;
          t = tcp_poll tpcb None 0 t;
          s = s\<lparr>tcp := t\<rparr>;
          s = (case es of None \<Rightarrow> s
               | Some e \<Rightarrow> s\<lparr>es_at := (es_at s)(e := None), pm := (pm s)\<lparr>heap := mem_free (Some e) (heap (pm s))\<rparr>\<rparr>)
      in s\<lparr>asked := asked s @ [Close tpcb]\<rparr>)"

section \<open>Accepting\<close>

definition tcp_server_accept :: "nat \<Rightarrow> srv \<Rightarrow> (err_t \<times> srv) option" where
  "tcp_server_accept newpcb s =
     (let s = s\<lparr>tcp := tcp_setprio newpcb TCP_PRIO_MIN (tcp s)\<rparr> in
      Option.bind (mem_malloc 12 (heap (pm s))) (\<lambda>(es, h).
      let s = s\<lparr>pm := (pm s)\<lparr>heap := h\<rparr>\<rparr> in
      case es of
        Some e \<Rightarrow>
          let s = s\<lparr>es_at := (es_at s)(e \<mapsto> \<lparr>es_state = ES_ACCEPTED, es_pcb = newpcb, es_p = None\<rparr>)\<rparr>;
              t = tcp_arg newpcb (Some e) (tcp s);
              t = tcp_recv newpcb (Some TCP_SERVER_RECEIVE) t;
              t = tcp_sent newpcb (Some TCP_SERVER_SENT) t;
              t = tcp_err newpcb (Some TCP_SERVER_ERROR) t;
              t = tcp_poll newpcb (Some TCP_SERVER_POLL) 1 t
          in Some (ERR_OK, s\<lparr>tcp := t\<rparr>)
      | None \<Rightarrow> Some (ERR_MEM, tcp_server_connection_close newpcb None s)))"

section \<open>Handing data over\<close>

definition srv_recved :: "nat \<Rightarrow> u16 \<Rightarrow> srv \<Rightarrow> srv" where
  "srv_recved tpcb len s =
     (let (now, t) = tcp_recved tpcb len (tcp s)
      in s\<lparr>tcp := t, asked := asked s @ (if now then [Output tpcb] else [])\<rparr>)"

text \<open>\<^verbatim>\<open>do freed = pbuf_free(ptr); while (freed == 0)\<close>\<close>

partial_function (option) free_until :: "addr \<Rightarrow> pmem \<Rightarrow> pmem option" where
  "free_until p s = Option.bind (pbuf_free (Some p) s) (\<lambda>(freed, s). if freed = 0 then free_until p s else Some s)"

definition recv_copy :: "int \<Rightarrow> u8 list \<Rightarrow> memory \<Rightarrow> memory" where
  "recv_copy off bs m = (\<lambda>i. if off \<le> i \<and> i < off + int (length bs) then bs ! nat (i - off) else m i)"

partial_function (option) deal_loop :: "nat \<Rightarrow> nat \<Rightarrow> u16 \<Rightarrow> srv \<Rightarrow> (fault + u16 \<times> srv) option" where
  "deal_loop tpcb es len s =
     Option.bind (es_at s es) (\<lambda>e.
     case es_p e of
       None \<Rightarrow> Some (Inr (len, s))
     | Some ptr \<Rightarrow>
         Option.bind (pbs (pm s) ptr) (\<lambda>b.
         if plen b \<le> snd_buf (pcbs (tcp s) tpcb) then
           if unat len + unat (plen b) > TCP_RECV_BUF_MAX_SIZE then Some (Inl OVERRUN)
           else
             let s = s\<lparr>tcp_recvbuf := recv_copy (uint len) (read_at (payload b) (unat (plen b)) (dat (pm s))) (tcp_recvbuf s)\<rparr>;
                 s = s\<lparr>es_at := (es_at s)(es \<mapsto> e\<lparr>es_p := p_next b\<rparr>)\<rparr>
             in Option.bind (if p_next b \<noteq> None then pbuf_ref (p_next b) (pm s) else Some (pm s)) (\<lambda>m.
                Option.bind (free_until ptr m) (\<lambda>m.
                deal_loop tpcb es (len + plen b) (srv_recved tpcb (plen b) (s\<lparr>pm := m\<rparr>))))
         else Some (Inr (len, s))))"

text \<open>The interpreter works on the flags of the control blocks.\<close>

definition run_xvc :: "env \<Rightarrow> nat \<Rightarrow> u16 \<Rightarrow> srv \<Rightarrow> srv outcome" where
  "run_xvc env tpcb len s =
     map_option (map_sum id (\<lambda>(a, h).
         s\<lparr>application := a, hw := h,
           tcp := (tcp s)\<lparr>pcbs := (\<lambda>p. (pcbs (tcp s) p)\<lparr>tflags := pcb_flags a p\<rparr>)\<rparr>\<rparr>))
       (XVC_Interface env tpcb (tcp_recvbuf s) len ((application s)\<lparr>pcb_flags := (\<lambda>p. tflags (pcbs (tcp s) p))\<rparr>) (hw s))"

definition tcp_server_deal :: "env \<Rightarrow> nat \<Rightarrow> nat \<Rightarrow> srv \<Rightarrow> srv outcome" where
  "tcp_server_deal env tpcb es s =
     Option.bind (deal_loop tpcb es 0 s) (\<lambda>r.
     case r of Inl f \<Rightarrow> Some (Inl f) | Inr (len, s) \<Rightarrow> run_xvc env tpcb len s)"

section \<open>The callbacks of a connection\<close>

definition set_es :: "nat \<Rightarrow> (tcp_server_struct \<Rightarrow> tcp_server_struct) \<Rightarrow> srv \<Rightarrow> srv" where
  "set_es es f s = s\<lparr>es_at := (es_at s)(es := map_option f (es_at s es))\<rparr>"

definition returning :: "err_t \<Rightarrow> srv outcome \<Rightarrow> (err_t \<times> srv) outcome" where
  "returning r = map_option (map_sum id (Pair r))"

text \<open>Trashing a packet: \<^verbatim>\<open>es->p\<close> is cleared, not given back.\<close>

definition trash :: "nat \<Rightarrow> addr \<Rightarrow> srv \<Rightarrow> srv option" where
  "trash es p s = (let s = set_es es (\<lambda>e. e\<lparr>es_p := None\<rparr>) s in
     map_option (\<lambda>(_, m). s\<lparr>pm := m\<rparr>) (pbuf_free (Some p) (pm s)))"

definition tcp_server_receive :: "env \<Rightarrow> nat \<Rightarrow> nat \<Rightarrow> addr option \<Rightarrow> err_t \<Rightarrow> srv \<Rightarrow> (err_t \<times> srv) outcome" where
  "tcp_server_receive env es tpcb po err s =
     Option.bind (es_at s es) (\<lambda>e.
     case po of
       None \<Rightarrow>
         let s = set_es es (\<lambda>e. e\<lparr>es_state := ES_CLOSING\<rparr>) s
         in if es_p e = None then Some (Inr (ERR_OK, tcp_server_connection_close tpcb (Some es) s))
            else let s = s\<lparr>tcp := tcp_sent tpcb (Some TCP_SERVER_SENT) (tcp s)\<rparr>
                 in returning ERR_OK (tcp_server_deal env tpcb es s)
     | Some p \<Rightarrow>
         if err \<noteq> ERR_OK then map_option (\<lambda>s. Inr (err, s)) (trash es p s)
         else if es_state e = ES_ACCEPTED \<or> es_state e = ES_RECEIVED then
           let s = (if es_state e = ES_ACCEPTED then set_es es (\<lambda>e. e\<lparr>es_state := ES_RECEIVED\<rparr>) s else s)
           in case es_p e of
                None \<Rightarrow> returning ERR_OK (tcp_server_deal env tpcb es (set_es es (\<lambda>e. e\<lparr>es_p := Some p\<rparr>) s))
              | Some ptr \<Rightarrow> map_option (\<lambda>m. Inr (ERR_OK, s\<lparr>pm := m\<rparr>)) (pbuf_chain (Some ptr) (Some p) (pm s))
         else
           Option.bind (pbs (pm s) p) (\<lambda>b.
           map_option (\<lambda>s. Inr (ERR_OK, s)) (trash es p (srv_recved tpcb (tot_len b) s))))"

definition tcp_server_sent :: "env \<Rightarrow> nat \<Rightarrow> nat \<Rightarrow> srv \<Rightarrow> (err_t \<times> srv) outcome" where
  "tcp_server_sent env es tpcb s =
     Option.bind (es_at s es) (\<lambda>e.
     if es_p e \<noteq> None then
       returning ERR_OK (tcp_server_deal env tpcb es (s\<lparr>tcp := tcp_sent tpcb (Some TCP_SERVER_SENT) (tcp s)\<rparr>))
     else if es_state e = ES_CLOSING then Some (Inr (ERR_OK, tcp_server_connection_close tpcb (Some es) s))
     else Some (Inr (ERR_OK, s)))"

definition tcp_server_error :: "nat option \<Rightarrow> srv \<Rightarrow> srv" where
  "tcp_server_error arg s =
     (case arg of None \<Rightarrow> s
      | Some es \<Rightarrow> s\<lparr>es_at := (es_at s)(es := None), pm := (pm s)\<lparr>heap := mem_free (Some es) (heap (pm s))\<rparr>\<rparr>)"

definition tcp_server_poll :: "env \<Rightarrow> nat option \<Rightarrow> nat \<Rightarrow> srv \<Rightarrow> (err_t \<times> srv) outcome" where
  "tcp_server_poll env arg tpcb s =
     (case arg of
        Some es \<Rightarrow>
          Option.bind (es_at s es) (\<lambda>e.
          if es_p e \<noteq> None then
            returning ERR_OK (tcp_server_deal env tpcb es (s\<lparr>tcp := tcp_sent tpcb (Some TCP_SERVER_SENT) (tcp s)\<rparr>))
          else if es_state e = ES_CLOSING then Some (Inr (ERR_OK, tcp_server_connection_close tpcb (Some es) s))
          else Some (Inr (ERR_OK, s)))
      | None \<Rightarrow> Some (Inr (ERR_ABRT, s\<lparr>asked := asked s @ [Abort tpcb]\<rparr>)))"

section \<open>Giving back the first buffer of a chain\<close>

lemma freed_Cons: "a \<notin> set as \<Longrightarrow> freed as (freed [a] m) = freed (a # as) m"
proof -
  assume a: "a \<notin> set as"
  have e: "elems ts (\<lambda>c. if c = a then None else pbs m c) as = elems ts (pbs m) as" for ts
    using a by (intro elems_cong) auto
  show ?thesis
    by (simp add: freed_def e elems_Cons [of _ _ a "[]"] elems_Cons [of _ _ a as] elems_def [of _ _ "[]"] fun_upd_twist)
      (auto intro!: pmem.equality ext)
qed

lemma freed_put_same:
  assumes "pbs m p = Some b" "ptype b' = ptype b"
  shows "freed [p] (Pbuf.put p b' m) = freed [p] m"
  using assms by (auto simp: freed_def Pbuf.put_def elems_def intro!: pmem.equality ext)

definition ref_head :: "addr list \<Rightarrow> pmem \<Rightarrow> pmem" where
  "ref_head as m = (case as of [] \<Rightarrow> m
     | n # _ \<Rightarrow> Pbuf.put n ((the (pbs m n))\<lparr>pref := pref (the (pbs m n)) + 1\<rparr>) m)"

text \<open>
  Each round takes one reference; the last one frees the buffer and takes the extra reference from its
  successor.
\<close>

lemma free_until_first:
  "linked (pbs m) (Some p) (p # as) None \<Longrightarrow> placed (pbs m) p \<Longrightarrow> pref (the (pbs m p)) \<noteq> 0 \<Longrightarrow>
   as = [] \<or> pref (the (pbs m (hd as))) \<notin> {0, - 1} \<Longrightarrow>
   free_until p (ref_head as m) = Some (freed [p] m)"
proof (induction "unat (pref (the (pbs m p)))" arbitrary: m rule: less_induct)
  case less
  obtain b where b: "pbs m p = Some b" "linked (pbs m) (p_next b) as None" using less.prems(1) by auto
  have d: "p \<notin> set as" using linked_distinct [OF less.prems(1)] by simp
  let ?m = "ref_head as m"
  have pb: "pbs ?m p = Some b" using b(1) d by (cases as) (auto simp: ref_head_def Pbuf.put_def)
  have lk: "linked (pbs ?m) (Some p) (p # as) None"
    using less.prems(1) b
    by (subst linked_cong [of _ "pbs ?m" "pbs m"]) (cases as, auto simp: ref_head_def Pbuf.put_def)
  have pl: "placed (pbs ?m) p" using less.prems(2) b(1) pb by (simp add: placed_def)
  show ?case
  proof (cases "pref b = 1")
    case True
    have two: "as = [] \<or> pref (the (pbs ?m (hd as))) \<noteq> 1"
      using less.prems(4) by (cases as) (auto simp: ref_head_def Pbuf.put_def)
    have "free_loop (Some p) 0 ?m = Some (1, case as of [] \<Rightarrow> freed [p] ?m
        | y # _ \<Rightarrow> Pbuf.put y ((the (pbs ?m y))\<lparr>pref := pref (the (pbs ?m y)) - 1\<rparr>) (freed [p] ?m))"
      using free_loop_chain [of ?m "Some p" "[p]" as 0] lk pl two True pb by (simp add: Let_def)
    moreover have "(case as of [] \<Rightarrow> freed [p] ?m
        | y # _ \<Rightarrow> Pbuf.put y ((the (pbs ?m y))\<lparr>pref := pref (the (pbs ?m y)) - 1\<rparr>) (freed [p] ?m)) = freed [p] m"
    proof (cases as)
      case Nil
      then show ?thesis by (simp add: ref_head_def)
    next
      case (Cons y ys)
      obtain yb where "pbs m y = Some yb" using b(2) Cons by auto
      then show ?thesis using Cons d
        by (auto simp: ref_head_def Pbuf.put_def freed_def elems_def intro!: pmem.equality ext)
    qed
    ultimately show ?thesis by (subst free_until.simps) (simp add: pbuf_free_def)
  next
    case False
    let ?b = "b\<lparr>pref := pref b - 1\<rparr>"
    let ?n = "Pbuf.put p ?b m"
    have ref: "pref b \<noteq> 0" "0 < unat (pref b)" using less.prems(3) b(1) by (simp_all add: unat_gt_0)
    have "free_loop (Some p) 0 ?m = Some (0, Pbuf.put p ?b ?m)"
      using False pb by (subst free_loop.simps) (simp add: Let_def)
    moreover have "Pbuf.put p ?b ?m = ref_head as ?n"
      using d by (cases as) (auto simp: ref_head_def Pbuf.put_def fun_upd_twist)
    ultimately have "free_until p ?m = free_until p (ref_head as ?n)"
      by (subst free_until.simps) (simp add: pbuf_free_def)
    also have "\<dots> = Some (freed [p] ?n)"
    proof (rule less.hyps)
      show "unat (pref (the (pbs ?n p))) < unat (pref (the (pbs m p)))"
        using ref b(1) by (simp add: Pbuf.put_def unat_minus_one)
      show "linked (pbs ?n) (Some p) (p # as) None"
        using b d by (auto simp: Pbuf.put_def)
      show "placed (pbs ?n) p" using less.prems(2) b(1) by (auto simp: placed_def Pbuf.put_def split: addr.splits)
      show "pref (the (pbs ?n p)) \<noteq> 0" using False by (simp add: Pbuf.put_def)
      show "as = [] \<or> pref (the (pbs ?n (hd as))) \<notin> {0, - 1}"
        using less.prems(4) d by (cases as) (auto simp: Pbuf.put_def)
    qed
    also have "freed [p] ?n = freed [p] m" using b(1) by (intro freed_put_same) simp_all
    finally show ?thesis .
  qed
qed

section \<open>Collecting a packet\<close>

definition sendable :: "pmem \<Rightarrow> u16 \<Rightarrow> addr list \<Rightarrow> bool" where
  "sendable m room as \<longleftrightarrow> (\<forall>a \<in> set as. placed (pbs m) a \<and> pref (the (pbs m a)) \<notin> {0, - 1} \<and> plen (the (pbs m a)) \<le> room)"

lemma recv_copy_append: "recv_copy (off + int (length xs)) ys (recv_copy off xs m) = recv_copy off (xs @ ys) m"
  by (intro ext) (auto simp: recv_copy_def nth_append nat_diff_distrib' intro!: arg_cong [of _ _ "(!) ys"])

lemma recv_copy_Nil [simp]: "recv_copy off [] m = m"
  by (intro ext) (auto simp: recv_copy_def)

lemma freed_keeps:
  assumes "p \<notin> set as"
  shows "contents (freed [p] m) as = contents m as" "lens (pbs (freed [p] m)) as = lens (pbs m) as"
    "linked (pbs (freed [p] m)) q as None = linked (pbs m) q as None" "sendable (freed [p] m) n as = sendable m n as"
    "dat (freed [p] m) = dat m"
proof -
  have same: "pbs (freed [p] m) a = pbs m a" if "a \<in> set as" for a using that assms by (auto simp: freed_def)
  show d: "dat (freed [p] m) = dat m" by (simp add: freed_def)
  show "contents (freed [p] m) as = contents m as" using same d by (intro contents_cong) (simp add: bytes_of_def split: option.splits)
  show "lens (pbs (freed [p] m)) as = lens (pbs m) as" using same by (intro lens_cong) (simp add: blen_def)
  show "linked (pbs (freed [p] m)) q as None = linked (pbs m) q as None" using same by (intro linked_cong) simp
  show "sendable (freed [p] m) n as = sendable m n as" using same by (simp add: sendable_def placed_def)
qed

lemma srv_recved_simps [simp]:
  "pm (srv_recved t n s) = pm s" "es_at (srv_recved t n s) = es_at s" "tcp_recvbuf (srv_recved t n s) = tcp_recvbuf s"
  "application (srv_recved t n s) = application s" "hw (srv_recved t n s) = hw s"
  "snd_buf (pcbs (tcp (srv_recved t n s)) t) = snd_buf (pcbs (tcp s) t)"
  by (simp_all add: srv_recved_def tcp_recved_def tcp_update_rcv_ann_wnd_def upd_pcb_def Let_def case_prod_beta)

definition collected :: "nat \<Rightarrow> tcp_server_struct \<Rightarrow> u16 \<Rightarrow> addr list \<Rightarrow> srv \<Rightarrow> srv \<Rightarrow> bool" where
  "collected es e len as s s' \<longleftrightarrow> tcp_recvbuf s' = recv_copy (uint len) (contents (pm s) as) (tcp_recvbuf s) \<and>
     pm s' = freed as (pm s) \<and> es_at s' = (es_at s)(es \<mapsto> e\<lparr>es_p := None\<rparr>) \<and>
     application s' = application s \<and> hw s' = hw s"

lemma deal_loop_chain:
  "es_at s es = Some e \<Longrightarrow> linked (pbs (pm s)) (es_p e) as None \<Longrightarrow> sendable (pm s) (snd_buf (pcbs (tcp s) t)) as \<Longrightarrow>
   unat len \<le> TCP_RECV_BUF_MAX_SIZE \<Longrightarrow>
   (if unat len + lens (pbs (pm s)) as > TCP_RECV_BUF_MAX_SIZE then deal_loop t es len s = Some (Inl OVERRUN)
    else \<exists>s'. deal_loop t es len s = Some (Inr (len + of_nat (lens (pbs (pm s)) as), s')) \<and> collected es e len as s s')"
proof (induction as arbitrary: s e len)
  case Nil
  then have "deal_loop t es len s = Some (Inr (len, s))" by (subst deal_loop.simps) simp
  moreover have "freed [] (pm s) = pm s" by (simp add: freed_def elems_def)
  moreover have "(es_at s)(es \<mapsto> e\<lparr>es_p := None\<rparr>) = es_at s"
    using Nil.prems(1,2) by (cases e) (auto simp: fun_upd_idem_iff)
  ultimately show ?case using Nil.prems(4) by (simp add: collected_def)
next
  case (Cons p as)
  obtain b where b: "es_p e = Some p" "pbs (pm s) p = Some b" "linked (pbs (pm s)) (p_next b) as None" using Cons.prems(2) by auto
  have d: "p \<notin> set as" using linked_distinct [OF Cons.prems(2)] by simp
  have sp: "placed (pbs (pm s)) p" "pref b \<noteq> 0" "plen b \<le> snd_buf (pcbs (tcp s) t)" "sendable (pm s) (snd_buf (pcbs (tcp s) t)) as"
    using Cons.prems(3) b(2) by (auto simp: sendable_def)
  have bl: "blen (pbs (pm s)) p = unat (plen b)" using b(2) by (simp add: blen_def)
  show ?case
  proof (cases "unat len + unat (plen b) > TCP_RECV_BUF_MAX_SIZE")
    case True
    then have "deal_loop t es len s = Some (Inl OVERRUN)" using b sp Cons.prems(1) by (subst deal_loop.simps) simp
    then show ?thesis using True bl by simp
  next
    case False
    then have ul: "unat (len + plen b) = unat len + unat (plen b)" by (simp add: unat_word_ariths(1))
    define s1 where "s1 = srv_recved t (plen b) (s\<lparr>tcp_recvbuf := recv_copy (uint len) (bytes_of (pm s) p) (tcp_recvbuf s),
      es_at := (es_at s)(es \<mapsto> e\<lparr>es_p := p_next b\<rparr>), pm := freed [p] (pm s)\<rparr>)"
    have rh: "(if p_next b \<noteq> None then pbuf_ref (p_next b) (pm s) else Some (pm s)) = Some (ref_head as (pm s))"
      using b(3) by (cases as) (auto simp: ref_head_def pbuf_ref_def)
    have "as = [] \<or> pref (the (pbs (pm s) (hd as))) \<notin> {0, - 1}" using sp(4) by (cases as) (auto simp: sendable_def)
    then have fu: "free_until p (ref_head as (pm s)) = Some (freed [p] (pm s))"
      using free_until_first [of "pm s" p as] Cons.prems(2) b(1,2) sp(1,2) by simp
    have step: "deal_loop t es len s = deal_loop t es (len + plen b) s1"
      using b(1,2) sp(3) Cons.prems(1) False rh fu
      by (subst deal_loop.simps) (cases "p_next b", simp_all add: Let_def s1_def bytes_of_def)
    have f: "pm s1 = freed [p] (pm s)" "es_at s1 es = Some (e\<lparr>es_p := p_next b\<rparr>)" by (simp_all add: s1_def)
    have pre: "linked (pbs (pm s1)) (es_p (e\<lparr>es_p := p_next b\<rparr>)) as None" "sendable (pm s1) (snd_buf (pcbs (tcp s1) t)) as"
      "unat (len + plen b) \<le> TCP_RECV_BUF_MAX_SIZE" "lens (pbs (pm s1)) as = lens (pbs (pm s)) as"
      "contents (pm s1) as = contents (pm s) as"
      using b(3) sp(4) ul False freed_keeps [OF d] by (simp_all add: s1_def)
    note ih = Cons.IH [OF f(2) pre(1-3)]
    show ?thesis
    proof (cases "unat len + lens (pbs (pm s)) (p # as) > TCP_RECV_BUF_MAX_SIZE")
      case True
      then show ?thesis using ih ul bl pre(4) step by simp
    next
      case fits: False
      then obtain s' where s': "deal_loop t es (len + plen b) s1 = Some (Inr (len + plen b + of_nat (lens (pbs (pm s)) as), s'))"
        "collected es (e\<lparr>es_p := p_next b\<rparr>) (len + plen b) as s1 s'"
        using ih ul bl pre(4) by auto
      have "uint (len + plen b) = uint len + int (length (bytes_of (pm s) p))"
      proof -
        have "int (unat (len + plen b)) = int (unat len) + int (unat (plen b))" using ul by simp
        then show ?thesis using bl by simp
      qed
      then have "collected es e len (p # as) s s'"
        using s'(2) pre(5) f(1) freed_Cons [OF d, of "pm s"]
          recv_copy_append [of "uint len" "bytes_of (pm s) p" "contents (pm s) as" "tcp_recvbuf s"]
        by (simp add: collected_def s1_def)
      then show ?thesis using fits step s'(1) bl by (auto simp: add_ac)
    qed
  qed
qed

text \<open>C4: a packet that fits goes to the interpreter whole. Where the connection holds a packet of at most 2048
  bytes whose buffers have a reference count other than 0 and 65535 and each fit the free send buffer (with a shorter
  one the interpreter gets old data, \<open>tcp_server_deal_replays\<close>), \<^verbatim>\<open>tcp_server_deal\<close> runs the
  interpreter once, on a receive buffer that starts with the packet's bytes and is otherwise as before,
  with their number; every buffer has then been given back, whatever its reference count, and the
  connection holds no packet.\<close>

theorem tcp_server_deal_delivers:
  assumes e: "es_at s es = Some e" and p: "linked (pbs (pm s)) (es_p e) as None"
    and ok: "sendable (pm s) (snd_buf (pcbs (tcp s) t)) as" and fits: "lens (pbs (pm s)) as \<le> TCP_RECV_BUF_MAX_SIZE"
  shows "\<exists>s'. tcp_server_deal env t es s = run_xvc env t (of_nat (lens (pbs (pm s)) as)) s' \<and>
    tcp_recvbuf s' = recv_copy 0 (contents (pm s) as) (tcp_recvbuf s) \<and> pm s' = freed as (pm s) \<and>
    es_at s' = (es_at s)(es \<mapsto> e\<lparr>es_p := None\<rparr>) \<and> application s' = application s \<and> hw s' = hw s"
  using deal_loop_chain [OF e p ok, of 0] fits by (auto simp: tcp_server_deal_def collected_def)

text \<open>The receive buffer has no guard. A packet longer than 2048 bytes, which the window of 2920 bytes
  lets a peer send, is copied beyond the end of the buffer.\<close>

theorem tcp_server_deal_overruns:
  assumes "es_at s es = Some e" "linked (pbs (pm s)) (es_p e) as None" "sendable (pm s) (snd_buf (pcbs (tcp s) t)) as"
    and "lens (pbs (pm s)) as > TCP_RECV_BUF_MAX_SIZE"
  shows "tcp_server_deal env t es s = Some (Inl OVERRUN)"
  using deal_loop_chain [OF assms(1-3), of 0] assms(4) by (simp add: tcp_server_deal_def)

text \<open>A server with one connection 10 that holds the packet of \<open>three\<close>.\<close>

definition busy :: "u16 \<Rightarrow> addr option \<Rightarrow> pmem \<Rightarrow> srv" where
  "busy room po m = \<lparr>pm = m, es_at = [8 \<mapsto> \<lparr>es_state = ES_RECEIVED, es_pcb = 10, es_p = po\<rparr>],
     tcp = one_connection\<lparr>pcbs := (\<lambda>p. (pcbs one_connection p)\<lparr>snd_buf := room\<rparr>)\<rparr>, tcp_server_pcb = None,
     tcp_recvbuf = (\<lambda>_. 0), application = app_init, hw = [], asked = []\<rparr>"

lemma busy_simps [simp]:
  "pm (busy room po m) = m" "es_at (busy room po m) = [8 \<mapsto> \<lparr>es_state = ES_RECEIVED, es_pcb = 10, es_p = po\<rparr>]"
  "snd_buf (pcbs (tcp (busy room po m)) t) = room" "application (busy room po m) = app_init" "hw (busy room po m) = []"
  "tcp_recvbuf (busy room po m) i = 0"
  by (simp_all add: busy_def)

lemma tcp_server_deal_delivers_witness:
  "\<exists>s'. tcp_server_deal (\<lambda>_ _. 0) 10 8 (busy 2000 (Some (Memp 83)) (three 1 2 1)) = run_xvc (\<lambda>_ _. 0) 10 6 s' \<and>
     pm s' = freed [Memp 83, Memp 84, Memp 85] (three 1 2 1) \<and>
     tcp_recvbuf s' = recv_copy 0 [0, 1, 2, 0, 1, 0] (tcp_recvbuf (busy 2000 (Some (Memp 83)) (three 1 2 1)))"
proof -
  have "contents (three 1 2 1) [Memp 83, Memp 84, Memp 85] = [0, 1, 2, 0, 1, 0]"
    by (simp add: bytes_of_def buf_def read_at_def three_def upt_rec)
  then show ?thesis
    using tcp_server_deal_delivers [of "busy 2000 (Some (Memp 83)) (three 1 2 1)" 8 "\<lparr>es_state = ES_RECEIVED, es_pcb = 10, es_p = Some (Memp 83)\<rparr>"
        "[Memp 83, Memp 84, Memp 85]" 10 "\<lambda>_ _. 0"]
    by (auto simp: three_def buf_def sendable_def placed_def blen_def)
qed

lemma tcp_server_deal_overruns_witness:
  "tcp_server_deal (\<lambda>_ _. 0) 10 8 (busy 2000 (Some (Memp 83)) ((three 1 1 1)\<lparr>pbs := [Memp 83 \<mapsto> buf 83 (Some (Memp 84)) 2920 1460 1,
     Memp 84 \<mapsto> buf 84 None 1460 1460 1]\<rparr>)) = Some (Inl OVERRUN)"
  by (rule tcp_server_deal_overruns [where as = "[Memp 83, Memp 84]" and
      e = "\<lparr>es_state = ES_RECEIVED, es_pcb = 10, es_p = Some (Memp 83)\<rparr>"]) (simp_all add: buf_def sendable_def placed_def blen_def)

section \<open>A short send buffer\<close>

lemma run_xvc_para_get:
  assumes "accepted (tcp_recvbuf s) n" "rd32 (tcp_recvbuf s) 4 = ICD_CMD_PARA_GET"
  shows "\<exists>s'. run_xvc env t n s = Some (Inr s') \<and> pm s' = pm s \<and> es_at s' = es_at s \<and> tcp_recvbuf s' = tcp_recvbuf s \<and>
    sent (application s') = sent (application s) @ [(t, para_rsp (ipaddrGet (netif_ip (application s)))
      (serverPort (netCfgInfo (application s))) (macaddrGet (netif_hwaddr (application s))))]"
  using XVC_dispatch(4) [OF assms] by (simp add: run_xvc_def cmd_para_get_def tcp_write_def with_flags_def)

text \<open>Old commands come back. When the first buffer of the packet is longer than the free send buffer,
  \<^verbatim>\<open>tcp_server_deal\<close> takes nothing, and runs the interpreter with length 0. It then checks the checksum
  against the word in front of the receive buffer: where that word is 0 and the buffer still holds an old
  parameter query, the query is answered again, and again each time the connection is polled.\<close>

theorem tcp_server_deal_replays:
  assumes e: "es_at s es = Some e" "es_p e = Some p" "pbs (pm s) p = Some b" "snd_buf (pcbs (tcp s) t) < plen b"
    and old: "rd32 (tcp_recvbuf s) 0 = TCPHEADFRAME" "rd32 (tcp_recvbuf s) 4 = ICD_CMD_PARA_GET" "rd32 (tcp_recvbuf s) (- 4) = 0"
  shows "\<exists>s'. tcp_server_deal env t es s = Some (Inr s') \<and> pm s' = pm s \<and> es_at s' = es_at s \<and>
    tcp_recvbuf s' = tcp_recvbuf s \<and>
    sent (application s') = sent (application s) @ [(t, para_rsp (ipaddrGet (netif_ip (application s)))
      (serverPort (netCfgInfo (application s))) (macaddrGet (netif_hwaddr (application s))))]"
proof -
  have "\<not> plen b \<le> snd_buf (pcbs (tcp s) t)" using e(4) by simp
  then have "deal_loop t es 0 s = Some (Inr (0, s))" using e(1-3) by (subst deal_loop.simps) simp
  then have d: "tcp_server_deal env t es s = run_xvc env t 0 s" by (simp add: tcp_server_deal_def)
  have acc: "accepted (tcp_recvbuf s) 0" using old by (simp add: accepted_def mem_sum_def check_sum_def)
  show ?thesis unfolding d using run_xvc_para_get [OF acc old(2)] by blast
qed

lemma tcp_server_deal_replays_witness:
  "\<exists>s'. tcp_server_deal (\<lambda>_ _. 0) 10 8 ((busy 2 (Some (Memp 83)) (three 1 1 1))\<lparr>tcp_recvbuf := mem_of (client_frame ICD_CMD_PARA_GET [])\<rparr>) = Some (Inr s') \<and>
     length (sent (application s')) = 1"
proof -
  let ?m = "mem_of (client_frame ICD_CMD_PARA_GET [])"
  have "rd32 ?m 0 = TCPHEADFRAME" "rd32 ?m 4 = ICD_CMD_PARA_GET"
    using client_frame_accepted [of "[]" ICD_CMD_PARA_GET] by (simp_all add: accepted_def)
  moreover have "rd32 ?m (- 4) = 0" by (simp add: rd32_def mem_of_def word32_of_def)
  ultimately show ?thesis
    using tcp_server_deal_replays [of "(busy 2 (Some (Memp 83)) (three 1 1 1))\<lparr>tcp_recvbuf := ?m\<rparr>" 8
        "\<lparr>es_state = ES_RECEIVED, es_pcb = 10, es_p = Some (Memp 83)\<rparr>" "Memp 83" "buf 83 (Some (Memp 84)) 6 3 1" 10 "\<lambda>_ _. 0"]
    by (auto simp: three_def buf_def app_init_def)
qed

section \<open>From the wire to the answer\<close>

lemma recv_copy_rd32: "0 \<le> k \<Longrightarrow> k + 4 \<le> int (length bs) \<Longrightarrow> rd32 (recv_copy 0 bs m) k = rd32 (mem_of bs) k"
  by (simp add: rd32_def recv_copy_def mem_of_def)

lemma recv_copy_sum: "n \<le> int (length bs) \<Longrightarrow> mem_sum (recv_copy 0 bs m) n = mem_sum (mem_of bs) n"
  unfolding mem_sum_def by (intro arg_cong2 [of _ _ _ _ check_sum] map_cong) (auto simp: recv_copy_def mem_of_def)

lemma recv_copy_accepted:
  assumes "accepted (mem_of bs) n" "uint n = int (length bs)" "4 \<le> length bs"
  shows "accepted (recv_copy 0 bs m) n"
  using assms by (simp add: accepted_def recv_copy_rd32 recv_copy_sum)

text \<open>C3: a query from the wire is answered. When a connection that is accepted or has received data, and holds
  no packet, receives a packet that carries a parameter query of at most 2020 bytes, over however many buffers,
  each of which is referenced and fits the free send buffer, \<^verbatim>\<open>tcp_server_receive\<close> returns \<^verbatim>\<open>ERR_OK\<close>, one frame
  with the board's parameters has been sent on that connection, the buffers have been given back and the
  connection waits for more.\<close>

theorem tcp_server_answers:
  assumes e: "es_at s es = Some e" "es_p e = None" "es_state e = ES_ACCEPTED \<or> es_state e = ES_RECEIVED"
    and p: "linked (pbs (pm s)) (Some p) as None" "sendable (pm s) (snd_buf (pcbs (tcp s) t)) as"
    and frame: "contents (pm s) as = client_frame ICD_CMD_PARA_GET d" "length d \<le> 2000"
  shows "\<exists>s'. tcp_server_receive env es t (Some p) ERR_OK s = Some (Inr (ERR_OK, s')) \<and>
    sent (application s') = sent (application s) @ [(t, para_rsp (ipaddrGet (netif_ip (application s)))
      (serverPort (netCfgInfo (application s))) (macaddrGet (netif_hwaddr (application s))))] \<and>
    pm s' = freed as (pm s) \<and> map_option es_p (es_at s' es) = Some None \<and> map_option es_state (es_at s' es) = Some ES_RECEIVED"
proof -
  define e1 where "e1 = e\<lparr>es_state := ES_RECEIVED, es_p := Some p\<rparr>"
  define s1 where "s1 = s\<lparr>es_at := (es_at s)(es \<mapsto> e1)\<rparr>"
  have n: "lens (pbs (pm s)) as = 20 + length d" using frame(1) length_contents [of "pm s" as] by simp
  have same: "e1 = e\<lparr>es_p := Some p\<rparr>" if "es_state e \<noteq> ES_ACCEPTED" using that e(3) by (cases e) (simp add: e1_def)
  have go: "tcp_server_receive env es t (Some p) ERR_OK s = returning ERR_OK (tcp_server_deal env t es s1)"
  proof (cases "es_state e = ES_ACCEPTED")
    case True
    then show ?thesis using e by (simp add: tcp_server_receive_def set_es_def s1_def e1_def)
  next
    case False
    then show ?thesis using e same [OF False] by (simp add: tcp_server_receive_def set_es_def s1_def)
  qed
  have "es_at s1 es = Some e1" "linked (pbs (pm s1)) (es_p e1) as None" "sendable (pm s1) (snd_buf (pcbs (tcp s1) t)) as"
    using p by (simp_all add: s1_def e1_def)
  from deal_loop_chain [OF this, of 0] obtain s2 where
    a: "deal_loop t es 0 s1 = Some (Inr (of_nat (20 + length d), s2))" "collected es e1 0 as s1 s2"
    using n frame(2) by (auto simp: s1_def simp del: of_nat_add)
  have rb: "tcp_recvbuf s2 = recv_copy 0 (client_frame ICD_CMD_PARA_GET d) (tcp_recvbuf s)"
    and s2: "pm s2 = freed as (pm s)" "es_at s2 = (es_at s)(es \<mapsto> e1\<lparr>es_p := None\<rparr>)" "application s2 = application s"
    using a(2) frame(1) by (simp_all add: collected_def s1_def)
  have f: "accepted (mem_of (client_frame ICD_CMD_PARA_GET d)) (of_nat (20 + length d))"
    "rd32 (mem_of (client_frame ICD_CMD_PARA_GET d)) 4 = ICD_CMD_PARA_GET"
    using client_frame_accepted [of d ICD_CMD_PARA_GET] frame(2) by simp_all
  have u: "uint (of_nat (20 + length d) :: u16) = int (length (client_frame ICD_CMD_PARA_GET d))"
    using frame(2) by (simp add: unsigned_of_nat take_bit_nat_eq_self del: of_nat_add)
  have "accepted (tcp_recvbuf s2) (of_nat (20 + length d))" unfolding rb
    by (rule recv_copy_accepted [OF f(1) u]) simp
  moreover have "rd32 (tcp_recvbuf s2) 4 = ICD_CMD_PARA_GET" unfolding rb
    using recv_copy_rd32 [of 4 "client_frame ICD_CMD_PARA_GET d"] f(2) by simp
  ultimately obtain s3 where "run_xvc env t (of_nat (20 + length d)) s2 = Some (Inr s3)" "pm s3 = pm s2" "es_at s3 = es_at s2"
    "sent (application s3) = sent (application s) @ [(t, para_rsp (ipaddrGet (netif_ip (application s)))
      (serverPort (netCfgInfo (application s))) (macaddrGet (netif_hwaddr (application s))))]"
    using run_xvc_para_get [of s2 "of_nat (20 + length d)" env t] s2(3) by (auto simp del: of_nat_add)
  then show ?thesis using go a(1) s2 by (auto simp: tcp_server_deal_def returning_def e1_def)
qed

lemma tcp_server_answers_witness:
  "\<exists>s'. tcp_server_receive (\<lambda>_ _. 0) 8 10 (Some (Memp 83)) ERR_OK (busy 100 None \<lparr>pbs = [Memp 83 \<mapsto> buf 83 None 20 20 1],
       dat = (\<lambda>_. mem_of (client_frame ICD_CMD_PARA_GET [])), pools = memp_init, heap = mem_init undefined\<rparr>) =
     Some (Inr (ERR_OK, s')) \<and> length (sent (application s')) = 1"
proof -
  let ?m = "\<lparr>pbs = [Memp 83 \<mapsto> buf 83 None 20 20 1], dat = (\<lambda>_. mem_of (client_frame ICD_CMD_PARA_GET [])),
    pools = memp_init, heap = mem_init undefined\<rparr>"
  have "contents ?m [Memp 83] = client_frame ICD_CMD_PARA_GET []"
    by (rule nth_equalityI) (simp_all add: blen_def buf_def bytes_of_def read_at_def mem_of_def)
  then show ?thesis
    using tcp_server_answers [of "busy 100 None ?m" 8 "\<lparr>es_state = ES_RECEIVED, es_pcb = 10, es_p = None\<rparr>" "Memp 83" "[Memp 83]" 10 "[]" "\<lambda>_ _. 0"]
    by (auto simp: sendable_def placed_def buf_def app_init_def)
qed

section \<open>Accepting and closing\<close>

text \<open>No handler leaves a callback behind on a connection it closes.\<close>

lemma tcp_server_connection_close_clears:
  defines "b s t es \<equiv> pcbs (tcp (tcp_server_connection_close t es s)) t"
  shows "callback_arg (b s t es) = None \<and> cb_recv (b s t es) = None \<and> cb_sent (b s t es) = None \<and>
    cb_err (b s t es) = None \<and> cb_poll (b s t es) = None \<and>
    asked (tcp_server_connection_close t es s) = asked s @ [Close t]"
  by (cases es) (simp_all add: b_def tcp_server_connection_close_def tcp_arg_def tcp_sent_def tcp_recv_def tcp_err_def
      tcp_poll_def upd_pcb_def Let_def)

text \<open>An accepted connection has all its callbacks and a structure of its own; without memory it is closed.\<close>

lemma tcp_server_accept_ready:
  assumes "tcp_server_accept t s = Some (err, s')"
  shows "if err = ERR_OK
    then \<exists>e. es_at s' e = Some \<lparr>es_state = ES_ACCEPTED, es_pcb = t, es_p = None\<rparr> \<and> callback_arg (pcbs (tcp s') t) = Some e \<and>
      cb_recv (pcbs (tcp s') t) = Some TCP_SERVER_RECEIVE \<and> cb_sent (pcbs (tcp s') t) = Some TCP_SERVER_SENT \<and>
      cb_err (pcbs (tcp s') t) = Some TCP_SERVER_ERROR \<and> cb_poll (pcbs (tcp s') t) = Some TCP_SERVER_POLL
    else err = ERR_MEM \<and> callback_arg (pcbs (tcp s') t) = None \<and> es_at s' = es_at s \<and> asked s' = asked s @ [Close t]"
  using assms
  by (auto simp: tcp_server_accept_def tcp_server_connection_close_def tcp_setprio_def tcp_arg_def tcp_sent_def tcp_recv_def
      tcp_err_def tcp_poll_def upd_pcb_def Let_def split: option.splits bind_splits)

end
