(* ===== verification/Rcc.thy ===== *)
theory Rcc
  imports Gpio
begin

text \<open>
  Reset and clock control: \<^verbatim>\<open>stm32f10x_rcc.c\<close>, every function compiled for the connectivity line, and
  the start-up code \<^verbatim>\<open>SystemInit\<close> of \<^verbatim>\<open>system_stm32f10x.c\<close> with the 72 MHz configuration. A loop that
  polls a ready bit for ever is \<open>wait_until\<close>, whose value is None when the bit never comes; the
  bounded wait for the crystal is a terminating function of its counter.
\<close>

abbreviation (input) CR_HSEBYP_Reset :: u32 where "CR_HSEBYP_Reset \<equiv> 0xFFFBFFFF"
abbreviation (input) CR_HSEBYP_Set :: u32 where "CR_HSEBYP_Set \<equiv> 0x00040000"
abbreviation (input) CR_HSEON_Reset :: u32 where "CR_HSEON_Reset \<equiv> 0xFFFEFFFF"
abbreviation (input) CR_HSEON_Set :: u32 where "CR_HSEON_Set \<equiv> 0x00010000"
abbreviation (input) CR_HSITRIM_Mask :: u32 where "CR_HSITRIM_Mask \<equiv> 0xFFFFFF07"
abbreviation (input) CFGR_PLL_Mask :: u32 where "CFGR_PLL_Mask \<equiv> 0xFFC2FFFF"
abbreviation (input) CFGR_PLLMull_Mask :: u32 where "CFGR_PLLMull_Mask \<equiv> 0x003C0000"
abbreviation (input) CFGR_PLLSRC_Mask :: u32 where "CFGR_PLLSRC_Mask \<equiv> 0x00010000"
abbreviation (input) CFGR_SWS_Mask :: u32 where "CFGR_SWS_Mask \<equiv> 0x0000000C"
abbreviation (input) CFGR_SW_Mask :: u32 where "CFGR_SW_Mask \<equiv> 0xFFFFFFFC"
abbreviation (input) CFGR_HPRE_Reset_Mask :: u32 where "CFGR_HPRE_Reset_Mask \<equiv> 0xFFFFFF0F"
abbreviation (input) CFGR_HPRE_Set_Mask :: u32 where "CFGR_HPRE_Set_Mask \<equiv> 0x000000F0"
abbreviation (input) CFGR_PPRE1_Reset_Mask :: u32 where "CFGR_PPRE1_Reset_Mask \<equiv> 0xFFFFF8FF"
abbreviation (input) CFGR_PPRE1_Set_Mask :: u32 where "CFGR_PPRE1_Set_Mask \<equiv> 0x00000700"
abbreviation (input) CFGR_PPRE2_Reset_Mask :: u32 where "CFGR_PPRE2_Reset_Mask \<equiv> 0xFFFFC7FF"
abbreviation (input) CFGR_PPRE2_Set_Mask :: u32 where "CFGR_PPRE2_Set_Mask \<equiv> 0x00003800"
abbreviation (input) CFGR_ADCPRE_Reset_Mask :: u32 where "CFGR_ADCPRE_Reset_Mask \<equiv> 0xFFFF3FFF"
abbreviation (input) CFGR_ADCPRE_Set_Mask :: u32 where "CFGR_ADCPRE_Set_Mask \<equiv> 0x0000C000"
abbreviation (input) CSR_RMVF_Set :: u32 where "CSR_RMVF_Set \<equiv> 0x01000000"
abbreviation (input) CFGR2_PREDIV1SRC :: u32 where "CFGR2_PREDIV1SRC \<equiv> 0x00010000"
abbreviation (input) CFGR2_PREDIV1 :: u32 where "CFGR2_PREDIV1 \<equiv> 0x0000000F"
abbreviation (input) CFGR2_PREDIV2 :: u32 where "CFGR2_PREDIV2 \<equiv> 0x000000F0"
abbreviation (input) CFGR2_PLL2MUL :: u32 where "CFGR2_PLL2MUL \<equiv> 0x00000F00"
abbreviation (input) CFGR2_PLL3MUL :: u32 where "CFGR2_PLL3MUL \<equiv> 0x0000F000"
abbreviation (input) RCC_HSE_ON :: u32 where "RCC_HSE_ON \<equiv> 0x00010000"
abbreviation (input) RCC_HSE_Bypass :: u32 where "RCC_HSE_Bypass \<equiv> 0x00040000"
abbreviation (input) RCC_LSE_OFF :: u8 where "RCC_LSE_OFF \<equiv> 0x00"
abbreviation (input) RCC_LSE_ON :: u8 where "RCC_LSE_ON \<equiv> 0x01"
abbreviation (input) RCC_LSE_Bypass :: u8 where "RCC_LSE_Bypass \<equiv> 0x04"
abbreviation (input) RCC_FLAG_HSERDY :: u8 where "RCC_FLAG_HSERDY \<equiv> 0x31"
abbreviation (input) RCC_CR_HSEON :: u32 where "RCC_CR_HSEON \<equiv> 0x00010000"
abbreviation (input) RCC_CR_HSERDY :: u32 where "RCC_CR_HSERDY \<equiv> 0x00020000"
abbreviation (input) RCC_CR_PLLON :: u32 where "RCC_CR_PLLON \<equiv> 0x01000000"
abbreviation (input) RCC_CR_PLLRDY :: u32 where "RCC_CR_PLLRDY \<equiv> 0x02000000"
abbreviation (input) RCC_CR_PLL2ON :: u32 where "RCC_CR_PLL2ON \<equiv> 0x04000000"
abbreviation (input) RCC_CR_PLL2RDY :: u32 where "RCC_CR_PLL2RDY \<equiv> 0x08000000"
abbreviation (input) HSI_Value :: u32 where "HSI_Value \<equiv> 8000000"
abbreviation (input) HSE_Value :: u32 where "HSE_Value \<equiv> 25000000"
abbreviation (input) HSEStartUp_TimeOut :: u32 where "HSEStartUp_TimeOut \<equiv> 0x500"

datatype ErrorStatus = ERROR | SUCCESS

fun state_val :: "FunctionalState \<Rightarrow> u32" where
  "state_val DISABLE = 0"
| "state_val ENABLE = 1"

section \<open>Registers of the clock controller\<close>

text \<open>The pattern of most setters: read a register, mask a field out, put the new bits in, store.\<close>

definition set_field :: "env \<Rightarrow> rcc_reg \<Rightarrow> u32 \<Rightarrow> u32 \<Rightarrow> hist \<Rightarrow> hist" where
  "set_field env r keep bits h =
     (let (tmpreg, h) = rd env (RCC r) h;
          tmpreg = tmpreg AND keep;
          tmpreg = tmpreg OR bits
      in wr (RCC r) tmpreg h)"

definition switch_bits :: "env \<Rightarrow> rcc_reg \<Rightarrow> u32 \<Rightarrow> FunctionalState \<Rightarrow> hist \<Rightarrow> hist" where
  "switch_bits env r bits NewState h =
     (if NewState \<noteq> DISABLE then or_reg env (RCC r) bits h else and_reg env (RCC r) (NOT bits) h)"

definition RCC_DeInit :: "env \<Rightarrow> hist \<Rightarrow> hist" where
  "RCC_DeInit env h =
     (let h = or_reg env (RCC RCC_CR) 0x00000001 h;
          h = and_reg env (RCC RCC_CFGR) 0xF0FF0000 h;
          h = and_reg env (RCC RCC_CR) 0xFEF6FFFF h;
          h = and_reg env (RCC RCC_CR) 0xFFFBFFFF h;
          h = and_reg env (RCC RCC_CFGR) 0xFF80FFFF h;
          h = and_reg env (RCC RCC_CR) 0xEBFFFFFF h;
          h = wr (RCC RCC_CIR) 0x00FF0000 h
      in wr (RCC RCC_CFGR2) 0 h)"

definition RCC_HSEConfig :: "env \<Rightarrow> u32 \<Rightarrow> hist \<Rightarrow> hist" where
  "RCC_HSEConfig env RCC_HSE h =
     (let h = and_reg env (RCC RCC_CR) CR_HSEON_Reset h;
          h = and_reg env (RCC RCC_CR) CR_HSEBYP_Reset h
      in if RCC_HSE = RCC_HSE_ON then or_reg env (RCC RCC_CR) CR_HSEON_Set h
         else if RCC_HSE = RCC_HSE_Bypass then
           or_reg env (RCC RCC_CR) (CR_HSEBYP_Set OR CR_HSEON_Set) h
         else h)"

definition RCC_GetFlagStatus :: "env \<Rightarrow> u8 \<Rightarrow> hist \<Rightarrow> FlagStatus \<times> hist" where
  "RCC_GetFlagStatus env RCC_FLAG h =
     (let tmp = drop_bit 5 (ucast RCC_FLAG :: u32);
          (statusreg, h) =
            (if tmp = 1 then rd env (RCC RCC_CR) h
             else if tmp = 2 then rd env (RCC RCC_BDCR) h
             else rd env (RCC RCC_CSR) h);
          tmp = ucast (RCC_FLAG AND 0x1F) :: u32
      in (if statusreg AND push_bit (unat tmp) 1 \<noteq> 0 then SET else RESET, h))"

lemma counter_step:
  assumes "c + 1 \<noteq> (0x500 :: u32)"
  shows "unat (0x4FF - (c + 1)) < unat (0x4FF - c)"
proof -
  have "0x4FF - c \<noteq> 0" using assms by auto
  moreover have "0x4FF - (c + 1) = (0x4FF - c) - 1" by simp
  ultimately show ?thesis by (metis unat_gt_0 unat_minus_one diff_less zero_less_one)
qed

function hse_flag_wait :: "env \<Rightarrow> u32 \<Rightarrow> hist \<Rightarrow> hist" where
  "hse_flag_wait env StartUpCounter h =
     (let (HSEStatus, h) = RCC_GetFlagStatus env RCC_FLAG_HSERDY h;
          StartUpCounter = StartUpCounter + 1
      in if StartUpCounter \<noteq> HSEStartUp_TimeOut \<and> HSEStatus = RESET
         then hse_flag_wait env StartUpCounter h else h)"
  by pat_completeness auto
termination
  by (relation "measure (\<lambda>(_, c, _). unat (0x4FF - c))") (use counter_step in auto)


declare hse_flag_wait.simps [simp del]

definition RCC_WaitForHSEStartUp :: "env \<Rightarrow> hist \<Rightarrow> ErrorStatus \<times> hist" where
  "RCC_WaitForHSEStartUp env h =
     (let h = hse_flag_wait env 0 h;
          (st, h) = RCC_GetFlagStatus env RCC_FLAG_HSERDY h
      in (if st \<noteq> RESET then SUCCESS else ERROR, h))"

definition RCC_AdjustHSICalibrationValue :: "env \<Rightarrow> u8 \<Rightarrow> hist \<Rightarrow> hist" where
  "RCC_AdjustHSICalibrationValue env HSICalibrationValue =
     set_field env RCC_CR CR_HSITRIM_Mask (push_bit 3 (ucast HSICalibrationValue))"

definition RCC_HSICmd :: "FunctionalState \<Rightarrow> hist \<Rightarrow> hist" where
  "RCC_HSICmd NewState = wr (RCC CR_HSION_BB) (state_val NewState)"

definition RCC_PLLConfig :: "env \<Rightarrow> u32 \<Rightarrow> u32 \<Rightarrow> hist \<Rightarrow> hist" where
  "RCC_PLLConfig env RCC_PLLSource RCC_PLLMul =
     set_field env RCC_CFGR CFGR_PLL_Mask (RCC_PLLSource OR RCC_PLLMul)"

definition RCC_PLLCmd :: "FunctionalState \<Rightarrow> hist \<Rightarrow> hist" where
  "RCC_PLLCmd NewState = wr (RCC CR_PLLON_BB) (state_val NewState)"

definition RCC_PREDIV1Config :: "env \<Rightarrow> u32 \<Rightarrow> u32 \<Rightarrow> hist \<Rightarrow> hist" where
  "RCC_PREDIV1Config env RCC_PREDIV1_Source RCC_PREDIV1_Div =
     set_field env RCC_CFGR2 (NOT (CFGR2_PREDIV1 OR CFGR2_PREDIV1SRC)) (RCC_PREDIV1_Source OR RCC_PREDIV1_Div)"

definition RCC_PREDIV2Config :: "env \<Rightarrow> u32 \<Rightarrow> hist \<Rightarrow> hist" where
  "RCC_PREDIV2Config env RCC_PREDIV2_Div = set_field env RCC_CFGR2 (NOT CFGR2_PREDIV2) RCC_PREDIV2_Div"

definition RCC_PLL2Config :: "env \<Rightarrow> u32 \<Rightarrow> hist \<Rightarrow> hist" where
  "RCC_PLL2Config env RCC_PLL2Mul = set_field env RCC_CFGR2 (NOT CFGR2_PLL2MUL) RCC_PLL2Mul"

definition RCC_PLL2Cmd :: "FunctionalState \<Rightarrow> hist \<Rightarrow> hist" where
  "RCC_PLL2Cmd NewState = wr (RCC CR_PLL2ON_BB) (state_val NewState)"

definition RCC_PLL3Config :: "env \<Rightarrow> u32 \<Rightarrow> hist \<Rightarrow> hist" where
  "RCC_PLL3Config env RCC_PLL3Mul = set_field env RCC_CFGR2 (NOT CFGR2_PLL3MUL) RCC_PLL3Mul"

definition RCC_PLL3Cmd :: "FunctionalState \<Rightarrow> hist \<Rightarrow> hist" where
  "RCC_PLL3Cmd NewState = wr (RCC CR_PLL3ON_BB) (state_val NewState)"

definition RCC_SYSCLKConfig :: "env \<Rightarrow> u32 \<Rightarrow> hist \<Rightarrow> hist" where
  "RCC_SYSCLKConfig env RCC_SYSCLKSource = set_field env RCC_CFGR CFGR_SW_Mask RCC_SYSCLKSource"

definition RCC_GetSYSCLKSource :: "env \<Rightarrow> hist \<Rightarrow> u8 \<times> hist" where
  "RCC_GetSYSCLKSource env h = (let (v, h) = rd env (RCC RCC_CFGR) h in (ucast (v AND CFGR_SWS_Mask), h))"

definition RCC_HCLKConfig :: "env \<Rightarrow> u32 \<Rightarrow> hist \<Rightarrow> hist" where
  "RCC_HCLKConfig env RCC_SYSCLK = set_field env RCC_CFGR CFGR_HPRE_Reset_Mask RCC_SYSCLK"

definition RCC_PCLK1Config :: "env \<Rightarrow> u32 \<Rightarrow> hist \<Rightarrow> hist" where
  "RCC_PCLK1Config env RCC_HCLK = set_field env RCC_CFGR CFGR_PPRE1_Reset_Mask RCC_HCLK"

definition RCC_PCLK2Config :: "env \<Rightarrow> u32 \<Rightarrow> hist \<Rightarrow> hist" where
  "RCC_PCLK2Config env RCC_HCLK = set_field env RCC_CFGR CFGR_PPRE2_Reset_Mask (push_bit 3 RCC_HCLK)"

text \<open>Byte accesses: the value read or stored is a byte, held here in the low bits of a register value.\<close>

definition RCC_ITConfig :: "env \<Rightarrow> u8 \<Rightarrow> FunctionalState \<Rightarrow> hist \<Rightarrow> hist" where
  "RCC_ITConfig env RCC_IT NewState h =
     (let (v, h) = rd env (RCC CIR_BYTE2) h;
          b = ucast v :: u8
      in wr (RCC CIR_BYTE2) (ucast (if NewState \<noteq> DISABLE then b OR RCC_IT else b AND NOT RCC_IT)) h)"

definition RCC_OTGFSCLKConfig :: "u32 \<Rightarrow> hist \<Rightarrow> hist" where
  "RCC_OTGFSCLKConfig RCC_OTGFSCLKSource = wr (RCC CFGR_OTGFSPRE_BB) RCC_OTGFSCLKSource"

definition RCC_ADCCLKConfig :: "env \<Rightarrow> u32 \<Rightarrow> hist \<Rightarrow> hist" where
  "RCC_ADCCLKConfig env RCC_PCLK2 = set_field env RCC_CFGR CFGR_ADCPRE_Reset_Mask RCC_PCLK2"

definition RCC_I2S2CLKConfig :: "u32 \<Rightarrow> hist \<Rightarrow> hist" where
  "RCC_I2S2CLKConfig RCC_I2S2CLKSource = wr (RCC CFGR2_I2S2SRC_BB) RCC_I2S2CLKSource"

definition RCC_I2S3CLKConfig :: "u32 \<Rightarrow> hist \<Rightarrow> hist" where
  "RCC_I2S3CLKConfig RCC_I2S3CLKSource = wr (RCC CFGR2_I2S3SRC_BB) RCC_I2S3CLKSource"

definition RCC_LSEConfig :: "u8 \<Rightarrow> hist \<Rightarrow> hist" where
  "RCC_LSEConfig RCC_LSE h =
     (let h = wr (RCC BDCR_BYTE) (ucast RCC_LSE_OFF) h;
          h = wr (RCC BDCR_BYTE) (ucast RCC_LSE_OFF) h
      in if RCC_LSE = RCC_LSE_ON then wr (RCC BDCR_BYTE) (ucast RCC_LSE_ON) h
         else if RCC_LSE = RCC_LSE_Bypass then
           wr (RCC BDCR_BYTE) (ucast (RCC_LSE_Bypass OR RCC_LSE_ON)) h
         else h)"

definition RCC_LSICmd :: "FunctionalState \<Rightarrow> hist \<Rightarrow> hist" where
  "RCC_LSICmd NewState = wr (RCC CSR_LSION_BB) (state_val NewState)"

definition RCC_RTCCLKConfig :: "env \<Rightarrow> u32 \<Rightarrow> hist \<Rightarrow> hist" where
  "RCC_RTCCLKConfig env RCC_RTCCLKSource = or_reg env (RCC RCC_BDCR) RCC_RTCCLKSource"

definition RCC_RTCCLKCmd :: "FunctionalState \<Rightarrow> hist \<Rightarrow> hist" where
  "RCC_RTCCLKCmd NewState = wr (RCC BDCR_RTCEN_BB) (state_val NewState)"

definition RCC_AHBPeriphClockCmd :: "env \<Rightarrow> u32 \<Rightarrow> FunctionalState \<Rightarrow> hist \<Rightarrow> hist" where
  "RCC_AHBPeriphClockCmd env = switch_bits env AHBENR"

definition RCC_APB2PeriphClockCmd :: "env \<Rightarrow> u32 \<Rightarrow> FunctionalState \<Rightarrow> hist \<Rightarrow> hist" where
  "RCC_APB2PeriphClockCmd env = switch_bits env APB2ENR"

definition RCC_APB1PeriphClockCmd :: "env \<Rightarrow> u32 \<Rightarrow> FunctionalState \<Rightarrow> hist \<Rightarrow> hist" where
  "RCC_APB1PeriphClockCmd env = switch_bits env APB1ENR"

definition RCC_AHBPeriphResetCmd :: "env \<Rightarrow> u32 \<Rightarrow> FunctionalState \<Rightarrow> hist \<Rightarrow> hist" where
  "RCC_AHBPeriphResetCmd env = switch_bits env AHBRSTR"

definition RCC_APB1PeriphResetCmd :: "env \<Rightarrow> u32 \<Rightarrow> FunctionalState \<Rightarrow> hist \<Rightarrow> hist" where
  "RCC_APB1PeriphResetCmd env = switch_bits env APB1RSTR"

definition RCC_BackupResetCmd :: "FunctionalState \<Rightarrow> hist \<Rightarrow> hist" where
  "RCC_BackupResetCmd NewState = wr (RCC BDCR_BDRST_BB) (state_val NewState)"

definition RCC_ClockSecuritySystemCmd :: "FunctionalState \<Rightarrow> hist \<Rightarrow> hist" where
  "RCC_ClockSecuritySystemCmd NewState = wr (RCC CR_CSSON_BB) (state_val NewState)"

definition RCC_MCOConfig :: "u8 \<Rightarrow> hist \<Rightarrow> hist" where
  "RCC_MCOConfig RCC_MCO = wr (RCC CFGR_MCO_BYTE) (ucast RCC_MCO)"

definition RCC_ClearFlag :: "env \<Rightarrow> hist \<Rightarrow> hist" where
  "RCC_ClearFlag env = or_reg env (RCC RCC_CSR) CSR_RMVF_Set"

definition RCC_GetITStatus :: "env \<Rightarrow> u8 \<Rightarrow> hist \<Rightarrow> FlagStatus \<times> hist" where
  "RCC_GetITStatus env RCC_IT h =
     (let (v, h) = rd env (RCC RCC_CIR) h in (if v AND ucast RCC_IT \<noteq> 0 then SET else RESET, h))"

definition RCC_ClearITPendingBit :: "u8 \<Rightarrow> hist \<Rightarrow> hist" where
  "RCC_ClearITPendingBit RCC_IT = wr (RCC CIR_BYTE3) (ucast RCC_IT)"

section \<open>Clock frequencies\<close>

record RCC_ClocksTypeDef =
  SYSCLK_Frequency :: u32
  HCLK_Frequency :: u32
  PCLK1_Frequency :: u32
  PCLK2_Frequency :: u32
  ADCCLK_Frequency :: u32

definition APBAHBPrescTable :: "nat list" where
  "APBAHBPrescTable = [0, 0, 0, 0, 1, 2, 3, 4, 1, 2, 3, 4, 6, 7, 8, 9]"

definition ADCPrescTable :: "u32 list" where
  "ADCPrescTable = [2, 4, 6, 8]"

definition pll_frequency :: "env \<Rightarrow> hist \<Rightarrow> u32 \<times> hist" where
  "pll_frequency env h =
     (let (v, h) = rd env (RCC RCC_CFGR) h; pllmull = v AND CFGR_PLLMull_Mask;
          (v, h) = rd env (RCC RCC_CFGR) h; pllsource = v AND CFGR_PLLSRC_Mask;
          pllmull = drop_bit 18 pllmull;
          pllmull = (if pllmull \<noteq> 0x0D then pllmull + 2 else 13 div 2)
      in if pllsource = 0 then (drop_bit 1 HSI_Value * pllmull, h)
         else
           let (v, h) = rd env (RCC RCC_CFGR2) h; prediv1source = v AND CFGR2_PREDIV1SRC;
               (v, h) = rd env (RCC RCC_CFGR2) h; prediv1factor = (v AND CFGR2_PREDIV1) + 1
           in if prediv1source = 0 then ((HSE_Value div prediv1factor) * pllmull, h)
              else
                let (v, h) = rd env (RCC RCC_CFGR2) h; prediv2factor = drop_bit 4 (v AND CFGR2_PREDIV2) + 1;
                    (v, h) = rd env (RCC RCC_CFGR2) h; pll2mull = drop_bit 8 (v AND CFGR2_PLL2MUL) + 2
                in ((((HSE_Value div prediv2factor) * pll2mull) div prediv1factor) * pllmull, h))"

definition RCC_GetClocksFreq :: "env \<Rightarrow> hist \<Rightarrow> RCC_ClocksTypeDef \<times> hist" where
  "RCC_GetClocksFreq env h =
     (let (v, h) = rd env (RCC RCC_CFGR) h;
          tmp = v AND CFGR_SWS_Mask;
          (sysclk, h) =
            (if tmp = 0x00 then (HSI_Value, h)
             else if tmp = 0x04 then (HSE_Value, h)
             else if tmp = 0x08 then pll_frequency env h
             else (HSI_Value, h));
          (v, h) = rd env (RCC RCC_CFGR) h;
          presc = APBAHBPrescTable ! unat (drop_bit 4 (v AND CFGR_HPRE_Set_Mask));
          hclk = drop_bit presc sysclk;
          (v, h) = rd env (RCC RCC_CFGR) h;
          presc = APBAHBPrescTable ! unat (drop_bit 8 (v AND CFGR_PPRE1_Set_Mask));
          pclk1 = drop_bit presc hclk;
          (v, h) = rd env (RCC RCC_CFGR) h;
          presc = APBAHBPrescTable ! unat (drop_bit 11 (v AND CFGR_PPRE2_Set_Mask));
          pclk2 = drop_bit presc hclk;
          (v, h) = rd env (RCC RCC_CFGR) h;
          adcclk = pclk2 div (ADCPrescTable ! unat (drop_bit 14 (v AND CFGR_ADCPRE_Set_Mask)))
      in (\<lparr>SYSCLK_Frequency = sysclk, HCLK_Frequency = hclk, PCLK1_Frequency = pclk1,
           PCLK2_Frequency = pclk2, ADCCLK_Frequency = adcclk\<rparr>, h))"

section \<open>Start-up\<close>

partial_function (option) wait_until :: "env \<Rightarrow> reg \<Rightarrow> (u32 \<Rightarrow> bool) \<Rightarrow> hist \<Rightarrow> hist option" where
  "wait_until env r P h =
     (let (v, h) = rd env r h in if P v then Some h else wait_until env r P h)"

function hse_wait :: "env \<Rightarrow> u32 \<Rightarrow> hist \<Rightarrow> hist" where
  "hse_wait env StartUpCounter h =
     (let (v, h) = rd env (RCC RCC_CR) h;
          HSEStatus = v AND RCC_CR_HSERDY;
          StartUpCounter = StartUpCounter + 1
      in if HSEStatus = 0 \<and> StartUpCounter \<noteq> HSEStartUp_TimeOut
         then hse_wait env StartUpCounter h else h)"
  by pat_completeness auto
termination
  by (relation "measure (\<lambda>(_, c, _). unat (0x4FF - c))") (use counter_step in auto)

declare hse_wait.simps [simp del]

definition clock_tree_72 :: "env \<Rightarrow> hist \<Rightarrow> hist option" where
  "clock_tree_72 env h =
     (let h = or_reg env FLASH_ACR 0x10 h;
          h = and_reg env FLASH_ACR (NOT 0x03) h;
          h = or_reg env FLASH_ACR 0x02 h;
          h = or_reg env (RCC RCC_CFGR) 0x00000000 h;
          h = or_reg env (RCC RCC_CFGR) 0x00000000 h;
          h = or_reg env (RCC RCC_CFGR) 0x00000400 h;
          h = and_reg env (RCC RCC_CFGR2) (NOT (0x000000F0 OR 0x00000F00 OR 0x0000000F OR 0x00010000)) h;
          h = or_reg env (RCC RCC_CFGR2) (0x00000040 OR 0x00000600 OR 0x00010000 OR 0x00000004) h;
          h = or_reg env (RCC RCC_CR) RCC_CR_PLL2ON h
      in case wait_until env (RCC RCC_CR) (\<lambda>v. v AND RCC_CR_PLL2RDY \<noteq> 0) h of
           None \<Rightarrow> None
         | Some h \<Rightarrow>
             let h = and_reg env (RCC RCC_CFGR) (NOT (0x00020000 OR 0x00010000 OR 0x003C0000)) h;
                 h = or_reg env (RCC RCC_CFGR) (0x00000000 OR 0x00010000 OR 0x001C0000) h;
                 h = or_reg env (RCC RCC_CR) RCC_CR_PLLON h
             in case wait_until env (RCC RCC_CR) (\<lambda>v. v AND RCC_CR_PLLRDY \<noteq> 0) h of
                  None \<Rightarrow> None
                | Some h \<Rightarrow>
                    let h = and_reg env (RCC RCC_CFGR) (NOT 0x00000003) h;
                        h = or_reg env (RCC RCC_CFGR) 0x00000002 h
                    in wait_until env (RCC RCC_CFGR) (\<lambda>v. v AND CFGR_SWS_Mask = 0x08) h)"

definition SetSysClockTo72 :: "env \<Rightarrow> hist \<Rightarrow> hist option" where
  "SetSysClockTo72 env h =
     (let h = or_reg env (RCC RCC_CR) RCC_CR_HSEON h;
          h = hse_wait env 0 h;
          (v, h) = rd env (RCC RCC_CR) h;
          HSEStatus = (if v AND RCC_CR_HSERDY \<noteq> 0 then 1 else 0 :: u32)
      in if HSEStatus = 1 then clock_tree_72 env h else None)"

definition SystemInit :: "env \<Rightarrow> hist \<Rightarrow> hist option" where
  "SystemInit env h =
     (let h = or_reg env (RCC RCC_CR) 0x00000001 h;
          h = and_reg env (RCC RCC_CFGR) 0xF0FF0000 h;
          h = and_reg env (RCC RCC_CR) 0xFEF6FFFF h;
          h = and_reg env (RCC RCC_CR) 0xFFFBFFFF h;
          h = and_reg env (RCC RCC_CFGR) 0xFF80FFFF h;
          h = and_reg env (RCC RCC_CR) 0xEBFFFFFF h;
          h = wr (RCC RCC_CIR) 0x00FF0000 h;
          h = wr (RCC RCC_CFGR2) 0 h
      in SetSysClockTo72 env h)"

section \<open>Polling\<close>

text \<open>The history after \<open>n\<close> reads of a register.\<close>

primrec polls :: "env \<Rightarrow> reg \<Rightarrow> nat \<Rightarrow> hist \<Rightarrow> hist" where
  "polls env r 0 h = h"
| "polls env r (Suc n) h = polls env r n (snd (rd env r h))"

lemma last_write_polls [simp]: "last_write q (polls env r n h) = last_write q h"
  by (induction n arbitrary: h) auto

lemma polls_Suc: "polls env r (Suc n) h = snd (rd env r (polls env r n h))"
  by (induction n arbitrary: h) (simp, simp only: polls.simps)

lemma wait_until_returns:
  assumes "P (env (polls env r n h) r)"
  obtains m where "P (env (polls env r m h) r)" "wait_until env r P h = Some (polls env r (Suc m) h)"
  using assms
proof (induction n arbitrary: h thesis)
  case 0
  then show ?case by (simp add: 0(1) [of 0] wait_until.simps [of env r P h] rd_def)
next
  case (Suc n)
  show ?case
  proof (cases "P (env h r)")
    case True
    then show ?thesis by (intro Suc.prems(1) [of 0]) (simp_all add: wait_until.simps [of env r P h] rd_def)
  next
    case False
    obtain m where "P (env (polls env r m (snd (rd env r h))) r)"
        "wait_until env r P (snd (rd env r h)) = Some (polls env r (Suc m) (snd (rd env r h)))"
      using Suc.IH [of "snd (rd env r h)"] Suc.prems(2) by auto
    then show ?thesis using False
      by (intro Suc.prems(1) [of "Suc m"]) (simp_all add: wait_until.simps [of env r P h] rd_def)
  qed
qed

lemma wait_until_Some:
  assumes "wait_until env r P h = Some h'"
  shows "\<exists>n. P (env (polls env r n h) r) \<and> h' = polls env r (Suc n) h"
proof -
  let ?Q = "\<lambda>(((env, r), P), h) h'. \<exists>n. P (env (polls env r n h) r) \<and> h' = polls env r (Suc n) h"
  have "?Q (((env, r), P), h) h'"
  proof (rule wait_until.raw_induct [where Pa = ?Q, OF _ assms])
    fix w :: "env \<Rightarrow> reg \<Rightarrow> (u32 \<Rightarrow> bool) \<Rightarrow> hist \<Rightarrow> hist option" and e r P h y
    assume IH: "\<And>e r P h y. w e r P h = Some y \<Longrightarrow> ?Q (((e, r), P), h) y"
      and body: "(let (v, h) = rd e r h in if P v then Some h else w e r P h) = Some y"
    show "?Q (((e, r), P), h) y"
    proof (cases "P (e h r)")
      case True
      then show ?thesis using body by (auto simp: rd_def intro: exI [of _ 0])
    next
      case False
      then obtain n where "P (e (polls e r n (snd (rd e r h))) r)" "y = polls e r (Suc n) (snd (rd e r h))"
        using body IH [of e r P "snd (rd e r h)" y] by (auto simp: rd_def)
      then show ?thesis by (auto intro!: exI [of _ "Suc n"])
    qed
  qed
  then show ?thesis by simp
qed

lemma wait_until_None: "(\<And>n. \<not> P (env (polls env r n h) r)) \<Longrightarrow> wait_until env r P h = None"
  using wait_until_Some by (cases "wait_until env r P h") blast+

lemma last_write_hse_wait [simp]: "last_write q (hse_wait env c h) = last_write q h"
  by (induction env c h rule: hse_wait.induct) (subst hse_wait.simps, auto simp: rd_def Let_def)

section \<open>What the clock controller keeps\<close>

text \<open>The bits of a register that hold what software last stored there (the others report status).\<close>

fun kept_bits :: "rcc_reg \<Rightarrow> u32" where
  "kept_bits RCC_CR = 0x150D0001"
| "kept_bits RCC_CFGR = 0x007FFFF3"
| "kept_bits RCC_CFGR2 = 0x0007FFFF"
| "kept_bits _ = 0"

definition stored :: "rcc_reg \<Rightarrow> hist \<Rightarrow> u32 option" where
  "stored r h = map_option (\<lambda>v. v AND kept_bits r) (last_write (RCC r) h)"

definition rcc_keeps :: "env \<Rightarrow> bool" where
  "rcc_keeps env \<longleftrightarrow> (\<forall>r h x. stored r h = Some x \<longrightarrow> env h (RCC r) AND kept_bits r = x)"

lemma stored_simps [simp]:
  "stored r (wr (RCC q) v h) = (if q = r then Some (v AND kept_bits r) else stored r h)"
  "stored r (wr FLASH_ACR v h) = stored r h"
  "stored r (h @ [Rd g v]) = stored r h"
  "stored r (polls env g n h) = stored r h"
  "stored r (hse_wait env c h) = stored r h"
  by (simp_all add: stored_def wr_def)

lemma stored_Cons_Rd [simp]: "stored r (h @ Rd g v # es) = stored r (h @ es)"
  by (simp add: stored_def last_write_def)

lemma stored_other [simp]:
  "q \<noteq> r \<Longrightarrow> stored r (or_reg env (RCC q) m h) = stored r h"
  "q \<noteq> r \<Longrightarrow> stored r (and_reg env (RCC q) m h) = stored r h"
  "stored r (or_reg env FLASH_ACR m h) = stored r h"
  "stored r (and_reg env FLASH_ACR m h) = stored r h"
  by (simp_all add: or_reg_def and_reg_def rd_def)

lemma stored_first:
  "stored r (or_reg env (RCC r) m h) = Some ((env h (RCC r) OR m) AND kept_bits r)"
  "stored r (and_reg env (RCC r) m h) = Some (env h (RCC r) AND (m AND kept_bits r))"
  by (simp_all add: or_reg_def and_reg_def rd_def and.assoc)

lemma stored_update:
  assumes "rcc_keeps env" "stored r h = Some x"
  shows "stored r (or_reg env (RCC r) m h) = Some (x OR (m AND kept_bits r))"
    and "stored r (and_reg env (RCC r) m h) = Some (x AND m)"
proof -
  have "env h (RCC r) AND kept_bits r = x" using assms by (auto simp: rcc_keeps_def)
  then show "stored r (or_reg env (RCC r) m h) = Some (x OR (m AND kept_bits r))"
    and "stored r (and_reg env (RCC r) m h) = Some (x AND m)"
    by (auto simp: stored_first and.assoc and.commute and.left_commute bit.conj_disj_distrib2 bit.conj_disj_distrib)
qed


lemma kept_read: "rcc_keeps env \<Longrightarrow> stored r h = Some x \<Longrightarrow> env h (RCC r) AND kept_bits r = x"
  by (simp add: rcc_keeps_def)

lemma field_of_kept: "M AND m = m \<Longrightarrow> v AND M = x \<Longrightarrow> v AND m = x AND m" for v :: u32
  by (metis and.assoc)

text \<open>
  The clock controller by its data sheet: a bit that reports a running oscillator or PLL stays set
  until the control register is written; with the crystal on, it is ready within the start-up
  timeout and the two PLLs lock; the switch to a locked PLL is reported and stays.
\<close>

definition rcc_locks :: "env \<Rightarrow> bool" where
  "rcc_locks env \<longleftrightarrow>
     (\<forall>h e b. bit (env h (RCC RCC_CR)) b \<and> (\<forall>v. e \<noteq> Wr (RCC RCC_CR) v) \<longrightarrow> bit (env (h @ [e]) (RCC RCC_CR)) b) \<and>
     (\<forall>h x. stored RCC_CR h = Some x \<and> bit x 16 \<longrightarrow>
        (\<exists>n < 0x4FF. bit (env (polls env (RCC RCC_CR) n h) (RCC RCC_CR)) 17) \<and>
        (bit x 26 \<longrightarrow> (\<exists>n. bit (env (polls env (RCC RCC_CR) n h) (RCC RCC_CR)) 27)) \<and>
        (bit x 24 \<and> bit x 26 \<longrightarrow> (\<exists>n. bit (env (polls env (RCC RCC_CR) n h) (RCC RCC_CR)) 25))) \<and>
     (\<forall>h x. stored RCC_CFGR h = Some x \<and> x AND 3 = 2 \<and> bit (env h (RCC RCC_CR)) 25 \<longrightarrow>
        (\<exists>n. env (polls env (RCC RCC_CFGR) n h) (RCC RCC_CFGR) AND 0xC = 8)) \<and>
     (\<forall>h r v. env h (RCC RCC_CFGR) AND 0xC = 8 \<longrightarrow> env (h @ [Rd r v]) (RCC RCC_CFGR) AND 0xC = 8)"

lemma and_bit_mask: "v AND 0x00020000 \<noteq> 0 \<longleftrightarrow> bit v 17" "v AND 0x02000000 \<noteq> 0 \<longleftrightarrow> bit v 25"
    "v AND 0x08000000 \<noteq> 0 \<longleftrightarrow> bit v 27" for v :: u32
  using and_exp_eq_0_iff_not_bit [of v 17] and_exp_eq_0_iff_not_bit [of v 25]
    and_exp_eq_0_iff_not_bit [of v 27] by simp_all

lemma ready_stays:
  "rcc_locks env \<Longrightarrow> bit (env h (RCC RCC_CR)) b \<Longrightarrow> \<forall>v. e \<noteq> Wr (RCC RCC_CR) v \<Longrightarrow>
   bit (env (h @ [e]) (RCC RCC_CR)) b"
  by (simp add: rcc_locks_def)

lemma ready_stays_ops:
  assumes "rcc_locks env" "bit (env h (RCC RCC_CR)) b"
  shows "bit (env (h @ [Rd r x]) (RCC RCC_CR)) b"
    and "q \<noteq> RCC_CR \<Longrightarrow> bit (env (or_reg env (RCC q) m h) (RCC RCC_CR)) b"
    and "q \<noteq> RCC_CR \<Longrightarrow> bit (env (and_reg env (RCC q) m h) (RCC RCC_CR)) b"
proof -
  show 1: "bit (env (h @ [Rd r x]) (RCC RCC_CR)) b" for r x using ready_stays [OF assms] by simp
  show "q \<noteq> RCC_CR \<Longrightarrow> bit (env (or_reg env (RCC q) m h) (RCC RCC_CR)) b"
    and "q \<noteq> RCC_CR \<Longrightarrow> bit (env (and_reg env (RCC q) m h) (RCC RCC_CR)) b"
    using ready_stays [OF assms(1) 1] by (auto simp: or_reg_def and_reg_def rd_def wr_def)
qed

lemma hse_wait_ready:
  assumes locks: "rcc_locks env"
  shows "n < 0x4FF - unat c \<Longrightarrow> unat c < 0x4FF \<Longrightarrow> bit (env (polls env (RCC RCC_CR) n h) (RCC RCC_CR)) 17 \<Longrightarrow>
         bit (env (hse_wait env c h) (RCC RCC_CR)) 17"
proof (induction n arbitrary: c h)
  case 0
  then have up: "bit (env h (RCC RCC_CR)) 17" by simp
  then show ?case using ready_stays_ops(1) [OF locks up] and_bit_mask(1)
    by (subst hse_wait.simps) (auto simp: rd_def Let_def)
next
  case (Suc n)
  show ?case
  proof (cases "bit (env h (RCC RCC_CR)) 17")
    case True
    then show ?thesis using ready_stays_ops(1) [OF locks True] and_bit_mask(1)
      by (subst hse_wait.simps) (auto simp: rd_def Let_def)
  next
    case False
    have c: "unat (c + 1) = Suc (unat c)" using Suc.prems(2) by (simp add: unat_word_ariths)
    have "c + 1 \<noteq> 0x500" using c Suc.prems by auto
    then show ?thesis using False and_bit_mask(1) [of "env h (RCC RCC_CR)"] c Suc
      by (subst hse_wait.simps) (simp add: rd_def Let_def)
  qed
qed


lemma clock_tree_locks:
  assumes k: "rcc_keeps env" and l: "rcc_locks env"
    and h: "stored RCC_CFGR h = Some 0" "stored RCC_CFGR2 h = Some 0" "stored RCC_CR h = Some x" "bit x 16"
  obtains h' where "clock_tree_72 env h = Some h'" "stored RCC_CFGR h' = Some 0x1D0402"
    "stored RCC_CFGR2 h' = Some 0x10644" "env h' (RCC RCC_CFGR) AND 0xC = 8"
proof -
  note step = stored_update(1) [OF k] stored_update(2) [OF k]
  define h1 where "h1 = or_reg env FLASH_ACR 0x02 (and_reg env FLASH_ACR (NOT 0x03) (or_reg env FLASH_ACR 0x10 h))"
  define h2 where "h2 = or_reg env (RCC RCC_CFGR) 0x400 (or_reg env (RCC RCC_CFGR) 0 (or_reg env (RCC RCC_CFGR) 0 h1))"
  define h3 where "h3 = or_reg env (RCC RCC_CFGR2) (0x40 OR 0x600 OR 0x10000 OR 0x4)
    (and_reg env (RCC RCC_CFGR2) (NOT (0xF0 OR 0xF00 OR 0xF OR 0x10000)) h2)"
  define h4 where "h4 = or_reg env (RCC RCC_CR) RCC_CR_PLL2ON h3"
  have s2: "stored RCC_CFGR h2 = Some 0x400"
    unfolding h2_def h1_def using h(1) by (simp add: step)
  have s3: "stored RCC_CFGR2 h3 = Some 0x10644" "stored RCC_CFGR h3 = Some 0x400"
    unfolding h3_def using s2 h(2) by (simp_all add: step h2_def h1_def)
  have s4: "stored RCC_CR h4 = Some (x OR 0x04000000)" "stored RCC_CFGR2 h4 = Some 0x10644"
      "stored RCC_CFGR h4 = Some 0x400"
    unfolding h4_def using s3 h(3) by (simp_all add: step h3_def h2_def h1_def)
  have on: "bit (x OR 0x04000000) 16" "bit (x OR 0x04000000) 26" using h(4) by (simp_all add: bit_simps)
  obtain n where "bit (env (polls env (RCC RCC_CR) n h4) (RCC RCC_CR)) 27"
    using l s4(1) on unfolding rcc_locks_def by blast
  then obtain m where w5: "wait_until env (RCC RCC_CR) (\<lambda>v. v AND RCC_CR_PLL2RDY \<noteq> 0) h4 =
      Some (polls env (RCC RCC_CR) (Suc m) h4)"
    using wait_until_returns [of "\<lambda>v. v AND RCC_CR_PLL2RDY \<noteq> 0" env "RCC RCC_CR" n h4]
    unfolding and_bit_mask by blast
  define h5 where "h5 = polls env (RCC RCC_CR) (Suc m) h4"
  define h6 where "h6 = or_reg env (RCC RCC_CFGR) (0 OR 0x10000 OR 0x1C0000)
    (and_reg env (RCC RCC_CFGR) (NOT (0x20000 OR 0x10000 OR 0x3C0000)) h5)"
  define h7 where "h7 = or_reg env (RCC RCC_CR) RCC_CR_PLLON h6"
  have s5: "stored RCC_CR h5 = Some (x OR 0x04000000)" "stored RCC_CFGR2 h5 = Some 0x10644"
      "stored RCC_CFGR h5 = Some 0x400"
    unfolding h5_def using s4 by (simp_all only: stored_simps)
  have s7: "stored RCC_CFGR h7 = Some 0x1D0400" "stored RCC_CFGR2 h7 = Some 0x10644"
      "stored RCC_CR h7 = Some ((x OR 0x04000000) OR 0x01000000)"
    unfolding h7_def h6_def using s5 by (simp_all add: step)
  have on7: "bit ((x OR 0x04000000) OR 0x01000000) 16" "bit ((x OR 0x04000000) OR 0x01000000) 24"
      "bit ((x OR 0x04000000) OR 0x01000000) 26"
    using h(4) by (simp_all add: bit_simps)
  obtain n where "bit (env (polls env (RCC RCC_CR) n h7) (RCC RCC_CR)) 25"
    using l s7(3) on7 unfolding rcc_locks_def by blast
  then obtain j where w8: "bit (env (polls env (RCC RCC_CR) j h7) (RCC RCC_CR)) 25"
      "wait_until env (RCC RCC_CR) (\<lambda>v. v AND RCC_CR_PLLRDY \<noteq> 0) h7 = Some (polls env (RCC RCC_CR) (Suc j) h7)"
    using wait_until_returns [of "\<lambda>v. v AND RCC_CR_PLLRDY \<noteq> 0" env "RCC RCC_CR" n h7]
    unfolding and_bit_mask by blast
  define h8 where "h8 = polls env (RCC RCC_CR) (Suc j) h7"
  have "h8 = snd (rd env (RCC RCC_CR) (polls env (RCC RCC_CR) j h7))"
    unfolding h8_def by (rule polls_Suc)
  then have r8: "bit (env h8 (RCC RCC_CR)) 25" using ready_stays_ops(1) [OF l w8(1)] by simp
  define h9 where "h9 = or_reg env (RCC RCC_CFGR) 2 (and_reg env (RCC RCC_CFGR) (NOT 3) h8)"
  have s8: "stored RCC_CFGR h8 = Some 0x1D0400" "stored RCC_CFGR2 h8 = Some 0x10644"
    unfolding h8_def using s7 by (simp_all only: stored_simps)
  have s9: "stored RCC_CFGR h9 = Some 0x1D0402" "stored RCC_CFGR2 h9 = Some 0x10644"
    unfolding h9_def using s8 by (simp_all add: step)
  have r9: "bit (env h9 (RCC RCC_CR)) 25"
    unfolding h9_def using ready_stays_ops [OF l] r8 by simp
  obtain n where "env (polls env (RCC RCC_CFGR) n h9) (RCC RCC_CFGR) AND 0xC = 8"
    using l s9(1) r9 unfolding rcc_locks_def by force
  then obtain i where w10: "env (polls env (RCC RCC_CFGR) i h9) (RCC RCC_CFGR) AND 0xC = 8"
      "wait_until env (RCC RCC_CFGR) (\<lambda>v. v AND CFGR_SWS_Mask = 0x08) h9 = Some (polls env (RCC RCC_CFGR) (Suc i) h9)"
    using wait_until_returns [of "\<lambda>v. v AND CFGR_SWS_Mask = 0x08" env "RCC RCC_CFGR" n h9] by blast
  let ?h = "polls env (RCC RCC_CFGR) (Suc i) h9"
  have "?h = snd (rd env (RCC RCC_CFGR) (polls env (RCC RCC_CFGR) i h9))" by (rule polls_Suc)
  then have "env ?h (RCC RCC_CFGR) AND 0xC = 8" using l w10(1) by (simp add: rcc_locks_def)
  moreover have "stored RCC_CFGR ?h = Some 0x1D0402" "stored RCC_CFGR2 ?h = Some 0x10644"
    using s9 by (simp_all only: stored_simps)
  moreover have "clock_tree_72 env h = Some ?h"
    unfolding clock_tree_72_def Let_def h1_def [symmetric] h2_def [symmetric] h3_def [symmetric]
      h4_def [symmetric] w5 option.case h5_def [symmetric] h6_def [symmetric] h7_def [symmetric] w8(2)
      h8_def [symmetric] h9_def [symmetric] w10(2) ..
  ultimately show thesis using that by blast
qed


section \<open>The frequencies after start-up\<close>

lemma GetClocksFreq_72:
  assumes k: "rcc_keeps env" and l: "rcc_locks env"
    and h: "stored RCC_CFGR h = Some 0x1D0402" "stored RCC_CFGR2 h = Some 0x10644"
      "env h (RCC RCC_CFGR) AND 0xC = 8"
  shows "fst (RCC_GetClocksFreq env h) =
    \<lparr>SYSCLK_Frequency = 72000000, HCLK_Frequency = 72000000, PCLK1_Frequency = 36000000,
     PCLK2_Frequency = 72000000, ADCCLK_Frequency = 36000000\<rparr>"
proof -
  have cfgr: "env g (RCC RCC_CFGR) AND m = 0x1D0402 AND m"
    if "stored RCC_CFGR g = Some 0x1D0402" "0x007FFFF3 AND m = m" for g m
    by (rule field_of_kept [OF that(2)]) (use kept_read [OF k that(1)] in simp)
  have cfgr2: "env g (RCC RCC_CFGR2) AND m = 0x10644 AND m"
    if "stored RCC_CFGR2 g = Some 0x10644" "0x0007FFFF AND m = m" for g m
    by (rule field_of_kept [OF that(2)]) (use kept_read [OF k that(1)] in simp)
  show ?thesis
    using h by (simp add: RCC_GetClocksFreq_def pll_frequency_def rd_def Let_def cfgr cfgr2
        APBAHBPrescTable_def ADCPrescTable_def del: drop_bit_and)
qed

lemma SystemInit_clocks:
  assumes "rcc_keeps env" "rcc_locks env"
  shows "\<exists>h'. SystemInit env h = Some h' \<and>
    fst (RCC_GetClocksFreq env h') =
      \<lparr>SYSCLK_Frequency = 72000000, HCLK_Frequency = 72000000, PCLK1_Frequency = 36000000,
       PCLK2_Frequency = 72000000, ADCCLK_Frequency = 36000000\<rparr>"
proof -
  note k = assms(1) and l = assms(2)
  note step = stored_update(1) [OF k] stored_update(2) [OF k]
  define h1 where "h1 = and_reg env (RCC RCC_CFGR) 0xF0FF0000 (or_reg env (RCC RCC_CR) 1 h)"
  define h2 where "h2 = and_reg env (RCC RCC_CR) 0xFFFBFFFF (and_reg env (RCC RCC_CR) 0xFEF6FFFF h1)"
  define h3 where "h3 = and_reg env (RCC RCC_CR) 0xEBFFFFFF (and_reg env (RCC RCC_CFGR) 0xFF80FFFF h2)"
  define h4 where "h4 = wr (RCC RCC_CFGR2) 0 (wr (RCC RCC_CIR) 0x00FF0000 h3)"
  define h5 where "h5 = or_reg env (RCC RCC_CR) RCC_CR_HSEON h4"
  obtain c where "stored RCC_CFGR h1 = Some (c AND 0x00FF0000 AND 0x007FFFF3)"
    unfolding h1_def by (simp add: stored_first and.assoc)
  then have "stored RCC_CFGR h2 = Some (c AND 0x007F0000)" by (simp add: h2_def and.assoc)
  then have s3: "stored RCC_CFGR h3 = Some 0" by (simp add: h3_def step and.assoc)
  obtain x where s5: "stored RCC_CR h5 = Some x" "bit x 16"
    by (auto simp: h5_def stored_first bit_simps)
  have s5': "stored RCC_CFGR h5 = Some 0" "stored RCC_CFGR2 h5 = Some 0"
    using s3 by (simp_all add: h5_def h4_def)
  obtain n where "n < 0x4FF" "bit (env (polls env (RCC RCC_CR) n h5) (RCC RCC_CR)) 17"
    using l s5 unfolding rcc_locks_def by blast
  then have up: "bit (env (hse_wait env 0 h5) (RCC RCC_CR)) 17"
    using hse_wait_ready [OF l, of n 0] by simp
  define h6 where "h6 = snd (rd env (RCC RCC_CR) (hse_wait env 0 h5))"
  obtain h' where "clock_tree_72 env h6 = Some h'" "stored RCC_CFGR h' = Some 0x1D0402"
      "stored RCC_CFGR2 h' = Some 0x10644" "env h' (RCC RCC_CFGR) AND 0xC = 8"
    by (rule clock_tree_locks [OF k l, of h6 x]) (use s5 s5' in \<open>simp_all add: h6_def\<close>)
  moreover have "SystemInit env h = clock_tree_72 env h6"
    using up and_bit_mask(1) [of "env (hse_wait env 0 h5) (RCC RCC_CR)"]
    by (simp add: SystemInit_def SetSysClockTo72_def h6_def h5_def h4_def h3_def h2_def h1_def rd_def Let_def)
  ultimately show ?thesis using GetClocksFreq_72 [OF k l] by auto
qed

text \<open>
  Start-up clocks. On a controller that keeps what is stored in it and whose crystal and PLLs
  come up, \<^verbatim>\<open>SystemInit\<close> returns, and what \<^verbatim>\<open>RCC_GetClocksFreq\<close> then works out from the registers is a
  72 MHz core and bus clock and 36 MHz on the slow peripheral bus: the multipliers and dividers the
  start-up code stores (25 MHz / 5 * 8 / 5 * 9) are the ones the driver reads back.
\<close>

theorem SystemInit_72MHz:
  assumes "rcc_keeps env" "rcc_locks env"
  shows "\<exists>h'. SystemInit env h = Some h' \<and>
    fst (RCC_GetClocksFreq env h') =
      \<lparr>SYSCLK_Frequency = 72000000, HCLK_Frequency = 72000000, PCLK1_Frequency = 36000000,
       PCLK2_Frequency = 72000000, ADCCLK_Frequency = 36000000\<rparr>"
  by (rule SystemInit_clocks [OF assms])


text \<open>A clock controller that locks at once: the ready bits follow the enable bits, SWS follows SW.\<close>

definition rcc_env :: env where
  "rcc_env h r =
     (case last_write r h of
        None \<Rightarrow> 0
      | Some v \<Rightarrow>
          if r = RCC RCC_CR then v OR push_bit 1 (v AND 0x15010000)
          else if r = RCC RCC_CFGR then (v AND NOT 0xC) OR push_bit 2 (v AND 3)
          else v)"

lemma rcc_env_keeps: "rcc_keeps rcc_env"
proof -
  have cr: "(v OR push_bit 1 (v AND 0x15010000)) AND 0x150D0001 = v AND 0x150D0001" for v :: u32
    by (simp add: push_bit_and bit.conj_disj_distrib2 and.assoc)
  have cfgr: "((v AND NOT 0xC) OR push_bit 2 (v AND 3)) AND 0x007FFFF3 = v AND 0x007FFFF3" for v :: u32
    by (simp add: push_bit_and bit.conj_disj_distrib2 and.assoc)
  have "rcc_env h (RCC r) AND kept_bits r = x" if "stored r h = Some x" for r h x
    using that cr cfgr by (cases r) (auto simp: stored_def rcc_env_def)
  then show ?thesis by (simp add: rcc_keeps_def)
qed

lemma rcc_env_locks: "rcc_locks rcc_env"
proof -
  have keep: "rcc_env (h @ [e]) r = rcc_env h r" if "\<forall>v. e \<noteq> Wr r v" for h e r
    using that by (cases e) (auto simp: rcc_env_def)
  have dbl: "bit (z * 2) n \<longleftrightarrow> n \<noteq> 0 \<and> n < 32 \<and> bit z (n - 1)" for z :: u32 and n
    by (auto simp: mult.commute [of z 2] bit_double_iff)
  have on: "bit (rcc_env h (RCC RCC_CR)) (Suc b)" if "stored RCC_CR h = Some x" "bit x b" "b \<in> {16, 24, 26}" for h x b
    using that by (auto simp: stored_def rcc_env_def bit_simps dbl)
  have sws: "rcc_env h (RCC RCC_CFGR) AND 0xC = 8" if sw: "stored RCC_CFGR h = Some x" "x AND 3 = 2" for h x
  proof -
    obtain v where v: "last_write (RCC RCC_CFGR) h = Some v" "v AND 3 = 2"
      using sw by (auto simp: stored_def and.assoc)
    have "((v AND NOT 0xC) OR push_bit 2 (v AND 3)) AND 0xC = 8"
      by (simp add: v(2) bit.conj_disj_distrib2 and.assoc)
    then show ?thesis using v(1) by (simp add: rcc_env_def)
  qed
  have "\<exists>n<0x4FF. bit (rcc_env (polls rcc_env (RCC RCC_CR) n h) (RCC RCC_CR)) 17"
    if "stored RCC_CR h = Some x" "bit x 16" for h x
    using on [OF that] by (intro exI [of _ 0]) simp
  moreover have "\<exists>n. bit (rcc_env (polls rcc_env (RCC RCC_CR) n h) (RCC RCC_CR)) (Suc b)"
    if "stored RCC_CR h = Some x" "bit x b" "b \<in> {24, 26}" for h x b
    using on [OF that(1,2)] that(3) by (intro exI [of _ 0]) auto
  moreover have "\<exists>n. rcc_env (polls rcc_env (RCC RCC_CFGR) n h) (RCC RCC_CFGR) AND 0xC = 8"
    if "stored RCC_CFGR h = Some x" "x AND 3 = 2" for h x
    using sws [OF that] by (intro exI [of _ 0]) simp
  ultimately show ?thesis unfolding rcc_locks_def by (force simp: keep)
qed

lemma SystemInit_72MHz_witness:
  "\<exists>h'. SystemInit rcc_env [] = Some h' \<and>
    fst (RCC_GetClocksFreq rcc_env h') =
      \<lparr>SYSCLK_Frequency = 72000000, HCLK_Frequency = 72000000, PCLK1_Frequency = 36000000,
       PCLK2_Frequency = 72000000, ADCCLK_Frequency = 36000000\<rparr>"
  by (rule SystemInit_72MHz [OF rcc_env_keeps rcc_env_locks])

section \<open>Start-up failures and the limits of the frequency computation\<close>

lemma SystemInit_needs_crystal:
  "(\<And>g. \<not> bit (env g (RCC RCC_CR)) 17) \<Longrightarrow> SystemInit env h = None"
  using and_bit_mask(1) by (simp add: SystemInit_def SetSysClockTo72_def rd_def Let_def)

lemma clock_tree_needs_pll2:
  "(\<And>g. \<not> bit (env g (RCC RCC_CR)) 27) \<Longrightarrow> clock_tree_72 env h = None"
  using and_bit_mask(3)
  by (simp add: clock_tree_72_def Let_def wait_until_None)

text \<open>The multiplier 6.5 (code 13) is computed as 6, and a PLL2 multiplier of 20 (code 15) as 17.\<close>

lemma pll_six_and_a_half: "fst (pll_frequency (\<lambda>_ _. 0x00340000) h) = 4000000 * 6"
  by (simp add: pll_frequency_def rd_def)

lemma pll2_times_twenty:
  "fst (pll_frequency (\<lambda>_ r. if r = RCC RCC_CFGR then 0x00110000 else 0x00010F44) h) = (5000000 * 17) div 5 * 6"
  by (simp add: pll_frequency_def rd_def)

end
