(* ===== verification/Nvic.thy ===== *)
theory Nvic
  imports Mmio
begin

text \<open>
  The interrupt controller and the system timer: \<^verbatim>\<open>misc.c\<close> and the two functions of \<^verbatim>\<open>core_cm3.h\<close> the
  firmware calls. A channel's priority is the byte stored in its \<^verbatim>\<open>IP\<close> (or \<^verbatim>\<open>SHP\<close>) register; of its
  upper four bits, which the part implements, the priority grouping says how many choose who
  interrupts whom (\<open>preempt_level\<close>).
\<close>

abbreviation (input) NVIC_PriorityGroup_0 :: u32 where "NVIC_PriorityGroup_0 \<equiv> 0x700"
abbreviation (input) NVIC_PriorityGroup_1 :: u32 where "NVIC_PriorityGroup_1 \<equiv> 0x600"
abbreviation (input) NVIC_PriorityGroup_2 :: u32 where "NVIC_PriorityGroup_2 \<equiv> 0x500"
abbreviation (input) NVIC_PriorityGroup_3 :: u32 where "NVIC_PriorityGroup_3 \<equiv> 0x400"
abbreviation (input) NVIC_PriorityGroup_4 :: u32 where "NVIC_PriorityGroup_4 \<equiv> 0x300"
abbreviation (input) AIRCR_VECTKEY_MASK :: u32 where "AIRCR_VECTKEY_MASK \<equiv> 0x05FA0000"
abbreviation (input) NVIC_VectTab_FLASH :: u32 where "NVIC_VectTab_FLASH \<equiv> 0x08000000"
abbreviation (input) SysTick_CLKSource_HCLK_Div8 :: u32 where "SysTick_CLKSource_HCLK_Div8 \<equiv> 0xFFFFFFFB"
abbreviation (input) SysTick_CLKSource_HCLK :: u32 where "SysTick_CLKSource_HCLK \<equiv> 0x00000004"
abbreviation (input) NVIC_PRIO_BITS :: nat where "NVIC_PRIO_BITS \<equiv> 4"
abbreviation (input) SYSTICK_MAXCOUNT :: u32 where "SYSTICK_MAXCOUNT \<equiv> 0xFFFFFF"
abbreviation (input) SysTick_IRQn :: int where "SysTick_IRQn \<equiv> -1"
abbreviation (input) USART3_IRQn :: int where "USART3_IRQn \<equiv> 39"
abbreviation (input) ETH_IRQn :: int where "ETH_IRQn \<equiv> 61"

section \<open>The functions of misc.c\<close>

definition NVIC_PriorityGroupConfig :: "u32 \<Rightarrow> hist \<Rightarrow> hist" where
  "NVIC_PriorityGroupConfig NVIC_PriorityGroup =
     wr (CORE SCB_AIRCR) (AIRCR_VECTKEY_MASK OR NVIC_PriorityGroup)"

record NVIC_InitTypeDef =
  NVIC_IRQChannel :: u8
  NVIC_IRQChannelPreemptionPriority :: u8
  NVIC_IRQChannelSubPriority :: u8
  NVIC_IRQChannelCmd :: FunctionalState

definition NVIC_Init :: "env \<Rightarrow> NVIC_InitTypeDef \<Rightarrow> hist \<Rightarrow> hist" where
  "NVIC_Init env ini h =
     (let ch = unat (NVIC_IRQChannel ini);
          enable_bit = push_bit (unat (NVIC_IRQChannel ini AND 0x1F)) 1
      in if NVIC_IRQChannelCmd ini \<noteq> DISABLE then
           let (aircr, h) = rd env (CORE SCB_AIRCR) h;
               tmppriority = drop_bit 8 (0x700 - (aircr AND 0x700));
               tmppre = 0x4 - tmppriority;
               tmpsub = drop_bit (unat tmppriority) (0x0F :: u32);
               tmppriority = push_bit (unat tmppre) (ucast (NVIC_IRQChannelPreemptionPriority ini));
               tmppriority = tmppriority OR (ucast (NVIC_IRQChannelSubPriority ini) AND tmpsub);
               tmppriority = push_bit 4 tmppriority;
               h = wr (CORE (NVIC_IP ch)) (ucast (ucast tmppriority :: u8)) h
           in wr (CORE (NVIC_ISER (ch div 32))) enable_bit h
         else wr (CORE (NVIC_ICER (ch div 32))) enable_bit h)"

definition NVIC_SetVectorTable :: "u32 \<Rightarrow> u32 \<Rightarrow> hist \<Rightarrow> hist" where
  "NVIC_SetVectorTable NVIC_VectTab Offset =
     wr (CORE SCB_VTOR) (NVIC_VectTab OR (Offset AND 0x1FFFFF80))"

definition NVIC_SystemLPConfig :: "env \<Rightarrow> u8 \<Rightarrow> FunctionalState \<Rightarrow> hist \<Rightarrow> hist" where
  "NVIC_SystemLPConfig env LowPowerMode NewState h =
     (if NewState \<noteq> DISABLE then or_reg env (CORE SCB_SCR) (ucast LowPowerMode) h
      else and_reg env (CORE SCB_SCR) (NOT (ucast LowPowerMode)) h)"

definition SysTick_CLKSourceConfig :: "env \<Rightarrow> u32 \<Rightarrow> hist \<Rightarrow> hist" where
  "SysTick_CLKSourceConfig env SysTick_CLKSource h =
     (if SysTick_CLKSource = SysTick_CLKSource_HCLK
      then or_reg env (CORE SysTick_CTRL) SysTick_CLKSource_HCLK h
      else and_reg env (CORE SysTick_CTRL) SysTick_CLKSource_HCLK_Div8 h)"

section \<open>The functions of core_cm3.h\<close>

text \<open>An interrupt number below 0 is a processor exception; its priority byte is in \<^verbatim>\<open>SHP\<close>.\<close>

definition NVIC_SetPriority :: "int \<Rightarrow> u32 \<Rightarrow> hist \<Rightarrow> hist" where
  "NVIC_SetPriority IRQn priority =
     (let b = push_bit (8 - NVIC_PRIO_BITS) priority AND 0xFF in
      if IRQn < 0 then wr (CORE (SCB_SHP (unat ((word_of_int IRQn :: u32) AND 0xF) - 4))) b
      else wr (CORE (NVIC_IP (nat IRQn))) b)"

definition SysTick_Config :: "u32 \<Rightarrow> hist \<Rightarrow> u32 \<times> hist" where
  "SysTick_Config ticks h =
     (if ticks > SYSTICK_MAXCOUNT then (1, h)
      else let h = wr (CORE SysTick_LOAD) ((ticks AND SYSTICK_MAXCOUNT) - 1) h;
               h = NVIC_SetPriority SysTick_IRQn (push_bit NVIC_PRIO_BITS 1 - 1) h;
               h = wr (CORE SysTick_VAL) 0 h;
               h = wr (CORE SysTick_CTRL) (push_bit 2 1 OR push_bit 0 1 OR push_bit 1 1) h
           in (0, h))"

section \<open>Who interrupts whom\<close>

text \<open>
  The priority byte of an interrupt after a history (0 after reset), and the part of it that
  decides preemption: with \<open>PRIGROUP\<close> equal to \<open>g\<close> the low \<open>g + 1\<close> bits of the byte are the
  sub-priority (Cortex-M3 technical reference manual). A smaller level interrupts a larger one.
\<close>

definition prio_reg :: "int \<Rightarrow> reg" where
  "prio_reg IRQn = (if IRQn < 0 then CORE (SCB_SHP (nat (IRQn + 12))) else CORE (NVIC_IP (nat IRQn)))"

definition prio_byte :: "int \<Rightarrow> hist \<Rightarrow> u32" where
  "prio_byte IRQn h = (case last_write (prio_reg IRQn) h of None \<Rightarrow> 0 | Some v \<Rightarrow> v)"

definition prigroup :: "hist \<Rightarrow> nat" where
  "prigroup h = (case last_write (CORE SCB_AIRCR) h of None \<Rightarrow> 0 | Some v \<Rightarrow> unat (drop_bit 8 v AND 7))"

definition preempt_level :: "int \<Rightarrow> hist \<Rightarrow> nat" where
  "preempt_level IRQn h = unat (drop_bit (prigroup h + 1) (prio_byte IRQn h))"

definition irq_enabled :: "nat \<Rightarrow> hist \<Rightarrow> bool" where
  "irq_enabled n h = fold (\<lambda>e b. case e of
       Wr (CORE (NVIC_ISER k)) v \<Rightarrow> (if k = n div 32 \<and> bit v (n mod 32) then True else b)
     | Wr (CORE (NVIC_ICER k)) v \<Rightarrow> (if k = n div 32 \<and> bit v (n mod 32) then False else b)
     | _ \<Rightarrow> b) h False"

text \<open>The grouping register reads back the group that was stored.\<close>

definition keeps_group :: "env \<Rightarrow> bool" where
  "keeps_group env \<longleftrightarrow>
     (\<forall>h v. last_write (CORE SCB_AIRCR) h = Some v \<longrightarrow> env h (CORE SCB_AIRCR) AND 0x700 = v AND 0x700)"

lemma prio_reg_simps [simp]:
  "prio_reg SysTick_IRQn = CORE (SCB_SHP 11)"
  "n \<ge> 0 \<Longrightarrow> prio_reg n = CORE (NVIC_IP (nat n))"
  by (simp_all add: prio_reg_def)

lemma SetPriority_SysTick [hist_simps]:
  "NVIC_SetPriority SysTick_IRQn p h = h @ [Wr (CORE (SCB_SHP 11)) (push_bit 4 p AND 0xFF)]"
  by (simp add: NVIC_SetPriority_def wr_def)

lemma SysTick_Config_hist:
  "ticks \<le> SYSTICK_MAXCOUNT \<Longrightarrow>
   SysTick_Config ticks h =
     (0, h @ [Wr (CORE SysTick_LOAD) ((ticks AND SYSTICK_MAXCOUNT) - 1), Wr (CORE (SCB_SHP 11)) 0xF0,
              Wr (CORE SysTick_VAL) 0, Wr (CORE SysTick_CTRL) 7])"
  by (simp add: SysTick_Config_def SetPriority_SysTick wr_def not_less)

text \<open>With two bits of each kind, the byte is the preemption priority, then the sub-priority.\<close>

lemma NVIC_Init_group2:
  assumes "keeps_group env" "last_write (CORE SCB_AIRCR) h = Some 0x05FA0500"
    and "NVIC_IRQChannelCmd ini = ENABLE"
  shows "NVIC_Init env ini h =
    h @ [Rd (CORE SCB_AIRCR) (env h (CORE SCB_AIRCR)),
         Wr (CORE (NVIC_IP (unat (NVIC_IRQChannel ini))))
           (ucast (ucast (push_bit 4 (push_bit 2 (ucast (NVIC_IRQChannelPreemptionPriority ini)) OR
             (ucast (NVIC_IRQChannelSubPriority ini) AND 3) :: u32)) :: u8)),
         Wr (CORE (NVIC_ISER (unat (NVIC_IRQChannel ini) div 32)))
           (push_bit (unat (NVIC_IRQChannel ini AND 0x1F)) 1)]"
proof -
  have "env h (CORE SCB_AIRCR) AND 0x700 = 0x500" using assms(1,2) by (simp add: keeps_group_def)
  then show ?thesis using assms(3) by (simp add: NVIC_Init_def rd_def wr_def Let_def)
qed

end
