(* ===== verification/Usart.thy ===== *)
theory Usart
  imports Rcc
begin

text \<open>
  The serial port driver \<^verbatim>\<open>stm32f10x_usart.c\<close>, every function of the file. The registers are half-words:
  a read takes the low 16 bits, a store puts 16 bits; only \<^verbatim>\<open>USART_ITConfig\<close> goes through a word
  pointer. The lemmas are about the baud rate divider and about what the setters leave alone.
\<close>

abbreviation (input) CR1_UE_Set :: u16 where "CR1_UE_Set \<equiv> 0x2000"
abbreviation (input) CR1_UE_Reset :: u16 where "CR1_UE_Reset \<equiv> 0xDFFF"
abbreviation (input) CR1_WAKE_Mask :: u16 where "CR1_WAKE_Mask \<equiv> 0xF7FF"
abbreviation (input) CR1_RWU_Set :: u16 where "CR1_RWU_Set \<equiv> 0x0002"
abbreviation (input) CR1_RWU_Reset :: u16 where "CR1_RWU_Reset \<equiv> 0xFFFD"
abbreviation (input) CR1_SBK_Set :: u16 where "CR1_SBK_Set \<equiv> 0x0001"
abbreviation (input) CR1_CLEAR_Mask :: u32 where "CR1_CLEAR_Mask \<equiv> 0xE9F3"
abbreviation (input) CR2_Address_Mask :: u16 where "CR2_Address_Mask \<equiv> 0xFFF0"
abbreviation (input) CR2_LINEN_Set :: u16 where "CR2_LINEN_Set \<equiv> 0x4000"
abbreviation (input) CR2_LINEN_Reset :: u16 where "CR2_LINEN_Reset \<equiv> 0xBFFF"
abbreviation (input) CR2_LBDL_Mask :: u16 where "CR2_LBDL_Mask \<equiv> 0xFFDF"
abbreviation (input) CR2_STOP_CLEAR_Mask :: u32 where "CR2_STOP_CLEAR_Mask \<equiv> 0xCFFF"
abbreviation (input) CR2_CLOCK_CLEAR_Mask :: u32 where "CR2_CLOCK_CLEAR_Mask \<equiv> 0xF0FF"
abbreviation (input) CR3_SCEN_Set :: u16 where "CR3_SCEN_Set \<equiv> 0x0020"
abbreviation (input) CR3_SCEN_Reset :: u16 where "CR3_SCEN_Reset \<equiv> 0xFFDF"
abbreviation (input) CR3_NACK_Set :: u16 where "CR3_NACK_Set \<equiv> 0x0010"
abbreviation (input) CR3_NACK_Reset :: u16 where "CR3_NACK_Reset \<equiv> 0xFFEF"
abbreviation (input) CR3_HDSEL_Set :: u16 where "CR3_HDSEL_Set \<equiv> 0x0008"
abbreviation (input) CR3_HDSEL_Reset :: u16 where "CR3_HDSEL_Reset \<equiv> 0xFFF7"
abbreviation (input) CR3_IRLP_Mask :: u16 where "CR3_IRLP_Mask \<equiv> 0xFFFB"
abbreviation (input) CR3_CLEAR_Mask :: u32 where "CR3_CLEAR_Mask \<equiv> 0xFCFF"
abbreviation (input) CR3_IREN_Set :: u16 where "CR3_IREN_Set \<equiv> 0x0002"
abbreviation (input) CR3_IREN_Reset :: u16 where "CR3_IREN_Reset \<equiv> 0xFFFD"
abbreviation (input) GTPR_LSB_Mask :: u16 where "GTPR_LSB_Mask \<equiv> 0x00FF"
abbreviation (input) GTPR_MSB_Mask :: u16 where "GTPR_MSB_Mask \<equiv> 0xFF00"
abbreviation (input) IT_Mask :: u16 where "IT_Mask \<equiv> 0x001F"
abbreviation (input) USART_WordLength_8b :: u16 where "USART_WordLength_8b \<equiv> 0x0000"
abbreviation (input) USART_StopBits_1 :: u16 where "USART_StopBits_1 \<equiv> 0x0000"
abbreviation (input) USART_Parity_No :: u16 where "USART_Parity_No \<equiv> 0x0000"
abbreviation (input) USART_Mode_Rx :: u16 where "USART_Mode_Rx \<equiv> 0x0004"
abbreviation (input) USART_Mode_Tx :: u16 where "USART_Mode_Tx \<equiv> 0x0008"
abbreviation (input) USART_HardwareFlowControl_None :: u16 where "USART_HardwareFlowControl_None \<equiv> 0x0000"
abbreviation (input) USART_IT_RXNE :: u16 where "USART_IT_RXNE \<equiv> 0x0525"
abbreviation (input) USART_FLAG_TXE :: u16 where "USART_FLAG_TXE \<equiv> 0x0080"
abbreviation (input) USART_FLAG_TC :: u16 where "USART_FLAG_TC \<equiv> 0x0040"

section \<open>Half-word accesses\<close>

definition rdh :: "env \<Rightarrow> reg \<Rightarrow> hist \<Rightarrow> u16 \<times> hist" where
  "rdh env r h = (let (v, h) = rd env r h in (ucast v, h))"

definition wrh :: "reg \<Rightarrow> u16 \<Rightarrow> hist \<Rightarrow> hist" where
  "wrh r v = wr r (ucast v)"

definition or_half :: "env \<Rightarrow> reg \<Rightarrow> u16 \<Rightarrow> hist \<Rightarrow> hist" where
  "or_half env r m h = (let (v, h) = rdh env r h in wrh r (v OR m) h)"

definition and_half :: "env \<Rightarrow> reg \<Rightarrow> u16 \<Rightarrow> hist \<Rightarrow> hist" where
  "and_half env r m h = (let (v, h) = rdh env r h in wrh r (v AND m) h)"

section \<open>Set-up\<close>

definition USART_DeInit :: "env \<Rightarrow> usart \<Rightarrow> hist \<Rightarrow> hist" where
  "USART_DeInit env USARTx h =
     (case USARTx of
        USART1 \<Rightarrow> RCC_APB2PeriphResetCmd env 0x00004000 DISABLE (RCC_APB2PeriphResetCmd env 0x00004000 ENABLE h)
      | USART2 \<Rightarrow> RCC_APB1PeriphResetCmd env 0x00020000 DISABLE (RCC_APB1PeriphResetCmd env 0x00020000 ENABLE h)
      | USART3 \<Rightarrow> RCC_APB1PeriphResetCmd env 0x00040000 DISABLE (RCC_APB1PeriphResetCmd env 0x00040000 ENABLE h)
      | UART4 \<Rightarrow> RCC_APB1PeriphResetCmd env 0x00080000 DISABLE (RCC_APB1PeriphResetCmd env 0x00080000 ENABLE h)
      | UART5 \<Rightarrow> RCC_APB1PeriphResetCmd env 0x00100000 DISABLE (RCC_APB1PeriphResetCmd env 0x00100000 ENABLE h))"

record USART_InitTypeDef =
  USART_BaudRate :: u32
  USART_WordLength :: u16
  USART_StopBits :: u16
  USART_Parity :: u16
  USART_Mode :: u16
  USART_HardwareFlowControl :: u16

definition brr_value :: "u32 \<Rightarrow> u32 \<Rightarrow> u16" where
  "brr_value apbclock BaudRate =
     (let integerdivider = (0x19 * apbclock) div (0x04 * BaudRate);
          tmpreg = push_bit 4 (integerdivider div 0x64);
          fractionaldivider = integerdivider - 0x64 * drop_bit 4 tmpreg;
          tmpreg = tmpreg OR (((fractionaldivider * 0x10 + 0x32) div 0x64) AND 0x0F)
      in ucast tmpreg)"

definition USART_Init :: "env \<Rightarrow> usart \<Rightarrow> USART_InitTypeDef \<Rightarrow> hist \<Rightarrow> hist" where
  "USART_Init env USARTx ini h =
     (let (v, h) = rdh env (USART USARTx USART_CR2) h;
          tmpreg = (ucast v AND CR2_STOP_CLEAR_Mask) OR ucast (USART_StopBits ini);
          h = wrh (USART USARTx USART_CR2) (ucast tmpreg) h;
          (v, h) = rdh env (USART USARTx USART_CR1) h;
          tmpreg = (ucast v AND CR1_CLEAR_Mask) OR
            (ucast (USART_WordLength ini) OR ucast (USART_Parity ini) OR ucast (USART_Mode ini));
          h = wrh (USART USARTx USART_CR1) (ucast tmpreg) h;
          (v, h) = rdh env (USART USARTx USART_CR3) h;
          tmpreg = (ucast v AND CR3_CLEAR_Mask) OR ucast (USART_HardwareFlowControl ini);
          h = wrh (USART USARTx USART_CR3) (ucast tmpreg) h;
          (clocks, h) = RCC_GetClocksFreq env h;
          apbclock = (if USARTx = USART1 then PCLK2_Frequency clocks else PCLK1_Frequency clocks)
      in wrh (USART USARTx USART_BRR) (brr_value apbclock (USART_BaudRate ini)) h)"

definition USART_StructInit :: USART_InitTypeDef where
  "USART_StructInit =
     \<lparr>USART_BaudRate = 115200, USART_WordLength = USART_WordLength_8b, USART_StopBits = USART_StopBits_1,
      USART_Parity = USART_Parity_No, USART_Mode = USART_Mode_Rx OR USART_Mode_Tx,
      USART_HardwareFlowControl = USART_HardwareFlowControl_None\<rparr>"

record USART_ClockInitTypeDef =
  USART_Clock :: u16
  USART_CPOL :: u16
  USART_CPHA :: u16
  USART_LastBit :: u16

definition USART_ClockInit :: "env \<Rightarrow> usart \<Rightarrow> USART_ClockInitTypeDef \<Rightarrow> hist \<Rightarrow> hist" where
  "USART_ClockInit env USARTx ini h =
     (let (v, h) = rdh env (USART USARTx USART_CR2) h;
          tmpreg = (ucast v AND CR2_CLOCK_CLEAR_Mask) OR
            (ucast (USART_Clock ini) OR ucast (USART_CPOL ini) OR ucast (USART_CPHA ini) OR ucast (USART_LastBit ini))
      in wrh (USART USARTx USART_CR2) (ucast tmpreg) h)"

definition USART_ClockStructInit :: USART_ClockInitTypeDef where
  "USART_ClockStructInit = \<lparr>USART_Clock = 0, USART_CPOL = 0, USART_CPHA = 0, USART_LastBit = 0\<rparr>"

definition USART_Cmd :: "env \<Rightarrow> usart \<Rightarrow> FunctionalState \<Rightarrow> hist \<Rightarrow> hist" where
  "USART_Cmd env USARTx NewState =
     (if NewState \<noteq> DISABLE then or_half env (USART USARTx USART_CR1) CR1_UE_Set
      else and_half env (USART USARTx USART_CR1) CR1_UE_Reset)"

definition USART_ITConfig :: "env \<Rightarrow> usart \<Rightarrow> u16 \<Rightarrow> FunctionalState \<Rightarrow> hist \<Rightarrow> hist" where
  "USART_ITConfig env USARTx USART_IT NewState =
     (let usartreg = drop_bit 5 (ucast (ucast USART_IT :: u8) :: u32);
          itpos = USART_IT AND IT_Mask;
          itmask = push_bit (unat itpos) 1 :: u32;
          r = (if usartreg = 1 then USART_CR1 else if usartreg = 2 then USART_CR2 else USART_CR3)
      in if NewState \<noteq> DISABLE then or_reg env (USART USARTx r) itmask
         else and_reg env (USART USARTx r) (NOT itmask))"

definition USART_DMACmd :: "env \<Rightarrow> usart \<Rightarrow> u16 \<Rightarrow> FunctionalState \<Rightarrow> hist \<Rightarrow> hist" where
  "USART_DMACmd env USARTx USART_DMAReq NewState =
     (if NewState \<noteq> DISABLE then or_half env (USART USARTx USART_CR3) USART_DMAReq
      else and_half env (USART USARTx USART_CR3) (NOT USART_DMAReq))"

definition USART_SetAddress :: "env \<Rightarrow> usart \<Rightarrow> u8 \<Rightarrow> hist \<Rightarrow> hist" where
  "USART_SetAddress env USARTx USART_Address h =
     or_half env (USART USARTx USART_CR2) (ucast USART_Address)
       (and_half env (USART USARTx USART_CR2) CR2_Address_Mask h)"

definition USART_WakeUpConfig :: "env \<Rightarrow> usart \<Rightarrow> u16 \<Rightarrow> hist \<Rightarrow> hist" where
  "USART_WakeUpConfig env USARTx USART_WakeUp h =
     or_half env (USART USARTx USART_CR1) USART_WakeUp (and_half env (USART USARTx USART_CR1) CR1_WAKE_Mask h)"

definition USART_ReceiverWakeUpCmd :: "env \<Rightarrow> usart \<Rightarrow> FunctionalState \<Rightarrow> hist \<Rightarrow> hist" where
  "USART_ReceiverWakeUpCmd env USARTx NewState =
     (if NewState \<noteq> DISABLE then or_half env (USART USARTx USART_CR1) CR1_RWU_Set
      else and_half env (USART USARTx USART_CR1) CR1_RWU_Reset)"

definition USART_LINBreakDetectLengthConfig :: "env \<Rightarrow> usart \<Rightarrow> u16 \<Rightarrow> hist \<Rightarrow> hist" where
  "USART_LINBreakDetectLengthConfig env USARTx USART_LINBreakDetectLength h =
     or_half env (USART USARTx USART_CR2) USART_LINBreakDetectLength
       (and_half env (USART USARTx USART_CR2) CR2_LBDL_Mask h)"

definition USART_LINCmd :: "env \<Rightarrow> usart \<Rightarrow> FunctionalState \<Rightarrow> hist \<Rightarrow> hist" where
  "USART_LINCmd env USARTx NewState =
     (if NewState \<noteq> DISABLE then or_half env (USART USARTx USART_CR2) CR2_LINEN_Set
      else and_half env (USART USARTx USART_CR2) CR2_LINEN_Reset)"

section \<open>Data, flags and modes\<close>

definition USART_SendData :: "usart \<Rightarrow> u16 \<Rightarrow> hist \<Rightarrow> hist" where
  "USART_SendData USARTx Data = wrh (USART USARTx USART_DR) (Data AND 0x01FF)"

definition USART_ReceiveData :: "env \<Rightarrow> usart \<Rightarrow> hist \<Rightarrow> u16 \<times> hist" where
  "USART_ReceiveData env USARTx h = (let (v, h) = rdh env (USART USARTx USART_DR) h in (v AND 0x01FF, h))"

definition USART_SendBreak :: "env \<Rightarrow> usart \<Rightarrow> hist \<Rightarrow> hist" where
  "USART_SendBreak env USARTx = or_half env (USART USARTx USART_CR1) CR1_SBK_Set"

definition USART_SetGuardTime :: "env \<Rightarrow> usart \<Rightarrow> u8 \<Rightarrow> hist \<Rightarrow> hist" where
  "USART_SetGuardTime env USARTx USART_GuardTime h =
     or_half env (USART USARTx USART_GTPR) (push_bit 8 (ucast USART_GuardTime))
       (and_half env (USART USARTx USART_GTPR) GTPR_LSB_Mask h)"

definition USART_SetPrescaler :: "env \<Rightarrow> usart \<Rightarrow> u8 \<Rightarrow> hist \<Rightarrow> hist" where
  "USART_SetPrescaler env USARTx USART_Prescaler h =
     or_half env (USART USARTx USART_GTPR) (ucast USART_Prescaler)
       (and_half env (USART USARTx USART_GTPR) GTPR_MSB_Mask h)"

definition USART_SmartCardCmd :: "env \<Rightarrow> usart \<Rightarrow> FunctionalState \<Rightarrow> hist \<Rightarrow> hist" where
  "USART_SmartCardCmd env USARTx NewState =
     (if NewState \<noteq> DISABLE then or_half env (USART USARTx USART_CR3) CR3_SCEN_Set
      else and_half env (USART USARTx USART_CR3) CR3_SCEN_Reset)"

definition USART_SmartCardNACKCmd :: "env \<Rightarrow> usart \<Rightarrow> FunctionalState \<Rightarrow> hist \<Rightarrow> hist" where
  "USART_SmartCardNACKCmd env USARTx NewState =
     (if NewState \<noteq> DISABLE then or_half env (USART USARTx USART_CR3) CR3_NACK_Set
      else and_half env (USART USARTx USART_CR3) CR3_NACK_Reset)"

definition USART_HalfDuplexCmd :: "env \<Rightarrow> usart \<Rightarrow> FunctionalState \<Rightarrow> hist \<Rightarrow> hist" where
  "USART_HalfDuplexCmd env USARTx NewState =
     (if NewState \<noteq> DISABLE then or_half env (USART USARTx USART_CR3) CR3_HDSEL_Set
      else and_half env (USART USARTx USART_CR3) CR3_HDSEL_Reset)"

definition USART_IrDAConfig :: "env \<Rightarrow> usart \<Rightarrow> u16 \<Rightarrow> hist \<Rightarrow> hist" where
  "USART_IrDAConfig env USARTx USART_IrDAMode h =
     or_half env (USART USARTx USART_CR3) USART_IrDAMode (and_half env (USART USARTx USART_CR3) CR3_IRLP_Mask h)"

definition USART_IrDACmd :: "env \<Rightarrow> usart \<Rightarrow> FunctionalState \<Rightarrow> hist \<Rightarrow> hist" where
  "USART_IrDACmd env USARTx NewState =
     (if NewState \<noteq> DISABLE then or_half env (USART USARTx USART_CR3) CR3_IREN_Set
      else and_half env (USART USARTx USART_CR3) CR3_IREN_Reset)"

definition USART_GetFlagStatus :: "env \<Rightarrow> usart \<Rightarrow> u16 \<Rightarrow> hist \<Rightarrow> FlagStatus \<times> hist" where
  "USART_GetFlagStatus env USARTx USART_FLAG h =
     (let (v, h) = rdh env (USART USARTx USART_SR) h in (if v AND USART_FLAG \<noteq> 0 then SET else RESET, h))"

definition USART_ClearFlag :: "usart \<Rightarrow> u16 \<Rightarrow> hist \<Rightarrow> hist" where
  "USART_ClearFlag USARTx USART_FLAG = wrh (USART USARTx USART_SR) (NOT USART_FLAG)"

definition USART_GetITStatus :: "env \<Rightarrow> usart \<Rightarrow> u16 \<Rightarrow> hist \<Rightarrow> FlagStatus \<times> hist" where
  "USART_GetITStatus env USARTx USART_IT h =
     (let usartreg = drop_bit 5 (ucast (ucast USART_IT :: u8) :: u32);
          itmask = push_bit (unat (USART_IT AND IT_Mask)) 1 :: u32;
          (v, h) = rdh env (USART USARTx
            (if usartreg = 1 then USART_CR1 else if usartreg = 2 then USART_CR2 else USART_CR3)) h;
          itmask = itmask AND ucast v;
          bitpos = push_bit (unat (drop_bit 8 USART_IT)) 1 :: u32;
          (v, h) = rdh env (USART USARTx USART_SR) h;
          bitpos = bitpos AND ucast v
      in (if itmask \<noteq> 0 \<and> bitpos \<noteq> 0 then SET else RESET, h))"

definition USART_ClearITPendingBit :: "usart \<Rightarrow> u16 \<Rightarrow> hist \<Rightarrow> hist" where
  "USART_ClearITPendingBit USARTx USART_IT =
     wrh (USART USARTx USART_SR) (NOT (push_bit (unat (drop_bit 8 USART_IT)) 1))"


section \<open>The baud rate divider\<close>

text \<open>
  The divider in hundredths, and the register value for it: the register counts sixteenths, the
  code rounds the hundredths to the nearest sixteenth. A fraction of 97 hundredths or more rounds to
  16 sixteenths, whose carry the mask with 15 drops: the divider then comes out one too small.
\<close>

definition hundredths :: "nat \<Rightarrow> nat \<Rightarrow> nat" where
  "hundredths clk baud = 25 * clk div (4 * baud)"

lemma brr_value_nat:
  assumes fits: "25 * unat clk < 2 ^ 32" "4 * unat baud < 2 ^ 32" "hundredths (unat clk) (unat baud) div 100 < 4096"
  defines "d \<equiv> hundredths (unat clk) (unat baud)"
  shows "unat (brr_value clk baud) = 16 * (d div 100) + ((16 * (d mod 100) + 50) div 100) mod 16"
proof -
  have i: "unat ((0x19 * clk) div (0x04 * baud)) = d"
    using fits(1,2) by (simp add: d_def hundredths_def unat_div unat_word_ariths)
  let ?i = "(0x19 * clk) div (0x04 * baud) :: u32"
  have q: "unat (?i div 0x64) = d div 100" using i by (simp add: unat_div)
  have small: "d div 100 < 4096" using fits(3) by (simp add: d_def)
  have t: "unat (push_bit 4 (?i div 0x64)) = 16 * (d div 100)"
    using small q by (simp add: push_bit_eq_mult unat_word_ariths mult.commute)
  have sh: "drop_bit 4 (push_bit 4 (?i div 0x64)) = ?i div 0x64"
    by (rule word_unat_eq_iff [THEN iffD2]) (simp add: unat_drop_bit_eq t q drop_bit_eq_div [where ?'a = nat])
  have f: "unat (?i - 0x64 * drop_bit 4 (push_bit 4 (?i div 0x64))) = d mod 100"
  proof -
    have "unat (0x64 * (?i div 0x64)) = 100 * (d div 100)"
      using q i unsigned_less [of ?i, where ?'a = nat] by (simp add: unat_word_ariths)
    then show ?thesis
      unfolding sh using i by (simp add: unat_sub word_le_nat_alt modulo_nat_def)
  qed
  let ?f = "?i - 0x64 * drop_bit 4 (push_bit 4 (?i div 0x64))"
  have "unat ((x * 0x10 + 0x32) div 0x64) = (16 * unat x + 50) div 100" if "unat x < 100" for x :: u32
    using that by (simp add: unat_div unat_word_ariths mult.commute)
  from this [of ?f] have g: "unat ((?f * 0x10 + 0x32) div 0x64) = (16 * (d mod 100) + 50) div 100"
    unfolding f by simp
  have "unat (x AND 0x0F) = unat x mod 16" for x :: u32
    by (simp add: F_mask unsigned_take_bit_eq take_bit_eq_mod unat_mod flip: take_bit_eq_mask)
  from this [of "(?f * 0x10 + 0x32) div 0x64"]
  have low: "unat (((?f * 0x10 + 0x32) div 0x64) AND 0x0F) = ((16 * (d mod 100) + 50) div 100) mod 16"
    unfolding g .
  have join: "unat (ucast (a OR b) :: u16) = 16 * q + r"
    if "unat a = 16 * q" "unat b = r" "r < 16" "q < 4096" "a = push_bit 4 c" "b = e AND 0x0F"
    for a b c e :: u32 and q r
  proof -
    have "a OR b = a + b"
      unfolding that(5,6) by (rule disjunctive_add [symmetric]) (auto simp: F_mask bit_simps)
    moreover have "unat (a + b) = 16 * q + r" using that by (simp add: unat_word_ariths)
    ultimately show ?thesis using that by (simp add: unsigned_ucast_eq take_bit_nat_eq_self)
  qed
  show ?thesis
    unfolding brr_value_def Let_def by (rule join [OF t low _ small refl refl]) simp
qed

lemma hundredths_bounds:
  assumes "0 < baud"
  shows "4 * (hundredths clk baud * baud) \<le> 25 * clk" "25 * clk < 4 * (hundredths clk baud * baud) + 4 * baud"
proof -
  have "4 * baud * hundredths clk baud \<le> 25 * clk"
    unfolding hundredths_def by (rule times_div_less_eq_dividend)
  then show "4 * (hundredths clk baud * baud) \<le> 25 * clk" by (simp add: mult_ac)
  have "25 * clk < 4 * baud * (hundredths clk baud) + 4 * baud"
    unfolding hundredths_def
    using assms mod_less_divisor [of "4 * baud" "25 * clk"] mult_div_mod_eq [of "4 * baud" "25 * clk"] by linarith
  then show "25 * clk < 4 * (hundredths clk baud * baud) + 4 * baud" by (simp add: mult_ac)
qed

lemma sixteenths_nearest:
  fixes r :: nat
  assumes "r < 97"
  shows "16 * r \<le> 100 * (((16 * r + 50) div 100) mod 16) + 50"
    and "100 * (((16 * r + 50) div 100) mod 16) \<le> 16 * r + 50"
proof -
  have "(16 * r + 50) div 100 < 16" using assms by (simp add: less_mult_imp_div_less)
  then have "((16 * r + 50) div 100) mod 16 = (16 * r + 50) div 100" by simp
  then show "16 * r \<le> 100 * (((16 * r + 50) div 100) mod 16) + 50"
    and "100 * (((16 * r + 50) div 100) mod 16) \<le> 16 * r + 50" by linarith+
qed

text \<open>The rounding: two roundings cost less than one rate.\<close>

lemma brr_value_error:
  assumes "0 < baud" "25 * unat clk < 2 ^ 32" "4 * unat baud < 2 ^ 32"
    and "hundredths (unat clk) (unat baud) div 100 < 4096" "hundredths (unat clk) (unat baud) mod 100 < 97"
  shows "unat (brr_value clk baud) * unat baud < unat clk + unat baud \<and>
         unat clk < unat (brr_value clk baud) * unat baud + unat baud"
proof -
  define d b B where "d = hundredths (unat clk) (unat baud)" "b = unat (brr_value clk baud)" "B = unat baud"
  have B: "0 < B" using assms(1) by (simp add: d_b_B_def unat_gt_0 word_neq_0_conv)
  have b: "b = 16 * (d div 100) + ((16 * (d mod 100) + 50) div 100) mod 16"
    unfolding d_b_B_def by (rule brr_value_nat [OF assms(2-4)])
  have split: "d = 100 * (d div 100) + d mod 100" by simp
  have r: "d mod 100 < 97" using assms(5) by (simp add: d_b_B_def)
  have near: "16 * d \<le> 100 * b + 50" "100 * b \<le> 16 * d + 50"
    using sixteenths_nearest [OF r] b split by linarith+
  have "16 * (d * B) \<le> 100 * (b * B) + 50 * B" "100 * (b * B) \<le> 16 * (d * B) + 50 * B"
    using mult_le_mono1 [OF near(1), of B] mult_le_mono1 [OF near(2), of B] by (simp_all add: algebra_simps)
  moreover have "4 * (d * B) \<le> 25 * unat clk" "25 * unat clk < 4 * (d * B) + 4 * B"
    using hundredths_bounds [OF B] by (simp_all add: d_b_B_def)
  ultimately have "b * B < unat clk + B" "unat clk < b * B + B" using B by linarith+
  then show ?thesis by (simp add: d_b_B_def)
qed

lemma USART_Init_BRR:
  fixes env u ini h
  assumes "\<forall>g. fst (RCC_GetClocksFreq env g) = clocks"
  shows "\<exists>h'. USART_Init env u ini h = h' @ [Wr (USART u USART_BRR)
    (ucast (brr_value (if u = USART1 then PCLK2_Frequency clocks else PCLK1_Frequency clocks) (USART_BaudRate ini)))]"
  using assms by (simp add: USART_Init_def Let_def case_prod_beta wrh_def wr_def)

text \<open>
  C31: the baud rate is met. While the clock configuration does not change, the last access of
  \<^verbatim>\<open>USART_Init\<close> is the write of a divider to \<^verbatim>\<open>BRR\<close> which, times the requested rate, differs from the
  peripheral clock (\<^verbatim>\<open>PCLK2\<close> for USART1, \<^verbatim>\<open>PCLK1\<close> otherwise) by less than one rate. This holds for a rate
  other than 0 whose divider fits the register (an integer part below 4096: a rate above a 65536th of the
  clock) and has a fraction below 97 hundredths, with 25 times the clock and 4 times the rate in 32 bits.
\<close>

theorem USART_baud_error:
  fixes env u ini h
  assumes clocks: "\<forall>g. fst (RCC_GetClocksFreq env g) = clocks"
    and clk: "clk = (if u = USART1 then PCLK2_Frequency clocks else PCLK1_Frequency clocks)"
    and baud: "baud = USART_BaudRate ini" "0 < baud" "25 * unat clk < 2 ^ 32" "4 * unat baud < 2 ^ 32"
    and fits: "hundredths (unat clk) (unat baud) div 100 < 4096" "hundredths (unat clk) (unat baud) mod 100 < 97"
  shows "\<exists>h' w. USART_Init env u ini h = h' @ [Wr (USART u USART_BRR) w] \<and>
    unat w * unat baud < unat clk + unat baud \<and> unat clk < unat w * unat baud + unat baud"
  using USART_Init_BRR [OF clocks, of u ini h] brr_value_error [OF baud(2-4) fits] baud(1) clk
  by (fastforce simp: unsigned_ucast_eq take_bit_nat_eq_self less_le_trans [OF unsigned_less])

definition clocked :: env where
  "clocked h r = (if r = RCC RCC_CFGR then 0x1D040A else if r = RCC RCC_CFGR2 then 0x10644 else 0)"

lemma clocked_freq: "PCLK1_Frequency (fst (RCC_GetClocksFreq clocked g)) = 36000000"
  "fst (RCC_GetClocksFreq clocked g) = fst (RCC_GetClocksFreq clocked [])"
  by (simp_all add: RCC_GetClocksFreq_def pll_frequency_def rd_def Let_def clocked_def APBAHBPrescTable_def ADCPrescTable_def)

lemma USART_baud_error_witness:
  "\<exists>h' w. USART_Init clocked USART3 USART_StructInit [] = h' @ [Wr (USART USART3 USART_BRR) w] \<and>
    unat w * 115200 < 36000000 + 115200 \<and> 36000000 < unat w * 115200 + (115200 :: nat)"
proof -
  have c: "\<forall>g. fst (RCC_GetClocksFreq clocked g) = fst (RCC_GetClocksFreq clocked [])" using clocked_freq(2) by blast
  show ?thesis
    using USART_baud_error [OF c, of 36000000 USART3 115200 USART_StructInit "[]"]
    by (simp add: clocked_freq(1) hundredths_def USART_StructInit_def)
qed

text \<open>The console rate; and a rate whose carry is lost: the divider should be 320, the code stores 304.\<close>

lemma brr_115200: "brr_value 36000000 115200 = 0x138"
  by (simp add: brr_value_def Let_def)

lemma brr_carry_lost: "brr_value 36000000 112669 = 304" "320 * 112669 = (36054080 :: nat)"
  by (simp_all add: brr_value_def Let_def)

end
