(* ===== verification/Eth.thy ===== *)
theory Eth
  imports Rcc
begin

text \<open>
  The register side of the Ethernet driver, \<^verbatim>\<open>stm32_eth.c\<close>: the PHY management interface, the
  configuration of MAC and DMA, and the small setters and getters of the MAC, DMA, wake-up and
  statistics registers. The descriptors are in \<open>EthRing\<close>; the time-stamping half of the file, which
  the firmware does not use, is left out. A statistics register is named by its offset from the MAC
  base. The delay loop \<^verbatim>\<open>ETH_Delay\<close> counts a local variable down and is the identity.
\<close>

abbreviation (input) ETH_ERROR :: u32 where "ETH_ERROR \<equiv> 0"
abbreviation (input) ETH_SUCCESS :: u32 where "ETH_SUCCESS \<equiv> 1"
abbreviation (input) MACMIIAR_CR_MASK :: u32 where "MACMIIAR_CR_MASK \<equiv> 0xFFFFFFE3"
abbreviation (input) MACCR_CLEAR_MASK :: u32 where "MACCR_CLEAR_MASK \<equiv> 0xFF20810F"
abbreviation (input) MACFCR_CLEAR_MASK :: u32 where "MACFCR_CLEAR_MASK \<equiv> 0x0000FF41"
abbreviation (input) DMAOMR_CLEAR_MASK :: u32 where "DMAOMR_CLEAR_MASK \<equiv> 0xF8DE3F23"
abbreviation (input) ETH_MACMIIAR_PA :: u32 where "ETH_MACMIIAR_PA \<equiv> 0x0000F800"
abbreviation (input) ETH_MACMIIAR_MR :: u32 where "ETH_MACMIIAR_MR \<equiv> 0x000007C0"
abbreviation (input) ETH_MACMIIAR_MW :: u32 where "ETH_MACMIIAR_MW \<equiv> 0x00000002"
abbreviation (input) ETH_MACMIIAR_MB :: u32 where "ETH_MACMIIAR_MB \<equiv> 0x00000001"
abbreviation (input) ETH_MACMIIAR_CR_Div42 :: u32 where "ETH_MACMIIAR_CR_Div42 \<equiv> 0x00000000"
abbreviation (input) ETH_MACMIIAR_CR_Div16 :: u32 where "ETH_MACMIIAR_CR_Div16 \<equiv> 0x00000008"
abbreviation (input) ETH_MACMIIAR_CR_Div26 :: u32 where "ETH_MACMIIAR_CR_Div26 \<equiv> 0x0000000C"
abbreviation (input) ETH_MACCR_TE :: u32 where "ETH_MACCR_TE \<equiv> 0x00000008"
abbreviation (input) ETH_MACCR_RE :: u32 where "ETH_MACCR_RE \<equiv> 0x00000004"
abbreviation (input) ETH_MACFCR_FCBBPA :: u32 where "ETH_MACFCR_FCBBPA \<equiv> 0x00000001"
abbreviation (input) ETH_MACA1HR_AE :: u32 where "ETH_MACA1HR_AE \<equiv> 0x80000000"
abbreviation (input) ETH_MACA1HR_SA :: u32 where "ETH_MACA1HR_SA \<equiv> 0x40000000"
abbreviation (input) ETH_MACA1HR_MBC :: u32 where "ETH_MACA1HR_MBC \<equiv> 0x3F000000"
abbreviation (input) ETH_MAC_AddressFilter_DA :: u32 where "ETH_MAC_AddressFilter_DA \<equiv> 0x00000008"
abbreviation (input) ETH_MAC_Address0 :: u32 where "ETH_MAC_Address0 \<equiv> 0x00000000"
abbreviation (input) ETH_DMABMR_SR :: u32 where "ETH_DMABMR_SR \<equiv> 0x00000001"
abbreviation (input) ETH_DMABMR_USP :: u32 where "ETH_DMABMR_USP \<equiv> 0x00800000"
abbreviation (input) ETH_DMASR_TS :: u32 where "ETH_DMASR_TS \<equiv> 0x00000001"
abbreviation (input) ETH_DMASR_RS :: u32 where "ETH_DMASR_RS \<equiv> 0x00000040"
abbreviation (input) ETH_DMASR_RBUS :: u32 where "ETH_DMASR_RBUS \<equiv> 0x00000080"
abbreviation (input) ETH_DMASR_TBUS :: u32 where "ETH_DMASR_TBUS \<equiv> 0x00000004"
abbreviation (input) ETH_DMAOMR_FTF :: u32 where "ETH_DMAOMR_FTF \<equiv> 0x00100000"
abbreviation (input) ETH_DMAOMR_ST :: u32 where "ETH_DMAOMR_ST \<equiv> 0x00002000"
abbreviation (input) ETH_DMAOMR_SR :: u32 where "ETH_DMAOMR_SR \<equiv> 0x00000002"
abbreviation (input) ETH_DMAMFBOCR_MFA :: u32 where "ETH_DMAMFBOCR_MFA \<equiv> 0x0FFE0000"
abbreviation (input) ETH_DMAMFBOCR_MFC :: u32 where "ETH_DMAMFBOCR_MFC \<equiv> 0x0000FFFF"
abbreviation (input) ETH_DMA_IT_NIS :: u32 where "ETH_DMA_IT_NIS \<equiv> 0x00010000"
abbreviation (input) ETH_DMA_IT_R :: u32 where "ETH_DMA_IT_R \<equiv> 0x00000040"
abbreviation (input) PHY_READ_TO :: u32 where "PHY_READ_TO \<equiv> 0x0004FFFF"
abbreviation (input) PHY_WRITE_TO :: u32 where "PHY_WRITE_TO \<equiv> 0x0004FFFF"
abbreviation (input) PHY_BCR :: u16 where "PHY_BCR \<equiv> 0"
abbreviation (input) PHY_BSR :: u16 where "PHY_BSR \<equiv> 1"
abbreviation (input) PHY_SR :: u16 where "PHY_SR \<equiv> 17"
abbreviation (input) PHY_Reset :: u16 where "PHY_Reset \<equiv> 0x8000"
abbreviation (input) PHY_Loopback :: u16 where "PHY_Loopback \<equiv> 0x4000"
abbreviation (input) PHY_AutoNegotiation :: u16 where "PHY_AutoNegotiation \<equiv> 0x1000"
abbreviation (input) PHY_AutoNego_Complete :: u16 where "PHY_AutoNego_Complete \<equiv> 0x0020"
abbreviation (input) PHY_Linked_Status :: u16 where "PHY_Linked_Status \<equiv> 0x0004"
abbreviation (input) PHY_Speed_Status :: u16 where "PHY_Speed_Status \<equiv> 0x4000"
abbreviation (input) PHY_Duplex_Status :: u16 where "PHY_Duplex_Status \<equiv> 0x2000"
abbreviation (input) ETH_AutoNegotiation_Disable :: u32 where "ETH_AutoNegotiation_Disable \<equiv> 0"
abbreviation (input) ETH_Speed_10M :: u32 where "ETH_Speed_10M \<equiv> 0x00000000"
abbreviation (input) ETH_Speed_100M :: u32 where "ETH_Speed_100M \<equiv> 0x00004000"
abbreviation (input) ETH_Mode_FullDuplex :: u32 where "ETH_Mode_FullDuplex \<equiv> 0x00000800"
abbreviation (input) ETH_Mode_HalfDuplex :: u32 where "ETH_Mode_HalfDuplex \<equiv> 0x00000000"
abbreviation (input) RCC_AHBPeriph_ETH_MAC :: u32 where "RCC_AHBPeriph_ETH_MAC \<equiv> 0x00004000"

section \<open>Helpers\<close>

definition eth_switch :: "env \<Rightarrow> eth_reg \<Rightarrow> u32 \<Rightarrow> FunctionalState \<Rightarrow> hist \<Rightarrow> hist" where
  "eth_switch env r bits NewState h =
     (if NewState \<noteq> DISABLE then or_reg env (ETH r) bits h else and_reg env (ETH r) (NOT bits) h)"

definition eth_flag :: "env \<Rightarrow> eth_reg \<Rightarrow> u32 \<Rightarrow> hist \<Rightarrow> FlagStatus \<times> hist" where
  "eth_flag env r bits h = (let (v, h) = rd env (ETH r) h in (if v AND bits \<noteq> 0 then SET else RESET, h))"

definition ETH_DeInit :: "env \<Rightarrow> hist \<Rightarrow> hist" where
  "ETH_DeInit env h =
     RCC_AHBPeriphResetCmd env RCC_AHBPeriph_ETH_MAC DISABLE (RCC_AHBPeriphResetCmd env RCC_AHBPeriph_ETH_MAC ENABLE h)"

section \<open>The PHY management interface\<close>

text \<open>
  The busy loop: \<open>timeout\<close> counts the reads; the loop ends when the busy bit clears or the count
  reaches the limit. The result is the count.
\<close>

lemma timeout_step: "s < lim \<Longrightarrow> unat (lim - (s + 1)) < unat (lim - s)" for s lim :: u32
proof -
  assume "s < lim"
  then have "lim - s \<noteq> 0" by auto
  moreover have "lim - (s + 1) = (lim - s) - 1" by simp
  ultimately show ?thesis by (metis unat_gt_0 unat_minus_one diff_less zero_less_one)
qed

lemma timeout_steps:
  "t + 1 < lim \<Longrightarrow> unat (lim - (2 + t)) < unat (lim - (t + 1))"
  "t + 1 < PHY_READ_TO \<Longrightarrow> unat (0x4FFFD - t) < unat (0x4FFFE - t)" for t lim :: u32
proof -
  show 1: "t + 1 < lim \<Longrightarrow> unat (lim - (2 + t)) < unat (lim - (t + 1))" for lim :: u32
    using timeout_step [of "t + 1" lim] by (simp add: algebra_simps)
  show "t + 1 < PHY_READ_TO \<Longrightarrow> unat (0x4FFFD - t) < unat (0x4FFFE - t)"
    using 1 [of PHY_READ_TO] by simp
qed

function mii_busy_wait :: "env \<Rightarrow> u32 \<Rightarrow> u32 \<Rightarrow> hist \<Rightarrow> u32 \<times> hist" where
  "mii_busy_wait env limit timeout h =
     (let timeout = timeout + 1;
          (tmpreg, h) = rd env (ETH MACMIIAR) h
      in if tmpreg AND ETH_MACMIIAR_MB \<noteq> 0 \<and> timeout < limit
         then mii_busy_wait env limit timeout h else (timeout, h))"
  by pat_completeness auto
termination
  by (relation "measure (\<lambda>(_, lim, t, _). unat (lim - (t + 1)))") (use timeout_steps in auto)

declare mii_busy_wait.simps [simp del]

definition ETH_ReadPHYRegister :: "env \<Rightarrow> u16 \<Rightarrow> u16 \<Rightarrow> hist \<Rightarrow> u16 \<times> hist" where
  "ETH_ReadPHYRegister env PHYAddress PHYReg h =
     (let (tmpreg, h) = rd env (ETH MACMIIAR) h;
          tmpreg = tmpreg AND NOT MACMIIAR_CR_MASK;
          tmpreg = tmpreg OR (push_bit 11 (ucast PHYAddress) AND ETH_MACMIIAR_PA);
          tmpreg = tmpreg OR (push_bit 6 (ucast PHYReg) AND ETH_MACMIIAR_MR);
          tmpreg = tmpreg AND NOT ETH_MACMIIAR_MW;
          tmpreg = tmpreg OR ETH_MACMIIAR_MB;
          h = wr (ETH MACMIIAR) tmpreg h;
          (timeout, h) = mii_busy_wait env PHY_READ_TO 0 h
      in if timeout = PHY_READ_TO then (ucast ETH_ERROR, h)
         else let (v, h) = rd env (ETH MACMIIDR) h in (ucast v, h))"

definition ETH_WritePHYRegister :: "env \<Rightarrow> u16 \<Rightarrow> u16 \<Rightarrow> u16 \<Rightarrow> hist \<Rightarrow> u32 \<times> hist" where
  "ETH_WritePHYRegister env PHYAddress PHYReg PHYValue h =
     (let (tmpreg, h) = rd env (ETH MACMIIAR) h;
          tmpreg = tmpreg AND NOT MACMIIAR_CR_MASK;
          tmpreg = tmpreg OR (push_bit 11 (ucast PHYAddress) AND ETH_MACMIIAR_PA);
          tmpreg = tmpreg OR (push_bit 6 (ucast PHYReg) AND ETH_MACMIIAR_MR);
          tmpreg = tmpreg OR ETH_MACMIIAR_MW;
          tmpreg = tmpreg OR ETH_MACMIIAR_MB;
          h = wr (ETH MACMIIDR) (ucast PHYValue) h;
          h = wr (ETH MACMIIAR) tmpreg h;
          (timeout, h) = mii_busy_wait env PHY_WRITE_TO 0 h
      in (if timeout = PHY_WRITE_TO then ETH_ERROR else ETH_SUCCESS, h))"

definition ETH_PHYLoopBackCmd :: "env \<Rightarrow> u16 \<Rightarrow> FunctionalState \<Rightarrow> hist \<Rightarrow> u32 \<times> hist" where
  "ETH_PHYLoopBackCmd env PHYAddress NewState h =
     (let (tmpreg, h) = ETH_ReadPHYRegister env PHYAddress PHY_BCR h;
          tmpreg = (if NewState \<noteq> DISABLE then tmpreg OR PHY_Loopback else tmpreg AND NOT PHY_Loopback);
          (r, h) = ETH_WritePHYRegister env PHYAddress PHY_BCR tmpreg h
      in (if r \<noteq> 0 then ETH_SUCCESS else ETH_ERROR, h))"

section \<open>Initialisation\<close>

record ETH_InitTypeDef =
  ETH_AutoNegotiation :: u32
  ETH_Watchdog :: u32
  ETH_Jabber :: u32
  ETH_InterFrameGap :: u32
  ETH_CarrierSense :: u32
  ETH_Speed :: u32
  ETH_ReceiveOwn :: u32
  ETH_LoopbackMode :: u32
  ETH_Mode :: u32
  ETH_ChecksumOffload :: u32
  ETH_RetryTransmission :: u32
  ETH_AutomaticPadCRCStrip :: u32
  ETH_BackOffLimit :: u32
  ETH_DeferralCheck :: u32
  ETH_ReceiveAll :: u32
  ETH_SourceAddrFilter :: u32
  ETH_PassControlFrames :: u32
  ETH_BroadcastFramesReception :: u32
  ETH_DestinationAddrFilter :: u32
  ETH_PromiscuousMode :: u32
  ETH_MulticastFramesFilter :: u32
  ETH_UnicastFramesFilter :: u32
  ETH_HashTableHigh :: u32
  ETH_HashTableLow :: u32
  ETH_PauseTime :: u32
  ETH_ZeroQuantaPause :: u32
  ETH_PauseLowThreshold :: u32
  ETH_UnicastPauseFrameDetect :: u32
  ETH_ReceiveFlowControl :: u32
  ETH_TransmitFlowControl :: u32
  ETH_VLANTagComparison :: u32
  ETH_VLANTagIdentifier :: u32
  ETH_DropTCPIPChecksumErrorFrame :: u32
  ETH_ReceiveStoreForward :: u32
  ETH_FlushReceivedFrame :: u32
  ETH_TransmitStoreForward :: u32
  ETH_TransmitThresholdControl :: u32
  ETH_ForwardErrorFrames :: u32
  ETH_ForwardUndersizedGoodFrames :: u32
  ETH_ReceiveThresholdControl :: u32
  ETH_SecondFrameOperate :: u32
  ETH_AddressAlignedBeats :: u32
  ETH_FixedBurst :: u32
  ETH_RxDMABurstLength :: u32
  ETH_TxDMABurstLength :: u32
  ETH_DescriptorSkipLength :: u32
  ETH_DMAArbitration :: u32

definition ETH_StructInit :: ETH_InitTypeDef where
  "ETH_StructInit =
     \<lparr>ETH_AutoNegotiation = 0, ETH_Watchdog = 0, ETH_Jabber = 0, ETH_InterFrameGap = 0,
      ETH_CarrierSense = 0, ETH_Speed = ETH_Speed_100M, ETH_ReceiveOwn = 0, ETH_LoopbackMode = 0,
      ETH_Mode = ETH_Mode_HalfDuplex, ETH_ChecksumOffload = 0, ETH_RetryTransmission = 0,
      ETH_AutomaticPadCRCStrip = 0, ETH_BackOffLimit = 0, ETH_DeferralCheck = 0, ETH_ReceiveAll = 0,
      ETH_SourceAddrFilter = 0, ETH_PassControlFrames = 0x40, ETH_BroadcastFramesReception = 0x20,
      ETH_DestinationAddrFilter = 0, ETH_PromiscuousMode = 0, ETH_MulticastFramesFilter = 0,
      ETH_UnicastFramesFilter = 0, ETH_HashTableHigh = 0, ETH_HashTableLow = 0, ETH_PauseTime = 0,
      ETH_ZeroQuantaPause = 0x80, ETH_PauseLowThreshold = 0, ETH_UnicastPauseFrameDetect = 0,
      ETH_ReceiveFlowControl = 0, ETH_TransmitFlowControl = 0, ETH_VLANTagComparison = 0,
      ETH_VLANTagIdentifier = 0, ETH_DropTCPIPChecksumErrorFrame = 0x04000000,
      ETH_ReceiveStoreForward = 0x02000000, ETH_FlushReceivedFrame = 0x01000000,
      ETH_TransmitStoreForward = 0x00200000, ETH_TransmitThresholdControl = 0,
      ETH_ForwardErrorFrames = 0, ETH_ForwardUndersizedGoodFrames = 0, ETH_ReceiveThresholdControl = 0,
      ETH_SecondFrameOperate = 0, ETH_AddressAlignedBeats = 0x02000000, ETH_FixedBurst = 0,
      ETH_RxDMABurstLength = 0x00020000, ETH_TxDMABurstLength = 0x00000100,
      ETH_DescriptorSkipLength = 0, ETH_DMAArbitration = 0\<rparr>"

text \<open>The polls of a PHY status bit: the loop ends with the bit or when \<open>timeout\<close> reaches the limit.\<close>

function phy_status_wait :: "env \<Rightarrow> u16 \<Rightarrow> u16 \<Rightarrow> u32 \<Rightarrow> hist \<Rightarrow> u32 \<times> hist" where
  "phy_status_wait env PHYAddress status timeout h =
     (let timeout = timeout + 1;
          (v, h) = ETH_ReadPHYRegister env PHYAddress PHY_BSR h
      in if v AND status = 0 \<and> timeout < PHY_READ_TO
         then phy_status_wait env PHYAddress status timeout h else (timeout, h))"
  by pat_completeness auto
termination
  by (relation "measure (\<lambda>(_, _, _, t, _). unat (PHY_READ_TO - (t + 1)))") (use timeout_steps in auto)

declare phy_status_wait.simps [simp del]

text \<open>The PHY half of \<^verbatim>\<open>ETH_Init\<close>: None is the early return of \<^verbatim>\<open>ETH_ERROR\<close>.\<close>

definition phy_init :: "env \<Rightarrow> ETH_InitTypeDef \<Rightarrow> u16 \<Rightarrow> hist \<Rightarrow> ETH_InitTypeDef option \<times> hist" where
  "phy_init env ini PHYAddress h =
     (let (r, h) = ETH_WritePHYRegister env PHYAddress PHY_BCR PHY_Reset h in
      if r = 0 then (None, h)
      else if ETH_AutoNegotiation ini \<noteq> ETH_AutoNegotiation_Disable then
        let (timeout, h) = phy_status_wait env PHYAddress PHY_Linked_Status 0 h in
        if timeout = PHY_READ_TO then (None, h)
        else let (r, h) = ETH_WritePHYRegister env PHYAddress PHY_BCR PHY_AutoNegotiation h in
        if r = 0 then (None, h)
        else let (timeout, h) = phy_status_wait env PHYAddress PHY_AutoNego_Complete 0 h in
        if timeout = PHY_READ_TO then (None, h)
        else let (RegValue, h) = ETH_ReadPHYRegister env PHYAddress PHY_SR h;
                 ini = ini\<lparr>ETH_Mode := if RegValue AND PHY_Duplex_Status \<noteq> 0 then ETH_Mode_FullDuplex
                                       else ETH_Mode_HalfDuplex\<rparr>;
                 ini = ini\<lparr>ETH_Speed := if RegValue AND PHY_Speed_Status \<noteq> 0 then ETH_Speed_10M
                                        else ETH_Speed_100M\<rparr>
             in (Some ini, h)
      else
        let (r, h) = ETH_WritePHYRegister env PHYAddress PHY_BCR
              (ucast (drop_bit 3 (ETH_Mode ini)) OR ucast (drop_bit 1 (ETH_Speed ini))) h
        in if r = 0 then (None, h) else (Some ini, h))"

definition maccr_bits :: "ETH_InitTypeDef \<Rightarrow> u32" where
  "maccr_bits ini =
     ETH_Watchdog ini OR ETH_Jabber ini OR ETH_InterFrameGap ini OR ETH_CarrierSense ini OR ETH_Speed ini OR
     ETH_ReceiveOwn ini OR ETH_LoopbackMode ini OR ETH_Mode ini OR ETH_ChecksumOffload ini OR
     ETH_RetryTransmission ini OR ETH_AutomaticPadCRCStrip ini OR ETH_BackOffLimit ini OR ETH_DeferralCheck ini"

definition ETH_Init :: "env \<Rightarrow> ETH_InitTypeDef \<Rightarrow> u16 \<Rightarrow> hist \<Rightarrow> u32 \<times> hist" where
  "ETH_Init env ini PHYAddress h =
     (let (tmpreg, h) = rd env (ETH MACMIIAR) h;
          tmpreg = tmpreg AND MACMIIAR_CR_MASK;
          (clocks, h) = RCC_GetClocksFreq env h;
          hclk = HCLK_Frequency clocks;
          tmpreg = tmpreg OR
            (if hclk \<ge> 20000000 \<and> hclk < 35000000 then ETH_MACMIIAR_CR_Div16
             else if hclk \<ge> 35000000 \<and> hclk < 60000000 then ETH_MACMIIAR_CR_Div26
             else ETH_MACMIIAR_CR_Div42);
          h = wr (ETH MACMIIAR) tmpreg h
      in case phy_init env ini PHYAddress h of
           (None, h) \<Rightarrow> (ETH_ERROR, h)
         | (Some ini, h) \<Rightarrow>
             let (tmpreg, h) = rd env (ETH MACCR) h;
                 h = wr (ETH MACCR) ((tmpreg AND MACCR_CLEAR_MASK) OR maccr_bits ini) h;
                 h = wr (ETH MACFFR)
                   (ETH_ReceiveAll ini OR ETH_SourceAddrFilter ini OR ETH_PassControlFrames ini OR
                    ETH_BroadcastFramesReception ini OR ETH_DestinationAddrFilter ini OR
                    ETH_PromiscuousMode ini OR ETH_MulticastFramesFilter ini OR ETH_UnicastFramesFilter ini) h;
                 h = wr (ETH MACHTHR) (ETH_HashTableHigh ini) h;
                 h = wr (ETH MACHTLR) (ETH_HashTableLow ini) h;
                 (tmpreg, h) = rd env (ETH MACFCR) h;
                 h = wr (ETH MACFCR)
                   ((tmpreg AND MACFCR_CLEAR_MASK) OR
                    (push_bit 16 (ETH_PauseTime ini) OR ETH_ZeroQuantaPause ini OR ETH_PauseLowThreshold ini OR
                     ETH_UnicastPauseFrameDetect ini OR ETH_ReceiveFlowControl ini OR ETH_TransmitFlowControl ini)) h;
                 h = wr (ETH MACVLANTR) (ETH_VLANTagComparison ini OR ETH_VLANTagIdentifier ini) h;
                 (tmpreg, h) = rd env (ETH DMAOMR) h;
                 h = wr (ETH DMAOMR)
                   ((tmpreg AND DMAOMR_CLEAR_MASK) OR
                    (ETH_DropTCPIPChecksumErrorFrame ini OR ETH_ReceiveStoreForward ini OR ETH_FlushReceivedFrame ini OR
                     ETH_TransmitStoreForward ini OR ETH_TransmitThresholdControl ini OR ETH_ForwardErrorFrames ini OR
                     ETH_ForwardUndersizedGoodFrames ini OR ETH_ReceiveThresholdControl ini OR
                     ETH_SecondFrameOperate ini)) h;
                 h = wr (ETH DMABMR)
                   (ETH_AddressAlignedBeats ini OR ETH_FixedBurst ini OR ETH_RxDMABurstLength ini OR
                    ETH_TxDMABurstLength ini OR push_bit 2 (ETH_DescriptorSkipLength ini) OR
                    ETH_DMAArbitration ini OR ETH_DMABMR_USP) h
             in (ETH_SUCCESS, h))"

section \<open>MAC\<close>

definition ETH_MACTransmissionCmd :: "env \<Rightarrow> FunctionalState \<Rightarrow> hist \<Rightarrow> hist" where
  "ETH_MACTransmissionCmd env = eth_switch env MACCR ETH_MACCR_TE"

definition ETH_MACReceptionCmd :: "env \<Rightarrow> FunctionalState \<Rightarrow> hist \<Rightarrow> hist" where
  "ETH_MACReceptionCmd env = eth_switch env MACCR ETH_MACCR_RE"

definition ETH_GetFlowControlBusyStatus :: "env \<Rightarrow> hist \<Rightarrow> FlagStatus \<times> hist" where
  "ETH_GetFlowControlBusyStatus env = eth_flag env MACFCR ETH_MACFCR_FCBBPA"

definition ETH_InitiatePauseControlFrame :: "env \<Rightarrow> hist \<Rightarrow> hist" where
  "ETH_InitiatePauseControlFrame env = or_reg env (ETH MACFCR) ETH_MACFCR_FCBBPA"

definition ETH_BackPressureActivationCmd :: "env \<Rightarrow> FunctionalState \<Rightarrow> hist \<Rightarrow> hist" where
  "ETH_BackPressureActivationCmd env = eth_switch env MACFCR ETH_MACFCR_FCBBPA"

definition ETH_GetMACFlagStatus :: "env \<Rightarrow> u32 \<Rightarrow> hist \<Rightarrow> FlagStatus \<times> hist" where
  "ETH_GetMACFlagStatus env ETH_MAC_FLAG = eth_flag env MACSR ETH_MAC_FLAG"

definition ETH_GetMACITStatus :: "env \<Rightarrow> u32 \<Rightarrow> hist \<Rightarrow> FlagStatus \<times> hist" where
  "ETH_GetMACITStatus env ETH_MAC_IT = eth_flag env MACSR ETH_MAC_IT"

definition ETH_MACITConfig :: "env \<Rightarrow> u32 \<Rightarrow> FunctionalState \<Rightarrow> hist \<Rightarrow> hist" where
  "ETH_MACITConfig env ETH_MAC_IT NewState h =
     (if NewState \<noteq> DISABLE then and_reg env (ETH MACIMR) (NOT ETH_MAC_IT) h
      else or_reg env (ETH MACIMR) ETH_MAC_IT h)"

text \<open>The six address bytes, in the order they go over the wire.\<close>

definition ETH_MACAddressConfig :: "u32 \<Rightarrow> u8 list \<Rightarrow> hist \<Rightarrow> hist" where
  "ETH_MACAddressConfig MacAddr Addr h =
     (let tmpreg = push_bit 8 (ucast (Addr ! 5)) OR ucast (Addr ! 4);
          h = wr (ETH (MACAHR MacAddr)) tmpreg h;
          tmpreg = push_bit 24 (ucast (Addr ! 3)) OR push_bit 16 (ucast (Addr ! 2)) OR
                   push_bit 8 (ucast (Addr ! 1)) OR ucast (Addr ! 0)
      in wr (ETH (MACALR MacAddr)) tmpreg h)"

definition ETH_GetMACAddress :: "env \<Rightarrow> u32 \<Rightarrow> hist \<Rightarrow> u8 list \<times> hist" where
  "ETH_GetMACAddress env MacAddr h =
     (let (hi, h) = rd env (ETH (MACAHR MacAddr)) h;
          (lo, h) = rd env (ETH (MACALR MacAddr)) h
      in ([ucast (lo AND 0xFF), ucast (drop_bit 8 lo AND 0xFF), ucast (drop_bit 16 lo AND 0xFF),
           ucast (drop_bit 24 lo AND 0xFF), ucast (hi AND 0xFF), ucast (drop_bit 8 hi AND 0xFF)], h))"

definition ETH_MACAddressPerfectFilterCmd :: "env \<Rightarrow> u32 \<Rightarrow> FunctionalState \<Rightarrow> hist \<Rightarrow> hist" where
  "ETH_MACAddressPerfectFilterCmd env MacAddr = eth_switch env (MACAHR MacAddr) ETH_MACA1HR_AE"

definition ETH_MACAddressFilterConfig :: "env \<Rightarrow> u32 \<Rightarrow> u32 \<Rightarrow> hist \<Rightarrow> hist" where
  "ETH_MACAddressFilterConfig env MacAddr Filter h =
     (if Filter \<noteq> ETH_MAC_AddressFilter_DA then or_reg env (ETH (MACAHR MacAddr)) ETH_MACA1HR_SA h
      else and_reg env (ETH (MACAHR MacAddr)) (NOT ETH_MACA1HR_SA) h)"

definition ETH_MACAddressMaskBytesFilterConfig :: "env \<Rightarrow> u32 \<Rightarrow> u32 \<Rightarrow> hist \<Rightarrow> hist" where
  "ETH_MACAddressMaskBytesFilterConfig env MacAddr MaskByte h =
     or_reg env (ETH (MACAHR MacAddr)) MaskByte (and_reg env (ETH (MACAHR MacAddr)) (NOT ETH_MACA1HR_MBC) h)"

section \<open>DMA\<close>

definition ETH_SoftwareReset :: "env \<Rightarrow> hist \<Rightarrow> hist" where
  "ETH_SoftwareReset env = or_reg env (ETH DMABMR) ETH_DMABMR_SR"

definition ETH_GetSoftwareResetStatus :: "env \<Rightarrow> hist \<Rightarrow> FlagStatus \<times> hist" where
  "ETH_GetSoftwareResetStatus env = eth_flag env DMABMR ETH_DMABMR_SR"

definition ETH_GetDMAFlagStatus :: "env \<Rightarrow> u32 \<Rightarrow> hist \<Rightarrow> FlagStatus \<times> hist" where
  "ETH_GetDMAFlagStatus env ETH_DMA_FLAG = eth_flag env DMASR ETH_DMA_FLAG"

definition ETH_DMAClearFlag :: "u32 \<Rightarrow> hist \<Rightarrow> hist" where
  "ETH_DMAClearFlag ETH_DMA_FLAG = wr (ETH DMASR) ETH_DMA_FLAG"

definition ETH_GetDMAITStatus :: "env \<Rightarrow> u32 \<Rightarrow> hist \<Rightarrow> FlagStatus \<times> hist" where
  "ETH_GetDMAITStatus env ETH_DMA_IT = eth_flag env DMASR ETH_DMA_IT"

definition ETH_DMAClearITPendingBit :: "u32 \<Rightarrow> hist \<Rightarrow> hist" where
  "ETH_DMAClearITPendingBit ETH_DMA_IT = wr (ETH DMASR) ETH_DMA_IT"

definition ETH_GetTransmitProcessState :: "env \<Rightarrow> hist \<Rightarrow> u32 \<times> hist" where
  "ETH_GetTransmitProcessState env h = (let (v, h) = rd env (ETH DMASR) h in (v AND ETH_DMASR_TS, h))"

definition ETH_GetReceiveProcessState :: "env \<Rightarrow> hist \<Rightarrow> u32 \<times> hist" where
  "ETH_GetReceiveProcessState env h = (let (v, h) = rd env (ETH DMASR) h in (v AND ETH_DMASR_RS, h))"

definition ETH_FlushTransmitFIFO :: "env \<Rightarrow> hist \<Rightarrow> hist" where
  "ETH_FlushTransmitFIFO env = or_reg env (ETH DMAOMR) ETH_DMAOMR_FTF"

definition ETH_GetFlushTransmitFIFOStatus :: "env \<Rightarrow> hist \<Rightarrow> FlagStatus \<times> hist" where
  "ETH_GetFlushTransmitFIFOStatus env = eth_flag env DMAOMR ETH_DMAOMR_FTF"

definition ETH_DMATransmissionCmd :: "env \<Rightarrow> FunctionalState \<Rightarrow> hist \<Rightarrow> hist" where
  "ETH_DMATransmissionCmd env = eth_switch env DMAOMR ETH_DMAOMR_ST"

definition ETH_DMAReceptionCmd :: "env \<Rightarrow> FunctionalState \<Rightarrow> hist \<Rightarrow> hist" where
  "ETH_DMAReceptionCmd env = eth_switch env DMAOMR ETH_DMAOMR_SR"

definition ETH_DMAITConfig :: "env \<Rightarrow> u32 \<Rightarrow> FunctionalState \<Rightarrow> hist \<Rightarrow> hist" where
  "ETH_DMAITConfig env ETH_DMA_IT = eth_switch env DMAIER ETH_DMA_IT"

definition ETH_GetDMAOverflowStatus :: "env \<Rightarrow> u32 \<Rightarrow> hist \<Rightarrow> FlagStatus \<times> hist" where
  "ETH_GetDMAOverflowStatus env ETH_DMA_Overflow = eth_flag env DMAMFBOCR ETH_DMA_Overflow"

definition ETH_GetRxOverflowMissedFrameCounter :: "env \<Rightarrow> hist \<Rightarrow> u32 \<times> hist" where
  "ETH_GetRxOverflowMissedFrameCounter env h = (let (v, h) = rd env (ETH DMAMFBOCR) h in (drop_bit 17 (v AND ETH_DMAMFBOCR_MFA), h))"

definition ETH_GetBufferUnavailableMissedFrameCounter :: "env \<Rightarrow> hist \<Rightarrow> u32 \<times> hist" where
  "ETH_GetBufferUnavailableMissedFrameCounter env h = (let (v, h) = rd env (ETH DMAMFBOCR) h in (v AND ETH_DMAMFBOCR_MFC, h))"

definition ETH_GetCurrentTxDescStartAddress :: "env \<Rightarrow> hist \<Rightarrow> u32 \<times> hist" where
  "ETH_GetCurrentTxDescStartAddress env = rd env (ETH DMACHTDR)"

definition ETH_GetCurrentRxDescStartAddress :: "env \<Rightarrow> hist \<Rightarrow> u32 \<times> hist" where
  "ETH_GetCurrentRxDescStartAddress env = rd env (ETH DMACHRDR)"

definition ETH_GetCurrentTxBufferAddress :: "env \<Rightarrow> hist \<Rightarrow> u32 \<times> hist" where
  "ETH_GetCurrentTxBufferAddress env = rd env (ETH DMACHTBAR)"

definition ETH_GetCurrentRxBufferAddress :: "env \<Rightarrow> hist \<Rightarrow> u32 \<times> hist" where
  "ETH_GetCurrentRxBufferAddress env = rd env (ETH DMACHRBAR)"

definition ETH_ResumeDMATransmission :: "hist \<Rightarrow> hist" where
  "ETH_ResumeDMATransmission = wr (ETH DMATPDR) 0"

definition ETH_ResumeDMAReception :: "hist \<Rightarrow> hist" where
  "ETH_ResumeDMAReception = wr (ETH DMARPDR) 0"

definition ETH_Start :: "env \<Rightarrow> hist \<Rightarrow> hist" where
  "ETH_Start env h =
     (let h = ETH_MACTransmissionCmd env ENABLE h;
          h = ETH_FlushTransmitFIFO env h;
          h = ETH_MACReceptionCmd env ENABLE h;
          h = ETH_DMATransmissionCmd env ENABLE h
      in ETH_DMAReceptionCmd env ENABLE h)"

section \<open>Wake-up and statistics\<close>

definition ETH_ResetWakeUpFrameFilterRegisterPointer :: "env \<Rightarrow> hist \<Rightarrow> hist" where
  "ETH_ResetWakeUpFrameFilterRegisterPointer env = or_reg env (ETH MACPMTCSR) 0x80000000"

definition ETH_SetWakeUpFrameFilterRegister :: "(nat \<Rightarrow> u32) \<Rightarrow> hist \<Rightarrow> hist" where
  "ETH_SetWakeUpFrameFilterRegister Buffer h = fold (\<lambda>i. wr (ETH MACRWUFFR) (Buffer i)) [0..<8] h"

definition ETH_GlobalUnicastWakeUpCmd :: "env \<Rightarrow> FunctionalState \<Rightarrow> hist \<Rightarrow> hist" where
  "ETH_GlobalUnicastWakeUpCmd env = eth_switch env MACPMTCSR 0x00000200"

definition ETH_GetPMTFlagStatus :: "env \<Rightarrow> u32 \<Rightarrow> hist \<Rightarrow> FlagStatus \<times> hist" where
  "ETH_GetPMTFlagStatus env ETH_PMT_FLAG = eth_flag env MACPMTCSR ETH_PMT_FLAG"

definition ETH_WakeUpFrameDetectionCmd :: "env \<Rightarrow> FunctionalState \<Rightarrow> hist \<Rightarrow> hist" where
  "ETH_WakeUpFrameDetectionCmd env = eth_switch env MACPMTCSR 0x00000004"

definition ETH_MagicPacketDetectionCmd :: "env \<Rightarrow> FunctionalState \<Rightarrow> hist \<Rightarrow> hist" where
  "ETH_MagicPacketDetectionCmd env = eth_switch env MACPMTCSR 0x00000002"

definition ETH_PowerDownCmd :: "env \<Rightarrow> FunctionalState \<Rightarrow> hist \<Rightarrow> hist" where
  "ETH_PowerDownCmd env = eth_switch env MACPMTCSR 0x00000001"

abbreviation (input) MMCCR :: eth_reg where "MMCCR \<equiv> MMC 0x100"
abbreviation (input) MMCRIR :: eth_reg where "MMCRIR \<equiv> MMC 0x104"
abbreviation (input) MMCTIR :: eth_reg where "MMCTIR \<equiv> MMC 0x108"
abbreviation (input) MMCRIMR :: eth_reg where "MMCRIMR \<equiv> MMC 0x10C"
abbreviation (input) MMCTIMR :: eth_reg where "MMCTIMR \<equiv> MMC 0x110"

definition ETH_MMCCounterFreezeCmd :: "env \<Rightarrow> FunctionalState \<Rightarrow> hist \<Rightarrow> hist" where
  "ETH_MMCCounterFreezeCmd env = eth_switch env MMCCR 0x00000008"

definition ETH_MMCResetOnReadCmd :: "env \<Rightarrow> FunctionalState \<Rightarrow> hist \<Rightarrow> hist" where
  "ETH_MMCResetOnReadCmd env = eth_switch env MMCCR 0x00000004"

definition ETH_MMCCounterRolloverCmd :: "env \<Rightarrow> FunctionalState \<Rightarrow> hist \<Rightarrow> hist" where
  "ETH_MMCCounterRolloverCmd env NewState h =
     (if NewState \<noteq> DISABLE then and_reg env (ETH MMCCR) (NOT 0x00000002) h else or_reg env (ETH MMCCR) 0x00000002 h)"

definition ETH_MMCCountersReset :: "env \<Rightarrow> hist \<Rightarrow> hist" where
  "ETH_MMCCountersReset env = or_reg env (ETH MMCCR) 0x00000001"

definition ETH_MMCITConfig :: "env \<Rightarrow> u32 \<Rightarrow> FunctionalState \<Rightarrow> hist \<Rightarrow> hist" where
  "ETH_MMCITConfig env ETH_MMC_IT NewState h =
     (if ETH_MMC_IT AND 0x10000000 \<noteq> 0 then
        let ETH_MMC_IT = ETH_MMC_IT AND 0xEFFFFFFF in
        if NewState \<noteq> DISABLE then and_reg env (ETH MMCRIMR) (NOT ETH_MMC_IT) h
        else or_reg env (ETH MMCRIMR) ETH_MMC_IT h
      else if NewState \<noteq> DISABLE then and_reg env (ETH MMCTIMR) (NOT ETH_MMC_IT) h
      else or_reg env (ETH MMCTIMR) ETH_MMC_IT h)"

definition ETH_GetMMCITStatus :: "env \<Rightarrow> u32 \<Rightarrow> hist \<Rightarrow> FlagStatus \<times> hist" where
  "ETH_GetMMCITStatus env ETH_MMC_IT h =
     (let (v, h) = rd env (ETH (if ETH_MMC_IT AND 0x10000000 \<noteq> 0 then MMCRIR else MMCTIR)) h in
      if v AND ETH_MMC_IT \<noteq> 0 then
        let (m, h) = rd env (ETH MMCRIMR) h in (if m AND ETH_MMC_IT \<noteq> 0 then SET else RESET, h)
      else (RESET, h))"

definition ETH_GetMMCRegister :: "env \<Rightarrow> u32 \<Rightarrow> hist \<Rightarrow> u32 \<times> hist" where
  "ETH_GetMMCRegister env ETH_MMCReg = rd env (ETH (MMC ETH_MMCReg))"

end
