(* ===== verification/EthRing.thy ===== *)
theory EthRing
  imports Eth Pbuf
begin

text \<open>
  The descriptor side of the Ethernet driver: the chain-mode and descriptor functions of
  \<^verbatim>\<open>stm32_eth.c\<close>, the network interface \<^verbatim>\<open>ethernetif.c\<close> and the receive interrupt handler of
  \<^verbatim>\<open>stm32f10x_it.c\<close>. The two descriptor tables are in memory that the DMA engine writes too; a
  descriptor is named by its table and index, and the \<^verbatim>\<open>Buffer2NextDescAddr\<close> word, which in chain mode
  is the address of the next descriptor, by that name. The frame buffers are two regions of the packet
  memory. What the layers above do with a packet is an argument \<open>inp\<close>, the \<^verbatim>\<open>netif->input\<close>
  pointer, and their state the field \<open>up\<close>. The address the linker gives a table is the argument
  \<open>adr\<close>.

  The DMA engine is not code. For the results about whole runs it is the step relation of \<^verbatim>\<open>EthRx\<close>,
  after the reference manual: it fills the descriptor it is at if it owns it, hands it over by clearing
  the OWN bit and goes to the next; a frame that arrives when it does not own one is lost.
\<close>

datatype dref = DMARxDscrTab nat | DMATxDscrTab nat

fun dplus :: "dref \<Rightarrow> nat \<Rightarrow> dref" where
  "dplus (DMARxDscrTab k) i = DMARxDscrTab (k + i)"
| "dplus (DMATxDscrTab k) i = DMATxDscrTab (k + i)"

record ETH_DMADESCTypeDef =
  Status :: u32
  ControlBufferSize :: u32
  Buffer1Addr :: ptr
  Buffer2NextDescAddr :: dref

record 'u nic =
  descs :: "dref \<Rightarrow> ETH_DMADESCTypeDef"
  DMATxDescToSet :: dref
  DMARxDescToGet :: dref
  pm :: pmem
  io :: hist
  up :: 'u

abbreviation (input) ETH_MAX_PACKET_SIZE :: nat where "ETH_MAX_PACKET_SIZE \<equiv> 1520"
abbreviation (input) ETH_RXBUFNB :: nat where "ETH_RXBUFNB \<equiv> 4"
abbreviation (input) ETH_TXBUFNB :: nat where "ETH_TXBUFNB \<equiv> 2"
abbreviation (input) Rx_Buff :: ptr where "Rx_Buff \<equiv> (Ext 10, 0)"
abbreviation (input) Tx_Buff :: ptr where "Tx_Buff \<equiv> (Ext 11, 0)"
abbreviation (input) ETH_DMATxDesc_OWN :: u32 where "ETH_DMATxDesc_OWN \<equiv> 0x80000000"
abbreviation (input) ETH_DMATxDesc_IC :: u32 where "ETH_DMATxDesc_IC \<equiv> 0x40000000"
abbreviation (input) ETH_DMATxDesc_LS :: u32 where "ETH_DMATxDesc_LS \<equiv> 0x20000000"
abbreviation (input) ETH_DMATxDesc_FS :: u32 where "ETH_DMATxDesc_FS \<equiv> 0x10000000"
abbreviation (input) ETH_DMATxDesc_DC :: u32 where "ETH_DMATxDesc_DC \<equiv> 0x08000000"
abbreviation (input) ETH_DMATxDesc_DP :: u32 where "ETH_DMATxDesc_DP \<equiv> 0x04000000"
abbreviation (input) ETH_DMATxDesc_TTSE :: u32 where "ETH_DMATxDesc_TTSE \<equiv> 0x02000000"
abbreviation (input) ETH_DMATxDesc_TER :: u32 where "ETH_DMATxDesc_TER \<equiv> 0x00200000"
abbreviation (input) ETH_DMATxDesc_TCH :: u32 where "ETH_DMATxDesc_TCH \<equiv> 0x00100000"
abbreviation (input) ETH_DMATxDesc_CC :: u32 where "ETH_DMATxDesc_CC \<equiv> 0x00000078"
abbreviation (input) ETH_DMATxDesc_TBS1 :: u32 where "ETH_DMATxDesc_TBS1 \<equiv> 0x00001FFF"
abbreviation (input) ETH_DMARxDesc_OWN :: u32 where "ETH_DMARxDesc_OWN \<equiv> 0x80000000"
abbreviation (input) ETH_DMARxDesc_FL :: u32 where "ETH_DMARxDesc_FL \<equiv> 0x3FFF0000"
abbreviation (input) ETH_DMARxDesc_ES :: u32 where "ETH_DMARxDesc_ES \<equiv> 0x00008000"
abbreviation (input) ETH_DMARxDesc_FS :: u32 where "ETH_DMARxDesc_FS \<equiv> 0x00000200"
abbreviation (input) ETH_DMARxDesc_LS :: u32 where "ETH_DMARxDesc_LS \<equiv> 0x00000100"
abbreviation (input) ETH_DMARxDesc_DIC :: u32 where "ETH_DMARxDesc_DIC \<equiv> 0x80000000"
abbreviation (input) ETH_DMARxDesc_RBS2 :: u32 where "ETH_DMARxDesc_RBS2 \<equiv> 0x1FFF0000"
abbreviation (input) ETH_DMARxDesc_RER :: u32 where "ETH_DMARxDesc_RER \<equiv> 0x00008000"
abbreviation (input) ETH_DMARxDesc_RCH :: u32 where "ETH_DMARxDesc_RCH \<equiv> 0x00004000"
abbreviation (input) ETH_DMARxDesc_RBS1 :: u32 where "ETH_DMARxDesc_RBS1 \<equiv> 0x00001FFF"

definition upd_desc :: "dref \<Rightarrow> (ETH_DMADESCTypeDef \<Rightarrow> ETH_DMADESCTypeDef) \<Rightarrow> 'u nic \<Rightarrow> 'u nic" where
  "upd_desc r f s = s\<lparr>descs := (descs s)(r := f (descs s r))\<rparr>"

definition on_io :: "(hist \<Rightarrow> hist) \<Rightarrow> 'u nic \<Rightarrow> 'u nic" where
  "on_io f s = s\<lparr>io := f (io s)\<rparr>"

section \<open>Descriptors\<close>

definition ETH_DMATxDescChainInit :: "(dref \<Rightarrow> u32) \<Rightarrow> dref \<Rightarrow> ptr \<Rightarrow> nat \<Rightarrow> 'u nic \<Rightarrow> 'u nic" where
  "ETH_DMATxDescChainInit adr DMATxDescTab TxBuff TxBuffCount s =
     (let s = s\<lparr>DMATxDescToSet := DMATxDescTab\<rparr>;
          s = fold (\<lambda>i. upd_desc (dplus DMATxDescTab i) (\<lambda>d.
                d\<lparr>Status := ETH_DMATxDesc_TCH,
                  Buffer1Addr := (fst TxBuff, snd TxBuff + int (i * ETH_MAX_PACKET_SIZE)),
                  Buffer2NextDescAddr := (if i < TxBuffCount - 1 then dplus DMATxDescTab (i + 1) else DMATxDescTab)\<rparr>))
              [0..<TxBuffCount] s
      in on_io (wr (ETH DMATDLAR) (adr DMATxDescTab)) s)"

definition ETH_DMARxDescChainInit :: "(dref \<Rightarrow> u32) \<Rightarrow> dref \<Rightarrow> ptr \<Rightarrow> nat \<Rightarrow> 'u nic \<Rightarrow> 'u nic" where
  "ETH_DMARxDescChainInit adr DMARxDescTab RxBuff RxBuffCount s =
     (let s = s\<lparr>DMARxDescToGet := DMARxDescTab\<rparr>;
          s = fold (\<lambda>i. upd_desc (dplus DMARxDescTab i) (\<lambda>d.
                d\<lparr>Status := ETH_DMARxDesc_OWN,
                  ControlBufferSize := ETH_DMARxDesc_RCH OR of_nat ETH_MAX_PACKET_SIZE,
                  Buffer1Addr := (fst RxBuff, snd RxBuff + int (i * ETH_MAX_PACKET_SIZE)),
                  Buffer2NextDescAddr := (if i < RxBuffCount - 1 then dplus DMARxDescTab (i + 1) else DMARxDescTab)\<rparr>))
              [0..<RxBuffCount] s
      in on_io (wr (ETH DMARDLAR) (adr DMARxDescTab)) s)"

definition ETH_GetDMATxDescFlagStatus :: "dref \<Rightarrow> u32 \<Rightarrow> 'u nic \<Rightarrow> FlagStatus" where
  "ETH_GetDMATxDescFlagStatus r ETH_DMATxDescFlag s =
     (if Status (descs s r) AND ETH_DMATxDescFlag \<noteq> 0 then SET else RESET)"

definition ETH_GetDMATxDescCollisionCount :: "dref \<Rightarrow> 'u nic \<Rightarrow> u32" where
  "ETH_GetDMATxDescCollisionCount r s = drop_bit 3 (Status (descs s r) AND ETH_DMATxDesc_CC)"

definition status_bits :: "u32 \<Rightarrow> bool \<Rightarrow> dref \<Rightarrow> 'u nic \<Rightarrow> 'u nic" where
  "status_bits m on r = upd_desc r (\<lambda>d. d\<lparr>Status := (if on then Status d OR m else Status d AND NOT m)\<rparr>)"

definition control_bits :: "u32 \<Rightarrow> bool \<Rightarrow> dref \<Rightarrow> 'u nic \<Rightarrow> 'u nic" where
  "control_bits m on r =
     upd_desc r (\<lambda>d. d\<lparr>ControlBufferSize := (if on then ControlBufferSize d OR m else ControlBufferSize d AND NOT m)\<rparr>)"

definition ETH_SetDMATxDescOwnBit :: "dref \<Rightarrow> 'u nic \<Rightarrow> 'u nic" where
  "ETH_SetDMATxDescOwnBit = status_bits ETH_DMATxDesc_OWN True"

definition ETH_DMATxDescTransmitITConfig :: "dref \<Rightarrow> FunctionalState \<Rightarrow> 'u nic \<Rightarrow> 'u nic" where
  "ETH_DMATxDescTransmitITConfig r NewState = status_bits ETH_DMATxDesc_IC (NewState \<noteq> DISABLE) r"

definition ETH_DMATxDescFrameSegmentConfig :: "dref \<Rightarrow> u32 \<Rightarrow> 'u nic \<Rightarrow> 'u nic" where
  "ETH_DMATxDescFrameSegmentConfig r DMATxDesc_FrameSegment = status_bits DMATxDesc_FrameSegment True r"

definition ETH_DMATxDescChecksumInsertionConfig :: "dref \<Rightarrow> u32 \<Rightarrow> 'u nic \<Rightarrow> 'u nic" where
  "ETH_DMATxDescChecksumInsertionConfig r DMATxDesc_Checksum = status_bits DMATxDesc_Checksum True r"

definition ETH_DMATxDescCRCCmd :: "dref \<Rightarrow> FunctionalState \<Rightarrow> 'u nic \<Rightarrow> 'u nic" where
  "ETH_DMATxDescCRCCmd r NewState = status_bits ETH_DMATxDesc_DC (NewState = DISABLE) r"

definition ETH_DMATxDescEndOfRingCmd :: "dref \<Rightarrow> FunctionalState \<Rightarrow> 'u nic \<Rightarrow> 'u nic" where
  "ETH_DMATxDescEndOfRingCmd r NewState = status_bits ETH_DMATxDesc_TER (NewState \<noteq> DISABLE) r"

definition ETH_DMATxDescSecondAddressChainedCmd :: "dref \<Rightarrow> FunctionalState \<Rightarrow> 'u nic \<Rightarrow> 'u nic" where
  "ETH_DMATxDescSecondAddressChainedCmd r NewState = status_bits ETH_DMATxDesc_TCH (NewState \<noteq> DISABLE) r"

definition ETH_DMATxDescShortFramePaddingCmd :: "dref \<Rightarrow> FunctionalState \<Rightarrow> 'u nic \<Rightarrow> 'u nic" where
  "ETH_DMATxDescShortFramePaddingCmd r NewState = status_bits ETH_DMATxDesc_DP (NewState = DISABLE) r"

definition ETH_DMATxDescTimeStampCmd :: "dref \<Rightarrow> FunctionalState \<Rightarrow> 'u nic \<Rightarrow> 'u nic" where
  "ETH_DMATxDescTimeStampCmd r NewState = status_bits ETH_DMATxDesc_TTSE (NewState \<noteq> DISABLE) r"

definition ETH_DMATxDescBufferSizeConfig :: "dref \<Rightarrow> u32 \<Rightarrow> u32 \<Rightarrow> 'u nic \<Rightarrow> 'u nic" where
  "ETH_DMATxDescBufferSizeConfig r BufferSize1 BufferSize2 =
     control_bits (BufferSize1 OR push_bit 16 BufferSize2) True r"

definition ETH_GetDMARxDescFlagStatus :: "dref \<Rightarrow> u32 \<Rightarrow> 'u nic \<Rightarrow> FlagStatus" where
  "ETH_GetDMARxDescFlagStatus r ETH_DMARxDescFlag s =
     (if Status (descs s r) AND ETH_DMARxDescFlag \<noteq> 0 then SET else RESET)"

definition ETH_SetDMARxDescOwnBit :: "dref \<Rightarrow> 'u nic \<Rightarrow> 'u nic" where
  "ETH_SetDMARxDescOwnBit = status_bits ETH_DMARxDesc_OWN True"

definition ETH_GetDMARxDescFrameLength :: "dref \<Rightarrow> 'u nic \<Rightarrow> u32" where
  "ETH_GetDMARxDescFrameLength r s = drop_bit 16 (Status (descs s r) AND ETH_DMARxDesc_FL)"

definition ETH_DMARxDescReceiveITConfig :: "dref \<Rightarrow> FunctionalState \<Rightarrow> 'u nic \<Rightarrow> 'u nic" where
  "ETH_DMARxDescReceiveITConfig r NewState = control_bits ETH_DMARxDesc_DIC (NewState = DISABLE) r"

definition ETH_DMARxDescEndOfRingCmd :: "dref \<Rightarrow> FunctionalState \<Rightarrow> 'u nic \<Rightarrow> 'u nic" where
  "ETH_DMARxDescEndOfRingCmd r NewState = control_bits ETH_DMARxDesc_RER (NewState \<noteq> DISABLE) r"

definition ETH_DMARxDescSecondAddressChainedCmd :: "dref \<Rightarrow> FunctionalState \<Rightarrow> 'u nic \<Rightarrow> 'u nic" where
  "ETH_DMARxDescSecondAddressChainedCmd r NewState = control_bits ETH_DMARxDesc_RCH (NewState \<noteq> DISABLE) r"

definition ETH_GetDMARxDescBufferSize :: "dref \<Rightarrow> u32 \<Rightarrow> 'u nic \<Rightarrow> u32" where
  "ETH_GetDMARxDescBufferSize r DMARxDesc_Buffer s =
     (if DMARxDesc_Buffer \<noteq> 0 then drop_bit 16 (ControlBufferSize (descs s r) AND ETH_DMARxDesc_RBS2)
      else ControlBufferSize (descs s r) AND ETH_DMARxDesc_RBS1)"

definition ETH_GetRxPktSize :: "'u nic \<Rightarrow> u32" where
  "ETH_GetRxPktSize s =
     (let st = Status (descs s (DMARxDescToGet s)) in
      if st AND ETH_DMARxDesc_OWN = 0 \<and> st AND ETH_DMARxDesc_ES = 0 \<and>
         st AND ETH_DMARxDesc_LS \<noteq> 0 \<and> st AND ETH_DMARxDesc_FS \<noteq> 0
      then ETH_GetDMARxDescFrameLength (DMARxDescToGet s) s else 0)"

section \<open>The network interface\<close>

text \<open>When the DMA engine ran out of descriptors: clear the flag, resume it.\<close>

definition resume_rx :: "env \<Rightarrow> 'u nic \<Rightarrow> 'u nic" where
  "resume_rx env s =
     (let (v, h) = rd env (ETH DMASR) (io s) in
      s\<lparr>io := if v AND ETH_DMASR_RBUS \<noteq> 0 then wr (ETH DMARPDR) 0 (wr (ETH DMASR) ETH_DMASR_RBUS h) else h\<rparr>)"

record FrameTypeDef =
  flength :: u32
  fbuffer :: ptr
  descriptor :: "dref option"

definition ETH_RxPkt_ChainMode :: "env \<Rightarrow> 'u nic \<Rightarrow> FrameTypeDef \<times> 'u nic" where
  "ETH_RxPkt_ChainMode env s =
     (let r = DMARxDescToGet s; d = descs s r;
          frame = \<lparr>flength = 0, fbuffer = null_ptr, descriptor = None\<rparr>
      in if Status d AND ETH_DMARxDesc_OWN \<noteq> 0 then (frame\<lparr>flength := ETH_ERROR\<rparr>, resume_rx env s)
         else
           let (framelength, frame) =
                 (if Status d AND ETH_DMARxDesc_ES = 0 \<and> Status d AND ETH_DMARxDesc_LS \<noteq> 0 \<and>
                     Status d AND ETH_DMARxDesc_FS \<noteq> 0
                  then (drop_bit 16 (Status d AND ETH_DMARxDesc_FL) - 4, frame\<lparr>fbuffer := Buffer1Addr d\<rparr>)
                  else (ETH_ERROR, frame));
               frame = frame\<lparr>flength := framelength, descriptor := Some r\<rparr>
           in (frame, s\<lparr>DMARxDescToGet := Buffer2NextDescAddr d\<rparr>))"

definition ETH_TxPkt_ChainMode :: "env \<Rightarrow> u16 \<Rightarrow> 'u nic \<Rightarrow> u32 \<times> 'u nic" where
  "ETH_TxPkt_ChainMode env FrameLength s =
     (let r = DMATxDescToSet s in
      if Status (descs s r) AND ETH_DMATxDesc_OWN \<noteq> 0 then (ETH_ERROR, s)
      else
        let s = upd_desc r (\<lambda>d. d\<lparr>ControlBufferSize := ucast FrameLength AND ETH_DMATxDesc_TBS1\<rparr>) s;
            s = upd_desc r (\<lambda>d. d\<lparr>Status := Status d OR (ETH_DMATxDesc_LS OR ETH_DMATxDesc_FS)\<rparr>) s;
            s = upd_desc r (\<lambda>d. d\<lparr>Status := Status d OR ETH_DMATxDesc_OWN\<rparr>) s;
            (v, h) = rd env (ETH DMASR) (io s);
            s = s\<lparr>io := if v AND ETH_DMASR_TBUS \<noteq> 0 then wr (ETH DMATPDR) 0 (wr (ETH DMASR) ETH_DMASR_TBUS h) else h\<rparr>
        in (ETH_SUCCESS, s\<lparr>DMATxDescToSet := Buffer2NextDescAddr (descs s r)\<rparr>))"

definition ETH_GetCurrentTxBuffer :: "'u nic \<Rightarrow> ptr" where
  "ETH_GetCurrentTxBuffer s = Buffer1Addr (descs s (DMATxDescToSet s))"

text \<open>The two loops along a chain; \<open>l\<close> is the offset in the frame buffer.\<close>

partial_function (option) copy_in :: "ptr \<Rightarrow> addr option \<Rightarrow> int \<Rightarrow> pmem \<Rightarrow> pmem option" where
  "copy_in buffer q l m =
     (case q of None \<Rightarrow> Some m
      | Some a \<Rightarrow> Option.bind (pbs m a) (\<lambda>b.
          copy_in buffer (p_next b) (l + uint (plen b)) (MEMCPY (payload b) (fst buffer, snd buffer + l) (plen b) m)))"

partial_function (option) copy_out :: "ptr \<Rightarrow> addr option \<Rightarrow> int \<Rightarrow> pmem \<Rightarrow> (int \<times> pmem) option" where
  "copy_out buffer q l m =
     (case q of None \<Rightarrow> Some (l, m)
      | Some a \<Rightarrow> Option.bind (pbs m a) (\<lambda>b.
          copy_out buffer (p_next b) (l + uint (plen b)) (MEMCPY (fst buffer, snd buffer + l) (payload b) (plen b) m)))"

definition low_level_output :: "env \<Rightarrow> addr option \<Rightarrow> 'u nic \<Rightarrow> (err_t \<times> 'u nic) option" where
  "low_level_output env p s =
     Option.bind (copy_out (ETH_GetCurrentTxBuffer s) p 0 (pm s)) (\<lambda>(l, m).
     let (_, s) = ETH_TxPkt_ChainMode env (of_int l) (s\<lparr>pm := m\<rparr>)
     in Some (ERR_OK, s))"

definition low_level_input :: "env \<Rightarrow> 'u nic \<Rightarrow> (addr option \<times> 'u nic) option" where
  "low_level_input env s =
     (let (frame, s) = ETH_RxPkt_ChainMode env s in
      if flength frame = ETH_ERROR then Some (None, s)
      else
        let len = ucast (flength frame) :: u16 in
        Option.bind (pbuf_alloc PBUF_RAW len PBUF_POOL (pm s)) (\<lambda>(p, m).
        Option.bind (copy_in (fbuffer frame) p 0 m) (\<lambda>m.
        case descriptor frame of None \<Rightarrow> None
        | Some r \<Rightarrow> Some (p, resume_rx env (upd_desc r (\<lambda>d. d\<lparr>Status := ETH_DMARxDesc_OWN\<rparr>) (s\<lparr>pm := m\<rparr>))))))"

partial_function (option) input_loop ::
  "env \<Rightarrow> (addr \<Rightarrow> 'u nic \<Rightarrow> (err_t \<times> 'u nic) option) \<Rightarrow> addr option \<Rightarrow> 'u nic \<Rightarrow> 'u nic option" where
  "input_loop env inp p s =
     (case p of None \<Rightarrow> Some s
      | Some a \<Rightarrow>
          Option.bind (inp a s) (\<lambda>(err, s).
          Option.bind (if err \<noteq> ERR_OK
                       then Option.bind (pbuf_free (Some a) (pm s)) (\<lambda>(_, m). Some (s\<lparr>pm := m\<rparr>))
                       else Some s) (\<lambda>s.
          Option.bind (low_level_input env s) (\<lambda>(p, s). input_loop env inp p s))))"

definition ethernetif_input ::
  "env \<Rightarrow> (addr \<Rightarrow> 'u nic \<Rightarrow> (err_t \<times> 'u nic) option) \<Rightarrow> 'u nic \<Rightarrow> 'u nic option" where
  "ethernetif_input env inp s = Option.bind (low_level_input env s) (\<lambda>(p, s). input_loop env inp p s)"

partial_function (option) rx_irq_loop ::
  "env \<Rightarrow> (addr \<Rightarrow> 'u nic \<Rightarrow> (err_t \<times> 'u nic) option) \<Rightarrow> 'u nic \<Rightarrow> 'u nic option" where
  "rx_irq_loop env inp s =
     (if ETH_GetRxPktSize s \<noteq> 0 then Option.bind (ethernetif_input env inp s) (rx_irq_loop env inp) else Some s)"

definition ETH_IRQHandler ::
  "env \<Rightarrow> (addr \<Rightarrow> 'u nic \<Rightarrow> (err_t \<times> 'u nic) option) \<Rightarrow> 'u nic \<Rightarrow> 'u nic option" where
  "ETH_IRQHandler env inp s =
     Option.bind (rx_irq_loop env inp s) (\<lambda>s.
     Some (on_io (ETH_DMAClearITPendingBit ETH_DMA_IT_NIS) (on_io (ETH_DMAClearITPendingBit ETH_DMA_IT_R) s)))"

section \<open>Bringing the interface up\<close>

datatype output_fn = etharp_output_fn | low_level_output_fn

text \<open>
  \<^verbatim>\<open>struct netif\<close>; \<open>netif_state\<close> is the heap block of the driver's private data, \<open>link_callback\<close> names a
  function. The addresses are the values of the words in memory, in network byte order.
\<close>

datatype input_fn = ethernet_input_fn

record netif =
  hwaddr_len :: u8
  hwaddr :: "u8 list"
  mtu :: u16
  netif_flags :: u8
  netif_name :: string
  netif_output :: "output_fn option"
  netif_linkoutput :: "output_fn option"
  netif_state :: "nat option"
  nif_addr :: u32
  nif_mask :: u32
  nif_gw :: u32
  netif_input :: "input_fn option"
  netif_num :: u8
  link_callback :: "nat option"

definition Set_MAC_Address :: "u8 list \<Rightarrow> 'u nic \<Rightarrow> u8 list \<times> 'u nic" where
  "Set_MAC_Address macadd s =
     ([macadd ! 0, macadd ! 1, macadd ! 2, macadd ! 3, macadd ! 4, macadd ! 5],
      on_io (ETH_MACAddressConfig ETH_MAC_Address0 macadd) s)"

definition low_level_init :: "env \<Rightarrow> (dref \<Rightarrow> u32) \<Rightarrow> u8 list \<Rightarrow> netif \<Rightarrow> 'u nic \<Rightarrow> netif \<times> 'u nic" where
  "low_level_init env adr mac n s =
     (let n = n\<lparr>hwaddr_len := 6\<rparr>;
          n = n\<lparr>hwaddr := [mac ! 0, mac ! 1, mac ! 2, mac ! 3, mac ! 4, mac ! 5]\<rparr>;
          s = on_io (ETH_MACAddressConfig ETH_MAC_Address0 (hwaddr n)) s;
          n = n\<lparr>mtu := 1500\<rparr>;
          n = n\<lparr>netif_flags := 0x02 OR 0x20 OR 0x10\<rparr>;
          s = ETH_DMATxDescChainInit adr (DMATxDscrTab 0) Tx_Buff ETH_TXBUFNB s;
          s = ETH_DMARxDescChainInit adr (DMARxDscrTab 0) Rx_Buff ETH_RXBUFNB s;
          s = fold (\<lambda>i. ETH_DMARxDescReceiveITConfig (DMARxDscrTab i) ENABLE) [0..<ETH_RXBUFNB] s;
          s = on_io (ETH_Start env) s
      in (n, s))"

definition ethernetif_init ::
  "env \<Rightarrow> (dref \<Rightarrow> u32) \<Rightarrow> u8 list \<Rightarrow> netif \<Rightarrow> 'u nic \<Rightarrow> (err_t \<times> netif \<times> 'u nic) option" where
  "ethernetif_init env adr mac n s =
     Option.bind (mem_malloc 8 (heap (pm s))) (\<lambda>(r, h).
     let s = s\<lparr>pm := (pm s)\<lparr>heap := h\<rparr>\<rparr> in
     case r of None \<Rightarrow> Some (ERR_MEM, n, s)
     | Some ethernetif \<Rightarrow>
         let n = n\<lparr>netif_state := Some ethernetif, netif_name := ''st''\<rparr>;
             n = n\<lparr>netif_output := Some etharp_output_fn, netif_linkoutput := Some low_level_output_fn\<rparr>;
             (n, s) = low_level_init env adr mac n s
         in Some (ERR_OK, n, s))"

section \<open>The driver's own transmit and receive functions\<close>

text \<open>
  \<^verbatim>\<open>stm32_eth.c\<close> has its own functions to send, receive and drop a frame, which also know descriptors
  laid out as a ring. There the next descriptor is computed from addresses; \<open>at\<close> is the descriptor at an
  address. The interface above does not use them.
\<close>

abbreviation (input) ETH_DMABMR_DSL :: u32 where "ETH_DMABMR_DSL \<equiv> 0x0000007C"

definition next_in_ring :: "env \<Rightarrow> (dref \<Rightarrow> u32) \<Rightarrow> (u32 \<Rightarrow> dref) \<Rightarrow> eth_reg \<Rightarrow> bool \<Rightarrow> dref \<Rightarrow> 'u nic \<Rightarrow> dref \<times> 'u nic" where
  "next_in_ring env adr at base end_of_ring r s =
     (if end_of_ring then let (v, h) = rd env (ETH base) (io s) in (at v, s\<lparr>io := h\<rparr>)
      else let (v, h) = rd env (ETH DMABMR) (io s)
           in (at (adr r + 0x10 + drop_bit 2 (v AND ETH_DMABMR_DSL)), s\<lparr>io := h\<rparr>))"

definition next_tx :: "env \<Rightarrow> (dref \<Rightarrow> u32) \<Rightarrow> (u32 \<Rightarrow> dref) \<Rightarrow> 'u nic \<Rightarrow> 'u nic" where
  "next_tx env adr at s =
     (let r = DMATxDescToSet s; d = descs s r in
      if Status d AND ETH_DMATxDesc_TCH \<noteq> 0 then s\<lparr>DMATxDescToSet := Buffer2NextDescAddr d\<rparr>
      else let (q, s) = next_in_ring env adr at DMATDLAR (Status d AND ETH_DMATxDesc_TER \<noteq> 0) r s
           in s\<lparr>DMATxDescToSet := q\<rparr>)"

definition next_rx :: "env \<Rightarrow> (dref \<Rightarrow> u32) \<Rightarrow> (u32 \<Rightarrow> dref) \<Rightarrow> 'u nic \<Rightarrow> 'u nic" where
  "next_rx env adr at s =
     (let r = DMARxDescToGet s; d = descs s r in
      if ControlBufferSize d AND ETH_DMARxDesc_RCH \<noteq> 0 then s\<lparr>DMARxDescToGet := Buffer2NextDescAddr d\<rparr>
      else let (q, s) = next_in_ring env adr at DMARDLAR (ControlBufferSize d AND ETH_DMARxDesc_RER \<noteq> 0) r s
           in s\<lparr>DMARxDescToGet := q\<rparr>)"

definition copy_bytes :: "ptr \<Rightarrow> ptr \<Rightarrow> nat \<Rightarrow> pmem \<Rightarrow> pmem" where
  "copy_bytes dst src n m =
     fold (\<lambda>offset m. m\<lparr>dat := write_at (fst dst, snd dst + int offset)
                                 [dat m (fst src) (snd src + int offset)] (dat m)\<rparr>) [0..<n] m"

definition ETH_HandleTxPkt ::
  "env \<Rightarrow> (dref \<Rightarrow> u32) \<Rightarrow> (u32 \<Rightarrow> dref) \<Rightarrow> ptr \<Rightarrow> u16 \<Rightarrow> 'u nic \<Rightarrow> u32 \<times> 'u nic" where
  "ETH_HandleTxPkt env adr at ppkt FrameLength s =
     (let r = DMATxDescToSet s in
      if Status (descs s r) AND ETH_DMATxDesc_OWN \<noteq> 0 then (ETH_ERROR, s)
      else
        let s = s\<lparr>pm := copy_bytes (Buffer1Addr (descs s r)) ppkt (unat FrameLength) (pm s)\<rparr>;
            s = upd_desc r (\<lambda>d. d\<lparr>ControlBufferSize := ucast FrameLength AND ETH_DMATxDesc_TBS1\<rparr>) s;
            s = upd_desc r (\<lambda>d. d\<lparr>Status := Status d OR (ETH_DMATxDesc_LS OR ETH_DMATxDesc_FS)\<rparr>) s;
            s = upd_desc r (\<lambda>d. d\<lparr>Status := Status d OR ETH_DMATxDesc_OWN\<rparr>) s;
            (v, h) = rd env (ETH DMASR) (io s);
            s = s\<lparr>io := if v AND ETH_DMASR_TBUS \<noteq> 0 then wr (ETH DMATPDR) 0 (wr (ETH DMASR) ETH_DMASR_TBUS h) else h\<rparr>
        in (ETH_SUCCESS, next_tx env adr at s))"

definition ETH_HandleRxPkt ::
  "env \<Rightarrow> (dref \<Rightarrow> u32) \<Rightarrow> (u32 \<Rightarrow> dref) \<Rightarrow> ptr \<Rightarrow> 'u nic \<Rightarrow> u32 \<times> 'u nic" where
  "ETH_HandleRxPkt env adr at ppkt s =
     (let r = DMARxDescToGet s; d = descs s r in
      if Status d AND ETH_DMARxDesc_OWN \<noteq> 0 then (ETH_ERROR, s)
      else
        let (framelength, s) =
              (if Status d AND ETH_DMARxDesc_ES = 0 \<and> Status d AND ETH_DMARxDesc_LS \<noteq> 0 \<and>
                  Status d AND ETH_DMARxDesc_FS \<noteq> 0
               then let framelength = drop_bit 16 (Status d AND ETH_DMARxDesc_FL) - 4
                    in (framelength, s\<lparr>pm := copy_bytes ppkt (Buffer1Addr d) (unat framelength) (pm s)\<rparr>)
               else (ETH_ERROR, s));
            s = upd_desc r (\<lambda>d. d\<lparr>Status := ETH_DMARxDesc_OWN\<rparr>) s;
            s = resume_rx env s
        in (framelength, next_rx env adr at s))"

definition ETH_DropRxPkt :: "env \<Rightarrow> (dref \<Rightarrow> u32) \<Rightarrow> (u32 \<Rightarrow> dref) \<Rightarrow> 'u nic \<Rightarrow> 'u nic" where
  "ETH_DropRxPkt env adr at s =
     next_rx env adr at (upd_desc (DMARxDescToGet s) (\<lambda>d. d\<lparr>Status := ETH_DMARxDesc_OWN\<rparr>) s)"

section \<open>Copying frames in and out\<close>

lemma uint_as_int: "uint (w :: u16) = int (unat w)"
  by simp

lemma read_at_append: "read_at a (m + n) d = read_at a m d @ read_at (fst a, snd a + int m) n d"
proof (rule nth_equalityI)
  show "read_at a (m + n) d ! i = (read_at a m d @ read_at (fst a, snd a + int m) n d) ! i"
    if "i < length (read_at a (m + n) d)" for i
    using that by (auto simp: read_at_def nth_append)
qed simp

lemma copy_out_chain:
  "linked (pbs m) q as None \<Longrightarrow> apart_from (fst B) m as \<Longrightarrow>
   copy_out B q l m =
     Some (l + int (lens (pbs m) as), m\<lparr>dat := write_at (fst B, snd B + l) (contents m as) (dat m)\<rparr>)"
proof (induction as arbitrary: q l m)
  case Nil
  then show ?case by (subst copy_out.simps) simp
next
  case (Cons a as)
  obtain b where b: "q = Some a" "pbs m a = Some b" "linked (pbs m) (p_next b) as None" using Cons.prems(1) by auto
  define m' where "m' = MEMCPY (fst B, snd B + l) (payload b) (plen b) m"
  have m': "pbs m' = pbs m" "dat m' = write_at (fst B, snd B + l) (bytes_of m a) (dat m)"
      "m'\<lparr>dat := d\<rparr> = m\<lparr>dat := d\<rparr>" for d
    using b(2) by (simp_all add: m'_def MEMCPY_def bytes_of_def)
  have apart: "apart_from (fst B) m' as" using Cons.prems(2) m'(1) by (simp add: apart_from_def)
  have c: "contents m' as = contents m as"
    using contents_apart [of "(fst B, snd B + l)" m as] Cons.prems(2) b(2)
    by (simp add: m'_def MEMCPY_def apart_from_def)
  have "copy_out B q l m = copy_out B (p_next b) (l + uint (plen b)) m'"
    using b by (subst copy_out.simps) (simp add: m'_def)
  also have "\<dots> = Some (l + int (lens (pbs m) (a # as)),
      m\<lparr>dat := write_at (fst B, snd B + l) (contents m (a # as)) (dat m)\<rparr>)"
    using Cons.IH [of m' "p_next b" "l + uint (plen b)"] b apart m' c
    by (simp add: write_at_append blen_def uint_as_int add.assoc del: uint_nat int_nat_eq of_nat_unat)
  finally show ?case .
qed

lemma copy_in_chain:
  "linked (pbs m) q as None \<Longrightarrow> apart_from (fst B) m as \<Longrightarrow> regions_apart m as \<Longrightarrow>
   \<exists>d. copy_in B q l m = Some (m\<lparr>dat := d\<rparr>) \<and>
     contents (m\<lparr>dat := d\<rparr>) as = read_at (fst B, snd B + l) (lens (pbs m) as) (dat m) \<and>
     (\<forall>r. apart_from r m as \<longrightarrow> d r = dat m r)"
proof (induction as arbitrary: q l m)
  case Nil
  then show ?case by (subst copy_in.simps) (auto simp: read_at_def intro!: exI [of _ "dat m"])
next
  case (Cons a as)
  obtain b where b: "q = Some a" "pbs m a = Some b" "linked (pbs m) (p_next b) as None" using Cons.prems(1) by auto
  define src where "src = (fst B, snd B + l)"
  define xs where "xs = read_at src (unat (plen b)) (dat m)"
  define m' where "m' = m\<lparr>dat := write_at (payload b) xs (dat m)\<rparr>"
  have step: "copy_in B q l m = copy_in B (p_next b) (l + uint (plen b)) m'"
    using b by (subst copy_in.simps) (simp add: m'_def MEMCPY_def xs_def src_def)
  have ne: "fst B \<noteq> fst (payload b)" using Cons.prems(2) b(2) by (auto simp: apart_from_def)
  have "linked (pbs m') (p_next b) as None" "apart_from (fst B) m' as" "regions_apart m' as"
    using b(3) Cons.prems(2,3) by (simp_all add: m'_def apart_from_def regions_apart_def)
  from Cons.IH [OF this, of "l + uint (plen b)"] obtain d where
    d: "copy_in B (p_next b) (l + uint (plen b)) m' = Some (m'\<lparr>dat := d\<rparr>)"
      "contents (m'\<lparr>dat := d\<rparr>) as = read_at (fst B, snd B + (l + uint (plen b))) (lens (pbs m') as) (dat m')"
      "\<forall>r. apart_from r m' as \<longrightarrow> d r = dat m' r" by blast
  have out: "apart_from (fst (payload b)) m' as"
    using Cons.prems(3) b(2) by (force simp: m'_def apart_from_def regions_apart_def)
  have "bytes_of (m\<lparr>dat := d\<rparr>) a = read_at (payload b) (unat (plen b)) (write_at (payload b) xs (dat m))"
    using b(2) out d(3) read_at_cong [of d "payload b" "dat m'"] by (simp add: bytes_of_def m'_def)
  then have 1: "bytes_of (m\<lparr>dat := d\<rparr>) a = xs"
    using read_write_at [of "payload b" xs] by (simp add: xs_def)
  have 2: "read_at (fst B, snd B + (l + uint (plen b))) (lens (pbs m) as) (dat m') =
      read_at (fst src, snd src + int (unat (plen b))) (lens (pbs m) as) (dat m)"
    using ne by (simp add: m'_def src_def add.assoc)
  have 3: "read_at src (lens (pbs m) (a # as)) (dat m) =
      xs @ read_at (fst src, snd src + int (unat (plen b))) (lens (pbs m) as) (dat m)"
    using b(2) by (simp add: read_at_append xs_def blen_def)
  have "contents (m\<lparr>dat := d\<rparr>) (a # as) = read_at src (lens (pbs m) (a # as)) (dat m)"
    using d(2) 1 2 3 by (simp add: m'_def)
  moreover have "\<forall>r. apart_from r m (a # as) \<longrightarrow> d r = dat m r"
    using d(3) b(2) by (auto simp: m'_def apart_from_def)
  moreover have "copy_in B q l m = Some (m\<lparr>dat := d\<rparr>)" using step d(1) by (simp add: m'_def)
  ultimately show ?case unfolding src_def by blast
qed

end
