(* ===== verification/EthRx.thy ===== *)
theory EthRx
  imports EthRing
begin

text \<open>
  Reception as a whole: the descriptor ring between the DMA engine and the interrupt handler is a queue
  of at most four frames. The DMA engine is not code; it is the step relation here, after the reference
  manual: it fills the descriptor it is at if it owns it, hands it over by clearing the OWN bit and goes
  to the next one; a frame that arrives while it does not own one is lost. A frame longer than one buffer
  of 1520 bytes (a full-size frame with a VLAN tag has 1522) is spread over several descriptors, none of
  which has both segment bits. Frames with errors do not get here: \<^verbatim>\<open>Ethernet_Configuration\<close> selects
  store-and-forward reception and disables the forwarding of error frames.
\<close>

abbreviation (input) rxd :: "'u nic \<Rightarrow> nat \<Rightarrow> ETH_DMADESCTypeDef" where
  "rxd s i \<equiv> descs s (DMARxDscrTab (i mod 4))"

definition rx_ring :: "'u nic \<Rightarrow> bool" where
  "rx_ring s \<longleftrightarrow> (\<forall>i. Buffer1Addr (rxd s i) = (Ext 10, int ((i mod 4) * 1520)) \<and>
     Buffer2NextDescAddr (rxd s i) = DMARxDscrTab (Suc i mod 4))"

definition owned :: "ETH_DMADESCTypeDef \<Rightarrow> bool" where
  "owned d \<longleftrightarrow> Status d AND ETH_DMARxDesc_OWN \<noteq> 0"

definition whole :: "u32 \<Rightarrow> bool" where
  "whole st \<longleftrightarrow> st AND ETH_DMARxDesc_OWN = 0 \<and> st AND ETH_DMARxDesc_ES = 0 \<and>
     st AND ETH_DMARxDesc_LS \<noteq> 0 \<and> st AND ETH_DMARxDesc_FS \<noteq> 0"

definition flen :: "u32 \<Rightarrow> nat" where
  "flen st = unat (drop_bit 16 (st AND ETH_DMARxDesc_FL))"

text \<open>The frame in a descriptor's buffer, without its checksum.\<close>

definition frame_in :: "'u nic \<Rightarrow> nat \<Rightarrow> u8 list" where
  "frame_in s i = read_at (Buffer1Addr (rxd s i)) (flen (Status (rxd s i)) - 4) (dat (pm s))"

definition queued :: "'u nic \<Rightarrow> nat \<Rightarrow> nat \<Rightarrow> bool" where
  "queued s i n \<longleftrightarrow> rx_ring s \<and> n \<le> 4 \<and> DMARxDescToGet s = DMARxDscrTab (i mod 4) \<and>
     (\<forall>k<4. if k < n then whole (Status (rxd s (i + k))) \<and> 64 \<le> flen (Status (rxd s (i + k))) \<and>
                          flen (Status (rxd s (i + k))) \<le> 1520
            else owned (rxd s (i + k)))"

definition frames :: "'u nic \<Rightarrow> nat \<Rightarrow> nat \<Rightarrow> u8 list list" where
  "frames s i n = map (\<lambda>k. frame_in s (i + k)) [0..<n]"

lemma frames_Suc: "frames s i (Suc n) = frame_in s i # frames s (Suc i) n"
  by (simp add: frames_def upt_conv_Cons flip: map_Suc_upt del: upt.simps)

section \<open>Taking one frame\<close>

lemma resume_rx_fields [simp]:
  "descs (resume_rx env s) = descs s" "DMARxDescToGet (resume_rx env s) = DMARxDescToGet s"
  "DMATxDescToSet (resume_rx env s) = DMATxDescToSet s" "pm (resume_rx env s) = pm s" "up (resume_rx env s) = up s"
  by (simp_all add: resume_rx_def case_prod_beta)

lemma queue_empty:
  assumes "queued s i 0"
  shows "\<exists>h. low_level_input env s = Some (None, s\<lparr>io := h\<rparr>)"
proof -
  have "owned (rxd s i)" using assms by (auto simp: queued_def dest: spec [of _ 0])
  then show ?thesis using assms
    by (auto simp: low_level_input_def ETH_RxPkt_ChainMode_def owned_def queued_def Let_def resume_rx_def case_prod_beta)
qed

lemma mod_next:
  fixes i k :: nat
  assumes k: "k < 4"
  shows "Suc (i + k) mod 4 = i mod 4 \<longleftrightarrow> k = 3"
proof -
  have "Suc (i + k) mod 4 = i mod 4 \<longleftrightarrow> 4 dvd Suc (i + k) - i" using mod_eq_dvd_iff_nat [of i "Suc (i + k)" 4] by simp
  also have "\<dots> \<longleftrightarrow> 4 dvd Suc k" by simp
  also have "\<dots> \<longleftrightarrow> k = 3" using k dvd_imp_le [of 4 "Suc k"] by auto
  finally show ?thesis .
qed

lemma crc_off: "unat w < 0x10000 \<Longrightarrow> 4 \<le> unat w \<Longrightarrow> unat (ucast (w - 4) :: u16) = unat w - 4" for w :: u32
  by (simp add: unsigned_ucast_eq unat_sub word_le_nat_alt take_bit_nat_eq_self)

lemmas flen_unat = crc_off [of "drop_bit 16 (st AND ETH_DMARxDesc_FL)" for st, folded flen_def]

definition taken :: "nat \<Rightarrow> 'u nic \<Rightarrow> 'u nic" where
  "taken i s = upd_desc (DMARxDscrTab (i mod 4)) (\<lambda>d. d\<lparr>Status := ETH_DMARxDesc_OWN\<rparr>)
     (s\<lparr>DMARxDescToGet := DMARxDscrTab (Suc i mod 4)\<rparr>)"

lemma taken_queue:
  assumes q: "queued s i (Suc n)" and d: "descs s' = descs (taken i s)"
    "DMARxDescToGet s' = DMARxDscrTab (Suc i mod 4)" "dat (pm s') (Ext 10) = dat (pm s) (Ext 10)"
  shows "queued s' (Suc i) n \<and> frames s' (Suc i) n = frames s (Suc i) n"
proof -
  have other: "rxd s' (Suc (i + k)) = rxd s (Suc (i + k))" if "k < 3" for k
    using that d(1) mod_next [of k i] by (simp add: taken_def upd_desc_def)
  have own: "owned (rxd s' i)" using d(1) by (simp add: taken_def upd_desc_def owned_def)
  have "Buffer1Addr (rxd s' k) = Buffer1Addr (rxd s k) \<and> Buffer2NextDescAddr (rxd s' k) = Buffer2NextDescAddr (rxd s k)" for k
    using d(1) by (simp add: taken_def upd_desc_def)
  then have ring: "rx_ring s'" using q by (simp add: queued_def rx_ring_def)
  have le: "n \<le> 4" using q by (simp add: queued_def)
  have cell: "if k < n then whole (Status (rxd s' (Suc i + k))) \<and> 64 \<le> flen (Status (rxd s' (Suc i + k))) \<and>
                          flen (Status (rxd s' (Suc i + k))) \<le> 1520
            else owned (rxd s' (Suc i + k))" if "k < 4" for k
  proof (cases "k = 3")
    case True
    then have "Suc (i + k) mod 4 = i mod 4" by presburger
    then show ?thesis using own q True by (simp add: queued_def)
  next
    case False
    then have k: "k < 3" using that by simp
    have "if Suc k < Suc n then whole (Status (rxd s (i + Suc k))) \<and> 64 \<le> flen (Status (rxd s (i + Suc k))) \<and>
                          flen (Status (rxd s (i + Suc k))) \<le> 1520
            else owned (rxd s (i + Suc k))"
      using q k unfolding queued_def by (elim conjE allE [of _ "Suc k"]) simp
    then show ?thesis using other [OF k] by (simp only: add_Suc add_Suc_right Suc_less_eq split: if_splits)
  qed
  have "frame_in s' (Suc i + k) = frame_in s (Suc i + k)" if "k < n" for k
  proof -
    have "k < 3" using that q by (simp add: queued_def)
    from other [OF this] have e: "rxd s' (Suc i + k) = rxd s (Suc i + k)" by simp
    have "fst (Buffer1Addr (rxd s (Suc i + k))) = Ext 10" using q by (simp add: queued_def rx_ring_def)
    then show ?thesis unfolding frame_in_def e by (intro read_at_cong) (simp add: d(3))
  qed
  then have "frames s' (Suc i) n = frames s (Suc i) n" by (simp add: frames_def)
  moreover have "queued s' (Suc i) n"
    unfolding queued_def using ring d(2) le cell by (intro conjI allI impI)
  ultimately show ?thesis by simp
qed

lemma queue_take:
  assumes q: "queued s i (Suc n)" and dist: "distinct (pools (pm s) MEMP_PBUF_POOL)"
  shows "\<exists>p s'. low_level_input env s = Some (p, s') \<and> queued s' (Suc i) n \<and>
    frames s' (Suc i) n = frames s (Suc i) n \<and> up s' = up s \<and>
    (case p of None \<Rightarrow> length (pools (pm s) MEMP_PBUF_POOL) < 2 \<and>
         mset (pools (pm s') MEMP_PBUF_POOL) = mset (pools (pm s) MEMP_PBUF_POOL)
     | Some a \<Rightarrow> \<exists>ks. pools (pm s) MEMP_PBUF_POOL = ks @ pools (pm s') MEMP_PBUF_POOL \<and>
         packet (pm s') p (map Memp ks) \<and> contents (pm s') (map Memp ks) = frame_in s i \<and>
         (\<forall>k \<in> set ks. pool_buf (pbs (pm s')) k))"
proof -
  define ks where "ks = pools (pm s) MEMP_PBUF_POOL"
  define r where "r = DMARxDscrTab (i mod 4)"
  define st where "st = Status (descs s r)"
  define B where "B = Buffer1Addr (descs s r)"
  define len :: u16 where "len = ucast (drop_bit 16 (st AND ETH_DMARxDesc_FL) - 4)"
  define s1 where "s1 = s\<lparr>DMARxDescToGet := DMARxDscrTab (Suc i mod 4)\<rparr>"
  have st: "whole st" "64 \<le> flen st" "flen st \<le> 1520" and r: "DMARxDescToGet s = r"
    using q by (auto simp: queued_def st_def r_def dest: spec [of _ 0])
  have B: "fst B = Ext 10" and nxt: "Buffer2NextDescAddr (descs s r) = DMARxDscrTab (Suc i mod 4)"
    using q by (simp_all add: queued_def rx_ring_def B_def r_def)
  have len: "unat len = flen st - 4" unfolding len_def by (rule flen_unat) (use st in simp_all)
  have "drop_bit 16 (st AND ETH_DMARxDesc_FL) - 4 \<noteq> 0"
    using len st(2) by (auto simp: len_def)
  then have rx: "ETH_RxPkt_ChainMode env s =
      (\<lparr>flength = drop_bit 16 (st AND ETH_DMARxDesc_FL) - 4, fbuffer = B, descriptor = Some r\<rparr>, s1)"
    using st(1) nxt by (simp add: ETH_RxPkt_ChainMode_def r Let_def whole_def st_def B_def s1_def)
  define fin where "fin m = resume_rx env (upd_desc r (\<lambda>d. d\<lparr>Status := ETH_DMARxDesc_OWN\<rparr>) (s1\<lparr>pm := m\<rparr>))" for m
  have go: "low_level_input env s = Option.bind (pbuf_alloc PBUF_RAW len PBUF_POOL (pm s)) (\<lambda>(p, m).
      Option.bind (copy_in B p 0 m) (\<lambda>m. Some (p, fin m)))"
    using \<open>_ - 4 \<noteq> 0\<close> by (simp add: low_level_input_def rx len_def s1_def fin_def)
  have fin: "pm (fin m) = m" "up (fin m) = up s" for m by (simp_all add: fin_def upd_desc_def s1_def)
  have queue: "queued (fin m) (Suc i) n \<and> frames (fin m) (Suc i) n = frames s (Suc i) n"
    if "dat m (Ext 10) = dat (pm s) (Ext 10)" for m
    by (rule taken_queue [OF q]) (use that in \<open>simp_all add: fin_def taken_def upd_desc_def s1_def r_def\<close>)
  obtain res m where al: "pbuf_alloc PBUF_RAW len PBUF_POOL (pm s) = Some (res, m)" "dat m = dat (pm s)"
    and cs: "case res of
       None \<Rightarrow> mset (pools m MEMP_PBUF_POOL) = mset ks \<and>
         (ks = [] \<or> length ks * 1500 < LWIP_MEM_ALIGN_SIZE (layer_offset PBUF_RAW) + unat len) \<and>
         pbs m = (\<lambda>a. if a \<in> Memp ` set ks then None else pbs (pm s) a)
     | Some p \<Rightarrow> \<exists>j \<le> length ks. let as = map Memp (take j ks) in
         packet m (Some p) as \<and> lens (pbs m) as = unat len \<and> (\<forall>k \<in> set (take j ks). pool_buf (pbs m) k) \<and>
         pools m = (pools (pm s))(MEMP_PBUF_POOL := drop j ks) \<and> (\<forall>a. a \<notin> set as \<longrightarrow> pbs m a = pbs (pm s) a)"
    using pbuf_alloc_pool_cases [OF dist, of PBUF_RAW len] unfolding ks_def by blast
  show ?thesis
  proof (cases res)
    case None
    have "length ks < 2" using cs None len st by (auto simp: LWIP_MEM_ALIGN_SIZE_def layer_offset_def)
    moreover have "low_level_input env s = Some (None, fin m)"
      using al None by (simp add: go copy_in.simps)
    ultimately show ?thesis using queue [of m] al cs None fin by (auto simp: ks_def)
  next
    case (Some a)
    obtain j where j: "j \<le> length ks" "packet m (Some a) (map Memp (take j ks))"
      "lens (pbs m) (map Memp (take j ks)) = unat len" "\<forall>k \<in> set (take j ks). pool_buf (pbs m) k"
      "pools m MEMP_PBUF_POOL = drop j ks" using cs Some by (auto simp: Let_def)
    let ?as = "map Memp (take j ks)"
    have ap: "apart_from (Ext 10) m ?as" using j(4) by (auto simp: apart_from_def pool_buf_def)
    have "map (\<lambda>a. fst (payload (the (pbs m a)))) ?as = map (\<lambda>k. Own (Memp k)) (take j ks)"
      using j(4) by (auto simp: pool_buf_def)
    then have apart: "regions_apart m ?as"
      using dist by (simp add: regions_apart_def distinct_map inj_on_def ks_def)
    have Be: "(Ext 10, snd B) = B" by (metis B prod.collapse)
    from copy_in_chain [of m "Some a" ?as B 0] apart j(2) ap B obtain d where
      d: "copy_in B (Some a) 0 m = Some (m\<lparr>dat := d\<rparr>)"
        "contents (m\<lparr>dat := d\<rparr>) ?as = read_at B (unat len) (dat m)"
        "\<forall>r. apart_from r m ?as \<longrightarrow> d r = dat m r" by (auto simp: packet_def j(3) Be)
    have "low_level_input env s = Some (Some a, fin (m\<lparr>dat := d\<rparr>))" using al Some d(1) by (simp add: go)
    moreover have "d (Ext 10) = dat (pm s) (Ext 10)" using d(3) ap al(2) by simp
    moreover have "frame_in s i = read_at B (unat len) (dat m)"
      by (simp add: frame_in_def B_def len st_def r_def al(2))
    moreover have "packet (m\<lparr>dat := d\<rparr>) (Some a) ?as" using j(2) by (simp add: packet_def)
    ultimately show ?thesis using queue [of "m\<lparr>dat := d\<rparr>"] fin j(4,5) d(2)
      by (intro exI [of _ "Some a"] exI [of _ "fin (m\<lparr>dat := d\<rparr>)"]) (auto simp: ks_def intro!: exI [of _ "take j ks"])
  qed
qed

section \<open>The DMA engine, the driver and the rest of the firmware\<close>

lemma queued_cong:
  assumes "\<And>i. descs s' (DMARxDscrTab i) = descs s (DMARxDscrTab i)" "DMARxDescToGet s' = DMARxDescToGet s"
  shows "queued s' i n = queued s i n"
  using assms by (simp add: queued_def rx_ring_def)

lemma frames_cong:
  assumes "\<And>i. descs s' (DMARxDscrTab i) = descs s (DMARxDscrTab i)" "dat (pm s') (Ext 10) = dat (pm s) (Ext 10)"
    and "rx_ring s"
  shows "frames s' i n = frames s i n"
  using assms by (auto simp: frames_def frame_in_def rx_ring_def intro!: read_at_cong)

lemma queued_ring: "queued s i n \<Longrightarrow> rx_ring s"
  by (simp add: queued_def)

lemma rx_size:
  assumes "queued s i n"
  shows "ETH_GetRxPktSize s = 0 \<longleftrightarrow> n = 0"
proof -
  have r: "DMARxDescToGet s = DMARxDscrTab (i mod 4)" using assms by (simp add: queued_def)
  have "if 0 < n then whole (Status (rxd s i)) \<and> 64 \<le> flen (Status (rxd s i)) else owned (rxd s i)"
    using assms unfolding queued_def by (elim conjE allE [of _ 0]) (simp split: if_splits)
  then show ?thesis
    by (auto simp: ETH_GetRxPktSize_def r Let_def whole_def owned_def flen_def ETH_GetDMARxDescFrameLength_def split: if_splits)
qed

lemma on_io_fields [simp]:
  "descs (on_io f s) = descs s" "DMARxDescToGet (on_io f s) = DMARxDescToGet s" "up (on_io f s) = up s"
  "DMATxDescToSet (on_io f s) = DMATxDescToSet s" "pm (on_io f s) = pm s"
  by (simp_all add: on_io_def)

text \<open>The bytes of a packet, along its chain of buffers.\<close>

partial_function (option) gather :: "addr option \<Rightarrow> pmem \<Rightarrow> u8 list option" where
  "gather p m = (case p of None \<Rightarrow> Some []
     | Some a \<Rightarrow> Option.bind (pbs m a) (\<lambda>b. Option.bind (gather (p_next b) m) (\<lambda>bs.
         Some (read_at (payload b) (unat (plen b)) (dat m) @ bs))))"

definition received :: "addr option \<Rightarrow> pmem \<Rightarrow> u8 list option" where
  "received p m = (if p = None then None else gather p m)"

lemma gather_contents: "linked (pbs m) p as None \<Longrightarrow> gather p m = Some (contents m as)"
  by (induction as arbitrary: p) (auto simp: gather.simps bytes_of_def)

text \<open>
  The steps: the DMA engine stores a frame, stores a part of one that spans several descriptors, or loses
  one; the driver calls \<^verbatim>\<open>low_level_input\<close>, with so many pool elements free and that packet as the result; and
  anything else, which leaves the receive descriptors and buffers and \<^verbatim>\<open>DMARxDescToGet\<close> alone (the driver's
  receive functions are the only code that writes them) and a pool without duplicates.
\<close>

datatype rx_event = Stored "u8 list" | Part "u8 list" | Lost "u8 list" | Input nat "u8 list option" | Rest

definition dma_store :: "dref \<Rightarrow> u32 \<Rightarrow> u8 list \<Rightarrow> 'u nic \<Rightarrow> 'u nic" where
  "dma_store r st f s = upd_desc r (\<lambda>d. d\<lparr>Status := st\<rparr>)
     (s\<lparr>pm := (pm s)\<lparr>dat := write_at (Buffer1Addr (descs s r)) f (dat (pm s))\<rparr>\<rparr>)"

abbreviation (input) pool_of :: "'u nic \<Rightarrow> nat list" where
  "pool_of s \<equiv> pools (pm s) MEMP_PBUF_POOL"

definition leaves_rx :: "'u nic \<Rightarrow> 'u nic \<Rightarrow> bool" where
  "leaves_rx s s' \<longleftrightarrow> (\<forall>i. descs s' (DMARxDscrTab i) = descs s (DMARxDscrTab i)) \<and>
     DMARxDescToGet s' = DMARxDescToGet s \<and> dat (pm s') (Ext 10) = dat (pm s) (Ext 10) \<and> distinct (pool_of s')"

text \<open>The other half of the driver takes such a step: sending writes the transmit descriptors and their buffers only.\<close>

lemma copy_out_frame:
  assumes "copy_out B p l m = Some y"
  shows "fst B \<noteq> r \<longrightarrow> dat (snd y) r = dat m r \<and> pools (snd y) = pools m"
proof (rule copy_out.raw_induct [where P = "\<lambda>B p l m y. fst B \<noteq> r \<longrightarrow> dat (snd y) r = dat m r \<and> pools (snd y) = pools m", OF _ assms],
    intro impI)
  fix f B q l m y
  assume IH: "\<And>B q l m y. f B q l m = Some y \<Longrightarrow> fst B \<noteq> r \<longrightarrow> dat (snd y) r = dat m r \<and> pools (snd y) = pools m"
    and run: "(case q of None \<Rightarrow> Some (l, m) | Some a \<Rightarrow> Option.bind (pbs m a) (\<lambda>b. f B (p_next b) (l + uint (plen b))
      (MEMCPY (fst B, snd B + l) (payload b) (plen b) m))) = Some y" and ne: "fst B \<noteq> r"
  show "dat (snd y) r = dat m r \<and> pools (snd y) = pools m"
  proof (cases q)
    case None
    then show ?thesis using run by auto
  next
    case (Some a)
    then obtain b where b: "pbs m a = Some b" using run by (auto split: bind_splits)
    let ?m = "MEMCPY (fst B, snd B + l) (payload b) (plen b) m"
    have "dat ?m r = dat m r \<and> pools ?m = pools m" using ne by (simp add: MEMCPY_def write_at_def)
    moreover have "f B (p_next b) (l + uint (plen b)) ?m = Some y" using run Some b by simp
    ultimately show ?thesis using IH ne by fastforce
  qed
qed

lemma low_level_output_leaves_rx:
  assumes "low_level_output env p s = Some (e, s')" "\<And>i. DMATxDescToSet s \<noteq> DMARxDscrTab i"
    "fst (ETH_GetCurrentTxBuffer s) \<noteq> Ext 10" "distinct (pools (pm s) MEMP_PBUF_POOL)"
  shows "leaves_rx s s'"
proof -
  obtain l m where c: "copy_out (ETH_GetCurrentTxBuffer s) p 0 (pm s) = Some (l, m)"
    "snd (ETH_TxPkt_ChainMode env (of_int l) (s\<lparr>pm := m\<rparr>)) = s'"
    using assms(1) by (auto simp: low_level_output_def case_prod_beta bind_eq_Some_conv)
  have "dat m (Ext 10) = dat (pm s) (Ext 10)" "pools m = pools (pm s)" using copy_out_frame [OF c(1), of "Ext 10"] assms(3) by simp_all
  moreover have "leaves_rx (s\<lparr>pm := m\<rparr>) (snd (ETH_TxPkt_ChainMode env (of_int l) (s\<lparr>pm := m\<rparr>)))"
    if "distinct (pools m MEMP_PBUF_POOL)" for l
    using assms(2) [symmetric] that by (simp add: leaves_rx_def ETH_TxPkt_ChainMode_def Let_def case_prod_beta upd_desc_def)
  ultimately show ?thesis using c(2) assms(4) by (fastforce simp: leaves_rx_def)
qed

text \<open>The second component of the state is the descriptor the DMA engine is at.\<close>

inductive rx_step :: "env \<Rightarrow> 'u nic \<times> dref \<Rightarrow> rx_event \<Rightarrow> 'u nic \<times> dref \<Rightarrow> bool" for env where
  stored: "owned (descs s r) \<Longrightarrow> whole st \<Longrightarrow> flen st = length f \<Longrightarrow> 64 \<le> length f \<Longrightarrow> length f \<le> 1520 \<Longrightarrow>
    rx_step env (s, r) (Stored f) (dma_store r st f s, Buffer2NextDescAddr (descs s r))"
| part: "owned (descs s r) \<Longrightarrow> st AND ETH_DMARxDesc_OWN = 0 \<Longrightarrow> st AND ETH_DMARxDesc_ES = 0 \<Longrightarrow>
    st AND ETH_DMARxDesc_FS = 0 \<or> st AND ETH_DMARxDesc_LS = 0 \<Longrightarrow> length f \<le> 1520 \<Longrightarrow>
    rx_step env (s, r) (Part f) (dma_store r st f s, Buffer2NextDescAddr (descs s r))"
| lost: "\<not> owned (descs s r) \<Longrightarrow> rx_step env (s, r) (Lost f) (s, r)"
| input: "low_level_input env s = Some (p, s') \<Longrightarrow>
    rx_step env (s, r) (Input (length (pool_of s)) (received p (pm s'))) (s', r)"
| rest: "leaves_rx s s' \<Longrightarrow> rx_step env (s, r) Rest (s', r)"

inductive rx_run for env where
  rx_nil: "rx_run env x [] x"
| rx_snoc: "rx_run env x es y \<Longrightarrow> rx_step env y e z \<Longrightarrow> rx_run env x (es @ [e]) z"

inductive_cases rx_nilE: "rx_run env x [] y"

text \<open>
  What the ring promises: a queue of at most four frames, and those passed on. Two pool elements hold any
  frame; with fewer left \<^verbatim>\<open>low_level_input\<close> may drop the one it takes.
\<close>

fun fifo :: "rx_event \<Rightarrow> u8 list list \<times> u8 list list \<Rightarrow> (u8 list list \<times> u8 list list) option" where
  "fifo (Stored f) (d, q) = (if length q < 4 then Some (d, q @ [take (length f - 4) f]) else None)"
| "fifo (Lost f) (d, q) = (if length q = 4 then Some (d, q) else None)"
| "fifo (Part f) (d, q) = None"
| "fifo (Input n res) (d, []) = (if res = None then Some (d, []) else None)"
| "fifo (Input n res) (d, f # q) =
     (if res = Some f then Some (d @ [f], q) else if res = None \<and> n < 2 then Some (d, q) else None)"
| "fifo Rest (d, q) = Some (d, q)"

fun fifo_run :: "rx_event list \<Rightarrow> u8 list list \<times> u8 list list \<Rightarrow> (u8 list list \<times> u8 list list) option" where
  "fifo_run [] x = Some x"
| "fifo_run (e # es) x = Option.bind (fifo e x) (fifo_run es)"

lemma fifo_run_snoc: "fifo_run (es @ [e]) x = Option.bind (fifo_run es x) (fifo e)"
  by (induction es arbitrary: x) (auto split: Option.bind_splits)

lemma rxd_next: "n < 4 \<Longrightarrow> k < n \<Longrightarrow> (i + n) mod 4 \<noteq> (i + k) mod 4" for i n k :: nat
proof -
  assume "n < 4" "k < n"
  then have "\<not> 4 dvd (n - k)" using dvd_imp_le [of 4 "n - k"] by linarith
  moreover have "(i + n) mod 4 = (i + k) mod 4 \<longleftrightarrow> 4 dvd (i + n) - (i + k)"
    by (rule mod_eq_dvd_iff_nat) (use \<open>k < n\<close> in simp)
  ultimately show ?thesis by simp
qed

lemma read_write_same: "n \<le> length bs \<Longrightarrow> read_at a n (write_at a bs d) = take n bs"
  by (auto simp: read_at_def write_at_def intro!: nth_equalityI)

lemma read_write_apart:
  "fst a = fst b \<Longrightarrow> snd a + int n \<le> snd b \<or> snd b + int (length bs) \<le> snd a \<Longrightarrow>
   read_at a n (write_at b bs d) = read_at a n d"
  by (auto simp: read_at_def write_at_def)

lemma dma_enqueues:
  assumes q: "queued s i n" and n: "n < 4" and st: "whole st" "flen st = length f" "64 \<le> length f" "length f \<le> 1520"
  defines "s' \<equiv> dma_store (DMARxDscrTab ((i + n) mod 4)) st f s"
  shows "queued s' i (Suc n) \<and> frames s' i (Suc n) = frames s i n @ [take (length f - 4) f]"
proof -
  have addr: "Buffer1Addr (rxd s j) = (Ext 10, int ((j mod 4) * 1520))" for j
    using q by (simp add: queued_def rx_ring_def)
  have keep: "Buffer1Addr (rxd s' j) = Buffer1Addr (rxd s j) \<and> Buffer2NextDescAddr (rxd s' j) = Buffer2NextDescAddr (rxd s j)" for j
    by (simp add: s'_def dma_store_def upd_desc_def)
  have new: "Status (rxd s' (i + n)) = st" by (simp add: s'_def dma_store_def upd_desc_def)
  have old: "rxd s' j = rxd s j" if "(i + n) mod 4 \<noteq> j mod 4" for j using that by (simp add: s'_def dma_store_def upd_desc_def)
  have old_k: "rxd s' (i + k) = rxd s (i + k)" if "k < 4" "k \<noteq> n" for k
    using old [of "i + k"] rxd_next [of n k i] rxd_next [of k n i] n that by (metis linorder_neqE_nat)
  have cell: "if k < Suc n then whole (Status (rxd s' (i + k))) \<and> 64 \<le> flen (Status (rxd s' (i + k))) \<and>
                 flen (Status (rxd s' (i + k))) \<le> 1520 else owned (rxd s' (i + k))" if k: "k < 4" for k
  proof (cases "k = n")
    case True
    then show ?thesis using new st by simp
  next
    case False
    have "if k < n then whole (Status (rxd s (i + k))) \<and> 64 \<le> flen (Status (rxd s (i + k))) \<and>
        flen (Status (rxd s (i + k))) \<le> 1520 else owned (rxd s (i + k))" using q k by (simp add: queued_def)
    then show ?thesis using old_k [OF k False] False by (simp split: if_splits)
  qed
  have "rx_ring s'" using keep q by (simp add: queued_def rx_ring_def)
  moreover have "DMARxDescToGet s' = DMARxDscrTab (i mod 4)" using q by (simp add: queued_def s'_def dma_store_def upd_desc_def)
  ultimately have "queued s' i (Suc n)"
    unfolding queued_def using n cell by (intro conjI allI impI) simp_all
  moreover have "frame_in s' (i + k) = frame_in s (i + k)" if "k < n" for k
  proof -
    have e: "rxd s' (i + k) = rxd s (i + k)" by (rule old_k) (use that n in simp_all)
    have ne: "(i + n) mod 4 \<noteq> (i + k) mod 4" using rxd_next [OF n that] .
    have "flen (Status (rxd s (i + k))) \<le> 1520" using q that n by (simp add: queued_def)
    moreover have "dat (pm s') = write_at (Buffer1Addr (rxd s (i + n))) f (dat (pm s))"
      by (simp add: s'_def dma_store_def upd_desc_def)
    ultimately show ?thesis unfolding frame_in_def e addr using ne st(4)
      by (simp only: fst_conv snd_conv addr) (rule read_write_apart, simp, cases "(i + k) mod 4 < (i + n) mod 4", simp_all)
  qed
  moreover have "frame_in s' (i + n) = take (length f - 4) f"
    using keep [of "i + n"] new st by (simp add: frame_in_def s'_def dma_store_def upd_desc_def read_write_same)
  ultimately show ?thesis by (simp add: frames_def)
qed

lemma init_queued: "queued (snd (low_level_init env adr mac nif s)) 0 0"
proof -
  have upt: "[0..<4] = [0, 1, 2, 3]" "[0..<2] = [0, 1 :: nat]" by (simp_all add: upt_rec)
  have four: "i mod 4 = 0 \<or> i mod 4 = 1 \<or> i mod 4 = 2 \<or> i mod 4 = 3" for i :: nat by linarith
  have lt: "i < 4 \<longleftrightarrow> i = 0 \<or> i = 1 \<or> i = 2 \<or> i = 3" for i :: nat by linarith
  show ?thesis
    using four
    by (auto simp: low_level_init_def Let_def queued_def rx_ring_def ETH_DMARxDescChainInit_def ETH_DMATxDescChainInit_def
        upt upd_desc_def ETH_DMARxDescReceiveITConfig_def control_bits_def owned_def lt mod_Suc on_io_def)
qed

lemma init_keeps:
  "up (snd (low_level_init env adr mac nif s)) = up s" "pm (snd (low_level_init env adr mac nif s)) = pm s"
proof -
  have upt: "[0..<4] = [0, 1, 2, 3]" "[0..<2] = [0, 1 :: nat]" by (simp_all add: upt_rec)
  show "up (snd (low_level_init env adr mac nif s)) = up s" "pm (snd (low_level_init env adr mac nif s)) = pm s"
    by (simp_all add: low_level_init_def Let_def ETH_DMARxDescChainInit_def ETH_DMATxDescChainInit_def
        upt upd_desc_def ETH_DMARxDescReceiveITConfig_def control_bits_def)
qed

lemma init_descs: "\<exists>i. DMARxDescToGet (snd (low_level_init env adr mac nif s)) = DMARxDscrTab i"
  using init_queued [of env adr mac nif s] by (auto simp: queued_def)

text \<open>\<^verbatim>\<open>low_level_input\<close> takes the head of the queue, or drops it when the pool is short.\<close>

lemma input_dequeues:
  assumes q: "queued s i (length q)" "frames s i (length q) = q" and dist: "distinct (pool_of s)"
  shows "\<exists>p s'. low_level_input env s = Some (p, s') \<and> distinct (pool_of s') \<and>
    (case q of [] \<Rightarrow> received p (pm s') = None \<and> queued s' i 0
     | f # q' \<Rightarrow> queued s' (Suc i) (length q') \<and> frames s' (Suc i) (length q') = q' \<and>
         (received p (pm s') = Some f \<or> received p (pm s') = None \<and> length (pool_of s) < 2))"
proof (cases q)
  case Nil
  then obtain h where "low_level_input env s = Some (None, s\<lparr>io := h\<rparr>)" using queue_empty [of s i env] q(1) by auto
  then show ?thesis using Nil q(1) dist queued_cong [of "s\<lparr>io := h\<rparr>" s i 0] by (simp add: received_def)
next
  case (Cons f q')
  obtain p s' where t: "low_level_input env s = Some (p, s')" "queued s' (Suc i) (length q')"
    "frames s' (Suc i) (length q') = frames s (Suc i) (length q')" and
    cs: "case p of None \<Rightarrow> length (pool_of s) < 2 \<and> mset (pool_of s') = mset (pool_of s)
     | Some a \<Rightarrow> \<exists>ks. pool_of s = ks @ pool_of s' \<and> packet (pm s') p (map Memp ks) \<and>
         contents (pm s') (map Memp ks) = frame_in s i \<and> (\<forall>k \<in> set ks. pool_buf (pbs (pm s')) k)"
    using queue_take [OF _ dist, of i "length q'" env] q(1) unfolding Cons length_Cons by blast
  have f: "frame_in s i = f" "frames s (Suc i) (length q') = q'" using q(2) unfolding Cons by (simp_all add: frames_Suc)
  show ?thesis
  proof (cases p)
    case None
    then have "mset (pool_of s') = mset (pool_of s)" "length (pool_of s) < 2" using cs by auto
    moreover have "distinct (pool_of s')" using calculation(1) dist mset_eq_imp_distinct_iff by blast
    ultimately show ?thesis using t f None by (simp add: Cons received_def)
  next
    case (Some a)
    then obtain ks where ks: "pool_of s = ks @ pool_of s'" "packet (pm s') (Some a) (map Memp ks)"
      "contents (pm s') (map Memp ks) = f" using cs f(1) by auto
    have "distinct (pool_of s')" using dist ks(1) by simp
    moreover have "received p (pm s') = Some f"
      using gather_contents [of "pm s'" "Some a" "map Memp ks"] ks(2,3) Some by (simp add: received_def packet_def)
    ultimately show ?thesis using t f by (simp add: Cons)
  qed
qed

lemma rx_step_inv:
  assumes step: "rx_step env (s, r) e z" and fits: "\<And>f. e \<noteq> Part f" and fr: "fifo_run es ([], []) = Some (d, q)"
    and q: "queued s i (length q)" "frames s i (length q) = q" and r: "r = DMARxDscrTab ((i + length q) mod 4)"
    and dist: "distinct (pool_of s)"
  shows "\<exists>d q i. fifo_run (es @ [e]) ([], []) = Some (d, q) \<and> queued (fst z) i (length q) \<and>
    frames (fst z) i (length q) = q \<and> snd z = DMARxDscrTab ((i + length q) mod 4) \<and> distinct (pool_of (fst z))"
proof -
  have own: "owned (descs s r) \<longleftrightarrow> length q < 4"
  proof (cases "length q < 4")
    case True
    then have "owned (rxd s (i + length q))" using q(1) by (auto simp: queued_def dest: spec [of _ "length q"])
    then show ?thesis using True r by simp
  next
    case False
    then have four: "length q = 4" using q(1) by (simp add: queued_def)
    have "whole (Status (rxd s i))" using q(1) four by (auto simp: queued_def dest: spec [of _ 0])
    then show ?thesis using four r by (simp add: owned_def whole_def)
  qed
  from step show ?thesis
  proof (cases rule: rx_step.cases)
    case (stored st f)
    have n: "length q < 4" using stored(3) own by simp
    from dma_enqueues [OF q(1) n stored(4-7)] r
    have "queued (fst z) i (Suc (length q))" "frames (fst z) i (Suc (length q)) = q @ [take (length f - 4) f]"
      using stored(2) q(2) by simp_all
    moreover have "snd z = DMARxDscrTab ((i + Suc (length q)) mod 4)"
      using stored(2) q(1) r by (simp add: queued_def rx_ring_def)
    moreover have "distinct (pool_of (fst z))" using stored(2) dist by (simp add: dma_store_def upd_desc_def)
    ultimately show ?thesis using fr n stored(1)
      by (intro exI [of _ d] exI [of _ "q @ [take (length f - 4) f]"] exI [of _ i]) (simp add: fifo_run_snoc)
  next
    case (part st f)
    then show ?thesis using fits by blast
  next
    case (lost f)
    then have "length q = 4" using own q(1) by (simp add: queued_def)
    then show ?thesis using fr lost q r dist by (intro exI [of _ d] exI [of _ q] exI [of _ i]) (simp add: fifo_run_snoc)
  next
    case (input p s')
    from input_dequeues [OF q dist, of env] input have di: "distinct (pool_of s')" and
      cs: "case q of [] \<Rightarrow> received p (pm s') = None \<and> queued s' i 0
       | f # q' \<Rightarrow> queued s' (Suc i) (length q') \<and> frames s' (Suc i) (length q') = q' \<and>
         (received p (pm s') = Some f \<or> received p (pm s') = None \<and> length (pool_of s) < 2)" by auto
    show ?thesis
    proof (cases q)
      case Nil
      then show ?thesis using cs di fr input r
        by (intro exI [of _ d] exI [of _ q] exI [of _ i]) (simp add: fifo_run_snoc frames_def)
    next
      case (Cons f q')
      then obtain d' where "fifo e (d, q) = Some (d', q')" using cs input(1) by auto
      then show ?thesis using cs di fr input r Cons
        by (intro exI [of _ d'] exI [of _ q'] exI [of _ "Suc i"]) (simp add: fifo_run_snoc)
    qed
  next
    case (rest s')
    then have "queued s' i (length q) \<and> frames s' i (length q) = q"
      using q queued_cong [of s' s] frames_cong [of s' s i "length q"] queued_ring [OF q(1)] by (simp add: leaves_rx_def)
    then show ?thesis using fr rest r
      by (intro exI [of _ d] exI [of _ q] exI [of _ i]) (simp add: fifo_run_snoc leaves_rx_def)
  qed
qed

lemma rx_run_inv:
  "rx_run env x es y \<Longrightarrow> queued (fst x) 0 0 \<Longrightarrow> snd x = DMARxDscrTab 0 \<Longrightarrow> distinct (pool_of (fst x)) \<Longrightarrow>
    \<forall>f. Part f \<notin> set es \<Longrightarrow> \<exists>d q i. fifo_run es ([], []) = Some (d, q) \<and> queued (fst y) i (length q) \<and>
      frames (fst y) i (length q) = q \<and> snd y = DMARxDscrTab ((i + length q) mod 4) \<and> distinct (pool_of (fst y))"
proof (induction rule: rx_run.induct)
  case (rx_nil x)
  then show ?case by (intro exI [of _ "[]"] exI [of _ 0]) (simp add: frames_def)
next
  case (rx_snoc x es y e z)
  have "\<forall>f. Part f \<notin> set es" and e: "\<And>f. e \<noteq> Part f" using rx_snoc.prems(4) by auto
  from rx_snoc.IH [OF rx_snoc.prems(1-3) this(1)] obtain d q i where
    IH: "fifo_run es ([], []) = Some (d, q)" "queued (fst y) i (length q)" "frames (fst y) i (length q) = q"
      "snd y = DMARxDscrTab ((i + length q) mod 4)" "distinct (pool_of (fst y))" by blast
  have "rx_step env (fst y, snd y) e z" using rx_snoc.hyps(2) by simp
  from rx_step_inv [OF this e IH] show ?case .
qed

text \<open>C26: from the initialised ring on, the DMA engine and \<^verbatim>\<open>low_level_input\<close> together are a queue of at most
  four frames. As long as no frame is longer than the 1520-byte buffers, in any order of arrivals, calls and
  steps of the rest of the firmware (which leaves the receive descriptors, the buffers and \<^verbatim>\<open>DMARxDescToGet\<close>
  alone): a frame is lost by the DMA engine exactly when four are waiting; a call returns no packet when none
  is waiting and otherwise takes the first one, without its checksum, as the packet it returns, or drops it
  when fewer than two elements of the packet pool are free; a further call returns and does the same; and
  \<^verbatim>\<open>ETH_GetRxPktSize\<close>, the test of the interrupt handler's loop, is 0 exactly when none is waiting.\<close>

theorem ETH_rx_refines_fifo:
  assumes dist: "distinct (pools (pm s) MEMP_PBUF_POOL)" and fits: "\<forall>f. Part f \<notin> set es"
    and run: "rx_run env (snd (low_level_init env adr mac nif s), DMARxDscrTab 0) es (t, r)"
  shows "\<exists>d q p t'. fifo_run es ([], []) = Some (d, q) \<and> (ETH_GetRxPktSize t = 0 \<longleftrightarrow> q = []) \<and>
    low_level_input env t = Some (p, t') \<and>
    fifo (Input (length (pools (pm t) MEMP_PBUF_POOL)) (received p (pm t'))) (d, q) \<noteq> None"
proof -
  obtain d q i where I: "fifo_run es ([], []) = Some (d, q)" "queued t i (length q)" "frames t i (length q) = q"
    "distinct (pool_of t)"
    using rx_run_inv [OF run _ _ _ fits] init_queued [of env adr mac nif s] dist by (auto simp: init_keeps)
  from input_dequeues [OF I(2-4), of env] obtain p t' where t': "low_level_input env t = Some (p, t')"
    "case q of [] \<Rightarrow> received p (pm t') = None \<and> queued t' i 0
     | f # q' \<Rightarrow> queued t' (Suc i) (length q') \<and> frames t' (Suc i) (length q') = q' \<and>
       (received p (pm t') = Some f \<or> received p (pm t') = None \<and> length (pool_of t) < 2)" by blast
  have "fifo (Input (length (pool_of t)) (received p (pm t'))) (d, q) \<noteq> None" using t'(2) by (cases q) auto
  then show ?thesis using I(1) t'(1) rx_size [OF I(2)] by auto
qed

definition nic0 :: "unit nic" where
  "nic0 = \<lparr>descs = (\<lambda>_. \<lparr>Status = 0, ControlBufferSize = 0, Buffer1Addr = null_ptr, Buffer2NextDescAddr = DMARxDscrTab 0\<rparr>),
     DMATxDescToSet = DMATxDscrTab 0, DMARxDescToGet = DMARxDscrTab 0,
     pm = (three 1 1 1)\<lparr>pools := memp_init\<rparr>, io = [], up = ()\<rparr>"

lemma nic0_pool: "distinct (pool_of nic0)" "length (pool_of nic0) = 10"
  by (simp_all add: nic0_def memp_init_pools)

definition up0 :: "env \<Rightarrow> netif \<Rightarrow> unit nic" where
  "up0 env nif = snd (low_level_init env (\<lambda>_. 0) [0, 0, 0, 0, 0, 0] nif nic0)"

lemma up0_owned: "owned (descs (up0 env nif) (DMARxDscrTab 0))"
  using init_queued [of env "\<lambda>_. 0" "[0, 0, 0, 0, 0, 0]" nif nic0] by (auto simp: up0_def queued_def dest: spec [of _ 0])

lemma good_status: "whole 0x00400300" "flen 0x00400300 = 64"
  by (simp_all add: whole_def flen_def)

lemma ETH_rx_refines_fifo_witness:
  "\<forall>env nif. \<exists>t r p t'. rx_run env (up0 env nif, DMARxDscrTab 0) [Stored (replicate 64 7)] (t, r) \<and>
     low_level_input env t = Some (p, t') \<and> received p (pm t') = Some (replicate 60 7)"
proof (intro allI)
  fix env nif
  define t where "t = dma_store (DMARxDscrTab 0) 0x00400300 (replicate 64 7) (up0 env nif)"
  obtain r where run: "rx_run env (up0 env nif, DMARxDscrTab 0) ([] @ [Stored (replicate 64 7)]) (t, r)"
    using rx_snoc [OF rx_nil rx_step.stored [OF up0_owned good_status(1), of "replicate 64 7"]] good_status(2)
    by (fastforce simp: t_def)
  have "length (pool_of t) = 10" by (simp add: t_def dma_store_def upd_desc_def up0_def init_keeps nic0_pool)
  with ETH_rx_refines_fifo [OF nic0_pool(1) _ run [unfolded up0_def]] run
  show "\<exists>t r p t'. rx_run env (up0 env nif, DMARxDscrTab 0) [Stored (replicate 64 7)] (t, r) \<and>
     low_level_input env t = Some (p, t') \<and> received p (pm t') = Some (replicate 60 7)"
    by (fastforce split: if_splits)
qed

section \<open>A descriptor nobody gives back\<close>

definition stuck :: "'u nic \<Rightarrow> bool" where
  "stuck s \<longleftrightarrow> (\<exists>i. DMARxDescToGet s = DMARxDscrTab i) \<and>
     \<not> owned (descs s (DMARxDescToGet s)) \<and> \<not> whole (Status (descs s (DMARxDescToGet s)))"

lemma stuck_irq:
  assumes "stuck s"
  shows "\<exists>h. ETH_IRQHandler env inp s = Some (s\<lparr>io := h\<rparr>)"
proof -
  have "ETH_GetRxPktSize s = 0" using assms by (auto simp: stuck_def ETH_GetRxPktSize_def whole_def owned_def)
  then show ?thesis by (auto simp: ETH_IRQHandler_def rx_irq_loop.simps on_io_def)
qed

text \<open>What goes on afterwards: the DMA engine, the rest of the firmware and the interrupt handler, with
  whatever function the interface has for its input. \<^verbatim>\<open>low_level_input\<close> is called by the handler only.\<close>

inductive later for env inp where
  later_nil: "later env inp x x"
| later_step: "later env inp x y \<Longrightarrow> rx_step env y e z \<Longrightarrow> (\<And>n res. e \<noteq> Input n res) \<Longrightarrow> later env inp x z"
| later_irq: "later env inp x (s, r) \<Longrightarrow> ETH_IRQHandler env inp s = Some s' \<Longrightarrow> later env inp x (s', r)"

lemma stuck_step: "rx_step env x e y \<Longrightarrow> stuck (fst x) \<Longrightarrow> (\<And>n res. e \<noteq> Input n res) \<Longrightarrow> stuck (fst y)"
  by (induction rule: rx_step.induct) (auto simp: stuck_def dma_store_def upd_desc_def leaves_rx_def)

lemma stuck_later: "later env inp x y \<Longrightarrow> stuck (fst x) \<Longrightarrow> stuck (fst y)"
proof (induction rule: later.induct)
  case (later_step x y e z)
  then show ?case using stuck_step by blast
next
  case (later_irq x s r s')
  then obtain h where "s' = s\<lparr>io := h\<rparr>" using stuck_irq [of s env inp] by auto
  then show ?case using later_irq by (simp add: stuck_def)
qed simp

text \<open>C29: when every frame has been taken and the next one spans several descriptors, being longer than the
  1520-byte buffers (a full-size frame with a VLAN tag has 1522 bytes), reception ends for ever: whatever
  arrives later and however often the interrupt handler runs, the handler does nothing but clear its
  interrupt bits. It looks only at the descriptor \<^verbatim>\<open>DMARxDescToGet\<close>, finds no complete frame there and
  leaves it.\<close>

theorem ETH_rx_wedged:
  assumes dist: "distinct (pools (pm s) MEMP_PBUF_POOL)" and fits: "\<forall>f. Part f \<notin> set es"
    and run: "rx_run env (snd (low_level_init env adr mac nif s), DMARxDscrTab 0) es x"
    and drained: "fifo_run es ([], []) = Some (d, [])"
    and long: "rx_step env x (Part f) y" and late: "later env inp y (t, r)"
  shows "\<exists>h. ETH_IRQHandler env inp t = Some (t\<lparr>io := h\<rparr>)"
proof -
  obtain i where I: "queued (fst x) i 0" "snd x = DMARxDscrTab (i mod 4)"
    using rx_run_inv [OF run _ _ _ fits] init_queued [of env adr mac nif s] dist drained by (auto simp: init_keeps)
  have "stuck (fst y)" using long I
    by cases (auto simp: stuck_def dma_store_def upd_desc_def queued_def owned_def whole_def)
  then show ?thesis using stuck_later [OF late] stuck_irq by simp
qed

lemma ETH_rx_wedged_witness:
  "\<forall>env inp nif. \<exists>y t r h. rx_step env (up0 env nif, DMARxDscrTab 0) (Part (replicate 1520 7)) y \<and>
     rx_step env y (Stored (replicate 64 7)) (t, r) \<and> ETH_IRQHandler env inp t = Some (t\<lparr>io := h\<rparr>)"
proof (intro allI)
  fix env nif and inp :: "addr \<Rightarrow> unit nic \<Rightarrow> (err_t \<times> unit nic) option"
  have q0: "queued (up0 env nif) 0 0" unfolding up0_def by (rule init_queued)
  define b where "b = dma_store (DMARxDscrTab 0) 0x00000200 (replicate 1520 7) (up0 env nif)"
  define t where "t = dma_store (DMARxDscrTab 1) 0x00400300 (replicate 64 7) b"
  have oa: "owned (descs (up0 env nif) (DMARxDscrTab 0))" "owned (descs (up0 env nif) (DMARxDscrTab 1))"
    and next0: "Buffer2NextDescAddr (descs (up0 env nif) (DMARxDscrTab 0)) = DMARxDscrTab 1"
    using q0 unfolding queued_def rx_ring_def by (auto dest: spec [of _ 0] spec [of _ 1])
  have ob: "owned (descs b (DMARxDscrTab 1))" using oa(2) by (simp add: b_def dma_store_def upd_desc_def)
  have p: "rx_step env (up0 env nif, DMARxDscrTab 0) (Part (replicate 1520 7)) (b, DMARxDscrTab 1)"
    using rx_step.part [OF oa(1), where st = "0x00000200" and f = "replicate 1520 7"] by (simp add: next0 b_def)
  have st: "rx_step env (b, DMARxDscrTab 1) (Stored (replicate 64 7)) (t, Buffer2NextDescAddr (descs b (DMARxDscrTab 1)))"
    using rx_step.stored [OF ob good_status(1), where f = "replicate 64 7"] good_status(2) by (simp add: t_def)
  have late: "later env inp (b, DMARxDscrTab 1) (t, Buffer2NextDescAddr (descs b (DMARxDscrTab 1)))"
    by (rule later_step [OF later_nil st]) simp
  have run: "rx_run env (snd (low_level_init env (\<lambda>_. 0) [0, 0, 0, 0, 0, 0] nif nic0), DMARxDscrTab 0) []
      (up0 env nif, DMARxDscrTab 0)" unfolding up0_def by (rule rx_nil)
  have "\<exists>h. ETH_IRQHandler env inp t = Some (t\<lparr>io := h\<rparr>)"
    by (rule ETH_rx_wedged [OF nic0_pool(1) _ run _ p late]) simp_all
  then show "\<exists>y t r h. rx_step env (up0 env nif, DMARxDscrTab 0) (Part (replicate 1520 7)) y \<and>
     rx_step env y (Stored (replicate 64 7)) (t, r) \<and> ETH_IRQHandler env inp t = Some (t\<lparr>io := h\<rparr>)"
    using p st by auto
qed

end
