(* ===== verification/EthTx.thy ===== *)
theory EthTx
  imports EthRing
begin

text \<open>
  Sending a packet: \<^verbatim>\<open>low_level_output\<close> copies the chain into the buffer of the current transmit descriptor and
  then asks whether it owns it.
\<close>

lemma frame_length:
  assumes "n \<le> 1520"
  shows "(ucast (of_int (int n) :: u16) AND ETH_DMATxDesc_TBS1 :: u32) = of_nat n"
proof -
  have m: "w AND 0x1FFF = take_bit 13 w" for w :: u32 by (simp add: take_bit_eq_mask mask_eq_exp_minus_1)
  have "take_bit 16 n = n" "take_bit 13 n = n" "take_bit 32 n = n" using assms by (simp_all add: take_bit_nat_eq_self)
  then show ?thesis
    unfolding word_unat_eq_iff m by (simp add: unsigned_ucast_eq unsigned_of_nat unsigned_take_bit_eq)
qed
lemma low_level_output_runs:
  assumes l: "linked (pbs (pm s)) p as None" and n: "lens (pbs (pm s)) as \<le> 1520"
    and ap: "apart_from (fst (ETH_GetCurrentTxBuffer s)) (pm s) as"
  defines "r \<equiv> DMATxDescToSet s"
  defines "d \<equiv> descs s r"
  shows "\<exists>h. low_level_output env p s = Some (ERR_OK,
    (if Status d AND ETH_DMATxDesc_OWN \<noteq> 0 then s
     else s\<lparr>descs := (descs s)(r := d\<lparr>ControlBufferSize := of_nat (lens (pbs (pm s)) as),
                                  Status := Status d OR (ETH_DMATxDesc_OWN OR ETH_DMATxDesc_LS OR ETH_DMATxDesc_FS)\<rparr>),
            DMATxDescToSet := Buffer2NextDescAddr d\<rparr>)
      \<lparr>pm := (pm s)\<lparr>dat := write_at (Buffer1Addr d) (contents (pm s) as) (dat (pm s))\<rparr>, io := h\<rparr>)"
proof -
  define B where "B = Buffer1Addr d"
  have B: "ETH_GetCurrentTxBuffer s = B" by (simp add: ETH_GetCurrentTxBuffer_def B_def d_def r_def)
  have out: "copy_out B p 0 (pm s) = Some (int (lens (pbs (pm s)) as),
      (pm s)\<lparr>dat := write_at B (contents (pm s) as) (dat (pm s))\<rparr>)"
    using copy_out_chain [OF l ap [unfolded B], of 0] by simp
  have len: "(ucast (of_int (int (lens (pbs (pm s)) as)) :: u16) AND ETH_DMATxDesc_TBS1 :: u32) = of_nat (lens (pbs (pm s)) as)"
    by (rule frame_length [OF n])
  show ?thesis
  proof (cases "Status d AND ETH_DMATxDesc_OWN \<noteq> 0")
    case True
    then show ?thesis
      by (intro exI [of _ "io s"])
        (simp add: low_level_output_def B out ETH_TxPkt_ChainMode_def d_def [symmetric] r_def [symmetric] B_def [symmetric])
  next
    case False
    define h where "h = snd (rd env (ETH DMASR) (io s))"
    define h' where "h' = (if env (io s) (ETH DMASR) AND ETH_DMASR_TBUS \<noteq> 0 then wr (ETH DMATPDR) 0 (wr (ETH DMASR) ETH_DMASR_TBUS h) else h)"
    have "low_level_output env p s = Some (ERR_OK, s\<lparr>
        pm := (pm s)\<lparr>dat := write_at B (contents (pm s) as) (dat (pm s))\<rparr>,
        descs := (descs s)(r := d\<lparr>ControlBufferSize := of_nat (lens (pbs (pm s)) as),
          Status := Status d OR (ETH_DMATxDesc_OWN OR ETH_DMATxDesc_LS OR ETH_DMATxDesc_FS)\<rparr>),
        io := h', DMATxDescToSet := Buffer2NextDescAddr d\<rparr>)"
      using False len
      by (simp add: low_level_output_def B out ETH_TxPkt_ChainMode_def d_def [symmetric] r_def [symmetric] B_def [symmetric] Let_def
          case_prod_beta upd_desc_def h_def h'_def or.assoc)
    then show ?thesis using False by (intro exI [of _ h']) (auto simp: B_def intro!: nic.equality)
  qed
qed

text \<open>\<^verbatim>\<open>low_level_output\<close> always returns \<^verbatim>\<open>ERR_OK\<close>. If the current transmit descriptor is free, its buffer
  holds the packet's bytes, its control word their number, it is handed to the DMA engine as a frame of one
  segment and the next descriptor becomes current. If the DMA engine still owns it, the packet is lost and
  its bytes have overwritten the frame waiting in the buffer. Nothing else changes.\<close>

theorem low_level_output_result:
  assumes l: "linked (pbs (pm s)) p as None" and n: "lens (pbs (pm s)) as \<le> 1520"
    and ap: "apart_from (fst (ETH_GetCurrentTxBuffer s)) (pm s) as"
  defines "r \<equiv> DMATxDescToSet s"
  defines "d \<equiv> descs s r"
  shows "\<exists>h. low_level_output env p s = Some (ERR_OK,
    (if Status d AND ETH_DMATxDesc_OWN \<noteq> 0 then s
     else s\<lparr>descs := (descs s)(r := d\<lparr>ControlBufferSize := of_nat (lens (pbs (pm s)) as),
                                  Status := Status d OR (ETH_DMATxDesc_OWN OR ETH_DMATxDesc_LS OR ETH_DMATxDesc_FS)\<rparr>),
            DMATxDescToSet := Buffer2NextDescAddr d\<rparr>)
      \<lparr>pm := (pm s)\<lparr>dat := write_at (Buffer1Addr d) (contents (pm s) as) (dat (pm s))\<rparr>, io := h\<rparr>)"
  unfolding d_def r_def by (rule low_level_output_runs [OF l n ap])

definition tx_example :: "unit nic" where
  "tx_example = \<lparr>descs = (\<lambda>_. \<lparr>Status = ETH_DMATxDesc_TCH, ControlBufferSize = 0, Buffer1Addr = Tx_Buff,
       Buffer2NextDescAddr = DMATxDscrTab 1\<rparr>),
     DMATxDescToSet = DMATxDscrTab 0, DMARxDescToGet = DMARxDscrTab 0,
     pm = \<lparr>pbs = (\<lambda>_. None)(Memp 83 \<mapsto> \<lparr>p_next = None, payload = (Own (Memp 83), 0), tot_len = 1, plen = 1,
             ptype = PBUF_POOL, pflags = 0, pref = 1\<rparr>),
           dat = (\<lambda>_ _. 5), pools = memp_init, heap = undefined\<rparr>,
     io = [], up = ()\<rparr>"

lemma low_level_output_result_witness:
  "\<exists>s'. low_level_output (\<lambda>_ _. 0) (Some (Memp 83)) tx_example = Some (ERR_OK, s') \<and>
    Status (descs s' (DMATxDscrTab 0)) = 0xB0100000 \<and> ControlBufferSize (descs s' (DMATxDscrTab 0)) = 1 \<and>
    DMATxDescToSet s' = DMATxDscrTab 1 \<and> read_at Tx_Buff 1 (dat (pm s')) = [5]"
  using low_level_output_result [of tx_example "Some (Memp 83)" "[Memp 83]" "\<lambda>_ _. 0"]
  by (auto simp: tx_example_def lens_def blen_def ETH_GetCurrentTxBuffer_def apart_from_def contents_def bytes_of_def
      read_at_def write_at_def)

end
