(* ===== verification/Netconf.thy ===== *)
theory Netconf
  imports Eth
begin

text \<open>
  Time and the periodic tasks: the SysTick counter and the delay of \<^verbatim>\<open>main.c\<close>, the timers and the link
  supervision of \<^verbatim>\<open>netconf.c\<close>, and the Ethernet settings of \<^verbatim>\<open>stm32f107.c\<close> they use again when the link
  comes back. The calls of \<^verbatim>\<open>tcp_tmr\<close>, \<^verbatim>\<open>etharp_tmr\<close> and the link notifications are recorded.
\<close>

abbreviation (input) SYSTEMTICK_PERIOD_MS :: u32 where "SYSTEMTICK_PERIOD_MS \<equiv> 10"
abbreviation (input) TCP_TMR_INTERVAL :: u32 where "TCP_TMR_INTERVAL \<equiv> 250"
abbreviation (input) ARP_TMR_INTERVAL :: u32 where "ARP_TMR_INTERVAL \<equiv> 5000"
abbreviation (input) PHY_ADDRESS :: u16 where "PHY_ADDRESS \<equiv> 0x01"

section \<open>Local time\<close>

definition Time_Update :: "u32 \<Rightarrow> u32" where
  "Time_Update LocalTime = LocalTime + SYSTEMTICK_PERIOD_MS"

text \<open>\<open>clk k\<close> is the value the \<open>k\<close>-th read of the volatile \<^verbatim>\<open>LocalTime\<close> finds.\<close>

partial_function (option) delay_loop :: "(nat \<Rightarrow> u32) \<Rightarrow> u32 \<Rightarrow> nat \<Rightarrow> nat option" where
  "delay_loop clk timingdelay k =
     (if timingdelay > clk k then delay_loop clk timingdelay (Suc k) else Some (Suc k))"

definition Delay :: "(nat \<Rightarrow> u32) \<Rightarrow> u32 \<Rightarrow> nat \<Rightarrow> nat option" where
  "Delay clk nCount k = (let timingdelay = clk k + nCount in delay_loop clk timingdelay (Suc k))"

section \<open>Ethernet settings\<close>

datatype lwip_call = tcp_tmr | etharp_tmr | netif_set_link_up | netif_set_link_down

record net =
  TCPTimer :: u32
  ARPTimer :: u32
  EthInitStatus :: u8
  calls :: "lwip_call list"

definition call :: "lwip_call \<Rightarrow> net \<Rightarrow> net" where
  "call c n = n\<lparr>calls := calls n @ [c]\<rparr>"

definition reinit_settings :: ETH_InitTypeDef where
  "reinit_settings = ETH_StructInit
     \<lparr>ETH_AutoNegotiation := 1, ETH_LoopbackMode := 0, ETH_RetryTransmission := 0x00000200,
      ETH_AutomaticPadCRCStrip := 0, ETH_ReceiveAll := 0, ETH_BroadcastFramesReception := 0,
      ETH_PromiscuousMode := 0, ETH_MulticastFramesFilter := 0, ETH_UnicastFramesFilter := 0,
      ETH_DropTCPIPChecksumErrorFrame := 0, ETH_ReceiveStoreForward := 0x02000000,
      ETH_TransmitStoreForward := 0x00200000, ETH_ForwardErrorFrames := 0,
      ETH_ForwardUndersizedGoodFrames := 0, ETH_SecondFrameOperate := 0x00000004,
      ETH_AddressAlignedBeats := 0x02000000, ETH_FixedBurst := 0x00010000,
      ETH_RxDMABurstLength := 0x00400000, ETH_TxDMABurstLength := 0x00002000,
      ETH_DMAArbitration := 0x00004000\<rparr>"

definition ETH_Reinit :: "env \<Rightarrow> net \<times> hist \<Rightarrow> net \<times> hist" where
  "ETH_Reinit env = (\<lambda>(n, h).
     let (r, h) = ETH_Init env reinit_settings PHY_ADDRESS h in (n\<lparr>EthInitStatus := ucast r\<rparr>, h))"

section \<open>Periodic tasks\<close>

definition Eth_Link_ITHandler :: "env \<Rightarrow> net \<times> hist \<Rightarrow> net \<times> hist" where
  "Eth_Link_ITHandler env = (\<lambda>(n, h).
     let (v, h) = ETH_ReadPHYRegister env PHY_ADDRESS PHY_BSR h in
     if v AND PHY_Linked_Status = 0 then
       let (status, h) = ETH_ReadPHYRegister env PHY_ADDRESS PHY_BSR h in
       if status AND (PHY_AutoNego_Complete OR PHY_Linked_Status) \<noteq> 0 then
         if EthInitStatus n \<noteq> 1 then ETH_Reinit env (n, h) else (call netif_set_link_up n, h)
       else (call netif_set_link_down n, h)
     else (n, h))"

definition LwIP_Periodic_Handle :: "env \<Rightarrow> u32 \<Rightarrow> net \<times> hist \<Rightarrow> net \<times> hist" where
  "LwIP_Periodic_Handle env localtime = (\<lambda>(n, h).
     let n = (if localtime - TCPTimer n \<ge> TCP_TMR_INTERVAL then call tcp_tmr (n\<lparr>TCPTimer := localtime\<rparr>) else n)
     in if localtime - ARPTimer n \<ge> ARP_TMR_INTERVAL
        then Eth_Link_ITHandler env (call etharp_tmr (n\<lparr>ARPTimer := localtime\<rparr>), h)
        else (n, h))"

section \<open>The registers these tasks use\<close>

text \<open>They keep to any set of registers that has those of the Ethernet and of the clock controller.\<close>

lemma touches_clocks [touch]:
  "(\<And>q. R (RCC q)) \<Longrightarrow> touches R h g \<Longrightarrow> touches R h (snd (RCC_GetClocksFreq env g))"
  by (auto simp: RCC_GetClocksFreq_def pll_frequency_def Let_def case_prod_beta simp del: rd_simps intro!: touch)

lemma touches_busy_wait [touch]:
  "R (ETH MACMIIAR) \<Longrightarrow> touches R h g \<Longrightarrow> touches R h (snd (mii_busy_wait env lim t g))"
proof (induction env lim t g rule: mii_busy_wait.induct)
  case (1 env lim t g)
  then show ?case by (subst mii_busy_wait.simps) (simp add: Let_def rd_def touches_snoc)
qed

lemma touches_phy [touch]:
  "(\<And>e. R (ETH e)) \<Longrightarrow> touches R h g \<Longrightarrow> touches R h (snd (ETH_ReadPHYRegister env a r g))"
  "(\<And>e. R (ETH e)) \<Longrightarrow> touches R h g \<Longrightarrow> touches R h (snd (ETH_WritePHYRegister env a r v g))"
  by (auto simp: ETH_ReadPHYRegister_def ETH_WritePHYRegister_def Let_def case_prod_beta simp del: rd_simps intro!: touch)

lemma touches_status_wait [touch]:
  "(\<And>e. R (ETH e)) \<Longrightarrow> touches R h g \<Longrightarrow> touches R h (snd (phy_status_wait env a s t g))"
proof (induction env a s t g rule: phy_status_wait.induct)
  case (1 env a s t g)
  have "touches R h (snd (ETH_ReadPHYRegister env a PHY_BSR g))" using 1(2,3) by (intro touch)
  then show ?case
    using 1(1) [OF refl refl prod.collapse] 1(2)
    by (subst phy_status_wait.simps) (simp add: Let_def case_prod_beta)
qed

lemma touches_phy_init [touch]:
  "(\<And>e. R (ETH e)) \<Longrightarrow> touches R h g \<Longrightarrow> touches R h (snd (phy_init env ini a g))"
  by (auto simp: phy_init_def Let_def case_prod_beta intro!: touch)

lemma touches_result:
  "touches R h (snd p) \<Longrightarrow> (\<And>i. touches R h (snd p) \<Longrightarrow> touches R h (snd (F i (snd p)))) \<Longrightarrow>
   touches R h (snd (case fst p of None \<Rightarrow> (e, snd p) | Some i \<Rightarrow> F i (snd p)))"
  by (auto split: option.splits)

lemma touches_eth_init [touch]:
  "(\<And>e. R (ETH e)) \<Longrightarrow> (\<And>q. R (RCC q)) \<Longrightarrow> touches R h g \<Longrightarrow> touches R h (snd (ETH_Init env ini a g))"
  unfolding ETH_Init_def Let_def case_prod_beta
  by (rule touches_result) (simp_all del: rd_simps add: touch)

lemma touches_periodic [touch]:
  "(\<And>e. R (ETH e)) \<Longrightarrow> (\<And>q. R (RCC q)) \<Longrightarrow> touches R h (snd s) \<Longrightarrow>
   touches R h (snd (LwIP_Periodic_Handle env t s))"
  by (auto simp: LwIP_Periodic_Handle_def Eth_Link_ITHandler_def ETH_Reinit_def case_prod_beta Let_def intro!: touch)

section \<open>The delay\<close>

lemma delay_loop_reached:
  "timingdelay \<le> clk (k + m) \<Longrightarrow> \<forall>i < m. clk (k + i) < timingdelay \<Longrightarrow> delay_loop clk timingdelay k = Some (Suc (k + m))"
proof (induction m arbitrary: k)
  case 0
  then show ?case by (subst delay_loop.simps) (simp add: leD)
next
  case (Suc m)
  have "clk k < timingdelay" using Suc.prems(2) by (metis add_0_right zero_less_Suc)
  moreover have "delay_loop clk timingdelay (Suc k) = Some (Suc (Suc k + m))"
    by (rule Suc.IH) (use Suc.prems in \<open>auto simp: add_Suc_right [symmetric] simp del: add_Suc_right\<close>)
  ultimately show ?case by (subst delay_loop.simps) simp
qed

text \<open>Near the end of the range of the counter the sum wraps and the delay is over at once.\<close>

lemma Delay_wraps:
  assumes "unat (clk k) + unat n \<ge> 2 ^ 32" "clk (Suc k) \<ge> clk k"
  shows "Delay clk n k = Some (Suc (Suc k))"
proof -
  have "clk k + n < clk k"
    using assms(1) unsigned_less [of n, where ?'a = nat] unsigned_less [of "clk k", where ?'a = nat]
    by (auto simp: word_less_nat_alt unat_word_ariths(1) mod_if)
  then show ?thesis
    using delay_loop_reached [of "clk k + n" clk "Suc k" 0] assms(2) by (simp add: Delay_def)
qed

section \<open>The timers\<close>

text \<open>The times at which \<^verbatim>\<open>tcp_tmr\<close> runs when the main loop polls at the times \<open>ts\<close>, counted without wrap.\<close>

definition calls_tcp :: "env \<Rightarrow> nat \<Rightarrow> net \<times> hist \<Rightarrow> bool" where
  "calls_tcp env t s \<longleftrightarrow> tcp_tmr \<in> set (drop (length (calls (fst s))) (calls (fst (LwIP_Periodic_Handle env (of_nat t) s))))"

primrec tcp_times :: "env \<Rightarrow> nat list \<Rightarrow> net \<times> hist \<Rightarrow> nat list" where
  "tcp_times env [] s = []"
| "tcp_times env (t # ts) s =
     (if calls_tcp env t s then [t] else []) @ tcp_times env ts (LwIP_Periodic_Handle env (of_nat t) s)"

lemma link_keeps:
  "TCPTimer (fst (Eth_Link_ITHandler env s)) = TCPTimer (fst s)"
  "\<exists>cs. calls (fst (Eth_Link_ITHandler env s)) = calls (fst s) @ cs \<and> tcp_tmr \<notin> set cs"
  by (auto simp: Eth_Link_ITHandler_def ETH_Reinit_def call_def case_prod_beta Let_def)

lemma periodic_tcp:
  "calls_tcp env t s \<longleftrightarrow> TCP_TMR_INTERVAL \<le> of_nat t - TCPTimer (fst s)"
  "TCPTimer (fst (LwIP_Periodic_Handle env (of_nat t) s)) = (if calls_tcp env t s then of_nat t else TCPTimer (fst s))"
proof -
  obtain n h where s: "s = (n, h)" by (cases s)
  let ?n = "if TCP_TMR_INTERVAL \<le> of_nat t - TCPTimer n then call tcp_tmr (n\<lparr>TCPTimer := of_nat t\<rparr>) else n"
  let ?m = "(call etharp_tmr (?n\<lparr>ARPTimer := of_nat t\<rparr>), h)"
  have e: "LwIP_Periodic_Handle env (of_nat t) s = (if of_nat t - ARPTimer ?n \<ge> ARP_TMR_INTERVAL then Eth_Link_ITHandler env ?m else (?n, h))"
    by (simp add: LwIP_Periodic_Handle_def s)
  obtain cs where cs: "calls (fst (Eth_Link_ITHandler env ?m)) = calls (fst ?m) @ cs" "tcp_tmr \<notin> set cs"
    using link_keeps(2) [of env ?m] by blast
  show 1: "calls_tcp env t s \<longleftrightarrow> TCP_TMR_INTERVAL \<le> of_nat t - TCPTimer (fst s)"
    unfolding calls_tcp_def e using cs by (auto simp: s call_def)
  show "TCPTimer (fst (LwIP_Periodic_Handle env (of_nat t) s)) = (if calls_tcp env t s then of_nat t else TCPTimer (fst s))"
    unfolding 1 e using link_keeps(1) [of env ?m] by (auto simp: s call_def)
qed

lemma tcp_due:
  assumes "prev \<le> t" "t < prev + 2 ^ 32"
  shows "TCP_TMR_INTERVAL \<le> (of_nat t - of_nat prev :: u32) \<longleftrightarrow> prev + 250 \<le> t"
proof -
  have "(of_nat t - of_nat prev :: u32) = of_nat (t - prev)" using assms(1) by simp
  moreover have "unat (of_nat (t - prev) :: u32) = t - prev"
    using assms by (simp add: unsigned_of_nat take_bit_nat_eq_self del: of_nat_diff)
  ultimately show ?thesis using assms(1) by (simp add: word_le_nat_alt del: of_nat_diff) linarith
qed

lemma tcp_times_spaced:
  "TCPTimer (fst s) = of_nat prev \<Longrightarrow> prev \<le> t0 \<Longrightarrow> t0 < prev + 250 \<Longrightarrow>
   successively (\<lambda>a b. a \<le> b \<and> b < a + (2 ^ 32 - 250)) (t0 # ts) \<Longrightarrow>
   successively (\<lambda>a b. a + 250 \<le> b) (prev # tcp_times env ts s) \<and>
   (\<forall>t \<in> set ts. \<exists>k \<in> set (prev # tcp_times env ts s). k \<le> t \<and> t < k + 250)"
proof (induction ts arbitrary: s prev t0)
  case (Cons t ts)
  have t: "t0 \<le> t" "t < t0 + (2 ^ 32 - 250)" "successively (\<lambda>a b. a \<le> b \<and> b < a + (2 ^ 32 - 250)) (t # ts)"
    using Cons.prems(4) by simp_all
  let ?s = "LwIP_Periodic_Handle env (of_nat t) s"
  have due: "calls_tcp env t s \<longleftrightarrow> prev + 250 \<le> t"
    unfolding periodic_tcp(1) Cons.prems(1) by (rule tcp_due) (use t Cons.prems(2,3) in simp_all)
  show ?case
  proof (cases "prev + 250 \<le> t")
    case True
    have "TCPTimer (fst ?s) = of_nat t" using periodic_tcp(2) [of env t s] due True by simp
    from Cons.IH [OF this _ _ t(3)] show ?thesis using True due by (auto simp: successively_Cons)
  next
    case False
    have "TCPTimer (fst ?s) = of_nat prev" using periodic_tcp(2) [of env t s] due False Cons.prems(1) by simp
    from Cons.IH [OF this _ _ t(3)] show ?thesis using False due t(1) Cons.prems(2) by (auto simp: successively_Cons)
  qed
qed simp

text \<open>C32: \<^verbatim>\<open>tcp_tmr\<close> runs at its interval however long the board is up: polled in time order with gaps shorter
  than the counter's range, \<^verbatim>\<open>LwIP_Periodic_Handle\<close> never runs it twice within 250 units of \<^verbatim>\<open>LocalTime\<close> and never
  leaves a poll 250 units or more after the last run without one, also when \<^verbatim>\<open>LocalTime\<close> wraps around.\<close>

theorem LwIP_timer_wraps:
  assumes "TCPTimer (fst s) = of_nat began"
    and "successively (\<lambda>a b. a \<le> b \<and> b < a + (2 ^ 32 - 250)) (began # ts)"
  shows "successively (\<lambda>a b. a + 250 \<le> b) (began # tcp_times env ts s) \<and>
    (\<forall>t \<in> set ts. \<exists>k \<in> set (began # tcp_times env ts s). k \<le> t \<and> t < k + 250)"
  by (rule tcp_times_spaced [OF assms(1) _ _ assms(2)]) simp_all

lemma LwIP_timer_wraps_witness:
  "let s = (\<lparr>TCPTimer = 0xFFFFFFF0, ARPTimer = 0xFFFFFFF0, EthInitStatus = 1, calls = []\<rparr>, []) in
   \<exists>k \<in> set (0xFFFFFFF0 # tcp_times (\<lambda>_ _. 0) [0x100000000, 0x100000100] s). k \<le> 0x100000100 \<and> 0x100000100 < k + 250"
proof -
  let ?s = "(\<lparr>TCPTimer = 0xFFFFFFF0, ARPTimer = 0xFFFFFFF0, EthInitStatus = 1, calls = []\<rparr>, [])"
  show ?thesis
    using LwIP_timer_wraps [where s = "?s" and began = "0xFFFFFFF0" and env = "\<lambda>_ _. 0" and ts = "[0x100000000, 0x100000100]"] by (simp add: Let_def)
qed

end
