(* ===== verification/Board.thy ===== *)
theory Board
  imports Xvc Nvic Usart Netconf
begin

text \<open>
  Setting up the board, \<^verbatim>\<open>stm32f107.c\<close>: clocks, pins, interrupts, serial port, Ethernet, and the settings
  the board keeps in flash; with the LED functions of \<^verbatim>\<open>stm32_eval.c\<close> and \<^verbatim>\<open>fputc\<close> of \<^verbatim>\<open>main.c\<close>, which
  \<^verbatim>\<open>printf\<close> uses. The busy loops without a register access are left out; the reads of \<^verbatim>\<open>LocalTime\<close> in the
  delays are numbered and answered by \<open>clk\<close>. A result None is a loop that never ends.
\<close>

section \<open>LEDs\<close>

text \<open>The two LEDs the tables of the driver have entries for.\<close>

datatype Led_TypeDef = LED1 | LED2

definition led_port :: "Led_TypeDef \<Rightarrow> port" where "led_port Led = GPIOC"
fun led_pin :: "Led_TypeDef \<Rightarrow> u16" where "led_pin LED1 = GPIO_Pin 7" | "led_pin LED2 = GPIO_Pin 8"
definition led_clk :: "Led_TypeDef \<Rightarrow> u32" where "led_clk Led = 0x00000010"

definition STM_EVAL_LEDInit :: "env \<Rightarrow> Led_TypeDef \<Rightarrow> hist \<Rightarrow> hist" where
  "STM_EVAL_LEDInit env Led h =
     (let h = RCC_APB2PeriphClockCmd env (led_clk Led) ENABLE h
      in GPIO_Init env (led_port Led) \<lparr>init_Pin = led_pin Led, init_Speed = GPIO_Speed_50MHz, init_Mode = GPIO_Mode_Out_PP\<rparr> h)"

definition STM_EVAL_LEDOn :: "Led_TypeDef \<Rightarrow> hist \<Rightarrow> hist" where
  "STM_EVAL_LEDOn Led = wr (BSRR (led_port Led)) (ucast (led_pin Led))"

definition STM_EVAL_LEDOff :: "Led_TypeDef \<Rightarrow> hist \<Rightarrow> hist" where
  "STM_EVAL_LEDOff Led = wr (BRR (led_port Led)) (ucast (led_pin Led))"

definition STM_EVAL_LEDToggle :: "env \<Rightarrow> Led_TypeDef \<Rightarrow> hist \<Rightarrow> hist" where
  "STM_EVAL_LEDToggle env Led h =
     (let (v, h) = rd env (ODR (led_port Led)) h in wr (ODR (led_port Led)) (v XOR ucast (led_pin Led)) h)"

section \<open>Pins\<close>

definition pins :: "env \<Rightarrow> port \<Rightarrow> u16 \<Rightarrow> GPIOMode \<Rightarrow> hist \<Rightarrow> hist" where
  "pins env p pin mode = GPIO_Init env p \<lparr>init_Pin = pin, init_Speed = GPIO_Speed_50MHz, init_Mode = mode\<rparr>"

definition GPIO_Configuration :: "env \<Rightarrow> hist \<Rightarrow> hist" where
  "GPIO_Configuration env h =
     (let h = pins env GPIOA (GPIO_Pin 2) GPIO_Mode_AF_PP h;
          h = pins env GPIOC (GPIO_Pin 1 OR GPIO_Pin 2) GPIO_Mode_AF_PP h;
          h = pins env GPIOB (GPIO_Pin 5 OR GPIO_Pin 8 OR GPIO_Pin 11 OR GPIO_Pin 12 OR GPIO_Pin 13) GPIO_Mode_AF_PP h;
          h = GPIO_PinRemapConfig env 0x00200020 ENABLE h;
          h = pins env GPIOA (GPIO_Pin 0 OR GPIO_Pin 1 OR GPIO_Pin 3) GPIO_Mode_IN_FLOATING h;
          h = pins env GPIOB (GPIO_Pin 10) GPIO_Mode_IN_FLOATING h;
          h = pins env GPIOC (GPIO_Pin 3) GPIO_Mode_IN_FLOATING h;
          h = pins env GPIOD (GPIO_Pin 8 OR GPIO_Pin 9 OR GPIO_Pin 10 OR GPIO_Pin 11 OR GPIO_Pin 12) GPIO_Mode_IN_FLOATING h;
          h = pins env GPIOD (GPIO_Pin 2 OR GPIO_Pin 3 OR GPIO_Pin 4) GPIO_Mode_Out_PP h;
          h = pins env GPIOD (GPIO_Pin 5) GPIO_Mode_IN_FLOATING h;
          h = pins env GPIOB (GPIO_Pin 14) GPIO_Mode_IN_FLOATING h
      in pins env GPIOB (GPIO_Pin 15) GPIO_Mode_Out_PP h)"

definition XVC_PHY_RST :: "(nat \<Rightarrow> u32) \<Rightarrow> nat \<times> hist \<Rightarrow> (nat \<times> hist) option" where
  "XVC_PHY_RST clk = (\<lambda>(k, h).
     let h = GPIO_ResetBits GPIOB (GPIO_Pin 15) h;
         h = GPIO_SetBits GPIOB (GPIO_Pin 15) h
     in Option.bind (Delay clk 1 k) (\<lambda>k.
        let h = GPIO_ResetBits GPIOB (GPIO_Pin 15) h in
        Option.bind (Delay clk 1 k) (\<lambda>k.
        let h = GPIO_SetBits GPIOB (GPIO_Pin 15) h in Some (k, h))))"

definition XVC_Init :: "env \<Rightarrow> hist \<Rightarrow> hist" where
  "XVC_Init env h =
     (let h = pins env GPIOE (GPIO_Pin 0 OR GPIO_Pin 1 OR GPIO_Pin 2 OR GPIO_Pin 3 OR GPIO_Pin 4 OR GPIO_Pin 5 OR
                              GPIO_Pin 6 OR GPIO_Pin 7) GPIO_Mode_Out_PP h;
          h = pins env GPIOD (GPIO_Pin 0 OR GPIO_Pin 1) GPIO_Mode_Out_PP h;
          h = pins env GPIOE (GPIO_Pin 8 OR GPIO_Pin 9 OR GPIO_Pin 10 OR GPIO_Pin 11 OR GPIO_Pin 12 OR GPIO_Pin 13 OR
                              GPIO_Pin 14 OR GPIO_Pin 15) GPIO_Mode_Out_PP h
      in XVC_CS_H h)"

section \<open>Interrupts and the serial port\<close>

definition NVIC_Configuration :: "env \<Rightarrow> hist \<Rightarrow> hist" where
  "NVIC_Configuration env h =
     (let h = NVIC_SetVectorTable NVIC_VectTab_FLASH 0 h;
          h = NVIC_PriorityGroupConfig NVIC_PriorityGroup_2 h
      in NVIC_Init env \<lparr>NVIC_IRQChannel = 61, NVIC_IRQChannelPreemptionPriority = 2,
           NVIC_IRQChannelSubPriority = 0, NVIC_IRQChannelCmd = ENABLE\<rparr> h)"

definition Usart3Init :: "env \<Rightarrow> hist \<Rightarrow> hist" where
  "Usart3Init env h =
     (let h = RCC_APB1PeriphClockCmd env 0x00040000 ENABLE h;
          h = GPIO_PinRemapConfig env 0x00140010 ENABLE h;
          h = pins env GPIOC (GPIO_Pin 10) GPIO_Mode_AF_PP h;
          h = pins env GPIOC (GPIO_Pin 11) GPIO_Mode_IN_FLOATING h;
          h = NVIC_Init env \<lparr>NVIC_IRQChannel = 39, NVIC_IRQChannelPreemptionPriority = 3,
                NVIC_IRQChannelSubPriority = 3, NVIC_IRQChannelCmd = ENABLE\<rparr> h;
          h = USART_Init env USART3 \<lparr>USART_BaudRate = 115200, USART_WordLength = USART_WordLength_8b,
                USART_StopBits = USART_StopBits_1, USART_Parity = USART_Parity_No,
                USART_Mode = USART_Mode_Rx OR USART_Mode_Tx,
                USART_HardwareFlowControl = USART_HardwareFlowControl_None\<rparr> h;
          h = USART_ITConfig env USART3 USART_IT_RXNE ENABLE h
      in USART_Cmd env USART3 ENABLE h)"

partial_function (option) flag_loop :: "env \<Rightarrow> u16 \<Rightarrow> hist \<Rightarrow> hist option" where
  "flag_loop env flag h =
     (let (st, h) = USART_GetFlagStatus env USART3 flag h in if st = RESET then flag_loop env flag h else Some h)"

definition fputc :: "env \<Rightarrow> u8 \<Rightarrow> hist \<Rightarrow> hist option" where
  "fputc env ch h = flag_loop env USART_FLAG_TC (USART_SendData USART3 (ucast ch) h)"

primrec print_chars :: "env \<Rightarrow> u8 list \<Rightarrow> hist \<Rightarrow> hist option" where
  "print_chars env [] h = Some h"
| "print_chars env (c # cs) h = Option.bind (fputc env c h) (print_chars env cs)"

primrec serialSend :: "env \<Rightarrow> u8 list \<Rightarrow> hist \<Rightarrow> hist option" where
  "serialSend env [] h = Some h"
| "serialSend env (b # bs) h =
     Option.bind (flag_loop env USART_FLAG_TXE (USART_SendData USART3 (ucast b) h)) (serialSend env bs)"

record UART_RX_BUF_TYPE =
  rbuf :: "u8 list"
  rx_cnt :: u8
  valid :: u16

abbreviation (input) UART_RX_BUF_SIZE :: int where "UART_RX_BUF_SIZE \<equiv> 64"
abbreviation (input) STA_OK :: u16 where "STA_OK \<equiv> 0"
abbreviation (input) STA_ERR :: u16 where "STA_ERR \<equiv> 1"

definition writeUartBuf :: "u8 list \<Rightarrow> u8 \<Rightarrow> UART_RX_BUF_TYPE \<Rightarrow> u16 \<times> UART_RX_BUF_TYPE" where
  "writeUartBuf buf len rxbuf =
     (if UART_RX_BUF_SIZE < uint (rx_cnt rxbuf) + uint len then (STA_ERR, rxbuf)
      else let off = unat (rx_cnt rxbuf);
               rxbuf = rxbuf\<lparr>rbuf := fold (\<lambda>i b. b[off + i := buf ! i]) [0..<unat len] (rbuf rxbuf)\<rparr>
           in (STA_OK, rxbuf\<lparr>rx_cnt := rx_cnt rxbuf + len\<rparr>))"

definition setUartBufFlag :: "UART_RX_BUF_TYPE \<Rightarrow> UART_RX_BUF_TYPE" where
  "setUartBufFlag rxbuf = rxbuf\<lparr>valid := STA_OK\<rparr>"

text \<open>The bytes stored in the caller's buffer; their number is the result of the C function.\<close>

definition readUartBuf :: "UART_RX_BUF_TYPE \<Rightarrow> u8 list \<times> UART_RX_BUF_TYPE" where
  "readUartBuf rxbuf =
     (if valid rxbuf = STA_OK then
        (map (\<lambda>i. rbuf rxbuf ! i) [0..<unat (rx_cnt rxbuf)], rxbuf\<lparr>rx_cnt := 0, valid := STA_ERR\<rparr>)
      else ([], rxbuf))"

definition serialRecv :: "UART_RX_BUF_TYPE \<Rightarrow> u8 list \<times> UART_RX_BUF_TYPE" where
  "serialRecv = readUartBuf"

section \<open>Ethernet\<close>

partial_function (option) reset_wait :: "env \<Rightarrow> hist \<Rightarrow> hist option" where
  "reset_wait env h = (let (st, h) = ETH_GetSoftwareResetStatus env h in if st = SET then reset_wait env h else Some h)"

definition Ethernet_Configuration :: "env \<Rightarrow> net \<times> hist \<Rightarrow> (net \<times> hist) option" where
  "Ethernet_Configuration env = (\<lambda>(n, h).
     let h = GPIO_ETH_MediaInterfaceConfig 0x00000000 h;
         h = RCC_MCOConfig 0x06 h;
         h = ETH_DeInit env h;
         h = ETH_SoftwareReset env h
     in Option.bind (reset_wait env h) (\<lambda>h.
        let (n, h) = ETH_Reinit env (n, h)
        in Some (n, ETH_DMAITConfig env (ETH_DMA_IT_NIS OR ETH_DMA_IT_R) ENABLE h)))"

section \<open>The whole set-up\<close>

definition System_Setup :: "env \<Rightarrow> (nat \<Rightarrow> u32) \<Rightarrow> net \<times> hist \<Rightarrow> (net \<times> hist) option" where
  "System_Setup env clk = (\<lambda>(n, h).
     Option.bind (SystemInit env h) (\<lambda>h.
     let (RCC_Clocks, h) = RCC_GetClocksFreq env h;
         (_, h) = SysTick_Config (SYSCLK_Frequency RCC_Clocks div 10000) h;
         h = NVIC_SetPriority SysTick_IRQn 1 h;
         h = RCC_AHBPeriphClockCmd env (0x00004000 OR 0x00008000 OR 0x00010000) ENABLE h;
         h = RCC_APB2PeriphClockCmd env (0x04 OR 0x08 OR 0x10 OR 0x20 OR 0x40 OR 0x01) ENABLE h;
         h = NVIC_Configuration env h;
         h = GPIO_Configuration env h
     in Option.bind (XVC_PHY_RST clk (0, h)) (\<lambda>(_, h).
     let h = XVC_Init env h;
         h = Usart3Init env h;
         h = SPI_softInit h;
         h = STM_EVAL_LEDInit env LED1 h;
         h = STM_EVAL_LEDInit env LED2 h
     in Ethernet_Configuration env (n, h))))"

section \<open>Settings\<close>

definition setDefaultIpInfo :: "app \<Rightarrow> app" where
  "setDefaultIpInfo a =
     (let i = info_of (replicate 112 0xFF);
          i = i\<lparr>ip := cfg_ip defaultNetCfgInfo @ drop 4 (ip i)\<rparr>;
          i = i\<lparr>ipValid := DATA_VALID_VAL\<rparr>;
          i = i\<lparr>mac := cfg_mac defaultNetCfgInfo @ drop 6 (mac i)\<rparr>;
          i = i\<lparr>macValid := DATA_VALID_VAL\<rparr>;
          i = i\<lparr>port := le16 (serverPort defaultNetCfgInfo) @ drop 2 (port i)\<rparr>;
          i = i\<lparr>portValid := DATA_VALID_VAL\<rparr>
      in a\<lparr>ipInfoFlash := i\<rparr>)"

definition syncIpInfo :: "env \<Rightarrow> app \<Rightarrow> hist \<Rightarrow> (app \<times> hist) option" where
  "syncIpInfo env a h =
     (let (sta, info, h) = readIpInfo env (ipInfoFlash a) h;
          a = a\<lparr>ipInfoFlash := info\<rparr>
      in if FLASH_OK \<noteq> sta then
           Option.bind (print_chars env ([13, 10] @ map of_char ''readIpInfo fail,setup default ip infomation'' @ [13, 10]) h) (\<lambda>h.
           Some (setDefaultIpInfo a, h))
         else
           let c = netCfgInfo a;
               c = (if DATA_VALID_VAL = ipValid info then c\<lparr>cfg_ip := take 4 (ip info)\<rparr> else c);
               c = (if DATA_VALID_VAL = macValid info then c\<lparr>cfg_mac := take 6 (mac info)\<rparr> else c);
               c = (if DATA_VALID_VAL = portValid info
                    then c\<lparr>serverPort := word16_of (port info ! 0) (port info ! 1)\<rparr> else c)
           in Some (a\<lparr>netCfgInfo := c\<rparr>, h))"

section \<open>The receive buffer of the serial port\<close>

text \<open>A well-formed buffer, and the bytes waiting in it.\<close>

definition uart_ok :: "UART_RX_BUF_TYPE \<Rightarrow> bool" where
  "uart_ok b \<longleftrightarrow> length (rbuf b) = 64 \<and> rx_cnt b \<le> 64"

definition waiting :: "UART_RX_BUF_TYPE \<Rightarrow> u8 list" where
  "waiting b = take (unat (rx_cnt b)) (rbuf b)"

lemma fold_store:
  "off + n \<le> length b \<Longrightarrow> fold (\<lambda>i b. b[off + i := f i]) [0..<n] b = take off b @ map f [0..<n] @ drop (off + n) b"
proof (induction n)
  case (Suc n)
  have d: "drop (off + n) b = b ! (off + n) # drop (Suc (off + n)) b"
    using Suc.prems by (simp add: Cons_nth_drop_Suc)
  show ?case using Suc by (simp add: d list_update_append)
qed simp

lemma writeUartBuf_fits:
  assumes "uart_ok b" "length bs = unat len" "length (waiting b) + unat len \<le> 64"
  shows "\<exists>b'. writeUartBuf bs len b = (STA_OK, b') \<and> uart_ok b' \<and> waiting b' = waiting b @ bs \<and> valid b' = valid b"
proof -
  let ?off = "unat (rx_cnt b)"
  have b: "length (rbuf b) = 64" "?off \<le> 64" using assms(1) by (simp_all add: uart_ok_def word_le_nat_alt)
  then have fit: "?off + unat len \<le> 64" using assms(3) by (simp add: waiting_def)
  then have cnt: "unat (rx_cnt b + len) = ?off + unat len" by (simp add: unat_word_ariths)
  have bs: "map ((!) bs) [0..<unat len] = bs" using assms(2) by (metis map_nth)
  have f: "fold (\<lambda>i r. r[?off + i := bs ! i]) [0..<unat len] (rbuf b) = take ?off (rbuf b) @ bs @ drop (?off + unat len) (rbuf b)"
    using fold_store [of ?off "unat len" "rbuf b" "(!) bs"] fit b by (simp add: bs)
  have "\<not> 64 < uint (rx_cnt b) + uint len" using fit by (simp only: uint_nat)
  then have "writeUartBuf bs len b =
      (STA_OK, b\<lparr>rbuf := take ?off (rbuf b) @ bs @ drop (?off + unat len) (rbuf b), rx_cnt := rx_cnt b + len\<rparr>)"
    by (simp add: writeUartBuf_def Let_def f)
  moreover have "uart_ok (b\<lparr>rbuf := take ?off (rbuf b) @ bs @ drop (?off + unat len) (rbuf b), rx_cnt := rx_cnt b + len\<rparr>)"
    using b fit assms(2) by (simp add: uart_ok_def word_le_nat_alt cnt)
  ultimately show ?thesis using b assms(2) by (simp add: waiting_def cnt min_def)
qed

lemma writeUartBuf_full:
  assumes "uart_ok b" "64 < length (waiting b) + unat len"
  shows "writeUartBuf bs len b = (STA_ERR, b)"
proof -
  have "64 < unat (rx_cnt b) + unat len" using assms by (simp add: waiting_def uart_ok_def word_le_nat_alt min_def split: if_splits)
  then have "64 < uint (rx_cnt b) + uint len" by (simp only: uint_nat)
  then show ?thesis by (simp add: writeUartBuf_def)
qed

lemma readUartBuf_valid:
  assumes "uart_ok b" "valid b = STA_OK"
  shows "readUartBuf b = (waiting b, b\<lparr>rx_cnt := 0, valid := STA_ERR\<rparr>)"
proof -
  have "unat (rx_cnt b) \<le> length (rbuf b)" using assms(1) by (simp add: uart_ok_def word_le_nat_alt)
  then have "map (\<lambda>i. rbuf b ! i) [0..<unat (rx_cnt b)] = waiting b"
    by (intro nth_equalityI) (simp_all add: waiting_def)
  then show ?thesis using assms(2) by (simp add: readUartBuf_def)
qed

text \<open>
  C30: the receive buffer of the serial port is a bounded queue that keeps its type. From a buffer of 64 bytes
  with at most 64 waiting, every operation gives such a buffer again: a write stores all its bytes behind the
  waiting ones, or nothing and says so when they do not fit; a read delivers the waiting bytes in order
  once the buffer is marked valid and empties it, and otherwise delivers nothing.
\<close>

theorem uart_buffer_queue:
  assumes "uart_ok b" "length bs = unat len"
  shows "(if length (waiting b) + length bs \<le> 64
      then fst (writeUartBuf bs len b) = STA_OK \<and> uart_ok (snd (writeUartBuf bs len b)) \<and>
        waiting (snd (writeUartBuf bs len b)) = waiting b @ bs
      else writeUartBuf bs len b = (STA_ERR, b)) \<and>
    uart_ok (setUartBufFlag b) \<and> waiting (setUartBufFlag b) = waiting b \<and>
    serialRecv (setUartBufFlag b) = (waiting b, b\<lparr>rx_cnt := 0, valid := STA_ERR\<rparr>) \<and>
    uart_ok (snd (serialRecv b)) \<and> (valid b \<noteq> STA_OK \<longrightarrow> serialRecv b = ([], b))"
proof (intro conjI)
  show "if length (waiting b) + length bs \<le> 64
      then fst (writeUartBuf bs len b) = STA_OK \<and> uart_ok (snd (writeUartBuf bs len b)) \<and>
        waiting (snd (writeUartBuf bs len b)) = waiting b @ bs
      else writeUartBuf bs len b = (STA_ERR, b)"
    using writeUartBuf_fits [OF assms] writeUartBuf_full [OF assms(1)] assms(2) by auto
  show flag: "uart_ok (setUartBufFlag b)" "waiting (setUartBufFlag b) = waiting b"
    using assms(1) by (simp_all add: setUartBufFlag_def uart_ok_def waiting_def)
  show "serialRecv (setUartBufFlag b) = (waiting b, b\<lparr>rx_cnt := 0, valid := STA_ERR\<rparr>)"
    using readUartBuf_valid [of "setUartBufFlag b"] flag by (simp add: serialRecv_def) (simp add: setUartBufFlag_def)
  show "uart_ok (snd (serialRecv b))" "valid b \<noteq> STA_OK \<longrightarrow> serialRecv b = ([], b)"
    using assms(1) readUartBuf_valid [OF assms(1)]
    by (cases "valid b = STA_OK"; auto simp: serialRecv_def readUartBuf_def uart_ok_def)+
qed

theorem uart_buffer_queue_witness:
  "fst (serialRecv (setUartBufFlag (snd (writeUartBuf [1, 2] 2 \<lparr>rbuf = replicate 64 0, rx_cnt = 0, valid = STA_ERR\<rparr>)))) = [1, 2]"
proof -
  let ?b = "\<lparr>rbuf = replicate 64 0, rx_cnt = 0, valid = STA_ERR\<rparr>"
  let ?w = "snd (writeUartBuf [1, 2] 2 ?b)"
  have ok: "uart_ok ?b" "waiting ?b = []" by (simp_all add: uart_ok_def waiting_def)
  have w: "uart_ok ?w" "waiting ?w = [1, 2]"
    using uart_buffer_queue [OF ok(1), of "[1, 2]" 2] unfolding ok(2) by simp_all
  show ?thesis using uart_buffer_queue [OF w(1), of "[]" 0] unfolding w(2) by simp
qed

end
