(* ===== verification/Restart.thy ===== *)
theory Restart
  imports Board
begin

text \<open>
  The settings of the board across a restart: the command that stores them and \<^verbatim>\<open>syncIpInfo\<close>, which the
  next start of the firmware calls, meet only through the flash memory.
\<close>

section \<open>Storing\<close>

lemma sealed_members [simp]:
  "ip (sealed i) = ip i" "ipValid (sealed i) = ipValid i" "mac (sealed i) = mac i" "macValid (sealed i) = macValid i"
  "port (sealed i) = port i" "portValid (sealed i) = portValid i" "netmask (sealed i) = netmask i" "gw (sealed i) = gw i"
  by (simp_all add: sealed_def Let_def)

text \<open>What each setter leaves in memory and in flash.\<close>

lemma ipaddrSet_saves:
  assumes "fpec_env m env" "flash_idle (fdev_of m h)" "wf_info (ipInfoFlash a)" "length c = 4"
    and i: "i = (ipInfoFlash a)\<lparr>ip := c @ drop 4 (ip (ipInfoFlash a)), ipValid := DATA_VALID_VAL\<rparr>"
  shows "\<exists>h'. ipaddrSet env c a h = (True, a\<lparr>ipInfoFlash := sealed i\<rparr>, h') \<and> flash_idle (fdev_of m h') \<and>
    holds_info (cells (fdev_of m h')) i"
proof -
  have "wf_info i" using assms(3,4) by (simp add: i wf_info_def)
  from IpInfo_saved [OF assms(1,2) this] show ?thesis
    by (auto simp: ipaddrSet_def Let_def case_prod_beta assms(4) simp flip: i)
qed

lemma macaddrSet_saves:
  assumes "fpec_env m env" "flash_idle (fdev_of m h)" "wf_info (ipInfoFlash a)" "length c = 6"
    and i: "i = (ipInfoFlash a)\<lparr>mac := c @ drop 6 (mac (ipInfoFlash a)), macValid := DATA_VALID_VAL\<rparr>"
  shows "\<exists>h'. macaddrSet env c a h = (True, a\<lparr>ipInfoFlash := sealed i\<rparr>, h') \<and> flash_idle (fdev_of m h') \<and>
    holds_info (cells (fdev_of m h')) i"
proof -
  have "wf_info i" using assms(3,4) by (simp add: i wf_info_def)
  from IpInfo_saved [OF assms(1,2) this] show ?thesis
    by (auto simp: macaddrSet_def Let_def case_prod_beta assms(4) simp flip: i)
qed

lemma portSet_saves:
  assumes "fpec_env m env" "flash_idle (fdev_of m h)" "wf_info (ipInfoFlash a)"
    and i: "i = (ipInfoFlash a)\<lparr>port := le16 p @ drop 2 (port (ipInfoFlash a)), portValid := DATA_VALID_VAL\<rparr>"
  shows "\<exists>h'. portSet env p a h = (True, a\<lparr>ipInfoFlash := sealed i\<rparr>, h') \<and> flash_idle (fdev_of m h') \<and>
    holds_info (cells (fdev_of m h')) i"
proof -
  have "wf_info i" using assms(3) by (simp add: i wf_info_def le16_def)
  from IpInfo_saved [OF assms(1,2) this] show ?thesis
    by (auto simp: portSet_def Let_def case_prod_beta simp flip: i)
qed

text \<open>The settings a record carries.\<close>

definition carries :: "IP_INFO_TYPE \<Rightarrow> u8 list \<Rightarrow> u8 list \<Rightarrow> u16 \<Rightarrow> bool" where
  "carries i ip4 mac6 p \<longleftrightarrow> wf_info i \<and> take 4 (ip i) = ip4 \<and> ipValid i = DATA_VALID_VAL \<and>
     take 6 (mac i) = mac6 \<and> macValid i = DATA_VALID_VAL \<and> take 2 (port i) = le16 p \<and> portValid i = DATA_VALID_VAL"

lemma sets_save:
  assumes f: "fpec_env m env" "flash_idle (fdev_of m h)" "wf_info (ipInfoFlash a)" and l: "length ip4 = 4" "length mac6 = 6"
  shows "\<exists>a' h' i. if_result (if_result (ipaddrSet env ip4 a h) (macaddrSet env mac6)) (portSet env p) = (True, a', h') \<and>
    sent a' = sent a \<and> flash_idle (fdev_of m h') \<and> holds_info (cells (fdev_of m h')) i \<and> carries i ip4 mac6 p"
proof -
  define i1 where "i1 = (ipInfoFlash a)\<lparr>ip := ip4 @ drop 4 (ip (ipInfoFlash a)), ipValid := DATA_VALID_VAL\<rparr>"
  obtain h1 where h1: "ipaddrSet env ip4 a h = (True, a\<lparr>ipInfoFlash := sealed i1\<rparr>, h1)" "flash_idle (fdev_of m h1)"
    using ipaddrSet_saves [OF f l(1) i1_def] by blast
  have w1: "wf_info i1" using f(3) l by (simp add: i1_def wf_info_def)
  define a1 where "a1 = a\<lparr>ipInfoFlash := sealed i1\<rparr>"
  define i2 where "i2 = (ipInfoFlash a1)\<lparr>mac := mac6 @ drop 6 (mac (ipInfoFlash a1)), macValid := DATA_VALID_VAL\<rparr>"
  have wa1: "wf_info (ipInfoFlash a1)" using w1 by (simp add: a1_def)
  obtain h2 where h2: "macaddrSet env mac6 a1 h1 = (True, a1\<lparr>ipInfoFlash := sealed i2\<rparr>, h2)" "flash_idle (fdev_of m h2)"
    using macaddrSet_saves [OF f(1) h1(2) wa1 l(2) i2_def] by blast
  have w2: "wf_info i2" using wa1 l by (simp add: i2_def wf_info_def)
  define a2 where "a2 = a1\<lparr>ipInfoFlash := sealed i2\<rparr>"
  define i3 where "i3 = (ipInfoFlash a2)\<lparr>port := le16 p @ drop 2 (port (ipInfoFlash a2)), portValid := DATA_VALID_VAL\<rparr>"
  have wa2: "wf_info (ipInfoFlash a2)" using w2 by (simp add: a2_def)
  obtain h3 where h3: "portSet env p a2 h2 = (True, a2\<lparr>ipInfoFlash := sealed i3\<rparr>, h3)" "flash_idle (fdev_of m h3)"
      "holds_info (cells (fdev_of m h3)) i3"
    using portSet_saves [OF f(1) h2(2) wa2 i3_def] by blast
  have "carries i3 ip4 mac6 p"
    using w1 l by (simp add: carries_def i3_def i2_def i1_def a1_def a2_def wf_info_def le16_def)
  moreover have "if_result (if_result (ipaddrSet env ip4 a h) (macaddrSet env mac6)) (portSet env p) =
      (True, a2\<lparr>ipInfoFlash := sealed i3\<rparr>, h3)"
    using h1(1) h2(1) h3(1) by (simp add: if_result_def a1_def a2_def)
  moreover have "sent (a2\<lparr>ipInfoFlash := sealed i3\<rparr>) = sent a" by (simp add: a1_def a2_def)
  ultimately show ?thesis using h3(2,3) by blast
qed

section \<open>The command\<close>

definition set_frame :: "u8 list \<Rightarrow> u16 \<Rightarrow> u8 list \<Rightarrow> u8 list" where
  "set_frame ip4 p mac6 = client_frame ICD_CMD_PARA_SET (ip4 @ le16 p @ mac6)"

lemma set_frame_parts:
  assumes "length ip4 = 4" "length mac6 = 6"
  shows "length (set_frame ip4 p mac6) = 32" "take 4 (drop 12 (set_frame ip4 p mac6)) = ip4"
    "word16_of (set_frame ip4 p mac6 ! 16) (set_frame ip4 p mac6 ! 17) = p"
    "take 6 (drop 18 (set_frame ip4 p mac6)) = mac6"
  using assms by (simp_all add: set_frame_def client_frame_def seal_def le32_def le16_def nth_append)

lemma frame_bytes: "map (\<lambda>i. mem_of bs (int i)) [0..<length bs] = bs"
  by (rule nth_equalityI) (simp_all add: mem_of_def)

lemma cmd_para_set_steps:
  fixes a recv n
  defines "b \<equiv> a\<lparr>ipSetCmd := map (\<lambda>i. recv (int i)) [0..<n] @ drop n (ipSetCmd a)\<rparr>"
  assumes "n \<le> 32"
  shows "cmd_para_set env t recv n a h =
    (case if_result (if_result (ipaddrSet env (take 4 (drop 12 (ipSetCmd b))) b h) (macaddrSet env (take 6 (drop 18 (ipSetCmd b)))))
       (portSet env (word16_of (ipSetCmd b ! 16) (ipSetCmd b ! 17))) of
     (result, a, h) \<Rightarrow> Inr (tcp_write t (common_rsp ICD_CMD_PARA_SET (of_bool result)) a, h))"
  using assms(2) by (simp add: cmd_para_set_def Let_def b_def)

lemma para_set_saves:
  assumes "fpec_env m env" "flash_idle (fdev_of m h)" "wf_app a" "length ip4 = 4" "length mac6 = 6"
  shows "\<exists>a' h' i. XVC_Interface env t (mem_of (set_frame ip4 p mac6)) 32 a h = Some (Inr (a', h')) \<and>
    sent a' = sent a @ [(t, common_rsp ICD_CMD_PARA_SET 1)] \<and>
    holds_info (cells (fdev_of m h')) i \<and> carries i ip4 mac6 p"
proof -
  let ?F = "set_frame ip4 p mac6"
  note parts = set_frame_parts [OF assms(4,5), of p]
  have d: "length (ip4 @ le16 p @ mac6) = 12" using assms(4,5) by (simp add: le16_def)
  have acc: "accepted (mem_of ?F) 32" "rd32 (mem_of ?F) 4 = ICD_CMD_PARA_SET"
    using client_frame_accepted [of "ip4 @ le16 p @ mac6" ICD_CMD_PARA_SET] unfolding d by (simp_all add: set_frame_def)
  define a1 where "a1 = (with_flags t a)\<lparr>ipSetCmd := map (\<lambda>i. mem_of ?F (int i)) [0..<32] @ drop 32 (ipSetCmd (with_flags t a))\<rparr>"
  have c: "ipSetCmd a1 = ?F"
    using frame_bytes [of ?F] assms(3) by (simp add: a1_def parts(1) wf_app_def)
  have w: "wf_info (ipInfoFlash a1)" using assms(3) by (simp add: a1_def wf_app_def)
  obtain a' h' i where s: "if_result (if_result (ipaddrSet env ip4 a1 h) (macaddrSet env mac6)) (portSet env p) = (True, a', h')"
      "sent a' = sent a1" "holds_info (cells (fdev_of m h')) i" "carries i ip4 mac6 p"
    using sets_save [OF assms(1,2) w assms(4,5), of p] by blast
  have "cmd_para_set env t (mem_of ?F) 32 (with_flags t a) h = Inr (tcp_write t (common_rsp ICD_CMD_PARA_SET 1) a', h')"
    using cmd_para_set_steps [of 32 env t "mem_of ?F" "with_flags t a" h, folded a1_def] by (simp add: c s(1) parts)
  then have "XVC_Interface env t (mem_of ?F) 32 a h = Some (Inr (tcp_write t (common_rsp ICD_CMD_PARA_SET 1) a', h'))"
    using XVC_dispatch(5) [OF acc] by simp
  moreover have "sent (tcp_write t (common_rsp ICD_CMD_PARA_SET 1) a') = sent a @ [(t, common_rsp ICD_CMD_PARA_SET 1)]"
    using s(2) by (simp add: a1_def)
  ultimately show ?thesis using s(3,4) by blast
qed

section \<open>The next start\<close>

lemma syncIpInfo_carried:
  assumes "fpec_env m env" "holds_info (cells (fdev_of m h)) i" "carries i ip4 mac6 p"
  shows "\<exists>a' h'. syncIpInfo env a h = Some (a', h') \<and>
    netCfgInfo a' = (netCfgInfo a)\<lparr>cfg_ip := ip4, cfg_mac := mac6, serverPort := p\<rparr>"
proof -
  have i: "wf_info i" "take 4 (ip i) = ip4" "ipValid i = DATA_VALID_VAL" "take 6 (mac i) = mac6"
      "macValid i = DATA_VALID_VAL" "take 2 (port i) = le16 p" "portValid i = DATA_VALID_VAL"
    using assms(3) by (simp_all add: carries_def)
  have "8 = length (port i)" using i(1) by (simp add: wf_info_def)
  then have "port i ! 0 = take 2 (port i) ! 0" "port i ! 1 = take 2 (port i) ! 1" by simp_all
  then have p: "word16_of (port i ! 0) (port i ! 1) = p" unfolding i(6) by (simp add: le16_def)
  obtain h' where "readIpInfo env (ipInfoFlash a) h = (FLASH_OK, sealed i, h')"
    using readIpInfo_stored [OF assms(1) i(1) assms(2), of "ipInfoFlash a"] by (metis prod.collapse)
  then show ?thesis using i p by (simp add: syncIpInfo_def Let_def)
qed

text \<open>
  C22: settings sent to the board survive a restart. A frame that sets the address, the port and the MAC
  address is answered with result 1; when the firmware starts again on the flash memory the command left,
  with its variables at their initial values, \<^verbatim>\<open>syncIpInfo\<close> ends and the network configuration holds exactly the
  three settings of the frame, mask and gateway being the default ones.
\<close>

theorem settings_survive_restart:
  assumes "fpec_env m env" "flash_idle (fdev_of m h)" "wf_app a" "length ip4 = 4" "length mac6 = 6"
  shows "\<exists>a' h'. XVC_Interface env t (mem_of (set_frame ip4 p mac6)) 32 a h = Some (Inr (a', h')) \<and>
    sent a' = sent a @ [(t, common_rsp ICD_CMD_PARA_SET 1)] \<and>
    (\<forall>env' k. fpec_env (cells (fdev_of m h')) env' \<longrightarrow>
       cells (fdev_of (cells (fdev_of m h')) k) = cells (fdev_of m h') \<longrightarrow>
       (\<exists>b k'. syncIpInfo env' app_init k = Some (b, k') \<and>
          netCfgInfo b = defaultNetCfgInfo\<lparr>cfg_ip := ip4, cfg_mac := mac6, serverPort := p\<rparr>))"
proof -
  obtain a' h' i where x: "XVC_Interface env t (mem_of (set_frame ip4 p mac6)) 32 a h = Some (Inr (a', h'))"
      "sent a' = sent a @ [(t, common_rsp ICD_CMD_PARA_SET 1)]"
      "holds_info (cells (fdev_of m h')) i" "carries i ip4 mac6 p"
    using para_set_saves [OF assms] by blast
  have n: "netCfgInfo app_init = defaultNetCfgInfo" by (simp add: app_init_def)
  show ?thesis using x syncIpInfo_carried [where a = app_init, unfolded n] by (metis (no_types, lifting))
qed

theorem settings_survive_restart_witness:
  "\<exists>a' h' b k'. XVC_Interface (quick_env (\<lambda>_. 0xFF)) 1 (mem_of (set_frame [10, 0, 0, 7] 5000 [2, 0, 0, 0, 0, 9])) 32
       app_init [] = Some (Inr (a', h')) \<and>
     syncIpInfo (quick_env (cells (fdev_of (\<lambda>_. 0xFF) h'))) app_init [] = Some (b, k') \<and>
     netCfgInfo b = \<lparr>cfg_ip = [10, 0, 0, 7], cfg_mask = [255, 255, 255, 0], cfg_gw = [192, 168, 1, 1],
       cfg_mac = [2, 0, 0, 0, 0, 9], serverPort = 5000\<rparr>"
proof -
  have "\<forall>i < 6. \<not> bit (0x80 :: u32) i" by (auto simp: below_6)
  then have idle: "flash_idle (fdev_of (\<lambda>_. 0xFF) [])" by (simp add: fdev_of_def flash_idle_def)
  obtain a' h' where x: "XVC_Interface (quick_env (\<lambda>_. 0xFF)) 1 (mem_of (set_frame [10, 0, 0, 7] 5000 [2, 0, 0, 0, 0, 9])) 32
      app_init [] = Some (Inr (a', h'))"
    and n: "\<forall>env' k. fpec_env (cells (fdev_of (\<lambda>_. 0xFF) h')) env' \<longrightarrow>
       cells (fdev_of (cells (fdev_of (\<lambda>_. 0xFF) h')) k) = cells (fdev_of (\<lambda>_. 0xFF) h') \<longrightarrow>
       (\<exists>b k'. syncIpInfo env' app_init k = Some (b, k') \<and>
          netCfgInfo b = defaultNetCfgInfo\<lparr>cfg_ip := [10, 0, 0, 7], cfg_mac := [2, 0, 0, 0, 0, 9], serverPort := 5000\<rparr>)"
    using settings_survive_restart [OF quick_env_fpec idle wf_app_init, of "[10, 0, 0, 7]" "[2, 0, 0, 0, 0, 9]" 1 5000] by auto
  have "cells (fdev_of c []) = c" for c by (simp add: fdev_of_def)
  with n quick_env_fpec show ?thesis using x by (fastforce simp: defaultNetCfgInfo_def)
qed

end
