(* ===== verification/Startup.thy ===== *)
theory Startup
  imports Board
begin

text \<open>
  What \<^verbatim>\<open>System_Setup\<close> leaves behind: that it ends on a board whose crystal, clock tick and Ethernet
  reset work, the period of the clock tick and which interrupt can interrupt which.
\<close>

section \<open>Operations that leave the processor's own registers alone\<close>

definition peripheral :: "reg \<Rightarrow> bool" where
  "peripheral r \<longleftrightarrow> (\<forall>c. r \<noteq> CORE c)"

lemma peripheral_simps [simp]:
  "peripheral (RCC a)" "peripheral (USART u b)" "peripheral (ETH e)" "peripheral (CRL p)" "peripheral (CRH p)"
  "peripheral (BSRR p)" "peripheral (BRR p)" "peripheral AFIO_MAPR" "peripheral MAPR_MII_RMII_SEL_BB"
  "\<not> peripheral (CORE c)"
  by (simp_all add: peripheral_def)

abbreviation (input) tp :: "hist \<Rightarrow> hist \<Rightarrow> bool" where "tp \<equiv> touches peripheral"

lemma core_kept: "tp h h' \<Longrightarrow> last_write (CORE c) h' = last_write (CORE c) h"
  by (auto simp: touches_def peripheral_def intro!: last_write_append_other)

lemma irq_step: "peripheral (reg_of e) \<Longrightarrow> irq_enabled n (h @ [e]) = irq_enabled n h"
  by (cases e; cases "reg_of e") (simp_all add: irq_enabled_def)

lemma enabled_kept: "tp h h' \<Longrightarrow> irq_enabled n h' = irq_enabled n h"
proof -
  have "irq_enabled n (h @ es) = irq_enabled n h" if "\<forall>e \<in> set es. peripheral (reg_of e)" for es
    using that by (induction es rule: rev_induct) (simp_all add: irq_step flip: append_assoc)
  then show "tp h h' \<Longrightarrow> irq_enabled n h' = irq_enabled n h" by (auto simp: touches_def)
qed

lemma tp_switches [touch]:
  "tp h g \<Longrightarrow> tp h (switch_bits env r b st g)" "tp h g \<Longrightarrow> tp h (eth_switch env e m st g)"
  "tp h g \<Longrightarrow> tp h (snd (eth_flag env e m g))"
  by (auto simp: switch_bits_def eth_switch_def eth_flag_def case_prod_beta simp del: rd_simps intro!: touch)

lemma tp_halves [touch]:
  "peripheral r \<Longrightarrow> tp h g \<Longrightarrow> tp h (snd (rdh env r g))" "peripheral r \<Longrightarrow> tp h g \<Longrightarrow> tp h (wrh r v g)"
  "peripheral r \<Longrightarrow> tp h g \<Longrightarrow> tp h (or_half env r m g)" "peripheral r \<Longrightarrow> tp h g \<Longrightarrow> tp h (and_half env r m g)"
  by (auto simp: rdh_def wrh_def or_half_def and_half_def case_prod_beta simp del: rd_simps intro!: touch)

lemma tp_clock_switches [touch]:
  "tp h g \<Longrightarrow> tp h (RCC_AHBPeriphClockCmd env b st g)" "tp h g \<Longrightarrow> tp h (RCC_APB1PeriphClockCmd env b st g)"
  "tp h g \<Longrightarrow> tp h (RCC_APB2PeriphClockCmd env b st g)" "tp h g \<Longrightarrow> tp h (RCC_AHBPeriphResetCmd env b st g)"
  "tp h g \<Longrightarrow> tp h (RCC_MCOConfig m g)"
  by (auto simp: RCC_AHBPeriphClockCmd_def RCC_APB1PeriphClockCmd_def RCC_APB2PeriphClockCmd_def
      RCC_AHBPeriphResetCmd_def RCC_MCOConfig_def intro!: touch)

lemma tp_init [touch]: "tp h g \<Longrightarrow> tp h (GPIO_Init env p ini g)"
  by (auto simp: GPIO_Init_def init_low_def init_high_def Let_def case_prod_beta simp del: rd_simps
      intro!: touch touches_fold_pair)

lemma tp_pins [touch]:
  "tp h g \<Longrightarrow> tp h (pins env p pin mode g)" "tp h g \<Longrightarrow> tp h (GPIO_PinRemapConfig env m st g)"
  "tp h g \<Longrightarrow> tp h (GPIO_SetBits p pin g)" "tp h g \<Longrightarrow> tp h (GPIO_ResetBits p pin g)"
  "tp h g \<Longrightarrow> tp h (GPIO_ETH_MediaInterfaceConfig i g)"
  by (auto simp: pins_def GPIO_PinRemapConfig_def GPIO_SetBits_def GPIO_ResetBits_def
      GPIO_ETH_MediaInterfaceConfig_def Let_def case_prod_beta simp del: rd_simps intro!: touch)

lemma tp_board_pins [touch]:
  "tp h g \<Longrightarrow> tp h (GPIO_Configuration env g)" "tp h g \<Longrightarrow> tp h (XVC_Init env g)"
  "tp h g \<Longrightarrow> tp h (SPI_softInit g)" "tp h g \<Longrightarrow> tp h (STM_EVAL_LEDInit env l g)"
  by (auto simp: GPIO_Configuration_def XVC_Init_def XVC_CS_H_def SPI_softInit_def MOSI_L_def SCK_H_def NSS_H_def
      STM_EVAL_LEDInit_def Let_def intro!: touch)

lemma tp_usart [touch]:
  "tp h g \<Longrightarrow> tp h (USART_Init env u ini g)" "tp h g \<Longrightarrow> tp h (USART_ITConfig env u it st g)"
  "tp h g \<Longrightarrow> tp h (USART_Cmd env u st g)"
  by (auto simp: USART_Init_def USART_ITConfig_def USART_Cmd_def Let_def case_prod_beta intro!: touch)

section \<open>The Ethernet controller\<close>

text \<open>The reset bit of the DMA clears itself after some number of reads.\<close>

definition eth_resets :: "env \<Rightarrow> bool" where
  "eth_resets env \<longleftrightarrow> (\<forall>h. \<exists>n. env (polls env (ETH DMABMR) n h) (ETH DMABMR) AND ETH_DMABMR_SR = 0)"

lemma reset_wait_read:
  "reset_wait env h = (if env h (ETH DMABMR) AND ETH_DMABMR_SR \<noteq> 0 then reset_wait env (snd (rd env (ETH DMABMR) h))
     else Some (snd (rd env (ETH DMABMR) h)))"
  by (subst reset_wait.simps) (simp add: ETH_GetSoftwareResetStatus_def eth_flag_def rd_def Let_def)

lemma reset_wait_polls:
  "env (polls env (ETH DMABMR) n h) (ETH DMABMR) AND ETH_DMABMR_SR = 0 \<Longrightarrow> \<exists>h'. reset_wait env h = Some h' \<and> tp h h'"
proof (induction n arbitrary: h)
  case 0
  then show ?case by (subst reset_wait_read) (auto simp del: rd_simps intro!: touch)
next
  case (Suc n)
  obtain h' where "reset_wait env (snd (rd env (ETH DMABMR) h)) = Some h'" "tp (snd (rd env (ETH DMABMR) h)) h'"
    using Suc.IH [of "snd (rd env (ETH DMABMR) h)"] Suc.prems by auto
  moreover have "tp h (snd (rd env (ETH DMABMR) h))" by (intro touch) simp
  ultimately show ?case by (subst reset_wait_read) (auto simp del: rd_simps intro: touches_trans)
qed

lemma Ethernet_Configuration_runs:
  assumes "eth_resets env"
  shows "\<exists>n' h'. Ethernet_Configuration env (n, h) = Some (n', h') \<and> tp h h'"
proof -
  define g where "g = ETH_SoftwareReset env (ETH_DeInit env (RCC_MCOConfig 6 (GPIO_ETH_MediaInterfaceConfig 0 h)))"
  have g: "tp h g" by (auto simp: g_def ETH_SoftwareReset_def ETH_DeInit_def intro!: touch)
  obtain g1 where g1: "reset_wait env g = Some g1" "tp g g1"
    using assms reset_wait_polls unfolding eth_resets_def by blast
  let ?r = "ETH_Init env reinit_settings PHY_ADDRESS g1"
  have "tp g1 (ETH_DMAITConfig env (ETH_DMA_IT_NIS OR ETH_DMA_IT_R) ENABLE (snd ?r))"
    unfolding ETH_DMAITConfig_def by (intro touch) simp_all
  moreover have "Ethernet_Configuration env (n, h) = Some (n\<lparr>EthInitStatus := ucast (fst ?r)\<rparr>,
      ETH_DMAITConfig env (ETH_DMA_IT_NIS OR ETH_DMA_IT_R) ENABLE (snd ?r))"
    using g1(1) by (simp add: Ethernet_Configuration_def ETH_Reinit_def Let_def case_prod_beta flip: g_def)
  ultimately show ?thesis using g g1(2) touches_trans by blast
qed

section \<open>The reset line of the PHY\<close>

text \<open>Local time moves on: some later read finds a larger value (or the counter is about to wrap).\<close>

definition time_passes :: "(nat \<Rightarrow> u32) \<Rightarrow> bool" where
  "time_passes clk \<longleftrightarrow> (\<forall>k. \<exists>m. clk k + 1 \<le> clk (Suc k + m))"

lemma Delay_one:
  assumes "time_passes clk"
  shows "\<exists>k'. Delay clk 1 k = Some k'"
proof -
  define m where "m = (LEAST m. clk k + 1 \<le> clk (Suc k + m))"
  have m: "clk k + 1 \<le> clk (Suc k + m)"
    unfolding m_def using assms LeastI_ex [of "\<lambda>m. clk k + 1 \<le> clk (Suc k + m)"] by (auto simp: time_passes_def)
  have "clk (Suc k + i) < clk k + 1" if "i < m" for i
    using not_less_Least [of i "\<lambda>m. clk k + 1 \<le> clk (Suc k + m)"] that unfolding m_def by (simp add: not_le)
  then show ?thesis using delay_loop_reached [where clk = clk and k = "Suc k" and m = m, OF m] by (auto simp: Delay_def)
qed

lemma XVC_PHY_RST_runs:
  assumes "time_passes clk"
  shows "\<exists>k' h'. XVC_PHY_RST clk (k, h) = Some (k', h') \<and> tp h h'"
proof -
  obtain k1 where k1: "Delay clk 1 k = Some k1" using Delay_one [OF assms] by blast
  obtain k2 where k2: "Delay clk 1 k1 = Some k2" using Delay_one [OF assms] by blast
  show ?thesis using k1 k2 by (auto simp: XVC_PHY_RST_def Let_def intro!: touch)
qed

section \<open>Priorities\<close>

lemma group_stored: "last_write (CORE SCB_AIRCR) h = Some 0x05FA0500 \<Longrightarrow> prigroup h = 5"
  by (simp add: prigroup_def)

text \<open>What setting up the serial port does to the interrupt controller.\<close>

lemma Usart3_irq:
  assumes "keeps_group env" "last_write (CORE SCB_AIRCR) h = Some 0x05FA0500"
  shows "last_write (CORE (NVIC_IP 39)) (Usart3Init env h) = Some 0xF0" "irq_enabled 39 (Usart3Init env h)"
    "c \<noteq> NVIC_IP 39 \<Longrightarrow> c \<noteq> NVIC_ISER 1 \<Longrightarrow> last_write (CORE c) (Usart3Init env h) = last_write (CORE c) h"
    "irq_enabled n h \<Longrightarrow> irq_enabled n (Usart3Init env h)"
proof -
  define g where "g = pins env GPIOC (GPIO_Pin 11) GPIO_Mode_IN_FLOATING (pins env GPIOC (GPIO_Pin 10) GPIO_Mode_AF_PP
    (GPIO_PinRemapConfig env 0x00140010 ENABLE (RCC_APB1PeriphClockCmd env 0x00040000 ENABLE h)))"
  have g: "tp h g" unfolding g_def by (intro touch)
  let ?i = "\<lparr>NVIC_IRQChannel = 39, NVIC_IRQChannelPreemptionPriority = 3, NVIC_IRQChannelSubPriority = 3,
    NVIC_IRQChannelCmd = ENABLE\<rparr>"
  have grp: "last_write (CORE SCB_AIRCR) g = Some 0x05FA0500" using core_kept [OF g] assms(2) by simp
  have i: "NVIC_Init env ?i g = g @ [Rd (CORE SCB_AIRCR) (env g (CORE SCB_AIRCR)), Wr (CORE (NVIC_IP 39)) 0xF0,
      Wr (CORE (NVIC_ISER 1)) 0x80]"
    using NVIC_Init_group2 [OF assms(1) grp, of ?i] by simp
  have u: "tp (NVIC_Init env ?i g) (Usart3Init env h)"
    unfolding Usart3Init_def Let_def g_def [symmetric] by (intro touch)
  have s: "last_write (CORE c) (NVIC_Init env ?i g) =
      (if c = NVIC_IP 39 then Some 0xF0 else if c = NVIC_ISER 1 then Some 0x80 else last_write (CORE c) g)" for c
    unfolding i by (auto simp: last_write_def)
  show "last_write (CORE (NVIC_IP 39)) (Usart3Init env h) = Some 0xF0" using core_kept [OF u] s by simp
  show "c \<noteq> NVIC_IP 39 \<Longrightarrow> c \<noteq> NVIC_ISER 1 \<Longrightarrow> last_write (CORE c) (Usart3Init env h) = last_write (CORE c) h"
    using core_kept [OF u] core_kept [OF g] s by simp
  have e: "irq_enabled n (NVIC_Init env ?i g) = (if n = 39 then True else irq_enabled n g)" if "irq_enabled n g \<or> n = 39" for n
    using that unfolding i by (cases "n = 39") (simp_all add: irq_enabled_def)
  show "irq_enabled 39 (Usart3Init env h)" using enabled_kept [OF u] e by simp
  show "irq_enabled n h \<Longrightarrow> irq_enabled n (Usart3Init env h)"
    using enabled_kept [OF u] enabled_kept [OF g] e by (auto split: if_splits)
qed

lemma NVIC_Configuration_irq:
  assumes "keeps_group env"
  shows "last_write (CORE SCB_AIRCR) (NVIC_Configuration env h) = Some 0x05FA0500"
    "last_write (CORE (NVIC_IP 61)) (NVIC_Configuration env h) = Some 0x80" "irq_enabled 61 (NVIC_Configuration env h)"
    "c \<noteq> SCB_VTOR \<Longrightarrow> c \<noteq> SCB_AIRCR \<Longrightarrow> c \<noteq> NVIC_IP 61 \<Longrightarrow> c \<noteq> NVIC_ISER 1 \<Longrightarrow>
     last_write (CORE c) (NVIC_Configuration env h) = last_write (CORE c) h"
proof -
  define g where "g = NVIC_PriorityGroupConfig NVIC_PriorityGroup_2 (NVIC_SetVectorTable NVIC_VectTab_FLASH 0 h)"
  have g: "g = h @ [Wr (CORE SCB_VTOR) 0x08000000, Wr (CORE SCB_AIRCR) 0x05FA0500]"
    by (simp add: g_def NVIC_PriorityGroupConfig_def NVIC_SetVectorTable_def wr_def)
  let ?i = "\<lparr>NVIC_IRQChannel = 61, NVIC_IRQChannelPreemptionPriority = 2, NVIC_IRQChannelSubPriority = 0,
    NVIC_IRQChannelCmd = ENABLE\<rparr>"
  have "last_write (CORE SCB_AIRCR) g = Some 0x05FA0500" by (simp add: g last_write_def)
  from NVIC_Init_group2 [OF assms this, of ?i]
  have "NVIC_Configuration env h = g @ [Rd (CORE SCB_AIRCR) (env g (CORE SCB_AIRCR)), Wr (CORE (NVIC_IP 61)) 0x80,
      Wr (CORE (NVIC_ISER 1)) 0x20000000]"
    by (simp add: NVIC_Configuration_def Let_def flip: g_def)
  then show "last_write (CORE SCB_AIRCR) (NVIC_Configuration env h) = Some 0x05FA0500"
    "last_write (CORE (NVIC_IP 61)) (NVIC_Configuration env h) = Some 0x80" "irq_enabled 61 (NVIC_Configuration env h)"
    "c \<noteq> SCB_VTOR \<Longrightarrow> c \<noteq> SCB_AIRCR \<Longrightarrow> c \<noteq> NVIC_IP 61 \<Longrightarrow> c \<noteq> NVIC_ISER 1 \<Longrightarrow>
     last_write (CORE c) (NVIC_Configuration env h) = last_write (CORE c) h"
    by (simp_all add: g last_write_def irq_enabled_def)
qed

text \<open>
  The board comes up with the intended priorities. When the crystal and the PLLs start, the local time moves
  on and the reset of the Ethernet controller ends, \<^verbatim>\<open>System_Setup\<close> ends; then the clock tick runs with a
  period of 7200 processor cycles and can interrupt the Ethernet handler, which can interrupt the handler of
  the serial port, and all three interrupts are enabled. (72 MHz divided by 7200 is a tick each 0.1 ms,
  though \<^verbatim>\<open>Time_Update\<close> adds 10 ms for each.)
\<close>

theorem System_Setup_interrupts:
  assumes "rcc_keeps env" "rcc_locks env" "keeps_group env" "time_passes clk" "eth_resets env"
  shows "\<exists>n' h'. System_Setup env clk (n, h) = Some (n', h') \<and>
    last_write (CORE SysTick_LOAD) h' = Some 7199 \<and> last_write (CORE SysTick_CTRL) h' = Some 7 \<and>
    preempt_level SysTick_IRQn h' < preempt_level ETH_IRQn h' \<and> preempt_level ETH_IRQn h' < preempt_level USART3_IRQn h' \<and>
    irq_enabled 61 h' \<and> irq_enabled 39 h'"
proof -
  obtain h1 where h1: "SystemInit env h = Some h1" "SYSCLK_Frequency (fst (RCC_GetClocksFreq env h1)) = 72000000"
    using SystemInit_clocks [OF assms(1,2), of h] by auto
  define h2 where "h2 = snd (RCC_GetClocksFreq env h1)"
  define h3 where "h3 = NVIC_SetPriority SysTick_IRQn 1 (snd (SysTick_Config 7200 h2))"
  have h3: "last_write (CORE SysTick_LOAD) h3 = Some 7199" "last_write (CORE SysTick_CTRL) h3 = Some 7"
      "last_write (CORE (SCB_SHP 11)) h3 = Some 0x10"
    by (simp_all add: h3_def SysTick_Config_hist SetPriority_SysTick last_write_def)
  define h4 where "h4 = RCC_APB2PeriphClockCmd env (0x04 OR 0x08 OR 0x10 OR 0x20 OR 0x40 OR 0x01) ENABLE
    (RCC_AHBPeriphClockCmd env (0x00004000 OR 0x00008000 OR 0x00010000) ENABLE h3)"
  have t4: "tp h3 h4" unfolding h4_def by (intro touch)
  define h5 where "h5 = NVIC_Configuration env h4"
  define h6 where "h6 = GPIO_Configuration env h5"
  have t6: "tp h5 h6" unfolding h6_def by (intro touch)
  obtain k h7 where h7: "XVC_PHY_RST clk (0, h6) = Some (k, h7)" "tp h6 h7" using XVC_PHY_RST_runs [OF assms(4)] by blast
  define h8 where "h8 = XVC_Init env h7"
  have t8: "tp h5 h8" unfolding h8_def by (intro touch touches_trans [OF t6 h7(2)])
  define h9 where "h9 = Usart3Init env h8"
  define h10 where "h10 = STM_EVAL_LEDInit env LED2 (STM_EVAL_LEDInit env LED1 (SPI_softInit h9))"
  have t10: "tp h9 h10" unfolding h10_def by (intro touch)
  obtain n' h' where h': "Ethernet_Configuration env (n, h10) = Some (n', h')" "tp h10 h'"
    using Ethernet_Configuration_runs [OF assms(5)] by blast
  have t': "tp h9 h'" using touches_trans [OF t10 h'(2)] .
  have run: "System_Setup env clk (n, h) = Some (n', h')"
    using h1 h7(1) h'(1) unfolding h10_def h9_def h8_def h6_def h5_def h4_def h3_def h2_def
    by (simp add: System_Setup_def Let_def case_prod_beta)
  note irq = NVIC_Configuration_irq [OF assms(3), where h = h4, folded h5_def]
  have grp: "last_write (CORE SCB_AIRCR) h8 = Some 0x05FA0500" using core_kept [OF t8] irq(1) by simp
  note us = Usart3_irq [OF assms(3) grp, folded h9_def]
  have kept: "last_write (CORE c) h' = last_write (CORE c) h5" if "c \<noteq> NVIC_IP 39" "c \<noteq> NVIC_ISER 1" for c
    using core_kept [OF t'] us(3) [OF that] core_kept [OF t8] by simp
  have old: "last_write (CORE c) h' = last_write (CORE c) h3"
    if "c \<in> {SysTick_LOAD, SysTick_CTRL, SCB_SHP 11}" for c
    using that kept irq(4) core_kept [OF t4] by auto
  have "prigroup h' = 5" using kept irq(1) by (intro group_stored) simp
  then have "preempt_level SysTick_IRQn h' = 0" "preempt_level ETH_IRQn h' = 2" "preempt_level USART3_IRQn h' = 3"
    using old h3(3) kept irq(2) us(1) core_kept [OF t'] by (simp_all add: preempt_level_def prio_byte_def)
  moreover have "irq_enabled 61 h'" "irq_enabled 39 h'"
    using enabled_kept [OF t'] us(2,4) enabled_kept [OF t8] irq(3) by simp_all
  ultimately show ?thesis using run old h3(1,2) by simp
qed

text \<open>A board on which all of this works: the Ethernet reset is over at once and time advances by 1.\<close>

definition setup_env :: env where
  "setup_env h r = (if r = ETH DMABMR then 0 else rcc_env h r)"

lemma polls_cong: "(\<And>h. env h r = env' h r) \<Longrightarrow> polls env r n h = polls env' r n h"
  by (induction n arbitrary: h) (simp_all add: rd_def)

lemma setup_env_rcc: "rcc_keeps setup_env" "rcc_locks setup_env"
proof -
  have e: "setup_env h (RCC q) = rcc_env h (RCC q)" for h q by (simp add: setup_env_def)
  have p: "polls setup_env (RCC q) n h = polls rcc_env (RCC q) n h" for q n h by (rule polls_cong) (rule e)
  have "rcc_keeps setup_env = rcc_keeps rcc_env" "rcc_locks setup_env = rcc_locks rcc_env"
    by (simp_all only: rcc_keeps_def rcc_locks_def e p)
  then show "rcc_keeps setup_env" "rcc_locks setup_env" using rcc_env_keeps rcc_env_locks by simp_all
qed

theorem System_Setup_interrupts_witness:
  "\<exists>n' h'. System_Setup setup_env of_nat (\<lparr>TCPTimer = 0, ARPTimer = 0, EthInitStatus = 0, calls = []\<rparr>, []) = Some (n', h') \<and>
    last_write (CORE SysTick_LOAD) h' = Some 7199 \<and> irq_enabled 61 h'"
proof -
  have "keeps_group setup_env" by (simp add: keeps_group_def setup_env_def rcc_env_def)
  moreover have "time_passes of_nat"
    unfolding time_passes_def by (intro allI exI [of _ 0]) (simp add: add.commute)
  moreover have "eth_resets setup_env" by (simp add: eth_resets_def setup_env_def)
  ultimately show ?thesis using System_Setup_interrupts [OF setup_env_rcc] by blast
qed

end
