(* ===== verification/MainLoop.thy ===== *)
theory MainLoop
  imports Startup XvcTransfer
begin

text \<open>
  The loop of \<^verbatim>\<open>main.c\<close>: the periodic tasks, and the answer to an erase command once the serial flash is
  done. The command itself only starts the erase; the interpreter and the loop meet in \<^verbatim>\<open>earseFlag\<close> and
  \<^verbatim>\<open>earsePcb\<close>.
\<close>

definition SysTick_Handler :: "u32 \<Rightarrow> u32" where
  "SysTick_Handler LocalTime = Time_Update LocalTime"

definition System_Periodic_Handle :: "env \<Rightarrow> u32 \<Rightarrow> net \<times> hist \<Rightarrow> net \<times> hist" where
  "System_Periodic_Handle env LocalTime = LwIP_Periodic_Handle env LocalTime"

definition flashCheckOut :: "env \<Rightarrow> hist \<Rightarrow> u32 \<times> hist" where
  "flashCheckOut env h =
     (let (lo, h) = Flash_ReadSomeByte env 0 4 h;
          (hi, h) = Flash_ReadSomeByte env 0x1ffffff 4 h;
          dat = lo @ hi
      in if \<exists>i \<in> {0..<8}. dat ! i \<noteq> 0xff then (0, h) else (1, h))"

text \<open>
  The body of the \<^verbatim>\<open>while\<close> loop, with the local time its periodic tasks read. The result None is the
  use of a null \<^verbatim>\<open>earsePcb\<close>.
\<close>

definition erase_poll :: "env \<Rightarrow> app \<Rightarrow> hist \<Rightarrow> (app \<times> hist) option" where
  "erase_poll env a h =
     (if earseFlag a then
        let (sr, h) = Flash_ReadSR env h in
        if sr AND 0x01 \<noteq> 0x01 then
          let a = a\<lparr>earseFlag := False\<rparr>;
              (opRet, h) = flashCheckOut env h
          in case earsePcb a of None \<Rightarrow> None
             | Some pcb \<Rightarrow> Some (tcp_write pcb (common_rsp ICD_CMD_EARSE opRet) a, h)
        else Some (a, h)
      else Some (a, h))"

definition main_step :: "env \<Rightarrow> u32 \<Rightarrow> net \<times> app \<times> hist \<Rightarrow> (net \<times> app \<times> hist) option" where
  "main_step env LocalTime = (\<lambda>(n, a, h).
     let (n, h) = System_Periodic_Handle env LocalTime (n, h)
     in map_option (Pair n) (erase_poll env a h))"

text \<open>Passes of the loop, at the given local times.\<close>

primrec main_loop :: "env \<Rightarrow> u32 list \<Rightarrow> net \<times> app \<times> hist \<Rightarrow> (net \<times> app \<times> hist) option" where
  "main_loop env [] s = Some s"
| "main_loop env (t # ts) s = Option.bind (main_step env t s) (main_loop env ts)"

section \<open>The loop and the bus\<close>

text \<open>The periodic tasks leave the lines of the serial flash alone.\<close>

definition off_bus :: "reg \<Rightarrow> bool" where
  "off_bus r \<longleftrightarrow> (\<exists>e. r = ETH e) \<or> (\<exists>q. r = RCC q)"

lemma off_bus_simps [simp]: "off_bus (ETH e)" "off_bus (RCC q)"
  by (simp_all add: off_bus_def)

lemma line_off_bus: "touches off_bus h h' \<Longrightarrow> line_of h' = line_of h"
proof -
  have "off_bus (reg_of e) \<Longrightarrow> step_level p i e l = l" for e p i l
    by (cases e; cases "reg_of e") (auto simp: off_bus_def)
  then have "off_bus (reg_of e) \<Longrightarrow> line_of (h @ [e]) = line_of h" for e h
    by (intro line_of_other) auto
  then have "\<forall>e \<in> set es. off_bus (reg_of e) \<Longrightarrow> line_of (h @ es) = line_of h" for es
    by (induction es rule: rev_induct) (auto simp flip: append_assoc)
  then show "touches off_bus h h' \<Longrightarrow> line_of h' = line_of h" by (auto simp: touches_def)
qed

lemma periodic_line: "line_of (snd (System_Periodic_Handle env t (n, h))) = line_of h"
  unfolding System_Periodic_Handle_def by (rule line_off_bus) (intro touch; simp add: touch)

section \<open>A chip erase\<close>

text \<open>
  A serial flash after its manual, as far as a chip erase is concerned: reads count only while it is ready,
  and run on from the last address to the first; an enabled chip-erase command that it gets while it is
  ready sets every byte; polls of the status and reads change nothing and do not make it busy. While it is
  busy, what it answers to a read is left open.
\<close>

definition nor_erases :: "slave \<Rightarrow> (u8 list list \<Rightarrow> nat \<Rightarrow> u8) \<Rightarrow> bool" where
  "nor_erases answer mem \<longleftrightarrow>
     (\<forall>fs a js. is_ready answer fs \<longrightarrow> answer fs ((0x03 # addr24 a) @ js) = mem fs ((unat a + length js) mod 2 ^ 24)) \<and>
     (\<forall>fs k x. is_ready answer fs \<longrightarrow> mem (fs @ [[0x06]] @ replicate k poll @ [[0xC7]]) x = 0xFF) \<and>
     (\<forall>fs. mem (fs @ [poll]) = mem fs) \<and> (\<forall>fs. is_ready answer fs \<longrightarrow> is_ready answer (fs @ [poll])) \<and>
     (\<forall>fs a js. is_ready answer fs \<longrightarrow> mem (fs @ [(0x03 # addr24 a) @ js]) = mem fs \<and>
        is_ready answer (fs @ [(0x03 # addr24 a) @ js]))"

definition blank :: "(nat \<Rightarrow> u8) \<Rightarrow> bool" where
  "blank m \<longleftrightarrow> (\<forall>x. m x = 0xFF)"

lemma flashCheckOut_blank:
  assumes "nor_erases answer mem" "spi_ready h" "blank (mem (frames h))" "is_ready answer (frames h)"
  shows "fst (flashCheckOut (slave_env answer base) h) = 1"
proof -
  let ?E = "slave_env answer base"
  let ?h1 = "snd (Flash_ReadSomeByte ?E 0 4 h)"
  note r1 = ReadSomeByte_frame [OF assms(2), of answer base 0 4]
  note r2 = ReadSomeByte_frame [OF r1(2), of answer base "0x1ffffff" 4]
  have rd: "is_ready answer fs \<Longrightarrow> answer fs ((0x03 # addr24 a) @ js) = mem fs ((unat a + length js) mod 2 ^ 24)" for fs a js
    using assms(1) by (simp add: nor_erases_def)
  have b: "blank (mem (frames ?h1))" and r: "is_ready answer (frames ?h1)"
    using assms(1,3,4) unfolding r1(3) nor_erases_def by simp_all
  have "fst (Flash_ReadSomeByte ?E 0 4 h) = replicate 4 0xFF"
    using assms(3) unfolding r1(1) rd [OF assms(4)] by (simp add: blank_def map_replicate_const)
  moreover have "fst (Flash_ReadSomeByte ?E 0x1ffffff 4 ?h1) = replicate 4 0xFF"
    using b unfolding r2(1) rd [OF r] by (simp add: blank_def map_replicate_const)
  ultimately show ?thesis
    by (auto simp: flashCheckOut_def case_prod_beta Let_def nth_append)
qed

lemma EraseChip_starts:
  assumes "settles answer" "spi_ready h"
  shows "\<exists>k h'. Flash_EraseChip (slave_env answer base) h = Some h' \<and> spi_ready h' \<and>
    frames h' = frames h @ [[0x06]] @ replicate k poll @ [[0xC7]]"
proof -
  note we = WriteEnable_frame [OF assms(2)]
  obtain h1 n where w: "Flash_WaitBusy (slave_env answer base) (Flash_WriteEnable h) = Some h1" "spi_ready h1"
      "frames h1 = frames (Flash_WriteEnable h) @ replicate (Suc n) poll"
    by (rule WaitBusy_settles [OF assms(1) we(1)])
  note c = spi.command [OF w(2), of "[0xC7]"]
  have "Flash_EraseChip (slave_env answer base) h = Some (NSS_H (fold SPI_WriteByte [0xC7] (NSS_L h1)))"
    using w(1) by (simp add: Flash_EraseChip_def)
  moreover have "frames (NSS_H (fold SPI_WriteByte [0xC7] (NSS_L h1))) = frames h @ [[0x06]] @ replicate (Suc n) poll @ [[0xC7]]"
    using c(2) w(3) we(2) by simp
  ultimately show ?thesis using c(1) by blast
qed

section \<open>Passes of the loop\<close>

lemma main_step_idle:
  assumes "\<not> earseFlag a"
  shows "\<exists>n' h'. main_step env t (n, a, h) = Some (n', a, h')"
  using assms by (simp add: main_step_def erase_poll_def case_prod_beta Let_def)

lemma main_loop_idle: "\<not> earseFlag a \<Longrightarrow> \<exists>n' h'. main_loop env ts (n, a, h) = Some (n', a, h')"
proof (induction ts arbitrary: n h)
  case (Cons t ts)
  obtain n1 h1 where "main_step env t (n, a, h) = Some (n1, a, h1)" using main_step_idle [OF Cons.prems] by blast
  then show ?case using Cons.IH [OF Cons.prems, of n1 h1] by simp
qed simp

text \<open>The history the poll of a pass starts with.\<close>

lemma main_step_poll:
  fixes n h answer base t
  defines "g \<equiv> snd (System_Periodic_Handle (slave_env answer base) t (n, h))"
  shows "frames g = frames h" "spi_ready g = spi_ready h"
    "\<exists>n'. main_step (slave_env answer base) t (n, a, h) = map_option (Pair n') (erase_poll (slave_env answer base) a g)"
  using periodic_line [of "slave_env answer base" t n h]
  by (auto simp: g_def frames_def spi_ready_def main_step_def case_prod_beta Let_def)

lemma main_loop_erase:
  assumes nor: "nor_erases answer mem"
  shows "spi_ready h \<Longrightarrow> ready_after answer (frames h) N \<Longrightarrow> blank (mem (frames h)) \<Longrightarrow> earseFlag a \<Longrightarrow>
    earsePcb a = Some t \<Longrightarrow>
    \<exists>n' a' h'. main_loop (slave_env answer base) ts (n, a, h) = Some (n', a', h') \<and>
      sent a' = sent a @ (if length ts \<le> N then [] else [(t, common_rsp ICD_CMD_EARSE 1)]) \<and>
      (earseFlag a' \<longleftrightarrow> length ts \<le> N)"
proof (induction ts arbitrary: N n h)
  case Nil
  then show ?case by simp
next
  case (Cons x ts)
  let ?E = "slave_env answer base"
  define g where "g = snd (System_Periodic_Handle ?E x (n, h))"
  note st = main_step_poll [where answer = answer and base = base and t = x and n = n and h = h, folded g_def]
  have g: "spi_ready g" "frames g = frames h" using st(1,2) Cons.prems(1) by simp_all
  obtain n1 where n1: "main_step ?E x (n, a, h) = map_option (Pair n1) (erase_poll ?E a g)" using st(3) by blast
  note sr = ReadSR_frame [OF g(1), of answer base]
  let ?g1 = "snd (Flash_ReadSR ?E g)"
  have b: "blank (mem (frames ?g1))" using nor Cons.prems(3) unfolding sr(3) g(2) nor_erases_def by simp
  have bit0: "v AND 1 \<noteq> 1 \<longleftrightarrow> \<not> bit v 0" for v :: u8 by (simp add: and_one_eq bit_0 odd_iff_mod_2_eq_one)
  show ?case
  proof (cases N)
    case 0
    then have rdy: "\<not> bit (fst (Flash_ReadSR ?E g)) 0" using Cons.prems(2) unfolding sr(1) g(2) by (simp add: ready_after_def)
    have "is_ready answer (frames h)" using Cons.prems(2) 0 by (simp add: ready_after_def is_ready_def)
    then have "is_ready answer (frames ?g1)" using nor unfolding sr(3) g(2) nor_erases_def by simp
    then have chk: "fst (flashCheckOut ?E ?g1) = 1" by (rule flashCheckOut_blank [OF nor sr(2) b])
    let ?a = "tcp_write t (common_rsp ICD_CMD_EARSE 1) (a\<lparr>earseFlag := False\<rparr>)"
    have "erase_poll ?E a g = Some (?a, snd (flashCheckOut ?E ?g1))"
      using rdy chk Cons.prems(4,5) by (simp add: erase_poll_def case_prod_beta Let_def bit0)
    moreover have "\<not> earseFlag ?a" by (simp add: tcp_write_def)
    moreover have "sent ?a = sent a @ [(t, common_rsp ICD_CMD_EARSE 1)]" by simp
    ultimately show ?thesis using n1 main_loop_idle [where a = ?a and env = ?E and ts = ts and n = n1 and h = "snd (flashCheckOut ?E ?g1)"] 0 by auto
  next
    case (Suc M)
    have busy: "bit (fst (Flash_ReadSR ?E g)) 0" and r: "ready_after answer (frames ?g1) M"
      using ready_after_Suc [of answer "frames h" M] Cons.prems(2) Suc unfolding sr g(2) by simp_all
    have "erase_poll ?E a g = Some (a, ?g1)"
      using busy Cons.prems(4) by (simp add: erase_poll_def case_prod_beta Let_def bit0)
    with n1 Cons.IH [OF sr(2) r b Cons.prems(4,5), of n1] show ?thesis by (simp add: Suc)
  qed
qed

text \<open>
  C23: an erase command is answered once, when the flash is erased. On a serial flash that behaves as its
  manual says (\<open>nor_erases\<close>), becomes ready in the end and is ready when the frame arrives, an accepted erase
  frame sends the erase command and no response. If the flash is busy for exactly the next \<open>N\<close> polls of its
  status, the first \<open>N\<close> passes of the main loop send nothing, the next one answers the connection that sent
  the frame with result 1, and no later pass sends anything. The flash is blank then. What the flash answers
  to a read while it is busy does not matter: the loop does not read before it is ready.
\<close>

theorem erase_answered_once:
  assumes "settles answer" "nor_erases answer mem"
    and "spi_ready h" "is_ready answer (frames h)" "accepted recv n" "rd32 recv 4 = ICD_CMD_EARSE"
  shows "\<exists>a1 h1 k N. XVC_Interface (slave_env answer base) t recv n a h = Some (Inr (a1, h1)) \<and>
    frames h1 = frames h @ [[0x06]] @ replicate k poll @ [[0xC7]] \<and>
    sent a1 = sent a \<and> blank (mem (frames h1)) \<and> ready_after answer (frames h1) N \<and>
    (\<forall>s ts. \<exists>s' a' h'. main_loop (slave_env answer base) ts (s, a1, h1) = Some (s', a', h') \<and>
       sent a' = sent a @ (if length ts \<le> N then [] else [(t, common_rsp ICD_CMD_EARSE 1)]))"
proof -
  define g where "g = XVC_CS_L (XVC_W (flashChoice (rd32 recv 12) h))"
  have g: "frames g = frames h" "spi_ready g" using assms(3) by (simp_all add: g_def frames_def spi_ready_def line_simps)
  obtain k h0 where k: "Flash_EraseChip (slave_env answer base) g = Some h0" "spi_ready h0"
      "frames h0 = frames h @ [[0x06]] @ replicate k poll @ [[0xC7]]"
    using EraseChip_starts [OF assms(1) g(2), of base] unfolding g(1) by blast
  let ?h1 = "XVC_CS_H h0"
  define a1 where "a1 = (with_flags t a)\<lparr>earseFlag := True, earsePcb := Some t\<rparr>"
  have h1: "spi_ready ?h1" "frames ?h1 = frames h0" using k(2) by (simp_all add: frames_def spi_ready_def line_simps)
  have b: "blank (mem (frames ?h1))"
    using assms(2,4) unfolding h1(2) k(3) nor_erases_def blank_def by blast
  obtain N where N: "ready_after answer (frames ?h1) N"
    using assms(1) ready_after_ex unfolding settles_def by blast
  have "cmd_erase (slave_env answer base) t recv (with_flags t a) h = Some (a1, ?h1)"
    using k(1) by (simp add: cmd_erase_def a1_def Let_def flip: g_def)
  then have "XVC_Interface (slave_env answer base) t recv n a h = Some (Inr (a1, ?h1))"
    using XVC_dispatch(1) [OF assms(5,6)] by simp
  moreover have "sent a1 = sent a" "earseFlag a1" "earsePcb a1 = Some t" by (simp_all add: a1_def)
  ultimately show ?thesis
    using b N k(3) h1(2) main_loop_erase [OF assms(2) h1(1) N b, of a1 t] by metis
qed

lemma nor_addr_wraps: "nor_addr (ucast (drop_bit 16 a)) (ucast (drop_bit 8 a)) (ucast a) = unat a mod 2 ^ 24" for a :: u32
proof -
  have u: "unat (take_bit 24 a) = unat a mod 2 ^ 24" by (simp only: unsigned_take_bit_eq) (simp only: take_bit_eq_mod)
  have "ucast (drop_bit 16 (take_bit 24 a)) = (ucast (drop_bit 16 a) :: u8)"
    "ucast (drop_bit 8 (take_bit 24 a)) = (ucast (drop_bit 8 a) :: u8)" "ucast (take_bit 24 a) = (ucast a :: u8)"
    by (rule bit_word_eqI, auto simp: bit_simps)+
  then show ?thesis using nor_addr24 [of "take_bit 24 a"] unfolding u by simp
qed

text \<open>A flash for the example: after a chip erase it is busy for three polls, and answers reads with 0 then.\<close>

definition lazy_busy :: "u8 list list \<Rightarrow> bool" where
  "lazy_busy fs \<longleftrightarrow> [0xC7] \<in> set fs \<and> length (filter ((=) poll) (takeWhile ((\<noteq>) [0xC7]) (rev fs))) < 3"

definition lazy_answer :: slave where
  "lazy_answer fs tx = (if lazy_busy fs then (if tx = [0x05] then 1 else 0) else nor_answer fs tx)"

lemma lazy_ready: "is_ready lazy_answer fs \<longleftrightarrow> \<not> lazy_busy fs"
  by (simp add: is_ready_def lazy_answer_def)

lemma lazy_polls: "lazy_busy (fs @ replicate i poll @ [poll]) \<Longrightarrow> lazy_busy (fs @ replicate i poll)"
  by (simp add: lazy_busy_def)

lemma lazy_settles: "settles lazy_answer"
  unfolding settles_def
proof
  fix fs
  have "takeWhile ((\<noteq>) [0xC7]) (rev (fs @ replicate 3 poll)) = poll # poll # poll # takeWhile ((\<noteq>) [0xC7]) (rev fs)"
    by (simp add: numeral_3_eq_3)
  then have "\<not> lazy_busy (fs @ replicate 3 poll)" by (simp add: lazy_busy_def)
  then have "\<not> bit (lazy_answer (fs @ replicate 3 poll) [0x05]) 0" by (simp add: lazy_answer_def)
  then show "\<exists>n. \<not> bit (lazy_answer (fs @ replicate n poll) [0x05]) 0" by blast
qed

lemma lazy_three: "ready_after lazy_answer (fs @ [[0xC7]]) N \<Longrightarrow> N = 3"
proof -
  have tw: "takeWhile ((\<noteq>) [0xC7]) (replicate i poll @ [0xC7] # r) = replicate i poll" for i r
    by (induction i) simp_all
  have b: "lazy_busy (fs @ [[0xC7]] @ replicate i poll) \<longleftrightarrow> i < 3" for i
  proof -
    have "takeWhile ((\<noteq>) [0xC7]) (rev (fs @ [[0xC7]] @ replicate i poll)) = replicate i poll"
      using tw [of i "rev fs"] by simp
    then show ?thesis by (simp add: lazy_busy_def)
  qed
  assume r: "ready_after lazy_answer (fs @ [[0xC7]]) N"
  have a: "bit (lazy_answer ((fs @ [[0xC7]]) @ replicate i poll) [0x05]) 0 \<longleftrightarrow> i < 3" for i
    using b [of i] by (simp add: lazy_answer_def)
  from r have "\<not> N < 3" "\<forall>i < N. i < 3" unfolding ready_after_def a by simp_all
  then show "N = 3" by (metis nat_neq_iff)
qed

lemma lazy_erases: "nor_erases lazy_answer nor_mem"
  unfolding nor_erases_def lazy_ready
proof (intro conjI allI impI)
  fix fs a js
  assume "\<not> lazy_busy fs"
  then show "lazy_answer fs ((0x03 # addr24 a) @ js) = nor_mem fs ((unat a + length js) mod 2 ^ 24)"
    using nor_addr_wraps [of a] by (simp add: addr24_def mod_add_left_eq lazy_answer_def)
next
  fix fs k x
  have p: "(nor_step poll ^^ k) s = s" for s by (induction k) auto
  obtain w m where "fold nor_step fs (False, \<lambda>_. 0xFF) = (w, m)" by fastforce
  then show "nor_mem (fs @ [[0x06]] @ replicate k poll @ [[0xC7]]) x = 0xFF" by (simp add: nor_mem_def p)
next
  fix fs a js
  obtain w m where "fold nor_step fs (False, \<lambda>_. 0xFF) = (w, m)" by fastforce
  then show "nor_mem (fs @ [poll]) = nor_mem fs" "nor_mem (fs @ [(0x03 # addr24 a) @ js]) = nor_mem fs"
    by (simp_all add: nor_mem_def addr24_def)
  assume "\<not> lazy_busy fs"
  then show "\<not> lazy_busy (fs @ [poll])" "\<not> lazy_busy (fs @ [(0x03 # addr24 a) @ js])"
    by (auto simp: lazy_busy_def addr24_def)
qed

theorem erase_answered_once_witness:
  "\<exists>a1 h1. XVC_Interface (slave_env lazy_answer (\<lambda>_ _. 0)) 3 (mem_of (client_frame ICD_CMD_EARSE [1, 0, 0, 0])) 24 app_init
       (SPI_softInit []) = Some (Inr (a1, h1)) \<and>
     (\<exists>s' a' h'. main_loop (slave_env lazy_answer (\<lambda>_ _. 0)) (replicate 3 0)
        (\<lparr>TCPTimer = 0, ARPTimer = 0, EthInitStatus = 0, calls = []\<rparr>, a1, h1) = Some (s', a', h') \<and> sent a' = []) \<and>
     (\<exists>s' a' h'. main_loop (slave_env lazy_answer (\<lambda>_ _. 0)) (replicate 4 0)
        (\<lparr>TCPTimer = 0, ARPTimer = 0, EthInitStatus = 0, calls = []\<rparr>, a1, h1) = Some (s', a', h') \<and>
      sent a' = [(3, common_rsp ICD_CMD_EARSE 1)])"
proof -
  note r = SPI_softInit_ready [of "[]"]
  have c: "accepted (mem_of (client_frame ICD_CMD_EARSE [1, 0, 0, 0])) 24"
    "rd32 (mem_of (client_frame ICD_CMD_EARSE [1, 0, 0, 0])) 4 = ICD_CMD_EARSE"
    using client_frame_accepted [of "[1, 0, 0, 0]" ICD_CMD_EARSE] by simp_all
  have e: "sent app_init = []" by (simp add: app_init_def)
  have f: "frames (SPI_softInit []) = [[]]"
    by (simp add: frames_def SPI_softInit_def MOSI_L_def SCK_H_def NSS_H_def hist_simps line_of_def line_step_def)
  have rd: "is_ready lazy_answer (frames (SPI_softInit []))" by (simp add: f lazy_ready lazy_busy_def)
  from erase_answered_once [OF lazy_settles lazy_erases r rd c, of "\<lambda>_ _. 0" 3 app_init]
  obtain a1 h1 k N where x: "XVC_Interface (slave_env lazy_answer (\<lambda>_ _. 0)) 3 (mem_of (client_frame ICD_CMD_EARSE [1, 0, 0, 0])) 24
      app_init (SPI_softInit []) = Some (Inr (a1, h1))"
    and n: "frames h1 = frames (SPI_softInit []) @ [[0x06]] @ replicate k poll @ [[0xC7]]" "ready_after lazy_answer (frames h1) N"
    and m: "\<forall>s ts. \<exists>s' a' h'. main_loop (slave_env lazy_answer (\<lambda>_ _. 0)) ts (s, a1, h1) = Some (s', a', h') \<and>
       sent a' = sent app_init @ (if length ts \<le> N then [] else [(3, common_rsp ICD_CMD_EARSE 1)])"
    by blast
  have "N = 3" using n lazy_three [of "frames (SPI_softInit []) @ [[0x06]] @ replicate k poll" N] by simp
  with m [rule_format, of "replicate 3 0" "\<lparr>TCPTimer = 0, ARPTimer = 0, EthInitStatus = 0, calls = []\<rparr>"]
    m [rule_format, of "replicate 4 0" "\<lparr>TCPTimer = 0, ARPTimer = 0, EthInitStatus = 0, calls = []\<rparr>"] x e
  show ?thesis by auto
qed

end
