(* ===== verification/Inet.thy ===== *)
theory Inet
  imports Pbuf
begin

text \<open>
  Byte order and the Internet checksum of lwIP, \<^verbatim>\<open>inet.c\<close> and \<^verbatim>\<open>inet_chksum.c\<close> (algorithm 1, the one this
  build selects). The reference is the one's complement sum of the big-endian 16-bit words of a byte string
  (RFC 1071), as a number. The sum over a chain of buffers is shown to depend only on the bytes it
  carries, not on where buffers of odd length cut them.
\<close>

section \<open>Byte order\<close>

definition htons :: "u16 \<Rightarrow> u16" where
  "htons n = push_bit 8 (n AND 0xff) OR drop_bit 8 (n AND 0xff00)"

definition ntohs :: "u16 \<Rightarrow> u16" where
  "ntohs n = htons n"

definition htonl :: "u32 \<Rightarrow> u32" where
  "htonl n = push_bit 24 (n AND 0xff) OR push_bit 8 (n AND 0xff00) OR drop_bit 8 (n AND 0xff0000) OR
     drop_bit 24 (n AND 0xff000000)"

definition ntohl :: "u32 \<Rightarrow> u32" where
  "ntohl n = htonl n"

section \<open>The checksum\<close>

fun chk_pairs :: "u8 list \<Rightarrow> u32 \<Rightarrow> u32 \<times> u8 list" where
  "chk_pairs (a # b # bs) acc =
     (let src = push_bit 8 (ucast a) :: u16;
          src = src OR ucast b
      in chk_pairs bs (acc + ucast src))"
| "chk_pairs bs acc = (acc, bs)"

text \<open>The argument is the \<open>len\<close> bytes from \<^verbatim>\<open>dataptr\<close>.\<close>

definition lwip_standard_chksum :: "u8 list \<Rightarrow> u16" where
  "lwip_standard_chksum bs =
     (let (acc, rest) = chk_pairs bs 0;
          acc = (case rest of [] \<Rightarrow> acc | a # _ \<Rightarrow> acc + ucast (push_bit 8 (ucast a) :: u16));
          acc = drop_bit 16 acc + (acc AND 0xffff);
          acc = (if acc AND 0xffff0000 \<noteq> 0 then drop_bit 16 acc + (acc AND 0xffff) else acc)
      in htons (ucast acc))"

definition inet_chksum :: "ptr \<Rightarrow> u16 \<Rightarrow> pmem \<Rightarrow> u16" where
  "inet_chksum dataptr len s = NOT (lwip_standard_chksum (read_at dataptr (unat len) (dat s)))"

definition FOLD_U32T :: "u32 \<Rightarrow> u32" where
  "FOLD_U32T u = drop_bit 16 u + (u AND 0xffff)"

definition SWAP_BYTES_IN_WORD :: "u32 \<Rightarrow> u32" where
  "SWAP_BYTES_IN_WORD w = push_bit 8 (w AND 0xff) OR drop_bit 8 (w AND 0xff00)"

text \<open>The loop over the buffers of a chain, the same in \<^verbatim>\<open>inet_chksum_pbuf\<close> and \<^verbatim>\<open>inet_chksum_pseudo\<close>.\<close>

partial_function (option) chksum_loop :: "addr option \<Rightarrow> u32 \<Rightarrow> u8 \<Rightarrow> pmem \<Rightarrow> (u32 \<times> u8) option" where
  "chksum_loop q acc swapped s =
     (case q of None \<Rightarrow> Some (acc, swapped)
      | Some p \<Rightarrow> Option.bind (pbs s p) (\<lambda>b.
          let acc = acc + ucast (lwip_standard_chksum (read_at (payload b) (unat (plen b)) (dat s)));
              acc = FOLD_U32T acc;
              (acc, swapped) = (if plen b mod 2 \<noteq> 0 then (SWAP_BYTES_IN_WORD acc, 1 - swapped) else (acc, swapped))
          in chksum_loop (p_next b) acc swapped s))"

definition inet_chksum_pbuf :: "addr option \<Rightarrow> pmem \<Rightarrow> u16 option" where
  "inet_chksum_pbuf p s =
     Option.bind (chksum_loop p 0 0 s) (\<lambda>(acc, swapped).
     let acc = (if swapped \<noteq> 0 then SWAP_BYTES_IN_WORD acc else acc)
     in Some (ucast (NOT (acc AND 0xffff))))"

definition inet_chksum_pseudo :: "addr option \<Rightarrow> u32 \<Rightarrow> u32 \<Rightarrow> u8 \<Rightarrow> u16 \<Rightarrow> pmem \<Rightarrow> u16 option" where
  "inet_chksum_pseudo p src dest proto proto_len s =
     Option.bind (chksum_loop p 0 0 s) (\<lambda>(acc, swapped).
     let acc = (if swapped \<noteq> 0 then SWAP_BYTES_IN_WORD acc else acc);
         acc = acc + (src AND 0xffff);
         acc = acc + (drop_bit 16 src AND 0xffff);
         acc = acc + (dest AND 0xffff);
         acc = acc + (drop_bit 16 dest AND 0xffff);
         acc = acc + ucast (htons (ucast proto));
         acc = acc + ucast (htons proto_len);
         acc = FOLD_U32T acc;
         acc = FOLD_U32T acc
     in Some (ucast (NOT (acc AND 0xffff))))"

section \<open>The reference\<close>

text \<open>The sum of the big-endian words, the last byte padded, and its one's complement representative.\<close>

fun wsum :: "u8 list \<Rightarrow> nat" where
  "wsum (a # b # bs) = 256 * unat a + unat b + wsum bs"
| "wsum [a] = 256 * unat a"
| "wsum [] = 0"

definition ones :: "nat \<Rightarrow> nat" where
  "ones n = (if n = 0 then 0 else (n - 1) mod 65535 + 1)"

definition swap :: "nat \<Rightarrow> nat" where
  "swap n = n mod 256 * 256 + n div 256"

definition internet_sum :: "u8 list \<Rightarrow> nat" where
  "internet_sum bs = ones (wsum bs)"

lemma ones_le: "ones n \<le> 65535"
proof -
  have "(n - 1) mod 65535 + 1 \<le> 65535" using mod_less_divisor [of 65535 "n - 1"] by linarith
  then show ?thesis by (metis ones_def le0)
qed

lemma ones_0 [simp]: "ones n = 0 \<longleftrightarrow> n = 0" "ones 0 = 0"
  by (simp_all add: ones_def)

lemma ones_mod: "ones n mod 65535 = n mod 65535"
proof (cases n)
  case (Suc m)
  then show ?thesis by (simp add: ones_def mod_Suc_eq)
qed simp

lemma ones_unique:
  assumes "x \<le> 65535" "x mod 65535 = n mod 65535" "x = 0 \<longleftrightarrow> n = 0"
  shows "ones n = x"
proof -
  have u: "y = z" if "y \<le> 65535" "z \<le> 65535" "y mod 65535 = z mod 65535" "y = 0 \<longleftrightarrow> z = 0" for y z :: nat
  proof -
    have "y mod 65535 = (if y = 65535 then 0 else y)" "z mod 65535 = (if z = 65535 then 0 else z)"
      using that(1,2) by auto
    then show ?thesis using that by (auto split: if_splits)
  qed
  show ?thesis
    by (rule u) (use assms ones_le ones_mod in auto)
qed

lemma ones_cong: "m mod 65535 = n mod 65535 \<Longrightarrow> m = 0 \<longleftrightarrow> n = 0 \<Longrightarrow> ones m = ones n"
  using ones_unique [of "ones n" m] ones_le ones_mod by simp

lemma ones_small: "n \<le> 65535 \<Longrightarrow> ones n = n"
  by (rule ones_unique) simp_all

lemma fold_cong: "(n div 65536 + n mod 65536) mod 65535 = n mod (65535 :: nat)"
proof -
  have "n = n div 65536 * 65535 + (n div 65536 + n mod 65536)"
    using div_mult_mod_eq [of n 65536] by linarith
  then show ?thesis by (metis mod_mult_self3)
qed

lemma swap_le: "n \<le> 65535 \<Longrightarrow> swap n \<le> 65535"
proof -
  assume "n \<le> 65535"
  then have "n div 256 < 256" by (intro less_mult_imp_div_less) simp
  moreover have "n mod 256 < 256" by simp
  ultimately show ?thesis unfolding swap_def by linarith
qed

lemma swap_cong: "swap n mod 65535 = 256 * n mod 65535"
proof -
  have "256 * n = n div 256 * 65535 + swap n"
    using div_mult_mod_eq [of n 256] unfolding swap_def by linarith
  then show ?thesis by (metis mod_mult_self3)
qed

lemma swap_0: "swap n = 0 \<longleftrightarrow> n = 0"
  using div_mult_mod_eq [of n 256] by (auto simp: swap_def)

lemma swap_swap: "n \<le> 65535 \<Longrightarrow> swap (swap n) = n"
proof -
  assume "n \<le> 65535"
  then have q: "n div 256 < 256" by (intro less_mult_imp_div_less) simp
  have "swap n mod 256 = n div 256" "swap n div 256 = n mod 256" using q by (simp_all add: swap_def)
  then show ?thesis by (simp add: swap_def [of "swap n"])
qed

lemma swap_ones: "swap (ones n) = ones (256 * n)"
proof (rule ones_unique [symmetric])
  show "swap (ones n) \<le> 65535" by (intro swap_le ones_le)
  show "swap (ones n) mod 65535 = 256 * n mod 65535"
    using ones_mod [of n] unfolding swap_cong by (metis mod_mult_right_eq)
  show "swap (ones n) = 0 \<longleftrightarrow> 256 * n = 0" by (simp add: swap_0)
qed

lemma ones_add: "ones (ones m + n) = ones (m + n)"
  by (rule ones_cong) (metis mod_add_left_eq ones_mod, simp)

section \<open>The reference and concatenation\<close>

lemma wsum_even: "even (length xs) \<Longrightarrow> wsum (xs @ ys) = wsum xs + wsum ys"
  by (induction xs rule: wsum.induct) simp_all

lemma wsum_shift:
  "wsum (a # xs) mod 65535 = (256 * unat a + 256 * wsum xs) mod 65535 \<and> (wsum (a # xs) = 0 \<longleftrightarrow> unat a = 0 \<and> wsum xs = 0)"
proof (induction xs arbitrary: a rule: wsum.induct)
  case (1 b c bs)
  have w: "wsum (a # b # c # bs) = 256 * unat a + unat b + wsum (c # bs)" by simp
  have "256 * unat a + 256 * wsum (b # c # bs) = unat b * 65535 + (256 * unat a + unat b + (256 * unat c + 256 * wsum bs))"
    by simp
  then have "(256 * unat a + 256 * wsum (b # c # bs)) mod 65535 = (256 * unat a + unat b + (256 * unat c + 256 * wsum bs)) mod 65535"
    by (metis mod_mult_self3)
  also have "\<dots> = (256 * unat a + unat b + wsum (c # bs)) mod 65535" using 1 [of c] by (metis mod_add_right_eq)
  finally show ?case unfolding w using 1 [of c] by simp
next
  case (2 b)
  have "256 * unat a + 256 * wsum [b] = unat b * 65535 + (256 * unat a + unat b)" by simp
  then have "(256 * unat a + 256 * wsum [b]) mod 65535 = (256 * unat a + unat b) mod 65535" by (metis mod_mult_self3)
  then show ?case by simp
qed simp

text \<open>Behind an odd number of bytes every word is shifted by a byte, which is a swap of the sum.\<close>

lemma ones_odd:
  assumes "odd (length xs)"
  shows "ones (wsum (xs @ ys)) = ones (wsum xs + 256 * wsum ys)"
proof -
  obtain zs a where xs: "xs = zs @ [a]" "even (length zs)" using assms by (cases xs rule: rev_cases) auto
  have w: "wsum (xs @ ys) = wsum zs + wsum (a # ys)" using wsum_even [OF xs(2), of "a # ys"] by (simp add: xs(1))
  have v: "wsum xs = wsum zs + 256 * unat a" using wsum_even [OF xs(2), of "[a]"] by (simp add: xs(1))
  show ?thesis
  proof (rule ones_cong)
    show "wsum (xs @ ys) mod 65535 = (wsum xs + 256 * wsum ys) mod 65535"
      unfolding w v using wsum_shift [of a ys] by (metis mod_add_right_eq add.assoc)
    show "wsum (xs @ ys) = 0 \<longleftrightarrow> wsum xs + 256 * wsum ys = 0"
      unfolding w v using wsum_shift [of a ys] by simp
  qed
qed

section \<open>Words as numbers\<close>

lemma unat_byte_u16: "unat (ucast (b :: u8) :: u16) = unat b" "unat (push_bit 8 (ucast b :: u16)) = 256 * unat b"
proof -
  have b: "unat b < 256" using unsigned_less [of b, where ?'a = nat] by simp
  then show c: "unat (ucast b :: u16) = unat b" by (simp add: unsigned_ucast_eq take_bit_nat_eq_self)
  have "unat (push_bit 8 (ucast b :: u16)) = take_bit 16 (push_bit 8 (unat (ucast b :: u16)))"
    by (simp only: unsigned_push_bit_eq len_num1 len_bit0) simp
  also have "\<dots> = 256 * unat b" unfolding c using b by (simp add: push_bit_eq_mult take_bit_nat_eq_self)
  finally show "unat (push_bit 8 (ucast b :: u16)) = 256 * unat b" .
qed

lemma unat_word16_of: "unat (word16_of a b) = unat a + 256 * unat b"
proof -
  have "word16_of a b = ucast a + push_bit 8 (ucast b)"
    unfolding word16_of_def by (rule disjunctive_add_eq_or [symmetric], rule bit_word_eqI) (auto simp: bit_simps byte_bit_beyond)
  then show ?thesis
    using unsigned_less [of a, where ?'a = nat] unsigned_less [of b, where ?'a = nat] unat_byte_u16
    by (simp add: unat_word_ariths)
qed

lemma unat_low: "unat (ucast v :: u8) = unat v mod 256" for v :: u16
  by (simp add: unsigned_ucast_eq take_bit_eq_mod)

lemma unat_high: "unat (ucast (drop_bit 8 w) :: u8) = unat w div 256" for w :: u16
proof -
  have "unat w div 256 < 256" using unsigned_less [of w, where ?'a = nat] by (simp add: less_mult_imp_div_less)
  then show ?thesis unfolding unat_low by (simp add: drop_bit_eq_div unat_div)
qed

lemma masks_u16: "(0xff :: u16) = mask 8" "(0xff00 :: u16) = push_bit 8 (mask 8)"
  by (simp_all add: mask_eq_exp_minus_1 push_bit_eq_mult)

lemma unat_htons: "unat (htons w) = swap (unat w)"
proof -
  have "htons w = word16_of (ucast (drop_bit 8 w)) (ucast w)"
    unfolding htons_def word16_of_def masks_u16 by (rule bit_word_eqI) (auto simp: bit_simps)
  then show ?thesis by (simp only: unat_word16_of unat_high) (simp add: unat_low swap_def)
qed

lemma masks_u32: "(0xff :: u32) = mask 8" "(0xff00 :: u32) = push_bit 8 (mask 8)" "(0xffff :: u32) = mask 16"
  by (simp_all add: mask_eq_exp_minus_1 push_bit_eq_mult)

lemma unat_SWAP: "unat w \<le> 65535 \<Longrightarrow> unat (SWAP_BYTES_IN_WORD w) = swap (unat w)"
proof -
  assume w: "unat w \<le> 65535"
  have "SWAP_BYTES_IN_WORD w = ucast (htons (ucast w))"
    unfolding SWAP_BYTES_IN_WORD_def htons_def masks_u16 masks_u32 by (rule bit_word_eqI) (auto simp: bit_simps)
  moreover have "unat (ucast w :: u16) = unat w" using w by (simp add: unsigned_ucast_eq take_bit_nat_eq_self)
  ultimately show ?thesis by (simp add: unat_htons)
qed

lemma unat_low16: "unat (u AND 0xffff) = unat u mod 65536" for u :: u32
proof -
  have "u AND 0xffff = take_bit 16 u" by (simp add: take_bit_eq_mask mask_eq_exp_minus_1)
  then show ?thesis by (simp only: unsigned_take_bit_eq) (simp only: take_bit_eq_mod, simp)
qed

lemma unat_high16: "unat (drop_bit 16 u) = unat u div 65536" for u :: u32
  by (simp add: drop_bit_eq_div unat_div)

lemma unat_FOLD: "unat (FOLD_U32T u) = unat u div 65536 + unat u mod 65536"
proof -
  have "unat u div 65536 < 65536" using unsigned_less [of u, where ?'a = nat] by (simp add: less_mult_imp_div_less)
  moreover have "unat u mod 65536 < 65536" by simp
  ultimately show ?thesis unfolding FOLD_U32T_def
    by (subst unat_add_u32) (simp_all only: unat_low16 unat_high16, simp)
qed

lemma FOLD_ones: "ones (unat (FOLD_U32T u)) = ones (unat u)"
proof -
  have "unat u div 65536 + unat u mod 65536 = 0 \<longleftrightarrow> unat u = 0" using div_mult_mod_eq [of "unat u" 65536] by auto
  then show ?thesis unfolding unat_FOLD by (intro ones_cong fold_cong)
qed

section \<open>The sum of one buffer\<close>

lemma chk_pairs_sum:
  assumes "unat acc + 65535 * length bs < 2 ^ 32"
  shows "\<exists>rest. snd (chk_pairs bs acc) = rest \<and> (rest = [] \<or> (\<exists>a. rest = [a])) \<and>
    unat (fst (chk_pairs bs acc)) + wsum rest = unat acc + wsum bs"
  using assms
proof (induction bs acc rule: chk_pairs.induct)
  case (1 a b bs acc)
  have ab: "unat a < 256" "unat b < 256" using unsigned_less [where ?'a = nat, of a] unsigned_less [where ?'a = nat, of b] by simp_all
  have src: "push_bit 8 (ucast a) OR ucast b = word16_of b a" by (simp add: word16_of_def or.commute)
  have acc: "unat (acc + ucast (word16_of b a)) = unat acc + (256 * unat a + unat b)"
    using 1(2) ab by (subst unat_add_u32) (simp_all add: unat_word16_of)
  have "unat (acc + ucast (word16_of b a)) + 65535 * length bs < 2 ^ 32" unfolding acc using 1(2) ab by simp
  from 1(1) [OF refl refl, unfolded src, OF this] show ?case unfolding acc by (simp add: src algebra_simps)
qed simp_all

lemma wsum_le: "wsum bs \<le> 65535 * ((length bs + 1) div 2)"
proof (induction bs rule: wsum.induct)
  case (1 a b bs)
  have "256 * unat a + unat b \<le> 65535"
    using unsigned_less [where ?'a = nat, of a] unsigned_less [where ?'a = nat, of b] by simp
  then show ?case using 1 by simp
next
  case (2 a)
  then show ?case using unsigned_less [where ?'a = nat, of a] by simp
qed simp

lemma FOLD_none:
  assumes "u AND 0xffff0000 = 0"
  shows "FOLD_U32T u = u"
proof -
  have m: "(0xffff0000 :: u32) = push_bit 16 (mask 16)" by (simp add: mask_eq_exp_minus_1 push_bit_eq_mult)
  have b: "n < 16" if "bit u n" for n
  proof (rule ccontr)
    assume "\<not> n < 16"
    then have "bit (u AND 0xffff0000) n"
      using that bit_imp_le_length [OF that] unfolding m by (auto simp: bit_simps)
    then show False using assms by simp
  qed
  have "drop_bit 16 u = 0" by (rule bit_word_eqI) (use b in \<open>auto simp: bit_simps\<close>)
  moreover have "u AND 0xffff = u" unfolding masks_u32 by (rule bit_word_eqI) (use b in \<open>auto simp: bit_simps\<close>)
  ultimately show ?thesis by (simp add: FOLD_U32T_def)
qed

lemma fold_small:
  assumes "n \<le> 131070"
  shows "n div 65536 + n mod 65536 = ones n"
proof -
  have "n div 65536 < 2" using assms by (intro less_mult_imp_div_less) linarith
  then consider "n div 65536 = 0" | "n div 65536 = 1" by linarith
  then have le: "n div 65536 + n mod 65536 \<le> 65535"
  proof cases
    case 1
    then show ?thesis using mod_less_divisor [of 65536 n] by linarith
  next
    case 2
    then show ?thesis using assms div_mult_mod_eq [of n 65536] by linarith
  qed
  have "n div 65536 + n mod 65536 = 0 \<longleftrightarrow> n = 0" using div_mult_mod_eq [of n 65536] by auto
  with le show ?thesis by (intro ones_unique [symmetric]) (simp_all only: fold_cong)
qed

lemma ones_fold: "ones (n div 65536 + n mod 65536) = ones n"
  by (rule ones_cong) (simp only: fold_cong, use div_mult_mod_eq [of n 65536] in auto)

lemma fold_twice:
  assumes "n \<le> 65535 * 65535"
  shows "(n div 65536 + n mod 65536) div 65536 + (n div 65536 + n mod 65536) mod 65536 = ones n"
proof -
  have "n div 65536 < 65535" using assms by (intro less_mult_imp_div_less) simp
  moreover have "n mod 65536 < 65536" by simp
  ultimately have "n div 65536 + n mod 65536 \<le> 131070" by linarith
  from fold_small [OF this] show ?thesis unfolding ones_fold .
qed

lemma FOLD_twice: "unat u \<le> 65535 * 65535 \<Longrightarrow> unat (FOLD_U32T (FOLD_U32T u)) = ones (unat u)"
  unfolding unat_FOLD by (rule fold_twice)

lemma chksum_internet:
  assumes "length bs < 65536"
  shows "unat (lwip_standard_chksum bs) = swap (internet_sum bs)"
proof -
  obtain acc rest where c: "chk_pairs bs 0 = (acc, rest)" by fastforce
  have small: "unat (0 :: u32) + 65535 * length bs < 2 ^ 32" using assms by simp
  have r: "rest = [] \<or> (\<exists>a. rest = [a])" "unat acc + wsum rest = wsum bs"
    using chk_pairs_sum [OF small] c by auto
  have "(length bs + 1) div 2 \<le> 32768" using assms by linarith
  then have "65535 * ((length bs + 1) div 2) \<le> 65535 * 32768" by (intro mult_le_mono2)
  then have bound: "wsum bs \<le> 65535 * 65535" using wsum_le [of bs] by linarith
  define acc1 where "acc1 = (case rest of [] \<Rightarrow> acc | a # _ \<Rightarrow> acc + ucast (push_bit 8 (ucast a) :: u16))"
  have acc1: "unat acc1 = wsum bs"
    using r bound by (auto simp: acc1_def unat_add_u32 unat_byte_u16)
  have two: "(if FOLD_U32T acc1 AND 0xffff0000 \<noteq> 0 then FOLD_U32T (FOLD_U32T acc1) else FOLD_U32T acc1) = FOLD_U32T (FOLD_U32T acc1)"
    using FOLD_none by simp
  have l: "lwip_standard_chksum bs = htons (ucast (FOLD_U32T (FOLD_U32T acc1)))"
    unfolding lwip_standard_chksum_def c Let_def case_prod_conv acc1_def [symmetric] FOLD_U32T_def [symmetric] two ..
  have f: "unat (FOLD_U32T (FOLD_U32T acc1)) = internet_sum bs"
    using bound by (simp add: FOLD_twice acc1 internet_sum_def)
  have "unat (ucast (FOLD_U32T (FOLD_U32T acc1)) :: u16) = internet_sum bs"
    using f ones_le [of "wsum bs"] by (simp add: unsigned_ucast_eq take_bit_nat_eq_self internet_sum_def)
  then show ?thesis by (simp add: l unat_htons)
qed

section \<open>The sum of a chain\<close>

text \<open>
  The accumulator after the bytes \<open>xs\<close>: their sum with the bytes of each word swapped, and swapped once
  more while an odd number of bytes has been added.
\<close>

definition chain_acc :: "u8 list \<Rightarrow> u32 \<times> u8 \<Rightarrow> bool" where
  "chain_acc xs = (\<lambda>(acc, swapped).
     swapped = (if odd (length xs) then 1 else 0) \<and>
     unat acc = (if odd (length xs) then internet_sum xs else swap (internet_sum xs)))"

lemma chain_acc_step:
  assumes "chain_acc xs (acc, swapped)" "length ys < 65536"
  defines "acc' \<equiv> FOLD_U32T (acc + ucast (lwip_standard_chksum ys))"
  shows "chain_acc (xs @ ys) (if odd (length ys) then (SWAP_BYTES_IN_WORD acc', 1 - swapped) else (acc', swapped))"
proof -
  have cs: "unat (ucast (lwip_standard_chksum ys) :: u32) = ones (256 * wsum ys)"
    using chksum_internet [OF assms(2)] by (simp add: internet_sum_def swap_ones)
  have a: "unat acc = ones (if odd (length xs) then wsum xs else 256 * wsum xs)"
    using assms(1) by (simp add: chain_acc_def internet_sum_def swap_ones)
  have s: "unat (acc + ucast (lwip_standard_chksum ys)) = unat acc + ones (256 * wsum ys)"
    using ones_le cs a by (subst unat_add_u32) (simp_all add: le_less_trans [OF add_mono [OF ones_le ones_le]])
  let ?t = "if odd (length xs) then wsum xs + 256 * wsum ys else 256 * wsum xs + 256 * wsum ys"
  have t: "ones (unat acc + ones (256 * wsum ys)) = ones ?t"
    unfolding a using ones_add by (simp add: add.commute)
  have "unat acc + ones (256 * wsum ys) \<le> 131070" using add_mono [OF ones_le ones_le] unfolding a by simp
  from fold_small [OF this] have acc': "unat acc' = ones ?t"
    unfolding acc'_def unat_FOLD s t .
  then have le: "unat acc' \<le> 65535" using ones_le by simp
  have sw: "unat (SWAP_BYTES_IN_WORD acc') = swap (ones ?t)" unfolding unat_SWAP [OF le] acc' ..
  show ?thesis
  proof (cases "even (length xs)")
    case True
    have "ones ?t = swap (internet_sum (xs @ ys))"
      using wsum_even [OF True, of ys] True by (simp add: internet_sum_def swap_ones distrib_left)
    then show ?thesis using assms(1) acc' sw True swap_swap [OF ones_le] by (simp add: chain_acc_def internet_sum_def)
  next
    case False
    have "ones ?t = internet_sum (xs @ ys)"
      using ones_odd [of xs ys] False by (simp add: internet_sum_def)
    then show ?thesis using assms(1) acc' sw False by (simp add: chain_acc_def)
  qed
qed

lemma chksum_loop_chain:
  "linked (pbs s) p as None \<Longrightarrow> chain_acc xs (acc, swapped) \<Longrightarrow>
   \<exists>r. chksum_loop p acc swapped s = Some r \<and> chain_acc (xs @ contents s as) r"
proof (induction as arbitrary: p acc swapped xs)
  case Nil
  then show ?case by (subst chksum_loop.simps) simp
next
  case (Cons a as)
  obtain b where b: "p = Some a" "pbs s a = Some b" "linked (pbs s) (p_next b) as None" using Cons.prems(1) by auto
  let ?ys = "read_at (payload b) (unat (plen b)) (dat s)"
  have ys: "bytes_of s a = ?ys" "length ?ys = unat (plen b)" using b(2) by (simp_all add: bytes_of_def)
  have l: "length ?ys < 65536" using unsigned_less [of "plen b", where ?'a = nat] by simp
  have o: "plen b mod 2 \<noteq> 0 \<longleftrightarrow> odd (length ?ys)"
    unfolding ys(2) by (simp add: word_unat_eq_iff unat_mod odd_iff_mod_2_eq_one)
  let ?acc = "FOLD_U32T (acc + ucast (lwip_standard_chksum ?ys))"
  obtain acc1 sw1 where n: "(if odd (length ?ys) then (SWAP_BYTES_IN_WORD ?acc, 1 - swapped) else (?acc, swapped)) = (acc1, sw1)"
    by fastforce
  have "chain_acc (xs @ ?ys) (acc1, sw1)" using chain_acc_step [OF Cons.prems(2) l] unfolding n .
  from Cons.IH [OF b(3) this] obtain r where "chksum_loop (p_next b) acc1 sw1 s = Some r" "chain_acc (xs @ contents s (a # as)) r"
    by (auto simp: ys(1))
  moreover have "chksum_loop p acc swapped s = chksum_loop (p_next b) acc1 sw1 s"
    unfolding b(1) by (subst chksum_loop.simps) (simp only: option.case b(2) Option.bind.simps Let_def o n case_prod_conv)
  ultimately show ?case by auto
qed

lemma chksum_loop_swapped:
  assumes "linked (pbs s) p as None"
  shows "\<exists>acc swapped. chksum_loop p 0 0 s = Some (acc, swapped) \<and>
    unat (if swapped \<noteq> 0 then SWAP_BYTES_IN_WORD acc else acc) = swap (internet_sum (contents s as))"
proof -
  have "chain_acc [] (0, 0)" by (simp add: chain_acc_def internet_sum_def swap_def)
  from chksum_loop_chain [OF assms this] obtain acc swapped where
    r: "chksum_loop p 0 0 s = Some (acc, swapped)" "chain_acc (contents s as) (acc, swapped)" by auto
  have "unat (if swapped \<noteq> 0 then SWAP_BYTES_IN_WORD acc else acc) = swap (internet_sum (contents s as))"
    using r(2) ones_le by (auto simp: chain_acc_def unat_SWAP internet_sum_def)
  with r(1) show ?thesis by blast
qed

section \<open>What the functions compute\<close>

text \<open>The checksum of a byte string as it is stored in a header (in network order on this machine).\<close>

definition checksum_of :: "u8 list \<Rightarrow> u16" where
  "checksum_of bs = NOT (htons (of_nat (internet_sum bs)))"

lemma unat_internet: "unat (of_nat (internet_sum bs) :: u16) = internet_sum bs"
  using ones_le [of "wsum bs"] by (simp add: internet_sum_def unsigned_of_nat take_bit_nat_eq_self)

lemma stored_acc:
  assumes "unat (acc :: u32) = swap (internet_sum bs)"
  shows "ucast (NOT (acc AND 0xffff)) = checksum_of bs"
proof -
  have "unat (ucast acc :: u16) = swap (internet_sum bs)"
    using assms swap_le [OF ones_le [of "wsum bs"]]
    by (simp add: unsigned_ucast_eq take_bit_nat_eq_self internet_sum_def)
  then have "ucast acc = htons (of_nat (internet_sum bs))" by (simp add: word_unat_eq_iff unat_htons unat_internet)
  moreover have "ucast (NOT (acc AND 0xffff)) = (NOT (ucast acc) :: u16)"
    unfolding masks_u32 by (rule bit_word_eqI) (auto simp: bit_simps)
  ultimately show ?thesis by (simp add: checksum_of_def)
qed

lemma inet_chksum_sum: "inet_chksum p len s = checksum_of (read_at p (unat len) (dat s))"
proof -
  have l: "length (read_at p (unat len) (dat s)) < 65536" using unsigned_less [of len, where ?'a = nat] by simp
  have "lwip_standard_chksum (read_at p (unat len) (dat s)) = htons (of_nat (internet_sum (read_at p (unat len) (dat s))))"
    using chksum_internet [OF l] by (simp add: word_unat_eq_iff unat_htons unat_internet)
  then show ?thesis by (simp add: inet_chksum_def checksum_of_def)
qed

lemma swaps_cong:
  "sum_list (map swap ws) mod 65535 = 256 * sum_list ws mod 65535 \<and> (sum_list (map swap ws) = 0 \<longleftrightarrow> sum_list ws = 0)"
proof (induction ws)
  case (Cons w ws)
  have "(swap w + sum_list (map swap ws)) mod 65535 = (256 * w + 256 * sum_list ws) mod 65535"
    using Cons swap_cong [of w] by (intro mod_add_cong) simp_all
  then show ?case using Cons by (simp add: swap_0 distrib_left)
qed simp

lemma swaps_ones: "ones (sum_list (map swap ws)) = swap (ones (sum_list ws))"
  unfolding swap_ones using swaps_cong [of ws] by (intro ones_cong) simp_all

lemma word_halves:
  "unat (w AND 0xffff) = swap (256 * unat (ucast w :: u8) + unat (ucast (drop_bit 8 w) :: u8))"
  "unat (drop_bit 16 w AND 0xffff) = swap (256 * unat (ucast (drop_bit 16 w) :: u8) + unat (ucast (drop_bit 24 w) :: u8))"
  for w :: u32
proof -
  have low: "unat (v AND 0xffff) = swap (256 * unat (ucast v :: u8) + unat (ucast (drop_bit 8 v) :: u8))" for v :: u32
  proof -
    have b: "unat (ucast v :: u8) = unat v mod 256" "unat (ucast (drop_bit 8 v) :: u8) = unat v div 256 mod 256"
      by (simp add: unsigned_ucast_eq take_bit_eq_mod) (simp add: unsigned_ucast_eq take_bit_eq_mod drop_bit_eq_div unat_div)
    have "unat v mod 65536 = 256 * (unat v div 256 mod 256) + unat v mod 256" using mod_mult2_eq [of "unat v" 256 256] by simp
    then show ?thesis unfolding unat_low16 b by (simp add: swap_def)
  qed
  show "unat (w AND 0xffff) = swap (256 * unat (ucast w :: u8) + unat (ucast (drop_bit 8 w) :: u8))" by (rule low)
  have "drop_bit 8 (drop_bit 16 w) = drop_bit 24 w" by simp
  then show "unat (drop_bit 16 w AND 0xffff) = swap (256 * unat (ucast (drop_bit 16 w) :: u8) + unat (ucast (drop_bit 24 w) :: u8))"
    using low [of "drop_bit 16 w"] by (simp only:)
qed

text \<open>The pseudo header of TCP and UDP.\<close>

definition pseudo_header :: "u32 \<Rightarrow> u32 \<Rightarrow> u8 \<Rightarrow> u16 \<Rightarrow> u8 list" where
  "pseudo_header src dest proto n = le32 src @ le32 dest @ [0, proto, ucast (drop_bit 8 n), ucast n]"

lemma unat_sum_list:
  "\<forall>x \<in> set xs. unat x \<le> 65535 \<Longrightarrow> length xs < 100 \<Longrightarrow>
   unat (sum_list xs) = sum_list (map unat xs) \<and> unat (sum_list xs) \<le> length xs * 65535" for xs :: "u32 list"
proof (induction xs)
  case (Cons x xs)
  then have "unat x + unat (sum_list xs) < 2 ^ 32" by simp
  then have "unat (x + sum_list xs) = unat x + unat (sum_list xs)" by (rule unat_add_u32)
  then show ?case using Cons by simp
qed simp

lemma wsum_pseudo:
  "wsum (pseudo_header src dest proto n @ bs) =
     (256 * unat (ucast src :: u8) + unat (ucast (drop_bit 8 src) :: u8)) +
     (256 * unat (ucast (drop_bit 16 src) :: u8) + unat (ucast (drop_bit 24 src) :: u8)) +
     (256 * unat (ucast dest :: u8) + unat (ucast (drop_bit 8 dest) :: u8)) +
     (256 * unat (ucast (drop_bit 16 dest) :: u8) + unat (ucast (drop_bit 24 dest) :: u8)) +
     unat proto + unat n + wsum bs"
proof -
  have n: "256 * unat (ucast (drop_bit 8 n) :: u8) + unat (ucast n :: u8) = unat n"
    unfolding unat_high by (simp add: unat_low)
  show ?thesis unfolding pseudo_header_def le32_def by (simp only: append.simps wsum.simps unat_0 mult_0_right n)
qed

lemma pseudo_sum:
  fixes src dest :: u32 and n :: u16 and proto :: u8
  assumes a: "unat a = swap (internet_sum bs)"
  defines "t \<equiv> a + (src AND 0xffff) + (drop_bit 16 src AND 0xffff) + (dest AND 0xffff) + (drop_bit 16 dest AND 0xffff) +
    ucast (htons (ucast proto)) + ucast (htons n)"
  shows "unat t \<le> 7 * 65535" "ones (unat t) = swap (internet_sum (pseudo_header src dest proto n @ bs))"
proof -
  let ?w = "\<lambda>v :: u32. 256 * unat (ucast v :: u8) + unat (ucast (drop_bit 8 v) :: u8)"
  let ?v = "\<lambda>v :: u32. 256 * unat (ucast (drop_bit 16 v) :: u8) + unat (ucast (drop_bit 24 v) :: u8)"
  define ws where "ws = [internet_sum bs, ?w src, ?v src, ?w dest, ?v dest, unat proto, unat n]"
  define xs where "xs = [a, src AND 0xffff, drop_bit 16 src AND 0xffff, dest AND 0xffff, drop_bit 16 dest AND 0xffff,
    ucast (htons (ucast proto)), ucast (htons n)]"
  have half: "unat (v AND 0xffff) \<le> 65535" for v :: u32
    unfolding unat_low16 using mod_less_divisor [of 65536 "unat v"] by linarith
  have h: "unat w \<le> 65535" for w :: u16 using unsigned_less [of w, where ?'a = nat] by simp
  have a1: "unat a \<le> 65535" unfolding a internet_sum_def by (intro swap_le ones_le)
  have xs: "\<forall>x \<in> set xs. unat x \<le> 65535" "length xs = 7" using a1 half h by (simp_all add: xs_def)
  have d: "drop_bit 8 (drop_bit 16 w) = drop_bit 24 w" for w :: u32 by simp
  have t: "t = sum_list xs" by (simp add: t_def xs_def add.assoc)
  have u: "map unat xs = map swap ws"
    unfolding xs_def ws_def by (simp only: list.map a word_halves unat_ucast_u32 unat_htons unat_byte_u16 d)
  show "unat t \<le> 7 * 65535" using unat_sum_list [OF xs(1)] xs(2) by (simp add: t)
  have "unat t = sum_list (map swap ws)" using unat_sum_list [OF xs(1)] xs(2) by (simp add: t u)
  then have "ones (unat t) = swap (ones (sum_list ws))" by (simp only: swaps_ones)
  also have "sum_list ws = internet_sum bs + (?w src + ?v src + ?w dest + ?v dest + unat proto + unat n)"
    by (simp add: ws_def)
  also have "ones \<dots> = internet_sum (pseudo_header src dest proto n @ bs)"
    unfolding internet_sum_def ones_add wsum_pseudo by (simp only: ac_simps)
  finally show "ones (unat t) = swap (internet_sum (pseudo_header src dest proto n @ bs))" .
qed

lemma chksum_of_chain:
  assumes "linked (pbs s) p as None"
  shows "inet_chksum_pbuf p s = Some (checksum_of (contents s as)) \<and>
    inet_chksum_pseudo p src dest proto n s = Some (checksum_of (pseudo_header src dest proto n @ contents s as))"
proof -
  obtain acc swapped where r: "chksum_loop p 0 0 s = Some (acc, swapped)"
      "unat (if swapped \<noteq> 0 then SWAP_BYTES_IN_WORD acc else acc) = swap (internet_sum (contents s as))"
    using chksum_loop_swapped [OF assms] by blast
  define a where "a = (if swapped \<noteq> 0 then SWAP_BYTES_IN_WORD acc else acc)"
  have a: "unat a = swap (internet_sum (contents s as))" using r(2) by (simp add: a_def)
  have "inet_chksum_pbuf p s = Some (checksum_of (contents s as))"
    using stored_acc [OF a] by (simp add: inet_chksum_pbuf_def r(1) flip: a_def)
  moreover have "inet_chksum_pseudo p src dest proto n s = Some (checksum_of (pseudo_header src dest proto n @ contents s as))"
  proof -
    define t where "t = a + (src AND 0xffff) + (drop_bit 16 src AND 0xffff) + (dest AND 0xffff) + (drop_bit 16 dest AND 0xffff) +
      ucast (htons (ucast proto)) + ucast (htons n)"
    note t = pseudo_sum [OF a, of src dest proto n, folded t_def]
    have "unat (FOLD_U32T (FOLD_U32T t)) = swap (internet_sum (pseudo_header src dest proto n @ contents s as))"
      using FOLD_twice [of t] t by simp
    from stored_acc [OF this] show ?thesis
      by (simp add: inet_chksum_pseudo_def r(1) t_def flip: a_def)
  qed
  ultimately show ?thesis ..
qed

text \<open>
  C27: the checksum of a packet is the Internet checksum of its bytes, whatever buffers carry it: for every
  chain, also with buffers of odd length anywhere, \<^verbatim>\<open>inet_chksum_pbuf\<close> and \<^verbatim>\<open>inet_chksum_pseudo\<close> return the
  complement of the one's complement sum of the big-endian words of the bytes the chain carries, for the
  second with the pseudo header of addresses, protocol and length in front.
\<close>

theorem inet_chksum_chain:
  assumes "linked (pbs s) p as None"
  shows "inet_chksum_pbuf p s = Some (checksum_of (contents s as)) \<and>
    inet_chksum_pseudo p src dest proto n s = Some (checksum_of (pseudo_header src dest proto n @ contents s as))"
  by (rule chksum_of_chain [OF assms])

section \<open>Checking a stored checksum\<close>

lemma swap_complement: "n \<le> 65535 \<Longrightarrow> swap (65535 - n) = 65535 - swap n"
proof -
  assume "n \<le> 65535"
  then have q: "n div 256 \<le> 255" by (simp add: less_mult_imp_div_less less_Suc_eq_le [symmetric])
  have m: "n mod 256 \<le> 255" using mod_less_divisor [of 256 n] by linarith
  define a where "a = 255 - n div 256"
  define b where "b = 255 - n mod 256"
  have n: "65535 - n = 256 * a + b" unfolding a_def b_def
    using div_mult_mod_eq [of n 256] q m by (simp add: diff_mult_distrib2)
  have "b < 256" by (simp add: b_def)
  then have "(256 * a + b) mod 256 = b" "(256 * a + b) div 256 = a" by simp_all
  then have "swap (65535 - n) = b * 256 + a" unfolding n swap_def by simp
  also have "\<dots> = 65535 - swap n" unfolding a_def b_def swap_def using q m by linarith
  finally show ?thesis .
qed

lemma unat_NOT: "unat (NOT w) = 65535 - unat w" for w :: u16
proof -
  have "w \<le> 0xffff" using unsigned_less [of w, where ?'a = nat] by (simp add: word_le_nat_alt)
  then have "unat (0xffff - w) = 65535 - unat w" by (simp add: unat_sub)
  moreover have "NOT w = 0xffff - w" by (simp add: not_eq_complement)
  ultimately show ?thesis by simp
qed

lemma unat_checksum: "unat (checksum_of bs) = 65535 - swap (internet_sum bs)"
  by (simp add: checksum_of_def unat_NOT unat_htons unat_internet)

lemma checksum_zero: "checksum_of bs = 0 \<longleftrightarrow> internet_sum bs = 65535"
proof -
  have i: "internet_sum bs \<le> 65535" unfolding internet_sum_def by (rule ones_le)
  have "checksum_of bs = 0 \<longleftrightarrow> swap (internet_sum bs) = 65535"
    using swap_le [OF i] by (simp add: word_unat_eq_iff unat_checksum)
  moreover have "swap 65535 = 65535" by (simp add: swap_def)
  ultimately show ?thesis using swap_swap [OF i] by metis
qed

lemma checksum_stored:
  assumes "even (length xs)"
  shows "checksum_of (xs @ le16 (checksum_of (xs @ [0, 0] @ ys)) @ ys) = 0"
proof -
  define S where "S = wsum xs + wsum ys"
  let ?c = "checksum_of (xs @ [0, 0] @ ys)"
  have S: "wsum (xs @ [0, 0] @ ys) = S" using wsum_even [OF assms, of "[0, 0] @ ys"] by (simp add: S_def)
  have c: "unat ?c = 65535 - swap (ones S)" unfolding unat_checksum internet_sum_def S ..
  have lo: "256 * unat (ucast ?c :: u8) + unat (ucast (drop_bit 8 ?c) :: u8) = swap (unat ?c)"
    unfolding unat_high by (simp add: unat_low swap_def)
  have "swap (unat ?c) = 65535 - ones S"
    unfolding c using swap_complement [OF swap_le [OF ones_le [of S]]] swap_swap [OF ones_le [of S]] by simp
  then have w: "wsum (xs @ le16 ?c @ ys) = S + (65535 - ones S)"
    using wsum_even [OF assms, of "le16 ?c @ ys"] lo by (simp add: le16_def S_def)
  have "ones (S + (65535 - ones S)) = ones (ones S + (65535 - ones S))" by (simp only: ones_add)
  also have "\<dots> = 65535" using ones_le [of S] by (simp add: ones_small)
  finally show ?thesis unfolding checksum_zero internet_sum_def w .
qed

lemma wsum_update:
  "k < length bs \<Longrightarrow> \<exists>f \<in> {1, 256}. wsum (bs[k := b]) + f * unat (bs ! k) = wsum bs + f * unat b"
proof (induction bs arbitrary: k rule: wsum.induct)
  case (1 x y bs)
  show ?case
  proof (cases k)
    case (Suc j)
    show ?thesis
    proof (cases j)
      case (Suc i)
      then show ?thesis using 1(1) [of i] 1(2) \<open>k = Suc j\<close> by auto
    qed (simp add: Suc)
  qed simp
qed auto

lemma checksum_detects:
  assumes "checksum_of bs = 0" "k < length bs" "b \<noteq> bs ! k"
  shows "checksum_of (bs[k := b]) \<noteq> 0"
proof
  assume "checksum_of (bs[k := b]) = 0"
  then have z: "wsum bs mod 65535 = 0" "wsum (bs[k := b]) mod 65535 = 0"
    using assms(1) ones_mod [of "wsum bs"] ones_mod [of "wsum (bs[k := b])"] unfolding checksum_zero internet_sum_def by simp_all
  obtain f where f: "f \<in> {1, 256}" "wsum (bs[k := b]) + f * unat (bs ! k) = wsum bs + f * unat b"
    using wsum_update [OF assms(2)] by blast
  have "(f * unat (bs ! k)) mod 65535 = (wsum (bs[k := b]) + f * unat (bs ! k)) mod 65535"
    using z(2) by (simp add: mod_0_imp_dvd mod_add_left_eq [symmetric, of "wsum (bs[k := b])"])
  also have "\<dots> = (f * unat b) mod 65535"
    unfolding f(2) using z(1) by (simp add: mod_add_left_eq [symmetric, of "wsum bs"])
  finally have m: "(f * unat (bs ! k)) mod 65535 = (f * unat b) mod 65535" .
  have "f * unat x < 65535" for x :: u8 using unsigned_less [of x, where ?'a = nat] f(1) by auto
  then have "f * unat (bs ! k) = f * unat b" using m by simp
  then have "unat (bs ! k) = unat b" using f(1) by auto
  then show False using assms(3) by (simp add: word_unat_eq_iff)
qed

lemma read_write_inside:
  assumes "k + length bs \<le> n"
  shows "read_at p n (write_at (fst p, snd p + int k) bs d) = take k (read_at p n d) @ bs @ drop (k + length bs) (read_at p n d)"
proof (rule nth_equalityI)
  fix i assume "i < length (read_at p n (write_at (fst p, snd p + int k) bs d))"
  then have i: "i < n" by simp
  have "nat (int i - int k) = i - k" by simp
  then show "read_at p n (write_at (fst p, snd p + int k) bs d) ! i =
      (take k (read_at p n d) @ bs @ drop (k + length bs) (read_at p n d)) ! i"
    using i assms by (auto simp: read_at_def write_at_def nth_append min_def)
qed (use assms in simp)

text \<open>
  C28: a stored checksum protects its bytes. When the checksum field at an even offset is cleared and then
  filled with what \<^verbatim>\<open>inet_chksum\<close> computes, checking the bytes with \<^verbatim>\<open>inet_chksum\<close> gives 0; after a change of
  any single byte, the field included, it does not.
\<close>

theorem inet_chksum_protects:
  fixes s :: pmem and p :: ptr and len :: u16
  assumes "even k" "k + 2 \<le> unat len"
  defines "q \<equiv> (fst p, snd p + int k)"
  defines "cleared \<equiv> s\<lparr>dat := write_at q [0, 0] (dat s)\<rparr>"
  defines "filled \<equiv> cleared\<lparr>dat := write_at q (le16 (inet_chksum p len cleared)) (dat cleared)\<rparr>"
  shows "inet_chksum p len filled = 0 \<and>
    (\<forall>j < unat len. \<forall>b. b \<noteq> dat filled (fst p) (snd p + int j) \<longrightarrow>
       inet_chksum p len (filled\<lparr>dat := write_at (fst p, snd p + int j) [b] (dat filled)\<rparr>) \<noteq> 0)"
proof -
  let ?n = "unat len"
  define bs where "bs = read_at p ?n (dat s)"
  define xs where "xs = take k bs"
  define ys where "ys = drop (k + 2) bs"
  have xs: "even (length xs)" using assms(1,2) by (simp add: xs_def bs_def min_def)
  have c: "read_at p ?n (dat cleared) = xs @ [0, 0] @ ys"
    using read_write_inside [of k "[0, 0]" ?n p "dat s"] assms(2) by (simp add: cleared_def q_def xs_def ys_def bs_def)
  have "read_at p ?n (dat filled) = take k (xs @ [0, 0] @ ys) @ le16 (inet_chksum p len cleared) @ drop (k + 2) (xs @ [0, 0] @ ys)"
    using read_write_inside [of k "le16 (inet_chksum p len cleared)" ?n p "dat cleared"] assms(2)
    by (simp add: filled_def q_def c)
  moreover have "take k (xs @ [0, 0] @ ys) = xs" "drop (k + 2) (xs @ [0, 0] @ ys) = ys"
    using assms(2) by (simp_all add: xs_def bs_def min_def)
  ultimately have f: "read_at p ?n (dat filled) = xs @ le16 (checksum_of (xs @ [0, 0] @ ys)) @ ys"
    by (simp add: inet_chksum_sum c)
  have z: "checksum_of (read_at p ?n (dat filled)) = 0" unfolding f by (rule checksum_stored [OF xs])
  have "inet_chksum p len (filled\<lparr>dat := write_at (fst p, snd p + int j) [b] (dat filled)\<rparr>) \<noteq> 0"
    if j: "j < ?n" and b: "b \<noteq> dat filled (fst p) (snd p + int j)" for j b
  proof -
    have r: "read_at p ?n (write_at (fst p, snd p + int j) [b] (dat filled)) = (read_at p ?n (dat filled))[j := b]"
      using read_write_inside [of j "[b]" ?n p "dat filled"] j by (simp add: upd_conv_take_nth_drop)
    have "b \<noteq> read_at p ?n (dat filled) ! j" using j b by (simp add: read_at_def)
    from checksum_detects [OF z _ this] show ?thesis using j by (simp add: inet_chksum_sum r)
  qed
  then show ?thesis using z by (simp add: inet_chksum_sum)
qed

theorem inet_chksum_protects_witness:
  "\<forall>s. let cleared = s\<lparr>dat := write_at (Ext 1, 10) [0, 0] (dat s)\<rparr> in
     inet_chksum (Ext 1, 0) 20 (cleared\<lparr>dat := write_at (Ext 1, 10) (le16 (inet_chksum (Ext 1, 0) 20 cleared)) (dat cleared)\<rparr>) = 0"
proof (intro allI)
  fix s :: pmem
  show "let cleared = s\<lparr>dat := write_at (Ext 1, 10) [0, 0] (dat s)\<rparr> in
     inet_chksum (Ext 1, 0) 20 (cleared\<lparr>dat := write_at (Ext 1, 10) (le16 (inet_chksum (Ext 1, 0) 20 cleared)) (dat cleared)\<rparr>) = 0"
    using inet_chksum_protects [of 10 20 "(Ext 1, 0)" s] by (simp add: Let_def)
qed

theorem inet_chksum_chain_witness:
  "inet_chksum_pbuf (Some (Memp 83)) (three 1 1 1) = Some (checksum_of [0, 1, 2, 0, 1, 0])"
proof -
  have "contents (three 1 1 1) [Memp 83, Memp 84, Memp 85] = [0, 1, 2, 0, 1, 0]"
    by (simp add: bytes_of_def buf_def read_at_def three_def upt_rec)
  then show ?thesis
    using inet_chksum_chain [of "three 1 1 1" "Some (Memp 83)" "[Memp 83, Memp 84, Memp 85]"]
    by (simp add: three_def buf_def)
qed

end
