(* ===== verification/IpAddr.thy ===== *)
theory IpAddr
  imports EthRing Inet Tcp
begin

text \<open>
  What the layers of lwIP above the driver share: the state of the network interfaces and of TCP as the field
  \<open>up\<close> of the driver's state, access to the fields of a header through the payload pointer of a packet, and the
  addresses of \<^verbatim>\<open>ip_addr.h\<close> and \<^verbatim>\<open>ip_addr.c\<close>. An address is the value of its word in memory, so in network
  byte order; a null pointer to an address is \<open>None\<close>. A network interface is a number, \<open>netif_list\<close> the order
  in which the \<^verbatim>\<open>next\<close> pointers link them.
\<close>

record netstate =
  netifs :: "nat \<Rightarrow> netif"
  netif_list :: "nat list"
  netif_default :: "nat option"
  netifnum :: u8
  tcp :: tcps

definition upd_up :: "('u \<Rightarrow> 'u) \<Rightarrow> 'u nic \<Rightarrow> 'u nic" where
  "upd_up f s = s\<lparr>up := f (up s)\<rparr>"

definition upd_netif :: "nat \<Rightarrow> (netif \<Rightarrow> netif) \<Rightarrow> ('a netstate_scheme) nic \<Rightarrow> ('a netstate_scheme) nic" where
  "upd_netif n f = upd_up (\<lambda>u. u\<lparr>netifs := (netifs u)(n := f (netifs u n))\<rparr>)"

section \<open>Fields of a header\<close>

definition get8 :: "ptr \<Rightarrow> nat \<Rightarrow> pmem \<Rightarrow> u8" where
  "get8 p k m = dat m (fst p) (snd p + int k)"

definition get16 :: "ptr \<Rightarrow> nat \<Rightarrow> pmem \<Rightarrow> u16" where
  "get16 p k m = word16_of (get8 p k m) (get8 p (k + 1) m)"

definition get32 :: "ptr \<Rightarrow> nat \<Rightarrow> pmem \<Rightarrow> u32" where
  "get32 p k m = word32_of (get8 p k m) (get8 p (k + 1) m) (get8 p (k + 2) m) (get8 p (k + 3) m)"

definition gets :: "ptr \<Rightarrow> nat \<Rightarrow> nat \<Rightarrow> pmem \<Rightarrow> u8 list" where
  "gets p k n m = read_at (fst p, snd p + int k) n (dat m)"

definition poke :: "ptr \<Rightarrow> nat \<Rightarrow> u8 list \<Rightarrow> pmem \<Rightarrow> pmem" where
  "poke p k bs m = m\<lparr>dat := write_at (fst p, snd p + int k) bs (dat m)\<rparr>"

definition put16 :: "ptr \<Rightarrow> nat \<Rightarrow> u16 \<Rightarrow> pmem \<Rightarrow> pmem" where
  "put16 p k w = poke p k (le16 w)"

definition put32 :: "ptr \<Rightarrow> nat \<Rightarrow> u32 \<Rightarrow> pmem \<Rightarrow> pmem" where
  "put32 p k w = poke p k (le32 w)"

definition on_pm :: "(pmem \<Rightarrow> pmem) \<Rightarrow> 'u nic \<Rightarrow> 'u nic" where
  "on_pm f s = s\<lparr>pm := f (pm s)\<rparr>"

text \<open>A function of the packet memory, in the state of the stack.\<close>

definition with_pm :: "(pmem \<Rightarrow> ('r \<times> pmem) option) \<Rightarrow> 'u nic \<Rightarrow> ('r \<times> 'u nic) option" where
  "with_pm f s = Option.bind (f (pm s)) (\<lambda>(r, m). Some (r, s\<lparr>pm := m\<rparr>))"

section \<open>Addresses\<close>

definition IP4_ADDR :: "u8 \<Rightarrow> u8 \<Rightarrow> u8 \<Rightarrow> u8 \<Rightarrow> u32" where
  "IP4_ADDR a b c d =
     htonl (push_bit 24 (ucast a) OR push_bit 16 (ucast b) OR push_bit 8 (ucast c) OR ucast d)"

definition ip_addr_netcmp :: "u32 \<Rightarrow> u32 \<Rightarrow> u32 \<Rightarrow> bool" where
  "ip_addr_netcmp addr1 addr2 msk \<longleftrightarrow> addr1 AND msk = addr2 AND msk"

definition ip_addr_isany :: "u32 option \<Rightarrow> bool" where
  "ip_addr_isany addr1 \<longleftrightarrow> (case addr1 of None \<Rightarrow> True | Some a \<Rightarrow> a = 0)"

definition ip_addr_ismulticast :: "u32 \<Rightarrow> bool" where
  "ip_addr_ismulticast addr1 \<longleftrightarrow> addr1 AND ntohl 0xf0000000 = ntohl 0xe0000000"

abbreviation (input) NETIF_FLAG_UP :: u8 where "NETIF_FLAG_UP \<equiv> 0x01"
abbreviation (input) NETIF_FLAG_BROADCAST :: u8 where "NETIF_FLAG_BROADCAST \<equiv> 0x02"
abbreviation (input) NETIF_FLAG_LINK_UP :: u8 where "NETIF_FLAG_LINK_UP \<equiv> 0x10"
abbreviation (input) NETIF_FLAG_ETHARP :: u8 where "NETIF_FLAG_ETHARP \<equiv> 0x20"
abbreviation (input) IP_ADDR_ANY_VALUE :: u32 where "IP_ADDR_ANY_VALUE \<equiv> 0"
abbreviation (input) IP_ADDR_BROADCAST_VALUE :: u32 where "IP_ADDR_BROADCAST_VALUE \<equiv> 0xffffffff"

definition ip_addr_isbroadcast :: "u32 \<Rightarrow> netif \<Rightarrow> bool" where
  "ip_addr_isbroadcast addr2test n =
     (if NOT addr2test = IP_ADDR_ANY_VALUE \<or> addr2test = IP_ADDR_ANY_VALUE then True
      else if netif_flags n AND NETIF_FLAG_BROADCAST = 0 then False
      else if addr2test = nif_addr n then False
      else if ip_addr_netcmp addr2test (nif_addr n) (nif_mask n) \<and>
              addr2test AND NOT (nif_mask n) = IP_ADDR_BROADCAST_VALUE AND NOT (nif_mask n) then True
      else False)"

definition ip4_addr1 :: "u32 \<Rightarrow> u16" where "ip4_addr1 a = ucast (drop_bit 24 (ntohl a)) AND 0xff"
definition ip4_addr2 :: "u32 \<Rightarrow> u16" where "ip4_addr2 a = ucast (drop_bit 16 (ntohl a)) AND 0xff"
definition ip4_addr3 :: "u32 \<Rightarrow> u16" where "ip4_addr3 a = ucast (drop_bit 8 (ntohl a)) AND 0xff"
definition ip4_addr4 :: "u32 \<Rightarrow> u16" where "ip4_addr4 a = ucast (ntohl a) AND 0xff"

lemma byte_masks: "(0xff :: u32) = mask 8" "(0xff00 :: u32) = push_bit 8 (mask 8)"
    "(0xff0000 :: u32) = push_bit 16 (mask 8)" "(0xff000000 :: u32) = push_bit 24 (mask 8)"
  by (simp_all add: mask_eq_exp_minus_1 push_bit_eq_mult)

lemma htonl_bytes:
  "htonl w = word32_of (ucast (drop_bit 24 w)) (ucast (drop_bit 16 w)) (ucast (drop_bit 8 w)) (ucast w)"
  unfolding htonl_def word32_of_def byte_masks by (rule bit_word_eqI) (auto simp: bit_simps)

lemma bytes_word32_of [simp]:
  "ucast (word32_of a b c d) = a" "ucast (drop_bit 8 (word32_of a b c d)) = b"
  "ucast (drop_bit 16 (word32_of a b c d)) = c" "ucast (drop_bit 24 (word32_of a b c d)) = d"
  using le32_word32_of [of a b c d] by (simp_all add: le32_def)

lemma htonl_word32_of [simp]: "htonl (word32_of a b c d) = word32_of d c b a"
  by (simp add: htonl_bytes)

lemma ntohl_word32_of [simp]: "ntohl (word32_of a b c d) = word32_of d c b a"
  by (simp add: ntohl_def)

text \<open>An address in memory is its four numbers in the order they are written.\<close>

lemma IP4_ADDR_word32_of: "IP4_ADDR a b c d = word32_of a b c d"
proof -
  have "push_bit 24 (ucast a) OR push_bit 16 (ucast b) OR push_bit 8 (ucast c) OR ucast d = word32_of d c b a"
    unfolding word32_of_def by (simp only: or.commute or.left_commute)
  then show ?thesis by (simp add: IP4_ADDR_def)
qed

lemma le32_IP4_ADDR [simp]: "le32 (IP4_ADDR a b c d) = [a, b, c, d]"
  by (simp add: IP4_ADDR_word32_of)

lemma word32_of_cases: obtains a b c d where "w = word32_of a b c d"
  using word32_of_le32 [of w] by metis

lemma low_byte: "ucast w AND 0xff = (ucast (ucast w :: u8) :: u16)" for w :: u32
  unfolding masks_u16 by (rule bit_word_eqI) (auto simp: bit_simps)

lemma ip4_addr_IP4_ADDR [simp]:
  "ip4_addr1 (IP4_ADDR a b c d) = ucast a" "ip4_addr2 (IP4_ADDR a b c d) = ucast b"
  "ip4_addr3 (IP4_ADDR a b c d) = ucast c" "ip4_addr4 (IP4_ADDR a b c d) = ucast d"
  by (simp_all add: IP4_ADDR_word32_of ip4_addr1_def ip4_addr2_def ip4_addr3_def ip4_addr4_def low_byte)

text \<open>The class D addresses 224.0.0.0 to 239.255.255.255.\<close>

lemma ismulticast_IP4_ADDR: "ip_addr_ismulticast (IP4_ADDR a b c d) \<longleftrightarrow> drop_bit 4 a = 0xE"
proof -
  have k: "ntohl 0xf0000000 = push_bit 4 (mask 4)" "ntohl 0xe0000000 = push_bit 4 0xE"
    by (simp_all add: ntohl_def htonl_def mask_eq_exp_minus_1)
  have "w AND push_bit 4 (mask 4) = push_bit 4 (ucast (drop_bit 4 (ucast w :: u8)))" for w :: u32
    by (rule bit_word_eqI) (auto simp: bit_simps)
  from this [of "word32_of a b c d"]
  have "word32_of a b c d AND push_bit 4 (mask 4) = push_bit 4 (ucast (drop_bit 4 a))" by simp
  moreover have "push_bit 4 (ucast (drop_bit 4 a)) = (push_bit 4 0xE :: u32) \<longleftrightarrow> drop_bit 4 a = 0xE"
  proof
    assume e: "push_bit 4 (ucast (drop_bit 4 a)) = (push_bit 4 0xE :: u32)"
    have "(ucast (drop_bit 4 (push_bit 4 (ucast x :: u32))) :: u8) = x" for x :: u8
      by (rule bit_word_eqI) (auto simp: bit_simps)
    from this [of "drop_bit 4 a"] this [of "0xE"] e show "drop_bit 4 a = 0xE" by simp
  qed simp
  ultimately show ?thesis by (simp only: ip_addr_ismulticast_def IP4_ADDR_word32_of k)
qed

end
