(* ===== verification/Etharp.thy ===== *)
theory Etharp
  imports IpAddr
begin

text \<open>
  Address resolution, \<^verbatim>\<open>etharp.c\<close> in the configuration of the build (queueing on, no AutoIP, no DHCP); the
  function \<^verbatim>\<open>ethernet_input\<close> of the same file calls the IP layer and is in theory \<open>Ip\<close>. The table is a list of
  ten entries; the packets waiting on an entry are the list of its queue elements, each the pool element and
  the packet. An Ethernet address is its list of six bytes; the copy loops over the six bytes are block copies.
  \<^verbatim>\<open>find_entry\<close> returns an index or an error, as the signed byte of the code does. Statistics and SNMP are
  switched off in the build.
\<close>

datatype etharp_state = ETHARP_STATE_EMPTY | ETHARP_STATE_PENDING | ETHARP_STATE_STABLE

record etharp_entry =
  aq :: "(nat \<times> addr) list"
  ipaddr :: u32
  ethaddr :: "u8 list"
  astate :: etharp_state
  ctime :: u8
  anetif :: "nat option"

record arpstate = netstate +
  arp_table :: "etharp_entry list"
  etharp_cached_entry :: nat

abbreviation (input) ARP_TABLE_SIZE :: nat where "ARP_TABLE_SIZE \<equiv> 10"
abbreviation (input) ARP_MAXAGE :: u8 where "ARP_MAXAGE \<equiv> 240"
abbreviation (input) ARP_MAXPENDING :: u8 where "ARP_MAXPENDING \<equiv> 2"
abbreviation (input) ETHARP_TRY_HARD :: u8 where "ETHARP_TRY_HARD \<equiv> 1"
abbreviation (input) ETHARP_FIND_ONLY :: u8 where "ETHARP_FIND_ONLY \<equiv> 2"
abbreviation (input) HWTYPE_ETHERNET :: u16 where "HWTYPE_ETHERNET \<equiv> 1"
abbreviation (input) ETHTYPE_ARP :: u16 where "ETHTYPE_ARP \<equiv> 0x0806"
abbreviation (input) ETHTYPE_IP :: u16 where "ETHTYPE_IP \<equiv> 0x0800"
abbreviation (input) ARP_REQUEST :: u16 where "ARP_REQUEST \<equiv> 1"
abbreviation (input) ARP_REPLY :: u16 where "ARP_REPLY \<equiv> 2"
abbreviation (input) SIZEOF_ETH_HDR :: u16 where "SIZEOF_ETH_HDR \<equiv> 14"
abbreviation (input) SIZEOF_ETHARP_HDR :: u16 where "SIZEOF_ETHARP_HDR \<equiv> 42"

definition ethbroadcast :: "u8 list" where "ethbroadcast = [0xff, 0xff, 0xff, 0xff, 0xff, 0xff]"
definition ethzero :: "u8 list" where "ethzero = [0, 0, 0, 0, 0, 0]"

definition entry :: "nat \<Rightarrow> ('a arpstate_scheme) nic \<Rightarrow> etharp_entry" where
  "entry i s = arp_table (up s) ! i"

definition upd_entry :: "nat \<Rightarrow> (etharp_entry \<Rightarrow> etharp_entry) \<Rightarrow> ('a arpstate_scheme) nic \<Rightarrow> ('a arpstate_scheme) nic" where
  "upd_entry i f = upd_up (\<lambda>u. u\<lparr>arp_table := (arp_table u)[i := f (arp_table u ! i)]\<rparr>)"

definition set_cached :: "nat \<Rightarrow> ('a arpstate_scheme) nic \<Rightarrow> ('a arpstate_scheme) nic" where
  "set_cached i = upd_up (\<lambda>u. u\<lparr>etharp_cached_entry := i\<rparr>)"

text \<open>The call through the function pointer \<^verbatim>\<open>netif->linkoutput\<close>.\<close>

definition linkoutput :: "env \<Rightarrow> nat \<Rightarrow> addr option \<Rightarrow> ('a netstate_scheme) nic \<Rightarrow> (err_t \<times> ('a netstate_scheme) nic) option" where
  "linkoutput env n p s =
     (case netif_linkoutput (netifs (up s) n) of
        Some low_level_output_fn \<Rightarrow> low_level_output env p s
      | _ \<Rightarrow> None)"

definition memp_free_on :: "memp_t \<Rightarrow> nat \<Rightarrow> pmem \<Rightarrow> pmem" where
  "memp_free_on t e m = m\<lparr>pools := memp_free t (Some e) (pools m)\<rparr>"

section \<open>The table\<close>

primrec free_etharp_q :: "(nat \<times> addr) list \<Rightarrow> pmem \<Rightarrow> pmem option" where
  "free_etharp_q [] m = Some m"
| "free_etharp_q (r # q) m =
     Option.bind (pbuf_free (Some (snd r)) m) (\<lambda>(_, m).
     free_etharp_q q (memp_free_on MEMP_ARP_QUEUE (fst r) m))"

definition free_queue :: "nat \<Rightarrow> ('a arpstate_scheme) nic \<Rightarrow> ('a arpstate_scheme) nic option" where
  "free_queue i s =
     Option.bind (free_etharp_q (aq (entry i s)) (pm s)) (\<lambda>m.
     Some (upd_entry i (\<lambda>e. e\<lparr>aq := []\<rparr>) (s\<lparr>pm := m\<rparr>)))"

definition tmr_entry :: "nat \<Rightarrow> ('a arpstate_scheme) nic \<Rightarrow> ('a arpstate_scheme) nic option" where
  "tmr_entry i s =
     (let s = upd_entry i (\<lambda>e. e\<lparr>ctime := ctime e + 1\<rparr>) s in
      if astate (entry i s) = ETHARP_STATE_STABLE \<and> ctime (entry i s) \<ge> ARP_MAXAGE \<or>
         astate (entry i s) = ETHARP_STATE_PENDING \<and> ctime (entry i s) \<ge> ARP_MAXPENDING
      then Option.bind (if aq (entry i s) \<noteq> [] then free_queue i s else Some s) (\<lambda>s.
           Some (upd_entry i (\<lambda>e. e\<lparr>astate := ETHARP_STATE_EMPTY\<rparr>) s))
      else Some s)"

primrec tmr_loop :: "nat list \<Rightarrow> ('a arpstate_scheme) nic \<Rightarrow> ('a arpstate_scheme) nic option" where
  "tmr_loop [] s = Some s"
| "tmr_loop (i # is) s = Option.bind (tmr_entry i s) (tmr_loop is)"

definition etharp_tmr :: "('a arpstate_scheme) nic \<Rightarrow> ('a arpstate_scheme) nic option" where
  "etharp_tmr s = tmr_loop [0..<ARP_TABLE_SIZE] s"

text \<open>What the sweep of \<^verbatim>\<open>find_entry\<close> remembers; \<^verbatim>\<open>ARP_TABLE_SIZE\<close> stands for none.\<close>

record candidates =
  empty :: nat
  old_pending :: nat
  old_stable :: nat
  old_queue :: nat
  age_pending :: u8
  age_stable :: u8
  age_queue :: u8

fun sweep :: "u32 option \<Rightarrow> etharp_entry list \<Rightarrow> nat \<Rightarrow> candidates \<Rightarrow> nat + candidates" where
  "sweep ip [] i c = Inr c"
| "sweep ip (e # es) i c =
     (if empty c = ARP_TABLE_SIZE \<and> astate e = ETHARP_STATE_EMPTY then sweep ip es (Suc i) (c\<lparr>empty := i\<rparr>)
      else if astate e = ETHARP_STATE_PENDING then
        if ip = Some (ipaddr e) then Inl i
        else if aq e \<noteq> [] then
          sweep ip es (Suc i) (if ctime e \<ge> age_queue c then c\<lparr>old_queue := i, age_queue := ctime e\<rparr> else c)
        else sweep ip es (Suc i) (if ctime e \<ge> age_pending c then c\<lparr>old_pending := i, age_pending := ctime e\<rparr> else c)
      else if astate e = ETHARP_STATE_STABLE then
        if ip = Some (ipaddr e) then Inl i
        else sweep ip es (Suc i) (if ctime e \<ge> age_stable c then c\<lparr>old_stable := i, age_stable := ctime e\<rparr> else c)
      else sweep ip es (Suc i) c)"

definition recycle :: "u32 option \<Rightarrow> nat \<Rightarrow> ('a arpstate_scheme) nic \<Rightarrow> ('a arpstate_scheme) nic" where
  "recycle ip i s =
     (let s = upd_entry i (\<lambda>e. e\<lparr>astate := ETHARP_STATE_EMPTY\<rparr>) s;
          s = (case ip of None \<Rightarrow> s | Some a \<Rightarrow> upd_entry i (\<lambda>e. e\<lparr>ipaddr := a\<rparr>) s);
          s = upd_entry i (\<lambda>e. e\<lparr>ctime := 0\<rparr>) s
      in set_cached i s)"

definition find_entry :: "u32 option \<Rightarrow> u8 \<Rightarrow> ('a arpstate_scheme) nic \<Rightarrow> ((err_t + nat) \<times> ('a arpstate_scheme) nic) option" where
  "find_entry ip flags s =
     (let cached = etharp_cached_entry (up s) in
      if ip \<noteq> None \<and> astate (entry cached s) = ETHARP_STATE_STABLE \<and> ip = Some (ipaddr (entry cached s))
      then Some (Inr cached, s)
      else
        case sweep ip (arp_table (up s)) 0 \<lparr>empty = ARP_TABLE_SIZE, old_pending = ARP_TABLE_SIZE, old_stable = ARP_TABLE_SIZE,
               old_queue = ARP_TABLE_SIZE, age_pending = 0, age_stable = 0, age_queue = 0\<rparr> of
          Inl i \<Rightarrow> Some (Inr i, set_cached i s)
        | Inr c \<Rightarrow>
            if empty c = ARP_TABLE_SIZE \<and> flags AND ETHARP_TRY_HARD = 0 \<or> flags AND ETHARP_FIND_ONLY \<noteq> 0
            then Some (Inl ERR_MEM, s)
            else if empty c < ARP_TABLE_SIZE then Some (Inr (empty c), recycle ip (empty c) s)
            else if old_stable c < ARP_TABLE_SIZE then Some (Inr (old_stable c), recycle ip (old_stable c) s)
            else if old_pending c < ARP_TABLE_SIZE then Some (Inr (old_pending c), recycle ip (old_pending c) s)
            else if old_queue c < ARP_TABLE_SIZE then
              Option.bind (free_queue (old_queue c) s) (\<lambda>s. Some (Inr (old_queue c), recycle ip (old_queue c) s))
            else Some (Inl ERR_MEM, s))"

section \<open>Sending\<close>

definition etharp_send_ip ::
  "env \<Rightarrow> nat \<Rightarrow> addr \<Rightarrow> u8 list \<Rightarrow> u8 list \<Rightarrow> ('a netstate_scheme) nic \<Rightarrow> (err_t \<times> ('a netstate_scheme) nic) option" where
  "etharp_send_ip env n p src dst s =
     Option.bind (pbs (pm s) p) (\<lambda>b.
     let ethhdr = payload b;
         s = on_pm (poke ethhdr 0 (take 6 dst)) s;
         s = on_pm (poke ethhdr 6 (take 6 src)) s;
         s = on_pm (put16 ethhdr 12 (htons ETHTYPE_IP)) s
     in linkoutput env n (Some p) s)"

text \<open>The queued packets of entry \<open>i\<close> leave in their order.\<close>

primrec send_queue ::
  "env \<Rightarrow> nat \<Rightarrow> nat \<Rightarrow> u8 list \<Rightarrow> (nat \<times> addr) list \<Rightarrow> ('a arpstate_scheme) nic \<Rightarrow> ('a arpstate_scheme) nic option" where
  "send_queue env n i addr [] s = Some s"
| "send_queue env n i addr (q # rest) s =
     (let s = upd_entry i (\<lambda>e. e\<lparr>aq := rest\<rparr>) s;
          s = on_pm (memp_free_on MEMP_ARP_QUEUE (fst q)) s
      in Option.bind (etharp_send_ip env n (snd q) (hwaddr (netifs (up s) n)) addr s) (\<lambda>(_, s).
         Option.bind (pbuf_free (Some (snd q)) (pm s)) (\<lambda>(_, m).
         send_queue env n i addr rest (s\<lparr>pm := m\<rparr>))))"

definition update_arp_entry ::
  "env \<Rightarrow> nat \<Rightarrow> u32 \<Rightarrow> u8 list \<Rightarrow> u8 \<Rightarrow> ('a arpstate_scheme) nic \<Rightarrow> (err_t \<times> ('a arpstate_scheme) nic) option" where
  "update_arp_entry env n ip addr flags s =
     (if ip_addr_isany (Some ip) \<or> ip_addr_isbroadcast ip (netifs (up s) n) \<or> ip_addr_ismulticast ip
      then Some (ERR_ARG, s)
      else Option.bind (find_entry (Some ip) flags s) (\<lambda>(r, s).
        case r of Inl e \<Rightarrow> Some (e, s)
        | Inr i \<Rightarrow>
            let s = upd_entry i (\<lambda>e. e\<lparr>astate := ETHARP_STATE_STABLE\<rparr>) s;
                s = upd_entry i (\<lambda>e. e\<lparr>anetif := Some n\<rparr>) s;
                s = upd_entry i (\<lambda>e. e\<lparr>ethaddr := take 6 addr\<rparr>) s;
                s = upd_entry i (\<lambda>e. e\<lparr>ctime := 0\<rparr>) s
            in Option.bind (send_queue env n i addr (aq (entry i s)) s) (\<lambda>s. Some (ERR_OK, s))))"

definition etharp_find_addr ::
  "nat \<Rightarrow> u32 \<Rightarrow> ('a arpstate_scheme) nic \<Rightarrow> ((nat \<times> u8 list \<times> u32) option \<times> ('a arpstate_scheme) nic) option" where
  "etharp_find_addr n ip s =
     Option.bind (find_entry (Some ip) ETHARP_FIND_ONLY s) (\<lambda>(r, s).
     Some (case r of Inl _ \<Rightarrow> None
           | Inr i \<Rightarrow> if astate (entry i s) = ETHARP_STATE_STABLE then Some (i, ethaddr (entry i s), ipaddr (entry i s)) else None, s))"

definition etharp_ip_input :: "env \<Rightarrow> nat \<Rightarrow> addr \<Rightarrow> ('a arpstate_scheme) nic \<Rightarrow> ('a arpstate_scheme) nic option" where
  "etharp_ip_input env n p s =
     Option.bind (pbs (pm s) p) (\<lambda>b.
     let hdr = payload b; nif = netifs (up s) n; src = get32 hdr 26 (pm s) in
     if \<not> ip_addr_netcmp src (nif_addr nif) (nif_mask nif) then Some s
     else Option.bind (update_arp_entry env n src (gets hdr 6 6 (pm s)) 0 s) (\<lambda>(_, s). Some s))"

definition etharp_raw ::
  "env \<Rightarrow> nat \<Rightarrow> u8 list \<Rightarrow> u8 list \<Rightarrow> u8 list \<Rightarrow> u32 \<Rightarrow> u8 list \<Rightarrow> u32 \<Rightarrow> u16 \<Rightarrow> ('a netstate_scheme) nic \<Rightarrow>
   (err_t \<times> ('a netstate_scheme) nic) option" where
  "etharp_raw env n ethsrc_addr ethdst_addr hwsrc_addr ipsrc_addr hwdst_addr ipdst_addr opcode s =
     Option.bind (with_pm (pbuf_alloc PBUF_RAW SIZEOF_ETHARP_HDR PBUF_RAM) s) (\<lambda>(r, s).
     case r of None \<Rightarrow> Some (ERR_MEM, s)
     | Some p \<Rightarrow>
         Option.bind (pbs (pm s) p) (\<lambda>b.
         let hdr = payload b;
             s = on_pm (put16 hdr 20 (htons opcode)) s;
             s = on_pm (poke hdr 22 (take 6 hwsrc_addr)) s;
             s = on_pm (poke hdr 32 (take 6 hwdst_addr)) s;
             s = on_pm (poke hdr 0 (take 6 ethdst_addr)) s;
             s = on_pm (poke hdr 6 (take 6 ethsrc_addr)) s;
             s = on_pm (put32 hdr 28 ipsrc_addr) s;
             s = on_pm (put32 hdr 38 ipdst_addr) s;
             s = on_pm (put16 hdr 14 (htons HWTYPE_ETHERNET)) s;
             s = on_pm (put16 hdr 16 (htons ETHTYPE_IP)) s;
             s = on_pm (put16 hdr 18 (htons (push_bit 8 6 OR 4))) s;
             s = on_pm (put16 hdr 12 (htons ETHTYPE_ARP)) s
         in Option.bind (linkoutput env n (Some p) s) (\<lambda>(result, s).
            Option.bind (with_pm (pbuf_free (Some p)) s) (\<lambda>(_, s). Some (result, s)))))"

definition etharp_request :: "env \<Rightarrow> nat \<Rightarrow> u32 \<Rightarrow> ('a netstate_scheme) nic \<Rightarrow> (err_t \<times> ('a netstate_scheme) nic) option" where
  "etharp_request env n ip s =
     (let nif = netifs (up s) n in
      etharp_raw env n (hwaddr nif) ethbroadcast (hwaddr nif) (nif_addr nif) ethzero ip ARP_REQUEST s)"

definition etharp_gratuitous :: "env \<Rightarrow> nat \<Rightarrow> ('a netstate_scheme) nic \<Rightarrow> (err_t \<times> ('a netstate_scheme) nic) option" where
  "etharp_gratuitous env n s = etharp_request env n (nif_addr (netifs (up s) n)) s"

section \<open>Queueing\<close>

text \<open>The first buffer of a chain that has to be copied, if any.\<close>

partial_function (option) first_copied :: "addr option \<Rightarrow> pmem \<Rightarrow> addr option option" where
  "first_copied p m =
     (case p of None \<Rightarrow> Some None
      | Some a \<Rightarrow> Option.bind (pbs m a) (\<lambda>b.
          if ptype b \<noteq> PBUF_ROM then Some (Some a) else first_copied (p_next b) m))"

definition take_over :: "addr \<Rightarrow> pmem \<Rightarrow> (addr option \<times> pmem) option" where
  "take_over q m =
     Option.bind (first_copied (Some q) m) (\<lambda>c.
     case c of
       Some a \<Rightarrow>
         Option.bind (pbs m a) (\<lambda>b.
         Option.bind (pbuf_alloc PBUF_RAW (tot_len b) PBUF_RAM m) (\<lambda>(p, m).
         case p of None \<Rightarrow> Some (None, m)
         | Some p' \<Rightarrow>
             Option.bind (pbuf_copy (Some p') (Some q) m) (\<lambda>(err, m).
             if err \<noteq> ERR_OK then Option.bind (pbuf_free (Some p') m) (\<lambda>(_, m). Some (None, m))
             else Some (Some p', m))))
     | None \<Rightarrow> Option.bind (pbuf_ref (Some q) m) (\<lambda>m. Some (Some q, m)))"

definition queue_packet :: "nat \<Rightarrow> addr \<Rightarrow> err_t \<Rightarrow> ('a arpstate_scheme) nic \<Rightarrow> (err_t \<times> ('a arpstate_scheme) nic) option" where
  "queue_packet i q result s =
     Option.bind (with_pm (take_over q) s) (\<lambda>(p, s).
     case p of None \<Rightarrow> Some (result, s)
     | Some p \<Rightarrow>
         (case memp_malloc MEMP_ARP_QUEUE (pools (pm s)) of
            (Some new_entry, tab) \<Rightarrow>
              Some (ERR_OK, upd_entry i (\<lambda>e. e\<lparr>aq := aq e @ [(new_entry, p)]\<rparr>) (on_pm (\<lambda>m. m\<lparr>pools := tab\<rparr>) s))
          | (None, tab) \<Rightarrow>
              Option.bind (with_pm (pbuf_free (Some p)) (on_pm (\<lambda>m. m\<lparr>pools := tab\<rparr>) s)) (\<lambda>(_, s). Some (result, s))))"

definition etharp_query ::
  "env \<Rightarrow> nat \<Rightarrow> u32 \<Rightarrow> addr option \<Rightarrow> ('a arpstate_scheme) nic \<Rightarrow> (err_t \<times> ('a arpstate_scheme) nic) option" where
  "etharp_query env n ip q s =
     (if ip_addr_isbroadcast ip (netifs (up s) n) \<or> ip_addr_ismulticast ip \<or> ip_addr_isany (Some ip)
      then Some (ERR_ARG, s)
      else Option.bind (find_entry (Some ip) ETHARP_TRY_HARD s) (\<lambda>(r, s).
        case r of Inl e \<Rightarrow> Some (e, s)
        | Inr i \<Rightarrow>
            let s = (if astate (entry i s) = ETHARP_STATE_EMPTY
                     then upd_entry i (\<lambda>e. e\<lparr>astate := ETHARP_STATE_PENDING\<rparr>) s else s)
            in Option.bind (if astate (entry i s) = ETHARP_STATE_PENDING \<or> q = None then etharp_request env n ip s
                            else Some (ERR_MEM, s)) (\<lambda>(result, s).
               case q of None \<Rightarrow> Some (result, s)
               | Some p \<Rightarrow>
                   if astate (entry i s) = ETHARP_STATE_STABLE then
                     etharp_send_ip env n p (hwaddr (netifs (up s) n)) (ethaddr (entry i s)) s
                   else if astate (entry i s) = ETHARP_STATE_PENDING then queue_packet i p result s
                   else Some (result, s))))"

definition etharp_output :: "env \<Rightarrow> nat \<Rightarrow> addr \<Rightarrow> u32 \<Rightarrow> ('a arpstate_scheme) nic \<Rightarrow> (err_t \<times> ('a arpstate_scheme) nic) option" where
  "etharp_output env n q ip s =
     Option.bind (with_pm (pbuf_header (Some q) SIZEOF_ETH_HDR) s) (\<lambda>(r, s).
     if r \<noteq> 0 then Some (ERR_BUF, s)
     else
       let nif = netifs (up s) n in
       if ip_addr_isbroadcast ip nif then etharp_send_ip env n q (hwaddr nif) ethbroadcast s
       else if ip_addr_ismulticast ip then
         etharp_send_ip env n q (hwaddr nif)
           [0x01, 0x00, 0x5e, ucast (ip4_addr2 ip AND 0x7f), ucast (ip4_addr3 ip), ucast (ip4_addr4 ip)] s
       else if \<not> ip_addr_netcmp ip (nif_addr nif) (nif_mask nif) then
         if nif_gw nif \<noteq> 0 then etharp_query env n (nif_gw nif) (Some q) s else Some (ERR_RTE, s)
       else etharp_query env n ip (Some q) s)"

section \<open>Receiving\<close>

definition arp_reply :: "ptr \<Rightarrow> u32 \<Rightarrow> u8 list \<Rightarrow> pmem \<Rightarrow> pmem" where
  "arp_reply hdr own addr m =
     (let m = put16 hdr 20 (htons ARP_REPLY) m;
          m = poke hdr 38 (gets hdr 28 4 m) m;
          m = put32 hdr 28 own m;
          requester = gets hdr 22 6 m;
          m = poke hdr 32 requester m;
          m = poke hdr 0 requester m;
          m = poke hdr 22 (take 6 addr) m
      in poke hdr 6 (take 6 addr) m)"

definition etharp_arp_input :: "env \<Rightarrow> nat \<Rightarrow> u8 list \<Rightarrow> addr \<Rightarrow> ('a arpstate_scheme) nic \<Rightarrow> ('a arpstate_scheme) nic option" where
  "etharp_arp_input env n addr p s =
     Option.bind (pbs (pm s) p) (\<lambda>b.
     let free = (\<lambda>s. Option.bind (with_pm (pbuf_free (Some p)) s) (\<lambda>(_, s). Some s));
         hdr = payload b
     in if plen b < SIZEOF_ETHARP_HDR then free s
        else if get16 hdr 14 (pm s) \<noteq> htons HWTYPE_ETHERNET \<or> get16 hdr 18 (pm s) \<noteq> htons (push_bit 8 6 OR 4) \<or>
                get16 hdr 16 (pm s) \<noteq> htons ETHTYPE_IP \<or> get16 hdr 12 (pm s) \<noteq> htons ETHTYPE_ARP
        then free s
        else
          let sipaddr = get32 hdr 28 (pm s);
              dipaddr = get32 hdr 38 (pm s);
              own = nif_addr (netifs (up s) n);
              for_us = (if own = 0 then False else dipaddr = own)
          in Option.bind (update_arp_entry env n sipaddr (gets hdr 22 6 (pm s)) (if for_us then ETHARP_TRY_HARD else 0) s) (\<lambda>(_, s).
             Option.bind (if htons (get16 hdr 20 (pm s)) = ARP_REQUEST \<and> for_us
                          then linkoutput env n (Some p) (on_pm (arp_reply hdr (nif_addr (netifs (up s) n)) addr) s)
                          else Some (ERR_OK, s)) (\<lambda>(_, s).
             free s)))"

section \<open>What the parts leave alone\<close>

lemma up_on_pm [simp]: "up (on_pm f s) = up s"
  by (simp add: on_pm_def)

lemma with_pm_up: "with_pm f s = Some (r, s') \<Longrightarrow> up s' = up s"
  by (auto simp: with_pm_def split: Option.bind_splits)

lemma low_level_output_up: "low_level_output env p s = Some (r, s') \<Longrightarrow> up s' = up s"
  by (auto simp: low_level_output_def ETH_TxPkt_ChainMode_def upd_desc_def Let_def split: Option.bind_splits prod.splits if_splits)

lemma linkoutput_up: "linkoutput env n p s = Some (r, s') \<Longrightarrow> up s' = up s"
  by (auto simp: linkoutput_def dest: low_level_output_up split: option.splits output_fn.splits)

lemma etharp_send_ip_up: "etharp_send_ip env n p src dst s = Some (r, s') \<Longrightarrow> up s' = up s"
  by (auto simp: etharp_send_ip_def Let_def dest!: linkoutput_up split: Option.bind_splits)

lemma etharp_raw_up: "etharp_raw env n a b c d e f g s = Some (r, s') \<Longrightarrow> up s' = up s"
  unfolding etharp_raw_def
  by (auto simp: Let_def dest!: linkoutput_up with_pm_up split: Option.bind_splits option.splits)

lemma etharp_request_up: "etharp_request env n ip s = Some (r, s') \<Longrightarrow> up s' = up s"
  by (auto simp: etharp_request_def Let_def dest: etharp_raw_up)

lemma up_upd_entry [simp]: "up (upd_entry i f s) = (up s)\<lparr>arp_table := (arp_table (up s))[i := f (arp_table (up s) ! i)]\<rparr>"
  by (simp add: upd_entry_def upd_up_def)

lemma up_set_cached [simp]: "up (set_cached i s) = (up s)\<lparr>etharp_cached_entry := i\<rparr>"
  by (simp add: set_cached_def upd_up_def)

lemma free_queue_up:
  "free_queue i s = Some s' \<Longrightarrow> up s' = (up s)\<lparr>arp_table := (arp_table (up s))[i := (arp_table (up s) ! i)\<lparr>aq := []\<rparr>]\<rparr>"
  by (auto simp: free_queue_def split: Option.bind_splits)

lemma recycle_up:
  "up (recycle ip i s) = (up s)\<lparr>arp_table := (arp_table (up s))[i := (arp_table (up s) ! i)\<lparr>
     astate := ETHARP_STATE_EMPTY, ipaddr := (case ip of None \<Rightarrow> ipaddr (arp_table (up s) ! i) | Some a \<Rightarrow> a), ctime := 0\<rparr>],
     etharp_cached_entry := i\<rparr>"
  by (cases "i < length (arp_table (up s))") (auto simp: recycle_def Let_def list_update_beyond split: option.split)

section \<open>The table as a cache\<close>

text \<open>
  A well-formed table: ten entries; an address is resolved or asked for in one entry only; packets wait only on
  entries that are asked for; no entry is older than its class may get.
\<close>

definition arp_ok :: "etharp_entry list \<Rightarrow> bool" where
  "arp_ok t \<longleftrightarrow> length t = ARP_TABLE_SIZE \<and>
     (\<forall>i < 10. \<forall>j < 10. i \<noteq> j \<longrightarrow> astate (t ! i) \<noteq> ETHARP_STATE_EMPTY \<longrightarrow> astate (t ! j) \<noteq> ETHARP_STATE_EMPTY \<longrightarrow>
        ipaddr (t ! i) \<noteq> ipaddr (t ! j)) \<and>
     (\<forall>i < 10. astate (t ! i) \<noteq> ETHARP_STATE_PENDING \<longrightarrow> aq (t ! i) = []) \<and>
     (\<forall>i < 10. astate (t ! i) = ETHARP_STATE_STABLE \<longrightarrow> ctime (t ! i) < ARP_MAXAGE) \<and>
     (\<forall>i < 10. astate (t ! i) = ETHARP_STATE_PENDING \<longrightarrow> ctime (t ! i) < ARP_MAXPENDING)"

text \<open>One entry is replaced: what has to hold of it.\<close>

definition fits_in :: "etharp_entry list \<Rightarrow> nat \<Rightarrow> etharp_entry \<Rightarrow> bool" where
  "fits_in t i e \<longleftrightarrow>
     (astate e \<noteq> ETHARP_STATE_EMPTY \<longrightarrow> (\<forall>j < 10. j \<noteq> i \<longrightarrow> astate (t ! j) \<noteq> ETHARP_STATE_EMPTY \<longrightarrow> ipaddr (t ! j) \<noteq> ipaddr e)) \<and>
     (astate e \<noteq> ETHARP_STATE_PENDING \<longrightarrow> aq e = []) \<and>
     (astate e = ETHARP_STATE_STABLE \<longrightarrow> ctime e < ARP_MAXAGE) \<and>
     (astate e = ETHARP_STATE_PENDING \<longrightarrow> ctime e < ARP_MAXPENDING)"

lemma arp_ok_replace: "arp_ok t \<Longrightarrow> fits_in t i e \<Longrightarrow> arp_ok (t[i := e])"
  unfolding arp_ok_def fits_in_def
  by (intro conjI allI impI; cases "i < 10") (auto simp: nth_list_update split: if_splits)

text \<open>The sweep stops at the entry with the address or has passed no such entry, and remembers only suitable ones.\<close>

definition recyclable :: "etharp_entry list \<Rightarrow> candidates \<Rightarrow> bool" where
  "recyclable t c \<longleftrightarrow>
     (empty c < 10 \<longrightarrow> empty c < length t \<and> astate (t ! empty c) = ETHARP_STATE_EMPTY) \<and>
     (old_stable c < 10 \<longrightarrow> old_stable c < length t \<and> astate (t ! old_stable c) = ETHARP_STATE_STABLE) \<and>
     (old_pending c < 10 \<longrightarrow> old_pending c < length t \<and> astate (t ! old_pending c) = ETHARP_STATE_PENDING \<and>
        aq (t ! old_pending c) = []) \<and>
     (old_queue c < 10 \<longrightarrow> old_queue c < length t \<and> astate (t ! old_queue c) = ETHARP_STATE_PENDING)"

lemma recyclable_snoc: "recyclable pre c \<Longrightarrow> recyclable (pre @ [e]) c"
  by (auto simp: recyclable_def nth_append)

lemma recyclable_note:
  assumes "recyclable pre c" "length pre = i"
  shows "astate e = ETHARP_STATE_EMPTY \<Longrightarrow> recyclable (pre @ [e]) (c\<lparr>empty := i\<rparr>)"
    and "astate e = ETHARP_STATE_PENDING \<Longrightarrow> recyclable (pre @ [e]) (c\<lparr>old_queue := i, age_queue := a\<rparr>)"
    and "astate e = ETHARP_STATE_PENDING \<Longrightarrow> aq e = [] \<Longrightarrow> recyclable (pre @ [e]) (c\<lparr>old_pending := i, age_pending := a\<rparr>)"
    and "astate e = ETHARP_STATE_STABLE \<Longrightarrow> recyclable (pre @ [e]) (c\<lparr>old_stable := i, age_stable := a\<rparr>)"
  using assms by (auto simp: recyclable_def nth_append)

lemma sweep_spec:
  "length pre = i \<Longrightarrow> recyclable pre c \<Longrightarrow>
   (case sweep ip es i c of
      Inl k \<Rightarrow> k < length (pre @ es) \<and> astate ((pre @ es) ! k) \<noteq> ETHARP_STATE_EMPTY \<and> ip = Some (ipaddr ((pre @ es) ! k))
    | Inr c' \<Rightarrow> recyclable (pre @ es) c' \<and> (\<forall>e \<in> set es. astate e \<noteq> ETHARP_STATE_EMPTY \<longrightarrow> ip \<noteq> Some (ipaddr e)))"
proof (induction es arbitrary: pre i c)
  case (Cons e es)
  have n: "length (pre @ [e]) = Suc i" using Cons.prems(1) by simp
  have step: "case sweep ip es (Suc i) d of
      Inl k \<Rightarrow> k < length (pre @ e # es) \<and> astate ((pre @ e # es) ! k) \<noteq> ETHARP_STATE_EMPTY \<and> ip = Some (ipaddr ((pre @ e # es) ! k))
    | Inr c' \<Rightarrow> recyclable (pre @ e # es) c' \<and> (\<forall>e \<in> set es. astate e \<noteq> ETHARP_STATE_EMPTY \<longrightarrow> ip \<noteq> Some (ipaddr e))"
    if "recyclable (pre @ [e]) d" for d
    using Cons.IH [OF n that] unfolding append_assoc append_Cons append_Nil .
  note keep = step [OF recyclable_snoc [OF Cons.prems(2)]] and note_it = recyclable_note [OF Cons.prems(2,1)]
  consider (hit) "astate e \<noteq> ETHARP_STATE_EMPTY" "ip = Some (ipaddr e)" | (miss) "astate e \<noteq> ETHARP_STATE_EMPTY" "ip \<noteq> Some (ipaddr e)"
    | (free) "astate e = ETHARP_STATE_EMPTY" by blast
  then show ?case
  proof cases
    case hit
    then show ?thesis using Cons.prems(1) by (cases "astate e") (auto simp: nth_append)
  next
    case miss
    have "\<exists>d. sweep ip (e # es) i c = sweep ip es (Suc i) d \<and> recyclable (pre @ [e]) d"
    proof (cases "astate e")
      case ETHARP_STATE_PENDING
      show ?thesis
      proof (cases "aq e = []")
        case True
        then show ?thesis
          using miss ETHARP_STATE_PENDING recyclable_snoc [OF Cons.prems(2)] note_it(3) [of e "ctime e"]
          by (intro exI [of _ "if ctime e \<ge> age_pending c then c\<lparr>old_pending := i, age_pending := ctime e\<rparr> else c"]) simp
      next
        case False
        then show ?thesis
          using miss ETHARP_STATE_PENDING recyclable_snoc [OF Cons.prems(2)] note_it(2) [of e "ctime e"]
          by (intro exI [of _ "if ctime e \<ge> age_queue c then c\<lparr>old_queue := i, age_queue := ctime e\<rparr> else c"]) simp
      qed
    next
      case ETHARP_STATE_STABLE
      then show ?thesis
        using miss recyclable_snoc [OF Cons.prems(2)] note_it(4) [of e "ctime e"]
        by (intro exI [of _ "if ctime e \<ge> age_stable c then c\<lparr>old_stable := i, age_stable := ctime e\<rparr> else c"]) simp
    qed (use miss in simp)
    then obtain d where d: "sweep ip (e # es) i c = sweep ip es (Suc i) d" "recyclable (pre @ [e]) d" by blast
    show ?thesis unfolding d(1) using step [OF d(2)] miss by (cases "sweep ip es (Suc i) d") simp_all
  next
    case free
    define d where "d = (if empty c = 10 then c\<lparr>empty := i\<rparr> else c)"
    have d: "sweep ip (e # es) i c = sweep ip es (Suc i) d" using free by (simp add: d_def)
    have "recyclable (pre @ [e]) d" using recyclable_snoc [OF Cons.prems(2)] note_it(1) [OF free] by (simp add: d_def)
    from step [OF this] show ?thesis unfolding d using free by (cases "sweep ip es (Suc i) d") simp_all
  qed
qed simp

text \<open>A sweep over the whole table finds something to recycle.\<close>

definition noted :: "candidates \<Rightarrow> bool" where
  "noted c \<longleftrightarrow> empty c < 10 \<or> old_stable c < 10 \<or> old_pending c < 10 \<or> old_queue c < 10"

definition aged :: "candidates \<Rightarrow> bool" where
  "aged c \<longleftrightarrow> empty c \<le> 10 \<and> (old_stable c < 10 \<or> age_stable c = 0) \<and> (old_pending c < 10 \<or> age_pending c = 0) \<and>
     (old_queue c < 10 \<or> age_queue c = 0)"

lemma aged_first: "aged c \<Longrightarrow> \<not> age_stable c \<le> t \<Longrightarrow> old_stable c < 10" "aged c \<Longrightarrow> \<not> age_pending c \<le> t \<Longrightarrow> old_pending c < 10"
    "aged c \<Longrightarrow> \<not> age_queue c \<le> t \<Longrightarrow> old_queue c < 10"
  by (auto simp: aged_def)

lemma sweep_notes:
  "sweep ip es i c = Inr c' \<Longrightarrow> i + length es \<le> 10 \<Longrightarrow> aged c \<Longrightarrow> es \<noteq> [] \<or> noted c \<Longrightarrow> noted c'"
proof (induction es arbitrary: i c)
  case (Cons e es)
  have "\<exists>d. sweep ip es (Suc i) d = Inr c' \<and> aged d \<and> noted d"
  proof (cases "empty c = 10 \<and> astate e = ETHARP_STATE_EMPTY")
    case True
    then show ?thesis using Cons.prems by (intro exI [of _ "c\<lparr>empty := i\<rparr>"]) (simp add: aged_def noted_def)
  next
    case False
    show ?thesis
    proof (cases "astate e")
      case ETHARP_STATE_EMPTY
      then show ?thesis using Cons.prems False by (intro exI [of _ c]) (auto simp: noted_def aged_def)
    next
      case ETHARP_STATE_PENDING
      then show ?thesis
        using Cons.prems aged_first(2,3) [OF Cons.prems(3), of "ctime e"]
        by (intro exI [of _ "if aq e \<noteq> [] then if ctime e \<ge> age_queue c then c\<lparr>old_queue := i, age_queue := ctime e\<rparr> else c
                             else if ctime e \<ge> age_pending c then c\<lparr>old_pending := i, age_pending := ctime e\<rparr> else c"])
          (simp add: aged_def noted_def split: if_splits)
    next
      case ETHARP_STATE_STABLE
      then show ?thesis
        using Cons.prems aged_first(1) [OF Cons.prems(3), of "ctime e"]
        by (intro exI [of _ "if ctime e \<ge> age_stable c then c\<lparr>old_stable := i, age_stable := ctime e\<rparr> else c"])
          (simp add: aged_def noted_def split: if_splits)
    qed
  qed
  then show ?case using Cons.IH Cons.prems(2) by auto
qed simp

lemma sweep_empty:
  "sweep ip es i c = Inr c' \<Longrightarrow> i + length es \<le> 10 \<Longrightarrow> empty c \<le> 10 \<Longrightarrow>
   empty c < 10 \<or> (\<exists>e \<in> set es. astate e = ETHARP_STATE_EMPTY) \<Longrightarrow> empty c' < 10"
proof (induction es arbitrary: i c)
  case (Cons e es)
  have "\<exists>d. sweep ip es (Suc i) d = Inr c' \<and> empty d \<le> 10 \<and> (empty d < 10 \<or> (\<exists>e \<in> set es. astate e = ETHARP_STATE_EMPTY))"
    using Cons.prems by (cases "empty c = 10"; cases "astate e") (auto split: if_splits)
  then obtain d where "sweep ip es (Suc i) d = Inr c'" "empty d \<le> 10"
    "empty d < 10 \<or> (\<exists>e \<in> set es. astate e = ETHARP_STATE_EMPTY)" by blast
  from Cons.IH [OF this(1) _ this(2,3)] show ?case using Cons.prems(2) by simp
qed simp

abbreviation (input) none_noted :: candidates where
  "none_noted \<equiv> \<lparr>empty = ARP_TABLE_SIZE, old_pending = ARP_TABLE_SIZE, old_stable = ARP_TABLE_SIZE,
     old_queue = ARP_TABLE_SIZE, age_pending = 0, age_stable = 0, age_queue = 0\<rparr>"

lemma sweep_table:
  assumes "arp_ok t"
  shows "case sweep ip t 0 none_noted of
      Inl k \<Rightarrow> k < 10 \<and> astate (t ! k) \<noteq> ETHARP_STATE_EMPTY \<and> ip = Some (ipaddr (t ! k))
    | Inr c \<Rightarrow> recyclable t c \<and> noted c \<and> (\<forall>e \<in> set t. astate e \<noteq> ETHARP_STATE_EMPTY \<longrightarrow> ip \<noteq> Some (ipaddr e)) \<and>
        ((\<exists>e \<in> set t. astate e = ETHARP_STATE_EMPTY) \<longrightarrow> empty c < 10)"
proof -
  have l: "length t = 10" "t \<noteq> []" using assms by (auto simp: arp_ok_def)
  have "recyclable [] none_noted" "aged none_noted" by (simp_all add: recyclable_def aged_def)
  from sweep_spec [OF _ this(1), where ip = ip and es = t and i = 0]
    sweep_notes [OF _ _ this(2), where ip = ip and es = t and i = 0] sweep_empty [of ip t 0 none_noted]
  show ?thesis using l by (cases "sweep ip t 0 none_noted") simp_all
qed

definition fresh :: "u32 \<Rightarrow> etharp_entry \<Rightarrow> etharp_entry" where
  "fresh ip e = e\<lparr>aq := [], astate := ETHARP_STATE_EMPTY, ipaddr := ip, ctime := 0\<rparr>"

lemma idle_entry: "aq e = [] \<Longrightarrow> e\<lparr>aq := []\<rparr> = e"
  by (rule etharp_entry.equality) simp_all

lemma fresh_idle: "aq e = [] \<Longrightarrow> e\<lparr>astate := ETHARP_STATE_EMPTY, ipaddr := ip, ctime := 0\<rparr> = fresh ip e"
  by (simp add: fresh_def idle_entry)

text \<open>The three outcomes of \<^verbatim>\<open>find_entry\<close>.\<close>

lemma find_entry_cases:
  assumes f: "find_entry (Some ip) flags s = Some (r, s')" and ok: "arp_ok (arp_table (up s))"
    and c: "etharp_cached_entry (up s) < 10"
  obtains (known) i where "r = Inr i" "i < 10" "s' = set_cached i s" "ipaddr (entry i s) = ip" "astate (entry i s) \<noteq> ETHARP_STATE_EMPTY"
    | (created) i where "r = Inr i" "i < 10" "\<forall>e \<in> set (arp_table (up s)). astate e \<noteq> ETHARP_STATE_EMPTY \<longrightarrow> ipaddr e \<noteq> ip"
        "up s' = (up s)\<lparr>arp_table := (arp_table (up s))[i := fresh ip (entry i s)], etharp_cached_entry := i\<rparr>"
        "aq (entry i s) = [] \<longrightarrow> s' = recycle (Some ip) i s"
        "(\<exists>e \<in> set (arp_table (up s)). astate e = ETHARP_STATE_EMPTY) \<longrightarrow> astate (entry i s) = ETHARP_STATE_EMPTY"
    | (refused) "r = Inl ERR_MEM" "s' = s"
        "flags AND ETHARP_TRY_HARD = 0 \<and> (\<forall>e \<in> set (arp_table (up s)). astate e \<noteq> ETHARP_STATE_EMPTY) \<or> flags AND ETHARP_FIND_ONLY \<noteq> 0"
        "\<forall>e \<in> set (arp_table (up s)). astate e \<noteq> ETHARP_STATE_EMPTY \<longrightarrow> ipaddr e \<noteq> ip"
proof -
  let ?t = "arp_table (up s)"
  let ?k = "etharp_cached_entry (up s)"
  have l: "length ?t = 10" using ok by (simp add: arp_ok_def)
  have q: "aq (?t ! i) = []" if "i < 10" "astate (?t ! i) \<noteq> ETHARP_STATE_PENDING" for i using ok that by (simp add: arp_ok_def)
  show thesis
  proof (cases "astate (entry ?k s) = ETHARP_STATE_STABLE \<and> ip = ipaddr (entry ?k s)")
    case True
    then have "find_entry (Some ip) flags s = Some (Inr ?k, s)" by (simp add: find_entry_def Let_def)
    then have "r = Inr ?k" "s' = s" using f by auto
    moreover have "set_cached ?k s = s" by (simp add: set_cached_def upd_up_def)
    ultimately show thesis using known [of ?k] True c by simp
  next
    case miss: False
    note sw = sweep_table [OF ok, of "Some ip"]
    show thesis
    proof (cases "sweep (Some ip) ?t 0 none_noted")
      case (Inl k)
      then have "r = Inr k" "s' = set_cached k s" using f miss by (auto simp: find_entry_def Let_def)
      then show thesis using known [of k] sw Inl by (simp add: entry_def)
    next
      case (Inr c)
      have new: "thesis" if r: "r = Inr i" "i < 10" "i < length ?t" "s' = recycle (Some ip) i s" "aq (?t ! i) = []"
        "(\<exists>e \<in> set ?t. astate e = ETHARP_STATE_EMPTY) \<longrightarrow> astate (?t ! i) = ETHARP_STATE_EMPTY" for i
        using created [of i] r sw Inr by (auto simp: recycle_up fresh_idle entry_def)
      have swc: "recyclable ?t c" "noted c" using sw Inr by simp_all
      define F where "F = find_entry (Some ip) flags s"
      have F: "F = Some (r, s')" using f by (simp add: F_def)
      have Fd: "F = (if empty c = 10 \<and> flags AND 1 = 0 \<or> flags AND 2 \<noteq> 0 then Some (Inl ERR_MEM, s)
          else if empty c < 10 then Some (Inr (empty c), recycle (Some ip) (empty c) s)
          else if old_stable c < 10 then Some (Inr (old_stable c), recycle (Some ip) (old_stable c) s)
          else if old_pending c < 10 then Some (Inr (old_pending c), recycle (Some ip) (old_pending c) s)
          else if old_queue c < 10 then Option.bind (free_queue (old_queue c) s) (\<lambda>s. Some (Inr (old_queue c), recycle (Some ip) (old_queue c) s))
          else Some (Inl ERR_MEM, s))"
      proof -
        have "(Some ip \<noteq> None \<and> astate (entry ?k s) = ETHARP_STATE_STABLE \<and> Some ip = Some (ipaddr (entry ?k s))) = False"
          using miss by auto
        then show ?thesis by (simp only: F_def find_entry_def Let_def if_False Inr sum.case)
      qed
      show thesis
      proof (cases "empty c = 10 \<and> flags AND 1 = 0 \<or> flags AND 2 \<noteq> 0")
        case True
        then show thesis using refused F Fd sw Inr by auto
      next
        case go: False
        show thesis
        proof (cases "empty c < 10")
          case True
          then show thesis using new [of "empty c"] q swc F Fd go by (simp add: recyclable_def)
        next
          case e: False
          show thesis
          proof (cases "old_stable c < 10")
            case True
            then show thesis using new [of "old_stable c"] q swc F Fd go e sw Inr by (simp add: recyclable_def)
          next
            case st: False
            show thesis
            proof (cases "old_pending c < 10")
              case True
              then show thesis using new [of "old_pending c"] swc F Fd go e st sw Inr by (simp add: recyclable_def)
            next
              case False
              then have n: "old_queue c < 10" using swc e st by (simp add: noted_def)
              obtain s1 where s1: "free_queue (old_queue c) s = Some s1" "r = Inr (old_queue c)" "s' = recycle (Some ip) (old_queue c) s1"
                using F Fd go e st False n by (auto split: Option.bind_splits)
              have "aq (entry (old_queue c) s) = [] \<longrightarrow> s1 = s"
                using s1(1) by (auto simp: free_queue_def upd_entry_def upd_up_def entry_def idle_entry)
              then show thesis
                using created [of "old_queue c"] n s1 free_queue_up [OF s1(1)] sw Inr l e
                by (auto simp: recycle_up fresh_def entry_def)
            qed
          qed
        qed
      qed
    qed
  qed
qed

section \<open>What the operations do to the table\<close>

definition arp_inv :: "('a arpstate_scheme) \<Rightarrow> bool" where
  "arp_inv u \<longleftrightarrow> arp_ok (arp_table u) \<and> etharp_cached_entry u < 10"

text \<open>Stable entries of \<open>t'\<close> are those of \<open>t\<close>, untouched, or new ones for a pair of \<open>A\<close>.\<close>

definition learnt :: "(u32 \<times> u8 list) set \<Rightarrow> etharp_entry list \<Rightarrow> etharp_entry list \<Rightarrow> bool" where
  "learnt A t t' \<longleftrightarrow> (\<forall>i < 10. astate (t' ! i) = ETHARP_STATE_STABLE \<longrightarrow>
     t' ! i = t ! i \<or> ((ipaddr (t' ! i), ethaddr (t' ! i)) \<in> A \<and> ctime (t' ! i) = 0))"

definition resolved :: "etharp_entry list \<Rightarrow> u32 \<Rightarrow> u8 list \<Rightarrow> bool" where
  "resolved t ip m \<longleftrightarrow> (\<exists>i < 10. astate (t ! i) = ETHARP_STATE_STABLE \<and> ipaddr (t ! i) = ip \<and> ethaddr (t ! i) = m)"

text \<open>Only the table and the number of the entry found last change.\<close>

definition arp_only :: "('a arpstate_scheme) \<Rightarrow> ('a arpstate_scheme) \<Rightarrow> bool" where
  "arp_only u u' \<longleftrightarrow> (\<exists>t k. u' = u\<lparr>arp_table := t, etharp_cached_entry := k\<rparr>)"

lemma arp_onlyI: "u' = u\<lparr>arp_table := t, etharp_cached_entry := k\<rparr> \<Longrightarrow> arp_only u u'"
  unfolding arp_only_def by blast

lemma arp_only_upd [simp]: "arp_only u (u\<lparr>arp_table := t\<rparr>)" "arp_only u (u\<lparr>arp_table := t, etharp_cached_entry := k\<rparr>)"
    "arp_only u (u\<lparr>etharp_cached_entry := k\<rparr>)" "arp_only u u"
  by (rule arp_onlyI [where t = t and k = "etharp_cached_entry u"], simp, rule arp_onlyI [OF refl],
      rule arp_onlyI [where t = "arp_table u" and k = k], simp,
      rule arp_onlyI [where t = "arp_table u" and k = "etharp_cached_entry u"], simp)

lemma arp_only_trans: "arp_only u v \<Longrightarrow> arp_only v w \<Longrightarrow> arp_only u w"
  unfolding arp_only_def by (elim exE, intro exI) simp

lemma arp_only_netifs: "arp_only u u' \<Longrightarrow> netifs u' = netifs u"
  by (auto simp: arp_only_def)

lemma learnt_refl [simp]: "learnt A t t"
  by (simp add: learnt_def)

lemma learnt_replace: "astate e \<noteq> ETHARP_STATE_STABLE \<or> (ipaddr e, ethaddr e) \<in> A \<and> ctime e = 0 \<Longrightarrow> learnt A t (t[i := e])"
  by (cases "i < length t") (auto simp: learnt_def nth_list_update list_update_beyond)

lemma fresh_fits: "fits_in t i (fresh ip e)"
  by (simp add: fits_in_def fresh_def)

lemma arp_ok_length: "arp_ok t \<Longrightarrow> length t = 10"
  by (simp add: arp_ok_def)

lemma unique_entry:
  assumes "arp_ok t" "i < 10" "astate (t ! i) \<noteq> ETHARP_STATE_EMPTY" "j < 10" "j \<noteq> i" "astate (t ! j) \<noteq> ETHARP_STATE_EMPTY"
  shows "ipaddr (t ! j) \<noteq> ipaddr (t ! i)"
  using assms unfolding arp_ok_def by blast

text \<open>
  What \<^verbatim>\<open>find_entry\<close> returns: an entry for the address that was there, or one made ready for it; no other
  entry has the address.
\<close>

lemma find_entry_result:
  assumes f: "find_entry (Some ip) flags s = Some (r, s')" and inv: "arp_inv (up s)"
  shows "arp_inv (up s')" "learnt {} (arp_table (up s)) (arp_table (up s'))" "arp_only (up s) (up s')"
    and "case r of Inl e \<Rightarrow> e = ERR_MEM \<and> s' = s
      | Inr i \<Rightarrow> i < 10 \<and> ipaddr (entry i s') = ip \<and>
          (\<forall>j < 10. j \<noteq> i \<longrightarrow> astate (entry j s') \<noteq> ETHARP_STATE_EMPTY \<longrightarrow> ipaddr (entry j s') \<noteq> ip) \<and>
          (\<forall>j < 10. j \<noteq> i \<longrightarrow> entry j s' = entry j s) \<and> (astate (entry i s') = ETHARP_STATE_EMPTY \<longrightarrow> ctime (entry i s') = 0)"
proof -
  have ok: "arp_ok (arp_table (up s))" "etharp_cached_entry (up s) < 10" using inv by (simp_all add: arp_inv_def)
  note len = arp_ok_length [OF ok(1)]
  have "arp_inv (up s') \<and> learnt {} (arp_table (up s)) (arp_table (up s')) \<and> arp_only (up s) (up s') \<and>
    (case r of Inl e \<Rightarrow> e = ERR_MEM \<and> s' = s
      | Inr i \<Rightarrow> i < 10 \<and> ipaddr (entry i s') = ip \<and>
          (\<forall>j < 10. j \<noteq> i \<longrightarrow> astate (entry j s') \<noteq> ETHARP_STATE_EMPTY \<longrightarrow> ipaddr (entry j s') \<noteq> ip) \<and>
          (\<forall>j < 10. j \<noteq> i \<longrightarrow> entry j s' = entry j s) \<and> (astate (entry i s') = ETHARP_STATE_EMPTY \<longrightarrow> ctime (entry i s') = 0))"
  proof (cases rule: find_entry_cases [OF f ok])
    case (1 i)
    then show ?thesis using ok unique_entry [OF ok(1), of i] by (simp add: arp_inv_def entry_def)
  next
    case (2 i)
    then have "arp_inv (up s')" using arp_ok_replace [OF ok(1) fresh_fits] by (simp add: arp_inv_def)
    moreover have "learnt {} (arp_table (up s)) (arp_table (up s'))" using 2 by (simp add: learnt_replace fresh_def)
    ultimately show ?thesis using 2 len by (simp add: entry_def fresh_def)
  next
    case 3
    then show ?thesis using inv by simp
  qed
  then show "arp_inv (up s')" "learnt {} (arp_table (up s)) (arp_table (up s'))" "arp_only (up s) (up s')"
    "case r of Inl e \<Rightarrow> e = ERR_MEM \<and> s' = s
      | Inr i \<Rightarrow> i < 10 \<and> ipaddr (entry i s') = ip \<and>
          (\<forall>j < 10. j \<noteq> i \<longrightarrow> astate (entry j s') \<noteq> ETHARP_STATE_EMPTY \<longrightarrow> ipaddr (entry j s') \<noteq> ip) \<and>
          (\<forall>j < 10. j \<noteq> i \<longrightarrow> entry j s' = entry j s) \<and> (astate (entry i s') = ETHARP_STATE_EMPTY \<longrightarrow> ctime (entry i s') = 0)"
    by blast+
qed

lemma older:
  assumes e: "fits_in t i e" "astate e \<noteq> ETHARP_STATE_EMPTY"
    and young: "\<not> (astate e = ETHARP_STATE_STABLE \<and> ctime e + 1 \<ge> ARP_MAXAGE \<or> astate e = ETHARP_STATE_PENDING \<and> ctime e + 1 \<ge> ARP_MAXPENDING)"
  shows "fits_in t i (e\<lparr>ctime := ctime e + 1\<rparr>)"
  using assms by (auto simp: fits_in_def)

lemma entry_fits: "arp_ok t \<Longrightarrow> i < 10 \<Longrightarrow> fits_in t i (t ! i)"
  unfolding fits_in_def arp_ok_def by metis

lemma tmr_entry_up:
  assumes t: "tmr_entry i s = Some s'" and i: "i < length (arp_table (up s))"
  shows "up s' = (up s)\<lparr>arp_table := (arp_table (up s))[i :=
    (let e = entry i s in
     if astate e = ETHARP_STATE_STABLE \<and> ctime e + 1 \<ge> ARP_MAXAGE \<or> astate e = ETHARP_STATE_PENDING \<and> ctime e + 1 \<ge> ARP_MAXPENDING
     then e\<lparr>ctime := ctime e + 1, aq := [], astate := ETHARP_STATE_EMPTY\<rparr> else e\<lparr>ctime := ctime e + 1\<rparr>)]\<rparr>"
proof -
  let ?s = "upd_entry i (\<lambda>e. e\<lparr>ctime := ctime e + 1\<rparr>) s"
  have e: "entry i ?s = (entry i s)\<lparr>ctime := ctime (entry i s) + 1\<rparr>" using i by (simp add: entry_def)
  let ?old = "astate (entry i s) = ETHARP_STATE_STABLE \<and> ctime (entry i s) + 1 \<ge> ARP_MAXAGE \<or>
    astate (entry i s) = ETHARP_STATE_PENDING \<and> ctime (entry i s) + 1 \<ge> ARP_MAXPENDING"
  show ?thesis
  proof (cases ?old)
    case True
    obtain s1 where s1: "(if aq (entry i ?s) \<noteq> [] then free_queue i ?s else Some ?s) = Some s1"
        "s' = upd_entry i (\<lambda>e. e\<lparr>astate := ETHARP_STATE_EMPTY\<rparr>) s1"
      using t True by (auto simp: tmr_entry_def Let_def e split: Option.bind_splits)
    have "up s1 = (up ?s)\<lparr>arp_table := (arp_table (up ?s))[i := (arp_table (up ?s) ! i)\<lparr>aq := []\<rparr>]\<rparr>"
      using s1(1) i by (auto dest: free_queue_up simp: entry_def idle_entry split: if_splits)
    then show ?thesis using True i by (simp add: s1(2) entry_def Let_def)
  next
    case False
    then have "tmr_entry i s = Some ?s" by (auto simp: tmr_entry_def Let_def e)
    then have "s' = ?s" using t by simp
    then show ?thesis using False unfolding Let_def by (simp only: if_False) (simp add: entry_def)
  qed
qed

lemma tmr_entry_inv:
  assumes t: "tmr_entry i s = Some s'" and inv: "arp_inv (up s)" and i: "i < 10"
  shows "arp_inv (up s')" "arp_only (up s) (up s')" "\<forall>j < 10. j \<noteq> i \<longrightarrow> entry j s' = entry j s"
    and "astate (entry i s') = ETHARP_STATE_STABLE \<longrightarrow> entry i s' = (entry i s)\<lparr>ctime := ctime (entry i s) + 1\<rparr>"
proof -
  have ok: "arp_ok (arp_table (up s))" using inv by (simp add: arp_inv_def)
  have l: "i < length (arp_table (up s))" using i arp_ok_length [OF ok] by simp
  note u = tmr_entry_up [OF t l]
  have f: "fits_in (arp_table (up s)) i (entry i s)" using entry_fits [OF ok i] by (simp add: entry_def)
  let ?old = "astate (entry i s) = ETHARP_STATE_STABLE \<and> ctime (entry i s) + 1 \<ge> ARP_MAXAGE \<or>
    astate (entry i s) = ETHARP_STATE_PENDING \<and> ctime (entry i s) + 1 \<ge> ARP_MAXPENDING"
  define e where "e = (if ?old then (entry i s)\<lparr>ctime := ctime (entry i s) + 1, aq := [], astate := ETHARP_STATE_EMPTY\<rparr>
    else (entry i s)\<lparr>ctime := ctime (entry i s) + 1\<rparr>)"
  have u: "up s' = (up s)\<lparr>arp_table := (arp_table (up s))[i := e]\<rparr>" using u by (simp add: e_def Let_def)
  have "fits_in (arp_table (up s)) i e"
  proof (cases "?old \<or> astate (entry i s) = ETHARP_STATE_EMPTY")
    case True
    then show ?thesis using f by (auto simp: e_def fits_in_def)
  next
    case False
    then show ?thesis using older [OF f] by (auto simp: e_def)
  qed
  then show "arp_inv (up s')" using arp_ok_replace [OF ok] inv by (simp add: u arp_inv_def)
  show "arp_only (up s) (up s')" by (simp add: u)
  show "\<forall>j < 10. j \<noteq> i \<longrightarrow> entry j s' = entry j s" by (simp add: u entry_def)
  show "astate (entry i s') = ETHARP_STATE_STABLE \<longrightarrow> entry i s' = (entry i s)\<lparr>ctime := ctime (entry i s) + 1\<rparr>"
    using l by (simp add: u entry_def [of i s'] e_def)
qed

lemma tmr_loop_inv:
  "tmr_loop is s = Some s' \<Longrightarrow> arp_inv (up s) \<Longrightarrow> distinct is \<Longrightarrow> \<forall>i \<in> set is. i < 10 \<Longrightarrow>
   arp_inv (up s') \<and> arp_only (up s) (up s') \<and> (\<forall>j < 10. j \<notin> set is \<longrightarrow> entry j s' = entry j s) \<and>
   (\<forall>i \<in> set is. astate (entry i s') = ETHARP_STATE_STABLE \<longrightarrow> entry i s' = (entry i s)\<lparr>ctime := ctime (entry i s) + 1\<rparr>)"
proof (induction "is" arbitrary: s)
  case (Cons i "is")
  obtain s1 where s1: "tmr_entry i s = Some s1" "tmr_loop is s1 = Some s'"
    using Cons.prems(1) by (auto split: Option.bind_splits)
  have i: "i < 10" "i \<notin> set is" "distinct is" "\<forall>i \<in> set is. i < 10" using Cons.prems(3,4) by auto
  note a = tmr_entry_inv [OF s1(1) Cons.prems(2) i(1)]
  note b = Cons.IH [OF s1(2) a(1) i(3,4)]
  have "arp_only (up s) (up s')" using a(2) b arp_only_trans by blast
  moreover have "\<forall>k \<in> set is. entry k s1 = entry k s" using a(3) i(2,4) by metis
  ultimately show ?case using a b i by auto
qed simp

text \<open>A tick makes every entry that stays resolved one unit older.\<close>

lemma etharp_tmr_inv:
  assumes "etharp_tmr s = Some s'" "arp_inv (up s)"
  shows "arp_inv (up s')" "arp_only (up s) (up s')"
    and "\<forall>i < 10. astate (entry i s') = ETHARP_STATE_STABLE \<longrightarrow> entry i s' = (entry i s)\<lparr>ctime := ctime (entry i s) + 1\<rparr>"
  using tmr_loop_inv [OF assms(1) [unfolded etharp_tmr_def] assms(2)] by auto

lemma send_queue_up:
  "send_queue env n i addr q s = Some s' \<Longrightarrow> aq (entry i s) = q \<Longrightarrow> i < length (arp_table (up s)) \<Longrightarrow>
   up s' = (up s)\<lparr>arp_table := (arp_table (up s))[i := (entry i s)\<lparr>aq := []\<rparr>]\<rparr>"
proof (induction q arbitrary: s)
  case Nil
  then show ?case by (simp add: idle_entry entry_def)
next
  case (Cons x q)
  let ?s = "on_pm (memp_free_on MEMP_ARP_QUEUE (fst x)) (upd_entry i (\<lambda>e. e\<lparr>aq := q\<rparr>) s)"
  obtain r s1 r2 m where s1: "etharp_send_ip env n (snd x) (hwaddr (netifs (up ?s) n)) addr ?s = Some (r, s1)"
      "pbuf_free (Some (snd x)) (pm s1) = Some (r2, m)" "send_queue env n i addr q (s1\<lparr>pm := m\<rparr>) = Some s'"
    using Cons.prems(1) by (auto simp: Let_def split: Option.bind_splits)
  have u: "up (s1\<lparr>pm := m\<rparr>) = up ?s" using etharp_send_ip_up [OF s1(1)] by simp
  then have "aq (entry i (s1\<lparr>pm := m\<rparr>)) = q" "i < length (arp_table (up (s1\<lparr>pm := m\<rparr>)))" using Cons.prems(3) by (simp_all add: entry_def)
  from Cons.IH [OF s1(3) this] show ?case using u Cons.prems(3) by (simp add: entry_def)
qed

text \<open>\<^verbatim>\<open>update_arp_entry\<close> learns the pair it is given and nothing else.\<close>

lemma learnt_trans: "learnt A t u \<Longrightarrow> learnt B u v \<Longrightarrow> learnt (A \<union> B) t v"
  unfolding learnt_def by (metis UnCI)

lemma learnt_at:
  assumes "\<forall>j < 10. j \<noteq> i \<longrightarrow> t' ! j = t ! j" "astate (t' ! i) \<noteq> ETHARP_STATE_STABLE \<or> t' ! i = t ! i \<or> (ipaddr (t' ! i), ethaddr (t' ! i)) \<in> A \<and> ctime (t' ! i) = 0"
  shows "learnt A t t'"
  unfolding learnt_def using assms by metis

lemma update_arp_entry_inv:
  assumes u: "update_arp_entry env n ip addr flags s = Some (r, s')" and inv: "arp_inv (up s)"
  shows "arp_inv (up s') \<and> arp_only (up s) (up s') \<and> learnt {(ip, take 6 addr)} (arp_table (up s)) (arp_table (up s')) \<and>
    (r = ERR_OK \<longrightarrow> resolved (arp_table (up s')) ip (take 6 addr))"
proof -
  consider (arg) "r = ERR_ARG" "s' = s"
    | (found) q s1 where "find_entry (Some ip) flags s = Some (q, s1)"
        "(case q of Inl e \<Rightarrow> Some (e, s1) | Inr i \<Rightarrow>
            Option.bind (send_queue env n i addr (aq (entry i (upd_entry i (\<lambda>e. e\<lparr>ctime := 0\<rparr>) (upd_entry i (\<lambda>e. e\<lparr>ethaddr := take 6 addr\<rparr>)
              (upd_entry i (\<lambda>e. e\<lparr>anetif := Some n\<rparr>) (upd_entry i (\<lambda>e. e\<lparr>astate := ETHARP_STATE_STABLE\<rparr>) s1))))))
              (upd_entry i (\<lambda>e. e\<lparr>ctime := 0\<rparr>) (upd_entry i (\<lambda>e. e\<lparr>ethaddr := take 6 addr\<rparr>)
              (upd_entry i (\<lambda>e. e\<lparr>anetif := Some n\<rparr>) (upd_entry i (\<lambda>e. e\<lparr>astate := ETHARP_STATE_STABLE\<rparr>) s1))))) (\<lambda>s. Some (ERR_OK, s))) = Some (r, s')"
    using u unfolding update_arp_entry_def Let_def by (auto split: if_splits Option.bind_splits)
  then show ?thesis
  proof cases
    case arg
    then show ?thesis using inv by simp
  next
    case found
    note fe = find_entry_result [OF found(1) inv]
    show ?thesis
    proof (cases q)
      case (Inl e)
      then show ?thesis using found fe inv by simp
    next
      case (Inr i)
      have ok: "arp_ok (arp_table (up s1))" using fe(1) by (simp add: arp_inv_def)
      have i: "i < 10" "i < length (arp_table (up s1))" using fe(4) Inr arp_ok_length [OF ok] by auto
      let ?s2 = "upd_entry i (\<lambda>e. e\<lparr>ctime := 0\<rparr>) (upd_entry i (\<lambda>e. e\<lparr>ethaddr := take 6 addr\<rparr>)
              (upd_entry i (\<lambda>e. e\<lparr>anetif := Some n\<rparr>) (upd_entry i (\<lambda>e. e\<lparr>astate := ETHARP_STATE_STABLE\<rparr>) s1)))"
      have r: "r = ERR_OK" "send_queue env n i addr (aq (entry i ?s2)) ?s2 = Some s'"
        using found(2) Inr by (auto split: Option.bind_splits)
      define e where "e = (entry i s1)\<lparr>astate := ETHARP_STATE_STABLE, anetif := Some n, ethaddr := take 6 addr, ctime := 0, aq := []\<rparr>"
      have up: "up s' = (up s1)\<lparr>arp_table := (arp_table (up s1))[i := e]\<rparr>"
        using send_queue_up [OF r(2) refl] i(2) by (simp add: entry_def e_def)
      have ei: "ipaddr e = ip" using fe(4) Inr by (simp add: e_def)
      have "fits_in (arp_table (up s1)) i e"
        using fe(4) Inr ei by (auto simp: fits_in_def e_def entry_def)
      then have "arp_inv (up s')" using arp_ok_replace [OF ok] fe(1) by (simp add: up arp_inv_def)
      moreover have "arp_only (up s) (up s')" using arp_only_trans [OF fe(3)] by (simp add: up)
      moreover have "learnt {(ip, take 6 addr)} (arp_table (up s1)) (arp_table (up s'))"
        unfolding up using ei by (simp add: learnt_replace e_def)
      then have "learnt {(ip, take 6 addr)} (arp_table (up s)) (arp_table (up s'))"
        using learnt_trans [OF fe(2)] by fastforce
      moreover have "resolved (arp_table (up s')) ip (take 6 addr)"
        using i ei by (auto simp: resolved_def up e_def intro!: exI [of _ i])
      ultimately show ?thesis by blast
    qed
  qed
qed

lemma queue_packet_up:
  assumes "queue_packet i q result s = Some (r, s')" "i < length (arp_table (up s))"
  shows "\<exists>w. up s' = (up s)\<lparr>arp_table := (arp_table (up s))[i := (entry i s)\<lparr>aq := aq (entry i s) @ w\<rparr>]\<rparr>"
proof -
  obtain p s1 where s1: "with_pm (take_over q) s = Some (p, s1)"
      "(case p of None \<Rightarrow> Some (result, s1) | Some p \<Rightarrow> (case memp_malloc MEMP_ARP_QUEUE (pools (pm s1)) of
            (Some new_entry, tab) \<Rightarrow>
              Some (ERR_OK, upd_entry i (\<lambda>e. e\<lparr>aq := aq e @ [(new_entry, p)]\<rparr>) (on_pm (\<lambda>m. m\<lparr>pools := tab\<rparr>) s1))
          | (None, tab) \<Rightarrow>
              Option.bind (with_pm (pbuf_free (Some p)) (on_pm (\<lambda>m. m\<lparr>pools := tab\<rparr>) s1)) (\<lambda>(_, s). Some (result, s)))) = Some (r, s')"
    using assms(1) by (auto simp: queue_packet_def split: Option.bind_splits)
  have "up s' = up s \<or> (\<exists>w. up s' = (up s)\<lparr>arp_table := (arp_table (up s))[i := (entry i s)\<lparr>aq := aq (entry i s) @ w\<rparr>]\<rparr>)"
    using s1(2) with_pm_up [OF s1(1)]
    by (auto simp: entry_def dest!: with_pm_up split: option.splits prod.splits Option.bind_splits)
  then show ?thesis
  proof
    assume "up s' = up s"
    then show ?thesis by (intro exI [of _ "[]"]) (simp add: entry_def)
  qed
qed

lemma etharp_query_inv:
  assumes q: "etharp_query env n ip q s = Some (r, s')" and inv: "arp_inv (up s)"
  shows "arp_inv (up s') \<and> arp_only (up s) (up s') \<and> learnt {} (arp_table (up s)) (arp_table (up s'))"
proof -
  consider (arg) "r = ERR_ARG" "s' = s" | (found) x s1 where "find_entry (Some ip) ETHARP_TRY_HARD s = Some (x, s1)"
      "(case x of Inl e \<Rightarrow> Some (e, s1)
        | Inr i \<Rightarrow>
            let s = (if astate (entry i s1) = ETHARP_STATE_EMPTY
                     then upd_entry i (\<lambda>e. e\<lparr>astate := ETHARP_STATE_PENDING\<rparr>) s1 else s1)
            in Option.bind (if astate (entry i s) = ETHARP_STATE_PENDING \<or> q = None then etharp_request env n ip s
                            else Some (ERR_MEM, s)) (\<lambda>(result, s).
               case q of None \<Rightarrow> Some (result, s)
               | Some p \<Rightarrow>
                   if astate (entry i s) = ETHARP_STATE_STABLE then
                     etharp_send_ip env n p (hwaddr (netifs (up s) n)) (ethaddr (entry i s)) s
                   else if astate (entry i s) = ETHARP_STATE_PENDING then queue_packet i p result s
                   else Some (result, s))) = Some (r, s')"
    using q unfolding etharp_query_def by (auto split: if_splits Option.bind_splits)
  then show ?thesis
  proof cases
    case arg
    then show ?thesis using inv by simp
  next
    case found
    note fe = find_entry_result [OF found(1) inv]
    show ?thesis
    proof (cases x)
      case (Inl e)
      then show ?thesis using found fe inv by simp
    next
      case (Inr i)
      define s2 where "s2 = (if astate (entry i s1) = ETHARP_STATE_EMPTY
        then upd_entry i (\<lambda>e. e\<lparr>astate := ETHARP_STATE_PENDING\<rparr>) s1 else s1)"
      define e2 where "e2 = entry i s2"
      have ok: "arp_ok (arp_table (up s1))" using fe(1) by (simp add: arp_inv_def)
      have i: "i < 10" "i < length (arp_table (up s1))" using fe(4) Inr arp_ok_length [OF ok] by auto
      have u2: "up s2 = (up s1)\<lparr>arp_table := (arp_table (up s1))[i := e2]\<rparr>"
        using i by (simp add: s2_def e2_def entry_def)
      have e2: "e2 = (if astate (entry i s1) = ETHARP_STATE_EMPTY then (entry i s1)\<lparr>astate := ETHARP_STATE_PENDING\<rparr> else entry i s1)"
        using i by (simp add: e2_def s2_def entry_def)
      have f1: "fits_in (arp_table (up s1)) i (entry i s1)" using entry_fits [OF ok i(1)] by (simp add: entry_def)
      have f2: "fits_in (arp_table (up s1)) i e2"
        using f1 fe(4) Inr by (auto simp: e2 fits_in_def entry_def)
      have l2: "learnt {} (arp_table (up s1)) (arp_table (up s2))" 
        unfolding u2 e2 by (cases "astate (entry i s1)") (simp_all add: learnt_replace entry_def)
      obtain result s3 where s3: "(if astate (entry i s2) = ETHARP_STATE_PENDING \<or> q = None then etharp_request env n ip s2
                            else Some (ERR_MEM, s2)) = Some (result, s3)"
          "(case q of None \<Rightarrow> Some (result, s3)
               | Some p \<Rightarrow>
                   if astate (entry i s3) = ETHARP_STATE_STABLE then
                     etharp_send_ip env n p (hwaddr (netifs (up s3) n)) (ethaddr (entry i s3)) s3
                   else if astate (entry i s3) = ETHARP_STATE_PENDING then queue_packet i p result s3
                   else Some (result, s3)) = Some (r, s')"
        using found(2) [unfolded Inr sum.case, unfolded Let_def, folded s2_def] by (auto split: Option.bind_splits)
      have u3: "up s3 = up s2" using s3(1) etharp_request_up by (auto split: if_splits)
      have "up s' = up s2 \<or> astate e2 = ETHARP_STATE_PENDING \<and> (\<exists>w. up s' = (up s2)\<lparr>arp_table := (arp_table (up s2))[i := e2\<lparr>aq := w\<rparr>]\<rparr>)"
      proof (cases q)
        case (Some p)
        show ?thesis
        proof (cases "astate (entry i s3)")
          case ETHARP_STATE_STABLE
          then show ?thesis using s3(2) Some u3 etharp_send_ip_up by force
        next
          case ETHARP_STATE_PENDING
          have "queue_packet i p result s3 = Some (r, s')" "i < length (arp_table (up s3))"
            using s3(2) Some ETHARP_STATE_PENDING i u2 u3 by simp_all
          from queue_packet_up [OF this] show ?thesis using ETHARP_STATE_PENDING u3 by (auto simp: entry_def e2_def)
        qed (use s3(2) Some u3 in simp)
      qed (use s3(2) u3 in simp)
      moreover have "astate e2 = ETHARP_STATE_PENDING \<Longrightarrow> fits_in (arp_table (up s1)) i (e2\<lparr>aq := w\<rparr>)" for w
        using f2 by (simp add: fits_in_def)
      ultimately have "\<exists>e. fits_in (arp_table (up s1)) i e \<and> up s' = (up s1)\<lparr>arp_table := (arp_table (up s1))[i := e]\<rparr> \<and>
          (e = e2 \<or> astate e = ETHARP_STATE_PENDING)"
        using f2 u2 by (elim disjE conjE exE) (rule exI [of _ e2], simp, rule exI [of _ "e2\<lparr>aq := _\<rparr>"], simp)
      then obtain e where e: "fits_in (arp_table (up s1)) i e" "up s' = (up s1)\<lparr>arp_table := (arp_table (up s1))[i := e]\<rparr>"
          "e = e2 \<or> astate e = ETHARP_STATE_PENDING" by blast
      have "learnt {} (arp_table (up s1)) (arp_table (up s'))"
        using e(2,3) l2 u2 learnt_replace [of e "{}"] by auto
      then show ?thesis
        using arp_ok_replace [OF ok e(1)] fe(1) arp_only_trans [OF fe(3)] learnt_trans [OF fe(2)] e(2) by (fastforce simp: arp_inv_def)
    qed
  qed
qed

lemma etharp_output_inv:
  assumes q: "etharp_output env n p ip s = Some (r, s')" and inv: "arp_inv (up s)"
  shows "arp_inv (up s') \<and> arp_only (up s) (up s') \<and> learnt {} (arp_table (up s)) (arp_table (up s'))"
proof -
  obtain c s1 where s1: "with_pm (pbuf_header (Some p) 14) s = Some (c, s1)"
    using q unfolding etharp_output_def by (auto split: Option.bind_splits)
  have rest: "up s' = up s1 \<or> (\<exists>a. etharp_query env n a (Some p) s1 = Some (r, s'))"
    using q s1 unfolding etharp_output_def Let_def by (auto dest: etharp_send_ip_up split: if_splits)
  have u: "up s1 = up s" using with_pm_up [OF s1] by simp
  show ?thesis using rest inv etharp_query_inv [of env n _ "Some p" s1 r s'] unfolding u by auto
qed

lemma etharp_ip_input_inv:
  assumes q: "etharp_ip_input env n p s = Some s'" and inv: "arp_inv (up s)" and b: "pbs (pm s) p = Some b"
  shows "arp_inv (up s') \<and> arp_only (up s) (up s') \<and>
    learnt {(get32 (payload b) 26 (pm s), gets (payload b) 6 6 (pm s))} (arp_table (up s)) (arp_table (up s'))"
proof -
  consider "s' = s" | r where "update_arp_entry env n (get32 (payload b) 26 (pm s)) (gets (payload b) 6 6 (pm s)) 0 s = Some (r, s')"
    using q b unfolding etharp_ip_input_def Let_def by (auto split: Option.bind_splits if_splits)
  then show ?thesis
  proof cases
    case 2
    have "take 6 (gets (payload b) 6 6 (pm s)) = gets (payload b) 6 6 (pm s)" by (simp add: gets_def)
    then show ?thesis using update_arp_entry_inv [OF 2 inv] by simp
  qed (use inv in simp)
qed

lemma etharp_arp_input_inv:
  assumes q: "etharp_arp_input env n addr p s = Some s'" and inv: "arp_inv (up s)" and b: "pbs (pm s) p = Some b"
  shows "arp_inv (up s') \<and> arp_only (up s) (up s') \<and>
    learnt {(get32 (payload b) 28 (pm s), gets (payload b) 22 6 (pm s))} (arp_table (up s)) (arp_table (up s'))"
proof -
  consider "up s' = up s" | r f s1 where "update_arp_entry env n (get32 (payload b) 28 (pm s)) (gets (payload b) 22 6 (pm s)) f s = Some (r, s1)"
      "up s' = up s1"
    using q b unfolding etharp_arp_input_def Let_def
    by (auto dest!: with_pm_up linkoutput_up split: Option.bind_splits if_splits)
  then show ?thesis
  proof cases
    case 2
    have "take 6 (gets (payload b) 22 6 (pm s)) = gets (payload b) 22 6 (pm s)" by (simp add: gets_def)
    then show ?thesis using update_arp_entry_inv [OF 2(1) inv] 2(2) by simp
  qed (use inv in simp)
qed

section \<open>Runs\<close>

text \<open>
  A run of the module: ticks of its timer, packets received (with the address pair they announce), packets sent,
  and anything between that leaves the table alone.
\<close>

datatype arp_event = Tick | Heard u32 "u8 list" | Sent | Between

inductive arp_run :: "env \<Rightarrow> ('a arpstate_scheme) nic \<Rightarrow> arp_event list \<Rightarrow> ('a arpstate_scheme) nic \<Rightarrow> bool" where
  arp_start: "arp_run env s0 [] s0"
| arp_tick: "arp_run env s0 es s \<Longrightarrow> etharp_tmr s = Some s' \<Longrightarrow> arp_run env s0 (es @ [Tick]) s'"
| arp_heard: "arp_run env s0 es s \<Longrightarrow> pbs (pm s) p = Some b \<Longrightarrow> etharp_arp_input env n addr p s = Some s' \<Longrightarrow>
    arp_run env s0 (es @ [Heard (get32 (payload b) 28 (pm s)) (gets (payload b) 22 6 (pm s))]) s'"
| arp_ip: "arp_run env s0 es s \<Longrightarrow> pbs (pm s) p = Some b \<Longrightarrow> etharp_ip_input env n p s = Some s' \<Longrightarrow>
    arp_run env s0 (es @ [Heard (get32 (payload b) 26 (pm s)) (gets (payload b) 6 6 (pm s))]) s'"
| arp_out: "arp_run env s0 es s \<Longrightarrow> etharp_output env n p ip s = Some (r, s') \<Longrightarrow> arp_run env s0 (es @ [Sent]) s'"
| arp_ask: "arp_run env s0 es s \<Longrightarrow> etharp_query env n ip q s = Some (r, s') \<Longrightarrow> arp_run env s0 (es @ [Sent]) s'"
| arp_else: "arp_run env s0 es s \<Longrightarrow> arp_table (up s') = arp_table (up s) \<Longrightarrow>
    etharp_cached_entry (up s') = etharp_cached_entry (up s) \<Longrightarrow> arp_run env s0 (es @ [Between]) s'"

definition ticks :: "arp_event list \<Rightarrow> nat" where
  "ticks es = length (filter (\<lambda>e. e = Tick) es)"

lemma ticks_simps [simp]: "ticks [] = 0" "ticks (es @ fs) = ticks es + ticks fs" "ticks [Tick] = 1" "ticks [Heard a m] = 0"
    "ticks [Sent] = 0" "ticks [Between] = 0"
  by (simp_all add: ticks_def)

definition heard_at :: "arp_event list \<Rightarrow> u32 \<Rightarrow> u8 list \<Rightarrow> nat \<Rightarrow> bool" where
  "heard_at es ip m age \<longleftrightarrow> (\<exists>pre post. es = pre @ Heard ip m # post \<and> ticks post = age)"

lemma heard_later: "heard_at es ip m age \<Longrightarrow> heard_at (es @ fs) ip m (age + ticks fs)"
  unfolding heard_at_def by (metis append_Cons append_assoc ticks_simps(2))

lemma heard_now: "heard_at (es @ [Heard ip m]) ip m 0"
  unfolding heard_at_def by (intro exI [of _ es] exI [of _ "[]"]) simp

definition announced :: "arp_event list \<Rightarrow> etharp_entry list \<Rightarrow> bool" where
  "announced es t \<longleftrightarrow> (\<forall>i < 10. astate (t ! i) = ETHARP_STATE_STABLE \<longrightarrow>
     heard_at es (ipaddr (t ! i)) (ethaddr (t ! i)) (unat (ctime (t ! i))))"

lemma announced_learnt:
  assumes "announced es t" "learnt A t t'" "ticks [e] = 0" "\<And>ip m. (ip, m) \<in> A \<Longrightarrow> e = Heard ip m"
  shows "announced (es @ [e]) t'"
  unfolding announced_def
proof (intro allI impI)
  fix i :: nat
  assume i: "i < 10" "astate (t' ! i) = ETHARP_STATE_STABLE"
  then consider "t' ! i = t ! i" | "(ipaddr (t' ! i), ethaddr (t' ! i)) \<in> A" "ctime (t' ! i) = 0"
    using assms(2) unfolding learnt_def by blast
  then show "heard_at (es @ [e]) (ipaddr (t' ! i)) (ethaddr (t' ! i)) (unat (ctime (t' ! i)))"
  proof cases
    case 1
    then have "heard_at es (ipaddr (t' ! i)) (ethaddr (t' ! i)) (unat (ctime (t' ! i)))" 
      using assms(1) i unfolding announced_def by metis
    then show ?thesis using heard_later [of es _ _ _ "[e]"] assms(3) by fastforce
  next
    case 2
    then show ?thesis using assms(4) heard_now by fastforce
  qed
qed

lemma announced_heard: "announced es t \<Longrightarrow> learnt {(ip, m)} t t' \<Longrightarrow> announced (es @ [Heard ip m]) t'"
  by (rule announced_learnt) auto

lemma announced_same: "announced es t \<Longrightarrow> learnt {} t t' \<Longrightarrow> ticks [e] = 0 \<Longrightarrow> announced (es @ [e]) t'"
  by (rule announced_learnt) auto

lemma announced_tick:
  assumes a: "announced es t" and ok: "arp_ok t"
    and t': "\<forall>i < 10. astate (t' ! i) = ETHARP_STATE_STABLE \<longrightarrow> t' ! i = (t ! i)\<lparr>ctime := ctime (t ! i) + 1\<rparr>"
  shows "announced (es @ [Tick]) t'"
  unfolding announced_def
proof (intro allI impI)
  fix i :: nat
  assume i: "i < 10" "astate (t' ! i) = ETHARP_STATE_STABLE"
  then have e: "t' ! i = (t ! i)\<lparr>ctime := ctime (t ! i) + 1\<rparr>" using t' by blast
  then have st: "astate (t ! i) = ETHARP_STATE_STABLE" using i(2) by (metis etharp_entry.select_convs(4) etharp_entry.surjective etharp_entry.update_convs(5))
  then have "ctime (t ! i) < 240" using ok i(1) by (simp add: arp_ok_def)
  then have "unat (ctime (t ! i)) < 240" by (simp add: word_less_nat_alt)
  then have "unat (ctime (t ! i) + 1) = unat (ctime (t ! i)) + 1" by (simp add: unat_word_ariths)
  moreover have "heard_at es (ipaddr (t ! i)) (ethaddr (t ! i)) (unat (ctime (t ! i)))" using a i(1) st by (simp add: announced_def)
  ultimately show "heard_at (es @ [Tick]) (ipaddr (t' ! i)) (ethaddr (t' ! i)) (unat (ctime (t' ! i)))"
    using heard_later [of es _ _ _ "[Tick]"] e by simp
qed

lemma arp_run_inv:
  "arp_run env s0 es s \<Longrightarrow> arp_inv (up s0) \<Longrightarrow> announced [] (arp_table (up s0)) \<Longrightarrow>
   arp_inv (up s) \<and> announced es (arp_table (up s))"
proof (induction rule: arp_run.induct)
  case (arp_tick env s0 es s s')
  then have I: "arp_inv (up s)" "announced es (arp_table (up s))" by blast+
  note t = etharp_tmr_inv [OF arp_tick.hyps(2) I(1)]
  have "arp_ok (arp_table (up s))" using I(1) by (simp add: arp_inv_def)
  from announced_tick [OF I(2) this] t show ?case by (simp add: entry_def)
next
  case (arp_heard env s0 es s p b n addr s')
  then have I: "arp_inv (up s)" "announced es (arp_table (up s))" by blast+
  from etharp_arp_input_inv [OF arp_heard.hyps(3) I(1) arp_heard.hyps(2)] announced_heard [OF I(2)] show ?case by simp
next
  case (arp_ip env s0 es s p b n s')
  then have I: "arp_inv (up s)" "announced es (arp_table (up s))" by blast+
  from etharp_ip_input_inv [OF arp_ip.hyps(3) I(1) arp_ip.hyps(2)] announced_heard [OF I(2)] show ?case by simp
next
  case (arp_out env s0 es s n p ip r s')
  then have I: "arp_inv (up s)" "announced es (arp_table (up s))" by blast+
  from etharp_output_inv [OF arp_out.hyps(2) I(1)] announced_same [OF I(2)] show ?case by simp
next
  case (arp_ask env s0 es s n ip q r s')
  then have I: "arp_inv (up s)" "announced es (arp_table (up s))" by blast+
  from etharp_query_inv [OF arp_ask.hyps(2) I(1)] announced_same [OF I(2)] show ?case by simp
next
  case (arp_else env s0 es s s')
  then have I: "arp_inv (up s)" "announced es (arp_table (up s))" by blast+
  from announced_same [OF I(2) learnt_refl, of Between] I(1) arp_else.hyps(2,3) show ?case by (simp add: arp_inv_def)
qed simp

text \<open>The table when the firmware starts: static memory is cleared.\<close>

definition empty_entry :: etharp_entry where
  "empty_entry = \<lparr>aq = [], ipaddr = 0, ethaddr = ethzero, astate = ETHARP_STATE_EMPTY, ctime = 0, anetif = None\<rparr>"

definition arp_cleared :: "('a arpstate_scheme) \<Rightarrow> bool" where
  "arp_cleared u \<longleftrightarrow> arp_table u = replicate 10 empty_entry \<and> etharp_cached_entry u = 0"

lemma arp_cleared_inv: "arp_cleared u \<Longrightarrow> arp_inv u \<and> announced [] (arp_table u)"
  by (simp add: arp_cleared_def arp_inv_def arp_ok_def announced_def empty_entry_def)

section \<open>Learning and using an address\<close>

text \<open>
  A table that can take a pair for \<open>ip\<close> at once: the address is known and nothing waits for it, or it is unknown
  and an entry is free.
\<close>

definition arp_ready :: "etharp_entry list \<Rightarrow> u32 \<Rightarrow> bool" where
  "arp_ready t ip \<longleftrightarrow> (\<forall>e \<in> set t. astate e \<noteq> ETHARP_STATE_EMPTY \<longrightarrow> ipaddr e = ip \<longrightarrow> aq e = []) \<and>
     (\<exists>e \<in> set t. astate e = ETHARP_STATE_EMPTY \<or> ipaddr e = ip)"

lemma find_entry_runs:
  assumes ok: "arp_ok (arp_table (up s))"
    and e: "\<exists>e \<in> set (arp_table (up s)). astate e = ETHARP_STATE_EMPTY \<or> ipaddr e = ip"
  shows "\<exists>r s'. find_entry (Some ip) flags s = Some (r, s')"
proof -
  let ?t = "arp_table (up s)"
  have "empty c < 10" if c: "sweep (Some ip) ?t 0 none_noted = Inr c" for c
    using sweep_table [OF ok, of "Some ip"] e unfolding c by auto
  then show ?thesis by (auto simp: find_entry_def Let_def split: sum.split)
qed

definition unicast :: "u32 \<Rightarrow> netif \<Rightarrow> bool" where
  "unicast ip nif \<longleftrightarrow> ip \<noteq> 0 \<and> \<not> ip_addr_isbroadcast ip nif \<and> \<not> ip_addr_ismulticast ip"

lemma pm_set_cached [simp]: "pm (set_cached i s) = pm s"
  by (simp add: set_cached_def upd_up_def)

lemma recycle_only: "recycle ip i s = s\<lparr>up := up (recycle ip i s)\<rparr>"
  by (auto simp: upd_entry_def set_cached_def upd_up_def recycle_def Let_def split: option.split)

lemma update_arp_entry_learns:
  assumes inv: "arp_inv (up s)" and rd: "arp_ready (arp_table (up s)) ip" and u: "unicast ip (netifs (up s) n)"
    and fl: "flags AND ETHARP_FIND_ONLY = 0" and a: "length addr = 6"
  shows "\<exists>u'. update_arp_entry env n ip addr flags s = Some (ERR_OK, s\<lparr>up := u'\<rparr>) \<and> arp_inv u' \<and> arp_only (up s) u' \<and>
    resolved (arp_table u') ip addr"
proof -
  have ok: "arp_ok (arp_table (up s))" "etharp_cached_entry (up s) < 10" using inv by (simp_all add: arp_inv_def)
  obtain r s1 where f: "find_entry (Some ip) flags s = Some (r, s1)"
    using find_entry_runs [OF ok(1)] rd unfolding arp_ready_def by blast
  have "\<exists>i u1. r = Inr i \<and> i < 10 \<and> s1 = s\<lparr>up := u1\<rparr> \<and> aq (entry i s1) = []"
  proof (cases rule: find_entry_cases [OF f ok])
    case (1 i)
    then have "arp_table (up s) ! i \<in> set (arp_table (up s))" using arp_ok_length [OF ok(1)] by simp
    then have "aq (entry i s) = []" using rd 1 unfolding arp_ready_def entry_def by blast
    then show ?thesis using 1 by (auto simp: entry_def set_cached_def upd_up_def)
  next
    case (2 i)
    have "\<exists>e \<in> set (arp_table (up s)). astate e = ETHARP_STATE_EMPTY" using rd 2(3) unfolding arp_ready_def by blast
    then have "astate (entry i s) = ETHARP_STATE_EMPTY" using 2(6) by simp
    then have "aq (entry i s) = []" using ok(1) 2(2) by (simp add: arp_ok_def entry_def)
    then have "s1 = recycle (Some ip) i s" using 2(5) by simp
    moreover obtain u1 where "recycle (Some ip) i s = s\<lparr>up := u1\<rparr>" using recycle_only by blast
    moreover have "aq (entry i s1) = []" using 2(2,4) arp_ok_length [OF ok(1)] by (simp add: entry_def fresh_def)
    ultimately show ?thesis using 2(1,2) by auto
  next
    case 3
    then show ?thesis using rd fl unfolding arp_ready_def by blast
  qed
  then obtain i u1 where i: "r = Inr i" "i < 10" "s1 = s\<lparr>up := u1\<rparr>" "aq (entry i s1) = []" by blast
  have "update_arp_entry env n ip addr flags s = Some (ERR_OK, upd_entry i (\<lambda>e. e\<lparr>ctime := 0\<rparr>) (upd_entry i (\<lambda>e. e\<lparr>ethaddr := take 6 addr\<rparr>)
              (upd_entry i (\<lambda>e. e\<lparr>anetif := Some n\<rparr>) (upd_entry i (\<lambda>e. e\<lparr>astate := ETHARP_STATE_STABLE\<rparr>) s1))))"
    using u f i(1,2,4) find_entry_result(1) [OF f inv] arp_ok_length [of "arp_table (up s1)"]
    by (simp add: update_arp_entry_def unicast_def ip_addr_isany_def Let_def entry_def arp_inv_def)
  moreover obtain u' where "upd_entry i (\<lambda>e. e\<lparr>ctime := 0\<rparr>) (upd_entry i (\<lambda>e. e\<lparr>ethaddr := take 6 addr\<rparr>)
              (upd_entry i (\<lambda>e. e\<lparr>anetif := Some n\<rparr>) (upd_entry i (\<lambda>e. e\<lparr>astate := ETHARP_STATE_STABLE\<rparr>) s1))) = s\<lparr>up := u'\<rparr>"
    unfolding i(3) by (simp add: upd_entry_def upd_up_def)
  ultimately have r: "update_arp_entry env n ip addr flags s = Some (ERR_OK, s\<lparr>up := u'\<rparr>)" by simp
  from update_arp_entry_inv [OF r inv] show ?thesis using r a by auto
qed

text \<open>A packet for a resolved address is sent at once.\<close>

lemma etharp_query_resolved:
  assumes inv: "arp_inv (up s)" and rs: "resolved (arp_table (up s)) ip m" and u: "unicast ip (netifs (up s) n)"
  shows "\<exists>i. etharp_query env n ip (Some p) s = etharp_send_ip env n p (hwaddr (netifs (up s) n)) m (set_cached i s)"
proof -
  have ok: "arp_ok (arp_table (up s))" "etharp_cached_entry (up s) < 10" using inv by (simp_all add: arp_inv_def)
  obtain k where k: "k < 10" "astate (entry k s) = ETHARP_STATE_STABLE" "ipaddr (entry k s) = ip" "ethaddr (entry k s) = m"
    using rs by (auto simp: resolved_def entry_def)
  have kin: "entry k s \<in> set (arp_table (up s))" using k(1) arp_ok_length [OF ok(1)] by (simp add: entry_def)
  obtain r s1 where f: "find_entry (Some ip) ETHARP_TRY_HARD s = Some (r, s1)"
    using find_entry_runs [OF ok(1)] kin k(3) by blast
  have "r = Inr k \<and> s1 = set_cached k s"
  proof (cases rule: find_entry_cases [OF f ok])
    case (1 i)
    then have "i = k" using unique_entry [OF ok(1), of i k] k(1-3) by (auto simp: entry_def)
    then show ?thesis using 1 by simp
  next
    case 2
    then show ?thesis using kin k(2,3) by auto
  next
    case 3
    then show ?thesis using kin k(2,3) by auto
  qed
  then show ?thesis
    using u f k by (intro exI [of _ k]) (simp add: etharp_query_def unicast_def ip_addr_isany_def Let_def entry_def)
qed

text \<open>
  C21: the address table can be relied on. In every run that starts with cleared memory, whatever packets come and
  go, the table stays well-formed: an address has at most one entry, packets wait only on entries that are being
  asked for; and an Ethernet address it gives for an IP address was announced for exactly that address by a packet
  received less than 240 ticks of its timer ago.
\<close>

theorem arp_table_sound:
  assumes "arp_run env s0 es s" "arp_cleared (up s0)"
  shows "arp_ok (arp_table (up s)) \<and>
    (\<forall>ip m. resolved (arp_table (up s)) ip m \<longrightarrow> (\<exists>age < 240. heard_at es ip m age))"
proof -
  have I: "arp_ok (arp_table (up s))" "announced es (arp_table (up s))"
    using arp_run_inv [OF assms(1)] arp_cleared_inv [OF assms(2)] by (auto simp: arp_inv_def)
  have "unat (ctime (arp_table (up s) ! i)) < 240" if "i < 10" "astate (arp_table (up s) ! i) = ETHARP_STATE_STABLE" for i
    using I(1) that by (simp add: arp_ok_def word_less_nat_alt)
  then show ?thesis using I unfolding resolved_def announced_def by blast
qed

text \<open>A packet of 192.168.1.10 comes in, and its Ethernet address is known.\<close>

definition arp_frame :: "u8 list" where
  "arp_frame = replicate 6 0 @ [0x02, 0, 0, 0, 0, 0x0A] @ [8, 0] @ replicate 12 0 @ [192, 168, 1, 10] @ [192, 168, 1, 78]"

definition arp_example :: "arpstate nic" where
  "arp_example = \<lparr>descs = (\<lambda>_. \<lparr>Status = 0, ControlBufferSize = 0, Buffer1Addr = null_ptr, Buffer2NextDescAddr = DMATxDscrTab 0\<rparr>),
     DMATxDescToSet = DMATxDscrTab 0, DMARxDescToGet = DMARxDscrTab 0,
     pm = \<lparr>pbs = [Memp 0 \<mapsto> \<lparr>p_next = None, payload = (Own (Memp 0), 0), tot_len = 34, plen = 34, ptype = PBUF_POOL, pflags = 0, pref = 1\<rparr>],
           dat = (\<lambda>_ i. arp_frame ! nat i), pools = (\<lambda>_. []), heap = \<lparr>ram = (\<lambda>_. \<lparr>nxt = 0, prv = 0, used = False\<rparr>), lfree = 0\<rparr>\<rparr>,
     io = [],
     up = \<lparr>netifs = (\<lambda>_. \<lparr>hwaddr_len = 6, hwaddr = replicate 6 0, mtu = 1500, netif_flags = 0x33, netif_name = ''st'', netif_output = None,
             netif_linkoutput = None, netif_state = None, nif_addr = IP4_ADDR 192 168 1 78, nif_mask = IP4_ADDR 255 255 255 0,
             nif_gw = 0, netif_input = None, netif_num = 0, link_callback = None\<rparr>),
           netif_list = [0], netif_default = Some 0, netifnum = 1,
           tcp = \<lparr>pcbs = (\<lambda>_. undefined), bound_pcbs = [], listen_pcbs = [], active_pcbs = [], tw_pcbs = [], new_port = 0,
             tcp_ticks = 0, tcp_timer = 0, iss = 6510, tcp_input_pcb = None\<rparr>,
           arp_table = replicate 10 empty_entry, etharp_cached_entry = 0\<rparr>\<rparr>"

lemma arp_table_sound_witness:
  "\<forall>env. \<exists>s. arp_run env arp_example [Heard (IP4_ADDR 192 168 1 10) [0x02, 0, 0, 0, 0, 0x0A]] s \<and>
    arp_ok (arp_table (up s)) \<and> resolved (arp_table (up s)) (IP4_ADDR 192 168 1 10) [0x02, 0, 0, 0, 0, 0x0A] \<and>
    (\<exists>age < 240. heard_at [Heard (IP4_ADDR 192 168 1 10) [0x02, 0, 0, 0, 0, 0x0A]] (IP4_ADDR 192 168 1 10) [0x02, 0, 0, 0, 0, 0x0A] age)"
proof
  fix env :: env
  let ?ip = "IP4_ADDR 192 168 1 10" and ?m = "[0x02, 0, 0, 0, 0, 0x0A] :: u8 list"
  let ?b = "\<lparr>p_next = None, payload = (Own (Memp 0), 0), tot_len = 34, plen = 34, ptype = PBUF_POOL, pflags = 0, pref = 1\<rparr>"
  have c: "arp_cleared (up arp_example)" by (simp add: arp_cleared_def arp_example_def)
  have b: "pbs (pm arp_example) (Memp 0) = Some ?b" by (simp add: arp_example_def)
  have src: "get32 (Own (Memp 0), 0) 26 (pm arp_example) = ?ip" "gets (Own (Memp 0), 0) 6 6 (pm arp_example) = ?m"
    by (simp_all add: get32_def get8_def gets_def read_at_def arp_example_def arp_frame_def IP4_ADDR_word32_of upt_rec numeral_eq_Suc)
  have ip: "?ip = 0x0A01A8C0" "IP4_ADDR 192 168 1 78 = 0x4E01A8C0" "IP4_ADDR 255 255 255 0 = 0x00FFFFFF"
    by (simp_all add: IP4_ADDR_word32_of word32_of_def)
  have un: "unicast ?ip (netifs (up arp_example) 0)"
    by (simp add: unicast_def ip ip_addr_isbroadcast_def ip_addr_ismulticast_def ip_addr_netcmp_def ntohl_def htonl_def arp_example_def)
  have rd: "arp_ready (arp_table (up arp_example)) ?ip"
    by (simp add: arp_ready_def arp_example_def empty_entry_def)
  have inv: "arp_inv (up arp_example)" using arp_cleared_inv [OF c] by simp
  obtain u' where u': "update_arp_entry env 0 ?ip ?m 0 arp_example = Some (ERR_OK, arp_example\<lparr>up := u'\<rparr>)" "arp_inv u'"
      "resolved (arp_table u') ?ip ?m"
    using update_arp_entry_learns [OF inv rd un, of 0 ?m env] by auto
  have net: "ip_addr_netcmp ?ip (nif_addr (netifs (up arp_example) 0)) (nif_mask (netifs (up arp_example) 0))"
    by (simp add: ip ip_addr_netcmp_def arp_example_def)
  have "etharp_ip_input env 0 (Memp 0) arp_example = Some (arp_example\<lparr>up := u'\<rparr>)"
    by (simp add: etharp_ip_input_def b src net u'(1) Let_def)
  from arp_ip [OF arp_start b this]
  have r: "arp_run env arp_example [Heard ?ip ?m] (arp_example\<lparr>up := u'\<rparr>)" by (simp add: src)
  from arp_table_sound [OF r c] u'(3)
  show "\<exists>s. arp_run env arp_example [Heard ?ip ?m] s \<and> arp_ok (arp_table (up s)) \<and> resolved (arp_table (up s)) ?ip ?m \<and>
    (\<exists>age < 240. heard_at [Heard ?ip ?m] ?ip ?m age)"
    using r by (intro exI [of _ "arp_example\<lparr>up := u'\<rparr>"]) auto
qed

end
