(* ===== verification/Netif.thy ===== *)
theory Netif
  imports Etharp
begin

text \<open>
  The network interfaces, \<^verbatim>\<open>netif.c\<close>. The functions that are called through a pointer or belong to a part that
  is not modelled are arguments: \<open>init\<close>, the driver's initialisation; \<open>abort\<close>, which is \<^verbatim>\<open>tcp_abort\<close>; \<open>cb\<close>, the
  link callback with the number stored for it. SNMP, IGMP, loopback and the status callback are switched off in the build.
\<close>

section \<open>Addresses of an interface\<close>

text \<open>The \<^verbatim>\<open>next\<close> pointer of a block on a list.\<close>

fun next_in :: "nat list \<Rightarrow> nat \<Rightarrow> nat option" where
  "next_in [] p = None"
| "next_in [x] p = None"
| "next_in (x # y # xs) p = (if x = p then Some y else next_in (y # xs) p)"

definition first_of :: "nat list \<Rightarrow> nat option" where
  "first_of xs = (case xs of [] \<Rightarrow> None | x # _ \<Rightarrow> Some x)"

partial_function (option) abort_bound ::
  "(nat \<Rightarrow> ('a netstate_scheme) nic \<Rightarrow> ('a netstate_scheme) nic option) \<Rightarrow> nat \<Rightarrow> nat option \<Rightarrow>
   ('a netstate_scheme) nic \<Rightarrow> ('a netstate_scheme) nic option" where
  "abort_bound abort n pcb s =
     (case pcb of None \<Rightarrow> Some s
      | Some p \<Rightarrow>
          if local_ip (pcbs (tcp (up s)) p) = nif_addr (netifs (up s) n) then
            let nxt = next_in (active_pcbs (tcp (up s))) p in
            Option.bind (abort p s) (abort_bound abort n nxt)
          else abort_bound abort n (next_in (active_pcbs (tcp (up s))) p) s)"

definition rebind_listeners :: "nat \<Rightarrow> u32 \<Rightarrow> ('a netstate_scheme) nic \<Rightarrow> ('a netstate_scheme) nic" where
  "rebind_listeners n ip s =
     fold (\<lambda>l s. let b = pcbs (tcp (up s)) l in
             if \<not> ip_addr_isany (Some (local_ip b)) \<and> local_ip b = nif_addr (netifs (up s) n)
             then upd_up (\<lambda>u. u\<lparr>tcp := upd_pcb l (\<lambda>b. b\<lparr>local_ip := ip\<rparr>) (tcp u)\<rparr>) s else s)
       (listen_pcbs (tcp (up s))) s"

definition netif_set_ipaddr ::
  "(nat \<Rightarrow> ('a netstate_scheme) nic \<Rightarrow> ('a netstate_scheme) nic option) \<Rightarrow> nat \<Rightarrow> u32 \<Rightarrow>
   ('a netstate_scheme) nic \<Rightarrow> ('a netstate_scheme) nic option" where
  "netif_set_ipaddr abort n ip s =
     Option.bind (if ip \<noteq> nif_addr (netifs (up s) n) then
                    Option.bind (abort_bound abort n (first_of (active_pcbs (tcp (up s)))) s) (\<lambda>s.
                    Some (rebind_listeners n ip s))
                  else Some s) (\<lambda>s.
     Some (upd_netif n (\<lambda>i. i\<lparr>nif_addr := ip\<rparr>) s))"

definition netif_set_gw :: "nat \<Rightarrow> u32 \<Rightarrow> ('a netstate_scheme) nic \<Rightarrow> ('a netstate_scheme) nic" where
  "netif_set_gw n gw = upd_netif n (\<lambda>i. i\<lparr>nif_gw := gw\<rparr>)"

definition netif_set_netmask :: "nat \<Rightarrow> u32 \<Rightarrow> ('a netstate_scheme) nic \<Rightarrow> ('a netstate_scheme) nic" where
  "netif_set_netmask n netmask = upd_netif n (\<lambda>i. i\<lparr>nif_mask := netmask\<rparr>)"

definition netif_set_addr ::
  "(nat \<Rightarrow> ('a netstate_scheme) nic \<Rightarrow> ('a netstate_scheme) nic option) \<Rightarrow> nat \<Rightarrow> u32 \<Rightarrow> u32 \<Rightarrow> u32 \<Rightarrow>
   ('a netstate_scheme) nic \<Rightarrow> ('a netstate_scheme) nic option" where
  "netif_set_addr abort n ip netmask gw s =
     Option.bind (netif_set_ipaddr abort n ip s) (\<lambda>s.
     let s = netif_set_netmask n netmask s
     in Some (netif_set_gw n gw s))"

section \<open>The list of interfaces\<close>

definition netif_set_default :: "nat option \<Rightarrow> ('a netstate_scheme) nic \<Rightarrow> ('a netstate_scheme) nic" where
  "netif_set_default n = upd_up (\<lambda>u. u\<lparr>netif_default := n\<rparr>)"

definition netif_add ::
  "(nat \<Rightarrow> ('a netstate_scheme) nic \<Rightarrow> ('a netstate_scheme) nic option) \<Rightarrow> nat \<Rightarrow> u32 \<Rightarrow> u32 \<Rightarrow> u32 \<Rightarrow> nat option \<Rightarrow>
   (nat \<Rightarrow> ('a netstate_scheme) nic \<Rightarrow> (err_t \<times> ('a netstate_scheme) nic) option) \<Rightarrow> input_fn option \<Rightarrow>
   ('a netstate_scheme) nic \<Rightarrow> (nat option \<times> ('a netstate_scheme) nic) option" where
  "netif_add abort n ip netmask gw st init input s =
     (let s = upd_netif n (\<lambda>i. i\<lparr>nif_addr := 0\<rparr>) s;
          s = upd_netif n (\<lambda>i. i\<lparr>nif_mask := 0\<rparr>) s;
          s = upd_netif n (\<lambda>i. i\<lparr>nif_gw := 0\<rparr>) s;
          s = upd_netif n (\<lambda>i. i\<lparr>netif_flags := 0\<rparr>) s;
          s = upd_netif n (\<lambda>i. i\<lparr>link_callback := None\<rparr>) s;
          s = upd_netif n (\<lambda>i. i\<lparr>netif_state := st\<rparr>) s;
          s = upd_netif n (\<lambda>i. i\<lparr>netif_num := netifnum (up s)\<rparr>) s;
          s = upd_up (\<lambda>u. u\<lparr>netifnum := netifnum u + 1\<rparr>) s;
          s = upd_netif n (\<lambda>i. i\<lparr>netif_input := input\<rparr>) s
      in Option.bind (netif_set_addr abort n ip netmask gw s) (\<lambda>s.
         Option.bind (init n s) (\<lambda>(e, s).
         if e \<noteq> ERR_OK then Some (None, s)
         else Some (Some n, upd_up (\<lambda>u. u\<lparr>netif_list := n # netif_list u\<rparr>) s))))"

fun unlink_after :: "nat \<Rightarrow> nat list \<Rightarrow> nat list option" where
  "unlink_after n (x # y # xs) =
     (if y = n then Some (x # xs) else map_option (Cons x) (unlink_after n (y # xs)))"
| "unlink_after n xs = None"

definition netif_remove :: "nat option \<Rightarrow> ('a netstate_scheme) nic \<Rightarrow> ('a netstate_scheme) nic" where
  "netif_remove no s =
     (case no of None \<Rightarrow> s
      | Some n \<Rightarrow>
          let l = netif_list (up s);
              l' = (if first_of l = Some n then Some (tl l) else unlink_after n l)
          in case l' of None \<Rightarrow> s
             | Some l' \<Rightarrow>
                 let s = upd_up (\<lambda>u. u\<lparr>netif_list := l'\<rparr>) s
                 in if netif_default (up s) = Some n then netif_set_default None s else s)"

definition netif_find :: "u8 list option \<Rightarrow> ('a netstate_scheme) nic \<Rightarrow> nat option" where
  "netif_find name s =
     (case name of None \<Rightarrow> None
      | Some c \<Rightarrow>
          let num = c ! 2 - 0x30
          in List.find (\<lambda>n. let i = netifs (up s) n in
               num = netif_num i \<and> c ! 0 = of_char (netif_name i ! 0) \<and> c ! 1 = of_char (netif_name i ! 1)) (netif_list (up s)))"

section \<open>Up and down\<close>

definition NETIF_LINK_CALLBACK ::
  "(nat \<Rightarrow> nat \<Rightarrow> ('a netstate_scheme) nic \<Rightarrow> ('a netstate_scheme) nic option) \<Rightarrow> nat \<Rightarrow>
   ('a netstate_scheme) nic \<Rightarrow> ('a netstate_scheme) nic option" where
  "NETIF_LINK_CALLBACK cb n s = (case link_callback (netifs (up s) n) of None \<Rightarrow> Some s | Some c \<Rightarrow> cb c n s)"

definition announce :: "env \<Rightarrow> nat \<Rightarrow> ('a netstate_scheme) nic \<Rightarrow> ('a netstate_scheme) nic option" where
  "announce env n s =
     (if netif_flags (netifs (up s) n) AND NETIF_FLAG_ETHARP \<noteq> 0
      then Option.bind (etharp_gratuitous env n s) (\<lambda>(_, s). Some s) else Some s)"

definition netif_set_up ::
  "(nat \<Rightarrow> nat \<Rightarrow> ('a netstate_scheme) nic \<Rightarrow> ('a netstate_scheme) nic option) \<Rightarrow> env \<Rightarrow> nat \<Rightarrow>
   ('a netstate_scheme) nic \<Rightarrow> ('a netstate_scheme) nic option" where
  "netif_set_up cb env n s =
     (if netif_flags (netifs (up s) n) AND NETIF_FLAG_UP = 0 then
        let s = upd_netif n (\<lambda>i. i\<lparr>netif_flags := netif_flags i OR NETIF_FLAG_UP\<rparr>) s
        in Option.bind (NETIF_LINK_CALLBACK cb n s) (announce env n)
      else Some s)"

definition netif_set_down ::
  "(nat \<Rightarrow> nat \<Rightarrow> ('a netstate_scheme) nic \<Rightarrow> ('a netstate_scheme) nic option) \<Rightarrow> nat \<Rightarrow>
   ('a netstate_scheme) nic \<Rightarrow> ('a netstate_scheme) nic option" where
  "netif_set_down cb n s =
     (if netif_flags (netifs (up s) n) AND NETIF_FLAG_UP \<noteq> 0 then
        NETIF_LINK_CALLBACK cb n (upd_netif n (\<lambda>i. i\<lparr>netif_flags := netif_flags i AND NOT NETIF_FLAG_UP\<rparr>) s)
      else Some s)"

definition netif_is_up :: "nat \<Rightarrow> ('a netstate_scheme) nic \<Rightarrow> bool" where
  "netif_is_up n s \<longleftrightarrow> netif_flags (netifs (up s) n) AND NETIF_FLAG_UP \<noteq> 0"

definition netif_set_link_up ::
  "(nat \<Rightarrow> nat \<Rightarrow> ('a netstate_scheme) nic \<Rightarrow> ('a netstate_scheme) nic option) \<Rightarrow> env \<Rightarrow> nat \<Rightarrow>
   ('a netstate_scheme) nic \<Rightarrow> ('a netstate_scheme) nic option" where
  "netif_set_link_up cb env n s =
     Option.bind (announce env n (upd_netif n (\<lambda>i. i\<lparr>netif_flags := netif_flags i OR NETIF_FLAG_LINK_UP\<rparr>) s))
       (NETIF_LINK_CALLBACK cb n)"

definition netif_set_link_down ::
  "(nat \<Rightarrow> nat \<Rightarrow> ('a netstate_scheme) nic \<Rightarrow> ('a netstate_scheme) nic option) \<Rightarrow> nat \<Rightarrow>
   ('a netstate_scheme) nic \<Rightarrow> ('a netstate_scheme) nic option" where
  "netif_set_link_down cb n s =
     NETIF_LINK_CALLBACK cb n (upd_netif n (\<lambda>i. i\<lparr>netif_flags := netif_flags i AND NOT NETIF_FLAG_LINK_UP\<rparr>) s)"

definition netif_is_link_up :: "nat \<Rightarrow> ('a netstate_scheme) nic \<Rightarrow> bool" where
  "netif_is_link_up n s \<longleftrightarrow> netif_flags (netifs (up s) n) AND NETIF_FLAG_LINK_UP \<noteq> 0"

definition netif_set_link_callback :: "nat option \<Rightarrow> nat option \<Rightarrow> ('a netstate_scheme) nic \<Rightarrow> ('a netstate_scheme) nic" where
  "netif_set_link_callback no c s = (case no of None \<Rightarrow> s | Some n \<Rightarrow> upd_netif n (\<lambda>i. i\<lparr>link_callback := c\<rparr>) s)"

end
