(* ===== verification/Ip.thy ===== *)
theory Ip
  imports Netif
begin

text \<open>
  The IP layer: \<^verbatim>\<open>ip.c\<close> (no forwarding, no IGMP, no loopback in the build), \<^verbatim>\<open>icmp.c\<close>, and \<^verbatim>\<open>ethernet_input\<close> of
  \<^verbatim>\<open>etharp.c\<close>, the function the driver hands received packets to. The transport protocols and the handling of
  fragments are called through the record \<open>C\<close>; what the results say holds for any such functions.
\<close>

record ipstate = arpstate +
  ip_id :: u16
  current_netif :: "nat option"
  current_header :: "ptr option"

record 's ip_calls =
  raw_input :: "addr \<Rightarrow> nat \<Rightarrow> 's \<Rightarrow> (u8 \<times> 's) option"
  udp_input :: "addr \<Rightarrow> nat \<Rightarrow> 's \<Rightarrow> 's option"
  tcp_input :: "addr \<Rightarrow> nat \<Rightarrow> 's \<Rightarrow> 's option"
  ip_reass :: "addr \<Rightarrow> 's \<Rightarrow> (addr option \<times> 's) option"
  ip_frag :: "addr \<Rightarrow> nat \<Rightarrow> u32 \<Rightarrow> 's \<Rightarrow> (err_t \<times> 's) option"

abbreviation (input) IP_HLEN :: u16 where "IP_HLEN \<equiv> 20"
abbreviation (input) IP_PROTO_ICMP :: u16 where "IP_PROTO_ICMP \<equiv> 1"
abbreviation (input) IP_PROTO_UDP :: u16 where "IP_PROTO_UDP \<equiv> 17"
abbreviation (input) IP_PROTO_TCP :: u16 where "IP_PROTO_TCP \<equiv> 6"
abbreviation (input) IP_MF :: u16 where "IP_MF \<equiv> 0x2000"
abbreviation (input) IP_OFFMASK :: u16 where "IP_OFFMASK \<equiv> 0x1fff"
abbreviation (input) ICMP_ER :: u8 where "ICMP_ER \<equiv> 0"
abbreviation (input) ICMP_DUR :: u8 where "ICMP_DUR \<equiv> 3"
abbreviation (input) ICMP_ECHO :: u8 where "ICMP_ECHO \<equiv> 8"
abbreviation (input) ICMP_TE :: u8 where "ICMP_TE \<equiv> 11"
abbreviation (input) ICMP_TTL :: u8 where "ICMP_TTL \<equiv> 255"
abbreviation (input) SIZEOF_ICMP_ECHO_HDR :: u16 where "SIZEOF_ICMP_ECHO_HDR \<equiv> 8"
abbreviation (input) ICMP_DEST_UNREACH_DATASIZE :: u16 where "ICMP_DEST_UNREACH_DATASIZE \<equiv> 8"
abbreviation (input) ICMP_DUR_PROTO :: u8 where "ICMP_DUR_PROTO \<equiv> 2"

definition ip_current_netif :: "('a ipstate_scheme) nic \<Rightarrow> nat option" where
  "ip_current_netif s = current_netif (up s)"

definition ip_current_header :: "('a ipstate_scheme) nic \<Rightarrow> ptr option" where
  "ip_current_header s = current_header (up s)"

section \<open>The header\<close>

definition IPH_V :: "ptr \<Rightarrow> pmem \<Rightarrow> u16" where "IPH_V hdr m = drop_bit 12 (ntohs (get16 hdr 0 m))"
definition IPH_HL :: "ptr \<Rightarrow> pmem \<Rightarrow> u16" where "IPH_HL hdr m = drop_bit 8 (ntohs (get16 hdr 0 m)) AND 0x0f"
definition IPH_TOS :: "ptr \<Rightarrow> pmem \<Rightarrow> u16" where "IPH_TOS hdr m = ntohs (get16 hdr 0 m) AND 0xff"
definition IPH_LEN :: "ptr \<Rightarrow> pmem \<Rightarrow> u16" where "IPH_LEN hdr m = get16 hdr 2 m"
definition IPH_ID :: "ptr \<Rightarrow> pmem \<Rightarrow> u16" where "IPH_ID hdr m = get16 hdr 4 m"
definition IPH_OFFSET :: "ptr \<Rightarrow> pmem \<Rightarrow> u16" where "IPH_OFFSET hdr m = get16 hdr 6 m"
definition IPH_TTL :: "ptr \<Rightarrow> pmem \<Rightarrow> u16" where "IPH_TTL hdr m = drop_bit 8 (ntohs (get16 hdr 8 m))"
definition IPH_PROTO :: "ptr \<Rightarrow> pmem \<Rightarrow> u16" where "IPH_PROTO hdr m = ntohs (get16 hdr 8 m) AND 0xff"
definition IPH_CHKSUM :: "ptr \<Rightarrow> pmem \<Rightarrow> u16" where "IPH_CHKSUM hdr m = get16 hdr 10 m"

definition IPH_VHLTOS_SET :: "ptr \<Rightarrow> u16 \<Rightarrow> u16 \<Rightarrow> u8 \<Rightarrow> pmem \<Rightarrow> pmem" where
  "IPH_VHLTOS_SET hdr v hl service m = put16 hdr 0 (htons (push_bit 12 v OR push_bit 8 hl OR ucast service)) m"
definition IPH_LEN_SET :: "ptr \<Rightarrow> u16 \<Rightarrow> pmem \<Rightarrow> pmem" where "IPH_LEN_SET hdr len m = put16 hdr 2 len m"
definition IPH_ID_SET :: "ptr \<Rightarrow> u16 \<Rightarrow> pmem \<Rightarrow> pmem" where "IPH_ID_SET hdr i m = put16 hdr 4 i m"
definition IPH_OFFSET_SET :: "ptr \<Rightarrow> u16 \<Rightarrow> pmem \<Rightarrow> pmem" where "IPH_OFFSET_SET hdr off m = put16 hdr 6 off m"
definition IPH_TTL_SET :: "ptr \<Rightarrow> u8 \<Rightarrow> pmem \<Rightarrow> pmem" where
  "IPH_TTL_SET hdr life m = put16 hdr 8 (htons (IPH_PROTO hdr m OR push_bit 8 (ucast life))) m"
definition IPH_PROTO_SET :: "ptr \<Rightarrow> u8 \<Rightarrow> pmem \<Rightarrow> pmem" where
  "IPH_PROTO_SET hdr proto m = put16 hdr 8 (htons (ucast proto OR push_bit 8 (IPH_TTL hdr m))) m"
definition IPH_CHKSUM_SET :: "ptr \<Rightarrow> u16 \<Rightarrow> pmem \<Rightarrow> pmem" where "IPH_CHKSUM_SET hdr chksum m = put16 hdr 10 chksum m"

section \<open>Sending\<close>

definition ip_route :: "u32 \<Rightarrow> ('a netstate_scheme) nic \<Rightarrow> nat option" where
  "ip_route dest s =
     (case List.find (\<lambda>n. netif_is_up n s \<and> ip_addr_netcmp dest (nif_addr (netifs (up s) n)) (nif_mask (netifs (up s) n)))
             (netif_list (up s)) of
        Some n \<Rightarrow> Some n
      | None \<Rightarrow> (case netif_default (up s) of None \<Rightarrow> None | Some d \<Rightarrow> if \<not> netif_is_up d s then None else Some d))"

text \<open>The call through the function pointer \<^verbatim>\<open>netif->output\<close>.\<close>

definition netif_output_call :: "env \<Rightarrow> nat \<Rightarrow> addr \<Rightarrow> u32 \<Rightarrow> ('a arpstate_scheme) nic \<Rightarrow> (err_t \<times> ('a arpstate_scheme) nic) option" where
  "netif_output_call env n p dest s =
     (case netif_output (netifs (up s) n) of Some etharp_output_fn \<Rightarrow> etharp_output env n p dest s | _ \<Rightarrow> None)"

text \<open>The header of an outgoing packet, in the order the code writes it.\<close>

definition fill_header :: "ptr \<Rightarrow> u32 \<Rightarrow> u32 \<Rightarrow> u8 \<Rightarrow> u8 \<Rightarrow> u8 \<Rightarrow> u16 \<Rightarrow> u16 \<Rightarrow> pmem \<Rightarrow> pmem" where
  "fill_header iphdr src dest life service proto len i m =
     (let m = IPH_TTL_SET iphdr life m;
          m = IPH_PROTO_SET iphdr proto m;
          m = put32 iphdr 16 dest m;
          m = IPH_VHLTOS_SET iphdr 4 (IP_HLEN div 4) service m;
          m = IPH_LEN_SET iphdr (htons len) m;
          m = IPH_OFFSET_SET iphdr 0 m;
          m = IPH_ID_SET iphdr (htons i) m;
          m = put32 iphdr 12 src m;
          m = IPH_CHKSUM_SET iphdr 0 m
      in IPH_CHKSUM_SET iphdr (inet_chksum iphdr IP_HLEN m) m)"

text \<open>A destination \<open>None\<close> is \<^verbatim>\<open>IP_HDRINCL\<close>: the packet has its header already.\<close>

definition ip_output_if ::
  "env \<Rightarrow> (('a ipstate_scheme) nic) ip_calls \<Rightarrow> addr \<Rightarrow> u32 option \<Rightarrow> u32 option \<Rightarrow> u8 \<Rightarrow> u8 \<Rightarrow> u8 \<Rightarrow> nat \<Rightarrow>
   ('a ipstate_scheme) nic \<Rightarrow> (err_t \<times> ('a ipstate_scheme) nic) option" where
  "ip_output_if env C p src dest life service proto n s =
     Option.bind
       (case dest of
          Some d \<Rightarrow>
            Option.bind (with_pm (pbuf_header (Some p) IP_HLEN) s) (\<lambda>(r, s).
            if r \<noteq> 0 then Some (None, s)
            else Option.bind (pbs (pm s) p) (\<lambda>b.
              let sr = (case src of None \<Rightarrow> nif_addr (netifs (up s) n)
                        | Some a \<Rightarrow> if ip_addr_isany (Some a) then nif_addr (netifs (up s) n) else a);
                  s = on_pm (fill_header (payload b) sr d life service proto (tot_len b) (ip_id (up s))) s
              in Some (Some d, upd_up (\<lambda>u. u\<lparr>ip_id := ip_id u + 1\<rparr>) s)))
        | None \<Rightarrow> Option.bind (pbs (pm s) p) (\<lambda>b. Some (Some (get32 (payload b) 16 (pm s)), s)))
       (\<lambda>(d, s).
        case d of None \<Rightarrow> Some (ERR_BUF, s)
        | Some dest \<Rightarrow>
            Option.bind (pbs (pm s) p) (\<lambda>b.
            let m = mtu (netifs (up s) n) in
            if m \<noteq> 0 \<and> tot_len b > m then ip_frag C p n dest s
            else netif_output_call env n p dest s))"

definition ip_output ::
  "env \<Rightarrow> (('a ipstate_scheme) nic) ip_calls \<Rightarrow> addr \<Rightarrow> u32 option \<Rightarrow> u32 \<Rightarrow> u8 \<Rightarrow> u8 \<Rightarrow> u8 \<Rightarrow>
   ('a ipstate_scheme) nic \<Rightarrow> (err_t \<times> ('a ipstate_scheme) nic) option" where
  "ip_output env C p src dest life service proto s =
     (case ip_route dest s of None \<Rightarrow> Some (ERR_RTE, s)
      | Some n \<Rightarrow> ip_output_if env C p src (Some dest) life service proto n s)"

section \<open>ICMP\<close>

definition free_packet :: "addr \<Rightarrow> 'u nic \<Rightarrow> 'u nic option" where
  "free_packet p s = Option.bind (with_pm (pbuf_free (Some p)) s) (\<lambda>(_, s). Some s)"

definition icmp_send_response ::
  "env \<Rightarrow> (('a ipstate_scheme) nic) ip_calls \<Rightarrow> addr \<Rightarrow> u8 \<Rightarrow> u8 \<Rightarrow> ('a ipstate_scheme) nic \<Rightarrow> ('a ipstate_scheme) nic option" where
  "icmp_send_response env C p type code s =
     Option.bind (with_pm (pbuf_alloc PBUF_IP (SIZEOF_ICMP_ECHO_HDR + IP_HLEN + ICMP_DEST_UNREACH_DATASIZE) PBUF_RAM) s) (\<lambda>(q, s).
     case q of None \<Rightarrow> Some s
     | Some q \<Rightarrow>
         Option.bind (pbs (pm s) p) (\<lambda>pb.
         Option.bind (pbs (pm s) q) (\<lambda>qb.
         let iphdr = payload pb;
             icmphdr = payload qb;
             s = on_pm (poke icmphdr 0 [type]) s;
             s = on_pm (poke icmphdr 1 [code]) s;
             s = on_pm (put16 icmphdr 4 0) s;
             s = on_pm (put16 icmphdr 6 0) s;
             s = on_pm (MEMCPY (padd icmphdr SIZEOF_ICMP_ECHO_HDR) iphdr (IP_HLEN + ICMP_DEST_UNREACH_DATASIZE)) s;
             s = on_pm (put16 icmphdr 2 0) s;
             s = on_pm (\<lambda>m. put16 icmphdr 2 (inet_chksum icmphdr (plen qb) m) m) s
         in Option.bind (ip_output env C q None (get32 iphdr 12 (pm s)) ICMP_TTL 0 1 s) (\<lambda>(_, s).
            free_packet q s))))"

definition icmp_dest_unreach ::
  "env \<Rightarrow> (('a ipstate_scheme) nic) ip_calls \<Rightarrow> addr \<Rightarrow> u8 \<Rightarrow> ('a ipstate_scheme) nic \<Rightarrow> ('a ipstate_scheme) nic option" where
  "icmp_dest_unreach env C p t s = icmp_send_response env C p ICMP_DUR t s"

definition icmp_time_exceeded ::
  "env \<Rightarrow> (('a ipstate_scheme) nic) ip_calls \<Rightarrow> addr \<Rightarrow> u8 \<Rightarrow> ('a ipstate_scheme) nic \<Rightarrow> ('a ipstate_scheme) nic option" where
  "icmp_time_exceeded env C p t s = icmp_send_response env C p ICMP_TE t s"

text \<open>
  Room for the link header: the packet to answer in and its IP header, or \<open>None\<close> after the jump to \<^verbatim>\<open>memerr\<close>.
\<close>

definition echo_buffer :: "addr \<Rightarrow> ptr \<Rightarrow> u16 \<Rightarrow> pmem \<Rightarrow> ((addr \<times> ptr) option \<times> pmem) option" where
  "echo_buffer p iphdr hlen m =
     Option.bind (pbuf_header (Some p) (20 + 14) m) (\<lambda>(r, m).
     if r \<noteq> 0 then
       Option.bind (pbuf_header (Some p) hlen m) (\<lambda>(r, m).
       if r \<noteq> 0 then Some (None, m)
       else Option.bind (pbs m p) (\<lambda>b.
         Option.bind (pbuf_alloc PBUF_LINK (tot_len b) PBUF_RAM m) (\<lambda>(q, m).
         case q of None \<Rightarrow> Some (None, m)
         | Some q \<Rightarrow>
             Option.bind (pbuf_copy (Some q) (Some p) m) (\<lambda>(err, m).
             if err \<noteq> ERR_OK then Some (None, m)
             else Option.bind (pbs m q) (\<lambda>qb.
               let iphdr = payload qb in
               Option.bind (pbuf_header (Some q) (- hlen) m) (\<lambda>(r, m).
               if r \<noteq> 0 then Some (None, m)
               else Option.bind (pbuf_free (Some p) m) (\<lambda>(_, m). Some (Some (q, iphdr), m))))))))
     else Option.bind (pbuf_header (Some p) (- (20 + 14)) m) (\<lambda>(r, m).
       if r \<noteq> 0 then Some (None, m) else Some (Some (p, iphdr), m)))"

text \<open>The request becomes the answer: addresses swapped, type and both checksums changed.\<close>

definition echo_answer :: "ptr \<Rightarrow> ptr \<Rightarrow> pmem \<Rightarrow> pmem" where
  "echo_answer iphdr iecho m =
     (let tmpaddr = get32 iphdr 12 m;
          m = put32 iphdr 12 (get32 iphdr 16 m) m;
          m = put32 iphdr 16 tmpaddr m;
          m = poke iecho 0 [ICMP_ER] m;
          chksum = get16 iecho 2 m;
          m = put16 iecho 2 (if chksum \<ge> htons (0xffff - push_bit 8 (ucast ICMP_ECHO))
                             then chksum + (htons (push_bit 8 (ucast ICMP_ECHO)) + 1)
                             else chksum + htons (push_bit 8 (ucast ICMP_ECHO))) m;
          m = IPH_TTL_SET iphdr ICMP_TTL m;
          m = IPH_CHKSUM_SET iphdr 0 m
      in IPH_CHKSUM_SET iphdr (inet_chksum iphdr IP_HLEN m) m)"

definition icmp_input ::
  "env \<Rightarrow> (('a ipstate_scheme) nic) ip_calls \<Rightarrow> addr \<Rightarrow> nat \<Rightarrow> ('a ipstate_scheme) nic \<Rightarrow> ('a ipstate_scheme) nic option" where
  "icmp_input env C p inp s =
     Option.bind (pbs (pm s) p) (\<lambda>b.
     let iphdr = payload b;
         hlen = IPH_HL iphdr (pm s) * 4
     in Option.bind (with_pm (pbuf_header (Some p) (- hlen)) s) (\<lambda>(r, s).
        Option.bind (pbs (pm s) p) (\<lambda>b.
        if r \<noteq> 0 \<or> tot_len b < 2 * 2 then free_packet p s
        else
          let type = get8 (payload b) 0 (pm s) in
          if type = ICMP_ECHO then
            if ip_addr_ismulticast (get32 iphdr 16 (pm s)) \<or> ip_addr_isbroadcast (get32 iphdr 16 (pm s)) (netifs (up s) inp)
            then free_packet p s
            else if tot_len b < SIZEOF_ICMP_ECHO_HDR then free_packet p s
            else
              Option.bind (inet_chksum_pbuf (Some p) (pm s)) (\<lambda>c.
              if c \<noteq> 0 then free_packet p s
              else
                Option.bind (with_pm (echo_buffer p iphdr hlen) s) (\<lambda>(e, s).
                case e of None \<Rightarrow> free_packet p s
                | Some (p, iphdr) \<Rightarrow>
                    Option.bind (pbs (pm s) p) (\<lambda>b.
                    let s = on_pm (echo_answer iphdr (payload b)) s in
                    Option.bind (with_pm (pbuf_header (Some p) hlen) s) (\<lambda>(r, s).
                    Option.bind (if r \<noteq> 0 then Some (ERR_OK, s)
                                 else ip_output_if env C p (Some (get32 iphdr 12 (pm s))) None ICMP_TTL 0 1 inp s) (\<lambda>(_, s).
                    free_packet p s)))))
          else free_packet p s)))"

section \<open>Receiving\<close>

text \<open>The interface a packet is for: the one it came in by, or the first other one on the list that takes it.\<close>

definition takes :: "u32 \<Rightarrow> ('a netstate_scheme) nic \<Rightarrow> nat \<Rightarrow> bool" where
  "takes dest s n \<longleftrightarrow> netif_is_up n s \<and> \<not> ip_addr_isany (Some (nif_addr (netifs (up s) n))) \<and>
     (dest = nif_addr (netifs (up s) n) \<or> ip_addr_isbroadcast dest (netifs (up s) n))"

fun other_netif :: "(nat \<Rightarrow> bool) \<Rightarrow> nat \<Rightarrow> nat list \<Rightarrow> nat option" where
  "other_netif P inp [] = None"
| "other_netif P inp (x # xs) =
     (if x = inp then (case xs of [] \<Rightarrow> None | y # ys \<Rightarrow> if P y then Some y else other_netif P inp ys)
      else if P x then Some x else other_netif P inp xs)"

definition deliver ::
  "env \<Rightarrow> (('a ipstate_scheme) nic) ip_calls \<Rightarrow> addr \<Rightarrow> ptr \<Rightarrow> nat \<Rightarrow> ('a ipstate_scheme) nic \<Rightarrow> ('a ipstate_scheme) nic option" where
  "deliver env C p iphdr inp s =
     (let s = upd_up (\<lambda>u. u\<lparr>current_netif := Some inp\<rparr>) s;
          s = upd_up (\<lambda>u. u\<lparr>current_header := Some iphdr\<rparr>) s
      in Option.bind (raw_input C p inp s) (\<lambda>(eaten, s).
         Option.bind
           (if eaten = 0 then
              if IPH_PROTO iphdr (pm s) = IP_PROTO_UDP then udp_input C p inp s
              else if IPH_PROTO iphdr (pm s) = IP_PROTO_TCP then tcp_input C p inp s
              else if IPH_PROTO iphdr (pm s) = IP_PROTO_ICMP then icmp_input env C p inp s
              else Option.bind
                     (if \<not> ip_addr_isbroadcast (get32 iphdr 16 (pm s)) (netifs (up s) inp) \<and> \<not> ip_addr_ismulticast (get32 iphdr 16 (pm s))
                      then Option.bind (pbs (pm s) p) (\<lambda>b.
                           icmp_dest_unreach env C p ICMP_DUR_PROTO (on_pm (Pbuf.put p (b\<lparr>payload := iphdr\<rparr>)) s))
                      else Some s) (free_packet p)
            else Some s) (\<lambda>s.
         let s = upd_up (\<lambda>u. u\<lparr>current_netif := None\<rparr>) s
         in Some (upd_up (\<lambda>u. u\<lparr>current_header := None\<rparr>) s))))"

definition ip_input ::
  "env \<Rightarrow> (('a ipstate_scheme) nic) ip_calls \<Rightarrow> addr \<Rightarrow> nat \<Rightarrow> ('a ipstate_scheme) nic \<Rightarrow> ('a ipstate_scheme) nic option" where
  "ip_input env C p inp s =
     Option.bind (pbs (pm s) p) (\<lambda>b.
     let iphdr = payload b in
     if IPH_V iphdr (pm s) \<noteq> 4 then free_packet p s
     else
       let iphdr_hlen = IPH_HL iphdr (pm s) * 4;
           iphdr_len = ntohs (IPH_LEN iphdr (pm s))
       in if iphdr_hlen > plen b \<or> iphdr_len > tot_len b then free_packet p s
          else if inet_chksum iphdr iphdr_hlen (pm s) \<noteq> 0 then free_packet p s
          else
            Option.bind (pbuf_realloc p iphdr_len (pm s)) (\<lambda>m.
            let s = s\<lparr>pm := m\<rparr>;
                dest = get32 iphdr 16 (pm s);
                src = get32 iphdr 12 (pm s);
                netif = (if takes dest s inp then Some inp else other_netif (takes dest s) inp (netif_list (up s)))
            in if ip_addr_isbroadcast src (netifs (up s) inp) \<or> ip_addr_ismulticast src then free_packet p s
               else if netif = None then free_packet p s
               else if IPH_OFFSET iphdr (pm s) AND htons (IP_OFFMASK OR IP_MF) \<noteq> 0 then
                 Option.bind (ip_reass C p s) (\<lambda>(q, s).
                 case q of None \<Rightarrow> Some s
                 | Some p \<Rightarrow> Option.bind (pbs (pm s) p) (\<lambda>b. deliver env C p (payload b) inp s))
               else deliver env C p iphdr inp s))"

text \<open>The type field of the frame decides.\<close>

definition ethernet_input ::
  "env \<Rightarrow> (('a ipstate_scheme) nic) ip_calls \<Rightarrow> addr option \<Rightarrow> nat \<Rightarrow> ('a ipstate_scheme) nic \<Rightarrow> (err_t \<times> ('a ipstate_scheme) nic) option" where
  "ethernet_input env C po n s =
     (case po of None \<Rightarrow> Some (ERR_BUF, s)
      | Some p \<Rightarrow>
          Option.bind (pbs (pm s) p) (\<lambda>b.
          let type = htons (get16 (payload b) 12 (pm s)) in
          if type = ETHTYPE_IP then
            Option.bind (etharp_ip_input env n p s) (\<lambda>s.
            Option.bind (with_pm (pbuf_header (Some p) (- SIZEOF_ETH_HDR)) s) (\<lambda>(r, s).
            Option.bind (if r \<noteq> 0 then free_packet p s else ip_input env C p n s) (\<lambda>s.
            Some (ERR_OK, s))))
          else if type = ETHTYPE_ARP then
            Option.bind (etharp_arp_input env n (hwaddr (netifs (up s) n)) p s) (\<lambda>s. Some (ERR_OK, s))
          else Option.bind (free_packet p s) (\<lambda>s. Some (ERR_OK, s))))"

end
