(* ===== verification/Ping.thy ===== *)
theory Ping
  imports Ip EthTx
begin

text \<open>
  The answer to an echo request, through all layers: from \<^verbatim>\<open>ethernet_input\<close> with the frame the driver received to
  the descriptor handed to the DMA engine. The layers work on one buffer in place, so the proof follows the bytes of
  its region: \<open>img R F m\<close> says that region \<open>R\<close> starts with the bytes \<open>F\<close>.
\<close>

section \<open>The bytes of a region\<close>

definition img :: "region \<Rightarrow> u8 list \<Rightarrow> pmem \<Rightarrow> bool" where
  "img R F m \<longleftrightarrow> read_at (R, 0) (length F) (dat m) = F"

definition splice :: "nat \<Rightarrow> 'a list \<Rightarrow> 'a list \<Rightarrow> 'a list" where
  "splice k bs F = take k F @ bs @ drop (k + length bs) F"

lemma length_splice [simp]: "k + length bs \<le> length F \<Longrightarrow> length (splice k bs F) = length F"
  by (simp add: splice_def)

lemma img_get8: "img R F m \<Longrightarrow> off + k < length F \<Longrightarrow> get8 (R, int off) k m = F ! (off + k)"
  unfolding img_def get8_def read_at_def
  by (metis (no_types, lifting) add_0 diff_zero fst_conv length_upt nth_map nth_upt of_nat_add snd_conv)

lemma img_poke:
  assumes "img R F m" "off + k + length bs \<le> length F"
  shows "img R (splice (off + k) bs F) (poke (R, int off) k bs m)"
proof -
  have "read_at (R, 0) (length F) (write_at (R, int (off + k)) bs (dat m)) = splice (off + k) bs (read_at (R, 0) (length F) (dat m))"
    using read_write_inside [of "off + k" bs "length F" "(R, 0)" "dat m"] assms(2) by (simp add: splice_def)
  then show ?thesis using assms by (simp add: img_def poke_def)
qed

lemma img_read: "img R F m \<Longrightarrow> off + n \<le> length F \<Longrightarrow> read_at (R, int off) n (dat m) = take n (drop off F)"
  using read_at_take_drop [of off n "length F" "(R, 0)" "dat m"] by (simp add: img_def)

lemma img_chksum: "img R F m \<Longrightarrow> off + unat len \<le> length F \<Longrightarrow>
    inet_chksum (R, int off) len m = checksum_of (take (unat len) (drop off F))"
  by (simp add: inet_chksum_sum img_read)

lemma img_gets: "img R F m \<Longrightarrow> off + k + n \<le> length F \<Longrightarrow> gets (R, int off) k n m = take n (drop (off + k) F)"
  using img_read [of R F m "off + k" n] by (simp add: gets_def)

lemma img_dat: "dat m' = dat m \<Longrightarrow> img R F m' = img R F m"
  by (simp add: img_def)

lemma img_prefix: "img R (F @ G) m \<Longrightarrow> img R F m"
  using img_read [of R "F @ G" m 0 "length F"] by (simp add: img_def)

section \<open>Header words\<close>

lemma le16_word16_of [simp]: "le16 (word16_of a b) = [a, b]"
  by (auto simp: le16_def word16_of_def bit_simps byte_bit_beyond intro!: bit_word_eqI)

lemma ntohs_word16_of [simp]: "ntohs (word16_of a b) = word16_of b a"
proof -
  have "ntohs w = word16_of (ucast (drop_bit 8 w)) (ucast w)" for w
    unfolding ntohs_def htons_def word16_of_def masks_u16 by (rule bit_word_eqI) (auto simp: bit_simps)
  then show ?thesis using le16_word16_of [of a b] by (simp add: le16_def)
qed

lemma htons_word16_of [simp]: "htons (word16_of a b) = word16_of b a"
  using ntohs_word16_of [of a b] by (simp add: ntohs_def)

lemma high_byte: "drop_bit 8 (word16_of a b) = ucast b"
  unfolding word16_of_def by (rule bit_word_eqI) (auto simp: bit_simps dest: bit_imp_le_length)

lemma low_byte16: "word16_of a b AND 0xff = ucast a"
  unfolding word16_of_def masks_u16 by (rule bit_word_eqI) (auto simp: bit_simps dest: bit_imp_le_length)

lemma word16_bytes: "ucast a OR push_bit 8 (ucast b) = word16_of a b"
  by (simp add: word16_of_def)

lemma nibbles_u16: "drop_bit 12 (word16_of a 0x45) = 4" "drop_bit 8 (word16_of a 0x45) AND 0x0f = 5"
proof -
  have "drop_bit 12 w = drop_bit 4 (drop_bit 8 w)" for w :: u16 by simp
  then show "drop_bit 12 (word16_of a 0x45) = 4" by (simp only: high_byte) (simp add: drop_bit_eq_div)
  show "drop_bit 8 (word16_of a 0x45) AND 0x0f = 5" unfolding high_byte by simp
qed

section \<open>The checksum of the answer\<close>

lemma wsum_zero: "wsum bs = 0 \<longleftrightarrow> (\<forall>x \<in> set bs. x = 0)"
  by (induction bs rule: wsum.induct) (auto simp: word_unat_eq_iff)

text \<open>
  The type goes from 8 to 0 and the checksum up by the same amount, with the carry brought round: a valid packet
  stays valid, unless all its other bytes are zero.
\<close>

definition echo_chksum :: "u16 \<Rightarrow> u16" where
  "echo_chksum k = (if k \<ge> 0xfff7 then k + 9 else k + 8)"

lemma echo_chksum_mod: "unat (echo_chksum k) mod 65535 = (unat k + 8) mod 65535"
proof (cases "k \<ge> 0xfff7")
  case True
  then have b: "65527 \<le> unat k" "unat k < 65536" using unsigned_less [of k, where ?'a = nat] by (simp_all add: word_le_nat_alt)
  have "unat (k + 9) = (unat k + 9) mod 65536" by (simp add: unat_word_ariths)
  also have "\<dots> = unat k + 9 - 65536" using b by (simp add: mod_if)
  finally have "unat (echo_chksum k) = unat k + 9 - 65536" using True by (simp add: echo_chksum_def)
  moreover have "unat k + 8 = (unat k + 9 - 65536) + 65535" using b by simp
  ultimately show ?thesis by (metis mod_add_self2)
next
  case False
  then have "unat k < 65527" by (simp add: word_le_nat_alt)
  then have "unat (k + 8) = unat k + 8" by (simp add: unat_word_ariths)
  then show ?thesis using False by (simp add: echo_chksum_def)
qed

lemma wsum_echo: "wsum ([t, c] @ le16 k @ rest) = 256 * unat t + unat c + swap (unat k) + wsum rest"
proof -
  have "256 * unat (ucast k :: u8) + unat (ucast (drop_bit 8 k) :: u8) = swap (unat k)"
    unfolding unat_high by (simp add: unat_low swap_def)
  then show ?thesis by (simp add: le16_def)
qed

lemma checksum_zero_mod: "checksum_of bs = 0 \<longleftrightarrow> wsum bs mod 65535 = 0 \<and> wsum bs \<noteq> 0"
proof
  assume "checksum_of bs = 0"
  then have o: "ones (wsum bs) = 65535" by (simp add: checksum_zero internet_sum_def)
  then show "wsum bs mod 65535 = 0 \<and> wsum bs \<noteq> 0" using ones_mod [of "wsum bs"] by (metis mod_self ones_0(2) zero_neq_numeral)
next
  assume a: "wsum bs mod 65535 = 0 \<and> wsum bs \<noteq> 0"
  then have "ones (wsum bs) = ones 65535" by (intro ones_cong) simp_all
  then show "checksum_of bs = 0" by (simp add: checksum_zero internet_sum_def ones_small)
qed

lemma echo_checksum:
  assumes "checksum_of ([8, c] @ le16 k @ rest) = 0" "\<exists>x \<in> set (c # rest). x \<noteq> 0"
  shows "checksum_of ([0, c] @ le16 (echo_chksum k) @ rest) = 0"
proof -
  let ?r = "unat c + wsum rest"
  have m: "swap (unat (echo_chksum k)) mod 65535 = (swap (unat k) + 2048) mod 65535"
  proof -
    have "swap (unat (echo_chksum k)) mod 65535 = 256 * (unat (echo_chksum k) mod 65535) mod 65535"
      unfolding swap_cong by (simp only: mod_mult_right_eq)
    also have "\<dots> = 256 * ((unat k + 8) mod 65535) mod 65535" unfolding echo_chksum_mod ..
    also have "\<dots> = (256 * unat k + 2048) mod 65535" by (simp only: mod_mult_right_eq) (simp add: algebra_simps)
    also have "\<dots> = (256 * unat k mod 65535 + 2048) mod 65535" by (simp only: mod_add_left_eq)
    also have "\<dots> = (swap (unat k) + 2048) mod 65535" unfolding swap_cong [symmetric] by (simp only: mod_add_left_eq)
    finally show ?thesis .
  qed
  have "wsum ([0, c] @ le16 (echo_chksum k) @ rest) mod 65535 = (swap (unat (echo_chksum k)) mod 65535 + ?r) mod 65535"
    unfolding wsum_echo mod_add_left_eq by (simp add: ac_simps)
  also have "\<dots> = (swap (unat k) + 2048 + ?r) mod 65535" unfolding m mod_add_left_eq ..
  also have "swap (unat k) + 2048 + ?r = wsum ([8, c] @ le16 k @ rest)" unfolding wsum_echo by simp
  finally have "wsum ([0, c] @ le16 (echo_chksum k) @ rest) mod 65535 = 0" using assms(1) by (simp only: checksum_zero_mod)
  moreover have "wsum ([0, c] @ le16 (echo_chksum k) @ rest) \<noteq> 0"
  proof -
    have "unat c \<noteq> 0 \<or> wsum rest \<noteq> 0" using assms(2) by (auto simp: wsum_zero word_unat_eq_iff)
    then show ?thesis unfolding wsum_echo by linarith
  qed
  ultimately show ?thesis unfolding checksum_zero_mod ..
qed

section \<open>One buffer\<close>

text \<open>A packet of \<open>L\<close> bytes in one pool buffer, \<open>o\<close> bytes into its region.\<close>

definition one :: "u8 \<Rightarrow> nat \<Rightarrow> nat \<Rightarrow> nat \<Rightarrow> pbuf" where
  "one fl e off L = \<lparr>p_next = None, payload = (Own (Memp e), int off), tot_len = of_nat L, plen = of_nat L,
     ptype = PBUF_POOL, pflags = fl, pref = 1\<rparr>"

lemma one_simps [simp]: "p_next (one fl e off L) = None" "payload (one fl e off L) = (Own (Memp e), int off)"
    "tot_len (one fl e off L) = of_nat L" "plen (one fl e off L) = of_nat L" "ptype (one fl e off L) = PBUF_POOL"
    "pref (one fl e off L) = 1"
  by (simp_all add: one_def)

lemma put_simps [simp]: "pbs (Pbuf.put p b m) p = Some b" "dat (Pbuf.put p b m) = dat m" "pools (Pbuf.put p b m) = pools m"
    "heap (Pbuf.put p b m) = heap m" "Pbuf.put p b (Pbuf.put p b' m) = Pbuf.put p b m"
  by (simp_all add: Pbuf.put_def)

lemma put_same: "pbs m p = Some b \<Longrightarrow> Pbuf.put p b m = m"
  by (simp add: Pbuf.put_def fun_upd_idem)

lemma sint_small: "k < 32768 \<Longrightarrow> sint (of_nat k :: u16) = int k"
  by (simp add: signed_of_nat signed_take_bit_int_eq_self)

lemma sint_minus: "k < 32768 \<Longrightarrow> sint (- of_nat k :: u16) = - int k"
proof -
  assume k: "k < 32768"
  have "sint (of_int (- int k) :: u16) = - int k"
    using k by (simp only: signed_of_int) (simp add: signed_take_bit_int_eq_self)
  then show ?thesis by simp
qed

lemma header_up:
  assumes "pbs m (Memp e) = Some (one fl e off L)" "0 < k" "k < 32768" "k \<le> off"
  shows "pbuf_header (Some (Memp e)) (of_nat k) m = Some (0, Pbuf.put (Memp e) (one fl e (off - k) (L + k)) m)"
proof -
  have "unat (of_nat k :: u16) = k" using assms(3) by (simp add: unat_small)
  then have "(of_nat k :: u16) \<noteq> 0" using assms(2) by (metis neq0_conv unsigned_0)
  then show ?thesis using assms
    by (simp add: pbuf_header_def sint_small one_def of_nat_diff)
qed

lemma header_down:
  assumes "pbs m (Memp e) = Some (one fl e off L)" "0 < k" "k < 32768" "k \<le> L" "L < 65536"
  shows "pbuf_header (Some (Memp e)) (- of_nat k) m = Some (0, Pbuf.put (Memp e) (one fl e (off + k) (L - k)) m)"
proof -
  have u: "unat (of_nat k :: u16) = k" "unat (of_nat L :: u16) = L" using assms by (simp_all add: unat_small)
  then have "(of_nat k :: u16) \<noteq> 0" using assms(2) by (metis neq0_conv unsigned_0)
  moreover have "(of_nat k :: u16) \<le> of_nat L" using u assms(4) by (simp add: word_le_nat_alt)
  ultimately show ?thesis using assms
    by (simp add: pbuf_header_def sint_minus one_def of_nat_diff)
qed

lemma chksum_one:
  assumes "pbs m (Memp e) = Some (one fl e off L)" "img (Own (Memp e)) F m" "off + L \<le> length F" "L < 65536"
  shows "inet_chksum_pbuf (Some (Memp e)) m = Some (checksum_of (take L (drop off F)))"
proof -
  have "contents m [Memp e] = take L (drop off F)"
    using assms(1,4) img_read [OF assms(2,3)] by (simp add: bytes_of_def unat_small)
  then show ?thesis using chksum_of_chain [of m "Some (Memp e)" "[Memp e]"] assms(1) by simp
qed

lemma realloc_one:
  assumes "pbs m (Memp e) = Some (one fl e off L)" "n \<le> L" "L < 65536"
  shows "pbuf_realloc (Memp e) (of_nat n) m = Some (Pbuf.put (Memp e) (one fl e off n) m)"
proof (cases "n = L")
  case True
  then show ?thesis using assms by (simp add: pbuf_realloc_def put_same)
next
  case False
  then have "\<not> (of_nat n :: u16) \<ge> of_nat L" "\<not> (of_nat n :: u16) > of_nat L"
    using assms by (simp_all add: word_le_nat_alt word_less_nat_alt unat_small)
  moreover from this have "realloc_skip (Memp e) (of_nat n) g m = Some (Memp e, of_nat n, m)" for g
    using assms(1) by (subst realloc_skip.simps) simp
  ultimately show ?thesis using assms(1) by (simp add: pbuf_realloc_def one_def)
qed

lemma free_one:
  assumes "pbs m (Memp e) = Some (one fl e off L)"
  shows "\<exists>m'. pbuf_free (Some (Memp e)) m = Some (1, m') \<and> pbs m' (Memp e) = None \<and> dat m' = dat m \<and>
    pools m' MEMP_PBUF_POOL = e # pools m MEMP_PBUF_POOL"
  using pbuf_free_loop_all [of m "Some (Memp e)" "[Memp e]"] assms
  by (auto simp: placed_def freed_def elems_def intro!: exI [of _ "freed [Memp e] m"])

section \<open>The frames\<close>

definition eth_frame :: "u8 list \<Rightarrow> u8 list \<Rightarrow> u8 list \<Rightarrow> u8 list" where
  "eth_frame dmac smac body = dmac @ smac @ [8, 0] @ body"

text \<open>A header of 20 bytes; the two bytes \<open>df\<close> and 0 are the flags and the fragment offset.\<close>

definition ip_header :: "u8 \<Rightarrow> u16 \<Rightarrow> u16 \<Rightarrow> u8 \<Rightarrow> u8 \<Rightarrow> u8 \<Rightarrow> u16 \<Rightarrow> u32 \<Rightarrow> u32 \<Rightarrow> u8 list" where
  "ip_header service len i df life proto chk src dst =
     [0x45, service] @ rev (le16 len) @ le16 i @ [df, 0, life, proto] @ le16 chk @ le32 src @ le32 dst"

definition icmp_message :: "u8 \<Rightarrow> u8 \<Rightarrow> u16 \<Rightarrow> u8 list \<Rightarrow> u8 list" where
  "icmp_message t c k rest = [t, c] @ le16 k @ rest"

lemma length_ip_header [simp]: "length (ip_header service len i df life proto chk src dst) = 20"
  by (simp add: ip_header_def)

lemma length_icmp_message [simp]: "length (icmp_message t c k rest) = 4 + length rest"
  by (simp add: icmp_message_def)

text \<open>Reading and writing a header that starts behind the bytes \<open>E\<close>.\<close>

lemma img_header:
  assumes "img R (E @ ip_header sv len i df life proto chk src dst @ X) m"
  defines "h \<equiv> (R, int (length E))"
  shows "IPH_V h m = 4" "IPH_HL h m = 5" "ntohs (IPH_LEN h m) = len" "IPH_OFFSET h m = word16_of df 0"
    "IPH_PROTO h m = ucast proto" "get32 h 12 m = src" "get32 h 16 m = dst"
proof -
  have g: "get8 h k m = ip_header sv len i df life proto chk src dst ! k" if "k < 20" for k
    using img_get8 [OF assms(1), of "length E" k] that by (simp add: h_def nth_append)
  show "IPH_V h m = 4" "IPH_HL h m = 5"
    by (simp_all add: IPH_V_def IPH_HL_def get16_def g ip_header_def nibbles_u16)
  show "ntohs (IPH_LEN h m) = len" "IPH_OFFSET h m = word16_of df 0" "IPH_PROTO h m = ucast proto"
    "get32 h 12 m = src" "get32 h 16 m = dst"
    by (simp_all add: IPH_LEN_def IPH_OFFSET_def IPH_PROTO_def get16_def get32_def g ip_header_def le16_def le32_def low_byte16)
qed

lemma img_edit:
  assumes "img R (E @ xs @ old @ ys) m" "length bs = length old" "k = length xs"
  shows "img R (E @ xs @ bs @ ys) (poke (R, int (length E)) k bs m)"
proof -
  have "splice (length E + k) bs (E @ xs @ old @ ys) = E @ xs @ bs @ ys" using assms(2,3) by (simp add: splice_def)
  then show ?thesis using img_poke [OF assms(1), of "length E" k bs] assms(2,3) by simp
qed

lemma img_edit0:
  "img R (xs @ old @ ys) m \<Longrightarrow> length bs = length old \<Longrightarrow> k = length xs \<Longrightarrow> img R (xs @ bs @ ys) (poke (R, 0) k bs m)"
  using img_edit [of R "[]" xs old ys m bs k] by simp

lemma img_echo_answer:
  assumes F: "img R (E @ ip_header sv len i df life 1 chk src dst @ icmp_message 8 c k rest) m"
    and v: "checksum_of (icmp_message 8 c k rest) = 0" and nz: "\<exists>x \<in> set (c # rest). x \<noteq> 0"
  shows "\<exists>chk'. img R (E @ ip_header sv len i df 255 1 chk' dst src @ icmp_message 0 c (echo_chksum k) rest)
      (echo_answer (R, int (length E)) (R, int (length E + 20)) m) \<and>
    checksum_of (ip_header sv len i df 255 1 chk' dst src) = 0"
proof -
  let ?h = "(R, int (length E))" and ?a = "(R, int (length E + 20))"
  define pre where "pre = [0x45, sv] @ rev (le16 len) @ le16 i @ [df, 0]"
  have hd: "ip_header sv len i df t 1 w a b = pre @ [t, 1] @ le16 w @ le32 a @ le32 b" for t w a b
    by (simp add: ip_header_def pre_def)
  have lp: "length pre = 8" by (simp add: pre_def)
  let ?M = "icmp_message 8 c k rest"
  define m1 where "m1 = put32 ?h 12 dst m"
  have i1: "img R (E @ (pre @ [life, 1] @ le16 chk) @ le32 dst @ le32 dst @ ?M) m1"
    using img_edit [of R E "pre @ [life, 1] @ le16 chk" "le32 src" "le32 dst @ ?M" m "le32 dst" 12] F
    by (simp add: hd m1_def put32_def lp)
  define m2 where "m2 = put32 ?h 16 src m1"
  have i2: "img R ((E @ ip_header sv len i df life 1 chk dst src) @ [] @ [8] @ c # le16 k @ rest) m2"
    using img_edit [of R E "pre @ [life, 1] @ le16 chk @ le32 dst" "le32 dst" "?M" m1 "le32 src" 16] i1
    by (simp add: hd m2_def put32_def lp icmp_message_def)
  define m3 where "m3 = poke ?a 0 [0] m2"
  have i3: "img R ((E @ ip_header sv len i df life 1 chk dst src) @ [0, c] @ le16 k @ rest) m3"
    using img_edit [OF i2, of "[0]" 0] by (simp add: m3_def)
  have k: "get16 ?a 2 m3 = k"
    using img_get8 [OF i3, of "length E + 20"] by (simp add: get16_def nth_append le16_def)
  have e: "(if k \<ge> htons (0xffff - push_bit 8 (ucast (8 :: u8))) then k + (htons (push_bit 8 (ucast (8 :: u8))) + 1)
      else k + htons (push_bit 8 (ucast (8 :: u8)))) = echo_chksum k"
    by (simp add: echo_chksum_def htons_def)
  define m4 where "m4 = put16 ?a 2 (echo_chksum k) m3"
  let ?N = "icmp_message 0 c (echo_chksum k) rest"
  have i4: "img R (E @ pre @ [life, 1] @ le16 chk @ le32 dst @ le32 src @ ?N) m4"
    using img_edit [OF i3, of "le16 (echo_chksum k)" 2] by (simp add: m4_def put16_def hd lp icmp_message_def)
  have "IPH_PROTO ?h m4 = 1" using img_header(5) [of R E sv len i df life 1 chk dst src ?N m4] i4 by (simp add: hd)
  moreover have "le16 (htons (1 OR push_bit 8 (ucast (255 :: u8)))) = [255, 1 :: u8]" by (simp add: htons_def le16_def)
  moreover define m5 where "m5 = IPH_TTL_SET ?h 255 m4"
  ultimately have i5: "img R (E @ (pre @ [255, 1]) @ le16 chk @ le32 dst @ le32 src @ ?N) m5"
    using img_edit [OF i4, of "[255, 1]" 8] by (simp add: IPH_TTL_SET_def put16_def lp)
  define m6 where "m6 = IPH_CHKSUM_SET ?h 0 m5"
  have i6: "img R (E @ (pre @ [255, 1]) @ [0, 0] @ le32 dst @ le32 src @ ?N) m6"
    using img_edit [OF i5, of "[0, 0]" 10] by (simp add: m6_def IPH_CHKSUM_SET_def put16_def lp le16_def)
  define w where "w = checksum_of ((pre @ [255, 1]) @ [0, 0] @ le32 dst @ le32 src)"
  have w: "inet_chksum ?h 20 m6 = w"
    using img_chksum [OF i6, of "length E" 20] by (simp add: w_def lp)
  have i7: "img R (E @ (pre @ [255, 1]) @ le16 w @ le32 dst @ le32 src @ ?N) (IPH_CHKSUM_SET ?h w m6)"
    using img_edit [OF i6, of "le16 w" 10] by (simp add: IPH_CHKSUM_SET_def put16_def lp)
  have "checksum_of (ip_header sv len i df 255 1 w dst src) = 0"
    using checksum_stored [of "pre @ [255, 1]" "le32 dst @ le32 src"] by (simp add: hd lp w_def)
  moreover have "echo_answer ?h ?a m = IPH_CHKSUM_SET ?h w m6"
  proof -
    have "get32 ?h 12 m = src" "get32 ?h 16 m = dst" using img_header(6,7) [OF F] by simp_all
    then show ?thesis
      unfolding echo_answer_def Let_def by (simp only: m1_def [symmetric] m2_def [symmetric] m3_def [symmetric] k e
        m4_def [symmetric] m5_def [symmetric] m6_def [symmetric] w)
  qed
  ultimately show ?thesis using i7 by (auto simp: hd)
qed

section \<open>Sending it\<close>

text \<open>The DMA engine has been given \<open>frame\<close>, in the buffer and descriptor that were current in \<open>s\<close>.\<close>

definition handed_over :: "'u nic \<Rightarrow> u8 list \<Rightarrow> 'v nic \<Rightarrow> bool" where
  "handed_over s frame s' \<longleftrightarrow>
     (let r = DMATxDescToSet s; d = descs s r in
      descs s' = (descs s)(r := d\<lparr>ControlBufferSize := of_nat (length frame),
        Status := Status d OR (ETH_DMATxDesc_OWN OR ETH_DMATxDesc_LS OR ETH_DMATxDesc_FS)\<rparr>) \<and>
      DMATxDescToSet s' = Buffer2NextDescAddr d \<and>
      read_at (Buffer1Addr d) (length frame) (dat (pm s')) = frame)"

text \<open>The current transmit descriptor is free and its buffer is not the packet's.\<close>

definition tx_free :: "'u nic \<Rightarrow> addr \<Rightarrow> bool" where
  "tx_free s p \<longleftrightarrow> Status (descs s (DMATxDescToSet s)) AND ETH_DMATxDesc_OWN = 0 \<and>
     fst (Buffer1Addr (descs s (DMATxDescToSet s))) \<noteq> Own p"

lemma send_one:
  assumes p: "pbs (pm s) (Memp e) = Some (one fl e 0 (length F))" and F: "img (Own (Memp e)) F (pm s)" "length F \<le> 1520"
    and tx: "tx_free s (Memp e)"
  shows "\<exists>s'. low_level_output env (Some (Memp e)) s = Some (ERR_OK, s') \<and> handed_over s F s' \<and> up s' = up s \<and>
    pbs (pm s') = pbs (pm s) \<and> pools (pm s') = pools (pm s)"
proof -
  have l: "linked (pbs (pm s)) (Some (Memp e)) [Memp e] None" using p by simp
  have n: "lens (pbs (pm s)) [Memp e] = length F" using p F(2) by (simp add: blen_def unat_small)
  have ap: "apart_from (fst (ETH_GetCurrentTxBuffer s)) (pm s) [Memp e]"
    using p tx by (auto simp: apart_from_def tx_free_def ETH_GetCurrentTxBuffer_def)
  have c: "contents (pm s) [Memp e] = F" using p F img_read [OF F(1), of 0 "length F"] by (simp add: bytes_of_def unat_small)
  have "lens (pbs (pm s)) [Memp e] \<le> 1520" using n F(2) by simp
  from low_level_output_runs [OF l this ap, of env]
  show ?thesis using tx unfolding n c by (auto simp: tx_free_def handed_over_def Let_def read_write_at)
qed

lemma etharp_send_one:
  assumes p: "pbs (pm s) (Memp e) = Some (one fl e 0 (14 + length B))" and F: "img (Own (Memp e)) (E @ B) (pm s)" "length E = 14"
    and len: "length B \<le> 1506" and tx: "tx_free s (Memp e)" and m: "length smac = 6" "length dmac = 6"
    and o: "netif_linkoutput (netifs (up s) n) = Some low_level_output_fn"
  shows "\<exists>s'. etharp_send_ip env n (Memp e) smac dmac s = Some (ERR_OK, s') \<and> handed_over s (eth_frame dmac smac B) s' \<and>
    up s' = up s \<and> pbs (pm s') = pbs (pm s) \<and> pools (pm s') = pools (pm s)"
proof -
  let ?R = "Own (Memp e)"
  define E1 where "E1 = take 6 E"
  define E2 where "E2 = take 6 (drop 6 E)"
  define E3 where "E3 = drop 6 (drop 6 E)"
  have E: "E = E1 @ E2 @ E3" "length E1 = 6" "length E2 = 6" "length E3 = 2"
    unfolding E1_def E2_def E3_def append_take_drop_id using F(2) by simp_all
  define s1 where "s1 = on_pm (put16 (?R, 0) 12 (htons ETHTYPE_IP)) (on_pm (poke (?R, 0) 6 smac) (on_pm (poke (?R, 0) 0 dmac) s))"
  have "img ?R ([] @ E1 @ (E2 @ E3 @ B)) (pm s)" using F(1) E(1) by simp
  then have "img ?R ([] @ dmac @ (E2 @ E3 @ B)) (poke (?R, 0) 0 dmac (pm s))" by (rule img_edit0) (simp_all add: m E)
  then have "img ?R (dmac @ E2 @ (E3 @ B)) (poke (?R, 0) 0 dmac (pm s))" by simp
  then have "img ?R (dmac @ smac @ (E3 @ B)) (poke (?R, 0) 6 smac (poke (?R, 0) 0 dmac (pm s)))"
    by (rule img_edit0) (simp_all add: m E(3))
  then have "img ?R ((dmac @ smac) @ E3 @ B) (poke (?R, 0) 6 smac (poke (?R, 0) 0 dmac (pm s)))" by simp
  then have "img ?R ((dmac @ smac) @ [8, 0] @ B) (poke (?R, 0) 12 [8, 0] (poke (?R, 0) 6 smac (poke (?R, 0) 0 dmac (pm s))))"
    by (rule img_edit0) (simp_all add: m E(4))
  moreover have "le16 (htons ETHTYPE_IP) = [8, 0]" by (simp add: htons_def le16_def)
  ultimately have i: "img ?R (eth_frame dmac smac B) (pm s1)" by (simp add: s1_def on_pm_def put16_def eth_frame_def)
  have l: "length (eth_frame dmac smac B) = 14 + length B" using m by (simp add: eth_frame_def)
  have same: "pbs (pm s1) = pbs (pm s)" "pools (pm s1) = pools (pm s)" "up s1 = up s" "descs s1 = descs s"
    "DMATxDescToSet s1 = DMATxDescToSet s"
    by (simp_all add: s1_def on_pm_def put16_def poke_def)
  have "etharp_send_ip env n (Memp e) smac dmac s = linkoutput env n (Some (Memp e)) s1"
    using p m by (simp add: etharp_send_ip_def Let_def s1_def)
  also have "\<dots> = low_level_output env (Some (Memp e)) s1" using o same(3) by (simp add: linkoutput_def)
  finally have r: "etharp_send_ip env n (Memp e) smac dmac s = low_level_output env (Some (Memp e)) s1" .
  have t: "tx_free s1 (Memp e)" using tx same by (simp add: tx_free_def)
  have h: "handed_over s1 f x = handed_over s f x" for f and x :: "('a netstate_scheme) nic" using same by (simp add: handed_over_def)
  have p1: "pbs (pm s1) (Memp e) = Some (one fl e 0 (length (eth_frame dmac smac B)))" using p by (simp only: l same)
  have "length (eth_frame dmac smac B) \<le> 1520" using len l by simp
  from send_one [OF p1 i this t, of env] show ?thesis unfolding r same h .
qed

text \<open>An interface with the functions that \<^verbatim>\<open>ethernetif_init\<close> stores.\<close>

definition ether_netif :: "netif \<Rightarrow> bool" where
  "ether_netif nif \<longleftrightarrow> netif_output nif = Some etharp_output_fn \<and> netif_linkoutput nif = Some low_level_output_fn \<and>
     length (hwaddr nif) = 6"

lemma etharp_output_one:
  assumes p: "pbs (pm s) (Memp e) = Some (one fl e 14 (length B))" and F: "img (Own (Memp e)) (E @ B) (pm s)" "length E = 14"
    and len: "length B \<le> 1506" and tx: "tx_free s (Memp e)" and nif: "ether_netif (netifs (up s) n)"
    and inv: "arp_inv (up s)" and rs: "resolved (arp_table (up s)) dst dmac" and u: "unicast dst (netifs (up s) n)"
    and net: "ip_addr_netcmp dst (nif_addr (netifs (up s) n)) (nif_mask (netifs (up s) n))" and m: "length dmac = 6"
  shows "\<exists>s' i. etharp_output env n (Memp e) dst s = Some (ERR_OK, s') \<and>
    handed_over s (eth_frame dmac (hwaddr (netifs (up s) n)) B) s' \<and> up s' = (up s)\<lparr>etharp_cached_entry := i\<rparr> \<and>
    pbs (pm s') (Memp e) = Some (one fl e 0 (14 + length B)) \<and> pools (pm s') = pools (pm s)"
proof -
  let ?b = "one fl e 0 (14 + length B)" and ?hw = "hwaddr (netifs (up s) n)"
  define s1 where "s1 = s\<lparr>pm := Pbuf.put (Memp e) ?b (pm s)\<rparr>"
  have h: "pbuf_header (Some (Memp e)) SIZEOF_ETH_HDR (pm s) = Some (0, Pbuf.put (Memp e) ?b (pm s))"
    using header_up [OF p, of 14] by (simp add: add.commute)
  have up1: "up s1 = up s" by (simp add: s1_def)
  obtain i where q: "etharp_query env n dst (Some (Memp e)) s1 = etharp_send_ip env n (Memp e) ?hw dmac (set_cached i s1)"
    using etharp_query_resolved [of s1 dst dmac n env "Memp e"] inv rs u by (auto simp: up1)
  have o: "etharp_output env n (Memp e) dst s = etharp_query env n dst (Some (Memp e)) s1"
    using u net by (simp add: etharp_output_def with_pm_def h Let_def s1_def unicast_def)
  have nf: "netifs (up (set_cached i s1)) n = netifs (up s) n" by (simp add: s1_def)
  have "pbs (pm (set_cached i s1)) (Memp e) = Some ?b" by (simp add: s1_def)
  moreover have "img (Own (Memp e)) (E @ B) (pm (set_cached i s1))" using F(1) img_dat by (simp add: s1_def img_def)
  moreover have "tx_free (set_cached i s1) (Memp e)" using tx by (simp add: tx_free_def s1_def set_cached_def upd_up_def)
  moreover have "netif_linkoutput (netifs (up (set_cached i s1)) n) = Some low_level_output_fn" "length ?hw = 6"
    using nif by (simp_all add: nf up1 ether_netif_def)
  ultimately obtain s' where s': "etharp_send_ip env n (Memp e) ?hw dmac (set_cached i s1) = Some (ERR_OK, s')"
      "handed_over (set_cached i s1) (eth_frame dmac ?hw B) s'" "up s' = up (set_cached i s1)"
      "pbs (pm s') = pbs (pm (set_cached i s1))" "pools (pm s') = pools (pm (set_cached i s1))"
    using etharp_send_one [of "set_cached i s1" e fl B E ?hw dmac n env] F(2) len m by blast
  have "handed_over s (eth_frame dmac ?hw B) s'" using s'(2) by (simp add: handed_over_def s1_def set_cached_def upd_up_def)
  moreover have "etharp_output env n (Memp e) dst s = Some (ERR_OK, s')" unfolding o q by (rule s'(1))
  ultimately show ?thesis using s'(3-) by (intro exI [of _ s'] exI [of _ i]) (simp add: s1_def)
qed

section \<open>The layers above\<close>

lemma echo_buffer_one:
  assumes "pbs m (Memp e) = Some (one fl e 34 L)" "L < 65000"
  shows "echo_buffer (Memp e) h hlen m = Some (Some (Memp e, h), m)"
proof -
  have "pbuf_header (Some (Memp e)) (20 + 14) m = Some (0, Pbuf.put (Memp e) (one fl e 0 (L + 34)) m)"
    using header_up [OF assms(1), of 34] by simp
  moreover have "pbuf_header (Some (Memp e)) (- (20 + 14)) (Pbuf.put (Memp e) (one fl e 0 (L + 34)) m) = Some (0, m)"
    using header_down [of "Pbuf.put (Memp e) (one fl e 0 (L + 34)) m" e fl 0 "L + 34" 34] assms by (simp add: put_same)
  ultimately show ?thesis by (simp add: echo_buffer_def)
qed

text \<open>The mtu lets a packet of \<open>k\<close> bytes pass.\<close>

definition mtu_lets :: "netif \<Rightarrow> nat \<Rightarrow> bool" where
  "mtu_lets nif k \<longleftrightarrow> mtu nif = 0 \<or> k \<le> unat (mtu nif)"

lemma icmp_input_echo:
  fixes e :: nat and C :: "(('a ipstate_scheme) nic) ip_calls" and rest :: "u8 list" and L :: nat
  defines "R \<equiv> Own (Memp e)" and "L \<equiv> 24 + length rest"
  assumes p: "pbs (pm s) (Memp e) = Some (one fl e 14 L)"
    and F: "img R (E @ ip_header sv len i df life 1 chk src dst @ icmp_message 8 c k rest) (pm s)" "length E = 14"
    and v: "checksum_of (icmp_message 8 c k rest) = 0" and nz: "\<exists>x \<in> set (c # rest). x \<noteq> 0"
    and len: "4 \<le> length rest" "L \<le> 1506" and mt: "mtu_lets (netifs (up s) n) L"
    and tx: "tx_free s (Memp e)" and nif: "ether_netif (netifs (up s) n)"
    and inv: "arp_inv (up s)" and rs: "resolved (arp_table (up s)) src dmac" and u: "unicast src (netifs (up s) n)" "unicast dst (netifs (up s) n)"
    and net: "ip_addr_netcmp src (nif_addr (netifs (up s) n)) (nif_mask (netifs (up s) n))" and m: "length dmac = 6"
  shows "\<exists>s' chk' j. icmp_input env C (Memp e) n s = Some s' \<and>
    handed_over s (eth_frame dmac (hwaddr (netifs (up s) n))
      (ip_header sv len i df 255 1 chk' dst src @ icmp_message 0 c (echo_chksum k) rest)) s' \<and>
    checksum_of (ip_header sv len i df 255 1 chk' dst src) = 0 \<and>
    up s' = (up s)\<lparr>etharp_cached_entry := j\<rparr> \<and> pbs (pm s') (Memp e) = None \<and>
    pools (pm s') MEMP_PBUF_POOL = e # pools (pm s) MEMP_PBUF_POOL"
proof -
  let ?h = "(R, 14 :: int)" and ?nif = "netifs (up s) n"
  have E: "int (length E) = 14" using F(2) by simp
  note hd = img_header [OF F(1), unfolded E]
  let ?b = "one fl e 34 (4 + length rest)"
  define s1 where "s1 = s\<lparr>pm := Pbuf.put (Memp e) ?b (pm s)\<rparr>"
  have d: "pbuf_header (Some (Memp e)) (- 20) (pm s) = Some (0, pm s1)"
    using header_down [OF p, of 20] len by (simp add: L_def s1_def)
  have b1: "pbs (pm s1) (Memp e) = Some ?b" by (simp add: s1_def)
  have i1: "img R ((E @ ip_header sv len i df life 1 chk src dst) @ icmp_message 8 c k rest) (pm s1)"
    using F(1) by (simp add: s1_def img_def)
  have ty: "get8 (R, 34) 0 (pm s1) = 8"
    using img_get8 [OF i1, of 34 0] F(2) by (simp add: nth_append icmp_message_def)
  have ad: "get32 ?h 16 (pm s1) = dst" using img_header(7) [of R E sv len i df life 1 chk src dst _ "pm s1"] i1 E by simp
  have sum: "inet_chksum_pbuf (Some (Memp e)) (pm s1) = Some 0"
    using chksum_one [OF b1 i1 [unfolded R_def]] F(2) len v by (simp add: L_def)
  have eb: "echo_buffer (Memp e) ?h 20 (pm s1) = Some (Some (Memp e, ?h), pm s1)"
    using echo_buffer_one [OF b1] len by (simp add: L_def)
  define s2 where "s2 = on_pm (echo_answer ?h (R, 34)) s1"
  obtain chk' where i2: "img R (E @ ip_header sv len i df 255 1 chk' dst src @ icmp_message 0 c (echo_chksum k) rest) (pm s2)"
      and c2: "checksum_of (ip_header sv len i df 255 1 chk' dst src) = 0"
    using img_echo_answer [of R E sv len i df life chk src dst c k rest "pm s1"] i1 v nz F(2) by (auto simp: s2_def on_pm_def)
  have b2: "pbs (pm s2) (Memp e) = Some ?b" "pools (pm s2) = pools (pm s)"
    by (simp_all add: s2_def on_pm_def echo_answer_def Let_def IPH_CHKSUM_SET_def IPH_TTL_SET_def put16_def put32_def poke_def s1_def)
  define s3 where "s3 = s2\<lparr>pm := Pbuf.put (Memp e) (one fl e 14 L) (pm s2)\<rparr>"
  have h3: "pbuf_header (Some (Memp e)) 20 (pm s2) = Some (0, pm s3)"
    using header_up [OF b2(1), of 20] by (simp add: s3_def L_def add.commute)
  let ?B = "ip_header sv len i df 255 1 chk' dst src @ icmp_message 0 c (echo_chksum k) rest"
  have lB: "length ?B = L" by (simp add: L_def)
  have i3: "img R (E @ ?B) (pm s3)" using i2 by (simp add: s3_def img_def)
  have same: "up s3 = up s" "descs s3 = descs s" "DMATxDescToSet s3 = DMATxDescToSet s"
    by (simp_all add: s3_def s2_def s1_def on_pm_def)
  have b3: "pbs (pm s3) (Memp e) = Some (one fl e 14 L)" by (simp add: s3_def)
  obtain s4 j where s4: "etharp_output env n (Memp e) src s3 = Some (ERR_OK, s4)"
      "handed_over s3 (eth_frame dmac (hwaddr ?nif) ?B) s4" "up s4 = (up s)\<lparr>etharp_cached_entry := j\<rparr>"
      "pbs (pm s4) (Memp e) = Some (one fl e 0 (14 + length ?B))" "pools (pm s4) = pools (pm s3)"
    using etharp_output_one [of s3 e fl ?B E n src dmac env] b3 [folded lB] i3 [unfolded R_def] F(2) len(2) [folded lB] nif inv rs u(1) net m tx
    unfolding same tx_free_def by blast
  have a3: "get32 ?h 16 (pm s3) = src" using img_header(7) [OF i3] E by simp
  have "(of_nat L :: u16) \<le> mtu ?nif \<or> mtu ?nif = 0"
    using mt len(2) by (auto simp: mtu_lets_def word_le_nat_alt unat_small)
  then have mt: "\<not> (mtu ?nif \<noteq> 0 \<and> of_nat L > mtu ?nif)" by auto
  have "netif_output_call env n (Memp e) src s3 = Some (ERR_OK, s4)"
    using s4(1) nif by (simp add: netif_output_call_def same(1) ether_netif_def)
  then have out: "ip_output_if env C (Memp e) a None 255 0 1 n s3 = Some (ERR_OK, s4)" for a
    using mt by (auto simp: ip_output_if_def b3 a3 same(1) Let_def R_def [symmetric])
  obtain m' where m': "pbuf_free (Some (Memp e)) (pm s4) = Some (1, m')" "pbs m' (Memp e) = None" "dat m' = dat (pm s4)"
      "pools m' MEMP_PBUF_POOL = e # pools (pm s4) MEMP_PBUF_POOL"
    using free_one [OF s4(4)] by blast
  have no: "\<not> (of_nat (4 + length rest) :: u16) < 2 * 2" "\<not> (of_nat (4 + length rest) :: u16) < 8"
    using len by (simp_all add: word_less_nat_alt unat_small L_def del: of_nat_add)
  have nb: "\<not> ip_addr_ismulticast dst" "\<not> ip_addr_isbroadcast dst ?nif" using u(2) by (simp_all add: unicast_def)
  have w: "with_pm (pbuf_header (Some (Memp e)) (- 20)) s = Some (0, s1)" "with_pm (echo_buffer (Memp e) ?h 20) s1 = Some (Some (Memp e, ?h), s1)"
    "with_pm (pbuf_header (Some (Memp e)) 20) s2 = Some (0, s3)" "free_packet (Memp e) s4 = Some (s4\<lparr>pm := m'\<rparr>)"
    using d eb h3 m'(1) by (simp_all add: with_pm_def free_packet_def s1_def s3_def)
  have up2: "up s1 = up s" by (simp add: s1_def)
  have "icmp_input env C (Memp e) n s = Some (s4\<lparr>pm := m'\<rparr>)"
    unfolding icmp_input_def p Option.bind.bind_lunit one_simps R_def [symmetric] Let_def of_nat_numeral hd(2)
    using no nb by (simp add: w b1 b2(1) ty ad sum up2 out R_def [symmetric] s2_def [symmetric] del: of_nat_add)
  moreover have "handed_over s (eth_frame dmac (hwaddr ?nif) ?B) (s4\<lparr>pm := m'\<rparr>)"
    using s4(2) m'(3) by (simp add: handed_over_def same(2,3))
  moreover have "pools m' MEMP_PBUF_POOL = e # pools (pm s) MEMP_PBUF_POOL"
    using m'(4) s4(5) b2(2) by (simp add: s3_def)
  ultimately show ?thesis using s4(3) m'(2) c2
    by (intro exI [of _ "s4\<lparr>pm := m'\<rparr>"] exI [of _ chk'] exI [of _ j]) simp
qed

lemma fragment_bits: "word16_of a 0 AND htons (0x1fff OR 0x2000) = ucast (a AND 0x3f)"
proof -
  have "htons (0x1fff OR 0x2000) = word16_of 0x3f 0xff" by (simp add: htons_def word16_of_def)
  moreover have "word16_of a 0 AND word16_of b c = ucast (a AND b)" for b c
    unfolding word16_of_def by (rule bit_word_eqI) (auto simp: bit_simps dest: bit_imp_le_length)
  ultimately show ?thesis by simp
qed

lemma ip_input_echo:
  fixes e :: nat and C :: "(('a ipstate_scheme) nic) ip_calls" and rest :: "u8 list" and L :: nat
  defines "R \<equiv> Own (Memp e)" and "L \<equiv> 24 + length rest"
  assumes p: "pbs (pm s) (Memp e) = Some (one fl e 14 (L + length pad))"
    and F: "img R (E @ ip_header sv (of_nat L) i df life 1 chk src own @ icmp_message 8 c k rest @ pad) (pm s)" "length E = 14"
    and v: "checksum_of (ip_header sv (of_nat L) i df life 1 chk src own) = 0"
      "checksum_of (icmp_message 8 c k rest) = 0" and nz: "\<exists>x \<in> set (c # rest). x \<noteq> 0" and df: "df AND 0x3f = 0"
    and len: "4 \<le> length rest" "L + length pad \<le> 1506" and mt: "mtu_lets (netifs (up s) n) L"
    and tx: "tx_free s (Memp e)" and nif: "ether_netif (netifs (up s) n)" "netif_is_up n s" "nif_addr (netifs (up s) n) = own"
    and inv: "arp_inv (up s)" and rs: "resolved (arp_table (up s)) src dmac"
    and u: "unicast src (netifs (up s) n)" "unicast own (netifs (up s) n)"
    and net: "ip_addr_netcmp src own (nif_mask (netifs (up s) n))" and m: "length dmac = 6"
    and raw: "\<And>t. raw_input C (Memp e) n t = Some (0, t)"
  shows "\<exists>s' chk'. ip_input env C (Memp e) n s = Some s' \<and>
    handed_over s (eth_frame dmac (hwaddr (netifs (up s) n))
      (ip_header sv (of_nat L) i df 255 1 chk' own src @ icmp_message 0 c (echo_chksum k) rest)) s' \<and>
    checksum_of (ip_header sv (of_nat L) i df 255 1 chk' own src) = 0 \<and>
    arp_table (up s') = arp_table (up s) \<and> pbs (pm s') (Memp e) = None \<and>
    pools (pm s') MEMP_PBUF_POOL = e # pools (pm s) MEMP_PBUF_POOL"
proof -
  let ?h = "(R, 14 :: int)" and ?nif = "netifs (up s) n"
  have E: "int (length E) = 14" using F(2) by simp
  note hd = img_header [OF F(1), unfolded E]
  have sum: "inet_chksum ?h 20 (pm s) = 0" using img_chksum [OF F(1), of 14 20] F(2) v(1) by simp
  define s1 where "s1 = s\<lparr>pm := Pbuf.put (Memp e) (one fl e 14 L) (pm s)\<rparr>"
  have r: "pbuf_realloc (Memp e) (of_nat L) (pm s) = Some (pm s1)"
    using realloc_one [OF p, of L] len by (simp add: s1_def)
  define s2 where "s2 = upd_up (\<lambda>u. u\<lparr>current_header := Some ?h\<rparr>) (upd_up (\<lambda>u. u\<lparr>current_netif := Some n\<rparr>) s1)"
  have same: "netifs (up s2) = netifs (up s)" "arp_table (up s2) = arp_table (up s)" "arp_inv (up s2) = arp_inv (up s)"
      "descs s2 = descs s" "DMATxDescToSet s2 = DMATxDescToSet s" "pm s2 = pm s1" "pools (pm s1) = pools (pm s)"
      "dat (pm s1) = dat (pm s)" "up s1 = up s"
    by (simp_all add: s2_def upd_up_def arp_inv_def s1_def)
  have i2: "img R (E @ ip_header sv (of_nat L) i df life 1 chk src own @ icmp_message 8 c k rest) (pm s2)"
    using img_prefix [of R "E @ ip_header sv (of_nat L) i df life 1 chk src own @ icmp_message 8 c k rest" pad "pm s"] F(1)
    unfolding same(6) by (simp add: img_dat [OF same(8)])
  note hd2 = img_header [OF i2, unfolded E same(6)]
  obtain s3 chk' j where s3: "icmp_input env C (Memp e) n s2 = Some s3"
      "handed_over s2 (eth_frame dmac (hwaddr ?nif)
        (ip_header sv (of_nat L) i df 255 1 chk' own src @ icmp_message 0 c (echo_chksum k) rest)) s3"
      "checksum_of (ip_header sv (of_nat L) i df 255 1 chk' own src) = 0"
      "up s3 = (up s2)\<lparr>etharp_cached_entry := j\<rparr>" "pbs (pm s3) (Memp e) = None"
      "pools (pm s3) MEMP_PBUF_POOL = e # pools (pm s2) MEMP_PBUF_POOL"
    using icmp_input_echo [of s2 e fl rest E sv "of_nat L" i df life chk src own c k n dmac env C] i2 F(2) v(2) nz len mt nif inv rs u net m tx
    unfolding same tx_free_def R_def L_def by (auto simp: s1_def L_def)
  have d: "deliver env C (Memp e) ?h n s1 =
      Some (upd_up (\<lambda>u. u\<lparr>current_header := None\<rparr>) (upd_up (\<lambda>u. u\<lparr>current_netif := None\<rparr>) s3))"
    using raw s3(1) hd2(5) by (simp add: deliver_def Let_def same(6) flip: s2_def)
  define s4 where "s4 = upd_up (\<lambda>u. u\<lparr>current_header := None\<rparr>) (upd_up (\<lambda>u. u\<lparr>current_netif := None\<rparr>) s3)"
  have t: "takes own s n" using nif(2,3) u(2) by (simp add: takes_def ip_addr_isany_def unicast_def)
  have "takes own s1 n" using t by (simp add: takes_def netif_is_up_def same(9))
  have no: "\<not> (20 :: u16) > of_nat (L + length pad)" "\<not> (of_nat L :: u16) > of_nat (L + length pad)"
    using len by (simp_all add: word_less_nat_alt unat_small L_def del: of_nat_add)
  have s1: "s\<lparr>pm := pm s1\<rparr> = s1" by (simp add: s1_def)
  have off: "IPH_OFFSET ?h (pm s1) AND htons (IP_OFFMASK OR IP_MF) = 0"
    unfolding hd2(4) fragment_bits df by simp
  then have off: "IPH_OFFSET ?h (pm s1) AND htons 16383 = 0" by simp
  have bad: "\<not> ip_addr_isbroadcast src ?nif" "\<not> ip_addr_ismulticast src" using u(1) by (simp_all add: unicast_def)
  have "ip_input env C (Memp e) n s = deliver env C (Memp e) ?h n s1"
    unfolding ip_input_def p Option.bind.bind_lunit one_simps R_def [symmetric] Let_def of_nat_numeral hd(1-3) r s1
    using no sum bad by (simp add: hd2(6,7) same(9) \<open>takes own s1 n\<close> off del: of_nat_add)
  then have "ip_input env C (Memp e) n s = Some s4" unfolding d s4_def .
  moreover have "handed_over s (eth_frame dmac (hwaddr ?nif)
        (ip_header sv (of_nat L) i df 255 1 chk' own src @ icmp_message 0 c (echo_chksum k) rest)) s4"
    using s3(2) by (simp add: handed_over_def same(4,5) s4_def upd_up_def)
  moreover have "arp_table (up s4) = arp_table (up s)" "pm s4 = pm s3" using s3(4) same(2) by (simp_all add: s4_def upd_up_def)
  ultimately show ?thesis using s3(3,5,6) same(6,7) by (intro exI [of _ s4] exI [of _ chk']) simp
qed

text \<open>
  The condition on the bytes is needed: a valid request of zeros only, with the checksum \<open>0xFFF7\<close>, gets an answer whose
  checksum is 0 where it has to be \<open>0xFFFF\<close>.
\<close>

lemma echo_zeros_invalid:
  "checksum_of (icmp_message 8 0 0xFFF7 (replicate n 0)) = 0 \<and>
   checksum_of (icmp_message 0 0 (echo_chksum 0xFFF7) (replicate n 0)) \<noteq> 0"
proof -
  have z: "wsum (replicate n 0) = 0" by (simp add: wsum_zero)
  have e: "echo_chksum 0xFFF7 = 0" by (simp add: echo_chksum_def)
  show ?thesis unfolding checksum_zero_mod icmp_message_def wsum_echo e z by (simp add: swap_def)
qed

section \<open>The theorem\<close>

text \<open>
  C9: an echo request is answered. A frame with a well-formed request for the board's own address, in one
  receive buffer and padded or not, makes \<^verbatim>\<open>ethernet_input\<close> hand one frame to the DMA
  engine: to the Ethernet and IP address the request came from, with the same identification, payload and service,
  type 0 and two valid checksums. The sender's address pair is in the address table afterwards, and the buffer is
  back in its pool. What is needed: the request is at least 4 bytes behind its checksum field, these and the code
  are not all zero (for that request the code of \<^verbatim>\<open>icmp.c\<close> computes a wrong checksum, \<open>echo_zeros_invalid\<close>), it has
  no IP options and is no fragment, and the frame has at most 1500 bytes; the interface is up, has a unicast address
  and an MTU that lets the reply pass; the sender's address is unicast and on its network; the address table satisfies
  its invariant, has an entry for the sender or a free one, and no packet waits in it for the sender; the current
  transmit descriptor is free; no raw block takes the packet.
\<close>

theorem echo_request_answered:
  fixes e :: nat and s :: "('a ipstate_scheme) nic" and C :: "(('a ipstate_scheme) nic) ip_calls" and rest :: "u8 list" and n :: nat
  defines "nif \<equiv> netifs (up s) n" and "L \<equiv> 24 + length rest"
  defines "own \<equiv> nif_addr nif"
  assumes frame: "pbs (pm s) (Memp e) = Some (one fl e 0 (14 + L + length pad))"
      "read_at (Own (Memp e), 0) (14 + L + length pad) (dat (pm s)) =
         eth_frame dmac smac (ip_header sv (of_nat L) i df life 1 chk src own @ icmp_message 8 c k rest @ pad)"
      "length dmac = 6" "length smac = 6" "4 \<le> length rest" "L + length pad \<le> 1486"
    and valid: "checksum_of (ip_header sv (of_nat L) i df life 1 chk src own) = 0" "checksum_of (icmp_message 8 c k rest) = 0"
      "\<exists>x \<in> set (c # rest). x \<noteq> 0" "df AND 0x3f = 0"
    and interface: "ether_netif nif" "netif_is_up n s" "mtu_lets nif L" "unicast own nif" "tx_free s (Memp e)"
    and sender: "unicast src nif" "ip_addr_netcmp src own (nif_mask nif)" "arp_inv (up s)" "arp_ready (arp_table (up s)) src"
    and raw: "\<And>t. raw_input C (Memp e) n t = Some (0, t)"
  shows "\<exists>s' chk' k'. ethernet_input env C (Some (Memp e)) n s = Some (ERR_OK, s') \<and>
    handed_over s (eth_frame smac (hwaddr nif) (ip_header sv (of_nat L) i df 255 1 chk' own src @ icmp_message 0 c k' rest)) s' \<and>
    checksum_of (ip_header sv (of_nat L) i df 255 1 chk' own src) = 0 \<and> checksum_of (icmp_message 0 c k' rest) = 0 \<and>
    resolved (arp_table (up s')) src smac \<and>
    pbs (pm s') (Memp e) = None \<and> pools (pm s') MEMP_PBUF_POOL = e # pools (pm s) MEMP_PBUF_POOL"
proof -
  let ?R = "Own (Memp e)" and ?N = "14 + L + length pad"
  define E where "E = dmac @ smac @ [8, 0]"
  have lE: "length E = 14" by (simp add: E_def frame)
  let ?H = "ip_header sv (of_nat L) i df life 1 chk src own" and ?M = "icmp_message 8 c k rest"
  have F: "img ?R (E @ ?H @ ?M @ pad) (pm s)"
    using frame(2) by (simp add: img_def lE eth_frame_def E_def L_def frame(3,4) add.assoc)
  have ty: "htons (get16 (?R, 0) 12 (pm s)) = ETHTYPE_IP"
    using img_get8 [OF F, of 0 12] img_get8 [OF F, of 0 13]
    by (simp add: get16_def E_def frame nth_append) (simp add: word16_of_def)
  have sa: "get32 (?R, 0) 26 (pm s) = src"
    using img_header(6) [OF F] lE by (simp add: get32_def get8_def)
  have ma: "gets (?R, 0) 6 6 (pm s) = smac"
    using img_gets [OF F, of 0 6 6] by (simp add: E_def frame)
  obtain u' where u': "update_arp_entry env n src smac 0 s = Some (ERR_OK, s\<lparr>up := u'\<rparr>)" "arp_inv u'" "arp_only (up s) u'"
      "resolved (arp_table u') src smac"
    using update_arp_entry_learns [of s src n 0 smac env] sender(1,3,4) frame(4) by (auto simp: nif_def)
  have nu: "netifs u' = netifs (up s)" by (rule arp_only_netifs [OF u'(3)])
  have a: "etharp_ip_input env n (Memp e) s = Some (s\<lparr>up := u'\<rparr>)"
    using sender(2) u'(1) by (simp add: etharp_ip_input_def frame(1) sa ma Let_def nif_def own_def)
  define s1 where "s1 = s\<lparr>up := u', pm := Pbuf.put (Memp e) (one fl e 14 (L + length pad)) (pm s)\<rparr>"
  have d: "with_pm (pbuf_header (Some (Memp e)) (- SIZEOF_ETH_HDR)) (s\<lparr>up := u'\<rparr>) = Some (0, s1)"
    using header_down [OF frame(1), of 14] frame(6) by (simp add: with_pm_def s1_def)
  have eq: "netifs (up s1) n = nif" "netif_is_up n s1" "tx_free s1 (Memp e)" "up s1 = u'" "pools (pm s1) = pools (pm s)"
    using interface(2,5) by (simp_all add: s1_def nu nif_def netif_is_up_def tx_free_def)
  have p1: "pbs (pm s1) (Memp e) = Some (one fl e 14 (24 + length rest + length pad))" by (simp add: s1_def L_def)
  have i1: "img ?R (E @ ip_header sv (of_nat (24 + length rest)) i df life 1 chk src own @ ?M @ pad) (pm s1)"
    using F by (simp add: s1_def img_def L_def)
  obtain s' chk' where s': "ip_input env C (Memp e) n s1 = Some s'"
      "handed_over s1 (eth_frame smac (hwaddr nif) (ip_header sv (of_nat L) i df 255 1 chk' own src @ icmp_message 0 c (echo_chksum k) rest)) s'"
      "checksum_of (ip_header sv (of_nat L) i df 255 1 chk' own src) = 0" "arp_table (up s') = arp_table u'"
      "pbs (pm s') (Memp e) = None" "pools (pm s') MEMP_PBUF_POOL = e # pools (pm s) MEMP_PBUF_POOL"
    using ip_input_echo [OF p1 i1 lE valid(1) [unfolded L_def] valid(2-4) frame(5), of n smac C env] frame(4,6) interface u' sender raw eq
    unfolding L_def by (auto simp: own_def)
  have "ethernet_input env C (Some (Memp e)) n s = Some (ERR_OK, s')"
    using ty a d s'(1) by (simp add: ethernet_input_def frame(1))
  moreover have "handed_over s f x = handed_over s1 f x" for f and x :: "('a ipstate_scheme) nic"
    by (simp add: handed_over_def s1_def)
  moreover have "checksum_of (icmp_message 0 c (echo_chksum k) rest) = 0"
    using echo_checksum valid(2,3) by (simp add: icmp_message_def)
  ultimately show ?thesis using s' u'(4) by (intro exI [of _ s'] exI [of _ chk'] exI [of _ "echo_chksum k"]) simp
qed

text \<open>192.168.1.10 asks 192.168.1.78, with four bytes behind the checksum.\<close>

definition ping_frame :: "u8 list" where
  "ping_frame = eth_frame [2, 0, 0, 0, 0, 1] [2, 0, 0, 0, 0, 0x0A]
     (ip_header 0 28 0 0x40 64 1 0x38b7 (IP4_ADDR 192 168 1 10) (IP4_ADDR 192 168 1 78) @ icmp_message 8 0 0xFDF7 [0, 1, 0, 1])"

definition ping_example :: "ipstate nic" where
  "ping_example = \<lparr>descs = (\<lambda>_. \<lparr>Status = 0, ControlBufferSize = 0, Buffer1Addr = null_ptr, Buffer2NextDescAddr = DMATxDscrTab 0\<rparr>),
     DMATxDescToSet = DMATxDscrTab 0, DMARxDescToGet = DMARxDscrTab 0,
     pm = \<lparr>pbs = [Memp 0 \<mapsto> one 0 0 0 42], dat = (\<lambda>_ i. ping_frame ! nat i), pools = (\<lambda>_. []),
           heap = \<lparr>ram = (\<lambda>_. \<lparr>nxt = 0, prv = 0, used = False\<rparr>), lfree = 0\<rparr>\<rparr>,
     io = [],
     up = \<lparr>netifs = (\<lambda>_. \<lparr>hwaddr_len = 6, hwaddr = [2, 0, 0, 0, 0, 1], mtu = 1500, netif_flags = 0x33, netif_name = ''st'',
             netif_output = Some etharp_output_fn, netif_linkoutput = Some low_level_output_fn, netif_state = None,
             nif_addr = IP4_ADDR 192 168 1 78, nif_mask = IP4_ADDR 255 255 255 0,
             nif_gw = 0, netif_input = None, netif_num = 0, link_callback = None\<rparr>),
           netif_list = [0], netif_default = Some 0, netifnum = 1,
           tcp = \<lparr>pcbs = (\<lambda>_. undefined), bound_pcbs = [], listen_pcbs = [], active_pcbs = [], tw_pcbs = [], new_port = 0,
             tcp_ticks = 0, tcp_timer = 0, iss = 6510, tcp_input_pcb = None\<rparr>,
           arp_table = replicate 10 empty_entry, etharp_cached_entry = 0, ip_id = 0, current_netif = None, current_header = None\<rparr>\<rparr>"

definition no_transport :: "'s ip_calls" where
  "no_transport = \<lparr>raw_input = (\<lambda>p n s. Some (0, s)), udp_input = (\<lambda>p n s. Some s), tcp_input = (\<lambda>p n s. Some s),
     ip_reass = (\<lambda>p s. Some (None, s)), ip_frag = (\<lambda>p n d s. Some (ERR_OK, s))\<rparr>"

lemma echo_request_answered_witness:
  "\<forall>env. \<exists>s' chk' k'. ethernet_input env no_transport (Some (Memp 0)) 0 ping_example = Some (ERR_OK, s') \<and>
    handed_over ping_example (eth_frame [2, 0, 0, 0, 0, 0x0A] [2, 0, 0, 0, 0, 1]
      (ip_header 0 28 0 0x40 255 1 chk' (IP4_ADDR 192 168 1 78) (IP4_ADDR 192 168 1 10) @ icmp_message 0 0 k' [0, 1, 0, 1])) s' \<and>
    checksum_of (icmp_message 0 0 k' [0, 1, 0, 1]) = 0"
proof
  fix env :: env
  let ?src = "IP4_ADDR 192 168 1 10" and ?own = "IP4_ADDR 192 168 1 78"
  have len: "length ping_frame = 42" by (simp add: ping_frame_def eth_frame_def)
  have "read_at (Own (Memp 0), 0) 42 (dat (pm ping_example)) = ping_frame"
    by (rule nth_equalityI) (simp_all add: read_at_def ping_example_def len)
  then have fr: "read_at (Own (Memp 0), 0) 42 (dat (pm ping_example)) = eth_frame [2, 0, 0, 0, 0, 1] [2, 0, 0, 0, 0, 0x0A]
     (ip_header 0 28 0 0x40 64 1 0x38b7 ?src ?own @ icmp_message 8 0 0xFDF7 [0, 1, 0, 1])"
    by (simp only: ping_frame_def)
  have v: "checksum_of (ip_header 0 28 0 0x40 64 1 0x38b7 ?src ?own) = 0" "checksum_of (icmp_message 8 0 0xFDF7 [0, 1, 0, 1]) = 0"
    by (simp_all add: checksum_zero_mod ip_header_def icmp_message_def le16_def)
  have ip: "?src = 0x0A01A8C0" "?own = 0x4E01A8C0" "IP4_ADDR 255 255 255 0 = 0x00FFFFFF"
    by (simp_all add: IP4_ADDR_word32_of word32_of_def)
  have nif: "nif_addr (netifs (up ping_example) 0) = ?own" "hwaddr (netifs (up ping_example) 0) = [2, 0, 0, 0, 0, 1]"
    by (simp_all add: ping_example_def)
  have un: "unicast ?src (netifs (up ping_example) 0)" "unicast ?own (netifs (up ping_example) 0)"
    by (simp_all add: unicast_def ip ip_addr_isbroadcast_def ip_addr_ismulticast_def ip_addr_netcmp_def ntohl_def htonl_def ping_example_def)
  have net: "ip_addr_netcmp ?src ?own (nif_mask (netifs (up ping_example) 0))"
    by (simp add: ip ip_addr_netcmp_def ping_example_def)
  have arp: "arp_inv (up ping_example)" "arp_ready (arp_table (up ping_example)) ?src"
    using arp_cleared_inv [of "up ping_example"] by (simp_all add: arp_cleared_def arp_ready_def ping_example_def empty_entry_def)
  have st: "ether_netif (netifs (up ping_example) 0)" "netif_is_up 0 ping_example" "mtu_lets (netifs (up ping_example) 0) 28"
      "tx_free ping_example (Memp 0)" "pbs (pm ping_example) (Memp 0) = Some (one 0 0 0 42)"
    by (simp_all add: ether_netif_def netif_is_up_def mtu_lets_def tx_free_def ping_example_def null_ptr_def)
  have raw: "raw_input no_transport (Memp 0) 0 t = Some (0, t)" for t :: "ipstate nic" by (simp add: no_transport_def)
  show "\<exists>s' chk' k'. ethernet_input env no_transport (Some (Memp 0)) 0 ping_example = Some (ERR_OK, s') \<and>
    handed_over ping_example (eth_frame [2, 0, 0, 0, 0, 0x0A] [2, 0, 0, 0, 0, 1]
      (ip_header 0 28 0 0x40 255 1 chk' ?own ?src @ icmp_message 0 0 k' [0, 1, 0, 1])) s' \<and>
    checksum_of (icmp_message 0 0 k' [0, 1, 0, 1]) = 0"
    using echo_request_answered [where e = 0 and s = ping_example and C = no_transport and rest = "[0, 1, 0, 1]" and n = 0 and pad = "[]"
      and fl = 0 and dmac = "[2, 0, 0, 0, 0, 1]" and smac = "[2, 0, 0, 0, 0, 0x0A]" and sv = 0 and i = 0 and df = "0x40" and life = 64
      and chk = "0x38b7" and src = ?src and c = 0 and k = "0xFDF7" and env = env]
    by (simp add: nif fr v un net arp st raw) blast
qed

end
