(* ===== verification/ArpReply.thy ===== *)
theory ArpReply
  imports Ping
begin

text \<open>
  The answer to an ARP request, from \<^verbatim>\<open>ethernet_input\<close> to the DMA engine: the request is turned into the reply in
  its own buffer and the sender's addresses are remembered.
\<close>

text \<open>The padding that fills a short frame is sent back with it.\<close>

definition arp_packet :: "u8 \<Rightarrow> u8 list \<Rightarrow> u32 \<Rightarrow> u8 list \<Rightarrow> u32 \<Rightarrow> u8 list" where
  "arp_packet oper sha sip tha tip = [0, 1, 8, 0, 6, 4] @ [0, oper] @ sha @ le32 sip @ tha @ le32 tip"

definition arp_eth :: "u8 list \<Rightarrow> u8 list \<Rightarrow> u8 list \<Rightarrow> u8 list" where
  "arp_eth dmac smac body = dmac @ smac @ [8, 6] @ body"

lemma img_arp:
  assumes F: "img R (arp_eth dmac smac (arp_packet oper sha sip tha tip @ pad)) m"
    and l: "length dmac = 6" "length smac = 6" "length sha = 6" "length tha = 6"
  shows "get16 (R, 0) 12 m = htons ETHTYPE_ARP" "get16 (R, 0) 14 m = htons HWTYPE_ETHERNET" "get16 (R, 0) 16 m = htons ETHTYPE_IP"
    "get16 (R, 0) 18 m = htons (push_bit 8 6 OR 4)" "htons (get16 (R, 0) 20 m) = ucast oper"
    "gets (R, 0) 22 6 m = sha" "get32 (R, 0) 28 m = sip" "get32 (R, 0) 38 m = tip" "gets (R, 0) 28 4 m = le32 sip"
proof -
  let ?F = "arp_eth dmac smac (arp_packet oper sha sip tha tip @ pad)"
  have lF: "length ?F = 42 + length pad" by (simp add: arp_eth_def arp_packet_def l)
  have g: "get8 (R, 0) k m = ?F ! k" if "k < 42" for k using img_get8 [OF F, of 0 k] that lF by simp
  note e = arp_eth_def arp_packet_def nth_append l le32_def
  have h: "htons 0x0806 = word16_of 8 6" "htons 1 = word16_of 0 1" "htons 0x0800 = word16_of 8 0" "htons (push_bit 8 6 OR 4) = word16_of 6 4"
    by (simp_all add: htons_def word16_of_def)
  show "get16 (R, 0) 12 m = htons ETHTYPE_ARP" "get16 (R, 0) 14 m = htons HWTYPE_ETHERNET" "get16 (R, 0) 16 m = htons ETHTYPE_IP"
    "get16 (R, 0) 18 m = htons (push_bit 8 6 OR 4)"
    unfolding h by (simp_all add: get16_def g e)
  have "word16_of oper 0 = ucast oper" by (simp add: word16_of_def)
  then show "htons (get16 (R, 0) 20 m) = ucast oper" by (simp add: get16_def g e)
  show "get32 (R, 0) 28 m = sip" "get32 (R, 0) 38 m = tip" by (simp_all add: get32_def g e)
  show "gets (R, 0) 22 6 m = sha" "gets (R, 0) 28 4 m = le32 sip"
    using img_gets [OF F, of 0 22 6] img_gets [OF F, of 0 28 4] lF by (simp_all add: arp_eth_def arp_packet_def l)
qed

lemma img_arp_reply:
  assumes F: "img R (arp_eth dmac smac (arp_packet 1 sha sip tha tip @ pad)) m"
    and l: "length dmac = 6" "length smac = 6" "length sha = 6" "length tha = 6" "length hw = 6"
  shows "img R (arp_eth sha hw (arp_packet 2 hw tip sha sip @ pad)) (arp_reply (R, 0) tip hw m)"
proof -
  let ?h = "(R, 0 :: int)"
  have "img R ((dmac @ smac @ [8, 6] @ [0, 1, 8, 0, 6, 4]) @ [0, 1] @ (sha @ le32 sip @ tha @ le32 tip @ pad)) m"
    using F by (simp add: arp_eth_def arp_packet_def)
  then have "img R ((dmac @ smac @ [8, 6] @ [0, 1, 8, 0, 6, 4]) @ [0, 2] @ (sha @ le32 sip @ tha @ le32 tip @ pad)) (poke ?h 20 [0, 2] m)"
    by (rule img_edit0) (simp_all add: l)
  moreover have "le16 (htons ARP_REPLY) = [0, 2]" by (simp add: htons_def le16_def)
  moreover define m1 where "m1 = put16 ?h 20 (htons ARP_REPLY) m"
  ultimately have i1: "img R (arp_eth dmac smac (arp_packet 2 sha sip tha tip @ pad)) m1"
    by (simp add: put16_def arp_eth_def arp_packet_def)
  note r1 = img_arp [OF i1 l(1-4)]
  define m2 where "m2 = poke ?h 38 (le32 sip) m1"
  have "img R ((dmac @ smac @ [8, 6] @ [0, 1, 8, 0, 6, 4, 0, 2] @ sha @ le32 sip @ tha) @ le32 tip @ pad) m1"
    using i1 by (simp add: arp_eth_def arp_packet_def)
  then have "img R ((dmac @ smac @ [8, 6] @ [0, 1, 8, 0, 6, 4, 0, 2] @ sha @ le32 sip @ tha) @ le32 sip @ pad) m2"
    unfolding m2_def by (rule img_edit0) (simp_all add: l)
  then have e2: "img R ((dmac @ smac @ [8, 6] @ [0, 1, 8, 0, 6, 4, 0, 2] @ sha) @ le32 sip @ (tha @ le32 sip @ pad)) m2" by simp
  define m3 where "m3 = put32 ?h 28 tip m2"
  have "img R ((dmac @ smac @ [8, 6] @ [0, 1, 8, 0, 6, 4, 0, 2] @ sha) @ le32 tip @ (tha @ le32 sip @ pad)) m3"
    unfolding m3_def put32_def by (rule img_edit0 [OF e2]) (simp_all add: l)
  then have i3: "img R (arp_eth dmac smac (arp_packet 2 sha tip tha sip @ pad)) m3"
    by (simp add: arp_eth_def arp_packet_def)
  note r3 = img_arp [OF i3 l(1-4)]
  define m4 where "m4 = poke ?h 32 sha m3"
  have "img R ((dmac @ smac @ [8, 6] @ [0, 1, 8, 0, 6, 4, 0, 2] @ sha @ le32 tip) @ tha @ (le32 sip @ pad)) m3"
    using i3 by (simp add: arp_eth_def arp_packet_def)
  then have "img R ((dmac @ smac @ [8, 6] @ [0, 1, 8, 0, 6, 4, 0, 2] @ sha @ le32 tip) @ sha @ (le32 sip @ pad)) m4"
    unfolding m4_def by (rule img_edit0) (simp_all add: l)
  then have e4: "img R ([] @ dmac @ (smac @ [8, 6] @ [0, 1, 8, 0, 6, 4, 0, 2] @ sha @ le32 tip @ sha @ le32 sip @ pad)) m4" by simp
  define m5 where "m5 = poke ?h 0 sha m4"
  have "img R ([] @ sha @ (smac @ [8, 6] @ [0, 1, 8, 0, 6, 4, 0, 2] @ sha @ le32 tip @ sha @ le32 sip @ pad)) m5"
    unfolding m5_def by (rule img_edit0 [OF e4]) (simp_all add: l)
  then have e5: "img R ((sha @ smac @ [8, 6] @ [0, 1, 8, 0, 6, 4, 0, 2]) @ sha @ (le32 tip @ sha @ le32 sip @ pad)) m5" by simp
  define m6 where "m6 = poke ?h 22 hw m5"
  have "img R ((sha @ smac @ [8, 6] @ [0, 1, 8, 0, 6, 4, 0, 2]) @ hw @ (le32 tip @ sha @ le32 sip @ pad)) m6"
    unfolding m6_def by (rule img_edit0 [OF e5]) (simp_all add: l)
  then have "img R (sha @ smac @ ([8, 6] @ [0, 1, 8, 0, 6, 4, 0, 2] @ hw @ le32 tip @ sha @ le32 sip @ pad)) m6" by simp
  then have "img R (sha @ hw @ ([8, 6] @ [0, 1, 8, 0, 6, 4, 0, 2] @ hw @ le32 tip @ sha @ le32 sip @ pad)) (poke ?h 6 hw m6)"
    by (rule img_edit0) (simp_all add: l)
  moreover have "arp_reply ?h tip hw m = poke ?h 6 hw m6"
    unfolding arp_reply_def Let_def m1_def [symmetric] r1(9) m2_def [symmetric] m3_def [symmetric] r3(6) m4_def [symmetric]
      m5_def [symmetric] by (simp add: l m6_def)
  ultimately show ?thesis by (simp add: arp_eth_def arp_packet_def)
qed

text \<open>
  C10: an ARP request for the board's address is answered. The frame handed to the DMA engine goes to the address the
  request names as its sender's, gives the board's Ethernet address for the IP address asked for, and repeats the
  sender's two addresses as the target; the sender's pair is in the address table afterwards, and the buffer is back in
  its pool. What is needed: the request is in one receive buffer and at most 1500 bytes long; the sender's IP address
  is unicast (a probe, with sender 0, is not covered: it is answered but not learnt); the address table satisfies its
  invariant, has an entry for the sender or a free one, and no packet waits in it for the sender; the interface has
  both addresses; the current transmit descriptor is free (otherwise see \<open>low_level_output_result\<close>).
\<close>

theorem arp_request_answered:
  fixes e :: nat and s :: "('a ipstate_scheme) nic" and C :: "(('a ipstate_scheme) nic) ip_calls" and n :: nat
  defines "nif \<equiv> netifs (up s) n"
  defines "own \<equiv> nif_addr nif"
  assumes frame: "pbs (pm s) (Memp e) = Some (one fl e 0 (42 + length pad))"
      "read_at (Own (Memp e), 0) (42 + length pad) (dat (pm s)) = arp_eth dmac smac (arp_packet 1 sha sip tha own @ pad)"
      "length dmac = 6" "length smac = 6" "length sha = 6" "length tha = 6" "length pad \<le> 1458"
    and interface: "ether_netif nif" "own \<noteq> 0" "tx_free s (Memp e)"
    and sender: "unicast sip nif" "arp_inv (up s)" "arp_ready (arp_table (up s)) sip"
  shows "\<exists>s'. ethernet_input env C (Some (Memp e)) n s = Some (ERR_OK, s') \<and>
    handed_over s (arp_eth sha (hwaddr nif) (arp_packet 2 (hwaddr nif) own sha sip @ pad)) s' \<and>
    resolved (arp_table (up s')) sip sha \<and>
    pbs (pm s') (Memp e) = None \<and> pools (pm s') MEMP_PBUF_POOL = e # pools (pm s) MEMP_PBUF_POOL"
proof -
  let ?R = "Own (Memp e)" and ?hw = "hwaddr nif"
  have hw: "length ?hw = 6" using interface(1) by (simp add: ether_netif_def)
  have F: "img ?R (arp_eth dmac smac (arp_packet 1 sha sip tha own @ pad)) (pm s)"
    using frame(2) by (simp add: img_def arp_eth_def arp_packet_def frame(3-6))
  note rd = img_arp [OF F frame(3-6)]
  obtain u' where u': "update_arp_entry env n sip sha ETHARP_TRY_HARD s = Some (ERR_OK, s\<lparr>up := u'\<rparr>)" "arp_only (up s) u'"
      "resolved (arp_table u') sip sha"
    using update_arp_entry_learns [of s sip n ETHARP_TRY_HARD sha env] sender frame(5) by (auto simp: nif_def)
  have nu: "netifs u' n = nif" using arp_only_netifs [OF u'(2)] by (simp add: nif_def)
  define s1 where "s1 = on_pm (arp_reply (?R, 0) own ?hw) (s\<lparr>up := u'\<rparr>)"
  let ?F = "arp_eth sha ?hw (arp_packet 2 ?hw own sha sip @ pad)"
  have i1: "img ?R ?F (pm s1)" using img_arp_reply [OF F frame(3-6) hw] by (simp add: s1_def on_pm_def)
  have same: "pbs (pm s1) = pbs (pm s)" "pools (pm s1) = pools (pm s)" "up s1 = u'" "descs s1 = descs s" "DMATxDescToSet s1 = DMATxDescToSet s"
    by (simp_all add: s1_def on_pm_def arp_reply_def Let_def put16_def put32_def poke_def)
  have lF: "length ?F = 42 + length pad" by (simp add: arp_eth_def arp_packet_def frame hw)
  have p1: "pbs (pm s1) (Memp e) = Some (one fl e 0 (length ?F))" using frame(1) by (simp only: same lF)
  have "length ?F \<le> 1520" using frame(7) lF by simp
  moreover have "tx_free s1 (Memp e)" using interface(3) by (simp add: tx_free_def same)
  ultimately obtain s2 where s2: "low_level_output env (Some (Memp e)) s1 = Some (ERR_OK, s2)" "handed_over s1 ?F s2"
      "up s2 = up s1" "pbs (pm s2) = pbs (pm s1)" "pools (pm s2) = pools (pm s1)"
    using send_one [OF p1 i1] by blast
  have "pbs (pm s2) (Memp e) = Some (one fl e 0 (42 + length pad))" using s2(4) frame(1) same(1) by simp
  then obtain m' where m': "pbuf_free (Some (Memp e)) (pm s2) = Some (1, m')" "pbs m' (Memp e) = None" "dat m' = dat (pm s2)"
      "pools m' MEMP_PBUF_POOL = e # pools (pm s2) MEMP_PBUF_POOL"
    using free_one by blast
  have "\<not> (of_nat (42 + length pad) :: u16) < SIZEOF_ETHARP_HDR"
    using frame(7) by (simp add: word_less_nat_alt unat_small del: of_nat_add)
  moreover have "linkoutput env n (Some (Memp e)) s1 = Some (ERR_OK, s2)"
    using interface(1) s2(1) by (simp add: linkoutput_def same(3) nu ether_netif_def)
  ultimately have "etharp_arp_input env n ?hw (Memp e) s = Some (s2\<lparr>pm := m'\<rparr>)"
    using interface(2) u'(1) m'(1)
    by (simp add: etharp_arp_input_def frame(1) rd nu own_def [symmetric] nif_def [symmetric] s1_def [symmetric] with_pm_def del: of_nat_add)
  moreover have "htons (htons ETHTYPE_ARP) = ETHTYPE_ARP" by (simp add: htons_def)
  ultimately have "ethernet_input env C (Some (Memp e)) n s = Some (ERR_OK, s2\<lparr>pm := m'\<rparr>)"
    by (simp add: ethernet_input_def frame(1) rd(1) flip: nif_def)
  moreover have "handed_over s ?F (s2\<lparr>pm := m'\<rparr>)" using s2(2) m'(3) by (simp add: handed_over_def same(4,5))
  ultimately show ?thesis using m' s2(3,5) same(2,3) u'(3) by (intro exI [of _ "s2\<lparr>pm := m'\<rparr>"]) simp
qed

text \<open>192.168.1.10 asks for the Ethernet address of 192.168.1.78.\<close>

definition who_has :: "u8 list" where
  "who_has = arp_eth ethbroadcast [2, 0, 0, 0, 0, 0x0A]
     (arp_packet 1 [2, 0, 0, 0, 0, 0x0A] (IP4_ADDR 192 168 1 10) ethzero (IP4_ADDR 192 168 1 78) @ replicate 18 0)"

definition arp_request_example :: "ipstate nic" where
  "arp_request_example = ping_example\<lparr>pm := (pm ping_example)\<lparr>pbs := [Memp 0 \<mapsto> one 0 0 0 60], dat := (\<lambda>_ i. who_has ! nat i)\<rparr>\<rparr>"

lemma arp_request_answered_witness:
  "\<forall>env. \<exists>s'. ethernet_input env no_transport (Some (Memp 0)) 0 arp_request_example = Some (ERR_OK, s') \<and>
    handed_over arp_request_example (arp_eth [2, 0, 0, 0, 0, 0x0A] [2, 0, 0, 0, 0, 1]
      (arp_packet 2 [2, 0, 0, 0, 0, 1] (IP4_ADDR 192 168 1 78) [2, 0, 0, 0, 0, 0x0A] (IP4_ADDR 192 168 1 10) @ replicate 18 0)) s' \<and>
    resolved (arp_table (up s')) (IP4_ADDR 192 168 1 10) [2, 0, 0, 0, 0, 0x0A]"
proof
  fix env :: env
  let ?src = "IP4_ADDR 192 168 1 10" and ?own = "IP4_ADDR 192 168 1 78"
  have len: "length who_has = 60" by (simp add: who_has_def arp_eth_def arp_packet_def ethbroadcast_def ethzero_def)
  have "read_at (Own (Memp 0), 0) 60 (dat (pm arp_request_example)) = who_has"
    by (rule nth_equalityI) (simp_all add: read_at_def arp_request_example_def len)
  then have fr: "read_at (Own (Memp 0), 0) 60 (dat (pm arp_request_example)) = arp_eth ethbroadcast [2, 0, 0, 0, 0, 0x0A]
     (arp_packet 1 [2, 0, 0, 0, 0, 0x0A] ?src ethzero ?own @ replicate 18 0)"
    by (simp only: who_has_def)
  have ip: "?src = 0x0A01A8C0" "?own = 0x4E01A8C0" "IP4_ADDR 255 255 255 0 = 0x00FFFFFF"
    by (simp_all add: IP4_ADDR_word32_of word32_of_def)
  have up: "up arp_request_example = up ping_example" by (simp add: arp_request_example_def)
  have nif: "nif_addr (netifs (up ping_example) 0) = ?own" "hwaddr (netifs (up ping_example) 0) = [2, 0, 0, 0, 0, 1]" "?own \<noteq> 0"
    by (simp_all add: ping_example_def ip)
  have un: "unicast ?src (netifs (up ping_example) 0)"
    by (simp add: unicast_def ip ip_addr_isbroadcast_def ip_addr_ismulticast_def ip_addr_netcmp_def ntohl_def htonl_def ping_example_def)
  have arp: "arp_inv (up ping_example)" "arp_ready (arp_table (up ping_example)) ?src"
    using arp_cleared_inv [of "up ping_example"] by (simp_all add: arp_cleared_def arp_ready_def ping_example_def empty_entry_def)
  have st: "ether_netif (netifs (up ping_example) 0)" "tx_free arp_request_example (Memp 0)"
      "pbs (pm arp_request_example) (Memp 0) = Some (one 0 0 0 60)"
    by (simp_all add: ether_netif_def tx_free_def arp_request_example_def ping_example_def null_ptr_def)
  have l: "length ethbroadcast = 6" "length ethzero = 6" by (simp_all add: ethbroadcast_def ethzero_def)
  show "\<exists>s'. ethernet_input env no_transport (Some (Memp 0)) 0 arp_request_example = Some (ERR_OK, s') \<and>
    handed_over arp_request_example (arp_eth [2, 0, 0, 0, 0, 0x0A] [2, 0, 0, 0, 0, 1]
      (arp_packet 2 [2, 0, 0, 0, 0, 1] ?own [2, 0, 0, 0, 0, 0x0A] ?src @ replicate 18 0)) s' \<and>
    resolved (arp_table (up s')) ?src [2, 0, 0, 0, 0, 0x0A]"
    using arp_request_answered [where e = 0 and s = arp_request_example and C = no_transport and n = 0 and pad = "replicate 18 0"
      and fl = 0 and dmac = ethbroadcast and smac = "[2, 0, 0, 0, 0, 0x0A]" and sha = "[2, 0, 0, 0, 0, 0x0A]" and sip = ?src
      and tha = ethzero and env = env]
    by (simp add: nif fr un arp st up l) blast
qed

end
