(* ===== verification/TcpOut.thy ===== *)
theory TcpOut
  imports Ip "HOL-Library.Monad_Syntax"
begin

text \<open>
  Sending in TCP, \<^verbatim>\<open>tcp_out.c\<close>: putting data and control flags on the queue of a connection, and sending segments,
  acknowledgements, resets and probes. The state is that of the whole stack; a control block is named by its pool
  element. Time stamps are switched off in the build. The checksum is computed over the chain and the pseudo header.
\<close>

definition cb :: "nat \<Rightarrow> ('a netstate_scheme) nic \<Rightarrow> tcp_pcb" where
  "cb t s = pcbs (tcp (up s)) t"

definition upd_tcp :: "(tcps \<Rightarrow> tcps) \<Rightarrow> ('a netstate_scheme) nic \<Rightarrow> ('a netstate_scheme) nic" where
  "upd_tcp f = upd_up (\<lambda>u. u\<lparr>tcp := f (tcp u)\<rparr>)"

definition upd_cb :: "nat \<Rightarrow> (tcp_pcb \<Rightarrow> tcp_pcb) \<Rightarrow> ('a netstate_scheme) nic \<Rightarrow> ('a netstate_scheme) nic" where
  "upd_cb t f = upd_tcp (upd_pcb t f)"

abbreviation (input) TCP_FIN :: u8 where "TCP_FIN \<equiv> 0x01"
abbreviation (input) TCP_SYN :: u8 where "TCP_SYN \<equiv> 0x02"
abbreviation (input) TCP_RST :: u8 where "TCP_RST \<equiv> 0x04"
abbreviation (input) TCP_PSH :: u8 where "TCP_PSH \<equiv> 0x08"
abbreviation (input) TCP_ACK :: u8 where "TCP_ACK \<equiv> 0x10"
abbreviation (input) TCP_HLEN :: u16 where "TCP_HLEN \<equiv> 20"
abbreviation (input) TF_ACK_DELAY :: u8 where "TF_ACK_DELAY \<equiv> 0x01"
abbreviation (input) TF_INFR :: u8 where "TF_INFR \<equiv> 0x04"
abbreviation (input) TF_FIN :: u8 where "TF_FIN \<equiv> 0x20"
abbreviation (input) TF_NODELAY :: u8 where "TF_NODELAY \<equiv> 0x40"
abbreviation (input) TF_NAGLEMEMERR :: u8 where "TF_NAGLEMEMERR \<equiv> 0x80"
abbreviation (input) TF_SEG_OPTS_MSS :: u8 where "TF_SEG_OPTS_MSS \<equiv> 0x01"
abbreviation (input) TF_SEG_OPTS_TS :: u8 where "TF_SEG_OPTS_TS \<equiv> 0x02"
abbreviation (input) TCP_WRITE_FLAG_COPY :: u8 where "TCP_WRITE_FLAG_COPY \<equiv> 0x01"
abbreviation (input) TCP_WRITE_FLAG_MORE :: u8 where "TCP_WRITE_FLAG_MORE \<equiv> 0x02"
abbreviation (input) TCP_MSS :: u16 where "TCP_MSS \<equiv> 1460"
abbreviation (input) TCP_SND_BUF :: u16 where "TCP_SND_BUF \<equiv> 2920"
abbreviation (input) TCP_SND_QUEUELEN :: u16 where "TCP_SND_QUEUELEN \<equiv> 12"
abbreviation (input) TCP_SNDQUEUELEN_OVERFLOW :: u16 where "TCP_SNDQUEUELEN_OVERFLOW \<equiv> 0xfffc"
abbreviation (input) TCP_TTL :: u8 where "TCP_TTL \<equiv> 255"

section \<open>Headers and segments\<close>

definition TCPH_HDRLEN :: "ptr \<Rightarrow> pmem \<Rightarrow> u16" where "TCPH_HDRLEN hdr m = drop_bit 12 (ntohs (get16 hdr 12 m))"
definition TCPH_FLAGS :: "ptr \<Rightarrow> pmem \<Rightarrow> u8" where "TCPH_FLAGS hdr m = ucast (ntohs (get16 hdr 12 m) AND 0x3f)"
definition TCPH_HDRLEN_SET :: "ptr \<Rightarrow> u16 \<Rightarrow> pmem \<Rightarrow> pmem" where
  "TCPH_HDRLEN_SET hdr len m = put16 hdr 12 (htons (push_bit 12 len OR ucast (TCPH_FLAGS hdr m))) m"
definition TCPH_FLAGS_SET :: "ptr \<Rightarrow> u8 \<Rightarrow> pmem \<Rightarrow> pmem" where
  "TCPH_FLAGS_SET hdr fl m = put16 hdr 12 (htons ((ntohs (get16 hdr 12 m) AND NOT 0x3f) OR ucast fl)) m"
definition TCPH_SET_FLAG :: "ptr \<Rightarrow> u8 \<Rightarrow> pmem \<Rightarrow> pmem" where
  "TCPH_SET_FLAG hdr fl m = put16 hdr 12 (htons (ntohs (get16 hdr 12 m) OR ucast fl)) m"

text \<open>The sequence number in the header of a segment, and the sequence space it takes.\<close>

definition seg_seqno :: "tcp_seg \<Rightarrow> pmem \<Rightarrow> u32" where
  "seg_seqno g m = ntohl (get32 (seg_hdr g) 4 m)"

definition TCP_TCPLEN :: "tcp_seg \<Rightarrow> pmem \<Rightarrow> u32" where
  "TCP_TCPLEN g m = ucast (seg_len g) + (if TCPH_FLAGS (seg_hdr g) m AND TCP_FIN \<noteq> 0 \<or> TCPH_FLAGS (seg_hdr g) m AND TCP_SYN \<noteq> 0 then 1 else 0)"

definition TCP_SEQ_LT :: "u32 \<Rightarrow> u32 \<Rightarrow> bool" where
  "TCP_SEQ_LT a b \<longleftrightarrow> sint (a - b) < 0"

definition TCP_SEQ_LEQ :: "u32 \<Rightarrow> u32 \<Rightarrow> bool" where
  "TCP_SEQ_LEQ a b \<longleftrightarrow> sint (a - b) \<le> 0"

definition TCP_SEQ_BETWEEN :: "u32 \<Rightarrow> u32 \<Rightarrow> u32 \<Rightarrow> bool" where
  "TCP_SEQ_BETWEEN a b c \<longleftrightarrow> TCP_SEQ_GEQ a b \<and> TCP_SEQ_LEQ a c"

definition LWIP_TCP_OPT_LENGTH :: "u8 \<Rightarrow> u8" where
  "LWIP_TCP_OPT_LENGTH fl = (if fl AND TF_SEG_OPTS_MSS \<noteq> 0 then 4 else 0) + (if fl AND TF_SEG_OPTS_TS \<noteq> 0 then 12 else 0)"

definition tcp_seg_free :: "tcp_seg \<Rightarrow> pmem \<Rightarrow> (u8 \<times> pmem) option" where
  "tcp_seg_free g m =
     do {
       (count, m) \<leftarrow> (if seg_p g \<noteq> None then pbuf_free (seg_p g) m else Some (0, m));
       Some (count, memp_free_on MEMP_TCP_SEG (seg_no g) m)
     }"

primrec tcp_segs_free :: "tcp_seg list \<Rightarrow> pmem \<Rightarrow> (u8 \<times> pmem) option" where
  "tcp_segs_free [] m = Some (0, m)"
| "tcp_segs_free (g # gs) m =
     do { (c, m) \<leftarrow> tcp_seg_free g m; (count, m) \<leftarrow> tcp_segs_free gs m; Some (c + count, m) }"

definition tcp_output_set_header ::
  "nat \<Rightarrow> addr \<Rightarrow> u16 \<Rightarrow> u32 \<Rightarrow> ('a netstate_scheme) nic \<Rightarrow> (ptr \<times> ('a netstate_scheme) nic) option" where
  "tcp_output_set_header t p optlen seqno_be s =
     do {
       b \<leftarrow> pbs (pm s) p;
       let tcphdr = payload b;
       let s = on_pm (put16 tcphdr 0 (htons (local_port (cb t s)))) s;
       let s = on_pm (put16 tcphdr 2 (htons (remote_port (cb t s)))) s;
       let s = on_pm (put32 tcphdr 4 seqno_be) s;
       let s = on_pm (put32 tcphdr 8 (htonl (rcv_nxt (cb t s)))) s;
       let s = on_pm (TCPH_FLAGS_SET tcphdr TCP_ACK) s;
       let s = on_pm (put16 tcphdr 14 (htons (rcv_ann_wnd (cb t s)))) s;
       let s = on_pm (put16 tcphdr 18 0) s;
       let s = on_pm (TCPH_HDRLEN_SET tcphdr (5 + optlen div 4)) s;
       let s = on_pm (put16 tcphdr 16 0) s;
       Some (tcphdr, upd_cb t (\<lambda>b. b\<lparr>rcv_ann_right_edge := rcv_nxt b + ucast (rcv_ann_wnd b)\<rparr>) s)
     }"

section \<open>Putting data on the queue\<close>

text \<open>
  One round of the loop of \<^verbatim>\<open>tcp_enqueue\<close>: the new segment, if there is an element for it, the length of the queue in
  buffers, and whether to go on; if not, the code jumps to \<^verbatim>\<open>memerr\<close>.
\<close>

definition new_segment ::
  "nat \<Rightarrow> ptr option \<Rightarrow> u16 \<Rightarrow> u16 \<Rightarrow> u32 \<Rightarrow> u8 \<Rightarrow> u8 \<Rightarrow> u8 \<Rightarrow> u16 \<Rightarrow> ('a netstate_scheme) nic \<Rightarrow>
   ((bool \<times> tcp_seg option \<times> u16) \<times> ('a netstate_scheme) nic) option" where
  "new_segment t data left seglen sq flags apiflags optflags queuelen s =
     (let optlen = LWIP_TCP_OPT_LENGTH optflags in
      case memp_malloc MEMP_TCP_SEG (pools (pm s)) of
        (None, tab) \<Rightarrow> Some ((False, None, queuelen), on_pm (\<lambda>m. m\<lparr>pools := tab\<rparr>) s)
      | (Some e, tab) \<Rightarrow>
          let s = on_pm (\<lambda>m. m\<lparr>pools := tab\<rparr>) s;
              g = \<lparr>seg_no = e, seg_p = None, dataptr = None, seg_len = 0, seg_flags = 0, seg_hdr = null_ptr\<rparr>
          in do {
            ((ok, g, queuelen), s) \<leftarrow>
              (if apiflags AND TCP_WRITE_FLAG_COPY \<noteq> 0 then
                 do {
                   (q, s) \<leftarrow> with_pm (pbuf_alloc PBUF_TRANSPORT (seglen + ucast optlen) PBUF_RAM) s;
                   case q of None \<Rightarrow> Some ((False, g, queuelen), s)
                   | Some p \<Rightarrow> do {
                       n \<leftarrow> pbuf_clen q (pm s);
                       b \<leftarrow> pbs (pm s) p;
                       let s = (case data of None \<Rightarrow> s | Some d \<Rightarrow> on_pm (MEMCPY (padd (payload b) (ucast optlen)) d seglen) s);
                       Some ((True, g\<lparr>seg_p := q, dataptr := Some (payload b)\<rparr>, queuelen + ucast n), s)
                     }
                 }
               else
                 do {
                   (q, s) \<leftarrow> with_pm (pbuf_alloc PBUF_TRANSPORT (ucast optlen) PBUF_RAM) s;
                   case q of None \<Rightarrow> Some ((False, g, queuelen), s)
                   | Some hp \<Rightarrow> do {
                       n \<leftarrow> pbuf_clen q (pm s);
                       let queuelen = queuelen + ucast n;
                       if left > 0 then do {
                         (p, s) \<leftarrow> with_pm (pbuf_alloc PBUF_RAW seglen PBUF_ROM) s;
                         case p of
                           None \<Rightarrow> do { (_, s) \<leftarrow> with_pm (pbuf_free q) s; Some ((False, g, queuelen), s) }
                         | Some dp \<Rightarrow> do {
                             b \<leftarrow> pbs (pm s) dp;
                             d \<leftarrow> data;
                             let s = on_pm (Pbuf.put dp (b\<lparr>payload := d\<rparr>)) s;
                             m \<leftarrow> pbuf_cat q p (pm s);
                             Some ((True, g\<lparr>seg_p := q, dataptr := Some d\<rparr>, queuelen + 1), s\<lparr>pm := m\<rparr>)
                           }
                       }
                       else Some ((True, g\<lparr>seg_p := q\<rparr>, queuelen), s)
                     }
                 });
            if \<not> ok \<or> queuelen > TCP_SND_QUEUELEN \<or> queuelen > TCP_SNDQUEUELEN_OVERFLOW then Some ((False, Some g, queuelen), s)
            else do {
              let g = g\<lparr>seg_len := seglen\<rparr>;
              (r, s) \<leftarrow> with_pm (pbuf_header (seg_p g) TCP_HLEN) s;
              if r \<noteq> 0 then Some ((False, Some g, queuelen), s)
              else do {
                p \<leftarrow> seg_p g;
                b \<leftarrow> pbs (pm s) p;
                let hdr = payload b;
                let s = on_pm (put16 hdr 0 (htons (local_port (cb t s)))) s;
                let s = on_pm (put16 hdr 2 (htons (remote_port (cb t s)))) s;
                let s = on_pm (put32 hdr 4 (htonl sq)) s;
                let s = on_pm (put16 hdr 18 0) s;
                let s = on_pm (TCPH_FLAGS_SET hdr flags) s;
                let s = on_pm (TCPH_HDRLEN_SET hdr (5 + ucast optlen div 4)) s;
                Some ((True, Some (g\<lparr>seg_hdr := hdr, seg_flags := optflags\<rparr>), queuelen), s)
              }
            }
          })"

text \<open>The loop; \<open>Inl\<close> is the queue built when it jumps to \<^verbatim>\<open>memerr\<close>.\<close>

partial_function (option) enqueue_loop ::
  "nat \<Rightarrow> ptr option \<Rightarrow> u16 \<Rightarrow> u16 \<Rightarrow> u32 \<Rightarrow> u8 \<Rightarrow> u8 \<Rightarrow> u8 \<Rightarrow> u16 \<Rightarrow> tcp_seg list \<Rightarrow> ('a netstate_scheme) nic \<Rightarrow>
   ((tcp_seg list + tcp_seg list \<times> u16 \<times> u16) \<times> ('a netstate_scheme) nic) option" where
  "enqueue_loop t data left seglen sq flags apiflags optflags queuelen queue s =
     (if queue = [] \<or> left > 0 then
        do {
          let room = uint (mss (cb t s)) - uint (LWIP_TCP_OPT_LENGTH optflags);
          let seglen = (if uint left > room then of_int room else left);
          ((ok, g, queuelen), s) \<leftarrow> new_segment t data left seglen sq flags apiflags optflags queuelen s;
          let queue = (case g of None \<Rightarrow> queue | Some g \<Rightarrow> queue @ [g]);
          if \<not> ok then Some (Inl queue, s)
          else enqueue_loop t (map_option (\<lambda>d. padd d seglen) data) (left - seglen) seglen (sq + ucast seglen)
                 flags apiflags optflags queuelen queue s
        }
      else Some (Inr (queue, seglen, queuelen), s))"

text \<open>Whether the first new segment is chained to the last one that waits.\<close>

definition joins :: "nat \<Rightarrow> tcp_seg \<Rightarrow> tcp_seg \<Rightarrow> u8 \<Rightarrow> ('a netstate_scheme) nic \<Rightarrow> bool" where
  "joins t useg g flags s \<longleftrightarrow>
     TCP_TCPLEN useg (pm s) \<noteq> 0 \<and> TCPH_FLAGS (seg_hdr useg) (pm s) AND (TCP_SYN OR TCP_FIN) = 0 \<and>
     flags AND (TCP_SYN OR TCP_FIN) = 0 \<and> uint (seg_len useg) + uint (seg_len g) \<le> uint (mss (cb t s)) \<and>
     seg_flags useg = seg_flags g"

text \<open>
  The new segments at the end of the queue of unsent ones: the header of the last segment, its length, and the length of
  the queue; \<open>None\<close> inside is the jump to \<^verbatim>\<open>memerr\<close>.
\<close>

definition append_segments ::
  "nat \<Rightarrow> tcp_seg list \<Rightarrow> u8 \<Rightarrow> u8 \<Rightarrow> u16 \<Rightarrow> u16 \<Rightarrow> ('a netstate_scheme) nic \<Rightarrow>
   ((ptr \<times> u16 \<times> u16) option \<times> ('a netstate_scheme) nic) option" where
  "append_segments t queue flags optlen seglen queuelen s =
     (if unsent (cb t s) \<noteq> [] \<and> joins t (last (unsent (cb t s))) (hd queue) flags s then
        let useg = last (unsent (cb t s)); g = hd queue in
        do {
          (r, s) \<leftarrow> with_pm (pbuf_header (seg_p g) (- (TCP_HLEN + ucast optlen))) s;
          if r \<noteq> 0 then Some (None, s)
          else do {
            p \<leftarrow> seg_p g;
            b \<leftarrow> pbs (pm s) p;
            ((q, queuelen), s) \<leftarrow>
              (if plen b = 0 then do {
                 let s = on_pm (Pbuf.put p (b\<lparr>p_next := None\<rparr>)) s;
                 (_, s) \<leftarrow> with_pm (pbuf_free (Some p)) s;
                 Some ((p_next b, queuelen - 1), s)
               }
               else Some ((Some p, queuelen), s));
            m \<leftarrow> pbuf_cat (seg_p useg) q (pm s);
            let s = s\<lparr>pm := m\<rparr>;
            let useg = useg\<lparr>seg_len := seg_len useg + seg_len g\<rparr>;
            let s = upd_cb t (\<lambda>b. b\<lparr>unsent := butlast (unsent b) @ useg # tl queue\<rparr>) s;
            let s = on_pm (memp_free_on MEMP_TCP_SEG (seg_no g)) s;
            Some (Some (if tl queue = [] then (seg_hdr useg, seg_len useg, queuelen)
                        else (seg_hdr (last queue), seglen, queuelen)), s)
          }
        }
      else Some (Some (seg_hdr (last queue), seglen, queuelen), upd_cb t (\<lambda>b. b\<lparr>unsent := unsent b @ queue\<rparr>) s))"

definition enqueue_failed ::
  "nat \<Rightarrow> tcp_seg list \<Rightarrow> ('a netstate_scheme) nic \<Rightarrow> (err_t \<times> ('a netstate_scheme) nic) option" where
  "enqueue_failed t queue s =
     do {
       let s = upd_cb t (\<lambda>b. b\<lparr>tflags := tflags b OR TF_NAGLEMEMERR\<rparr>) s;
       (_, s) \<leftarrow> with_pm (tcp_segs_free queue) s;
       Some (ERR_MEM, s)
     }"

definition tcp_enqueue ::
  "nat \<Rightarrow> ptr option \<Rightarrow> u16 \<Rightarrow> u8 \<Rightarrow> u8 \<Rightarrow> u8 \<Rightarrow> ('a netstate_scheme) nic \<Rightarrow> (err_t \<times> ('a netstate_scheme) nic) option" where
  "tcp_enqueue t arg len flags apiflags optflags s =
     (if \<not> (len \<noteq> 0 \<or> optflags \<noteq> 0 \<or> flags AND (TCP_SYN OR TCP_FIN) \<noteq> 0) then Some (ERR_ARG, s)
      else if \<not> (len \<noteq> 0 \<or> arg = None) then Some (ERR_ARG, s)
      else if len > snd_buf (cb t s) then Some (ERR_MEM, upd_cb t (\<lambda>b. b\<lparr>tflags := tflags b OR TF_NAGLEMEMERR\<rparr>) s)
      else
        let queuelen = snd_queuelen (cb t s) in
        if queuelen \<ge> TCP_SND_QUEUELEN \<or> queuelen > TCP_SNDQUEUELEN_OVERFLOW
        then Some (ERR_MEM, upd_cb t (\<lambda>b. b\<lparr>tflags := tflags b OR TF_NAGLEMEMERR\<rparr>) s)
        else do {
          (r, s) \<leftarrow> enqueue_loop t arg len 0 (snd_lbb (cb t s)) flags apiflags optflags queuelen [] s;
          case r of
            Inl queue \<Rightarrow> enqueue_failed t queue s
          | Inr (queue, seglen, queuelen) \<Rightarrow> do {
              (r, s) \<leftarrow> append_segments t queue flags (ucast (LWIP_TCP_OPT_LENGTH optflags)) seglen queuelen s;
              case r of
                None \<Rightarrow> enqueue_failed t queue s
              | Some (hdr, seglen, queuelen) \<Rightarrow> do {
                  let len = (if flags AND TCP_SYN \<noteq> 0 \<or> flags AND TCP_FIN \<noteq> 0 then len + 1 else len);
                  let s = (if flags AND TCP_FIN \<noteq> 0 then upd_cb t (\<lambda>b. b\<lparr>tflags := tflags b OR TF_FIN\<rparr>) s else s);
                  let s = upd_cb t (\<lambda>b. b\<lparr>snd_lbb := snd_lbb b + ucast len\<rparr>) s;
                  let s = upd_cb t (\<lambda>b. b\<lparr>snd_buf := snd_buf b - len\<rparr>) s;
                  let s = upd_cb t (\<lambda>b. b\<lparr>snd_queuelen := queuelen\<rparr>) s;
                  Some (ERR_OK, if seglen > 0 \<and> apiflags AND TCP_WRITE_FLAG_MORE = 0 then on_pm (TCPH_SET_FLAG hdr TCP_PSH) s else s)
                }
            }
        })"

definition tcp_send_ctrl :: "nat \<Rightarrow> u8 \<Rightarrow> ('a netstate_scheme) nic \<Rightarrow> (err_t \<times> ('a netstate_scheme) nic) option" where
  "tcp_send_ctrl t flags s = tcp_enqueue t None 0 flags TCP_WRITE_FLAG_COPY 0 s"

definition tcp_write :: "nat \<Rightarrow> ptr \<Rightarrow> u16 \<Rightarrow> u8 \<Rightarrow> ('a netstate_scheme) nic \<Rightarrow> (err_t \<times> ('a netstate_scheme) nic) option" where
  "tcp_write t data len apiflags s =
     (if tstate (cb t s) \<in> {ESTABLISHED, CLOSE_WAIT, SYN_SENT, SYN_RCVD} then
        if len > 0 then tcp_enqueue t (Some data) len 0 apiflags 0 s else Some (ERR_OK, s)
      else Some (ERR_CONN, s))"

section \<open>Sending\<close>

text \<open>The checksum of a segment, over the chain and the pseudo header of the connection.\<close>

definition set_chksum :: "addr \<Rightarrow> u32 \<Rightarrow> u32 \<Rightarrow> ptr \<Rightarrow> ('a netstate_scheme) nic \<Rightarrow> ('a netstate_scheme) nic option" where
  "set_chksum p src dest hdr s =
     do {
       b \<leftarrow> pbs (pm s) p;
       c \<leftarrow> inet_chksum_pseudo (Some p) src dest 6 (tot_len b) (pm s);
       Some (on_pm (put16 hdr 16 c) s)
     }"

definition tcp_output_segment ::
  "env \<Rightarrow> (('a ipstate_scheme) nic) ip_calls \<Rightarrow> tcp_seg \<Rightarrow> nat \<Rightarrow> ('a ipstate_scheme) nic \<Rightarrow> ('a ipstate_scheme) nic option" where
  "tcp_output_segment env C seg t s =
     (let hdr = seg_hdr seg;
          s = on_pm (put32 hdr 8 (htonl (rcv_nxt (cb t s)))) s;
          s = on_pm (put16 hdr 14 (htons (rcv_ann_wnd (cb t s)))) s;
          s = upd_cb t (\<lambda>b. b\<lparr>rcv_ann_right_edge := rcv_nxt b + ucast (rcv_ann_wnd b)\<rparr>) s;
          s = (if seg_flags seg AND TF_SEG_OPTS_MSS \<noteq> 0 then on_pm (put32 hdr 20 (htonl 0x020405b4)) s else s);
          route = (if ip_addr_isany (Some (local_ip (cb t s)))
                   then map_option (\<lambda>n. nif_addr (netifs (up s) n)) (ip_route (remote_ip (cb t s)) s)
                   else Some (local_ip (cb t s)))
      in case route of None \<Rightarrow> Some s
         | Some src \<Rightarrow> do {
             let s = upd_cb t (\<lambda>b. b\<lparr>local_ip := src\<rparr>) s;
             let s = (if rtime (cb t s) = - 1 then upd_cb t (\<lambda>b. b\<lparr>rtime := 0\<rparr>) s else s);
             let s = (if rttest (cb t s) = 0
                      then upd_cb t (\<lambda>b. b\<lparr>rttest := tcp_ticks (tcp (up s)), rtseq := seg_seqno seg (pm s)\<rparr>) s else s);
             p \<leftarrow> seg_p seg;
             b \<leftarrow> pbs (pm s) p;
             if fst hdr \<noteq> fst (payload b) then None
             else do {
               let len = of_int (snd hdr - snd (payload b));
               let s = on_pm (Pbuf.put p (b\<lparr>payload := hdr, tot_len := tot_len b - len, plen := plen b - len\<rparr>)) s;
               let s = on_pm (put16 hdr 16 0) s;
               s \<leftarrow> set_chksum p (local_ip (cb t s)) (remote_ip (cb t s)) hdr s;
               (_, s) \<leftarrow> ip_output env C p (Some (local_ip (cb t s))) (remote_ip (cb t s)) (ttl (cb t s)) (tos (cb t s)) 6 s;
               Some s
             }
           })"

text \<open>
  The queue of unacknowledged segments. \<open>set_next\<close> puts a segment behind the one the code remembers as the last;
  \<open>insert_seq\<close> puts it in front of the first one that is not before it.
\<close>

fun set_next :: "nat \<Rightarrow> tcp_seg \<Rightarrow> tcp_seg list \<Rightarrow> tcp_seg list" where
  "set_next n g [] = []"
| "set_next n g (x # xs) = (if seg_no x = n then [x, g] else x # set_next n g xs)"

definition insert_seq :: "tcp_seg \<Rightarrow> pmem \<Rightarrow> tcp_seg list \<Rightarrow> tcp_seg list" where
  "insert_seq g m l =
     (let before = (\<lambda>x. TCP_SEQ_LT (seg_seqno x m) (seg_seqno g m)) in takeWhile before l @ g # dropWhile before l)"

definition to_unacked ::
  "nat \<Rightarrow> tcp_seg \<Rightarrow> tcp_seg option \<Rightarrow> ('a netstate_scheme) nic \<Rightarrow> (tcp_seg option \<times> ('a netstate_scheme) nic) option" where
  "to_unacked t seg useg s =
     (if TCP_TCPLEN seg (pm s) > 0 then
        if unacked (cb t s) = [] then Some (Some seg, upd_cb t (\<lambda>b. b\<lparr>unacked := [seg]\<rparr>) s)
        else case useg of None \<Rightarrow> None
             | Some u \<Rightarrow>
                 if TCP_SEQ_LT (seg_seqno seg (pm s)) (seg_seqno u (pm s))
                 then Some (useg, upd_cb t (\<lambda>b. b\<lparr>unacked := insert_seq seg (pm s) (unacked b)\<rparr>) s)
                 else Some (Some seg, upd_cb t (\<lambda>b. b\<lparr>unacked := set_next (seg_no u) seg (unacked b)\<rparr>) s)
      else do { (_, s) \<leftarrow> with_pm (tcp_seg_free seg) s; Some (useg, s) })"

definition tcp_do_output_nagle :: "tcp_pcb \<Rightarrow> bool" where
  "tcp_do_output_nagle b \<longleftrightarrow> unacked b = [] \<or> tflags b AND TF_NODELAY \<noteq> 0 \<or>
     (unsent b \<noteq> [] \<and> (tl (unsent b) \<noteq> [] \<or> seg_len (hd (unsent b)) \<ge> mss b))"

text \<open>Where a segment would end in the window of the receiver.\<close>

definition seg_end :: "nat \<Rightarrow> tcp_seg \<Rightarrow> ('a netstate_scheme) nic \<Rightarrow> u32" where
  "seg_end t seg s = seg_seqno seg (pm s) - lastack (cb t s) + ucast (seg_len seg)"

partial_function (option) output_loop ::
  "env \<Rightarrow> (('a ipstate_scheme) nic) ip_calls \<Rightarrow> nat \<Rightarrow> u32 \<Rightarrow> tcp_seg option \<Rightarrow> ('a ipstate_scheme) nic \<Rightarrow> ('a ipstate_scheme) nic option" where
  "output_loop env C t wnd useg s =
     (case unsent (cb t s) of [] \<Rightarrow> Some s
      | seg # rest \<Rightarrow>
          if seg_end t seg s > wnd then Some s
          else if \<not> tcp_do_output_nagle (cb t s) \<and> tflags (cb t s) AND (TF_NAGLEMEMERR OR TF_FIN) = 0 then Some s
          else do {
            let s = upd_cb t (\<lambda>b. b\<lparr>unsent := rest\<rparr>) s;
            let s = (if tstate (cb t s) \<noteq> SYN_SENT
                     then upd_cb t (\<lambda>b. b\<lparr>tflags := tflags b AND NOT (TF_ACK_DELAY OR TF_ACK_NOW)\<rparr>)
                            (on_pm (TCPH_SET_FLAG (seg_hdr seg) TCP_ACK) s)
                     else s);
            s \<leftarrow> tcp_output_segment env C seg t s;
            let nxt = seg_seqno seg (pm s) + TCP_TCPLEN seg (pm s);
            let s = (if TCP_SEQ_LT (snd_nxt (cb t s)) nxt then upd_cb t (\<lambda>b. b\<lparr>snd_nxt := nxt\<rparr>) s else s);
            (useg, s) \<leftarrow> to_unacked t seg useg s;
            output_loop env C t wnd useg s
          })"

text \<open>An empty segment on its own: with the header of the connection, checksummed, sent and freed.\<close>

definition send_empty ::
  "env \<Rightarrow> (('a ipstate_scheme) nic) ip_calls \<Rightarrow> nat \<Rightarrow> addr \<Rightarrow> ptr \<Rightarrow> u8 \<Rightarrow> ('a ipstate_scheme) nic \<Rightarrow> ('a ipstate_scheme) nic option" where
  "send_empty env C t p hdr service s =
     do {
       s \<leftarrow> set_chksum p (local_ip (cb t s)) (remote_ip (cb t s)) hdr s;
       (_, s) \<leftarrow> ip_output env C p (Some (local_ip (cb t s))) (remote_ip (cb t s)) (ttl (cb t s)) service 6 s;
       free_packet p s
     }"

definition tcp_output ::
  "env \<Rightarrow> (('a ipstate_scheme) nic) ip_calls \<Rightarrow> nat \<Rightarrow> ('a ipstate_scheme) nic \<Rightarrow> (err_t \<times> ('a ipstate_scheme) nic) option" where
  "tcp_output env C t s =
     (if tcp_input_pcb (tcp (up s)) = Some t then Some (ERR_OK, s)
      else
        let wnd = ucast (min (snd_wnd (cb t s)) (cwnd (cb t s)));
            useg = (if unacked (cb t s) = [] then None else Some (last (unacked (cb t s))))
        in if tflags (cb t s) AND TF_ACK_NOW \<noteq> 0 \<and> (unsent (cb t s) = [] \<or> seg_end t (hd (unsent (cb t s))) s > wnd) then
             do {
               (q, s) \<leftarrow> with_pm (pbuf_alloc PBUF_IP TCP_HLEN PBUF_RAM) s;
               case q of None \<Rightarrow> Some (ERR_BUF, s)
               | Some p \<Rightarrow> do {
                   let s = upd_cb t (\<lambda>b. b\<lparr>tflags := tflags b AND NOT (TF_ACK_DELAY OR TF_ACK_NOW)\<rparr>) s;
                   (hdr, s) \<leftarrow> tcp_output_set_header t p 0 (htonl (snd_nxt (cb t s))) s;
                   s \<leftarrow> send_empty env C t p hdr (tos (cb t s)) s;
                   Some (ERR_OK, s)
                 }
             }
           else
             do {
               s \<leftarrow> output_loop env C t wnd useg s;
               let s = (if unsent (cb t s) \<noteq> [] \<and> persist_backoff (cb t s) = 0 \<and>
                           seg_end t (hd (unsent (cb t s))) s > ucast (snd_wnd (cb t s))
                        then upd_cb t (\<lambda>b. b\<lparr>persist_cnt := 0, persist_backoff := 1\<rparr>) s else s);
               Some (ERR_OK, upd_cb t (\<lambda>b. b\<lparr>tflags := tflags b AND NOT TF_NAGLEMEMERR\<rparr>) s)
             })"

text \<open>A reset; it belongs to no connection, so everything that goes into it is an argument.\<close>

definition tcp_rst ::
  "env \<Rightarrow> (('a ipstate_scheme) nic) ip_calls \<Rightarrow> u32 \<Rightarrow> u32 \<Rightarrow> u32 \<Rightarrow> u32 \<Rightarrow> u16 \<Rightarrow> u16 \<Rightarrow> ('a ipstate_scheme) nic \<Rightarrow> ('a ipstate_scheme) nic option" where
  "tcp_rst env C sq ack src dest lport rport s =
     do {
       (q, s) \<leftarrow> with_pm (pbuf_alloc PBUF_IP TCP_HLEN PBUF_RAM) s;
       case q of None \<Rightarrow> Some s
       | Some p \<Rightarrow> do {
           b \<leftarrow> pbs (pm s) p;
           let hdr = payload b;
           let s = on_pm (put16 hdr 0 (htons lport)) s;
           let s = on_pm (put16 hdr 2 (htons rport)) s;
           let s = on_pm (put32 hdr 4 (htonl sq)) s;
           let s = on_pm (put32 hdr 8 (htonl ack)) s;
           let s = on_pm (TCPH_FLAGS_SET hdr (TCP_RST OR TCP_ACK)) s;
           let s = on_pm (put16 hdr 14 (htons TCP_WND)) s;
           let s = on_pm (put16 hdr 18 0) s;
           let s = on_pm (TCPH_HDRLEN_SET hdr 5) s;
           let s = on_pm (put16 hdr 16 0) s;
           s \<leftarrow> set_chksum p src dest hdr s;
           (_, s) \<leftarrow> ip_output env C p (Some src) dest TCP_TTL 0 6 s;
           free_packet p s
         }
     }"

section \<open>Sending again, and probes\<close>

definition tcp_rexmit_rto ::
  "env \<Rightarrow> (('a ipstate_scheme) nic) ip_calls \<Rightarrow> nat \<Rightarrow> ('a ipstate_scheme) nic \<Rightarrow> ('a ipstate_scheme) nic option" where
  "tcp_rexmit_rto env C t s =
     (if unacked (cb t s) = [] then Some s
      else do {
        let s = upd_cb t (\<lambda>b. b\<lparr>unsent := unacked b @ unsent b, unacked := [], nrtx := nrtx b + 1, rttest := 0\<rparr>) s;
        (_, s) \<leftarrow> tcp_output env C t s;
        Some s
      })"

definition tcp_rexmit ::
  "env \<Rightarrow> (('a ipstate_scheme) nic) ip_calls \<Rightarrow> nat \<Rightarrow> ('a ipstate_scheme) nic \<Rightarrow> ('a ipstate_scheme) nic option" where
  "tcp_rexmit env C t s =
     (case unacked (cb t s) of [] \<Rightarrow> Some s
      | seg # rest \<Rightarrow> do {
          let s = upd_cb t (\<lambda>b. b\<lparr>unacked := rest, unsent := insert_seq seg (pm s) (unsent b), nrtx := nrtx b + 1, rttest := 0\<rparr>) s;
          (_, s) \<leftarrow> tcp_output env C t s;
          Some s
        })"

definition tcp_keepalive ::
  "env \<Rightarrow> (('a ipstate_scheme) nic) ip_calls \<Rightarrow> nat \<Rightarrow> ('a ipstate_scheme) nic \<Rightarrow> ('a ipstate_scheme) nic option" where
  "tcp_keepalive env C t s =
     do {
       (q, s) \<leftarrow> with_pm (pbuf_alloc PBUF_IP TCP_HLEN PBUF_RAM) s;
       case q of None \<Rightarrow> Some s
       | Some p \<Rightarrow> do {
           (hdr, s) \<leftarrow> tcp_output_set_header t p 0 (htonl (snd_nxt (cb t s) - 1)) s;
           send_empty env C t p hdr 0 s
         }
     }"

text \<open>The probe carries the first byte of the oldest segment; a segment without data has no such byte.\<close>

definition tcp_zero_window_probe ::
  "env \<Rightarrow> (('a ipstate_scheme) nic) ip_calls \<Rightarrow> nat \<Rightarrow> ('a ipstate_scheme) nic \<Rightarrow> ('a ipstate_scheme) nic option" where
  "tcp_zero_window_probe env C t s =
     (case unacked (cb t s) @ unsent (cb t s) of [] \<Rightarrow> Some s
      | seg # _ \<Rightarrow> do {
          (q, s) \<leftarrow> with_pm (pbuf_alloc PBUF_IP (TCP_HLEN + 1) PBUF_RAM) s;
          case q of None \<Rightarrow> Some s
          | Some p \<Rightarrow> do {
              (hdr, s) \<leftarrow> tcp_output_set_header t p 0 (get32 (seg_hdr seg) 4 (pm s)) s;
              b \<leftarrow> pbs (pm s) p;
              d \<leftarrow> dataptr seg;
              let s = on_pm (poke (payload b) 20 [get8 d 0 (pm s)]) s;
              send_empty env C t p hdr 0 s
            }
        })"

section \<open>The order of segments\<close>

text \<open>The place of a sequence number behind a base; in a half of the number space the comparison macros compare places.\<close>

definition place :: "u32 \<Rightarrow> u32 \<Rightarrow> nat" where
  "place base a = unat (a - base)"

lemma seq_lt_place:
  assumes "place base a < 2 ^ 31" "place base b < 2 ^ 31"
  shows "TCP_SEQ_LT a b \<longleftrightarrow> place base a < place base b"
proof -
  have "a - b = (a - base) - (b - base)" by simp
  also have "\<dots> = of_int (int (place base a) - int (place base b))" by (simp add: place_def)
  finally have "sint (a - b) = int (place base a) - int (place base b)"
    using sint_of_int_u32 [of "int (place base a) - int (place base b)"] assms by (simp del: of_int_diff of_int_of_nat_eq)
  then show ?thesis by (simp add: TCP_SEQ_LT_def)
qed

definition in_order :: "u32 \<Rightarrow> pmem \<Rightarrow> tcp_seg list \<Rightarrow> bool" where
  "in_order base m l \<longleftrightarrow> sorted (map (\<lambda>g. place base (seg_seqno g m)) l) \<and> (\<forall>g \<in> set l. place base (seg_seqno g m) < 2 ^ 31)"

lemma sorted_dropWhile_ge: "sorted (map f l) \<Longrightarrow> x \<in> set (dropWhile (\<lambda>y. f y < (k :: nat)) l) \<Longrightarrow> k \<le> f x"
proof (induction l)
  case (Cons y l)
  then show ?case by (cases "f y < k") auto
qed simp

text \<open>C17: a queue of segments stays in order. Where the sequence numbers lie in one half of the number space, \<open>insert_seq\<close>, with which a
  segment is put back for retransmission or among the unacknowledged ones, keeps the queue sorted and loses no segment.\<close>

theorem insert_seq_ordered:
  assumes "in_order base m l" "place base (seg_seqno g m) < 2 ^ 31"
  shows "in_order base m (insert_seq g m l) \<and> mset (insert_seq g m l) = add_mset g (mset l)"
proof -
  let ?f = "\<lambda>x. place base (seg_seqno x m)"
  define P where "P = (\<lambda>x. ?f x < ?f g)"
  have "TCP_SEQ_LT (seg_seqno x m) (seg_seqno g m) = P x" if "x \<in> set l" for x
    using that seq_lt_place assms by (auto simp: in_order_def P_def)
  then have "takeWhile (\<lambda>x. TCP_SEQ_LT (seg_seqno x m) (seg_seqno g m)) l = takeWhile P l"
    "dropWhile (\<lambda>x. TCP_SEQ_LT (seg_seqno x m) (seg_seqno g m)) l = dropWhile P l"
    by (auto intro: takeWhile_cong dropWhile_cong)
  then have i: "insert_seq g m l = takeWhile P l @ g # dropWhile P l" by (simp add: insert_seq_def Let_def)
  have s: "sorted (map ?f l)" using assms(1) by (simp add: in_order_def)
  then have st: "sorted (map ?f (takeWhile P l))" "sorted (map ?f (dropWhile P l))"
    by (metis map_append sorted_append takeWhile_dropWhile_id)+
  have lt: "?f x < ?f g" if "x \<in> set (takeWhile P l)" for x using set_takeWhileD [OF that] by (simp add: P_def)
  have ge: "?f g \<le> ?f x" if "x \<in> set (dropWhile P l)" for x using sorted_dropWhile_ge [OF s] that unfolding P_def by blast
  have "sorted (map ?f (insert_seq g m l))"
    using st lt ge by (fastforce simp: i sorted_append)
  moreover have "mset (takeWhile P l) + mset (dropWhile P l) = mset l"
    by (metis mset_append takeWhile_dropWhile_id)
  then have "mset (insert_seq g m l) = add_mset g (mset l)" by (simp add: i)
  moreover have "\<forall>x \<in> set (insert_seq g m l). ?f x < 2 ^ 31"
    using assms by (auto simp: i in_order_def dest: set_takeWhileD set_dropWhileD)
  ultimately show ?thesis by (simp add: in_order_def)
qed

definition seg_at :: "int \<Rightarrow> tcp_seg" where
  "seg_at h = \<lparr>seg_no = 0, seg_p = None, dataptr = None, seg_len = 0, seg_flags = 0, seg_hdr = (Ext 3, h)\<rparr>"

definition ramp :: pmem where
  "ramp = \<lparr>pbs = (\<lambda>_. None), dat = (\<lambda>_. of_int), pools = (\<lambda>_. []), heap = \<lparr>ram = (\<lambda>_. \<lparr>nxt = 0, prv = 0, used = False\<rparr>), lfree = 0\<rparr>\<rparr>"

lemma insert_seq_ordered_witness:
  "in_order 0 ramp (insert_seq (seg_at 8) ramp [seg_at 0, seg_at 16])"
proof -
  have "seg_seqno (seg_at 0) ramp = 0x04050607" "seg_seqno (seg_at 8) ramp = 0x0C0D0E0F" "seg_seqno (seg_at 16) ramp = 0x14151617"
    by (simp_all add: seg_seqno_def seg_at_def get32_def get8_def ramp_def word32_of_def ntohl_def htonl_def)
  then show ?thesis
    using insert_seq_ordered [of 0 ramp "[seg_at 0, seg_at 16]" "seg_at 8"] by (simp add: in_order_def place_def)
qed

end
