(* ===== verification/TcpTimers.thy ===== *)
theory TcpTimers
  imports TcpOut
begin

text \<open>
  The rest of \<^verbatim>\<open>tcp.c\<close>: closing and aborting, allocation of control blocks, and the timers. The functions an
  application has set are called through the record \<open>A\<close>; the two that the stack itself provides are modelled. A block
  that such a call has given back to its pool must not be used again; where the code goes on with one the value is \<open>None\<close>.
\<close>

abbreviation (input) SOF_KEEPALIVE :: u16 where "SOF_KEEPALIVE \<equiv> 0x0008"
abbreviation (input) TCP_MAXRTX :: u8 where "TCP_MAXRTX \<equiv> 12"
abbreviation (input) TCP_SYNMAXRTX :: u8 where "TCP_SYNMAXRTX \<equiv> 6"
abbreviation (input) TCP_SLOW_INTERVAL :: u32 where "TCP_SLOW_INTERVAL \<equiv> 500"
abbreviation (input) TCP_FIN_WAIT_TIMEOUT :: u32 where "TCP_FIN_WAIT_TIMEOUT \<equiv> 20000"
abbreviation (input) TCP_SYN_RCVD_TIMEOUT :: u32 where "TCP_SYN_RCVD_TIMEOUT \<equiv> 20000"
abbreviation (input) TCP_MSL :: u32 where "TCP_MSL \<equiv> 60000"
abbreviation (input) TCP_PRIO_NORMAL :: u8 where "TCP_PRIO_NORMAL \<equiv> 64"
abbreviation (input) TCP_PRIO_MAX :: u8 where "TCP_PRIO_MAX \<equiv> 127"

definition tcp_backoff :: "u8 list" where "tcp_backoff = [1, 2, 3, 4, 5, 6, 7, 7, 7, 7, 7, 7, 7]"
definition tcp_persist_backoff :: "u8 list" where "tcp_persist_backoff = [3, 6, 12, 24, 48, 96, 120]"

text \<open>Reading an array within its bounds.\<close>

definition at :: "'v list \<Rightarrow> nat \<Rightarrow> 'v option" where
  "at xs i = (if i < length xs then Some (xs ! i) else None)"

record 's tcp_app =
  on_accept :: "callback \<Rightarrow> nat option \<Rightarrow> nat \<Rightarrow> err_t \<Rightarrow> 's \<Rightarrow> (err_t \<times> 's) option"
  on_sent :: "callback \<Rightarrow> nat option \<Rightarrow> nat \<Rightarrow> u16 \<Rightarrow> 's \<Rightarrow> (err_t \<times> 's) option"
  on_recv :: "callback \<Rightarrow> nat option \<Rightarrow> nat \<Rightarrow> addr option \<Rightarrow> err_t \<Rightarrow> 's \<Rightarrow> (err_t \<times> 's) option"
  on_connected :: "callback \<Rightarrow> nat option \<Rightarrow> nat \<Rightarrow> err_t \<Rightarrow> 's \<Rightarrow> (err_t \<times> 's) option"
  on_poll :: "callback \<Rightarrow> nat option \<Rightarrow> nat \<Rightarrow> 's \<Rightarrow> (err_t \<times> 's) option"
  on_err :: "callback \<Rightarrow> nat option \<Rightarrow> err_t \<Rightarrow> 's \<Rightarrow> 's option"

section \<open>Lists of control blocks\<close>

datatype pcb_list = Bound | Listening | Active | TimeWait

primrec get_list :: "pcb_list \<Rightarrow> tcps \<Rightarrow> nat list" where
  "get_list Bound T = bound_pcbs T"
| "get_list Listening T = listen_pcbs T"
| "get_list Active T = active_pcbs T"
| "get_list TimeWait T = tw_pcbs T"

primrec set_list :: "pcb_list \<Rightarrow> nat list \<Rightarrow> tcps \<Rightarrow> tcps" where
  "set_list Bound l T = T\<lparr>bound_pcbs := l\<rparr>"
| "set_list Listening l T = T\<lparr>listen_pcbs := l\<rparr>"
| "set_list Active l T = T\<lparr>active_pcbs := l\<rparr>"
| "set_list TimeWait l T = T\<lparr>tw_pcbs := l\<rparr>"

definition tcp_reg :: "pcb_list \<Rightarrow> nat \<Rightarrow> ('a netstate_scheme) nic \<Rightarrow> ('a netstate_scheme) nic" where
  "tcp_reg k t = upd_tcp (\<lambda>T. set_list k (TCP_REG t (get_list k T)) T)"

definition tcp_rmv :: "pcb_list \<Rightarrow> nat \<Rightarrow> ('a netstate_scheme) nic \<Rightarrow> ('a netstate_scheme) nic" where
  "tcp_rmv k t = upd_tcp (\<lambda>T. set_list k (TCP_RMV t (get_list k T)) T)"

text \<open>The \<^verbatim>\<open>next\<close> member of a block: its successor on the list it is on; a block that is on none has a null one.\<close>

definition pcb_next :: "nat \<Rightarrow> tcps \<Rightarrow> nat option" where
  "pcb_next t T = (case List.find (\<lambda>k. t \<in> set (get_list k T)) [Active, TimeWait, Bound, Listening] of
     None \<Rightarrow> None | Some k \<Rightarrow> next_in (get_list k T) t)"

text \<open>Goes on with a block only if it has not been given back to its pool.\<close>

definition still :: "nat \<Rightarrow> ('a netstate_scheme) nic \<Rightarrow> ('a netstate_scheme) nic option" where
  "still t s = (if t \<in> set (pools (pm s) MEMP_TCP_PCB) then None else Some s)"

section \<open>Taking a control block down\<close>

definition tcp_pcb_purge :: "nat \<Rightarrow> ('a netstate_scheme) nic \<Rightarrow> ('a netstate_scheme) nic option" where
  "tcp_pcb_purge t s =
     (if tstate (cb t s) \<notin> {CLOSED, TIME_WAIT, LISTEN} then
        do {
          s \<leftarrow> (if refused_data (cb t s) \<noteq> None then
                 do { (_, s) \<leftarrow> with_pm (pbuf_free (refused_data (cb t s))) s; Some (upd_cb t (\<lambda>b. b\<lparr>refused_data := None\<rparr>) s) }
               else Some s);
          (_, s) \<leftarrow> with_pm (tcp_segs_free (unsent (cb t s))) s;
          (_, s) \<leftarrow> with_pm (tcp_segs_free (unacked (cb t s))) s;
          Some (upd_cb t (\<lambda>b. b\<lparr>unsent := [], unacked := []\<rparr>) s)
        }
      else Some s)"

definition tcp_ack_now ::
  "env \<Rightarrow> (('a ipstate_scheme) nic) ip_calls \<Rightarrow> nat \<Rightarrow> ('a ipstate_scheme) nic \<Rightarrow> ('a ipstate_scheme) nic option" where
  "tcp_ack_now env C t s =
     do { (_, s) \<leftarrow> tcp_output env C t (upd_cb t (\<lambda>b. b\<lparr>tflags := tflags b OR TF_ACK_NOW\<rparr>) s); Some s }"

definition tcp_pcb_remove ::
  "env \<Rightarrow> (('a ipstate_scheme) nic) ip_calls \<Rightarrow> pcb_list \<Rightarrow> nat \<Rightarrow> ('a ipstate_scheme) nic \<Rightarrow> ('a ipstate_scheme) nic option" where
  "tcp_pcb_remove env C k t s =
     do {
       s \<leftarrow> tcp_pcb_purge t (tcp_rmv k t s);
       s \<leftarrow> (if tstate (cb t s) \<noteq> TIME_WAIT \<and> tstate (cb t s) \<noteq> LISTEN \<and> tflags (cb t s) AND TF_ACK_DELAY \<noteq> 0
            then tcp_ack_now env C t s else Some s);
       Some (upd_cb t (\<lambda>b. b\<lparr>tstate := CLOSED\<rparr>) s)
     }"

text \<open>The error callback gets no control block.\<close>

definition event_err :: "('a netstate_scheme) nic tcp_app \<Rightarrow> callback option \<Rightarrow> nat option \<Rightarrow> err_t \<Rightarrow> ('a netstate_scheme) nic \<Rightarrow> ('a netstate_scheme) nic option" where
  "event_err A errf arg err s = (case errf of None \<Rightarrow> Some s | Some c \<Rightarrow> on_err A c arg err s)"

definition tcp_abandon ::
  "env \<Rightarrow> (('a ipstate_scheme) nic) ip_calls \<Rightarrow> (('a ipstate_scheme) nic) tcp_app \<Rightarrow> nat \<Rightarrow> bool \<Rightarrow>
   ('a ipstate_scheme) nic \<Rightarrow> ('a ipstate_scheme) nic option" where
  "tcp_abandon env C A t reset s =
     (if tstate (cb t s) = TIME_WAIT then
        do { s \<leftarrow> tcp_pcb_remove env C TimeWait t s; Some (on_pm (memp_free_on MEMP_TCP_PCB t) s) }
      else
        let b = cb t s in
        do {
          s \<leftarrow> tcp_pcb_remove env C Active t s;
          (_, s) \<leftarrow> with_pm (tcp_segs_free (unacked (cb t s))) s;
          (_, s) \<leftarrow> with_pm (tcp_segs_free (unsent (cb t s))) s;
          let s = on_pm (memp_free_on MEMP_TCP_PCB t) s;
          s \<leftarrow> event_err A (cb_err b) (callback_arg b) ERR_ABRT s;
          if reset then tcp_rst env C (snd_nxt b) (rcv_nxt b) (local_ip b) (remote_ip b) (local_port b) (remote_port b) s
          else Some s
        })"

definition tcp_abort ::
  "env \<Rightarrow> (('a ipstate_scheme) nic) ip_calls \<Rightarrow> (('a ipstate_scheme) nic) tcp_app \<Rightarrow> nat \<Rightarrow>
   ('a ipstate_scheme) nic \<Rightarrow> ('a ipstate_scheme) nic option" where
  "tcp_abort env C A t s = tcp_abandon env C A t True s"

text \<open>A \<^verbatim>\<open>FIN\<close> is queued first; only when there was room for it does the state change.\<close>

definition close_with ::
  "env \<Rightarrow> (('a ipstate_scheme) nic) ip_calls \<Rightarrow> nat \<Rightarrow> tcp_state \<Rightarrow> ('a ipstate_scheme) nic \<Rightarrow> (err_t \<times> ('a ipstate_scheme) nic) option" where
  "close_with env C t st s =
     do {
       (err, s) \<leftarrow> tcp_send_ctrl t TCP_FIN s;
       if err = ERR_OK then do {
         (_, s) \<leftarrow> tcp_output env C t (upd_cb t (\<lambda>b. b\<lparr>tstate := st\<rparr>) s);
         Some (err, s)
       }
       else Some (err, s)
     }"

definition tcp_close ::
  "env \<Rightarrow> (('a ipstate_scheme) nic) ip_calls \<Rightarrow> nat \<Rightarrow> ('a ipstate_scheme) nic \<Rightarrow> (err_t \<times> ('a ipstate_scheme) nic) option" where
  "tcp_close env C t s =
     (case tstate (cb t s) of
        CLOSED \<Rightarrow> Some (ERR_OK, on_pm (memp_free_on MEMP_TCP_PCB t) (tcp_rmv Bound t s))
      | LISTEN \<Rightarrow> do { s \<leftarrow> tcp_pcb_remove env C Listening t s; Some (ERR_OK, on_pm (memp_free_on MEMP_TCP_PCB_LISTEN t) s) }
      | SYN_SENT \<Rightarrow> do { s \<leftarrow> tcp_pcb_remove env C Active t s; Some (ERR_OK, on_pm (memp_free_on MEMP_TCP_PCB t) s) }
      | SYN_RCVD \<Rightarrow> close_with env C t FIN_WAIT_1 s
      | ESTABLISHED \<Rightarrow> close_with env C t FIN_WAIT_1 s
      | CLOSE_WAIT \<Rightarrow> close_with env C t LAST_ACK s
      | _ \<Rightarrow> Some (ERR_OK, s))"

section \<open>Calling the application\<close>

definition tcp_recv_null ::
  "env \<Rightarrow> (('a ipstate_scheme) nic) ip_calls \<Rightarrow> nat \<Rightarrow> addr option \<Rightarrow> err_t \<Rightarrow> ('a ipstate_scheme) nic \<Rightarrow> (err_t \<times> ('a ipstate_scheme) nic) option" where
  "tcp_recv_null env C t p err s =
     (if p \<noteq> None then do { (_, s) \<leftarrow> with_pm (pbuf_free p) s; Some (ERR_OK, s) }
      else if err = ERR_OK then tcp_close env C t s
      else Some (ERR_OK, s))"

definition event_recv ::
  "env \<Rightarrow> (('a ipstate_scheme) nic) ip_calls \<Rightarrow> (('a ipstate_scheme) nic) tcp_app \<Rightarrow> nat \<Rightarrow> addr option \<Rightarrow> err_t \<Rightarrow>
   ('a ipstate_scheme) nic \<Rightarrow> (err_t \<times> ('a ipstate_scheme) nic) option" where
  "event_recv env C A t p err s =
     (case cb_recv (cb t s) of
        None \<Rightarrow> (if p \<noteq> None then do { (_, s) \<leftarrow> with_pm (pbuf_free p) s; Some (ERR_OK, s) } else Some (ERR_OK, s))
      | Some c \<Rightarrow> if c = TCP_RECV_NULL then tcp_recv_null env C t p err s
                  else on_recv A c (callback_arg (cb t s)) t p err s)"

definition event_accept ::
  "(('a netstate_scheme) nic) tcp_app \<Rightarrow> nat \<Rightarrow> err_t \<Rightarrow> ('a netstate_scheme) nic \<Rightarrow> (err_t \<times> ('a netstate_scheme) nic) option" where
  "event_accept A t err s =
     (case cb_accept (cb t s) of
        None \<Rightarrow> Some (ERR_OK, s)
      | Some c \<Rightarrow> if c = TCP_ACCEPT_NULL then Some (ERR_ABRT, s) else on_accept A c (callback_arg (cb t s)) t err s)"

definition event_sent ::
  "(('a netstate_scheme) nic) tcp_app \<Rightarrow> nat \<Rightarrow> u16 \<Rightarrow> ('a netstate_scheme) nic \<Rightarrow> (err_t \<times> ('a netstate_scheme) nic) option" where
  "event_sent A t space s =
     (case cb_sent (cb t s) of None \<Rightarrow> Some (ERR_OK, s) | Some c \<Rightarrow> on_sent A c (callback_arg (cb t s)) t space s)"

definition event_connected ::
  "(('a netstate_scheme) nic) tcp_app \<Rightarrow> nat \<Rightarrow> err_t \<Rightarrow> ('a netstate_scheme) nic \<Rightarrow> (err_t \<times> ('a netstate_scheme) nic) option" where
  "event_connected A t err s =
     (case cb_connected (cb t s) of None \<Rightarrow> Some (ERR_OK, s) | Some c \<Rightarrow> on_connected A c (callback_arg (cb t s)) t err s)"

definition event_poll ::
  "(('a netstate_scheme) nic) tcp_app \<Rightarrow> nat \<Rightarrow> ('a netstate_scheme) nic \<Rightarrow> (err_t \<times> ('a netstate_scheme) nic) option" where
  "event_poll A t s =
     (case cb_poll (cb t s) of None \<Rightarrow> Some (ERR_OK, s) | Some c \<Rightarrow> on_poll A c (callback_arg (cb t s)) t s)"

section \<open>New control blocks\<close>

definition tcp_next_iss :: "('a netstate_scheme) nic \<Rightarrow> u32 \<times> ('a netstate_scheme) nic" where
  "tcp_next_iss s =
     (let s = upd_tcp (\<lambda>T. T\<lparr>iss := iss T + tcp_ticks T\<rparr>) s in (iss (tcp (up s)), s))"

definition tcp_eff_send_mss :: "u16 \<Rightarrow> u32 \<Rightarrow> ('a netstate_scheme) nic \<Rightarrow> u16" where
  "tcp_eff_send_mss sendmss addr s =
     (case ip_route addr s of None \<Rightarrow> sendmss
      | Some n \<Rightarrow> if mtu (netifs (up s) n) \<noteq> 0 then min sendmss (mtu (netifs (up s) n) - IP_HLEN - TCP_HLEN) else sendmss)"

text \<open>The choice of a victim: the block found so far with its age, and the highest priority that may still be chosen.\<close>

definition kill_prio_step :: "tcps \<Rightarrow> u8 \<Rightarrow> u32 \<times> nat option \<times> u8 \<Rightarrow> nat \<Rightarrow> u32 \<times> nat option \<times> u8" where
  "kill_prio_step T p acc t =
     (case acc of (inactivity, inactive, mprio) \<Rightarrow>
        if prio (pcbs T t) \<le> p \<and> prio (pcbs T t) \<le> mprio \<and> tcp_ticks T - tmr (pcbs T t) \<ge> inactivity
        then (tcp_ticks T - tmr (pcbs T t), Some t, prio (pcbs T t)) else acc)"

definition tcp_kill_prio ::
  "env \<Rightarrow> (('a ipstate_scheme) nic) ip_calls \<Rightarrow> (('a ipstate_scheme) nic) tcp_app \<Rightarrow> u8 \<Rightarrow>
   ('a ipstate_scheme) nic \<Rightarrow> ('a ipstate_scheme) nic option" where
  "tcp_kill_prio env C A p s =
     (case foldl (kill_prio_step (tcp (up s)) p) (0, None, TCP_PRIO_MAX) (active_pcbs (tcp (up s))) of
        (_, Some t, _) \<Rightarrow> tcp_abort env C A t s | _ \<Rightarrow> Some s)"

definition kill_timewait_step :: "tcps \<Rightarrow> u32 \<times> nat option \<Rightarrow> nat \<Rightarrow> u32 \<times> nat option" where
  "kill_timewait_step T acc t =
     (if tcp_ticks T - tmr (pcbs T t) \<ge> fst acc then (tcp_ticks T - tmr (pcbs T t), Some t) else acc)"

definition tcp_kill_timewait ::
  "env \<Rightarrow> (('a ipstate_scheme) nic) ip_calls \<Rightarrow> (('a ipstate_scheme) nic) tcp_app \<Rightarrow>
   ('a ipstate_scheme) nic \<Rightarrow> ('a ipstate_scheme) nic option" where
  "tcp_kill_timewait env C A s =
     (case foldl (kill_timewait_step (tcp (up s))) (0, None) (tw_pcbs (tcp (up s))) of
        (_, Some t) \<Rightarrow> tcp_abort env C A t s | _ \<Rightarrow> Some s)"

text \<open>The block \<^verbatim>\<open>memset\<close> leaves.\<close>

definition zero_pcb :: tcp_pcb where
  "zero_pcb = \<lparr>local_ip = 0, remote_ip = 0, so_options = 0, tos = 0, ttl = 0, tstate = CLOSED, prio = 0, callback_arg = None,
     local_port = 0, cb_accept = None, cb_recv = None, cb_sent = None, cb_err = None, cb_poll = None, pollinterval = 0, tflags = 0,
     rcv_nxt = 0, rcv_wnd = 0, rcv_ann_wnd = 0, rcv_ann_right_edge = 0, mss = 0, snd_buf = 0, remote_port = 0, tmr = 0, polltmr = 0,
     rtime = 0, rttest = 0, rtseq = 0, rtt_sa = 0, rtt_sv = 0, rto = 0, nrtx = 0, lastack = 0, dupacks = 0, cwnd = 0, ssthresh = 0,
     snd_nxt = 0, snd_wnd = 0, snd_wl1 = 0, snd_wl2 = 0, snd_lbb = 0, acked = 0, snd_queuelen = 0, unsent = [], unacked = [],
     refused_data = None, cb_connected = None, keep_idle = 0, keep_intvl = 0, keep_cnt = 0, persist_cnt = 0, persist_backoff = 0,
     keep_cnt_sent = 0\<rparr>"

definition fresh_pcb :: "u32 \<Rightarrow> u32 \<Rightarrow> tcp_pcb" where
  "fresh_pcb sq now = zero_pcb\<lparr>prio := TCP_PRIO_NORMAL, snd_buf := TCP_SND_BUF, rcv_wnd := TCP_WND, rcv_ann_wnd := TCP_WND,
     ttl := TCP_TTL, mss := 536, rto := 6, rtt_sv := 6, rtime := - 1, cwnd := 1, snd_wl2 := sq, snd_nxt := sq, lastack := sq,
     snd_lbb := sq, tmr := now, cb_recv := Some TCP_RECV_NULL, keep_idle := 3000, keep_intvl := 1000, keep_cnt := 3\<rparr>"

definition take_pcb :: "('a netstate_scheme) nic \<Rightarrow> nat option \<times> ('a netstate_scheme) nic" where
  "take_pcb s = (case memp_malloc MEMP_TCP_PCB (pools (pm s)) of (r, tab) \<Rightarrow> (r, on_pm (\<lambda>m. m\<lparr>pools := tab\<rparr>) s))"

definition tcp_alloc ::
  "env \<Rightarrow> (('a ipstate_scheme) nic) ip_calls \<Rightarrow> (('a ipstate_scheme) nic) tcp_app \<Rightarrow> u8 \<Rightarrow>
   ('a ipstate_scheme) nic \<Rightarrow> (nat option \<times> ('a ipstate_scheme) nic) option" where
  "tcp_alloc env C A p s =
     do {
       (r, s) \<leftarrow> (case take_pcb s of
           (Some t, s) \<Rightarrow> Some (Some t, s)
         | (None, s) \<Rightarrow> do {
             s \<leftarrow> tcp_kill_timewait env C A s;
             case take_pcb s of
               (Some t, s) \<Rightarrow> Some (Some t, s)
             | (None, s) \<Rightarrow> do { s \<leftarrow> tcp_kill_prio env C A p s; Some (take_pcb s) }
           });
       case r of None \<Rightarrow> Some (None, s)
       | Some t \<Rightarrow>
           let (sq, s) = tcp_next_iss s
           in Some (Some t, upd_cb t (\<lambda>_. fresh_pcb sq (tcp_ticks (tcp (up s)))) s)
     }"

definition tcp_new ::
  "env \<Rightarrow> (('a ipstate_scheme) nic) ip_calls \<Rightarrow> (('a ipstate_scheme) nic) tcp_app \<Rightarrow>
   ('a ipstate_scheme) nic \<Rightarrow> (nat option \<times> ('a ipstate_scheme) nic) option" where
  "tcp_new env C A s = tcp_alloc env C A TCP_PRIO_NORMAL s"

definition tcp_connect ::
  "env \<Rightarrow> (('a ipstate_scheme) nic) ip_calls \<Rightarrow> nat \<Rightarrow> u32 option \<Rightarrow> u16 \<Rightarrow> callback option \<Rightarrow>
   ('a ipstate_scheme) nic \<Rightarrow> (err_t \<times> ('a ipstate_scheme) nic) option" where
  "tcp_connect env C t dest port connected s =
     (if tstate (cb t s) \<noteq> CLOSED then Some (ERR_ISCONN, s)
      else case dest of None \<Rightarrow> Some (ERR_VAL, s)
      | Some addr \<Rightarrow> do {
          let s = upd_cb t (\<lambda>b. b\<lparr>remote_ip := addr\<rparr>) s;
          let s = upd_cb t (\<lambda>b. b\<lparr>remote_port := port\<rparr>) s;
          s \<leftarrow> (if local_port (cb t s) = 0 then
                 do { (lport, T) \<leftarrow> tcp_new_port (tcp (up s)); Some (upd_cb t (\<lambda>b. b\<lparr>local_port := lport\<rparr>) (upd_tcp (\<lambda>_. T) s)) }
               else Some s);
          let (sq, s) = tcp_next_iss s;
          let m = tcp_eff_send_mss 536 addr s;
          let s = upd_cb t (\<lambda>b. b\<lparr>rcv_nxt := 0, snd_nxt := sq, lastack := sq - 1, snd_lbb := sq - 1, rcv_wnd := TCP_WND,
                    rcv_ann_wnd := TCP_WND, rcv_ann_right_edge := 0, snd_wnd := TCP_WND, mss := m, cwnd := 1, ssthresh := m * 10,
                    tstate := SYN_SENT, cb_connected := connected\<rparr>) s;
          let s = tcp_reg Active t (tcp_rmv Bound t s);
          (ret, s) \<leftarrow> tcp_enqueue t None 0 TCP_SYN 0 TF_SEG_OPTS_MSS s;
          if ret = ERR_OK then do { (_, s) \<leftarrow> tcp_output env C t s; Some (ret, s) }
          else Some (ret, s)
        })"

section \<open>The slow timer\<close>

text \<open>The persist timer: probes at growing intervals while the window of the receiver is closed.\<close>

definition slow_persist ::
  "env \<Rightarrow> (('a ipstate_scheme) nic) ip_calls \<Rightarrow> nat \<Rightarrow> ('a ipstate_scheme) nic \<Rightarrow> ('a ipstate_scheme) nic option" where
  "slow_persist env C t s =
     do {
       let s = upd_cb t (\<lambda>b. b\<lparr>persist_cnt := persist_cnt b + 1\<rparr>) s;
       limit \<leftarrow> at tcp_persist_backoff (unat (persist_backoff (cb t s)) - 1);
       if persist_cnt (cb t s) \<ge> ucast limit then
         tcp_zero_window_probe env C t
           (upd_cb t (\<lambda>b. b\<lparr>persist_cnt := 0, persist_backoff := (if persist_backoff b < 7 then persist_backoff b + 1 else persist_backoff b)\<rparr>) s)
       else Some s
     }"

text \<open>The retransmission timer.\<close>

definition backed_off :: "tcp_pcb \<Rightarrow> u8 \<Rightarrow> u16" where
  "backed_off b k = of_int (push_bit (unat k) (drop_bit 3 (sint (rtt_sa b)) + sint (rtt_sv b)))"

definition congested :: "tcp_pcb \<Rightarrow> tcp_pcb" where
  "congested b =
     (let eff_wnd = min (cwnd b) (snd_wnd b);
          half = drop_bit 1 eff_wnd
      in b\<lparr>ssthresh := (if half < mss b then mss b * 2 else half), cwnd := mss b\<rparr>)"

definition slow_rexmit ::
  "env \<Rightarrow> (('a ipstate_scheme) nic) ip_calls \<Rightarrow> nat \<Rightarrow> ('a ipstate_scheme) nic \<Rightarrow> ('a ipstate_scheme) nic option" where
  "slow_rexmit env C t s =
     (let s = (if 0 \<le> sint (rtime (cb t s)) then upd_cb t (\<lambda>b. b\<lparr>rtime := rtime b + 1\<rparr>) s else s)
      in if unacked (cb t s) \<noteq> [] \<and> sint (rtime (cb t s)) \<ge> sint (rto (cb t s)) then
           do {
             s \<leftarrow> (if tstate (cb t s) \<noteq> SYN_SENT then
                    do { k \<leftarrow> at tcp_backoff (unat (nrtx (cb t s))); Some (upd_cb t (\<lambda>b. b\<lparr>rto := backed_off b k\<rparr>) s) }
                  else Some s);
             let s = upd_cb t (\<lambda>b. b\<lparr>rtime := 0\<rparr>) s;
             let s = upd_cb t congested s;
             tcp_rexmit_rto env C t s
           }
         else Some s)"

text \<open>How long ago a block was last heard of, in ticks.\<close>

definition idle :: "nat \<Rightarrow> ('a netstate_scheme) nic \<Rightarrow> u32" where
  "idle t s = tcp_ticks (tcp (up s)) - tmr (cb t s)"

definition slow_keepalive ::
  "env \<Rightarrow> (('a ipstate_scheme) nic) ip_calls \<Rightarrow> (('a ipstate_scheme) nic) tcp_app \<Rightarrow> nat \<Rightarrow>
   ('a ipstate_scheme) nic \<Rightarrow> ('a ipstate_scheme) nic option" where
  "slow_keepalive env C A t s =
     (if so_options (cb t s) AND SOF_KEEPALIVE \<noteq> 0 \<and> tstate (cb t s) \<in> {ESTABLISHED, CLOSE_WAIT} then
        if idle t s > (keep_idle (cb t s) + keep_cnt (cb t s) * keep_intvl (cb t s)) div TCP_SLOW_INTERVAL
        then tcp_abort env C A t s
        else if idle t s > (keep_idle (cb t s) + ucast (keep_cnt_sent (cb t s)) * keep_intvl (cb t s)) div TCP_SLOW_INTERVAL
        then do {
          s \<leftarrow> tcp_keepalive env C t s;
          Some (upd_cb t (\<lambda>b. b\<lparr>keep_cnt_sent := keep_cnt_sent b + 1\<rparr>) s)
        }
        else Some s
      else Some s)"

text \<open>
  The walk over the active blocks. Removing a block relinks the one the code went over before it, or the head of the list
  when there was none.
\<close>

definition unlink :: "nat option \<Rightarrow> nat \<Rightarrow> nat list \<Rightarrow> nat list" where
  "unlink prev t l =
     (let rest = tl (dropWhile (\<lambda>x. x \<noteq> t) l)
      in case prev of None \<Rightarrow> rest
         | Some q \<Rightarrow> if q \<in> set l then takeWhile (\<lambda>x. x \<noteq> q) l @ q # rest else l)"

definition slow_pcb ::
  "env \<Rightarrow> (('a ipstate_scheme) nic) ip_calls \<Rightarrow> (('a ipstate_scheme) nic) tcp_app \<Rightarrow> nat \<Rightarrow>
   ('a ipstate_scheme) nic \<Rightarrow> (bool \<times> ('a ipstate_scheme) nic) option" where
  "slow_pcb env C A t s =
     do {
       let given_up = (tstate (cb t s) = SYN_SENT \<and> nrtx (cb t s) = TCP_SYNMAXRTX) \<or> nrtx (cb t s) = TCP_MAXRTX;
       s \<leftarrow> (if given_up then Some s
            else if persist_backoff (cb t s) > 0 then slow_persist env C t s
            else slow_rexmit env C t s);
       let remove = given_up \<or> (tstate (cb t s) = FIN_WAIT_2 \<and> idle t s > TCP_FIN_WAIT_TIMEOUT div TCP_SLOW_INTERVAL);
       s \<leftarrow> slow_keepalive env C A t s;
       s \<leftarrow> still t s;
       let remove = remove \<or> (tstate (cb t s) = SYN_RCVD \<and> idle t s > TCP_SYN_RCVD_TIMEOUT div TCP_SLOW_INTERVAL);
       Some (remove \<or> (tstate (cb t s) = LAST_ACK \<and> idle t s > 2 * TCP_MSL div TCP_SLOW_INTERVAL), s)
     }"

definition slow_poll ::
  "env \<Rightarrow> (('a ipstate_scheme) nic) ip_calls \<Rightarrow> (('a ipstate_scheme) nic) tcp_app \<Rightarrow> nat \<Rightarrow>
   ('a ipstate_scheme) nic \<Rightarrow> ('a ipstate_scheme) nic option" where
  "slow_poll env C A t s =
     (let s = upd_cb t (\<lambda>b. b\<lparr>polltmr := polltmr b + 1\<rparr>) s
      in if polltmr (cb t s) \<ge> pollinterval (cb t s) then
           do {
             (err, s) \<leftarrow> event_poll A t (upd_cb t (\<lambda>b. b\<lparr>polltmr := 0\<rparr>) s);
             if err = ERR_OK then do { s \<leftarrow> still t s; (_, s) \<leftarrow> tcp_output env C t s; Some s } else Some s
           }
         else Some s)"

partial_function (option) slow_active ::
  "env \<Rightarrow> (('a ipstate_scheme) nic) ip_calls \<Rightarrow> (('a ipstate_scheme) nic) tcp_app \<Rightarrow> nat option \<Rightarrow> nat option \<Rightarrow>
   ('a ipstate_scheme) nic \<Rightarrow> ('a ipstate_scheme) nic option" where
  "slow_active env C A prev pcb s =
     (case pcb of None \<Rightarrow> Some s
      | Some t \<Rightarrow> do {
          s \<leftarrow> still t s;
          (remove, s) \<leftarrow> slow_pcb env C A t s;
          if remove then
            do {
              s \<leftarrow> tcp_pcb_purge t s;
              let pcb2 = pcb_next t (tcp (up s));
              let s = upd_tcp (\<lambda>T. T\<lparr>active_pcbs := unlink prev t (active_pcbs T)\<rparr>) s;
              s \<leftarrow> event_err A (cb_err (cb t s)) (callback_arg (cb t s)) ERR_ABRT s;
              slow_active env C A prev pcb2 (on_pm (memp_free_on MEMP_TCP_PCB t) s)
            }
          else
            do {
              s \<leftarrow> slow_poll env C A t s;
              s \<leftarrow> still t s;
              slow_active env C A (Some t) (pcb_next t (tcp (up s))) s
            }
        })"

primrec slow_timewait :: "nat list \<Rightarrow> ('a netstate_scheme) nic \<Rightarrow> ('a netstate_scheme) nic option" where
  "slow_timewait [] s = Some s"
| "slow_timewait (t # ts) s =
     do {
       s \<leftarrow> (if idle t s > 2 * TCP_MSL div TCP_SLOW_INTERVAL then
              do { s \<leftarrow> tcp_pcb_purge t s; Some (on_pm (memp_free_on MEMP_TCP_PCB t) (tcp_rmv TimeWait t s)) }
            else Some s);
       slow_timewait ts s
     }"

definition tcp_slowtmr ::
  "env \<Rightarrow> (('a ipstate_scheme) nic) ip_calls \<Rightarrow> (('a ipstate_scheme) nic) tcp_app \<Rightarrow>
   ('a ipstate_scheme) nic \<Rightarrow> ('a ipstate_scheme) nic option" where
  "tcp_slowtmr env C A s =
     do {
       let s = upd_tcp (\<lambda>T. T\<lparr>tcp_ticks := tcp_ticks T + 1\<rparr>) s;
       s \<leftarrow> slow_active env C A None (first_of (active_pcbs (tcp (up s)))) s;
       slow_timewait (tw_pcbs (tcp (up s))) s
     }"

section \<open>The fast timer\<close>

partial_function (option) fast_active ::
  "env \<Rightarrow> (('a ipstate_scheme) nic) ip_calls \<Rightarrow> (('a ipstate_scheme) nic) tcp_app \<Rightarrow> nat option \<Rightarrow>
   ('a ipstate_scheme) nic \<Rightarrow> ('a ipstate_scheme) nic option" where
  "fast_active env C A pcb s =
     (case pcb of None \<Rightarrow> Some s
      | Some t \<Rightarrow> do {
          s \<leftarrow> (if refused_data (cb t s) \<noteq> None then
                 do {
                   (err, s) \<leftarrow> event_recv env C A t (refused_data (cb t s)) ERR_OK s;
                   s \<leftarrow> still t s;
                   Some (if err = ERR_OK then upd_cb t (\<lambda>b. b\<lparr>refused_data := None\<rparr>) s else s)
                 }
               else Some s);
          s \<leftarrow> (if tflags (cb t s) AND TF_ACK_DELAY \<noteq> 0 then
                 do {
                   s \<leftarrow> tcp_ack_now env C t s;
                   Some (upd_cb t (\<lambda>b. b\<lparr>tflags := tflags b AND NOT (TF_ACK_DELAY OR TF_ACK_NOW)\<rparr>) s)
                 }
               else Some s);
          fast_active env C A (pcb_next t (tcp (up s))) s
        })"

definition tcp_fasttmr ::
  "env \<Rightarrow> (('a ipstate_scheme) nic) ip_calls \<Rightarrow> (('a ipstate_scheme) nic) tcp_app \<Rightarrow>
   ('a ipstate_scheme) nic \<Rightarrow> ('a ipstate_scheme) nic option" where
  "tcp_fasttmr env C A s = fast_active env C A (first_of (active_pcbs (tcp (up s)))) s"

definition tcp_tmr ::
  "env \<Rightarrow> (('a ipstate_scheme) nic) ip_calls \<Rightarrow> (('a ipstate_scheme) nic) tcp_app \<Rightarrow>
   ('a ipstate_scheme) nic \<Rightarrow> ('a ipstate_scheme) nic option" where
  "tcp_tmr env C A s =
     do {
       s \<leftarrow> tcp_fasttmr env C A s;
       let s = upd_tcp (\<lambda>T. T\<lparr>tcp_timer := tcp_timer T + 1\<rparr>) s;
       if tcp_timer (tcp (up s)) AND 1 \<noteq> 0 then tcp_slowtmr env C A s else Some s
     }"

section \<open>Waiting connections end\<close>

definition expired :: "('a netstate_scheme) nic \<Rightarrow> nat \<Rightarrow> bool" where
  "expired s t \<longleftrightarrow> idle t s > 2 * TCP_MSL div TCP_SLOW_INTERVAL"

definition reaped :: "nat list \<Rightarrow> ('a netstate_scheme) nic \<Rightarrow> ('a netstate_scheme) nic" where
  "reaped ts s = on_pm (fold (memp_free_on MEMP_TCP_PCB) (filter (expired s) ts))
     (upd_tcp (\<lambda>T. T\<lparr>tw_pcbs := filter (\<lambda>t. \<not> (t \<in> set ts \<and> expired s t)) (tw_pcbs T)\<rparr>) s)"

lemma slow_timewait_runs:
  "distinct (tw_pcbs (tcp (up s))) \<Longrightarrow> set ts \<subseteq> set (tw_pcbs (tcp (up s))) \<Longrightarrow> distinct ts \<Longrightarrow>
   \<forall>t \<in> set ts. tstate (cb t s) = TIME_WAIT \<Longrightarrow> slow_timewait ts s = Some (reaped ts s)"
proof (induction ts arbitrary: s)
  case Nil
  then show ?case by (simp add: reaped_def on_pm_def upd_tcp_def upd_up_def)
next
  case (Cons t ts)
  let ?s1 = "on_pm (memp_free_on MEMP_TCP_PCB t) (tcp_rmv TimeWait t s)"
  have pu: "tcp_pcb_purge t s = Some s" using Cons.prems(4) by (simp add: tcp_pcb_purge_def)
  show ?case
  proof (cases "expired s t")
    case False
    then have "slow_timewait (t # ts) s = Some (reaped ts s)" using Cons by (simp add: expired_def)
    also have "reaped ts s = reaped (t # ts) s"
    proof -
      have "(\<lambda>x. \<not> (x \<in> set (t # ts) \<and> expired s x)) = (\<lambda>x. \<not> (x \<in> set ts \<and> expired s x))" using False by auto
      then show ?thesis using False by (simp only: reaped_def filter.simps if_False)
    qed
    finally show ?thesis .
  next
    case True
    have tw: "tw_pcbs (tcp (up ?s1)) = filter (\<lambda>x. x \<noteq> t) (tw_pcbs (tcp (up s)))"
      using Cons.prems(1) by (simp add: tcp_rmv_def upd_tcp_def upd_up_def on_pm_def TCP_RMV_remove1 distinct_remove1_removeAll removeAll_filter_not_eq)
        (rule filter_cong, auto)
    have e: "expired ?s1 = expired s" by (rule ext) (simp add: expired_def idle_def cb_def tcp_rmv_def upd_tcp_def upd_up_def on_pm_def)
    have c: "cb u ?s1 = cb u s" for u by (simp add: cb_def tcp_rmv_def upd_tcp_def upd_up_def on_pm_def)
    have "slow_timewait (t # ts) s = slow_timewait ts ?s1" using True pu by (simp add: expired_def)
    also have "\<dots> = Some (reaped ts ?s1)"
      by (rule Cons.IH) (use Cons.prems tw c in auto)
    also have "reaped ts ?s1 = reaped (t # ts) s"
    proof -
      have f: "(\<lambda>x. x \<noteq> t \<and> (x \<in> set ts \<longrightarrow> \<not> expired s x)) = (\<lambda>x. x \<noteq> t \<and> x \<notin> set ts \<or> \<not> expired s x)"
        using True by auto
      have e': "expired (s\<lparr>up := (up s)\<lparr>tcp := (tcp (up s))\<lparr>tw_pcbs := L\<rparr>\<rparr>, pm := m\<rparr>) = expired s" for L m
        by (rule ext) (simp add: expired_def idle_def cb_def)
      show ?thesis using True tw by (simp add: reaped_def on_pm_def upd_tcp_def upd_up_def tcp_rmv_def e' f)
    qed
    finally show ?thesis .
  qed
qed


lemma memp_free_fold: "pools (fold (memp_free_on k) ts m) = (pools m)(k := rev ts @ pools m k)"
  by (induction ts arbitrary: m) (auto simp: memp_free_on_def memp_free_def)

text \<open>C18: waiting connections end. \<^verbatim>\<open>tcp_slowtmr\<close> takes exactly those blocks off the list of waiting ones that have been there for
  more than two segment lifetimes, gives each back to the pool once, and changes no other list and no block.\<close>

theorem slow_timewait_reaps:
  assumes "distinct (tw_pcbs (tcp (up s)))" "\<forall>t \<in> set (tw_pcbs (tcp (up s))). tstate (cb t s) = TIME_WAIT"
  shows "\<exists>s'. slow_timewait (tw_pcbs (tcp (up s))) s = Some s' \<and>
    tcp (up s') = (tcp (up s))\<lparr>tw_pcbs := filter (\<lambda>t. \<not> idle t s > 240) (tw_pcbs (tcp (up s)))\<rparr> \<and>
    pools (pm s') = (pools (pm s))(MEMP_TCP_PCB := rev (filter (\<lambda>t. idle t s > 240) (tw_pcbs (tcp (up s)))) @ pools (pm s) MEMP_TCP_PCB)"
proof -
  have "expired s = (\<lambda>t. idle t s > 240)" by (rule ext) (simp add: expired_def)
  moreover have "filter (\<lambda>t. \<not> (t \<in> set l \<and> P t)) l = filter (\<lambda>t. \<not> P t) l" for P :: "nat \<Rightarrow> bool" and l by (auto intro: filter_cong)
  ultimately show ?thesis using slow_timewait_runs [OF assms(1) _ assms(1) assms(2)]
    by (simp add: reaped_def memp_free_fold on_pm_def upd_tcp_def upd_up_def del: not_less)
qed


definition waiting_example :: "netstate nic" where
  "waiting_example = \<lparr>descs = (\<lambda>_. \<lparr>Status = 0, ControlBufferSize = 0, Buffer1Addr = null_ptr, Buffer2NextDescAddr = DMATxDscrTab 0\<rparr>),
     DMATxDescToSet = DMATxDscrTab 0, DMARxDescToGet = DMARxDscrTab 0,
     pm = \<lparr>pbs = (\<lambda>_. None), dat = (\<lambda>_ _. 0), pools = (\<lambda>_. []), heap = \<lparr>ram = (\<lambda>_. \<lparr>nxt = 0, prv = 0, used = False\<rparr>), lfree = 0\<rparr>\<rparr>,
     io = [],
     up = \<lparr>netifs = (\<lambda>_. undefined), netif_list = [], netif_default = None, netifnum = 0,
           tcp = \<lparr>pcbs = (\<lambda>t. zero_pcb\<lparr>tstate := TIME_WAIT, tmr := (if t = 5 then 700 else 900)\<rparr>), bound_pcbs = [], listen_pcbs = [],
             active_pcbs = [], tw_pcbs = [6, 5], new_port = 4096, tcp_ticks = 1000, tcp_timer = 0, iss = 6510, tcp_input_pcb = None\<rparr>\<rparr>\<rparr>"

lemma slow_timewait_reaps_witness:
  "\<exists>s'. slow_timewait [6, 5] waiting_example = Some s' \<and> tw_pcbs (tcp (up s')) = [6] \<and> pools (pm s') MEMP_TCP_PCB = [5]"
proof -
  have "tw_pcbs (tcp (up waiting_example)) = [6, 5]" "pools (pm waiting_example) = (\<lambda>_. [])"
    "\<forall>t. tstate (cb t waiting_example) = TIME_WAIT" "idle 5 waiting_example = 300" "idle 6 waiting_example = 100"
    by (simp_all add: waiting_example_def cb_def idle_def)
  then show ?thesis using slow_timewait_reaps [of waiting_example] by auto
qed

end
