(* ===== verification/TcpIn.thy ===== *)
theory TcpIn
  imports TcpTimers
begin

text \<open>
  Receiving in TCP, \<^verbatim>\<open>tcp_in.c\<close>: finding the connection a segment belongs to, the options, the state machine, and the
  handling of acknowledgements and data. The file's static variables about the segment under way are a record that is
  passed along. Segments that arrive out of order are not kept in the build.
\<close>

record tcp_rx =
  inseg :: tcp_seg
  tcphdr :: ptr
  iphdr :: ptr
  seqno :: u32
  ackno :: u32
  rx_flags :: u8
  tcplen :: u16
  recv_flags :: u8
  recv_data :: "addr option"

abbreviation (input) TF_RESET :: u8 where "TF_RESET \<equiv> 0x08"
abbreviation (input) TF_CLOSED :: u8 where "TF_CLOSED \<equiv> 0x10"
abbreviation (input) TF_GOT_FIN :: u8 where "TF_GOT_FIN \<equiv> 0x20"
abbreviation (input) PBUF_FLAG_PUSH :: u8 where "PBUF_FLAG_PUSH \<equiv> 0x01"

definition has :: "tcp_rx \<Rightarrow> u8 \<Rightarrow> bool" where
  "has x f \<longleftrightarrow> rx_flags x AND f \<noteq> 0"

text \<open>The reset that answers a segment; ports and addresses are read from its headers.\<close>

definition rst_reply ::
  "env \<Rightarrow> (('a ipstate_scheme) nic) ip_calls \<Rightarrow> tcp_rx \<Rightarrow> u32 \<Rightarrow> ('a ipstate_scheme) nic \<Rightarrow> ('a ipstate_scheme) nic option" where
  "rst_reply env C x sq s =
     tcp_rst env C sq (seqno x + ucast (tcplen x)) (get32 (iphdr x) 16 (pm s)) (get32 (iphdr x) 12 (pm s))
       (get16 (tcphdr x) 2 (pm s)) (get16 (tcphdr x) 0 (pm s)) s"

section \<open>Options\<close>

partial_function (option) parse_loop :: "ptr \<Rightarrow> u16 \<Rightarrow> u16 \<Rightarrow> pmem \<Rightarrow> u16 \<Rightarrow> u16 option" where
  "parse_loop opts max_c c m best =
     (if c < max_c then
        let opt = get8 opts (unat c) m in
        if opt = 0x00 then Some best
        else if opt = 0x01 then parse_loop opts max_c (c + 1) m best
        else if opt = 0x02 then
          if get8 opts (unat c + 1) m \<noteq> 0x04 \<or> uint c + 4 > uint max_c then Some best
          else
            let n = push_bit 8 (ucast (get8 opts (unat c + 2) m)) OR ucast (get8 opts (unat c + 3) m)
            in parse_loop opts max_c (c + 4) m (if n > TCP_MSS \<or> n = 0 then TCP_MSS else n)
        else if get8 opts (unat c + 1) m = 0 then Some best
        else parse_loop opts max_c (c + ucast (get8 opts (unat c + 1) m)) m best
      else Some best)"

definition tcp_parseopt :: "tcp_rx \<Rightarrow> nat \<Rightarrow> ('a netstate_scheme) nic \<Rightarrow> ('a netstate_scheme) nic option" where
  "tcp_parseopt x t s =
     (let hdrlen = TCPH_HDRLEN (tcphdr x) (pm s) in
      if hdrlen > 5 then
        do {
          n \<leftarrow> parse_loop (padd (tcphdr x) TCP_HLEN) (push_bit 2 (hdrlen - 5)) 0 (pm s) (mss (cb t s));
          Some (upd_cb t (\<lambda>b. b\<lparr>mss := n\<rparr>) s)
        }
      else Some s)"

section \<open>Acknowledgements\<close>

text \<open>The window of the sender, and the persist timer that ends when it opens.\<close>

definition window_update :: "tcp_rx \<Rightarrow> u16 \<Rightarrow> tcp_pcb \<Rightarrow> tcp_pcb" where
  "window_update x wnd b =
     (if TCP_SEQ_LT (snd_wl1 b) (seqno x) \<or> (snd_wl1 b = seqno x \<and> TCP_SEQ_LT (snd_wl2 b) (ackno x)) \<or>
         (snd_wl2 b = ackno x \<and> wnd > snd_wnd b)
      then let b = b\<lparr>snd_wnd := wnd, snd_wl1 := seqno x, snd_wl2 := ackno x\<rparr>
           in if snd_wnd b > 0 \<and> persist_backoff b > 0 then b\<lparr>persist_backoff := 0\<rparr> else b
      else b)"

text \<open>The arithmetic is that of \<^verbatim>\<open>int\<close>, cut to 16 bits when it is stored.\<close>

definition inflate :: "tcp_pcb \<Rightarrow> tcp_pcb" where
  "inflate b = (if cwnd b + mss b > cwnd b then b\<lparr>cwnd := cwnd b + mss b\<rparr> else b)"

definition fast_recovery :: "tcp_pcb \<Rightarrow> tcp_pcb" where
  "fast_recovery b =
     (let b = b\<lparr>ssthresh := (if cwnd b > snd_wnd b then snd_wnd b div 2 else cwnd b div 2)\<rparr>;
          b = (if uint (ssthresh b) < 2 * uint (mss b) then b\<lparr>ssthresh := 2 * mss b\<rparr> else b)
      in b\<lparr>cwnd := ssthresh b + 3 * mss b, tflags := tflags b OR TF_INFR\<rparr>)"

definition duplicate_ack ::
  "env \<Rightarrow> (('a ipstate_scheme) nic) ip_calls \<Rightarrow> nat \<Rightarrow> u32 \<Rightarrow> ('a ipstate_scheme) nic \<Rightarrow> ('a ipstate_scheme) nic option" where
  "duplicate_ack env C t right_wnd_edge s =
     (let s = upd_cb t (\<lambda>b. b\<lparr>acked := 0\<rparr>) s
      in if snd_wl2 (cb t s) + ucast (snd_wnd (cb t s)) = right_wnd_edge then
           let s = upd_cb t (\<lambda>b. b\<lparr>dupacks := dupacks b + 1\<rparr>) s
           in if dupacks (cb t s) \<ge> 3 \<and> unacked (cb t s) \<noteq> [] then
                if tflags (cb t s) AND TF_INFR = 0 then
                  do { s \<leftarrow> tcp_rexmit env C t s; Some (upd_cb t fast_recovery s) }
                else Some (upd_cb t inflate s)
              else Some s
         else Some s)"

text \<open>Taking the acknowledged segments off the front of a queue.\<close>

fun drop_acked :: "(tcp_seg \<Rightarrow> pmem \<Rightarrow> bool) \<Rightarrow> tcp_seg list \<Rightarrow> u16 \<Rightarrow> pmem \<Rightarrow> ((tcp_seg list \<times> u16) \<times> pmem) option" where
  "drop_acked done [] queuelen m = Some (([], queuelen), m)"
| "drop_acked done (g # gs) queuelen m =
     (if done g m then
        do { n \<leftarrow> pbuf_clen (seg_p g) m; (_, m) \<leftarrow> tcp_seg_free g m; drop_acked done gs (queuelen - ucast n) m }
      else Some ((g # gs, queuelen), m))"

definition seg_last :: "tcp_seg \<Rightarrow> pmem \<Rightarrow> u32" where
  "seg_last g m = seg_seqno g m + TCP_TCPLEN g m"

definition rto_of :: "tcp_pcb \<Rightarrow> u16" where
  "rto_of b = signed_drop_bit 3 (rtt_sa b) + rtt_sv b"

text \<open>Slow start below the threshold, congestion avoidance above; the quotient has no value for an empty window.\<close>

definition open_cwnd :: "tcp_pcb \<Rightarrow> tcp_pcb option" where
  "open_cwnd b =
     (if tstate b \<in> {CLOSED, LISTEN, SYN_SENT, SYN_RCVD} then Some b
      else if cwnd b < ssthresh b then Some (inflate b)
      else if cwnd b = 0 then None
      else let new_cwnd = of_int (uint (cwnd b) + uint (mss b) * uint (mss b) div uint (cwnd b))
           in Some (if new_cwnd > cwnd b then b\<lparr>cwnd := new_cwnd\<rparr> else b))"

definition new_ack ::
  "tcp_rx \<Rightarrow> nat \<Rightarrow> ('a netstate_scheme) nic \<Rightarrow> ('a netstate_scheme) nic option" where
  "new_ack x t s =
     do {
       let s = upd_cb t (\<lambda>b. if tflags b AND TF_INFR \<noteq> 0 then b\<lparr>tflags := tflags b AND NOT TF_INFR, cwnd := ssthresh b\<rparr> else b) s;
       let s = upd_cb t (\<lambda>b. b\<lparr>nrtx := 0, rto := rto_of b, acked := ucast (ackno x - lastack b)\<rparr>) s;
       let s = upd_cb t (\<lambda>b. b\<lparr>snd_buf := snd_buf b + acked b, dupacks := 0, lastack := ackno x\<rparr>) s;
       b \<leftarrow> open_cwnd (cb t s);
       let s = upd_cb t (\<lambda>_. b) s;
       ((l, n), s) \<leftarrow> with_pm (drop_acked (\<lambda>g m. TCP_SEQ_LEQ (seg_last g m) (ackno x)) (unacked b) (snd_queuelen b)) s;
       Some (upd_cb t (\<lambda>b. b\<lparr>unacked := l, snd_queuelen := n, rtime := (if l = [] then - 1 else 0), polltmr := 0\<rparr>) s)
     }"

text \<open>The estimate of the round-trip time.\<close>

definition estimate_rtt :: "u32 \<Rightarrow> tcp_rx \<Rightarrow> tcp_pcb \<Rightarrow> tcp_pcb" where
  "estimate_rtt now x b =
     (if rttest b \<noteq> 0 \<and> TCP_SEQ_LT (rtseq b) (ackno x) then
        let m = ucast (now - rttest b);
            m = m - signed_drop_bit 3 (rtt_sa b);
            b = b\<lparr>rtt_sa := rtt_sa b + m\<rparr>;
            m = (if sint m < 0 then - m else m);
            m = m - signed_drop_bit 2 (rtt_sv b);
            b = b\<lparr>rtt_sv := rtt_sv b + m\<rparr>
        in b\<lparr>rto := rto_of b, rttest := 0\<rparr>
      else b)"

definition receive_ack ::
  "env \<Rightarrow> (('a ipstate_scheme) nic) ip_calls \<Rightarrow> tcp_rx \<Rightarrow> nat \<Rightarrow> ('a ipstate_scheme) nic \<Rightarrow> ('a ipstate_scheme) nic option" where
  "receive_ack env C x t s =
     do {
       let right_wnd_edge = ucast (snd_wnd (cb t s)) + snd_wl2 (cb t s);
       let s = upd_cb t (window_update x (get16 (tcphdr x) 14 (pm s))) s;
       s \<leftarrow> (if lastack (cb t s) = ackno x then duplicate_ack env C t right_wnd_edge s
            else if TCP_SEQ_BETWEEN (ackno x) (lastack (cb t s) + 1) (snd_nxt (cb t s)) then new_ack x t s
            else Some (upd_cb t (\<lambda>b. b\<lparr>acked := 0\<rparr>) s));
       let nxt = snd_nxt (cb t s);
       ((l, n), s) \<leftarrow> with_pm (drop_acked (\<lambda>g m. TCP_SEQ_BETWEEN (ackno x) (seg_last g m) nxt) (unsent (cb t s)) (snd_queuelen (cb t s))) s;
       let s = upd_cb t (\<lambda>b. b\<lparr>unsent := l, snd_queuelen := n\<rparr>) s;
       Some (upd_cb t (estimate_rtt (tcp_ticks (tcp (up s))) x) s)
     }"

section \<open>Data\<close>

definition tcp_ack ::
  "env \<Rightarrow> (('a ipstate_scheme) nic) ip_calls \<Rightarrow> nat \<Rightarrow> ('a ipstate_scheme) nic \<Rightarrow> ('a ipstate_scheme) nic option" where
  "tcp_ack env C t s =
     (if tflags (cb t s) AND TF_ACK_DELAY \<noteq> 0
      then tcp_ack_now env C t (upd_cb t (\<lambda>b. b\<lparr>tflags := tflags b AND NOT TF_ACK_DELAY\<rparr>) s)
      else Some (upd_cb t (\<lambda>b. b\<lparr>tflags := tflags b OR TF_ACK_DELAY\<rparr>) s))"

text \<open>Cutting what was received before off the front of a packet: the buffers that are emptied, and the one the data begins in.\<close>

partial_function (option) trim_loop :: "addr option \<Rightarrow> int \<Rightarrow> u16 \<Rightarrow> pmem \<Rightarrow> ((addr \<times> int) \<times> pmem) option" where
  "trim_loop po off new_tot_len m =
     do {
       p \<leftarrow> po;
       b \<leftarrow> pbs m p;
       if uint (plen b) < off
       then trim_loop (p_next b) (off - uint (plen b)) new_tot_len (Pbuf.put p (b\<lparr>tot_len := new_tot_len, plen := 0\<rparr>) m)
       else Some ((p, off), m)
     }"

definition trim_front ::
  "tcp_rx \<Rightarrow> nat \<Rightarrow> ('a netstate_scheme) nic \<Rightarrow> (tcp_rx \<times> ('a netstate_scheme) nic) option" where
  "trim_front x t s =
     do {
       let off = sint (rcv_nxt (cb t s) - seqno x);
       q \<leftarrow> seg_p (inseg x);
       b \<leftarrow> pbs (pm s) q;
       ((p, off), s) \<leftarrow> (if uint (plen b) < off then with_pm (trim_loop (Some q) off (of_int (uint (tot_len b) - off))) s
                        else Some ((q, off), s));
       (_, s) \<leftarrow> with_pm (pbuf_header (Some p) (of_int (- off))) s;
       b \<leftarrow> pbs (pm s) p;
       let g = inseg x;
       let g = g\<lparr>dataptr := Some (payload b), seg_len := seg_len g - ucast (rcv_nxt (cb t s) - seqno x)\<rparr>;
       let s = on_pm (put32 (seg_hdr g) 4 (rcv_nxt (cb t s))) s;
       Some (x\<lparr>inseg := g, seqno := rcv_nxt (cb t s)\<rparr>, s)
     }"

text \<open>Cutting what does not fit in the window off the end; a \<^verbatim>\<open>FIN\<close> that is cut off is taken out of the header.\<close>

definition trim_end :: "tcp_rx \<Rightarrow> nat \<Rightarrow> ('a netstate_scheme) nic \<Rightarrow> (tcp_rx \<times> ('a netstate_scheme) nic) option" where
  "trim_end x t s =
     (if tcplen x > rcv_wnd (cb t s) then
        do {
          let hdr = seg_hdr (inseg x);
          let s = (if TCPH_FLAGS hdr (pm s) AND TCP_FIN \<noteq> 0
                   then on_pm (\<lambda>m. TCPH_FLAGS_SET hdr (TCPH_FLAGS hdr m AND NOT TCP_FIN) m) s else s);
          let len = (if TCPH_FLAGS hdr (pm s) AND TCP_SYN \<noteq> 0 then rcv_wnd (cb t s) - 1 else rcv_wnd (cb t s));
          let g = inseg x;
          let g = g\<lparr>seg_len := len\<rparr>;
          p \<leftarrow> seg_p g;
          m \<leftarrow> pbuf_realloc p len (pm s);
          Some (x\<lparr>inseg := g, tcplen := ucast (TCP_TCPLEN g m)\<rparr>, s\<lparr>pm := m\<rparr>)
        }
      else Some (x, s))"

definition in_sequence ::
  "env \<Rightarrow> (('a ipstate_scheme) nic) ip_calls \<Rightarrow> tcp_rx \<Rightarrow> nat \<Rightarrow> ('a ipstate_scheme) nic \<Rightarrow> (tcp_rx \<times> ('a ipstate_scheme) nic) option" where
  "in_sequence env C x t s =
     do {
       (x, s) \<leftarrow> trim_end (x\<lparr>tcplen := ucast (TCP_TCPLEN (inseg x) (pm s))\<rparr>) t s;
       let s = upd_cb t (\<lambda>b. b\<lparr>rcv_nxt := seqno x + ucast (tcplen x), rcv_wnd := rcv_wnd b - tcplen x\<rparr>) s;
       let s = upd_cb t (\<lambda>b. snd (tcp_update_rcv_ann_wnd b)) s;
       p \<leftarrow> seg_p (inseg x);
       b \<leftarrow> pbs (pm s) p;
       let x = (if tot_len b > 0 then x\<lparr>recv_data := Some p, inseg := (inseg x)\<lparr>seg_p := None\<rparr>\<rparr> else x);
       let x = (if TCPH_FLAGS (seg_hdr (inseg x)) (pm s) AND TCP_FIN \<noteq> 0 then x\<lparr>recv_flags := recv_flags x OR TF_GOT_FIN\<rparr> else x);
       s \<leftarrow> tcp_ack env C t s;
       Some (x, s)
     }"

text \<open>The result tells whether the segment was the next in sequence.\<close>

definition receive_data ::
  "env \<Rightarrow> (('a ipstate_scheme) nic) ip_calls \<Rightarrow> tcp_rx \<Rightarrow> nat \<Rightarrow> ('a ipstate_scheme) nic \<Rightarrow> ((bool \<times> tcp_rx) \<times> ('a ipstate_scheme) nic) option" where
  "receive_data env C x t s =
     (if tcplen x > 0 then
        do {
          (x, s) \<leftarrow> (if TCP_SEQ_BETWEEN (rcv_nxt (cb t s)) (seqno x + 1) (seqno x + ucast (tcplen x) - 1) then trim_front x t s
                    else if TCP_SEQ_LT (seqno x) (rcv_nxt (cb t s)) then do { s \<leftarrow> tcp_ack_now env C t s; Some (x, s) }
                    else Some (x, s));
          if TCP_SEQ_BETWEEN (seqno x) (rcv_nxt (cb t s)) (rcv_nxt (cb t s) + ucast (rcv_wnd (cb t s)) - 1) \<and> rcv_nxt (cb t s) = seqno x
          then do { (x, s) \<leftarrow> in_sequence env C x t s; Some ((True, x), s) }
          else do { s \<leftarrow> tcp_ack_now env C t s; Some ((False, x), s) }
        }
      else if \<not> TCP_SEQ_BETWEEN (seqno x) (rcv_nxt (cb t s)) (rcv_nxt (cb t s) + ucast (rcv_wnd (cb t s)) - 1)
      then do { s \<leftarrow> tcp_ack_now env C t s; Some ((False, x), s) }
      else Some ((False, x), s))"

definition tcp_receive ::
  "env \<Rightarrow> (('a ipstate_scheme) nic) ip_calls \<Rightarrow> tcp_rx \<Rightarrow> nat \<Rightarrow> ('a ipstate_scheme) nic \<Rightarrow> ((bool \<times> tcp_rx) \<times> ('a ipstate_scheme) nic) option" where
  "tcp_receive env C x t s =
     do { s \<leftarrow> (if has x TCP_ACK then receive_ack env C x t s else Some s); receive_data env C x t s }"

section \<open>The state machine\<close>

definition set_state :: "nat \<Rightarrow> tcp_state \<Rightarrow> ('a netstate_scheme) nic \<Rightarrow> ('a netstate_scheme) nic" where
  "set_state t st = upd_cb t (\<lambda>b. b\<lparr>tstate := st\<rparr>)"

definition reset_acceptable :: "tcp_rx \<Rightarrow> tcp_pcb \<Rightarrow> bool" where
  "reset_acceptable x b \<longleftrightarrow>
     (if tstate b = SYN_SENT then ackno x = snd_nxt b
      else TCP_SEQ_BETWEEN (seqno x) (rcv_nxt b) (rcv_nxt b + ucast (rcv_wnd b)))"

definition to_time_wait :: "nat \<Rightarrow> ('a netstate_scheme) nic \<Rightarrow> ('a netstate_scheme) nic option" where
  "to_time_wait t s =
     do { s \<leftarrow> tcp_pcb_purge t s; Some (tcp_reg TimeWait t (set_state t TIME_WAIT (tcp_rmv Active t s))) }"

definition process_syn_sent ::
  "env \<Rightarrow> (('a ipstate_scheme) nic) ip_calls \<Rightarrow> (('a ipstate_scheme) nic) tcp_app \<Rightarrow> tcp_rx \<Rightarrow> nat \<Rightarrow>
   ('a ipstate_scheme) nic \<Rightarrow> ('a ipstate_scheme) nic option" where
  "process_syn_sent env C A x t s =
     (if has x TCP_ACK then
        do {
          expected \<leftarrow> (if has x TCP_SYN then
                        (case unacked (cb t s) of [] \<Rightarrow> None | g # _ \<Rightarrow> Some (ackno x = seg_seqno g (pm s) + 1))
                      else Some False);
          if expected then
            do {
              let wnd = get16 (tcphdr x) 14 (pm s);
              let s = upd_cb t (\<lambda>b. b\<lparr>snd_buf := snd_buf b + 1, rcv_nxt := seqno x + 1, rcv_ann_right_edge := seqno x + 1,
                        lastack := ackno x, snd_wnd := wnd, snd_wl1 := seqno x - 1, tstate := ESTABLISHED\<rparr>) s;
              let m = tcp_eff_send_mss (mss (cb t s)) (remote_ip (cb t s)) s;
              let s = upd_cb t (\<lambda>b. b\<lparr>mss := m, ssthresh := m * 10, cwnd := (if cwnd b = 1 then m * 2 else m),
                        snd_queuelen := snd_queuelen b - 1\<rparr>) s;
              let rseg = hd (unacked (cb t s));
              let s = upd_cb t (\<lambda>b. b\<lparr>unacked := tl (unacked b)\<rparr>) s;
              let s = upd_cb t (\<lambda>b. if unacked b = [] then b\<lparr>rtime := - 1\<rparr> else b\<lparr>rtime := 0, nrtx := 0\<rparr>) s;
              (_, s) \<leftarrow> with_pm (tcp_seg_free rseg) s;
              (_, s) \<leftarrow> event_connected A t ERR_OK s;
              s \<leftarrow> still t s;
              tcp_ack_now env C t s
            }
          else rst_reply env C x (ackno x) s
        }
      else Some s)"

text \<open>The result tells that the block is gone, as \<^verbatim>\<open>ERR_ABRT\<close> does.\<close>

definition process_syn_rcvd ::
  "env \<Rightarrow> (('a ipstate_scheme) nic) ip_calls \<Rightarrow> (('a ipstate_scheme) nic) tcp_app \<Rightarrow> tcp_rx \<Rightarrow> nat \<Rightarrow>
   ('a ipstate_scheme) nic \<Rightarrow> ((err_t \<times> tcp_rx) \<times> ('a ipstate_scheme) nic) option" where
  "process_syn_rcvd env C A x t s =
     (if has x TCP_ACK then
        if TCP_SEQ_BETWEEN (ackno x) (lastack (cb t s) + 1) (snd_nxt (cb t s)) then
          do {
            (err, s) \<leftarrow> event_accept A t ERR_OK (set_state t ESTABLISHED s);
            s \<leftarrow> still t s;
            if err \<noteq> ERR_OK then do { s \<leftarrow> tcp_abort env C A t s; Some ((ERR_ABRT, x), s) }
            else do {
              let old_cwnd = cwnd (cb t s);
              ((_, x), s) \<leftarrow> tcp_receive env C x t s;
              let s = upd_cb t (\<lambda>b. b\<lparr>cwnd := (if old_cwnd = 1 then mss b * 2 else mss b)\<rparr>) s;
              if recv_flags x AND TF_GOT_FIN \<noteq> 0
              then do { s \<leftarrow> tcp_ack_now env C t s; Some ((ERR_OK, x), set_state t CLOSE_WAIT s) }
              else Some ((ERR_OK, x), s)
            }
          }
        else do { s \<leftarrow> rst_reply env C x (ackno x) s; Some ((ERR_OK, x), s) }
      else if has x TCP_SYN \<and> seqno x = rcv_nxt (cb t s) - 1 then
        do { s \<leftarrow> tcp_rexmit env C t s; Some ((ERR_OK, x), s) }
      else Some ((ERR_OK, x), s))"

text \<open>The states in which the connection has been set up, once the data of the segment has been taken.\<close>

definition after_receive ::
  "env \<Rightarrow> (('a ipstate_scheme) nic) ip_calls \<Rightarrow> tcp_state \<Rightarrow> tcp_rx \<Rightarrow> nat \<Rightarrow> ('a ipstate_scheme) nic \<Rightarrow> (tcp_rx \<times> ('a ipstate_scheme) nic) option" where
  "after_receive env C st x t s =
     (let fin = recv_flags x AND TF_GOT_FIN \<noteq> 0; all_acked = has x TCP_ACK \<and> ackno x = snd_nxt (cb t s) in
      case st of
        FIN_WAIT_1 \<Rightarrow>
          if fin then do {
            s \<leftarrow> tcp_ack_now env C t s;
            s \<leftarrow> (if all_acked then to_time_wait t s else Some (set_state t CLOSING s));
            Some (x, s)
          }
          else if all_acked then Some (x, set_state t FIN_WAIT_2 s)
          else Some (x, s)
      | FIN_WAIT_2 \<Rightarrow>
          if fin then do { s \<leftarrow> tcp_ack_now env C t s; s \<leftarrow> to_time_wait t s; Some (x, s) } else Some (x, s)
      | CLOSING \<Rightarrow> if all_acked then do { s \<leftarrow> to_time_wait t s; Some (x, s) } else Some (x, s)
      | LAST_ACK \<Rightarrow> Some (if all_acked then x\<lparr>recv_flags := recv_flags x OR TF_CLOSED\<rparr> else x, s)
      | _ \<Rightarrow> if fin then do { s \<leftarrow> tcp_ack_now env C t s; Some (x, set_state t CLOSE_WAIT s) } else Some (x, s))"

definition tcp_process ::
  "env \<Rightarrow> (('a ipstate_scheme) nic) ip_calls \<Rightarrow> (('a ipstate_scheme) nic) tcp_app \<Rightarrow> tcp_rx \<Rightarrow> nat \<Rightarrow>
   ('a ipstate_scheme) nic \<Rightarrow> ((err_t \<times> tcp_rx) \<times> ('a ipstate_scheme) nic) option" where
  "tcp_process env C A x t s =
     (if has x TCP_RST then
        if reset_acceptable x (cb t s)
        then Some ((ERR_RST, x\<lparr>recv_flags := recv_flags x OR TF_RESET\<rparr>), upd_cb t (\<lambda>b. b\<lparr>tflags := tflags b AND NOT TF_ACK_DELAY\<rparr>) s)
        else Some ((ERR_OK, x), s)
      else if has x TCP_SYN \<and> tstate (cb t s) \<noteq> SYN_SENT \<and> tstate (cb t s) \<noteq> SYN_RCVD then
        do { s \<leftarrow> tcp_ack_now env C t s; Some ((ERR_OK, x), s) }
      else
        do {
          let s = upd_cb t (\<lambda>b. b\<lparr>tmr := tcp_ticks (tcp (up s)), keep_cnt_sent := 0\<rparr>) s;
          s \<leftarrow> tcp_parseopt x t s;
          case tstate (cb t s) of
            SYN_SENT \<Rightarrow> do { s \<leftarrow> process_syn_sent env C A x t s; Some ((ERR_OK, x), s) }
          | SYN_RCVD \<Rightarrow> process_syn_rcvd env C A x t s
          | CLOSED \<Rightarrow> Some ((ERR_OK, x), s)
          | LISTEN \<Rightarrow> Some ((ERR_OK, x), s)
          | TIME_WAIT \<Rightarrow> Some ((ERR_OK, x), s)
          | st \<Rightarrow> do {
              ((_, x), s) \<leftarrow> tcp_receive env C x t s;
              (x, s) \<leftarrow> after_receive env C st x t s;
              Some ((ERR_OK, x), s)
            }
        })"

section \<open>Listening and waiting\<close>

definition accept_syn :: "nat \<Rightarrow> tcp_rx \<Rightarrow> pmem \<Rightarrow> tcp_pcb \<Rightarrow> tcp_pcb \<Rightarrow> tcp_pcb" where
  "accept_syn t x m l b =
     b\<lparr>local_ip := get32 (iphdr x) 16 m, local_port := local_port l, remote_ip := get32 (iphdr x) 12 m, remote_port := get16 (tcphdr x) 0 m,
       tstate := SYN_RCVD, rcv_nxt := seqno x + 1, rcv_ann_right_edge := seqno x + 1, snd_wnd := get16 (tcphdr x) 14 m,
       ssthresh := get16 (tcphdr x) 14 m, snd_wl1 := seqno x - 1, callback_arg := callback_arg l, cb_accept := cb_accept l,
       so_options := so_options l AND 0x0199\<rparr>"

definition tcp_listen_input ::
  "env \<Rightarrow> (('a ipstate_scheme) nic) ip_calls \<Rightarrow> (('a ipstate_scheme) nic) tcp_app \<Rightarrow> tcp_rx \<Rightarrow> nat \<Rightarrow>
   ('a ipstate_scheme) nic \<Rightarrow> (err_t \<times> ('a ipstate_scheme) nic) option" where
  "tcp_listen_input env C A x l s =
     (if has x TCP_ACK then do { s \<leftarrow> rst_reply env C x (ackno x + 1) s; Some (ERR_OK, s) }
      else if has x TCP_SYN then
        do {
          (r, s) \<leftarrow> tcp_alloc env C A (prio (cb l s)) s;
          case r of None \<Rightarrow> Some (ERR_MEM, s)
          | Some t \<Rightarrow> do {
              let s = upd_cb t (accept_syn t x (pm s) (cb l s)) s;
              let s = tcp_reg Active t s;
              s \<leftarrow> tcp_parseopt x t s;
              let m = tcp_eff_send_mss (mss (cb t s)) (remote_ip (cb t s)) s;
              let s = upd_cb t (\<lambda>b. b\<lparr>mss := m\<rparr>) s;
              (rc, s) \<leftarrow> tcp_enqueue t None 0 (TCP_SYN OR TCP_ACK) 0 TF_SEG_OPTS_MSS s;
              if rc \<noteq> ERR_OK then do { s \<leftarrow> tcp_abandon env C A t False s; Some (rc, s) }
              else tcp_output env C t s
            }
        }
      else Some (ERR_OK, s))"

definition tcp_timewait_input ::
  "env \<Rightarrow> (('a ipstate_scheme) nic) ip_calls \<Rightarrow> tcp_rx \<Rightarrow> nat \<Rightarrow> ('a ipstate_scheme) nic \<Rightarrow> (err_t \<times> ('a ipstate_scheme) nic) option" where
  "tcp_timewait_input env C x t s =
     do {
       let right = seqno x + ucast (tcplen x);
       let s = (if TCP_SEQ_GT right (rcv_nxt (cb t s)) then upd_cb t (\<lambda>b. b\<lparr>rcv_nxt := right\<rparr>) s else s);
       s \<leftarrow> (if tcplen x > 0 then tcp_ack_now env C t s else Some s);
       tcp_output env C t s
     }"

section \<open>A segment arrives\<close>

definition to_front :: "nat \<Rightarrow> nat list \<Rightarrow> nat list" where
  "to_front t l = t # TCP_RMV t l"

definition for_conn :: "u16 \<Rightarrow> u16 \<Rightarrow> u32 \<Rightarrow> u32 \<Rightarrow> tcp_pcb \<Rightarrow> bool" where
  "for_conn src_port dest_port src dest b \<longleftrightarrow>
     remote_port b = src_port \<and> local_port b = dest_port \<and> remote_ip b = src \<and> local_ip b = dest"

definition for_listener :: "u16 \<Rightarrow> u32 \<Rightarrow> tcp_pcb \<Rightarrow> bool" where
  "for_listener dest_port dest b \<longleftrightarrow> (ip_addr_isany (Some (local_ip b)) \<or> local_ip b = dest) \<and> local_port b = dest_port"

text \<open>What is left to do for a connection once the state machine has run.\<close>

definition conclude ::
  "env \<Rightarrow> (('a ipstate_scheme) nic) ip_calls \<Rightarrow> (('a ipstate_scheme) nic) tcp_app \<Rightarrow> tcp_rx \<Rightarrow> nat \<Rightarrow>
   ('a ipstate_scheme) nic \<Rightarrow> ('a ipstate_scheme) nic option" where
  "conclude env C A x t s =
     (if recv_flags x AND TF_RESET \<noteq> 0 then
        do {
          s \<leftarrow> event_err A (cb_err (cb t s)) (callback_arg (cb t s)) ERR_RST s;
          s \<leftarrow> tcp_pcb_remove env C Active t s;
          Some (on_pm (memp_free_on MEMP_TCP_PCB t) s)
        }
      else if recv_flags x AND TF_CLOSED \<noteq> 0 then
        do { s \<leftarrow> tcp_pcb_remove env C Active t s; Some (on_pm (memp_free_on MEMP_TCP_PCB t) s) }
      else
        do {
          (err, s) \<leftarrow> (if acked (cb t s) > 0 then event_sent A t (acked (cb t s)) s else Some (ERR_OK, s));
          s \<leftarrow> still t s;
          (err, s) \<leftarrow> (case recv_data x of None \<Rightarrow> Some (err, s)
            | Some p \<Rightarrow> do {
                b \<leftarrow> pbs (pm s) p;
                let s = (if has x TCP_PSH then on_pm (Pbuf.put p (b\<lparr>pflags := pflags b OR PBUF_FLAG_PUSH\<rparr>)) s else s);
                (err, s) \<leftarrow> event_recv env C A t (Some p) ERR_OK s;
                s \<leftarrow> still t s;
                Some (err, if err \<noteq> ERR_OK then upd_cb t (\<lambda>b. b\<lparr>refused_data := Some p\<rparr>) s else s)
              });
          (err, s) \<leftarrow> (if recv_flags x AND TF_GOT_FIN \<noteq> 0 then event_recv env C A t None ERR_OK s else Some (err, s));
          if err = ERR_OK then do { s \<leftarrow> still t s; (_, s) \<leftarrow> tcp_output env C t s; Some s } else Some s
        })"

definition segment_for ::
  "env \<Rightarrow> (('a ipstate_scheme) nic) ip_calls \<Rightarrow> (('a ipstate_scheme) nic) tcp_app \<Rightarrow> addr \<Rightarrow> tcp_rx \<Rightarrow> nat \<Rightarrow>
   ('a ipstate_scheme) nic \<Rightarrow> ('a ipstate_scheme) nic option" where
  "segment_for env C A p x t s =
     do {
       (ok, s) \<leftarrow> (if refused_data (cb t s) \<noteq> None then
           do {
             (err, s) \<leftarrow> event_recv env C A t (refused_data (cb t s)) ERR_OK s;
             if err = ERR_OK then do { s \<leftarrow> still t s; Some (True, upd_cb t (\<lambda>b. b\<lparr>refused_data := None\<rparr>) s) }
             else Some (False, s)
           }
         else Some (True, s));
       if \<not> ok then free_packet p s
       else do {
         let s = upd_tcp (\<lambda>T. T\<lparr>tcp_input_pcb := Some t\<rparr>) s;
         ((err, x), s) \<leftarrow> tcp_process env C A x t s;
         let s = upd_tcp (\<lambda>T. T\<lparr>tcp_input_pcb := None\<rparr>) s;
         s \<leftarrow> (if err \<noteq> ERR_ABRT then conclude env C A x t s else Some s);
         case seg_p (inseg x) of None \<Rightarrow> Some s | Some q \<Rightarrow> free_packet q s
       }
     }"

text \<open>The header in host byte order, and what the segment is, once it has passed the checks.\<close>

definition read_segment :: "addr \<Rightarrow> ptr \<Rightarrow> ptr \<Rightarrow> ('a netstate_scheme) nic \<Rightarrow> (tcp_rx \<times> ('a netstate_scheme) nic) option" where
  "read_segment p ih th s =
     do {
       let s = on_pm (\<lambda>m. put16 th 0 (ntohs (get16 th 0 m)) m) s;
       let s = on_pm (\<lambda>m. put16 th 2 (ntohs (get16 th 2 m)) m) s;
       let s = on_pm (\<lambda>m. put32 th 4 (ntohl (get32 th 4 m)) m) s;
       let s = on_pm (\<lambda>m. put32 th 8 (ntohl (get32 th 8 m)) m) s;
       let s = on_pm (\<lambda>m. put16 th 14 (ntohs (get16 th 14 m)) m) s;
       b \<leftarrow> pbs (pm s) p;
       let fl = TCPH_FLAGS th (pm s);
       Some (\<lparr>inseg = \<lparr>seg_no = 0, seg_p = Some p, dataptr = Some (payload b), seg_len = tot_len b, seg_flags = 0, seg_hdr = th\<rparr>,
               tcphdr = th, iphdr = ih, seqno = get32 th 4 (pm s), ackno = get32 th 8 (pm s), rx_flags = fl,
               tcplen = tot_len b + (if fl AND (TCP_FIN OR TCP_SYN) \<noteq> 0 then 1 else 0), recv_flags = 0, recv_data = None\<rparr>, s)
     }"

definition demultiplex ::
  "env \<Rightarrow> (('a ipstate_scheme) nic) ip_calls \<Rightarrow> (('a ipstate_scheme) nic) tcp_app \<Rightarrow> addr \<Rightarrow> tcp_rx \<Rightarrow>
   ('a ipstate_scheme) nic \<Rightarrow> ('a ipstate_scheme) nic option" where
  "demultiplex env C A p x s =
     (let T = tcp (up s);
          src = get32 (iphdr x) 12 (pm s); dest = get32 (iphdr x) 16 (pm s);
          sport = get16 (tcphdr x) 0 (pm s); dport = get16 (tcphdr x) 2 (pm s)
      in case List.find (\<lambda>t. for_conn sport dport src dest (pcbs T t)) (active_pcbs T) of
           Some t \<Rightarrow> segment_for env C A p x t (upd_tcp (\<lambda>T. T\<lparr>active_pcbs := to_front t (active_pcbs T)\<rparr>) s)
         | None \<Rightarrow>
             (case List.find (\<lambda>t. for_conn sport dport src dest (pcbs T t)) (tw_pcbs T) of
                Some t \<Rightarrow> do { (_, s) \<leftarrow> tcp_timewait_input env C x t s; free_packet p s }
              | None \<Rightarrow>
                  (case List.find (\<lambda>l. for_listener dport dest (pcbs T l)) (listen_pcbs T) of
                     Some l \<Rightarrow> do {
                       (_, s) \<leftarrow> tcp_listen_input env C A x l (upd_tcp (\<lambda>T. T\<lparr>listen_pcbs := to_front l (listen_pcbs T)\<rparr>) s);
                       free_packet p s
                     }
                   | None \<Rightarrow> do {
                       s \<leftarrow> (if TCPH_FLAGS (tcphdr x) (pm s) AND TCP_RST = 0 then rst_reply env C x (ackno x) s else Some s);
                       free_packet p s
                     })))"

definition tcp_input ::
  "env \<Rightarrow> (('a ipstate_scheme) nic) ip_calls \<Rightarrow> (('a ipstate_scheme) nic) tcp_app \<Rightarrow> addr \<Rightarrow> nat \<Rightarrow>
   ('a ipstate_scheme) nic \<Rightarrow> ('a ipstate_scheme) nic option" where
  "tcp_input env C A p inp s =
     do {
       b \<leftarrow> pbs (pm s) p;
       let ih = payload b;
       let hlen = IPH_HL ih (pm s) * 4;
       let th = padd ih hlen;
       (r, s) \<leftarrow> with_pm (pbuf_header (Some p) (- hlen)) s;
       b \<leftarrow> pbs (pm s) p;
       if r \<noteq> 0 \<or> tot_len b < 20 then free_packet p s
       else if ip_addr_isbroadcast (get32 ih 16 (pm s)) (netifs (up s) inp) \<or> ip_addr_ismulticast (get32 ih 16 (pm s))
       then free_packet p s
       else do {
         c \<leftarrow> inet_chksum_pseudo (Some p) (get32 ih 12 (pm s)) (get32 ih 16 (pm s)) 6 (tot_len b) (pm s);
         if c \<noteq> 0 then free_packet p s
         else do {
           (r, s) \<leftarrow> with_pm (pbuf_header (Some p) (- (TCPH_HDRLEN th (pm s) * 4))) s;
           if r \<noteq> 0 then free_packet p s
           else do { (x, s) \<leftarrow> read_segment p ih th s; demultiplex env C A p x s }
         }
       }
     }"

end
