(* ===== verification/TcpMachine.thy ===== *)
theory TcpMachine
  imports TcpIn
begin

text \<open>
  What the TCP receive path guarantees: the options of a segment cannot hang it or set a useless segment size, the states of the
  connections follow RFC 793, and data in sequence is taken whole.
\<close>

section \<open>Options are harmless\<close>

lemma parse_loop_returns:
  "unat max_c \<le> 40 \<Longrightarrow> \<exists>n. parse_loop opts max_c c m best = Some n \<and> (n = best \<or> 0 < n \<and> n \<le> TCP_MSS)"
proof (induction "unat max_c - unat c" arbitrary: c best rule: less_induct)
  case less
  show ?case
  proof (cases "c < max_c")
    case False
    then show ?thesis by (subst parse_loop.simps) simp
  next
    case c: True
    have go: "\<exists>n. parse_loop opts max_c (c + k) m b = Some n \<and> (n = b \<or> 0 < n \<and> n \<le> TCP_MSS)"
      if "0 < unat k" "unat k < 256" for k b
    proof (rule less.hyps)
      have "unat (c + k) = unat c + unat k"
        using that c less.prems by (simp add: unat_word_ariths(1) word_less_nat_alt)
      then show "unat max_c - unat (c + k) < unat max_c - unat c" using that c by (simp add: word_less_nat_alt)
    qed (rule less.prems)
    let ?opt = "get8 opts (unat c) m" and ?len = "get8 opts (unat c + 1) m"
    let ?n = "push_bit 8 (ucast (get8 opts (unat c + 2) m)) OR ucast (get8 opts (unat c + 3) m) :: u16"
    let ?b = "if ?n > TCP_MSS \<or> ?n = 0 then TCP_MSS else ?n"
    have b: "0 < ?b \<and> ?b \<le> TCP_MSS" by (auto simp: word_neq_0_conv)
    have "unat ?len < 256" using unsigned_less [of ?len, where ?'a = nat] by simp
    then have len: "unat (ucast ?len :: u16) = unat ?len" by (simp add: unsigned_ucast_eq take_bit_nat_eq_self)
    show ?thesis
    proof (cases "?opt = 0 \<or> (?opt = 2 \<and> (?len \<noteq> 4 \<or> uint c + 4 > uint max_c)) \<or> (?opt \<noteq> 1 \<and> ?opt \<noteq> 2 \<and> ?len = 0)")
      case True
      then show ?thesis using c by (subst parse_loop.simps) (auto simp: Let_def)
    next
      case False
      then consider "?opt = 1" | "?opt = 2" | "?opt \<noteq> 0" "?opt \<noteq> 1" "?opt \<noteq> 2" "?len \<noteq> 0" by blast
      then show ?thesis
      proof cases
        case 1
        then have "parse_loop opts max_c c m best = parse_loop opts max_c (c + 1) m best"
          using c by (subst parse_loop.simps) (simp add: Let_def)
        then show ?thesis using go [of 1 best] by simp
      next
        case 2
        then have "parse_loop opts max_c c m best = parse_loop opts max_c (c + 4) m ?b"
          using c False by (subst parse_loop.simps) (simp add: Let_def)
        then show ?thesis using go [of 4 ?b] b by auto
      next
        case 3
        then have "parse_loop opts max_c c m best = parse_loop opts max_c (c + ucast ?len) m best"
          using c by (subst parse_loop.simps) (simp add: Let_def)
        moreover have "0 < unat (ucast ?len :: u16)" "unat (ucast ?len :: u16) < 256"
          using 3(4) \<open>unat ?len < 256\<close> by (simp_all only: len unat_gt_0 not_False_eq_True)
        ultimately show ?thesis using go [of "ucast ?len" best] by simp
      qed
    qed
  qed
qed

lemma upd_cb_same: "f (cb t s) = cb t s \<Longrightarrow> upd_cb t f s = s"
  by (simp add: upd_cb_def upd_tcp_def upd_up_def upd_pcb_def cb_def fun_upd_idem)

lemma times_four: "unat d \<le> 10 \<Longrightarrow> unat (push_bit 2 d) = 4 * unat d" for d :: u16
  by (subst unsigned_push_bit_eq) (simp add: push_bit_eq_mult take_bit_nat_eq_self)

text \<open>C16: whatever the options of a segment hold, \<^verbatim>\<open>tcp_parseopt\<close> returns, changes nothing but the segment size of the
  connection, and leaves it as it was or sets it to a value that is positive and no more than the configured size.\<close>

theorem tcp_parseopt_returns:
  "\<exists>n. tcp_parseopt x t s = Some (upd_cb t (\<lambda>b. b\<lparr>mss := n\<rparr>) s) \<and> (n = mss (cb t s) \<or> 0 < n \<and> n \<le> TCP_MSS)"
proof (cases "TCPH_HDRLEN (tcphdr x) (pm s) > 5")
  case False
  then show ?thesis by (intro exI [of _ "mss (cb t s)"]) (simp add: tcp_parseopt_def Let_def upd_cb_same)
next
  case True
  let ?h = "TCPH_HDRLEN (tcphdr x) (pm s)"
  have "unat ?h \<le> 15"
  proof -
    have "unat ?h = unat (ntohs (get16 (tcphdr x) 12 (pm s))) div 4096"
      by (simp add: TCPH_HDRLEN_def drop_bit_eq_div unat_div)
    then show ?thesis using unsigned_less [of "ntohs (get16 (tcphdr x) 12 (pm s))", where ?'a = nat] by simp
  qed
  moreover have "5 < unat ?h" using True by (simp add: word_less_nat_alt)
  ultimately have "unat (?h - 5) \<le> 10" by (simp add: unat_sub_if')
  then have "unat (push_bit 2 (?h - 5)) \<le> 40" using times_four by fastforce
  from parse_loop_returns [OF this] obtain n where
    n: "parse_loop (padd (tcphdr x) TCP_HLEN) (push_bit 2 (?h - 5)) 0 (pm s) (mss (cb t s)) = Some n"
    "n = mss (cb t s) \<or> 0 < n \<and> n \<le> TCP_MSS" by blast
  have "tcp_parseopt x t s = Some (upd_cb t (\<lambda>b. b\<lparr>mss := n\<rparr>) s)"
    using True by (simp only: tcp_parseopt_def Let_def if_True n(1) bind.simps)
  then show ?thesis using n(2) by blast
qed


section \<open>The state machine\<close>

text \<open>While a segment is processed the block it is for is marked, and \<^verbatim>\<open>tcp_output\<close> leaves it alone.\<close>

definition marked :: "nat \<Rightarrow> ('a netstate_scheme) nic \<Rightarrow> bool" where
  "marked t s \<longleftrightarrow> tcp_input_pcb (tcp (up s)) = Some t"

text \<open>What the handling of a segment leaves alone: the states, the lists and what has been sent.\<close>

definition calm :: "('a netstate_scheme) nic \<Rightarrow> ('a netstate_scheme) nic \<Rightarrow> bool" where
  "calm s s' \<longleftrightarrow> (let T = tcp (up s); T' = tcp (up s') in
     tcp_input_pcb T' = tcp_input_pcb T \<and> active_pcbs T' = active_pcbs T \<and> tw_pcbs T' = tw_pcbs T \<and>
     (\<forall>u. tstate (pcbs T' u) = tstate (pcbs T u) \<and> snd_nxt (pcbs T' u) = snd_nxt (pcbs T u)))"

lemma calm_refl [simp]: "calm s s" by (simp add: calm_def)

lemma calm_trans [trans]: "calm s s1 \<Longrightarrow> calm s1 s2 \<Longrightarrow> calm s s2" by (simp add: calm_def Let_def)

lemma calm_marked: "calm s s' \<Longrightarrow> marked t s' = marked t s" by (simp add: calm_def marked_def Let_def)

lemma calm_cb: "calm s s' \<Longrightarrow> tstate (cb u s') = tstate (cb u s) \<and> snd_nxt (cb u s') = snd_nxt (cb u s)"
  by (simp add: calm_def cb_def Let_def)

lemma calm_upd: "(\<And>b. tstate (f b) = tstate b \<and> snd_nxt (f b) = snd_nxt b) \<Longrightarrow> calm s (upd_cb t f s') = calm s s'"
  "(\<And>b. tstate (f b) = tstate b \<and> snd_nxt (f b) = snd_nxt b) \<Longrightarrow> calm (upd_cb t f s) s' = calm s s'"
  by (auto simp: calm_def Let_def upd_cb_def upd_tcp_def upd_up_def upd_pcb_def)

lemma cb_upd [simp]: "cb t (upd_cb u f s) = (if u = t then f (cb t s) else cb t s)" "cb t (on_pm g s) = cb t s" "cb t (s\<lparr>pm := m\<rparr>) = cb t s"
  by (simp_all add: cb_def upd_cb_def upd_tcp_def upd_up_def upd_pcb_def on_pm_def)

lemma pm_upd [simp]: "pm (upd_cb u f s) = pm s" "pm (on_pm g s) = g (pm s)"
  by (simp_all add: upd_cb_def upd_tcp_def upd_up_def on_pm_def)

lemma upd_twice [simp]: "upd_cb t f (upd_cb t g s) = upd_cb t (\<lambda>b. f (g b)) s"
  by (simp add: upd_cb_def upd_tcp_def upd_up_def upd_pcb_def)

lemma upd_cong: "f (cb t s) = g (cb t s) \<Longrightarrow> upd_cb t f s = upd_cb t g s"
  by (simp add: upd_cb_def upd_tcp_def upd_up_def upd_pcb_def cb_def)

lemma calm_pm [simp]: "calm s (on_pm f s') = calm s s'" "calm s (s'\<lparr>pm := m\<rparr>) = calm s s'" "calm (s\<lparr>pm := m\<rparr>) s' = calm s s'"
  by (simp_all add: calm_def on_pm_def)

lemma marked_upd [simp]: "marked t (upd_cb u f s) = marked t s" "marked t (on_pm g s) = marked t s" "marked t (s\<lparr>pm := m\<rparr>) = marked t s"
  by (simp_all add: marked_def upd_cb_def upd_tcp_def upd_up_def upd_pcb_def on_pm_def)

lemma with_pm_Some: "with_pm f s = Some (r, s') \<longleftrightarrow> (\<exists>m. f (pm s) = Some (r, m) \<and> s' = s\<lparr>pm := m\<rparr>)"
  by (auto simp: with_pm_def split: bind_splits)

lemma output_marked [simp]: "marked t s \<Longrightarrow> tcp_output env C t s = Some (ERR_OK, s)"
  by (simp add: marked_def tcp_output_def)

lemma ack_now_marked: "marked t s \<Longrightarrow> tcp_ack_now env C t s = Some (upd_cb t (\<lambda>b. b\<lparr>tflags := tflags b OR TF_ACK_NOW\<rparr>) s)"
  by (simp add: tcp_ack_now_def)

lemma ack_marked: "marked t s \<Longrightarrow> tcp_ack env C t s = Some (upd_cb t (\<lambda>b. b\<lparr>tflags :=
    (if tflags b AND TF_ACK_DELAY \<noteq> 0 then tflags b AND NOT TF_ACK_DELAY OR TF_ACK_NOW else tflags b OR TF_ACK_DELAY)\<rparr>) s)"
  by (auto simp: tcp_ack_def ack_now_marked intro: upd_cong)

lemma rexmit_calm: "marked t s \<Longrightarrow> tcp_rexmit env C t s = Some s' \<Longrightarrow> calm s s'"
  by (auto simp: tcp_rexmit_def calm_upd split: list.splits)

lemma duplicate_ack_calm: "marked t s \<Longrightarrow> duplicate_ack env C t e s = Some s' \<Longrightarrow> calm s s'"
  by (auto simp: duplicate_ack_def Let_def calm_upd fast_recovery_def inflate_def dest!: rexmit_calm [rotated]
      split: if_splits bind_splits)

lemma open_cwnd_frame: "open_cwnd b = Some b' \<Longrightarrow> tstate b' = tstate b \<and> snd_nxt b' = snd_nxt b"
  by (auto simp: open_cwnd_def inflate_def Let_def split: if_splits)

lemma calm_set: "tstate b = tstate (cb t s) \<Longrightarrow> snd_nxt b = snd_nxt (cb t s) \<Longrightarrow> calm s (upd_cb t (\<lambda>_. b) s)"
  by (simp add: calm_def Let_def upd_cb_def upd_tcp_def upd_up_def upd_pcb_def cb_def)

lemma new_ack_calm: "new_ack x t s = Some s' \<Longrightarrow> calm s s'"
proof -
  assume r: "new_ack x t s = Some s'"
  define s1 where "s1 = upd_cb t (\<lambda>b. b\<lparr>snd_buf := snd_buf b + acked b, dupacks := 0, lastack := ackno x\<rparr>)
    (upd_cb t (\<lambda>b. b\<lparr>nrtx := 0, rto := rto_of b, acked := ucast (ackno x - lastack b)\<rparr>)
    (upd_cb t (\<lambda>b. if tflags b AND TF_INFR \<noteq> 0 then b\<lparr>tflags := tflags b AND NOT TF_INFR, cwnd := ssthresh b\<rparr> else b) s))"
  have "calm s s1" by (simp add: s1_def calm_upd)
  also obtain b where b: "open_cwnd (cb t s1) = Some b" "calm (upd_cb t (\<lambda>_. b) s1) s'"
    using r by (auto simp: new_ack_def Let_def s1_def with_pm_Some calm_upd split: bind_splits)
  have "calm s1 (upd_cb t (\<lambda>_. b) s1)" using open_cwnd_frame [OF b(1)] by (simp add: calm_set)
  also note b(2)
  finally show ?thesis .
qed

lemma estimate_frame [simp]: "tstate (estimate_rtt n x b) = tstate b" "snd_nxt (estimate_rtt n x b) = snd_nxt b"
  by (simp_all add: estimate_rtt_def Let_def)

lemma receive_ack_calm: "marked t s \<Longrightarrow> receive_ack env C x t s = Some s' \<Longrightarrow> calm s s'"
proof -
  assume m: "marked t s" and r: "receive_ack env C x t s = Some s'"
  define s1 where "s1 = upd_cb t (window_update x (get16 (tcphdr x) 14 (pm s))) s"
  have s1: "calm s s1" by (simp add: s1_def calm_upd window_update_def Let_def)
  have "marked t s1" using m by (simp add: s1_def)
  from r obtain s2 where d: "(if lastack (cb t s1) = ackno x then duplicate_ack env C t (ucast (snd_wnd (cb t s)) + snd_wl2 (cb t s)) s1
      else if TCP_SEQ_BETWEEN (ackno x) (lastack (cb t s1) + 1) (snd_nxt (cb t s1)) then new_ack x t s1
      else Some (upd_cb t (\<lambda>b. b\<lparr>acked := 0\<rparr>) s1)) = Some s2" and s2: "calm s2 s'"
    by (auto simp: receive_ack_def Let_def with_pm_Some calm_upd simp flip: s1_def split: bind_splits)
  note s1 also have "calm s1 s2" using d duplicate_ack_calm [OF \<open>marked t s1\<close>] new_ack_calm by (auto simp: calm_upd split: if_splits)
  also note s2
  finally show ?thesis .
qed


lemma ack_now_calm: "marked t s \<Longrightarrow> tcp_ack_now env C t s = Some s' \<Longrightarrow> calm s s'"
  by (auto simp: ack_now_marked calm_upd)

lemma update_wnd_frame [simp]: "tstate (snd (tcp_update_rcv_ann_wnd b)) = tstate b" "snd_nxt (snd (tcp_update_rcv_ann_wnd b)) = snd_nxt b"
  by (simp_all add: tcp_update_rcv_ann_wnd_def Let_def)

lemma trim_front_calm: "trim_front x t s = Some (x', s') \<Longrightarrow> calm s s' \<and> recv_flags x' = recv_flags x \<and> rx_flags x' = rx_flags x \<and> ackno x' = ackno x"
  by (auto simp: trim_front_def Let_def with_pm_Some split: bind_splits if_splits)

lemma trim_end_calm: "trim_end x t s = Some (x', s') \<Longrightarrow> calm s s' \<and> recv_flags x' = recv_flags x \<and> rx_flags x' = rx_flags x \<and> ackno x' = ackno x"
  by (auto simp: trim_end_def Let_def split: bind_splits if_splits)

text \<open>Of the flags for the caller only the one for a \<^verbatim>\<open>FIN\<close> is set.\<close>

definition same_rx :: "tcp_rx \<Rightarrow> tcp_rx \<Rightarrow> bool" where
  "same_rx x x' \<longleftrightarrow> rx_flags x' = rx_flags x \<and> ackno x' = ackno x \<and>
     (recv_flags x' = recv_flags x \<or> recv_flags x' = recv_flags x OR TF_GOT_FIN)"

lemma in_sequence_calm:
  assumes "marked t s" "in_sequence env C x t s = Some (x', s')"
  shows "calm s s' \<and> same_rx x x'"
proof -
  obtain x1 s1 where t1: "trim_end (x\<lparr>tcplen := ucast (TCP_TCPLEN (inseg x) (pm s))\<rparr>) t s = Some (x1, s1)"
    using assms(2) by (auto simp: in_sequence_def split: bind_splits)
  have "calm s s1" "recv_flags x1 = recv_flags x" "rx_flags x1 = rx_flags x" "ackno x1 = ackno x"
    using trim_end_calm [OF t1] by simp_all
  moreover from this(1) have "marked t s1" using assms(1) calm_marked by blast
  ultimately show ?thesis using assms(2)
    by (auto simp: in_sequence_def t1 Let_def calm_upd ack_marked same_rx_def split: bind_splits if_splits)
qed

lemma receive_data_calm:
  assumes m: "marked t s" and r: "receive_data env C x t s = Some ((ok, x'), s')"
  shows "calm s s' \<and> same_rx x x'"
proof (cases "tcplen x > 0")
  case False
  then show ?thesis using r m by (auto simp: receive_data_def ack_now_marked same_rx_def calm_upd split: if_splits)
next
  case True
  then obtain x1 s1 where t1: "(if TCP_SEQ_BETWEEN (rcv_nxt (cb t s)) (seqno x + 1) (seqno x + ucast (tcplen x) - 1) then trim_front x t s
      else if TCP_SEQ_LT (seqno x) (rcv_nxt (cb t s)) then do { s \<leftarrow> tcp_ack_now env C t s; Some (x, s) } else Some (x, s)) = Some (x1, s1)"
    using r by (auto simp: receive_data_def split: bind_splits)
  then have c1: "calm s s1 \<and> recv_flags x1 = recv_flags x \<and> rx_flags x1 = rx_flags x \<and> ackno x1 = ackno x"
    using m by (auto simp: ack_now_marked calm_upd split: if_splits dest: trim_front_calm)
  then have m1: "marked t s1" using m calm_marked by blast
  have "calm s1 s' \<and> same_rx x1 x'"
    using r True by (auto simp: receive_data_def t1 ack_now_marked [OF m1] calm_upd same_rx_def split: if_splits bind_splits
        dest!: in_sequence_calm [OF m1])
  then show ?thesis using c1 calm_trans by (auto simp: same_rx_def)
qed

lemma receive_calm:
  assumes m: "marked t s" and r: "tcp_receive env C x t s = Some ((ok, x'), s')"
  shows "calm s s' \<and> same_rx x x'"
proof -
  obtain s1 where a: "(if has x TCP_ACK then receive_ack env C x t s else Some s) = Some s1" "receive_data env C x t s1 = Some ((ok, x'), s')"
    using r by (auto simp: tcp_receive_def split: bind_splits)
  then have "calm s s1" using receive_ack_calm [OF m] by (auto split: if_splits)
  moreover from this have "marked t s1" using m calm_marked by blast
  ultimately show ?thesis using receive_data_calm [OF _ a(2)] calm_trans by blast
qed

fun rfc_next :: "tcp_state \<Rightarrow> bool \<Rightarrow> bool \<Rightarrow> tcp_state" where
  "rfc_next ESTABLISHED True _ = CLOSE_WAIT"
| "rfc_next FIN_WAIT_1 True True = TIME_WAIT"
| "rfc_next FIN_WAIT_1 True False = CLOSING"
| "rfc_next FIN_WAIT_1 False True = FIN_WAIT_2"
| "rfc_next FIN_WAIT_2 True _ = TIME_WAIT"
| "rfc_next CLOSING _ True = TIME_WAIT"
| "rfc_next st _ _ = st"


lemma purge_calm: "tcp_pcb_purge t s = Some s' \<Longrightarrow> calm s s'"
  by (auto simp: tcp_pcb_purge_def with_pm_Some calm_upd split: bind_splits if_splits)

text \<open>How the states and lists end up: the block takes a new state, and moves to the waiting ones when that is \<open>TIME_WAIT\<close>.\<close>

definition moved :: "nat \<Rightarrow> tcp_state \<Rightarrow> ('a netstate_scheme) nic \<Rightarrow> ('a netstate_scheme) nic \<Rightarrow> bool" where
  "moved t st s s' \<longleftrightarrow> tstate (cb t s') = st \<and> (\<forall>u. u \<noteq> t \<longrightarrow> tstate (cb u s') = tstate (cb u s)) \<and>
     (if st = TIME_WAIT then active_pcbs (tcp (up s')) = TCP_RMV t (active_pcbs (tcp (up s))) \<and> tw_pcbs (tcp (up s')) = t # tw_pcbs (tcp (up s))
      else active_pcbs (tcp (up s')) = active_pcbs (tcp (up s)) \<and> tw_pcbs (tcp (up s')) = tw_pcbs (tcp (up s)))"

lemma calm_moved: "calm s s1 \<Longrightarrow> moved t st s1 s' \<Longrightarrow> moved t st s s'"
  by (simp add: calm_def moved_def Let_def cb_def)

lemma moved_stay: "tstate (cb t s) \<noteq> TIME_WAIT \<Longrightarrow> calm s s' \<Longrightarrow> moved t (tstate (cb t s)) s s'"
  by (simp add: calm_def moved_def Let_def cb_def)

lemma moved_set: "st \<noteq> TIME_WAIT \<Longrightarrow> calm s s' \<Longrightarrow> moved t st s (set_state t st s')"
  by (auto simp: calm_def moved_def Let_def set_state_def upd_cb_def upd_tcp_def upd_up_def upd_pcb_def cb_def)

lemma moved_wait: "to_time_wait t s = Some s' \<Longrightarrow> moved t TIME_WAIT s s'"
proof -
  assume "to_time_wait t s = Some s'"
  then obtain s1 where "tcp_pcb_purge t s = Some s1" and s': "s' = tcp_reg TimeWait t (set_state t TIME_WAIT (tcp_rmv Active t s1))"
    by (auto simp: to_time_wait_def split: bind_splits)
  then have "calm s s1" by (simp add: purge_calm)
  moreover have "moved t TIME_WAIT s1 s'"
    by (auto simp: s' moved_def tcp_reg_def tcp_rmv_def TCP_REG_def set_state_def upd_cb_def upd_tcp_def upd_up_def upd_pcb_def cb_def)
  ultimately show ?thesis by (rule calm_moved)
qed

lemma after_receive_moves:
  assumes m: "marked t s" and st: "tstate (cb t s) = st" "st \<in> {ESTABLISHED, CLOSE_WAIT, FIN_WAIT_1, FIN_WAIT_2, CLOSING, LAST_ACK}"
    and r: "after_receive env C st x t s = Some (x', s')"
  shows "moved t (rfc_next st (recv_flags x AND TF_GOT_FIN \<noteq> 0) (has x TCP_ACK \<and> ackno x = snd_nxt (cb t s))) s s' \<and>
    x' = (if st = LAST_ACK \<and> has x TCP_ACK \<and> ackno x = snd_nxt (cb t s) then x\<lparr>recv_flags := recv_flags x OR TF_CLOSED\<rparr> else x)"
proof -
  let ?s1 = "upd_cb t (\<lambda>b. b\<lparr>tflags := tflags b OR TF_ACK_NOW\<rparr>) s"
  have c: "calm s ?s1" by (simp add: calm_upd)
  have stay: "st \<noteq> TIME_WAIT \<Longrightarrow> moved t st s s" using moved_stay [of t s s] st(1) by simp
  have w: "to_time_wait t ?s1 = Some s' \<Longrightarrow> moved t TIME_WAIT s s'" "to_time_wait t s = Some s' \<Longrightarrow> moved t TIME_WAIT s s'"
    using calm_moved [OF c] moved_wait by blast+
  have e: "moved t st' s (set_state t st' ?s1)" "moved t st' s (set_state t st' s)" if "st' \<noteq> TIME_WAIT" for st'
    using moved_set [OF that] c calm_refl by blast+
  show ?thesis using r m st(2) stay
    by (auto simp: after_receive_def Let_def ack_now_marked w e split: if_splits bind_splits)
qed


lemma parseopt_calm: "tcp_parseopt x t s = Some s' \<Longrightarrow> calm s s'"
  by (auto simp: tcp_parseopt_def Let_def calm_upd split: if_splits bind_splits)

text \<open>C11: the state machine. While a segment for a connection that has been set up is processed, the state of the
  connection changes along the edges of RFC 793 only: a \<^verbatim>\<open>FIN\<close> in sequence and the acknowledgement of everything sent
  decide, a reset and a stray \<^verbatim>\<open>SYN\<close> do not change it. The block moves to the list of waiting ones exactly when its
  state becomes \<open>TIME_WAIT\<close>; a last acknowledgement marks it for removal. No other connection changes its state.\<close>

theorem tcp_process_rfc793:
  assumes mark: "tcp_input_pcb (tcp (up s)) = Some t"
    and up: "tstate (cb t s) \<in> {ESTABLISHED, CLOSE_WAIT, FIN_WAIT_1, FIN_WAIT_2, CLOSING, LAST_ACK}"
    and x: "recv_flags x = 0"
    and r: "tcp_process env C A x t s = Some ((err, x'), s')"
  defines "fin \<equiv> recv_flags x' AND TF_GOT_FIN \<noteq> 0"
  defines "acked_all \<equiv> has x TCP_ACK \<and> ackno x = snd_nxt (cb t s)"
  shows "moved t (if has x TCP_RST \<or> has x TCP_SYN then tstate (cb t s) else rfc_next (tstate (cb t s)) fin acked_all) s s' \<and>
    (recv_flags x' AND TF_CLOSED \<noteq> 0 \<longleftrightarrow> tstate (cb t s) = LAST_ACK \<and> acked_all \<and> \<not> has x TCP_RST \<and> \<not> has x TCP_SYN)"
proof -
  let ?st = "tstate (cb t s)"
  have m: "marked t s" using mark by (simp add: marked_def)
  have tw: "?st \<noteq> TIME_WAIT" using up by auto
  have stay: "moved t ?st s s2" if "calm s s2" for s2 using moved_stay [OF tw that] .
  show ?thesis
  proof (cases "has x TCP_RST \<or> has x TCP_SYN")
    case True
    then have "calm s s'" "recv_flags x' = 0 \<or> recv_flags x' = TF_RESET"
      using r x up m by (auto simp: tcp_process_def ack_now_marked calm_upd split: if_splits)
    then show ?thesis using True stay by auto
  next
    case no: False
    define s0 where "s0 = upd_cb t (\<lambda>b. b\<lparr>tmr := tcp_ticks (tcp (up s)), keep_cnt_sent := 0\<rparr>) s"
    obtain s1 where s1: "tcp_parseopt x t s0 = Some s1"
      using r no by (auto simp: tcp_process_def Let_def simp flip: s0_def split: bind_splits if_splits)
    have "calm s s0" by (simp add: s0_def calm_upd)
    also have "calm s0 s1" by (rule parseopt_calm [OF s1])
    finally have c1: "calm s s1" .
    then have m1: "marked t s1" and st1: "tstate (cb t s1) = ?st" using m calm_marked calm_cb by blast+
    have "(do { ((ok, y), s2) \<leftarrow> tcp_receive env C x t s1; (y, s3) \<leftarrow> after_receive env C ?st y t s2; Some ((ERR_OK, y), s3) })
        = Some ((err, x'), s')"
      using r no up st1 by (auto simp: tcp_process_def Let_def s1 simp flip: s0_def split: if_splits tcp_state.splits)
    then obtain ok y s2 where rc: "tcp_receive env C x t s1 = Some ((ok, y), s2)" "after_receive env C ?st y t s2 = Some (x', s')"
      by (auto split: bind_splits)
    have c2: "calm s1 s2" "same_rx x y" using receive_calm [OF m1 rc(1)] by simp_all
    then have c: "calm s s2" using c1 calm_trans by blast
    then have m2: "marked t s2" and st2: "tstate (cb t s2) = ?st" "snd_nxt (cb t s2) = snd_nxt (cb t s)"
      using m calm_marked calm_cb by blast+
    have y: "has y TCP_ACK = has x TCP_ACK" "ackno y = ackno x" "recv_flags y = 0 \<or> recv_flags y = TF_GOT_FIN"
      using c2(2) x by (auto simp: same_rx_def has_def)
    have a: "moved t (rfc_next ?st (recv_flags y AND TF_GOT_FIN \<noteq> 0) acked_all) s2 s'"
      "x' = (if ?st = LAST_ACK \<and> acked_all then y\<lparr>recv_flags := recv_flags y OR TF_CLOSED\<rparr> else y)"
      using after_receive_moves [OF m2 st2(1) up rc(2)] by (simp_all add: y st2 acked_all_def)
    have "(recv_flags y AND TF_GOT_FIN \<noteq> 0) = fin" using a(2) y(3) by (auto simp: fin_def)
    then show ?thesis using calm_moved [OF c a(1)] a(2) y(3) no by auto
  qed
qed


text \<open>One connection, and a packet for it in one buffer.\<close>

definition tcp_example :: "u8 list \<Rightarrow> u16 \<Rightarrow> tcp_pcb \<Rightarrow> ipstate nic" where
  "tcp_example bs n b = \<lparr>descs = (\<lambda>_. \<lparr>Status = 0, ControlBufferSize = 0, Buffer1Addr = null_ptr, Buffer2NextDescAddr = DMATxDscrTab 0\<rparr>),
     DMATxDescToSet = DMATxDscrTab 0, DMARxDescToGet = DMARxDscrTab 0,
     pm = \<lparr>pbs = [Memp 0 \<mapsto> \<lparr>p_next = None, payload = (Own (Memp 0), 14), tot_len = n, plen = n, ptype = PBUF_POOL, pflags = 0, pref = 1\<rparr>],
           dat = (\<lambda>_ i. if 14 \<le> i \<and> i < 14 + int (length bs) then bs ! nat (i - 14) else 0), pools = (\<lambda>_. []),
           heap = \<lparr>ram = (\<lambda>_. \<lparr>nxt = 0, prv = 0, used = False\<rparr>), lfree = 0\<rparr>\<rparr>,
     io = [],
     up = \<lparr>netifs = (\<lambda>_. \<lparr>hwaddr_len = 6, hwaddr = [2, 0, 0, 0, 0, 1], mtu = 1500, netif_flags = 0x33, netif_name = ''st'',
             netif_output = Some etharp_output_fn, netif_linkoutput = Some low_level_output_fn, netif_state = None,
             nif_addr = 0x4E01A8C0, nif_mask = 0x00FFFFFF, nif_gw = 0, netif_input = None, netif_num = 0, link_callback = None\<rparr>),
           netif_list = [0], netif_default = Some 0, netifnum = 1,
           tcp = \<lparr>pcbs = (\<lambda>_. b), bound_pcbs = [], listen_pcbs = [], active_pcbs = [5], tw_pcbs = [], new_port = 4096,
             tcp_ticks = 0, tcp_timer = 0, iss = 6510, tcp_input_pcb = Some 5\<rparr>,
           arp_table = [], etharp_cached_entry = 0, ip_id = 0, current_netif = None, current_header = None\<rparr>\<rparr>"

definition rx_example :: "u8 \<Rightarrow> u32 \<Rightarrow> u32 \<Rightarrow> u16 \<Rightarrow> tcp_rx" where
  "rx_example fl sq ack n = \<lparr>inseg = \<lparr>seg_no = 0, seg_p = Some (Memp 0), dataptr = Some (Own (Memp 0), 14), seg_len = n, seg_flags = 0,
       seg_hdr = (Own (Memp 0), 14)\<rparr>, tcphdr = (Own (Memp 0), 14), iphdr = (Own (Memp 0), 14), seqno = sq, ackno = ack, rx_flags = fl,
     tcplen = n, recv_flags = 0, recv_data = None\<rparr>"

lemma example_cb [simp]: "cb t (tcp_example bs n b) = b" "tcp (up (tcp_example bs n b)) = \<lparr>pcbs = (\<lambda>_. b), bound_pcbs = [],
    listen_pcbs = [], active_pcbs = [5], tw_pcbs = [], new_port = 4096, tcp_ticks = 0, tcp_timer = 0, iss = 6510, tcp_input_pcb = Some 5\<rparr>"
  by (simp_all add: tcp_example_def cb_def)

lemma example_rx [simp]: "has (rx_example fl sq ack n) f = (fl AND f \<noteq> 0)" "tcplen (rx_example fl sq ack n) = n"
    "seqno (rx_example fl sq ack n) = sq" "ackno (rx_example fl sq ack n) = ack" "recv_flags (rx_example fl sq ack n) = 0"
  by (simp_all add: rx_example_def has_def)

lemma zero_pcb_fields [simp]: "tflags zero_pcb = 0" "snd_wl1 zero_pcb = 0" "snd_wl2 zero_pcb = 0" "snd_wnd zero_pcb = 0"
    "unsent zero_pcb = []" "unacked zero_pcb = []" "dupacks zero_pcb = 0" "persist_backoff zero_pcb = 0" "rttest zero_pcb = 0"
  by (simp_all add: zero_pcb_def)

lemma example_zero: "get16 a k (pm (tcp_example [] n b)) = 0"
  by (auto simp: get16_def get8_def word16_of_def tcp_example_def)

lemma example_parse: "tcp_parseopt (rx_example fl sq ack n) t (upd_cb u f (tcp_example [] n b)) = Some (upd_cb u f (tcp_example [] n b))"
  by (simp add: tcp_parseopt_def TCPH_HDRLEN_def get16_def get8_def ntohs_def htons_def word16_of_def tcp_example_def rx_example_def)

text \<open>Our \<^verbatim>\<open>FIN\<close> is acknowledged.\<close>

lemma tcp_process_rfc793_witness:
  "\<forall>env C A. \<exists>x' s'. tcp_process env C A (rx_example TCP_ACK 100 7 0) 5
      (tcp_example [] 0 (zero_pcb\<lparr>tstate := FIN_WAIT_1, snd_nxt := 7, lastack := 7, rcv_nxt := 100, rcv_wnd := 2920\<rparr>)) =
      Some ((ERR_OK, x'), s') \<and> tstate (cb 5 s') = FIN_WAIT_2"
proof (intro allI)
  fix env :: env and C :: "ipstate nic ip_calls" and A :: "ipstate nic tcp_app"
  let ?s = "tcp_example [] 0 (zero_pcb\<lparr>tstate := FIN_WAIT_1, snd_nxt := 7, lastack := 7, rcv_nxt := 100, rcv_wnd := 2920\<rparr>)"
  let ?x = "rx_example TCP_ACK 100 7 0"
  have "\<exists>x' s'. tcp_process env C A ?x 5 ?s = Some ((ERR_OK, x'), s') \<and> recv_flags x' = 0"
    by (simp add: tcp_process_def Let_def example_parse tcp_receive_def receive_ack_def duplicate_ack_def receive_data_def after_receive_def
      window_update_def estimate_rtt_def TCP_SEQ_LT_def example_zero TCP_SEQ_BETWEEN_def TCP_SEQ_LEQ_def TCP_SEQ_GEQ_def with_pm_def)
  then show "\<exists>x' s'. tcp_process env C A ?x 5 ?s = Some ((ERR_OK, x'), s') \<and> tstate (cb 5 s') = FIN_WAIT_2"
    using tcp_process_rfc793 [of ?s 5 ?x env C A ERR_OK]
    by (auto simp: tcp_example_def rx_example_def has_def cb_def zero_pcb_def moved_def)
qed


section \<open>Data in order\<close>

lemma between_here: "0 < w \<Longrightarrow> w \<le> 0xffff \<Longrightarrow> TCP_SEQ_BETWEEN a a (a + w - 1)" for a w :: u32
proof -
  assume w: "0 < w" "w \<le> 0xffff"
  have "a - (a + w - 1) = of_int (1 - uint w)" by simp
  moreover have "uint w \<le> 65535" "0 < uint w" using w by (simp_all add: word_le_def word_less_def)
  ultimately have "sint (a - (a + w - 1)) = 1 - uint w" using sint_of_int_u32 [of "1 - uint w"] by simp
  then show ?thesis using \<open>0 < uint w\<close> by (simp add: TCP_SEQ_BETWEEN_def TCP_SEQ_GEQ_def TCP_SEQ_LEQ_def)
qed

lemma ucast_u16_pos: "0 < (w :: u16) \<Longrightarrow> 0 < (ucast w :: u32) \<and> (ucast w :: u32) \<le> 0xffff"
proof -
  assume "0 < w"
  then have "0 < unat w" by (simp add: word_less_nat_alt)
  moreover have "unat (ucast w :: u32) = unat w" using unsigned_less [of w, where ?'a = nat]
    by (simp add: unsigned_ucast_eq take_bit_nat_eq_self)
  ultimately show ?thesis using unsigned_less [of w, where ?'a = nat] by (simp add: word_less_nat_alt word_le_nat_alt)
qed

lemma in_sequence_takes:
  assumes m: "marked t s" and p: "seg_p (inseg x) = Some p" "pbs (pm s) p = Some pb"
    and n: "ucast (TCP_TCPLEN (inseg x) (pm s)) = n" "n \<le> rcv_wnd (cb t s)"
  shows "\<exists>x' s'. in_sequence env C x t s = Some (x', s') \<and> pm s' = pm s \<and> calm s s' \<and>
    rcv_nxt (cb t s') = seqno x + ucast n \<and> rcv_wnd (cb t s') = rcv_wnd (cb t s) - n \<and>
    (if tot_len pb > 0 then recv_data x' = Some p \<and> seg_p (inseg x') = None
     else recv_data x' = recv_data x \<and> seg_p (inseg x') = Some p) \<and>
    recv_flags x' = (if TCPH_FLAGS (seg_hdr (inseg x)) (pm s) AND TCP_FIN \<noteq> 0 then recv_flags x OR TF_GOT_FIN else recv_flags x) \<and>
    tflags (cb t s') AND (TF_ACK_DELAY OR TF_ACK_NOW) \<noteq> 0"
proof -
  have a: "(f AND NOT 1 OR 2) AND 3 \<noteq> 0" "(f OR 1) AND 3 \<noteq> 0" for f :: u8
  proof -
    have "bit ((f AND NOT 1 OR 2) AND 3) 1" "bit ((f OR 1) AND 3) 0" by (simp_all add: bit_simps)
    then show "(f AND NOT 1 OR 2) AND 3 \<noteq> 0" "(f OR 1) AND 3 \<noteq> 0" by (metis bit_0_eq bot_apply bot_bool_def)+
  qed
  have te: "trim_end (x\<lparr>tcplen := n\<rparr>) t s = Some (x\<lparr>tcplen := n\<rparr>, s)" using leD [OF n(2)] by (simp add: trim_end_def)
  have ann: "tflags (snd (tcp_update_rcv_ann_wnd b)) = tflags b" "rcv_nxt (snd (tcp_update_rcv_ann_wnd b)) = rcv_nxt b"
    "rcv_wnd (snd (tcp_update_rcv_ann_wnd b)) = rcv_wnd b" for b
    by (simp_all add: tcp_update_rcv_ann_wnd_def Let_def)
  have a': "(f AND - 2 OR 2) AND 3 \<noteq> 0" for f :: u8 using a(1) [of f] by simp
  show ?thesis unfolding in_sequence_def using m p
    by (simp add: n(1) te ack_marked calm_upd ann a a')
qed


text \<open>C12: data in sequence. A segment that begins where the last one ended and fits the window is taken: the sequence
  number expected next moves behind it and the window shrinks by the same amount, so that its right edge stays, the whole
  packet goes to the application, a \<^verbatim>\<open>FIN\<close> is noted, and an acknowledgement is due. Nothing else changes.\<close>

theorem receive_in_order:
  assumes mark: "tcp_input_pcb (tcp (up s)) = Some t"
    and p: "seg_p (inseg x) = Some p" "pbs (pm s) p = Some pb"
    and n: "ucast (TCP_TCPLEN (inseg x) (pm s)) = tcplen x" "0 < tcplen x" "tcplen x \<le> rcv_wnd (cb t s)"
    and sq: "seqno x = rcv_nxt (cb t s)"
  shows "\<exists>x' s'. receive_data env C x t s = Some ((True, x'), s') \<and> pm s' = pm s \<and> calm s s' \<and>
    rcv_nxt (cb t s') = rcv_nxt (cb t s) + ucast (tcplen x) \<and> rcv_wnd (cb t s') = rcv_wnd (cb t s) - tcplen x \<and>
    (if tot_len pb > 0 then recv_data x' = Some p \<and> seg_p (inseg x') = None
     else recv_data x' = recv_data x \<and> seg_p (inseg x') = Some p) \<and>
    recv_flags x' = (if TCPH_FLAGS (seg_hdr (inseg x)) (pm s) AND TCP_FIN \<noteq> 0 then recv_flags x OR TF_GOT_FIN else recv_flags x) \<and>
    tflags (cb t s') AND (TF_ACK_DELAY OR TF_ACK_NOW) \<noteq> 0"
proof -
  have m: "marked t s" using mark by (simp add: marked_def)
  have no_trim: "\<not> TCP_SEQ_BETWEEN (rcv_nxt (cb t s)) (seqno x + 1) e" "\<not> TCP_SEQ_LT (seqno x) (rcv_nxt (cb t s))" for e
    by (simp_all add: sq TCP_SEQ_BETWEEN_def TCP_SEQ_GEQ_def TCP_SEQ_LT_def)
  have "0 < rcv_wnd (cb t s)" using n(2,3) by (rule order_less_le_trans)
  then have here: "TCP_SEQ_BETWEEN (seqno x) (rcv_nxt (cb t s)) (rcv_nxt (cb t s) + ucast (rcv_wnd (cb t s)) - 1)"
    using between_here ucast_u16_pos by (simp add: sq)
  obtain x' s' where r: "in_sequence env C x t s = Some (x', s')" "pm s' = pm s" "calm s s'"
    "rcv_nxt (cb t s') = seqno x + ucast (tcplen x)" "rcv_wnd (cb t s') = rcv_wnd (cb t s) - tcplen x"
    "if tot_len pb > 0 then recv_data x' = Some p \<and> seg_p (inseg x') = None
     else recv_data x' = recv_data x \<and> seg_p (inseg x') = Some p"
    "recv_flags x' = (if TCPH_FLAGS (seg_hdr (inseg x)) (pm s) AND TCP_FIN \<noteq> 0 then recv_flags x OR TF_GOT_FIN else recv_flags x)"
    "tflags (cb t s') AND (TF_ACK_DELAY OR TF_ACK_NOW) \<noteq> 0"
    using in_sequence_takes [OF m p n(1,3)] by blast
  have "receive_data env C x t s = Some ((True, x'), s')"
    using n(2) no_trim here r(1) by (simp add: receive_data_def sq)
  then show ?thesis using r(2-) sq by (intro exI [of _ x'] exI [of _ s'] conjI) simp_all
qed

lemma receive_in_order_witness:
  "\<forall>env C. \<exists>x' s'. receive_data env C (rx_example TCP_ACK 100 7 4) 5
      (tcp_example [] 4 (zero_pcb\<lparr>tstate := ESTABLISHED, rcv_nxt := 100, rcv_wnd := 2920\<rparr>)) = Some ((True, x'), s') \<and>
    rcv_nxt (cb 5 s') = 104 \<and> rcv_wnd (cb 5 s') = 2916 \<and> recv_data x' = Some (Memp 0)"
proof (intro allI)
  fix env :: env and C :: "ipstate nic ip_calls"
  let ?s = "tcp_example [] 4 (zero_pcb\<lparr>tstate := ESTABLISHED, rcv_nxt := 100, rcv_wnd := 2920\<rparr>)" and ?x = "rx_example TCP_ACK 100 7 4"
  have "TCP_TCPLEN (inseg ?x) (pm ?s) = 4"
    by (simp add: TCP_TCPLEN_def TCPH_FLAGS_def example_zero ntohs_def htons_def) (simp add: rx_example_def)
  moreover have "seg_p (inseg ?x) = Some (Memp 0)" "\<exists>pb. pbs (pm ?s) (Memp 0) = Some pb \<and> tot_len pb = 4"
    by (simp_all add: rx_example_def tcp_example_def)
  ultimately show "\<exists>x' s'. receive_data env C ?x 5 ?s = Some ((True, x'), s') \<and>
    rcv_nxt (cb 5 s') = 104 \<and> rcv_wnd (cb 5 s') = 2916 \<and> recv_data x' = Some (Memp 0)"
    using receive_in_order [of ?s 5 ?x "Memp 0" _ env C] by fastforce
qed

end
