(* ===== verification/TcpData.thy ===== *)
theory TcpData
  imports TcpMachine
begin

text \<open>
  The other cases of received data: overlapping what was received before, out of order, and damaged. With \<open>TcpMachine\<close> these cover what
  can happen to the data of a segment for a connection.
\<close>

section \<open>Data received before, at the front of a chain\<close>

text \<open>The buffers that the loop empties, and those that \<^verbatim>\<open>pbuf_header\<close> can cut.\<close>

definition skipped :: "addr list \<Rightarrow> u16 \<Rightarrow> pmem \<Rightarrow> pmem" where
  "skipped as w m = m\<lparr>pbs := (\<lambda>a. if a \<in> set as then map_option (\<lambda>b. b\<lparr>tot_len := w, plen := 0\<rparr>) (pbs m a) else pbs m a)\<rparr>"

definition cuttable :: "pmem \<Rightarrow> addr \<Rightarrow> bool" where
  "cuttable m a \<longleftrightarrow> (\<exists>b off. pbs m a = Some b \<and> (ptype b = PBUF_RAM \<or> ptype b = PBUF_POOL) \<and> payload b = (Own a, off) \<and> 0 \<le> off)"

lemma trim_loop_chain:
  "linked (pbs m) po as None \<Longrightarrow> as \<noteq> [] \<Longrightarrow> k \<le> lens (pbs m) as \<Longrightarrow>
   \<exists>pre p post j. as = pre @ p # post \<and> k = lens (pbs m) pre + j \<and> j \<le> blen (pbs m) p \<and> (0 < k \<longrightarrow> 0 < j) \<and>
     trim_loop po (int k) w m = Some ((p, int j), skipped pre w m)"
proof (induction as arbitrary: po k m)
  case (Cons a as)
  obtain b where b: "po = Some a" "pbs m a = Some b" "linked (pbs m) (p_next b) as None" using Cons.prems(1) by auto
  have bl: "blen (pbs m) a = unat (plen b)" using b(2) by (simp add: blen_def)
  have lt: "uint (plen b) < int k \<longleftrightarrow> unat (plen b) < k" by (metis of_nat_less_iff uint_nat)
  show ?case
  proof (cases "unat (plen b) < k")
    case False
    then have "trim_loop po (int k) w m = Some ((a, int k), skipped [] w m)"
      using b lt by (subst trim_loop.simps) (simp add: skipped_def)
    then show ?thesis using False bl by (intro exI [of _ "[]"] exI [of _ a] exI [of _ as] exI [of _ k]) simp
  next
    case True
    let ?m = "Pbuf.put a (b\<lparr>tot_len := w, plen := 0\<rparr>) m"
    have na: "a \<notin> set as" using linked_distinct [OF Cons.prems(1)] by simp
    have pm: "pbs ?m = (pbs m)(a \<mapsto> b\<lparr>tot_len := w, plen := 0\<rparr>)" by (simp add: Pbuf.put_def)
    have same: "lens (pbs ?m) xs = lens (pbs m) xs" if "a \<notin> set xs" for xs
      using that unfolding pm by (auto intro!: lens_cong simp: blen_def)
    have le: "k - unat (plen b) \<le> lens (pbs ?m) as" using Cons.prems(3) bl same [OF na] by simp
    then have ne: "as \<noteq> []" using True by auto
    have "linked (pbs ?m) (p_next b) as None" using b(3) na by (simp add: pm)
    from Cons.IH [OF this ne le] True obtain pre p post j where
      I: "as = pre @ p # post" "k - unat (plen b) = lens (pbs ?m) pre + j" "j \<le> blen (pbs ?m) p" "0 < j"
        "trim_loop (p_next b) (int (k - unat (plen b))) w ?m = Some ((p, int j), skipped pre w ?m)"
      by (metis zero_less_diff)
    have "skipped pre w ?m = skipped (a # pre) w m" using na I(1) b(2)
      by (auto simp: skipped_def Pbuf.put_def fun_eq_iff)
    moreover have "int k - uint (plen b) = int (k - unat (plen b))" using True by (simp add: of_nat_diff)
    ultimately have "trim_loop po (int k) w m = Some ((p, int j), skipped (a # pre) w m)"
      using b True lt I(5) by (subst trim_loop.simps) simp
    moreover have "k = lens (pbs m) (a # pre) + j" using I(1,2) same [of pre] na bl True by simp
    moreover have "j \<le> blen (pbs m) p" using I(1,3) na by (auto simp: blen_def pm split: if_splits)
    ultimately show ?thesis using I(1,4) by (intro exI [of _ "a # pre"] exI [of _ p] exI [of _ post] exI [of _ j]) simp
  qed
qed simp

lemma tots_skip:
  "(\<And>a. a \<in> set pre \<Longrightarrow> \<exists>b. M a = Some b \<and> plen b = 0 \<and> unat (tot_len b) = lens M ys) \<Longrightarrow> tots M ys \<Longrightarrow>
   tots M (pre @ ys) \<and> lens M (pre @ ys) = lens M ys"
proof (induction pre)
  case (Cons a pre)
  obtain b where "M a = Some b" "plen b = 0" "unat (tot_len b) = lens M ys" using Cons.prems(1) [of a] by auto
  then show ?case using Cons by (auto simp: blen_def)
qed simp

text \<open>After the loop and \<^verbatim>\<open>pbuf_header\<close>, the chain is a packet again, without its first \<open>k\<close> bytes.\<close>

lemma cut_chain:
  fixes w :: u16
  assumes pk: "packet m (Some q) (pre @ p # post)" and b: "pbs m p = Some b" "payload b = (Own p, off)"
    and k: "k = lens (pbs m) pre + j" "j \<le> unat (plen b)" and w: "unat w = lens (pbs m) (pre @ p # post) - k"
  defines "M \<equiv> Pbuf.put p (b\<lparr>payload := (Own p, off + int j), plen := plen b - of_nat j, tot_len := tot_len b - of_nat j\<rparr>) (skipped pre w m)"
  shows "packet M (Some q) (pre @ p # post)" "contents M (pre @ p # post) = drop k (contents m (pre @ p # post))"
    "lens (pbs M) (pre @ p # post) = lens (pbs m) (pre @ p # post) - k"
proof -
  let ?as = "pre @ p # post" and ?b = "b\<lparr>payload := (Own p, off + int j), plen := plen b - of_nat j, tot_len := tot_len b - of_nat j\<rparr>"
  have d: "distinct ?as" and ln: "linked (pbs m) (Some q) ?as None" and tt: "tots (pbs m) ?as"
    using pk linked_distinct [of "pbs m" "Some q" "pre @ p # post"] by (simp_all add: packet_def)
  have M: "pbs M = (\<lambda>a. if a = p then Some ?b else if a \<in> set pre then map_option (\<lambda>b. b\<lparr>tot_len := w, plen := 0\<rparr>) (pbs m a) else pbs m a)"
    "dat M = dat m" by (auto simp: M_def skipped_def Pbuf.put_def fun_eq_iff)
  have uj: "unat (of_nat j :: u16) = j"
    using k(2) unsigned_less [of "plen b", where ?'a = nat] by (simp add: unsigned_of_nat take_bit_nat_eq_self)
  then have pl: "unat (plen b - of_nat j) = unat (plen b) - j" using k(2) by (simp add: unat_sub word_le_nat_alt)
  have tb: "unat (tot_len b) = lens (pbs m) (p # post)" using tots_suffix [OF tt] b(1) by auto
  then have tl: "unat (tot_len b - of_nat j) = lens (pbs m) (p # post) - j"
    using uj k(2) b(1) by (simp add: unat_sub word_le_nat_alt blen_def)
  have post: "pbs M a = pbs m a" if "a \<in> set post" for a using that d by (auto simp: M(1))
  have lp: "lens (pbs M) post = lens (pbs m) post" using post by (intro lens_cong) (simp add: blen_def)
  have lc: "lens (pbs M) (p # post) = lens (pbs m) (p # post) - j"
    using lp pl k(2) b(1) by (simp add: blen_def) (simp add: M(1))
  have "tots (pbs M) post" using tots_cong [OF post] tt by (induction pre) auto
  then have tp: "tots (pbs M) (p # post)" using lc tl by (simp add: M(1))
  have "\<exists>c. pbs M a = Some c \<and> plen c = 0 \<and> unat (tot_len c) = lens (pbs M) (p # post)" if "a \<in> set pre" for a
  proof -
    have "a \<in> set ?as" using that by simp
    then obtain c where "pbs m a = Some c" using linked_some [OF ln] by blast
    moreover have "a \<noteq> p" using that d by auto
    ultimately show ?thesis using that w lc k(1) by (simp add: M(1))
  qed
  from tots_skip [OF this tp] have T: "tots (pbs M) ?as" "lens (pbs M) ?as = lens (pbs M) (p # post)" by auto
  have "linked (pbs M) (Some q) ?as None"
    using ln by (subst linked_cong [where m = "pbs m"]) (auto simp: M(1) b(1) option.map_comp comp_def)
  then show "packet M (Some q) ?as" using T(1) by (simp add: packet_def)
  show "lens (pbs M) ?as = lens (pbs m) ?as - k" using T(2) lc k(1) by simp
  have "contents M pre = []"
  proof -
    have "lens (pbs M) pre = 0" using T(2) by simp
    then show ?thesis by (metis length_0_conv length_contents)
  qed
  moreover have "contents M post = contents m post"
    using post by (intro contents_cong) (simp add: bytes_of_def M(2) split: option.split)
  moreover have "bytes_of M p = drop j (bytes_of m p)"
    unfolding bytes_of_def by (simp add: M b pl) (rule nth_equalityI, simp_all add: read_at_def algebra_simps less_diff_conv)
  ultimately show "contents M ?as = drop k (contents m ?as)"
    using k b(1) by (simp add: blen_def)
qed

lemma ucast_minus: "k \<le> unat w \<Longrightarrow> (ucast (w - of_nat k) :: u32) = ucast w - of_nat k" for w :: u16
proof -
  assume k: "k \<le> unat w"
  have w: "unat w < 65536" using unsigned_less [of w, where ?'a = nat] by simp
  have "unat (of_nat k :: u16) = k" using k w by (simp add: unsigned_of_nat take_bit_nat_eq_self)
  then have a: "unat (w - of_nat k) = unat w - k" using k by (simp add: unat_sub word_le_nat_alt)
  have "(ucast (w - of_nat k) :: u32) = of_nat (unat w - k)" using a by (metis of_nat_unat)
  also have "\<dots> = of_nat (unat w) - of_nat k" using k by (simp add: of_nat_diff)
  finally show ?thesis by simp
qed

lemma ucast_of_nat_low: "k < 32768 \<Longrightarrow> ucast (of_nat k :: u32) = (of_nat k :: u16)"
proof -
  assume "k < 32768"
  then have "unat (of_nat k :: u32) = k" by (simp add: unsigned_of_nat take_bit_nat_eq_self)
  then show ?thesis by (metis of_nat_unat)
qed

lemma ucast_up_down: "ucast (ucast w :: u32) = w" for w :: u16
  by (rule bit_word_eqI) (simp add: bit_simps)

lemma sint_nat: "n < 2 ^ 31 \<Longrightarrow> sint (of_nat n :: u32) = int n"
  using sint_of_int_u32 [of "int n"] by simp

lemma flags_kept: "TCPH_FLAGS h (put32 h 4 w m) = TCPH_FLAGS h m"
  by (simp add: TCPH_FLAGS_def get16_def get8_def put32_def poke_def write_at_def)

text \<open>The header of a segment lies in its first buffer, in front of the data.\<close>

definition header_in_front :: "pmem \<Rightarrow> ptr \<Rightarrow> addr \<Rightarrow> bool" where
  "header_in_front m hdr q \<longleftrightarrow> (\<exists>b h. pbs m q = Some b \<and> hdr = (Own q, h) \<and> h + 20 \<le> snd (payload b))"

lemma contents_put32:
  assumes c: "\<forall>a \<in> set as. cuttable m a" and h: "header_in_front m hdr q"
  shows "contents (put32 hdr 4 w m) as = contents m as"
proof (rule contents_cong)
  fix a assume "a \<in> set as"
  then obtain b off where b: "pbs m a = Some b" "payload b = (Own a, off)" using c by (auto simp: cuttable_def)
  show "bytes_of (put32 hdr 4 w m) a = bytes_of m a"
    using b h by (auto simp: bytes_of_def header_in_front_def read_at_def put32_def poke_def write_at_def)
qed

lemma trim_front_chain:
  assumes p: "seg_p (inseg x) = Some q" "packet (pm s) (Some q) as" "\<forall>a \<in> set as. cuttable (pm s) a"
    "header_in_front (pm s) (seg_hdr (inseg x)) q"
    and k: "rcv_nxt (cb t s) = seqno x + of_nat k" "0 < k" "k < 32768" "k \<le> lens (pbs (pm s)) as"
  shows "\<exists>m d. trim_front x t s = Some (x\<lparr>inseg := (inseg x)\<lparr>dataptr := d, seg_len := seg_len (inseg x) - of_nat k\<rparr>,
      seqno := rcv_nxt (cb t s)\<rparr>, s\<lparr>pm := m\<rparr>) \<and>
    packet m (Some q) as \<and> contents m as = drop k (contents (pm s) as) \<and> lens (pbs m) as = lens (pbs (pm s)) as - k \<and>
    TCPH_FLAGS (seg_hdr (inseg x)) m = TCPH_FLAGS (seg_hdr (inseg x)) (pm s)"
proof -
  let ?m = "pm s"
  obtain b bs where q: "pbs ?m q = Some b" "as = q # bs" "unat (tot_len b) = lens (pbs ?m) as" using packet_first [OF p(2)] by blast
  define w :: u16 where "w = of_int (uint (tot_len b) - int k)"
  have "uint (tot_len b) = int (lens (pbs ?m) as)" using q(3) by (metis uint_nat)
  then have "uint (tot_len b) - int k = int (lens (pbs ?m) as - k)" using k(4) by (simp add: of_nat_diff)
  moreover have "lens (pbs ?m) as - k < 65536" using q(3) unsigned_less [of "tot_len b", where ?'a = nat] by simp
  ultimately have w: "unat w = lens (pbs ?m) as - k" by (simp add: w_def unsigned_of_nat take_bit_nat_eq_self)
  have "linked (pbs ?m) (Some q) as None" using p(2) by (simp add: packet_def)
  from trim_loop_chain [OF this _ k(4), of w] k(2) q(2) obtain pre p post j where
    L: "as = pre @ p # post" "k = lens (pbs ?m) pre + j" "j \<le> blen (pbs ?m) p" "0 < j"
      "trim_loop (Some q) (int k) w ?m = Some ((p, int j), skipped pre w ?m)" by auto
  have "p \<in> set as" using L(1) by simp
  with p(3) obtain c off where c: "pbs ?m p = Some c" "ptype c = PBUF_RAM \<or> ptype c = PBUF_POOL" "payload c = (Own p, off)" "0 \<le> off"
    by (auto simp: cuttable_def)
  have "p \<notin> set pre" using linked_distinct [of "pbs ?m" "Some q" as] p(2) L(1) by (simp add: packet_def)
  then have sk: "pbs (skipped pre w ?m) p = Some c" using c(1) by (simp add: skipped_def)
  have j: "j < 32768" "j \<le> unat (plen c)" using L(2,3) k(3) c(1) by (simp_all add: blen_def)
  define c' where "c' = c\<lparr>payload := (Own p, off + int j), plen := plen c - of_nat j, tot_len := tot_len c - of_nat j\<rparr>"
  define M where "M = Pbuf.put p c' (skipped pre w ?m)"
  note C = cut_chain [OF p(2) [unfolded L(1)] c(1,3) L(2) j(2) w [unfolded L(1)], folded c'_def M_def L(1)]
  have hd: "pbuf_header (Some p) (of_int (- int j)) (skipped pre w ?m) = Some (0, M)"
    unfolding M_def c'_def by (rule header_trims [OF sk c(2-4) L(4) j])
  then have head: "with_pm (pbuf_header (Some p) (of_int (- int j))) (s\<lparr>pm := skipped pre w ?m\<rparr>) = Some (0, s\<lparr>pm := M\<rparr>)"
    by (simp only: with_pm_def pm_upd bind.simps prod.case) simp
  have Mp: "pbs M p = Some c'" "dat M = dat ?m" by (simp_all add: M_def Pbuf.put_def skipped_def)
  let ?M = "put32 (seg_hdr (inseg x)) 4 (rcv_nxt (cb t s)) M"
  have u: "sint (of_nat k :: u32) = int k" using k(3) by (intro sint_nat) simp
  have e: "rcv_nxt (cb t s) - seqno x = of_nat k" by (simp add: k(1))
  have first: "(if uint (plen b) < int k then with_pm (trim_loop (Some q) (int k) w) s else Some ((q, int k), s))
      = Some ((p, int j), s\<lparr>pm := skipped pre w ?m\<rparr>)"
  proof (cases "uint (plen b) < int k")
    case False
    then have "trim_loop (Some q) (int k) w ?m = Some ((q, int k), ?m)" using q(1) by (subst trim_loop.simps) simp
    then have "p = q" "j = k" "skipped pre w ?m = ?m" using L(5) by auto
    then show ?thesis using False by simp
  qed (simp add: with_pm_def L(5))
  have "trim_front x t s = Some (x\<lparr>inseg := (inseg x)\<lparr>dataptr := Some (payload c'), seg_len := seg_len (inseg x) - of_nat k\<rparr>,
      seqno := rcv_nxt (cb t s)\<rparr>, s\<lparr>pm := ?M\<rparr>)"
    unfolding trim_front_def Let_def e u
    by (simp only: p(1) q(1) bind.simps prod.case w_def [symmetric] first head Mp(1) pm_upd) (simp add: on_pm_def k(1) Mp(1) ucast_of_nat_low [OF k(3)])
  moreover have "packet ?M (Some q) as" "lens (pbs ?M) as = lens (pbs ?m) as - k"
    using C(1,3) by (simp_all add: packet_def put32_def poke_def)
  moreover have "contents ?M as = contents M as"
  proof (rule contents_put32)
    have pm: "pbs M a = (if a = p then Some c' else if a \<in> set pre then map_option (\<lambda>b. b\<lparr>tot_len := w, plen := 0\<rparr>) (pbs ?m a)
        else pbs ?m a)" for a by (simp add: M_def Pbuf.put_def skipped_def)
    show "\<forall>a \<in> set as. cuttable M a"
    proof
      fix a assume "a \<in> set as"
      then have "cuttable ?m a" using p(3) by blast
      then show "cuttable M a" using c by (auto simp: cuttable_def pm c'_def)
    qed
    show "header_in_front M (seg_hdr (inseg x)) q"
      using p(4) c by (auto simp: header_in_front_def pm c'_def)
  qed
  moreover have "TCPH_FLAGS (seg_hdr (inseg x)) ?M = TCPH_FLAGS (seg_hdr (inseg x)) ?m"
    unfolding flags_kept by (simp add: TCPH_FLAGS_def get16_def get8_def Mp(2))
  ultimately show ?thesis using C(2) by metis
qed

lemma overlap_between:
  fixes n :: u16
  assumes k: "new = sq + of_nat k" "0 < k" "k < unat n" and n: "n < 32768"
  shows "TCP_SEQ_BETWEEN new (sq + 1) (sq + ucast n - 1)"
proof -
  have w: "uint n < 32768" "0 \<le> uint n" using n by (simp_all add: word_less_def)
  have kn: "int k < uint n" using k(3) by (metis of_nat_less_iff uint_nat)
  have "new - (sq + 1) = of_int (int k - 1)" unfolding k(1) by simp
  then have a: "sint (new - (sq + 1)) = int k - 1"
    using sint_of_int_u32 [of "int k - 1"] k(2) kn w by (simp del: of_int_diff)
  have "(ucast n :: u32) = of_int (int (unat n))" by simp
  then have "new - (sq + ucast n - 1) = of_int (int k - int (unat n) + 1)" unfolding k(1) by simp
  then have "sint (new - (sq + ucast n - 1)) = int k - int (unat n) + 1"
    using sint_of_int_u32 [of "int k - int (unat n) + 1"] kn w by (simp del: of_int_add of_int_diff of_int_of_nat_eq)
  then show ?thesis using a k(2) kn by (simp add: TCP_SEQ_BETWEEN_def TCP_SEQ_GEQ_def TCP_SEQ_LEQ_def)
qed

lemma ucast_down_of_nat: "ucast (of_nat n :: u32) = (of_nat n :: u16)"
  unfolding word_unat_eq_iff by (simp add: unsigned_ucast_eq unsigned_of_nat)

lemma tcplen_no_syn:
  assumes "TCPH_FLAGS (seg_hdr g) m AND TCP_SYN = 0"
  shows "ucast (TCP_TCPLEN g m) = seg_len g + (if TCPH_FLAGS (seg_hdr g) m AND TCP_FIN \<noteq> 0 then 1 else 0)"
proof -
  have "ucast (ucast w + 1 :: u32) = w + 1" for w :: u16
    using ucast_down_of_nat [of "unat w + 1"] by (simp add: add.commute)
  then show ?thesis using assms by (simp add: TCP_TCPLEN_def ucast_up_down)
qed

text \<open>C13: data that overlaps what was received before, in a segment over any chain of buffers. When the first \<open>k\<close> bytes have been
  received, the rest fits the window and the segment has no \<^verbatim>\<open>SYN\<close>, it is taken as if it had come without those bytes: the
  chain is cut so that it is a packet of exactly the bytes behind them, which goes to the application unless it is empty; a \<^verbatim>\<open>FIN\<close> is
  noted; and the sequence number expected next and the window move by what is new. No byte is delivered twice or lost.
  The buffers are from the heap or the packet pool, with the header in front of the data in the first one, as \<^verbatim>\<open>tcp_input\<close> leaves them.\<close>

theorem receive_overlap:
  assumes mark: "tcp_input_pcb (tcp (up s)) = Some t"
    and p: "seg_p (inseg x) = Some q" "packet (pm s) (Some q) as" "\<forall>a \<in> set as. cuttable (pm s) a"
      "header_in_front (pm s) (seg_hdr (inseg x)) q"
    and len: "unat (seg_len (inseg x)) = lens (pbs (pm s)) as" "ucast (TCP_TCPLEN (inseg x) (pm s)) = tcplen x" "tcplen x < 32768"
    and syn: "TCPH_FLAGS (seg_hdr (inseg x)) (pm s) AND TCP_SYN = 0"
    and k: "rcv_nxt (cb t s) = seqno x + of_nat k" "0 < k" "k < unat (tcplen x)"
    and room: "tcplen x - of_nat k \<le> rcv_wnd (cb t s)"
  shows "\<exists>x' s'. receive_data env C x t s = Some ((True, x'), s') \<and>
    packet (pm s') (Some q) as \<and> contents (pm s') as = drop k (contents (pm s) as) \<and>
    recv_data x' = (if k < length (contents (pm s) as) then Some q else recv_data x) \<and>
    recv_flags x' = (if TCPH_FLAGS (seg_hdr (inseg x)) (pm s) AND TCP_FIN \<noteq> 0 then recv_flags x OR TF_GOT_FIN else recv_flags x) \<and>
    rcv_nxt (cb t s') = seqno x + ucast (tcplen x) \<and> rcv_wnd (cb t s') = rcv_wnd (cb t s) - (tcplen x - of_nat k) \<and>
    tflags (cb t s') AND (TF_ACK_DELAY OR TF_ACK_NOW) \<noteq> 0"
proof -
  let ?n = "tcplen x - of_nat k :: u16" and ?g = "inseg x" and ?L = "lens (pbs (pm s)) as"
  define fin :: u16 where "fin = (if TCPH_FLAGS (seg_hdr ?g) (pm s) AND TCP_FIN \<noteq> 0 then 1 else 0)"
  have tc: "tcplen x = seg_len ?g + fin"
    using len(2) tcplen_no_syn [OF syn] by (simp add: fin_def)
  have "unat (seg_len ?g + fin) \<le> unat (seg_len ?g) + 1"
    using unat_plus_if' [of "seg_len ?g" fin] by (auto simp: fin_def)
  then have kl: "k \<le> ?L" "k < 32768" using k(3) len(1,3) tc by (simp_all add: word_less_nat_alt)
  obtain m d where tf: "trim_front x t s = Some (x\<lparr>inseg := ?g\<lparr>dataptr := d, seg_len := seg_len ?g - of_nat k\<rparr>,
      seqno := rcv_nxt (cb t s)\<rparr>, s\<lparr>pm := m\<rparr>)" and C: "packet m (Some q) as" "contents m as = drop k (contents (pm s) as)"
      "lens (pbs m) as = ?L - k" and fl: "TCPH_FLAGS (seg_hdr ?g) m = TCPH_FLAGS (seg_hdr ?g) (pm s)"
    using trim_front_chain [OF p k(1,2) kl(2,1)] by blast
  define x1 where "x1 = x\<lparr>inseg := ?g\<lparr>dataptr := d, seg_len := seg_len ?g - of_nat k\<rparr>, seqno := rcv_nxt (cb t s)\<rparr>"
  let ?s1 = "s\<lparr>pm := m\<rparr>"
  obtain pb bs where pb: "pbs m q = Some pb" "unat (tot_len pb) = ?L - k" using packet_first [OF C(1)] C(3) by auto
  have s1: "marked t ?s1" "cb t ?s1 = cb t s" using mark by (simp_all add: marked_def)
  have tl: "ucast (TCP_TCPLEN (inseg x1) (pm ?s1)) = ?n"
  proof -
    have "TCPH_FLAGS (seg_hdr (inseg x1)) m AND TCP_SYN = 0" using syn by (simp add: x1_def fl)
    from tcplen_no_syn [OF this] show ?thesis by (simp add: x1_def fl tc fin_def)
  qed
  have n0: "0 < ?n" using k(3) kl(2) by (simp add: word_less_nat_alt unat_sub word_le_nat_alt unsigned_of_nat take_bit_nat_eq_self)
  then have "0 < rcv_wnd (cb t s)" using room by (metis order_less_le_trans)
  then have here: "TCP_SEQ_BETWEEN (rcv_nxt (cb t s)) (rcv_nxt (cb t s)) (rcv_nxt (cb t s) + ucast (rcv_wnd (cb t s)) - 1)"
    using between_here ucast_u16_pos by simp
  have sp: "seg_p (inseg x1) = Some q" using p(1) by (simp add: x1_def)
  from in_sequence_takes [OF s1(1) sp _ tl, of pb env C] pb(1) room s1(2) obtain x' s' where
    r: "in_sequence env C x1 t ?s1 = Some (x', s')" "pm s' = m" "rcv_nxt (cb t s') = seqno x1 + ucast ?n"
      "rcv_wnd (cb t s') = rcv_wnd (cb t s) - ?n" "tflags (cb t s') AND (TF_ACK_DELAY OR TF_ACK_NOW) \<noteq> 0"
      "if tot_len pb > 0 then recv_data x' = Some q \<and> seg_p (inseg x') = None
       else recv_data x' = recv_data x1 \<and> seg_p (inseg x') = Some q"
      "recv_flags x' = (if TCPH_FLAGS (seg_hdr (inseg x1)) m AND TCP_FIN \<noteq> 0 then recv_flags x1 OR TF_GOT_FIN else recv_flags x1)"
    by auto
  have "0 < tcplen x" using k(3) by (simp add: word_less_nat_alt)
  then have "receive_data env C x t s = Some ((True, x'), s')"
    using overlap_between [OF k len(3)] tf here r(1) by (simp add: receive_data_def x1_def)
  moreover have "0 < tot_len pb \<longleftrightarrow> k < ?L" using pb(2) by (simp add: word_less_nat_alt)
  moreover have "seqno x1 + ucast ?n = seqno x + ucast (tcplen x)"
    using ucast_minus [of k "tcplen x"] k(1,3) by (simp add: x1_def)
  ultimately show ?thesis using r C fl
    by (intro exI [of _ x'] exI [of _ s'] conjI) (simp_all add: x1_def split: if_splits)
qed

text \<open>Four bytes arrive in two buffers, three of them known.\<close>

definition overlap_example :: "ipstate nic" where
  "overlap_example = tcp_example (replicate 20 0 @ [1, 2, 3, 4]) 24 (zero_pcb\<lparr>tstate := ESTABLISHED, rcv_nxt := 101, rcv_wnd := 2920\<rparr>)
     \<lparr>pm := (pm (tcp_example (replicate 20 0 @ [1, 2, 3, 4]) 24 zero_pcb))\<lparr>pbs := [
        Memp 0 \<mapsto> \<lparr>p_next = Some (Memp 1), payload = (Own (Memp 0), 34), tot_len = 4, plen = 2, ptype = PBUF_POOL, pflags = 0, pref = 1\<rparr>,
        Memp 1 \<mapsto> \<lparr>p_next = None, payload = (Own (Memp 1), 36), tot_len = 2, plen = 2, ptype = PBUF_POOL, pflags = 0, pref = 1\<rparr>]\<rparr>\<rparr>"

lemma receive_overlap_witness:
  "\<forall>env C. \<exists>x' s'. receive_data env C (rx_example TCP_ACK 98 7 4) 5 overlap_example = Some ((True, x'), s') \<and>
    contents (pm s') [Memp 0, Memp 1] = [4] \<and> recv_data x' = Some (Memp 0) \<and> rcv_nxt (cb 5 s') = 102"
proof (intro allI)
  fix env :: env and C :: "ipstate nic ip_calls"
  let ?s = overlap_example and ?x = "rx_example TCP_ACK 98 7 4" and ?as = "[Memp 0, Memp 1]"
  have c: "cb 5 ?s = zero_pcb\<lparr>tstate := ESTABLISHED, rcv_nxt := 101, rcv_wnd := 2920\<rparr>" "tcp_input_pcb (tcp (up ?s)) = Some 5"
    by (simp_all add: overlap_example_def)
  have d: "dat (pm ?s) r i = (if 14 \<le> i \<and> i < 38 then (replicate 20 0 @ [1, 2, 3, 4]) ! nat (i - 14) else 0)" for r i
    by (simp add: overlap_example_def tcp_example_def)
  have f: "TCPH_FLAGS (seg_hdr (inseg ?x)) (pm ?s) = 0"
    by (simp add: TCPH_FLAGS_def get16_def get8_def d nth_append word16_of_def ntohs_def htons_def) (simp add: rx_example_def)
  have p: "packet (pm ?s) (Some (Memp 0)) ?as" "lens (pbs (pm ?s)) ?as = 4"
    by (simp_all add: packet_def overlap_example_def blen_def)
  have cu: "\<forall>a \<in> set ?as. cuttable (pm ?s) a" by (simp add: cuttable_def overlap_example_def)
  have h: "header_in_front (pm ?s) (seg_hdr (inseg ?x)) (Memp 0)"
    by (simp add: header_in_front_def overlap_example_def rx_example_def)
  have x: "seg_p (inseg ?x) = Some (Memp 0)" "seg_len (inseg ?x) = 4" by (simp_all add: rx_example_def)
  have b: "contents (pm ?s) ?as = [1, 2, 3, 4]"
    by (simp add: bytes_of_def overlap_example_def read_at_def upt_rec tcp_example_def nth_append)
  have n: "ucast (TCP_TCPLEN (inseg ?x) (pm ?s)) = tcplen ?x" using tcplen_no_syn [of "inseg ?x" "pm ?s"] by (simp add: f x)
  have "\<exists>x' s'. receive_data env C ?x 5 ?s = Some ((True, x'), s') \<and> packet (pm s') (Some (Memp 0)) ?as \<and>
      contents (pm s') ?as = drop 3 (contents (pm ?s) ?as) \<and>
      recv_data x' = (if 3 < length (contents (pm ?s) ?as) then Some (Memp 0) else recv_data ?x) \<and>
      recv_flags x' = (if TCPH_FLAGS (seg_hdr (inseg ?x)) (pm ?s) AND TCP_FIN \<noteq> 0 then recv_flags ?x OR TF_GOT_FIN else recv_flags ?x) \<and>
      rcv_nxt (cb 5 s') = seqno ?x + ucast (tcplen ?x) \<and> rcv_wnd (cb 5 s') = rcv_wnd (cb 5 ?s) - (tcplen ?x - of_nat 3) \<and>
      tflags (cb 5 s') AND (TF_ACK_DELAY OR TF_ACK_NOW) \<noteq> 0"
    by (rule receive_overlap [OF c(2) x(1) p(1) cu h _ n]) (simp_all only: p(2) x(2) f c, simp_all)
  then show "\<exists>x' s'. receive_data env C ?x 5 ?s = Some ((True, x'), s') \<and> contents (pm s') ?as = [4] \<and>
      recv_data x' = Some (Memp 0) \<and> rcv_nxt (cb 5 s') = 102"
    unfolding b by (simp del: contents_simps) blast
qed

section \<open>Data out of order\<close>

text \<open>The acknowledgement a segment carries does not touch the receive side of the connection.\<close>

definition receive_side :: "nat \<Rightarrow> ('a netstate_scheme) nic \<Rightarrow> u32 \<times> u16" where
  "receive_side t s = (rcv_nxt (cb t s), rcv_wnd (cb t s))"

lemma receive_side_upd:
  "(\<And>b. rcv_nxt (f b) = rcv_nxt b \<and> rcv_wnd (f b) = rcv_wnd b) \<Longrightarrow> receive_side t (upd_cb u f s) = receive_side t s"
  "receive_side t (s\<lparr>pm := m\<rparr>) = receive_side t s"
  by (simp_all add: receive_side_def)

lemma rexmit_receive_side: "marked t s \<Longrightarrow> tcp_rexmit env C t s = Some s' \<Longrightarrow> receive_side t s' = receive_side t s"
  by (auto simp: tcp_rexmit_def receive_side_upd split: list.splits)

lemma duplicate_ack_receive_side: "marked t s \<Longrightarrow> duplicate_ack env C t e s = Some s' \<Longrightarrow> receive_side t s' = receive_side t s"
  by (auto simp: duplicate_ack_def Let_def receive_side_upd fast_recovery_def inflate_def dest!: rexmit_receive_side [rotated]
      split: if_splits bind_splits)

lemma open_cwnd_receive_side: "open_cwnd b = Some b' \<Longrightarrow> rcv_nxt b' = rcv_nxt b \<and> rcv_wnd b' = rcv_wnd b"
  by (auto simp: open_cwnd_def inflate_def Let_def split: if_splits)

lemma new_ack_receive_side: "new_ack x t s = Some s' \<Longrightarrow> receive_side t s' = receive_side t s"
  by (auto simp: new_ack_def Let_def with_pm_Some receive_side_def dest!: open_cwnd_receive_side split: bind_splits if_splits)

lemma receive_ack_receive_side:
  assumes m: "marked t s" and r: "receive_ack env C x t s = Some s'"
  shows "receive_side t s' = receive_side t s"
proof -
  define s1 where "s1 = upd_cb t (window_update x (get16 (tcphdr x) 14 (pm s))) s"
  have s1: "receive_side t s1 = receive_side t s" by (simp add: s1_def receive_side_upd window_update_def Let_def)
  have "marked t s1" using m by (simp add: s1_def)
  from r obtain s2 where d: "(if lastack (cb t s1) = ackno x then duplicate_ack env C t (ucast (snd_wnd (cb t s)) + snd_wl2 (cb t s)) s1
      else if TCP_SEQ_BETWEEN (ackno x) (lastack (cb t s1) + 1) (snd_nxt (cb t s1)) then new_ack x t s1
      else Some (upd_cb t (\<lambda>b. b\<lparr>acked := 0\<rparr>) s1)) = Some s2" and s2: "receive_side t s' = receive_side t s2"
    by (auto simp: receive_ack_def Let_def with_pm_Some receive_side_upd estimate_rtt_def simp flip: s1_def split: bind_splits)
  have "receive_side t s2 = receive_side t s1"
    using d duplicate_ack_receive_side [OF \<open>marked t s1\<close>] new_ack_receive_side by (auto simp: receive_side_upd split: if_splits)
  then show ?thesis using s1 s2 by simp
qed

lemma receive_ack_marked: "marked t s \<Longrightarrow> receive_ack env C x t s = Some s' \<Longrightarrow> marked t s'"
  using receive_ack_calm calm_marked by blast

text \<open>C14: data out of order. \<^verbatim>\<open>tcp_receive\<close> does not take a segment whose data neither begin at the sequence number expected next
  nor contain it behind their first byte (\<^verbatim>\<open>rcv_nxt\<close> is none of \<^verbatim>\<open>seqno\<close>, ..., \<^verbatim>\<open>seqno + tcplen - 1\<close> as sequence numbers
  compare): after the acknowledgement the segment carries, if it carries one, has been processed, which touches neither
  \<^verbatim>\<open>rcv_nxt\<close> nor \<^verbatim>\<open>rcv_wnd\<close>, the only change is the mark that makes the connection acknowledge at once what it has; nothing is
  passed to the application, and the segment still holds its packet.\<close>

theorem receive_out_of_order:
  fixes env C x t s
  assumes mark: "tcp_input_pcb (tcp (up s)) = Some t"
    and x: "0 < tcplen x" "seqno x \<noteq> rcv_nxt (cb t s)"
      "\<not> TCP_SEQ_BETWEEN (rcv_nxt (cb t s)) (seqno x + 1) (seqno x + ucast (tcplen x) - 1)"
  defines "acked_state \<equiv> if has x TCP_ACK then receive_ack env C x t s else Some s"
  shows "tcp_receive env C x t s =
      map_option (\<lambda>s'. ((False, x), upd_cb t (\<lambda>b. b\<lparr>tflags := tflags b OR TF_ACK_NOW\<rparr>) s')) acked_state \<and>
    (\<forall>s'. acked_state = Some s' \<longrightarrow> rcv_nxt (cb t s') = rcv_nxt (cb t s) \<and> rcv_wnd (cb t s') = rcv_wnd (cb t s))"
proof -
  have m: "marked t s" using mark by (simp add: marked_def)
  have side: "receive_side t s' = receive_side t s \<and> marked t s'" if "acked_state = Some s'" for s'
    using that m receive_ack_receive_side [OF m] receive_ack_marked [OF m] by (auto simp: acked_state_def split: if_splits)
  have twice: "tflags b OR TF_ACK_NOW OR TF_ACK_NOW = tflags b OR TF_ACK_NOW" for b by (simp add: or.assoc)
  have "receive_data env C x t s' = Some ((False, x), upd_cb t (\<lambda>b. b\<lparr>tflags := tflags b OR TF_ACK_NOW\<rparr>) s')"
    if "acked_state = Some s'" for s'
    using side [OF that] x twice by (simp add: receive_data_def ack_now_marked receive_side_def)
  then have "tcp_receive env C x t s =
      map_option (\<lambda>s'. ((False, x), upd_cb t (\<lambda>b. b\<lparr>tflags := tflags b OR TF_ACK_NOW\<rparr>) s')) acked_state"
    by (cases acked_state) (simp_all add: tcp_receive_def acked_state_def [symmetric])
  then show ?thesis using side by (simp add: receive_side_def)
qed

text \<open>A segment from beyond the next one, with an acknowledgement of nothing new.\<close>

lemma receive_out_of_order_witness:
  "\<forall>env C. \<exists>s'. tcp_receive env C (rx_example TCP_ACK 200 7 4) 5
      (tcp_example [] 4 (zero_pcb\<lparr>tstate := ESTABLISHED, snd_nxt := 7, lastack := 7, rcv_nxt := 100, rcv_wnd := 2920\<rparr>)) =
      Some ((False, rx_example TCP_ACK 200 7 4), s') \<and> rcv_nxt (cb 5 s') = 100 \<and> tflags (cb 5 s') AND TF_ACK_NOW \<noteq> 0"
proof (intro allI)
  fix env :: env and C :: "ipstate nic ip_calls"
  let ?x = "rx_example TCP_ACK 200 7 4"
  let ?s = "tcp_example [] 4 (zero_pcb\<lparr>tstate := ESTABLISHED, snd_nxt := 7, lastack := 7, rcv_nxt := 100, rcv_wnd := 2920\<rparr>)"
  obtain s1 where a: "receive_ack env C ?x 5 ?s = Some s1"
    by (simp add: receive_ack_def duplicate_ack_def Let_def with_pm_def window_update_def TCP_SEQ_LT_def example_zero estimate_rtt_def)
  have "(tflags b OR TF_ACK_NOW) AND TF_ACK_NOW \<noteq> 0" for b
  proof -
    have "bit ((tflags b OR TF_ACK_NOW) AND TF_ACK_NOW) 1" by (simp add: bit_simps)
    then show ?thesis by (metis bit_0_eq bot_apply bot_bool_def)
  qed
  then show "\<exists>s'. tcp_receive env C ?x 5 ?s = Some ((False, ?x), s') \<and> rcv_nxt (cb 5 s') = 100 \<and> tflags (cb 5 s') AND TF_ACK_NOW \<noteq> 0"
    using receive_out_of_order [of ?s 5 ?x env C] a by (simp add: TCP_SEQ_BETWEEN_def TCP_SEQ_GEQ_def)
qed

section \<open>Damaged segments\<close>

text \<open>C15: a damaged segment never reaches a connection. Whatever the chain of buffers it is in, when its bytes differ in one place
  from those of a segment whose checksum was right, \<^verbatim>\<open>tcp_input\<close> does nothing but free the packet.\<close>

theorem tcp_damage_dropped:
  assumes p: "pbs (pm s) p = Some b" "pbuf_header (Some p) (- (IPH_HL (payload b) (pm s) * 4)) (pm s) = Some (0, m)" "pbs m p = Some b'"
    and chain: "linked (pbs m) (Some p) as None"
    and ok: "checksum_of (pseudo_header (get32 (payload b) 12 m) (get32 (payload b) 16 m) 6 (tot_len b') @ ds) = 0"
    and bad: "contents m as = ds[j := v]" "j < length ds" "v \<noteq> ds ! j"
  shows "tcp_input env C A p inp s = free_packet p (s\<lparr>pm := m\<rparr>)"
proof -
  let ?h = "pseudo_header (get32 (payload b) 12 m) (get32 (payload b) 16 m) 6 (tot_len b')"
  have "checksum_of (?h @ contents m as) \<noteq> 0"
    using checksum_detects [OF ok, of "length ?h + j" v] bad by (simp add: nth_append list_update_append)
  moreover have "inet_chksum_pseudo (Some p) (get32 (payload b) 12 m) (get32 (payload b) 16 m) 6 (tot_len b') m = Some (checksum_of (?h @ contents m as))"
    using chksum_of_chain [OF chain] by blast
  moreover have "with_pm (pbuf_header (Some p) (- (IPH_HL (payload b) (pm s) * 4))) s = Some (0, s\<lparr>pm := m\<rparr>)"
    by (simp add: with_pm_Some p(2))
  ultimately show ?thesis by (simp add: tcp_input_def Let_def p)
qed


definition damaged_segment :: "u8 list" where
  "damaged_segment = [0, 0, 0, 0, 0, 0, 0, 0, 0, 0, 0, 0, 0, 0, 0, 0, 0xff, 0xe5, 0, 0][3 := 1]"

definition damaged_example :: "ipstate nic" where
  "damaged_example = tcp_example (0x45 # replicate 19 0 @ damaged_segment) 40 zero_pcb"

lemma tcp_damage_dropped_witness:
  "\<forall>env C A. \<exists>m. tcp_input env C A (Memp 0) 0 damaged_example = free_packet (Memp 0) (damaged_example\<lparr>pm := m\<rparr>) \<and>
    contents m [Memp 0] = damaged_segment"
proof (intro allI)
  fix env :: env and C :: "ipstate nic ip_calls" and A :: "ipstate nic tcp_app"
  let ?s = damaged_example
  let ?b = "\<lparr>p_next = None, payload = (Own (Memp 0), 14), tot_len = 40, plen = 40, ptype = PBUF_POOL, pflags = 0, pref = 1\<rparr>"
  let ?b' = "\<lparr>p_next = None, payload = (Own (Memp 0), 34), tot_len = 20, plen = 20, ptype = PBUF_POOL, pflags = 0, pref = 1\<rparr>"
  let ?m = "Pbuf.put (Memp 0) ?b' (pm ?s)"
  have b: "pbs (pm ?s) (Memp 0) = Some ?b" by (simp add: damaged_example_def tcp_example_def)
  have d: "dat (pm ?s) (Own (Memp 0)) i = (if 14 \<le> i \<and> i < 54 then (0x45 # replicate 19 0 @ damaged_segment) ! nat (i - 14) else 0)" for i
    by (simp add: damaged_example_def tcp_example_def damaged_segment_def)
  have hl: "IPH_HL (payload ?b) (pm ?s) = 5"
    by (simp add: IPH_HL_def get16_def get8_def d word16_of_def ntohs_def htons_def)
  have h: "pbuf_header (Some (Memp 0)) (- (IPH_HL (payload ?b) (pm ?s) * 4)) (pm ?s) = Some (0, ?m)"
    unfolding hl by (simp add: pbuf_header_def b)
  have z: "get32 (Own (Memp 0), 14) k ((pm ?s)\<lparr>pbs := X\<rparr>) = 0" if "1 \<le> k" "k \<le> 16" for k X
    using that by (simp add: get32_def get8_def d nth_Cons' nth_append word32_of_def) linarith
  have t: "dat (pm ?s) (Own (Memp 0)) (34 + int i) = damaged_segment ! i" if "i < 20" for i
  proof -
    have "nat (34 + int i - 14) = length ((0x45 :: u8) # replicate 19 0) + i" by simp
    then have "((0x45 # replicate 19 0) @ damaged_segment) ! nat (34 + int i - 14) = damaged_segment ! i"
      by (simp only: nth_append_length_plus)
    then show ?thesis using that by (simp add: d del: append_Cons) simp
  qed
  have "length damaged_segment = 20" by (simp add: damaged_segment_def)
  then have c: "contents ?m [Memp 0] = damaged_segment"
    by (intro nth_equalityI) (simp_all add: contents_def bytes_of_def Pbuf.put_def read_at_def t)
  have l: "linked (pbs ?m) (Some (Memp 0)) [Memp 0] None" by (simp add: Pbuf.put_def)
  have "tcp_input env C A (Memp 0) 0 ?s = free_packet (Memp 0) (?s\<lparr>pm := ?m\<rparr>)"
    by (rule tcp_damage_dropped [where b' = ?b', OF b h _ l _ c [unfolded damaged_segment_def]])
      (simp_all add: Pbuf.put_def z pseudo_header_def checksum_zero internet_sum_def ones_def le32_def)
  then show "\<exists>m. tcp_input env C A (Memp 0) 0 ?s = free_packet (Memp 0) (?s\<lparr>pm := m\<rparr>) \<and> contents m [Memp 0] = damaged_segment"
    using c by blast
qed

end
