(* ===== verification/IpFrag.thy ===== *)
theory IpFrag
  imports Ip "HOL-Library.Monad_Syntax" "HOL-Library.Signed_Division"
begin

text \<open>
  Fragments: \<^verbatim>\<open>ip_frag.c\<close>. Datagrams being put together are elements of a pool, linked by their \<^verbatim>\<open>next\<close> members, and found by
  the header they were given; an element that has been given back holds nothing. The fragments of a datagram are linked
  by a helper structure that the code lays over the header of each fragment: its two offsets are written to the
  bytes of the packet, and its pointer, whose representation nothing depends on, is kept beside them by packet. The
  build has the checks for overlap and for the oldest datagram, and the static buffer for fragments sent.
\<close>

record reassdata =
  r_next :: "nat option"
  r_p :: "addr option"
  r_hdr :: "u8 list"
  datagram_len :: u16
  r_flags :: u8
  r_timer :: u8

record fragstate = ipstate +
  reassdatagrams :: "nat option"
  rdata :: "nat \<Rightarrow> reassdata option"
  ip_reass_pbufcount :: u16
  next_pbuf :: "addr \<Rightarrow> addr option"

abbreviation (input) IP_REASS_FLAG_LASTFRAG :: u8 where "IP_REASS_FLAG_LASTFRAG \<equiv> 0x01"
abbreviation (input) IP_REASS_MAXAGE :: u8 where "IP_REASS_MAXAGE \<equiv> 3"
abbreviation (input) IP_REASS_MAX_PBUFS :: int where "IP_REASS_MAX_PBUFS \<equiv> 10"
abbreviation (input) ICMP_TE_FRAG :: u8 where "ICMP_TE_FRAG \<equiv> 1"

definition datagram :: "nat \<Rightarrow> ('a fragstate_scheme) nic \<Rightarrow> reassdata option" where
  "datagram i s = rdata (up s) i"

definition upd_datagram :: "nat \<Rightarrow> (reassdata \<Rightarrow> reassdata) \<Rightarrow> ('a fragstate_scheme) nic \<Rightarrow> ('a fragstate_scheme) nic" where
  "upd_datagram i f = upd_up (\<lambda>u. u\<lparr>rdata := (rdata u)(i := map_option f (rdata u i))\<rparr>)"

definition set_next_pbuf :: "addr \<Rightarrow> addr option \<Rightarrow> ('a fragstate_scheme) nic \<Rightarrow> ('a fragstate_scheme) nic" where
  "set_next_pbuf a n = upd_up (\<lambda>u. u\<lparr>next_pbuf := (next_pbuf u)(a := n)\<rparr>)"

text \<open>The offsets of the helper structure in a packet: where its data start and end.\<close>

definition iprh :: "addr \<Rightarrow> ('a fragstate_scheme) nic \<Rightarrow> (u16 \<times> u16) option" where
  "iprh a s = map_option (\<lambda>b. (get16 (payload b) 4 (pm s), get16 (payload b) 6 (pm s))) (pbs (pm s) a)"

definition count_pbufs :: "int \<Rightarrow> ('a fragstate_scheme) nic \<Rightarrow> ('a fragstate_scheme) nic" where
  "count_pbufs n = upd_up (\<lambda>u. u\<lparr>ip_reass_pbufcount := ip_reass_pbufcount u + of_int n\<rparr>)"

text \<open>The saved header of a datagram against the header of a fragment.\<close>

definition IP_ADDRESSES_AND_ID_MATCH :: "u8 list \<Rightarrow> ptr \<Rightarrow> pmem \<Rightarrow> bool" where
  "IP_ADDRESSES_AND_ID_MATCH h hdr m \<longleftrightarrow>
     word32_of (h ! 12) (h ! 13) (h ! 14) (h ! 15) = get32 hdr 12 m \<and>
     word32_of (h ! 16) (h ! 17) (h ! 18) (h ! 19) = get32 hdr 16 m \<and>
     word16_of (h ! 4) (h ! 5) = IPH_ID hdr m"

section \<open>Giving up a datagram\<close>

definition ip_reass_dequeue_datagram ::
  "nat \<Rightarrow> nat option \<Rightarrow> ('a fragstate_scheme) nic \<Rightarrow> ('a fragstate_scheme) nic option" where
  "ip_reass_dequeue_datagram ipr prev s =
     do {
       d \<leftarrow> datagram ipr s;
       s \<leftarrow> (if reassdatagrams (up s) = Some ipr then Some (upd_up (\<lambda>u. u\<lparr>reassdatagrams := r_next d\<rparr>) s)
            else do {
              q \<leftarrow> prev;
              _ \<leftarrow> datagram q s;
              Some (upd_datagram q (\<lambda>x. x\<lparr>r_next := r_next d\<rparr>) s)
            });
       Some (on_pm (memp_free_on MEMP_REASSDATA ipr) (upd_up (\<lambda>u. u\<lparr>rdata := (rdata u)(ipr := None)\<rparr>) s))
     }"

partial_function (option) free_fragments :: "addr option \<Rightarrow> int \<Rightarrow> ('a fragstate_scheme) nic \<Rightarrow> (int \<times> ('a fragstate_scheme) nic) option" where
  "free_fragments p pbufs_freed s =
     (case p of None \<Rightarrow> Some (pbufs_freed, s)
      | Some pcur \<Rightarrow>
          do {
            _ \<leftarrow> pbs (pm s) pcur;
            c \<leftarrow> pbuf_clen (Some pcur) (pm s);
            let n = next_pbuf (up s) pcur;
            s \<leftarrow> free_packet pcur s;
            free_fragments n (pbufs_freed + uint c) s
          })"

text \<open>A datagram whose first fragment has come is reported to its sender.\<close>

definition report_timeout ::
  "env \<Rightarrow> (('a fragstate_scheme) nic) ip_calls \<Rightarrow> nat \<Rightarrow> reassdata \<Rightarrow> addr \<Rightarrow> ptr \<Rightarrow>
   ('a fragstate_scheme) nic \<Rightarrow> (int \<times> ('a fragstate_scheme) nic) option" where
  "report_timeout env C ipr d p hdr s =
     do {
       let s = upd_datagram ipr (\<lambda>x. x\<lparr>r_p := next_pbuf (up s) p\<rparr>) s;
       let s = on_pm (poke hdr 0 (r_hdr d)) s;
       s \<leftarrow> icmp_time_exceeded env C p ICMP_TE_FRAG s;
       c \<leftarrow> pbuf_clen (Some p) (pm s);
       s \<leftarrow> free_packet p s;
       Some (uint c, s)
     }"

definition ip_reass_free_complete_datagram ::
  "env \<Rightarrow> (('a fragstate_scheme) nic) ip_calls \<Rightarrow> nat \<Rightarrow> nat option \<Rightarrow>
   ('a fragstate_scheme) nic \<Rightarrow> (int \<times> ('a fragstate_scheme) nic) option" where
  "ip_reass_free_complete_datagram env C ipr prev s =
     do {
       d \<leftarrow> datagram ipr s;
       p \<leftarrow> r_p d;
       b \<leftarrow> pbs (pm s) p;
       (pbufs_freed, s) \<leftarrow> (if get16 (payload b) 4 (pm s) = 0 then report_timeout env C ipr d p (payload b) s else Some (0, s));
       d \<leftarrow> datagram ipr s;
       (pbufs_freed, s) \<leftarrow> free_fragments (r_p d) pbufs_freed s;
       s \<leftarrow> ip_reass_dequeue_datagram ipr prev s;
       Some (pbufs_freed, count_pbufs (- pbufs_freed) s)
     }"

text \<open>One walk along the datagrams, as the timer takes it.\<close>

partial_function (option) reass_tmr_loop ::
  "env \<Rightarrow> (('a fragstate_scheme) nic) ip_calls \<Rightarrow> nat option \<Rightarrow> nat option \<Rightarrow>
   ('a fragstate_scheme) nic \<Rightarrow> ('a fragstate_scheme) nic option" where
  "reass_tmr_loop env C r prev s =
     (case r of None \<Rightarrow> Some s
      | Some i \<Rightarrow>
          do {
            d \<leftarrow> datagram i s;
            if r_timer d > 0 then reass_tmr_loop env C (r_next d) (Some i) (upd_datagram i (\<lambda>x. x\<lparr>r_timer := r_timer x - 1\<rparr>) s)
            else do {
              (_, s) \<leftarrow> ip_reass_free_complete_datagram env C i prev s;
              reass_tmr_loop env C (r_next d) prev s
            }
          })"

definition ip_reass_tmr ::
  "env \<Rightarrow> (('a fragstate_scheme) nic) ip_calls \<Rightarrow> ('a fragstate_scheme) nic \<Rightarrow> ('a fragstate_scheme) nic option" where
  "ip_reass_tmr env C s = reass_tmr_loop env C (reassdatagrams (up s)) None s"

text \<open>
  The search for the oldest datagram but the one of the fragment. What the code keeps as its predecessor is the last
  element but one of the whole list.
\<close>

partial_function (option) oldest_loop ::
  "ptr \<Rightarrow> nat option \<Rightarrow> nat option \<Rightarrow> nat option \<Rightarrow> nat \<Rightarrow> ('a fragstate_scheme) nic \<Rightarrow> (nat option \<times> nat option \<times> nat) option" where
  "oldest_loop fraghdr r oldest prev others s =
     (case r of None \<Rightarrow> Some (oldest, prev, others)
      | Some i \<Rightarrow>
          do {
            d \<leftarrow> datagram i s;
            (oldest, others) \<leftarrow>
              (if \<not> IP_ADDRESSES_AND_ID_MATCH (r_hdr d) fraghdr (pm s) then
                 case oldest of
                   None \<Rightarrow> Some (Some i, others + 1)
                 | Some j \<Rightarrow> do { od \<leftarrow> datagram j s; Some (if r_timer d \<le> r_timer od then Some i else oldest, others + 1) }
               else Some (oldest, others));
            oldest_loop fraghdr (r_next d) oldest (if r_next d \<noteq> None then Some i else prev) others s
          })"

partial_function (option) remove_loop ::
  "env \<Rightarrow> (('a fragstate_scheme) nic) ip_calls \<Rightarrow> ptr \<Rightarrow> int \<Rightarrow> int \<Rightarrow>
   ('a fragstate_scheme) nic \<Rightarrow> (int \<times> ('a fragstate_scheme) nic) option" where
  "remove_loop env C fraghdr pbufs_needed pbufs_freed s =
     do {
       (oldest, prev, other_datagrams) \<leftarrow> oldest_loop fraghdr (reassdatagrams (up s)) None None 0 s;
       (pbufs_freed, s) \<leftarrow>
         (case oldest of None \<Rightarrow> Some (pbufs_freed, s)
          | Some i \<Rightarrow> do { (n, s) \<leftarrow> ip_reass_free_complete_datagram env C i prev s; Some (pbufs_freed + n, s) });
       if pbufs_freed < pbufs_needed \<and> other_datagrams > 1 then remove_loop env C fraghdr pbufs_needed pbufs_freed s
       else Some (pbufs_freed, s)
     }"

definition ip_reass_remove_oldest_datagram ::
  "env \<Rightarrow> (('a fragstate_scheme) nic) ip_calls \<Rightarrow> ptr \<Rightarrow> int \<Rightarrow>
   ('a fragstate_scheme) nic \<Rightarrow> (int \<times> ('a fragstate_scheme) nic) option" where
  "ip_reass_remove_oldest_datagram env C fraghdr pbufs_needed s = remove_loop env C fraghdr pbufs_needed 0 s"

section \<open>Putting a datagram together\<close>

definition new_reassdata :: "('a fragstate_scheme) nic \<Rightarrow> nat option \<times> ('a fragstate_scheme) nic" where
  "new_reassdata s =
     (let (e, tab) = memp_malloc MEMP_REASSDATA (pools (pm s)) in
      (e, case e of None \<Rightarrow> s | Some _ \<Rightarrow> s\<lparr>pm := (pm s)\<lparr>pools := tab\<rparr>\<rparr>))"

definition ip_reass_enqueue_new_datagram ::
  "env \<Rightarrow> (('a fragstate_scheme) nic) ip_calls \<Rightarrow> ptr \<Rightarrow> int \<Rightarrow>
   ('a fragstate_scheme) nic \<Rightarrow> (nat option \<times> ('a fragstate_scheme) nic) option" where
  "ip_reass_enqueue_new_datagram env C fraghdr clen s =
     do {
       let (e, s) = new_reassdata s;
       (e, s) \<leftarrow> (case e of
           Some _ \<Rightarrow> Some (e, s)
         | None \<Rightarrow> do {
             (n, s) \<leftarrow> ip_reass_remove_oldest_datagram env C fraghdr clen s;
             Some (if n \<ge> clen then new_reassdata s else (None, s))
           });
       case e of None \<Rightarrow> Some (None, s)
       | Some ipr \<Rightarrow>
           let d = \<lparr>r_next = reassdatagrams (up s), r_p = None, r_hdr = gets fraghdr 0 20 (pm s), datagram_len = 0,
                    r_flags = 0, r_timer = IP_REASS_MAXAGE\<rparr>
           in Some (Some ipr, upd_up (\<lambda>u. u\<lparr>rdata := (rdata u)(ipr \<mapsto> d), reassdatagrams := Some ipr\<rparr>) s)
     }"

text \<open>
  The place of a fragment among those that have come: the fragment after it, the one before it, and whether the ones
  passed are without a hole; \<open>None\<close> is the jump to \<^verbatim>\<open>freepbuf\<close>.
\<close>

partial_function (option) place_fragment ::
  "addr \<Rightarrow> nat \<Rightarrow> addr option \<Rightarrow> addr option \<Rightarrow> bool \<Rightarrow> ('a fragstate_scheme) nic \<Rightarrow>
   ((addr option \<times> addr option \<times> bool) option \<times> ('a fragstate_scheme) nic) option" where
  "place_fragment new_p ipr q prev valid s =
     (case q of None \<Rightarrow> Some (Some (None, prev, valid), s)
      | Some c \<Rightarrow>
          do {
            (start, stop) \<leftarrow> iprh new_p s;
            (cstart, cstop) \<leftarrow> iprh c s;
            if start < cstart then
              let s = set_next_pbuf new_p q s in
              case prev of
                Some pr \<Rightarrow> do {
                  (_, prstop) \<leftarrow> iprh pr s;
                  Some (if start < prstop \<or> stop > cstart then (None, s) else (Some (q, prev, valid), set_next_pbuf pr (Some new_p) s))
                }
              | None \<Rightarrow> Some (Some (q, prev, valid), upd_datagram ipr (\<lambda>x. x\<lparr>r_p := Some new_p\<rparr>) s)
            else if start = cstart then Some (None, s)
            else if start < cstop then Some (None, s)
            else do {
              valid \<leftarrow> (case prev of None \<Rightarrow> Some valid
                       | Some pr \<Rightarrow> do { (_, prstop) \<leftarrow> iprh pr s; Some (if prstop \<noteq> cstart then False else valid) });
              place_fragment new_p ipr (next_pbuf (up s) c) q valid s
            }
          })"

text \<open>Whether the fragments from one on are without a hole.\<close>

partial_function (option) no_holes :: "addr \<Rightarrow> ('a fragstate_scheme) nic \<Rightarrow> bool option" where
  "no_holes c s =
     (case next_pbuf (up s) c of None \<Rightarrow> Some True
      | Some q \<Rightarrow>
          do {
            (_, cstop) \<leftarrow> iprh c s;
            (qstart, _) \<leftarrow> iprh q s;
            if cstop \<noteq> qstart then Some False else no_holes q s
          })"

text \<open>The end of the list, when the walk came that far.\<close>

definition append_fragment ::
  "addr \<Rightarrow> nat \<Rightarrow> addr option \<Rightarrow> bool \<Rightarrow> ('a fragstate_scheme) nic \<Rightarrow> (bool \<times> ('a fragstate_scheme) nic) option" where
  "append_fragment new_p ipr prev valid s =
     (case prev of
        Some pr \<Rightarrow> do {
          let s = set_next_pbuf pr (Some new_p) s;
          (_, prstop) \<leftarrow> iprh pr s;
          (start, _) \<leftarrow> iprh new_p s;
          Some (if prstop \<noteq> start then False else valid, s)
        }
      | None \<Rightarrow> Some (valid, upd_datagram ipr (\<lambda>x. x\<lparr>r_p := Some new_p\<rparr>) s))"

definition validate :: "addr \<Rightarrow> nat \<Rightarrow> bool \<Rightarrow> ('a fragstate_scheme) nic \<Rightarrow> bool option" where
  "validate new_p ipr valid s =
     do {
       d \<leftarrow> datagram ipr s;
       if r_flags d AND IP_REASS_FLAG_LASTFRAG \<noteq> 0 then
         if valid then do {
           p \<leftarrow> r_p d;
           (start, _) \<leftarrow> iprh p s;
           if start \<noteq> 0 then Some False else no_holes new_p s
         }
         else Some False
       else Some False
     }"

definition ip_reass_chain_frag_into_datagram_and_validate ::
  "nat \<Rightarrow> addr \<Rightarrow> ('a fragstate_scheme) nic \<Rightarrow> (bool \<times> ('a fragstate_scheme) nic) option" where
  "ip_reass_chain_frag_into_datagram_and_validate ipr new_p s =
     do {
       b \<leftarrow> pbs (pm s) new_p;
       let fraghdr = payload b;
       let len = ntohs (IPH_LEN fraghdr (pm s)) - IPH_HL fraghdr (pm s) * 4;
       let offset = (ntohs (IPH_OFFSET fraghdr (pm s)) AND IP_OFFMASK) * 8;
       let s = set_next_pbuf new_p None s;
       let s = on_pm (put16 fraghdr 4 offset) s;
       let s = on_pm (put16 fraghdr 6 (offset + len)) s;
       d \<leftarrow> datagram ipr s;
       (r, s) \<leftarrow> place_fragment new_p ipr (r_p d) None True s;
       case r of
         None \<Rightarrow> do {
           c \<leftarrow> pbuf_clen (Some new_p) (pm s);
           let s = count_pbufs (- uint c) s;
           s \<leftarrow> free_packet new_p s;
           Some (False, s)
         }
       | Some (q, prev, valid) \<Rightarrow> do {
           (valid, s) \<leftarrow> (if q = None then append_fragment new_p ipr prev valid s else Some (valid, s));
           v \<leftarrow> validate new_p ipr valid s;
           Some (v, s)
         }
     }"

partial_function (option) find_datagram ::
  "ptr \<Rightarrow> nat option \<Rightarrow> nat option \<Rightarrow> ('a fragstate_scheme) nic \<Rightarrow> (nat option \<times> nat option) option" where
  "find_datagram fraghdr ipr prev s =
     (case ipr of None \<Rightarrow> Some (None, prev)
      | Some i \<Rightarrow>
          do {
            d \<leftarrow> datagram i s;
            if IP_ADDRESSES_AND_ID_MATCH (r_hdr d) fraghdr (pm s) then Some (Some i, prev)
            else find_datagram fraghdr (r_next d) (Some i) s
          })"

partial_function (option) chain_fragments :: "addr \<Rightarrow> addr option \<Rightarrow> ('a fragstate_scheme) nic \<Rightarrow> ('a fragstate_scheme) nic option" where
  "chain_fragments p r s =
     (case r of None \<Rightarrow> Some s
      | Some c \<Rightarrow>
          do {
            (_, s) \<leftarrow> with_pm (pbuf_header (Some c) (- IP_HLEN)) s;
            m \<leftarrow> pbuf_cat (Some p) (Some c) (pm s);
            let s = s\<lparr>pm := m\<rparr>;
            chain_fragments p (next_pbuf (up s) c) s
          })"

text \<open>The header of the whole datagram.\<close>

definition whole_header :: "ptr \<Rightarrow> u8 list \<Rightarrow> u16 \<Rightarrow> pmem \<Rightarrow> pmem" where
  "whole_header hdr h len m =
     (let m = poke hdr 0 h m;
          m = IPH_LEN_SET hdr (htons len) m;
          m = IPH_OFFSET_SET hdr 0 m;
          m = IPH_CHKSUM_SET hdr 0 m
      in IPH_CHKSUM_SET hdr (inet_chksum hdr IP_HLEN m) m)"

definition datagram_complete ::
  "nat \<Rightarrow> nat option \<Rightarrow> ('a fragstate_scheme) nic \<Rightarrow> (addr \<times> ('a fragstate_scheme) nic) option" where
  "datagram_complete ipr ipr_prev s =
     do {
       let s = upd_datagram ipr (\<lambda>x. x\<lparr>datagram_len := datagram_len x + IP_HLEN\<rparr>) s;
       d \<leftarrow> datagram ipr s;
       p \<leftarrow> r_p d;
       b \<leftarrow> pbs (pm s) p;
       let r = next_pbuf (up s) p;
       let s = on_pm (whole_header (payload b) (r_hdr d) (datagram_len d)) s;
       s \<leftarrow> chain_fragments p r s;
       s \<leftarrow> ip_reass_dequeue_datagram ipr ipr_prev s;
       c \<leftarrow> pbuf_clen (Some p) (pm s);
       Some (p, count_pbufs (- uint c) s)
     }"

text \<open>Room for the buffers of one more fragment; \<open>False\<close> is the jump to \<^verbatim>\<open>nullreturn\<close>.\<close>

definition make_room ::
  "env \<Rightarrow> (('a fragstate_scheme) nic) ip_calls \<Rightarrow> ptr \<Rightarrow> int \<Rightarrow> ('a fragstate_scheme) nic \<Rightarrow> (bool \<times> ('a fragstate_scheme) nic) option" where
  "make_room env C fraghdr clen s =
     (if uint (ip_reass_pbufcount (up s)) + clen > IP_REASS_MAX_PBUFS then
        do {
          (n, s) \<leftarrow> ip_reass_remove_oldest_datagram env C fraghdr clen s;
          Some (\<not> (n = 0 \<or> uint (ip_reass_pbufcount (up s)) + clen > IP_REASS_MAX_PBUFS), s)
        }
      else Some (True, s))"

definition accept_fragment ::
  "nat \<Rightarrow> nat option \<Rightarrow> addr \<Rightarrow> ptr \<Rightarrow> u16 \<Rightarrow> u16 \<Rightarrow> int \<Rightarrow> ('a fragstate_scheme) nic \<Rightarrow> (addr option \<times> ('a fragstate_scheme) nic) option" where
  "accept_fragment ipr ipr_prev p fraghdr offset len clen s =
     do {
       let s = count_pbufs clen s;
       let s = (if ntohs (IPH_OFFSET fraghdr (pm s)) AND IP_MF = 0
                then upd_datagram ipr (\<lambda>x. x\<lparr>r_flags := r_flags x OR IP_REASS_FLAG_LASTFRAG, datagram_len := offset + len\<rparr>) s
                else s);
       (v, s) \<leftarrow> ip_reass_chain_frag_into_datagram_and_validate ipr p s;
       if v then do { (q, s) \<leftarrow> datagram_complete ipr ipr_prev s; Some (Some q, s) }
       else Some (None, s)
     }"

text \<open>A later header is replaced by the header of the first fragment.\<close>

definition keep_first_header :: "nat \<Rightarrow> ptr \<Rightarrow> ('a fragstate_scheme) nic \<Rightarrow> ('a fragstate_scheme) nic option" where
  "keep_first_header i fraghdr s =
     do {
       d \<leftarrow> datagram i s;
       Some (if ntohs (IPH_OFFSET fraghdr (pm s)) AND IP_OFFMASK = 0 \<and> ntohs (word16_of (r_hdr d ! 6) (r_hdr d ! 7)) AND IP_OFFMASK \<noteq> 0
             then upd_datagram i (\<lambda>x. x\<lparr>r_hdr := gets fraghdr 0 20 (pm s)\<rparr>) s else s)
     }"

definition ip_reass ::
  "env \<Rightarrow> (('a fragstate_scheme) nic) ip_calls \<Rightarrow> addr \<Rightarrow> ('a fragstate_scheme) nic \<Rightarrow> (addr option \<times> ('a fragstate_scheme) nic) option" where
  "ip_reass env C p s =
     do {
       b \<leftarrow> pbs (pm s) p;
       let fraghdr = payload b;
       let nullreturn = (\<lambda>s. map_option (Pair None) (free_packet p s));
       if IPH_HL fraghdr (pm s) * 4 \<noteq> IP_HLEN then nullreturn s
       else do {
         let offset = (ntohs (IPH_OFFSET fraghdr (pm s)) AND IP_OFFMASK) * 8;
         let len = ntohs (IPH_LEN fraghdr (pm s)) - IPH_HL fraghdr (pm s) * 4;
         c \<leftarrow> pbuf_clen (Some p) (pm s);
         (room, s) \<leftarrow> make_room env C fraghdr (uint c) s;
         if \<not> room then nullreturn s
         else do {
           (ipr, ipr_prev) \<leftarrow> find_datagram fraghdr (reassdatagrams (up s)) None s;
           (ipr, s) \<leftarrow> (case ipr of
               None \<Rightarrow> ip_reass_enqueue_new_datagram env C fraghdr (uint c) s
             | Some i \<Rightarrow> do { s \<leftarrow> keep_first_header i fraghdr s; Some (Some i, s) });
           case ipr of
             None \<Rightarrow> nullreturn s
           | Some i \<Rightarrow> accept_fragment i ipr_prev p fraghdr offset len (uint c) s
         }
       }
     }"

section \<open>Sending fragments\<close>

text \<open>The static buffer is a region of its own.\<close>

abbreviation (input) frag_buf :: ptr where "frag_buf \<equiv> (Ext 12, 0)"

definition send_fragment ::
  "env \<Rightarrow> addr \<Rightarrow> nat \<Rightarrow> u32 \<Rightarrow> ('a fragstate_scheme) nic \<Rightarrow> (bool \<times> ('a fragstate_scheme) nic) option" where
  "send_fragment env rambuf n dest s =
     do {
       (header, s) \<leftarrow> with_pm (pbuf_alloc PBUF_LINK 0 PBUF_RAM) s;
       case header of
         None \<Rightarrow> do { s \<leftarrow> free_packet rambuf s; Some (False, s) }
       | Some h \<Rightarrow> do {
           m \<leftarrow> pbuf_chain (Some h) (Some rambuf) (pm s);
           (_, s) \<leftarrow> netif_output_call env n h dest (s\<lparr>pm := m\<rparr>);
           s \<leftarrow> free_packet h s;
           Some (True, s)
         }
     }"

partial_function (option) frag_loop ::
  "env \<Rightarrow> addr \<Rightarrow> addr \<Rightarrow> nat \<Rightarrow> u32 \<Rightarrow> u16 \<Rightarrow> u16 \<Rightarrow> u16 \<Rightarrow> u16 \<Rightarrow> u16 \<Rightarrow> u16 \<Rightarrow>
   ('a fragstate_scheme) nic \<Rightarrow> (err_t \<times> ('a fragstate_scheme) nic) option" where
  "frag_loop env p rambuf n dest max_len nfb omf left ofo poff s =
     (if left = 0 then do { s \<leftarrow> free_packet rambuf s; Some (ERR_OK, s) }
      else do {
        let final = uint left \<le> uint max_len - 20;
        let tmp = omf OR (IP_OFFMASK AND ofo);
        let tmp = (if \<not> final then tmp OR IP_MF else tmp);
        let cop = (if final then left else nfb * 8);
        (k, s) \<leftarrow> with_pm (pbuf_copy_partial (Some p) (Some (padd frag_buf IP_HLEN)) cop poff) s;
        let s = on_pm (IPH_OFFSET_SET frag_buf (htons tmp)) s;
        let s = on_pm (IPH_LEN_SET frag_buf (htons (cop + IP_HLEN))) s;
        let s = on_pm (IPH_CHKSUM_SET frag_buf 0) s;
        let s = on_pm (\<lambda>m. IPH_CHKSUM_SET frag_buf (inet_chksum frag_buf IP_HLEN m) m) s;
        s \<leftarrow> (if final then do { m \<leftarrow> pbuf_realloc rambuf (left + IP_HLEN) (pm s); Some (s\<lparr>pm := m\<rparr>) } else Some s);
        (ok, s) \<leftarrow> send_fragment env rambuf n dest s;
        if \<not> ok then Some (ERR_MEM, s)
        else frag_loop env p rambuf n dest max_len nfb omf (left - cop) (ofo + nfb) (poff + k) s
      })"

definition ip_frag :: "env \<Rightarrow> addr \<Rightarrow> nat \<Rightarrow> u32 \<Rightarrow> ('a fragstate_scheme) nic \<Rightarrow> (err_t \<times> ('a fragstate_scheme) nic) option" where
  "ip_frag env p n dest s =
     do {
       let max_len = mtu (netifs (up s) n);
       (r, s) \<leftarrow> with_pm (pbuf_alloc PBUF_LINK 0 PBUF_REF) s;
       case r of
         None \<Rightarrow> Some (ERR_MEM, s)
       | Some rambuf \<Rightarrow> do {
           rb \<leftarrow> pbs (pm s) rambuf;
           let s = on_pm (Pbuf.put rambuf (rb\<lparr>tot_len := max_len, plen := max_len, payload := frag_buf\<rparr>)) s;
           b \<leftarrow> pbs (pm s) p;
           let s = on_pm (MEMCPY frag_buf (payload b) IP_HLEN) s;
           let tmp = ntohs (IPH_OFFSET frag_buf (pm s));
           let nfb = of_int ((uint max_len - 20) sdiv 8);
           frag_loop env p rambuf n dest max_len nfb (tmp AND IP_MF) (tot_len b - IP_HLEN) (tmp AND IP_OFFMASK) IP_HLEN s
         }
     }"

end
