(* ===== verification/Reassembly.thy ===== *)
theory Reassembly
  imports IpFrag Ping
begin

text \<open>
  What reassembly does: a datagram whose fragments arrive in order is put together, and where it is not what it means
  to be. A fragment is a packet of any number of buffers, given by the list of its buffers and the data behind its header.
\<close>

section \<open>Packets of one's own\<close>

lemma clen_linked: "linked (pbs m) po as None \<Longrightarrow> clen_loop po n m = Some (n + of_nat (length as))"
proof (induction as arbitrary: po n)
  case Nil
  then show ?case by (subst clen_loop.simps) simp
next
  case (Cons a as)
  then obtain b where b: "po = Some a" "pbs m a = Some b" "linked (pbs m) (p_next b) as None" by auto
  then show ?case using Cons.IH [of "p_next b" "n + 1"] by (subst clen_loop.simps) (simp add: algebra_simps)
qed

lemma clen_packet: "packet m po as \<Longrightarrow> pbuf_clen po m = Some (of_nat (length as))"
  using clen_linked [of m po as 0] by (simp add: pbuf_clen_def packet_def)

lemma packet_distinct: "packet m po as \<Longrightarrow> distinct as"
  by (auto simp: packet_def dest: linked_distinct)

definition owned :: "pmem \<Rightarrow> addr list \<Rightarrow> bool" where
  "owned m as \<longleftrightarrow> (\<forall>a \<in> set as. \<exists>b. pbs m a = Some b \<and> fst (payload b) = Own a \<and> 0 \<le> snd (payload b) \<and>
     (ptype b = PBUF_RAM \<or> ptype b = PBUF_POOL))"

definition agree :: "addr list \<Rightarrow> pmem \<Rightarrow> pmem \<Rightarrow> bool" where
  "agree as m m' \<longleftrightarrow> (\<forall>a \<in> set as. pbs m' a = pbs m a \<and> dat m' (Own a) = dat m (Own a))"

lemma agree_bytes: "agree as m m' \<Longrightarrow> owned m as \<Longrightarrow> a \<in> set as \<Longrightarrow> bytes_of m' a = bytes_of m a"
  by (auto simp: agree_def owned_def bytes_of_def intro!: read_at_cong split: option.splits)

lemma agree_contents: "agree as m m' \<Longrightarrow> owned m as \<Longrightarrow> contents m' as = contents m as"
  by (rule contents_cong) (rule agree_bytes)

lemma agree_packet: "agree as m m' \<Longrightarrow> packet m' po as = packet m po as"
  by (auto simp: agree_def packet_def cong: linked_cong tots_cong)

lemma agree_get: "agree as m m' \<Longrightarrow> owned m as \<Longrightarrow> a \<in> set as \<Longrightarrow> pbs m a = Some b \<Longrightarrow> get8 (payload b) k m' = get8 (payload b) k m"
  by (auto simp: agree_def owned_def get8_def)

lemma agree_owned: "agree as m m' \<Longrightarrow> owned m' as = owned m as"
  by (auto simp: agree_def owned_def)

lemma agree_sub: "agree as m m' \<Longrightarrow> set bs \<subseteq> set as \<Longrightarrow> agree bs m m'"
  by (auto simp: agree_def)

lemma owned_sub: "owned m as \<Longrightarrow> set bs \<subseteq> set as \<Longrightarrow> owned m bs"
  by (auto simp: owned_def)

lemma agree_poke: "fst a = Own p \<Longrightarrow> p \<notin> set as \<Longrightarrow> agree as m (poke a k bs m)"
  by (simp add: agree_def poke_def) (metis region.inject(1) write_at_other fst_conv)

text \<open>Writing into the first 20 bytes of a packet leaves the others.\<close>

lemma poke_header:
  assumes "packet m (Some p) (p # bs)" "owned m (p # bs)" "pbs m p = Some b" "k + length xs \<le> 20" "20 \<le> unat (plen b)"
  shows "packet (poke (payload b) k xs m) (Some p) (p # bs)" "drop 20 (contents (poke (payload b) k xs m) (p # bs)) = drop 20 (contents m (p # bs))"
proof -
  have d: "p \<notin> set bs" using packet_distinct [OF assms(1)] by simp
  have own: "fst (payload b) = Own p" using assms(2,3) by (auto simp: owned_def)
  show "packet (poke (payload b) k xs m) (Some p) (p # bs)" using assms(1) by (simp add: packet_def poke_def)
  have "contents (poke (payload b) k xs m) bs = contents m bs"
    using agree_contents [OF agree_poke [OF own d]] assms(2) by (simp add: owned_sub subset_iff)
  moreover have "drop 20 (bytes_of (poke (payload b) k xs m) p) = drop 20 (bytes_of m p)"
    using assms(3-5) by (intro nth_equalityI) (auto simp: bytes_of_def blen_def poke_def read_at_def write_at_def)
  moreover have "20 \<le> length (bytes_of m' p)" if "pbs m' = pbs m" for m' using that assms(3,5) by (simp add: blen_def)
  ultimately show "drop 20 (contents (poke (payload b) k xs m) (p # bs)) = drop 20 (contents m (p # bs))"
    using assms(3,5) by (simp add: blen_def poke_def)
qed

text \<open>Hiding them.\<close>

lemma hide_header:
  assumes "packet m (Some p) (p # bs)" "owned m (p # bs)" "pbs m p = Some b" "20 \<le> unat (plen b)"
  shows "\<exists>m'. pbuf_header (Some p) (- 20) m = Some (0, m') \<and> packet m' (Some p) (p # bs) \<and> contents m' (p # bs) = drop 20 (contents m (p # bs)) \<and>
    owned m' (p # bs) \<and> dat m' = dat m \<and> pools m' = pools m \<and> (\<forall>a. a \<noteq> p \<longrightarrow> pbs m' a = pbs m a)"
proof -
  have d: "p \<notin> set bs" using packet_distinct [OF assms(1)] by simp
  obtain off where own: "payload b = (Own p, off)" "0 \<le> off" "ptype b = PBUF_RAM \<or> ptype b = PBUF_POOL"
    using assms(2,3) by (cases "payload b") (auto simp: owned_def)
  let ?b = "b\<lparr>payload := (Own p, off + 20), plen := plen b - 20, tot_len := tot_len b - 20\<rparr>"
  let ?m = "Pbuf.put p ?b m"
  have h: "pbuf_header (Some p) (- 20) m = Some (0, ?m)" using header_trims [of m p b off 20] assms own by simp
  have same: "pbs ?m a = pbs m a" if "a \<noteq> p" for a using that by (simp add: Pbuf.put_def)
  have pl: "unat (plen b - 20) = unat (plen b) - 20" using assms(4) by (simp add: unat_sub word_le_nat_alt)
  have "unat (tot_len b) = unat (plen b) + lens (pbs m) bs" using assms(1,3) by (simp add: packet_def blen_def)
  then have tl: "unat (tot_len b - 20) = unat (plen b) - 20 + lens (pbs m) bs"
    using assms(4) by (simp add: unat_sub word_le_nat_alt)
  have lb: "lens (pbs ?m) bs = lens (pbs m) bs" using d same by (intro lens_cong) (metis blen_def)
  have "tots (pbs ?m) bs = tots (pbs m) bs" using d same by (intro tots_cong) metis
  moreover have "linked (pbs ?m) q bs None = linked (pbs m) q bs None" for q using d by (simp add: Pbuf.put_def)
  moreover have bp: "pbs ?m p = Some ?b" by (simp add: Pbuf.put_def)
  ultimately have "packet ?m (Some p) (p # bs)" using assms(1,3) lb pl tl by (simp add: packet_def blen_def)
  moreover have "bytes_of ?m a = bytes_of m a" if "a \<noteq> p" for a using that by (simp add: bytes_of_def Pbuf.put_def split: option.splits)
  then have "contents ?m bs = contents m bs" using d by (intro contents_cong) metis
  moreover have "bytes_of ?m p = drop 20 (bytes_of m p)"
    using assms(3,4) own pl by (intro nth_equalityI) (auto simp: bytes_of_def blen_def bp read_at_def Pbuf.put_def algebra_simps)
  moreover have "owned ?m (p # bs)" using assms(2) own d by (simp add: owned_def Pbuf.put_def)
  moreover have "20 \<le> length (bytes_of m p)" using assms(3,4) by (simp add: blen_def)
  ultimately show ?thesis using h same by (auto simp: Pbuf.put_def)
qed


section \<open>The fragments of a datagram\<close>

definition frag_at :: "pmem \<Rightarrow> nat \<Rightarrow> addr list \<Rightarrow> u8 list \<Rightarrow> bool" where
  "frag_at m k f d \<longleftrightarrow> (\<exists>p bs b. f = p # bs \<and> packet m (Some p) f \<and> pbs m p = Some b \<and> 20 \<le> unat (plen b) \<and>
     drop 20 (contents m f) = d \<and> d \<noteq> [] \<and> get16 (payload b) 4 m = of_nat k \<and> get16 (payload b) 6 m = of_nat (k + length d))"

fun spans :: "pmem \<Rightarrow> nat \<Rightarrow> (addr list \<times> u8 list) list \<Rightarrow> bool" where
  "spans m k [] \<longleftrightarrow> True"
| "spans m k ((f, d) # fs) \<longleftrightarrow> frag_at m k f d \<and> spans m (k + length d) fs"

fun frag_links :: "(addr \<Rightarrow> addr option) \<Rightarrow> addr option \<Rightarrow> addr list list \<Rightarrow> bool" where
  "frag_links nx q [] \<longleftrightarrow> q = None"
| "frag_links nx q (f # fs) \<longleftrightarrow> q = Some (hd f) \<and> frag_links nx (nx (hd f)) fs"

abbreviation bufs :: "(addr list \<times> u8 list) list \<Rightarrow> addr list" where "bufs fs \<equiv> concat (map fst fs)"
abbreviation data :: "(addr list \<times> u8 list) list \<Rightarrow> u8 list" where "data fs \<equiv> concat (map snd fs)"

lemma frag_at_agree: "agree f m m' \<Longrightarrow> owned m f \<Longrightarrow> frag_at m' k f d = frag_at m k f d"
proof -
  assume a: "agree f m m'" "owned m f"
  show ?thesis
  proof (cases "\<exists>p bs b. f = p # bs \<and> pbs m p = Some b")
    case True
    then obtain p bs b where f: "f = p # bs" "pbs m p = Some b" by blast
    moreover have "get16 (payload b) j m' = get16 (payload b) j m" for j
      using agree_get [OF a, of p b] f by (simp add: get16_def)
    moreover have "pbs m' p = Some b" using a(1) f by (simp add: agree_def)
    ultimately show ?thesis using agree_packet [OF a(1), of "Some p"] agree_contents [OF a] by (simp add: frag_at_def)
  next
    case False
    then show ?thesis using a(1) by (auto simp: frag_at_def agree_def)
  qed
qed

lemma spans_agree: "agree (bufs fs) m m' \<Longrightarrow> owned m (bufs fs) \<Longrightarrow> spans m' k fs = spans m k fs"
proof (induction fs arbitrary: k)
  case (Cons x fs)
  have "agree (fst x) m m'" "owned m (fst x)" using Cons.prems by (auto simp: agree_def owned_def)
  moreover have "agree (bufs fs) m m'" "owned m (bufs fs)" using Cons.prems by (auto simp: agree_def owned_def)
  ultimately show ?case using Cons.IH by (cases x) (simp add: frag_at_agree)
qed simp

lemma spans_append: "spans m k (fs @ gs) \<longleftrightarrow> spans m k fs \<and> spans m (k + length (data fs)) gs"
  by (induction fs arbitrary: k) (auto simp: add.assoc)

lemma iprh_at: "frag_at (pm s) k f d \<Longrightarrow> iprh (hd f) s = Some (of_nat k, of_nat (k + length d))"
  by (auto simp: frag_at_def iprh_def)

lemma place_end:
  assumes "spans (pm s) k fs" "frag_links (next_pbuf (up s)) q (map fst fs)" "iprh x s = Some (of_nat e, stop)"
    "e = k + length (data fs)" "e < 65536" "\<And>pr. prev = Some pr \<Longrightarrow> \<exists>z. iprh pr s = Some (z, of_nat k)"
  shows "place_fragment x i q prev True s = Some (Some (None, if fs = [] then prev else Some (hd (fst (last fs))), True), s)"
  using assms
proof (induction fs arbitrary: k q prev)
  case Nil
  then show ?case by (subst place_fragment.simps) simp
next
  case (Cons g fs)
  obtain f d where g: "g = (f, d)" by force
  have fa: "frag_at (pm s) k f d" and sp: "spans (pm s) (k + length d) fs" using Cons.prems(1) g by simp_all
  have q: "q = Some (hd f)" "frag_links (next_pbuf (up s)) (next_pbuf (up s) (hd f)) (map fst fs)" using Cons.prems(2) g by simp_all
  have nd: "d \<noteq> []" using fa by (auto simp: frag_at_def)
  then have lt: "k < e" "k + length d \<le> e" using Cons.prems(4) g by simp_all
  then have u: "\<not> of_nat e < (of_nat k :: u16)" "of_nat e \<noteq> (of_nat k :: u16)" "\<not> of_nat e < (of_nat (k + length d) :: u16)"
    using Cons.prems(5) by (auto simp: word_less_nat_alt unat_small word_unat_eq_iff simp del: of_nat_add)
  have "place_fragment x i q prev True s = place_fragment x i (next_pbuf (up s) (hd f)) (Some (hd f)) True s"
    using q(1) Cons.prems(3,6) iprh_at [OF fa] u by (subst place_fragment.simps) (auto split: option.splits simp del: of_nat_add)
  also have "\<dots> = Some (Some (None, if fs = [] then Some (hd f) else Some (hd (fst (last fs))), True), s)"
    using Cons.IH [OF sp q(2) Cons.prems(3), of "Some (hd f)"] Cons.prems(4,5) g iprh_at [OF fa] by (auto simp: add.assoc)
  finally show ?case using g by simp
qed

definition arrives :: "u8 list \<Rightarrow> nat \<Rightarrow> bool \<Rightarrow> addr list \<Rightarrow> u8 list \<Rightarrow> pmem \<Rightarrow> bool" where
  "arrives h k mf f d m \<longleftrightarrow> (\<exists>p bs b. f = p # bs \<and> packet m (Some p) f \<and> pbs m p = Some b \<and> 20 \<le> unat (plen b) \<and>
     drop 20 (contents m f) = d \<and> d \<noteq> [] \<and> IPH_HL (payload b) m = 5 \<and> IP_ADDRESSES_AND_ID_MATCH h (payload b) m \<and>
     ntohs (IPH_LEN (payload b) m) = of_nat (20 + length d) \<and> ntohs (IPH_OFFSET (payload b) m) AND IP_OFFMASK = of_nat (k div 8) \<and>
     (ntohs (IPH_OFFSET (payload b) m) AND IP_MF = 0 \<longleftrightarrow> \<not> mf))"

lemma links_skip: "frag_links nx q fs \<Longrightarrow> x \<notin> hd ` set fs \<Longrightarrow> frag_links (nx(x := v)) q fs"
  by (induction fs arbitrary: q) auto

lemma links_snoc:
  "frag_links nx q (fs @ [g]) \<Longrightarrow> distinct (map hd (fs @ [g, f])) \<Longrightarrow>
   frag_links (nx(hd f := None, hd g := Some (hd f))) q (fs @ [g, f])"
proof (induction fs arbitrary: q)
  case Nil
  then show ?case by simp
next
  case (Cons a fs)
  then show ?case by auto
qed

lemma heads_distinct: "\<forall>f \<in> set fs. f \<noteq> [] \<Longrightarrow> distinct (concat fs) \<Longrightarrow> distinct (map hd fs) \<and> hd ` set fs \<subseteq> set (concat fs)"
proof (induction fs)
  case (Cons f fs)
  then have "hd f \<in> set f" "hd ` set fs \<subseteq> set (concat fs)" "distinct (map hd fs)" by auto
  moreover from this have "hd f \<notin> hd ` set fs" using Cons.prems(2) by auto
  ultimately show ?case by auto
qed simp

lemma spans_heads: "spans m k fs \<Longrightarrow> \<forall>f \<in> set (map fst fs). f \<noteq> []"
proof (induction fs arbitrary: k)
  case (Cons x fs)
  then show ?case by (cases x) (fastforce simp: frag_at_def)
qed simp

lemma get16_put16: "get16 a k (put16 a k w m) = w"
proof -
  have "get16 a k (put16 a k w m) = word16_of (le16 w ! 0) (le16 w ! 1)"
    by (simp add: get16_def get8_def put16_def poke_def write_at_def)
  then show ?thesis by (simp add: le16_def word16_of_le16)
qed

lemma get16_put16_other: "k + 2 \<le> j \<or> j + 2 \<le> k \<Longrightarrow> get16 a j (put16 a k w m) = get16 a j m"
  by (auto simp: get16_def get8_def put16_def poke_def write_at_def le16_def)

lemma iprh_links [simp]: "iprh a (set_next_pbuf x v s) = iprh a s" "iprh a (upd_datagram i g s) = iprh a s"
  by (simp_all add: iprh_def set_next_pbuf_def upd_datagram_def upd_up_def)

text \<open>The helper structure written over a fragment that has come.\<close>

definition with_helper :: "ptr \<Rightarrow> u16 \<Rightarrow> u16 \<Rightarrow> pmem \<Rightarrow> pmem" where
  "with_helper a b e m = put16 a 6 e (put16 a 4 b m)"

lemma with_helper_simps [simp]: "pbs (with_helper a b e m) = pbs m" "pools (with_helper a b e m) = pools m" "heap (with_helper a b e m) = heap m"
  by (simp_all add: with_helper_def put16_def poke_def)

lemma with_helper_other: "r \<noteq> fst a \<Longrightarrow> dat (with_helper a b e m) r = dat m r"
  by (simp add: with_helper_def put16_def poke_def)

lemma helper_frag:
  assumes "arrives h k mf (p # bs) d m" "owned m (p # bs)" "pbs m p = Some b"
  shows "frag_at (with_helper (payload b) (of_nat k) (of_nat (k + length d)) m) k (p # bs) d"
proof -
  let ?m = "put16 (payload b) 4 (of_nat k) m"
  have a: "packet m (Some p) (p # bs)" "20 \<le> unat (plen b)" "drop 20 (contents m (p # bs)) = d" "d \<noteq> []"
    using assms(1,3) by (auto simp: arrives_def)
  have 1: "packet ?m (Some p) (p # bs)" "drop 20 (contents ?m (p # bs)) = d"
    using poke_header [OF a(1) assms(2,3), of 4 "le16 (of_nat k)"] a by (simp_all add: put16_def)
  have "owned ?m (p # bs)" "pbs ?m p = Some b" using assms(2,3) by (simp_all add: owned_def put16_def poke_def)
  then have "packet (put16 (payload b) 6 e ?m) (Some p) (p # bs)" "drop 20 (contents (put16 (payload b) 6 e ?m) (p # bs)) = d" for e
    using poke_header [OF 1(1), of b 6 "le16 e"] a 1(2) by (simp_all add: put16_def)
  moreover have "get16 (payload b) 4 (with_helper (payload b) v e m) = v" "get16 (payload b) 6 (with_helper (payload b) v e m) = e" for v e
    by (simp_all add: with_helper_def get16_put16 get16_put16_other)
  ultimately show ?thesis using assms(3) a(2,4) by (simp add: frag_at_def del: contents_simps) (simp add: with_helper_def)
qed

lemma chain_in_order:
  assumes dg: "datagram i s = Some dg" "frag_links (next_pbuf (up s)) (r_p dg) (map fst fs)" "spans (pm s) 0 fs"
    and new: "arrives h (length (data fs)) mf f d (pm s)" "8 dvd length (data fs)" "length (data fs) + length d + 20 < 65536"
    and own: "owned (pm s) (bufs fs @ f)" "distinct (bufs fs @ f)"
    and hb: "pbs (pm s) (hd f) = Some b"
  defines "s1 \<equiv> on_pm (with_helper (payload b) (of_nat (length (data fs))) (of_nat (length (data fs) + length d))) (set_next_pbuf (hd f) None s)"
  shows "ip_reass_chain_frag_into_datagram_and_validate i (hd f) s = Some (r_flags dg AND 1 \<noteq> 0,
      if fs = [] then upd_datagram i (\<lambda>x. x\<lparr>r_p := Some (hd f)\<rparr>) s1 else set_next_pbuf (hd (fst (last fs))) (Some (hd f)) s1) \<and>
    spans (pm s1) 0 (fs @ [(f, d)])"
proof -
  let ?n = "length (data fs)"
  obtain bs where f: "f = hd f # bs" using new(1) by (auto simp: arrives_def)
  have hin: "hd f \<in> set f" by (subst (2) f) simp
  have own_f: "owned (pm s) f" using own(1) by (simp add: owned_def)
  then have "fst (payload b) = Own (hd f)" using hb hin by (fastforce simp: owned_def)
  note own_f = own_f this
  have "(of_nat (?n div 8) :: u16) * 8 = of_nat (?n div 8 * 8)" by simp
  also have "\<dots> = of_nat ?n" using new(2) by simp
  finally have off: "(of_nat (?n div 8) :: u16) * 8 = of_nat ?n" .
  have hf: "IPH_HL (payload b) (pm s) = 5" "ntohs (IPH_LEN (payload b) (pm s)) - 20 = of_nat (length d)"
    "(ntohs (IPH_OFFSET (payload b) (pm s)) AND IP_OFFMASK) * 8 = of_nat ?n"
    using new(1) hb off by (auto simp: arrives_def)
  have nin: "hd f \<notin> set (bufs fs)" using own(2) hin by auto
  have ag: "agree (bufs fs) (pm s) (pm s1)" using nin own_f(2)
    by (auto simp: agree_def s1_def on_pm_def set_next_pbuf_def upd_up_def intro!: with_helper_other)
  have sp: "spans (pm s1) 0 fs" using spans_agree [OF ag owned_sub [OF own(1)]] dg(3) by simp
  have fa: "frag_at (pm s1) ?n f d" using helper_frag [of h ?n mf "hd f" bs d "pm s" b] new(1) own_f(1) hb f
    by (simp add: s1_def on_pm_def set_next_pbuf_def upd_up_def)
  have hds: "hd f \<notin> hd ` set (map fst fs)"
    using heads_distinct [OF spans_heads [OF dg(3)]] own(2) nin by auto
  have ln: "frag_links (next_pbuf (up s1)) (r_p dg) (map fst fs)" using links_skip [OF dg(2) hds]
    by (simp add: s1_def on_pm_def set_next_pbuf_def upd_up_def)
  have ip: "iprh (hd f) s1 = Some (of_nat ?n, of_nat (?n + length d))" using iprh_at [OF fa] .
  have pl: "place_fragment (hd f) i (r_p dg) None True s1 = Some (Some (None, if fs = [] then None else Some (hd (fst (last fs))), True), s1)"
    using place_end [OF sp ln ip, of None i] new(3) by simp
  have d1: "datagram i s1 = Some dg" using dg(1) by (simp add: s1_def on_pm_def set_next_pbuf_def upd_up_def datagram_def)
  let ?s2 = "if fs = [] then upd_datagram i (\<lambda>x. x\<lparr>r_p := Some (hd f)\<rparr>) s1 else set_next_pbuf (hd (fst (last fs))) (Some (hd f)) s1"
  have ap: "append_fragment (hd f) i (if fs = [] then None else Some (hd (fst (last fs)))) True s1 = Some (True, ?s2)"
  proof (cases fs rule: rev_cases)
    case (snoc gs g)
    then have "frag_at (pm s1) (length (data gs)) (fst g) (snd g)" using sp by (cases g) (simp add: spans_append)
    then have "iprh (hd (fst g)) s1 = Some (of_nat (length (data gs)), of_nat ?n)" using iprh_at snoc by fastforce
    then show ?thesis using ip snoc by (simp add: append_fragment_def)
  qed (simp add: append_fragment_def)
  have v: "validate (hd f) i True ?s2 = Some (r_flags dg AND 1 \<noteq> 0)"
  proof -
    have "\<exists>d'. datagram i ?s2 = Some d' \<and> r_flags d' = r_flags dg \<and> r_p d' = Some (hd (fst (hd (fs @ [(f, d)]))))"
      using d1 ln by (cases fs) (auto simp: upd_datagram_def set_next_pbuf_def upd_up_def datagram_def)
    moreover have "\<exists>e. iprh (hd (fst (hd (fs @ [(f, d)])))) ?s2 = Some (0, e)"
    proof -
      have i2: "iprh a ?s2 = iprh a s1" for a by simp
      show ?thesis unfolding i2
      proof (cases fs)
        case (Cons g gs)
        then show "\<exists>e. iprh (hd (fst (hd (fs @ [(f, d)])))) s1 = Some (0, e)" using sp iprh_at [of s1 0 "fst g" "snd g"] by (cases g) simp
      qed (use iprh_at [OF fa] in simp)
    qed
    moreover have "no_holes (hd f) ?s2 = Some True"
    proof -
      have "next_pbuf (up ?s2) (hd f) = None"
      proof (cases fs rule: rev_cases)
        case (snoc gs g)
        then have "hd (fst g) \<noteq> hd f" using hds by auto
        then show ?thesis using snoc by (simp add: s1_def on_pm_def set_next_pbuf_def upd_up_def)
      qed (simp add: s1_def on_pm_def set_next_pbuf_def upd_up_def upd_datagram_def)
      then show ?thesis by (subst no_holes.simps) simp
    qed
    ultimately show ?thesis by (auto simp: validate_def)
  qed
  have s1: "on_pm (put16 (payload b) 6 (of_nat ?n + of_nat (length d))) (on_pm (put16 (payload b) 4 (of_nat ?n)) (set_next_pbuf (hd f) None s)) = s1"
    by (simp add: s1_def on_pm_def with_helper_def)
  have pr: "pm (set_next_pbuf (hd f) None s) = pm s" by (simp add: set_next_pbuf_def upd_up_def)
  have "ip_reass_chain_frag_into_datagram_and_validate i (hd f) s = Some (r_flags dg AND 1 \<noteq> 0, ?s2)"
    unfolding ip_reass_chain_frag_into_datagram_and_validate_def Let_def
    using hb hf d1 pl ap v by (simp add: s1 [symmetric] pr)
  then show ?thesis using sp fa by (simp add: spans_append)
qed

section \<open>Joining the fragments\<close>

lemma pbuf_cat_keeps:
  assumes "packet s (Some h) as" "pbs s t = Some tb" "t \<notin> set as" "pbuf_cat (Some h) (Some t) s = Some s'"
  shows "map_option payload (pbs s' a) = map_option payload (pbs s a)" "map_option ptype (pbs s' a) = map_option ptype (pbs s a)"
proof -
  have "cat_loop h t s = Some (last as, grown (butlast as) (tot_len tb) s)"
    using assms(1-3) by (intro cat_loop_chain) (simp_all add: packet_def)
  then have "\<exists>b n q. pbs (grown (butlast as) (tot_len tb) s) (last as) = Some b \<and>
      s' = Pbuf.put (last as) (b\<lparr>tot_len := n, p_next := q\<rparr>) (grown (butlast as) (tot_len tb) s)"
    using assms(4) by (auto simp: pbuf_cat_def bind_eq_Some_conv)
  then show "map_option payload (pbs s' a) = map_option payload (pbs s a)" "map_option ptype (pbs s' a) = map_option ptype (pbs s a)"
    by (auto simp: Pbuf.put_def grown_def option.map_comp comp_def split: if_splits)
qed

lemma owned_kept:
  assumes "\<And>a. map_option payload (pbs m' a) = map_option payload (pbs m a)" "\<And>a. map_option ptype (pbs m' a) = map_option ptype (pbs m a)"
    "owned m as"
  shows "owned m' as"
  unfolding owned_def
proof
  fix a assume "a \<in> set as"
  then obtain b where b: "pbs m a = Some b" "fst (payload b) = Own a" "0 \<le> snd (payload b)" "ptype b = PBUF_RAM \<or> ptype b = PBUF_POOL"
    using assms(3) by (auto simp: owned_def)
  then show "\<exists>b. pbs m' a = Some b \<and> fst (payload b) = Own a \<and> 0 \<le> snd (payload b) \<and> (ptype b = PBUF_RAM \<or> ptype b = PBUF_POOL)"
    using assms(1,2) [of a] by auto
qed

lemma chain_fragments_joins:
  assumes "packet (pm s) (Some p) as" "spans (pm s) k gs" "frag_links (next_pbuf (up s)) r (map fst gs)"
    "owned (pm s) (as @ bufs gs)" "distinct (as @ bufs gs)" "lens (pbs (pm s)) as + length (data gs) < 65536"
  shows "\<exists>m'. chain_fragments p r s = Some (s\<lparr>pm := m'\<rparr>) \<and> packet m' (Some p) (as @ bufs gs) \<and>
    contents m' (as @ bufs gs) = contents (pm s) as @ data gs \<and> dat m' = dat (pm s) \<and> pools m' = pools (pm s) \<and>
    map_option payload (pbs m' p) = map_option payload (pbs (pm s) p)"
  using assms
proof (induction gs arbitrary: s k r as)
  case Nil
  then show ?case by (subst chain_fragments.simps) (auto intro!: exI [of _ "pm s"])
next
  case (Cons g gs)
  obtain f d where g: "g = (f, d)" by force
  obtain c bs b where fa: "f = c # bs" "packet (pm s) (Some c) f" "pbs (pm s) c = Some b" "20 \<le> unat (plen b)" "drop 20 (contents (pm s) f) = d"
    using Cons.prems(2) g by (auto simp: frag_at_def)
  have own: "owned (pm s) f" "owned (pm s) as" "owned (pm s) (bufs gs)" using Cons.prems(4) g by (auto simp: owned_def)
  obtain m1 where m1: "pbuf_header (Some c) (- 20) (pm s) = Some (0, m1)" "packet m1 (Some c) f" "contents m1 f = d" "owned m1 f"
    "dat m1 = dat (pm s)" "pools m1 = pools (pm s)" "\<forall>a. a \<noteq> c \<longrightarrow> pbs m1 a = pbs (pm s) a"
    using hide_header [of "pm s" c bs b] fa own(1) by auto
  have p: "p \<in> set as" using packet_first [OF Cons.prems(1)] by auto
  have c: "c \<notin> set as" "c \<notin> set (bufs gs)" "p \<noteq> c" using Cons.prems(5) g fa(1) p by auto
  have ag: "agree as (pm s) m1" "agree (bufs gs) (pm s) m1" using m1(5,7) c by (auto simp: agree_def)
  have ca: "contents m1 as = contents (pm s) as" using agree_contents [OF ag(1) own(2)] .
  have ln: "lens (pbs m1) as = lens (pbs (pm s)) as" "lens (pbs m1) f = length d" using ca m1(3) by (metis length_contents)+
  obtain m2 where m2: "pbuf_cat (Some p) (Some c) m1 = Some m2" "packet m2 (Some p) (as @ f)" "contents m2 (as @ f) = contents m1 as @ contents m1 f"
    "dat m2 = dat m1" "pools m2 = pools m1" "\<forall>a. a \<notin> set as \<longrightarrow> pbs m2 a = pbs m1 a"
    using pbuf_cat_joins [of m1 p as c f] agree_packet [OF ag(1), of "Some p"] Cons.prems(1,5,6) m1(2) ln g by auto
  obtain cb where cb: "pbs m1 c = Some cb" using packet_first [OF m1(2)] by blast
  note keep = pbuf_cat_keeps [OF agree_packet [OF ag(1), THEN iffD2, OF Cons.prems(1)] cb c(1) m2(1)]
  have ag2: "agree (bufs gs) m1 m2" using m2(4,6) Cons.prems(5) g by (auto simp: agree_def)
  have "spans (pm (s\<lparr>pm := m2\<rparr>)) (k + length d) gs"
    using Cons.prems(2) g spans_agree [OF ag(2) own(3)] spans_agree [OF ag2] agree_owned [OF ag(2)] own(3) by simp
  moreover have "frag_links (next_pbuf (up (s\<lparr>pm := m2\<rparr>))) (next_pbuf (up s) c) (map fst gs)" using Cons.prems(3) g fa(1) by simp
  moreover have "owned (pm (s\<lparr>pm := m2\<rparr>)) ((as @ f) @ bufs gs)"
  proof -
    have "owned m1 ((as @ f) @ bufs gs)" using own m1(4) agree_owned [OF ag(1)] agree_owned [OF ag(2)] by (auto simp: owned_def)
    then show ?thesis using owned_kept [of m2 m1] keep by simp
  qed
  moreover have "lens (pbs (pm (s\<lparr>pm := m2\<rparr>))) (as @ f) = lens (pbs (pm s)) as + length d"
    using arg_cong [OF m2(3), of length] ln by simp
  ultimately obtain m' where m': "chain_fragments p (next_pbuf (up s) c) (s\<lparr>pm := m2\<rparr>) = Some (s\<lparr>pm := m'\<rparr>)"
    "packet m' (Some p) ((as @ f) @ bufs gs)" "contents m' ((as @ f) @ bufs gs) = contents m2 (as @ f) @ data gs" "dat m' = dat m2" "pools m' = pools m2"
    "map_option payload (pbs m' p) = map_option payload (pbs m2 p)"
    using Cons.IH [of "s\<lparr>pm := m2\<rparr>" "as @ f" "k + length d" "next_pbuf (up s) c"] m2(2) Cons.prems(5,6) g by auto
  have "chain_fragments p r s = chain_fragments p (next_pbuf (up s) c) (s\<lparr>pm := m2\<rparr>)"
    using Cons.prems(3) g fa(1) m1(1) m2(1) by (subst chain_fragments.simps) (simp add: with_pm_def)
  then show ?case using m' m2 m1 ca g keep(1) [of p] c(3) by (intro exI [of _ m']) simp
qed

section \<open>The header of the whole\<close>

lemma put_get8: "k \<le> j \<Longrightarrow> j < k + length xs \<Longrightarrow> get8 a j (poke a k xs m) = xs ! (j - k)"
  by (auto simp: get8_def poke_def write_at_def nat_minus_as_int intro!: arg_cong [of _ _ "(!) xs"])

lemma put_get8_other: "j < k \<or> k + length xs \<le> j \<Longrightarrow> get8 a j (poke a k xs m) = get8 a j m"
  by (auto simp: get8_def poke_def write_at_def)

lemma whole_header_facts:
  assumes "length h = 20"
  shows "IPH_LEN a (whole_header a h n m) = htons n" "IPH_OFFSET a (whole_header a h n m) = 0"
    "inet_chksum a 20 (whole_header a h n m) = 0"
    "j < 20 \<Longrightarrow> j \<notin> {2, 3, 6, 7, 10, 11} \<Longrightarrow> get8 a j (whole_header a h n m) = h ! j"
proof -
  define m0 where "m0 = put16 a 10 0 (put16 a 6 0 (put16 a 2 (htons n) (poke a 0 h m)))"
  have w: "whole_header a h n m = put16 a 10 (inet_chksum a 20 m0) m0"
    by (simp add: whole_header_def Let_def IPH_LEN_SET_def IPH_OFFSET_SET_def IPH_CHKSUM_SET_def m0_def)
  show "IPH_LEN a (whole_header a h n m) = htons n" "IPH_OFFSET a (whole_header a h n m) = 0"
    by (simp_all add: w m0_def IPH_LEN_def IPH_OFFSET_def get16_put16 get16_put16_other)
  show "j < 20 \<Longrightarrow> j \<notin> {2, 3, 6, 7, 10, 11} \<Longrightarrow> get8 a j (whole_header a h n m) = h ! j"
  proof -
    assume j: "j < 20" "j \<notin> {2, 3, 6, 7, 10, 11}"
    then have o: "get8 a j (put16 a k v m') = get8 a j m'" if "k \<in> {2, 6, 10}" for k v m'
      unfolding put16_def using that by (intro put_get8_other) (auto simp: le16_def)
    show ?thesis using j(1) assms by (simp add: w m0_def o put_get8)
  qed
  define bs where "bs = read_at a 20 (dat m0)"
  have l: "length bs = 20" by (simp add: bs_def)
  have z: "bs ! 10 = 0" "bs ! 11 = 0"
    by (simp_all add: bs_def m0_def read_at_def put16_def poke_def write_at_def le16_def)
  have z2: "take 10 bs @ [0, 0] @ drop 12 bs = bs"
  proof (rule nth_equalityI)
    fix i assume "i < length (take 10 bs @ [0, 0] @ drop 12 bs)"
    then consider "i < 10" | "i = 10" | "i = 11" | "12 \<le> i" "i < 20" using l by fastforce
    then show "(take 10 bs @ [0, 0] @ drop 12 bs) ! i = bs ! i" using l z by cases (auto simp: nth_append)
  qed (use l in simp)
  have "read_at a 20 (dat (whole_header a h n m)) = take 10 bs @ le16 (checksum_of bs) @ drop 12 bs"
    using read_write_inside [of 10 "le16 (checksum_of bs)" 20 a "dat m0"]
    by (simp add: w put16_def poke_def inet_chksum_sum bs_def)
  also have "\<dots> = take 10 bs @ le16 (checksum_of (take 10 bs @ [0, 0] @ drop 12 bs)) @ drop 12 bs" unfolding z2 ..
  finally have "checksum_of (read_at a 20 (dat (whole_header a h n m))) = 0" using checksum_stored [of "take 10 bs" "drop 12 bs"] l by simp
  then show "inet_chksum a 20 (whole_header a h n m) = 0" by (simp add: inet_chksum_sum)
qed

section \<open>A datagram in order\<close>

text \<open>The fragments \<open>fs\<close> of the only datagram, whose header is \<open>h\<close>, have come.\<close>

definition held :: "nat \<Rightarrow> u8 list \<Rightarrow> (addr list \<times> u8 list) list \<Rightarrow> ('a fragstate_scheme) nic \<Rightarrow> bool" where
  "held i h fs s \<longleftrightarrow> reassdatagrams (up s) = Some i \<and>
     (\<exists>dg. datagram i s = Some dg \<and> r_next dg = None \<and> r_hdr dg = h \<and> r_flags dg = 0 \<and> frag_links (next_pbuf (up s)) (r_p dg) (map fst fs)) \<and>
     spans (pm s) 0 fs \<and> ip_reass_pbufcount (up s) = of_nat (length (bufs fs))"

text \<open>What a step leaves alone: the buffers, the pools, and the bytes of other buffers than one.\<close>

definition beside :: "addr \<Rightarrow> pmem \<Rightarrow> pmem \<Rightarrow> bool" where
  "beside p m m' \<longleftrightarrow> pbs m' = pbs m \<and> pools m' = pools m \<and> (\<forall>a. a \<noteq> p \<longrightarrow> dat m' (Own a) = dat m (Own a))"

lemma beside_agree: "beside p m m' \<Longrightarrow> p \<notin> set as \<Longrightarrow> agree as m m'"
  by (auto simp: beside_def agree_def)

lemma beside_helper: "fst (payload b) = Own p \<Longrightarrow> beside p m (with_helper (payload b) k e m)"
  by (auto simp: beside_def intro!: with_helper_other)

lemma owned_payload: "owned m as \<Longrightarrow> a \<in> set as \<Longrightarrow> pbs m a = Some b \<Longrightarrow> fst (payload b) = Own a"
  by (auto simp: owned_def)

lemma links_end:
  assumes "frag_links nx q (map fst fs)" "distinct (map hd (map fst fs @ [f]))"
  shows "frag_links ((if fs = [] then nx(hd f := None) else nx(hd f := None, hd (fst (last fs)) := Some (hd f))))
    (if fs = [] then Some (hd f) else q) (map fst (fs @ [(f, d)]))"
proof (cases fs rule: rev_cases)
  case (snoc gs g)
  then show ?thesis using links_snoc [of nx q "map fst gs" "fst g" f] assms by simp
qed simp


lemma accept_more:
  assumes held: "held i h fs s" and new: "arrives h (length (data fs)) True f d (pm s)" "8 dvd length (data fs)" "length (data fs) + length d + 20 < 65536"
    and own: "owned (pm s) (bufs fs @ f)" "distinct (bufs fs @ f)" and hb: "pbs (pm s) (hd f) = Some b"
  shows "\<exists>s'. accept_fragment i prev (hd f) (payload b) (of_nat (length (data fs))) (of_nat (length d)) (int (length f)) s = Some (None, s') \<and>
    held i h (fs @ [(f, d)]) s' \<and> beside (hd f) (pm s) (pm s')"
proof -
  obtain dg where dg: "datagram i s = Some dg" "r_next dg = None" "r_hdr dg = h" "r_flags dg = 0"
    "frag_links (next_pbuf (up s)) (r_p dg) (map fst fs)"
    and sp: "spans (pm s) 0 fs" and cnt: "ip_reass_pbufcount (up s) = of_nat (length (bufs fs))" and hd: "reassdatagrams (up s) = Some i"
    using held by (auto simp: held_def)
  let ?s = "count_pbufs (int (length f)) s"
  let ?n = "length (data fs)"
  define s1 where "s1 = on_pm (with_helper (payload b) (of_nat ?n) (of_nat (?n + length d))) (set_next_pbuf (hd f) None ?s)"
  let ?s' = "if fs = [] then upd_datagram i (\<lambda>x. x\<lparr>r_p := Some (hd f)\<rparr>) s1 else set_next_pbuf (hd (fst (last fs))) (Some (hd f)) s1"
  have pm: "pm ?s = pm s" "datagram i ?s = datagram i s" "next_pbuf (up ?s) = next_pbuf (up s)"
    by (simp_all add: count_pbufs_def upd_up_def datagram_def)
  have mf: "ntohs (IPH_OFFSET (payload b) (pm s)) AND IP_MF \<noteq> 0" using new(1) hb by (auto simp: arrives_def)
  have c: "ip_reass_chain_frag_into_datagram_and_validate i (hd f) ?s = Some (False, ?s')" "spans (pm s1) 0 (fs @ [(f, d)])"
    using chain_in_order [of i ?s dg fs h True f d b] dg sp new own hb by (simp_all add: pm s1_def)
  have "accept_fragment i prev (hd f) (payload b) (of_nat ?n) (of_nat (length d)) (int (length f)) s = Some (None, ?s')"
    using mf c(1) by (simp add: accept_fragment_def pm)
  moreover have "distinct (map hd (map fst fs @ [f]))"
    using heads_distinct [OF spans_heads [OF c(2)]] own(2) by simp
  then have "held i h (fs @ [(f, d)]) ?s'"
    using dg hd cnt c(2) links_end [OF dg(5), of f d]
    by (cases "fs = []") (auto simp: held_def s1_def count_pbufs_def upd_datagram_def set_next_pbuf_def upd_up_def on_pm_def datagram_def)
  moreover have "fst (payload b) = Own (hd f)"
  proof -
    have "hd f \<in> set f" using new(1) by (auto simp: arrives_def)
    then show ?thesis using owned_payload [OF own(1) _ hb] by simp
  qed
  then have "beside (hd f) (pm s) (pm ?s')"
    using beside_helper [of b "hd f" "pm s"] by (simp add: s1_def count_pbufs_def upd_datagram_def set_next_pbuf_def upd_up_def on_pm_def)
  ultimately show ?thesis by blast
qed

definition kept :: "addr \<Rightarrow> addr list \<Rightarrow> pmem \<Rightarrow> pmem \<Rightarrow> bool" where
  "kept p f m m' \<longleftrightarrow> beside p m m' \<and> drop 20 (contents m' f) = drop 20 (contents m f)"

lemma kept_trans: "kept p f m m' \<Longrightarrow> kept p f m' m'' \<Longrightarrow> kept p f m m''"
  by (simp add: kept_def beside_def)

lemma kept_poke:
  assumes "packet m (Some p) (p # bs)" "owned m (p # bs)" "pbs m p = Some b" "20 \<le> unat (plen b)" "kept p (p # bs) m m'" "k + length xs \<le> 20"
  shows "kept p (p # bs) m (poke (payload b) k xs m')"
proof -
  have e: "pbs m' = pbs m" using assms(5) by (simp add: kept_def beside_def)
  have "packet m' (Some p) (p # bs)" "owned m' (p # bs)" "pbs m' p = Some b" using assms(1-3) by (simp_all add: e packet_def owned_def)
  from poke_header(2) [OF this assms(6,4)] have "kept p (p # bs) m' (poke (payload b) k xs m')"
    using owned_payload [OF assms(2) _ assms(3)] by (auto simp: kept_def beside_def poke_def intro!: write_at_other)
  then show ?thesis using kept_trans [OF assms(5)] by blast
qed

lemma kept_whole_header:
  assumes "packet m (Some p) (p # bs)" "owned m (p # bs)" "pbs m p = Some b" "20 \<le> unat (plen b)" "length h = 20"
  shows "kept p (p # bs) m (whole_header (payload b) h n m)"
proof -
  have "kept p (p # bs) m m" by (simp add: kept_def beside_def)
  note k = kept_poke [OF assms(1-4)]
  show ?thesis unfolding whole_header_def Let_def IPH_LEN_SET_def IPH_OFFSET_SET_def IPH_CHKSUM_SET_def put16_def
    by (intro k) (simp_all add: assms(5) le16_def kept_def beside_def)
qed

text \<open>The last one completes it.\<close>

definition complete :: "u8 list \<Rightarrow> (addr list \<times> u8 list) list \<Rightarrow> ('a fragstate_scheme) nic \<Rightarrow> bool" where
  "complete h fs s \<longleftrightarrow> packet (pm s) (Some (hd (bufs fs))) (bufs fs) \<and> drop 20 (contents (pm s) (bufs fs)) = data fs \<and>
     (\<exists>b. pbs (pm s) (hd (bufs fs)) = Some b \<and> IPH_LEN (payload b) (pm s) = htons (of_nat (20 + length (data fs))) \<and>
       IPH_OFFSET (payload b) (pm s) = 0 \<and> inet_chksum (payload b) 20 (pm s) = 0 \<and>
       (\<forall>j < 20. j \<notin> {2, 3, 6, 7, 10, 11} \<longrightarrow> get8 (payload b) j (pm s) = h ! j))"

lemma completed:
  assumes dg: "datagram i s = Some dg" "r_next dg = None" "length (r_hdr dg) = 20" "datagram_len dg = of_nat (length (data fs))"
    and fs: "fs \<noteq> []" "frag_links (next_pbuf (up s)) (r_p dg) (map fst fs)" "spans (pm s) 0 fs"
    and own: "owned (pm s) (bufs fs)" "distinct (bufs fs)" and small: "length (data fs) + 20 < 65536" "length (bufs fs) < 256"
    and up: "reassdatagrams (up s) = Some i" "ip_reass_pbufcount (up s) = of_nat (length (bufs fs))"
  shows "\<exists>s'. datagram_complete i prev s = Some (hd (bufs fs), s') \<and> complete (r_hdr dg) fs s' \<and>
    reassdatagrams (up s') = None \<and> ip_reass_pbufcount (up s') = 0 \<and>
    pools (pm s') = (pools (pm s))(MEMP_REASSDATA := i # pools (pm s) MEMP_REASSDATA)"
proof -
  obtain f d gs where f: "fs = (f, d) # gs" using fs(1) by (cases fs) auto
  obtain p bs b where fa: "f = p # bs" "packet (pm s) (Some p) f" "pbs (pm s) p = Some b" "20 \<le> unat (plen b)" "drop 20 (contents (pm s) f) = d"
    using fs(3) f by (auto simp: frag_at_def)
  let ?n = "length (data fs)"
  let ?dg = "dg\<lparr>datagram_len := datagram_len dg + IP_HLEN\<rparr>"
  define m1 where "m1 = whole_header (payload b) (r_hdr dg) (of_nat (20 + ?n)) (pm s)"
  define s0 where "s0 = upd_datagram i (\<lambda>x. x\<lparr>datagram_len := datagram_len x + IP_HLEN\<rparr>) s"
  define s1 where "s1 = s0\<lparr>pm := m1\<rparr>"
  have own_f: "owned (pm s) f" "owned (pm s) (bufs gs)" using own(1) f by (auto simp: owned_def)
  have ob: "fst (payload b) = Own p" using own_f(1) fa(1,3) by (auto simp: owned_def)
  have k: "kept p f (pm s) m1" unfolding m1_def using kept_whole_header [of "pm s" p bs b "r_hdr dg"] fa own_f(1) dg(3) by simp
  then have e: "pbs m1 = pbs (pm s)" "pools m1 = pools (pm s)" "drop 20 (contents m1 f) = d" using fa(5) by (simp_all add: kept_def beside_def)
  have ag: "agree (bufs gs) (pm s) m1" using k own(2) f fa(1) by (auto simp: kept_def intro!: beside_agree)
  have p1: "packet m1 (Some p) f" "owned m1 (f @ bufs gs)" using fa(2) own(1) f by (simp_all add: packet_def owned_def e)
  have sp: "spans m1 (length d) gs" using spans_agree [OF ag own_f(2)] fs(3) f by simp
  have rp: "r_p dg = Some p" and ln: "frag_links (next_pbuf (up s)) (next_pbuf (up s) p) (map fst gs)" using fs(2) f fa(1) by simp_all
  have lf: "lens (pbs m1) f = 20 + length d"
  proof -
    have "20 \<le> length (contents m1 f)" using fa(1,3,4) by (simp add: blen_def e)
    then show ?thesis using arg_cong [OF e(3), of length] by simp
  qed
  obtain m2 where m2: "chain_fragments p (next_pbuf (up s) p) s1 = Some (s1\<lparr>pm := m2\<rparr>)" "packet m2 (Some p) (bufs fs)"
    "contents m2 (bufs fs) = contents m1 f @ data gs" "dat m2 = dat m1" "pools m2 = pools m1"
    "map_option payload (pbs m2 p) = map_option payload (pbs m1 p)"
    using chain_fragments_joins [of s1 p f "length d" gs "next_pbuf (up s) p"] p1 sp ln own(2) lf small(1) f
    by (auto simp: s1_def s0_def upd_datagram_def upd_up_def)
  obtain pb where pb: "pbs m2 p = Some pb" "payload pb = payload b" using m2(6) fa(3) e(1) by auto
  define s' where "s' = count_pbufs (- int (length (bufs fs))) (on_pm (memp_free_on MEMP_REASSDATA i)
    (upd_up (\<lambda>u. u\<lparr>rdata := (rdata u)(i := None)\<rparr>) (upd_up (\<lambda>u. u\<lparr>reassdatagrams := None\<rparr>) (s1\<lparr>pm := m2\<rparr>))))"
  have d1: "datagram i s1 = Some ?dg" using dg(1) by (simp add: s1_def s0_def datagram_def upd_datagram_def upd_up_def)
  have up1: "reassdatagrams (up s1) = Some i" using up by (simp add: s1_def s0_def upd_datagram_def upd_up_def)
  have "ip_reass_dequeue_datagram i prev (s1\<lparr>pm := m2\<rparr>) = Some (on_pm (memp_free_on MEMP_REASSDATA i)
    (upd_up (\<lambda>u. u\<lparr>rdata := (rdata u)(i := None)\<rparr>) (upd_up (\<lambda>u. u\<lparr>reassdatagrams := None\<rparr>) (s1\<lparr>pm := m2\<rparr>))))"
    using d1 up1 dg(2) by (simp add: ip_reass_dequeue_datagram_def datagram_def)
  moreover have "uint (of_nat (length (bufs fs)) :: u8) = int (length (bufs fs))" using small(2) by (simp add: unsigned_of_nat take_bit_nat_eq_self)
  moreover have "packet (memp_free_on MEMP_REASSDATA i m2) (Some p) (bufs fs)" using m2(2) by (simp add: packet_def memp_free_on_def)
  moreover have "on_pm (whole_header (payload b) (r_hdr dg) (datagram_len dg + 20)) s0 = s1"
    by (simp add: s1_def m1_def s0_def on_pm_def upd_datagram_def upd_up_def dg(4) add.commute)
  moreover have "datagram i s0 = Some ?dg" "pm s0 = pm s" "next_pbuf (up s0) = next_pbuf (up s)"
    using dg(1) by (simp_all add: s0_def datagram_def upd_datagram_def upd_up_def)
  ultimately have r: "datagram_complete i prev s = Some (p, s')"
    using rp fa(3) m2(1) clen_packet [of "memp_free_on MEMP_REASSDATA i m2" "Some p" "bufs fs"]
    unfolding datagram_complete_def Let_def s0_def [symmetric] s'_def
    by (simp add: on_pm_def upd_up_def)
  have hd: "hd (bufs fs) = p" using f fa(1) by simp
  have pm': "pm s' = memp_free_on MEMP_REASSDATA i m2" by (simp add: s'_def count_pbufs_def upd_up_def on_pm_def)
  have "complete (r_hdr dg) fs s'"
  proof -
    have g: "get8 (payload b) j (pm s') = get8 (payload b) j m1" for j by (simp add: get8_def pm' memp_free_on_def m2(4))
    have "inet_chksum (payload b) 20 (pm s') = inet_chksum (payload b) 20 m1"
      by (simp add: inet_chksum_sum pm' memp_free_on_def m2(4))
    moreover have "contents (pm s') (bufs fs) = contents m2 (bufs fs)"
      by (intro contents_cong) (simp add: pm' memp_free_on_def bytes_of_def split: option.splits)
    moreover have "drop 20 (contents m1 f @ data gs) = data fs" using e(3) lf f by simp
    moreover have "IPH_LEN (payload b) (pm s') = IPH_LEN (payload b) m1" "IPH_OFFSET (payload b) (pm s') = IPH_OFFSET (payload b) m1"
      by (simp_all add: IPH_LEN_def IPH_OFFSET_def get16_def g)
    moreover have "packet (pm s') (Some p) (bufs fs)" "pbs (pm s') p = Some pb"
      using m2(2) pb(1) by (simp_all add: packet_def pm' memp_free_on_def)
    moreover note whole_header_facts [OF dg(3), where a = "payload b" and n = "of_nat (20 + length (data fs))" and m = "pm s", folded m1_def]
    ultimately show ?thesis unfolding complete_def hd using m2(3) pb(2) g by simp
  qed
  moreover have "reassdatagrams (up s') = None \<and> ip_reass_pbufcount (up s') = 0"
    using up(2) by (simp add: s'_def count_pbufs_def upd_up_def on_pm_def s1_def s0_def upd_datagram_def)
  moreover have "pools (pm s') = (pools (pm s))(MEMP_REASSDATA := i # pools (pm s) MEMP_REASSDATA)"
    by (simp add: pm' memp_free_on_def memp_free_def m2(5) e(2))
  ultimately show ?thesis using r hd by blast
qed

lemma accept_last:
  assumes held: "held i h fs s" and new: "arrives h (length (data fs)) False f d (pm s)" "8 dvd length (data fs)" "length (data fs) + length d + 20 < 65536"
    and own: "owned (pm s) (bufs fs @ f)" "distinct (bufs fs @ f)" and hb: "pbs (pm s) (hd f) = Some b"
    and h: "length h = 20" and n: "length (bufs fs) + length f < 256"
  shows "\<exists>s'. accept_fragment i prev (hd f) (payload b) (of_nat (length (data fs))) (of_nat (length d)) (int (length f)) s =
      Some (Some (hd (bufs (fs @ [(f, d)]))), s') \<and> complete h (fs @ [(f, d)]) s' \<and>
    reassdatagrams (up s') = None \<and> ip_reass_pbufcount (up s') = 0 \<and>
    pools (pm s') = (pools (pm s))(MEMP_REASSDATA := i # pools (pm s) MEMP_REASSDATA)"
proof -
  obtain dg where dg: "datagram i s = Some dg" "r_next dg = None" "r_hdr dg = h" "r_flags dg = 0"
    "frag_links (next_pbuf (up s)) (r_p dg) (map fst fs)"
    and sp: "spans (pm s) 0 fs" and cnt: "ip_reass_pbufcount (up s) = of_nat (length (bufs fs))" and hd: "reassdatagrams (up s) = Some i"
    using held by (auto simp: held_def)
  let ?n = "length (data fs)"
  let ?dg = "dg\<lparr>r_flags := 1, datagram_len := of_nat (?n + length d)\<rparr>"
  define s0 where "s0 = upd_datagram i (\<lambda>x. x\<lparr>r_flags := r_flags x OR 1, datagram_len := of_nat ?n + of_nat (length d)\<rparr>) (count_pbufs (int (length f)) s)"
  define s1 where "s1 = on_pm (with_helper (payload b) (of_nat ?n) (of_nat (?n + length d))) (set_next_pbuf (hd f) None s0)"
  define s2 where "s2 = (if fs = [] then upd_datagram i (\<lambda>x. x\<lparr>r_p := Some (hd f)\<rparr>) s1 else set_next_pbuf (hd (fst (last fs))) (Some (hd f)) s1)"
  have pm: "pm s0 = pm s" "datagram i s0 = Some ?dg" "next_pbuf (up s0) = next_pbuf (up s)"
    using dg(1,4) by (simp_all add: s0_def count_pbufs_def upd_datagram_def upd_up_def datagram_def)
  have c: "ip_reass_chain_frag_into_datagram_and_validate i (hd f) s0 = Some (True, s2)" "spans (pm s1) 0 (fs @ [(f, d)])"
    using chain_in_order [of i s0 ?dg fs h False f d b] dg sp new own hb by (simp_all add: pm s1_def s2_def)
  let ?r = "if fs = [] then Some (hd f) else r_p dg"
  have dh: "distinct (map hd (map fst fs @ [f]))"
    using heads_distinct [OF spans_heads [OF c(2)]] own(2) by simp
  have up2: "datagram i s2 = Some (?dg\<lparr>r_p := ?r\<rparr>)" "reassdatagrams (up s2) = Some i" "pm s2 = pm s1"
    "ip_reass_pbufcount (up s2) = of_nat (length (bufs (fs @ [(f, d)])))"
    "frag_links (next_pbuf (up s2)) ?r (map fst (fs @ [(f, d)]))"
    subgoal using dg(1,4) hd cnt by (cases "fs = []") (simp_all add: s2_def s1_def s0_def count_pbufs_def upd_datagram_def set_next_pbuf_def upd_up_def on_pm_def datagram_def)
    subgoal using hd by (cases "fs = []") (simp_all add: s2_def s1_def s0_def count_pbufs_def upd_datagram_def set_next_pbuf_def upd_up_def on_pm_def)
    subgoal by (simp add: s2_def upd_datagram_def set_next_pbuf_def upd_up_def)
    subgoal using cnt by (cases "fs = []") (simp_all add: s2_def s1_def s0_def count_pbufs_def upd_datagram_def set_next_pbuf_def upd_up_def on_pm_def)
    subgoal using links_end [OF dg(5) dh, of d]
      by (cases "fs = []") (simp_all add: s2_def s1_def s0_def count_pbufs_def upd_datagram_def set_next_pbuf_def upd_up_def on_pm_def)
    done
  have ob: "fst (payload b) = Own (hd f)"
  proof -
    have "hd f \<in> set f" using new(1) by (auto simp: arrives_def)
    then show ?thesis using owned_payload [OF own(1) _ hb] by simp
  qed
  have pm1: "pm s1 = with_helper (payload b) (of_nat ?n) (of_nat (?n + length d)) (pm s)"
    by (simp add: s1_def s0_def count_pbufs_def upd_datagram_def set_next_pbuf_def upd_up_def on_pm_def)
  have "owned (pm s2) (bufs (fs @ [(f, d)]))" using own(1) by (simp add: up2(3) pm1 owned_def)
  then obtain s' where s': "datagram_complete i prev s2 = Some (hd (bufs (fs @ [(f, d)])), s')" "complete h (fs @ [(f, d)]) s'"
    "reassdatagrams (up s') = None" "ip_reass_pbufcount (up s') = 0"
    "pools (pm s') = (pools (pm s2))(MEMP_REASSDATA := i # pools (pm s2) MEMP_REASSDATA)"
    using completed [of i s2 "?dg\<lparr>r_p := ?r\<rparr>" "fs @ [(f, d)]" prev] up2 c(2) own(2) new(3) n dg(2,3) h by auto
  have mf: "ntohs (IPH_OFFSET (payload b) (pm s)) AND IP_MF = 0" using new(1) hb by (auto simp: arrives_def)
  have "accept_fragment i prev (hd f) (payload b) (of_nat ?n) (of_nat (length d)) (int (length f)) s = Some (Some (hd (bufs (fs @ [(f, d)]))), s')"
    using mf c(1) s'(1) unfolding accept_fragment_def Let_def by (simp add: s0_def count_pbufs_def upd_up_def)
  then show ?thesis using s' by (simp add: up2(3) pm1)
qed

fun arriving :: "u8 list \<Rightarrow> nat \<Rightarrow> (addr list \<times> u8 list) list \<Rightarrow> pmem \<Rightarrow> bool" where
  "arriving h k [] m \<longleftrightarrow> True"
| "arriving h k ((f, d) # fs) m \<longleftrightarrow> arrives h k (fs \<noteq> []) f d m \<and> 8 dvd k \<and> arriving h (k + length d) fs m"

lemma arrives_agree:
  assumes a: "agree f m m'" "owned m f" and f: "arrives h k mf f d m"
  shows "arrives h k mf f d m'"
proof -
  obtain p bs b where b: "f = p # bs" "pbs m p = Some b" using f by (auto simp: arrives_def)
  then have g: "get8 (payload b) j m' = get8 (payload b) j m" for j using agree_get [OF a, of p b] by simp
  have "pbs m' p = Some b" using a(1) b by (simp add: agree_def)
  moreover have "IPH_HL (payload b) m' = IPH_HL (payload b) m" "IPH_LEN (payload b) m' = IPH_LEN (payload b) m"
    "IPH_OFFSET (payload b) m' = IPH_OFFSET (payload b) m" "IP_ADDRESSES_AND_ID_MATCH h (payload b) m' = IP_ADDRESSES_AND_ID_MATCH h (payload b) m"
    by (simp_all add: IPH_HL_def IPH_LEN_def IPH_OFFSET_def IP_ADDRESSES_AND_ID_MATCH_def IPH_ID_def get16_def get32_def g)
  ultimately show ?thesis using f b agree_packet [OF a(1), of "Some p"] agree_contents [OF a] by (auto simp: arrives_def)
qed

lemma arriving_agree: "agree (bufs fs) m m' \<Longrightarrow> owned m (bufs fs) \<Longrightarrow> arriving h k fs m \<Longrightarrow> arriving h k fs m'"
proof (induction fs arbitrary: k)
  case (Cons x fs)
  have "agree (fst x) m m'" "owned m (fst x)" using Cons.prems by (auto simp: agree_def owned_def)
  moreover have "agree (bufs fs) m m'" "owned m (bufs fs)" using Cons.prems by (auto simp: agree_def owned_def)
  ultimately show ?case using Cons.IH Cons.prems(3) arrives_agree by (cases x) auto
qed simp

text \<open>What \<^verbatim>\<open>ip_reass\<close> reads from the header of a fragment.\<close>

lemma arrives_header:
  assumes "arrives h k mf f d m" "8 dvd k" "pbs m (hd f) = Some b"
  shows "IPH_HL (payload b) m = 5" "IP_ADDRESSES_AND_ID_MATCH h (payload b) m" "packet m (Some (hd f)) f"
    "(ntohs (IPH_OFFSET (payload b) m) AND IP_OFFMASK) * 8 = of_nat k" "ntohs (IPH_LEN (payload b) m) - 20 = of_nat (length d)"
proof -
  have "(of_nat (k div 8) :: u16) * 8 = of_nat (k div 8 * 8)" by simp
  also have "\<dots> = of_nat k" using assms(2) by simp
  finally show "(ntohs (IPH_OFFSET (payload b) m) AND IP_OFFMASK) * 8 = of_nat k" using assms(1,3) by (auto simp: arrives_def)
  show "IPH_HL (payload b) m = 5" "IP_ADDRESSES_AND_ID_MATCH h (payload b) m" "packet m (Some (hd f)) f"
    "ntohs (IPH_LEN (payload b) m) - 20 = of_nat (length d)" using assms(1,3) by (auto simp: arrives_def)
qed

lemma reass_next:
  assumes held: "held i h fs s" and new: "arrives h (length (data fs)) mf f d (pm s)" "8 dvd length (data fs)"
    and hb: "pbs (pm s) (hd f) = Some b" and n: "length (bufs fs) + length f \<le> 10"
    and z: "ntohs (word16_of (h ! 6) (h ! 7)) AND IP_OFFMASK = 0"
  shows "ip_reass env C (hd f) s = accept_fragment i None (hd f) (payload b) (of_nat (length (data fs))) (of_nat (length d)) (int (length f)) s"
proof -
  obtain dg where dg: "datagram i s = Some dg" "r_hdr dg = h" and cnt: "ip_reass_pbufcount (up s) = of_nat (length (bufs fs))" and hd: "reassdatagrams (up s) = Some i"
    using held by (auto simp: held_def)
  note hf = arrives_header [OF new hb]
  have c: "pbuf_clen (Some (hd f)) (pm s) = Some (of_nat (length f))" using clen_packet [OF hf(3)] .
  have u: "uint (of_nat (length f) :: u8) = int (length f)" using n by (simp add: unsigned_of_nat take_bit_nat_eq_self)
  have "uint (of_nat (length (bufs fs)) :: u16) = int (length (bufs fs))" using n by (simp add: unsigned_of_nat take_bit_nat_eq_self)
  then have "make_room env C (payload b) (int (length f)) s = Some (True, s)" using n cnt by (simp add: make_room_def)
  moreover have "find_datagram (payload b) (reassdatagrams (up s)) None s = Some (Some i, None)"
    using hd dg hf(2) by (subst find_datagram.simps) simp
  moreover have "keep_first_header i (payload b) s = Some s" using dg z by (simp add: keep_first_header_def)
  ultimately show ?thesis using hb hf(1,4,5) c u by (simp add: ip_reass_def Let_def)
qed

lemma reass_first:
  assumes idle: "reassdatagrams (up s) = None" "ip_reass_pbufcount (up s) = 0" "pools (pm s) MEMP_REASSDATA = i # rest"
    and new: "arrives h 0 mf f d (pm s)" and hb: "pbs (pm s) (hd f) = Some b" "h = gets (payload b) 0 20 (pm s)" and n: "length f \<le> 10"
  shows "\<exists>s'. ip_reass env C (hd f) s = accept_fragment i None (hd f) (payload b) 0 (of_nat (length d)) (int (length f)) s' \<and>
    held i h [] s' \<and> pm s' = (pm s)\<lparr>pools := (pools (pm s))(MEMP_REASSDATA := rest)\<rparr>"
proof -
  note hf = arrives_header [OF new _ hb(1)]
  have c: "pbuf_clen (Some (hd f)) (pm s) = Some (of_nat (length f))" using clen_packet [OF hf(3)] by simp
  have u: "uint (of_nat (length f) :: u8) = int (length f)" using n by (simp add: unsigned_of_nat take_bit_nat_eq_self)
  let ?s' = "upd_up (\<lambda>u. u\<lparr>rdata := (rdata u)(i \<mapsto> \<lparr>r_next = None, r_p = None, r_hdr = h, datagram_len = 0, r_flags = 0, r_timer = 3\<rparr>),
    reassdatagrams := Some i\<rparr>) (s\<lparr>pm := (pm s)\<lparr>pools := (pools (pm s))(MEMP_REASSDATA := rest)\<rparr>\<rparr>)"
  have "make_room env C (payload b) (int (length f)) s = Some (True, s)" using n idle(2) by (simp add: make_room_def)
  moreover have "find_datagram (payload b) (reassdatagrams (up s)) None s = Some (None, None)"
    using idle(1) by (subst find_datagram.simps) simp
  moreover have "ip_reass_enqueue_new_datagram env C (payload b) (int (length f)) s = Some (Some i, ?s')"
    using idle hb(2) by (simp add: ip_reass_enqueue_new_datagram_def new_reassdata_def memp_malloc_def upd_up_def gets_def)
  ultimately have "ip_reass env C (hd f) s = accept_fragment i None (hd f) (payload b) 0 (of_nat (length d)) (int (length f)) ?s'"
    using hb(1) hf(1,4,5) c u by (simp add: ip_reass_def Let_def)
  moreover have "held i h [] ?s'" using idle(2) by (simp add: held_def upd_up_def datagram_def)
  ultimately show ?thesis by (intro exI [of _ ?s']) (simp add: upd_up_def)
qed

text \<open>A run of fragments through \<^verbatim>\<open>ip_reass\<close>.\<close>

primrec reass_run ::
  "env \<Rightarrow> (('a fragstate_scheme) nic) ip_calls \<Rightarrow> addr list \<Rightarrow> ('a fragstate_scheme) nic \<Rightarrow> (addr option list \<times> ('a fragstate_scheme) nic) option" where
  "reass_run env C [] s = Some ([], s)"
| "reass_run env C (p # ps) s =
     do {
       (r, s) \<leftarrow> ip_reass env C p s;
       (rs, s) \<leftarrow> reass_run env C ps s;
       Some (r # rs, s)
     }"

lemma run_rest:
  assumes "held i h fs s" "arriving h (length (data fs)) gs (pm s)" "gs \<noteq> []" "owned (pm s) (bufs (fs @ gs))" "distinct (bufs (fs @ gs))"
    "length (data (fs @ gs)) + 20 < 65536" "length (bufs (fs @ gs)) \<le> 10" "length h = 20" "ntohs (word16_of (h ! 6) (h ! 7)) AND IP_OFFMASK = 0"
  shows "\<exists>s'. reass_run env C (map (\<lambda>g. hd (fst g)) gs) s = Some (replicate (length gs - 1) None @ [Some (hd (bufs (fs @ gs)))], s') \<and>
    complete h (fs @ gs) s' \<and> reassdatagrams (up s') = None \<and> ip_reass_pbufcount (up s') = 0 \<and>
    pools (pm s') = (pools (pm s))(MEMP_REASSDATA := i # pools (pm s) MEMP_REASSDATA)"
  using assms
proof (induction gs arbitrary: fs s)
  case (Cons g gs)
  obtain f d where g: "g = (f, d)" by force
  have new: "arrives h (length (data fs)) (gs \<noteq> []) f d (pm s)" "8 dvd length (data fs)" "arriving h (length (data (fs @ [g]))) gs (pm s)"
    using Cons.prems(2) g by simp_all
  obtain b where hb: "pbs (pm s) (hd f) = Some b" using new(1) by (auto simp: arrives_def)
  have own: "owned (pm s) (bufs fs @ f)" using owned_sub [OF Cons.prems(4), of "bufs fs @ f"] g by auto
  have dis: "distinct (bufs fs @ f)" using Cons.prems(5) g by auto
  have len: "length (data fs) + length d + 20 < 65536" "length (bufs fs) + length f \<le> 10" using Cons.prems(6,7) g by simp_all
  note step = reass_next [OF Cons.prems(1) new(1,2) hb len(2) Cons.prems(9), of env C]
  show ?case
  proof (cases "gs = []")
    case True
    with new(1) have l: "arrives h (length (data fs)) False f d (pm s)" by simp
    have "length (bufs fs) + length f < 256" using len(2) by simp
    from accept_last [OF Cons.prems(1) l new(2) len(1) own dis hb Cons.prems(8) this, of None]
    show ?thesis using True g step by auto
  next
    case False
    with new(1) have m: "arrives h (length (data fs)) True f d (pm s)" by simp
    obtain s1 where s1: "accept_fragment i None (hd f) (payload b) (of_nat (length (data fs))) (of_nat (length d)) (int (length f)) s = Some (None, s1)"
      "held i h (fs @ [(f, d)]) s1" "beside (hd f) (pm s) (pm s1)"
      using accept_more [OF Cons.prems(1) m new(2) len(1) own dis hb, of None] by blast
    have pb: "pbs (pm s1) = pbs (pm s)" "pools (pm s1) = pools (pm s)" using s1(3) by (simp_all add: beside_def)
    have "hd f \<in> set f" using new(1) by (auto simp: arrives_def)
    then have "hd f \<notin> set (bufs gs)" using Cons.prems(5) g by auto
    then have a: "arriving h (length (data (fs @ [g]))) gs (pm s1)"
      using arriving_agree [OF beside_agree [OF s1(3)] _ new(3)] owned_sub [OF Cons.prems(4), of "bufs gs"] by auto
    have o: "owned (pm s1) (bufs ((fs @ [g]) @ gs))" using Cons.prems(4) by (simp add: owned_def pb)
    have "held i h (fs @ [g]) s1" "distinct (bufs ((fs @ [g]) @ gs))" "length (data ((fs @ [g]) @ gs)) + 20 < 65536" "length (bufs ((fs @ [g]) @ gs)) \<le> 10"
      using s1(2) g Cons.prems(5-7) by simp_all
    from Cons.IH [OF this(1) a False o this(2-4) Cons.prems(8,9)] obtain s' where s': "reass_run env C (map (\<lambda>g. hd (fst g)) gs) s1 = Some (replicate (length gs - 1) None @ [Some (hd (bufs ((fs @ [g]) @ gs)))], s')"
      "complete h ((fs @ [g]) @ gs) s'" "reassdatagrams (up s') = None" "ip_reass_pbufcount (up s') = 0"
      "pools (pm s') = (pools (pm s1))(MEMP_REASSDATA := i # pools (pm s1) MEMP_REASSDATA)"
      by blast
    have "replicate (length gs) None = None # replicate (length gs - 1) (None :: addr option)" using False by (cases gs) auto
    then show ?thesis using s' s1(1) step g by (simp add: pb fun_upd_def)
  qed
qed simp

text \<open>C19: a datagram is put together. When all its fragments arrive in order, whatever the chains of buffers they are in, each but the last
  is kept and the last one completes the datagram: one packet of all their buffers that carries the data in order behind
  the header of the first fragment, with the length of the whole, no offset and a valid checksum. The element that was
  taken is given back, and nothing is left to wait.\<close>

theorem datagram_reassembled:
  assumes idle: "reassdatagrams (up s) = None" "ip_reass_pbufcount (up s) = 0" "pools (pm s) MEMP_REASSDATA = i # rest"
    and arr: "arriving h 0 fs (pm s)" "2 \<le> length fs" "owned (pm s) (bufs fs)" "distinct (bufs fs)"
    and h: "pbs (pm s) (hd (bufs fs)) = Some b" "h = gets (payload b) 0 20 (pm s)"
    and small: "length (data fs) + 20 < 65536" "length (bufs fs) \<le> 10"
  shows "\<exists>s'. reass_run env C (map (\<lambda>g. hd (fst g)) fs) s = Some (replicate (length fs - 1) None @ [Some (hd (bufs fs))], s') \<and>
    complete h fs s' \<and> reassdatagrams (up s') = None \<and> ip_reass_pbufcount (up s') = 0 \<and> pools (pm s') = pools (pm s)"
proof -
  obtain f d gs where fs: "fs = (f, d) # gs" "gs \<noteq> []" using arr(2) by (cases fs) (auto simp: Suc_le_eq)
  have new: "arrives h 0 True f d (pm s)" "arriving h (length d) gs (pm s)" using arr(1) fs by simp_all
  then have f: "hd (bufs fs) = hd f" "hd f \<in> set f" using fs by (auto simp: arrives_def)
  then have hb: "pbs (pm s) (hd f) = Some b" using h(1) by simp
  have len: "length h = 20" by (simp add: h(2) gets_def)
  have "h ! 6 = get8 (payload b) 6 (pm s)" "h ! 7 = get8 (payload b) 7 (pm s)" by (simp_all add: h(2) gets_def read_at_def get8_def)
  then have z: "ntohs (word16_of (h ! 6) (h ! 7)) AND IP_OFFMASK = 0"
    using new(1) hb by (auto simp: arrives_def IPH_OFFSET_def get16_def)
  obtain s0 where s0: "ip_reass env C (hd f) s = accept_fragment i None (hd f) (payload b) 0 (of_nat (length d)) (int (length f)) s0"
    "held i h [] s0" "pm s0 = (pm s)\<lparr>pools := (pools (pm s))(MEMP_REASSDATA := rest)\<rparr>"
    using reass_first [OF idle new(1) hb h(2)] small(2) fs(1) by fastforce
  have keep: "pbs (pm s0) = pbs (pm s)" "dat (pm s0) = dat (pm s)" by (simp_all add: s0(3))
  have ag: "agree as (pm s) (pm s0)" for as by (simp add: agree_def keep)
  have own: "owned (pm s0) as = owned (pm s) as" for as by (simp add: owned_def keep)
  have oss: "owned (pm s) f" "owned (pm s) (bufs gs)" using owned_sub [OF arr(3)] fs(1) by auto
  have "arrives h (length (data [])) True f d (pm s0)" using arrives_agree [OF ag oss(1) new(1)] by simp
  moreover have "length (data []) + length d + 20 < 65536" using small(1) fs(1) by simp
  moreover have "owned (pm s0) (bufs [] @ f)" "distinct (bufs [] @ f)" using oss(1) arr(4) fs(1) own by auto
  moreover have "pbs (pm s0) (hd f) = Some b" using hb keep(1) by simp
  ultimately obtain s1 where s1: "accept_fragment i None (hd f) (payload b) 0 (of_nat (length d)) (int (length f)) s0 = Some (None, s1)"
    "held i h [(f, d)] s1" "beside (hd f) (pm s0) (pm s1)"
    using accept_more [OF s0(2), of f d b None] by auto
  have "hd f \<notin> set (bufs gs)" using f(2) arr(4) fs(1) by auto
  then have "arriving h (length d) gs (pm s1)"
    using arriving_agree [OF ag oss(2) new(2)] arriving_agree [OF beside_agree [OF s1(3)]] own oss(2) by blast
  moreover have pb: "pbs (pm s1) = pbs (pm s)" "pools (pm s1) = (pools (pm s))(MEMP_REASSDATA := rest)" using s1(3) by (simp_all add: beside_def s0(3))
  moreover have "owned (pm s1) (bufs fs)" using arr(3) by (simp add: owned_def pb)
  ultimately obtain s' where s': "reass_run env C (map (\<lambda>g. hd (fst g)) gs) s1 = Some (replicate (length gs - 1) None @ [Some (hd (bufs fs))], s')"
    "complete h fs s'" "reassdatagrams (up s') = None" "ip_reass_pbufcount (up s') = 0"
    "pools (pm s') = (pools (pm s1))(MEMP_REASSDATA := i # pools (pm s1) MEMP_REASSDATA)"
    using run_rest [OF s1(2) _ fs(2), of env C] arr(4) small len z fs(1) by auto
  have "replicate (length gs) None = None # replicate (length gs - 1) (None :: addr option)" using fs(2) by (cases gs) auto
  moreover have "pools (pm s') = pools (pm s)" using s'(5) idle(3) pb(2) by (simp add: fun_upd_idem)
  ultimately show ?thesis using s' s1(1) s0(1) fs(1) by simp
qed

text \<open>Packets of one buffer each, in memory one after the other.\<close>

definition frag_example :: "u8 list list \<Rightarrow> fragstate nic" where
  "frag_example xs = \<lparr>descs = (\<lambda>_. \<lparr>Status = 0, ControlBufferSize = 0, Buffer1Addr = null_ptr, Buffer2NextDescAddr = DMATxDscrTab 0\<rparr>),
     DMATxDescToSet = DMATxDscrTab 0, DMARxDescToGet = DMARxDscrTab 0,
     pm = \<lparr>pbs = (\<lambda>a. case a of Heap _ \<Rightarrow> None | Memp n \<Rightarrow> if n < length xs
             then Some \<lparr>p_next = None, payload = (Own a, 0), tot_len = of_nat (length (xs ! n)), plen = of_nat (length (xs ! n)),
                        ptype = PBUF_POOL, pflags = 0, pref = 1\<rparr> else None),
           dat = (\<lambda>r i. case r of Own (Memp n) \<Rightarrow> xs ! n ! nat i | _ \<Rightarrow> 0),
           pools = (\<lambda>t. if t = MEMP_REASSDATA then [38, 39, 40] else []), heap = \<lparr>ram = (\<lambda>_. \<lparr>nxt = 0, prv = 0, used = False\<rparr>), lfree = 0\<rparr>\<rparr>,
     io = [],
     up = \<lparr>netifs = (\<lambda>_. undefined), netif_list = [], netif_default = None, netifnum = 0, tcp = undefined,
           arp_table = [], etharp_cached_entry = 0, ip_id = 0, current_netif = None, current_header = None,
           reassdatagrams = None, rdata = (\<lambda>_. None), ip_reass_pbufcount = 0, next_pbuf = (\<lambda>_. None)\<rparr>\<rparr>"

text \<open>A fragment with identification \<open>j\<close>: its offset in units of 8 bytes, and whether more follow.\<close>

definition fragment :: "u8 \<Rightarrow> u8 \<Rightarrow> bool \<Rightarrow> u8 list \<Rightarrow> u8 list" where
  "fragment j k mf d = [0x45, 0, 0, of_nat (20 + length d), 0, j, if mf then 0x20 else 0, k, 64, 17, 0, 0, 10, 0, 0, 1, 10, 0, 0, 2] @ d"

lemma example_get8: "n < length xs \<Longrightarrow> get8 (Own (Memp n), 0) k (pm (frag_example xs)) = xs ! n ! k"
  by (simp add: get8_def frag_example_def)

lemma example_bytes: "n < length xs \<Longrightarrow> length (xs ! n) < 65536 \<Longrightarrow> bytes_of (pm (frag_example xs)) (Memp n) = xs ! n"
  by (intro nth_equalityI) (auto simp: bytes_of_def blen_def read_at_def frag_example_def unat_small)

lemma example_pbs: "n < length xs \<Longrightarrow> pbs (pm (frag_example xs)) (Memp n) =
    Some \<lparr>p_next = None, payload = (Own (Memp n), 0), tot_len = of_nat (length (xs ! n)), plen = of_nat (length (xs ! n)),
      ptype = PBUF_POOL, pflags = 0, pref = 1\<rparr>"
  by (simp add: frag_example_def)

lemma fragment_bytes: "length (fragment j k mf d) = 20 + length d" "drop 20 (fragment j k mf d) = d" "fragment j k mf d ! 0 = 0x45"
    "fragment j k mf d ! Suc 0 = 0" "fragment j k mf d ! 2 = 0" "fragment j k mf d ! 3 = of_nat (20 + length d)" "fragment j k mf d ! 4 = 0" "fragment j k mf d ! 5 = j"
    "fragment j k mf d ! 6 = (if mf then 0x20 else 0)" "fragment j k mf d ! 7 = k" "\<And>i. 8 \<le> i \<Longrightarrow> i < 20 \<Longrightarrow> fragment j k mf d ! i = [64, 17, 0, 0, 10, 0, 0, 1, 10, 0, 0, 2] ! (i - 8)"
  by (auto simp: fragment_def nth_Cons' nth_append)

lemma offset_bits: "(ucast k OR 0x2000) AND 0x1fff = (ucast k :: u16)" "(ucast k OR 0x2000) AND 0x2000 = (0x2000 :: u16)"
    "ucast k AND 0x1fff = (ucast k :: u16)" "ucast k AND 0x2000 = (0 :: u16)" for k :: u8
proof -
  have "(0x2000 :: u16) = push_bit 13 1" "(0x1fff :: u16) = mask 13" by (simp_all add: mask_eq_exp_minus_1)
  then have b: "bit (0x2000 :: u16) n \<longleftrightarrow> n = 13" "bit (0x1fff :: u16) n \<longleftrightarrow> n < 13" for n
    by (simp_all only: bit_push_bit_iff bit_1_iff bit_mask_iff) auto
  show "(ucast k OR 0x2000) AND 0x1fff = (ucast k :: u16)" "(ucast k OR 0x2000) AND 0x2000 = (0x2000 :: u16)"
    "ucast k AND 0x1fff = (ucast k :: u16)" "ucast k AND 0x2000 = (0 :: u16)"
    by (rule bit_word_eqI, simp only: bit_and_iff bit_or_iff bit_unsigned_iff b, fastforce dest: bit_imp_le_length)+
qed

lemma fragment_arrives:
  assumes "n < length xs" "xs ! n = fragment j k mf d" "d \<noteq> []" "length d < 200" "h = take 20 (fragment j k' mf' d')"
  shows "arrives h (8 * unat k) mf [Memp n] d (pm (frag_example xs))"
proof -
  let ?m = "pm (frag_example xs)" and ?a = "(Own (Memp n), 0)"
  have g: "get8 ?a i ?m = fragment j k mf d ! i" for i using example_get8 [OF assms(1)] assms(2) by simp
  have l: "unat (of_nat (20 + length d) :: u16) = 20 + length d" using assms(4) by (simp add: unat_small del: of_nat_add)
  have "IPH_HL ?a ?m = 5" by (simp add: IPH_HL_def get16_def g fragment_bytes nibbles_u16)
  moreover have "ntohs (IPH_LEN ?a ?m) = of_nat (20 + length d)"
  proof -
    have "ntohs (IPH_LEN ?a ?m) = word16_of (of_nat (20 + length d)) 0" by (simp add: IPH_LEN_def get16_def g fragment_bytes)
    also have "\<dots> = of_nat (20 + length d)"
      using assms(4) l by (simp add: word_unat_eq_iff unat_word16_of unsigned_of_nat take_bit_nat_eq_self del: of_nat_add)
    finally show ?thesis .
  qed
  moreover have "ntohs (IPH_OFFSET ?a ?m) = word16_of k (if mf then 0x20 else 0)"
    by (simp add: IPH_OFFSET_def get16_def g fragment_bytes)
  moreover have "word16_of k (if mf then 0x20 else 0) AND IP_OFFMASK = ucast k" "word16_of k (if mf then 0x20 else 0) AND IP_MF = (if mf then 0x2000 else 0)"
    using offset_bits [of k] by (simp_all add: word16_of_def)
  moreover have "unat k div 1 = unat k" "(of_nat (8 * unat k div 8) :: u16) = ucast k" by (simp_all add: unsigned_of_nat)
  moreover have "IP_ADDRESSES_AND_ID_MATCH h ?a ?m"
    using fragment_bytes(1) [of j k' mf' d'] by (simp add: IP_ADDRESSES_AND_ID_MATCH_def IPH_ID_def get16_def get32_def g assms(5) fragment_bytes)
  moreover have "bytes_of ?m (Memp n) = fragment j k mf d" using example_bytes [OF assms(1)] assms(2,4) by (simp add: fragment_bytes)
  moreover have "packet ?m (Some (Memp n)) [Memp n]" using example_pbs [OF assms(1)] by (simp add: packet_def blen_def)
  ultimately show ?thesis using example_pbs [OF assms(1)] assms(2-4) l
    by (simp add: arrives_def fragment_bytes)
qed

lemma fragment_header: "n < length xs \<Longrightarrow> xs ! n = fragment j k mf d \<Longrightarrow> gets (Own (Memp n), 0) 0 20 (pm (frag_example xs)) = take 20 (fragment j k mf d)"
  using fragment_bytes(1) [of j k mf d] by (intro nth_equalityI) (auto simp: gets_def read_at_def frag_example_def)

lemma datagram_reassembled_witness:
  "\<forall>env C. \<exists>s'. reass_run env C [Memp 0, Memp 1] (frag_example [fragment 7 0 True [1, 2, 3, 4, 5, 6, 7, 8], fragment 7 1 False [9, 10]]) =
      Some ([None, Some (Memp 0)], s') \<and> drop 20 (contents (pm s') [Memp 0, Memp 1]) = [1, 2, 3, 4, 5, 6, 7, 8, 9, 10] \<and> reassdatagrams (up s') = None"
proof (intro allI)
  fix env C
  let ?d = "[1, 2, 3, 4, 5, 6, 7, 8] :: u8 list" and ?e = "[9, 10] :: u8 list"
  let ?xs = "[fragment 7 0 True ?d, fragment 7 1 False ?e]"
  let ?s = "frag_example ?xs" and ?fs = "[([Memp 0], ?d), ([Memp 1], ?e)]" and ?h = "take 20 (fragment 7 0 True ?d)"
  have a: "arriving ?h 0 ?fs (pm ?s)"
    using fragment_arrives [of 0 ?xs 7 0 True ?d ?h 0 True ?d] fragment_arrives [of 1 ?xs 7 1 False ?e ?h 0 True ?d] by (simp add: eval_nat_numeral)
  have o: "owned (pm ?s) (bufs ?fs)" using example_pbs [of 0 ?xs] example_pbs [of 1 ?xs] by (simp add: owned_def)
  have i: "reassdatagrams (up ?s) = None" "ip_reass_pbufcount (up ?s) = 0" "pools (pm ?s) MEMP_REASSDATA = 38 # [39, 40]"
    by (simp_all add: frag_example_def)
  have h: "gets (Own (Memp 0), 0) 0 20 (pm ?s) = ?h" using fragment_header [of 0 ?xs] by simp
  obtain s' where "reass_run env C (map (\<lambda>g. hd (fst g)) ?fs) ?s = Some (replicate (length ?fs - 1) None @ [Some (hd (bufs ?fs))], s')"
    "complete ?h ?fs s'" "reassdatagrams (up s') = None"
    using datagram_reassembled [OF i a _ o, of _ env C] example_pbs [of 0 ?xs] h by auto
  then show "\<exists>s'. reass_run env C [Memp 0, Memp 1] ?s = Some ([None, Some (Memp 0)], s') \<and>
      drop 20 (contents (pm s') [Memp 0, Memp 1]) = [1, 2, 3, 4, 5, 6, 7, 8, 9, 10] \<and> reassdatagrams (up s') = None"
    by (intro exI [of _ s']) (simp add: complete_def)
qed

section \<open>Where reassembly goes wrong\<close>

text \<open>C20: a hole is overlooked. The first fragment has come, ending at \<open>a\<close>, and the last one, from \<open>c\<close> on. A fragment that ends at \<open>c\<close> and
  begins behind \<open>a\<close> makes the code report the datagram as complete, although the data from \<open>a\<close> on are missing: a fragment put
  in before another one is not compared with the end of the one before it.\<close>

theorem reass_hole_accepted:
  assumes dg: "datagram i s = Some dg" "r_flags dg AND IP_REASS_FLAG_LASTFRAG \<noteq> 0" "r_p dg = Some p"
    and links: "next_pbuf (up s) p = Some q" "next_pbuf (up s) q = None"
    and ends: "iprh p s = Some (0, a)" "iprh q s = Some (c, e)"
    and new: "pbs (pm s) x = Some b" "owned (pm s) [p, q, x]" "distinct [p, q, x]"
      "k = (ntohs (IPH_OFFSET (payload b) (pm s)) AND IP_OFFMASK) * 8" "k + (ntohs (IPH_LEN (payload b) (pm s)) - IPH_HL (payload b) (pm s) * 4) = c"
    and hole: "a < k" "k < c"
  shows "\<exists>s'. ip_reass_chain_frag_into_datagram_and_validate i x s = Some (True, s') \<and>
    next_pbuf (up s') p = Some x \<and> next_pbuf (up s') x = Some q \<and> iprh p s' = Some (0, a) \<and> iprh x s' = Some (k, c)"
proof -
  define s1 where "s1 = on_pm (with_helper (payload b) k c) (set_next_pbuf x None s)"
  define s2 where "s2 = set_next_pbuf p (Some x) (set_next_pbuf x (Some q) s1)"
  have ox: "fst (payload b) = Own x" using owned_payload [OF new(2) _ new(1)] by simp
  have ag: "agree [p, q] (pm s) (pm s1)" using new(3) ox
    by (intro beside_agree [of x]) (auto simp: s1_def on_pm_def set_next_pbuf_def upd_up_def intro!: beside_helper)
  have o2: "owned (pm s) [p, q]" using owned_sub [OF new(2)] by simp
  have keep: "iprh y s1 = iprh y s" if "y \<in> {p, q}" for y
  proof -
    have "y \<in> set [p, q]" using that by simp
    then obtain yb where y: "pbs (pm s) y = Some yb" using o2 unfolding owned_def by blast
    then have "get8 (payload yb) j (pm s1) = get8 (payload yb) j (pm s)" for j using agree_get [OF ag o2, of y yb j] that by simp
    moreover have "pbs (pm s1) y = Some yb" using ag y that by (auto simp: agree_def)
    ultimately show ?thesis using y by (simp add: iprh_def get16_def)
  qed
  have ix: "iprh x s1 = Some (k, c)"
    using new(1) by (simp add: iprh_def s1_def on_pm_def set_next_pbuf_def upd_up_def) (simp add: with_helper_def get16_put16 get16_put16_other)
  have ip: "iprh p s1 = Some (0, a)" "iprh q s1 = Some (c, e)" using keep ends by simp_all
  have nx: "next_pbuf (up s1) p = Some q" "next_pbuf (up s1) q = None" "datagram i s1 = Some dg"
    using links new(3) dg(1) by (auto simp: s1_def on_pm_def set_next_pbuf_def upd_up_def datagram_def)
  have k: "\<not> k < 0" "k \<noteq> 0" "\<not> k < a" using hole(1) by (auto dest: less_trans)
  have "place_fragment x i (Some q) (Some p) True s1 = Some (Some (Some q, Some p, True), s2)"
    using ix ip k hole by (subst place_fragment.simps) (simp add: s2_def)
  then have pl: "place_fragment x i (Some p) None True s1 = Some (Some (Some q, Some p, True), s2)"
    using ix ip nx k by (subst place_fragment.simps) simp
  have n2: "next_pbuf (up s2) p = Some x" "next_pbuf (up s2) x = Some q" "next_pbuf (up s2) q = None" "datagram i s2 = Some dg"
    using nx new(3) by (auto simp: s2_def set_next_pbuf_def upd_up_def datagram_def)
  have i2: "iprh y s2 = iprh y s1" for y by (simp add: s2_def)
  have "no_holes x s2 = Some True"
    using n2 ix ip by (subst no_holes.simps, simp add: i2, subst no_holes.simps, simp)
  then have v: "validate x i True s2 = Some True" using n2(4) dg(2,3) ip(1) by (simp add: validate_def i2)
  have s1: "on_pm (put16 (payload b) 6 c) (on_pm (put16 (payload b) 4 k) (set_next_pbuf x None s)) = s1"
    by (simp add: s1_def on_pm_def with_helper_def)
  have pr: "pm (set_next_pbuf x None s) = pm s" by (simp add: set_next_pbuf_def upd_up_def)
  have "ip_reass_chain_frag_into_datagram_and_validate i x s = Some (True, s2)"
    unfolding ip_reass_chain_frag_into_datagram_and_validate_def Let_def new(4) [symmetric] new(5)
    using new(1) nx(3) dg(3) pl v by (simp add: s1 [symmetric] pr new(4) [symmetric] new(5))
  then show ?thesis using n2 ix ip by (auto simp: i2)
qed

definition hole_example :: "fragstate nic" where
  "hole_example = upd_up (\<lambda>u. u\<lparr>reassdatagrams := Some 38, ip_reass_pbufcount := 3, next_pbuf := (next_pbuf u)(Memp 0 \<mapsto> Memp 1),
      rdata := [38 \<mapsto> \<lparr>r_next = None, r_p = Some (Memp 0), r_hdr = take 20 (fragment 7 0 True []), datagram_len = 32, r_flags = 1, r_timer = 3\<rparr>]\<rparr>)
    (frag_example [[0, 0, 0, 0, 0, 0, 8, 0], [0, 0, 0, 0, 24, 0, 32, 0], fragment 7 2 True [1, 2, 3, 4, 5, 6, 7, 8]])"

lemma reass_hole_accepted_witness:
  "\<exists>s'. ip_reass_chain_frag_into_datagram_and_validate 38 (Memp 2) hole_example = Some (True, s') \<and>
    iprh (Memp 0) s' = Some (0, 8) \<and> next_pbuf (up s') (Memp 0) = Some (Memp 2) \<and> iprh (Memp 2) s' = Some (16, 24)"
proof -
  let ?xs = "[[0, 0, 0, 0, 0, 0, 8, 0], [0, 0, 0, 0, 24, 0, 32, 0], fragment 7 2 True [1, 2, 3, 4, 5, 6, 7, 8]] :: u8 list list"
  let ?b = "\<lparr>p_next = None, payload = (Own (Memp 2), 0), tot_len = 28, plen = 28, ptype = PBUF_POOL, pflags = 0, pref = 1\<rparr>"
  let ?a = "(Own (Memp 2), 0)"
  have e: "pm hole_example = pm (frag_example ?xs)" by (simp add: hole_example_def upd_up_def)
  have b: "pbs (pm hole_example) (Memp 2) = Some ?b" unfolding e by (subst example_pbs) (simp_all add: fragment_bytes)
  have o: "owned (pm hole_example) [Memp 0, Memp 1, Memp 2]" unfolding e by (simp add: owned_def example_pbs)
  have g: "get8 ?a i (pm hole_example) = fragment 7 2 True [1, 2, 3, 4, 5, 6, 7, 8] ! i" for i
    unfolding e by (subst example_get8) simp_all
  have h: "(ntohs (IPH_OFFSET ?a (pm hole_example)) AND IP_OFFMASK) * 8 = 16"
    "ntohs (IPH_LEN ?a (pm hole_example)) - IPH_HL ?a (pm hole_example) * 4 = 8"
    by (simp_all add: IPH_OFFSET_def IPH_LEN_def IPH_HL_def get16_def g fragment_bytes nibbles_u16) (simp_all add: word16_of_def)
  have i: "iprh (Memp 0) hole_example = Some (0, 8)" "iprh (Memp 1) hole_example = Some (24, 32)"
    by (simp_all add: iprh_def e example_pbs get16_def example_get8) (simp_all add: word16_of_def)
  show ?thesis
    using reass_hole_accepted [of 38 hole_example _ "Memp 0" "Memp 1" 8 24 32 "Memp 2" ?b 16] b o h i
    by (fastforce simp: hole_example_def upd_up_def datagram_def frag_example_def)
qed

text \<open>
  The wrong predecessor. With three datagrams waiting, the last of which the new fragment belongs to, the search picks the
  second one and gives it as its own predecessor; taken out so, its element goes back to the pool while the first
  datagram still points to it.
\<close>

lemma oldest_in_the_middle:
  assumes l: "reassdatagrams (up s) = Some i1" "datagram i1 s = Some d1" "r_next d1 = Some i2" "datagram i2 s = Some d2" "r_next d2 = Some i3"
      "datagram i3 s = Some d3" "r_next d3 = None" "distinct [i1, i2, i3]"
    and m: "\<not> IP_ADDRESSES_AND_ID_MATCH (r_hdr d1) hdr (pm s)" "\<not> IP_ADDRESSES_AND_ID_MATCH (r_hdr d2) hdr (pm s)"
      "IP_ADDRESSES_AND_ID_MATCH (r_hdr d3) hdr (pm s)" "r_timer d2 \<le> r_timer d1"
  shows "oldest_loop hdr (reassdatagrams (up s)) None None 0 s = Some (Some i2, Some i2, 2) \<and>
    (\<exists>s'. ip_reass_dequeue_datagram i2 (Some i2) s = Some s' \<and> datagram i1 s' = Some d1 \<and> datagram i2 s' = None)"
proof
  have o3: "oldest_loop hdr (Some i3) (Some i2) (Some i2) 2 s = Some (Some i2, Some i2, 2)"
    using l(6,7) m(3) by (subst oldest_loop.simps) (simp add: oldest_loop.simps [of hdr None])
  have o2: "oldest_loop hdr (Some i2) (Some i1) (Some i1) 1 s = Some (Some i2, Some i2, 2)"
    using l m o3 by (subst oldest_loop.simps) (simp add: numeral_2_eq_2)
  show "oldest_loop hdr (reassdatagrams (up s)) None None 0 s = Some (Some i2, Some i2, 2)"
    using l(1-3) m(1) o2 by (subst oldest_loop.simps) simp
  show "\<exists>s'. ip_reass_dequeue_datagram i2 (Some i2) s = Some s' \<and> datagram i1 s' = Some d1 \<and> datagram i2 s' = None"
    using l by (simp add: ip_reass_dequeue_datagram_def datagram_def upd_datagram_def upd_up_def on_pm_def)
qed

end
