(* ===== verification/Spec2Isabelle.thy ===== *)
theory Spec2Isabelle
  imports Gpio NetText XvcTransfer TcpServer Rcc Nvic Usart Eth EthRing EthRx EthTx Netconf Board
    Restart Startup MainLoop Inet IpAddr Etharp Netif Ip Ping ArpReply TcpOut TcpTimers TcpIn TcpMachine TcpData IpFrag Reassembly
begin

text \<open>
  The firmware of an STM32F107 board that programs the configuration flashes of FPGAs over TCP. A host
  connects to the board and sends command frames; the board stores an uploaded file in the serial flash that
  configures the FPGA, reads it back, erases it, sets flash and boot mode over a parallel bus to the FPGA board,
  and keeps its own network settings in the on-chip flash. The program runs without an operating system: a main
  loop, the tick interrupt and the Ethernet receive interrupt, the vendor's peripheral drivers, and lwIP 1.3.1.

  \<^bold>\<open>Parts and their interaction.\<close> \<^verbatim>\<open>System_Setup\<close> (\<open>Board\<close>, \<open>Startup\<close>) sets up clocks (\<open>Rcc\<close>), interrupts (\<open>Nvic\<close>), pins
  (\<open>Gpio\<close>), the serial port (\<open>Usart\<close>) and the Ethernet controller (\<open>Eth\<close>), and loads the settings (\<open>FlashInfo\<close>). A frame
  that arrives is taken from the descriptor ring by the interrupt handler (\<open>EthRing\<close>, \<open>EthRx\<close>) into a packet
  (\<open>Pbuf\<close>, over the pools \<open>Memp\<close> and the heap \<open>Mem\<close>) and goes to \<^verbatim>\<open>ethernet_input\<close> (\<open>Ip\<close>), which hands it to address
  resolution (\<open>Etharp\<close>) or to the IP layer; TCP (\<open>TcpIn\<close>, \<open>TcpOut\<close>, \<open>TcpTimers\<close>) keeps the connections; segments for the server reach the callbacks of \<^verbatim>\<open>tcpserver.c\<close>
  (\<open>TcpServer\<close>), which gather a command and call its interpreter (\<open>Xvc\<close>). The interpreter drives the serial
  flash (\<open>SpiFlash\<close> over \<open>SoftSpi\<close>), the bus (\<open>BoardBus\<close>) and the on-chip flash (\<open>FlashInfo\<close> over \<open>FlashCtl\<close>). The main loop
  (\<open>MainLoop\<close>) runs the timers (\<open>Netconf\<close>) and answers an erase command once the flash is done. Outgoing packets go
  through \<open>Ip\<close> and \<open>Etharp\<close> to \<^verbatim>\<open>low_level_output\<close> (\<open>EthRing\<close>, \<open>EthTx\<close>).

  \<^bold>\<open>State.\<close> Hardware is reached by volatile accesses only; its state is the history of these accesses, and what
  a read returns is an argument \<open>env\<close> of the operations (\<open>Mmio\<close>). Nothing is assumed about it except where a
  theorem says so: that a slave shifts its byte out (\<open>SoftSpi\<close>), that a NOR flash does what its commands say
  (\<open>SpiFlash\<close>), that the on-chip controller is as its manual describes (\<open>FlashDev\<close>), that a crystal starts
  (\<open>Startup\<close>), that the DMA engine follows its descriptor chain and leaves out frames with errors, as it is set up to (\<open>EthRx\<close>). The globals of a C file are the fields of
  one record per component: \<open>app\<close> the interpreter's, \<open>srv\<close> the callbacks', \<open>tcps\<close> the control blocks', \<open>netstate\<close> the
  interfaces' with \<open>tcps\<close>, \<open>nic\<close> the driver's descriptors, with the layers above it in the field \<open>up\<close>, \<open>pmem\<close> the packet memory with pools, heap and bytes, \<open>arpstate\<close> the
  resolution table, \<open>ipstate\<close> the IP layer's, \<open>fragstate\<close> with the datagrams being put together. Machine integers are words of their width, so every sum and product
  wraps as in C; lengths that the code computes in \<^verbatim>\<open>int\<close> are \<open>int\<close>. A pointer is an address in a region; a null
  pointer is \<open>None\<close>. Reading through a pointer that holds nothing is undefined behaviour in C and is the value \<open>None\<close>.

  \<^bold>\<open>Theories and sources.\<close>
  \<^item> \<open>Prelude\<close>: machine integers, serialisation, byte sums, bit lists; \<open>Mmio\<close>: register accesses (\<^verbatim>\<open>stm32f10x.h\<close>).
  \<^item> \<open>Gpio\<close>, \<open>Rcc\<close>, \<open>Usart\<close>, \<open>Nvic\<close>, \<open>FlashCtl\<close>: \<^verbatim>\<open>stm32f10x_gpio.c\<close>, \<^verbatim>\<open>_rcc.c\<close> with \<^verbatim>\<open>system_stm32f10x.c\<close>, \<^verbatim>\<open>_usart.c\<close>,
    \<^verbatim>\<open>misc.c\<close> with \<^verbatim>\<open>core_cm3.h\<close>, \<^verbatim>\<open>_flash.c\<close>, function by function. Lemmas: which registers a function touches,
    the divider of the baud rate, 72 MHz after \<^verbatim>\<open>SystemInit\<close>, word programming as two half-words.
  \<^item> \<open>SoftSpi\<close>: the bit-banged SPI of \<^verbatim>\<open>stm32f107.c\<close>; the lemmas give the bits on the wire in both directions, and
    the locale \<open>byte_bus\<close> is what \<open>SpiFlash\<close>, \<^verbatim>\<open>drvflash.c\<close>, uses of it. There: frames on the bus, pages, and
    that written data are read back.
  \<^item> \<open>FlashDev\<close>, \<open>FlashInfo\<close>: \<^verbatim>\<open>flash.c\<close> on a controller that follows its manual; the locale \<open>record_store\<close> is what a
    page of settings provides, with the round trips of settings and byte count and the rejection of damage.
  \<^item> \<open>NetText\<close>: the address parsers; \<open>BoardBus\<close>, \<open>Xvc\<close>: the bus and the command interpreter of \<^verbatim>\<open>tcpserver.c\<close>, with the
    shape of every answer; \<open>XvcTransfer\<close>: whole uploads and downloads; \<open>Restart\<close>: settings across a restart.
  \<^item> \<open>TcpServer\<close>: the connection callbacks; \<open>MainLoop\<close>: \<^verbatim>\<open>main.c\<close> and the erase answer; \<open>Netconf\<close>: \<^verbatim>\<open>netconf.c\<close>, the
    tick and the delay; \<open>Board\<close>, \<open>Startup\<close>: \<^verbatim>\<open>stm32f107.c\<close> and the start of the board.
  \<^item> \<open>Eth\<close>: the registers of \<^verbatim>\<open>stm32_eth.c\<close>; \<open>EthRing\<close>: its descriptors, \<^verbatim>\<open>ethernetif.c\<close> and the interrupt handler;
    \<open>EthRx\<close>: the descriptor ring and \<^verbatim>\<open>low_level_input\<close> refine a queue of four frames; \<open>EthTx\<close>: sending.
  \<^item> \<open>Memp\<close>, \<open>Mem\<close>, \<open>Pbuf\<close>: \<^verbatim>\<open>memp.c\<close>, \<^verbatim>\<open>mem.c\<close>, \<^verbatim>\<open>pbuf.c\<close>; conservation of pool elements, the heap as a refinement of
    an abstract allocator, and packets as lists of buffers. \<open>Inet\<close>: \<^verbatim>\<open>inet.c\<close> and \<^verbatim>\<open>inet_chksum.c\<close>; \<open>IpAddr\<close>:
    \<^verbatim>\<open>ip_addr.c\<close> and header access; \<open>Tcp\<close>: the part of \<^verbatim>\<open>tcp.c\<close> the server calls to set up a connection; \<open>Etharp\<close>: \<^verbatim>\<open>etharp.c\<close> with the invariant
    of its table; \<open>Netif\<close>: \<^verbatim>\<open>netif.c\<close>; \<open>Ip\<close>: \<^verbatim>\<open>ip.c\<close>, \<^verbatim>\<open>icmp.c\<close> and \<^verbatim>\<open>ethernet_input\<close>.
    \<open>Ping\<close>, \<open>ArpReply\<close>: echo and ARP requests are answered, from the received frame to the descriptor handed over.
  \<^item> \<open>TcpOut\<close>: \<^verbatim>\<open>tcp_out.c\<close>, from the queueing of data to segments on the wire, with the order of the queues;
    \<open>TcpTimers\<close>: the rest of \<^verbatim>\<open>tcp.c\<close>, opening, closing and aborting a connection and the slow and the fast timer;
    \<open>TcpIn\<close>: \<^verbatim>\<open>tcp_in.c\<close>, where the static variables of a segment being processed are the record \<open>tcp_rx\<close> and the
    callbacks of the application are the record \<open>tcp_app\<close>. \<open>TcpMachine\<close>: the states of a connection follow RFC 793,
    options are parsed safely, data in sequence are taken; \<open>TcpData\<close>: data that overlap, over any chain of
    buffers, data out of order, damage.
  \<^item> \<open>IpFrag\<close>: \<^verbatim>\<open>ip_frag.c\<close>; \<open>Reassembly\<close>: a datagram whose fragments arrive in order is put together,
    a hole that is overlooked, and the wrong predecessor when the oldest datagram is given up.

  \<^bold>\<open>Bounds and loops.\<close> No operation takes fuel. A loop whose end depends on the hardware or on a chain in memory
  (\<open>Flash_WaitBusy\<close>, \<open>wait_until\<close>, \<open>free_loop\<close>, \<open>malloc_scan\<close>, \<open>deal_loop\<close>, \<open>output_loop\<close>, \<open>slow_active\<close>, \<open>parse_loop\<close> and the like) is a \<open>partial_function\<close> with
  \<open>None\<close> for "does not return"; theorems about what such a loop computes also state that it returns. A loop with
  a time-out counter (\<open>wait_loop\<close>, \<open>hse_wait\<close>, \<open>mii_busy_wait\<close>, \<open>flag_wait\<close>) recurses on that counter. Sizes are those of
  the configuration: four descriptors each way with buffers of 1520 bytes, ten resolution entries, the pools of
  \<^verbatim>\<open>lwipopts.h\<close>, a heap of 20480 bytes, a receive buffer of 2048 bytes, blocks of 896 bytes.

  \<^bold>\<open>Interrupts.\<close> The Ethernet interrupt and the main loop run each operation to its end; the interleaving inside
  one is not modelled, apart from the pools, whose lost update is \<open>memp_malloc_race\<close> in \<open>Memp\<close>.

  \<^bold>\<open>Not modelled.\<close> UDP and raw IP (\<^verbatim>\<open>udp.c\<close>, \<^verbatim>\<open>raw.c\<close>), for which the firmware opens no block: the IP layer
  takes them as arguments (\<open>ip_calls\<close>). In \<open>TcpServer\<close>, calls of \<^verbatim>\<open>tcp_close\<close>, \<^verbatim>\<open>tcp_abort\<close>
  and \<^verbatim>\<open>tcp_output\<close> are recorded rather than run; \<open>TcpTimers\<close> and \<open>TcpOut\<close> say what they do. The application callbacks are
  arguments of the TCP operations, since they may call any of these.
  The time-stamping functions of \<^verbatim>\<open>stm32_eth.c\<close>, which nothing calls. The vendor drivers of peripherals the
  firmware does not use, and the parts of lwIP the configuration leaves out (DHCP, SNMP, PPP, sockets, IPv6). The
  linker and compiler: evaluation is that of C on a little-endian machine.
\<close>

end
